(* ===== verification/CPrelude.thy ===== *)
theory CPrelude
  imports Main "HOL-Library.Word"
begin

text \<open>
  Shared ground of the development: the C integers and characters the sources compute
  with, and the computations of the compiler of \<^verbatim>\<open>src/acwj/62_Cleanup\<close>.

  A C function of the compiler is a computation \<open>('s, 'a) comp\<close>: it takes the program's
  global variables (a record \<open>'s\<close>) and gives a result with the new globals, or it does
  not come back. Not coming back is a value of \<open>cerr\<close>: \<open>Fatal\<close> for the calls of
  \<^verbatim>\<open>fatal\<close>, \<^verbatim>\<open>fatals\<close>, \<^verbatim>\<open>fatald\<close> and \<^verbatim>\<open>fatalc\<close> (print a message and
  \<^verbatim>\<open>exit(1)\<close>), \<open>Crash\<close> where the C program reads through a null pointer or outside an
  array, \<open>NoReturn\<close> where a loop does not stop, and \<open>OutOfFuel\<close> where the recursion bound
  of the model is used up.
\<close>

section \<open>Proof collections\<close>

named_theorems comp_simps \<open>equations that run a computation\<close>
named_theorems model_defs \<open>definitions of the model that evaluation unfolds\<close>

section \<open>Errors and computations\<close>

datatype fatal_msg =
    Msg string            \<comment> \<open>\<open>fatal(s)\<close>\<close>
  | MsgS string string    \<comment> \<open>\<open>fatals(s1, s2)\<close>\<close>
  | MsgD string int       \<comment> \<open>\<open>fatald(s, d)\<close>\<close>
  | MsgC string int       \<comment> \<open>\<open>fatalc(s, c)\<close>\<close>

datatype cerr =
    Fatal fatal_msg int string   \<comment> \<open>message, line number, input file name\<close>
  | Crash string                 \<comment> \<open>undefined behaviour of the C program\<close>
  | NoReturn                     \<comment> \<open>a loop of the C program that does not stop\<close>
  | OutOfFuel                    \<comment> \<open>the recursion bound of the model is used up\<close>

type_synonym ('s, 'a) comp = "'s \<Rightarrow> cerr + ('a \<times> 's)"

definition ret :: "'a \<Rightarrow> ('s, 'a) comp" where
  "ret x s = Inr (x, s)"

definition bnd :: "('s, 'a) comp \<Rightarrow> ('a \<Rightarrow> ('s, 'b) comp) \<Rightarrow> ('s, 'b) comp" where
  "bnd m f s = (case m s of Inl e \<Rightarrow> Inl e | Inr (x, s') \<Rightarrow> f x s')"

definition thn :: "('s, 'a) comp \<Rightarrow> ('s, 'b) comp \<Rightarrow> ('s, 'b) comp" where
  "thn m k = bnd m (\<lambda>_. k)"

definition err :: "cerr \<Rightarrow> ('s, 'a) comp" where
  "err e s = Inl e"

definition gets :: "('s \<Rightarrow> 'a) \<Rightarrow> ('s, 'a) comp" where
  "gets f s = Inr (f s, s)"

definition modify :: "('s \<Rightarrow> 's) \<Rightarrow> ('s, unit) comp" where
  "modify f s = Inr ((), f s)"

text \<open>\<open>rd f k\<close> reads a global and goes on with its value.\<close>

definition rd :: "('s \<Rightarrow> 'a) \<Rightarrow> ('a \<Rightarrow> ('s, 'b) comp) \<Rightarrow> ('s, 'b) comp" where
  "rd f k s = k (f s) s"

definition wr :: "('s \<Rightarrow> 's) \<Rightarrow> ('s, 'b) comp \<Rightarrow> ('s, 'b) comp" where
  "wr f k s = k (f s)"

lemma ret_run [simp, comp_simps]: "ret x s = Inr (x, s)"
  by (simp add: ret_def)

lemma err_run [simp, comp_simps]: "err e s = Inl e"
  by (simp add: err_def)

lemma gets_run [simp, comp_simps]: "gets f s = Inr (f s, s)"
  by (simp add: gets_def)

lemma modify_run [simp, comp_simps]: "modify f s = Inr ((), f s)"
  by (simp add: modify_def)

lemma rd_run [simp, comp_simps]: "rd f k s = k (f s) s"
  by (simp add: rd_def)

lemma wr_run [simp, comp_simps]: "wr f k s = k (f s)"
  by (simp add: wr_def)

lemma bnd_Inr [simp, comp_simps]: "m s = Inr (x, s') \<Longrightarrow> bnd m f s = f x s'"
  by (simp add: bnd_def)

lemma bnd_Inl [simp, comp_simps]: "m s = Inl e \<Longrightarrow> bnd m f s = Inl e"
  by (simp add: bnd_def)

lemma thn_Inr [simp, comp_simps]: "m s = Inr (x, s') \<Longrightarrow> thn m k s = k s'"
  by (simp add: thn_def)

lemma thn_Inl [simp, comp_simps]: "m s = Inl e \<Longrightarrow> thn m k s = Inl e"
  by (simp add: thn_def)

lemma bnd_eq_Inr:
  "bnd m f s = Inr r \<longleftrightarrow> (\<exists>x s'. m s = Inr (x, s') \<and> f x s' = Inr r)"
  by (auto simp: bnd_def split: sum.splits)

lemma thn_eq_Inr:
  "thn m k s = Inr r \<longleftrightarrow> (\<exists>x s'. m s = Inr (x, s') \<and> k s' = Inr r)"
  by (auto simp: thn_def bnd_eq_Inr)

lemma bnd_assoc: "bnd (bnd m f) g = bnd m (\<lambda>x. bnd (f x) g)"
  by (rule ext) (auto simp: bnd_def split: sum.splits)

section \<open>C integers\<close>

text \<open>
  The \<^verbatim>\<open>int\<close> of the sources is 32 bits wide. Where a value comes from the program being
  compiled (literals, folded constants, enumeration values, array sizes) the model wraps
  every result with \<open>i32\<close>, as two's complement code does. Counters that grow with the
  length of the input (labels, arguments, cases) are unbounded integers.
\<close>

definition i32 :: "int \<Rightarrow> int" where
  "i32 x = (x + 2147483648) mod 4294967296 - 2147483648"

definition in_i32 :: "int \<Rightarrow> bool" where
  "in_i32 x \<longleftrightarrow> -2147483648 \<le> x \<and> x \<le> 2147483647"

lemma i32_id [simp]: "in_i32 x \<Longrightarrow> i32 x = x"
  by (simp add: i32_def in_i32_def)

lemma i32_range [simp]: "in_i32 (i32 x)"
proof -
  have "0 \<le> (x + 2147483648) mod 4294967296" "(x + 2147483648) mod 4294967296 < 4294967296"
    by simp_all
  then show ?thesis by (simp add: i32_def in_i32_def)
qed

lemma i32_i32 [simp]: "i32 (i32 x) = i32 x"
  by simp

text \<open>C division truncates towards zero.\<close>

definition cdiv :: "int \<Rightarrow> int \<Rightarrow> int" where
  "cdiv a b = sgn a * sgn b * (\<bar>a\<bar> div \<bar>b\<bar>)"

definition cmod :: "int \<Rightarrow> int \<Rightarrow> int" where
  "cmod a b = a - cdiv a b * b"

section \<open>Characters\<close>

text \<open>
  A character that \<^verbatim>\<open>fgetc\<close> returns is an \<^verbatim>\<open>int\<close>: the byte, or \<open>EOF\<close>. \<open>cc\<close> gives the
  byte of a character, so that \<open>c = cc (CHR ''+'')\<close> is the source's \<^verbatim>\<open>c == '+'\<close>.
\<close>

definition EOF :: int where [model_defs]: "EOF = -1"

definition cc :: "char \<Rightarrow> int" where "cc c = of_char c"

lemma cc_inject [simp]: "cc a = cc b \<longleftrightarrow> a = b"
  by (simp add: cc_def)

lemma cc_range: "0 \<le> cc c" "cc c < 256"
  using of_char_of [of "0"] by (auto simp: cc_def of_char_def)

lemma cc_not_EOF [simp]: "cc c \<noteq> EOF" "EOF \<noteq> cc c"
  using cc_range(1) [of c] by (auto simp: EOF_def)

text \<open>The C cast \<^verbatim>\<open>(char) c\<close>.\<close>

definition to_char :: "int \<Rightarrow> char" where
  "to_char c = char_of c"

lemma to_char_cc [simp]: "to_char (cc c) = c"
  by (simp add: to_char_def cc_def)

definition isdigit :: "int \<Rightarrow> bool" where
  [model_defs]: "isdigit c \<longleftrightarrow> 48 \<le> c \<and> c \<le> 57"

definition isalpha :: "int \<Rightarrow> bool" where
  [model_defs]: "isalpha c \<longleftrightarrow> 65 \<le> c \<and> c \<le> 90 \<or> 97 \<le> c \<and> c \<le> 122"

definition isxdigit :: "int \<Rightarrow> bool" where
  [model_defs]: "isxdigit c \<longleftrightarrow>
     isdigit c \<or> 65 \<le> c \<and> c \<le> 70 \<or> 97 \<le> c \<and> c \<le> 102"

definition tolower :: "int \<Rightarrow> int" where
  [model_defs]: "tolower c = (if 65 \<le> c \<and> c \<le> 90 then c + 32 else c)"

section \<open>Printing numbers\<close>

text \<open>\<^verbatim>\<open>%d\<close> of \<^verbatim>\<open>fprintf\<close>.\<close>

fun dec_nat :: "nat \<Rightarrow> string" where
  "dec_nat n =
     (if n < 10 then [char_of (48 + n)] else dec_nat (n div 10) @ [char_of (48 + n mod 10)])"

declare dec_nat.simps [simp del]

definition dec :: "int \<Rightarrow> string" where
  "dec x = (if x < 0 then CHR ''-'' # dec_nat (nat (- x)) else dec_nat (nat x))"

end
