(* ===== verification/Defs.thy ===== *)
theory Defs
  imports CPrelude
begin

text \<open>
  The data of the compiler in \<^verbatim>\<open>src/acwj/62_Cleanup\<close>: the enumerations and structures of
  \<^verbatim>\<open>defs.h\<close>, the global variables of \<^verbatim>\<open>data.h\<close> (and the file-local ones of \<^verbatim>\<open>gen.c\<close> and
  \<^verbatim>\<open>cg.c\<close>) as one record in three layers, and the assembly lines that \<^verbatim>\<open>cg.c\<close> prints.

  Enumerations are datatypes with the source's constants; \<open>tok_num\<close> and \<open>ast_num\<close> give
  their C values. The primitive types \<^verbatim>\<open>P_xxx\<close> stay integers, because the code computes with
  them (the low four bits are the level of indirection).

  Pointers to symbol table entries are indices into \<open>Heap\<close>, and \<open>None\<close> is \<^verbatim>\<open>NULL\<close>. The
  linked lists (a head, a tail and \<^verbatim>\<open>next\<close> fields) are lists of such pointers. A tree node
  is a value, because every node has one owner; \<open>Null\<close> is the \<^verbatim>\<open>NULL\<close> tree. The field
  \<^verbatim>\<open>rvalue\<close>, which \<^verbatim>\<open>mkastnode\<close> leaves uninitialised, starts as \<open>False\<close>, the value of the
  fresh pages that \<^verbatim>\<open>malloc\<close> hands out.
\<close>

section \<open>Enumerations of \<^verbatim>\<open>defs.h\<close>\<close>

datatype (plugins only: code size) toktype =
    T_EOF
  | T_ASSIGN | T_ASPLUS | T_ASMINUS | T_ASSTAR | T_ASSLASH | T_ASMOD
  | T_QUESTION | T_LOGOR | T_LOGAND | T_OR | T_XOR | T_AMPER
  | T_EQ | T_NE | T_LT | T_GT | T_LE | T_GE | T_LSHIFT | T_RSHIFT
  | T_PLUS | T_MINUS | T_STAR | T_SLASH | T_MOD
  | T_INC | T_DEC | T_INVERT | T_LOGNOT
  | T_VOID | T_CHAR | T_INT | T_LONG
  | T_IF | T_ELSE | T_WHILE | T_FOR | T_RETURN
  | T_STRUCT | T_UNION | T_ENUM | T_TYPEDEF
  | T_EXTERN | T_BREAK | T_CONTINUE | T_SWITCH
  | T_CASE | T_DEFAULT | T_SIZEOF | T_STATIC
  | T_INTLIT | T_STRLIT | T_SEMI | T_IDENT
  | T_LBRACE | T_RBRACE | T_LPAREN | T_RPAREN
  | T_LBRACKET | T_RBRACKET | T_COMMA | T_DOT | T_ARROW | T_COLON

primrec tok_num :: "toktype \<Rightarrow> int" where
    "tok_num T_EOF = 0" | "tok_num T_ASSIGN = 1" | "tok_num T_ASPLUS = 2" | "tok_num T_ASMINUS = 3"
  | "tok_num T_ASSTAR = 4" | "tok_num T_ASSLASH = 5" | "tok_num T_ASMOD = 6" | "tok_num T_QUESTION = 7"
  | "tok_num T_LOGOR = 8" | "tok_num T_LOGAND = 9" | "tok_num T_OR = 10" | "tok_num T_XOR = 11"
  | "tok_num T_AMPER = 12" | "tok_num T_EQ = 13" | "tok_num T_NE = 14" | "tok_num T_LT = 15"
  | "tok_num T_GT = 16" | "tok_num T_LE = 17" | "tok_num T_GE = 18" | "tok_num T_LSHIFT = 19"
  | "tok_num T_RSHIFT = 20" | "tok_num T_PLUS = 21" | "tok_num T_MINUS = 22" | "tok_num T_STAR = 23"
  | "tok_num T_SLASH = 24" | "tok_num T_MOD = 25" | "tok_num T_INC = 26" | "tok_num T_DEC = 27"
  | "tok_num T_INVERT = 28" | "tok_num T_LOGNOT = 29" | "tok_num T_VOID = 30" | "tok_num T_CHAR = 31"
  | "tok_num T_INT = 32" | "tok_num T_LONG = 33" | "tok_num T_IF = 34" | "tok_num T_ELSE = 35"
  | "tok_num T_WHILE = 36" | "tok_num T_FOR = 37" | "tok_num T_RETURN = 38" | "tok_num T_STRUCT = 39"
  | "tok_num T_UNION = 40" | "tok_num T_ENUM = 41" | "tok_num T_TYPEDEF = 42" | "tok_num T_EXTERN = 43"
  | "tok_num T_BREAK = 44" | "tok_num T_CONTINUE = 45" | "tok_num T_SWITCH = 46" | "tok_num T_CASE = 47"
  | "tok_num T_DEFAULT = 48" | "tok_num T_SIZEOF = 49" | "tok_num T_STATIC = 50" | "tok_num T_INTLIT = 51"
  | "tok_num T_STRLIT = 52" | "tok_num T_SEMI = 53" | "tok_num T_IDENT = 54" | "tok_num T_LBRACE = 55"
  | "tok_num T_RBRACE = 56" | "tok_num T_LPAREN = 57" | "tok_num T_RPAREN = 58" | "tok_num T_LBRACKET = 59"
  | "tok_num T_RBRACKET = 60" | "tok_num T_COMMA = 61" | "tok_num T_DOT = 62" | "tok_num T_ARROW = 63"
  | "tok_num T_COLON = 64"

datatype (plugins only: code size) astop =
    A_ASSIGN | A_ASPLUS | A_ASMINUS | A_ASSTAR
  | A_ASSLASH | A_ASMOD | A_TERNARY | A_LOGOR
  | A_LOGAND | A_OR | A_XOR | A_AND | A_EQ | A_NE | A_LT
  | A_GT | A_LE | A_GE | A_LSHIFT | A_RSHIFT
  | A_ADD | A_SUBTRACT | A_MULTIPLY | A_DIVIDE | A_MOD
  | A_INTLIT | A_STRLIT | A_IDENT | A_GLUE
  | A_IF | A_WHILE | A_FUNCTION | A_WIDEN | A_RETURN
  | A_FUNCCALL | A_DEREF | A_ADDR | A_SCALE
  | A_PREINC | A_PREDEC | A_POSTINC | A_POSTDEC
  | A_NEGATE | A_INVERT | A_LOGNOT | A_TOBOOL | A_BREAK
  | A_CONTINUE | A_SWITCH | A_CASE | A_DEFAULT | A_CAST

primrec ast_num :: "astop \<Rightarrow> int" where
    "ast_num A_ASSIGN = 1" | "ast_num A_ASPLUS = 2" | "ast_num A_ASMINUS = 3" | "ast_num A_ASSTAR = 4"
  | "ast_num A_ASSLASH = 5" | "ast_num A_ASMOD = 6" | "ast_num A_TERNARY = 7" | "ast_num A_LOGOR = 8"
  | "ast_num A_LOGAND = 9" | "ast_num A_OR = 10" | "ast_num A_XOR = 11" | "ast_num A_AND = 12"
  | "ast_num A_EQ = 13" | "ast_num A_NE = 14" | "ast_num A_LT = 15" | "ast_num A_GT = 16"
  | "ast_num A_LE = 17" | "ast_num A_GE = 18" | "ast_num A_LSHIFT = 19" | "ast_num A_RSHIFT = 20"
  | "ast_num A_ADD = 21" | "ast_num A_SUBTRACT = 22" | "ast_num A_MULTIPLY = 23" | "ast_num A_DIVIDE = 24"
  | "ast_num A_MOD = 25" | "ast_num A_INTLIT = 26" | "ast_num A_STRLIT = 27" | "ast_num A_IDENT = 28"
  | "ast_num A_GLUE = 29" | "ast_num A_IF = 30" | "ast_num A_WHILE = 31" | "ast_num A_FUNCTION = 32"
  | "ast_num A_WIDEN = 33" | "ast_num A_RETURN = 34" | "ast_num A_FUNCCALL = 35" | "ast_num A_DEREF = 36"
  | "ast_num A_ADDR = 37" | "ast_num A_SCALE = 38" | "ast_num A_PREINC = 39" | "ast_num A_PREDEC = 40"
  | "ast_num A_POSTINC = 41" | "ast_num A_POSTDEC = 42" | "ast_num A_NEGATE = 43" | "ast_num A_INVERT = 44"
  | "ast_num A_LOGNOT = 45" | "ast_num A_TOBOOL = 46" | "ast_num A_BREAK = 47" | "ast_num A_CONTINUE = 48"
  | "ast_num A_SWITCH = 49" | "ast_num A_CASE = 50" | "ast_num A_DEFAULT = 51" | "ast_num A_CAST = 52"

text \<open>The operations in the order of their values, from \<^verbatim>\<open>A_ASSIGN = 1\<close> on.\<close>

definition ast_ops :: "astop list" where
  "ast_ops =
    [A_ASSIGN, A_ASPLUS, A_ASMINUS, A_ASSTAR,
     A_ASSLASH, A_ASMOD, A_TERNARY, A_LOGOR,
     A_LOGAND, A_OR, A_XOR, A_AND, A_EQ, A_NE, A_LT,
     A_GT, A_LE, A_GE, A_LSHIFT, A_RSHIFT,
     A_ADD, A_SUBTRACT, A_MULTIPLY, A_DIVIDE, A_MOD,
     A_INTLIT, A_STRLIT, A_IDENT, A_GLUE,
     A_IF, A_WHILE, A_FUNCTION, A_WIDEN, A_RETURN,
     A_FUNCCALL, A_DEREF, A_ADDR, A_SCALE,
     A_PREINC, A_PREDEC, A_POSTINC, A_POSTDEC,
     A_NEGATE, A_INVERT, A_LOGNOT, A_TOBOOL, A_BREAK,
     A_CONTINUE, A_SWITCH, A_CASE, A_DEFAULT, A_CAST]"

definition TEXTLEN :: nat where [model_defs]: "TEXTLEN = 512"

abbreviation (input) P_NONE :: int where "P_NONE \<equiv> 0"
abbreviation (input) P_VOID :: int where "P_VOID \<equiv> 16"
abbreviation (input) P_CHAR :: int where "P_CHAR \<equiv> 32"
abbreviation (input) P_INT :: int where "P_INT \<equiv> 48"
abbreviation (input) P_LONG :: int where "P_LONG \<equiv> 64"
abbreviation (input) P_STRUCT :: int where "P_STRUCT \<equiv> 80"
abbreviation (input) P_UNION :: int where "P_UNION \<equiv> 96"

abbreviation (input) NOREG :: int where "NOREG \<equiv> -1"
abbreviation (input) NOLABEL :: int where "NOLABEL \<equiv> 0"

datatype stype = S_VARIABLE | S_FUNCTION | S_ARRAY

text \<open>\<open>C_NONE\<close> is the value 0 that \<^verbatim>\<open>parse_cast\<close> and \<^verbatim>\<open>typedef_declaration\<close> start with.\<close>

datatype sclass =
    C_NONE | C_GLOBAL | C_LOCAL | C_PARAM | C_EXTERN | C_STATIC | C_STRUCT
  | C_UNION | C_MEMBER | C_ENUMTYPE | C_ENUMVAL | C_TYPEDEF

section \<open>Structures of \<^verbatim>\<open>defs.h\<close>\<close>

record token =
  token :: toktype
  tokstr :: string
  intvalue :: int

type_synonym ptr = nat

record symtable =
  s_name :: "string option"
  s_type :: int
  s_ctype :: "ptr option"
  s_stype :: stype
  s_class :: sclass
  s_size :: int
  s_nelems :: int
  s_posn :: int                    \<comment> \<open>for functions, \<^verbatim>\<open>st_endlabel\<close>\<close>
  s_initlist :: "int list option"
  s_member :: "ptr list"

datatype (plugins only: code size) ast =
    Null
  | Node (op: astop) (ntype: int) (nctype: "ptr option") (rvalue: bool)
      (left: ast) (mid: ast) (right: ast) (nsym: "ptr option")
      (a_intvalue: int) (linenum: int)

text \<open>Assignments to the fields of a node.\<close>

fun set_op :: "astop \<Rightarrow> ast \<Rightarrow> ast" where
  "set_op q' Null = Null"
| "set_op q' (Node q t c rv l m r s i n) = Node q' t c rv l m r s i n"

fun set_type :: "int \<Rightarrow> ast \<Rightarrow> ast" where
  "set_type t' Null = Null"
| "set_type t' (Node q t c rv l m r s i n) = Node q t' c rv l m r s i n"

fun set_rvalue :: "ast \<Rightarrow> ast" where
  "set_rvalue Null = Null"
| "set_rvalue (Node q t c rv l m r s i n) = Node q t c True l m r s i n"

fun set_line :: "int \<Rightarrow> ast \<Rightarrow> ast" where
  "set_line k Null = Null"
| "set_line k (Node q t c rv l m r s i n) = Node q t c rv l m r s i k"

section \<open>Assembly lines\<close>

text \<open>
  One constructor for each form of line that \<^verbatim>\<open>cg.c\<close> prints; registers are indices into
  \<^verbatim>\<open>reglist\<close>, \<^verbatim>\<open>breglist\<close> and \<^verbatim>\<open>dreglist\<close>, sizes are in bytes.
\<close>

datatype binop = ADDQ | SUBQ | IMULQ | ANDQ | ORQ | XORQ
datatype cond = CE | CNE | CL | CG | CLE | CGE | CNZ
datatype asm_seg = no_seg | text_seg | data_seg

datatype (plugins only: code size) instr =
    TextSeg | DataSeg
  | PushQ int | PopQ int
  | MovImm int int
  | Bin binop int int              \<comment> \<open>source, destination\<close>
  | RaxFrom int | Cqo | IDivQ int | RaxTo int | RdxTo int
  | ClFrom int | ShlCl int | ShrCl int
  | NegQ int | NotQ int | Test int
  | SetCC cond int | MovZBQ int
  | Cmp int int int                \<comment> \<open>size, source, destination\<close>
  | JccL cond int | JmpL int | LabelL int
  | LeaLocal int int | LeaGlobal string int | LeaLabel int int
  | LoadLocal int int int | LoadGlobal int string int
  | AddMem int int int
  | StoreLocal int int int | StoreGlobal int int string
  | LoadDeref int int | StoreDeref int int int
  | CallF string | PopArgs int | RaxRes int | AddRsp int
  | MovQ int int
  | RetMov int int
  | SalQ int int
  | ByteD int | LongD int | QuadD int | QuadL int | QuadCase int int
  | GloblD string | NameL string | FuncType string
  | PushRbp | MovRspRbp | PopRbpRet
  | SwRaxFrom int | SwLeaRdx int | JmpSwitch
  | Preamble string

section \<open>Global variables\<close>

text \<open>
  \<open>scanner\<close>: the variables \<^verbatim>\<open>scan.c\<close> works on; \<open>Infile\<close> is the input still to be read.
  \<open>symtabs\<close> adds the symbol tables and the parser's variables, \<open>compiler\<close> those of the code
  generator; \<open>Outfile\<close> holds the lines printed so far.
\<close>

record scanner =
  Infile :: string
  Line :: int
  Linestart :: bool
  Putback :: int
  Infilename :: string
  Token :: token
  Peektoken :: token
  Text :: string

record symtabs = scanner +
  Heap :: "symtable list"
  Glob :: "ptr list"
  Locl :: "ptr list"
  Parm :: "ptr list"
  Memb :: "ptr list"
  Structs :: "ptr list"
  Unions :: "ptr list"
  Enums :: "ptr list"
  Typedefs :: "ptr list"
  Functionid :: "ptr option"
  Looplevel :: int
  Switchlevel :: int

record compiler = symtabs +
  labelid :: int
  currSeg :: asm_seg
  localOffset :: int
  stackOffset :: int
  freereg :: "bool list"
  spillreg :: int
  Outfile :: "instr list"

section \<open>\<^verbatim>\<open>fatal\<close> and its kin\<close>

text \<open>
  Each prints its message with the current line and file name, removes the output file and
  exits (\<^verbatim>\<open>misc.c\<close>).
\<close>

definition die :: "fatal_msg \<Rightarrow> ('z scanner_scheme, 'a) comp" where
  "die m s = Inl (Fatal m (Line s) (Infilename s))"

definition fatal :: "string \<Rightarrow> ('z scanner_scheme, 'a) comp" where
  "fatal m = die (Msg m)"

definition fatals :: "string \<Rightarrow> string \<Rightarrow> ('z scanner_scheme, 'a) comp" where
  "fatals m t = die (MsgS m t)"

definition fatald :: "string \<Rightarrow> int \<Rightarrow> ('z scanner_scheme, 'a) comp" where
  "fatald m d = die (MsgD m d)"

definition fatalc :: "string \<Rightarrow> int \<Rightarrow> ('z scanner_scheme, 'a) comp" where
  "fatalc m c = die (MsgC m c)"

lemmas fatal_defs [comp_simps] = die_def fatal_def fatals_def fatald_def fatalc_def

end
