(* ===== verification/Tree.thy ===== *)
theory Tree
  imports Defs "HOL-Library.Monad_Syntax"
begin

text \<open>
  Building tree nodes (\<^verbatim>\<open>tree.c\<close>) and constant folding (\<^verbatim>\<open>opt.c\<close>). \<^verbatim>\<open>malloc\<close> is taken not
  to fail. Folding gives \<open>None\<close> where the C program divides \<^verbatim>\<open>INT_MIN\<close> by \<open>-1\<close>, which
  traps.
\<close>

section \<open>\<^verbatim>\<open>tree.c\<close>\<close>

definition mkastnode :: "astop \<Rightarrow> int \<Rightarrow> ptr option \<Rightarrow> ast \<Rightarrow> ast \<Rightarrow> ast \<Rightarrow> ptr option \<Rightarrow> int \<Rightarrow> ast" where
  "mkastnode q t c l m r sy v = Node q t c False l m r sy v 0"

definition mkastleaf :: "astop \<Rightarrow> int \<Rightarrow> ptr option \<Rightarrow> ptr option \<Rightarrow> int \<Rightarrow> ast" where
  "mkastleaf q t c sy v = mkastnode q t c Null Null Null sy v"

definition mkastunary :: "astop \<Rightarrow> int \<Rightarrow> ptr option \<Rightarrow> ast \<Rightarrow> ptr option \<Rightarrow> int \<Rightarrow> ast" where
  "mkastunary q t c l sy v = mkastnode q t c l Null Null sy v"

lemmas mkast_defs [simp, model_defs] = mkastnode_def mkastleaf_def mkastunary_def

section \<open>\<^verbatim>\<open>opt.c\<close>\<close>

definition fold2 :: "ast \<Rightarrow> ast option" where
  "fold2 n =
     (let lv = a_intvalue (left n); rv = a_intvalue (right n);
          leaf = (\<lambda>val. mkastleaf A_INTLIT (ntype n) None None val)
      in case op n of
           A_ADD \<Rightarrow> Some (leaf (i32 (lv + rv)))
         | A_SUBTRACT \<Rightarrow> Some (leaf (i32 (lv - rv)))
         | A_MULTIPLY \<Rightarrow> Some (leaf (i32 (lv * rv)))
         | A_DIVIDE \<Rightarrow>
             (if rv = 0 then Some n
              else if lv = -2147483648 \<and> rv = -1 then None
              else Some (leaf (cdiv lv rv)))
         | _ \<Rightarrow> Some n)"

definition fold1 :: "ast \<Rightarrow> ast" where
  "fold1 n =
     (let v = a_intvalue (left n); leaf = (\<lambda>val. mkastleaf A_INTLIT (ntype n) None None val)
      in case op n of
           A_WIDEN \<Rightarrow> leaf v
         | A_INVERT \<Rightarrow> leaf (- v - 1)
         | A_LOGNOT \<Rightarrow> leaf (if v = 0 then 1 else 0)
         | _ \<Rightarrow> n)"

definition is_op :: "astop \<Rightarrow> ast \<Rightarrow> bool" where
  "is_op q n \<longleftrightarrow> (case n of Null \<Rightarrow> False | _ \<Rightarrow> op n = q)"

lemma is_op_simps [simp]:
  "\<not> is_op q Null"
  "is_op q (Node q' t c rv l m r sy v ln) \<longleftrightarrow> q' = q"
  by (simp_all add: is_op_def)

text \<open>\<^verbatim>\<open>fold\<close> visits the left and the right child, not the middle one.\<close>

primrec fold_ast :: "ast \<Rightarrow> ast option" where
  "fold_ast Null = Some Null"
| "fold_ast (Node q t c rv l m r sy v ln) =
     do {
       l' \<leftarrow> fold_ast l;
       r' \<leftarrow> fold_ast r;
       let n = Node q t c rv l' m r' sy v ln;
       if is_op A_INTLIT l' then
         (if is_op A_INTLIT r' then fold2 n else Some (fold1 n))
       else Some n
     }"

definition optimise :: "ast \<Rightarrow> ('s, ast) comp" where
  "optimise n = (case fold_ast n of
     None \<Rightarrow> err (Crash ''INT_MIN / -1'') | Some n' \<Rightarrow> ret n')"

end
