(* ===== verification/Types.thy ===== *)
theory Types
  imports Tree
begin

text \<open>
  Types and their sizes: \<^verbatim>\<open>types.c\<close>, and \<^verbatim>\<open>cgprimsize\<close> and \<^verbatim>\<open>cgalign\<close> of \<^verbatim>\<open>cg.c\<close> (called
  through \<^verbatim>\<open>genprimsize\<close> and \<^verbatim>\<open>genalign\<close> of \<^verbatim>\<open>gen.c\<close>). The low four bits of a type are
  \<open>type mod 16\<close>; this agrees with \<^verbatim>\<open>type & 0xf\<close> for negative values too.
\<close>

unbundle bit_operations_syntax

type_synonym ('z, 'a) tcomp = "('z symtabs_scheme, 'a) comp"

text \<open>Reading a symbol table entry through a pointer.\<close>

definition deref :: "ptr \<Rightarrow> (symtable \<Rightarrow> ('z, 'b) tcomp) \<Rightarrow> ('z, 'b) tcomp" where
  "deref p k = rd Heap (\<lambda>h. if p < length h then k (h ! p) else err (Crash ''bad symbol pointer''))"

definition deref_opt :: "ptr option \<Rightarrow> (symtable \<Rightarrow> ('z, 'b) tcomp) \<Rightarrow> ('z, 'b) tcomp" where
  "deref_opt p k = (case p of None \<Rightarrow> err (Crash ''null symbol pointer'') | Some q \<Rightarrow> deref q k)"

definition inttype :: "int \<Rightarrow> bool" where
  "inttype type \<longleftrightarrow> type mod 16 = 0 \<and> type \<ge> P_CHAR \<and> type \<le> P_LONG"

definition ptrtype :: "int \<Rightarrow> bool" where
  "ptrtype type \<longleftrightarrow> type mod 16 \<noteq> 0"

definition pointer_to :: "int \<Rightarrow> ('z, int) tcomp" where
  "pointer_to type =
     (if type mod 16 = 15 then fatald ''Unrecognised in pointer_to: type'' type
      else ret (type + 1))"

definition value_at :: "int \<Rightarrow> ('z, int) tcomp" where
  "value_at type =
     (if type mod 16 = 0 then fatald ''Unrecognised in value_at: type'' type
      else ret (type - 1))"

definition cgprimsize :: "int \<Rightarrow> ('z, int) tcomp" where
  "cgprimsize type =
     (if ptrtype type then ret 8
      else if type = P_CHAR then ret 1
      else if type = P_INT then ret 4
      else if type = P_LONG then ret 8
      else fatald ''Bad type in cgprimsize:'' type)"

text \<open>Everything but a character is aligned on four bytes, up or down.\<close>

definition cgalign :: "int \<Rightarrow> int \<Rightarrow> int \<Rightarrow> int" where
  "cgalign type offset direction =
     (if type = P_CHAR then offset
      else let alignment = 4
           in (offset + direction * (alignment - 1)) AND NOT (alignment - 1))"

definition typesize :: "int \<Rightarrow> ptr option \<Rightarrow> ('z, int) tcomp" where
  "typesize type ctype =
     (if type = P_STRUCT \<or> type = P_UNION then deref_opt ctype (\<lambda>c. ret (s_size c))
      else cgprimsize type)"

text \<open>The AST operation given to \<^verbatim>\<open>modify_type\<close>; 0 is \<open>None\<close>.\<close>

definition opnum :: "astop option \<Rightarrow> int" where
  "opnum q = (case q of None \<Rightarrow> 0 | Some q' \<Rightarrow> ast_num q')"

text \<open>Scaling, the last part of \<^verbatim>\<open>modify_type\<close>; \<open>Null\<close> is the \<^verbatim>\<open>NULL\<close> result.\<close>

definition modify_scale :: "ast \<Rightarrow> int \<Rightarrow> ptr option \<Rightarrow> astop option \<Rightarrow> ('z, ast) tcomp" where
  "modify_scale tree rtype rctype aop =
     (if (aop = Some A_ADD \<or> aop = Some A_SUBTRACT \<or> aop = Some A_ASPLUS
          \<or> aop = Some A_ASMINUS) \<and> inttype (ntype tree) \<and> ptrtype rtype
      then
        bnd (value_at rtype) (\<lambda>t.
        bnd (cgprimsize t) (\<lambda>rsize.
        if rsize > 1 then ret (mkastunary A_SCALE rtype rctype tree None rsize)
        else ret tree))
      else ret Null)"

definition modify_ptrs :: "ast \<Rightarrow> int \<Rightarrow> ptr option \<Rightarrow> astop option \<Rightarrow> ('z, ast) tcomp" where
  "modify_ptrs tree rtype rctype aop =
     (let ltype = ntype tree in
      if ptrtype ltype \<and> ptrtype rtype then
        if opnum aop \<ge> ast_num A_EQ \<and> opnum aop \<le> ast_num A_GE then ret tree
        else bnd (pointer_to P_VOID) (\<lambda>vp.
          if opnum aop = 0 \<and> (ltype = rtype \<or> ltype = vp) then ret tree
          else modify_scale tree rtype rctype aop)
      else modify_scale tree rtype rctype aop)"

definition modify_type :: "ast \<Rightarrow> int \<Rightarrow> ptr option \<Rightarrow> astop option \<Rightarrow> ('z, ast) tcomp" where
  "modify_type tree rtype rctype aop =
     (if tree = Null then err (Crash ''null tree in modify_type'')
      else let ltype = ntype tree in
      if aop = Some A_LOGOR \<or> aop = Some A_LOGAND then
        if \<not> inttype ltype \<and> \<not> ptrtype ltype then ret Null
        else if \<not> inttype ltype \<and> \<not> ptrtype rtype then ret Null
        else ret tree
      else if ltype = P_STRUCT \<or> ltype = P_UNION then fatal (''Don'' @ [CHR 0x27] @ ''t know how to do this yet'')
      else if rtype = P_STRUCT \<or> rtype = P_UNION then fatal (''Don'' @ [CHR 0x27] @ ''t know how to do this yet'')
      else if inttype ltype \<and> inttype rtype then
        if ltype = rtype then ret tree
        else
          bnd (typesize ltype None) (\<lambda>lsize.
          bnd (typesize rtype None) (\<lambda>rsize.
          if lsize > rsize then ret Null
          else if rsize > lsize then ret (mkastunary A_WIDEN rtype None tree None 0)
          else modify_ptrs tree rtype rctype aop))
      else modify_ptrs tree rtype rctype aop)"

end
