(* ===== verification/Sym.thy ===== *)
theory Sym
  imports Types
begin

text \<open>
  The symbol tables, \<^verbatim>\<open>sym.c\<close>. An entry lives in \<open>Heap\<close> and its pointer is on one list; the
  order of a list is the order of the \<^verbatim>\<open>next\<close> chain, and its last element is the tail.
  \<^verbatim>\<open>newsym\<close> leaves \<^verbatim>\<open>size\<close> uninitialised for types that are neither integers nor pointers;
  it starts as 0 here. The printing functions \<^verbatim>\<open>dumpsym\<close>, \<^verbatim>\<open>dumptable\<close> and \<^verbatim>\<open>dumpsymtables\<close>
  are not modelled.
\<close>

section \<open>Creating entries\<close>

definition upd_sym :: "ptr \<Rightarrow> (symtable \<Rightarrow> symtable) \<Rightarrow> 'z symtabs_scheme \<Rightarrow> 'z symtabs_scheme" where
  "upd_sym p f s = s\<lparr>Heap := (Heap s)[p := f (Heap s ! p)]\<rparr>"

definition appendsym :: "ptr list \<Rightarrow> ptr \<Rightarrow> ptr list" where
  "appendsym list node = list @ [node]"

definition newsym :: "string option \<Rightarrow> int \<Rightarrow> ptr option \<Rightarrow> stype \<Rightarrow> sclass \<Rightarrow> int \<Rightarrow> int \<Rightarrow> ('z, ptr) tcomp" where
  "newsym name type ctype stype class nelems posn =
     bnd (if ptrtype type \<or> inttype type
          then bnd (typesize type ctype) (\<lambda>sz. ret (i32 (nelems * sz)))
          else ret 0) (\<lambda>size.
     rd Heap (\<lambda>h.
     wr (\<lambda>s. s\<lparr>Heap := h @ [\<lparr>s_name = name, s_type = type, s_ctype = ctype, s_stype = stype,
            s_class = class, s_size = size, s_nelems = nelems, s_posn = posn,
            s_initlist = None, s_member = []\<rparr>]\<rparr>)
     (ret (length h))))"

text \<open>For structs and unions, copy the size from the type node.\<close>

definition copy_size :: "int \<Rightarrow> ptr option \<Rightarrow> ptr \<Rightarrow> ('z, unit) tcomp" where
  "copy_size type ctype p =
     (if type = P_STRUCT \<or> type = P_UNION
      then deref_opt ctype (\<lambda>c. modify (upd_sym p (\<lambda>e. e\<lparr>s_size := s_size c\<rparr>)))
      else ret ())"

definition addglob :: "string \<Rightarrow> int \<Rightarrow> ptr option \<Rightarrow> stype \<Rightarrow> sclass \<Rightarrow> int \<Rightarrow> int \<Rightarrow> ('z, ptr) tcomp" where
  "addglob name type ctype stype class nelems posn =
     bnd (newsym (Some name) type ctype stype class nelems posn) (\<lambda>sym.
     thn (copy_size type ctype sym)
     (wr (\<lambda>s. s\<lparr>Glob := appendsym (Glob s) sym\<rparr>) (ret sym)))"

definition addlocl :: "string \<Rightarrow> int \<Rightarrow> ptr option \<Rightarrow> stype \<Rightarrow> int \<Rightarrow> ('z, ptr) tcomp" where
  "addlocl name type ctype stype nelems =
     bnd (newsym (Some name) type ctype stype C_LOCAL nelems 0) (\<lambda>sym.
     thn (copy_size type ctype sym)
     (wr (\<lambda>s. s\<lparr>Locl := appendsym (Locl s) sym\<rparr>) (ret sym)))"

definition addparm :: "string \<Rightarrow> int \<Rightarrow> ptr option \<Rightarrow> stype \<Rightarrow> ('z, ptr) tcomp" where
  "addparm name type ctype stype =
     bnd (newsym (Some name) type ctype stype C_PARAM 1 0) (\<lambda>sym.
     wr (\<lambda>s. s\<lparr>Parm := appendsym (Parm s) sym\<rparr>) (ret sym))"

definition addmemb :: "string \<Rightarrow> int \<Rightarrow> ptr option \<Rightarrow> stype \<Rightarrow> int \<Rightarrow> ('z, ptr) tcomp" where
  "addmemb name type ctype stype nelems =
     bnd (newsym (Some name) type ctype stype C_MEMBER nelems 0) (\<lambda>sym.
     thn (copy_size type ctype sym)
     (wr (\<lambda>s. s\<lparr>Memb := appendsym (Memb s) sym\<rparr>) (ret sym)))"

definition addstruct :: "string \<Rightarrow> ('z, ptr) tcomp" where
  "addstruct name =
     bnd (newsym (Some name) P_STRUCT None S_VARIABLE C_STRUCT 0 0) (\<lambda>sym.
     wr (\<lambda>s. s\<lparr>Structs := appendsym (Structs s) sym\<rparr>) (ret sym))"

definition addunion :: "string \<Rightarrow> ('z, ptr) tcomp" where
  "addunion name =
     bnd (newsym (Some name) P_UNION None S_VARIABLE C_UNION 0 0) (\<lambda>sym.
     wr (\<lambda>s. s\<lparr>Unions := appendsym (Unions s) sym\<rparr>) (ret sym))"

definition addenum :: "string option \<Rightarrow> sclass \<Rightarrow> int \<Rightarrow> ('z, ptr) tcomp" where
  "addenum name class value =
     bnd (newsym name P_INT None S_VARIABLE class 0 value) (\<lambda>sym.
     wr (\<lambda>s. s\<lparr>Enums := appendsym (Enums s) sym\<rparr>) (ret sym))"

definition addtypedef :: "string \<Rightarrow> int \<Rightarrow> ptr option \<Rightarrow> ('z, ptr) tcomp" where
  "addtypedef name type ctype =
     bnd (newsym (Some name) type ctype S_VARIABLE C_TYPEDEF 0 0) (\<lambda>sym.
     wr (\<lambda>s. s\<lparr>Typedefs := appendsym (Typedefs s) sym\<rparr>) (ret sym))"

section \<open>Looking entries up\<close>

text \<open>\<open>C_NONE\<close> is the class 0, which matches every entry.\<close>

primrec findsyminlist :: "symtable list \<Rightarrow> string \<Rightarrow> ptr list \<Rightarrow> sclass \<Rightarrow> ptr option" where
  "findsyminlist h s [] class = None"
| "findsyminlist h s (p # list) class =
     (if s_name (h ! p) = Some s \<and> (class = C_NONE \<or> class = s_class (h ! p)) then Some p
      else findsyminlist h s list class)"

definition findglob :: "string \<Rightarrow> 'z symtabs_scheme \<Rightarrow> ptr option" where
  "findglob s st = findsyminlist (Heap st) s (Glob st) C_NONE"

text \<open>The parameters of the function being compiled.\<close>

definition cur_params :: "'z symtabs_scheme \<Rightarrow> ptr list" where
  "cur_params st = (case Functionid st of None \<Rightarrow> [] | Some f \<Rightarrow> s_member (Heap st ! f))"

definition findlocl :: "string \<Rightarrow> 'z symtabs_scheme \<Rightarrow> ptr option" where
  "findlocl s st =
     (case findsyminlist (Heap st) s (cur_params st) C_NONE of
        Some p \<Rightarrow> Some p
      | None \<Rightarrow> findsyminlist (Heap st) s (Locl st) C_NONE)"

definition findsymbol :: "string \<Rightarrow> 'z symtabs_scheme \<Rightarrow> ptr option" where
  "findsymbol s st =
     (case findsyminlist (Heap st) s (cur_params st) C_NONE of
        Some p \<Rightarrow> Some p
      | None \<Rightarrow>
          (case findsyminlist (Heap st) s (Locl st) C_NONE of
             Some p \<Rightarrow> Some p
           | None \<Rightarrow> findsyminlist (Heap st) s (Glob st) C_NONE))"

definition findmember :: "string \<Rightarrow> 'z symtabs_scheme \<Rightarrow> ptr option" where
  "findmember s st = findsyminlist (Heap st) s (Memb st) C_NONE"

definition findstruct :: "string \<Rightarrow> 'z symtabs_scheme \<Rightarrow> ptr option" where
  "findstruct s st = findsyminlist (Heap st) s (Structs st) C_NONE"

definition findunion :: "string \<Rightarrow> 'z symtabs_scheme \<Rightarrow> ptr option" where
  "findunion s st = findsyminlist (Heap st) s (Unions st) C_NONE"

definition findenumtype :: "string \<Rightarrow> 'z symtabs_scheme \<Rightarrow> ptr option" where
  "findenumtype s st = findsyminlist (Heap st) s (Enums st) C_ENUMTYPE"

definition findenumval :: "string \<Rightarrow> 'z symtabs_scheme \<Rightarrow> ptr option" where
  "findenumval s st = findsyminlist (Heap st) s (Enums st) C_ENUMVAL"

definition findtypedef :: "string \<Rightarrow> 'z symtabs_scheme \<Rightarrow> ptr option" where
  "findtypedef s st = findsyminlist (Heap st) s (Typedefs st) C_NONE"

section \<open>Clearing the tables\<close>

definition clear_symtable :: "'z symtabs_scheme \<Rightarrow> 'z symtabs_scheme" where
  "clear_symtable s = s\<lparr>Glob := [], Locl := [], Parm := [], Memb := [], Structs := [],
     Unions := [], Enums := [], Typedefs := []\<rparr>"

definition freeloclsyms :: "'z symtabs_scheme \<Rightarrow> 'z symtabs_scheme" where
  "freeloclsyms s = s\<lparr>Locl := [], Parm := [], Functionid := None\<rparr>"

text \<open>
  \<^verbatim>\<open>freestaticsyms\<close>: the walk follows the nodes from \<^verbatim>\<open>Globhead\<close>; \<^verbatim>\<open>prev\<close> is assigned only
  after the loop, so every static entry is unlinked with \<^verbatim>\<open>Globhead->next = g->next\<close>. The
  argument \<open>glob\<close> is the list that hangs off \<^verbatim>\<open>Globhead\<close> so far.
\<close>

primrec freestatic_loop :: "symtable list \<Rightarrow> ptr list \<Rightarrow> ptr list \<Rightarrow> ptr list" where
  "freestatic_loop h [] glob = glob"
| "freestatic_loop h (g # rest) glob =
     freestatic_loop h rest (if s_class (h ! g) = C_STATIC then take 1 glob @ rest else glob)"

definition freestaticsyms :: "'z symtabs_scheme \<Rightarrow> 'z symtabs_scheme" where
  "freestaticsyms s = s\<lparr>Glob := freestatic_loop (Heap s) (Glob s) (Glob s)\<rparr>"

end
