(* ===== verification/Asm.thy ===== *)
theory Asm
  imports Types
begin

text \<open>
  The text of the assembly lines: for each form of line, the \<^verbatim>\<open>fprintf\<close> of \<^verbatim>\<open>cg.c\<close> that
  prints it. The register name tables are the source's.
\<close>

definition reglist :: "string list" where
  "reglist = [''%r10'', ''%r11'', ''%r12'', ''%r13'', ''%r9'', ''%r8'', ''%rcx'', ''%rdx'',
     ''%rsi'', ''%rdi'']"

definition breglist :: "string list" where
  "breglist = [''%r10b'', ''%r11b'', ''%r12b'', ''%r13b'', ''%r9b'', ''%r8b'', ''%cl'', ''%dl'',
     ''%sil'', ''%dil'']"

definition dreglist :: "string list" where
  "dreglist = [''%r10d'', ''%r11d'', ''%r12d'', ''%r13d'', ''%r9d'', ''%r8d'', ''%ecx'', ''%edx'',
     ''%esi'', ''%edi'']"

abbreviation (input) rg :: "int \<Rightarrow> string" where "rg r \<equiv> reglist ! nat r"
abbreviation (input) brg :: "int \<Rightarrow> string" where "brg r \<equiv> breglist ! nat r"
abbreviation (input) drg :: "int \<Rightarrow> string" where "drg r \<equiv> dreglist ! nat r"

definition op_line :: "string \<Rightarrow> string \<Rightarrow> string" where
  "op_line opc args = [CHR 0x09] @ opc @ [CHR 0x09] @ args @ [CHR 0x0A]"

definition op_only :: "string \<Rightarrow> string" where
  "op_only opc = [CHR 0x09] @ opc @ [CHR 0x0A]"

primrec binop_text :: "binop \<Rightarrow> string" where
  "binop_text ADDQ = ''addq''" | "binop_text SUBQ = ''subq''"
| "binop_text IMULQ = ''imulq''" | "binop_text ANDQ = ''andq''"
| "binop_text ORQ = ''orq''" | "binop_text XORQ = ''xorq''"

primrec cond_text :: "cond \<Rightarrow> string" where
  "cond_text CE = ''e''" | "cond_text CNE = ''ne''" | "cond_text CL = ''l''"
| "cond_text CG = ''g''" | "cond_text CLE = ''le''" | "cond_text CGE = ''ge''"
| "cond_text CNZ = ''nz''"

text \<open>The mnemonics that depend on a size.\<close>

definition load_op :: "int \<Rightarrow> string" where
  "load_op sz = (if sz = 1 then ''movzbq'' else if sz = 4 then ''movslq'' else ''movq'')"

definition sized :: "int \<Rightarrow> string \<Rightarrow> string \<Rightarrow> string \<Rightarrow> string" where
  "sized sz b d q = (if sz = 1 then b else if sz = 4 then d else q)"

definition sreg :: "int \<Rightarrow> int \<Rightarrow> string" where
  "sreg sz r = sized sz (brg r) (drg r) (rg r)"

definition preamble_lines :: "string list" where
  "preamble_lines =
    [''# internal switch(expr) routine'',
     ''# %rsi = switch table, %rax = expr'',
     ''# from SubC: http://www.t3x.org/subc/'',
     [],
     ''__switch:'',
     ''        pushq   %rsi'',
     ''        movq    %rdx, %rsi'',
     ''        movq    %rax, %rbx'',
     ''        cld'',
     ''        lodsq'',
     ''        movq    %rax, %rcx'',
     ''__next:'',
     ''        lodsq'',
     ''        movq    %rax, %rdx'',
     ''        lodsq'',
     ''        cmpq    %rdx, %rbx'',
     ''        jnz     __no'',
     ''        popq    %rsi'',
     ''        jmp     *%rax'',
     ''__no:'',
     ''        loop    __next'',
     ''        lodsq'',
     ''        popq    %rsi'',
     ''        jmp     *%rax'',
     []]"

abbreviation (input) comma_sep :: string where "comma_sep \<equiv> '', ''"

primrec asm_text :: "instr \<Rightarrow> string" where
  "asm_text TextSeg = op_only ''.text''"
| "asm_text DataSeg = op_only ''.data''"
| "asm_text (PushQ r) = op_line ''pushq'' (rg r)"
| "asm_text (PopQ r) = op_line ''popq'' (rg r)"
| "asm_text (MovImm v r) = op_line ''movq'' (''$'' @ dec v @ comma_sep @ rg r)"
| "asm_text (Bin b r2 r1) = op_line (binop_text b) (rg r2 @ comma_sep @ rg r1)"
| "asm_text (RaxFrom r) = op_line ''movq'' (rg r @ '',%rax'')"
| "asm_text Cqo = op_only ''cqo''"
| "asm_text (IDivQ r) = op_line ''idivq'' (rg r)"
| "asm_text (RaxTo r) = op_line ''movq'' (''%rax,'' @ rg r)"
| "asm_text (RdxTo r) = op_line ''movq'' (''%rdx,'' @ rg r)"
| "asm_text (ClFrom r) = op_line ''movb'' (brg r @ '', %cl'')"
| "asm_text (ShlCl r) = op_line ''shlq'' (''%cl, '' @ rg r)"
| "asm_text (ShrCl r) = op_line ''shrq'' (''%cl, '' @ rg r)"
| "asm_text (NegQ r) = op_line ''negq'' (rg r)"
| "asm_text (NotQ r) = op_line ''notq'' (rg r)"
| "asm_text (Test r) = op_line ''test'' (rg r @ comma_sep @ rg r)"
| "asm_text (SetCC c r) = op_line (''set'' @ cond_text c) (brg r)"
| "asm_text (MovZBQ r) = op_line ''movzbq'' (brg r @ comma_sep @ rg r)"
| "asm_text (Cmp sz r2 r1) =
     op_line (sized sz ''cmpb'' ''cmpl'' ''cmpq'') (sreg sz r2 @ comma_sep @ sreg sz r1)"
| "asm_text (JccL c l) = op_line (''j'' @ cond_text c) (''L'' @ dec l)"
| "asm_text (JmpL l) = op_line ''jmp'' (''L'' @ dec l)"
| "asm_text (LabelL l) = ''L'' @ dec l @ '':'' @ [CHR 0x0A]"
| "asm_text (LeaLocal posn r) = op_line ''leaq'' (dec posn @ ''(%rbp), '' @ rg r)"
| "asm_text (LeaGlobal name r) = op_line ''leaq'' (name @ ''(%rip), '' @ rg r)"
| "asm_text (LeaLabel l r) = op_line ''leaq'' (''L'' @ dec l @ ''(%rip), '' @ rg r)"
| "asm_text (LoadLocal sz posn r) = op_line (load_op sz) (dec posn @ ''(%rbp), '' @ rg r)"
| "asm_text (LoadGlobal sz name r) = op_line (load_op sz) (name @ ''(%rip), '' @ rg r)"
| "asm_text (AddMem sz off r) =
     op_line (sized sz ''addb'' ''addl'' ''addq'') (''$'' @ dec off @ '',('' @ rg r @ '')'')"
| "asm_text (StoreLocal sz r posn) =
     op_line (sized sz ''movb'' ''movl'' ''movq'') (sreg sz r @ comma_sep @ dec posn @ ''(%rbp)'')"
| "asm_text (StoreGlobal sz r name) =
     op_line (sized sz ''movb'' ''movl'' ''movq'') (sreg sz r @ comma_sep @ name @ ''(%rip)'')"
| "asm_text (LoadDeref sz r) = op_line (load_op sz) (''('' @ rg r @ ''), '' @ rg r)"
| "asm_text (StoreDeref sz r1 r2) =
     op_line (sized sz ''movb'' ''movl'' ''movq'') (sreg sz r1 @ '', ('' @ rg r2 @ '')'')"
| "asm_text (CallF name) = op_line ''call'' (name @ ''@PLT'')"
| "asm_text (PopArgs n) = op_line ''addq'' (''$'' @ dec n @ '', %rsp'')"
| "asm_text (RaxRes r) = op_line ''movq'' (''%rax, '' @ rg r)"
| "asm_text (AddRsp n) = op_line ''addq'' (''$'' @ dec n @ '',%rsp'')"
| "asm_text (MovQ r1 r2) = op_line ''movq'' (rg r1 @ comma_sep @ rg r2)"
| "asm_text (RetMov sz r) =
     op_line (sized sz ''movzbl'' ''movl'' ''movq'')
        (sreg sz r @ comma_sep @ sized sz ''%eax'' ''%eax'' ''%rax'')"
| "asm_text (SalQ v r) = op_line ''salq'' (''$'' @ dec v @ comma_sep @ rg r)"
| "asm_text (ByteD v) = op_line ''.byte'' (dec v)"
| "asm_text (LongD v) = op_line ''.long'' (dec v)"
| "asm_text (QuadD v) = op_line ''.quad'' (dec v)"
| "asm_text (QuadL l) = op_line ''.quad'' (''L'' @ dec l)"
| "asm_text (QuadCase v l) = op_line ''.quad'' (dec v @ '', L'' @ dec l)"
| "asm_text (GloblD name) = op_line ''.globl'' name"
| "asm_text (NameL name) = name @ '':'' @ [CHR 0x0A]"
| "asm_text (FuncType name) = op_line ''.type'' (name @ '', @function'')"
| "asm_text PushRbp = op_line ''pushq'' ''%rbp''"
| "asm_text MovRspRbp = op_line ''movq'' ''%rsp, %rbp''"
| "asm_text PopRbpRet = op_line ''popq'' ''%rbp'' @ op_only ''ret''"
| "asm_text (SwRaxFrom r) = op_line ''movq'' (rg r @ '', %rax'')"
| "asm_text (SwLeaRdx l) = op_line ''leaq'' (''L'' @ dec l @ ''(%rip), %rdx'')"
| "asm_text JmpSwitch = op_line ''jmp'' ''__switch''"
| "asm_text (Preamble filename) =
     [CHR 0x09] @ ''.file 1 '' @ [CHR 0x22] @ filename @ [CHR 0x22, CHR 0x0A]
     @ concat (map (\<lambda>l. l @ [CHR 0x0A]) preamble_lines)"

text \<open>The contents of the output file.\<close>

definition asm_file :: "instr list \<Rightarrow> string" where
  "asm_file code = concat (map asm_text code)"

end
