(* ===== verification/Cg.thy ===== *)
theory Cg
  imports Sym Asm
begin

text \<open>
  The x86-64 code generator, \<^verbatim>\<open>cg.c\<close>, and \<^verbatim>\<open>genlabel\<close> of \<^verbatim>\<open>gen.c\<close>, which it calls. Each function
  appends the lines it prints to \<open>Outfile\<close>. A register is an index into \<^verbatim>\<open>reglist\<close>; using
  one outside the table (such as \<^verbatim>\<open>NOREG\<close>) reads outside an array in the C program and is a
  \<open>Crash\<close>.
\<close>

type_synonym 'a gcomp = "(compiler, 'a) comp"

primrec instr_regs :: "instr \<Rightarrow> int list" where
  "instr_regs TextSeg = []" | "instr_regs DataSeg = []"
| "instr_regs (PushQ r) = [r]" | "instr_regs (PopQ r) = [r]"
| "instr_regs (MovImm v r) = [r]" | "instr_regs (Bin b r2 r1) = [r2, r1]"
| "instr_regs (RaxFrom r) = [r]" | "instr_regs Cqo = []" | "instr_regs (IDivQ r) = [r]"
| "instr_regs (RaxTo r) = [r]" | "instr_regs (RdxTo r) = [r]"
| "instr_regs (ClFrom r) = [r]" | "instr_regs (ShlCl r) = [r]" | "instr_regs (ShrCl r) = [r]"
| "instr_regs (NegQ r) = [r]" | "instr_regs (NotQ r) = [r]" | "instr_regs (Test r) = [r]"
| "instr_regs (SetCC c r) = [r]" | "instr_regs (MovZBQ r) = [r]"
| "instr_regs (Cmp sz r2 r1) = [r2, r1]"
| "instr_regs (JccL c l) = []" | "instr_regs (JmpL l) = []" | "instr_regs (LabelL l) = []"
| "instr_regs (LeaLocal p r) = [r]" | "instr_regs (LeaGlobal n r) = [r]"
| "instr_regs (LeaLabel l r) = [r]"
| "instr_regs (LoadLocal sz p r) = [r]" | "instr_regs (LoadGlobal sz n r) = [r]"
| "instr_regs (AddMem sz off r) = [r]"
| "instr_regs (StoreLocal sz r p) = [r]" | "instr_regs (StoreGlobal sz r n) = [r]"
| "instr_regs (LoadDeref sz r) = [r]" | "instr_regs (StoreDeref sz r1 r2) = [r1, r2]"
| "instr_regs (CallF n) = []" | "instr_regs (PopArgs n) = []" | "instr_regs (RaxRes r) = [r]"
| "instr_regs (AddRsp n) = []" | "instr_regs (MovQ r1 r2) = [r1, r2]"
| "instr_regs (RetMov sz r) = [r]" | "instr_regs (SalQ v r) = [r]"
| "instr_regs (ByteD v) = []" | "instr_regs (LongD v) = []" | "instr_regs (QuadD v) = []"
| "instr_regs (QuadL l) = []" | "instr_regs (QuadCase v l) = []"
| "instr_regs (GloblD n) = []" | "instr_regs (NameL n) = []" | "instr_regs (FuncType n) = []"
| "instr_regs PushRbp = []" | "instr_regs MovRspRbp = []" | "instr_regs PopRbpRet = []"
| "instr_regs (SwRaxFrom r) = [r]" | "instr_regs (SwLeaRdx l) = []" | "instr_regs JmpSwitch = []"
| "instr_regs (Preamble f) = []"

definition reg_in_table :: "int \<Rightarrow> bool" where
  [model_defs]: "reg_in_table r \<longleftrightarrow> 0 \<le> r \<and> r < 10"

definition emit :: "instr \<Rightarrow> unit gcomp" where
  "emit i =
     (if list_all reg_in_table (instr_regs i) then modify (\<lambda>s. s\<lparr>Outfile := Outfile s @ [i]\<rparr>)
      else err (Crash ''register index outside reglist''))"

primrec emits :: "instr list \<Rightarrow> unit gcomp" where
  "emits [] = ret ()"
| "emits (i # is) = thn (emit i) (emits is)"

definition genlabel :: "int gcomp" where
  "genlabel = rd labelid (\<lambda>l. wr (\<lambda>s. s\<lparr>labelid := l + 1\<rparr>) (ret l))"

section \<open>Segments\<close>

definition cgtextseg :: "unit gcomp" where
  "cgtextseg = rd currSeg (\<lambda>g.
     if g \<noteq> text_seg then thn (emit TextSeg) (modify (\<lambda>s. s\<lparr>currSeg := text_seg\<rparr>)) else ret ())"

definition cgdataseg :: "unit gcomp" where
  "cgdataseg = rd currSeg (\<lambda>g.
     if g \<noteq> data_seg then thn (emit DataSeg) (modify (\<lambda>s. s\<lparr>currSeg := data_seg\<rparr>)) else ret ())"

definition newlocaloffset :: "int \<Rightarrow> int gcomp" where
  "newlocaloffset size' =
     wr (\<lambda>s. s\<lparr>localOffset := localOffset s + (if size' > 4 then size' else 4)\<rparr>)
     (rd localOffset (\<lambda>off. ret (- off)))"

section \<open>Registers\<close>

definition NUMFREEREGS :: nat where [model_defs]: "NUMFREEREGS = 4"
definition FIRSTPARAMREG :: int where [model_defs]: "FIRSTPARAMREG = 9"

definition pushreg :: "int \<Rightarrow> unit gcomp" where
  "pushreg r = emit (PushQ r)"

definition popreg :: "int \<Rightarrow> unit gcomp" where
  "popreg r = emit (PopQ r)"

definition cgfreeallregs :: "int \<Rightarrow> unit gcomp" where
  "cgfreeallregs keepreg =
     modify (\<lambda>s. s\<lparr>freereg := map (\<lambda>i. if int i \<noteq> keepreg then True else freereg s ! i)
       [0..<NUMFREEREGS]\<rparr>)"

primrec first_free :: "bool list \<Rightarrow> nat \<Rightarrow> nat option" where
  "first_free [] i = None"
| "first_free (b # bs) i = (if b then Some i else first_free bs (Suc i))"

definition cgallocreg :: "int gcomp" where
  "cgallocreg =
     rd freereg (\<lambda>fr.
     case first_free fr 0 of
       Some reg \<Rightarrow> wr (\<lambda>s. s\<lparr>freereg := fr[reg := False]\<rparr>) (ret (int reg))
     | None \<Rightarrow>
         rd spillreg (\<lambda>sp.
         wr (\<lambda>s. s\<lparr>spillreg := sp + 1\<rparr>)
         (thn (pushreg (sp mod int NUMFREEREGS)) (ret (sp mod int NUMFREEREGS)))))"

definition cgfreereg :: "int \<Rightarrow> unit gcomp" where
  "cgfreereg reg =
     rd freereg (\<lambda>fr.
     if reg < 0 \<or> reg \<ge> int (length fr) then err (Crash ''index outside freereg'')
     else if fr ! nat reg then fatald ''Error trying to free register'' reg
     else rd spillreg (\<lambda>sp.
       if sp > 0 then
         wr (\<lambda>s. s\<lparr>spillreg := sp - 1\<rparr>) (popreg ((sp - 1) mod int NUMFREEREGS))
       else modify (\<lambda>s. s\<lparr>freereg := fr[nat reg := True]\<rparr>)))"

definition cgspillregs :: "unit gcomp" where
  "cgspillregs = emits (map (\<lambda>i. PushQ (int i)) [0..<NUMFREEREGS])"

definition cgunspillregs :: "unit gcomp" where
  "cgunspillregs = emits (map (\<lambda>i. PopQ (int i)) (rev [0..<NUMFREEREGS]))"

section \<open>Labels, jumps and moves\<close>

definition cglabel :: "int \<Rightarrow> unit gcomp" where
  "cglabel l = emit (LabelL l)"

definition cgjump :: "int \<Rightarrow> unit gcomp" where
  "cgjump l = emit (JmpL l)"

definition cgmove :: "int \<Rightarrow> int \<Rightarrow> unit gcomp" where
  "cgmove r1 r2 = emit (MovQ r1 r2)"

text \<open>The debugging line that \<^verbatim>\<open>cglinenum\<close> printed is commented out in the source.\<close>

definition cglinenum :: "int \<Rightarrow> unit gcomp" where
  "cglinenum line = ret ()"

section \<open>Stores and loads of variables\<close>

definition is_local :: "symtable \<Rightarrow> bool" where
  [model_defs]: "is_local sy \<longleftrightarrow> s_class sy = C_LOCAL \<or> s_class sy = C_PARAM"

definition sname :: "symtable \<Rightarrow> string" where
  [model_defs]: "sname sy = (case s_name sy of None \<Rightarrow> [] | Some n \<Rightarrow> n)"

definition store_size :: "string \<Rightarrow> int \<Rightarrow> int gcomp" where
  "store_size who type =
     bnd (cgprimsize type) (\<lambda>sz.
     if sz = 8 then ret 8
     else if type = P_CHAR then ret 1
     else if type = P_INT then ret 4
     else fatald who type)"

definition cgstorglob :: "int \<Rightarrow> symtable \<Rightarrow> int gcomp" where
  "cgstorglob r sy =
     bnd (store_size ''Bad type in cgstorglob:'' (s_type sy)) (\<lambda>sz.
     thn (emit (StoreGlobal sz r (sname sy))) (ret r))"

definition cgstorlocal :: "int \<Rightarrow> symtable \<Rightarrow> int gcomp" where
  "cgstorlocal r sy =
     bnd (store_size ''Bad type in cgstorlocal:'' (s_type sy)) (\<lambda>sz.
     thn (emit (StoreLocal sz r (s_posn sy))) (ret r))"

text \<open>A \<^verbatim>\<open>switch\<close> on the size 1, 4 or 8, with no default.\<close>

definition emit_sized :: "int \<Rightarrow> (int \<Rightarrow> instr) \<Rightarrow> unit gcomp" where
  "emit_sized sz f = (if sz = 1 \<or> sz = 4 \<or> sz = 8 then emit (f sz) else ret ())"

definition lea_sym :: "symtable \<Rightarrow> int \<Rightarrow> instr" where
  [model_defs]: "lea_sym sy r =
     (if is_local sy then LeaLocal (s_posn sy) r else LeaGlobal (sname sy) r)"

definition cgloadint :: "int \<Rightarrow> int \<Rightarrow> int gcomp" where
  "cgloadint value type = bnd cgallocreg (\<lambda>r. thn (emit (MovImm value r)) (ret r))"

text \<open>The step of an increment or decrement: the size of the element for a pointer.\<close>

definition incr_offset :: "symtable \<Rightarrow> astop \<Rightarrow> int gcomp" where
  "incr_offset sy aop =
     bnd (if ptrtype (s_type sy)
          then bnd (value_at (s_type sy)) (\<lambda>t. typesize t (s_ctype sy)) else ret 1) (\<lambda>off.
     ret (if aop = A_PREDEC \<or> aop = A_POSTDEC then - off else off))"

definition cgloadvar :: "symtable \<Rightarrow> astop \<Rightarrow> int gcomp" where
  "cgloadvar sy aop =
     bnd cgallocreg (\<lambda>r.
     bnd (incr_offset sy aop) (\<lambda>offset.
     thn (if aop = A_PREINC \<or> aop = A_PREDEC
          then thn (emit (lea_sym sy r)) (emit_sized (s_size sy) (\<lambda>sz. AddMem sz offset r))
          else ret ()) (
     thn (if is_local sy
          then emit_sized (s_size sy) (\<lambda>sz. LoadLocal sz (s_posn sy) r)
          else emit_sized (s_size sy) (\<lambda>sz. LoadGlobal sz (sname sy) r)) (
     thn (if aop = A_POSTINC \<or> aop = A_POSTDEC
          then
            bnd cgallocreg (\<lambda>postreg.
            thn (emit (lea_sym sy postreg)) (
            thn (emit_sized (s_size sy) (\<lambda>sz. AddMem sz offset postreg))
            (cgfreereg postreg)))
          else ret ())
     (ret r)))))"

definition cgloadglobstr :: "int \<Rightarrow> int gcomp" where
  "cgloadglobstr label = bnd cgallocreg (\<lambda>r. thn (emit (LeaLabel label r)) (ret r))"

definition is_global_class :: "sclass \<Rightarrow> bool" where
  [model_defs]: "is_global_class c \<longleftrightarrow> c = C_GLOBAL \<or> c = C_EXTERN \<or> c = C_STATIC"

definition cgaddress :: "symtable \<Rightarrow> int gcomp" where
  "cgaddress sy =
     bnd cgallocreg (\<lambda>r.
     thn (emit (if is_global_class (s_class sy) then LeaGlobal (sname sy) r
                else LeaLocal (s_posn sy) r))
     (ret r))"

definition cgderef :: "int \<Rightarrow> int \<Rightarrow> int gcomp" where
  "cgderef r type =
     bnd (value_at type) (\<lambda>newtype.
     bnd (cgprimsize newtype) (\<lambda>sz.
     if sz = 1 \<or> sz = 4 \<or> sz = 8 then thn (emit (LoadDeref sz r)) (ret r)
     else fatald (''Can'' @ [CHR 0x27] @ ''t cgderef on type:'') type))"

definition cgstorderef :: "int \<Rightarrow> int \<Rightarrow> int \<Rightarrow> int gcomp" where
  "cgstorderef r1 r2 type =
     bnd (cgprimsize type) (\<lambda>sz.
     if sz = 1 \<or> sz = 4 \<or> sz = 8 then thn (emit (StoreDeref sz r1 r2)) (ret r1)
     else fatald (''Can'' @ [CHR 0x27] @ ''t cgstoderef on type:'') type)"

section \<open>Arithmetic\<close>

definition cgbin :: "binop \<Rightarrow> int \<Rightarrow> int \<Rightarrow> int gcomp" where
  "cgbin b r1 r2 = thn (emit (Bin b r2 r1)) (thn (cgfreereg r2) (ret r1))"

definition cgadd :: "int \<Rightarrow> int \<Rightarrow> int gcomp" where "cgadd = cgbin ADDQ"
definition cgsub :: "int \<Rightarrow> int \<Rightarrow> int gcomp" where "cgsub = cgbin SUBQ"
definition cgmul :: "int \<Rightarrow> int \<Rightarrow> int gcomp" where "cgmul = cgbin IMULQ"
definition cgand :: "int \<Rightarrow> int \<Rightarrow> int gcomp" where "cgand = cgbin ANDQ"
definition cgor :: "int \<Rightarrow> int \<Rightarrow> int gcomp" where "cgor = cgbin ORQ"
definition cgxor :: "int \<Rightarrow> int \<Rightarrow> int gcomp" where "cgxor = cgbin XORQ"

lemmas cgbin_defs = cgadd_def cgsub_def cgmul_def cgand_def cgor_def cgxor_def

definition cgdivmod :: "int \<Rightarrow> int \<Rightarrow> astop \<Rightarrow> int gcomp" where
  "cgdivmod r1 r2 aop =
     thn (emit (RaxFrom r1)) (
     thn (emit Cqo) (
     thn (emit (IDivQ r2)) (
     thn (emit (if aop = A_DIVIDE then RaxTo r1 else RdxTo r1)) (
     thn (cgfreereg r2) (ret r1)))))"

definition cgshl :: "int \<Rightarrow> int \<Rightarrow> int gcomp" where
  "cgshl r1 r2 = thn (emit (ClFrom r2)) (thn (emit (ShlCl r1)) (thn (cgfreereg r2) (ret r1)))"

definition cgshr :: "int \<Rightarrow> int \<Rightarrow> int gcomp" where
  "cgshr r1 r2 = thn (emit (ClFrom r2)) (thn (emit (ShrCl r1)) (thn (cgfreereg r2) (ret r1)))"

definition cgnegate :: "int \<Rightarrow> int gcomp" where
  "cgnegate r = thn (emit (NegQ r)) (ret r)"

definition cginvert :: "int \<Rightarrow> int gcomp" where
  "cginvert r = thn (emit (NotQ r)) (ret r)"

definition cglognot :: "int \<Rightarrow> int gcomp" where
  "cglognot r =
     thn (emit (Test r)) (thn (emit (SetCC CE r)) (thn (emit (MovZBQ r)) (ret r)))"

definition cgloadboolean :: "int \<Rightarrow> int \<Rightarrow> unit gcomp" where
  "cgloadboolean r val = emit (MovImm val r)"

definition cgboolean :: "int \<Rightarrow> astop option \<Rightarrow> int \<Rightarrow> int gcomp" where
  "cgboolean r aop label =
     thn (emit (Test r)) (
     thn (if aop = Some A_IF \<or> aop = Some A_WHILE \<or> aop = Some A_LOGAND
          then emit (JccL CE label)
          else if aop = Some A_LOGOR then emit (JccL CNE label)
          else thn (emit (SetCC CNZ r)) (emit (MovZBQ r)))
     (ret r))"

definition cgshlconst :: "int \<Rightarrow> int \<Rightarrow> int gcomp" where
  "cgshlconst r val = thn (emit (SalQ val r)) (ret r)"

text \<open>Nothing to do: every load has extended the value to the whole register.\<close>

definition cgwiden :: "int \<Rightarrow> int \<Rightarrow> int \<Rightarrow> int gcomp" where
  "cgwiden r oldtype newtype = ret r"

section \<open>Comparisons\<close>

definition cmplist :: "cond list" where "cmplist = [CE, CNE, CL, CG, CLE, CGE]"
definition invcmplist :: "cond list" where "invcmplist = [CNE, CE, CGE, CLE, CG, CL]"

definition is_cmp :: "astop \<Rightarrow> bool" where
  "is_cmp q \<longleftrightarrow> ast_num A_EQ \<le> ast_num q \<and> ast_num q \<le> ast_num A_GE"

definition cgcompare_and_set :: "astop \<Rightarrow> int \<Rightarrow> int \<Rightarrow> int \<Rightarrow> int gcomp" where
  "cgcompare_and_set aop r1 r2 type =
     bnd (cgprimsize type) (\<lambda>sz.
     if \<not> is_cmp aop then fatal ''Bad ASTop in cgcompare_and_set()''
     else
       thn (emit (Cmp sz r2 r1)) (
       thn (emit (SetCC (cmplist ! nat (ast_num aop - ast_num A_EQ)) r2)) (
       thn (emit (MovZBQ r2)) (
       thn (cgfreereg r1) (ret r2)))))"

definition cgcompare_and_jump :: "astop \<Rightarrow> int \<Rightarrow> int \<Rightarrow> int \<Rightarrow> int \<Rightarrow> int gcomp" where
  "cgcompare_and_jump aop r1 r2 label type =
     bnd (cgprimsize type) (\<lambda>sz.
     if \<not> is_cmp aop then fatal ''Bad ASTop in cgcompare_and_set()''
     else
       thn (emit (Cmp sz r2 r1)) (
       thn (emit (JccL (invcmplist ! nat (ast_num aop - ast_num A_EQ)) label)) (
       thn (cgfreereg r1) (
       thn (cgfreereg r2) (ret NOREG)))))"

end
