(* ===== verification/CgFunc.thy ===== *)
theory CgFunc
  imports Cg
begin

text \<open>
  The rest of \<^verbatim>\<open>cg.c\<close>: functions (preamble, postamble, calls, returns), global data and the
  jump table of a \<^verbatim>\<open>switch\<close>.
\<close>

section \<open>Functions\<close>

definition cgpreamble :: "string \<Rightarrow> unit gcomp" where
  "cgpreamble filename =
     thn (cgfreeallregs NOREG) (thn cgtextseg (emit (Preamble filename)))"

definition cgpostamble :: "unit gcomp" where
  "cgpostamble = ret ()"

definition set_posn :: "ptr \<Rightarrow> int \<Rightarrow> 'z symtabs_scheme \<Rightarrow> 'z symtabs_scheme" where
  [model_defs]: "set_posn p posn = upd_sym p (\<lambda>e. e\<lparr>s_posn := posn\<rparr>)"

text \<open>
  The loop over the parameters: \<open>cnt\<close> counts them from 1, the first six arrive in registers
  and are stored on the stack, the others lie above the saved base pointer.
\<close>

primrec cgfunc_params :: "ptr list \<Rightarrow> int \<Rightarrow> int \<Rightarrow> int \<Rightarrow> unit gcomp" where
  "cgfunc_params [] cnt paramOffset paramReg = ret ()"
| "cgfunc_params (p # ps) cnt paramOffset paramReg =
     (if cnt > 6 then
        wr (set_posn p paramOffset)
        (cgfunc_params ps (cnt + 1) (paramOffset + 8) paramReg)
      else
        deref p (\<lambda>e.
        bnd (newlocaloffset (s_size e)) (\<lambda>off.
        wr (set_posn p off) (
        deref p (\<lambda>e.
        thn (cgstorlocal paramReg e)
        (cgfunc_params ps (cnt + 1) paramOffset (paramReg - 1)))))))"

primrec cgfunc_locals :: "ptr list \<Rightarrow> unit gcomp" where
  "cgfunc_locals [] = ret ()"
| "cgfunc_locals (p # ps) =
     deref p (\<lambda>e.
     bnd (newlocaloffset (s_size e)) (\<lambda>off.
     wr (set_posn p off) (cgfunc_locals ps)))"

definition cgfuncpreamble :: "ptr \<Rightarrow> unit gcomp" where
  "cgfuncpreamble f =
     deref f (\<lambda>sy.
     thn cgtextseg (
     wr (\<lambda>s. s\<lparr>localOffset := 0\<rparr>) (
     thn (if s_class sy = C_GLOBAL
          then thn (emit (GloblD (sname sy))) (emit (FuncType (sname sy))) else ret ()) (
     thn (emits [NameL (sname sy), PushRbp, MovRspRbp]) (
     thn (cgfunc_params (s_member sy) 1 16 FIRSTPARAMREG) (
     thn (rd Locl cgfunc_locals) (
     wr (\<lambda>s. s\<lparr>stackOffset := (localOffset s + 15) AND NOT 15\<rparr>) (
     rd stackOffset (\<lambda>off. emit (AddRsp (- off)))))))))))"

definition cgfuncpostamble :: "ptr \<Rightarrow> unit gcomp" where
  "cgfuncpostamble f =
     deref f (\<lambda>sy.
     thn (cglabel (s_posn sy)) (
     rd stackOffset (\<lambda>off.
     thn (emit (AddRsp off)) (
     thn (emit PopRbpRet)
     (cgfreeallregs NOREG)))))"

definition cgcall :: "symtable \<Rightarrow> int \<Rightarrow> int gcomp" where
  "cgcall sy numargs =
     thn (emit (CallF (sname sy))) (
     thn (if numargs > 6 then emit (PopArgs (8 * (numargs - 6))) else ret ()) (
     thn cgunspillregs (
     bnd cgallocreg (\<lambda>outr.
     thn (emit (RaxRes outr)) (ret outr)))))"

definition cgcopyarg :: "int \<Rightarrow> int \<Rightarrow> unit gcomp" where
  "cgcopyarg r argposn =
     thn (if argposn > 6 then emit (PushQ r) else emit (MovQ r (FIRSTPARAMREG - argposn + 1)))
     (cgfreereg r)"

definition cgreturn :: "int \<Rightarrow> ptr option \<Rightarrow> unit gcomp" where
  "cgreturn reg f =
     deref_opt f (\<lambda>sy.
     thn (if reg \<noteq> NOREG then
            if ptrtype (s_type sy) then emit (RetMov 8 reg)
            else if s_type sy = P_CHAR then emit (RetMov 1 reg)
            else if s_type sy = P_INT then emit (RetMov 4 reg)
            else if s_type sy = P_LONG then emit (RetMov 8 reg)
            else fatald ''Bad function type in cgreturn:'' (s_type sy)
          else ret ())
     (cgjump (s_posn sy)))"

section \<open>Global data\<close>

text \<open>The initial value of element \<open>i\<close>.\<close>

definition init_value :: "symtable \<Rightarrow> nat \<Rightarrow> int gcomp" where
  "init_value node i =
     (case s_initlist node of
        None \<Rightarrow> ret 0
      | Some vs \<Rightarrow> if i < length vs then ret (vs ! i) else err (Crash ''initlist too short''))"

text \<open>
  The elements from index \<open>i\<close> on, \<open>left\<close> of them. For a size other than 1, 4 and 8 the inner
  loop of the source reuses the index \<^verbatim>\<open>i\<close>: it prints \<open>size\<close> zero bytes and leaves \<open>i\<close> at
  \<open>size\<close>, so the outer loop either ends there or, if an element remains at \<open>size + 1\<close>, comes
  back to the same index for ever.
\<close>

primrec cgglob_elems :: "nat \<Rightarrow> symtable \<Rightarrow> int \<Rightarrow> int \<Rightarrow> nat \<Rightarrow> unit gcomp" where
  "cgglob_elems 0 node sz type i = ret ()"
| "cgglob_elems (Suc rest) node sz type i =
     bnd (init_value node i) (\<lambda>v.
     if sz = 1 then thn (emit (ByteD v)) (cgglob_elems rest node sz type (Suc i))
     else if sz = 4 then thn (emit (LongD v)) (cgglob_elems rest node sz type (Suc i))
     else if sz = 8 then
       bnd (pointer_to P_CHAR) (\<lambda>charptr.
       thn (if s_initlist node \<noteq> None \<and> type = charptr \<and> v \<noteq> 0
            then emit (QuadL v) else emit (QuadD v))
       (cgglob_elems rest node sz type (Suc i)))
     else
       thn (emits (replicate (nat sz) (ByteD 0)))
       (if max 0 sz + 1 < s_nelems node then err NoReturn else ret ()))"

definition cgglobsym :: "ptr \<Rightarrow> unit gcomp" where
  "cgglobsym p =
     deref p (\<lambda>node.
     if s_stype node = S_FUNCTION then ret ()
     else
       bnd (if s_stype node = S_ARRAY
            then bnd (value_at (s_type node)) (\<lambda>t.
                 bnd (typesize t (s_ctype node)) (\<lambda>sz. ret (sz, t)))
            else ret (s_size node, s_type node)) (\<lambda>(sz, type).
       thn cgdataseg (
       thn (if s_class node = C_GLOBAL then emit (GloblD (sname node)) else ret ()) (
       thn (emit (NameL (sname node)))
       (cgglob_elems (nat (s_nelems node)) node sz type 0)))))"

text \<open>\<^verbatim>\<open>%d\<close> of a \<^verbatim>\<open>char\<close>, which is signed.\<close>

definition schar :: "char \<Rightarrow> int" where
  "schar c = (if cc c < 128 then cc c else cc c - 256)"

definition cgglobstr :: "int \<Rightarrow> string \<Rightarrow> bool \<Rightarrow> unit gcomp" where
  "cgglobstr l strvalue app =
     thn (if app then ret () else cglabel l)
     (emits (map (\<lambda>c. ByteD (schar c)) strvalue))"

definition cgglobstrend :: "unit gcomp" where
  "cgglobstrend = emit (ByteD 0)"

section \<open>Switch\<close>

text \<open>The table of the first \<open>casecount\<close> cases.\<close>

definition cgswitch :: "int \<Rightarrow> nat \<Rightarrow> int \<Rightarrow> int list \<Rightarrow> int list \<Rightarrow> int \<Rightarrow> unit gcomp" where
  "cgswitch reg casecount toplabel caselabel caseval defaultlabel =
     bnd genlabel (\<lambda>label.
     thn (cglabel label) (
     let (vals, labels) =
           (if casecount = 0 then ([0], [defaultlabel])
            else (take casecount caseval, take casecount caselabel))
     in
     thn (emit (QuadD (int (length vals)))) (
     thn (emits (map (\<lambda>(v, l). QuadCase v l) (zip vals labels))) (
     thn (emit (QuadL defaultlabel)) (
     thn (cglabel toplabel) (
     emits [SwRaxFrom reg, SwLeaRdx label, JmpSwitch]))))))"

end
