(* ===== verification/Gen.thy ===== *)
theory Gen
  imports CgFunc
begin

text \<open>
  The generic code generator, \<^verbatim>\<open>gen.c\<close>. The functions that generate code for a construct
  take the generator \<open>g\<close> for sub-trees as an argument (the C functions call \<^verbatim>\<open>genAST\<close>, which
  calls them); \<open>genAST_f\<close> ties the knot, and \<open>genAST\<close> bounds the recursion by the size of
  the tree, which is enough because every call is for a smaller tree. Label and register
  parameters are the source's; the operation of the parent node is \<open>None\<close> for its 0.
\<close>

type_synonym gen = "ast \<Rightarrow> int \<Rightarrow> int \<Rightarrow> int \<Rightarrow> astop option \<Rightarrow> int gcomp"

definition update_line :: "ast \<Rightarrow> unit gcomp" where
  "update_line n =
     rd Line (\<lambda>l.
     if linenum n \<noteq> 0 \<and> l \<noteq> linenum n
     then wr (\<lambda>s. s\<lparr>Line := linenum n\<rparr>) (cglinenum (linenum n)) else ret ())"

definition genfreeregs :: "int \<Rightarrow> unit gcomp" where
  "genfreeregs keepreg = cgfreeallregs keepreg"

definition genIF :: "gen \<Rightarrow> ast \<Rightarrow> int \<Rightarrow> int \<Rightarrow> int gcomp" where
  "genIF g n looptoplabel loopendlabel =
     bnd genlabel (\<lambda>Lfalse.
     bnd (if right n \<noteq> Null then genlabel else ret 0) (\<lambda>Lend.
     thn (g (left n) Lfalse NOLABEL NOLABEL (Some (op n))) (
     thn (genfreeregs NOREG) (
     thn (g (mid n) NOLABEL looptoplabel loopendlabel (Some (op n))) (
     thn (genfreeregs NOREG) (
     thn (if right n \<noteq> Null then cgjump Lend else ret ()) (
     thn (cglabel Lfalse) (
     thn (if right n \<noteq> Null
          then thn (g (right n) NOLABEL NOLABEL loopendlabel (Some (op n)))
               (thn (genfreeregs NOREG) (cglabel Lend))
          else ret ())
     (ret NOREG)))))))))"

definition genWHILE :: "gen \<Rightarrow> ast \<Rightarrow> int gcomp" where
  "genWHILE g n =
     bnd genlabel (\<lambda>Lstart.
     bnd genlabel (\<lambda>Lend.
     thn (cglabel Lstart) (
     thn (g (left n) Lend Lstart Lend (Some (op n))) (
     thn (genfreeregs NOREG) (
     thn (g (right n) NOLABEL Lstart Lend (Some (op n))) (
     thn (genfreeregs NOREG) (
     thn (cgjump Lstart) (
     thn (cglabel Lend)
     (ret NOREG)))))))))"

text \<open>
  The walk over the list of cases, which hangs on the right children: the labels, the values,
  the default label and the number of cases that are not the default.
\<close>

primrec gen_cases :: "gen \<Rightarrow> ast \<Rightarrow> int \<Rightarrow> int \<Rightarrow> (int list \<times> int list \<times> int \<times> nat) gcomp" where
  "gen_cases g Null Lend dflt = ret ([], [], dflt, 0)"
| "gen_cases g (Node q t c rv l m r sy v ln) Lend dflt =
     bnd genlabel (\<lambda>lab.
     thn (cglabel lab) (
     thn (if l \<noteq> Null then thn (g l NOLABEL NOLABEL Lend None) (ret ()) else ret ()) (
     thn (genfreeregs NOREG) (
     bnd (gen_cases g r Lend (if q = A_DEFAULT then lab else dflt)) (\<lambda>(labs, vals, d, n).
     ret (lab # labs, v # vals, d, if q = A_DEFAULT then n else Suc n))))))"

definition genSWITCH :: "gen \<Rightarrow> ast \<Rightarrow> int gcomp" where
  "genSWITCH g n =
     bnd genlabel (\<lambda>Ljumptop.
     bnd genlabel (\<lambda>Lend.
     bnd (g (left n) NOLABEL NOLABEL NOLABEL None) (\<lambda>reg.
     thn (cgjump Ljumptop) (
     thn (genfreeregs reg) (
     bnd (gen_cases g (right n) Lend Lend) (\<lambda>(caselabel, caseval, defaultlabel, casecount).
     thn (cgjump Lend) (
     thn (cgswitch reg casecount Ljumptop caselabel caseval defaultlabel) (
     thn (cglabel Lend)
     (ret NOREG)))))))))"

definition gen_logandor :: "gen \<Rightarrow> ast \<Rightarrow> int gcomp" where
  "gen_logandor g n =
     bnd genlabel (\<lambda>Lfalse.
     bnd genlabel (\<lambda>Lend.
     bnd (g (left n) NOLABEL NOLABEL NOLABEL None) (\<lambda>reg.
     thn (cgboolean reg (Some (op n)) Lfalse) (
     thn (genfreeregs NOREG) (
     bnd (g (right n) NOLABEL NOLABEL NOLABEL None) (\<lambda>reg.
     thn (cgboolean reg (Some (op n)) Lfalse) (
     thn (genfreeregs reg) (
     thn (if op n = A_LOGAND then
            thn (cgloadboolean reg 1) (
            thn (cgjump Lend) (
            thn (cglabel Lfalse)
            (cgloadboolean reg 0)))
          else
            thn (cgloadboolean reg 0) (
            thn (cgjump Lend) (
            thn (cglabel Lfalse)
            (cgloadboolean reg 1)))) (
     thn (cglabel Lend)
     (ret reg))))))))))"

text \<open>
  The arguments hang on a chain of \<open>A_GLUE\<close> nodes, the last one first; the result is the
  number of arguments.
\<close>

primrec gen_args :: "gen \<Rightarrow> ast \<Rightarrow> int \<Rightarrow> int gcomp" where
  "gen_args g Null numargs = ret numargs"
| "gen_args g (Node q t c rv l m r sy v ln) numargs =
     bnd (g r NOLABEL NOLABEL NOLABEL (Some q)) (\<lambda>reg.
     thn (cgcopyarg reg v)
     (gen_args g l (if numargs = 0 then v else numargs)))"

definition gen_funccall :: "gen \<Rightarrow> ast \<Rightarrow> int gcomp" where
  "gen_funccall g n =
     thn cgspillregs (
     bnd (gen_args g (left n) 0) (\<lambda>numargs.
     deref_opt (nsym n) (\<lambda>f. cgcall f numargs)))"

definition gen_ternary :: "gen \<Rightarrow> ast \<Rightarrow> int gcomp" where
  "gen_ternary g n =
     bnd genlabel (\<lambda>Lfalse.
     bnd genlabel (\<lambda>Lend.
     thn (g (left n) Lfalse NOLABEL NOLABEL (Some (op n))) (
     bnd cgallocreg (\<lambda>reg.
     bnd (g (mid n) NOLABEL NOLABEL NOLABEL (Some (op n))) (\<lambda>expreg.
     thn (cgmove expreg reg) (
     thn (cgfreereg expreg) (
     thn (cgjump Lend) (
     thn (cglabel Lfalse) (
     bnd (g (right n) NOLABEL NOLABEL NOLABEL (Some (op n))) (\<lambda>expreg.
     thn (cgmove expreg reg) (
     thn (cgfreereg expreg) (
     thn (cglabel Lend)
     (ret reg)))))))))))))"

definition gen_glue :: "gen \<Rightarrow> ast \<Rightarrow> int \<Rightarrow> int \<Rightarrow> int \<Rightarrow> int gcomp" where
  "gen_glue g n iflabel looptoplabel loopendlabel =
     thn (if left n \<noteq> Null
          then thn (g (left n) iflabel looptoplabel loopendlabel (Some (op n))) (ret ())
          else ret ()) (
     thn (genfreeregs NOREG) (
     thn (if right n \<noteq> Null
          then thn (g (right n) iflabel looptoplabel loopendlabel (Some (op n))) (ret ())
          else ret ()) (
     thn (genfreeregs NOREG)
     (ret NOREG))))"

definition gen_function :: "gen \<Rightarrow> ast \<Rightarrow> int gcomp" where
  "gen_function g n =
     (case nsym n of
        None \<Rightarrow> err (Crash ''null function symbol'')
      | Some f \<Rightarrow>
          thn (cgfuncpreamble f) (
          thn (g (left n) NOLABEL NOLABEL NOLABEL (Some (op n))) (
          thn (cgfuncpostamble f)
          (ret NOREG))))"

text \<open>The assignment code, storing \<open>leftreg\<close> to what the node \<open>target\<close> denotes.\<close>

definition gen_store :: "astop \<Rightarrow> ast \<Rightarrow> int \<Rightarrow> int \<Rightarrow> int gcomp" where
  "gen_store q target leftreg rightreg =
     (if target = Null then err (Crash ''null assignment target'')
      else if op target = A_IDENT then
        deref_opt (nsym target) (\<lambda>sy.
        if is_global_class (s_class sy) then cgstorglob leftreg sy else cgstorlocal leftreg sy)
      else if op target = A_DEREF then cgstorderef leftreg rightreg (ntype target)
      else fatald (''Can'' @ [CHR 0x27] @ ''t A_ASSIGN in genAST(), op'') (ast_num q))"

definition gen_assign :: "ast \<Rightarrow> int \<Rightarrow> int \<Rightarrow> int gcomp" where
  "gen_assign n leftreg rightreg =
     (case op n of
        A_ASPLUS \<Rightarrow> bnd (cgadd leftreg rightreg) (\<lambda>lr. gen_store (op n) (left n) lr rightreg)
      | A_ASMINUS \<Rightarrow> bnd (cgsub leftreg rightreg) (\<lambda>lr. gen_store (op n) (left n) lr rightreg)
      | A_ASSTAR \<Rightarrow> bnd (cgmul leftreg rightreg) (\<lambda>lr. gen_store (op n) (left n) lr rightreg)
      | A_ASSLASH \<Rightarrow>
          bnd (cgdivmod leftreg rightreg A_DIVIDE) (\<lambda>lr. gen_store (op n) (left n) lr rightreg)
      | A_ASMOD \<Rightarrow>
          bnd (cgdivmod leftreg rightreg A_MOD) (\<lambda>lr. gen_store (op n) (left n) lr rightreg)
      | _ \<Rightarrow> gen_store (op n) (right n) leftreg rightreg)"

definition gen_scale :: "ast \<Rightarrow> int \<Rightarrow> int gcomp" where
  "gen_scale n leftreg =
     (if a_intvalue n = 2 then cgshlconst leftreg 1
      else if a_intvalue n = 4 then cgshlconst leftreg 2
      else if a_intvalue n = 8 then cgshlconst leftreg 3
      else bnd (cgloadint (a_intvalue n) P_INT) (\<lambda>rightreg. cgmul leftreg rightreg))"

text \<open>The second \<^verbatim>\<open>switch\<close> of \<^verbatim>\<open>genAST\<close>, with the registers of the two sub-trees.\<close>

definition gen_op :: "ast \<Rightarrow> int \<Rightarrow> int \<Rightarrow> int \<Rightarrow> int \<Rightarrow> int \<Rightarrow> astop option \<Rightarrow> int gcomp" where
  "gen_op n leftreg rightreg iflabel looptoplabel loopendlabel parent =
     (if op n = A_ADD then cgadd leftreg rightreg
      else if op n = A_SUBTRACT then cgsub leftreg rightreg
      else if op n = A_MULTIPLY then cgmul leftreg rightreg
      else if op n = A_DIVIDE then cgdivmod leftreg rightreg A_DIVIDE
      else if op n = A_MOD then cgdivmod leftreg rightreg A_MOD
      else if op n = A_AND then cgand leftreg rightreg
      else if op n = A_OR then cgor leftreg rightreg
      else if op n = A_XOR then cgxor leftreg rightreg
      else if op n = A_LSHIFT then cgshl leftreg rightreg
      else if op n = A_RSHIFT then cgshr leftreg rightreg
      else if op n = A_INTLIT then cgloadint (a_intvalue n) (ntype n)
      else if op n = A_STRLIT then cgloadglobstr (a_intvalue n)
      else if op n = A_IDENT then
          (if rvalue n \<or> parent = Some A_DEREF
           then deref_opt (nsym n) (\<lambda>sy. cgloadvar sy (op n)) else ret NOREG)
      else if op n = A_WIDEN then
          (if left n = Null then err (Crash ''null operand'')
           else cgwiden leftreg (ntype (left n)) (ntype n))
      else if op n = A_RETURN then rd Functionid (\<lambda>f. thn (cgreturn leftreg f) (ret NOREG))
      else if op n = A_ADDR then
          (if nsym n \<noteq> None then deref_opt (nsym n) cgaddress else ret leftreg)
      else if op n = A_DEREF then
          (if rvalue n then
             if left n = Null then err (Crash ''null operand'')
             else cgderef leftreg (ntype (left n))
           else ret leftreg)
      else if op n = A_SCALE then gen_scale n leftreg
      else if op n = A_POSTINC then deref_opt (nsym n) (\<lambda>sy. cgloadvar sy (op n))
      else if op n = A_POSTDEC then deref_opt (nsym n) (\<lambda>sy. cgloadvar sy (op n))
      else if op n = A_PREINC then
          (if left n = Null then err (Crash ''null operand'')
           else deref_opt (nsym (left n)) (\<lambda>sy. cgloadvar sy (op n)))
      else if op n = A_PREDEC then
          (if left n = Null then err (Crash ''null operand'')
           else deref_opt (nsym (left n)) (\<lambda>sy. cgloadvar sy (op n)))
      else if op n = A_NEGATE then cgnegate leftreg
      else if op n = A_INVERT then cginvert leftreg
      else if op n = A_LOGNOT then cglognot leftreg
      else if op n = A_TOBOOL then cgboolean leftreg parent iflabel
      else if op n = A_BREAK then thn (cgjump loopendlabel) (ret NOREG)
      else if op n = A_CONTINUE then thn (cgjump looptoplabel) (ret NOREG)
      else if op n = A_CAST then ret leftreg
      else if is_cmp (op n) then
        if left n = Null then err (Crash ''null operand'')
        else if parent = Some A_IF \<or> parent = Some A_WHILE \<or> parent = Some A_TERNARY
        then cgcompare_and_jump (op n) leftreg rightreg iflabel (ntype (left n))
        else cgcompare_and_set (op n) leftreg rightreg (ntype (left n))
      else if op n = A_ASSIGN \<or> op n = A_ASPLUS \<or> op n = A_ASMINUS \<or> op n = A_ASSTAR
        \<or> op n = A_ASSLASH \<or> op n = A_ASMOD
      then gen_assign n leftreg rightreg
      else fatald ''Unknown AST operator'' (ast_num (op n)))"

definition genAST_body :: "gen \<Rightarrow> gen" where
  "genAST_body g n iflabel looptoplabel loopendlabel parent =
     (if n = Null then ret NOREG
      else
        thn (update_line n) (
        if op n = A_IF then genIF g n looptoplabel loopendlabel
        else if op n = A_WHILE then genWHILE g n
        else if op n = A_SWITCH then genSWITCH g n
        else if op n = A_FUNCCALL then gen_funccall g n
        else if op n = A_TERNARY then gen_ternary g n
        else if op n = A_LOGOR then gen_logandor g n
        else if op n = A_LOGAND then gen_logandor g n
        else if op n = A_GLUE then gen_glue g n iflabel looptoplabel loopendlabel
        else if op n = A_FUNCTION then gen_function g n
        else
            bnd (if left n \<noteq> Null
                 then g (left n) NOLABEL NOLABEL NOLABEL (Some (op n)) else ret NOREG) (\<lambda>leftreg.
            bnd (if right n \<noteq> Null
                 then g (right n) NOLABEL NOLABEL NOLABEL (Some (op n)) else ret NOREG) (\<lambda>rightreg.
            gen_op n leftreg rightreg iflabel looptoplabel loopendlabel parent))))"

primrec genAST_f :: "nat \<Rightarrow> gen" where
  "genAST_f 0 = (\<lambda>n iflabel looptoplabel loopendlabel parent. err OutOfFuel)"
| "genAST_f (Suc f) = genAST_body (genAST_f f)"

definition genAST :: gen where
  "genAST n = genAST_f (Suc (size n)) n"

section \<open>The small functions\<close>

definition genpreamble :: "string \<Rightarrow> unit gcomp" where
  "genpreamble filename = cgpreamble filename"

definition genpostamble :: "unit gcomp" where
  "genpostamble = cgpostamble"

definition genglobsym :: "ptr \<Rightarrow> unit gcomp" where
  "genglobsym node = cgglobsym node"

definition genglobstr :: "string \<Rightarrow> bool \<Rightarrow> int gcomp" where
  "genglobstr strvalue app =
     bnd genlabel (\<lambda>l. thn (cgglobstr l strvalue app) (ret l))"

definition genglobstrend :: "unit gcomp" where
  "genglobstrend = cgglobstrend"

definition genprimsize :: "int \<Rightarrow> int gcomp" where
  "genprimsize type = cgprimsize type"

definition genalign :: "int \<Rightarrow> int \<Rightarrow> int \<Rightarrow> int" where
  "genalign type offset direction = cgalign type offset direction"

end
