(* ===== verification/Scan.thy ===== *)
theory Scan
  imports Defs
begin

text \<open>
  Lexical scanning, \<^verbatim>\<open>scan.c\<close>. The functions work on the \<open>scanner\<close> layer of the globals.

  \<^verbatim>\<open>next\<close> and \<^verbatim>\<open>scan\<close> call each other: a line \<^verbatim>\<open># 12 "file"\<close> left by the pre-processor is
  read with the scanner itself. Each function below takes the reader \<open>nxt\<close> it calls for
  \<^verbatim>\<open>next\<close>; \<open>next_f\<close> ties the knot with a bound on the depth of the recursion, and \<open>scan\<close>
  and \<open>next_char\<close> choose the bound from the input that is left.
\<close>

type_synonym ('z, 'a) scomp = "('z scanner_scheme, 'a) comp"
type_synonym 'z reader = "('z, int) scomp"

datatype tokref = Ref_Token | Ref_Peek

text \<open>\<open>scan(&Token)\<close> and \<open>scan(&Peektoken)\<close> write through their argument.\<close>

fun upd_tok :: "tokref \<Rightarrow> (token \<Rightarrow> token) \<Rightarrow> 'z scanner_scheme \<Rightarrow> 'z scanner_scheme" where
  "upd_tok Ref_Token f s = s\<lparr>Token := f (Token s)\<rparr>"
| "upd_tok Ref_Peek f s = s\<lparr>Peektoken := f (Peektoken s)\<rparr>"

section \<open>Reading characters\<close>

primrec chrpos_loop :: "string \<Rightarrow> int \<Rightarrow> int \<Rightarrow> int" where
  "chrpos_loop [] c i = -1"
| "chrpos_loop (x # xs) c i = (if x = to_char c then i else chrpos_loop xs c (i + 1))"

definition chrpos :: "string \<Rightarrow> int \<Rightarrow> int" where
  "chrpos s c = chrpos_loop s c 0"

definition fgetc :: "('z, int) scomp" where
  "fgetc s = (case Infile s of [] \<Rightarrow> Inr (EOF, s) | x # xs \<Rightarrow> Inr (cc x, s\<lparr>Infile := xs\<rparr>))"

text \<open>\<^verbatim>\<open>while ((c = fgetc(Infile)) != '\n');\<close> does not stop at the end of the file.\<close>

primrec after_newline :: "string \<Rightarrow> string option" where
  "after_newline [] = None"
| "after_newline (x # xs) = (if x = CHR 0x0A then Some xs else after_newline xs)"

definition skip_line :: "('z, unit) scomp" where
  "skip_line s = (case after_newline (Infile s) of
     None \<Rightarrow> Inl NoReturn | Some rest \<Rightarrow> Inr ((), s\<lparr>Infile := rest\<rparr>))"

text \<open>The body of the loop on pre-processor lines; \<open>sc\<close> is \<^verbatim>\<open>scan(&Token)\<close>.\<close>

definition directive :: "('z, bool) scomp \<Rightarrow> ('z, int) scomp" where
  "directive sc =
     wr (\<lambda>s. s\<lparr>Linestart := False\<rparr>) (
     thn sc (
     rd (token \<circ> Token) (\<lambda>t. rd Text (\<lambda>txt.
     if t \<noteq> T_INTLIT then fatals ''Expecting pre-processor line number, got:'' txt
     else rd (intvalue \<circ> Token) (\<lambda>l.
     thn sc (
     rd (token \<circ> Token) (\<lambda>t. rd Text (\<lambda>txt.
     if t \<noteq> T_STRLIT then fatals ''Expecting pre-processor file name, got:'' txt
     else
       wr (\<lambda>s. if txt = [] \<or> hd txt \<noteq> CHR ''<''
               then (if txt \<noteq> Infilename s then s\<lparr>Infilename := txt, Line := l\<rparr>
                     else s\<lparr>Line := l\<rparr>)
               else s) (
       thn skip_line (
       bnd fgetc (\<lambda>c.
       wr (\<lambda>s. s\<lparr>Linestart := True\<rparr>) (ret c))))))))))))"

primrec directives :: "nat \<Rightarrow> ('z, bool) scomp \<Rightarrow> int \<Rightarrow> ('z, int) scomp" where
  "directives 0 sc c = err OutOfFuel"
| "directives (Suc n) sc c =
     rd Linestart (\<lambda>b.
     if b \<and> c = cc (CHR ''#'') then bnd (directive sc) (directives n sc) else ret c)"

text \<open>\<open>next_body\<close> is the body of \<^verbatim>\<open>next\<close>.\<close>

definition next_body :: "nat \<Rightarrow> ('z, bool) scomp \<Rightarrow> 'z reader" where
  "next_body n sc =
     rd Putback (\<lambda>p.
     if p \<noteq> 0 then wr (\<lambda>s. s\<lparr>Putback := 0\<rparr>) (ret p)
     else
       bnd fgetc (\<lambda>c.
       bnd (directives n sc c) (\<lambda>c.
       wr (\<lambda>s. if c = cc (CHR 0x0A) then s\<lparr>Line := Line s + 1, Linestart := True\<rparr>
               else s\<lparr>Linestart := False\<rparr>)
       (ret c))))"

definition putback :: "int \<Rightarrow> ('z, unit) scomp" where
  "putback c = modify (\<lambda>s. s\<lparr>Putback := c\<rparr>)"

definition is_space :: "int \<Rightarrow> bool" where
  [model_defs]: "is_space c \<longleftrightarrow> c = 32 \<or> c = 9 \<or> c = 10 \<or> c = 13 \<or> c = 12"

primrec skip_loop :: "nat \<Rightarrow> 'z reader \<Rightarrow> int \<Rightarrow> 'z reader" where
  "skip_loop 0 nxt c = err OutOfFuel"
| "skip_loop (Suc n) nxt c = (if is_space c then bnd nxt (skip_loop n nxt) else ret c)"

definition skip :: "nat \<Rightarrow> 'z reader \<Rightarrow> 'z reader" where
  "skip n nxt = bnd nxt (skip_loop n nxt)"

section \<open>Literals and identifiers\<close>

abbreviation (input) hexdigits :: string where
  "hexdigits \<equiv> ''0123456789abcdef''"

text \<open>The loop of \<^verbatim>\<open>hexchar\<close>: value so far, and whether a digit was seen.\<close>

primrec hexchar_loop :: "nat \<Rightarrow> 'z reader \<Rightarrow> int \<Rightarrow> bool \<Rightarrow> ('z, int \<times> bool) scomp" where
  "hexchar_loop 0 nxt n f = err OutOfFuel"
| "hexchar_loop (Suc k) nxt n f =
     bnd nxt (\<lambda>c.
     if isxdigit c
     then hexchar_loop k nxt (i32 (n * 16 + chrpos hexdigits (tolower c))) True
     else thn (putback c) (ret (n, f)))"

definition hexchar :: "nat \<Rightarrow> 'z reader \<Rightarrow> 'z reader" where
  "hexchar k nxt =
     bnd (hexchar_loop k nxt 0 False) (\<lambda>(n, f).
     if \<not> f then fatal (''missing digits after '' @ [CHR 0x27, CHR 0x5C, CHR ''x'', CHR 0x27])
     else if n > 255 then fatal (''value out of range after '' @ [CHR 0x27, CHR 0x5C, CHR ''x'', CHR 0x27])
     else ret n)"

text \<open>Octal constants take three digits at most.\<close>

primrec octal_loop :: "nat \<Rightarrow> 'z reader \<Rightarrow> int \<Rightarrow> int \<Rightarrow> 'z reader" where
  "octal_loop 0 nxt c c2 = thn (putback c) (ret c2)"
| "octal_loop (Suc i) nxt c c2 =
     (if isdigit c \<and> c < 56 then bnd nxt (\<lambda>c'. octal_loop i nxt c' (c2 * 8 + (c - 48)))
      else thn (putback c) (ret c2))"

definition scanch :: "nat \<Rightarrow> 'z reader \<Rightarrow> 'z reader" where
  "scanch k nxt =
     bnd nxt (\<lambda>c.
     if c = cc (CHR 0x5C) then
       bnd nxt (\<lambda>c.
       if c = cc (CHR ''a'') then ret 7
       else if c = cc (CHR ''b'') then ret 8
       else if c = cc (CHR ''f'') then ret 12
       else if c = cc (CHR ''n'') then ret 10
       else if c = cc (CHR ''r'') then ret 13
       else if c = cc (CHR ''t'') then ret 9
       else if c = cc (CHR ''v'') then ret 11
       else if c = cc (CHR 0x5C) then ret (cc (CHR 0x5C))
       else if c = cc (CHR 0x22) then ret (cc (CHR 0x22))
       else if c = cc (CHR 0x27) then ret (cc (CHR 0x27))
       else if isdigit c \<and> c < 56 then octal_loop 3 nxt c 0
       else if c = cc (CHR ''x'') then hexchar k nxt
       else fatalc ''unknown escape sequence'' c)
     else ret c)"

primrec scanint_loop :: "nat \<Rightarrow> 'z reader \<Rightarrow> int \<Rightarrow> int \<Rightarrow> int \<Rightarrow> 'z reader" where
  "scanint_loop 0 nxt radix val c = err OutOfFuel"
| "scanint_loop (Suc n) nxt radix val c =
     (let k = chrpos hexdigits (tolower c) in
      if k \<ge> 0 then
        if k \<ge> radix then fatalc ''invalid digit in integer literal'' c
        else bnd nxt (scanint_loop n nxt radix (i32 (val * radix + k)))
      else thn (putback c) (ret val))"

definition scanint :: "nat \<Rightarrow> 'z reader \<Rightarrow> int \<Rightarrow> 'z reader" where
  "scanint n nxt c =
     (if c = cc (CHR ''0'') then
        bnd nxt (\<lambda>c.
        if c = cc (CHR ''x'') then bnd nxt (scanint_loop n nxt 16 0)
        else scanint_loop n nxt 8 0 c)
      else scanint_loop n nxt 10 0 c)"

text \<open>The C string in a buffer ends at the first zero byte.\<close>

definition cstr :: "string \<Rightarrow> string" where
  "cstr buf = takeWhile (\<lambda>x. x \<noteq> CHR 0x00) buf"

primrec scanstr_loop :: "nat \<Rightarrow> nat \<Rightarrow> 'z reader \<Rightarrow> string \<Rightarrow> ('z, int) scomp" where
  "scanstr_loop 0 n nxt buf = fatal ''String literal too long''"
| "scanstr_loop (Suc room) n nxt buf =
     bnd (scanch n nxt) (\<lambda>c.
     if c = cc (CHR 0x22)
     then wr (\<lambda>s. s\<lparr>Text := cstr buf\<rparr>) (ret (int (length buf)))
     else scanstr_loop room n nxt (buf @ [to_char c]))"

definition scanstr :: "nat \<Rightarrow> 'z reader \<Rightarrow> ('z, int) scomp" where
  "scanstr n nxt = scanstr_loop (TEXTLEN - 1) n nxt []"

definition is_idchar :: "int \<Rightarrow> bool" where
  [model_defs]: "is_idchar c \<longleftrightarrow> isalpha c \<or> isdigit c \<or> c = 95"

primrec scanident_loop :: "nat \<Rightarrow> 'z reader \<Rightarrow> int \<Rightarrow> string \<Rightarrow> ('z, int) scomp" where
  "scanident_loop 0 nxt c buf =
     (if is_idchar c then fatal ''Identifier too long''
      else thn (putback c) (wr (\<lambda>s. s\<lparr>Text := buf\<rparr>) (ret (int (length buf)))))"
| "scanident_loop (Suc room) nxt c buf =
     (if is_idchar c then bnd nxt (\<lambda>c'. scanident_loop room nxt c' (buf @ [to_char c]))
      else thn (putback c) (wr (\<lambda>s. s\<lparr>Text := buf\<rparr>) (ret (int (length buf)))))"

definition scanident :: "'z reader \<Rightarrow> int \<Rightarrow> nat \<Rightarrow> ('z, int) scomp" where
  "scanident nxt c lim = scanident_loop (lim - 1) nxt c []"

section \<open>Keywords and tokens\<close>

text \<open>\<open>None\<close> is the 0 that \<^verbatim>\<open>keyword\<close> returns for a word that is no keyword.\<close>

definition keyword :: "string \<Rightarrow> toktype option" where
  "keyword s = (case s of [] \<Rightarrow> None | c # _ \<Rightarrow>
       if c = CHR ''b'' then
         (if s = ''break'' then Some T_BREAK else None)
       else if c = CHR ''c'' then
         (if s = ''case'' then Some T_CASE
          else if s = ''char'' then Some T_CHAR
          else if s = ''continue'' then Some T_CONTINUE else None)
       else if c = CHR ''d'' then
         (if s = ''default'' then Some T_DEFAULT else None)
       else if c = CHR ''e'' then
         (if s = ''else'' then Some T_ELSE
          else if s = ''enum'' then Some T_ENUM
          else if s = ''extern'' then Some T_EXTERN else None)
       else if c = CHR ''f'' then
         (if s = ''for'' then Some T_FOR else None)
       else if c = CHR ''i'' then
         (if s = ''if'' then Some T_IF
          else if s = ''int'' then Some T_INT else None)
       else if c = CHR ''l'' then
         (if s = ''long'' then Some T_LONG else None)
       else if c = CHR ''r'' then
         (if s = ''return'' then Some T_RETURN else None)
       else if c = CHR ''s'' then
         (if s = ''sizeof'' then Some T_SIZEOF
          else if s = ''static'' then Some T_STATIC
          else if s = ''struct'' then Some T_STRUCT
          else if s = ''switch'' then Some T_SWITCH else None)
       else if c = CHR ''t'' then
         (if s = ''typedef'' then Some T_TYPEDEF else None)
       else if c = CHR ''u'' then
         (if s = ''union'' then Some T_UNION else None)
       else if c = CHR ''v'' then
         (if s = ''void'' then Some T_VOID else None)
       else if c = CHR ''w'' then
         (if s = ''while'' then Some T_WHILE else None)
       else None)"

definition Tstrings :: "string list" where
  "Tstrings =
    [''EOF'', ''='', ''+='', ''-='', ''*='', ''/='', ''%='', ''?'', ''||'',
     ''&&'', ''|'', ''^'', ''&'', ''=='', ''!='', ''<'', ''>'', ''<='',
     ''>='', ''<<'', ''>>'', ''+'', ''-'', ''*'', ''/'', ''%'', ''++'',
     ''--'', ''~'', ''!'', ''void'', ''char'', ''int'', ''long'', ''if'', ''else'',
     ''while'', ''for'', ''return'', ''struct'', ''union'', ''enum'', ''typedef'', ''extern'', ''break'',
     ''continue'', ''switch'', ''case'', ''default'', ''sizeof'', ''static'', ''intlit'', ''strlit'', '';'',
     ''identifier'', ''{'', ''}'', ''('', '')'', ''['', '']'', '','', ''.'',
     ''->'', '':'']"

definition Tstring :: "toktype \<Rightarrow> string" where
  "Tstring t = Tstrings ! nat (tok_num t)"

text \<open>
  A character that may be followed by a second one to form a longer token: look the next
  character up among the alternatives, or put it back.
\<close>

definition follow :: "'z reader \<Rightarrow> (int \<times> toktype) list \<Rightarrow> toktype \<Rightarrow> ('z, toktype) scomp" where
  "follow nxt alts t =
     bnd nxt (\<lambda>c. case map_of alts c of Some t' \<Rightarrow> ret t' | None \<Rightarrow> thn (putback c) (ret t))"

definition put_intlit :: "tokref \<Rightarrow> int \<Rightarrow> ('z, toktype) scomp" where
  "put_intlit r v = wr (upd_tok r (\<lambda>t. t\<lparr>intvalue := v\<rparr>)) (ret T_INTLIT)"

text \<open>The \<^verbatim>\<open>switch (c)\<close> of \<^verbatim>\<open>scan\<close>, for a character that is not \<^verbatim>\<open>EOF\<close>.\<close>

definition scan_switch :: "nat \<Rightarrow> 'z reader \<Rightarrow> tokref \<Rightarrow> int \<Rightarrow> ('z, toktype) scomp" where
  "scan_switch n nxt r c =
     (if c = cc (CHR ''+'') then
        follow nxt [(cc (CHR ''+''), T_INC), (cc (CHR ''=''), T_ASPLUS)] T_PLUS
      else if c = cc (CHR ''-'') then
        bnd nxt (\<lambda>c.
        if c = cc (CHR ''-'') then ret T_DEC
        else if c = cc (CHR ''>'') then ret T_ARROW
        else if c = cc (CHR ''='') then ret T_ASMINUS
        else if isdigit c then bnd (scanint n nxt c) (\<lambda>v. put_intlit r (i32 (- v)))
        else thn (putback c) (ret T_MINUS))
      else if c = cc (CHR ''*'') then follow nxt [(cc (CHR ''=''), T_ASSTAR)] T_STAR
      else if c = cc (CHR ''/'') then follow nxt [(cc (CHR ''=''), T_ASSLASH)] T_SLASH
      else if c = cc (CHR ''%'') then follow nxt [(cc (CHR ''=''), T_ASMOD)] T_MOD
      else if c = cc (CHR '';'') then ret T_SEMI
      else if c = cc (CHR ''{'') then ret T_LBRACE
      else if c = cc (CHR ''}'') then ret T_RBRACE
      else if c = cc (CHR ''('') then ret T_LPAREN
      else if c = cc (CHR '')'') then ret T_RPAREN
      else if c = cc (CHR ''['') then ret T_LBRACKET
      else if c = cc (CHR '']'') then ret T_RBRACKET
      else if c = cc (CHR ''~'') then ret T_INVERT
      else if c = cc (CHR ''^'') then ret T_XOR
      else if c = cc (CHR '','') then ret T_COMMA
      else if c = cc (CHR ''.'') then ret T_DOT
      else if c = cc (CHR '':'') then ret T_COLON
      else if c = cc (CHR ''?'') then ret T_QUESTION
      else if c = cc (CHR ''='') then follow nxt [(cc (CHR ''=''), T_EQ)] T_ASSIGN
      else if c = cc (CHR ''!'') then follow nxt [(cc (CHR ''=''), T_NE)] T_LOGNOT
      else if c = cc (CHR ''<'') then
        follow nxt [(cc (CHR ''=''), T_LE), (cc (CHR ''<''), T_LSHIFT)] T_LT
      else if c = cc (CHR ''>'') then
        follow nxt [(cc (CHR ''=''), T_GE), (cc (CHR ''>''), T_RSHIFT)] T_GT
      else if c = cc (CHR ''&'') then follow nxt [(cc (CHR ''&''), T_LOGAND)] T_AMPER
      else if c = cc (CHR ''|'') then follow nxt [(cc (CHR ''|''), T_LOGOR)] T_OR
      else if c = cc (CHR 0x27) then
        bnd (scanch n nxt) (\<lambda>v.
        bnd (put_intlit r v) (\<lambda>t.
        bnd nxt (\<lambda>c.
        if c \<noteq> cc (CHR 0x27)
        then fatal (''Expected '' @ [CHR 0x27, CHR 0x5C, CHR 0x27, CHR 0x27]
                    @ '' at end of char literal'')
        else ret t)))
      else if c = cc (CHR 0x22) then thn (scanstr n nxt) (ret T_STRLIT)
      else if isdigit c then bnd (scanint n nxt c) (put_intlit r)
      else if isalpha c \<or> c = 95 then
        thn (scanident nxt c TEXTLEN) (
        rd Text (\<lambda>txt. ret (case keyword txt of Some t \<Rightarrow> t | None \<Rightarrow> T_IDENT)))
      else fatalc ''Unrecognised character'' c)"

text \<open>\<^verbatim>\<open>scan\<close>: \<open>True\<close> if a token was read, \<open>False\<close> at the end of the input.\<close>

definition scan_body :: "nat \<Rightarrow> 'z reader \<Rightarrow> tokref \<Rightarrow> ('z, bool) scomp" where
  "scan_body n nxt r =
     rd Peektoken (\<lambda>p.
     if token p \<noteq> T_EOF then
       wr (\<lambda>s. (upd_tok r (\<lambda>_. p) s))
       (wr (\<lambda>s. s\<lparr>Peektoken := (Peektoken s)\<lparr>token := T_EOF\<rparr>\<rparr>) (ret True))
     else
       bnd (skip n nxt) (\<lambda>c.
       if c = EOF then wr (upd_tok r (\<lambda>t. t\<lparr>token := T_EOF\<rparr>)) (ret False)
       else
         bnd (scan_switch n nxt r c) (\<lambda>k.
         wr (upd_tok r (\<lambda>t. t\<lparr>token := k, tokstr := Tstring k\<rparr>)) (ret True))))"

text \<open>The knot: \<^verbatim>\<open>next\<close> reads a directive with \<^verbatim>\<open>scan(&Token)\<close>, which calls \<^verbatim>\<open>next\<close>.\<close>

primrec next_f :: "nat \<Rightarrow> 'z reader" where
  "next_f 0 = err OutOfFuel"
| "next_f (Suc n) = next_body (Suc n) (scan_body n (next_f n) Ref_Token)"

definition fuel_for :: "'z scanner_scheme \<Rightarrow> nat" where
  "fuel_for s = length (Infile s) + 3"

definition next_char :: "'z reader" where
  "next_char s = next_f (fuel_for s) s"

definition scan :: "tokref \<Rightarrow> ('z, bool) scomp" where
  "scan r s = scan_body (fuel_for s) (next_f (fuel_for s)) r s"

end
