(* ===== verification/Misc.thy ===== *)
theory Misc
  imports Scan
begin

text \<open>The token-matching helpers of \<^verbatim>\<open>misc.c\<close>.\<close>

definition scan_tok :: "('z, bool) scomp" where
  [model_defs]: "scan_tok = scan Ref_Token"

abbreviation (input) cur :: "'z scanner_scheme \<Rightarrow> toktype" where
  "cur s \<equiv> token (Token s)"

definition match_tok :: "toktype \<Rightarrow> string \<Rightarrow> ('z, unit) scomp" where
  "match_tok t what =
     rd cur (\<lambda>k. if k = t then thn scan_tok (ret ()) else fatals ''Expected'' what)"

definition semi :: "('z, unit) scomp" where
  "semi = match_tok T_SEMI '';''"

definition lbrace :: "('z, unit) scomp" where
  "lbrace = match_tok T_LBRACE ''{''"

definition rbrace :: "('z, unit) scomp" where
  "rbrace = match_tok T_RBRACE ''}''"

definition lparen :: "('z, unit) scomp" where
  "lparen = match_tok T_LPAREN ''(''"

definition rparen :: "('z, unit) scomp" where
  "rparen = match_tok T_RPAREN '')''"

definition ident :: "('z, unit) scomp" where
  "ident = match_tok T_IDENT ''identifier''"

definition comma :: "('z, unit) scomp" where
  "comma = match_tok T_COMMA ''comma''"

lemmas match_defs = match_tok_def semi_def lbrace_def rbrace_def lparen_def rparen_def
  ident_def comma_def

end
