(* ===== verification/Calls.thy ===== *)
theory Calls
  imports Gen Misc
begin

text \<open>
  The parser of \<^verbatim>\<open>expr.c\<close>, \<^verbatim>\<open>decl.c\<close> and \<^verbatim>\<open>stmt.c\<close> is one family of mutually recursive
  functions. A function of the model takes a record \<open>K\<close> with the functions it calls back,
  and the next iteration of each loop; the theory \<open>Parser\<close> ties the knot with a bound on the
  depth of the calls. A loop that builds a value carries it as an argument.

  A parameter that a C function writes through a pointer is passed in and returned:
  \<^verbatim>\<open>struct symtable **ctype\<close>, \<^verbatim>\<open>int *class\<close>, \<^verbatim>\<open>struct ASTnode **tree\<close>. Local variables that the
  source passes on before it has assigned them start as \<open>None\<close> and \<open>C_NONE\<close>.
\<close>

record calls =
  k_binexpr :: "int \<Rightarrow> ast gcomp"
  k_binexpr_loop :: "int \<Rightarrow> ast \<Rightarrow> ast gcomp"
  k_prefix :: "int \<Rightarrow> ast gcomp"
  k_postfix_loop :: "ast \<Rightarrow> ast gcomp"
  k_expression_loop :: "toktype \<Rightarrow> ast \<Rightarrow> int \<Rightarrow> ast gcomp"
  k_string_loop :: "unit gcomp"
  k_exstatic_loop :: "sclass \<Rightarrow> sclass gcomp"
  k_stars_loop :: "int \<Rightarrow> int gcomp"
  k_parse_type :: "ptr option \<Rightarrow> sclass \<Rightarrow> (int \<times> ptr option \<times> sclass) gcomp"
  k_initlist_loop :: "int \<Rightarrow> int \<Rightarrow> int \<Rightarrow> int list \<Rightarrow> (int list \<times> int) gcomp"
  k_param_loop :: "ptr option \<Rightarrow> ptr list \<Rightarrow> ptr option \<Rightarrow> int \<Rightarrow> int gcomp"
  k_member_loop :: "ptr option \<Rightarrow> unit gcomp"
  k_enum_loop :: "int \<Rightarrow> unit gcomp"
  k_declaration_list ::
    "ptr option \<Rightarrow> sclass \<Rightarrow> toktype \<Rightarrow> toktype \<Rightarrow> (int \<times> ptr option \<times> ast) gcomp"
  k_symbol_loop :: "int \<Rightarrow> ptr option \<Rightarrow> sclass \<Rightarrow> toktype \<Rightarrow> toktype \<Rightarrow> ast \<Rightarrow> (int \<times> ast) gcomp"
  k_single_statement :: "ast gcomp"
  k_compound_loop :: "bool \<Rightarrow> ast \<Rightarrow> ast gcomp"
  k_switch_loop :: "ast \<Rightarrow> int \<Rightarrow> bool \<Rightarrow> int \<Rightarrow> (ast \<times> int) gcomp"
  k_global_loop :: "ptr option \<Rightarrow> unit gcomp"

text \<open>\<^verbatim>\<open>parse_stars\<close> and \<^verbatim>\<open>parse_cast\<close> of \<^verbatim>\<open>decl.c\<close>, which expressions use too.\<close>

definition parse_stars :: "calls \<Rightarrow> int \<Rightarrow> int gcomp" where
  "parse_stars K type =
     rd cur (\<lambda>t.
     if t \<noteq> T_STAR then ret type
     else bnd (pointer_to type) (\<lambda>type. thn scan_tok (k_stars_loop K type)))"

definition parse_cast :: "calls \<Rightarrow> ptr option \<Rightarrow> (int \<times> ptr option) gcomp" where
  "parse_cast K ctype =
     bnd (k_parse_type K ctype C_NONE) (\<lambda>(type, ctype, class).
     bnd (parse_stars K type) (\<lambda>type.
     if type = P_STRUCT \<or> type = P_UNION \<or> type = P_VOID
     then fatal ''Cannot cast to a struct, union or void type''
     else ret (type, ctype)))"

end
