(* ===== verification/Expr.thy ===== *)
theory Expr
  imports Calls
begin

text \<open>
  Parsing of expressions, \<^verbatim>\<open>expr.c\<close>: a Pratt parser driven by the precedence of the operator
  tokens. \<^verbatim>\<open>ptp\<close> is the precedence of the previous token. The result of an expression is
  never the \<^verbatim>\<open>NULL\<close> tree.
\<close>

section \<open>Lists and calls\<close>

text \<open>One round of the loop of \<^verbatim>\<open>expression_list\<close>, with the tree and the count so far.\<close>

definition expression_loop :: "calls \<Rightarrow> toktype \<Rightarrow> ast \<Rightarrow> int \<Rightarrow> ast gcomp" where
  "expression_loop K endtoken tree exprcount =
     rd cur (\<lambda>t.
     if t = endtoken then ret tree
     else
       bnd (k_binexpr K 0) (\<lambda>child.
       let exprcount = exprcount + 1;
           tree = mkastnode A_GLUE P_NONE None tree Null child None exprcount
       in
       rd cur (\<lambda>t.
       if t = endtoken then ret tree
       else thn (match_tok T_COMMA '','') (k_expression_loop K endtoken tree exprcount))))"

definition expression_list :: "calls \<Rightarrow> toktype \<Rightarrow> ast gcomp" where
  "expression_list K endtoken = expression_loop K endtoken Null 0"

definition funccall :: "calls \<Rightarrow> ast gcomp" where
  "funccall K =
     rd Text (\<lambda>txt. rd (findsymbol txt) (\<lambda>funcptr.
     case funcptr of
       None \<Rightarrow> fatals ''Undeclared function'' txt
     | Some f \<Rightarrow>
         deref f (\<lambda>e.
         if s_stype e \<noteq> S_FUNCTION then fatals ''Undeclared function'' txt
         else
           thn lparen (
           bnd (expression_list K T_RPAREN) (\<lambda>tree.
           deref f (\<lambda>e.
           thn rparen
           (ret (mkastunary A_FUNCCALL (s_type e) (s_ctype e) tree (Some f) 0))))))))"

section \<open>Array elements and members\<close>

definition array_access :: "calls \<Rightarrow> ast \<Rightarrow> ast gcomp" where
  "array_access K l =
     (if \<not> ptrtype (ntype l) then fatal ''Not an array or pointer''
      else
        thn scan_tok (
        bnd (k_binexpr K 0) (\<lambda>r.
        thn (match_tok T_RBRACKET '']'') (
        if \<not> inttype (ntype r) then fatal ''Array index is not of integer type''
        else
          let l = set_rvalue l in
          bnd (modify_type r (ntype l) (nctype l) (Some A_ADD)) (\<lambda>r.
          let l = mkastnode A_ADD (ntype l) (nctype l) l Null r None 0 in
          bnd (value_at (ntype l)) (\<lambda>t.
          ret (mkastunary A_DEREF t (nctype l) l None 0)))))))"

text \<open>The search for a member by name.\<close>

primrec find_member :: "symtable list \<Rightarrow> string \<Rightarrow> ptr list \<Rightarrow> ptr option" where
  "find_member h name [] = None"
| "find_member h name (m # ms) =
     (if s_name (h ! m) = Some name then Some m else find_member h name ms)"

definition member_access :: "ast \<Rightarrow> bool \<Rightarrow> ast gcomp" where
  "member_access l withpointer =
     bnd (pointer_to P_STRUCT) (\<lambda>ps. bnd (pointer_to P_UNION) (\<lambda>pu.
     if withpointer \<and> ntype l \<noteq> ps \<and> ntype l \<noteq> pu
     then fatal ''Expression is not a pointer to a struct/union''
     else
       bnd (if withpointer then ret l
            else if ntype l = P_STRUCT \<or> ntype l = P_UNION then ret (set_op A_ADDR l)
            else fatal ''Expression is not a struct/union'') (\<lambda>l.
       thn scan_tok (
       thn ident (
       deref_opt (nctype l) (\<lambda>typeptr. rd Heap (\<lambda>h. rd Text (\<lambda>txt.
       case find_member h txt (s_member typeptr) of
         None \<Rightarrow> fatals ''No member found in struct/union: '' txt
       | Some m \<Rightarrow>
           deref m (\<lambda>m.
           let l = set_rvalue l; r = mkastleaf A_INTLIT P_INT None None (s_posn m) in
           bnd (pointer_to (s_type m)) (\<lambda>pt.
           let l = mkastnode A_ADD pt (s_ctype m) l Null r None 0 in
           ret (mkastunary A_DEREF (s_type m) (s_ctype m) l None 0))))))))))) "

section \<open>Primary expressions\<close>

text \<open>
  The \<^verbatim>\<open>switch\<close> falls through: a type is parsed as a cast and the closing parenthesis skipped,
  and then, as for every other token, the expression is parsed with \<^verbatim>\<open>binexpr(ptp)\<close>. Only an
  identifier that is no typedef is parsed with \<^verbatim>\<open>binexpr(0)\<close>. A typedef of type 0 cannot
  arise, so a cast is told by a type other than 0.
\<close>

definition starts_type :: "toktype \<Rightarrow> bool" where
  "starts_type t \<longleftrightarrow> t \<in> {T_VOID, T_CHAR, T_INT, T_LONG, T_STRUCT, T_UNION, T_ENUM}"

definition paren_expression :: "calls \<Rightarrow> int \<Rightarrow> ast gcomp" where
  "paren_expression K ptp =
     thn scan_tok (
     rd cur (\<lambda>t. rd Text (\<lambda>txt. rd (findtypedef txt) (\<lambda>td.
     bnd (if t = T_IDENT \<and> td = None then
            bnd (k_binexpr K 0) (\<lambda>n. ret (0, None, n))
          else if t = T_IDENT \<or> starts_type t then
            bnd (parse_cast K None) (\<lambda>(type, ctype).
            thn rparen (bnd (k_binexpr K ptp) (\<lambda>n. ret (type, ctype, n))))
          else
            bnd (k_binexpr K ptp) (\<lambda>n. ret (0, None, n))) (\<lambda>(type, ctype, n).
     if type = 0 then thn rparen (ret n)
     else ret (mkastunary A_CAST type ctype n None 0))))))"

text \<open>
  The loop that appends the string literals that follow. The next token is read into
  \<^verbatim>\<open>Peektoken\<close>; a literal is then moved into \<^verbatim>\<open>Token\<close>.
\<close>

definition string_loop :: "calls \<Rightarrow> unit gcomp" where
  "string_loop K =
     thn (scan Ref_Peek) (
     rd (token \<circ> Peektoken) (\<lambda>t.
     if t \<noteq> T_STRLIT then ret ()
     else
       rd Text (\<lambda>txt.
       thn (genglobstr txt True) (
       thn scan_tok
       (k_string_loop K)))))"

definition sizeof_expression :: "calls \<Rightarrow> ast gcomp" where
  "sizeof_expression K =
     thn scan_tok (
     rd cur (\<lambda>t.
     if t \<noteq> T_LPAREN then fatal ''Left parenthesis expected after sizeof''
     else
       thn scan_tok (
       bnd (k_parse_type K None C_NONE) (\<lambda>(type, ctype, class).
       bnd (parse_stars K type) (\<lambda>type.
       bnd (typesize type ctype) (\<lambda>sz.
       thn rparen
       (ret (mkastleaf A_INTLIT P_INT None None sz))))))))"

definition primary_ident :: "calls \<Rightarrow> ast gcomp" where
  "primary_ident K =
     rd Text (\<lambda>txt. rd (findenumval txt) (\<lambda>enumptr.
     case enumptr of
       Some e \<Rightarrow>
         deref e (\<lambda>e. thn scan_tok (ret (mkastleaf A_INTLIT P_INT None None (s_posn e))))
     | None \<Rightarrow>
         rd (findsymbol txt) (\<lambda>varptr.
         case varptr of
           None \<Rightarrow> fatals ''Unknown variable or function'' txt
         | Some v \<Rightarrow>
             deref v (\<lambda>e.
             case s_stype e of
               S_VARIABLE \<Rightarrow>
                 thn scan_tok (ret (mkastleaf A_IDENT (s_type e) (s_ctype e) (Some v) 0))
             | S_ARRAY \<Rightarrow>
                 thn scan_tok
                 (ret (set_rvalue (mkastleaf A_ADDR (s_type e) (s_ctype e) (Some v) 0)))
             | S_FUNCTION \<Rightarrow>
                 thn scan_tok (
                 rd cur (\<lambda>t. rd Text (\<lambda>txt.
                 if t \<noteq> T_LPAREN then fatals ''Function name used without parentheses'' txt
                 else funccall K)))))))"

definition primary :: "calls \<Rightarrow> int \<Rightarrow> ast gcomp" where
  "primary K ptp =
     rd cur (\<lambda>t. rd Token (\<lambda>tok.
     if t = T_STATIC \<or> t = T_EXTERN then
       fatal (''Compiler doesn'' @ [CHR 0x27] @ ''t support static or extern local declarations'')
     else if t = T_SIZEOF then sizeof_expression K
     else if t = T_INTLIT then
       let v = intvalue tok in
       thn scan_tok
       (ret (if v \<ge> 0 \<and> v < 256 then mkastleaf A_INTLIT P_CHAR None None v
             else mkastleaf A_INTLIT P_INT None None v))
     else if t = T_STRLIT then
       rd Text (\<lambda>txt.
       bnd (genglobstr txt False) (\<lambda>id.
       thn (string_loop K) (
       thn genglobstrend (
       bnd (pointer_to P_CHAR) (\<lambda>pc.
       thn scan_tok (ret (mkastleaf A_STRLIT pc None None id)))))))
     else if t = T_IDENT then primary_ident K
     else if t = T_LPAREN then paren_expression K ptp
     else fatals ''Expecting a primary expression, got token'' (tokstr tok)))"

section \<open>Postfix and prefix expressions\<close>

text \<open>Post-increment and post-decrement, without the scan that precedes the second check.\<close>

definition post_incdec :: "astop \<Rightarrow> string \<Rightarrow> ast \<Rightarrow> ast gcomp" where
  "post_incdec aop msg n =
     (if rvalue n then fatal msg
      else
        thn scan_tok (
        if op n = A_POSTINC \<or> op n = A_POSTDEC
        then fatal ''Cannot ++ and/or -- more than once''
        else ret (set_op aop n)))"

definition postfix_loop :: "calls \<Rightarrow> ast \<Rightarrow> ast gcomp" where
  "postfix_loop K n =
     rd cur (\<lambda>t.
     if t = T_LBRACKET then bnd (array_access K n) (k_postfix_loop K)
     else if t = T_DOT then bnd (member_access n False) (k_postfix_loop K)
     else if t = T_ARROW then bnd (member_access n True) (k_postfix_loop K)
     else if t = T_INC then
       bnd (post_incdec A_POSTINC ''Cannot ++ on rvalue'' n) (k_postfix_loop K)
     else if t = T_DEC then
       bnd (post_incdec A_POSTDEC ''Cannot -- on rvalue'' n) (k_postfix_loop K)
     else ret n)"

definition postfix :: "calls \<Rightarrow> int \<Rightarrow> ast gcomp" where
  "postfix K ptp = bnd (primary K ptp) (postfix_loop K)"

definition prefix :: "calls \<Rightarrow> int \<Rightarrow> ast gcomp" where
  "prefix K ptp =
     rd cur (\<lambda>t.
     if t = T_AMPER then
       thn scan_tok (
       bnd (k_prefix K ptp) (\<lambda>tree.
       if op tree \<noteq> A_IDENT then fatal ''& operator must be followed by an identifier''
       else
         deref_opt (nsym tree) (\<lambda>e.
         if s_stype e = S_ARRAY then fatal ''& operator cannot be performed on an array''
         else
           bnd (pointer_to (ntype tree)) (\<lambda>pt.
           ret (set_type pt (set_op A_ADDR tree))))))
     else if t = T_STAR then
       thn scan_tok (
       bnd (k_prefix K ptp) (\<lambda>tree.
       let tree = set_rvalue tree in
       if \<not> ptrtype (ntype tree)
       then fatal ''* operator must be followed by an expression of pointer type''
       else
         bnd (value_at (ntype tree)) (\<lambda>t.
         ret (mkastunary A_DEREF t (nctype tree) tree None 0))))
     else if t = T_MINUS then
       thn scan_tok (
       bnd (k_prefix K ptp) (\<lambda>tree.
       let tree = set_rvalue tree;
           tree = (if ntype tree = P_CHAR then set_type P_INT tree else tree)
       in ret (mkastunary A_NEGATE (ntype tree) (nctype tree) tree None 0)))
     else if t = T_INVERT then
       thn scan_tok (
       bnd (k_prefix K ptp) (\<lambda>tree.
       let tree = set_rvalue tree
       in ret (mkastunary A_INVERT (ntype tree) (nctype tree) tree None 0)))
     else if t = T_LOGNOT then
       thn scan_tok (
       bnd (k_prefix K ptp) (\<lambda>tree.
       let tree = set_rvalue tree
       in ret (mkastunary A_LOGNOT (ntype tree) (nctype tree) tree None 0)))
     else if t = T_INC then
       thn scan_tok (
       bnd (k_prefix K ptp) (\<lambda>tree.
       if op tree \<noteq> A_IDENT then fatal ''++ operator must be followed by an identifier''
       else ret (mkastunary A_PREINC (ntype tree) (nctype tree) tree None 0)))
     else if t = T_DEC then
       thn scan_tok (
       bnd (k_prefix K ptp) (\<lambda>tree.
       if op tree \<noteq> A_IDENT then fatal ''-- operator must be followed by an identifier''
       else ret (mkastunary A_PREDEC (ntype tree) (nctype tree) tree None 0)))
     else postfix K ptp)"

section \<open>Binary operators\<close>

text \<open>
  The 1:1 map from tokens to AST operations: the numbers are the same.
\<close>

definition binastop :: "toktype \<Rightarrow> astop gcomp" where
  "binastop tokentype =
     (let n = tok_num tokentype in
      if n > tok_num T_EOF \<and> n \<le> tok_num T_MOD then ret (ast_ops ! nat (n - 1))
      else fatals ''Syntax error, token'' (Tstring tokentype))"

definition rightassoc :: "toktype \<Rightarrow> bool" where
  "rightassoc tokentype \<longleftrightarrow>
     tok_num tokentype \<ge> tok_num T_ASSIGN \<and> tok_num tokentype \<le> tok_num T_ASSLASH"

definition OpPrec :: "int list" where
  "OpPrec =
    [0, 10, 10,
     10, 10,
     10, 10,
     15,
     20, 30,
     40, 50, 60,
     70, 70,
     80, 80, 80, 80,
     90, 90,
     100, 100,
     110, 110, 110]"

definition op_precedence :: "toktype \<Rightarrow> int gcomp" where
  "op_precedence tokentype =
     (if tok_num tokentype > tok_num T_MOD
      then fatals ''Token with no precedence in op_precedence:'' (Tstring tokentype)
      else
        let prec = OpPrec ! nat (tok_num tokentype) in
        if prec = 0 then fatals ''Syntax error, token'' (Tstring tokentype) else ret prec)"

definition ends_expr :: "toktype \<Rightarrow> bool" where
  "ends_expr t \<longleftrightarrow>
     t = T_SEMI \<or> t = T_RPAREN \<or> t = T_RBRACKET \<or> t = T_COMMA \<or> t = T_COLON \<or> t = T_RBRACE"

text \<open>
  What the loop of \<^verbatim>\<open>binexpr\<close> makes of two operands: the trees for the left and the right
  child. An assignment swaps them.
\<close>

definition bin_operands :: "astop \<Rightarrow> ast \<Rightarrow> ast \<Rightarrow> (ast \<times> ast) gcomp" where
  "bin_operands aop l r =
     (if aop = A_ASSIGN then
        bnd (modify_type (set_rvalue r) (ntype l) (nctype l) None) (\<lambda>r.
        if r = Null then fatal ''Incompatible expression in assignment'' else ret (r, l))
      else
        let l = set_rvalue l; r = set_rvalue r in
        bnd (modify_type l (ntype r) (nctype r) (Some aop)) (\<lambda>ltemp.
        bnd (modify_type r (ntype l) (nctype l) (Some aop)) (\<lambda>rtemp.
        if ltemp = Null \<and> rtemp = Null then fatal ''Incompatible types in binary expression''
        else ret (if ltemp \<noteq> Null then ltemp else l, if rtemp \<noteq> Null then rtemp else r))))"

definition int_result :: "astop \<Rightarrow> bool" where
  "int_result q \<longleftrightarrow> q \<in> {A_LOGOR, A_LOGAND, A_EQ, A_NE, A_LT, A_GT, A_LE, A_GE}"

definition join_operands :: "astop \<Rightarrow> ast \<Rightarrow> ast \<Rightarrow> ast" where
  "join_operands aop l r =
     (let n = mkastnode aop (ntype l) (nctype l) l Null r None 0
      in if int_result aop then set_type P_INT n else n)"

text \<open>The condition of the loop, for the token \<^verbatim>\<open>tokentype\<close>.\<close>

definition binds :: "int \<Rightarrow> toktype \<Rightarrow> bool gcomp" where
  "binds ptp tokentype =
     bnd (op_precedence tokentype) (\<lambda>prec.
     ret (prec > ptp \<or> rightassoc tokentype \<and> prec = ptp))"

definition binexpr_loop :: "calls \<Rightarrow> int \<Rightarrow> ast \<Rightarrow> ast gcomp" where
  "binexpr_loop K ptp l =
     rd cur (\<lambda>tokentype.
     bnd (binds ptp tokentype) (\<lambda>go.
     if \<not> go then ret (set_rvalue l)
     else
       thn scan_tok (
       bnd (k_binexpr K (OpPrec ! nat (tok_num tokentype))) (\<lambda>r.
       bnd (binastop tokentype) (\<lambda>aop.
       if aop = A_TERNARY then
         thn (match_tok T_COLON '':'') (
         bnd (k_binexpr K 0) (\<lambda>ltemp.
         ret (mkastnode A_TERNARY (ntype r) (nctype r) l r ltemp None 0)))
       else
         bnd (bin_operands aop l r) (\<lambda>(l, r).
         let l = join_operands aop l r in
         rd cur (\<lambda>t.
         if ends_expr t then ret (set_rvalue l) else k_binexpr_loop K ptp l)))))))"

definition binexpr :: "calls \<Rightarrow> int \<Rightarrow> ast gcomp" where
  "binexpr K ptp =
     bnd (prefix K ptp) (\<lambda>l.
     rd cur (\<lambda>t.
     if ends_expr t then ret (set_rvalue l) else binexpr_loop K ptp l))"

end
