(* ===== verification/Decl.thy ===== *)
theory Decl
  imports Expr
begin

text \<open>
  Parsing of declarations, \<^verbatim>\<open>decl.c\<close>. Functions that return a pointer to a symbol return a
  \<open>ptr option\<close> where the source can return the \<^verbatim>\<open>NULL\<close> it started from.
\<close>

section \<open>Enumerations and typedefs\<close>

definition str_arg :: "string option \<Rightarrow> string" where
  [model_defs]: "str_arg s = (case s of None \<Rightarrow> ''(null)'' | Some t \<Rightarrow> t)"

definition enum_loop :: "calls \<Rightarrow> int \<Rightarrow> unit gcomp" where
  "enum_loop K intval =
     thn ident (
     rd Text (\<lambda>name. rd (findenumval name) (\<lambda>etype.
     if etype \<noteq> None then fatals ''enum value redeclared:'' name
     else
       rd cur (\<lambda>t.
       bnd (if t = T_ASSIGN then
              thn scan_tok (
              rd cur (\<lambda>t.
              if t \<noteq> T_INTLIT
              then fatal (''Expected int literal after '' @ [CHR 0x27] @ ''='' @ [CHR 0x27])
              else rd (intvalue \<circ> Token) (\<lambda>v. thn scan_tok (ret v))))
            else ret intval) (\<lambda>intval.
       bnd (addenum (Some name) C_ENUMVAL intval) (\<lambda>e.
       rd cur (\<lambda>t.
       if t = T_RBRACE then thn scan_tok (ret ())
       else thn comma (k_enum_loop K (i32 (intval + 1))))))))))"

definition enum_declaration :: "calls \<Rightarrow> unit gcomp" where
  "enum_declaration K =
     thn scan_tok (
     rd cur (\<lambda>t.
     bnd (if t = T_IDENT then
            rd Text (\<lambda>txt. rd (findenumtype txt) (\<lambda>etype.
            thn scan_tok (ret (etype, Some txt))))
          else ret (None, None)) (\<lambda>(etype, name).
     rd cur (\<lambda>t.
     if t \<noteq> T_LBRACE then
       (if etype = None then fatals ''undeclared enum type:'' (str_arg name) else ret ())
     else
       thn scan_tok (
       case etype of
         Some e \<Rightarrow> deref e (\<lambda>e. fatals ''enum type redeclared:'' (sname e))
       | None \<Rightarrow> bnd (addenum name C_ENUMTYPE 0) (\<lambda>e. enum_loop K 0))))))"

definition typedef_declaration :: "calls \<Rightarrow> ptr option \<Rightarrow> (int \<times> ptr option) gcomp" where
  "typedef_declaration K ctype =
     thn scan_tok (
     bnd (k_parse_type K ctype C_NONE) (\<lambda>(type, ctype, class).
     if class \<noteq> C_NONE
     then fatal (''Can'' @ [CHR 0x27] @ ''t have static/extern in a typedef declaration'')
     else
       rd Text (\<lambda>txt. rd (findtypedef txt) (\<lambda>td.
       if td \<noteq> None then fatals ''redefinition of typedef'' txt
       else
         bnd (parse_stars K type) (\<lambda>type.
         rd Text (\<lambda>txt.
         bnd (addtypedef txt type ctype) (\<lambda>p.
         thn scan_tok (ret (type, ctype)))))))))"

definition type_of_typedef :: "string \<Rightarrow> (int \<times> ptr option) gcomp" where
  "type_of_typedef name =
     rd (findtypedef name) (\<lambda>t.
     case t of
       None \<Rightarrow> fatals ''unknown type'' name
     | Some t \<Rightarrow> deref t (\<lambda>t. thn scan_tok (ret (s_type t, s_ctype t))))"

section \<open>Structs and unions\<close>

text \<open>
  The positions of the members after the first, from the offset of the next free byte on;
  the result is the size of the composite type.
\<close>

primrec layout_members :: "int \<Rightarrow> ptr list \<Rightarrow> int \<Rightarrow> int gcomp" where
  "layout_members type [] offset = ret offset"
| "layout_members type (m # ms) offset =
     deref m (\<lambda>e.
     wr (set_posn m (if type = P_STRUCT then genalign (s_type e) offset 1 else 0)) (
     bnd (typesize (s_type e) (s_ctype e)) (\<lambda>sz.
     layout_members type ms (i32 (offset + sz)))))"

text \<open>The loop over the members; the pointer is the dummy \<^verbatim>\<open>m\<close> of the source.\<close>

definition member_loop :: "calls \<Rightarrow> ptr option \<Rightarrow> unit gcomp" where
  "member_loop K m =
     bnd (k_declaration_list K m C_MEMBER T_SEMI T_RBRACE) (\<lambda>(t, m, unused).
     if t = -1 then fatal ''Bad type in member list''
     else
       rd cur (\<lambda>t.
       thn (if t = T_SEMI then thn scan_tok (ret ()) else ret ()) (
       rd cur (\<lambda>t.
       if t = T_RBRACE then ret () else k_member_loop K m))))"

definition composite_declaration :: "calls \<Rightarrow> int \<Rightarrow> (ptr option) gcomp" where
  "composite_declaration K type =
     thn scan_tok (
     rd cur (\<lambda>t.
     bnd (if t = T_IDENT then
            rd Text (\<lambda>txt.
            rd (if type = P_STRUCT then findstruct txt else findunion txt) (\<lambda>ctype.
            thn scan_tok (ret ctype)))
          else ret None) (\<lambda>ctype.
     rd cur (\<lambda>t. rd Text (\<lambda>txt.
     if t \<noteq> T_LBRACE then
       (if ctype = None then fatals ''unknown struct/union type'' txt else ret ctype)
     else if ctype \<noteq> None then fatals ''previously defined struct/union'' txt
     else
       bnd (if type = P_STRUCT then addstruct txt else addunion txt) (\<lambda>c.
       thn scan_tok (
       thn (member_loop K None) (
       thn rbrace (
       deref c (\<lambda>ce. rd Memb (\<lambda>membs.
       case membs of
         [] \<Rightarrow> fatals ''No members in struct'' (sname ce)
       | m # ms \<Rightarrow>
           wr (upd_sym c (\<lambda>e. e\<lparr>s_member := membs\<rparr>)) (
           wr (\<lambda>s. s\<lparr>Memb := []\<rparr>) (
           wr (set_posn m 0) (
           deref m (\<lambda>e.
           bnd (typesize (s_type e) (s_ctype e)) (\<lambda>offset.
           bnd (layout_members type ms offset) (\<lambda>offset.
           wr (upd_sym c (\<lambda>e. e\<lparr>s_size := offset\<rparr>))
           (ret (Some c)))))))))))))))))))"

section \<open>Types\<close>

text \<open>One round of the loop that reads \<^verbatim>\<open>extern\<close> and \<^verbatim>\<open>static\<close>.\<close>

definition exstatic_loop :: "calls \<Rightarrow> sclass \<Rightarrow> sclass gcomp" where
  "exstatic_loop K class =
     rd cur (\<lambda>t.
     if t = T_EXTERN then
       (if class = C_STATIC then fatal ''Illegal to have extern and static at the same time''
        else thn scan_tok (k_exstatic_loop K C_EXTERN))
     else if t = T_STATIC then
       (if class = C_LOCAL then
          fatal (''Compiler doesn'' @ [CHR 0x27] @ ''t support static local declarations'')
        else if class = C_EXTERN then fatal ''Illegal to have extern and static at the same time''
        else thn scan_tok (k_exstatic_loop K C_STATIC))
     else ret class)"

text \<open>A \<^verbatim>\<open>;\<close> after a composite type, an enumeration or a typedef: there is no type.\<close>

definition or_no_type :: "int \<Rightarrow> int gcomp" where
  "or_no_type type = rd cur (\<lambda>t. ret (if t = T_SEMI then -1 else type))"

definition parse_type ::
  "calls \<Rightarrow> ptr option \<Rightarrow> sclass \<Rightarrow> (int \<times> ptr option \<times> sclass) gcomp"
where
  "parse_type K ctype class =
     bnd (exstatic_loop K class) (\<lambda>class.
     rd Token (\<lambda>tok.
     let t = token tok in
     if t = T_VOID then thn scan_tok (ret (P_VOID, ctype, class))
     else if t = T_CHAR then thn scan_tok (ret (P_CHAR, ctype, class))
     else if t = T_INT then thn scan_tok (ret (P_INT, ctype, class))
     else if t = T_LONG then thn scan_tok (ret (P_LONG, ctype, class))
     else if t = T_STRUCT then
       bnd (composite_declaration K P_STRUCT) (\<lambda>ctype.
       bnd (or_no_type P_STRUCT) (\<lambda>type. ret (type, ctype, class)))
     else if t = T_UNION then
       bnd (composite_declaration K P_UNION) (\<lambda>ctype.
       bnd (or_no_type P_UNION) (\<lambda>type. ret (type, ctype, class)))
     else if t = T_ENUM then
       thn (enum_declaration K) (
       bnd (or_no_type P_INT) (\<lambda>type. ret (type, ctype, class)))
     else if t = T_TYPEDEF then
       bnd (typedef_declaration K ctype) (\<lambda>(type, ctype).
       bnd (or_no_type type) (\<lambda>type. ret (type, ctype, class)))
     else if t = T_IDENT then
       rd Text (\<lambda>txt. bnd (type_of_typedef txt) (\<lambda>(type, ctype). ret (type, ctype, class)))
     else fatals ''Illegal type, token'' (tokstr tok)))"

section \<open>Literals\<close>

definition parse_literal :: "calls \<Rightarrow> int \<Rightarrow> int gcomp" where
  "parse_literal K type =
     bnd (k_binexpr K 0) (\<lambda>tree.
     bnd (optimise tree) (\<lambda>tree.
     let tree = (if is_op A_CAST tree then set_type (ntype tree) (left tree) else tree) in
     if \<not> is_op A_INTLIT tree \<and> \<not> is_op A_STRLIT tree
     then fatal ''Cannot initialise globals with a general expression''
     else
       bnd (pointer_to P_CHAR) (\<lambda>pc.
       if type = pc \<and> op tree = A_STRLIT then ret (a_intvalue tree)
       else if type = pc \<and> op tree = A_INTLIT \<and> a_intvalue tree = 0 then ret 0
       else if inttype type then
         bnd (typesize type None) (\<lambda>sz.
         bnd (typesize (ntype tree) None) (\<lambda>lsz.
         if sz \<ge> lsz then ret (a_intvalue tree)
         else fatal ''Type mismatch: literal vs. variable''))
       else fatal ''Type mismatch: literal vs. variable'')))"

section \<open>Variables\<close>

definition is_new_symbol ::
  "ptr option \<Rightarrow> sclass \<Rightarrow> int \<Rightarrow> ptr option \<Rightarrow> bool gcomp"
where
  "is_new_symbol p class type ctype =
     (case p of
        None \<Rightarrow> ret True
      | Some q \<Rightarrow>
          deref q (\<lambda>e.
          if s_class e = C_GLOBAL \<and> class = C_EXTERN \<or> s_class e = C_EXTERN \<and> class = C_GLOBAL
          then
            if type \<noteq> s_type e then fatals ''Type mismatch between global/extern'' (sname e)
            else if type \<ge> P_STRUCT \<and> ctype \<noteq> s_ctype e
            then fatals ''Type mismatch between global/extern'' (sname e)
            else wr (upd_sym q (\<lambda>e. e\<lparr>s_class := C_GLOBAL\<rparr>)) (ret False)
          else fatals ''Duplicate global variable declaration'' (sname e)))"

definition scalar_symbol :: "string \<Rightarrow> int \<Rightarrow> ptr option \<Rightarrow> sclass \<Rightarrow> (ptr option) gcomp" where
  "scalar_symbol varname type ctype class =
     (if class = C_STATIC \<or> class = C_EXTERN \<or> class = C_GLOBAL then
        rd (findglob varname) (\<lambda>p.
        bnd (is_new_symbol p class type ctype) (\<lambda>new.
        if new then bnd (addglob varname type ctype S_VARIABLE class 1 0) (\<lambda>q. ret (Some q))
        else ret p))
      else if class = C_LOCAL then
        bnd (addlocl varname type ctype S_VARIABLE 1) (\<lambda>q. ret (Some q))
      else if class = C_PARAM then
        bnd (addparm varname type ctype S_VARIABLE) (\<lambda>q. ret (Some q))
      else if class = C_MEMBER then
        bnd (addmemb varname type ctype S_VARIABLE 1) (\<lambda>q. ret (Some q))
      else ret None)"

text \<open>The initialisation of a local: an assignment tree.\<close>

definition local_init :: "calls \<Rightarrow> ptr \<Rightarrow> ast gcomp" where
  "local_init K q =
     deref q (\<lambda>e.
     let varnode = mkastleaf A_IDENT (s_type e) (s_ctype e) (Some q) 0 in
     bnd (k_binexpr K 0) (\<lambda>exprnode.
     bnd (modify_type (set_rvalue exprnode) (ntype varnode) (nctype varnode) None) (\<lambda>exprnode.
     if exprnode = Null then fatal ''Incompatible expression in assignment''
     else
       ret (mkastnode A_ASSIGN (ntype exprnode) (nctype exprnode) exprnode Null varnode None 0))))"

definition need_sym :: "ptr option \<Rightarrow> (ptr \<Rightarrow> 'a gcomp) \<Rightarrow> 'a gcomp" where
  [model_defs]: "need_sym p k = (case p of None \<Rightarrow> err (Crash ''null symbol pointer'') | Some q \<Rightarrow> k q)"

definition scalar_declaration ::
  "calls \<Rightarrow> string \<Rightarrow> int \<Rightarrow> ptr option \<Rightarrow> sclass \<Rightarrow> (ptr option \<times> ast) gcomp"
where
  "scalar_declaration K varname type ctype class =
     bnd (scalar_symbol varname type ctype class) (\<lambda>p.
     rd cur (\<lambda>t.
     bnd (if t = T_ASSIGN then
            if class \<noteq> C_GLOBAL \<and> class \<noteq> C_LOCAL \<and> class \<noteq> C_STATIC
            then fatals ''Variable can not be initialised'' varname
            else
              thn scan_tok (
              need_sym p (\<lambda>q.
              if class = C_LOCAL then local_init K q
              else
                bnd (parse_literal K type) (\<lambda>v.
                wr (upd_sym q (\<lambda>e. e\<lparr>s_initlist := Some [v]\<rparr>)) (ret Null))))
          else ret Null) (\<lambda>tree.
     thn (if class = C_GLOBAL \<or> class = C_STATIC then need_sym p genglobsym else ret ())
     (ret (p, tree)))))"

section \<open>Arrays\<close>

definition TABLE_INCREMENT :: int where [model_defs]: "TABLE_INCREMENT = 10"

text \<open>
  The loop over the values of an initialiser: the number of elements declared (or -1), the
  capacity of the list, and the values so far. The result is the values and the capacity.
\<close>

definition initlist_loop ::
  "calls \<Rightarrow> int \<Rightarrow> int \<Rightarrow> int \<Rightarrow> int list \<Rightarrow> (int list \<times> int) gcomp"
where
  "initlist_loop K type nelems maxelems vals =
     (if nelems \<noteq> -1 \<and> int (length vals) = maxelems
      then fatal ''Too many values in initialisation list''
      else
        bnd (parse_literal K type) (\<lambda>v.
        let vals = vals @ [v];
            maxelems = (if nelems = -1 \<and> int (length vals) = maxelems
                        then maxelems + TABLE_INCREMENT else maxelems)
        in
        rd cur (\<lambda>t.
        if t = T_RBRACE then thn scan_tok (ret (vals, maxelems))
        else thn comma (k_initlist_loop K type nelems maxelems vals))))"

text \<open>
  The cells of the list that were not given a value are those that \<^verbatim>\<open>malloc\<close> left; they
  start as 0. The loop that zeroes them runs up to \<^verbatim>\<open>sym->nelems\<close>, which is the size in an
  earlier \<^verbatim>\<open>extern\<close> declaration or 0, and may write behind the list.
\<close>

definition array_initlist :: "calls \<Rightarrow> int \<Rightarrow> int \<Rightarrow> ptr \<Rightarrow> int gcomp" where
  "array_initlist K type nelems q =
     thn scan_tok (
     thn (match_tok T_LBRACE ''{'') (
     bnd (initlist_loop K type nelems (if nelems \<noteq> -1 then nelems else TABLE_INCREMENT) [])
       (\<lambda>(vals, maxelems).
     let i = int (length vals) in
     deref q (\<lambda>e.
     if i < s_nelems e \<and> maxelems < s_nelems e then err (Crash ''write behind the initlist'')
     else
       wr (upd_sym q (\<lambda>e. e\<lparr>s_initlist :=
             Some (vals @ replicate (nat (maxelems - i)) 0)\<rparr>))
       (ret (if i > nelems then i else nelems))))))"

definition array_symbol :: "string \<Rightarrow> int \<Rightarrow> ptr option \<Rightarrow> sclass \<Rightarrow> (ptr option) gcomp" where
  "array_symbol varname type ctype class =
     (if class = C_STATIC \<or> class = C_EXTERN \<or> class = C_GLOBAL then
        rd (findglob varname) (\<lambda>p.
        bnd (pointer_to type) (\<lambda>pt.
        bnd (is_new_symbol p class pt ctype) (\<lambda>new.
        if new then bnd (addglob varname pt ctype S_ARRAY class 0 0) (\<lambda>q. ret (Some q))
        else ret p)))
      else if class = C_LOCAL then
        bnd (pointer_to type) (\<lambda>pt.
        bnd (addlocl varname pt ctype S_ARRAY 0) (\<lambda>q. ret (Some q)))
      else fatal ''Declaration of array parameters is not implemented'')"

definition array_declaration ::
  "calls \<Rightarrow> string \<Rightarrow> int \<Rightarrow> ptr option \<Rightarrow> sclass \<Rightarrow> (ptr option) gcomp"
where
  "array_declaration K varname type ctype class =
     thn scan_tok (
     rd cur (\<lambda>t.
     bnd (if t \<noteq> T_RBRACKET then
            bnd (parse_literal K P_INT) (\<lambda>nelems.
            if nelems \<le> 0 then fatald ''Array size is illegal'' nelems else ret nelems)
          else ret (-1)) (\<lambda>nelems.
     thn (match_tok T_RBRACKET '']'') (
     bnd (array_symbol varname type ctype class) (\<lambda>p.
     need_sym p (\<lambda>q.
     rd cur (\<lambda>t.
     bnd (if t = T_ASSIGN then
            if class \<noteq> C_GLOBAL \<and> class \<noteq> C_STATIC
            then fatals ''Variable can not be initialised'' varname
            else array_initlist K type nelems q
          else ret nelems) (\<lambda>nelems.
     deref q (\<lambda>e.
     if class \<noteq> C_EXTERN \<and> nelems \<le> 0
     then fatals ''Array must have non-zero elements'' (sname e)
     else
       bnd (typesize type ctype) (\<lambda>sz.
       wr (upd_sym q (\<lambda>e. e\<lparr>s_nelems := nelems, s_size := i32 (nelems * sz)\<rparr>)) (
       thn (if class = C_GLOBAL \<or> class = C_STATIC then genglobsym q else ret ())
       (ret p)))))))))))) "

section \<open>Functions\<close>

text \<open>
  The loop over the parameters: the earlier declaration, what is left of its parameters, the
  \<^verbatim>\<open>ctype\<close> variable and the count. The tokens \<^verbatim>\<open>void )\<close> stand for no parameters.
\<close>

definition param_one ::
  "calls \<Rightarrow> ptr option \<Rightarrow> ptr list \<Rightarrow> ptr option \<Rightarrow> int \<Rightarrow> int gcomp"
where
  "param_one K oldfuncsym protoptr ctype paramcnt =
     bnd (k_declaration_list K ctype C_PARAM T_COMMA T_RPAREN) (\<lambda>(type, ctype, unused).
     if type = -1 then fatal ''Bad type in parameter list''
     else
       bnd (case protoptr of
              [] \<Rightarrow> ret []
            | p # ps \<Rightarrow>
                deref p (\<lambda>e.
                if type \<noteq> s_type e
                then fatald (''Type doesn'' @ [CHR 0x27] @ ''t match prototype for parameter'')
                       (paramcnt + 1)
                else ret ps)) (\<lambda>protoptr.
       rd cur (\<lambda>t.
       if t = T_RPAREN then ret (paramcnt + 1)
       else thn comma (k_param_loop K oldfuncsym protoptr ctype (paramcnt + 1)))))"

definition param_loop ::
  "calls \<Rightarrow> ptr option \<Rightarrow> ptr list \<Rightarrow> ptr option \<Rightarrow> int \<Rightarrow> int gcomp"
where
  "param_loop K oldfuncsym protoptr ctype paramcnt =
     rd cur (\<lambda>t.
     if t = T_RPAREN then ret paramcnt
     else if t = T_VOID then
       thn (scan Ref_Peek) (
       rd (token \<circ> Peektoken) (\<lambda>pk.
       if pk = T_RPAREN then thn scan_tok (ret 0)
       else param_one K oldfuncsym protoptr ctype paramcnt))
     else param_one K oldfuncsym protoptr ctype paramcnt)"

definition param_declaration_list :: "calls \<Rightarrow> ptr option \<Rightarrow> int gcomp" where
  "param_declaration_list K oldfuncsym =
     rd Heap (\<lambda>h.
     bnd (param_loop K oldfuncsym
            (case oldfuncsym of None \<Rightarrow> [] | Some f \<Rightarrow> s_member (h ! f)) None 0) (\<lambda>paramcnt.
     case oldfuncsym of
       None \<Rightarrow> ret paramcnt
     | Some f \<Rightarrow>
         deref f (\<lambda>e.
         if paramcnt \<noteq> s_nelems e
         then fatals ''Parameter count mismatch for function'' (sname e)
         else ret paramcnt)))"

text \<open>
  The last statement must be a \<^verbatim>\<open>return\<close> unless the type is \<^verbatim>\<open>void\<close>.
\<close>

definition check_return :: "int \<Rightarrow> ast \<Rightarrow> unit gcomp" where
  "check_return type tree =
     (if type \<noteq> P_VOID then
        if tree = Null then fatal ''No statements in function with non-void type''
        else
          let finalstmt = (if op tree = A_GLUE then right tree else tree) in
          if finalstmt = Null \<or> op finalstmt \<noteq> A_RETURN
          then fatal ''No return for function with non-void type'' else ret ()
      else ret ())"

text \<open>
  The body of a function, once its header is read: parse, optimise, generate. The label of the
  \<open>A_FUNCTION\<close> node, uninitialised when there was a prototype and not used, is the symbol's.
\<close>

definition function_body :: "calls \<Rightarrow> ptr \<Rightarrow> int \<Rightarrow> ptr option \<Rightarrow> int \<Rightarrow> unit gcomp" where
  "function_body K f type ctype lno =
     wr (\<lambda>s. s\<lparr>Functionid := Some f, Looplevel := 0, Switchlevel := 0\<rparr>) (
     thn lbrace (
     bnd (k_compound_loop K False Null) (\<lambda>tree.
     thn rbrace (
     thn (check_return type tree) (
     deref f (\<lambda>e.
     bnd (optimise (set_line lno (mkastunary A_FUNCTION type ctype tree (Some f) (s_posn e))))
       (\<lambda>tree.
     thn (genAST tree NOLABEL NOLABEL NOLABEL None)
     (modify freeloclsyms))))))))"

definition function_declaration ::
  "calls \<Rightarrow> string \<Rightarrow> int \<Rightarrow> ptr option \<Rightarrow> sclass \<Rightarrow> (ptr option) gcomp"
where
  "function_declaration K funcname type ctype class =
     rd Line (\<lambda>lno. rd Heap (\<lambda>h. rd (findsymbol funcname) (\<lambda>found.
     let oldfuncsym =
           (case found of None \<Rightarrow> None
            | Some f \<Rightarrow> if s_stype (h ! f) \<noteq> S_FUNCTION then None else Some f)
     in
     bnd (case oldfuncsym of
            Some f \<Rightarrow> ret f
          | None \<Rightarrow>
              bnd genlabel (\<lambda>endlabel.
              addglob funcname type None S_FUNCTION class 0 endlabel)) (\<lambda>f.
     thn lparen (
     bnd (param_declaration_list K oldfuncsym) (\<lambda>paramcnt.
     thn rparen (
     wr (if oldfuncsym = None
         then (\<lambda>s. upd_sym f (\<lambda>e. e\<lparr>s_nelems := paramcnt, s_member := Parm s\<rparr>) s)
         else (\<lambda>s. s)) (
     wr (\<lambda>s. s\<lparr>Parm := []\<rparr>) (
     rd cur (\<lambda>t.
     if t = T_SEMI then ret (Some f)
     else thn (function_body K f type ctype lno) (ret (Some f)))))))))))) "

section \<open>Declaration lists\<close>

definition symbol_declaration ::
  "calls \<Rightarrow> int \<Rightarrow> ptr option \<Rightarrow> sclass \<Rightarrow> (ptr option \<times> ast) gcomp"
where
  "symbol_declaration K type ctype class =
     rd Text (\<lambda>varname.
     thn ident (
     rd cur (\<lambda>t.
     if t = T_LPAREN then
       bnd (function_declaration K varname type ctype class) (\<lambda>p. ret (p, Null))
     else
       rd (findlocl varname) (\<lambda>dl. rd (findmember varname) (\<lambda>dm.
       if class \<in> {C_EXTERN, C_STATIC, C_GLOBAL, C_LOCAL, C_PARAM} \<and> dl \<noteq> None
       then fatals ''Duplicate local variable declaration'' varname
       else if class \<in> {C_EXTERN, C_STATIC, C_GLOBAL, C_LOCAL, C_PARAM, C_MEMBER} \<and> dm \<noteq> None
       then fatals ''Duplicate struct/union member declaration'' varname
       else if t = T_LBRACKET then
         bnd (array_declaration K varname type ctype class) (\<lambda>p. ret (p, Null))
       else scalar_declaration K varname type ctype class)))))"

text \<open>
  The loop over the symbols of a list. After a function the list ends, and the tree is what
  was glued so far.
\<close>

definition symbol_loop ::
  "calls \<Rightarrow> int \<Rightarrow> ptr option \<Rightarrow> sclass \<Rightarrow> toktype \<Rightarrow> toktype \<Rightarrow> ast \<Rightarrow> (int \<times> ast) gcomp"
where
  "symbol_loop K inittype ctype class et1 et2 gluetree =
     bnd (parse_stars K inittype) (\<lambda>type.
     bnd (symbol_declaration K type ctype class) (\<lambda>(p, tree).
     deref_opt p (\<lambda>e.
     if s_stype e = S_FUNCTION then
       (if class \<noteq> C_GLOBAL \<and> class \<noteq> C_STATIC
        then fatal ''Function definition not at global level'' else ret (type, gluetree))
     else
       let gluetree = (if gluetree = Null then tree
                       else mkastnode A_GLUE P_NONE None gluetree Null tree None 0)
       in
       rd cur (\<lambda>t.
       if t = et1 \<or> t = et2 then ret (type, gluetree)
       else thn comma (k_symbol_loop K inittype ctype class et1 et2 gluetree)))))"

definition declaration_list ::
  "calls \<Rightarrow> ptr option \<Rightarrow> sclass \<Rightarrow> toktype \<Rightarrow> toktype \<Rightarrow> (int \<times> ptr option \<times> ast) gcomp"
where
  "declaration_list K ctype class et1 et2 =
     bnd (k_parse_type K ctype class) (\<lambda>(inittype, ctype, class).
     if inittype = -1 then ret (-1, ctype, Null)
     else
       bnd (symbol_loop K inittype ctype class et1 et2 Null) (\<lambda>(type, gluetree).
       ret (type, ctype, gluetree)))"

definition global_loop :: "calls \<Rightarrow> ptr option \<Rightarrow> unit gcomp" where
  "global_loop K ctype =
     rd cur (\<lambda>t.
     if t = T_EOF then ret ()
     else
       bnd (k_declaration_list K ctype C_GLOBAL T_SEMI T_EOF) (\<lambda>(type, ctype, unused).
       rd cur (\<lambda>t.
       thn (if t = T_SEMI then thn scan_tok (ret ()) else ret ())
       (k_global_loop K ctype))))"

end
