(* ===== verification/Stmt.thy ===== *)
theory Stmt
  imports Decl
begin

text \<open>
  Parsing of statements, \<^verbatim>\<open>stmt.c\<close>. \<open>Looplevel\<close> and \<open>Switchlevel\<close> count the loops and
  switches around the statement being parsed.
\<close>

section \<open>Conditions and loops\<close>

text \<open>A condition that is not a comparison is forced to be boolean.\<close>

definition to_bool :: "ast \<Rightarrow> ast" where
  "to_bool condAST =
     (if ast_num (op condAST) < ast_num A_EQ \<or> ast_num (op condAST) > ast_num A_GE
      then mkastunary A_TOBOOL (ntype condAST) (nctype condAST) condAST None 0 else condAST)"

definition if_statement :: "calls \<Rightarrow> ast gcomp" where
  "if_statement K =
     thn (match_tok T_IF ''if'') (
     thn lparen (
     bnd (k_binexpr K 0) (\<lambda>condAST.
     thn rparen (
     bnd (k_single_statement K) (\<lambda>trueAST.
     rd cur (\<lambda>t.
     bnd (if t = T_ELSE then thn scan_tok (k_single_statement K) else ret Null) (\<lambda>falseAST.
     ret (mkastnode A_IF P_NONE None (to_bool condAST) trueAST falseAST None 0))))))))"

definition in_loop :: "ast gcomp \<Rightarrow> ast gcomp" where
  "in_loop body =
     wr (\<lambda>s. s\<lparr>Looplevel := Looplevel s + 1\<rparr>) (
     bnd body (\<lambda>bodyAST.
     wr (\<lambda>s. s\<lparr>Looplevel := Looplevel s - 1\<rparr>) (ret bodyAST)))"

definition while_statement :: "calls \<Rightarrow> ast gcomp" where
  "while_statement K =
     thn (match_tok T_WHILE ''while'') (
     thn lparen (
     bnd (k_binexpr K 0) (\<lambda>condAST.
     thn rparen (
     bnd (in_loop (k_single_statement K)) (\<lambda>bodyAST.
     ret (mkastnode A_WHILE P_NONE None (to_bool condAST) Null bodyAST None 0))))))"

definition for_statement :: "calls \<Rightarrow> ast gcomp" where
  "for_statement K =
     thn (match_tok T_FOR ''for'') (
     thn lparen (
     bnd (expression_list K T_SEMI) (\<lambda>preopAST.
     thn semi (
     bnd (k_binexpr K 0) (\<lambda>condAST.
     thn semi (
     bnd (expression_list K T_RPAREN) (\<lambda>postopAST.
     thn rparen (
     bnd (in_loop (k_single_statement K)) (\<lambda>bodyAST.
     let tree = mkastnode A_GLUE P_NONE None bodyAST Null postopAST None 0;
         tree = mkastnode A_WHILE P_NONE None (to_bool condAST) Null tree None 0
     in ret (mkastnode A_GLUE P_NONE None preopAST Null tree None 0))))))))))"

section \<open>Jumps\<close>

definition return_statement :: "calls \<Rightarrow> ast gcomp" where
  "return_statement K =
     thn (match_tok T_RETURN ''return'') (
     rd cur (\<lambda>t.
     bnd (if t = T_LPAREN then
            rd Functionid (\<lambda>f.
            deref_opt f (\<lambda>e.
            if s_type e = P_VOID
            then fatal (''Can'' @ [CHR 0x27] @ ''t return from a void function'')
            else
              thn lparen (
              bnd (k_binexpr K 0) (\<lambda>tree.
              bnd (modify_type tree (s_type e) (s_ctype e) None) (\<lambda>tree.
              if tree = Null then fatal ''Incompatible type to return''
              else thn rparen (ret tree))))))
          else ret Null) (\<lambda>tree.
     thn semi
     (ret (mkastunary A_RETURN P_NONE None tree None 0)))))"

definition break_statement :: "ast gcomp" where
  "break_statement =
     rd Looplevel (\<lambda>ll. rd Switchlevel (\<lambda>sl.
     if ll = 0 \<and> sl = 0 then fatal ''no loop or switch to break out from''
     else thn scan_tok (thn semi (ret (mkastleaf A_BREAK P_NONE None None 0)))))"

definition continue_statement :: "ast gcomp" where
  "continue_statement =
     rd Looplevel (\<lambda>ll.
     if ll = 0 then fatal ''no loop to continue to''
     else thn scan_tok (thn semi (ret (mkastleaf A_CONTINUE P_NONE None None 0))))"

section \<open>Switch\<close>

text \<open>The cases hang on a chain of right children; a new one is linked in at the tail.\<close>

primrec has_case :: "int \<Rightarrow> ast \<Rightarrow> bool" where
  "has_case v Null \<longleftrightarrow> False"
| "has_case v (Node q t c rv l m r sy i lno) \<longleftrightarrow> v = i \<or> has_case v r"

primrec add_case :: "ast \<Rightarrow> ast \<Rightarrow> ast" where
  "add_case Null new = new"
| "add_case (Node q t c rv l m r sy i lno) new = Node q t c rv l m (add_case r new) sy i lno"

text \<open>
  One case: its label, the \<^verbatim>\<open>:\<close> and its body. \<open>casevalue\<close> keeps the value of the last case,
  which the node of \<^verbatim>\<open>default\<close> is given too (and does not use).
\<close>

definition case_label :: "calls \<Rightarrow> ast \<Rightarrow> int \<Rightarrow> (astop \<times> int) gcomp" where
  "case_label K casetree casevalue =
     rd cur (\<lambda>t.
     if t = T_DEFAULT then thn scan_tok (ret (A_DEFAULT, casevalue))
     else
       thn scan_tok (
       bnd (k_binexpr K 0) (\<lambda>l.
       if op l \<noteq> A_INTLIT then fatal ''Expecting integer literal for case value''
       else if has_case (a_intvalue l) casetree then fatal ''Duplicate case value''
       else ret (A_CASE, a_intvalue l))))"

definition switch_loop :: "calls \<Rightarrow> ast \<Rightarrow> int \<Rightarrow> bool \<Rightarrow> int \<Rightarrow> (ast \<times> int) gcomp" where
  "switch_loop K casetree casecount seendefault casevalue =
     rd Token (\<lambda>tok.
     let t = token tok in
     if t = T_RBRACE then
       (if casecount = 0 then fatal ''No cases in switch'' else ret (casetree, casecount))
     else if t = T_CASE \<or> t = T_DEFAULT then
       if seendefault then fatal ''case or default after existing default''
       else
         bnd (case_label K casetree casevalue) (\<lambda>(aop, casevalue).
         thn (match_tok T_COLON '':'') (
         rd cur (\<lambda>t'.
         bnd (if t' = T_CASE then ret Null else k_compound_loop K True Null) (\<lambda>body.
         k_switch_loop K
           (add_case casetree (mkastunary aop P_NONE None body None casevalue))
           (casecount + 1) (aop = A_DEFAULT) casevalue))))
     else fatals ''Unexpected token in switch'' (tokstr tok))"

definition switch_statement :: "calls \<Rightarrow> ast gcomp" where
  "switch_statement K =
     thn scan_tok (
     thn lparen (
     bnd (k_binexpr K 0) (\<lambda>l.
     thn rparen (
     thn lbrace (
     if \<not> inttype (ntype l) then fatal ''Switch expression is not of integer type''
     else
       wr (\<lambda>s. s\<lparr>Switchlevel := Switchlevel s + 1\<rparr>) (
       bnd (switch_loop K Null 0 False 0) (\<lambda>(casetree, casecount).
       wr (\<lambda>s. s\<lparr>Switchlevel := Switchlevel s - 1\<rparr>) (
       thn rbrace
       (ret (mkastnode A_SWITCH P_NONE None l Null casetree None casecount))))))))))"

section \<open>Statements\<close>

text \<open>\<^verbatim>\<open>stmt->linenum= linenum\<close>, which a \<^verbatim>\<open>NULL\<close> statement does not survive.\<close>

definition with_line :: "int \<Rightarrow> ast \<Rightarrow> ast gcomp" where
  "with_line lno stmt =
     (if stmt = Null then err (Crash ''line number of a null statement'')
      else ret (set_line lno stmt))"

definition expression_statement :: "calls \<Rightarrow> int \<Rightarrow> ast gcomp" where
  "expression_statement K lno =
     bnd (k_binexpr K 0) (\<lambda>stmt.
     bnd (with_line lno stmt) (\<lambda>stmt.
     thn semi (ret stmt)))"

definition starts_declaration :: "toktype \<Rightarrow> bool" where
  "starts_declaration t \<longleftrightarrow>
     t \<in> {T_CHAR, T_INT, T_LONG, T_STRUCT, T_UNION, T_ENUM, T_TYPEDEF}"

definition single_statement :: "calls \<Rightarrow> ast gcomp" where
  "single_statement K =
     rd Line (\<lambda>lno. rd cur (\<lambda>t. rd Text (\<lambda>txt. rd (findtypedef txt) (\<lambda>td.
     if t = T_SEMI then thn semi (ret Null)
     else if t = T_LBRACE then
       thn lbrace (
       bnd (k_compound_loop K False Null) (\<lambda>stmt.
       bnd (with_line lno stmt) (\<lambda>stmt.
       thn rbrace (ret stmt))))
     else if t = T_IDENT \<and> td = None then expression_statement K lno
     else if t = T_IDENT \<or> starts_declaration t then
       bnd (k_declaration_list K None C_LOCAL T_SEMI T_EOF) (\<lambda>(type, ctype, stmt).
       thn semi (ret stmt))
     else if t = T_IF then bnd (if_statement K) (with_line lno)
     else if t = T_WHILE then bnd (while_statement K) (with_line lno)
     else if t = T_FOR then bnd (for_statement K) (with_line lno)
     else if t = T_RETURN then bnd (return_statement K) (with_line lno)
     else if t = T_BREAK then bnd break_statement (with_line lno)
     else if t = T_CONTINUE then bnd continue_statement (with_line lno)
     else if t = T_SWITCH then bnd (switch_statement K) (with_line lno)
     else expression_statement K lno))))"

text \<open>One round of the loop of \<^verbatim>\<open>compound_statement\<close>, with the statements glued so far.\<close>

definition compound_loop :: "calls \<Rightarrow> bool \<Rightarrow> ast \<Rightarrow> ast gcomp" where
  "compound_loop K inswitch l =
     rd cur (\<lambda>t.
     if t = T_RBRACE then ret l
     else if inswitch \<and> (t = T_CASE \<or> t = T_DEFAULT) then ret l
     else
       bnd (k_single_statement K) (\<lambda>tree.
       k_compound_loop K inswitch
         (if tree = Null then l
          else if l = Null then tree
          else mkastnode A_GLUE P_NONE None l Null tree None 0)))"

end
