(* ===== verification/Parser.thy ===== *)
theory Parser
  imports Stmt
begin

text \<open>
  The recursive knot of the parser. \<open>tie n\<close> allows calls \<open>n\<close> deep; with none left, every
  function gives \<open>OutOfFuel\<close>.
\<close>

definition no_calls :: calls where
  "no_calls = \<lparr>
     k_binexpr = \<lambda>ptp. err OutOfFuel,
     k_binexpr_loop = \<lambda>ptp l. err OutOfFuel,
     k_prefix = \<lambda>ptp. err OutOfFuel,
     k_postfix_loop = \<lambda>n. err OutOfFuel,
     k_expression_loop = \<lambda>endtoken tree cnt. err OutOfFuel,
     k_string_loop = err OutOfFuel,
     k_exstatic_loop = \<lambda>class. err OutOfFuel,
     k_stars_loop = \<lambda>type. err OutOfFuel,
     k_parse_type = \<lambda>ctype class. err OutOfFuel,
     k_initlist_loop = \<lambda>type nelems maxelems vals. err OutOfFuel,
     k_param_loop = \<lambda>oldfuncsym protoptr ctype paramcnt. err OutOfFuel,
     k_member_loop = \<lambda>m. err OutOfFuel,
     k_enum_loop = \<lambda>intval. err OutOfFuel,
     k_declaration_list = \<lambda>ctype class et1 et2. err OutOfFuel,
     k_symbol_loop = \<lambda>inittype ctype class et1 et2 gluetree. err OutOfFuel,
     k_single_statement = err OutOfFuel,
     k_compound_loop = \<lambda>inswitch l. err OutOfFuel,
     k_switch_loop = \<lambda>casetree casecount seendefault casevalue. err OutOfFuel,
     k_global_loop = \<lambda>ctype. err OutOfFuel \<rparr>"

definition all_calls :: "calls \<Rightarrow> calls" where
  "all_calls K = \<lparr>
     k_binexpr = binexpr K,
     k_binexpr_loop = binexpr_loop K,
     k_prefix = prefix K,
     k_postfix_loop = postfix_loop K,
     k_expression_loop = expression_loop K,
     k_string_loop = string_loop K,
     k_exstatic_loop = exstatic_loop K,
     k_stars_loop = parse_stars K,
     k_parse_type = parse_type K,
     k_initlist_loop = initlist_loop K,
     k_param_loop = param_loop K,
     k_member_loop = member_loop K,
     k_enum_loop = enum_loop K,
     k_declaration_list = declaration_list K,
     k_symbol_loop = symbol_loop K,
     k_single_statement = single_statement K,
     k_compound_loop = compound_loop K,
     k_switch_loop = switch_loop K,
     k_global_loop = global_loop K \<rparr>"

primrec tie :: "nat \<Rightarrow> calls" where
  "tie 0 = no_calls"
| "tie (Suc n) = all_calls (tie n)"

definition global_declarations :: "nat \<Rightarrow> unit gcomp" where
  "global_declarations n = global_loop (tie n) None"

end
