(* ===== verification/Init.thy ===== *)
theory Init
  imports Cg
begin

text \<open>
  The global variables before the program starts: \<^verbatim>\<open>labelid\<close> is 1, \<^verbatim>\<open>currSeg\<close> is
  \<^verbatim>\<open>no_seg\<close>, the rest is zero. \<open>ready_state\<close> is the state after \<^verbatim>\<open>cgpreamble\<close> has freed the
  registers; the evaluated examples start from it.
\<close>

definition no_token :: token where
  [model_defs]: "no_token = \<lparr>token = T_EOF, tokstr = [], intvalue = 0\<rparr>"

definition init_state :: compiler where
  [model_defs]: "init_state = \<lparr>
     Infile = [], Line = 0, Linestart = False, Putback = 0, Infilename = [],
     Token = no_token, Peektoken = no_token, Text = [],
     Heap = [], Glob = [], Locl = [], Parm = [], Memb = [], Structs = [], Unions = [],
     Enums = [], Typedefs = [], Functionid = None, Looplevel = 0, Switchlevel = 0,
     labelid = 1, currSeg = no_seg, localOffset = 0, stackOffset = 0,
     freereg = [False, False, False, False], spillreg = 0, Outfile = [] \<rparr>"

definition ready_state :: compiler where
  [model_defs]: "ready_state = init_state\<lparr>Line := 1, freereg := [True, True, True, True]\<rparr>"

end
