(* ===== verification/Compile.thy ===== *)
theory Compile
  imports Parser Init
begin

text \<open>
  The driver, \<^verbatim>\<open>main.c\<close>. The programs it starts are parameters: an \<open>os\<close> gives what the
  pre-processor command prints (\<open>None\<close> when \<^verbatim>\<open>popen\<close> fails), whether the output file can be
  created, and the status of the assembler and linker commands. What the driver does to the
  outside is the list of its actions. \<^verbatim>\<open>INCDIR\<close>, which the build writes to \<^verbatim>\<open>incdir.h\<close>, is a
  parameter too. The messages on the standard streams and the dumps are not modelled.
\<close>

section \<open>File names\<close>

text \<open>The part up to the last \<^verbatim>\<open>'.'\<close>, with it, and the part after it: \<^verbatim>\<open>strrchr\<close>.\<close>

primrec split_dot :: "string \<Rightarrow> (string \<times> string) option" where
  "split_dot [] = None"
| "split_dot (c # cs) =
     (case split_dot cs of
        Some (p, q) \<Rightarrow> Some (c # p, q)
      | None \<Rightarrow> if c = CHR ''.'' then Some ([c], cs) else None)"

definition alter_suffix :: "string \<Rightarrow> char \<Rightarrow> string option" where
  "alter_suffix str suffix =
     (case split_dot str of
        None \<Rightarrow> None
      | Some (p, q) \<Rightarrow> if q = [] then None else Some (p @ [suffix]))"

section \<open>Commands\<close>

definition AOUT :: string where "AOUT = ''a.out''"
definition ASCMD :: string where "ASCMD = ''as -g -o ''"
definition LDCMD :: string where "LDCMD = ''cc -g -o ''"
definition CPPCMD :: string where "CPPCMD = ''cpp -nostdinc -isystem ''"

record os =
  INCDIR :: string
  popen :: "string \<Rightarrow> string option"
  fopen_w :: "string \<Rightarrow> bool"
  system :: "string \<Rightarrow> int"

datatype action =
    Write_file string "instr list"   \<comment> \<open>an assembly file, closed\<close>
  | System string
  | Unlink string

text \<open>\<^verbatim>\<open>snprintf\<close> keeps \<open>n - 1\<close> characters.\<close>

definition snprintf :: "int \<Rightarrow> string \<Rightarrow> string" where
  "snprintf n s = take (nat n - 1) s"

section \<open>Compiling one file\<close>

text \<open>The resets of \<^verbatim>\<open>do_compile\<close>.\<close>

definition reset_state :: "string \<Rightarrow> string \<Rightarrow> compiler \<Rightarrow> compiler" where
  "reset_state filename text s =
     clear_symtable (s\<lparr>Infile := text, Infilename := filename, Outfile := [],
        Line := 1, Linestart := True, Putback := cc (CHR 0x0A)\<rparr>)"

text \<open>
  One input file, compiled with calls of the parser at most \<open>n\<close> deep. \<open>calls_for\<close> is enough:
  at most four calls use up no token.
\<close>

definition compile_with :: "nat \<Rightarrow> string \<Rightarrow> string \<Rightarrow> unit gcomp" where
  "compile_with n filename text =
     wr (reset_state filename text) (
     thn scan_tok (
     wr (\<lambda>s. s\<lparr>Peektoken := (Peektoken s)\<lparr>token := T_EOF\<rparr>\<rparr>) (
     thn (genpreamble filename) (
     thn (global_declarations n) (
     thn genpostamble (
     modify freestaticsyms))))))"

definition calls_for :: "string \<Rightarrow> nat" where
  "calls_for text = 20 * (length text + 2)"

definition compile_text :: "string \<Rightarrow> string \<Rightarrow> unit gcomp" where
  "compile_text filename text = compile_with (calls_for text) filename text"

text \<open>
  The ways the driver ends early: a compile-time error (the output file is unlinked), another
  error message, or a crash of the driver itself.
\<close>

datatype stop =
    Compile_stop cerr
  | Exit1 string
  | Driver_crash string

text \<open>The result of a step of the driver: the actions, and a value or how it stopped.\<close>

type_synonym 'a drive = "action list \<times> (stop + 'a)"

definition do_compile :: "os \<Rightarrow> string \<Rightarrow> compiler \<Rightarrow> (string \<times> compiler) drive" where
  "do_compile w filename s =
     (case alter_suffix filename (CHR ''s'') of
        None \<Rightarrow> ([], Inl (Exit1 ''has no suffix, try .c on the end''))
      | Some outname \<Rightarrow>
          let cmd = snprintf (int TEXTLEN) (CPPCMD @ '' '' @ INCDIR w @ '' '' @ filename) in
          (case popen w cmd of
             None \<Rightarrow> ([], Inl (Exit1 ''Unable to open''))
           | Some text \<Rightarrow>
               if \<not> fopen_w w outname then ([], Inl (Exit1 ''Unable to create''))
               else
                 (case compile_text filename text s of
                    Inl (Fatal m l f) \<Rightarrow> ([Unlink outname], Inl (Compile_stop (Fatal m l f)))
                  | Inl e \<Rightarrow> ([], Inl (Compile_stop e))
                  | Inr (u, s') \<Rightarrow> ([Write_file outname (Outfile s')], Inr (outname, s')))))"

definition do_assemble :: "os \<Rightarrow> string \<Rightarrow> string drive" where
  "do_assemble w filename =
     (case alter_suffix filename (CHR ''o'') of
        None \<Rightarrow> ([], Inl (Exit1 ''has no suffix, try .s on the end''))
      | Some outfilename \<Rightarrow>
          let cmd = snprintf (int TEXTLEN) (ASCMD @ '' '' @ outfilename @ '' '' @ filename) in
          ([System cmd],
           if system w cmd \<noteq> 0 then Inl (Exit1 ''Assembly failed'') else Inr outfilename))"

text \<open>
  The link command is printed piece by piece into a buffer of \<^verbatim>\<open>TEXTLEN\<close> bytes. \<^verbatim>\<open>cnt\<close> is the
  length of the piece, not of what was kept, so once a piece was cut the next one is written
  outside the buffer.
\<close>

primrec link_pieces :: "string list \<Rightarrow> int \<Rightarrow> string \<Rightarrow> string option" where
  "link_pieces [] room cmd = Some cmd"
| "link_pieces (o' # os') room cmd =
     (if room \<le> 0 then None
      else link_pieces os' (room - int (length o' + 1)) (cmd @ snprintf room (o' @ '' '')))"

definition do_link :: "os \<Rightarrow> string \<Rightarrow> string list \<Rightarrow> unit drive" where
  "do_link w outfilename objlist =
     (let piece = LDCMD @ '' '' @ outfilename @ '' '' in
      case link_pieces objlist (int TEXTLEN - int (length piece)) (snprintf (int TEXTLEN) piece) of
        None \<Rightarrow> ([], Inl (Driver_crash ''link command buffer''))
      | Some cmd \<Rightarrow>
          ([System cmd], if system w cmd \<noteq> 0 then Inl (Exit1 ''Linking failed'') else Inr ()))"

section \<open>Options\<close>

record flags =
  O_dumpAST :: bool
  O_dumpsym :: bool
  O_keepasm :: bool
  O_assemble :: bool
  O_dolink :: bool
  O_verbose :: bool
  outfile :: string

definition default_flags :: flags where
  "default_flags = \<lparr>O_dumpAST = False, O_dumpsym = False, O_keepasm = False,
     O_assemble = False, O_dolink = True, O_verbose = False, outfile = AOUT\<rparr>"

text \<open>
  The loop over the letters of one argument: \<open>cs\<close> are the letters from index \<open>j\<close> on, \<open>args\<close>
  the arguments after this one. The letter \<^verbatim>\<open>o\<close> takes the next argument as the output file
  and moves on to it; if that starts with \<^verbatim>\<open>-\<close>, its letters from the next index on are read
  as options.
\<close>

fun option_letters :: "string \<Rightarrow> nat \<Rightarrow> string list \<Rightarrow> flags \<Rightarrow> stop + (flags \<times> string list)" where
  "option_letters [] j args fl = Inr (fl, args)"
| "option_letters (c # cs) j args fl =
     (if c = CHR ''o'' then
        (case args of
           [] \<Rightarrow> Inl (Driver_crash ''no argument after -o'')
         | a # args' \<Rightarrow>
             if a = [] \<or> hd a \<noteq> CHR ''-'' then Inr (fl\<lparr>outfile := a\<rparr>, args')
             else if Suc j > length a then Inl (Driver_crash ''index outside the argument'')
             else option_letters (drop (Suc j) a) (Suc j) args' (fl\<lparr>outfile := a\<rparr>))
      else if c = CHR ''T'' then option_letters cs (Suc j) args (fl\<lparr>O_dumpAST := True\<rparr>)
      else if c = CHR ''M'' then option_letters cs (Suc j) args (fl\<lparr>O_dumpsym := True\<rparr>)
      else if c = CHR ''c'' then option_letters cs (Suc j) args
             (fl\<lparr>O_assemble := True, O_keepasm := False, O_dolink := False\<rparr>)
      else if c = CHR ''S'' then option_letters cs (Suc j) args
             (fl\<lparr>O_keepasm := True, O_assemble := False, O_dolink := False\<rparr>)
      else if c = CHR ''v'' then option_letters cs (Suc j) args (fl\<lparr>O_verbose := True\<rparr>)
      else Inl (Exit1 ''Usage''))"

lemma option_letters_length:
  "option_letters cs j args fl = Inr (fl', args') \<Longrightarrow> length args' \<le> length args"
  by (induction cs j args fl rule: option_letters.induct)
     (auto split: if_splits list.splits)

text \<open>The loop over the arguments, up to the first one that is no option.\<close>

function parse_options :: "string list \<Rightarrow> flags \<Rightarrow> stop + (flags \<times> string list)" where
  "parse_options [] fl = Inr (fl, [])"
| "parse_options (a # args) fl =
     (if a = [] \<or> hd a \<noteq> CHR ''-'' then Inr (fl, a # args)
      else case option_letters (tl a) 1 args fl of
             Inl e \<Rightarrow> Inl e
           | Inr (fl', args') \<Rightarrow>
               parse_options args' fl')"
  by pat_completeness auto

termination
  by (relation "measure (\<lambda>(args, fl). length args)") (auto dest: option_letters_length)

section \<open>\<^verbatim>\<open>main\<close>\<close>

definition MAXOBJ :: nat where "MAXOBJ = 100"

primrec compile_files ::
  "os \<Rightarrow> flags \<Rightarrow> string list \<Rightarrow> compiler \<Rightarrow> string list \<Rightarrow> (string list) drive"
where
  "compile_files w fl [] s objlist = ([], Inr objlist)"
| "compile_files w fl (file # files) s objlist =
     (case do_compile w file s of
        (acts, Inl e) \<Rightarrow> (acts, Inl e)
      | (acts, Inr (asmfile, s')) \<Rightarrow>
          (case (if O_dolink fl \<or> O_assemble fl then
                   (case do_assemble w asmfile of
                      (acts', Inl e) \<Rightarrow> (acts', Inl e)
                    | (acts', Inr objfile) \<Rightarrow>
                        if length objlist = MAXOBJ - 2
                        then (acts', Inl (Exit1 ''Too many object files for the compiler to handle''))
                        else (acts', Inr (objlist @ [objfile])))
                 else ([], Inr objlist)) of
             (acts', Inl e) \<Rightarrow> (acts @ acts', Inl e)
           | (acts', Inr objlist') \<Rightarrow>
               let acts'' = (if O_keepasm fl then [] else [Unlink asmfile]);
                   (rest, res) = compile_files w fl files s' objlist'
               in (acts @ acts' @ acts'' @ rest, res)))"

definition main :: "os \<Rightarrow> string list \<Rightarrow> unit drive" where
  "main w args =
     (case parse_options args default_flags of
        Inl e \<Rightarrow> ([], Inl e)
      | Inr (fl, files) \<Rightarrow>
          if files = [] then ([], Inl (Exit1 ''Usage''))
          else
            (case compile_files w fl files init_state [] of
               (acts, Inl e) \<Rightarrow> (acts, Inl e)
             | (acts, Inr objlist) \<Rightarrow>
                 if O_dolink fl then
                   (case do_link w (outfile fl) objlist of
                      (acts', Inl e) \<Rightarrow> (acts @ acts', Inl e)
                    | (acts', Inr u) \<Rightarrow>
                        (acts @ acts' @ (if \<not> O_assemble fl then map Unlink objlist else []),
                         Inr ()))
                 else (acts, Inr ())))"

end
