(* ===== verification/X86.thy ===== *)
theory X86
  imports Cg
begin

text \<open>
  The part of the x86-64 machine that the assembly lines of \<^verbatim>\<open>cg.c\<close> use, as a specification to
  state the correctness of the code generator against. It is not part of the sources: the
  instructions are those of the processor manual, with AT&T operand order (the destination is
  the last operand).

  Registers are numbered as in \<^verbatim>\<open>reglist\<close>, so 6 is \<^verbatim>\<open>%rcx\<close> and 7 is \<^verbatim>\<open>%rdx\<close>; \<^verbatim>\<open>%rax\<close> and
  \<^verbatim>\<open>%rbp\<close> are fields of their own. The words pushed by \<^verbatim>\<open>pushq\<close> are a list, apart from the
  memory with the variables, because the frame of a function lies above them. \<open>glb\<close> and
  \<open>lab\<close> are the addresses the linker gave to symbols and labels.
\<close>

type_synonym addr = "64 word"

record mach =
  regs :: "int \<Rightarrow> 64 word"
  rax :: "64 word"
  rbp :: "64 word"
  stk :: "64 word list"
  mem :: "addr \<Rightarrow> 8 word"
  fl_eq :: bool
  fl_lt :: bool
  glb :: "string \<Rightarrow> addr"
  lab :: "int \<Rightarrow> addr"

section \<open>Memory\<close>

text \<open>Little-endian loads: \<^verbatim>\<open>movzbq\<close>, \<^verbatim>\<open>movslq\<close> and \<^verbatim>\<open>movq\<close>.\<close>

definition load :: "int \<Rightarrow> (addr \<Rightarrow> 8 word) \<Rightarrow> addr \<Rightarrow> 64 word" where
  "load sz mm a =
     (if sz = 1 then ucast (mm a)
      else if sz = 4 then scast (word_rcat [mm (a + 3), mm (a + 2), mm (a + 1), mm a] :: 32 word)
      else word_rcat [mm (a + 7), mm (a + 6), mm (a + 5), mm (a + 4),
                      mm (a + 3), mm (a + 2), mm (a + 1), mm a])"

text \<open>The \<open>k\<close>-th byte of a word, and the store of the first \<open>sz\<close> bytes.\<close>

definition byte_of :: "64 word \<Rightarrow> nat \<Rightarrow> 8 word" where
  "byte_of w k = ucast (drop_bit (8 * k) w)"

definition store :: "int \<Rightarrow> addr \<Rightarrow> 64 word \<Rightarrow> (addr \<Rightarrow> 8 word) \<Rightarrow> (addr \<Rightarrow> 8 word)" where
  "store sz a w mm = (\<lambda>b. let k = unat (b - a) in if k < nat sz then byte_of w k else mm b)"

section \<open>Operations\<close>

definition set_reg :: "int \<Rightarrow> 64 word \<Rightarrow> mach \<Rightarrow> mach" where
  "set_reg r w m = m\<lparr>regs := (regs m)(r := w)\<rparr>"

primrec bin_val :: "binop \<Rightarrow> 64 word \<Rightarrow> 64 word \<Rightarrow> 64 word" where
  "bin_val ADDQ a b = a + b"
| "bin_val SUBQ a b = a - b"
| "bin_val IMULQ a b = a * b"
| "bin_val ANDQ a b = a AND b"
| "bin_val ORQ a b = a OR b"
| "bin_val XORQ a b = a XOR b"

text \<open>The conditions after a comparison of a destination with a source.\<close>

primrec cond_holds :: "cond \<Rightarrow> mach \<Rightarrow> bool" where
  "cond_holds CE m = fl_eq m"
| "cond_holds CNE m = (\<not> fl_eq m)"
| "cond_holds CL m = fl_lt m"
| "cond_holds CG m = (\<not> fl_lt m \<and> \<not> fl_eq m)"
| "cond_holds CLE m = (fl_lt m \<or> fl_eq m)"
| "cond_holds CGE m = (\<not> fl_lt m)"
| "cond_holds CNZ m = (\<not> fl_eq m)"

text \<open>The signed value of the low \<open>sz\<close> bytes.\<close>

definition sval :: "int \<Rightarrow> 64 word \<Rightarrow> int" where
  "sval sz w =
     (if sz = 1 then sint (ucast w :: 8 word)
      else if sz = 4 then sint (ucast w :: 32 word) else sint w)"

definition low_byte :: "64 word \<Rightarrow> 64 word \<Rightarrow> 64 word" where
  "low_byte w b = (w AND NOT 255) OR (b AND 255)"

text \<open>\<^verbatim>\<open>idivq\<close>: the quotient and the remainder of \<^verbatim>\<open>%rdx:%rax\<close>, or a trap.\<close>

definition idiv :: "64 word \<Rightarrow> 64 word \<Rightarrow> 64 word \<Rightarrow> (64 word \<times> 64 word) option" where
  "idiv hi lo d =
     (let n = sint hi * 2 ^ 64 + uint lo; q = cdiv n (sint d) in
      if sint d = 0 \<or> q < - (2 ^ 63) \<or> q \<ge> 2 ^ 63 then None
      else Some (word_of_int q, word_of_int (cmod n (sint d))))"

section \<open>Straight-line instructions\<close>

text \<open>\<open>None\<close> is a trap, or an instruction that is not part of straight-line code.\<close>

primrec exec1 :: "instr \<Rightarrow> mach \<Rightarrow> mach option" where
  "exec1 TextSeg m = None" | "exec1 DataSeg m = None"
| "exec1 (PushQ r) m = Some (m\<lparr>stk := regs m r # stk m\<rparr>)"
| "exec1 (PopQ r) m =
     (case stk m of [] \<Rightarrow> None | w # ws \<Rightarrow> Some (set_reg r w (m\<lparr>stk := ws\<rparr>)))"
| "exec1 (MovImm v r) m = Some (set_reg r (word_of_int v) m)"
| "exec1 (Bin b r2 r1) m = Some (set_reg r1 (bin_val b (regs m r1) (regs m r2)) m)"
| "exec1 (RaxFrom r) m = Some (m\<lparr>rax := regs m r\<rparr>)"
| "exec1 Cqo m = Some (set_reg 7 (if sint (rax m) < 0 then - 1 else 0) m)"
| "exec1 (IDivQ r) m =
     (case idiv (regs m 7) (rax m) (regs m r) of
        None \<Rightarrow> None
      | Some (q, rm) \<Rightarrow> Some (set_reg 7 rm (m\<lparr>rax := q\<rparr>)))"
| "exec1 (RaxTo r) m = Some (set_reg r (rax m) m)"
| "exec1 (RdxTo r) m = Some (set_reg r (regs m 7) m)"
| "exec1 (ClFrom r) m = Some (set_reg 6 (low_byte (regs m 6) (regs m r)) m)"
| "exec1 (ShlCl r) m = Some (set_reg r (push_bit (unat (regs m 6 AND 63)) (regs m r)) m)"
| "exec1 (ShrCl r) m = Some (set_reg r (drop_bit (unat (regs m 6 AND 63)) (regs m r)) m)"
| "exec1 (NegQ r) m = Some (set_reg r (- regs m r) m)"
| "exec1 (NotQ r) m = Some (set_reg r (NOT (regs m r)) m)"
| "exec1 (Test r) m = Some (m\<lparr>fl_eq := (regs m r = 0), fl_lt := (sint (regs m r) < 0)\<rparr>)"
| "exec1 (SetCC c r) m =
     Some (set_reg r (low_byte (regs m r) (if cond_holds c m then 1 else 0)) m)"
| "exec1 (MovZBQ r) m = Some (set_reg r (regs m r AND 255) m)"
| "exec1 (Cmp sz r2 r1) m =
     (let a = sval sz (regs m r1); b = sval sz (regs m r2)
      in Some (m\<lparr>fl_eq := (a = b), fl_lt := (a < b)\<rparr>))"
| "exec1 (JccL c l) m = None" | "exec1 (JmpL l) m = None" | "exec1 (LabelL l) m = None"
| "exec1 (LeaLocal p r) m = Some (set_reg r (rbp m + word_of_int p) m)"
| "exec1 (LeaGlobal n r) m = Some (set_reg r (glb m n) m)"
| "exec1 (LeaLabel l r) m = Some (set_reg r (lab m l) m)"
| "exec1 (LoadLocal sz p r) m = Some (set_reg r (load sz (mem m) (rbp m + word_of_int p)) m)"
| "exec1 (LoadGlobal sz n r) m = Some (set_reg r (load sz (mem m) (glb m n)) m)"
| "exec1 (AddMem sz off r) m =
     (let a = regs m r
      in Some (m\<lparr>mem := store sz a (load sz (mem m) a + word_of_int off) (mem m)\<rparr>))"
| "exec1 (StoreLocal sz r p) m =
     Some (m\<lparr>mem := store sz (rbp m + word_of_int p) (regs m r) (mem m)\<rparr>)"
| "exec1 (StoreGlobal sz r n) m = Some (m\<lparr>mem := store sz (glb m n) (regs m r) (mem m)\<rparr>)"
| "exec1 (LoadDeref sz r) m = Some (set_reg r (load sz (mem m) (regs m r)) m)"
| "exec1 (StoreDeref sz r1 r2) m =
     Some (m\<lparr>mem := store sz (regs m r2) (regs m r1) (mem m)\<rparr>)"
| "exec1 (CallF n) m = None" | "exec1 (PopArgs k) m = None"
| "exec1 (RaxRes r) m = Some (set_reg r (rax m) m)"
| "exec1 (AddRsp n) m = None"
| "exec1 (MovQ r1 r2) m = Some (set_reg r2 (regs m r1) m)"
| "exec1 (RetMov sz r) m =
     Some (m\<lparr>rax := (if sz = 1 then regs m r AND 255
                      else if sz = 4 then ucast (ucast (regs m r) :: 32 word)
                      else regs m r)\<rparr>)"
| "exec1 (SalQ v r) m = Some (set_reg r (push_bit (nat v) (regs m r)) m)"
| "exec1 (ByteD v) m = None" | "exec1 (LongD v) m = None" | "exec1 (QuadD v) m = None"
| "exec1 (QuadL v) m = None" | "exec1 (QuadCase v l) m = None"
| "exec1 (GloblD n) m = None" | "exec1 (NameL n) m = None" | "exec1 (FuncType n) m = None"
| "exec1 PushRbp m = None" | "exec1 MovRspRbp m = None" | "exec1 PopRbpRet m = None"
| "exec1 (SwRaxFrom r) m = Some (m\<lparr>rax := regs m r\<rparr>)" | "exec1 (SwLeaRdx l) m = Some (set_reg 7 (lab m l) m)"
| "exec1 JmpSwitch m = None" | "exec1 (Preamble f) m = None"

primrec exec :: "instr list \<Rightarrow> mach \<Rightarrow> mach option" where
  "exec [] m = Some m"
| "exec (i # is) m = (case exec1 i m of None \<Rightarrow> None | Some m' \<Rightarrow> exec is m')"

lemma exec_append [simp]:
  "exec (a @ b) m = (case exec a m of None \<Rightarrow> None | Some m' \<Rightarrow> exec b m')"
  by (induction a arbitrary: m) (auto split: option.splits)

lemma regs_set_reg [simp]: "regs (set_reg r w m) = (regs m)(r := w)"
  by (simp add: set_reg_def)

lemma set_reg_other [simp]:
  "rax (set_reg r w m) = rax m" "rbp (set_reg r w m) = rbp m" "stk (set_reg r w m) = stk m"
  "mem (set_reg r w m) = mem m" "glb (set_reg r w m) = glb m" "lab (set_reg r w m) = lab m"
  "fl_eq (set_reg r w m) = fl_eq m" "fl_lt (set_reg r w m) = fl_lt m"
  by (simp_all add: set_reg_def)

text \<open>The bytes of a stored word, read back.\<close>

lemma store_same: "store sz a w mm a = (if 0 < sz then byte_of w 0 else mm a)"
  by (simp add: store_def)

end
