(* ===== verification/CodeSpec.thy ===== *)
theory CodeSpec
  imports X86 Gen
begin

text \<open>
  What the code for an expression has to do. \<open>eval\<close> is the value of an expression tree, on
  64-bit words as \<^verbatim>\<open>cg.c\<close> computes it, in a machine that gives memory and addresses;
  \<open>expr_ok\<close> are the trees it covers (no calls, comparisons or side effects). \<open>computes\<close> says
  that a piece of code leaves this value in the register it was given, and the rest of the
  machine as it was.
\<close>

section \<open>Reference values\<close>

definition psize :: "int \<Rightarrow> int" where
  "psize t = (if ptrtype t then 8 else if t = P_CHAR then 1 else if t = P_INT then 4
              else if t = P_LONG then 8 else 0)"

definition sym_addr :: "mach \<Rightarrow> symtable \<Rightarrow> addr" where
  "sym_addr m e = (if is_local e then rbp m + word_of_int (s_posn e) else glb m (sname e))"

definition sdivmod :: "64 word \<Rightarrow> 64 word \<Rightarrow> (64 word \<times> 64 word) option" where
  "sdivmod a b =
     (let q = cdiv (sint a) (sint b) in
      if sint b = 0 \<or> q < - (2 ^ 63) \<or> q \<ge> 2 ^ 63 then None
      else Some (word_of_int q, word_of_int (cmod (sint a) (sint b))))"

definition bin_fun :: "astop \<Rightarrow> (64 word \<Rightarrow> 64 word \<Rightarrow> 64 word option) option" where
  "bin_fun q =
     (if q = A_ADD then Some (\<lambda>a b. Some (a + b))
      else if q = A_SUBTRACT then Some (\<lambda>a b. Some (a - b))
      else if q = A_MULTIPLY then Some (\<lambda>a b. Some (a * b))
      else if q = A_DIVIDE then Some (\<lambda>a b. map_option fst (sdivmod a b))
      else if q = A_MOD then Some (\<lambda>a b. map_option snd (sdivmod a b))
      else if q = A_AND then Some (\<lambda>a b. Some (a AND b))
      else if q = A_OR then Some (\<lambda>a b. Some (a OR b))
      else if q = A_XOR then Some (\<lambda>a b. Some (a XOR b))
      else if q = A_LSHIFT then Some (\<lambda>a b. Some (push_bit (unat (b AND 63)) a))
      else if q = A_RSHIFT then Some (\<lambda>a b. Some (drop_bit (unat (b AND 63)) a))
      else None)"

definition un_fun :: "astop \<Rightarrow> (64 word \<Rightarrow> 64 word) option" where
  "un_fun q =
     (if q = A_NEGATE then Some (\<lambda>a. - a)
      else if q = A_INVERT then Some (\<lambda>a. NOT a)
      else if q = A_LOGNOT then Some (\<lambda>a. if a = 0 then 1 else 0)
      else if q = A_WIDEN \<or> q = A_CAST then Some (\<lambda>a. a)
      else None)"

lemma bin_fun_cases:
  assumes "bin_fun q = Some f"
  obtains "q = A_ADD" | "q = A_SUBTRACT" | "q = A_MULTIPLY" | "q = A_DIVIDE" | "q = A_MOD"
    | "q = A_AND" | "q = A_OR" | "q = A_XOR" | "q = A_LSHIFT" | "q = A_RSHIFT"
  using assms by (auto simp: bin_fun_def split: if_splits)

lemma un_fun_cases:
  assumes "un_fun q = Some f"
  obtains "q = A_NEGATE" | "q = A_INVERT" | "q = A_LOGNOT" | "q = A_WIDEN" | "q = A_CAST"
  using assms by (auto simp: un_fun_def split: if_splits)

definition both :: "('a \<Rightarrow> 'b \<Rightarrow> 'c option) \<Rightarrow> 'a option \<Rightarrow> 'b option \<Rightarrow> 'c option" where
  "both f va vb = (case va of None \<Rightarrow> None
     | Some x \<Rightarrow> (case vb of None \<Rightarrow> None | Some y \<Rightarrow> f x y))"

lemma both_simps [simp]:
  "both f None vb = None" "both f va None = None" "both f (Some x) (Some y) = f x y"
  by (simp_all add: both_def split: option.splits)

primrec eval :: "symtable list \<Rightarrow> mach \<Rightarrow> ast \<Rightarrow> 64 word option" where
  "eval h m Null = None"
| "eval h m (Node q t c rv l md r sy v lno) =
     (if q = A_INTLIT then Some (word_of_int v)
      else if q = A_IDENT then Some (load (s_size (h ! the sy)) (mem m) (sym_addr m (h ! the sy)))
      else if q = A_ADDR then Some (sym_addr m (h ! the sy))
      else if q = A_DEREF then
        map_option (load (psize (ntype l - 1)) (mem m)) (eval h m l)
      else if q = A_SCALE then map_option (\<lambda>a. a * word_of_int v) (eval h m l)
      else (case un_fun q of
              Some f \<Rightarrow> map_option f (eval h m l)
            | None \<Rightarrow>
                (case bin_fun q of
                   Some f \<Rightarrow> both f (eval h m l) (eval h m r)
                 | None \<Rightarrow> None)))"

definition sym_ok :: "symtable list \<Rightarrow> ptr option \<Rightarrow> bool" where
  "sym_ok h sy = (case sy of None \<Rightarrow> False | Some p \<Rightarrow>
     p < length h \<and> (is_local (h ! p) \<longleftrightarrow> \<not> is_global_class (s_class (h ! p))))"

definition var_ok :: "symtable list \<Rightarrow> ptr option \<Rightarrow> bool" where
  "var_ok h sy \<longleftrightarrow> sym_ok h sy \<and> (let e = h ! the sy in
     (s_size e = 1 \<or> s_size e = 4 \<or> s_size e = 8) \<and>
     (ptrtype (s_type e) \<longrightarrow> psize (s_type e - 1) \<noteq> 0))"

primrec expr_ok :: "symtable list \<Rightarrow> ast \<Rightarrow> bool" where
  "expr_ok h Null = False"
| "expr_ok h (Node q t c rv l md r sy v lno) =
     (if q = A_INTLIT then l = Null \<and> r = Null
      else if q = A_IDENT then rv \<and> l = Null \<and> r = Null \<and> var_ok h sy
      else if q = A_ADDR then l = Null \<and> r = Null \<and> sym_ok h sy
      else if q = A_DEREF then
        rv \<and> r = Null \<and> ptrtype (ntype l) \<and> psize (ntype l - 1) \<noteq> 0 \<and> expr_ok h l
      else if q = A_SCALE then r = Null \<and> expr_ok h l
      else if un_fun q \<noteq> None then r = Null \<and> expr_ok h l
      else bin_fun q \<noteq> None \<and> expr_ok h l \<and> expr_ok h r)"

lemma sint_eq_uint: "sint (a::64 word) = uint a - (if sint a < 0 then 2 ^ 64 else 0)"
proof -
  have u: "uint a < 2 ^ 64" "0 \<le> uint a" using uint_lt2p[of a] by simp_all
  have *: "sint a = uint a - 2 ^ 64 * of_bool (bit (uint a) 63)"
    unfolding sint_uint using u by (simp add: signed_take_bit_eq_take_bit_minus take_bit_eq_mod)
  with u show ?thesis by (auto split: if_splits simp: of_bool_def)
qed

lemma sint_sign_ext:
  "sint (if sint (a::64 word) < 0 then - 1 else 0 :: 64 word) * 2 ^ 64 + uint a = sint a"
  using sint_eq_uint[of a] by (auto split: if_splits)

lemma idiv_cqo: "idiv (if sint a < 0 then - 1 else 0) a b = sdivmod a b"
  unfolding idiv_def sdivmod_def sint_sign_ext by (simp add: Let_def)

lemma low_byte_63: "low_byte w b AND 63 = b AND 63"
proof -
  have "(NOT 255 :: 64 word) AND 63 = 0" "(255 :: 64 word) AND 63 = 63" by simp_all
  then show ?thesis
    unfolding low_byte_def by (metis (no_types, opaque_lifting) bit.conj_disj_distrib2 and.assoc or.left_neutral bit.conj_zero_right)
qed

lemma low_byte_255: "low_byte w b AND 255 = b AND 255"
proof -
  have "(NOT 255 :: 64 word) AND 255 = 0" "(255 :: 64 word) AND 255 = 255" by simp_all
  then show ?thesis
    unfolding low_byte_def by (metis (no_types, opaque_lifting) bit.conj_disj_distrib2 and.assoc or.left_neutral bit.conj_zero_right)
qed

section \<open>Register discipline\<close>

definition free_at :: "nat \<Rightarrow> bool list" where
  "free_at d = [d = 0, d \<le> 1, d \<le> 2, d \<le> 3]"

definition at_depth :: "nat \<Rightarrow> compiler \<Rightarrow> compiler" where
  "at_depth d s = s\<lparr>freereg := free_at d, spillreg := int (d - 4)\<rparr>"

definition regs_at :: "nat \<Rightarrow> compiler \<Rightarrow> bool" where
  "regs_at d s \<longleftrightarrow> freereg s = free_at d \<and> spillreg s = int (d - 4)"

definition out :: "instr list \<Rightarrow> compiler \<Rightarrow> compiler" where
  "out code s = s\<lparr>Outfile := Outfile s @ code\<rparr>"

definition reg_of :: "nat \<Rightarrow> int" where
  "reg_of d = int (d mod 4)"

lemma at_depth_simps [simp]:
  "at_depth d (at_depth d' s) = at_depth d s"
  "at_depth d (out c s) = out c (at_depth d s)"
  "out c (out c' s) = out (c' @ c) s"
  "out [] s = s"
  "Heap (at_depth d s) = Heap s" "Heap (out c s) = Heap s"
  "Line (at_depth d s) = Line s" "Line (out c s) = Line s"
  "(at_depth d s)\<lparr>Line := l\<rparr> = at_depth d (s\<lparr>Line := l\<rparr>)"
  "(out c s)\<lparr>Line := l\<rparr> = out c (s\<lparr>Line := l\<rparr>)"
  "regs_at d (at_depth d s)"
  "regs_at d (out c s) = regs_at d s"
  "regs_at d (s\<lparr>Line := l\<rparr>) = regs_at d s"
  by (simp_all add: at_depth_def out_def regs_at_def)

lemma at_depth_id: "regs_at d s \<Longrightarrow> at_depth d s = s"
  by (simp add: at_depth_def regs_at_def)

lemma emit_out [simp]: "list_all reg_in_table (instr_regs i) \<Longrightarrow> emit i s = Inr ((), out [i] s)"
  by (simp add: emit_def out_def)

lemma reg_of_range [simp]:
  "0 \<le> reg_of d" "reg_of d < 4" "\<not> reg_of d < 0" "\<not> 4 \<le> reg_of d"
  by (simp_all add: reg_of_def)

lemma reg_of_in_table [simp]: "reg_in_table (reg_of d)"
  using reg_of_range(1,2)[of d] unfolding reg_in_table_def by (intro conjI) linarith+

lemma reg_of_Suc [simp]: "reg_of (Suc d) \<noteq> reg_of d" "reg_of d \<noteq> reg_of (Suc d)"
  by (simp_all add: reg_of_def mod_Suc)

definition push_code :: "nat \<Rightarrow> instr list" where
  "push_code d = (if d < 4 then [] else [PushQ (reg_of d)])"

definition pop_code :: "nat \<Rightarrow> instr list" where
  "pop_code d = (if d < 4 then [] else [PopQ (reg_of d)])"

lemma below_4: "d < 4 \<Longrightarrow> d = 0 \<or> d = 1 \<or> d = 2 \<or> d = (3::nat)"
  by arith

lemma spilled_reg:
  "int d mod 4 = reg_of d"
  by (simp add: reg_of_def zmod_int)

lemma free_at_spilled: "\<not> d < 4 \<Longrightarrow> free_at d = [False, False, False, False]"
  by (simp add: free_at_def)

lemma alloc_at:
  assumes "regs_at d s"
  shows "cgallocreg s = Inr (reg_of d, out (push_code d) (at_depth (Suc d) s))"
proof (cases "d < 4")
  case True
  then show ?thesis using assms
    by (auto dest!: below_4
      simp: cgallocreg_def regs_at_def free_at_def at_depth_def push_code_def out_def reg_of_def)
next
  case False
  then have "free_at (Suc d) = free_at d" by (simp add: free_at_def)
  with False assms show ?thesis
    by (simp add: cgallocreg_def regs_at_def push_code_def pushreg_def thn_def bnd_def
        NUMFREEREGS_def spilled_reg free_at_spilled)
       (simp add: at_depth_def out_def free_at_spilled)
qed

lemma free_at_reg:
  assumes "regs_at (Suc d) s"
  shows "cgfreereg (reg_of d) s = Inr ((), out (pop_code d) (at_depth d s))"
proof (cases "d < 4")
  case True
  then show ?thesis using assms
    by (auto dest!: below_4
      simp: cgfreereg_def regs_at_def free_at_def at_depth_def pop_code_def out_def reg_of_def)
next
  case False
  then have fr: "free_at (Suc d) = free_at d" by (simp add: free_at_def)
  have "nat (reg_of d) < 4" by (simp add: nat_less_iff)
  then have "\<not> [False, False, False, False] ! nat (reg_of d)"
    by (auto dest!: below_4)
  with False assms fr show ?thesis
    by (simp add: cgfreereg_def regs_at_def pop_code_def popreg_def
        NUMFREEREGS_def spilled_reg free_at_spilled)
       (simp add: at_depth_def out_def free_at_spilled)
qed

section \<open>What a piece of code does\<close>

text \<open>
  \<open>in_use d j\<close>: register \<open>j\<close> holds a value when \<open>d\<close> registers were allocated. The code for an
  expression may change its own register and those that are not in use; when all four are in
  use, it saves the one it takes on the stack.
\<close>

definition in_use :: "nat \<Rightarrow> int \<Rightarrow> bool" where
  "in_use d j \<longleftrightarrow> 0 \<le> j \<and> j < 4 \<and> (4 \<le> d \<or> j < int d)"

definition same_world :: "mach \<Rightarrow> mach \<Rightarrow> bool" where
  "same_world m m' \<longleftrightarrow> mem m' = mem m \<and> rbp m' = rbp m \<and> glb m' = glb m \<and> lab m' = lab m"

definition keeps :: "nat \<Rightarrow> mach \<Rightarrow> mach \<Rightarrow> bool" where
  "keeps d m m' \<longleftrightarrow> same_world m m'
     \<and> (\<forall>j. in_use d j \<longrightarrow> j \<noteq> reg_of d \<longrightarrow> regs m' j = regs m j)
     \<and> stk m' = (if d < 4 then stk m else regs m (reg_of d) # stk m)"

definition computes :: "nat \<Rightarrow> 64 word option \<Rightarrow> instr list \<Rightarrow> mach \<Rightarrow> bool" where
  "computes d v code m \<longleftrightarrow>
     (case v of
        None \<Rightarrow> exec code m = None
      | Some w \<Rightarrow> \<exists>m'. exec code m = Some m' \<and> keeps d m m' \<and> regs m' (reg_of d) = w)"

text \<open>Code on operands that are in registers already: registers 0 to 3 keep their values.\<close>

definition transforms :: "nat \<Rightarrow> (mach \<Rightarrow> 64 word option) \<Rightarrow> instr list \<Rightarrow> bool" where
  "transforms d f code \<longleftrightarrow> (\<forall>m.
     case f m of
       None \<Rightarrow> exec code m = None
     | Some w \<Rightarrow> \<exists>m'. exec code m = Some m' \<and> same_world m m' \<and> stk m' = stk m
          \<and> (\<forall>j. 0 \<le> j \<longrightarrow> j < 4 \<longrightarrow> j \<noteq> reg_of d \<longrightarrow> regs m' j = regs m j)
          \<and> regs m' (reg_of d) = w)"

lemma transforms_Some:
  assumes "transforms d f code" "f m = Some w"
  obtains m' where "exec code m = Some m'" "same_world m m'" "stk m' = stk m"
    "\<forall>j. 0 \<le> j \<longrightarrow> j < 4 \<longrightarrow> j \<noteq> reg_of d \<longrightarrow> regs m' j = regs m j"
    "regs m' (reg_of d) = w"
  using assms(1)[unfolded transforms_def, THEN spec[of _ m]] assms(2) that by auto

lemma transforms_None: "transforms d f code \<Longrightarrow> f m = None \<Longrightarrow> exec code m = None"
  unfolding transforms_def by (drule spec[of _ m]) simp

lemma same_world_refl [simp]: "same_world m m"
  by (simp add: same_world_def)

lemma same_world_trans: "same_world m m' \<Longrightarrow> same_world m' m'' \<Longrightarrow> same_world m m''"
  by (simp add: same_world_def)

lemma in_use_Suc: "in_use d j \<Longrightarrow> in_use (Suc d) j"
  by (auto simp: in_use_def)

lemma in_use_reg_of [simp]: "in_use (Suc d) (reg_of d)"
  by (auto simp: in_use_def reg_of_def)

lemma not_in_use_reg_of: "in_use d (reg_of d) \<Longrightarrow> 4 \<le> d"
  by (cases "d < 4") (auto simp: in_use_def reg_of_def)

text \<open>Loading a value into a fresh register.\<close>

lemma computes_fresh:
  assumes "transforms d f code" "\<And>m m'. same_world m m' \<Longrightarrow> f m' = f m" "f m = Some w"
  shows "computes d (Some w) (push_code d @ code) m"
proof -
  define m1 where "m1 = (if d < 4 then m else m\<lparr>stk := regs m (reg_of d) # stk m\<rparr>)"
  have e: "exec (push_code d) m = Some m1" by (simp add: push_code_def m1_def)
  have w: "same_world m m1" by (simp add: m1_def same_world_def)
  with assms(2,3) have "f m1 = Some w" by simp
  then obtain m' where m': "exec code m1 = Some m'" "same_world m1 m'" "stk m' = stk m1"
      "\<forall>j. 0 \<le> j \<longrightarrow> j < 4 \<longrightarrow> j \<noteq> reg_of d \<longrightarrow> regs m' j = regs m1 j" "regs m' (reg_of d) = w"
    by (rule transforms_Some[OF assms(1)])
  have r: "regs m1 = regs m" "stk m1 = (if d < 4 then stk m else regs m (reg_of d) # stk m)"
    by (simp_all add: m1_def)
  have "keeps d m m'"
    using m'(3,4) same_world_trans[OF w m'(2)] by (simp add: keeps_def in_use_def r)
  with e m'(1,5) show ?thesis by (simp add: computes_def)
qed

text \<open>One operand: the code for it, followed by code that works in its register.\<close>

lemma computes_unary:
  assumes "computes d v code m" "transforms d f ops"
    and "\<And>m w. regs m (reg_of d) = w \<Longrightarrow> same_world m0 m \<Longrightarrow> f m = g w" "same_world m0 m"
  shows "computes d (case v of None \<Rightarrow> None | Some w \<Rightarrow> g w) (code @ ops) m"
proof (cases v)
  case None
  then show ?thesis using assms(1) by (simp add: computes_def)
next
  case (Some w)
  with assms(1) obtain m1 where m1: "exec code m = Some m1" "keeps d m m1" "regs m1 (reg_of d) = w"
    by (auto simp: computes_def)
  have "f m1 = g w"
    using assms(3)[of m1 w] same_world_trans[OF assms(4)] m1 by (simp add: keeps_def)
  note f = this
  show ?thesis
  proof (cases "g w")
    case None
    then show ?thesis using transforms_None[OF assms(2), of m1] f m1(1) Some
      by (simp add: computes_def)
  next
    case (Some w')
    with f have "f m1 = Some w'" by simp
    then obtain m' where m': "exec ops m1 = Some m'" "same_world m1 m'" "stk m' = stk m1"
        "\<forall>j. 0 \<le> j \<longrightarrow> j < 4 \<longrightarrow> j \<noteq> reg_of d \<longrightarrow> regs m' j = regs m1 j"
        "regs m' (reg_of d) = w'"
      by (rule transforms_Some[OF assms(2)])
    have "keeps d m m'"
      using m1(2) m'(3,4) same_world_trans[of m m1 m', OF _ m'(2)]
      by (simp add: keeps_def in_use_def)
    then show ?thesis using m1(1) m'(1,5) Some \<open>v = Some w\<close> by (simp add: computes_def)
  qed
qed

lemma computes_pop:
  assumes "keeps (Suc d) m1 m2" "same_world m2 m3" "stk m3 = stk m2"
    "\<forall>j. 0 \<le> j \<longrightarrow> j < 4 \<longrightarrow> j \<noteq> reg_of d \<longrightarrow> regs m3 j = regs m2 j"
  shows "\<exists>m'. exec (pop_code (Suc d)) m3 = Some m' \<and> same_world m1 m' \<and> stk m' = stk m1
     \<and> regs m' (reg_of d) = regs m3 (reg_of d)
     \<and> (\<forall>j. in_use d j \<longrightarrow> j \<noteq> reg_of d \<longrightarrow> regs m' j = regs m1 j)"
proof (cases "Suc d < 4")
  case True
  then have "reg_of (Suc d) = int (Suc d)" by (simp add: reg_of_def)
  moreover have "same_world m1 m3"
    using assms(1,2) by (auto simp: keeps_def dest: same_world_trans)
  ultimately show ?thesis using assms(1,3,4) True
    by (auto simp: pop_code_def keeps_def in_use_def)
next
  case False
  then have s: "stk m3 = regs m1 (reg_of (Suc d)) # stk m1"
    using assms by (simp add: keeps_def)
  define m' where "m' = set_reg (reg_of (Suc d)) (regs m1 (reg_of (Suc d))) (m3\<lparr>stk := stk m1\<rparr>)"
  have "exec (pop_code (Suc d)) m3 = Some m'"
    using False s by (simp add: pop_code_def m'_def)
  moreover have "same_world m1 m'"
    using assms by (auto simp: keeps_def same_world_def m'_def)
  moreover have "\<forall>j. in_use d j \<longrightarrow> j \<noteq> reg_of d \<longrightarrow> regs m' j = regs m1 j"
    using assms False by (auto simp: m'_def keeps_def in_use_def)
  ultimately show ?thesis by (auto simp: m'_def)
qed

text \<open>Two operands: the second is freed after the operation.\<close>

lemma computes_binary:
  assumes a: "computes d va ca m" and b: "\<And>m1. same_world m m1 \<Longrightarrow> computes (Suc d) vb cb m1"
    and ops: "transforms d (\<lambda>m. f (regs m (reg_of d)) (regs m (reg_of (Suc d)))) ops"
  shows "computes d (both f va vb)
           (ca @ cb @ ops @ pop_code (Suc d)) m"
proof (cases va)
  case None
  then show ?thesis using a by (simp add: computes_def)
next
  case (Some x)
  with a obtain m1 where m1: "exec ca m = Some m1" "keeps d m m1" "regs m1 (reg_of d) = x"
    by (auto simp: computes_def)
  then have b': "computes (Suc d) vb cb m1" by (intro b) (simp add: keeps_def)
  show ?thesis
  proof (cases vb)
    case None
    then show ?thesis using b' m1 Some by (simp add: computes_def)
  next
    case (Some y)
    with b' obtain m2 where m2: "exec cb m1 = Some m2" "keeps (Suc d) m1 m2"
        "regs m2 (reg_of (Suc d)) = y"
      by (auto simp: computes_def)
    then have x: "regs m2 (reg_of d) = x"
      using m1 by (simp add: keeps_def)
    show ?thesis
    proof (cases "f x y")
      case None
      then have "exec ops m2 = None"
        using transforms_None[OF ops, of m2] x m2 by simp
      then show ?thesis using None m1 m2 \<open>va = Some x\<close> Some by (simp add: computes_def)
    next
      case (Some z)
      with x m2(3) have "f (regs m2 (reg_of d)) (regs m2 (reg_of (Suc d))) = Some z" by simp
      then obtain m3 where m3: "exec ops m2 = Some m3" "same_world m2 m3" "stk m3 = stk m2"
          "\<forall>j. 0 \<le> j \<longrightarrow> j < 4 \<longrightarrow> j \<noteq> reg_of d \<longrightarrow> regs m3 j = regs m2 j"
          "regs m3 (reg_of d) = z"
        by (rule transforms_Some[OF ops])
      obtain m' where "exec (pop_code (Suc d)) m3 = Some m'" "same_world m1 m'" "stk m' = stk m1"
          "regs m' (reg_of d) = z" "\<forall>j. in_use d j \<longrightarrow> j \<noteq> reg_of d \<longrightarrow> regs m' j = regs m1 j"
        using computes_pop[OF m2(2) m3(2,3,4)] m3(5) by auto
      note m' = this
      have "keeps d m m'"
        using m1(2) m'(3,5) same_world_trans[of m m1 m', OF _ m'(2)] by (simp add: keeps_def)
      then show ?thesis
        using m1(1) m2(1) m3(1) m'(1,4) \<open>va = Some x\<close> \<open>vb = Some y\<close> Some
        by (simp add: computes_def)
    qed
  qed
qed

end
