(* ===== verification/GenExpr.thy ===== *)
theory GenExpr
  imports CodeSpec Init
begin

text \<open>
  Correctness of the code generator on expressions, for every depth of the register stack: the
  fifth value spills \<^verbatim>\<open>%r10\<close>, and so on around the four registers. The lemmas go from the
  allocator (\<open>alloc_at\<close>, \<open>free_at_reg\<close>) over the lines for each operation to the induction
  on the tree.
\<close>

section \<open>The code for each operation\<close>

lemma reg_of_neq [simp]:
  "reg_of d \<noteq> 7" "reg_of d \<noteq> 6" "7 \<noteq> reg_of d" "6 \<noteq> reg_of d"
  using reg_of_range(2)[of d] by linarith+

lemma transforms_I:
  assumes "\<And>m. f m = None \<Longrightarrow> exec code m = None"
    and "\<And>m w. f m = Some w \<Longrightarrow> \<exists>m'. exec code m = Some m' \<and> same_world m m' \<and> stk m' = stk m
          \<and> (\<forall>j. 0 \<le> j \<longrightarrow> j < 4 \<longrightarrow> j \<noteq> reg_of d \<longrightarrow> regs m' j = regs m j)
          \<and> regs m' (reg_of d) = w"
  shows "transforms d f code"
  unfolding transforms_def using assms by (auto split: option.splits)

lemma transforms_bin:
  "transforms d (\<lambda>m. Some (bin_val b (regs m (reg_of d)) (regs m (reg_of (Suc d)))))
     [Bin b (reg_of (Suc d)) (reg_of d)]"
  by (rule transforms_I) (auto simp: same_world_def)

lemma transforms_div:
  "transforms d (\<lambda>m. map_option fst (sdivmod (regs m (reg_of d)) (regs m (reg_of (Suc d)))))
     [RaxFrom (reg_of d), Cqo, IDivQ (reg_of (Suc d)), RaxTo (reg_of d)]"
  by (rule transforms_I) (auto simp: same_world_def idiv_cqo split: option.splits)

lemma transforms_mod:
  "transforms d (\<lambda>m. map_option snd (sdivmod (regs m (reg_of d)) (regs m (reg_of (Suc d)))))
     [RaxFrom (reg_of d), Cqo, IDivQ (reg_of (Suc d)), RdxTo (reg_of d)]"
  by (rule transforms_I) (auto simp: same_world_def idiv_cqo split: option.splits)

lemma transforms_shl:
  "transforms d (\<lambda>m. Some (push_bit (unat (regs m (reg_of (Suc d)) AND 63)) (regs m (reg_of d))))
     [ClFrom (reg_of (Suc d)), ShlCl (reg_of d)]"
  by (rule transforms_I) (auto simp: same_world_def low_byte_63)

lemma transforms_shr:
  "transforms d (\<lambda>m. Some (drop_bit (unat (regs m (reg_of (Suc d)) AND 63)) (regs m (reg_of d))))
     [ClFrom (reg_of (Suc d)), ShrCl (reg_of d)]"
  by (rule transforms_I) (auto simp: same_world_def low_byte_63)

definition binop_code :: "astop \<Rightarrow> int \<Rightarrow> int \<Rightarrow> instr list" where
  "binop_code q r1 r2 =
     (if q = A_ADD then [Bin ADDQ r2 r1] else if q = A_SUBTRACT then [Bin SUBQ r2 r1]
      else if q = A_MULTIPLY then [Bin IMULQ r2 r1] else if q = A_AND then [Bin ANDQ r2 r1]
      else if q = A_OR then [Bin ORQ r2 r1] else if q = A_XOR then [Bin XORQ r2 r1]
      else if q = A_DIVIDE then [RaxFrom r1, Cqo, IDivQ r2, RaxTo r1]
      else if q = A_MOD then [RaxFrom r1, Cqo, IDivQ r2, RdxTo r1]
      else if q = A_LSHIFT then [ClFrom r2, ShlCl r1] else [ClFrom r2, ShrCl r1])"

lemma transforms_binop:
  assumes "bin_fun q = Some f"
  shows "transforms d (\<lambda>m. f (regs m (reg_of d)) (regs m (reg_of (Suc d))))
     (binop_code q (reg_of d) (reg_of (Suc d)))"
proof -
  note b = transforms_bin[of d ADDQ] transforms_bin[of d SUBQ] transforms_bin[of d IMULQ]
    transforms_bin[of d ANDQ] transforms_bin[of d ORQ] transforms_bin[of d XORQ]
  note rules = b[unfolded bin_val.simps] transforms_div[of d] transforms_mod[of d]
    transforms_shl[of d] transforms_shr[of d]
  from assms show ?thesis
    by (rule bin_fun_cases; use assms rules in \<open>force simp: bin_fun_def binop_code_def\<close>)
qed

lemma gen_binop:
  assumes "bin_fun (op n) = Some f" "regs_at (Suc (Suc d)) s"
  shows "gen_op n (reg_of d) (reg_of (Suc d)) a b c p s =
     Inr (reg_of d, out (binop_code (op n) (reg_of d) (reg_of (Suc d)) @ pop_code (Suc d))
                      (at_depth (Suc d) s))"
proof -
  have 1: "cgfreereg (reg_of (Suc d)) (out c' s) = Inr ((), out (c' @ pop_code (Suc d)) (at_depth (Suc d) s))" for c'
    using free_at_reg[of "Suc d" "out c' s"] assms(2) by simp
  from assms(1) show ?thesis
    by (rule bin_fun_cases)
       (simp_all add: gen_op_def binop_code_def cgbin_defs cgbin_def cgdivmod_def cgshl_def
          cgshr_def thn_def bnd_def 1)
qed

definition unop_code :: "astop \<Rightarrow> int \<Rightarrow> instr list" where
  "unop_code q r =
     (if q = A_NEGATE then [NegQ r] else if q = A_INVERT then [NotQ r]
      else if q = A_LOGNOT then [Test r, SetCC CE r, MovZBQ r] else [])"

lemma transforms_unop:
  assumes "un_fun q = Some f"
  shows "transforms d (\<lambda>m. Some (f (regs m (reg_of d)))) (unop_code q (reg_of d))"
  using assms
  by (rule un_fun_cases; use assms in \<open>auto simp: un_fun_def unop_code_def same_world_def low_byte_255
      intro!: transforms_I\<close>)

lemma gen_unop:
  assumes "un_fun (op n) = Some f" "left n \<noteq> Null"
  shows "gen_op n (reg_of d) r2 a b c p s =
     Inr (reg_of d, out (unop_code (op n) (reg_of d)) s)"
  using assms(1)
  by (rule un_fun_cases)
     (simp_all add: gen_op_def unop_code_def cgnegate_def cginvert_def cglognot_def
      cgwiden_def thn_def bnd_def assms(2))

lemma cgprimsize_psize: "psize t \<noteq> 0 \<Longrightarrow> cgprimsize t s = Inr (psize t, s)"
  by (simp add: psize_def cgprimsize_def split: if_splits)

lemma psize_cases: "psize t = 0 \<or> psize t = 1 \<or> psize t = 4 \<or> psize t = 8"
  by (simp add: psize_def)

lemma ptrtype_mod: "ptrtype t \<Longrightarrow> t mod 16 \<noteq> 0"
  by (simp add: ptrtype_def)

lemma incr_offset_ok:
  assumes "ptrtype (s_type e) \<longrightarrow> psize (s_type e - 1) \<noteq> 0"
  shows "\<exists>off. incr_offset e A_IDENT s = Inr (off, s)"
proof (cases "ptrtype (s_type e)")
  case True
  with assms have p: "psize (s_type e - 1) \<noteq> 0" by simp
  then have "s_type e - 1 \<noteq> P_STRUCT" "s_type e - 1 \<noteq> P_UNION"
    by (auto simp: psize_def ptrtype_def)
  with True p show ?thesis
    by (simp add: incr_offset_def value_at_def ptrtype_def typesize_def cgprimsize_psize bnd_def)
next
  case False
  then show ?thesis by (simp add: incr_offset_def bnd_def)
qed

definition load_code :: "symtable \<Rightarrow> int \<Rightarrow> instr" where
  "load_code e r = (if is_local e then LoadLocal (s_size e) (s_posn e) r
                    else LoadGlobal (s_size e) (sname e) r)"

lemma cgloadvar_at:
  assumes "regs_at d s" "s_size e = 1 \<or> s_size e = 4 \<or> s_size e = 8"
    and "ptrtype (s_type e) \<longrightarrow> psize (s_type e - 1) \<noteq> 0"
  shows "cgloadvar e A_IDENT s =
     Inr (reg_of d, out (push_code d @ [load_code e (reg_of d)]) (at_depth (Suc d) s))"
proof -
  obtain off where "incr_offset e A_IDENT (out (push_code d) (at_depth (Suc d) s))
     = Inr (off, out (push_code d) (at_depth (Suc d) s))"
    using incr_offset_ok[OF assms(3)] by blast
  with assms(1,2) show ?thesis
    by (auto simp: cgloadvar_def alloc_at thn_def bnd_def emit_sized_def load_code_def)
qed

lemma transforms_load:
  "transforms d (\<lambda>m. Some (load (s_size e) (mem m) (sym_addr m e))) [load_code e (reg_of d)]"
  by (auto simp: load_code_def sym_addr_def same_world_def intro!: transforms_I)

definition lea_code :: "symtable \<Rightarrow> int \<Rightarrow> instr" where
  "lea_code e r = (if is_global_class (s_class e) then LeaGlobal (sname e) r
                   else LeaLocal (s_posn e) r)"

lemma transforms_lea:
  assumes "is_local e \<longleftrightarrow> \<not> is_global_class (s_class e)"
  shows "transforms d (\<lambda>m. Some (sym_addr m e)) [lea_code e (reg_of d)]"
  using assms by (auto simp: lea_code_def sym_addr_def same_world_def intro!: transforms_I)

lemma transforms_imm: "transforms d (\<lambda>m. Some (word_of_int v)) [MovImm v (reg_of d)]"
  by (auto simp: same_world_def intro!: transforms_I)

lemma transforms_deref:
  "transforms d (\<lambda>m. Some (load sz (mem m) (regs m (reg_of d)))) [LoadDeref sz (reg_of d)]"
  by (auto simp: same_world_def intro!: transforms_I)

lemma transforms_sal:
  "transforms d (\<lambda>m. Some (regs m (reg_of d) * 2 ^ nat k)) [SalQ k (reg_of d)]"
  by (auto simp: same_world_def push_bit_eq_mult intro!: transforms_I)

section \<open>Expressions\<close>

definition gen_correct ::
  "nat \<Rightarrow> (mach \<Rightarrow> 64 word option) \<Rightarrow> compiler \<Rightarrow> cerr + (int \<times> compiler) \<Rightarrow> bool"
where
  "gen_correct d v s res \<longleftrightarrow>
     (\<exists>code l. res = Inr (reg_of d, out code (at_depth (Suc d) (s\<lparr>Line := l\<rparr>)))
        \<and> (\<forall>m. computes d (v m) code m))"

lemma gen_correctI:
  "res = Inr (reg_of d, out code (at_depth (Suc d) (s\<lparr>Line := l\<rparr>))) \<Longrightarrow>
   (\<And>m. computes d (v m) code m) \<Longrightarrow> gen_correct d v s res"
  unfolding gen_correct_def by blast

lemma sym_addr_same [simp]: "same_world m m' \<Longrightarrow> sym_addr m' e = sym_addr m e"
  by (simp add: same_world_def sym_addr_def)

lemma mem_same: "same_world m m' \<Longrightarrow> mem m' = mem m"
  by (simp add: same_world_def)

lemma eval_cong: "same_world m m' \<Longrightarrow> eval h m' n = eval h m n"
  by (induction n) (simp_all add: mem_same split: option.split)

lemma update_line_run: "\<exists>l. update_line n s = Inr ((), s\<lparr>Line := l\<rparr>)"
  by (intro exI[of _ "if linenum n \<noteq> 0 \<and> Line s \<noteq> linenum n then linenum n else Line s"])
     (simp add: update_line_def cglinenum_def)

definition control_op :: "astop \<Rightarrow> bool" where
  "control_op q \<longleftrightarrow> q \<in> {A_IF, A_WHILE, A_SWITCH, A_FUNCCALL, A_TERNARY, A_LOGOR, A_LOGAND,
     A_GLUE, A_FUNCTION}"

text \<open>The two sub-trees of an operation that is not a control structure, and the operation.\<close>

definition gen_operands ::
  "gen \<Rightarrow> ast \<Rightarrow> int \<Rightarrow> int \<Rightarrow> int \<Rightarrow> astop option \<Rightarrow> int gcomp"
where
  "gen_operands g n a b c p =
     bnd (if left n \<noteq> Null then g (left n) NOLABEL NOLABEL NOLABEL (Some (op n)) else ret NOREG)
       (\<lambda>lr. bnd (if right n \<noteq> Null then g (right n) NOLABEL NOLABEL NOLABEL (Some (op n))
                 else ret NOREG)
         (\<lambda>rr. gen_op n lr rr a b c p))"

lemma genAST_operation:
  assumes "n \<noteq> Null" "\<not> control_op (op n)"
  shows "\<exists>l. genAST_body g n a b c p s =
     gen_operands g n a b c p (s\<lparr>Line := l\<rparr>)"
proof -
  obtain l where "update_line n s = Inr ((), s\<lparr>Line := l\<rparr>)"
    using update_line_run by blast
  then show ?thesis using assms by (intro exI[of _ l]) (simp add: genAST_body_def control_op_def gen_operands_def)
qed

lemma not_control:
  "bin_fun q = Some f \<Longrightarrow> \<not> control_op q" "un_fun q = Some g \<Longrightarrow> \<not> control_op q"
  by (auto simp: control_op_def elim: bin_fun_cases un_fun_cases)

lemma gen_correct_leaf:
  assumes "left n = Null" "right n = Null" "n \<noteq> Null" "\<not> control_op (op n)"
    and "\<And>s. regs_at d s \<Longrightarrow> Heap s = h \<Longrightarrow> gen_op n NOREG NOREG a b c p s =
           Inr (reg_of d, out (push_code d @ code) (at_depth (Suc d) s))"
    and "transforms d (\<lambda>m. Some (v m)) code" "\<And>m m'. same_world m m' \<Longrightarrow> v m' = v m"
    and "regs_at d s" "Heap s = h"
  shows "gen_correct d (\<lambda>m. Some (v m)) s (genAST_body g n a b c p s)"
proof -
  obtain l where l: "genAST_body g n a b c p s = gen_op n NOREG NOREG a b c p (s\<lparr>Line := l\<rparr>)"
    using genAST_operation[OF assms(3,4), of g a b c p s] assms(1,2) by (auto simp: gen_operands_def bnd_def)
  moreover have "computes d (Some (v m)) (push_code d @ code) m" for m
    using computes_fresh[OF assms(6)] assms(7) by simp
  ultimately show ?thesis
    using assms(5)[of "s\<lparr>Line := l\<rparr>"] assms(8,9) by (auto simp: gen_correct_def)
qed

lemma gen_correct_unary:
  assumes l: "gen_correct d v (s\<lparr>Line := l\<rparr>) (g (left n) NOLABEL NOLABEL NOLABEL (Some (op n)) (s\<lparr>Line := l\<rparr>))"
    and n: "left n \<noteq> Null" "right n = Null" 
    and ops: "\<And>s'. regs_at (Suc d) s' \<Longrightarrow> gen_op n (reg_of d) NOREG a b c p s' =
           Inr (reg_of d, out ops s')"
    and t: "transforms d f ops" "\<And>m m'. same_world m m' \<Longrightarrow> f m' = f' m (regs m' (reg_of d))"
  shows "gen_correct d (\<lambda>m. case v m of None \<Rightarrow> None | Some w \<Rightarrow> f' m w) s
     (gen_operands g n a b c p (s\<lparr>Line := l\<rparr>))"
proof -
  from l obtain code l' where c:
    "g (left n) NOLABEL NOLABEL NOLABEL (Some (op n)) (s\<lparr>Line := l\<rparr>)
       = Inr (reg_of d, out code (at_depth (Suc d) (s\<lparr>Line := l'\<rparr>)))"
    "\<And>m. computes d (v m) code m"
    by (auto simp: gen_correct_def)
  have "computes d (case v m of None \<Rightarrow> None | Some w \<Rightarrow> f' m w) (code @ ops) m" for m
    by (rule computes_unary[OF c(2) t(1), of m]) (auto simp: t(2))
  then show ?thesis using n c(1) ops by (auto simp: gen_correct_def gen_operands_def bnd_def)
qed

lemma gen_correct_binary:
  assumes n: "left n \<noteq> Null" "right n \<noteq> Null" "bin_fun (op n) = Some f"
    and l: "gen_correct d va (s\<lparr>Line := l\<rparr>) (g (left n) NOLABEL NOLABEL NOLABEL (Some (op n)) (s\<lparr>Line := l\<rparr>))"
    and r: "\<And>s'. regs_at (Suc d) s' \<Longrightarrow> Heap s' = Heap s \<Longrightarrow>
        gen_correct (Suc d) vb s' (g (right n) NOLABEL NOLABEL NOLABEL (Some (op n)) s')"
    and vb: "\<And>m m'. same_world m m' \<Longrightarrow> vb m' = vb m"
  shows "gen_correct d (\<lambda>m. both f (va m) (vb m)) s
     (gen_operands g n a b c p (s\<lparr>Line := l\<rparr>))"
proof -
  from l obtain ca l1 where ca:
    "g (left n) NOLABEL NOLABEL NOLABEL (Some (op n)) (s\<lparr>Line := l\<rparr>)
       = Inr (reg_of d, out ca (at_depth (Suc d) (s\<lparr>Line := l1\<rparr>)))"
    "\<And>m. computes d (va m) ca m"
    by (auto simp: gen_correct_def)
  define s1 where "s1 = out ca (at_depth (Suc d) (s\<lparr>Line := l1\<rparr>))"
  have "gen_correct (Suc d) vb s1 (g (right n) NOLABEL NOLABEL NOLABEL (Some (op n)) s1)"
    by (rule r) (simp_all add: s1_def)
  then obtain cb l2 where cb:
    "g (right n) NOLABEL NOLABEL NOLABEL (Some (op n)) s1
       = Inr (reg_of (Suc d), out cb (at_depth (Suc (Suc d)) (s1\<lparr>Line := l2\<rparr>)))"
    "\<And>m. computes (Suc d) (vb m) cb m"
    by (auto simp: gen_correct_def)
  have "computes d (both f (va m) (vb m))
      (ca @ cb @ binop_code (op n) (reg_of d) (reg_of (Suc d)) @ pop_code (Suc d)) m" for m
    by (rule computes_binary[OF ca(2) _ transforms_binop[OF n(3)]]) (metis cb(2) vb)
  then show ?thesis
    using n(1,2) ca(1) cb(1) gen_binop[OF n(3)]
    by (auto simp: gen_correct_def gen_operands_def bnd_def s1_def)
qed

lemma gen_correct_scale:
  assumes l: "gen_correct d va (s\<lparr>Line := l\<rparr>) (g (left n) NOLABEL NOLABEL NOLABEL (Some (op n)) (s\<lparr>Line := l\<rparr>))"
    and n: "left n \<noteq> Null" "right n = Null" "op n = A_SCALE"
  shows "gen_correct d (\<lambda>m. map_option (\<lambda>a. a * word_of_int (a_intvalue n)) (va m)) s
     (gen_operands g n a b c p (s\<lparr>Line := l\<rparr>))"
proof -
  from l obtain ca l1 where ca:
    "g (left n) NOLABEL NOLABEL NOLABEL (Some (op n)) (s\<lparr>Line := l\<rparr>)
       = Inr (reg_of d, out ca (at_depth (Suc d) (s\<lparr>Line := l1\<rparr>)))"
    "\<And>m. computes d (va m) ca m"
    by (auto simp: gen_correct_def)
  let ?v = "a_intvalue n"
  have sal: ?thesis if "k \<in> {1, 2, 3}" "?v = 2 ^ nat k" "gen_scale n = (\<lambda>r. cgshlconst r k)" for k
  proof -
    have "computes d (case va m of None \<Rightarrow> None | Some w \<Rightarrow> Some (w * 2 ^ nat k))
        (ca @ [SalQ k (reg_of d)]) m" for m
      by (rule computes_unary[OF ca(2) transforms_sal, where ?m0.0 = m]) auto
    then have c: "computes d (map_option (\<lambda>a. a * word_of_int ?v) (va m)) (ca @ [SalQ k (reg_of d)]) m" for m
      by (simp add: that(2) map_option_case)
    show ?thesis
      by (rule gen_correctI[OF _ c])
         (use n ca(1) that in \<open>simp add: gen_operands_def gen_op_def cgshlconst_def bnd_def thn_def\<close>)
  qed
  show ?thesis
  proof (cases "?v = 2 \<or> ?v = 4 \<or> ?v = 8")
    case True
    then show ?thesis
      by (elim disjE) (rule sal[of 1] sal[of 2] sal[of 3]; simp add: gen_scale_def fun_eq_iff)+
  next
    case False
    have b: "computes (Suc d) (Some (word_of_int ?v)) (push_code (Suc d) @ [MovImm ?v (reg_of (Suc d))]) m" for m
      by (rule computes_fresh[OF transforms_imm]) auto
    have "computes d (both (\<lambda>x y. Some (x * y)) (va m) (Some (word_of_int ?v)))
      (ca @ (push_code (Suc d) @ [MovImm ?v (reg_of (Suc d))])
        @ [Bin IMULQ (reg_of (Suc d)) (reg_of d)] @ pop_code (Suc d)) m" for m
      by (rule computes_binary[OF ca(2) b transforms_bin[of d IMULQ, unfolded bin_val.simps]])
    note c' = this
    have c: "computes d (map_option (\<lambda>a. a * word_of_int ?v) (va m))
      (ca @ (push_code (Suc d) @ [MovImm ?v (reg_of (Suc d))])
        @ [Bin IMULQ (reg_of (Suc d)) (reg_of d)] @ pop_code (Suc d)) m" for m
      using c'[of m] by (cases "va m") simp_all
    have f: "cgfreereg (reg_of (Suc d)) (out c' (at_depth (Suc (Suc d)) s'))
        = Inr ((), out (c' @ pop_code (Suc d)) (at_depth (Suc d) s'))" for c' s'
      using free_at_reg[of "Suc d" "out c' (at_depth (Suc (Suc d)) s')"] by simp
    note al = alloc_at[of "Suc d" "out ca (at_depth (Suc d) (s\<lparr>Line := l1\<rparr>))", simplified]
    show ?thesis
      by (rule gen_correctI[OF _ c])
         (use n ca(1) False in \<open>simp add: gen_operands_def gen_op_def gen_scale_def cgloadint_def cgmul_def
            cgbin_def al f bnd_def thn_def\<close>)
  qed
qed

lemma gen_expr_correct:
  assumes "expr_ok (Heap s) n" "regs_at d s" "size n < k"
  shows "gen_correct d (\<lambda>m. eval (Heap s) m n) s (genAST_f k n a b c p s)"
  using assms
proof (induction n arbitrary: k d s a b c p)
  case Null
  then show ?case by simp
next
  case (Node q t ct rv l md r sy v lno)
  let ?n = "Node q t ct rv l md r sy v lno"
  from Node.prems(3) obtain k' where k: "k = Suc k'" "size l < k'" "size r < k'"
    by (cases k) auto
  let ?g = "genAST_f k'" and ?compiled = "genAST_body (genAST_f k') ?n a b c p s"
  note ok = Node.prems(1) and regs = Node.prems(2)
  have IHl: "gen_correct d' (\<lambda>m. eval (Heap s') m l) s' (?g l a b c p s')"
    if "expr_ok (Heap s') l" "regs_at d' s'" for d' s' a b c p
    using Node.IH(1) that k by blast
  have IHr: "gen_correct d' (\<lambda>m. eval (Heap s') m r) s' (?g r a b c p s')"
    if "expr_ok (Heap s') r" "regs_at d' s'" for d' s' a b c p
    using Node.IH(3) that k by blast
  have IHr': "gen_correct d' (\<lambda>m. eval (Heap s) m r) s' (?g r a b c p s')"
    if "expr_ok (Heap s) r" "regs_at d' s'" "Heap s' = Heap s" for d' s' a b c p
    using IHr[of s' d' a b c p] that by simp
  note op = genAST_operation[of ?n ?g a b c p s]
  consider "q = A_INTLIT" | "q = A_IDENT" | "q = A_ADDR" | "q = A_DEREF" | "q = A_SCALE"
    | f where "un_fun q = Some f" | f where "bin_fun q = Some f" "un_fun q = None"
    using ok by (cases "un_fun q") (auto split: if_splits)
  then show ?case
  proof cases
    case 1
    have "gen_correct d (\<lambda>m. Some (word_of_int v)) s (genAST_body ?g ?n a b c p s)"
      by (rule gen_correct_leaf[where code = "[MovImm v (reg_of d)]" and h = "Heap s"])
         (use ok regs 1 in \<open>simp_all add: control_op_def gen_op_def cgloadint_def alloc_at
             thn_def bnd_def transforms_imm\<close>)
    then show ?thesis using 1 k by simp
  next
    case 2
    then obtain x where x: "sy = Some x" "x < length (Heap s)" "rv"
        "s_size (Heap s ! x) = 1 \<or> s_size (Heap s ! x) = 4 \<or> s_size (Heap s ! x) = 8"
        "ptrtype (s_type (Heap s ! x)) \<longrightarrow> psize (s_type (Heap s ! x) - 1) \<noteq> 0"
      using ok by (auto simp: var_ok_def sym_ok_def Let_def split: option.splits)
    let ?e = "Heap s ! x"
    have "gen_correct d (\<lambda>m. Some (load (s_size ?e) (mem m) (sym_addr m ?e))) s
            (genAST_body ?g ?n a b c p s)"
      by (rule gen_correct_leaf[where code = "[load_code ?e (reg_of d)]" and h = "Heap s"])
         (use ok regs 2 x in \<open>simp_all add: control_op_def gen_op_def deref_opt_def deref_def
             cgloadvar_at transforms_load mem_same\<close>)
    then show ?thesis using 2 k x(1) by simp
  next
    case 3
    then obtain x where x: "sy = Some x" "x < length (Heap s)"
        "is_local (Heap s ! x) \<longleftrightarrow> \<not> is_global_class (s_class (Heap s ! x))"
      using ok by (auto simp: sym_ok_def split: option.splits)
    let ?e = "Heap s ! x"
    have "gen_correct d (\<lambda>m. Some (sym_addr m ?e)) s (genAST_body ?g ?n a b c p s)"
      by (rule gen_correct_leaf[where code = "[lea_code ?e (reg_of d)]" and h = "Heap s"])
         (use ok regs 3 x in \<open>simp_all add: control_op_def gen_op_def deref_opt_def deref_def
             cgaddress_def alloc_at thn_def bnd_def lea_code_def transforms_lea[unfolded lea_code_def]\<close>)
    then show ?thesis using 3 k x(1) by simp
  next
    case 4
    then obtain ln where ln: "?compiled = gen_operands ?g ?n a b c p (s\<lparr>Line := ln\<rparr>)"
      using op by (auto simp: control_op_def)
    have t: "rv" "r = Null" "ptrtype (ntype l)" "psize (ntype l - 1) \<noteq> 0" "expr_ok (Heap s) l" "l \<noteq> Null"
      using ok 4 by auto
    have "gen_correct d (\<lambda>m. case eval (Heap s) m l of None \<Rightarrow> None
              | Some w \<Rightarrow> Some (load (psize (ntype l - 1)) (mem m) w)) s ?compiled"
      unfolding ln
      by (rule gen_correct_unary[where ops = "[LoadDeref (psize (ntype l - 1)) (reg_of d)]"
              and f = "\<lambda>m. Some (load (psize (ntype l - 1)) (mem m) (regs m (reg_of d)))"])
         (use IHl[of "s\<lparr>Line := ln\<rparr>" d] t regs 4 psize_cases[of "ntype l - 1"] in
            \<open>auto simp: gen_op_def cgderef_def value_at_def ptrtype_def cgprimsize_psize
              bnd_def thn_def transforms_deref same_world_def\<close>)
    then show ?thesis using 4 k by (simp add: map_option_case)
  next
    case 5
    then obtain ln where ln: "?compiled = gen_operands ?g ?n a b c p (s\<lparr>Line := ln\<rparr>)"
      using op by (auto simp: control_op_def)
    have t: "r = Null" "expr_ok (Heap s) l" "l \<noteq> Null"
      using ok 5 by auto
    have "gen_correct d (\<lambda>m. map_option (\<lambda>a. a * word_of_int (a_intvalue ?n)) (eval (Heap s) m l)) s
            ?compiled"
      unfolding ln
      by (rule gen_correct_scale) (use IHl[of "s\<lparr>Line := ln\<rparr>" d] t regs 5 in auto)
    then show ?thesis using 5 k by simp
  next
    case 6
    then obtain ln where ln: "?compiled = gen_operands ?g ?n a b c p (s\<lparr>Line := ln\<rparr>)"
      using op not_control(2)[of q f] by auto
    have q: "q \<noteq> A_INTLIT \<and> q \<noteq> A_IDENT \<and> q \<noteq> A_ADDR \<and> q \<noteq> A_DEREF \<and> q \<noteq> A_SCALE"
      using 6 by (rule un_fun_cases) simp_all
    then have t: "r = Null" "expr_ok (Heap s) l" "l \<noteq> Null"
      using ok 6 by auto
    have "gen_correct d (\<lambda>m. case eval (Heap s) m l of None \<Rightarrow> None | Some w \<Rightarrow> Some (f w)) s
            ?compiled"
      unfolding ln
      by (rule gen_correct_unary[where ops = "unop_code q (reg_of d)"
              and f = "\<lambda>m. Some (f (regs m (reg_of d)))"])
         (use IHl[of "s\<lparr>Line := ln\<rparr>" d] t regs 6 gen_unop[of ?n f] in
            \<open>auto simp: transforms_unop\<close>)
    then show ?thesis using 6 k q by (simp add: map_option_case)
  next
    case 7
    then obtain ln where ln: "?compiled = gen_operands ?g ?n a b c p (s\<lparr>Line := ln\<rparr>)"
      using op not_control(1)[of q f] by auto
    have q: "q \<noteq> A_INTLIT \<and> q \<noteq> A_IDENT \<and> q \<noteq> A_ADDR \<and> q \<noteq> A_DEREF \<and> q \<noteq> A_SCALE"
      using 7(1) by (rule bin_fun_cases) simp_all
    then have t: "expr_ok (Heap s) r" "r \<noteq> Null" "expr_ok (Heap s) l" "l \<noteq> Null"
      using ok 7 by auto
    have "gen_correct d (\<lambda>m. both f (eval (Heap s) m l) (eval (Heap s) m r)) s ?compiled"
      unfolding ln
      by (rule gen_correct_binary[where f = f])
         (use IHl[of "s\<lparr>Line := ln\<rparr>" d] IHr' t regs 7 in \<open>auto simp: eval_cong\<close>)
    then show ?thesis using 7 k q by simp
  qed
qed

section \<open>The result\<close>


definition int_lit :: "int \<Rightarrow> ast" where
  "int_lit v = mkastleaf A_INTLIT P_INT None None v"

definition bin_tree :: "astop \<Rightarrow> ast \<Rightarrow> ast \<Rightarrow> ast" where
  "bin_tree q l r = mkastnode q P_INT None l Null r None 0"

text \<open>Six values nested to the right need six registers: two of them are spilled.\<close>

definition deep_tree :: ast where
  "deep_tree =
     bin_tree A_SUBTRACT (int_lit 100) (bin_tree A_MULTIPLY (int_lit 2) (bin_tree A_ADD (int_lit 3)
       (bin_tree A_DIVIDE (int_lit 40) (bin_tree A_SUBTRACT (int_lit 9) (int_lit 1)))))"

lemma deep_tree_ok: "expr_ok (Heap ready_state) deep_tree" "regs_at 0 ready_state"
  by (simp_all add: deep_tree_def bin_tree_def int_lit_def ready_state_def init_state_def regs_at_def free_at_def
      un_fun_def bin_fun_def)


end
