(* ===== verification/Layout.thy ===== *)
theory Layout
  imports Decl Init
begin

text \<open>
  Where variables and members live: the frame that \<^verbatim>\<open>cgfuncpreamble\<close> lays out for a function,
  \<^verbatim>\<open>cgalign\<close>, and the positions that \<^verbatim>\<open>composite_declaration\<close> gives the members of a struct.
\<close>

section \<open>Alignment\<close>

lemma and_not_mask: "(x::int) AND NOT (mask n) = x - x mod 2 ^ n"
proof -
  have "(x::int) AND NOT (mask n) = push_bit n (drop_bit n x)"
    by (rule bit_eqI) (auto simp: bit_simps)
  also have "\<dots> = x div 2 ^ n * 2 ^ n" by (simp add: push_bit_eq_mult drop_bit_eq_div)
  finally show ?thesis by (simp add: minus_mod_eq_div_mult)
qed

lemma and_minus_4: "(x::int) AND - 4 = x - x mod 4"
  using and_not_mask[of x 2] by (simp add: mask_eq_exp_minus_1)

lemma and_minus_16: "(x::int) AND - 16 = x - x mod 16"
  using and_not_mask[of x 4] by (simp add: mask_eq_exp_minus_1)

lemma cgalign_up: "type \<noteq> P_CHAR \<Longrightarrow> cgalign type offset 1 = (offset + 3) - (offset + 3) mod 4"
  by (simp add: cgalign_def and_minus_4)

text \<open>
  Aligning upwards, \<^verbatim>\<open>cgalign\<close> gives the least multiple of four that is not below the
  offset, and leaves the offset of a character as it is.
\<close>

theorem cgalign_least:
  "cgalign P_CHAR offset 1 = offset
   \<and> (type \<noteq> P_CHAR \<longrightarrow>
       4 dvd cgalign type offset 1 \<and> offset \<le> cgalign type offset 1
       \<and> (\<forall>k. 4 dvd k \<longrightarrow> offset \<le> k \<longrightarrow> cgalign type offset 1 \<le> k))"
proof -
  let ?x = "offset + 3"
  have 1: "?x - ?x mod 4 = 4 * (?x div 4)" by (simp add: minus_mod_eq_mult_div)
  have 2: "offset \<le> ?x - ?x mod 4" using pos_mod_bound[of 4 ?x] by simp
  have 3: "?x - ?x mod 4 \<le> k" if k: "4 dvd k" "offset \<le> k" for k
  proof -
    from k(1) obtain j where j: "k = 4 * j" ..
    have "?x div 4 \<le> (4 * j + 3) div 4" using k(2) j by (intro zdiv_mono1) simp_all
    then show ?thesis using 1 j by simp
  qed
  have "4 dvd ?x - ?x mod 4" unfolding 1 by simp
  note d = this
  have c: "cgalign P_CHAR offset 1 = offset" by (simp add: cgalign_def)
  show ?thesis
  proof (intro conjI impI allI)
    show "cgalign P_CHAR offset 1 = offset" by (rule c)
  next
    assume "type \<noteq> P_CHAR"
    then have u: "cgalign type offset 1 = ?x - ?x mod 4" by (rule cgalign_up)
    show "4 dvd cgalign type offset 1" unfolding u by (rule d)
    show "offset \<le> cgalign type offset 1" unfolding u by (rule 2)
    show "cgalign type offset 1 \<le> k" if "4 dvd k" "offset \<le> k" for k
      unfolding u using that by (rule 3)
  qed
qed

theorem cgalign_least_witness:
  "4 dvd cgalign P_INT 5 1 \<and> 5 \<le> cgalign P_INT 5 1 \<and> cgalign P_INT 5 1 \<le> 8"
  using cgalign_least[of 5 P_INT] by simp

section \<open>The frame of a function\<close>

definition apart :: "symtable list \<Rightarrow> ptr \<Rightarrow> ptr \<Rightarrow> bool" where
  "apart h p q \<longleftrightarrow>
     s_posn (h ! p) + s_size (h ! p) \<le> s_posn (h ! q)
     \<or> s_posn (h ! q) + s_size (h ! q) \<le> s_posn (h ! p)"

text \<open>The variables \<open>A\<close> have their own bytes between the base pointer and \<open>off\<close> below it.\<close>

definition frame_ok :: "symtable list \<Rightarrow> int \<Rightarrow> ptr set \<Rightarrow> bool" where
  "frame_ok h off A \<longleftrightarrow>
     (\<forall>p\<in>A. p < length h \<and> - off \<le> s_posn (h ! p) \<and> s_posn (h ! p) + s_size (h ! p) \<le> 0)
     \<and> (\<forall>p\<in>A. \<forall>q\<in>A. p \<noteq> q \<longrightarrow> apart h p q)"

lemma upd_sym_simps [simp]:
  "Heap (upd_sym p f s) = (Heap s)[p := f (Heap s ! p)]"
  "Glob (upd_sym p f s) = Glob s" "Locl (upd_sym p f s) = Locl s" "Parm (upd_sym p f s) = Parm s"
  "Memb (upd_sym p f s) = Memb s" "Structs (upd_sym p f s) = Structs s"
  "Unions (upd_sym p f s) = Unions s" "Enums (upd_sym p f s) = Enums s"
  "Typedefs (upd_sym p f s) = Typedefs s" "Functionid (upd_sym p f s) = Functionid s"
  by (simp_all add: upd_sym_def)

lemma upd_sym_compiler [simp]:
  "localOffset (upd_sym p f s) = localOffset s" "stackOffset (upd_sym p f s) = stackOffset s"
  "labelid (upd_sym p f s) = labelid s" "Outfile (upd_sym p f s) = Outfile s"
  by (simp_all add: upd_sym_def)

definition slot :: "int \<Rightarrow> int" where
  "slot sz = (if sz > 4 then sz else 4)"

lemma frame_ok_add:
  assumes "frame_ok h off A" "p < length h" "p \<notin> A" "0 \<le> off"
  shows "frame_ok (h[p := (h ! p)\<lparr>s_posn := - (off + slot (s_size (h ! p)))\<rparr>])
           (off + slot (s_size (h ! p))) (insert p A)"
proof -
  have "q \<noteq> p \<and> p \<noteq> q" if "q \<in> A" for q using that assms(3) by auto
  then show ?thesis
    using assms by (auto simp: frame_ok_def apart_def slot_def)
qed

lemma newlocaloffset_run:
  "newlocaloffset sz s = Inr (- (localOffset s + slot sz), s\<lparr>localOffset := localOffset s + slot sz\<rparr>)"
  by (simp add: newlocaloffset_def slot_def)

lemma cgfunc_locals_frame:
  assumes "cgfunc_locals ps s = Inr ((), s')" "frame_ok (Heap s) (localOffset s) A"
    and "distinct ps" "set ps \<inter> A = {}" "0 \<le> localOffset s"
  shows "frame_ok (Heap s') (localOffset s') (A \<union> set ps) \<and> 0 \<le> localOffset s'
     \<and> Locl s' = Locl s"
  using assms
proof (induction ps arbitrary: s A)
  case Nil
  then show ?case by simp
next
  case (Cons p ps)
  then have p: "p < length (Heap s)"
    by (auto simp: deref_def split: if_splits)
  define s1 where "s1 = set_posn p (- (localOffset s + slot (s_size (Heap s ! p))))
     (s\<lparr>localOffset := localOffset s + slot (s_size (Heap s ! p))\<rparr>)"
  have r: "cgfunc_locals ps s1 = Inr ((), s')"
    using Cons.prems(1) p by (simp add: deref_def newlocaloffset_run s1_def bnd_def)
  have f: "frame_ok (Heap s1) (localOffset s1) (insert p A)"
    using frame_ok_add[OF Cons.prems(2) p] Cons.prems(4,5) by (simp add: s1_def set_posn_def)
  have "0 \<le> localOffset s1" using Cons.prems(5) by (simp add: s1_def set_posn_def slot_def)
  with Cons.IH[OF r f] Cons.prems show ?case
    by (simp add: s1_def set_posn_def insert_commute Un_insert_right)
qed

lemma emit_frame:
  assumes "emit i s = Inr (x, s')"
  shows "s' = s\<lparr>Outfile := Outfile s @ [i]\<rparr>"
  using assms by (auto simp: emit_def split: if_splits)

lemma store_size_run: "store_size who type s = Inr (x, s') \<Longrightarrow> s' = s"
  by (auto simp: store_size_def cgprimsize_def fatald_def die_def bnd_eq_Inr split: if_splits)

lemma cgstorlocal_run:
  assumes "cgstorlocal r e s = Inr (x, s')"
  shows "Heap s' = Heap s \<and> localOffset s' = localOffset s \<and> Locl s' = Locl s"
  using assms
  by (auto simp: cgstorlocal_def bnd_eq_Inr thn_eq_Inr dest!: emit_frame store_size_run)

lemma cgfunc_params_frame:
  assumes "cgfunc_params ps cnt po pr s = Inr ((), s')" "frame_ok (Heap s) (localOffset s) A"
    and "distinct ps" "set ps \<inter> A = {}" "0 \<le> localOffset s" "1 \<le> cnt"
  shows "frame_ok (Heap s') (localOffset s') (A \<union> set (take (nat (7 - cnt)) ps))
     \<and> 0 \<le> localOffset s' \<and> Locl s' = Locl s \<and> length (Heap s') = length (Heap s)"
  using assms
proof (induction ps arbitrary: s A cnt po pr)
  case Nil
  then show ?case by simp
next
  case (Cons p ps)
  show ?case
  proof (cases "cnt > 6")
    case True
    have A: "frame_ok (Heap (set_posn p po s)) (localOffset (set_posn p po s)) A"
    proof -
      have "q \<noteq> p \<and> p \<noteq> q" if "q \<in> A" for q using that Cons.prems(4) by auto
      then show ?thesis using Cons.prems(2) by (simp add: set_posn_def frame_ok_def apart_def)
    qed
    have r: "cgfunc_params ps (cnt + 1) (po + 8) pr (set_posn p po s) = Inr ((), s')"
      using Cons.prems(1) True by simp
    from Cons.IH[OF r A] Cons.prems True show ?thesis
      by (simp add: set_posn_def)
  next
    case False
    with Cons.prems(1) have p: "p < length (Heap s)"
      by (auto simp: deref_def split: if_splits)
    define s1 where "s1 = set_posn p (- (localOffset s + slot (s_size (Heap s ! p))))
       (s\<lparr>localOffset := localOffset s + slot (s_size (Heap s ! p))\<rparr>)"
    obtain x s2 where st: "cgstorlocal pr (Heap s1 ! p) s1 = Inr (x, s2)"
      and r: "cgfunc_params ps (cnt + 1) po (pr - 1) s2 = Inr ((), s')"
      using Cons.prems(1) False p
      by (auto simp: deref_def newlocaloffset_run s1_def set_posn_def bnd_def thn_def
          split: sum.splits)
    have h: "Heap s2 = Heap s1" "localOffset s2 = localOffset s1" "Locl s2 = Locl s1"
      using cgstorlocal_run[OF st] by auto
    have f: "frame_ok (Heap s2) (localOffset s2) (insert p A)"
      using frame_ok_add[OF Cons.prems(2) p] Cons.prems(4,5)
      by (simp add: h s1_def set_posn_def)
    have o: "0 \<le> localOffset s2" "length (Heap s2) = length (Heap s)" "Locl s2 = Locl s"
      using Cons.prems(5) by (simp_all add: h s1_def set_posn_def slot_def)
    have t: "take (nat (7 - cnt)) (p # ps) = p # take (nat (7 - (cnt + 1))) ps"
    proof -
      have "nat (7 - cnt) = Suc (nat (7 - (cnt + 1)))" using False by simp
      then show ?thesis by simp
    qed
    from Cons.IH[OF r f _ _ o(1)] Cons.prems False o show ?thesis
      unfolding t by simp
  qed
qed

lemma frame_ok_mono: "frame_ok h off A \<Longrightarrow> off \<le> off' \<Longrightarrow> frame_ok h off' A"
  by (fastforce simp: frame_ok_def)

lemma emits_frame:
  assumes "emits is s = Inr (x, s')"
  shows "s' = s\<lparr>Outfile := Outfile s @ is\<rparr>"
  using assms
proof (induction "is" arbitrary: s)
  case (Cons i "is")
  then obtain s1 where "emit i s = Inr ((), s1)" "emits is s1 = Inr (x, s')"
    by (auto simp: thn_eq_Inr)
  with Cons.IH emit_frame show ?case by fastforce
qed simp

lemma same_seg: "currSeg s = g \<Longrightarrow> s\<lparr>currSeg := g\<rparr> = s" for s :: compiler
  by (cases s) simp


definition frame_entry :: "sclass \<Rightarrow> int \<Rightarrow> int \<Rightarrow> ptr list \<Rightarrow> symtable" where
  [model_defs]: "frame_entry class type sz members = \<lparr>s_name = Some ''f'', s_type = type, s_ctype = None,
     s_stype = (if members = [] then S_VARIABLE else S_FUNCTION), s_class = class, s_size = sz,
     s_nelems = 1, s_posn = 0, s_initlist = None, s_member = members\<rparr>"

definition frame_state :: compiler where
  [model_defs]: "frame_state = ready_state\<lparr>
     Heap := [frame_entry C_GLOBAL P_INT 0 [1, 2], frame_entry C_PARAM P_CHAR 1 [],
       frame_entry C_PARAM P_LONG 8 [], frame_entry C_LOCAL P_STRUCT 20 [],
       frame_entry C_LOCAL P_CHAR 1 []],
     Glob := [0], Locl := [3, 4]\<rparr>"


section \<open>The members of a struct\<close>

definition type_size :: "symtable list \<Rightarrow> symtable \<Rightarrow> int" where
  "type_size h e =
     (if s_type e = P_STRUCT \<or> s_type e = P_UNION then s_size (h ! the (s_ctype e))
      else if ptrtype (s_type e) then 8 else if s_type e = P_CHAR then 1
      else if s_type e = P_INT then 4 else if s_type e = P_LONG then 8 else 0)"

lemma typesize_run:
  "typesize (s_type e) (s_ctype e) s = Inr (x, s') \<Longrightarrow> s' = s \<and> x = type_size (Heap s) e"
  by (auto simp: typesize_def type_size_def deref_opt_def deref_def cgprimsize_def ptrtype_def
      fatald_def die_def split: if_splits option.splits)

lemma type_size_cong:
  assumes "\<And>p. s_size (h' ! p) = s_size (h ! p)" "s_type e' = s_type e" "s_ctype e' = s_ctype e"
  shows "type_size h' e' = type_size h e"
  by (simp add: type_size_def assms)

lemma set_posn_size: "s_size (Heap (set_posn m v s) ! p) = s_size (Heap s ! p)"
  by (cases "m < length (Heap s)"; cases "m = p")
     (simp_all add: set_posn_def list_update_beyond)

lemma type_size_set_posn [simp]: "type_size (Heap (set_posn m v s)) e = type_size (Heap s) e"
  by (rule type_size_cong) (simp_all add: set_posn_size)

lemma set_posn_other: "p \<noteq> m \<Longrightarrow> Heap (set_posn m v s) ! p = Heap s ! p"
  by (simp add: set_posn_def)

text \<open>One member, and the members after it.\<close>

lemma layout_members_Cons:
  assumes "layout_members type (m # ms) offset s = Inr (tot, s')"
  defines "v \<equiv> if type = P_STRUCT then cgalign (s_type (Heap s ! m)) offset 1 else 0"
  shows "m < length (Heap s) \<and>
    layout_members type ms (i32 (offset + type_size (Heap s) (Heap s ! m))) (set_posn m v s)
      = Inr (tot, s')"
proof -
  from assms(1) have m: "m < length (Heap s)"
    by (auto simp: deref_def split: if_splits)
  with assms(1) have "bnd (typesize (s_type (Heap s ! m)) (s_ctype (Heap s ! m)))
      (\<lambda>sz. layout_members type ms (i32 (offset + sz))) (set_posn m v s) = Inr (tot, s')"
    by (cases "type = P_STRUCT") (simp_all add: deref_def genalign_def v_def)
  then obtain sz s1 where
      t: "typesize (s_type (Heap s ! m)) (s_ctype (Heap s ! m)) (set_posn m v s) = Inr (sz, s1)"
    and r: "layout_members type ms (i32 (offset + sz)) s1 = Inr (tot, s')"
    by (auto simp: bnd_eq_Inr)
  from typesize_run[OF t] have "s1 = set_posn m v s" "sz = type_size (Heap s) (Heap s ! m)"
    by simp_all
  with m r show ?thesis by simp
qed

lemma layout_members_other:
  assumes "layout_members type ms offset s = Inr (tot, s')" "p \<notin> set ms"
  shows "Heap s' ! p = Heap s ! p"
  using assms
proof (induction ms arbitrary: offset s)
  case (Cons m ms)
  note r = layout_members_Cons[OF Cons.prems(1), THEN conjunct2]
  from Cons.IH[OF r] Cons.prems(2) show ?case by (simp add: set_posn_other)
qed simp

abbreviation (input) sizes :: "symtable list \<Rightarrow> ptr list \<Rightarrow> int" where
  "sizes h ms \<equiv> sum_list (map (\<lambda>m. type_size h (h ! m)) ms)"

lemma set_posn_sizes:
  assumes "m \<notin> set ms"
  shows "map (\<lambda>p. type_size (Heap (set_posn m v s)) (Heap (set_posn m v s) ! p)) ms
       = map (\<lambda>p. type_size (Heap s) (Heap s ! p)) ms"
proof (rule map_cong[OF refl])
  fix p assume "p \<in> set ms"
  with assms have "p \<noteq> m" by auto
  then show "type_size (Heap (set_posn m v s)) (Heap (set_posn m v s) ! p) = type_size (Heap s) (Heap s ! p)"
    by (simp add: set_posn_other)
qed

text \<open>
  C40: In a struct without \<^verbatim>\<open>char\<close> members, whose sizes are multiples of four and whose total
  fits an \<^verbatim>\<open>int\<close>, \<^verbatim>\<open>composite_declaration\<close> places every member right behind the one before:
  its position is the offset plus the sizes of the members before it, so no two members
  overlap, and the size of the struct is the sum of all.
\<close>

theorem struct_members_packed:
  assumes "layout_members P_STRUCT ms offset s = Inr (tot, s')"
    and "distinct ms" "4 dvd offset" "0 \<le> offset"
    and "\<forall>m\<in>set ms. s_type (Heap s ! m) \<noteq> P_CHAR \<and> 4 dvd type_size (Heap s) (Heap s ! m)
           \<and> 0 \<le> type_size (Heap s) (Heap s ! m)"
    and "offset + sizes (Heap s) ms \<le> 2147483647"
  shows "(\<forall>i<length ms. s_posn (Heap s' ! (ms ! i)) = offset + sizes (Heap s) (take i ms))
     \<and> tot = offset + sizes (Heap s) ms"
  using assms
proof (induction ms arbitrary: offset s)
  case Nil
  then show ?case by simp
next
  case (Cons m ms)
  define sz where "sz = type_size (Heap s) (Heap s ! m)"
  have al: "cgalign (s_type (Heap s ! m)) offset 1 = offset"
  proof -
    have "(offset + 3) mod 4 = 3" using Cons.prems(3) by presburger
    then show ?thesis using Cons.prems(5) by (simp add: cgalign_up)
  qed
  have nn: "0 \<le> sizes (Heap s) ms" using Cons.prems(5) by (intro sum_list_nonneg) auto
  have "in_i32 (offset + sz)"
    using Cons.prems(4,5,6) nn by (simp add: in_i32_def sz_def)
  then have m: "m < length (Heap s)"
    and r: "layout_members P_STRUCT ms (offset + sz) (set_posn m offset s) = Inr (tot, s')"
    using layout_members_Cons[OF Cons.prems(1)] al by (simp_all add: sz_def)
  have eq: "type_size (Heap (set_posn m offset s)) (Heap (set_posn m offset s) ! p)
        = type_size (Heap s) (Heap s ! p)" "s_type (Heap (set_posn m offset s) ! p) = s_type (Heap s ! p)"
    if "p \<in> set ms" for p
  proof -
    from that Cons.prems(2) have "p \<noteq> m" by auto
    then show "type_size (Heap (set_posn m offset s)) (Heap (set_posn m offset s) ! p)
        = type_size (Heap s) (Heap s ! p)" "s_type (Heap (set_posn m offset s) ! p) = s_type (Heap s ! p)"
      by (simp_all add: set_posn_other)
  qed
  have IH: "(\<forall>i<length ms. s_posn (Heap s' ! (ms ! i)) = offset + sz + sizes (Heap s) (take i ms))
     \<and> tot = offset + sz + sizes (Heap s) ms"
  proof -
    have "m \<notin> set (take i ms)" for i using Cons.prems(2) by (auto dest: in_set_takeD)
    then have t: "sizes (Heap (set_posn m offset s)) (take i ms) = sizes (Heap s) (take i ms)" for i
      by (intro arg_cong[of _ _ sum_list] set_posn_sizes) simp
    from t[of "length ms"] have t': "sizes (Heap (set_posn m offset s)) ms = sizes (Heap s) ms" by simp
    have "4 dvd offset + sz" "0 \<le> offset + sz"
      using Cons.prems(3,4,5) by (simp_all add: sz_def)
    moreover have "offset + sz + sizes (Heap s) ms \<le> 2147483647"
      using Cons.prems(6) by (simp add: sz_def)
    ultimately show ?thesis
      using Cons.IH[OF r] Cons.prems(2,5) eq t t' by simp
  qed
  have "s_posn (Heap s' ! m) = offset"
    using layout_members_other[OF r, of m] Cons.prems(2) m by (simp add: set_posn_def)
  with IH show ?case
    by (auto simp: nth_Cons sz_def split: nat.splits)
qed

text \<open>The members \<^verbatim>\<open>int a; long b; int c;\<close>, and \<^verbatim>\<open>char a; int b; char c;\<close>.\<close>

definition variable :: "string \<Rightarrow> int \<Rightarrow> sclass \<Rightarrow> int \<Rightarrow> symtable" where
  [model_defs]: "variable name type class size' = \<lparr>s_name = Some name, s_type = type, s_ctype = None,
     s_stype = S_VARIABLE, s_class = class, s_size = size', s_nelems = 1, s_posn = 0,
     s_initlist = None, s_member = []\<rparr>"

definition plain_struct :: compiler where
  "plain_struct = ready_state\<lparr>Heap := [variable ''a'' P_INT C_MEMBER 4,
     variable ''b'' P_LONG C_MEMBER 8, variable ''c'' P_INT C_MEMBER 4]\<rparr>"

definition char_struct :: compiler where
  "char_struct = ready_state\<lparr>Heap := [variable ''a'' P_CHAR C_MEMBER 1,
     variable ''b'' P_INT C_MEMBER 4, variable ''c'' P_CHAR C_MEMBER 1]\<rparr>"

lemmas layout_eval = deref_def bnd_def genalign_def cgalign_def typesize_def cgprimsize_def
  ptrtype_def set_posn_def upd_sym_def i32_def variable_def

theorem struct_members_packed_witness:
  "case layout_members P_STRUCT [0, 1, 2] 0 plain_struct of
     Inr (tot, s') \<Rightarrow> tot = 16 \<and> s_posn (Heap s' ! 2) = 12
   | Inl e \<Rightarrow> False"
proof -
  obtain tot s' where r: "layout_members P_STRUCT [0, 1, 2] 0 plain_struct = Inr (tot, s')"
    by (simp add: layout_eval plain_struct_def ready_state_def init_state_def)
  have "(\<forall>i<length [0, 1, 2 :: nat]. s_posn (Heap s' ! ([0, 1, 2] ! i))
          = 0 + sizes (Heap plain_struct) (take i [0, 1, 2]))
     \<and> tot = 0 + sizes (Heap plain_struct) [0, 1, 2]"
    by (rule struct_members_packed[OF r])
       (simp_all add: plain_struct_def type_size_def variable_def ptrtype_def)
  then show ?thesis
    unfolding r by (simp add: plain_struct_def type_size_def variable_def ptrtype_def numeral_eq_Suc All_less_Suc)
qed

text \<open>The offset of the next free byte ignores the padding before an aligned member, so
  in \<^verbatim>\<open>struct { char a; int b; char c; }\<close> the member \<open>c\<close> is placed inside \<open>b\<close>, at byte 5,
  and the struct has 6 bytes.
\<close>

theorem struct_padding_overlap:
  "\<exists>s'. layout_members P_STRUCT [1, 2] 1 char_struct = Inr (6, s')
     \<and> s_posn (Heap s' ! 1) = 4 \<and> s_size (Heap s' ! 1) = 4 \<and> s_posn (Heap s' ! 2) = 5
     \<and> \<not> apart (Heap s') 1 2"
  by (simp add: layout_eval char_struct_def ready_state_def init_state_def apart_def)

end
