(* ===== verification/SymProps.thy ===== *)
theory SymProps
  imports Layout
begin

text \<open>
  What the symbol tables promise. The locale \<open>sym_table\<close> is the contract between a table's
  \<^verbatim>\<open>addxxx\<close> and \<^verbatim>\<open>findxxx\<close> functions, which the parser relies on; it is interpreted for
  the tables of globals, locals, members, structs, unions, typedefs and enumeration values.
  The scoping results rest on these interpretations.
\<close>

section \<open>The contract of a table\<close>

text \<open>\<open>s'\<close> has one more entry than \<open>s\<close>; the old ones are the same.\<close>

definition one_more :: "'z symtabs_scheme \<Rightarrow> 'z symtabs_scheme \<Rightarrow> bool" where
  "one_more s s' \<longleftrightarrow> length (Heap s') = Suc (length (Heap s))
     \<and> (\<forall>p<length (Heap s). Heap s' ! p = Heap s ! p)"

locale sym_table =
  fixes entries :: "'z symtabs_scheme \<Rightarrow> ptr list"
    and cls :: sclass
    and add :: "'a \<Rightarrow> ('z symtabs_scheme, ptr) comp"
    and name_of :: "'a \<Rightarrow> string option"
    and lookup :: "string \<Rightarrow> 'z symtabs_scheme \<Rightarrow> ptr option"
  assumes add_new: "add x s = Inr (p, s') \<Longrightarrow>
        p = length (Heap s) \<and> one_more s s' \<and> entries s' = entries s @ [p]
        \<and> s_name (Heap s' ! p) = name_of x \<and> (cls = C_NONE \<or> s_class (Heap s' ! p) = cls)"
    and lookup_list: "lookup n s = findsyminlist (Heap s) n (entries s) cls"
begin

definition valid :: "'z symtabs_scheme \<Rightarrow> bool" where
  "valid s \<longleftrightarrow> (\<forall>p\<in>set (entries s). p < length (Heap s))"

lemma findsyminlist_old:
  assumes "\<forall>p\<in>set ps. p < length (Heap s)" "one_more s s'"
  shows "findsyminlist (Heap s') n ps c = findsyminlist (Heap s) n ps c"
  using assms by (induction ps) (auto simp: one_more_def)

lemma findsyminlist_snoc:
  "findsyminlist h n (ps @ [p]) c =
     (case findsyminlist h n ps c of
        Some q \<Rightarrow> Some q
      | None \<Rightarrow> if s_name (h ! p) = Some n \<and> (c = C_NONE \<or> c = s_class (h ! p)) then Some p else None)"
  by (induction ps) auto

lemma lookup_after_add:
  assumes "add x s = Inr (p, s')" "valid s"
  shows "lookup n s' = (case lookup n s of
     Some q \<Rightarrow> Some q | None \<Rightarrow> if name_of x = Some n then Some p else None)"
proof -
  note a = add_new[OF assms(1)]
  have "findsyminlist (Heap s') n (entries s) cls = findsyminlist (Heap s) n (entries s) cls"
    using assms(2) a by (intro findsyminlist_old) (auto simp: valid_def)
  with a show ?thesis
    by (auto simp: lookup_list findsyminlist_snoc split: option.splits)
qed

lemma lookup_new: "add x s = Inr (p, s') \<Longrightarrow> valid s \<Longrightarrow> lookup n s = None \<Longrightarrow> name_of x = Some n \<Longrightarrow>
    lookup n s' = Some p"
  by (simp add: lookup_after_add)

lemma lookup_kept: "add x s = Inr (p, s') \<Longrightarrow> valid s \<Longrightarrow> lookup n s = Some q \<Longrightarrow> lookup n s' = Some q"
  by (simp add: lookup_after_add)

lemma lookup_other: "add x s = Inr (p, s') \<Longrightarrow> valid s \<Longrightarrow> name_of x \<noteq> Some n \<Longrightarrow>
    lookup n s' = lookup n s"
  by (simp add: lookup_after_add split: option.splits)

lemma add_valid: "add x s = Inr (p, s') \<Longrightarrow> valid s \<Longrightarrow> valid s'"
  using add_new[of x s p s'] by (auto simp: valid_def one_more_def less_Suc_eq)

lemma lookup_valid:
  assumes "valid s" "lookup n s = Some p"
  shows "p < length (Heap s) \<and> s_name (Heap s ! p) = Some n"
proof -
  have "findsyminlist h n ps c = Some p \<Longrightarrow> p \<in> set ps \<and> s_name (h ! p) = Some n" for h ps c
    by (induction ps) (auto split: if_splits)
  with assms show ?thesis by (auto simp: valid_def lookup_list)
qed

end

section \<open>The operations that add an entry\<close>

lemma newsym_run:
  assumes "newsym name type ctype stype class nelems posn s = Inr (p, s')"
  shows "p = length (Heap s) \<and> (\<exists>sz. s' = s\<lparr>Heap := Heap s @ [\<lparr>s_name = name, s_type = type,
     s_ctype = ctype, s_stype = stype, s_class = class, s_size = sz, s_nelems = nelems,
     s_posn = posn, s_initlist = None, s_member = []\<rparr>]\<rparr>)"
proof -
  have t: "s1 = s" if "typesize type ctype s = Inr (sz, s1)" for sz s1
    using that by (auto simp: typesize_def deref_opt_def deref_def cgprimsize_def fatald_def die_def
        split: if_splits option.splits)
  show ?thesis using assms
    by (auto simp: newsym_def bnd_eq_Inr dest: t split: if_splits)
qed

lemma copy_size_run:
  assumes "copy_size type ctype p s = Inr (x, s')"
  shows "\<exists>f. s' = upd_sym p f s \<and> (\<forall>e. s_name (f e) = s_name e \<and> s_class (f e) = s_class e
      \<and> s_stype (f e) = s_stype e \<and> s_type (f e) = s_type e)"
proof -
  have id: "s = upd_sym p (\<lambda>e. e) s"
    by (cases "p < length (Heap s)") (simp_all add: upd_sym_def list_update_id list_update_beyond)
  show ?thesis
  proof (cases "type = P_STRUCT \<or> type = P_UNION")
    case True
    then obtain q where "s' = upd_sym p (\<lambda>e. e\<lparr>s_size := s_size (Heap s ! q)\<rparr>) s"
      using assms by (auto simp: copy_size_def deref_opt_def deref_def split: if_splits option.splits)
    then show ?thesis by auto
  next
    case False
    then have "s' = s" using assms by (simp add: copy_size_def)
    with id show ?thesis by (intro exI[of _ "\<lambda>e. e"]) simp
  qed
qed

text \<open>All that the lemmas below need of the two.\<close>

lemma add_entry:
  assumes "bnd (newsym name type ctype stype class nelems posn) (\<lambda>p.
       thn (copy_size type ctype p) (wr (upd p) (ret p))) s = Inr (p, s')"
    and "\<And>s p. Heap (upd p s) = Heap s"
  shows "p = length (Heap s) \<and> one_more s s'
     \<and> s_name (Heap s' ! p) = name \<and> s_class (Heap s' ! p) = class
     \<and> (\<exists>h. s' = upd p (s\<lparr>Heap := h\<rparr>))"
proof -
  obtain s1 s2 where 1: "newsym name type ctype stype class nelems posn s = Inr (p, s1)"
    and 2: "copy_size type ctype p s1 = Inr ((), s2)" and 3: "s' = upd p s2"
    using assms(1) by (auto simp: bnd_eq_Inr thn_eq_Inr)
  obtain sz where s1: "p = length (Heap s)" "s1 = s\<lparr>Heap := Heap s @ [\<lparr>s_name = name, s_type = type,
     s_ctype = ctype, s_stype = stype, s_class = class, s_size = sz, s_nelems = nelems,
     s_posn = posn, s_initlist = None, s_member = []\<rparr>]\<rparr>"
    using newsym_run[OF 1] by auto
  obtain f where f: "s2 = upd_sym p f s1" "\<forall>e. s_name (f e) = s_name e \<and> s_class (f e) = s_class e
      \<and> s_stype (f e) = s_stype e \<and> s_type (f e) = s_type e"
    using copy_size_run[OF 2] by blast
  have "s2 = s\<lparr>Heap := Heap s2\<rparr>" by (simp add: f(1) s1(2) upd_sym_def)
  then show ?thesis
    using s1 f 3 assms(2) by (auto simp: one_more_def nth_append)
qed

lemma add_entry_plain:
  assumes "bnd (newsym name type ctype stype class nelems posn) (\<lambda>p. wr (upd p) (ret p)) s = Inr (p, s')"
    and "\<And>s p. Heap (upd p s) = Heap s"
  shows "p = length (Heap s) \<and> one_more s s'
     \<and> s_name (Heap s' ! p) = name \<and> s_class (Heap s' ! p) = class
     \<and> (\<exists>h. s' = upd p (s\<lparr>Heap := h\<rparr>))"
proof -
  obtain s1 where 1: "newsym name type ctype stype class nelems posn s = Inr (p, s1)" and 3: "s' = upd p s1"
    using assms(1) by (auto simp: bnd_eq_Inr)
  obtain sz where "p = length (Heap s)" "s1 = s\<lparr>Heap := Heap s @ [\<lparr>s_name = name, s_type = type,
     s_ctype = ctype, s_stype = stype, s_class = class, s_size = sz, s_nelems = nelems,
     s_posn = posn, s_initlist = None, s_member = []\<rparr>]\<rparr>"
    using newsym_run[OF 1] by auto
  with 3 assms(2) show ?thesis by (auto simp: one_more_def nth_append)
qed

lemmas add_run = add_entry[where upd = "\<lambda>p s. s\<lparr>Glob := appendsym (Glob s) p\<rparr>", simplified, unfolded appendsym_def]
  add_entry[where upd = "\<lambda>p s. s\<lparr>Locl := appendsym (Locl s) p\<rparr>", simplified, unfolded appendsym_def]
  add_entry[where upd = "\<lambda>p s. s\<lparr>Memb := appendsym (Memb s) p\<rparr>", simplified, unfolded appendsym_def]
  add_entry_plain[where upd = "\<lambda>p s. s\<lparr>Structs := appendsym (Structs s) p\<rparr>", simplified, unfolded appendsym_def]
  add_entry_plain[where upd = "\<lambda>p s. s\<lparr>Unions := appendsym (Unions s) p\<rparr>", simplified, unfolded appendsym_def]
  add_entry_plain[where upd = "\<lambda>p s. s\<lparr>Typedefs := appendsym (Typedefs s) p\<rparr>", simplified, unfolded appendsym_def]
  add_entry_plain[where upd = "\<lambda>p s. s\<lparr>Enums := appendsym (Enums s) p\<rparr>", simplified, unfolded appendsym_def]

lemmas add_defs = addglob_def addlocl_def addmemb_def addstruct_def addunion_def addtypedef_def
  addenum_def

section \<open>The tables of the compiler\<close>

interpretation globals: sym_table Glob C_NONE
  "\<lambda>(name, type, ctype, stype, class, nelems, posn). addglob name type ctype stype class nelems posn"
  "\<lambda>(name, _). Some name" findglob
  by unfold_locales (auto simp: add_defs appendsym_def findglob_def dest!: add_run)

interpretation locals: sym_table Locl C_NONE
  "\<lambda>(name, type, ctype, stype, nelems). addlocl name type ctype stype nelems"
  "\<lambda>(name, _). Some name" "\<lambda>n s. findsyminlist (Heap s) n (Locl s) C_NONE"
  by unfold_locales (auto simp: add_defs appendsym_def dest!: add_run)

interpretation members: sym_table Memb C_NONE
  "\<lambda>(name, type, ctype, stype, nelems). addmemb name type ctype stype nelems"
  "\<lambda>(name, _). Some name" findmember
  by unfold_locales (auto simp: add_defs appendsym_def findmember_def dest!: add_run)

interpretation structs: sym_table Structs C_NONE addstruct Some findstruct
  by unfold_locales (auto simp: add_defs appendsym_def findstruct_def dest!: add_run)

interpretation unions: sym_table Unions C_NONE addunion Some findunion
  by unfold_locales (auto simp: add_defs appendsym_def findunion_def dest!: add_run)

interpretation typedefs: sym_table Typedefs C_NONE
  "\<lambda>(name, type, ctype). addtypedef name type ctype" "\<lambda>(name, _). Some name" findtypedef
  by unfold_locales (auto simp: add_defs appendsym_def findtypedef_def dest!: add_run)

interpretation enumvals: sym_table Enums C_ENUMVAL
  "\<lambda>(name, value). addenum name C_ENUMVAL value" "\<lambda>(name, _). name" findenumval
  by unfold_locales (auto simp: add_defs appendsym_def findenumval_def dest!: add_run)

interpretation enumtypes: sym_table Enums C_ENUMTYPE
  "\<lambda>(name, value). addenum name C_ENUMTYPE value" "\<lambda>(name, _). name" findenumtype
  by unfold_locales (auto simp: add_defs appendsym_def findenumtype_def dest!: add_run)

section \<open>Scoping\<close>

text \<open>
  A name stands for the first parameter of the current function with that name, else for
  the first local with it, else for the first global; \<^verbatim>\<open>findlocl\<close> stops before the globals.
\<close>

theorem symbol_scopes:
  "findsymbol n s =
     (case find (\<lambda>p. s_name (Heap s ! p) = Some n) (cur_params s @ Locl s) of
        Some p \<Rightarrow> Some p
      | None \<Rightarrow> find (\<lambda>p. s_name (Heap s ! p) = Some n) (Glob s))
   \<and> findlocl n s = find (\<lambda>p. s_name (Heap s ! p) = Some n) (cur_params s @ Locl s)"
proof -
  have f: "findsyminlist h n ps C_NONE = find (\<lambda>p. s_name (h ! p) = Some n) ps" for h ps
    by (induction ps) auto
  have a: "find P (xs @ ys) = (case find P xs of Some p \<Rightarrow> Some p | None \<Rightarrow> find P ys)" for P and xs ys :: "ptr list"
    by (induction xs) auto
  show ?thesis
    by (simp add: findsymbol_def findlocl_def f a split: option.split)
qed

text \<open>All pointers on the lists point to entries.\<close>

definition tables_ok :: "'z symtabs_scheme \<Rightarrow> bool" where
  "tables_ok s \<longleftrightarrow> (\<forall>p\<in>set (Glob s @ Locl s @ Parm s @ Memb s @ Structs s @ Unions s @ Enums s
       @ Typedefs s @ cur_params s). p < length (Heap s))
     \<and> (\<forall>f. Functionid s = Some f \<longrightarrow> f < length (Heap s))"

lemma addlocl_frame:
  assumes "addlocl n type ctype stype nelems s = Inr (p, s')"
  shows "one_more s s' \<and> Functionid s' = Functionid s \<and> Glob s' = Glob s \<and> Locl s' = Locl s @ [p]
     \<and> p = length (Heap s)"
  using assms by (auto simp: add_defs appendsym_def dest!: add_run)

text \<open>
  C39: Declaring a local whose name is neither a parameter nor a local already makes the name
  stand for the new entry, whatever globals there are, and does not change what any other
  name stands for; when the function ends, \<^verbatim>\<open>freeloclsyms\<close> gives the name its global meaning
  back.
\<close>

theorem local_shadows_global:
  assumes "addlocl n type ctype stype nelems s = Inr (p, s')" "tables_ok s" "findlocl n s = None"
  shows "findsymbol n s' = Some p
     \<and> (\<forall>n'. n' \<noteq> n \<longrightarrow> findsymbol n' s' = findsymbol n' s)
     \<and> findsymbol n (freeloclsyms s') = findglob n s"
proof -
  let ?x = "(n, type, ctype, stype, nelems)"
  note fr = addlocl_frame[OF assms(1)]
  have add: "(case ?x of (name, type, ctype, stype, nelems) \<Rightarrow> addlocl name type ctype stype nelems) s
      = Inr (p, s')" using assms(1) by simp
  have v: "locals.valid s" using assms(2) by (simp add: locals.valid_def tables_ok_def)
  have ok: "\<forall>p\<in>set (cur_params s). p < length (Heap s)" "\<forall>p\<in>set (Glob s). p < length (Heap s)"
    using assms(2) by (auto simp: tables_ok_def)
  have cp: "cur_params s' = cur_params s"
    using fr assms(2) by (auto simp: cur_params_def tables_ok_def one_more_def split: option.split)
  have par: "findsyminlist (Heap s') m (cur_params s) C_NONE = findsyminlist (Heap s) m (cur_params s) C_NONE" for m
    using locals.findsyminlist_old[OF ok(1)] fr by blast
  have glo: "findsyminlist (Heap s') m (Glob s) C_NONE = findsyminlist (Heap s) m (Glob s) C_NONE" for m
    using locals.findsyminlist_old[OF ok(2)] fr by blast
  note loc = locals.lookup_after_add[OF add v]
  show ?thesis
    using assms(3) fr cp par glo loc
    by (auto simp: findsymbol_def findlocl_def findglob_def freeloclsyms_def cur_params_def[of "_\<lparr>Functionid := None\<rparr>"]
        split: option.splits)
qed

definition shadow_state :: compiler where
  "shadow_state = ready_state\<lparr>
     Heap := [variable ''x'' P_LONG C_GLOBAL 8, variable ''y'' P_INT C_GLOBAL 4], Glob := [0, 1]\<rparr>"

lemmas run_simps = thn_def bnd_def deref_def deref_opt_def typesize_def cgprimsize_def ptrtype_def
  inttype_def i32_def upd_sym_def model_defs

theorem local_shadows_global_witness:
  "\<exists>s'. addlocl ''x'' P_INT None S_VARIABLE 1 shadow_state = Inr (2, s')
     \<and> findglob ''x'' shadow_state = Some 0 \<and> findsymbol ''x'' s' = Some 2
     \<and> findsymbol ''y'' s' = Some 1 \<and> findsymbol ''x'' (freeloclsyms s') = Some 0"
proof -
  obtain s' where a: "addlocl ''x'' P_INT None S_VARIABLE 1 shadow_state = Inr (2, s')"
    by (simp add: addlocl_def newsym_def copy_size_def shadow_state_def run_simps)
  have "tables_ok shadow_state" "findlocl ''x'' shadow_state = None"
    by (simp_all add: tables_ok_def shadow_state_def findlocl_def cur_params_def model_defs)
  note l = local_shadows_global[OF a this]
  have "findglob ''x'' shadow_state = Some 0" "findsymbol ''y'' shadow_state = Some 1"
    by (simp_all add: shadow_state_def findglob_def findsymbol_def cur_params_def model_defs)
  with l a show ?thesis by auto
qed

section \<open>Freeing the statics\<close>

lemma freestatic_loop_none:
  "\<forall>p\<in>set ps. s_class (h ! p) \<noteq> C_STATIC \<Longrightarrow> freestatic_loop h ps g = g"
  by (induction ps arbitrary: g) auto

lemma freestatic_loop_last:
  assumes "s_class (h ! p) = C_STATIC" "\<forall>q\<in>set ys. s_class (h ! q) \<noteq> C_STATIC" "g \<noteq> []"
  shows "freestatic_loop h (xs @ p # ys) g = take 1 g @ ys"
  using assms(3)
proof (induction xs arbitrary: g)
  case Nil
  then show ?case using assms by (simp add: freestatic_loop_none)
next
  case (Cons x xs)
  then show ?case by (cases g) auto
qed

text \<open>
  \<^verbatim>\<open>freestaticsyms\<close> leaves a list without statics alone. Otherwise what remains is the head,
  static or not, and the entries behind the last static (that follows the head): the ones in
  between are unlinked even when they are not static.
\<close>

theorem freestaticsyms_result:
  "((\<forall>p\<in>set (Glob s). s_class (Heap s ! p) \<noteq> C_STATIC) \<longrightarrow> Glob (freestaticsyms s) = Glob s)
   \<and> (\<forall>x xs p ys. Glob s = x # xs @ p # ys \<longrightarrow> s_class (Heap s ! p) = C_STATIC \<longrightarrow>
        (\<forall>q\<in>set ys. s_class (Heap s ! q) \<noteq> C_STATIC) \<longrightarrow> Glob (freestaticsyms s) = x # ys)"
proof (intro conjI impI allI)
  assume "\<forall>p\<in>set (Glob s). s_class (Heap s ! p) \<noteq> C_STATIC"
  then show "Glob (freestaticsyms s) = Glob s" by (simp add: freestaticsyms_def freestatic_loop_none)
next
  fix x xs p ys
  assume "Glob s = x # xs @ p # ys" "s_class (Heap s ! p) = C_STATIC"
    "\<forall>q\<in>set ys. s_class (Heap s ! q) \<noteq> C_STATIC"
  then show "Glob (freestaticsyms s) = x # ys"
    using freestatic_loop_last[of "Heap s" p ys "x # xs @ p # ys" "x # xs"]
    by (simp add: freestaticsyms_def)
qed

definition static_state :: compiler where
  "static_state = ready_state\<lparr>
     Heap := [variable ''a'' P_INT C_GLOBAL 4, variable ''b'' P_INT C_GLOBAL 4,
        variable ''c'' P_INT C_STATIC 4, variable ''d'' P_INT C_GLOBAL 4], Glob := [0, 1, 2, 3]\<rparr>"

theorem freestaticsyms_result_witness: "Glob (freestaticsyms static_state) = [0, 3]"
  using freestaticsyms_result[of static_state, THEN conjunct2, rule_format, of 0 "[1]" 2 "[3]"]
  by (simp add: static_state_def model_defs)

end
