(* ===== verification/FoldProps.thy ===== *)
theory FoldProps
  imports GenExpr
begin

text \<open>
  Constant folding (\<^verbatim>\<open>opt.c\<close>) keeps the value that the generated code computes, as long as no
  folded operation overflows an \<^verbatim>\<open>int\<close>: the optimiser computes with 32 bits and the code with
  64, so they differ when one does.
\<close>

text \<open>The literals of a tree fit an \<^verbatim>\<open>int\<close>, as those the scanner makes do.\<close>

primrec lits_ok :: "ast \<Rightarrow> bool" where
  "lits_ok Null \<longleftrightarrow> True"
| "lits_ok (Node q t c rv l m r sy v lno) \<longleftrightarrow>
     (q = A_INTLIT \<longrightarrow> in_i32 v) \<and> lits_ok l \<and> lits_ok r"

text \<open>No operation that is folded overflows.\<close>

definition safe_op :: "astop \<Rightarrow> int \<Rightarrow> int \<Rightarrow> bool" where
  "safe_op q a b =
     (if q = A_ADD then in_i32 (a + b) else if q = A_SUBTRACT then in_i32 (a - b)
      else if q = A_MULTIPLY then in_i32 (a * b)
      else if q = A_DIVIDE then \<not> (a = -2147483648 \<and> b = -1) else True)"

primrec fold_safe :: "ast \<Rightarrow> bool" where
  "fold_safe Null \<longleftrightarrow> True"
| "fold_safe (Node q t c rv l m r sy v lno) \<longleftrightarrow> fold_safe l \<and> fold_safe r \<and>
     (case (fold_ast l, fold_ast r) of
        (Some l', Some r') \<Rightarrow>
          is_op A_INTLIT l' \<longrightarrow> is_op A_INTLIT r' \<longrightarrow> safe_op q (a_intvalue l') (a_intvalue r')
      | _ \<Rightarrow> False)"

lemma cdiv_in_i32:
  assumes "in_i32 a" "in_i32 b" "b \<noteq> 0" "\<not> (a = -2147483648 \<and> b = -1)"
  shows "in_i32 (cdiv a b)"
proof -
  let ?q = "\<bar>a\<bar> div \<bar>b\<bar>"
  have "?q \<le> \<bar>a\<bar> div 1" using assms(3) by (intro zdiv_mono2) auto
  then have q: "0 \<le> ?q" "?q \<le> \<bar>a\<bar>" using assms(3) by (simp_all add: pos_imp_zdiv_nonneg_iff)
  have c: "cdiv a b = ?q \<or> cdiv a b = - ?q \<or> cdiv a b = 0"
    by (auto simp: cdiv_def sgn_if)
  show ?thesis
  proof (cases "a = -2147483648")
    case True
    with assms(3,4) have b: "b = 1 \<or> 2 \<le> \<bar>b\<bar>" by auto
    then show ?thesis
    proof
      assume "b = 1" then show ?thesis using True by (simp add: cdiv_def in_i32_def)
    next
      assume "2 \<le> \<bar>b\<bar>"
      then have "?q \<le> \<bar>a\<bar> div 2" by (intro zdiv_mono2) auto
      with c q True show ?thesis by (auto simp: in_i32_def)
    qed
  next
    case False
    with assms(1) have "\<bar>a\<bar> \<le> 2147483647" by (auto simp: in_i32_def)
    with c q show ?thesis by (auto simp: in_i32_def)
  qed
qed

lemma sint_of_i32: "in_i32 a \<Longrightarrow> sint (word_of_int a :: 64 word) = a"
  by (simp add: in_i32_def signed_of_int signed_take_bit_int_eq_self)

lemma sdivmod_i32:
  assumes "in_i32 a" "in_i32 b" "b \<noteq> 0" "\<not> (a = -2147483648 \<and> b = -1)"
  shows "map_option fst (sdivmod (word_of_int a) (word_of_int b)) = Some (word_of_int (cdiv a b))"
  using cdiv_in_i32[OF assms] assms(3)
  by (simp add: sdivmod_def Let_def sint_of_i32[OF assms(1)] sint_of_i32[OF assms(2)])
     (simp add: in_i32_def)

lemma fold2_ok:
  assumes "is_op A_INTLIT (left n)" "is_op A_INTLIT (right n)" "n \<noteq> Null" "lits_ok n"
    "safe_op (op n) (a_intvalue (left n)) (a_intvalue (right n))"
  shows "\<exists>n'. fold2 n = Some n' \<and> n' \<noteq> Null \<and> ntype n' = ntype n \<and> lits_ok n' \<and> eval h m n' = eval h m n"
proof -
  obtain q t c rv l md r sy v lno where n: "n = Node q t c rv l md r sy v lno"
    using assms(3) by (cases n) auto
  then obtain lt lc lrv ll lm lr ls a ll' where l: "l = Node A_INTLIT lt lc lrv ll lm lr ls a ll'"
    using assms(1) by (cases l) auto
  obtain rt rc rrv rl rm rr rs b rl' where r: "r = Node A_INTLIT rt rc rrv rl rm rr rs b rl'"
    using assms(2) n by (cases r) auto
  have ab: "in_i32 a" "in_i32 b" using assms(4) n l r by auto
  show ?thesis
  proof (cases "q = A_DIVIDE \<and> b \<noteq> 0")
    case True
    then show ?thesis using assms(5) n l r ab sdivmod_i32[OF ab] cdiv_in_i32[OF ab]
      by (auto simp: fold2_def safe_op_def un_fun_def bin_fun_def)
  next
    case False
    then show ?thesis using assms(4,5) n l r ab
      by (cases "q = A_ADD"; cases "q = A_SUBTRACT"; cases "q = A_MULTIPLY"; cases "q = A_DIVIDE")
         (auto simp: fold2_def safe_op_def un_fun_def bin_fun_def split: astop.split)
  qed
qed

lemma fold1_ok:
  assumes "is_op A_INTLIT (left n)" "n \<noteq> Null" "lits_ok n"
  shows "fold1 n \<noteq> Null \<and> ntype (fold1 n) = ntype n \<and> lits_ok (fold1 n)
     \<and> (is_op A_INTLIT (fold1 n) \<longrightarrow> eval h m (fold1 n) = eval h m n)
     \<and> eval h m (fold1 n) = eval h m n"
proof -
  obtain q t c rv l md r sy v lno where n: "n = Node q t c rv l md r sy v lno"
    using assms(2) by (cases n) auto
  then obtain lt lc lrv ll lm lr ls a ll' where l: "l = Node A_INTLIT lt lc lrv ll lm lr ls a ll'"
    using assms(1) by (cases l) auto
  have a: "in_i32 a" using assms(3) n l by auto
  have z: "(word_of_int a :: 64 word) = 0 \<longleftrightarrow> a = 0"
    using sint_of_i32[OF a] by (metis of_int_0 signed_0)
  have i: "word_of_int (- a - 1) = NOT (word_of_int a :: 64 word)"
    by (simp add: not_eq_complement)
  show ?thesis
    using n l a z i assms(3)
    by (cases "q = A_WIDEN"; cases "q = A_INVERT"; cases "q = A_LOGNOT")
       (auto simp: fold1_def un_fun_def bin_fun_def in_i32_def split: astop.split)
qed

lemma fold_ok:
  assumes "lits_ok n" "fold_safe n"
  shows "\<exists>n'. fold_ast n = Some n' \<and> (n' = Null \<longleftrightarrow> n = Null) \<and> ntype n' = ntype n \<and> lits_ok n'
     \<and> (\<forall>h m. eval h m n' = eval h m n)"
  using assms
proof (induction n)
  case (Node q t c rv l md r sy v lno)
  then obtain l' where l': "fold_ast l = Some l'" "(l' = Null) = (l = Null)" "ntype l' = ntype l"
      "lits_ok l'" "\<And>h m. eval h m l' = eval h m l" by auto
  obtain r' where r': "fold_ast r = Some r'" "(r' = Null) = (r = Null)" "ntype r' = ntype r"
      "lits_ok r'" "\<And>h m. eval h m r' = eval h m r" using Node by auto
  let ?n = "Node q t c rv l' md r' sy v lno"
  have ok: "lits_ok ?n" using Node.prems(1) l' r' by simp
  have ev: "eval h m ?n = eval h m (Node q t c rv l md r sy v lno)" for h m
    using l'(3,5) r'(5) by (simp split: option.split)
  show ?case
  proof (cases "is_op A_INTLIT l'")
    case False
    then have "fold_ast (Node q t c rv l md r sy v lno) = Some ?n" using l' r' by simp
    then show ?thesis using ok ev by auto
  next
    case lit: True
    show ?thesis
    proof (cases "is_op A_INTLIT r'")
      case True
      then have s: "safe_op q (a_intvalue l') (a_intvalue r')"
        using Node.prems(2) l' r' lit by auto
      have f: "fold_ast (Node q t c rv l md r sy v lno) = fold2 ?n" using l' r' lit True by simp
      then obtain n' where n': "fold2 ?n = Some n'" by (metis fold2_ok ast.sel(5,7) ast.distinct(1) ast.sel(1) lit True ok s)
      have "n' \<noteq> Null \<and> ntype n' = ntype ?n \<and> lits_ok n' \<and> eval h m n' = eval h m ?n" for h m
        using fold2_ok[of ?n h m] lit True ok s n' by auto
      then show ?thesis unfolding f n' ev[symmetric] by auto
    next
      case False
      then have f: "fold_ast (Node q t c rv l md r sy v lno) = Some (fold1 ?n)" using l' r' lit by simp
      show ?thesis unfolding f ev[symmetric] using fold1_ok[of ?n] lit ok by auto
    qed
  qed
qed simp

text \<open>
  C24: For a tree whose literals fit an \<^verbatim>\<open>int\<close> and in which no folded operation overflows or
  divides \<^verbatim>\<open>INT_MIN\<close> by -1, \<^verbatim>\<open>optimise\<close> succeeds and the tree it returns has the same
  reference value as the original on every machine; a division by a literal zero is left for
  run time.
\<close>

theorem optimise_keeps_value:
  assumes "lits_ok n" "fold_safe n"
  shows "\<exists>n'. optimise n s = Inr (n', s) \<and> (n' = Null \<longleftrightarrow> n = Null) \<and> ntype n' = ntype n
     \<and> (\<forall>h m. eval h m n' = eval h m n)"
  using fold_ok[OF assms] by (auto simp: optimise_def)

theorem optimise_keeps_value_witness:
  "\<exists>n'. optimise deep_tree ready_state = Inr (n', ready_state)
     \<and> (\<forall>m. eval [] m n' = eval [] m deep_tree)"
proof -
  have "lits_ok deep_tree" "fold_safe deep_tree"
    by (simp_all add: deep_tree_def bin_tree_def int_lit_def in_i32_def fold2_def safe_op_def
        i32_def cdiv_def)
  from optimise_keeps_value[OF this, of ready_state] show ?thesis by auto
qed

text \<open>
  When a folded sum overflows, the optimiser and the generated code disagree: for
  \<^verbatim>\<open>2147483647 + 1\<close> the folded literal is negative and the code would have computed a positive
  64-bit value.
\<close>

theorem fold_overflow_differs:
  "\<exists>n'. fold_ast (bin_tree A_ADD (int_lit 2147483647) (int_lit 1)) = Some n'
     \<and> eval h m n' = Some (word_of_int (- 2147483648))
     \<and> eval h m (bin_tree A_ADD (int_lit 2147483647) (int_lit 1)) = Some (word_of_int 2147483648)"
  by (simp add: bin_tree_def int_lit_def fold2_def i32_def un_fun_def bin_fun_def)

end
