(* ===== verification/GenLimits.thy ===== *)
theory GenLimits
  imports GenExpr
begin

text \<open>
  Programs on which the generated code does not do what C says, found while modelling
  \<^verbatim>\<open>gen.c\<close> and \<^verbatim>\<open>cg.c\<close>. Each theorem gives the code for a small tree and what it does.
\<close>

definition code_of :: "ast \<Rightarrow> compiler \<Rightarrow> (int \<times> instr list) option" where
  "code_of n s = (case genAST n NOLABEL NOLABEL NOLABEL None s of
     Inl e \<Rightarrow> None | Inr (r, s') \<Rightarrow> Some (r, Outfile s'))"

section \<open>Registers\<close>

definition less_tree :: "int \<Rightarrow> int \<Rightarrow> ast" where
  "less_tree a b = bin_tree A_LT (int_lit a) (int_lit b)"

definition less_val :: "int \<Rightarrow> int \<Rightarrow> int" where
  "less_val a b = (if a < b then 1 else 0)"

text \<open>\<^verbatim>\<open>(2 < 1) | (1 < 2) ^ (1 < 2) & 4 + 3\<close>\<close>

definition clobber_tree :: ast where
  "clobber_tree =
     bin_tree A_OR (less_tree 2 1) (bin_tree A_XOR (less_tree 1 2)
       (bin_tree A_AND (less_tree 1 2) (bin_tree A_ADD (int_lit 4) (int_lit 3))))"

definition clobber_code :: "instr list" where
  "clobber_code =
     [MovImm 2 0, MovImm 1 1, Cmp 4 1 0, SetCC CL 1, MovZBQ 1,
      MovImm 1 0, MovImm 2 2, Cmp 4 2 0, SetCC CL 2, MovZBQ 2,
      MovImm 1 0, MovImm 2 3, Cmp 4 3 0, SetCC CL 3, MovZBQ 3,
      MovImm 4 0, PushQ 0, MovImm 3 0, Bin ADDQ 0 0, PopQ 0,
      Bin ANDQ 0 3, Bin XORQ 3 2, Bin ORQ 2 1]"

text \<open>A comparison leaves its result in the register of its right operand and frees the left
  one, so registers are no longer allocated in order; when they run out, the register that is
  spilled can be the left operand of the addition in progress. For
  \<^verbatim>\<open>(2 < 1) | (1 < 2) ^ (1 < 2) & 4 + 3\<close>, whose value in C is 0, the code adds a register to
  itself, pops the left operand over the sum, and ends with 1 in the result register.
\<close>

theorem comparison_spill_clobbers:
  "code_of clobber_tree ready_state = Some (1, clobber_code)
   \<and> (\<forall>m. map_option (\<lambda>m'. regs m' 1) (exec clobber_code m) = Some 1)
   \<and> (less_val 2 1 OR (less_val 1 2 XOR (less_val 1 2 AND (4 + 3)))) = 0"
proof (intro conjI allI)
  show "code_of clobber_tree ready_state = Some (1, clobber_code)" by code_simp
  show "map_option (\<lambda>m'. regs m' 1) (exec clobber_code m) = Some 1" for m
    by (simp add: clobber_code_def sval_def low_byte_def Let_def)
  show "(less_val 2 1 OR (less_val 1 2 XOR (less_val 1 2 AND (4 + 3)))) = 0"
    by (simp add: less_val_def)
qed

section \<open>Characters\<close>

definition char_var :: symtable where
  "char_var = \<lparr>s_name = Some ''c'', s_type = P_CHAR, s_ctype = None, s_stype = S_VARIABLE,
     s_class = C_GLOBAL, s_size = 1, s_nelems = 1, s_posn = 0, s_initlist = None, s_member = []\<rparr>"

definition char_state :: compiler where
  "char_state = ready_state\<lparr>Heap := [char_var], Glob := [0]\<rparr>"

text \<open>\<^verbatim>\<open>c > 100\<close> for \<^verbatim>\<open>char c\<close>\<close>

definition char_greater :: ast where
  "char_greater = mkastnode A_GT P_INT None
     (set_rvalue (mkastleaf A_IDENT P_CHAR None (Some 0) 0)) Null
     (mkastleaf A_INTLIT P_CHAR None None 100) None 0"

definition char_code :: "instr list" where
  "char_code = [LoadGlobal 1 ''c'' 0, MovImm 100 1, Cmp 1 1 0, SetCC CG 1, MovZBQ 1]"

text \<open>
  Characters are loaded without their sign, but two characters are compared with
  \<^verbatim>\<open>cmpb\<close> and a signed condition. With 200 in a global \<^verbatim>\<open>char c\<close>, the code for \<^verbatim>\<open>c > 100\<close>
  loads 200 and then computes 0.
\<close>

theorem char_comparison_is_signed:
  assumes "mem m (glb m ''c'') = 200"
  shows "code_of char_greater char_state = Some (1, char_code)
   \<and> (\<exists>m1. exec (take 1 char_code) m = Some m1 \<and> regs m1 0 = 200)
   \<and> (\<exists>m'. exec char_code m = Some m' \<and> regs m' 1 = 0)"
proof (intro conjI)
  show "code_of char_greater char_state = Some (1, char_code)" by code_simp
  show "\<exists>m1. exec (take 1 char_code) m = Some m1 \<and> regs m1 0 = 200"
    using assms by (simp add: char_code_def load_def)
  show "\<exists>m'. exec char_code m = Some m' \<and> regs m' 1 = 0"
    using assms by (simp add: char_code_def load_def sval_def low_byte_def Let_def)
qed

definition sample_mach :: mach where
  "sample_mach = \<lparr>regs = (\<lambda>r. 0), rax = 0, rbp = 0, stk = [], mem = (\<lambda>a. 200), fl_eq = False,
     fl_lt = False, glb = (\<lambda>n. 4096), lab = (\<lambda>l. 0)\<rparr>"

theorem char_comparison_is_signed_witness:
  "\<exists>m'. exec char_code sample_mach = Some m' \<and> regs m' 1 = 0"
  using char_comparison_is_signed[of sample_mach] by (simp add: sample_mach_def)

section \<open>Jumps\<close>

text \<open>\<^verbatim>\<open>0 ? 5 : 7\<close>, as the parser builds it\<close>

definition ternary_tree :: ast where
  "ternary_tree = mkastnode A_TERNARY P_INT None (int_lit 0) (int_lit 5) (int_lit 7) None 0"

text \<open>
  The condition of \<^verbatim>\<open>?:\<close> is not made boolean. When it is no comparison, no conditional
  jump is printed: \<^verbatim>\<open>0 ? 5 : 7\<close> evaluates 5, moves it to the result and jumps over the other
  arm, to whose label nothing jumps.
\<close>

theorem ternary_needs_comparison:
  "code_of ternary_tree ready_state =
     Some (1, [MovImm 0 0, MovImm 5 2, MovQ 2 1, JmpL 2, LabelL 1, MovImm 7 2, MovQ 2 1, LabelL 2])"
  by code_simp

text \<open>\<^verbatim>\<open>while (1 < 2) { if (1 < 2) ; else continue; }\<close>\<close>

definition continue_tree :: ast where
  "continue_tree = mkastnode A_WHILE P_NONE None (less_tree 1 2) Null
     (mkastnode A_IF P_NONE None (less_tree 1 2) Null
        (mkastleaf A_CONTINUE P_NONE None None 0) None 0) None 0"

text \<open>
  \<^verbatim>\<open>genIF\<close> passes no loop label to the \<^verbatim>\<open>else\<close> branch, so a \<^verbatim>\<open>continue\<close> there jumps to
  the label \<^verbatim>\<open>L0\<close>, which does not exist.
\<close>

theorem continue_in_else_jumps_nowhere:
  "\<exists>code. code_of continue_tree ready_state = Some (NOREG, code)
     \<and> JmpL 0 \<in> set code \<and> LabelL 0 \<notin> set code"
proof -
  have "code_of continue_tree ready_state = Some (NOREG,
     [LabelL 1, MovImm 1 0, MovImm 2 1, Cmp 4 1 0, JccL CGE 2,
      MovImm 1 0, MovImm 2 1, Cmp 4 1 0, JccL CGE 3, JmpL 4, LabelL 3, JmpL 0, LabelL 4,
      JmpL 1, LabelL 2])"
    by code_simp
  then show ?thesis by simp
qed

end
