(* ===== verification/GenLabels.thy ===== *)
theory GenLabels
  imports GenLimits
begin

text \<open>
  Labels. \<^verbatim>\<open>genlabel\<close> hands out a new number at each call; the results here say that the code
  for a tree defines each of its labels once, uses no number handed out before, and that its
  jumps (and jump tables) go to its own labels or to one it was passed.
\<close>

section \<open>Labels and targets of code\<close>

primrec labels :: "instr list \<Rightarrow> int list" where
  "labels [] = []"
| "labels (i # is) = (case i of LabelL l \<Rightarrow> l # labels is | _ \<Rightarrow> labels is)"

definition target :: "instr \<Rightarrow> int set" where
  "target i = (case i of JmpL l \<Rightarrow> {l} | JccL c l \<Rightarrow> {l} | QuadCase v l \<Rightarrow> {l} | QuadL l \<Rightarrow> {l}
     | SwLeaRdx l \<Rightarrow> {l} | _ \<Rightarrow> {})"

definition targets :: "instr list \<Rightarrow> int set" where
  "targets code = (\<Union>i\<in>set code. target i)"

lemma labels_append [simp]: "labels (a @ b) = labels a @ labels b"
  by (induction a) (auto split: instr.split)

lemma targets_simps [simp]:
  "targets [] = {}" "targets (i # is) = target i \<union> targets is" "targets (a @ b) = targets a \<union> targets b"
  by (auto simp: targets_def)

text \<open>The end label of the function being compiled, to which \<^verbatim>\<open>cgreturn\<close> jumps.\<close>

definition endlab :: "compiler \<Rightarrow> int set" where
  "endlab s = (case Functionid s of None \<Rightarrow> {} | Some f \<Rightarrow> {s_posn (Heap s ! f)})"

section \<open>Steps of the generator\<close>

text \<open>\<open>s'\<close> is \<open>s\<close> with \<open>code\<close> printed; symbols are not touched.\<close>

definition prints :: "compiler \<Rightarrow> instr list \<Rightarrow> compiler \<Rightarrow> bool" where
  "prints s code s' \<longleftrightarrow> Outfile s' = Outfile s @ code \<and> Heap s' = Heap s \<and> Functionid s' = Functionid s"

text \<open>Functions that define no label and use no new one.\<close>

definition quiet :: "int set \<Rightarrow> 'a gcomp \<Rightarrow> bool" where
  "quiet T m \<longleftrightarrow> (\<forall>s x s'. m s = Inr (x, s') \<longrightarrow> labelid s' = labelid s \<and>
     (\<exists>code. prints s code s' \<and> labels code = [] \<and> targets code \<subseteq> T \<union> endlab s))"

lemma prints_refl: "prints s [] s"
  by (simp add: prints_def)

lemma prints_trans: "prints s a s' \<Longrightarrow> prints s' b s'' \<Longrightarrow> prints s (a @ b) s''"
  by (simp add: prints_def)

lemma prints_endlab: "prints s a s' \<Longrightarrow> endlab s' = endlab s"
  by (simp add: prints_def endlab_def split: option.split)

lemma quiet_bnd [intro!]:
  assumes "quiet T m" "\<And>x. quiet T (f x)"
  shows "quiet T (bnd m f)"
  unfolding quiet_def
proof (intro allI impI)
  fix s x s'
  assume "bnd m f s = Inr (x, s')"
  then obtain y s1 where 1: "m s = Inr (y, s1)" "f y s1 = Inr (x, s')" by (auto simp: bnd_eq_Inr)
  obtain a where a: "labelid s1 = labelid s" "prints s a s1" "labels a = []" "targets a \<subseteq> T \<union> endlab s"
    using assms(1) 1(1) unfolding quiet_def by blast
  obtain b where b: "labelid s' = labelid s1" "prints s1 b s'" "labels b = []" "targets b \<subseteq> T \<union> endlab s1"
    using assms(2) 1(2) unfolding quiet_def by blast
  show "labelid s' = labelid s \<and>
     (\<exists>code. prints s code s' \<and> labels code = [] \<and> targets code \<subseteq> T \<union> endlab s)"
    using a b prints_trans[OF a(2) b(2)] prints_endlab[OF a(2)] by (intro conjI exI[of _ "a @ b"]) auto
qed

lemma quiet_thn [intro!]: "quiet T m \<Longrightarrow> quiet T k \<Longrightarrow> quiet T (thn m k)"
  unfolding thn_def by blast

lemma quiet_ret [intro!]: "quiet T (ret x)"
  by (auto simp: quiet_def intro: prints_refl)

lemma quiet_err [intro!]: "quiet T (err e)"
  by (simp add: quiet_def)

lemma quiet_die [intro!]: "quiet T (die m)" "quiet T (fatal a)" "quiet T (fatald a d)" "quiet T (fatals a b)"
  by (simp_all add: quiet_def fatal_defs)

lemma quiet_rd [intro!]: "(\<And>v. quiet T (k v)) \<Longrightarrow> quiet T (rd f k)"
  by (simp add: quiet_def)

definition silent :: "(compiler \<Rightarrow> compiler) \<Rightarrow> bool" where
  "silent f \<longleftrightarrow> (\<forall>s. prints s [] (f s) \<and> labelid (f s) = labelid s)"

lemma quiet_wr [intro!]:
  assumes "silent f" "quiet T k"
  shows "quiet T (wr f k)"
  unfolding quiet_def
proof (intro allI impI)
  fix s x s'
  assume "wr f k s = Inr (x, s')"
  then have "k (f s) = Inr (x, s')" by simp
  then obtain b where b: "labelid s' = labelid (f s)" "prints (f s) b s'" "labels b = []" "targets b \<subseteq> T \<union> endlab (f s)"
    using assms(2) unfolding quiet_def by blast
  have f: "prints s [] (f s)" "labelid (f s) = labelid s" using assms(1) by (simp_all add: silent_def)
  show "labelid s' = labelid s \<and>
     (\<exists>code. prints s code s' \<and> labels code = [] \<and> targets code \<subseteq> T \<union> endlab s)"
    using b f prints_trans[OF f(1) b(2)] prints_endlab[OF f(1)] by auto
qed

lemma quiet_modify [intro!]: "silent f \<Longrightarrow> quiet T (modify f)"
  by (auto simp: quiet_def silent_def)

lemma silent_simps [intro!]:
  "silent (\<lambda>s. s\<lparr>freereg := a s\<rparr>)" "silent (\<lambda>s. s\<lparr>spillreg := b\<rparr>)" "silent (\<lambda>s. s\<lparr>Line := c\<rparr>)"
  by (simp_all add: silent_def prints_def)

lemma quiet_emit [intro!]:
  assumes "labels [i] = []" "target i \<subseteq> T"
  shows "quiet T (emit i)"
  using assms by (auto simp: quiet_def emit_def prints_def split: if_splits)

lemma quiet_emits [intro!]: "labels is = [] \<Longrightarrow> targets is \<subseteq> T \<Longrightarrow> quiet T (emits is)"
  by (induction "is") (auto split: instr.splits)

lemma quiet_deref [intro!]:
  "(\<And>e. quiet T (k e)) \<Longrightarrow> quiet T (deref p k)" "(\<And>e. quiet T (k e)) \<Longrightarrow> quiet T (deref_opt q k)"
  by (auto simp: deref_def deref_opt_def split: option.split)

lemma quiet_if [intro!]: "(b \<Longrightarrow> quiet T m) \<Longrightarrow> (\<not> b \<Longrightarrow> quiet T k) \<Longrightarrow> quiet T (if b then m else k)"
  by simp

lemma quiet_option [intro!]:
  "quiet T m \<Longrightarrow> (\<And>x. quiet T (k x)) \<Longrightarrow> quiet T (case v of None \<Rightarrow> m | Some x \<Rightarrow> k x)"
  by (simp split: option.split)

text \<open>The functions of \<^verbatim>\<open>types.c\<close> and \<^verbatim>\<open>cg.c\<close> that the generator calls.\<close>

lemma quiet_types [intro!]:
  "quiet T (value_at t)" "quiet T (cgprimsize t)" "quiet T (typesize t c)"
  unfolding value_at_def cgprimsize_def typesize_def by auto

lemma quiet_registers [intro!]:
  "quiet T (cgfreeallregs k)" "quiet T cgallocreg" "quiet T (cgfreereg r)"
  "quiet T cgspillregs" "quiet T cgunspillregs"
  unfolding cgfreeallregs_def cgallocreg_def cgfreereg_def pushreg_def popreg_def Let_def
  by (auto simp: target_def cgspillregs_def cgunspillregs_def NUMFREEREGS_def upt_rec)

lemma quiet_moves [intro!]:
  "quiet T (cgmove a b)" "quiet T (cglinenum l)" "l \<in> T \<Longrightarrow> quiet T (cgjump l)"
  unfolding cgmove_def cglinenum_def cgjump_def by (auto simp: target_def)

lemma quiet_stores [intro!]:
  "quiet T (store_size w t)" "quiet T (cgstorglob r e)" "quiet T (cgstorlocal r e)"
  "(\<And>z. labels [f z] = [] \<and> target (f z) = {}) \<Longrightarrow> quiet T (emit_sized sz f)"
  "quiet T (incr_offset e q)"
  unfolding store_size_def cgstorglob_def cgstorlocal_def emit_sized_def incr_offset_def
  by (auto simp: target_def)

lemma quiet_loads [intro!]:
  "quiet T (cgloadint v t)" "quiet T (cgloadvar e q)" "quiet T (cgloadglobstr l)"
  "quiet T (cgaddress e)" "quiet T (cgderef r t)" "quiet T (cgstorderef a b t)"
  unfolding cgloadint_def cgloadvar_def cgloadglobstr_def cgaddress_def cgderef_def cgstorderef_def
    lea_sym_def
  by (auto simp: target_def split: if_splits)

lemma quiet_arith [intro!]:
  "quiet T (cgbin b x y)" "quiet T (cgdivmod x y q)" "quiet T (cgshl x y)" "quiet T (cgshr x y)"
  "quiet T (cgnegate x)" "quiet T (cginvert x)" "quiet T (cglognot x)" "quiet T (cgloadboolean x v)"
  "quiet T (cgshlconst x v)" "quiet T (cgwiden x t t')"
  unfolding cgbin_def cgdivmod_def cgshl_def cgshr_def cgnegate_def cginvert_def cglognot_def
    cgloadboolean_def cgshlconst_def cgwiden_def
  by (auto simp: target_def)

lemma quiet_cgbin_defs [intro!]:
  "quiet T (cgadd x y)" "quiet T (cgsub x y)" "quiet T (cgmul x y)" "quiet T (cgand x y)"
  "quiet T (cgor x y)" "quiet T (cgxor x y)"
  by (auto simp: cgbin_defs)

lemma quiet_conditions [intro!]:
  "l \<in> T \<Longrightarrow> quiet T (cgboolean r p l)" "quiet T (cgcompare_and_set q x y t)"
  "l \<in> T \<Longrightarrow> quiet T (cgcompare_and_jump q x y l t)"
  unfolding cgboolean_def cgcompare_and_set_def cgcompare_and_jump_def
  by (auto simp: target_def)

lemma quiet_calls [intro!]:
  "quiet T (cgcall e k)" "quiet T (cgcopyarg r p)"
  unfolding cgcall_def cgcopyarg_def by (auto simp: target_def)

lemma quiet_update_line [intro!]: "quiet T (update_line n)"
  unfolding update_line_def by auto

lemma quiet_genfreeregs [intro!]: "quiet T (genfreeregs k)"
  unfolding genfreeregs_def by auto

lemma quiet_return [intro!]: "quiet T (rd Functionid (\<lambda>f. thn (cgreturn r f) (ret x)))"
  unfolding quiet_def
proof (intro allI impI)
  fix s y s'
  assume a: "rd Functionid (\<lambda>f. thn (cgreturn r f) (ret x)) s = Inr (y, s')"
  then obtain f where f: "Functionid s = Some f" "f < length (Heap s)"
    by (auto simp: thn_eq_Inr cgreturn_def deref_opt_def deref_def split: option.splits if_splits)
  let ?e = "Heap s ! f"
  have "quiet {s_posn ?e} (thn (if r \<noteq> NOREG then
            if ptrtype (s_type ?e) then emit (RetMov 8 r)
            else if s_type ?e = P_CHAR then emit (RetMov 1 r)
            else if s_type ?e = P_INT then emit (RetMov 4 r)
            else if s_type ?e = P_LONG then emit (RetMov 8 r)
            else fatald ''Bad function type in cgreturn:'' (s_type ?e)
          else ret ()) (cgjump (s_posn ?e)))" (is "quiet _ ?m")
    by (auto simp: target_def)
  moreover have "?m s = Inr ((), s')"
    using a f by (auto simp: thn_eq_Inr cgreturn_def deref_opt_def deref_def)
  ultimately obtain code where c: "labelid s' = labelid s" "prints s code s'" "labels code = []"
      "targets code \<subseteq> {s_posn ?e} \<union> endlab s"
    unfolding quiet_def by blast
  moreover have "endlab s = {s_posn ?e}" using f by (simp add: endlab_def)
  ultimately show "labelid s' = labelid s \<and>
     (\<exists>code. prints s code s' \<and> labels code = [] \<and> targets code \<subseteq> T \<union> endlab s)"
    by blast
qed

lemma quiet_gen_store [intro!]: "quiet T (gen_store q t a b)"
  unfolding gen_store_def by auto

lemma quiet_gen_assign [intro!]: "quiet T (gen_assign n a b)"
  unfolding gen_assign_def by (cases "op n") auto

lemma quiet_gen_scale [intro!]: "quiet T (gen_scale n a)"
  unfolding gen_scale_def by auto

lemma quiet_gen_op:
  assumes "{a, b, c} \<subseteq> T"
  shows "quiet T (gen_op n x y a b c p)"
  unfolding gen_op_def using assms by auto

section \<open>The code for a tree\<close>

text \<open>
  \<open>gens T D m P\<close>: \<open>m\<close> prints code in which every label is defined once. The labels of \<open>D\<close> were
  handed out before and are defined in it; the others are handed out by \<open>m\<close>. Its jumps go to
  its labels, to \<open>T\<close> or to the end of the function. \<open>P\<close> relates the result to the labels.
\<close>

definition gens :: "int set \<Rightarrow> int set \<Rightarrow> 'a gcomp \<Rightarrow> ('a \<Rightarrow> int set \<Rightarrow> bool) \<Rightarrow> bool" where
  "gens T D m P \<longleftrightarrow> (\<forall>s x s'. m s = Inr (x, s') \<longrightarrow> (\<forall>l\<in>D. l < labelid s) \<longrightarrow>
     (\<exists>code. prints s code s' \<and> labelid s \<le> labelid s' \<and> distinct (labels code)
        \<and> D \<subseteq> set (labels code) \<and> set (labels code) \<subseteq> D \<union> {labelid s..<labelid s'}
        \<and> targets code \<subseteq> set (labels code) \<union> T \<union> endlab s \<and> P x (set (labels code))))"

abbreviation (input) well_labelled :: "int set \<Rightarrow> 'a gcomp \<Rightarrow> bool" where
  "well_labelled T m \<equiv> gens T {} m (\<lambda>_ _. True)"

definition upward :: "('a \<Rightarrow> int set \<Rightarrow> bool) \<Rightarrow> bool" where
  "upward P \<longleftrightarrow> (\<forall>x L M. P x L \<longrightarrow> L \<subseteq> M \<longrightarrow> P x M)"

lemma upward_True [simp]: "upward (\<lambda>_ _. True)"
  by (simp add: upward_def)

lemma gensI:
  assumes "\<And>s x s'. m s = Inr (x, s') \<Longrightarrow> \<forall>l\<in>D. l < labelid s \<Longrightarrow>
     \<exists>code. prints s code s' \<and> labelid s \<le> labelid s' \<and> distinct (labels code)
        \<and> D \<subseteq> set (labels code) \<and> set (labels code) \<subseteq> D \<union> {labelid s..<labelid s'}
        \<and> targets code \<subseteq> set (labels code) \<union> T \<union> endlab s \<and> P x (set (labels code))"
  shows "gens T D m P"
  using assms unfolding gens_def by blast

lemma gensE:
  assumes "gens T D m P" "m s = Inr (x, s')" "\<forall>l\<in>D. l < labelid s"
  obtains code where "prints s code s'" "labelid s \<le> labelid s'" "distinct (labels code)"
    "D \<subseteq> set (labels code)" "set (labels code) \<subseteq> D \<union> {labelid s..<labelid s'}"
    "targets code \<subseteq> set (labels code) \<union> T \<union> endlab s" "P x (set (labels code))"
  using assms unfolding gens_def by blast

lemma gens_mono: "gens T D m P \<Longrightarrow> T \<subseteq> T' \<Longrightarrow> gens T' D m P"
  by (rule gensI, erule gensE, assumption+) blast

lemma quiet_well_labelled: "quiet T m \<Longrightarrow> well_labelled T m"
proof (rule gensI)
  fix s x s'
  assume "quiet T m" "m s = Inr (x, s')"
  then obtain code where "labelid s' = labelid s" "prints s code s'" "labels code = []"
      "targets code \<subseteq> T \<union> endlab s" unfolding quiet_def by blast
  then show "\<exists>code. prints s code s' \<and> labelid s \<le> labelid s' \<and> distinct (labels code)
        \<and> {} \<subseteq> set (labels code) \<and> set (labels code) \<subseteq> {} \<union> {labelid s..<labelid s'}
        \<and> targets code \<subseteq> set (labels code) \<union> T \<union> endlab s \<and> True"
    by (intro exI[of _ code]) simp
qed

text \<open>Running one piece of code after another.\<close>

lemma gens_bnd_post:
  assumes m: "gens (T \<union> D) {} m Q" and f: "\<And>x L. Q x L \<Longrightarrow> gens (T \<union> L) D (f x) P" and up: "upward P"
  shows "gens T D (bnd m f) P"
proof (rule gensI)
  fix s x s'
  assume r: "bnd m f s = Inr (x, s')" and d: "\<forall>l\<in>D. l < labelid s"
  then obtain y s1 where 1: "m s = Inr (y, s1)" "f y s1 = Inr (x, s')" by (auto simp: bnd_eq_Inr)
  obtain a where a: "prints s a s1" "labelid s \<le> labelid s1" "distinct (labels a)"
      "set (labels a) \<subseteq> {} \<union> {labelid s..<labelid s1}"
      "targets a \<subseteq> set (labels a) \<union> (T \<union> D) \<union> endlab s" "Q y (set (labels a))"
    using m 1(1) by (rule gensE) auto
  have "\<forall>l\<in>D. l < labelid s1" using d a(2) by auto
  with f[OF a(6)] 1(2) obtain b where b: "prints s1 b s'" "labelid s1 \<le> labelid s'" "distinct (labels b)"
      "D \<subseteq> set (labels b)" "set (labels b) \<subseteq> D \<union> {labelid s1..<labelid s'}"
      "targets b \<subseteq> set (labels b) \<union> (T \<union> set (labels a)) \<union> endlab s1" "P x (set (labels b))"
    by (rule gensE)
  have "set (labels a) \<inter> set (labels b) = {}" using a(4) b(5) d by fastforce
  then have dist: "distinct (labels (a @ b))" using a(3) b(3) by simp
  have sub: "set (labels (a @ b)) \<subseteq> D \<union> {labelid s..<labelid s'}"
  proof
    fix l assume "l \<in> set (labels (a @ b))"
    then consider "l \<in> set (labels a)" | "l \<in> set (labels b)" by auto
    then show "l \<in> D \<union> {labelid s..<labelid s'}"
      using a(2,4) b(2,5) by cases auto
  qed
  have P: "P x (set (labels (a @ b)))" using up b(7) unfolding upward_def by auto
  have e: "endlab s1 = endlab s" using prints_endlab[OF a(1)] .
  have t: "targets (a @ b) \<subseteq> set (labels (a @ b)) \<union> T \<union> endlab s"
    using a(5) b(4,6) unfolding e by auto
  show "\<exists>code. prints s code s' \<and> labelid s \<le> labelid s' \<and> distinct (labels code)
        \<and> D \<subseteq> set (labels code) \<and> set (labels code) \<subseteq> D \<union> {labelid s..<labelid s'}
        \<and> targets code \<subseteq> set (labels code) \<union> T \<union> endlab s \<and> P x (set (labels code))"
    using prints_trans[OF a(1) b(1)] dist sub P t a(2) b(2,4) by (intro exI[of _ "a @ b"]) auto
qed

lemma gens_bnd:
  assumes "well_labelled (T \<union> D) m" "\<And>x. gens T D (f x) P" "upward P"
  shows "gens T D (bnd m f) P"
  using assms(1) by (rule gens_bnd_post) (auto intro: gens_mono[OF assms(2)] assms(3))

lemma gens_thn:
  "well_labelled (T \<union> D) m \<Longrightarrow> gens T D k P \<Longrightarrow> upward P \<Longrightarrow> gens T D (thn m k) P"
  unfolding thn_def by (rule gens_bnd)

lemma gens_label:
  assumes l: "l \<in> D" and k: "gens (insert l T) (D - {l}) k (\<lambda>x L. P x (insert l L))"
  shows "gens T D (thn (cglabel l) k) P"
proof (rule gensI)
  fix s x s'
  assume r: "thn (cglabel l) k s = Inr (x, s')" and d: "\<forall>l\<in>D. l < labelid s"
  define s1 where "s1 = s\<lparr>Outfile := Outfile s @ [LabelL l]\<rparr>"
  have p: "prints s [LabelL l] s1" and i: "labelid s1 = labelid s" by (simp_all add: prints_def s1_def)
  have "k s1 = Inr (x, s')" using r by (simp add: thn_def bnd_def cglabel_def emit_def s1_def)
  with k obtain b where b: "prints s1 b s'" "labelid s1 \<le> labelid s'" "distinct (labels b)"
      "D - {l} \<subseteq> set (labels b)" "set (labels b) \<subseteq> (D - {l}) \<union> {labelid s1..<labelid s'}"
      "targets b \<subseteq> set (labels b) \<union> insert l T \<union> endlab s1" "P x (insert l (set (labels b)))"
    by (rule gensE) (use d i in auto)
  have "l < labelid s" using l d by blast
  then have "l \<notin> set (labels b)" using b(5) i by auto
  then show "\<exists>code. prints s code s' \<and> labelid s \<le> labelid s' \<and> distinct (labels code)
        \<and> D \<subseteq> set (labels code) \<and> set (labels code) \<subseteq> D \<union> {labelid s..<labelid s'}
        \<and> targets code \<subseteq> set (labels code) \<union> T \<union> endlab s \<and> P x (set (labels code))"
    using b i l prints_trans[OF p b(1)] prints_endlab[OF p]
    by (intro exI[of _ "LabelL l # b"]) (auto simp: target_def)
qed

lemma gens_genlabel:
  assumes f: "\<And>l. l \<notin> D \<Longrightarrow> gens T (insert l D) (f l) P"
  shows "gens T D (bnd genlabel f) P"
proof (rule gensI)
  fix s x s'
  assume r: "bnd genlabel f s = Inr (x, s')" and d: "\<forall>l\<in>D. l < labelid s"
  define s1 where "s1 = s\<lparr>labelid := labelid s + 1\<rparr>"
  have p: "prints s [] s1" and i: "labelid s1 = labelid s + 1" by (simp_all add: prints_def s1_def)
  have new: "labelid s \<notin> D" using d by auto
  have "f (labelid s) s1 = Inr (x, s')"
    using r by (simp add: bnd_def genlabel_def s1_def)
  with f[OF new] obtain b where b: "prints s1 b s'" "labelid s1 \<le> labelid s'" "distinct (labels b)"
      "insert (labelid s) D \<subseteq> set (labels b)"
      "set (labels b) \<subseteq> insert (labelid s) D \<union> {labelid s1..<labelid s'}"
      "targets b \<subseteq> set (labels b) \<union> T \<union> endlab s1" "P x (set (labels b))"
    by (rule gensE) (use d i in auto)
  have "set (labels b) \<subseteq> D \<union> {labelid s..<labelid s'}"
    using b(2,5) i by fastforce
  then show "\<exists>code. prints s code s' \<and> labelid s \<le> labelid s' \<and> distinct (labels code)
        \<and> D \<subseteq> set (labels code) \<and> set (labels code) \<subseteq> D \<union> {labelid s..<labelid s'}
        \<and> targets code \<subseteq> set (labels code) \<union> T \<union> endlab s \<and> P x (set (labels code))"
    using b i prints_trans[OF p b(1)] prints_endlab[OF p] by (intro exI[of _ b]) auto
qed

lemma gens_ret: "D = {} \<Longrightarrow> P x {} \<Longrightarrow> gens T D (ret x) P"
  by (rule gensI, rule exI[of _ "[]"]) (auto simp: prints_def)

lemma gens_last_label: "D = {l} \<Longrightarrow> gens T D (cglabel l) (\<lambda>_ _. True)"
  by (rule gensI, rule exI[of _ "[LabelL l]"])
     (auto simp: prints_def cglabel_def emit_def target_def)

lemma thn_assoc: "thn (thn a b) c = thn a (thn b c)"
  by (simp add: thn_def bnd_assoc)

lemma thn_ret [simp]: "thn (ret x) k = k"
  by (rule ext) (simp add: thn_def bnd_def)

end
