(* ===== verification/LabelProps.thy ===== *)
theory LabelProps
  imports GenLabels
begin

text \<open>
  The labels of the code for statements: every construct of \<^verbatim>\<open>gen.c\<close> prints well labelled code
  when the generator for its sub-trees does.
\<close>

text \<open>A tree of the body of a function: an \<open>A_FUNCTION\<close> node is only ever the root.\<close>

primrec no_function :: "ast \<Rightarrow> bool" where
  "no_function Null \<longleftrightarrow> True"
| "no_function (Node q t c rv l m r sy v lno) \<longleftrightarrow>
     q \<noteq> A_FUNCTION \<and> no_function l \<and> no_function m \<and> no_function r"

definition labels_well :: "gen \<Rightarrow> ast \<Rightarrow> bool" where
  "labels_well g n \<longleftrightarrow> (\<forall>a b c p. well_labelled {a, b, c, 0} (g n a b c p))"

lemma labels_wellD: "labels_well g n \<Longrightarrow> {a, b, c, 0} \<subseteq> T \<Longrightarrow> well_labelled T (g n a b c p)"
  unfolding labels_well_def by (blast intro: gens_mono)

lemmas gens_rules = gens_genlabel gens_label gens_bnd gens_thn gens_ret gens_last_label

lemmas labels_quiet =
  quiet_well_labelled [OF quiet_genfreeregs] quiet_well_labelled [OF quiet_moves(1)]
  quiet_well_labelled [OF quiet_moves(3)] quiet_well_labelled [OF quiet_update_line]
  quiet_well_labelled [OF quiet_registers(2)] quiet_well_labelled [OF quiet_registers(3)]
  quiet_well_labelled [OF quiet_registers(4)]
  quiet_well_labelled [OF quiet_conditions(1)] quiet_well_labelled [OF quiet_arith(8)]
  quiet_well_labelled [OF quiet_calls(1)] quiet_well_labelled [OF quiet_calls(2)]
  quiet_well_labelled [OF quiet_ret]

section \<open>Statements\<close>

lemma labels_if:
  assumes "labels_well g (left n)" "labels_well g (mid n)" "labels_well g (right n)" "{b, c, 0} \<subseteq> T"
  shows "well_labelled T (genIF g n b c)"
proof (cases "right n = Null")
  case True
  then show ?thesis
    unfolding genIF_def using assms
    by (simp, intro gens_rules upward_True) (auto intro!: labels_wellD [of g] labels_quiet)
next
  case False
  then show ?thesis
    unfolding genIF_def using assms
    by (simp add: thn_assoc, intro gens_rules upward_True) (auto intro!: labels_wellD [of g] labels_quiet)
qed

lemma labels_while:
  assumes "labels_well g (left n)" "labels_well g (right n)" "0 \<in> T"
  shows "well_labelled T (genWHILE g n)"
  unfolding genWHILE_def using assms
  by (intro gens_rules upward_True) (auto intro!: labels_wellD [of g] labels_quiet)

lemma labels_logandor:
  assumes "labels_well g (left n)" "labels_well g (right n)" "0 \<in> T"
  shows "well_labelled T (gen_logandor g n)"
proof (cases "op n = A_LOGAND")
  case True
  then show ?thesis
    unfolding gen_logandor_def using assms
    by (simp add: thn_assoc, intro gens_rules upward_True) (auto intro!: labels_wellD [of g] labels_quiet)
next
  case False
  then show ?thesis
    unfolding gen_logandor_def using assms
    by (simp add: thn_assoc, intro gens_rules upward_True) (auto intro!: labels_wellD [of g] labels_quiet)
qed

lemma labels_ternary:
  assumes "labels_well g (left n)" "labels_well g (mid n)" "labels_well g (right n)" "0 \<in> T"
  shows "well_labelled T (gen_ternary g n)"
  unfolding gen_ternary_def using assms
  by (intro gens_rules upward_True) (auto intro!: labels_wellD [of g] labels_quiet)

lemma labels_glue:
  assumes "labels_well g (left n)" "labels_well g (right n)" "{a, b, c, 0} \<subseteq> T"
  shows "well_labelled T (gen_glue g n a b c)"
  unfolding gen_glue_def using assms
  by (intro gens_rules upward_True) (auto intro!: labels_wellD [of g] labels_quiet gens_thn)

primrec all_args :: "(ast \<Rightarrow> bool) \<Rightarrow> ast \<Rightarrow> bool" where
  "all_args P Null \<longleftrightarrow> True"
| "all_args P (Node q t c rv l m r sy v lno) \<longleftrightarrow> P r \<and> all_args P l"

lemma labels_args:
  assumes "all_args (labels_well g) n" "0 \<in> T"
  shows "well_labelled T (gen_args g n k)"
  using assms(1)
proof (induction n arbitrary: k)
  case (Node q t c rv l m r sy v lno)
  then show ?case
    using assms(2) by (auto simp del: ret_run intro!: gens_bnd gens_thn labels_wellD [of g] labels_quiet)
qed (auto simp del: ret_run intro: labels_quiet)

lemma labels_deref:
  "(\<And>e. well_labelled T (k e)) \<Longrightarrow> well_labelled T (deref_opt q k)"
  by (auto simp: deref_opt_def deref_def gens_def split: option.split)

lemma labels_funccall:
  assumes "all_args (labels_well g) (left n)" "0 \<in> T"
  shows "well_labelled T (gen_funccall g n)"
  unfolding gen_funccall_def using assms
  by (auto intro!: gens_thn gens_bnd labels_args labels_deref labels_quiet)

section \<open>The switch statement\<close>

primrec all_cases :: "(ast \<Rightarrow> bool) \<Rightarrow> ast \<Rightarrow> bool" where
  "all_cases P Null \<longleftrightarrow> True"
| "all_cases P (Node q t c rv l m r sy v lno) \<longleftrightarrow> P l \<and> all_cases P r"

definition case_labels :: "int \<Rightarrow> int list \<times> int list \<times> int \<times> nat \<Rightarrow> int set \<Rightarrow> bool" where
  "case_labels d x L \<longleftrightarrow> set (fst x) \<subseteq> L \<and> fst (snd (snd x)) \<in> insert d L"

lemma labels_cases:
  assumes "all_cases (labels_well g) n" "{0, e} \<subseteq> T"
  shows "gens T {} (gen_cases g n e d) (case_labels d)"
  using assms
proof (induction n arbitrary: d T)
  case Null
  show ?case unfolding gen_cases.simps by (rule gens_ret) (simp_all add: case_labels_def)
next
  case (Node q t c rv l m r sy v lno)
  have up: "upward (\<lambda>x L. case_labels d x (insert lab L))" for lab
    by (auto simp: upward_def case_labels_def)
  have ih: "gens T' {} (gen_cases g r e d') (case_labels d')" if "T \<subseteq> T'" for T' d'
    using Node.prems that by (intro Node.IH(3)) auto
  show ?case
    unfolding gen_cases.simps
  proof (intro gens_genlabel gens_label gens_thn up)
    fix lab
    show "gens (insert lab T) ({lab} - {lab}) (bnd (gen_cases g r e (if q = A_DEFAULT then lab else d))
        (\<lambda>(labs, vals, d, n). ret (lab # labs, v # vals, d, if q = A_DEFAULT then n else Suc n)))
        (\<lambda>x L. case_labels d x (insert lab L))"
      unfolding gens_def
    proof (intro allI impI)
      fix s x s'
      assume a: "bnd (gen_cases g r e (if q = A_DEFAULT then lab else d))
        (\<lambda>(labs, vals, d, n). ret (lab # labs, v # vals, d, if q = A_DEFAULT then n else Suc n)) s = Inr (x, s')"
      then obtain labs vals d' k where
        1: "gen_cases g r e (if q = A_DEFAULT then lab else d) s = Inr ((labs, vals, d', k), s')"
        and x: "x = (lab # labs, v # vals, d', if q = A_DEFAULT then k else Suc k)"
        by (auto simp: bnd_eq_Inr)
      have "gens (insert lab T) {} (gen_cases g r e (if q = A_DEFAULT then lab else d))
          (case_labels (if q = A_DEFAULT then lab else d))" by (rule ih) auto
      from this 1 obtain code where
        "prints s code s'" "labelid s \<le> labelid s'" "distinct (labels code)"
        "set (labels code) \<subseteq> {} \<union> {labelid s..<labelid s'}"
        "targets code \<subseteq> set (labels code) \<union> insert lab T \<union> endlab s"
        "case_labels (if q = A_DEFAULT then lab else d) (labs, vals, d', k) (set (labels code))"
        by (rule gensE) auto
      then show "\<exists>code. prints s code s' \<and> labelid s \<le> labelid s' \<and> distinct (labels code)
          \<and> {lab} - {lab} \<subseteq> set (labels code)
          \<and> set (labels code) \<subseteq> ({lab} - {lab}) \<union> {labelid s..<labelid s'}
          \<and> targets code \<subseteq> set (labels code) \<union> insert lab T \<union> endlab s
          \<and> case_labels d x (insert lab (set (labels code)))"
        unfolding x by (intro exI[of _ code]) (auto simp: case_labels_def split: if_splits)
    qed
  qed (use Node.prems in \<open>auto intro!: labels_wellD [of g] labels_quiet gens_thn gens_mono [OF labels_wellD [of g]]\<close>)
qed

lemma thn_bnd: "thn (bnd m f) k = bnd m (\<lambda>x. thn (f x) k)"
  by (simp add: thn_def bnd_assoc)

lemma quiet_table:
  assumes "set ls \<subseteq> T"
  shows "quiet T (emits (map (\<lambda>(v, l). QuadCase v l) (zip vs ls)))"
proof (rule quiet_emits)
  show "labels (map (\<lambda>(v, l). QuadCase v l) (zip vs ls)) = []"
    by (induction vs ls rule: list_induct2') simp_all
  show "targets (map (\<lambda>(v, l). QuadCase v l) (zip vs ls)) \<subseteq> T"
    using assms by (auto simp: targets_def target_def dest: set_zip_rightD)
qed

lemma quiet_data [intro]:
  "quiet T (emit (QuadD v))" "l \<in> T \<Longrightarrow> quiet T (emit (QuadL l))"
  "l \<in> T \<Longrightarrow> quiet T (emits [SwRaxFrom r, SwLeaRdx l, JmpSwitch])"
  by (auto simp: target_def)

lemma labels_cgswitch:
  assumes k: "\<And>l. gens (insert jt (insert l T)) (D - {jt}) k (\<lambda>_ _. True)"
    and ls: "set ls \<subseteq> T \<union> D" "d \<in> T \<union> D" and jt: "jt \<in> D"
  shows "gens T D (thn (cgswitch r cnt jt ls vs d) k) (\<lambda>_ _. True)"
proof -
  obtain vals tabs where t: "(if cnt = 0 then ([0], [d]) else (take cnt vs, take cnt ls)) = (vals, tabs)"
    by (metis surj_pair)
  then have tabs: "set tabs \<subseteq> T \<union> D"
    using ls by (auto split: if_splits dest: in_set_takeD)
  show ?thesis
    unfolding cgswitch_def t Let_def prod.case thn_assoc thn_bnd
  proof (intro gens_genlabel)
    fix lab assume new: "lab \<notin> D"
    have T: "set tabs \<subseteq> insert lab T \<union> D" "d \<in> insert lab T \<union> D" using tabs ls by auto
    have e: "insert lab D - {lab} = D" using new by auto
    have l: "lab \<in> insert jt (insert lab T) \<union> (D - {jt})" by simp
    have "gens (insert lab T) D (thn (emit (QuadD (int (length vals)))) (
        thn (emits (map (\<lambda>(v, l). QuadCase v l) (zip vals tabs))) (thn (emit (QuadL d)) (
        thn (cglabel jt) (thn (emits [SwRaxFrom r, SwLeaRdx lab, JmpSwitch]) k))))) (\<lambda>_ _. True)"
      by (intro gens_label gens_thn upward_True quiet_well_labelled quiet_data quiet_table T jt l k)
    then show "gens T (insert lab D) (thn (cglabel lab) (thn (emit (QuadD (int (length vals)))) (
        thn (emits (map (\<lambda>(v, l). QuadCase v l) (zip vals tabs))) (thn (emit (QuadL d)) (
        thn (cglabel jt) (thn (emits [SwRaxFrom r, SwLeaRdx lab, JmpSwitch]) k)))))) (\<lambda>_ _. True)"
      by (intro gens_label) (simp_all add: e)
  qed
qed

lemma labels_switch:
  assumes "labels_well g (left n)" "all_cases (labels_well g) (right n)" "0 \<in> T"
  shows "well_labelled T (genSWITCH g n)"
  unfolding genSWITCH_def
proof (intro gens_genlabel)
  fix jt e :: int assume "e \<notin> insert jt {}"
  then have ne: "jt \<noteq> e" "{e, jt} - {jt} = {e}" "{e} - {e} = {}" by auto
  let ?D = "insert e (insert jt {})"
  have cases: "gens (T \<union> ?D) {} (gen_cases g (right n) e e) (case_labels e)"
    using assms by (intro labels_cases) auto
  have after: "gens (T \<union> L) ?D (case x of (caselabel, caseval, defaultlabel, casecount) \<Rightarrow>
       thn (cgjump e) (thn (cgswitch r casecount jt caselabel caseval defaultlabel) (thn (cglabel e) (ret NOREG))))
       (\<lambda>_ _. True)" if "case_labels e x L" for x L r
  proof -
    obtain ls vs d cnt where x: "x = (ls, vs, d, cnt)" by (metis surj_pair)
    have ls: "set ls \<subseteq> (T \<union> L) \<union> ?D" "d \<in> (T \<union> L) \<union> ?D"
      using that by (auto simp: x case_labels_def)
    show ?thesis
      unfolding x prod.case
      by (intro gens_thn labels_cgswitch ls upward_True gens_label gens_ret labels_quiet) (simp_all add: ne)
  qed
  show "gens T ?D (bnd (g (left n) NOLABEL NOLABEL NOLABEL None) (\<lambda>reg.
     thn (cgjump jt) (thn (genfreeregs reg) (
     bnd (gen_cases g (right n) e e) (\<lambda>(caselabel, caseval, defaultlabel, casecount).
     thn (cgjump e) (
     thn (cgswitch reg casecount jt caselabel caseval defaultlabel) (
     thn (cglabel e) (ret NOREG)))))))) (\<lambda>_ _. True)"
    by (intro gens_bnd gens_thn upward_True gens_bnd_post [OF cases] after labels_quiet labels_wellD [OF assms(1)])
       (use assms(3) in auto)
qed

section \<open>Whole trees\<close>

lemma all_args_small:
  assumes "\<And>m. size m \<le> size n \<Longrightarrow> no_function m \<Longrightarrow> P m" "no_function n"
  shows "all_args P n"
  using assms by (induction n) auto

lemma all_cases_small:
  assumes "\<And>m. size m \<le> size n \<Longrightarrow> no_function m \<Longrightarrow> P m" "no_function n"
  shows "all_cases P n"
  using assms by (induction n) auto

lemma labels_operands:
  assumes "labels_well g (left n)" "labels_well g (right n)" "{a, b, c, 0} \<subseteq> T"
  shows "well_labelled T (bnd (if left n \<noteq> Null
                 then g (left n) NOLABEL NOLABEL NOLABEL (Some (op n)) else ret NOREG) (\<lambda>x.
            bnd (if right n \<noteq> Null
                 then g (right n) NOLABEL NOLABEL NOLABEL (Some (op n)) else ret NOREG) (\<lambda>y.
            gen_op n x y a b c p)))"
proof -
  have "well_labelled T (gen_op n x y a b c p)" for x y
    using assms(3) by (intro quiet_well_labelled quiet_gen_op) auto
  then show ?thesis
    using assms by (intro gens_bnd upward_True) (auto intro!: labels_wellD [of g] labels_quiet)
qed

lemma labels_body:
  assumes g: "\<And>m. size m < size n \<Longrightarrow> no_function m \<Longrightarrow> labels_well g m" and n: "no_function n"
    and T: "{a, b, c, 0} \<subseteq> T"
  shows "well_labelled T (genAST_body g n a b c p)"
proof (cases n)
  case Null
  then show ?thesis by (simp add: genAST_body_def labels_quiet del: ret_run)
next
  case (Node q t ct rv l m r sy v lno)
  have sub: "labels_well g (left n)" "labels_well g (mid n)" "labels_well g (right n)"
    using n by (auto simp: Node intro!: g)
  have args: "all_args (labels_well g) (left n)"
    by (rule all_args_small) (use n in \<open>auto simp: Node intro!: g\<close>)
  have cases: "all_cases (labels_well g) (right n)"
    by (rule all_cases_small) (use n in \<open>auto simp: Node intro!: g\<close>)
  have ne: "n \<noteq> Null" "op n \<noteq> A_FUNCTION" using n by (auto simp: Node)
  have T': "{b, c, 0} \<subseteq> T" "0 \<in> T" using T by auto
  have "well_labelled T (if op n = A_IF then genIF g n b c
        else if op n = A_WHILE then genWHILE g n
        else if op n = A_SWITCH then genSWITCH g n
        else if op n = A_FUNCCALL then gen_funccall g n
        else if op n = A_TERNARY then gen_ternary g n
        else if op n = A_LOGOR then gen_logandor g n
        else if op n = A_LOGAND then gen_logandor g n
        else if op n = A_GLUE then gen_glue g n a b c
        else if op n = A_FUNCTION then gen_function g n
        else
            bnd (if left n \<noteq> Null
                 then g (left n) NOLABEL NOLABEL NOLABEL (Some (op n)) else ret NOREG) (\<lambda>x.
            bnd (if right n \<noteq> Null
                 then g (right n) NOLABEL NOLABEL NOLABEL (Some (op n)) else ret NOREG) (\<lambda>y.
            gen_op n x y a b c p)))"
    using ne(2) labels_if [OF sub T'(1)] labels_while [OF sub(1,3) T'(2)]
      labels_switch [OF sub(1) cases T'(2)] labels_funccall [OF args T'(2)]
      labels_ternary [OF sub T'(2)] labels_logandor [OF sub(1,3) T'(2)] labels_glue [OF sub(1,3) T]
      labels_operands [OF sub(1,3) T]
    by (simp only: split: if_split) blast
  then show ?thesis
    unfolding genAST_body_def if_not_P [OF ne(1)]
    by (intro gens_thn upward_True) (auto intro: labels_quiet)
qed

lemma labels_genAST_f: "size n < k \<Longrightarrow> no_function n \<Longrightarrow> labels_well (genAST_f k) n"
proof (induction k arbitrary: n)
  case (Suc k)
  then show ?case
    unfolding genAST_f.simps labels_well_def [of "genAST_body (genAST_f k)"]
    by (intro allI labels_body) auto
qed simp


definition loop_tree :: ast where
  "loop_tree =
     mkastnode A_WHILE P_NONE None (less_tree 1 2) Null
       (mkastnode A_IF P_NONE None (less_tree 1 2) (mkastleaf A_BREAK P_NONE None None 0)
         (mkastnode A_SWITCH P_NONE None (mkastleaf A_INTLIT P_INT None None 3) Null
           (mkastnode A_CASE P_NONE None (mkastleaf A_BREAK P_NONE None None 0) Null
             (mkastunary A_DEFAULT P_NONE None Null None 0) None 3) None 2) None 0) None 0"


end
