(* ===== verification/StmtSpec.thy ===== *)
theory StmtSpec
  imports GenExpr GenLabels
begin

text \<open>
  What the code for statements has to do: a machine with jumps that runs the printed lines from
  a position on, and the meaning of the statements it is compared with. A statement ends
  normally, with a \<^verbatim>\<open>break\<close> or with a \<^verbatim>\<open>continue\<close> of the loop around it.
\<close>

section \<open>Code with jumps\<close>

primrec find_label :: "instr list \<Rightarrow> int \<Rightarrow> nat option" where
  "find_label [] l = None"
| "find_label (i # is) l = (if i = LabelL l then Some 0 else map_option Suc (find_label is l))"

definition jump :: "instr list \<Rightarrow> int \<Rightarrow> mach \<Rightarrow> (nat \<times> mach) option" where
  "jump P l x = map_option (\<lambda>j. (j, x)) (find_label P l)"

text \<open>One line: the position of the next one, and the machine.\<close>

definition cstep :: "instr list \<Rightarrow> nat \<times> mach \<Rightarrow> (nat \<times> mach) option" where
  "cstep P c =
     (let (i, x) = c in
      if length P \<le> i then None
      else case P ! i of
        LabelL l \<Rightarrow> Some (Suc i, x)
      | JmpL l \<Rightarrow> jump P l x
      | JccL cnd l \<Rightarrow> if cond_holds cnd x then jump P l x else Some (Suc i, x)
      | ins \<Rightarrow> map_option (\<lambda>x'. (Suc i, x')) (exec1 ins x))"

inductive reaches :: "instr list \<Rightarrow> nat \<times> mach \<Rightarrow> nat \<times> mach \<Rightarrow> bool" for P where
  reaches_refl: "reaches P c c"
| reaches_step: "cstep P c = Some c1 \<Longrightarrow> reaches P c1 c2 \<Longrightarrow> reaches P c c2"

lemma reaches_trans: "reaches P a b \<Longrightarrow> reaches P b c \<Longrightarrow> reaches P a c"
  by (induction rule: reaches.induct) (auto intro: reaches.intros)

definition at :: "instr list \<Rightarrow> nat \<Rightarrow> instr list \<Rightarrow> bool" where
  "at P i code \<longleftrightarrow> (\<exists>pre post. P = pre @ code @ post \<and> length pre = i)"

lemma at_append:
  assumes "at P i (a @ b)"
  shows "at P i a" "at P (i + length a) b"
proof -
  obtain pre post where P: "P = pre @ (a @ b) @ post" "length pre = i"
    using assms unfolding at_def by blast
  have "P = pre @ a @ (b @ post)" "P = (pre @ a) @ b @ post" "length (pre @ a) = i + length a"
    using P by simp_all
  then show "at P i a" "at P (i + length a) b" using P(2) unfolding at_def by blast+
qed

lemma at_Cons:
  assumes "at P i (a # b)"
  shows "i < length P" "P ! i = a" "at P (Suc i) b"
proof -
  obtain pre post where P: "P = pre @ (a # b) @ post" "length pre = i"
    using assms unfolding at_def by blast
  then show "i < length P" "P ! i = a" by (simp_all add: nth_append)
  have "P = (pre @ [a]) @ b @ post" "length (pre @ [a]) = Suc i" using P by simp_all
  then show "at P (Suc i) b" unfolding at_def by blast
qed

lemma labels_Cons: "i \<noteq> LabelL l \<Longrightarrow> l \<notin> set (labels (i # a)) \<Longrightarrow> l \<notin> set (labels a)"
  by (cases i) simp_all

lemma find_label_skip: "l \<notin> set (labels a) \<Longrightarrow> find_label (a @ LabelL l # b) l = Some (length a)"
proof (induction a)
  case (Cons i a)
  then have i: "i \<noteq> LabelL l" by auto
  then show ?case using Cons.IH labels_Cons [OF i Cons.prems] by simp
qed simp

text \<open>A label that is defined once is found where it is.\<close>

lemma find_label_at:
  assumes "at P i (LabelL l # rest)" "distinct (labels P)"
  shows "find_label P l = Some i"
proof -
  obtain pre post where P: "P = pre @ LabelL l # rest @ post" "length pre = i"
    using assms(1) unfolding at_def by auto
  then have "l \<notin> set (labels pre)" using assms(2) by simp
  then show ?thesis using P find_label_skip by simp
qed

lemma cstep_straight:
  assumes "i < length P" "exec1 (P ! i) x = Some x'"
  shows "cstep P (i, x) = Some (Suc i, x')"
  using assms unfolding cstep_def by (cases "P ! i") simp_all

lemma exec_reaches:
  "at P i code \<Longrightarrow> exec code x = Some x' \<Longrightarrow> reaches P (i, x) (i + length code, x')"
proof (induction code arbitrary: i x)
  case Nil
  then show ?case by (simp add: reaches_refl)
next
  case (Cons a code)
  obtain x1 where x1: "exec1 a x = Some x1" "exec code x1 = Some x'"
    using Cons.prems(2) by (auto split: option.splits)
  have a: "i < length P" "P ! i = a" "at P (Suc i) code" by (rule at_Cons [OF Cons.prems(1)])+
  have "cstep P (i, x) = Some (Suc i, x1)" using cstep_straight [of i P x x1] a x1 by simp
  then show ?case using Cons.IH [OF a(3) x1(2)] by (auto intro: reaches_step)
qed

lemma reaches_label: "at P i (LabelL l # rest) \<Longrightarrow> reaches P (i, x) (Suc i, x)"
  using at_Cons [of P i "LabelL l" rest]
  by (intro reaches_step [OF _ reaches_refl]) (auto simp: cstep_def)

lemma reaches_jump: "at P i (JmpL l # rest) \<Longrightarrow> find_label P l = Some j \<Longrightarrow> reaches P (i, x) (j, x)"
  using at_Cons [of P i "JmpL l" rest]
  by (intro reaches_step [OF _ reaches_refl]) (auto simp: cstep_def jump_def)

section \<open>Meaning of conditions\<close>

definition cmp_val :: "astop \<Rightarrow> int \<Rightarrow> int \<Rightarrow> bool" where
  "cmp_val q a b =
     (if q = A_EQ then a = b else if q = A_NE then a \<noteq> b else if q = A_LT then a < b
      else if q = A_GT then a > b else if q = A_LE then a \<le> b else a \<ge> b)"

text \<open>Comparisons are for the signed values of the operands, at the size of the left one's type.\<close>

definition cond_val :: "symtable list \<Rightarrow> mach \<Rightarrow> ast \<Rightarrow> bool option" where
  "cond_val h m n =
     (if op n = A_TOBOOL then map_option (\<lambda>v. v \<noteq> 0) (eval h m (left n))
      else both (\<lambda>a b. Some (cmp_val (op n) (sval (psize (ntype (left n))) a)
                               (sval (psize (ntype (left n))) b)))
             (eval h m (left n)) (eval h m (right n)))"

definition cond_ok :: "symtable list \<Rightarrow> ast \<Rightarrow> bool" where
  "cond_ok h n \<longleftrightarrow> n \<noteq> Null \<and> expr_ok h (left n) \<and>
     (op n = A_TOBOOL \<and> right n = Null
      \<or> is_cmp (op n) \<and> psize (ntype (left n)) \<noteq> 0 \<and> expr_ok h (right n))"

section \<open>Meaning of statements\<close>

datatype exit = Normal | Brk | Cont

definition assigned :: "symtable list \<Rightarrow> ast \<Rightarrow> 64 word \<Rightarrow> mach \<Rightarrow> mach" where
  "assigned h dest v m =
     (let e = h ! the (nsym dest)
      in m\<lparr>mem := store (psize (s_type e)) (sym_addr m e) v (mem m)\<rparr>)"

inductive sem :: "symtable list \<Rightarrow> ast \<Rightarrow> mach \<Rightarrow> exit \<Rightarrow> mach \<Rightarrow> bool" for h where
  s_null: "sem h Null m Normal m"
| s_assign: "n \<noteq> Null \<Longrightarrow> op n = A_ASSIGN \<Longrightarrow> eval h m (left n) = Some v \<Longrightarrow>
    sem h n m Normal (assigned h (right n) v m)"
| s_break: "n \<noteq> Null \<Longrightarrow> op n = A_BREAK \<Longrightarrow> sem h n m Brk m"
| s_continue: "n \<noteq> Null \<Longrightarrow> op n = A_CONTINUE \<Longrightarrow> sem h n m Cont m"
| s_glue: "n \<noteq> Null \<Longrightarrow> op n = A_GLUE \<Longrightarrow> sem h (left n) m Normal m1 \<Longrightarrow> sem h (right n) m1 e m2 \<Longrightarrow>
    sem h n m e m2"
| s_glue_exit: "n \<noteq> Null \<Longrightarrow> op n = A_GLUE \<Longrightarrow> sem h (left n) m e m1 \<Longrightarrow> e \<noteq> Normal \<Longrightarrow> sem h n m e m1"
| s_if: "n \<noteq> Null \<Longrightarrow> op n = A_IF \<Longrightarrow> cond_val h m (left n) = Some b \<Longrightarrow>
    sem h (if b then mid n else right n) m e m1 \<Longrightarrow> sem h n m e m1"
| s_while_end: "n \<noteq> Null \<Longrightarrow> op n = A_WHILE \<Longrightarrow> cond_val h m (left n) = Some False \<Longrightarrow> sem h n m Normal m"
| s_while_break: "n \<noteq> Null \<Longrightarrow> op n = A_WHILE \<Longrightarrow> cond_val h m (left n) = Some True \<Longrightarrow>
    sem h (right n) m Brk m1 \<Longrightarrow> sem h n m Normal m1"
| s_while: "n \<noteq> Null \<Longrightarrow> op n = A_WHILE \<Longrightarrow> cond_val h m (left n) = Some True \<Longrightarrow>
    sem h (right n) m e m1 \<Longrightarrow> e \<noteq> Brk \<Longrightarrow> sem h n m1 Normal m2 \<Longrightarrow> sem h n m Normal m2"

inductive_cases sem_nullE: "sem h Null m e m'"

text \<open>A \<^verbatim>\<open>continue\<close> that is not inside an inner loop.\<close>

primrec has_continue :: "ast \<Rightarrow> bool" where
  "has_continue Null \<longleftrightarrow> False"
| "has_continue (Node q t c rv l md r sy v ln) \<longleftrightarrow>
     q = A_CONTINUE \<or> q = A_GLUE \<and> (has_continue l \<or> has_continue r)
     \<or> q = A_IF \<and> (has_continue md \<or> has_continue r)"

lemma has_continue_op:
  "n \<noteq> Null \<Longrightarrow> has_continue n \<longleftrightarrow> op n = A_CONTINUE
     \<or> op n = A_GLUE \<and> (has_continue (left n) \<or> has_continue (right n))
     \<or> op n = A_IF \<and> (has_continue (mid n) \<or> has_continue (right n))"
  by (cases n) simp_all

lemma sem_continue: "sem h n m e m' \<Longrightarrow> e = Cont \<Longrightarrow> has_continue n"
proof (induction n m e m' rule: sem.induct)
  case (s_if n m b e m1)
  then show ?case by (cases b) (simp_all add: has_continue_op)
qed (simp_all add: has_continue_op)

text \<open>
  The statements that are covered: assignments of expressions to variables, \<^verbatim>\<open>if\<close>, \<^verbatim>\<open>while\<close> and
  sequences (and so \<^verbatim>\<open>for\<close>), \<^verbatim>\<open>break\<close>, and \<^verbatim>\<open>continue\<close> outside the \<^verbatim>\<open>else\<close> branches, where
  \<^verbatim>\<open>genIF\<close> passes no label for it.
\<close>

definition target_ok :: "symtable list \<Rightarrow> ast \<Rightarrow> bool" where
  "target_ok h n \<longleftrightarrow> n \<noteq> Null \<and> op n = A_IDENT \<and> \<not> rvalue n \<and> left n = Null \<and> right n = Null
     \<and> sym_ok h (nsym n) \<and> psize (s_type (h ! the (nsym n))) \<noteq> 0"

primrec stmt_ok :: "symtable list \<Rightarrow> ast \<Rightarrow> bool" where
  "stmt_ok h Null \<longleftrightarrow> True"
| "stmt_ok h (Node q t c rv l md r sy v ln) \<longleftrightarrow>
     q = A_ASSIGN \<and> expr_ok h l \<and> target_ok h r
     \<or> (q = A_BREAK \<or> q = A_CONTINUE) \<and> l = Null \<and> r = Null
     \<or> q = A_GLUE \<and> stmt_ok h l \<and> stmt_ok h r
     \<or> q = A_IF \<and> cond_ok h l \<and> stmt_ok h md \<and> stmt_ok h r \<and> \<not> has_continue r
     \<or> q = A_WHILE \<and> cond_ok h l \<and> stmt_ok h r"

end
