(* ===== verification/StmtCode.thy ===== *)
theory StmtCode
  imports StmtSpec LabelProps
begin

text \<open>
  The code that \<^verbatim>\<open>genAST\<close> prints for statements does what they mean. \<open>implements\<close> is for code
  at any position of a program with distinct labels; the lemmas give it for each construct, and
  the result is for the whole code of a statement, whose labels are distinct.
\<close>

section \<open>Code that implements a meaning\<close>

text \<open>Where code at position \<open>i\<close> goes on after an exit.\<close>

fun exits :: "instr list \<Rightarrow> nat \<Rightarrow> instr list \<Rightarrow> int \<Rightarrow> int \<Rightarrow> exit \<Rightarrow> nat \<Rightarrow> bool" where
  "exits P i code lt le Normal j \<longleftrightarrow> j = i + length code"
| "exits P i code lt le Brk j \<longleftrightarrow> find_label P le = Some j"
| "exits P i code lt le Cont j \<longleftrightarrow> find_label P lt = Some j"

definition goes :: "instr list \<Rightarrow> nat \<Rightarrow> mach \<Rightarrow> nat \<Rightarrow> mach \<Rightarrow> bool" where
  "goes P i x j m \<longleftrightarrow> (\<exists>x'. reaches P (i, x) (j, x') \<and> same_world m x' \<and> stk x' = stk x)"

definition implements :: "int \<Rightarrow> int \<Rightarrow> instr list \<Rightarrow> (mach \<Rightarrow> exit \<Rightarrow> mach \<Rightarrow> bool) \<Rightarrow> bool" where
  "implements lt le code R \<longleftrightarrow> (\<forall>P i m e m' x j. at P i code \<longrightarrow> distinct (labels P) \<longrightarrow> R m e m' \<longrightarrow>
     same_world m x \<longrightarrow> exits P i code lt le e j \<longrightarrow> goes P i x j m')"

definition decides :: "int \<Rightarrow> instr list \<Rightarrow> (mach \<Rightarrow> bool option) \<Rightarrow> bool" where
  "decides lf code C \<longleftrightarrow> (\<forall>P i m b x j. at P i code \<longrightarrow> distinct (labels P) \<longrightarrow> C m = Some b \<longrightarrow>
     same_world m x \<longrightarrow> (if b then j = i + length code else find_label P lf = Some j) \<longrightarrow> goes P i x j m)"

lemma implementsD:
  "implements lt le code R \<Longrightarrow> at P i code \<Longrightarrow> distinct (labels P) \<Longrightarrow> R m e m' \<Longrightarrow> same_world m x \<Longrightarrow>
     exits P i code lt le e j \<Longrightarrow> goes P i x j m'"
  unfolding implements_def by blast

lemma decidesD:
  assumes "decides lf code C" "at P i code" "distinct (labels P)" "C m = Some b" "same_world m x"
  shows "b \<Longrightarrow> goes P i x (i + length code) m"
    "\<not> b \<Longrightarrow> find_label P lf = Some j \<Longrightarrow> goes P i x j m"
  using assms unfolding decides_def by (metis (full_types))+

lemma goesI: "reaches P (i, x) (j, x') \<Longrightarrow> same_world m x' \<Longrightarrow> stk x' = stk x \<Longrightarrow> goes P i x j m"
  unfolding goes_def by blast

lemma goesE:
  assumes "goes P i x j m"
  obtains x' where "reaches P (i, x) (j, x')" "same_world m x'" "stk x' = stk x"
  using assms unfolding goes_def by blast

lemma goes_then:
  assumes "goes P i x j m" "\<And>x'. same_world m x' \<Longrightarrow> goes P j x' k m'"
  shows "goes P i x k m'"
proof -
  obtain x1 where 1: "reaches P (i, x) (j, x1)" "same_world m x1" "stk x1 = stk x"
    using assms(1) by (rule goesE)
  obtain x2 where 2: "reaches P (j, x1) (k, x2)" "same_world m' x2" "stk x2 = stk x1"
    using assms(2) [OF 1(2)] by (rule goesE)
  show ?thesis by (rule goesI [OF reaches_trans [OF 1(1) 2(1)] 2(2)]) (simp add: 1 2)
qed

lemma goes_label: "at P i (LabelL l # rest) \<Longrightarrow> same_world m x \<Longrightarrow> goes P i x (Suc i) m"
  by (rule goesI [OF reaches_label]) simp_all

lemma goes_jump:
  "at P i (JmpL l # rest) \<Longrightarrow> find_label P l = Some j \<Longrightarrow> same_world m x \<Longrightarrow> goes P i x j m"
  by (rule goesI [OF reaches_jump]) simp_all

section \<open>Generation, construct by construct\<close>

text \<open>The state after code was printed, with at most one register in use.\<close>

definition done_with :: "instr list \<Rightarrow> compiler \<Rightarrow> compiler \<Rightarrow> bool" where
  "done_with code s s' \<longleftrightarrow> (\<exists>d k l. d \<le> 1 \<and> s' = out code (at_depth d (s\<lparr>labelid := k, Line := l\<rparr>)))"

lemma done_withI:
  "d \<le> 1 \<Longrightarrow> s' = out code (at_depth d (s\<lparr>labelid := k, Line := l\<rparr>)) \<Longrightarrow> done_with code s s'"
  unfolding done_with_def by blast

lemma done_with_line: "d \<le> 1 \<Longrightarrow> done_with code s (out code (at_depth d (s\<lparr>Line := l\<rparr>)))"
  by (rule done_withI [where k = "labelid s"]) simp_all

definition stmt_correct :: "int \<Rightarrow> int \<Rightarrow> symtable list \<Rightarrow> ast \<Rightarrow> compiler \<Rightarrow> cerr + (int \<times> compiler) \<Rightarrow> bool" where
  "stmt_correct lt le h n s res \<longleftrightarrow> (\<exists>r s' code. res = Inr (r, s') \<and> done_with code s s'
     \<and> implements lt le code (sem h n))"

definition cond_correct :: "int \<Rightarrow> symtable list \<Rightarrow> ast \<Rightarrow> compiler \<Rightarrow> cerr + (int \<times> compiler) \<Rightarrow> bool" where
  "cond_correct lf h n s res \<longleftrightarrow> (\<exists>r s' code. res = Inr (r, s') \<and> done_with code s s'
     \<and> decides lf code (\<lambda>m. cond_val h m n))"

lemma store_size_psize: "psize t \<noteq> 0 \<Longrightarrow> store_size w t s = Inr (psize t, s)"
  by (auto simp: store_size_def cgprimsize_psize psize_def split: if_splits)

lemma exec_computes:
  assumes "computes d (Some v) code x"
  obtains x' where "exec code x = Some x'" "keeps d x x'" "regs x' (reg_of d) = v"
  using assms unfolding computes_def by auto

lemma gen_expr_obtain:
  assumes "expr_ok (Heap s) n" "regs_at d s" "size n < k"
  obtains code l where
    "genAST_f k n a b c p s = Inr (reg_of d, out code (at_depth (Suc d) (s\<lparr>Line := l\<rparr>)))"
    "\<And>m. computes d (eval (Heap s) m n) code m"
  using gen_expr_correct [OF assms, of a b c p] unfolding gen_correct_def by blast

lemma is_cmp_cases: "is_cmp q \<Longrightarrow> q \<in> {A_EQ, A_NE, A_LT, A_GT, A_LE, A_GE}"
  unfolding is_cmp_def by (cases q) simp_all

lemma is_cmp_others [simp]: "\<not> is_cmp A_ASSIGN" "\<not> is_cmp A_TOBOOL" "\<not> is_cmp A_BREAK" "\<not> is_cmp A_CONTINUE"
  by (simp_all add: is_cmp_def)

text \<open>Assignments.\<close>

lemma gen_target:
  assumes "target_ok (Heap s) n" "0 < k" "p \<noteq> Some A_DEREF"
  shows "\<exists>l. genAST_f k n a b c p s = Inr (NOREG, s\<lparr>Line := l\<rparr>)"
proof -
  obtain k' where k: "k = Suc k'" using assms(2) by (cases k) auto
  have n: "n \<noteq> Null" "\<not> control_op (op n)" "op n = A_IDENT" "\<not> rvalue n" "left n = Null" "right n = Null"
    using assms(1) by (simp_all add: target_ok_def control_op_def)
  then obtain l where "genAST_body (genAST_f k') n a b c p s = gen_operands (genAST_f k') n a b c p (s\<lparr>Line := l\<rparr>)"
    using genAST_operation by blast
  then show ?thesis using n k assms(3) by (intro exI [of _ l]) (simp add: gen_operands_def gen_op_def)
qed

definition store_code :: "symtable \<Rightarrow> int \<Rightarrow> instr" where
  "store_code e r = (if is_global_class (s_class e) then StoreGlobal (psize (s_type e)) r (sname e)
     else StoreLocal (psize (s_type e)) r (s_posn e))"

lemma gen_store_target:
  assumes "target_ok (Heap s) n"
  shows "gen_store q n (reg_of d) r s = Inr (reg_of d, out [store_code (Heap s ! the (nsym n)) (reg_of d)] s)"
  using assms
  by (auto simp: target_ok_def sym_ok_def gen_store_def deref_opt_def deref_def cgstorglob_def cgstorlocal_def
      store_size_psize store_code_def split: option.splits)

lemma exec_store:
  assumes "sym_ok h sy" "e = h ! the sy"
  shows "exec [store_code e r] x =
    Some (x\<lparr>mem := store (psize (s_type e)) (sym_addr x e) (regs x r) (mem x)\<rparr>)"
  using assms by (auto simp: store_code_def sym_ok_def sym_addr_def split: option.splits)

lemma gen_assign_correct:
  assumes n: "n \<noteq> Null" "op n = A_ASSIGN" "expr_ok (Heap s) (left n)" "target_ok (Heap s) (right n)"
    and s: "regs_at 0 s" "size n < k"
  shows "stmt_correct lt le (Heap s) n s (genAST_f k n b lt le p s)"
proof -
  let ?e = "Heap s ! the (nsym (right n))"
  obtain k' where k: "k = Suc k'" "size (left n) < k'" "size (right n) < k'" "0 < k'"
    using n(1) s(2) by (cases k; cases n) auto
  have ne: "left n \<noteq> Null" "right n \<noteq> Null"
    using n(3,4) by (auto simp: target_ok_def)
  obtain l where l: "genAST_body (genAST_f k') n b lt le p s = gen_operands (genAST_f k') n b lt le p (s\<lparr>Line := l\<rparr>)"
    using genAST_operation [of n "genAST_f k'" b lt le p s] n by (auto simp: control_op_def)
  obtain code l2 where c: "genAST_f k' (left n) NOLABEL NOLABEL NOLABEL (Some A_ASSIGN) (s\<lparr>Line := l\<rparr>)
      = Inr (reg_of 0, out code (at_depth 1 (s\<lparr>Line := l2\<rparr>)))"
    and comp: "\<And>m. computes 0 (eval (Heap s) m (left n)) code m"
    by (rule gen_expr_obtain [where s = "s\<lparr>Line := l\<rparr>" and n = "left n" and d = 0 and k = k'
          and a = NOLABEL and b = NOLABEL and c = NOLABEL and p = "Some A_ASSIGN"]) (use n s k in simp_all)
  let ?s2 = "out code (at_depth 1 (s\<lparr>Line := l2\<rparr>))"
  obtain l3 where t: "genAST_f k' (right n) NOLABEL NOLABEL NOLABEL (Some A_ASSIGN) ?s2
      = Inr (NOREG, ?s2\<lparr>Line := l3\<rparr>)"
    using gen_target [where s = ?s2 and n = "right n" and k = k' and a = NOLABEL and b = NOLABEL
        and c = NOLABEL and p = "Some A_ASSIGN"] n(4) k by auto
  let ?code = "code @ [store_code ?e (reg_of 0)]"
  have res: "genAST_f k n b lt le p s = Inr (reg_of 0, out ?code (at_depth 1 (s\<lparr>Line := l3\<rparr>)))"
    using l c t ne n k gen_store_target [of "?s2\<lparr>Line := l3\<rparr>" "right n" A_ASSIGN 0 NOREG]
    by (simp add: gen_operands_def gen_op_def gen_assign_def)
  have impl: "implements lt le ?code (sem (Heap s) n)"
    unfolding implements_def
  proof (intro allI impI)
    fix P i m e m' x j
    assume a: "at P i ?code" "sem (Heap s) n m e m'" "same_world m x" "exits P i ?code lt le e j"
    from a(2) n obtain v where v: "eval (Heap s) m (left n) = Some v" "m' = assigned (Heap s) (right n) v m"
      "e = Normal" by (cases rule: sem.cases) auto
    have "eval (Heap s) x (left n) = Some v" using eval_cong [OF a(3)] v(1) by simp
    then have "computes 0 (Some v) code x" using comp [of x] by simp
    then obtain x1 where x1: "exec code x = Some x1" "keeps 0 x x1" "regs x1 (reg_of 0) = v"
      by (rule exec_computes)
    have w: "same_world m x1" using x1(2) same_world_trans [OF a(3)] by (simp add: keeps_def)
    let ?x2 = "x1\<lparr>mem := store (psize (s_type ?e)) (sym_addr x1 ?e) v (mem x1)\<rparr>"
    have "exec ?code x = Some ?x2"
      using x1 exec_store [of "Heap s" "nsym (right n)" ?e "reg_of 0" x1] n(4) by (simp add: target_ok_def)
    then have "reaches P (i, x) (i + length ?code, ?x2)" using exec_reaches a(1) by blast
    moreover have "same_world m' ?x2"
      using w v(2) by (simp add: assigned_def Let_def same_world_def sym_addr_def)
    moreover have "stk ?x2 = stk x" using x1(2) by (simp add: keeps_def)
    ultimately show "goes P i x j m'" using a(4) v(3) by (auto intro: goesI)
  qed
  show ?thesis
    unfolding stmt_correct_def
    using res impl done_with_line [of 1] by blast
qed

text \<open>Conditions.\<close>

lemma free_two:
  assumes "regs_at 2 s"
  shows "thn (cgfreereg (reg_of 0)) (thn (cgfreereg (reg_of (Suc 0))) (ret r)) s = Inr (r, at_depth 0 s)"
  using assms
  by (simp add: cgfreereg_def regs_at_def free_at_def reg_of_def thn_def bnd_def at_depth_def)

lemma invcmplist_inv:
  assumes "is_cmp q"
  shows "cond_holds (invcmplist ! nat (ast_num q - ast_num A_EQ)) (x\<lparr>fl_eq := (a = b), fl_lt := (a < b)\<rparr>)
     \<longleftrightarrow> \<not> cmp_val q a b"
  using is_cmp_cases [OF assms] by (auto simp: invcmplist_def cmp_val_def)

lemma reaches_cond_jump:
  assumes "at P i [JccL cnd l]" "cond_holds cnd x \<Longrightarrow> find_label P l = Some j" "\<not> cond_holds cnd x \<Longrightarrow> j = Suc i"
  shows "reaches P (i, x) (j, x)"
  using at_Cons [OF assms(1)] assms(2,3)
  by (intro reaches_step [OF _ reaches_refl]) (auto simp: cstep_def jump_def)

text \<open>Straight code that sets the flags, and a jump if the condition is false.\<close>

lemma decidesI:
  assumes "\<And>m x b. C m = Some b \<Longrightarrow> same_world m x \<Longrightarrow>
      \<exists>x'. exec code x = Some x' \<and> same_world m x' \<and> stk x' = stk x \<and> (cond_holds cnd x' \<longleftrightarrow> \<not> b)"
  shows "decides lf (code @ [JccL cnd lf]) C"
  unfolding decides_def
proof (intro allI impI)
  fix P i m b x j
  assume a: "at P i (code @ [JccL cnd lf])" "C m = Some b" "same_world m x"
    "if b then j = i + length (code @ [JccL cnd lf]) else find_label P lf = Some j"
  obtain x' where x': "exec code x = Some x'" "same_world m x'" "stk x' = stk x" "cond_holds cnd x' \<longleftrightarrow> \<not> b"
    using assms a(2,3) by blast
  have "reaches P (i, x) (i + length code, x')" using exec_reaches at_append(1) [OF a(1)] x'(1) by blast
  moreover have "reaches P (i + length code, x') (j, x')"
    using reaches_cond_jump [OF at_append(2) [OF a(1)]] x'(4) a(4) by (auto split: if_splits)
  ultimately show "goes P i x j m" using reaches_trans x' by (intro goesI [of P i x j x']) auto
qed

lemma gen_tobool_correct:
  assumes n: "n \<noteq> Null" "op n = A_TOBOOL" "expr_ok (Heap s) (left n)" "right n = Null"
    and s: "regs_at 0 s" "size n < k" "p = Some A_IF \<or> p = Some A_WHILE"
  shows "cond_correct lf (Heap s) n s (genAST_f k n lf lt le p s)"
proof -
  obtain k' where k: "k = Suc k'" "size (left n) < k'" using n(1) s(2) by (cases k; cases n) auto
  have ne: "left n \<noteq> Null" using n(3) by auto
  obtain l where l: "genAST_body (genAST_f k') n lf lt le p s = gen_operands (genAST_f k') n lf lt le p (s\<lparr>Line := l\<rparr>)"
    using genAST_operation [of n "genAST_f k'" lf lt le p s] n by (auto simp: control_op_def)
  obtain code l2 where c: "genAST_f k' (left n) NOLABEL NOLABEL NOLABEL (Some A_TOBOOL) (s\<lparr>Line := l\<rparr>)
      = Inr (reg_of 0, out code (at_depth 1 (s\<lparr>Line := l2\<rparr>)))"
    and comp: "\<And>m. computes 0 (eval (Heap s) m (left n)) code m"
    by (rule gen_expr_obtain [where s = "s\<lparr>Line := l\<rparr>" and n = "left n" and d = 0 and k = k'
          and a = NOLABEL and b = NOLABEL and c = NOLABEL and p = "Some A_TOBOOL"]) (use n s k in simp_all)
  let ?code = "(code @ [Test (reg_of 0)]) @ [JccL CE lf]"
  have res: "genAST_f k n lf lt le p s = Inr (reg_of 0, out ?code (at_depth 1 (s\<lparr>Line := l2\<rparr>)))"
    using l c ne n k s(3) by (auto simp: gen_operands_def gen_op_def cgboolean_def thn_def bnd_def)
  have "decides lf ?code (\<lambda>m. cond_val (Heap s) m n)"
  proof (rule decidesI)
    fix m x b
    assume a: "cond_val (Heap s) m n = Some b" "same_world m x"
    then obtain v where v: "eval (Heap s) m (left n) = Some v" "b = (v \<noteq> 0)" using n by (auto simp: cond_val_def)
    then have "computes 0 (Some v) code x" using comp [of x] eval_cong [OF a(2)] by simp
    then obtain x1 where x1: "exec code x = Some x1" "keeps 0 x x1" "regs x1 (reg_of 0) = v"
      by (rule exec_computes)
    show "\<exists>x'. exec (code @ [Test (reg_of 0)]) x = Some x' \<and> same_world m x' \<and> stk x' = stk x
        \<and> (cond_holds CE x' \<longleftrightarrow> \<not> b)"
      using x1 v(2) same_world_trans [OF a(2)] by (auto simp: keeps_def same_world_def)
  qed
  then show ?thesis
    unfolding cond_correct_def
    using res done_with_line [of 1] by blast
qed

lemma gen_op_compare:
  assumes "is_cmp (op n)" "left n \<noteq> Null" "psize (ntype (left n)) \<noteq> 0" "p = Some A_IF \<or> p = Some A_WHILE"
    and "regs_at 2 s"
  shows "gen_op n (reg_of 0) (reg_of 1) lf lt le p s =
    Inr (NOREG, out [Cmp (psize (ntype (left n))) (reg_of 1) (reg_of 0),
      JccL (invcmplist ! nat (ast_num (op n) - ast_num A_EQ)) lf] (at_depth 0 s))"
proof -
  have jumps: "p = Some A_IF \<or> p = Some A_WHILE \<or> p = Some A_TERNARY" using assms(4) by blast
  have "gen_op n (reg_of 0) (reg_of 1) lf lt le p =
      cgcompare_and_jump (op n) (reg_of 0) (reg_of 1) lf (ntype (left n))"
    using is_cmp_cases [OF assms(1)] assms(1,2) jumps by (elim insertE emptyE; simp add: gen_op_def)
  then show ?thesis
    using assms(1,3,5) by (simp add: cgcompare_and_jump_def cgprimsize_psize free_two)
qed

lemma gen_compare_correct:
  assumes n: "n \<noteq> Null" "is_cmp (op n)" "expr_ok (Heap s) (left n)" "expr_ok (Heap s) (right n)"
      "psize (ntype (left n)) \<noteq> 0"
    and s: "regs_at 0 s" "size n < k" "p = Some A_IF \<or> p = Some A_WHILE"
  shows "cond_correct lf (Heap s) n s (genAST_f k n lf lt le p s)"
proof -
  let ?q = "op n" and ?sz = "psize (ntype (left n))"
  obtain k' where k: "k = Suc k'" "size (left n) < k'" "size (right n) < k'"
    using n(1) s(2) by (cases k; cases n) auto
  have ne: "left n \<noteq> Null" "right n \<noteq> Null" using n(3,4) by auto
  have q: "?q \<in> {A_EQ, A_NE, A_LT, A_GT, A_LE, A_GE}" using n(2) by (rule is_cmp_cases)
  obtain l where l: "genAST_body (genAST_f k') n lf lt le p s = gen_operands (genAST_f k') n lf lt le p (s\<lparr>Line := l\<rparr>)"
    using genAST_operation [of n "genAST_f k'" lf lt le p s] n(1) q by (auto simp: control_op_def)
  obtain ca l2 where ca: "genAST_f k' (left n) NOLABEL NOLABEL NOLABEL (Some ?q) (s\<lparr>Line := l\<rparr>)
      = Inr (reg_of 0, out ca (at_depth 1 (s\<lparr>Line := l2\<rparr>)))"
    and compa: "\<And>m. computes 0 (eval (Heap s) m (left n)) ca m"
    by (rule gen_expr_obtain [where s = "s\<lparr>Line := l\<rparr>" and n = "left n" and d = 0 and k = k'
          and a = NOLABEL and b = NOLABEL and c = NOLABEL and p = "Some (op n)"]) (use n s k in simp_all)
  let ?s2 = "out ca (at_depth 1 (s\<lparr>Line := l2\<rparr>))"
  obtain cb l3 where cb: "genAST_f k' (right n) NOLABEL NOLABEL NOLABEL (Some ?q) ?s2
      = Inr (reg_of 1, out (ca @ cb) (at_depth 2 (s\<lparr>Line := l3\<rparr>)))"
    and compb: "\<And>m. computes 1 (eval (Heap s) m (right n)) cb m"
    by (rule gen_expr_obtain [where s = ?s2 and n = "right n" and d = 1 and k = k'
          and a = NOLABEL and b = NOLABEL and c = NOLABEL and p = "Some (op n)"]) (use n s k in \<open>simp_all add: numeral_2_eq_2\<close>)
  let ?cnd = "invcmplist ! nat (ast_num ?q - ast_num A_EQ)"
  let ?code = "(ca @ cb @ [Cmp ?sz (reg_of 1) (reg_of 0)]) @ [JccL ?cnd lf]"
  have res: "genAST_f k n lf lt le p s = Inr (NOREG, out ?code (at_depth 0 (s\<lparr>Line := l3\<rparr>)))"
    using l ca cb k(1) gen_op_compare [OF n(2) ne(1) n(5) s(3), of "out (ca @ cb) (at_depth 2 (s\<lparr>Line := l3\<rparr>))" lf lt le]
    by (simp add: gen_operands_def ne)
  have "decides lf ?code (\<lambda>m. cond_val (Heap s) m n)"
  proof (rule decidesI)
    fix m x b
    assume a: "cond_val (Heap s) m n = Some b" "same_world m x"
    then obtain v w where v: "eval (Heap s) m (left n) = Some v" "eval (Heap s) m (right n) = Some w"
        "b = cmp_val ?q (sval ?sz v) (sval ?sz w)"
      using q by (auto simp: cond_val_def both_def split: option.splits)
    then have "computes 0 (Some v) ca x" using compa [of x] eval_cong [OF a(2)] by simp
    then obtain x1 where x1: "exec ca x = Some x1" "keeps 0 x x1" "regs x1 (reg_of 0) = v"
      by (rule exec_computes)
    have w1: "same_world m x1" using x1(2) same_world_trans [OF a(2)] by (simp add: keeps_def)
    then have "computes 1 (Some w) cb x1" using v(2) compb [of x1] eval_cong [OF w1] by simp
    then obtain x2 where x2: "exec cb x1 = Some x2" "keeps 1 x1 x2" "regs x2 (reg_of 1) = w"
      by (rule exec_computes)
    have w2: "same_world m x2" using x2(2) same_world_trans [OF w1] by (simp add: keeps_def)
    have r0: "regs x2 (reg_of 0) = v"
      using x2(2) x1(3) by (simp add: keeps_def in_use_def reg_of_def)
    let ?x = "x2\<lparr>fl_eq := (sval ?sz v = sval ?sz w), fl_lt := (sval ?sz v < sval ?sz w)\<rparr>"
    have "exec (ca @ cb @ [Cmp ?sz (reg_of 1) (reg_of 0)]) x = Some ?x"
      using x1 x2 r0 by (simp add: Let_def)
    moreover have "same_world m ?x" "stk ?x = stk x"
      using w2 x1(2) x2(2) by (simp_all add: same_world_def keeps_def)
    ultimately show "\<exists>x'. exec (ca @ cb @ [Cmp ?sz (reg_of 1) (reg_of 0)]) x = Some x' \<and> same_world m x'
        \<and> stk x' = stk x \<and> (cond_holds ?cnd x' \<longleftrightarrow> \<not> b)"
      using invcmplist_inv [OF n(2), where x = x2 and a = "sval ?sz v" and b = "sval ?sz w"] v(3) by (intro exI [of _ ?x]) simp
  qed
  then show ?thesis
    unfolding cond_correct_def
    using res done_with_line [of 0] by blast
qed

lemma gen_cond_correct:
  assumes "cond_ok (Heap s) n" "regs_at 0 s" "size n < k" "p = Some A_IF \<or> p = Some A_WHILE"
  shows "cond_correct lf (Heap s) n s (genAST_f k n lf lt le p s)"
proof (cases "op n = A_TOBOOL")
  case True
  then show ?thesis using assms by (intro gen_tobool_correct) (simp_all add: cond_ok_def)
next
  case False
  then show ?thesis using assms by (intro gen_compare_correct) (simp_all add: cond_ok_def)
qed

section \<open>Control structures\<close>

text \<open>Between statements no register is in use.\<close>

definition clean :: "instr list \<Rightarrow> compiler \<Rightarrow> compiler \<Rightarrow> bool" where
  "clean code s s' \<longleftrightarrow> (\<exists>k l. s' = out code (at_depth 0 (s\<lparr>labelid := k, Line := l\<rparr>)))"

lemma clean_refl: "regs_at 0 s \<Longrightarrow> clean [] s s"
  unfolding clean_def by (intro exI [of _ "labelid s"] exI [of _ "Line s"]) (simp add: at_depth_id)

lemma clean_Line: "regs_at 0 s \<Longrightarrow> clean [] s (s\<lparr>Line := l\<rparr>)"
  unfolding clean_def by (intro exI [of _ "labelid s"] exI [of _ l]) (simp add: at_depth_id)

lemma cleanI: "s' = out code (at_depth 0 (s\<lparr>labelid := k, Line := l\<rparr>)) \<Longrightarrow> clean code s s'"
  unfolding clean_def by blast

lemma cleanE:
  assumes "clean code s s'"
  obtains k l where "s' = out code (at_depth 0 (s\<lparr>labelid := k, Line := l\<rparr>))"
  using assms unfolding clean_def by blast

lemma clean_facts:
  assumes "clean c s s1"
  shows "Heap s1 = Heap s" "regs_at 0 s1"
  using assms by (auto elim!: cleanE simp: at_depth_def out_def regs_at_def)

lemma clean_out: "clean c s s1 \<Longrightarrow> clean (c @ d) s (out d s1)"
  by (erule cleanE, rule cleanI) (simp add: at_depth_def out_def)

lemma clean_label: "clean c s s1 \<Longrightarrow> clean c s (s1\<lparr>labelid := k\<rparr>)"
proof (erule cleanE)
  fix k' l
  assume "s1 = out c (at_depth 0 (s\<lparr>labelid := k', Line := l\<rparr>))"
  then have "s1\<lparr>labelid := k\<rparr> = out c (at_depth 0 (s\<lparr>labelid := k, Line := l\<rparr>))"
    by (simp add: at_depth_def out_def)
  then show "clean c s (s1\<lparr>labelid := k\<rparr>)" by (rule cleanI)
qed

lemma free_all: "genfreeregs NOREG s = Inr ((), s\<lparr>freereg := free_at 0\<rparr>)"
  by (simp add: genfreeregs_def cgfreeallregs_def free_at_def NUMFREEREGS_def upt_rec)

lemma done_free:
  assumes "done_with c s s1"
  shows "genfreeregs NOREG s1 = Inr ((), at_depth 0 s1)" "clean c s (at_depth 0 s1)"
proof -
  obtain d k l where d: "d \<le> 1" and s1: "s1 = out c (at_depth d (s\<lparr>labelid := k, Line := l\<rparr>))"
    using assms unfolding done_with_def by blast
  have "spillreg s1 = 0" using d unfolding s1 by (simp add: at_depth_def out_def)
  then show "genfreeregs NOREG s1 = Inr ((), at_depth 0 s1)"
    by (simp add: free_all at_depth_def)
  show "clean c s (at_depth 0 s1)"
    by (rule cleanI [where k = k and l = l]) (simp add: s1 at_depth_def out_def)
qed

lemma clean_trans:
  assumes "clean a s s1" "clean b s1 s2"
  shows "clean (a @ b) s s2"
proof -
  obtain k l where s1: "s1 = out a (at_depth 0 (s\<lparr>labelid := k, Line := l\<rparr>))" using assms(1) by (rule cleanE)
  obtain k' l' where "s2 = out b (at_depth 0 (s1\<lparr>labelid := k', Line := l'\<rparr>))" using assms(2) by (rule cleanE)
  then have "s2 = out (a @ b) (at_depth 0 (s\<lparr>labelid := k', Line := l'\<rparr>))"
    by (simp add: s1 at_depth_def out_def)
  then show ?thesis by (rule cleanI)
qed

lemma clean_done: "clean c s s' \<Longrightarrow> done_with c s s'"
  by (erule cleanE) (rule done_withI [where d = 0], simp_all)

text \<open>The loop.\<close>

lemma implements_while:
  assumes n: "n \<noteq> Null" "op n = A_WHILE"
    and ca: "decides Le ca (\<lambda>m. cond_val h m (left n))" and cb: "implements Ls Le cb (sem h (right n))"
  shows "implements lt le (LabelL Ls # ca @ cb @ [JmpL Ls, LabelL Le]) (sem h n)"
  unfolding implements_def
proof (intro allI impI)
  fix P i m e m' x j
  let ?code = "LabelL Ls # ca @ cb @ [JmpL Ls, LabelL Le]"
  assume a: "at P i ?code" "distinct (labels P)" "sem h n m e m'" "same_world m x" "exits P i ?code lt le e j"
  have 1: "at P (Suc i) (ca @ cb @ [JmpL Ls, LabelL Le])" by (rule at_Cons [OF a(1)])
  have ata: "at P (Suc i) ca" and 2: "at P (Suc i + length ca) (cb @ [JmpL Ls, LabelL Le])"
    by (rule at_append [OF 1])+
  let ?b = "Suc i + length ca" and ?e = "Suc i + length ca + length cb"
  have atb: "at P ?b cb" and atj: "at P ?e [JmpL Ls, LabelL Le]" by (rule at_append [OF 2])+
  have ate: "at P (Suc ?e) [LabelL Le]" by (rule at_Cons [OF atj])
  have Ls: "find_label P Ls = Some i" by (rule find_label_at [OF a(1,2)])
  have Le: "find_label P Le = Some (Suc ?e)" by (rule find_label_at [OF ate a(2)])
  have top: "goes P i x (Suc i) m" if "same_world m x" for m x by (rule goes_label [OF a(1) that])
  have leave: "goes P (Suc ?e) x (i + length ?code) m" if "same_world m x" for m x
    using goes_label [OF ate that] by (simp add: add.assoc)
  have cond: "goes P i x ?b m" if "cond_val h m (left n) = Some True" "same_world m x" for m x
    by (rule goes_then [OF top [OF that(2)]])
       (use decidesD(1) [OF ca ata a(2) that(1)] in simp)
  have body: "goes P ?b x k m'" if "sem h (right n) m e m'" "same_world m x" "exits P ?b cb Ls Le e k" for m e m' x k
    by (rule implementsD [OF cb atb a(2) that])
  have "n0 = n \<Longrightarrow> e = Normal \<and> (\<forall>x. same_world m x \<longrightarrow> goes P i x (i + length ?code) m')"
    if "sem h n0 m e m'" for n0 m e m'
    using that
  proof (induction n0 m e m' rule: sem.induct)
    case (s_while_end n0 m)
    have "goes P i x (i + length ?code) m" if w: "same_world m x" for x
      by (rule goes_then [OF goes_then [OF top [OF w]] leave])
         (use decidesD(2) [OF ca ata a(2), of m False _ "Suc ?e"] s_while_end Le in auto)
    then show ?case by blast
  next
    case (s_while_break n0 m m1)
    have "goes P i x (i + length ?code) m1" if w: "same_world m x" for x
      by (rule goes_then [OF goes_then [OF cond [OF _ w]] leave])
         (use s_while_break body [of m Brk m1 _ "Suc ?e"] Le in auto)
    then show ?case by blast
  next
    case (s_while n0 m e m1 m2)
    have again: "goes P ?b x i m1" if w: "same_world m x" for x
    proof (cases e)
      case Normal
      then have "goes P ?b x ?e m1" using body [of m Normal m1 x ?e] s_while w by simp
      then show ?thesis by (rule goes_then) (rule goes_jump [OF atj Ls])
    next
      case Cont
      then show ?thesis using body [of m Cont m1 x i] s_while w Ls by simp
    qed (use s_while in simp)
    have "goes P i x (i + length ?code) m2" if w: "same_world m x" for x
      by (rule goes_then [OF goes_then [OF cond [OF _ w] again]]) (use s_while in auto)
    then show ?case by blast
  qed (use n in auto)
  from this [OF a(3)] show "goes P i x j m'" using a(4,5) by auto
qed


text \<open>The other constructs.\<close>

lemma implements_null: "implements lt le [] (sem h Null)"
  unfolding implements_def
  by (auto elim!: sem_nullE intro!: goesI [OF reaches_refl])

lemma implements_jump:
  assumes "n \<noteq> Null" "op n = A_BREAK \<and> l = le \<or> op n = A_CONTINUE \<and> l = lt"
  shows "implements lt le [JmpL l] (sem h n)"
  unfolding implements_def
proof (intro allI impI)
  fix P i m e m' x j
  assume a: "at P i [JmpL l]" "sem h n m e m'" "same_world m x" "exits P i [JmpL l] lt le e j"
  from a(2) assms have "m' = m" "e = (if op n = A_BREAK then Brk else Cont)"
    by (cases rule: sem.cases; simp)+
  then show "goes P i x j m'" using a assms(2) by (auto intro: goes_jump)
qed

lemma implements_glue:
  assumes n: "n \<noteq> Null" "op n = A_GLUE"
    and ca: "implements lt le ca (sem h (left n))" and cb: "implements lt le cb (sem h (right n))"
  shows "implements lt le (ca @ cb) (sem h n)"
  unfolding implements_def
proof (intro allI impI)
  fix P i m e m' x j
  assume a: "at P i (ca @ cb)" "distinct (labels P)" "sem h n m e m'" "same_world m x"
    "exits P i (ca @ cb) lt le e j"
  have at: "at P i ca" "at P (i + length ca) cb" by (rule at_append [OF a(1)])+
  from a(3) n consider
      m1 where "sem h (left n) m Normal m1" "sem h (right n) m1 e m'"
    | "sem h (left n) m e m'" "e \<noteq> Normal"
    by (cases rule: sem.cases) auto
  then show "goes P i x j m'"
  proof cases
    case 1
    have "goes P i x (i + length ca) m1" by (rule implementsD [OF ca at(1) a(2) 1(1) a(4)]) simp
    moreover have "exits P (i + length ca) cb lt le e j" using a(5) by (cases e) simp_all
    ultimately show ?thesis using implementsD [OF cb at(2) a(2) 1(2)] goes_then by blast
  next
    case 2
    then have "exits P i ca lt le e j" using a(5) by (cases e) simp_all
    then show ?thesis by (rule implementsD [OF ca at(1) a(2) 2(1) a(4)])
  qed
qed

text \<open>A part of a construct, and where it goes on from the end of the part.\<close>

lemma goes_into:
  assumes "goes P i x k m" "implements lt le c R" "at P k c" "distinct (labels P)" "R m e m'"
    and exit: "exits P i0 code lt le e j"
    and leave: "\<And>y. e = Normal \<Longrightarrow> same_world m' y \<Longrightarrow> goes P (k + length c) y (i0 + length code) m'"
  shows "goes P i x j m'"
proof (cases "e = Normal")
  case True
  have "goes P i x (k + length c) m'"
    by (rule goes_then [OF assms(1) implementsD [OF assms(2-5)]]) (simp_all add: True)
  then show ?thesis using goes_then leave exit True by simp
next
  case False
  then have "exits P k c lt le e j" using exit by (cases e) simp_all
  then show ?thesis using goes_then [OF assms(1)] implementsD [OF assms(2-5)] by blast
qed

lemma sem_if:
  assumes "sem h n m e m'" "n \<noteq> Null" "op n = A_IF"
  obtains b where "cond_val h m (left n) = Some b" "sem h (if b then mid n else right n) m e m'"
  using assms by (cases rule: sem.cases) auto

lemma implements_if:
  assumes n: "n \<noteq> Null" "op n = A_IF" "right n = Null"
    and ca: "decides Lf ca (\<lambda>m. cond_val h m (left n))" and cb: "implements lt le cb (sem h (mid n))"
  shows "implements lt le (ca @ cb @ [LabelL Lf]) (sem h n)"
  unfolding implements_def
proof (intro allI impI)
  fix P i m e m' x j
  let ?code = "ca @ cb @ [LabelL Lf]"
  assume a: "at P i ?code" "distinct (labels P)" "sem h n m e m'" "same_world m x" "exits P i ?code lt le e j"
  have ata: "at P i ca" and 1: "at P (i + length ca) (cb @ [LabelL Lf])" by (rule at_append [OF a(1)])+
  let ?e = "i + length ca + length cb"
  have atb: "at P (i + length ca) cb" and ate: "at P ?e [LabelL Lf]" by (rule at_append [OF 1])+
  have Lf: "find_label P Lf = Some ?e" by (rule find_label_at [OF ate a(2)])
  have leave: "goes P ?e x (i + length ?code) m" if "same_world m x" for m x
    using goes_label [OF ate that] by (simp add: add.assoc)
  obtain b where b: "cond_val h m (left n) = Some b" "sem h (if b then mid n else right n) m e m'"
    by (rule sem_if [OF a(3) n(1,2)])
  note dec = decidesD [OF ca ata a(2) b(1) a(4)]
  show "goes P i x j m'"
  proof (cases b)
    case True
    then have s: "sem h (mid n) m e m'" and go: "goes P i x (i + length ca) m" using b(2) dec(1) by simp_all
    show ?thesis by (rule goes_into [OF go cb atb a(2) s a(5) leave])
  next
    case False
    then have "m' = m" "e = Normal" using b(2) n(3) by (auto elim: sem_nullE)
    moreover have "goes P i x ?e m" using dec(2) [OF False Lf] by simp
    ultimately show ?thesis using goes_then [OF _ leave] a(5) by simp
  qed
qed

lemma implements_if_else:
  assumes n: "n \<noteq> Null" "op n = A_IF" "\<not> has_continue (right n)"
    and ca: "decides Lf ca (\<lambda>m. cond_val h m (left n))" and cb: "implements lt le cb (sem h (mid n))"
    and cc: "implements lt' le cd (sem h (right n))"
  shows "implements lt le (ca @ cb @ [JmpL Le, LabelL Lf] @ cd @ [LabelL Le]) (sem h n)"
  unfolding implements_def
proof (intro allI impI)
  fix P i m e m' x j
  let ?code = "ca @ cb @ [JmpL Le, LabelL Lf] @ cd @ [LabelL Le]"
  assume a: "at P i ?code" "distinct (labels P)" "sem h n m e m'" "same_world m x" "exits P i ?code lt le e j"
  have ata: "at P i ca" and 1: "at P (i + length ca) (cb @ [JmpL Le, LabelL Lf] @ cd @ [LabelL Le])"
    by (rule at_append [OF a(1)])+
  let ?b = "i + length ca" and ?j = "i + length ca + length cb"
  have atb: "at P ?b cb" and 2: "at P ?j ([JmpL Le, LabelL Lf] @ cd @ [LabelL Le])"
    by (rule at_append [OF 1])+
  have atj: "at P ?j (JmpL Le # LabelL Lf # cd @ [LabelL Le])" using 2 by simp
  have atf: "at P (Suc ?j) (LabelL Lf # cd @ [LabelL Le])" by (rule at_Cons [OF atj])
  have 3: "at P (Suc (Suc ?j)) (cd @ [LabelL Le])" by (rule at_Cons [OF atf])
  let ?c = "Suc (Suc ?j)"
  let ?e = "?c + length cd"
  have atc: "at P ?c cd" and ate: "at P ?e [LabelL Le]" by (rule at_append [OF 3])+
  have Lf: "find_label P Lf = Some (Suc ?j)" by (rule find_label_at [OF atf a(2)])
  have Le: "find_label P Le = Some ?e" by (rule find_label_at [OF ate a(2)])
  have leave: "goes P ?e x (i + length ?code) m" if "same_world m x" for m x
    using goes_label [OF ate that] by (simp add: add.assoc)
  obtain b where b: "cond_val h m (left n) = Some b" "sem h (if b then mid n else right n) m e m'"
    by (rule sem_if [OF a(3) n(1,2)])
  note dec = decidesD [OF ca ata a(2) b(1) a(4)]
  show "goes P i x j m'"
  proof (cases b)
    case True
    then have s: "sem h (mid n) m e m'" and go: "goes P i x ?b m" using b(2) dec(1) by simp_all
    have out: "goes P ?j y (i + length ?code) m'" if "same_world m' y" for y
      by (rule goes_then [OF goes_jump [OF atj Le that] leave])
    show ?thesis by (rule goes_into [OF go cb atb a(2) s a(5) out])
  next
    case False
    then have s: "sem h (right n) m e m'" using b(2) by simp
    have "goes P i x (Suc ?j) m" by (rule dec(2) [OF False Lf])
    then have go: "goes P i x ?c m" by (rule goes_then) (rule goes_label [OF atf])
    have ex: "exits P i ?code lt' le e j" using a(5) sem_continue [OF s] n(3) by (cases e) simp_all
    show ?thesis by (rule goes_into [OF go cc atc a(2) s ex leave])
  qed
qed


section \<open>The generator\<close>

text \<open>A generator that does it for the sub-trees of a node.\<close>

definition gen_ok :: "gen \<Rightarrow> symtable list \<Rightarrow> ast \<Rightarrow> bool" where
  "gen_ok g h n \<longleftrightarrow> (\<forall>s a lt le p. Heap s = h \<longrightarrow> regs_at 0 s \<longrightarrow> stmt_correct lt le h n s (g n a lt le p s))"

definition cond_gen :: "gen \<Rightarrow> symtable list \<Rightarrow> ast \<Rightarrow> bool" where
  "cond_gen g h n \<longleftrightarrow> (\<forall>s lf lt le p. Heap s = h \<longrightarrow> regs_at 0 s \<longrightarrow> p = Some A_IF \<or> p = Some A_WHILE \<longrightarrow>
     cond_correct lf h n s (g n lf lt le p s))"

text \<open>The sub-tree from \<open>s\<close>, with the call after it that frees the registers.\<close>

definition then_freed :: "'a gcomp \<Rightarrow> compiler \<Rightarrow> compiler \<Rightarrow> bool" where
  "then_freed f s s' \<longleftrightarrow> (\<exists>r s1. f s = Inr (r, s1) \<and> genfreeregs NOREG s1 = Inr ((), s'))"

lemma run_freed: "then_freed f s s' \<Longrightarrow> thn f (thn (genfreeregs NOREG) k) s = k s'"
  unfolding then_freed_def by auto

lemma gen_okE:
  assumes "gen_ok g h n" "clean c0 s0 s" "Heap s = h"
  obtains s' code where "then_freed (g n a lt le p) s s'" "clean (c0 @ code) s0 s'"
    "implements lt le code (sem h n)" "Heap s' = h"
proof -
  obtain r s1 code where 1: "g n a lt le p s = Inr (r, s1)" "done_with code s s1" "implements lt le code (sem h n)"
    using assms clean_facts(2) [OF assms(2)] unfolding gen_ok_def stmt_correct_def by blast
  note f = done_free [OF 1(2)]
  show thesis
    by (rule that [OF _ clean_trans [OF assms(2) f(2)] 1(3)])
       (use 1(1) f(1) clean_facts(1) [OF f(2)] assms(3) in \<open>simp_all add: then_freed_def\<close>)
qed

lemma cond_genE:
  assumes "cond_gen g h n" "clean c0 s0 s" "Heap s = h" "p = Some A_IF \<or> p = Some A_WHILE"
  obtains s' code where "then_freed (g n lf lt le p) s s'" "clean (c0 @ code) s0 s'"
    "decides lf code (\<lambda>m. cond_val h m n)" "Heap s' = h"
proof -
  obtain r s1 code where 1: "g n lf lt le p s = Inr (r, s1)" "done_with code s s1"
      "decides lf code (\<lambda>m. cond_val h m n)"
    using assms clean_facts(2) [OF assms(2)] unfolding cond_gen_def cond_correct_def by blast
  note f = done_free [OF 1(2)]
  show thesis
    by (rule that [OF _ clean_trans [OF assms(2) f(2)] 1(3)])
       (use 1(1) f(1) clean_facts(1) [OF f(2)] assms(3) in \<open>simp_all add: then_freed_def\<close>)
qed

text \<open>The steps that print labels and jumps.\<close>

lemma run_label: "thn (cglabel l) k s = k (out [LabelL l] s)" "thn (cgjump l) k s = k (out [JmpL l] s)"
  by (simp_all add: cglabel_def cgjump_def)

lemma run_genlabel: "bnd genlabel f s = f (labelid s) (s\<lparr>labelid := labelid s + 1\<rparr>)"
  by (simp add: genlabel_def)

lemma gen_while:
  assumes n: "n \<noteq> Null" "op n = A_WHILE"
    and g: "cond_gen g h (left n)" "gen_ok g h (right n)" and s: "clean [] s0 s" "Heap s = h"
  shows "stmt_correct lt le h n s0 (genWHILE g n s)"
proof -
  let ?Ls = "labelid s" and ?Le = "labelid s + 1"
  define s1 where "s1 = out [LabelL ?Ls] (s\<lparr>labelid := ?Ls + 1, labelid := ?Ls + 1 + 1\<rparr>)"
  have s1: "clean ([] @ [LabelL ?Ls]) s0 s1" "Heap s1 = h"
    unfolding s1_def by (intro clean_out clean_label s) (simp add: out_def s)
  obtain s2 ca where ca: "then_freed (g (left n) ?Le ?Ls ?Le (Some (op n))) s1 s2"
    "clean (([] @ [LabelL ?Ls]) @ ca) s0 s2" "decides ?Le ca (\<lambda>m. cond_val h m (left n))" "Heap s2 = h"
    by (rule cond_genE [OF g(1) s1, where p = "Some (op n)"]) (use n in simp_all)
  obtain s3 cb where cb: "then_freed (g (right n) NOLABEL ?Ls ?Le (Some (op n))) s2 s3"
    "clean ((([] @ [LabelL ?Ls]) @ ca) @ cb) s0 s3" "implements ?Ls ?Le cb (sem h (right n))"
    by (rule gen_okE [OF g(2) ca(2,4)])
  let ?s' = "out [LabelL ?Le] (out [JmpL ?Ls] s3)"
  have "genWHILE g n s =
      thn (g (left n) ?Le ?Ls ?Le (Some (op n))) (thn (genfreeregs NOREG) (
      thn (g (right n) NOLABEL ?Ls ?Le (Some (op n))) (thn (genfreeregs NOREG) (
      thn (cgjump ?Ls) (thn (cglabel ?Le) (ret NOREG)))))) s1"
    unfolding genWHILE_def s1_def by (simp add: run_genlabel run_label)
  then have "genWHILE g n s = Inr (NOREG, ?s')"
    unfolding run_freed [OF ca(1)] run_freed [OF cb(1)] run_label by simp
  moreover have "done_with (LabelL ?Ls # ca @ cb @ [JmpL ?Ls, LabelL ?Le]) s0 ?s'"
    using clean_done [OF clean_out [OF clean_out [OF cb(2), of "[JmpL ?Ls]"], of "[LabelL ?Le]"]] by simp
  moreover have "implements lt le (LabelL ?Ls # ca @ cb @ [JmpL ?Ls, LabelL ?Le]) (sem h n)"
    by (rule implements_while [OF n ca(3) cb(3)])
  ultimately show ?thesis unfolding stmt_correct_def by blast
qed


lemma gen_if:
  assumes n: "n \<noteq> Null" "op n = A_IF" "\<not> has_continue (right n)"
    and g: "cond_gen g h (left n)" "gen_ok g h (mid n)" "gen_ok g h (right n)"
    and s: "clean [] s0 s" "Heap s = h"
  shows "stmt_correct lt le h n s0 (genIF g n lt le s)"
proof -
  let ?Lf = "labelid s" and ?Le = "labelid s + 1"
  define s1 where "s1 = s\<lparr>labelid := ?Lf + 1, labelid := if right n = Null then ?Lf + 1 else ?Lf + 1 + 1\<rparr>"
  have s1: "clean [] s0 s1" "Heap s1 = h"
    unfolding s1_def by (intro clean_label s) (simp add: s)
  obtain s2 ca where ca: "then_freed (g (left n) ?Lf NOLABEL NOLABEL (Some (op n))) s1 s2"
    "clean ([] @ ca) s0 s2" "decides ?Lf ca (\<lambda>m. cond_val h m (left n))" "Heap s2 = h"
    by (rule cond_genE [OF g(1) s1, where p = "Some (op n)"]) (use n in simp_all)
  obtain s3 cb where cb: "then_freed (g (mid n) NOLABEL lt le (Some (op n))) s2 s3"
    "clean (([] @ ca) @ cb) s0 s3" "implements lt le cb (sem h (mid n))" "Heap s3 = h"
    by (rule gen_okE [OF g(2) ca(2,4)])
  show ?thesis
  proof (cases "right n = Null")
    case True
    let ?s' = "out [LabelL ?Lf] s3"
    have "genIF g n lt le s =
        thn (g (left n) ?Lf NOLABEL NOLABEL (Some (op n))) (thn (genfreeregs NOREG) (
        thn (g (mid n) NOLABEL lt le (Some (op n))) (thn (genfreeregs NOREG) (
        thn (cglabel ?Lf) (ret NOREG))))) s1"
      unfolding genIF_def s1_def using True by (simp add: run_genlabel run_label)
    then have "genIF g n lt le s = Inr (NOREG, ?s')"
      unfolding run_freed [OF ca(1)] run_freed [OF cb(1)] run_label by simp
    moreover have "done_with (ca @ cb @ [LabelL ?Lf]) s0 ?s'"
      using clean_done [OF clean_out [OF cb(2), of "[LabelL ?Lf]"]] by simp
    moreover have "implements lt le (ca @ cb @ [LabelL ?Lf]) (sem h n)"
      by (rule implements_if [OF n(1,2) True ca(3) cb(3)])
    ultimately show ?thesis unfolding stmt_correct_def by blast
  next
    case False
    define s4 where "s4 = out [LabelL ?Lf] (out [JmpL ?Le] s3)"
    have s4: "clean (((([] @ ca) @ cb) @ [JmpL ?Le]) @ [LabelL ?Lf]) s0 s4" "Heap s4 = h"
      unfolding s4_def by (intro clean_out cb(2)) (simp add: out_def cb)
    obtain s5 cd where cd: "then_freed (g (right n) NOLABEL NOLABEL le (Some (op n))) s4 s5"
      "clean ((((([] @ ca) @ cb) @ [JmpL ?Le]) @ [LabelL ?Lf]) @ cd) s0 s5"
      "implements NOLABEL le cd (sem h (right n))"
      by (rule gen_okE [OF g(3) s4])
    let ?s' = "out [LabelL ?Le] s5"
    have "genIF g n lt le s =
        thn (g (left n) ?Lf NOLABEL NOLABEL (Some (op n))) (thn (genfreeregs NOREG) (
        thn (g (mid n) NOLABEL lt le (Some (op n))) (thn (genfreeregs NOREG) (
        thn (cgjump ?Le) (thn (cglabel ?Lf) (
        thn (g (right n) NOLABEL NOLABEL le (Some (op n))) (thn (genfreeregs NOREG) (
        thn (cglabel ?Le) (ret NOREG))))))))) s1"
      unfolding genIF_def s1_def using False by (simp add: run_genlabel run_label thn_assoc)
    then have "genIF g n lt le s = Inr (NOREG, ?s')"
      unfolding run_freed [OF ca(1)] run_freed [OF cb(1)] run_label s4_def [symmetric] run_freed [OF cd(1)]
      by simp
    moreover have "done_with (ca @ cb @ [JmpL ?Le, LabelL ?Lf] @ cd @ [LabelL ?Le]) s0 ?s'"
      using clean_done [OF clean_out [OF cd(2), of "[LabelL ?Le]"]] by simp
    moreover have "implements lt le (ca @ cb @ [JmpL ?Le, LabelL ?Lf] @ cd @ [LabelL ?Le]) (sem h n)"
      by (rule implements_if_else [OF n ca(3) cb(3) cd(3)])
    ultimately show ?thesis unfolding stmt_correct_def by blast
  qed
qed

text \<open>In a sequence the generator is not called for an empty part.\<close>

lemma gen_partE:
  assumes "gen_ok g h n" "clean c0 s0 s" "Heap s = h"
  obtains s' code where
    "then_freed (if n \<noteq> Null then thn (g n a lt le p) (ret ()) else ret ()) s s'"
    "clean (c0 @ code) s0 s'" "implements lt le code (sem h n)" "Heap s' = h"
proof (cases "n = Null")
  case True
  have c: "clean [] s s" using clean_facts(2) [OF assms(2)] by (rule clean_refl)
  note f = done_free [OF clean_done [OF c]]
  show thesis
    by (rule that [OF _ clean_trans [OF assms(2) f(2)]])
       (use True f(1) clean_facts(1) [OF f(2)] assms(3) implements_null in \<open>simp_all add: then_freed_def\<close>)
next
  case False
  obtain s' code where c: "then_freed (g n a lt le p) s s'" "clean (c0 @ code) s0 s'"
    "implements lt le code (sem h n)" "Heap s' = h"
    by (rule gen_okE [OF assms])
  have "then_freed (if n \<noteq> Null then thn (g n a lt le p) (ret ()) else ret ()) s s'"
    using c(1) False by (auto simp: then_freed_def)
  then show thesis using that c by blast
qed

lemma gen_sequence:
  assumes n: "n \<noteq> Null" "op n = A_GLUE" and g: "gen_ok g h (left n)" "gen_ok g h (right n)"
    and s: "clean [] s0 s" "Heap s = h"
  shows "stmt_correct lt le h n s0 (gen_glue g n a lt le s)"
proof -
  obtain s1 ca where ca:
    "then_freed (if left n \<noteq> Null then thn (g (left n) a lt le (Some (op n))) (ret ()) else ret ()) s s1"
    "clean ([] @ ca) s0 s1" "implements lt le ca (sem h (left n))" "Heap s1 = h"
    by (rule gen_partE [OF g(1) s])
  obtain s2 cb where cb:
    "then_freed (if right n \<noteq> Null then thn (g (right n) a lt le (Some (op n))) (ret ()) else ret ()) s1 s2"
    "clean (([] @ ca) @ cb) s0 s2" "implements lt le cb (sem h (right n))"
    by (rule gen_partE [OF g(2) ca(2,4)])
  have "gen_glue g n a lt le s = Inr (NOREG, s2)"
    unfolding gen_glue_def run_freed [OF ca(1)] run_freed [OF cb(1)] by simp
  moreover have "done_with (ca @ cb) s0 s2" using clean_done [OF cb(2)] by simp
  moreover have "implements lt le (ca @ cb) (sem h n)" by (rule implements_glue [OF n ca(3) cb(3)])
  ultimately show ?thesis unfolding stmt_correct_def by blast
qed

lemma gen_jump:
  assumes "n \<noteq> Null" "op n = A_BREAK \<and> l = le \<or> op n = A_CONTINUE \<and> l = lt"
    and "left n = Null" "right n = Null" "regs_at 0 s"
  shows "stmt_correct lt le h n s (genAST_f (Suc k) n a lt le p s)"
proof -
  have nc: "\<not> control_op (op n)" using assms(2) by (auto simp: control_op_def)
  obtain ln where ln: "genAST_body (genAST_f k) n a lt le p s = gen_operands (genAST_f k) n a lt le p (s\<lparr>Line := ln\<rparr>)"
    using genAST_operation [OF assms(1) nc] by blast
  have op_l: "gen_op n r r' a lt le p s' = Inr (NOREG, out [JmpL l] s')" for r r' s'
    using assms(2) by (elim disjE conjE; simp add: gen_op_def cgjump_def)
  have "genAST_f (Suc k) n a lt le p s = Inr (NOREG, out [JmpL l] (s\<lparr>Line := ln\<rparr>))"
    unfolding genAST_f.simps ln using op_l assms(3,4) by (simp add: gen_operands_def)
  moreover have "done_with ([] @ [JmpL l]) s (out [JmpL l] (s\<lparr>Line := ln\<rparr>))"
    by (rule clean_done [OF clean_out [OF clean_Line [OF assms(5)]]])
  ultimately show ?thesis
    using implements_jump [OF assms(1,2)] unfolding stmt_correct_def by auto
qed

lemma stmt_ok_op:
  "n \<noteq> Null \<Longrightarrow> stmt_ok h n \<longleftrightarrow> op n = A_ASSIGN \<and> expr_ok h (left n) \<and> target_ok h (right n)
     \<or> (op n = A_BREAK \<or> op n = A_CONTINUE) \<and> left n = Null \<and> right n = Null
     \<or> op n = A_GLUE \<and> stmt_ok h (left n) \<and> stmt_ok h (right n)
     \<or> op n = A_IF \<and> cond_ok h (left n) \<and> stmt_ok h (mid n) \<and> stmt_ok h (right n) \<and> \<not> has_continue (right n)
     \<or> op n = A_WHILE \<and> cond_ok h (left n) \<and> stmt_ok h (right n)"
  by (cases n) simp_all

lemma sub_sizes: "n \<noteq> Null \<Longrightarrow> size (left n) < size n \<and> size (mid n) < size n \<and> size (right n) < size n"
  by (cases n) simp_all

lemma genAST_control:
  assumes "n \<noteq> Null"
  obtains l where "update_line n s = Inr ((), s\<lparr>Line := l\<rparr>)"
    "op n = A_IF \<Longrightarrow> genAST_body g n a b c p s = genIF g n b c (s\<lparr>Line := l\<rparr>)"
    "op n = A_WHILE \<Longrightarrow> genAST_body g n a b c p s = genWHILE g n (s\<lparr>Line := l\<rparr>)"
    "op n = A_GLUE \<Longrightarrow> genAST_body g n a b c p s = gen_glue g n a b c (s\<lparr>Line := l\<rparr>)"
proof -
  obtain l where l: "update_line n s = Inr ((), s\<lparr>Line := l\<rparr>)" using update_line_run by blast
  then show thesis using assms that [OF l] by (simp add: genAST_body_def)
qed

lemma gen_stmt_correct:
  "stmt_ok h n \<Longrightarrow> size n < k \<Longrightarrow> gen_ok (genAST_f k) h n"
proof (induction k arbitrary: n)
  case (Suc k)
  show ?case
    unfolding gen_ok_def
  proof (intro allI impI)
    fix s a lt le p
    assume s: "Heap s = h" "regs_at 0 s"
    show "stmt_correct lt le h n s (genAST_f (Suc k) n a lt le p s)"
    proof (cases "n = Null")
      case True
      then show ?thesis
        using implements_null clean_done [OF clean_refl [OF s(2)]] unfolding stmt_correct_def
        by (simp add: genAST_body_def) blast
    next
      case False
      have sub: "gen_ok (genAST_f k) h q" if "stmt_ok h q" "q \<in> {left n, mid n, right n}" for q
        using Suc.IH [OF that(1)] Suc.prems(2) that(2) sub_sizes [OF False] by auto
      have cond: "cond_gen (genAST_f k) h (left n)" if "cond_ok h (left n)"
        using gen_cond_correct that Suc.prems(2) sub_sizes [OF False] unfolding cond_gen_def by auto
      obtain l where l:
          "op n = A_IF \<Longrightarrow> genAST_body (genAST_f k) n a lt le p s = genIF (genAST_f k) n lt le (s\<lparr>Line := l\<rparr>)"
          "op n = A_WHILE \<Longrightarrow> genAST_body (genAST_f k) n a lt le p s = genWHILE (genAST_f k) n (s\<lparr>Line := l\<rparr>)"
          "op n = A_GLUE \<Longrightarrow> genAST_body (genAST_f k) n a lt le p s = gen_glue (genAST_f k) n a lt le (s\<lparr>Line := l\<rparr>)"
        by (rule genAST_control [OF False]) blast
      have c: "clean [] s (s\<lparr>Line := l\<rparr>)" "Heap (s\<lparr>Line := l\<rparr>) = h" using clean_Line [OF s(2)] s(1) by simp_all
      from Suc.prems(1) consider "op n = A_ASSIGN" | "op n = A_BREAK" | "op n = A_CONTINUE" | "op n = A_GLUE"
        | "op n = A_IF" | "op n = A_WHILE"
        unfolding stmt_ok_op [OF False] by blast
      then show ?thesis
      proof cases
        case 1
        then show ?thesis
          using gen_assign_correct [OF False, where s = s and k = "Suc k"] s Suc.prems stmt_ok_op [OF False] by simp
      next
        case 2
        then show ?thesis using gen_jump [OF False, of le le lt] Suc.prems(1) stmt_ok_op [OF False] s(2) by simp
      next
        case 3
        then show ?thesis using gen_jump [OF False, of lt le lt] Suc.prems(1) stmt_ok_op [OF False] s(2) by simp
      next
        case 4
        then show ?thesis
          using gen_sequence [OF False 4 sub sub c] l(3) Suc.prems(1) stmt_ok_op [OF False] by simp
      next
        case 5
        then show ?thesis
          using gen_if [OF False 5 _ cond sub sub c] l(1) Suc.prems(1) stmt_ok_op [OF False] by simp
      next
        case 6
        then show ?thesis
          using gen_while [OF False 6 cond sub c] l(2) Suc.prems(1) stmt_ok_op [OF False] by simp
      qed
    qed
  qed
qed simp



text \<open>\<^verbatim>\<open>while (c < 3) { c = c + 2; if (c == 2) continue; else break; }\<close> for the global \<^verbatim>\<open>char c\<close>.\<close>

definition char_read :: ast where
  "char_read = set_rvalue (mkastleaf A_IDENT P_CHAR None (Some 0) 0)"

definition count_tree :: ast where
  "count_tree =
     mkastnode A_WHILE P_NONE None (mkastnode A_LT P_INT None char_read Null (int_lit 3) None 0) Null
       (mkastnode A_GLUE P_NONE None
         (mkastnode A_ASSIGN P_CHAR None (mkastnode A_ADD P_INT None char_read Null (int_lit 2) None 0) Null
           (mkastleaf A_IDENT P_CHAR None (Some 0) 0) None 0) Null
         (mkastnode A_IF P_NONE None (mkastnode A_EQ P_INT None char_read Null (int_lit 2) None 0)
           (mkastleaf A_CONTINUE P_NONE None None 0) (mkastleaf A_BREAK P_NONE None None 0) None 0) None 0) None 0"

definition with_c :: "8 word \<Rightarrow> mach \<Rightarrow> mach" where
  "with_c v m = m\<lparr>mem := (mem m)(glb m ''c'' := v)\<rparr>"

lemma store_byte: "store 1 a w mm = mm(a := byte_of w 0)"
proof
  fix b
  have "unat (b - a) = 0 \<longleftrightarrow> b = a" by (simp add: unat_eq_0)
  then show "store 1 a w mm b = (mm(a := byte_of w 0)) b" by (auto simp: store_def Let_def)
qed

lemma psize_char [simp]: "psize P_CHAR = 1" "psize P_INT = 4"
  by (simp_all add: psize_def ptrtype_def)

lemma count_facts:
  "eval [char_var] (with_c v m) char_read = Some (ucast v)"
  "assigned [char_var] (mkastleaf A_IDENT P_CHAR None (Some 0) 0) w (with_c v m) = with_c (ucast w) m"
  by (simp_all add: with_c_def char_read_def assigned_def Let_def store_byte char_var_def sym_addr_def
      is_local_def load_def byte_of_def sname_def)

text \<open>A round of the loop: the first ends with \<^verbatim>\<open>continue\<close>, the second with \<^verbatim>\<open>break\<close>.\<close>

lemma count_round:
  assumes "v = 0 \<and> e = Cont \<or> v = 2 \<and> e = Brk"
  shows "cond_val [char_var] (with_c v m) (left count_tree) = Some True" (is ?cond)
    "sem [char_var] (right count_tree) (with_c v m) e (with_c (v + 2) m)" (is ?body)
proof -
  show ?cond
    using assms by (auto simp: cond_val_def count_tree_def count_facts int_lit_def cmp_val_def sval_def)
  let ?b = "right count_tree"
  have set: "sem [char_var] (left ?b) (with_c v m) Normal (with_c (v + 2) m)"
    using s_assign [of "left ?b" "[char_var]" "with_c v m" "ucast v + 2"] assms
    by (auto simp: count_tree_def int_lit_def bin_fun_def un_fun_def count_facts [unfolded mkast_defs])
  have "sem [char_var] (if v + 2 = 2 then mid (right ?b) else right (right ?b)) (with_c (v + 2) m) e (with_c (v + 2) m)"
    using assms s_break s_continue by (auto simp: count_tree_def)
  moreover have "cond_val [char_var] (with_c (v + 2) m) (left (right ?b)) = Some (v + 2 = 2)"
    using assms by (auto simp: cond_val_def count_tree_def count_facts int_lit_def cmp_val_def sval_def)
  ultimately have "sem [char_var] (right ?b) (with_c (v + 2) m) e (with_c (v + 2) m)"
    using s_if [of "right ?b"] by (simp add: count_tree_def)
  then show ?body using s_glue [OF _ _ set] by (simp add: count_tree_def)
qed

lemma count_run: "sem [char_var] count_tree (with_c 0 m) Normal (with_c 4 m)"
proof -
  have n: "count_tree \<noteq> Null" "op count_tree = A_WHILE" by (simp_all add: count_tree_def)
  have "sem [char_var] count_tree (with_c 2 m) Normal (with_c 4 m)"
    using s_while_break [OF n count_round [of 2 Brk m]] by simp
  then show ?thesis
    using s_while [OF n count_round [of 0 Cont m]] by simp
qed


end
