(* ===== verification/ScanSpec.thy ===== *)
theory ScanSpec
  imports Misc
begin

text \<open>
  The scanner always comes back, and a token costs input. Both are shown from what the
  functions of \<^verbatim>\<open>scan.c\<close> rely on of \<^verbatim>\<open>next\<close>, the locale \<open>reader\<close>; the mutual recursion of \<^verbatim>\<open>next\<close>
  and \<^verbatim>\<open>scan\<close> is then an induction on the depth of \<open>next_f\<close>, and every \<open>next_f n\<close> an
  interpretation.
\<close>

section \<open>What is left to read\<close>

text \<open>
  Two for each character that is left, in the file or put back, and one for an \<^verbatim>\<open>EOF\<close> that
  was put back.
\<close>

definition wt :: "'z scanner_scheme \<Rightarrow> nat" where
  "wt s = 2 * length (Infile s)
     + (if Putback s = 0 then 0 else if Putback s = EOF then 1 else 2)"

definition peeked :: "'z scanner_scheme \<Rightarrow> nat" where
  "peeked s = (if token (Peektoken s) = T_EOF then 0 else 1)"

definition at_token :: "'z scanner_scheme \<Rightarrow> nat" where
  "at_token s = (if token (Token s) = T_EOF then 0 else 1)"

text \<open>
  The errors of the scanner: a message, or the loop that looks for the end of a
  pre-processor line.
\<close>

definition scan_error :: "'z scanner_scheme \<Rightarrow> cerr \<Rightarrow> bool" where
  "scan_error s e \<longleftrightarrow> (\<exists>m l f. e = Fatal m l f) \<or> e = NoReturn \<and> CHR ''#'' \<in> set (Infile s)"

definition moves :: "nat \<Rightarrow> 'z scanner_scheme \<Rightarrow> 'z scanner_scheme \<Rightarrow> bool" where
  "moves b s s' \<longleftrightarrow> wt s' \<le> wt s + b \<and> peeked s' \<le> peeked s \<and> at_token s \<le> at_token s'
     \<and> set (Infile s') \<subseteq> set (Infile s)"

text \<open>
  \<open>reads n b m\<close>: with less than \<open>n\<close> characters left, \<open>m\<close> does not run out of fuel, and puts
  back at most what \<open>b\<close> allows.
\<close>

definition reads :: "nat \<Rightarrow> nat \<Rightarrow> ('z, 'a) scomp \<Rightarrow> bool" where
  "reads n b m \<longleftrightarrow> (\<forall>s. wt s < 2 * n \<longrightarrow>
     (case m s of Inl e \<Rightarrow> scan_error s e | Inr (x, s') \<Rightarrow> moves b s s'))"

lemma readsI:
  assumes "\<And>s e. wt s < 2 * n \<Longrightarrow> m s = Inl e \<Longrightarrow> scan_error s e"
    "\<And>s x s'. wt s < 2 * n \<Longrightarrow> m s = Inr (x, s') \<Longrightarrow> moves b s s'"
  shows "reads n b m"
  unfolding reads_def using assms by (auto split: sum.split)

lemma readsD:
  assumes "reads n b m" "wt s < 2 * n"
  shows "m s = Inl e \<Longrightarrow> scan_error s e" "m s = Inr (x, s') \<Longrightarrow> moves b s s'"
  using assms unfolding reads_def by (auto split: sum.splits)

lemma moves_refl [simp]: "moves b s s"
  by (simp add: moves_def)

lemma moves_mono: "moves b s s' \<Longrightarrow> b \<le> b' \<Longrightarrow> moves b' s s'"
  by (simp add: moves_def)

lemma moves_trans: "moves a s s1 \<Longrightarrow> moves b s1 s2 \<Longrightarrow> moves (a + b) s s2"
  by (auto simp: moves_def)

lemma scan_error_back: "scan_error s1 e \<Longrightarrow> moves b s s1 \<Longrightarrow> scan_error s e"
  by (auto simp: scan_error_def moves_def)

lemma reads_mono:
  assumes "reads n b m" "k \<le> n" "b \<le> b'"
  shows "reads k b' m"
proof (rule readsI)
  fix s e assume "wt s < 2 * k" "m s = Inl e"
  then show "scan_error s e" using readsD(1) [OF assms(1)] assms(2) by simp
next
  fix s x s' assume "wt s < 2 * k" "m s = Inr (x, s')"
  then show "moves b' s s'" using moves_mono [OF readsD(2) [OF assms(1)] assms(3)] assms(2) by simp
qed

lemma reads_zero [simp]: "reads 0 b m"
  by (simp add: reads_def)

lemma reads_bnd:
  assumes m: "reads n 0 m" and f: "\<And>x. reads n b (f x)"
  shows "reads n b (bnd m f)"
proof (rule readsI)
  fix s e assume w: "wt s < 2 * n" and r: "bnd m f s = Inl e"
  show "scan_error s e"
  proof (cases "m s")
    case (Inl e')
    with r show ?thesis using readsD(1) [OF m w] by simp
  next
    case (Inr a)
    obtain x s1 where a: "a = (x, s1)" by (cases a)
    have mv: "moves 0 s s1" using readsD(2) [OF m w] Inr a by blast
    then have "wt s1 < 2 * n" using w by (simp add: moves_def)
    then show ?thesis using readsD(1) [OF f] r Inr a mv by (auto intro: scan_error_back)
  qed
next
  fix s x s' assume w: "wt s < 2 * n" and "bnd m f s = Inr (x, s')"
  then obtain y s1 where 1: "m s = Inr (y, s1)" "f y s1 = Inr (x, s')" by (auto simp: bnd_eq_Inr)
  have mv: "moves 0 s s1" using readsD(2) [OF m w 1(1)] .
  then have "wt s1 < 2 * n" using w by (simp add: moves_def)
  from moves_trans [OF mv readsD(2) [OF f this 1(2)]] show "moves b s s'" by simp
qed

lemma reads_bnd_any:
  assumes m: "reads n b m" and f: "\<And>x k. reads k 0 (f x)"
  shows "reads n b (bnd m f)"
proof (rule readsI)
  fix s e assume w: "wt s < 2 * n" and r: "bnd m f s = Inl e"
  show "scan_error s e"
  proof (cases "m s")
    case (Inl e')
    with r show ?thesis using readsD(1) [OF m w] by simp
  next
    case (Inr a)
    obtain x s1 where a: "a = (x, s1)" by (cases a)
    have mv: "moves b s s1" using readsD(2) [OF m w] Inr a by blast
    have "wt s1 < 2 * (wt s1 + 1)" "f x s1 = Inl e" using r Inr a by simp_all
    then have "scan_error s1 e" by (rule readsD(1) [OF f])
    then show ?thesis using mv by (rule scan_error_back)
  qed
next
  fix s x s' assume w: "wt s < 2 * n" and "bnd m f s = Inr (x, s')"
  then obtain y s1 where 1: "m s = Inr (y, s1)" "f y s1 = Inr (x, s')" by (auto simp: bnd_eq_Inr)
  from moves_trans [OF readsD(2) [OF m w 1(1)] readsD(2) [OF f [of "wt s1 + 1"] _ 1(2)]]
  show "moves b s s'" by simp
qed

lemma reads_thn: "reads n 0 m \<Longrightarrow> reads n b k \<Longrightarrow> reads n b (thn m k)"
  unfolding thn_def by (rule reads_bnd)

lemma reads_ret [intro!]: "reads n b (ret x)"
  by (simp add: reads_def)

lemma reads_die [intro!]: "reads n b (fatal a)" "reads n b (fatals a t)" "reads n b (fatalc a c)"
  by (simp_all add: reads_def fatal_defs scan_error_def)

lemma reads_rd [intro!]: "(\<And>v. reads n b (k v)) \<Longrightarrow> reads n b (rd f k)"
  by (simp add: reads_def)

lemma reads_if [intro!]: "(c \<Longrightarrow> reads n b m) \<Longrightarrow> (\<not> c \<Longrightarrow> reads n b k) \<Longrightarrow> reads n b (if c then m else k)"
  by simp

text \<open>Assignments that leave the input alone.\<close>

definition same_input :: "('z scanner_scheme \<Rightarrow> 'z scanner_scheme) \<Rightarrow> bool" where
  "same_input f \<longleftrightarrow> (\<forall>s. Infile (f s) = Infile s \<and> Putback (f s) = Putback s
     \<and> peeked (f s) = peeked s \<and> at_token (f s) = at_token s)"

lemma same_input_simps [intro!, simp]:
  "same_input (\<lambda>s. s\<lparr>Text := t\<rparr>)" "same_input (\<lambda>s. s\<lparr>Linestart := b\<rparr>)"
  "same_input (\<lambda>s. s\<lparr>Line := g s\<rparr>)" "same_input (upd_tok r (\<lambda>t. t\<lparr>intvalue := v\<rparr>))"
  by (cases r; simp add: same_input_def peeked_def at_token_def)+

lemma reads_wr:
  assumes "same_input f" "reads n b k"
  shows "reads n b (wr f k)"
proof -
  have "wt (f s) = wt s" "moves b (f s) s' \<longleftrightarrow> moves b s s'" "scan_error (f s) e \<longleftrightarrow> scan_error s e" for s s' e
    using assms(1) by (auto simp: same_input_def wt_def moves_def scan_error_def)
  note f = this
  show ?thesis
  proof (rule readsI)
    fix s e assume "wt s < 2 * n" "wr f k s = Inl e"
    then show "scan_error s e" using readsD(1) [OF assms(2), of "f s" e] f by simp
  next
    fix s x s' assume "wt s < 2 * n" "wr f k s = Inr (x, s')"
    then show "moves b s s'" using readsD(2) [OF assms(2), of "f s"] f by auto
  qed
qed

lemma reads_putback: "reads n (if c = EOF then 1 else 2) (putback c)"
  by (auto simp: reads_def putback_def moves_def wt_def peeked_def at_token_def)

lemma reads_putback_then:
  assumes "\<And>s. \<exists>s'. k s = Inr (x, s') \<and> Infile s' = Infile s \<and> Putback s' = Putback s
     \<and> Token s' = Token s \<and> Peektoken s' = Peektoken s" "(if c = EOF then 1 else 2) \<le> b"
  shows "reads n b (thn (putback c) k)"
proof (rule readsI)
  fix s :: "'a scanner_scheme" and y s'
  assume "thn (putback c) k s = Inr (y, s')"
  moreover obtain s2 where "k (s\<lparr>Putback := c\<rparr>) = Inr (x, s2)" "Infile s2 = Infile s" "Putback s2 = c"
      "Token s2 = Token s" "Peektoken s2 = Peektoken s"
    using assms(1) [of "s\<lparr>Putback := c\<rparr>"] by auto
  ultimately show "moves b s s'"
    using assms(2) by (auto simp: putback_def moves_def wt_def peeked_def at_token_def)
next
  fix s :: "'a scanner_scheme" and e
  assume "thn (putback c) k s = Inl e"
  then show "scan_error s e"
    using assms(1) [of "s\<lparr>Putback := c\<rparr>"] by (auto simp: putback_def)
qed

lemma reads_putback_ret: "(if c = EOF then 1 else 2) \<le> b \<Longrightarrow> reads n b (thn (putback c) (ret x))"
  by (rule reads_putback_then) auto

lemma reads_putback_text:
  "(if c = EOF then 1 else 2) \<le> b \<Longrightarrow>
     reads n b (thn (putback c) (wr (\<lambda>s. s\<lparr>Text := t\<rparr>) (ret x)))"
  by (rule reads_putback_then) auto

lemma upd_tok_input [simp]:
  "Infile (upd_tok r f s) = Infile s" "Putback (upd_tok r f s) = Putback s" "wt (upd_tok r f s) = wt s"
  by (cases r; simp add: wt_def)+

lemma wt_frame [simp]:
  "wt (s\<lparr>Peektoken := t\<rparr>) = wt s" "wt (s\<lparr>Token := t\<rparr>) = wt s" "wt (s\<lparr>Linestart := b\<rparr>) = wt s"
  "wt (s\<lparr>Line := l\<rparr>) = wt s" "wt (s\<lparr>Infilename := f\<rparr>) = wt s"
  by (simp_all add: wt_def)

lemma flag_frame [simp]:
  "peeked (s\<lparr>Linestart := b\<rparr>) = peeked s" "at_token (s\<lparr>Linestart := b\<rparr>) = at_token s"
  "peeked (s\<lparr>Line := l\<rparr>) = peeked s" "at_token (s\<lparr>Line := l\<rparr>) = at_token s"
  "peeked (s\<lparr>Infilename := f\<rparr>) = peeked s" "at_token (s\<lparr>Infilename := f\<rparr>) = at_token s"
  "peeked (s\<lparr>Token := t\<rparr>) = peeked s"
  by (simp_all add: peeked_def at_token_def)

text \<open>The tokens that \<^verbatim>\<open>scan\<close> makes of characters are never \<open>T_EOF\<close>.\<close>

definition makes_token :: "('z, toktype) scomp \<Rightarrow> bool" where
  "makes_token m \<longleftrightarrow> (\<forall>s k s'. m s = Inr (k, s') \<longrightarrow> k \<noteq> T_EOF)"

lemma makes_token_rules [intro!]:
  "k \<noteq> T_EOF \<Longrightarrow> makes_token (ret k)" "makes_token (fatal a)" "makes_token (fatalc a d)"
  "(\<And>x. makes_token (f x)) \<Longrightarrow> makes_token (bnd m f)" "makes_token g \<Longrightarrow> makes_token (thn m' g)"
  "(\<And>x. makes_token (h x)) \<Longrightarrow> makes_token (rd q h)"
  "(b \<Longrightarrow> makes_token g) \<Longrightarrow> (\<not> b \<Longrightarrow> makes_token g') \<Longrightarrow> makes_token (if b then g else g')"
  by (auto simp: makes_token_def bnd_eq_Inr thn_eq_Inr fatal_defs)

lemma makes_token_follow:
  "t \<noteq> T_EOF \<Longrightarrow> T_EOF \<notin> snd ` set alts \<Longrightarrow> makes_token (follow nxt alts t)"
  unfolding follow_def by (force simp del: ret_run split: option.split dest: map_of_SomeD)

lemma makes_token_keyword: "makes_token (ret (case keyword w of Some t \<Rightarrow> t | None \<Rightarrow> T_IDENT))"
  by (auto simp: makes_token_def keyword_def split: if_splits list.splits)

lemma makes_token_put: "makes_token (put_intlit r v)"
  by (simp add: makes_token_def put_intlit_def)

lemma makes_token_put_then: "makes_token (bnd (put_intlit r v) (\<lambda>t. bnd nxt (\<lambda>c. if c \<noteq> q then fatal a else ret t)))"
  by (auto simp: makes_token_def put_intlit_def bnd_eq_Inr fatal_defs split: if_splits)

lemma makes_token_scan_switch: "makes_token (scan_switch n nxt r c)"
  unfolding scan_switch_def
  by (intro makes_token_rules makes_token_follow makes_token_keyword makes_token_put makes_token_put_then) auto

section \<open>What the scanner relies on of \<^verbatim>\<open>next\<close>\<close>

locale reader =
  fixes nxt :: "'z reader" and n :: nat
  assumes nxt_error: "wt s < 2 * n \<Longrightarrow> nxt s = Inl e \<Longrightarrow> scan_error s e"
    and nxt_moves: "wt s < 2 * n \<Longrightarrow> nxt s = Inr (c, s') \<Longrightarrow> moves 0 s s'"
    and nxt_char: "wt s < 2 * n \<Longrightarrow> nxt s = Inr (c, s') \<Longrightarrow> c \<noteq> EOF \<Longrightarrow> wt s' + 2 \<le> wt s"
begin

lemma reads_nxt: "reads n 0 nxt"
  by (rule readsI) (auto intro: nxt_error nxt_moves)

text \<open>After a character has been read there is one less, and it may be put back.\<close>

lemma reads_char:
  assumes k: "k \<le> n" and e: "reads k b (f EOF)"
    and f: "\<And>c. c \<noteq> EOF \<Longrightarrow> 0 < k \<Longrightarrow> reads (k - 1) (b + 2) (f c)"
  shows "reads k b (bnd nxt f)"
proof (rule readsI)
  fix s e' assume w: "wt s < 2 * k" and r: "bnd nxt f s = Inl e'"
  then have w': "wt s < 2 * n" using k by simp
  show "scan_error s e'"
  proof (cases "nxt s")
    case (Inl e2)
    with r show ?thesis using nxt_error [OF w'] by simp
  next
    case (Inr a)
    obtain c s1 where a: "a = (c, s1)" by (cases a)
    have mv: "moves 0 s s1" using nxt_moves [OF w'] Inr a by blast
    have "scan_error s1 e'"
    proof (cases "c = EOF")
      case True
      have "wt s1 < 2 * k" using mv w by (simp add: moves_def)
      then show ?thesis using readsD(1) [OF e] True r Inr a by simp
    next
      case False
      have "wt s1 < 2 * (k - 1)" using nxt_char [OF w' _ False] Inr a w by fastforce
      moreover have "0 < k" using w by simp
      ultimately show ?thesis using readsD(1) [OF f [OF False]] r Inr a by simp
    qed
    then show ?thesis using mv by (rule scan_error_back)
  qed
next
  fix s x s' assume w: "wt s < 2 * k" and "bnd nxt f s = Inr (x, s')"
  then obtain c s1 where 1: "nxt s = Inr (c, s1)" "f c s1 = Inr (x, s')" by (auto simp: bnd_eq_Inr)
  have w': "wt s < 2 * n" using w k by simp
  have mv: "moves 0 s s1" using nxt_moves [OF w' 1(1)] .
  show "moves b s s'"
  proof (cases "c = EOF")
    case True
    have "wt s1 < 2 * k" using mv w by (simp add: moves_def)
    from moves_trans [OF mv readsD(2) [OF e this]] 1 True show ?thesis by simp
  next
    case False
    have lt: "wt s1 + 2 \<le> wt s" using nxt_char [OF w' 1(1) False] .
    then have "wt s1 < 2 * (k - 1)" "0 < k" using w by auto
    from readsD(2) [OF f [OF False this(2)] this(1) 1(2)] lt mv show ?thesis
      by (auto simp: moves_def)
  qed
qed

lemma reads_char_any:
  assumes "k \<le> n" "\<And>c. reads k b (f c)"
  shows "reads k b (bnd nxt f)"
  by (rule reads_char) (auto intro: assms reads_mono [OF assms(2)])

subsection \<open>The loops\<close>

text \<open>
  \<open>c\<close> is a character that was read: with it, \<open>Suc k\<close> rounds are enough for less than \<open>k\<close>
  characters.
\<close>

lemma skip_loop_EOF [simp]: "0 < k \<Longrightarrow> skip_loop k nxt EOF = ret EOF"
  by (cases k) (simp_all add: is_space_def EOF_def)

lemma nxtE:
  assumes "wt s < 2 * n" "nxt s = Inr (c, s')"
  obtains "c = EOF" "moves 0 s s'" | "c \<noteq> EOF" "moves 0 s s'" "wt s' + 2 \<le> wt s"
  using nxt_moves [OF assms] nxt_char [OF assms] by blast

lemma reader_skip_loop: "k \<le> n \<Longrightarrow> reader (bnd nxt (skip_loop k nxt)) k"
proof (induction k)
  case 0
  show ?case by unfold_locales simp_all
next
  case (Suc k)
  then have ih: "reader (bnd nxt (skip_loop k nxt)) k" by simp
  have k: "skip_loop (Suc k) nxt c = (if is_space c then bnd nxt (skip_loop k nxt) else ret c)" for c
    by simp
  have res: "case bnd nxt (skip_loop (Suc k) nxt) s of Inl e \<Rightarrow> scan_error s e
      | Inr (c, s') \<Rightarrow> moves 0 s s' \<and> (c \<noteq> EOF \<longrightarrow> wt s' + 2 \<le> wt s)" if w: "wt s < 2 * Suc k" for s
  proof (cases "nxt s")
    case (Inl e)
    then show ?thesis using nxt_error Suc.prems w by simp
  next
    case (Inr a)
    obtain c s1 where a: "a = (c, s1)" by (cases a)
    have w': "wt s < 2 * n" using w Suc.prems by simp
    from w' Inr [unfolded a] show ?thesis
    proof (cases rule: nxtE)
      case 1
      then show ?thesis using Inr a by (simp add: is_space_def EOF_def)
    next
      case 2
      then have w1: "wt s1 < 2 * k" using w by simp
      show ?thesis
      proof (cases "is_space c")
        case False
        then show ?thesis using 2 Inr a by simp
      next
        case True
        then have run: "bnd nxt (skip_loop (Suc k) nxt) s = bnd nxt (skip_loop k nxt) s1"
          using Inr a by simp
        show ?thesis
        proof (cases "bnd nxt (skip_loop k nxt) s1")
          case (Inl e)
          then show ?thesis
            using run reader.nxt_error [OF ih w1] scan_error_back 2(2) by simp blast
        next
          case (Inr b)
          obtain c' s2 where b: "b = (c', s2)" by (cases b)
          have "moves 0 s1 s2" using reader.nxt_moves [OF ih w1] Inr b by blast
          moreover have "c' \<noteq> EOF \<Longrightarrow> wt s2 + 2 \<le> wt s1" using reader.nxt_char [OF ih w1] Inr b by blast
          ultimately show ?thesis using run Inr b 2 moves_trans [OF 2(2)] by fastforce
        qed
      qed
    qed
  qed
  show ?case
  proof unfold_locales
    fix s :: "'z scanner_scheme" and e
    assume "wt s < 2 * Suc k" "bnd nxt (skip_loop (Suc k) nxt) s = Inl e"
    then show "scan_error s e" using res [of s] by simp
  next
    fix s s' :: "'z scanner_scheme" and c
    assume "wt s < 2 * Suc k" "bnd nxt (skip_loop (Suc k) nxt) s = Inr (c, s')"
    then show "moves 0 s s'" "c \<noteq> EOF \<Longrightarrow> wt s' + 2 \<le> wt s" using res [of s] by simp_all
  qed
qed

lemma reader_skip: "reader (skip n nxt) n"
  unfolding skip_def by (rule reader_skip_loop) simp

subsection \<open>Literals and identifiers\<close>

lemma reads_scanint_EOF: "0 < k \<Longrightarrow> reads m 1 (scanint_loop k nxt radix val EOF)"
proof (cases k)
  case (Suc j)
  have "\<not> 0 \<le> chrpos hexdigits (tolower EOF)" by code_simp
  then show ?thesis unfolding Suc scanint_loop.simps Let_def by (simp add: reads_putback_ret)
qed simp

lemma reads_scanint_loop:
  "k < n \<Longrightarrow> c \<noteq> EOF \<Longrightarrow> reads k 2 (scanint_loop (Suc k) nxt radix val c)"
proof (induction k arbitrary: c val)
  case (Suc k)
  have "reads (Suc k) 2 (bnd nxt (scanint_loop (Suc k) nxt radix v))" for v
  proof (rule reads_char)
    show "reads (Suc k) 2 (scanint_loop (Suc k) nxt radix v EOF)"
      by (rule reads_mono [OF reads_scanint_EOF]) auto
    show "reads (Suc k - 1) (2 + 2) (scanint_loop (Suc k) nxt radix v d)" if "d \<noteq> EOF" for d
      using reads_mono [OF Suc.IH [of d v]] Suc.prems that by simp
  qed (use Suc.prems in simp)
  then show ?case
    unfolding scanint_loop.simps(2) [of "Suc k"] Let_def
    using Suc.prems by (auto intro!: reads_putback_ret)
qed simp

lemma isdigit_hexdigit:
  assumes "isdigit c" shows "0 \<le> chrpos hexdigits (tolower c)"
proof -
  have "c = 48 \<or> c = 49 \<or> c = 50 \<or> c = 51 \<or> c = 52 \<or> c = 53 \<or> c = 54 \<or> c = 55 \<or> c = 56 \<or> c = 57"
    using assms unfolding isdigit_def by arith
  then have "c \<in> {48, 49, 50, 51, 52, 53, 54, 55, 56, 57}" by simp
  moreover have "\<forall>c\<in>{48, 49, 50, 51, 52, 53, 54, 55, 56, 57}. 0 \<le> chrpos hexdigits (tolower c)"
    by code_simp
  ultimately show ?thesis by blast
qed

lemma not_digit_EOF [simp]: "\<not> isdigit EOF"
  by (simp add: isdigit_def EOF_def)

lemma digit_not_EOF: "isdigit c \<Longrightarrow> c \<noteq> EOF"
  by (auto simp: isdigit_def EOF_def)

text \<open>A literal that starts with the digit \<open>c\<close> is followed by a character, so less is put back.\<close>

lemma reads_scanint:
  assumes "k < n" "isdigit c"
  shows "reads k 1 (scanint (Suc k) nxt c)"
proof -
  have loop: "reads (k - 1) 2 (scanint_loop (Suc k) nxt radix val d)" if "d \<noteq> EOF" for radix val d
    using reads_mono [OF reads_scanint_loop [OF assms(1) that]] by simp
  have loopk: "reads (k - 1) 2 (scanint_loop k nxt radix val d)" if "d \<noteq> EOF" for radix val d
    using reads_mono [OF reads_scanint_loop [of "k - 1" d]] assms(1) that by (cases k) simp_all
  have e: "reads m 1 (scanint_loop (Suc k) nxt radix val EOF)" for m radix val
    by (rule reads_scanint_EOF) simp
  have ek: "reads k 1 (scanint_loop k nxt radix val EOF)" for radix val
    using reads_scanint_EOF [of k k] by (cases "k = 0") auto
  have k: "k \<le> n" using assms(1) by simp
  have hex: "reads k 1 (bnd nxt (scanint_loop (Suc k) nxt radix 0))" for radix
    by (intro reads_char k e reads_mono [OF loop]) auto
  show ?thesis
  proof (cases "c = cc (CHR ''0'')")
    case True
    have h: "reads (k - 1) (1 + 2) (bnd nxt (scanint_loop (Suc k) nxt 16 0))"
      by (rule reads_mono [OF hex]) auto
    have "reads k 1 (bnd nxt (\<lambda>c. if c = cc (CHR ''x'') then bnd nxt (scanint_loop (Suc k) nxt 16 0)
        else scanint_loop (Suc k) nxt 8 0 c))"
    proof (rule reads_char [OF k])
      show "reads k 1 (if EOF = cc (CHR ''x'') then bnd nxt (scanint_loop (Suc k) nxt 16 0)
          else scanint_loop (Suc k) nxt 8 0 EOF)" using e by (simp del: scanint_loop.simps)
      show "reads (k - 1) (1 + 2) (if d = cc (CHR ''x'') then bnd nxt (scanint_loop (Suc k) nxt 16 0)
          else scanint_loop (Suc k) nxt 8 0 d)" if "d \<noteq> EOF" for d
        by (intro reads_if h reads_mono [OF loop [OF that]]) simp_all
    qed
    then show ?thesis by (simp add: scanint_def True del: scanint_loop.simps)
  next
    case False
    have "reads k 1 (bnd nxt (scanint_loop k nxt 10 v))" for v
      by (intro reads_char k ek reads_mono [OF loopk]) auto
    then show ?thesis
      using isdigit_hexdigit [OF assms(2)] False
      by (auto simp: scanint_def Let_def)
  qed
qed

lemma reads_hexchar_loop:
  "k < n \<Longrightarrow> reads k 1 (hexchar_loop (Suc k) nxt v f)"
proof (induction k arbitrary: v f)
  case (Suc k)
  show ?case
    unfolding hexchar_loop.simps(2) [of "Suc k"]
  proof (rule reads_char)
    show "reads (Suc k) 1 (if isxdigit EOF then hexchar_loop (Suc k) nxt
            (i32 (v * 16 + chrpos hexdigits (tolower EOF))) True else thn (putback EOF) (ret (v, f)))"
      by (auto simp: isxdigit_def isdigit_def EOF_def intro: reads_putback_ret)
    show "reads (Suc k - 1) (1 + 2) (if isxdigit c then hexchar_loop (Suc k) nxt
            (i32 (v * 16 + chrpos hexdigits (tolower c))) True else thn (putback c) (ret (v, f)))" for c
      using Suc by (auto simp del: hexchar_loop.simps intro!: reads_putback_ret intro: reads_mono [OF Suc.IH])
  qed (use Suc.prems in simp)
qed simp

lemma reads_octal_loop:
  "k \<le> n \<Longrightarrow> c \<noteq> EOF \<Longrightarrow> reads k 2 (octal_loop i nxt c v)"
proof (induction i arbitrary: k c v)
  case 0
  then show ?case by (simp add: reads_putback_ret)
next
  case (Suc i)
  have "reads k 2 (octal_loop i nxt EOF v)" for v
    by (cases i) (auto simp: isdigit_def EOF_def intro!: reads_putback_ret)
  moreover have "reads (k - 1) (2 + 2) (octal_loop i nxt d v)" if "d \<noteq> EOF" for d v
    by (rule reads_mono [OF Suc.IH [of "k - 1" d v]]) (use Suc.prems that in auto)
  ultimately have "reads k 2 (bnd nxt (\<lambda>d. octal_loop i nxt d v))" for v
    using Suc.prems by (intro reads_char) auto
  then show ?case
    using Suc.prems by (auto intro!: reads_putback_ret)
qed

lemma reads_hexchar: "k < n \<Longrightarrow> reads k 1 (hexchar (Suc k) nxt)"
  unfolding hexchar_def by (rule reads_bnd_any [OF reads_hexchar_loop]) (auto split: prod.split)

lemma reads_scanch:
  assumes "k < n"
  shows "reads k 0 (scanch (Suc k) nxt)"
proof -
  have k: "k \<le> n" using assms by simp
  define esc where "esc = (\<lambda>c. if c = cc (CHR ''a'') then ret 7
       else if c = cc (CHR ''b'') then ret 8
       else if c = cc (CHR ''f'') then ret 12
       else if c = cc (CHR ''n'') then ret 10
       else if c = cc (CHR ''r'') then ret 13
       else if c = cc (CHR ''t'') then ret 9
       else if c = cc (CHR ''v'') then ret 11
       else if c = cc (CHR 0x5C) then ret (cc (CHR 0x5C))
       else if c = cc (CHR 0x22) then ret (cc (CHR 0x22))
       else if c = cc (CHR 0x27) then ret (cc (CHR 0x27))
       else if isdigit c \<and> c < 56 then octal_loop 3 nxt c 0
       else if c = cc (CHR ''x'') then hexchar (Suc k) nxt
       else fatalc ''unknown escape sequence'' c)"
  have "reads k 2 (bnd nxt esc)"
  proof (rule reads_char [OF k])
    show "reads k 2 (esc EOF)"
      unfolding esc_def by (simp del: ret_run add: not_digit_EOF reads_die)
    show "reads (k - 1) (2 + 2) (esc c)" if "c \<noteq> EOF" for c
      unfolding esc_def
      by (intro reads_if reads_ret reads_die reads_mono [OF reads_hexchar [OF assms]]
          reads_mono [OF reads_octal_loop [OF k that]]) simp_all
  qed
  then have esc: "reads (k - 1) (0 + 2) (bnd nxt esc)" by (rule reads_mono) auto
  have "reads k 0 (bnd nxt (\<lambda>c. if c = cc (CHR 0x5C) then bnd nxt esc else ret c))"
  proof (rule reads_char [OF k])
    show "reads (k - 1) (0 + 2) (if c = cc (CHR 0x5C) then bnd nxt esc else ret c)" for c
      by (intro reads_if esc reads_ret)
  qed (simp add: reads_ret del: ret_run)
  then show ?thesis unfolding scanch_def esc_def .
qed

lemma reads_scanstr_loop:
  "k < n \<Longrightarrow> reads k 0 (scanstr_loop room (Suc k) nxt buf)"
  by (induction room arbitrary: buf) (auto intro!: reads_bnd reads_scanch reads_wr)

lemma reads_scanident_loop:
  assumes "k \<le> n"
  shows "reads k (if c = EOF then 1 else 2) (scanident_loop room nxt c buf)"
  using assms
proof (induction room arbitrary: k c buf)
  case 0
  then show ?case by (auto intro!: reads_putback_text)
next
  case (Suc room)
  have "reads k 1 (bnd nxt (\<lambda>d. scanident_loop room nxt d b))" for b
  proof (rule reads_char [OF Suc.prems])
    show "reads k 1 (scanident_loop room nxt EOF b)"
      using Suc.IH [of k EOF] Suc.prems by simp
    show "reads (k - 1) (1 + 2) (scanident_loop room nxt d b)" for d
      by (rule reads_mono [OF Suc.IH [of "k - 1"]]) (use Suc.prems in auto)
  qed
  then have "reads k (if c = EOF then 1 else 2) (bnd nxt (\<lambda>d. scanident_loop room nxt d b))" for b
    by (rule reads_mono) auto
  then show ?case
    by (auto intro!: reads_putback_text simp del: One_nat_def)
qed

text \<open>A word that starts with the letter \<open>c\<close> is followed by a character too.\<close>

lemma reads_scanident:
  assumes "k \<le> n" "is_idchar c" "1 < lim"
  shows "reads k 1 (scanident nxt c lim)"
proof -
  obtain room where lim: "lim - 1 = Suc room" using assms(3) by (cases "lim - 1") auto
  have "reads k 1 (bnd nxt (\<lambda>d. scanident_loop room nxt d b))" for b
  proof (rule reads_char [OF assms(1)])
    show "reads k 1 (scanident_loop room nxt EOF b)"
      using reads_scanident_loop [OF assms(1), of EOF] by simp
    show "reads (k - 1) (1 + 2) (scanident_loop room nxt d b)" for d
      by (rule reads_mono [OF reads_scanident_loop [of "k - 1"]]) (use assms(1) in auto)
  qed
  then show ?thesis using assms(2) unfolding scanident_def lim by (simp del: One_nat_def)
qed

lemma reads_follow:
  assumes "k \<le> n" "map_of alts EOF = None"
  shows "reads k 1 (follow nxt alts t)"
  unfolding follow_def
proof (rule reads_char [OF assms(1)])
  show "reads k 1 (case map_of alts EOF of Some t' \<Rightarrow> ret t' | None \<Rightarrow> thn (putback EOF) (ret t))"
    using assms(2) by (simp add: reads_putback_ret del: ret_run)
  show "reads (k - 1) (1 + 2) (case map_of alts c of Some t' \<Rightarrow> ret t' | None \<Rightarrow> thn (putback c) (ret t))" for c
    by (auto simp del: ret_run intro!: reads_putback_ret split: option.split)
qed

lemma reads_put_intlit: "reads k 0 (put_intlit r v)"
  unfolding put_intlit_def by (intro reads_wr) auto

subsection \<open>Tokens\<close>

lemma reads_scan_switch:
  assumes n: "n = Suc k" and c: "c \<noteq> EOF"
  shows "reads k 1 (scan_switch n nxt r c)"
proof -
  have k: "k \<le> n" "k < n" "k - 1 < n" using n by auto
  have nxt0: "reads k 0 (bnd nxt (\<lambda>d. if d \<noteq> q then fatal a else ret t))" for q a t
    by (intro reads_char_any k reads_if reads_die reads_ret)
  have minus: "reads k 1 (bnd nxt (\<lambda>c.
        if c = cc (CHR ''-'') then ret T_DEC
        else if c = cc (CHR ''>'') then ret T_ARROW
        else if c = cc (CHR ''='') then ret T_ASMINUS
        else if isdigit c then bnd (scanint n nxt c) (\<lambda>v. put_intlit r (i32 (- v)))
        else thn (putback c) (ret T_MINUS)))"
  proof (rule reads_char [OF k(1)])
    have "reads (k - 1) (1 + 2) (scanint n nxt d)" if "isdigit d" for d
      unfolding n by (rule reads_mono [OF reads_scanint [OF k(2) that]]) auto
    then have lit: "reads (k - 1) (1 + 2) (bnd (scanint n nxt d) (\<lambda>v. put_intlit r (i32 (- v))))"
      if "isdigit d" for d
      by (rule reads_bnd_any) (use that reads_put_intlit in auto)
    show "reads (k - 1) (1 + 2) (if c = cc (CHR ''-'') then ret T_DEC
        else if c = cc (CHR ''>'') then ret T_ARROW
        else if c = cc (CHR ''='') then ret T_ASMINUS
        else if isdigit c then bnd (scanint n nxt c) (\<lambda>v. put_intlit r (i32 (- v)))
        else thn (putback c) (ret T_MINUS))" for c
      by (intro reads_if reads_ret lit reads_putback_ret) simp_all
  qed (simp add: reads_putback_ret del: ret_run)
  have lit: "reads k 1 (bnd (scanint n nxt c) (put_intlit r))" if "isdigit c"
    unfolding n by (rule reads_bnd_any [OF reads_scanint [OF k(2) that]]) (rule reads_put_intlit)
  have word: "reads k 1 (thn (scanident nxt c TEXTLEN) (rd Text (\<lambda>txt. ret (f txt))))"
    if "isalpha c \<or> c = 95" for f :: "string \<Rightarrow> toktype"
    unfolding thn_def
    by (rule reads_bnd_any [OF reads_scanident [OF k(1)]])
       (use that in \<open>auto simp: is_idchar_def TEXTLEN_def\<close>)
  have chr: "reads k 1 (bnd (scanch n nxt) (\<lambda>v. bnd (put_intlit r v) (\<lambda>t. bnd nxt (\<lambda>c.
        if c \<noteq> q then fatal a else ret t))))" for q a
    unfolding n
    by (rule reads_mono [of k 0], intro reads_bnd reads_scanch [OF k(2)] reads_put_intlit nxt0) auto
  have str: "reads k 1 (thn (scanstr n nxt) (ret t))" for t :: toktype
    unfolding n scanstr_def
    by (rule reads_mono [of k 0], intro reads_thn reads_scanstr_loop [OF k(2)] reads_ret) auto
  show ?thesis
    unfolding scan_switch_def
    by (intro reads_if reads_ret reads_follow minus chr str lit word reads_die k(1)) simp_all
qed

text \<open>
  A token costs at least the one that \<^verbatim>\<open>Token\<close> then counts. A token that is peeked at moves the
  count from the input to \<^verbatim>\<open>Peektoken\<close>.
\<close>

lemma scan_body_error:
  assumes w: "wt s < 2 * n" and r: "scan_body n nxt r s = Inl e"
  shows "scan_error s e"
proof -
  have e0: "\<not> token (Peektoken s) \<noteq> T_EOF" using r by (auto simp: scan_body_def split: if_splits)
  show ?thesis
  proof (cases "skip n nxt s")
    case (Inl e')
    then show ?thesis using r e0 reader.nxt_error [OF reader_skip w] by (simp add: scan_body_def)
  next
    case (Inr a)
    obtain c s1 where a: "a = (c, s1)" by (cases a)
    have mv: "moves 0 s s1" using reader.nxt_moves [OF reader_skip w] Inr a by blast
    have c: "c \<noteq> EOF" using r e0 Inr a by (auto simp: scan_body_def)
    have w1: "wt s1 + 2 \<le> wt s" using reader.nxt_char [OF reader_skip w] Inr a c by blast
    obtain k where n: "n = Suc k" using w by (cases n) auto
    have "scan_switch n nxt r c s1 = Inl e"
      using r e0 Inr a c by (cases "scan_switch n nxt r c s1") (auto simp: scan_body_def)
    with readsD(1) [OF reads_scan_switch [OF n c]] have "scan_error s1 e" using w w1 n by auto
    then show ?thesis using mv by (rule scan_error_back)
  qed
qed

lemma scan_bodyE:
  assumes w: "wt s < 2 * n" and r: "scan_body n nxt r s = Inr (b, s')"
  obtains (peeked) "token (Peektoken s) \<noteq> T_EOF" "b"
      "s' = (upd_tok r (\<lambda>_. Peektoken s) s)\<lparr>Peektoken := (Peektoken (upd_tok r (\<lambda>_. Peektoken s) s))\<lparr>token := T_EOF\<rparr>\<rparr>"
  | (input) s2 k f where "token (Peektoken s) = T_EOF" "moves 0 s s2" "b \<longleftrightarrow> k \<noteq> T_EOF"
      "wt s2 + (if k = T_EOF then 0 else 1) \<le> wt s" "s' = upd_tok r f s2" "\<And>t. token (f t) = k"
proof (cases "token (Peektoken s) = T_EOF")
  case False
  with r peeked show thesis by (simp add: scan_body_def)
next
  case True
  with r obtain c s1 where 1: "skip n nxt s = Inr (c, s1)"
    by (auto simp: scan_body_def bnd_eq_Inr)
  have mv: "moves 0 s s1" using reader.nxt_moves [OF reader_skip w 1] .
  show thesis
  proof (cases "c = EOF")
    case EOF: True
    then have "b = False" "s' = upd_tok r (\<lambda>t. t\<lparr>token := T_EOF\<rparr>) s1"
      using r True 1 by (auto simp: scan_body_def)
    then show thesis using input [OF True mv, of T_EOF] mv by (simp add: moves_def)
  next
    case c: False
    have w1: "wt s1 + 2 \<le> wt s" using reader.nxt_char [OF reader_skip w 1 c] .
    obtain k where n: "n = Suc k" using w by (cases n) auto
    obtain q s2 where 2: "scan_switch n nxt r c s1 = Inr (q, s2)" and b: "b"
      and s': "s' = upd_tok r (\<lambda>t. t\<lparr>token := q, tokstr := Tstring q\<rparr>) s2"
      using r True 1 c by (auto simp: scan_body_def bnd_eq_Inr)
    have q: "q \<noteq> T_EOF" using makes_token_scan_switch 2 unfolding makes_token_def by blast
    have mv2: "moves 1 s1 s2" using readsD(2) [OF reads_scan_switch [OF n c] _ 2] w w1 n by auto
    have "moves 0 s s2" "wt s2 + 1 \<le> wt s" using mv mv2 w1 by (auto simp: moves_def)
    then show thesis using input [OF True, of s2 q] s' b q by simp
  qed
qed

lemma scan_Token:
  assumes w: "wt s < 2 * n" and r: "scan_body n nxt Ref_Token s = Inr (b, s')"
  shows "wt s' + peeked s' + at_token s' \<le> wt s + peeked s" "wt s' \<le> wt s" "peeked s' \<le> peeked s"
    "set (Infile s') \<subseteq> set (Infile s)" "b \<longleftrightarrow> token (Token s') \<noteq> T_EOF"
proof -
  have "wt s' + peeked s' + at_token s' \<le> wt s + peeked s \<and> wt s' \<le> wt s \<and> peeked s' \<le> peeked s
    \<and> set (Infile s') \<subseteq> set (Infile s) \<and> (b \<longleftrightarrow> token (Token s') \<noteq> T_EOF)"
    using assms
  proof (cases rule: scan_bodyE)
    case peeked
    then show ?thesis by (simp add: peeked_def at_token_def)
  next
    case (input s2 k f)
    have "peeked s2 = 0" "peeked s = 0" using input(1,2) by (simp_all add: moves_def peeked_def)
    moreover have "peeked s' = peeked s2" "wt s' = wt s2" "token (Token s') = k" "Infile s' = Infile s2"
      using input(5,6) by (simp_all add: peeked_def)
    ultimately show ?thesis
      using input(2,3,4) by (simp add: at_token_def moves_def)
  qed
  then show "wt s' + peeked s' + at_token s' \<le> wt s + peeked s" "wt s' \<le> wt s" "peeked s' \<le> peeked s"
    "set (Infile s') \<subseteq> set (Infile s)" "b \<longleftrightarrow> token (Token s') \<noteq> T_EOF" by simp_all
qed

lemma scan_Peek:
  assumes w: "wt s < 2 * n" and r: "scan_body n nxt Ref_Peek s = Inr (b, s')"
  shows "wt s' + peeked s' \<le> wt s + peeked s" "wt s' \<le> wt s" "at_token s \<le> at_token s'"
    "set (Infile s') \<subseteq> set (Infile s)"
proof -
  have "wt s' + peeked s' \<le> wt s + peeked s \<and> wt s' \<le> wt s \<and> at_token s \<le> at_token s'
    \<and> set (Infile s') \<subseteq> set (Infile s)"
    using assms
  proof (cases rule: scan_bodyE)
    case peeked
    then show ?thesis by (simp add: peeked_def at_token_def)
  next
    case (input s2 k f)
    have "wt s' = wt s2" "token (Peektoken s') = k" "Infile s' = Infile s2" "at_token s' = at_token s2"
      using input(5,6) by (simp_all add: at_token_def)
    then show ?thesis
      using input(2,3,4) by (simp add: peeked_def moves_def)
  qed
  then show "wt s' + peeked s' \<le> wt s + peeked s" "wt s' \<le> wt s" "at_token s \<le> at_token s'"
    "set (Infile s') \<subseteq> set (Infile s)" by simp_all
qed

end

section \<open>The knot\<close>

text \<open>
  A pre-processor line is read with \<open>sc\<close>; the character after it costs two like any other.
\<close>

definition token_reader :: "nat \<Rightarrow> ('z, bool) scomp \<Rightarrow> bool" where
  "token_reader n sc \<longleftrightarrow> (\<forall>s. wt s < 2 * n \<longrightarrow>
     (case sc s of Inl e \<Rightarrow> scan_error s e
      | Inr (b, s') \<Rightarrow> wt s' \<le> wt s \<and> peeked s' \<le> peeked s \<and> set (Infile s') \<subseteq> set (Infile s)))"

lemma token_reader_scan: "reader nxt n \<Longrightarrow> token_reader n (scan_body n nxt Ref_Token)"
  unfolding token_reader_def
  by (auto simp: reader.scan_Token(2-4) dest: reader.scan_body_error reader.scan_Token(4) split: sum.split)

lemma after_newline_length:
  "after_newline xs = Some ys \<Longrightarrow> length ys < length xs \<and> set ys \<subseteq> set xs"
  by (induction xs) (auto split: if_splits)

lemma fgetc_wt:
  "fgetc s = Inr (c, s') \<Longrightarrow> wt s' + (if c = EOF then 0 else 2) \<le> wt s \<and> moves 0 s s'"
  by (auto simp: fgetc_def moves_def wt_def peeked_def at_token_def split: list.splits)

lemma fgetc_returns: "fgetc s \<noteq> Inl e"
  by (simp add: fgetc_def split: list.split)

lemma skip_line_wt:
  assumes "skip_line s = Inr (x, s')"
  shows "wt s' \<le> wt s" "peeked s' = peeked s" "at_token s' = at_token s" "set (Infile s') \<subseteq> set (Infile s)"
  using assms after_newline_length [of "Infile s"]
  by (fastforce simp: skip_line_def wt_def peeked_def at_token_def split: option.splits)+

definition named :: "string \<Rightarrow> int \<Rightarrow> 'z scanner_scheme \<Rightarrow> 'z scanner_scheme" where
  "named txt l s = (if txt = [] \<or> hd txt \<noteq> CHR ''<''
               then (if txt \<noteq> Infilename s then s\<lparr>Infilename := txt, Line := l\<rparr>
                     else s\<lparr>Line := l\<rparr>)
               else s)"

lemma named_frame [simp]:
  "wt (named txt l s) = wt s" "peeked (named txt l s) = peeked s" "at_token (named txt l s) = at_token s"
  "Infile (named txt l s) = Infile s"
  by (simp_all add: named_def)

lemma directive_end:
  assumes "thn skip_line (bnd fgetc (\<lambda>c. wr (\<lambda>s. s\<lparr>Linestart := True\<rparr>) (ret c))) s = Inr (c, s')"
  shows "wt s' + (if c = EOF then 0 else 2) \<le> wt s" "moves 0 s s'"
proof -
  obtain x s1 s2 where 1: "skip_line s = Inr (x, s1)" "fgetc s1 = Inr (c, s2)" "s' = s2\<lparr>Linestart := True\<rparr>"
    using assms by (auto simp: thn_eq_Inr bnd_eq_Inr)
  show "wt s' + (if c = EOF then 0 else 2) \<le> wt s" "moves 0 s s'"
    using skip_line_wt [OF 1(1)] fgetc_wt [OF 1(2)] 1(3) by (auto simp: moves_def)
qed

lemma directive_spec:
  assumes sc: "token_reader n sc" and w: "wt s < 2 * n"
  shows "case directive sc s of Inl e \<Rightarrow> (\<exists>m l f. e = Fatal m l f) \<or> e = NoReturn
    | Inr (c, s') \<Rightarrow> wt s' + (if c = EOF then 0 else 2) \<le> wt s \<and> moves 0 s s'"
proof -
  let ?s = "s\<lparr>Linestart := False\<rparr>"
  have err: "(\<exists>m l f. e = Fatal m l f) \<or> e = NoReturn" if "sc s1 = Inl e" "wt s1 \<le> wt s" for s1 e
    using sc that w unfolding token_reader_def scan_error_def by (auto dest: spec [of _ s1])
  have run: "wt s2 \<le> wt s1 \<and> peeked s2 \<le> peeked s1 \<and> set (Infile s2) \<subseteq> set (Infile s1)"
    if "sc s1 = Inr (b, s2)" "wt s1 \<le> wt s" for s1 b s2
    using sc [unfolded token_reader_def, rule_format, of s1] that w by simp
  show ?thesis
  proof (cases "sc ?s")
    case (Inl e)
    then show ?thesis using err [OF Inl] by (simp add: directive_def)
  next
    case (Inr a)
    obtain b s1 where s1: "sc ?s = Inr (b, s1)" using Inr by (cases a) auto
    have r1: "wt s1 \<le> wt s" "peeked s1 \<le> peeked s" "set (Infile s1) \<subseteq> set (Infile s)"
      using run [OF s1] by simp_all
    show ?thesis
    proof (cases "token (Token s1) = T_INTLIT")
      case False
      then show ?thesis using s1 by (simp add: directive_def fatal_defs)
    next
      case int: True
      show ?thesis
      proof (cases "sc s1")
        case (Inl e)
        then show ?thesis using err [OF Inl r1(1)] s1 int by (simp add: directive_def)
      next
        case (Inr a)
        obtain b s2 where s2: "sc s1 = Inr (b, s2)" using Inr by (cases a) auto
        have r2: "wt s2 \<le> wt s1" "peeked s2 \<le> peeked s1" "set (Infile s2) \<subseteq> set (Infile s1)"
          using run [OF s2 r1(1)] by simp_all
        show ?thesis
        proof (cases "token (Token s2) = T_STRLIT")
          case False
          then show ?thesis using s1 s2 int by (simp add: directive_def fatal_defs)
        next
          case str: True
          define s3 where "s3 = named (Text s2) (intvalue (Token s1)) s2"
          define rest :: "('a, int) scomp" where
            "rest = thn skip_line (bnd fgetc (\<lambda>c. wr (\<lambda>s. s\<lparr>Linestart := True\<rparr>) (ret c)))"
          have d: "directive sc s = rest s3"
            using s1 s2 int str by (simp add: directive_def rest_def s3_def named_def)
          show ?thesis
          proof (cases "rest s3")
            case (Inl e)
            then have "e = NoReturn"
              by (auto simp: rest_def thn_def bnd_def skip_line_def fgetc_returns
                  split: sum.splits option.splits)
            then show ?thesis using Inl d by simp
          next
            case (Inr a)
            obtain c s' where a: "a = (c, s')" by (cases a)
            have "at_token s2 = 1" "at_token s \<le> 1" using str by (simp_all add: at_token_def)
            then show ?thesis
              using directive_end [OF Inr [unfolded a rest_def]] r1 r2 Inr a d
              by (auto simp: moves_def s3_def)
          qed
        qed
      qed
    qed
  qed
qed

text \<open>The loop on pre-processor lines, with the pending character \<open>c\<close>.\<close>

definition next_result :: "nat \<Rightarrow> 'z scanner_scheme \<Rightarrow> cerr + int \<times> 'z scanner_scheme \<Rightarrow> bool" where
  "next_result w s res \<longleftrightarrow> (case res of Inl e \<Rightarrow> (\<exists>m l f. e = Fatal m l f) \<or> e = NoReturn
     | Inr (c, s') \<Rightarrow> wt s' + (if c = EOF then 0 else 2) \<le> w \<and> moves 0 s s')"

lemma directives_spec:
  assumes sc: "token_reader n sc"
  shows "k \<le> Suc n \<Longrightarrow> w = wt s + (if c = EOF then 0 else 2) \<Longrightarrow> w < 2 * k \<Longrightarrow>
    next_result w s (directives k sc c s)"
proof (induction k arbitrary: c s w)
  case (Suc k)
  show ?case
  proof (cases "Linestart s \<and> c = cc (CHR ''#'')")
    case False
    then show ?thesis using Suc.prems by (auto simp: next_result_def)
  next
    case True
    then have w: "wt s < 2 * n" "wt s < 2 * k" using Suc.prems by auto
    show ?thesis
    proof (cases "directive sc s")
      case (Inl e)
      then show ?thesis using directive_spec [OF sc w(1)] True by (simp add: next_result_def)
    next
      case (Inr a)
      obtain d s1 where a: "a = (d, s1)" by (cases a)
      have d: "wt s1 + (if d = EOF then 0 else 2) \<le> wt s" "moves 0 s s1"
        using directive_spec [OF sc w(1)] Inr a by simp_all
      have "next_result (wt s1 + (if d = EOF then 0 else 2)) s1 (directives k sc d s1)"
        by (rule Suc.IH) (use Suc.prems d w in auto)
      then have "next_result w s (directives k sc d s1)"
        using d Suc.prems(2) moves_trans [OF d(2), of 0]
        by (auto simp: next_result_def split: sum.splits)
      then show ?thesis using True Inr a by simp
    qed
  qed
qed simp

lemma reader_next_body:
  assumes sc: "token_reader n sc"
  shows "reader (next_body (Suc n) sc) (Suc n)"
proof -
  have "case next_body (Suc n) sc s of Inl e \<Rightarrow> scan_error s e
      | Inr (c, s') \<Rightarrow> wt s' + (if c = EOF then 0 else 2) \<le> wt s \<and> moves 0 s s'"
    if w: "wt s < 2 * Suc n" for s
  proof (cases "Putback s = 0")
    case False
    then show ?thesis
      by (auto simp: next_body_def wt_def moves_def peeked_def at_token_def)
  next
    case True
    obtain c s1 where 1: "fgetc s = Inr (c, s1)" using fgetc_returns [of s] by (cases "fgetc s") auto
    have f: "wt s1 + (if c = EOF then 0 else 2) \<le> wt s" "moves 0 s s1" using fgetc_wt [OF 1] by auto
    have res: "next_result (wt s1 + (if c = EOF then 0 else 2)) s1 (directives (Suc n) sc c s1)"
      by (rule directives_spec [OF sc]) (use w f in auto)
    show ?thesis
    proof (cases "directives (Suc n) sc c s1")
      case (Inl e)
      have "CHR ''#'' \<in> set (Infile s)" if "\<not> (\<exists>m l f. e = Fatal m l f)"
      proof -
        have "Linestart s1 \<and> c = cc (CHR ''#'')"
          using Inl by (rule_tac ccontr) simp
        then show ?thesis using 1 by (auto simp: fgetc_def split: list.splits)
      qed
      then show ?thesis
        using Inl True 1 res by (auto simp: next_body_def next_result_def scan_error_def)
    next
      case (Inr a)
      obtain d s2 where a: "a = (d, s2)" by (cases a)
      have d: "wt s2 + (if d = EOF then 0 else 2) \<le> wt s" "moves 0 s s2"
        using res Inr a f moves_trans [OF f(2), of 0] by (auto simp: next_result_def)
      then show ?thesis
        using Inr a True 1 by (auto simp: next_body_def moves_def)
    qed
  qed
  note res = this
  show ?thesis
  proof unfold_locales
    fix s :: "'a scanner_scheme" and e
    assume "wt s < 2 * Suc n" "next_body (Suc n) sc s = Inl e"
    then show "scan_error s e" using res [of s] by simp
  next
    fix s s' :: "'a scanner_scheme" and c
    assume "wt s < 2 * Suc n" "next_body (Suc n) sc s = Inr (c, s')"
    then show "moves 0 s s'" "c \<noteq> EOF \<Longrightarrow> wt s' + 2 \<le> wt s" using res [of s] by simp_all
  qed
qed

lemma reader_next_f: "reader (next_f n) n"
proof (induction n)
  case 0
  show ?case by unfold_locales simp_all
next
  case (Suc n)
  then show ?case
    unfolding next_f.simps by (intro reader_next_body token_reader_scan)
qed

interpretation next_f: reader "next_f n" n for n
  by (rule reader_next_f)

section \<open>\<^verbatim>\<open>scan\<close>\<close>

lemma fuel_for_enough: "wt s < 2 * fuel_for s"
  by (simp add: wt_def fuel_for_def)

lemmas scan_error_result = next_f.scan_body_error [OF fuel_for_enough, folded scan_def]
lemmas scan_Token_result = next_f.scan_Token [OF fuel_for_enough, folded scan_def]
lemmas scan_Peek_result = next_f.scan_Peek [OF fuel_for_enough, folded scan_def]

end
