(* ===== verification/Lexemes.thy ===== *)
theory Lexemes
  imports ScanSpec
begin

text \<open>
  The scanner reads back what is written: the text of operators, numbers and words, each with
  a blank behind it, is scanned to these tokens, and nothing but the fields of the scanner is
  touched.
\<close>

section \<open>The text that is left\<close>

text \<open>A character that was put back comes before the rest of the file.\<close>

definition reading :: "string \<Rightarrow> 'z scanner_scheme \<Rightarrow> bool" where
  "reading txt s \<longleftrightarrow> token (Peektoken s) = T_EOF
     \<and> (Putback s = 0 \<and> Infile s = txt
        \<or> (\<exists>c. Putback s = cc c \<and> Putback s \<noteq> 0 \<and> txt = c # Infile s))"

text \<open>A step that changes fields of the scanner only; the lines and the characters, or tokens too.\<close>

definition moved :: "'z scanner_scheme \<Rightarrow> 'z scanner_scheme \<Rightarrow> bool" where
  "moved s s' \<longleftrightarrow> (\<exists>i p l b. s' = s\<lparr>Infile := i, Line := l, Linestart := b, Putback := p\<rparr>)"

definition lexed :: "'z scanner_scheme \<Rightarrow> 'z scanner_scheme \<Rightarrow> bool" where
  "lexed s s' \<longleftrightarrow> (\<exists>i p l b t x.
     s' = s\<lparr>Infile := i, Line := l, Linestart := b, Putback := p, Token := t, Text := x\<rparr>)"

lemma movedI: "s' = s\<lparr>Infile := i, Line := l, Linestart := b, Putback := p\<rparr> \<Longrightarrow> moved s s'"
  unfolding moved_def by blast

lemma moved_refl [simp]: "moved s s"
  by (rule movedI [where i = "Infile s" and l = "Line s" and b = "Linestart s" and p = "Putback s"]) simp

lemma moved_trans: "moved s s1 \<Longrightarrow> moved s1 s2 \<Longrightarrow> moved s s2"
proof -
  assume "moved s s1" "moved s1 s2"
  then obtain i p l b i' p' l' b' where
    "s1 = s\<lparr>Infile := i, Line := l, Linestart := b, Putback := p\<rparr>"
    "s2 = s1\<lparr>Infile := i', Line := l', Linestart := b', Putback := p'\<rparr>"
    unfolding moved_def by blast
  then have "s2 = s\<lparr>Infile := i', Line := l', Linestart := b', Putback := p'\<rparr>" by simp
  then show ?thesis by (rule movedI)
qed

lemma moved_same: "moved s s' \<Longrightarrow> Token s' = Token s \<and> Text s' = Text s \<and> Peektoken s' = Peektoken s"
  by (auto simp: moved_def)

lemma lexedI: "s' = s\<lparr>Infile := i, Line := l, Linestart := b, Putback := p, Token := t, Text := x\<rparr> \<Longrightarrow> lexed s s'"
  unfolding lexed_def by blast

lemma lexed_refl [simp]: "lexed s s"
  by (rule lexedI [where i = "Infile s" and l = "Line s" and b = "Linestart s" and p = "Putback s" and t = "Token s" and x = "Text s"]) simp

lemma lexed_trans: "lexed s s1 \<Longrightarrow> lexed s1 s2 \<Longrightarrow> lexed s s2"
proof -
  assume "lexed s s1" "lexed s1 s2"
  then obtain i p l b t x i' p' l' b' t' x' where
    "s1 = s\<lparr>Infile := i, Line := l, Linestart := b, Putback := p, Token := t, Text := x\<rparr>"
    "s2 = s1\<lparr>Infile := i', Line := l', Linestart := b', Putback := p', Token := t', Text := x'\<rparr>"
    unfolding lexed_def by blast
  then have "s2 = s\<lparr>Infile := i', Line := l', Linestart := b', Putback := p', Token := t', Text := x'\<rparr>"
    by simp
  then show ?thesis by (rule lexedI)
qed

lemma moved_lexed: "moved s s' \<Longrightarrow> lexed s s'"
proof -
  assume "moved s s'"
  then obtain i p l b where "s' = s\<lparr>Infile := i, Line := l, Linestart := b, Putback := p\<rparr>"
    unfolding moved_def by blast
  then have "s' = s\<lparr>Infile := i, Line := l, Linestart := b, Putback := p, Token := Token s, Text := Text s\<rparr>"
    by simp
  then show ?thesis by (rule lexedI)
qed

lemma lexed_updates [simp]: "lexed s (s\<lparr>Token := t\<rparr>)" "lexed s (s\<lparr>Text := x\<rparr>)"
  by (rule lexedI [where i = "Infile s" and l = "Line s" and b = "Linestart s" and p = "Putback s" and t = t and x = "Text s"], simp)
     (rule lexedI [where i = "Infile s" and l = "Line s" and b = "Linestart s" and p = "Putback s" and t = "Token s" and x = x], simp)

lemma reading_updates [simp]:
  "reading txt (s\<lparr>Token := t\<rparr>) \<longleftrightarrow> reading txt s" "reading txt (s\<lparr>Text := x\<rparr>) \<longleftrightarrow> reading txt s"
  by (simp_all add: reading_def)

text \<open>A computation that gives \<open>x\<close> and leaves the text \<open>rest\<close>.\<close>

definition yields :: "('z, 'a) scomp \<Rightarrow> 'z scanner_scheme \<Rightarrow> 'a \<Rightarrow> string \<Rightarrow> bool" where
  "yields m s x rest \<longleftrightarrow> (\<exists>s'. m s = Inr (x, s') \<and> reading rest s' \<and> moved s s')"

lemma yieldsE:
  assumes "yields m s x rest"
  obtains s' where "m s = Inr (x, s')" "reading rest s'" "moved s s'"
  using assms unfolding yields_def by blast

lemma yields_ret: "reading rest s \<Longrightarrow> yields (ret x) s x rest"
  unfolding yields_def by simp

lemma yields_bnd:
  assumes "yields m s x txt" "\<And>s'. reading txt s' \<Longrightarrow> yields (f x) s' y rest"
  shows "yields (bnd m f) s y rest"
proof -
  obtain s1 where 1: "m s = Inr (x, s1)" "reading txt s1" "moved s s1" using assms(1) by (rule yieldsE)
  obtain s2 where 2: "f x s1 = Inr (y, s2)" "reading rest s2" "moved s1 s2"
    using assms(2) [OF 1(2)] by (rule yieldsE)
  have "bnd m f s = Inr (y, s2)" using 1(1) 2(1) by simp
  then show ?thesis using 2(2) moved_trans [OF 1(3) 2(3)] unfolding yields_def by blast
qed

lemma next_f_reads:
  assumes "reading (c # txt) s" "c \<noteq> CHR ''#''"
  shows "yields (next_f (Suc n)) s (cc c) txt" "\<exists>s'. next_f (Suc n) s = Inr (cc c, s') \<and> Putback s' = 0 \<and> reading txt s' \<and> moved s s'"
proof -
  have "\<exists>s'. next_f (Suc n) s = Inr (cc c, s') \<and> Putback s' = 0 \<and> reading txt s' \<and> moved s s'"
  proof (cases "Putback s = 0")
    case False
    then have p: "Putback s = cc c" "Infile s = txt" using assms(1) by (auto simp: reading_def)
    have "next_f (Suc n) s = Inr (cc c, s\<lparr>Putback := 0\<rparr>)" using False p by (simp add: next_body_def)
    moreover have "reading txt (s\<lparr>Putback := 0\<rparr>)" using assms(1) p by (auto simp: reading_def)
    moreover have "moved s (s\<lparr>Putback := 0\<rparr>)"
      by (rule movedI [where i = "Infile s" and l = "Line s" and b = "Linestart s" and p = "0"]) simp
    ultimately show ?thesis by auto
  next
    case True
    let ?s = "s\<lparr>Infile := txt, Line := (if c = CHR 0x0A then Line s + 1 else Line s),
      Linestart := (c = CHR 0x0A), Putback := 0\<rparr>"
    have i: "Infile s = c # txt" "token (Peektoken s) = T_EOF"
      using assms(1) True cc_range [of "CHR 0x00"] by (auto simp: reading_def)
    then have "next_f (Suc n) s = Inr (cc c, ?s)"
      using True assms(2) by (simp add: next_body_def fgetc_def bnd_def)
    moreover have "reading txt ?s" using i by (simp add: reading_def)
    moreover have "moved s ?s" by (rule movedI) simp
    ultimately show ?thesis by auto
  qed
  then show "yields (next_f (Suc n)) s (cc c) txt"
    "\<exists>s'. next_f (Suc n) s = Inr (cc c, s') \<and> Putback s' = 0 \<and> reading txt s' \<and> moved s s'"
    unfolding yields_def by blast+
qed


lemma yields_next:
  assumes "reading (c # txt) s" "c \<noteq> CHR ''#''"
    and "\<And>s'. reading txt s' \<Longrightarrow> Putback s' = 0 \<Longrightarrow> yields (f (cc c)) s' y rest"
  shows "yields (bnd (next_f (Suc n)) f) s y rest"
proof -
  obtain s1 where 1: "next_f (Suc n) s = Inr (cc c, s1)" "Putback s1 = 0" "reading txt s1" "moved s s1"
    using next_f_reads(2) [OF assms(1,2)] by blast
  obtain s2 where 2: "f (cc c) s1 = Inr (y, s2)" "reading rest s2" "moved s1 s2"
    using assms(3) [OF 1(3,2)] by (rule yieldsE)
  have "bnd (next_f (Suc n)) f s = Inr (y, s2)" using 1(1) 2(1) bnd_Inr by metis
  then show ?thesis using 2(2) moved_trans [OF 1(4) 2(3)] unfolding yields_def by blast
qed

lemma putback_run:
  assumes "reading txt s" "Putback s = 0" "c \<noteq> CHR 0x00"
  shows "putback (cc c) s = Inr ((), s\<lparr>Putback := cc c\<rparr>)" "reading (c # txt) (s\<lparr>Putback := cc c\<rparr>)"
    "moved s (s\<lparr>Putback := cc c\<rparr>)"
proof -
  have "cc c \<noteq> cc (CHR 0x00)" using assms(3) by simp
  then have "cc c \<noteq> 0" by (simp add: cc_def)
  then show "reading (c # txt) (s\<lparr>Putback := cc c\<rparr>)" using assms(1,2) by (auto simp: reading_def cc_def)
  show "moved s (s\<lparr>Putback := cc c\<rparr>)"
    by (rule movedI [where i = "Infile s" and l = "Line s" and b = "Linestart s"]) simp
qed (simp add: putback_def)

lemma yields_putback:
  "reading txt s \<Longrightarrow> Putback s = 0 \<Longrightarrow> c \<noteq> CHR 0x00 \<Longrightarrow>
     yields (thn (putback (cc c)) (ret x)) s x (c # txt)"
  using putback_run [of "txt" s c] unfolding yields_def by auto

section \<open>Blanks and operators\<close>

abbreviation (input) blank :: char where "blank \<equiv> CHR '' ''"

lemma skip_blanks:
  assumes "reading (replicate k blank @ c # txt) s" "c \<noteq> CHR ''#''" "\<not> is_space (cc c)" "k < n"
  shows "\<exists>s'. skip n (next_f (Suc m)) s = Inr (cc c, s') \<and> reading txt s' \<and> Putback s' = 0 \<and> moved s s'"
proof -
  have sp: "is_space (cc blank)" by (simp add: is_space_def cc_def)
  have "\<exists>s'. bnd (next_f (Suc m)) (skip_loop n (next_f (Suc m))) s = Inr (cc c, s')
      \<and> reading txt s' \<and> Putback s' = 0 \<and> moved s s'"
    using assms(1,4)
  proof (induction k arbitrary: s n)
    case 0
    then obtain n' where n: "n = Suc n'" by (cases n) auto
    obtain s' where "next_f (Suc m) s = Inr (cc c, s')" "Putback s' = 0" "reading txt s'" "moved s s'"
      using next_f_reads(2) [of c "txt" s] 0 assms(2) by auto
    then show ?case using assms(3) n by (simp del: next_f.simps)
  next
    case (Suc k)
    then obtain n' where n: "n = Suc n'" by (cases n) auto
    obtain s1 where 1: "next_f (Suc m) s = Inr (cc blank, s1)" "reading (replicate k blank @ c # txt) s1" "moved s s1"
      using next_f_reads(2) [of blank "replicate k blank @ c # txt" s] Suc.prems by auto
    have "bnd (next_f (Suc m)) (skip_loop n (next_f (Suc m))) s
        = bnd (next_f (Suc m)) (skip_loop n' (next_f (Suc m))) s1"
      using 1(1) sp n by (simp del: next_f.simps)
    moreover obtain s' where "bnd (next_f (Suc m)) (skip_loop n' (next_f (Suc m))) s1 = Inr (cc c, s')"
        "reading txt s'" "Putback s' = 0" "moved s1 s'"
      using Suc.IH [OF 1(2)] Suc.prems(2) n by auto
    ultimately show ?case using moved_trans [OF 1(3)] by auto
  qed
  then show ?thesis by (simp add: skip_def)
qed

lemma follow_one:
  assumes "reading (blank # txt) s" "cc blank \<notin> fst ` set alts"
  shows "yields (follow (next_f (Suc n)) alts t) s t (blank # txt)"
  unfolding follow_def
proof (rule yields_next [OF assms(1)])
  fix s' assume "reading txt s'" "Putback s' = (0::int)"
  moreover have "map_of alts (cc blank) = None" using assms(2) by (simp add: map_of_eq_None_iff)
  ultimately show "yields (case map_of alts (cc blank) of None \<Rightarrow> thn (putback (cc blank)) (ret t) | Some t' \<Rightarrow> ret t')
      s' t (blank # txt)"
    by (simp add: yields_putback)
qed simp

lemma follow_two:
  assumes "reading (c # txt) s" "c \<noteq> CHR ''#''" "map_of alts (cc c) = Some t'"
  shows "yields (follow (next_f (Suc n)) alts t) s t' txt"
  unfolding follow_def by (rule yields_next [OF assms(1,2)]) (simp add: assms(3) yields_ret)

text \<open>The tokens that are operators or punctuation.\<close>

definition is_punct :: "toktype \<Rightarrow> bool" where
  "is_punct t \<longleftrightarrow> 1 \<le> tok_num t \<and> tok_num t \<le> tok_num T_LOGNOT
     \<or> tok_num t \<ge> tok_num T_SEMI \<and> t \<noteq> T_IDENT"

text \<open>The rest of an operator after its first character, and what \<^verbatim>\<open>scan\<close> makes of it.\<close>

lemma scan_minus:
  assumes "reading (blank # txt) s"
  shows "yields (scan_switch n (next_f (Suc m)) r (cc (CHR ''-''))) s T_MINUS (blank # txt)"
  unfolding scan_switch_def
  by (simp del: next_f.simps, rule yields_next [OF assms])
     (use yields_putback [where c = blank] in \<open>simp_all add: isdigit_def cc_def\<close>)

lemma scan_punct:
  assumes "is_punct t" "reading (tl (Tstring t) @ blank # txt) s"
  shows "yields (scan_switch n (next_f (Suc m)) r (cc (hd (Tstring t)))) s t (blank # txt)"
proof (cases "t = T_MINUS")
  case True
  then show ?thesis using scan_minus [where r = r] assms(2) by (simp add: Tstring_def Tstrings_def del: next_f.simps)
next
  case False
  then show ?thesis using assms
    by (cases t) (simp_all add: Tstring_def Tstrings_def scan_switch_def is_punct_def follow_one follow_two yields_ret
        yields_next del: next_f.simps)
qed


section \<open>Numbers\<close>

definition digit :: "char \<Rightarrow> bool" where
  "digit c \<longleftrightarrow> isdigit (cc c)"

definition digits_val :: "int \<Rightarrow> string \<Rightarrow> int" where
  "digits_val = foldl (\<lambda>v d. v * 10 + (cc d - 48))"

lemma int_48_57:
  "48 \<le> (x::int) \<Longrightarrow> x \<le> 57 \<Longrightarrow> x = 48 \<or> x = 49 \<or> x = 50 \<or> x = 51 \<or> x = 52 \<or> x = 53 \<or> x = 54
     \<or> x = 55 \<or> x = 56 \<or> x = 57"
  by arith

lemma digit_cases:
  assumes "digit c"
  shows "c \<in> set ''0123456789''"
proof -
  have c: "to_char (cc c) = c" by simp
  have e: "to_char 48 = CHR ''0''" "to_char 49 = CHR ''1''" "to_char 50 = CHR ''2''" "to_char 51 = CHR ''3''"
    "to_char 52 = CHR ''4''" "to_char 53 = CHR ''5''" "to_char 54 = CHR ''6''" "to_char 55 = CHR ''7''"
    "to_char 56 = CHR ''8''" "to_char 57 = CHR ''9''"
    using to_char_cc [of "CHR ''0''"] to_char_cc [of "CHR ''1''"] to_char_cc [of "CHR ''2''"]
      to_char_cc [of "CHR ''3''"] to_char_cc [of "CHR ''4''"] to_char_cc [of "CHR ''5''"]
      to_char_cc [of "CHR ''6''"] to_char_cc [of "CHR ''7''"] to_char_cc [of "CHR ''8''"]
      to_char_cc [of "CHR ''9''"]
    by (simp_all add: cc_def)
  have "48 \<le> cc c" "cc c \<le> 57" using assms by (simp_all add: digit_def isdigit_def)
  from int_48_57 [OF this] show ?thesis
    by (elim disjE) (use c e in simp_all)
qed

lemma digit_pos:
  assumes "digit c"
  shows "chrpos hexdigits (tolower (cc c)) = cc c - 48" "c \<noteq> CHR ''#''" "0 \<le> cc c - 48" "cc c - 48 < 10"
proof -
  have r: "48 \<le> cc c" "cc c \<le> 57" using assms by (simp_all add: digit_def isdigit_def)
  then show "0 \<le> cc c - 48" "cc c - 48 < 10" by simp_all
  show "c \<noteq> CHR ''#''" using r by (auto simp: cc_def)
  have n: "cc (CHR ''0'') = 48" "cc (CHR ''1'') = 49" "cc (CHR ''2'') = 50" "cc (CHR ''3'') = 51"
    "cc (CHR ''4'') = 52" "cc (CHR ''5'') = 53" "cc (CHR ''6'') = 54" "cc (CHR ''7'') = 55"
    "cc (CHR ''8'') = 56" "cc (CHR ''9'') = 57" by (simp_all add: cc_def)
  have "chrpos_loop hexdigits (cc d) 0 = cc d - 48" if "d \<in> set ''0123456789''" for d
    using that by (simp only: list.set insert_iff empty_iff) (elim disjE FalseE; simp; simp only: n; simp)
  then have "chrpos hexdigits (cc c) = cc c - 48" using digit_cases [OF assms] by (simp add: chrpos_def)
  then show "chrpos hexdigits (tolower (cc c)) = cc c - 48" using r by (simp add: tolower_def)
qed

lemma digits_val_mono: "0 \<le> v \<Longrightarrow> \<forall>c\<in>set ds. digit c \<Longrightarrow> v \<le> digits_val v ds"
proof (induction ds arbitrary: v)
  case (Cons d ds)
  have "0 \<le> cc d - 48" using Cons.prems digit_pos by simp
  then have "v \<le> v * 10 + (cc d - 48)" "0 \<le> v * 10 + (cc d - 48)" using Cons.prems(1) by linarith+
  then show ?case using Cons.IH [of "v * 10 + (cc d - 48)"] Cons.prems(2) by (simp add: digits_val_def)
qed (simp add: digits_val_def)

lemma tolower_blank: "tolower (cc blank) = cc blank"
  by (simp add: tolower_def cc_def)

lemma blank_ends_number: "chrpos hexdigits (tolower (cc blank)) = -1"
  unfolding tolower_blank by (simp add: chrpos_def)

lemma scan_digits:
  fixes s :: "'z scanner_scheme"
  assumes "reading (ds @ blank # txt) s" "\<forall>d\<in>set (c # ds). digit d" "length ds + 1 < n"
    and "0 \<le> v" "digits_val v (c # ds) \<le> 2147483647"
  shows "yields (scanint_loop n (next_f (Suc m)) 10 v (cc c)) s (digits_val v (c # ds)) (blank # txt)"
  using assms
proof (induction ds arbitrary: s c v n)
  case Nil
  then obtain n' where n: "n = Suc (Suc n')" by (cases n; cases "n - 1") auto
  have "in_i32 (v * 10 + (cc c - 48))"
    using Nil.prems digit_pos [of c] by (simp add: in_i32_def digits_val_def)
  then show ?case
    using Nil.prems n digit_pos [of c] blank_ends_number
    by (auto simp: Let_def digits_val_def simp del: next_f.simps intro!: yields_next yields_putback)
next
  case (Cons d ds)
  then obtain n' where n: "n = Suc n'" by (cases n) auto
  let ?v = "v * 10 + (cc c - 48)"
  have v: "0 \<le> ?v" using Cons.prems digit_pos [of c] by simp
  have "?v \<le> digits_val ?v (d # ds)" using digits_val_mono [OF v] Cons.prems(2) by simp
  then have i: "in_i32 ?v" using Cons.prems(5) v by (simp add: in_i32_def digits_val_def)
  have "yields (scanint_loop n' (next_f (Suc m)) 10 ?v (cc d)) s' (digits_val ?v (d # ds)) (blank # txt)"
    if "reading (ds @ blank # txt) s'" for s' :: "'z scanner_scheme"
    by (rule Cons.IH) (use that Cons.prems v n in \<open>auto simp: digits_val_def\<close>)
  then show ?case
    using Cons.prems n i digit_pos [of c] digit_pos(2) [of d]
    by (auto simp: Let_def digits_val_def simp del: next_f.simps intro!: yields_next)
qed

lemma dec_nat_digits:
  "\<forall>d\<in>set (dec_nat n). digit d" "digits_val 0 (dec_nat n) = int n" "dec_nat n \<noteq> []"
  "0 < n \<Longrightarrow> hd (dec_nat n) \<noteq> CHR ''0''"
proof -
  have d: "cc (char_of (48 + k :: nat)) = 48 + int k" if "k < 10" for k :: nat
  proof -
    have "cc (char_of (48 + k)) = int (of_char (char_of (48 + k)))" 
      unfolding cc_def by (rule of_nat_of_char [symmetric])
    then show ?thesis using that by (simp only: of_char_of) (simp add: cc_def of_nat_of_char)
  qed
  show ne: "dec_nat n \<noteq> []" for n by (subst dec_nat.simps) simp
  show "\<forall>d\<in>set (dec_nat n). digit d"
    by (induction n rule: dec_nat.induct) (subst dec_nat.simps, auto simp: digit_def isdigit_def d)
  show "digits_val 0 (dec_nat n) = int n"
  proof (induction n rule: dec_nat.induct)
    case (1 n)
    have "int (n div 10) * 10 + int (n mod 10) = int n"
      using div_mult_mod_eq [of "int n" 10] by (simp add: zdiv_int zmod_int)
    with 1 show ?case by (subst dec_nat.simps) (auto simp: digits_val_def d)
  qed
  show "0 < n \<Longrightarrow> hd (dec_nat n) \<noteq> CHR ''0''"
  proof (induction n rule: dec_nat.induct)
    case (1 n)
    have "char_of (48 + n) \<noteq> CHR ''0''" if "n < 10"
    proof
      assume "char_of (48 + n) = CHR ''0''"
      then have "cc (char_of (48 + n)) = cc (CHR ''0'')" by simp
      then show False using d [OF that] 1(2) by (simp add: cc_def)
    qed
    then show ?case using 1 ne [of "n div 10"] by (subst dec_nat.simps) auto
  qed
qed

lemma scan_number:
  assumes "0 \<le> v" "v \<le> 2147483647" "reading (tl (dec v) @ blank # txt) s" "length (dec v) + 1 < n"
  shows "yields (scanint n (next_f (Suc m)) (cc (hd (dec v)))) s v (blank # txt)"
proof -
  let ?ds = "dec_nat (nat v)"
  have dec: "dec v = ?ds" using assms(1) by (simp add: dec_def)
  obtain c ds where c: "?ds = c # ds" using dec_nat_digits(3) [of "nat v"] by (cases ?ds) auto
  have dig: "\<forall>d\<in>set (c # ds). digit d" "digits_val 0 (c # ds) = v"
    using dec_nat_digits(1,2) [of "nat v"] assms(1) by (simp_all add: c)
  show ?thesis
  proof (cases "v = 0")
    case True
    obtain n' where n: "n = Suc n'" using assms(4) by (cases n) auto
    have "char_of (of_char (CHR ''0'') :: nat) = CHR ''0''" by (rule char_of_char)
    then have z: "dec 0 = ''0''" by (simp add: dec_def dec_nat.simps)
    show ?thesis
      using assms(3) True n blank_ends_number
      by (auto simp: scanint_def z Let_def simp del: next_f.simps intro!: yields_next yields_putback)
  next
    case False
    then have "c \<noteq> CHR ''0''" using dec_nat_digits(4) [of "nat v"] assms(1) c by simp
    then show ?thesis
      using scan_digits [of ds "txt" s c n 0 m] assms dig dec c by (simp add: scanint_def)
  qed
qed


section \<open>Words\<close>

definition idchar :: "char \<Rightarrow> bool" where
  "idchar c \<longleftrightarrow> is_idchar (cc c)"

lemma blank_no_idchar: "\<not> is_idchar (cc blank)"
  by (simp add: is_idchar_def isalpha_def isdigit_def cc_def)

lemma idchar_no_hash: "idchar c \<Longrightarrow> c \<noteq> CHR ''#''"
  by (auto simp: idchar_def is_idchar_def isalpha_def isdigit_def cc_def)

lemma word_end:
  assumes "reading txt s" "Putback s = 0"
  shows "\<exists>s'. scanident_loop room nxt (cc blank) buf s = Inr (int (length buf), s')
     \<and> reading (blank # txt) s' \<and> Text s' = buf \<and> Token s' = Token s \<and> lexed s s'"
proof -
  let ?s = "s\<lparr>Putback := cc blank, Text := buf\<rparr>"
  note p = putback_run [OF assms, of blank]
  have "scanident_loop room nxt (cc blank) buf s = Inr (int (length buf), ?s)"
    using p(1) blank_no_idchar by (cases room) simp_all
  moreover have "reading (blank # txt) ?s" using p(2) by (simp add: reading_def)
  moreover have "lexed s ?s"
    by (rule lexedI [where i = "Infile s" and l = "Line s" and b = "Linestart s" and p = "cc blank"
          and t = "Token s" and x = buf]) simp
  ultimately show ?thesis by auto
qed

lemma scan_letters:
  assumes "reading (w @ blank # txt) s" "\<forall>x\<in>set (c # w). idchar x" "length w < room"
  shows "\<exists>s' k. scanident_loop room (next_f (Suc m)) (cc c) buf s = Inr (k, s')
     \<and> reading (blank # txt) s' \<and> Text s' = buf @ c # w \<and> Token s' = Token s \<and> lexed s s'"
  using assms
proof (induction w arbitrary: s c buf room)
  case Nil
  then obtain room' where room: "room = Suc room'" by (cases room) auto
  obtain s1 where 1: "next_f (Suc m) s = Inr (cc blank, s1)" "Putback s1 = 0" "reading txt s1" "moved s s1"
    using next_f_reads(2) [of blank "txt" s m] Nil.prems(1) by auto
  obtain s2 where 2: "scanident_loop room' (next_f (Suc m)) (cc blank) (buf @ [c]) s1 = Inr (int (length (buf @ [c])), s2)"
      "reading (blank # txt) s2" "Text s2 = buf @ [c]" "Token s2 = Token s1" "lexed s1 s2"
    using word_end [OF 1(3,2)] by blast
  have "scanident_loop room (next_f (Suc m)) (cc c) buf s = Inr (int (length (buf @ [c])), s2)"
    using room Nil.prems(2) 1(1) 2(1) by (simp add: idchar_def del: next_f.simps)
  then show ?case
    using 2 moved_same [OF 1(4)] lexed_trans [OF moved_lexed [OF 1(4)] 2(5)] by auto
next
  case (Cons d w)
  then obtain room' where room: "room = Suc room'" by (cases room) auto
  obtain s1 where 1: "next_f (Suc m) s = Inr (cc d, s1)" "reading (w @ blank # txt) s1" "moved s s1"
    using next_f_reads(2) [of d "w @ blank # txt" s m] Cons.prems idchar_no_hash [of d] by auto
  obtain s2 k where 2: "scanident_loop room' (next_f (Suc m)) (cc d) (buf @ [c]) s1 = Inr (k, s2)"
      "reading (blank # txt) s2" "Text s2 = (buf @ [c]) @ d # w" "Token s2 = Token s1" "lexed s1 s2"
    using Cons.IH [OF 1(2), of d room' "buf @ [c]"] Cons.prems room by auto
  have "scanident_loop room (next_f (Suc m)) (cc c) buf s = Inr (k, s2)"
    using room Cons.prems(2) 1(1) 2(1) by (simp add: idchar_def del: next_f.simps)
  then show ?case
    using 2 moved_same [OF 1(3)] lexed_trans [OF moved_lexed [OF 1(3)] 2(5)] by auto
qed

definition is_word :: "string \<Rightarrow> bool" where
  "is_word w \<longleftrightarrow> w \<noteq> [] \<and> length w < TEXTLEN \<and> (\<forall>c\<in>set w. idchar c) \<and> \<not> digit (hd w)"

definition word_token :: "string \<Rightarrow> toktype" where
  "word_token w = (case keyword w of Some t \<Rightarrow> t | None \<Rightarrow> T_IDENT)"

lemma scan_word:
  assumes "is_word w" "reading (tl w @ blank # txt) s"
  shows "\<exists>s'. scan_switch n (next_f (Suc m)) r (cc (hd w)) s = Inr (word_token w, s')
     \<and> reading (blank # txt) s' \<and> Text s' = w \<and> Token s' = Token s \<and> lexed s s'"
proof -
  obtain c cs where w: "w = c # cs" using assms(1) by (cases w) (auto simp: is_word_def)
  obtain s' k where s': "scanident_loop (TEXTLEN - 1) (next_f (Suc m)) (cc c) [] s = Inr (k, s')"
      "reading (blank # txt) s'" "Text s' = w" "Token s' = Token s" "lexed s s'"
    using scan_letters [of cs "txt" s c "TEXTLEN - 1" m "[]"] assms
    by (auto simp: w is_word_def TEXTLEN_def simp del: next_f.simps)
  have "\<not> isdigit (cc c)" "isalpha (cc c) \<or> cc c = 95"
    using assms(1) by (auto simp: w is_word_def digit_def idchar_def is_idchar_def)
  moreover from this have "c \<notin> set ''+-*/%;{}()[]~^,.:?=!<>&|'' \<union> {CHR 0x27, CHR 0x22}"
    by (auto simp: cc_def isalpha_def)
  ultimately have "scan_switch n (next_f (Suc m)) r (cc c) s =
      thn (scanident (next_f (Suc m)) (cc c) TEXTLEN) (
        rd Text (\<lambda>txt. ret (case keyword txt of Some t \<Rightarrow> t | None \<Rightarrow> T_IDENT))) s"
    by (simp add: scan_switch_def del: next_f.simps)
  then have "scan_switch n (next_f (Suc m)) r (cc c) s = Inr (word_token w, s')"
    using s'(1,3) by (simp add: scanident_def word_token_def del: next_f.simps)
  then show ?thesis using s' by (auto simp: w simp del: next_f.simps)
qed


section \<open>Lexemes\<close>

datatype lexeme = Punct toktype | Number int | Word string

primrec lexeme_ok :: "lexeme \<Rightarrow> bool" where
  "lexeme_ok (Punct t) \<longleftrightarrow> is_punct t"
| "lexeme_ok (Number v) \<longleftrightarrow> 0 \<le> v \<and> v \<le> 2147483647"
| "lexeme_ok (Word w) \<longleftrightarrow> is_word w"

primrec lexeme_text :: "lexeme \<Rightarrow> string" where
  "lexeme_text (Punct t) = Tstring t"
| "lexeme_text (Number v) = dec v"
| "lexeme_text (Word w) = w"

primrec lexeme_token :: "lexeme \<Rightarrow> toktype" where
  "lexeme_token (Punct t) = t"
| "lexeme_token (Number v) = T_INTLIT"
| "lexeme_token (Word w) = word_token w"

text \<open>The state after a lexeme was scanned.\<close>

definition scanned :: "lexeme \<Rightarrow> 'z scanner_scheme \<Rightarrow> bool" where
  "scanned x s \<longleftrightarrow> token (Token s) = lexeme_token x \<and> tokstr (Token s) = Tstring (lexeme_token x)
     \<and> (\<forall>v. x = Number v \<longrightarrow> intvalue (Token s) = v) \<and> (\<forall>w. x = Word w \<longrightarrow> Text s = w)"

text \<open>The first character of a lexeme is no blank, and tells what the lexeme is.\<close>

lemma punct_text:
  assumes "is_punct t"
  shows "Tstring t \<noteq> []" "hd (Tstring t) \<noteq> CHR ''#'' \<and> \<not> is_space (cc (hd (Tstring t)))"
  using assms by (cases t; simp add: is_punct_def Tstring_def Tstrings_def is_space_def cc_def)+

lemma number_text:
  assumes "0 \<le> v"
  shows "dec v \<noteq> []" "digit (hd (dec v))"
  using assms dec_nat_digits(1,3) [of "nat v"] by (simp_all add: dec_def)

lemma lexeme_start:
  assumes "lexeme_ok x"
  shows "lexeme_text x \<noteq> []" "hd (lexeme_text x) \<noteq> CHR ''#''" "\<not> is_space (cc (hd (lexeme_text x)))"
proof -
  have word: "w \<noteq> [] \<and> idchar (hd w)" if "is_word w" for w
    using that by (cases w) (auto simp: is_word_def)
  have sp: "\<not> is_space (cc c)" if "idchar c" for c
    using that by (auto simp: idchar_def is_idchar_def is_space_def isalpha_def isdigit_def)
  have id: "idchar c" if "digit c" for c using that by (simp add: idchar_def is_idchar_def digit_def)
  show "lexeme_text x \<noteq> []" "hd (lexeme_text x) \<noteq> CHR ''#''" "\<not> is_space (cc (hd (lexeme_text x)))"
    using assms punct_text number_text word idchar_no_hash sp id by (cases x; simp)+
qed

lemma length_fuel: "reading txt s \<Longrightarrow> length txt + 2 \<le> fuel_for s"
  by (auto simp: reading_def fuel_for_def)

lemma scan_number_token:
  assumes "0 \<le> v" "v \<le> 2147483647" "reading (tl (dec v) @ blank # txt) s" "length (dec v) + 1 < n"
  shows "\<exists>s'. scan_switch n (next_f (Suc m)) Ref_Token (cc (hd (dec v))) s = Inr (T_INTLIT, s')
     \<and> reading (blank # txt) s' \<and> intvalue (Token s') = v \<and> lexed s s'"
proof -
  let ?c = "hd (dec v)"
  have d: "isdigit (cc ?c)" using number_text(2) [OF assms(1)] by (simp add: digit_def)
  then have "?c \<notin> set ''+-*/%;{}()[]~^,.:?=!<>&|'' \<union> {CHR 0x27, CHR 0x22}"
    by (auto simp: cc_def isdigit_def)
  then have sw: "scan_switch n (next_f (Suc m)) Ref_Token (cc ?c) s =
      bnd (scanint n (next_f (Suc m)) (cc ?c)) (put_intlit Ref_Token) s"
    using d by (simp add: scan_switch_def del: next_f.simps)
  obtain s1 where 1: "scanint n (next_f (Suc m)) (cc ?c) s = Inr (v, s1)" "reading (blank # txt) s1" "moved s s1"
    using scan_number [OF assms, of m] by (rule yieldsE)
  let ?s = "s1\<lparr>Token := (Token s1)\<lparr>intvalue := v\<rparr>\<rparr>"
  have "scan_switch n (next_f (Suc m)) Ref_Token (cc ?c) s = Inr (T_INTLIT, ?s)"
    unfolding sw using 1(1) by (simp add: put_intlit_def del: next_f.simps)
  then show ?thesis using 1(2) lexed_trans [OF moved_lexed [OF 1(3)]] by auto
qed

lemma scan_lexeme:
  assumes x: "lexeme_ok x" and r: "reading (replicate k blank @ lexeme_text x @ blank # txt) s"
  shows "\<exists>s'. scan Ref_Token s = Inr (True, s') \<and> reading (blank # txt) s' \<and> scanned x s' \<and> lexed s s'"
proof -
  let ?n = "fuel_for s" and ?c = "hd (lexeme_text x)"
  obtain m where m: "?n = Suc m" by (cases ?n) (simp_all add: fuel_for_def)
  have n: "k + length (lexeme_text x) + 1 < ?n" using length_fuel [OF r] by simp
  have c: "lexeme_text x = ?c # tl (lexeme_text x)" using lexeme_start(1) [OF x] by simp
  have "reading (replicate k blank @ ?c # (tl (lexeme_text x) @ blank # txt)) s"
    using r by (subst (asm) c) simp
  then obtain s1 where 1: "skip ?n (next_f (Suc m)) s = Inr (cc ?c, s1)"
      "reading (tl (lexeme_text x) @ blank # txt) s1" "moved s s1"
    using skip_blanks [where m = m and n = ?n] lexeme_start(2,3) [OF x] n by fastforce
  have "\<exists>s'. scan_switch ?n (next_f (Suc m)) Ref_Token (cc ?c) s1 = Inr (lexeme_token x, s')
      \<and> reading (blank # txt) s' \<and> (\<forall>v. x = Number v \<longrightarrow> intvalue (Token s') = v)
      \<and> (\<forall>w. x = Word w \<longrightarrow> Text s' = w) \<and> lexed s1 s'"
  proof (cases x)
    case (Punct t)
    then show ?thesis
      using scan_punct [of t "txt" s1 ?n m Ref_Token] x 1(2) moved_lexed by (auto elim!: yieldsE simp del: next_f.simps)
  next
    case (Number v)
    then show ?thesis using scan_number_token [of v "txt" s1 ?n m] x 1(2) n by simp
  next
    case (Word w)
    then show ?thesis using scan_word [of w "txt" s1 ?n m Ref_Token] x 1(2) by auto
  qed
  then obtain s2 where 2: "scan_switch ?n (next_f (Suc m)) Ref_Token (cc ?c) s1 = Inr (lexeme_token x, s2)"
      "reading (blank # txt) s2" "\<forall>v. x = Number v \<longrightarrow> intvalue (Token s2) = v"
      "\<forall>w. x = Word w \<longrightarrow> Text s2 = w" "lexed s1 s2" by blast
  let ?s = "s2\<lparr>Token := (Token s2)\<lparr>token := lexeme_token x, tokstr := Tstring (lexeme_token x)\<rparr>\<rparr>"
  have "token (Peektoken s) = T_EOF" using r by (simp add: reading_def)
  then have "scan Ref_Token s = Inr (True, ?s)"
    unfolding scan_def m using 1(1) 2(1) m by (simp add: scan_body_def del: next_f.simps)
  moreover have "lexed s ?s"
    using lexed_trans [OF lexed_trans [OF moved_lexed [OF 1(3)] 2(5)] lexed_updates(1)] .
  moreover have "scanned x ?s" using 2(3,4) by (simp add: scanned_def)
  ultimately show ?thesis using 2(2) by auto
qed


section \<open>Round trip\<close>

definition program_text :: "lexeme list \<Rightarrow> string" where
  "program_text xs = concat (map (\<lambda>x. lexeme_text x @ [blank]) xs)"

text \<open>What the parser sees of a token: its kind, the value of a literal, the name of an identifier.\<close>

definition token_view :: "'z scanner_scheme \<Rightarrow> toktype \<times> int \<times> string" where
  "token_view s = (cur s, if cur s = T_INTLIT then intvalue (Token s) else 0, if cur s = T_IDENT then Text s else [])"

primrec lexeme_view :: "lexeme \<Rightarrow> toktype \<times> int \<times> string" where
  "lexeme_view (Punct t) = (t, 0, [])"
| "lexeme_view (Number v) = (T_INTLIT, v, [])"
| "lexeme_view (Word w) = (word_token w, 0, if word_token w = T_IDENT then w else [])"

primrec read_tokens :: "nat \<Rightarrow> ('z, (toktype \<times> int \<times> string) list) scomp" where
  "read_tokens 0 = ret []"
| "read_tokens (Suc n) =
     thn scan_tok (rd token_view (\<lambda>v. bnd (read_tokens n) (\<lambda>vs. ret (v # vs))))"

lemma keyword_no_literal: "keyword w \<noteq> Some T_INTLIT"
  by (simp add: keyword_def split: list.split)

lemma scanned_view: "lexeme_ok x \<Longrightarrow> scanned x s \<Longrightarrow> token_view s = lexeme_view x"
  using keyword_no_literal
  by (cases x) (auto simp: scanned_def token_view_def is_punct_def word_token_def split: option.splits)

lemma read_lexemes:
  assumes "\<forall>x\<in>set xs. lexeme_ok x" "reading (replicate k blank @ program_text xs) s"
  shows "\<exists>s' j. read_tokens (length xs) s = Inr (map lexeme_view xs, s') \<and> reading (replicate j blank) s' \<and> lexed s s'"
  using assms
proof (induction xs arbitrary: k s)
  case Nil
  then show ?case by (auto simp: program_text_def)
next
  case (Cons x xs)
  have "reading (replicate k blank @ lexeme_text x @ blank # program_text xs) s"
    using Cons.prems(2) by (simp add: program_text_def)
  with Cons.prems(1) obtain s1 where
    1: "scan Ref_Token s = Inr (True, s1)" "reading (blank # program_text xs) s1" "scanned x s1" "lexed s s1"
    using scan_lexeme [of x k "program_text xs" s] by auto
  have "reading (replicate 1 blank @ program_text xs) s1" using 1(2) by simp
  then obtain s2 j where 2: "read_tokens (length xs) s1 = Inr (map lexeme_view xs, s2)"
      "reading (replicate j blank) s2" "lexed s1 s2"
    using Cons.IH [of 1 s1] Cons.prems(1) by auto
  have "token_view s1 = lexeme_view x" using scanned_view [OF _ 1(3)] Cons.prems(1) by simp
  then have "read_tokens (length (x # xs)) s = Inr (map lexeme_view (x # xs), s2)"
    using 1(1) 2(1) by (simp add: scan_tok_def)
  then show ?case using 2 lexed_trans [OF 1(4) 2(3)] by blast
qed

lemma next_f_end:
  assumes "reading [] s"
  shows "\<exists>s'. next_f (Suc n) s = Inr (EOF, s') \<and> moved s s' \<and> token (Peektoken s') = T_EOF"
proof -
  let ?s = "s\<lparr>Infile := [], Line := Line s, Linestart := False, Putback := 0\<rparr>"
  have s: "Putback s = 0" "Infile s = []" "token (Peektoken s) = T_EOF" using assms by (auto simp: reading_def)
  then have "next_f (Suc n) s = Inr (EOF, ?s)"
    by (simp add: next_body_def fgetc_def bnd_def cc_def EOF_def)
  moreover have "moved s ?s" by (rule movedI [where l = "Line s"]) simp
  ultimately show ?thesis using s by auto
qed

lemma skip_end:
  assumes "reading (replicate k blank) s" "k < n"
  shows "\<exists>s'. skip n (next_f (Suc m)) s = Inr (EOF, s') \<and> moved s s'"
  unfolding skip_def using assms
proof (induction k arbitrary: s n)
  case 0
  then obtain s' where "next_f (Suc m) s = Inr (EOF, s')" "moved s s'" using next_f_end [of s m] by auto
  then show ?case using 0 by (cases n) (simp_all add: is_space_def EOF_def del: next_f.simps)
next
  case (Suc k)
  then obtain n' where n: "n = Suc n'" by (cases n) auto
  obtain s1 where 1: "next_f (Suc m) s = Inr (cc blank, s1)" "reading (replicate k blank) s1" "moved s s1"
    using next_f_reads(2) [of blank "replicate k blank" s] Suc.prems by auto
  have "is_space (cc blank)" by (simp add: is_space_def cc_def)
  then have "bnd (next_f (Suc m)) (skip_loop n (next_f (Suc m))) s
      = bnd (next_f (Suc m)) (skip_loop n' (next_f (Suc m))) s1"
    using 1(1) n by (simp del: next_f.simps)
  then show ?case using Suc.IH [OF 1(2), of n'] Suc.prems(2) n moved_trans [OF 1(3)]
    by (auto simp del: next_f.simps skip_loop.simps)
qed

lemma scan_end:
  assumes "reading (replicate j blank) s"
  shows "\<exists>s'. scan Ref_Token s = Inr (False, s') \<and> cur s' = T_EOF \<and> lexed s s'"
proof -
  obtain m where m: "fuel_for s = Suc m" by (cases "fuel_for s") (simp_all add: fuel_for_def)
  have "j < fuel_for s" using length_fuel [OF assms] by simp
  then obtain s1 where 1: "skip (fuel_for s) (next_f (Suc m)) s = Inr (EOF, s1)" "moved s s1"
    using skip_end [OF assms] by blast
  let ?s = "s1\<lparr>Token := (Token s1)\<lparr>token := T_EOF\<rparr>\<rparr>"
  have "token (Peektoken s) = T_EOF" using assms by (simp add: reading_def)
  then have "scan Ref_Token s = Inr (False, ?s)"
    unfolding scan_def m using 1(1) m by (simp add: scan_body_def del: next_f.simps)
  then show ?thesis using lexed_trans [OF moved_lexed [OF 1(2)] lexed_updates(1)] by auto
qed

text \<open>
  C4: The scanner reads back what was written: when the file holds the texts of operators,
  punctuation, numbers that an \<^verbatim>\<open>int\<close> holds, identifiers and keywords, a blank after each, then scanning
  gives exactly these tokens with their values and names, then reports the end of the file, and
  touches nothing but the fields of the scanner.
\<close>

theorem scan_reads_back:
  assumes "\<forall>x\<in>set xs. lexeme_ok x" "Infile s = program_text xs" "Putback s = 0" "token (Peektoken s) = T_EOF"
  shows "\<exists>s1 s2. read_tokens (length xs) s = Inr (map lexeme_view xs, s1)
     \<and> scan Ref_Token s1 = Inr (False, s2) \<and> cur s2 = T_EOF \<and> lexed s s2"
proof -
  have "reading (replicate 0 blank @ program_text xs) s" using assms(2-4) by (simp add: reading_def)
  then obtain s1 j where 1: "read_tokens (length xs) s = Inr (map lexeme_view xs, s1)"
      "reading (replicate j blank) s1" "lexed s s1"
    using read_lexemes [OF assms(1)] by blast
  obtain s2 where "scan Ref_Token s1 = Inr (False, s2)" "cur s2 = T_EOF" "lexed s1 s2"
    using scan_end [OF 1(2)] by blast
  then show ?thesis using 1 lexed_trans by blast
qed

definition sample_lexemes :: "lexeme list" where
  "sample_lexemes = [Word ''while'', Punct T_LPAREN, Word ''x1'', Punct T_LE, Number 255, Punct T_RPAREN,
     Word ''x1'', Punct T_ASPLUS, Number 0, Punct T_SEMI]"

definition text_state :: "string \<Rightarrow> scanner" where
  "text_state w = \<lparr>Infile = w, Line = 1, Linestart = True, Putback = 0, Infilename = ''x.c'',
     Token = \<lparr>token = T_EOF, tokstr = [], intvalue = 0\<rparr>, Peektoken = \<lparr>token = T_EOF, tokstr = [], intvalue = 0\<rparr>,
     Text = []\<rparr>"

lemma scan_reads_back_witness:
  "\<exists>s1 s2. read_tokens 10 (text_state ''while ( x1 <= 255 ) x1 += 0 ; '') =
       Inr ([(T_WHILE, 0, []), (T_LPAREN, 0, []), (T_IDENT, 0, ''x1''), (T_LE, 0, []), (T_INTLIT, 255, []),
         (T_RPAREN, 0, []), (T_IDENT, 0, ''x1''), (T_ASPLUS, 0, []), (T_INTLIT, 0, []), (T_SEMI, 0, [])], s1)
     \<and> scan Ref_Token s1 = Inr (False, s2)"
proof -
  have "\<forall>x\<in>set sample_lexemes. lexeme_ok x" by code_simp
  moreover have "program_text sample_lexemes = ''while ( x1 <= 255 ) x1 += 0 ; ''" by code_simp
  moreover have "map lexeme_view sample_lexemes = [(T_WHILE, 0, []), (T_LPAREN, 0, []), (T_IDENT, 0, ''x1''),
      (T_LE, 0, []), (T_INTLIT, 255, []), (T_RPAREN, 0, []), (T_IDENT, 0, ''x1''), (T_ASPLUS, 0, []),
      (T_INTLIT, 0, []), (T_SEMI, 0, [])]" by code_simp
  moreover have "length sample_lexemes = 10" by code_simp
  ultimately show ?thesis
    using scan_reads_back [of sample_lexemes "text_state ''while ( x1 <= 255 ) x1 += 0 ; ''"]
    by (auto simp: text_state_def)
qed

end
