(* ===== verification/Precedence.thy ===== *)
theory Precedence
  imports Lexemes Parser GenLimits
begin

text \<open>
  The expression parser gives operators the precedence of the table \<open>OpPrec\<close> and groups equal
  ones to the left: for the text of operands with binary operators between, the tree has the
  operands and operators in their order, and below an operator stand only operators that bind
  at least as tightly on the left and more tightly on the right.
\<close>

section \<open>The tree that is wanted\<close>

definition prec_of :: "astop \<Rightarrow> int" where
  "prec_of q = OpPrec ! nat (ast_num q)"

text \<open>Operands and operators from left to right; a conversion of the type is no operator.\<close>

type_synonym item = "(astop \<times> int \<times> ptr option) + astop"

primrec inorder :: "ast \<Rightarrow> item list" where
  "inorder Null = []"
| "inorder (Node q t c rv l m r sy v ln) =
     (if q = A_INTLIT \<or> q = A_IDENT then [Inl (q, v, sy)]
      else if q = A_WIDEN then inorder l
      else inorder l @ [Inr q] @ inorder r)"

text \<open>The precedence of the operator at the top; operands bind more tightly than all of them.\<close>

primrec top_prec :: "ast \<Rightarrow> int" where
  "top_prec Null = 0"
| "top_prec (Node q t c rv l m r sy v ln) =
     (if q = A_INTLIT \<or> q = A_IDENT then 1000 else if q = A_WIDEN then top_prec l else prec_of q)"

primrec grouped :: "ast \<Rightarrow> bool" where
  "grouped Null \<longleftrightarrow> False"
| "grouped (Node q t c rv l m r sy v ln) \<longleftrightarrow>
     (if q = A_INTLIT \<or> q = A_IDENT then True
      else if q = A_WIDEN then grouped l
      else grouped l \<and> grouped r \<and> prec_of q \<le> top_prec l \<and> prec_of q < top_prec r)"

definition int_tree :: "ast \<Rightarrow> bool" where
  "int_tree n \<longleftrightarrow> n \<noteq> Null \<and> inttype (ntype n) \<and> grouped n"

lemma set_rvalue_tree [simp]:
  "inorder (set_rvalue n) = inorder n" "top_prec (set_rvalue n) = top_prec n" "grouped (set_rvalue n) = grouped n"
  "ntype (set_rvalue n) = ntype n" "set_rvalue n = Null \<longleftrightarrow> n = Null" "int_tree (set_rvalue n) = int_tree n"
  unfolding int_tree_def by (cases n; simp)+

section \<open>Operators and operands\<close>

definition is_binop :: "toktype \<Rightarrow> bool" where
  "is_binop t \<longleftrightarrow> tok_num T_LOGOR \<le> tok_num t \<and> tok_num t \<le> tok_num T_MOD"

definition tok_prec :: "toktype \<Rightarrow> int" where
  "tok_prec t = OpPrec ! nat (tok_num t)"

definition tok_op :: "toktype \<Rightarrow> astop" where
  "tok_op t = ast_ops ! nat (tok_num t - 1)"

lemma binop_facts:
  assumes "is_binop t"
  shows "op_precedence t s = Inr (tok_prec t, s)" "binastop t s = Inr (tok_op t, s)" "\<not> rightassoc t"
    "prec_of (tok_op t) = tok_prec t" "0 < tok_prec t" "tok_prec t < 1000" "is_punct t" "\<not> ends_expr t"
    "tok_op t \<notin> {A_ASSIGN, A_TERNARY, A_INTLIT, A_IDENT, A_WIDEN}"
    "t \<notin> {T_LBRACKET, T_DOT, T_ARROW, T_INC, T_DEC}"
  using assms
  by (cases t; simp add: is_binop_def op_precedence_def tok_prec_def OpPrec_def binastop_def tok_op_def
      ast_ops_def rightassoc_def prec_of_def is_punct_def ends_expr_def)+

text \<open>The leaf for an operand: a literal, or a variable of an integer type.\<close>

definition is_operand :: "compiler \<Rightarrow> lexeme \<Rightarrow> ast \<Rightarrow> bool" where
  "is_operand s x e \<longleftrightarrow> lexeme_ok x \<and>
     ((\<exists>v. x = Number v \<and> e = mkastleaf A_INTLIT (if v < 256 then P_CHAR else P_INT) None None v)
      \<or> (\<exists>w p. x = Word w \<and> word_token w = T_IDENT \<and> findenumval w s = None \<and> findsymbol w s = Some p
           \<and> p < length (Heap s) \<and> s_stype (Heap s ! p) = S_VARIABLE \<and> inttype (s_type (Heap s ! p))
           \<and> e = mkastleaf A_IDENT (s_type (Heap s ! p)) (s_ctype (Heap s ! p)) (Some p) 0))"

lemma lexed_tables:
  assumes "lexed s s'"
  shows "Heap s' = Heap s" "findsymbol w s' = findsymbol w s" "findenumval w s' = findenumval w s"
proof -
  have h: "Heap s' = Heap s" "Locl s' = Locl s" "Glob s' = Glob s" "Enums s' = Enums s" "Functionid s' = Functionid s"
    using assms by (auto simp: lexed_def)
  show "Heap s' = Heap s" "findsymbol w s' = findsymbol w s" "findenumval w s' = findenumval w s"
    unfolding findsymbol_def findenumval_def cur_params_def h by (rule refl)+
qed

lemma operand_lexed: "lexed s s' \<Longrightarrow> is_operand s' x e \<longleftrightarrow> is_operand s x e"
  by (simp add: is_operand_def lexed_tables)

lemma operand_tree:
  assumes "is_operand s x e"
  shows "int_tree e" "top_prec e = 1000" "\<exists>i. inorder e = [Inl i]"
  using assms by (auto simp: is_operand_def int_tree_def inttype_def)

section \<open>The text ahead of the parser\<close>

text \<open>The current token is the first lexeme, and the others are still to be scanned.\<close>

definition feeds :: "lexeme list \<Rightarrow> string \<Rightarrow> 'z scanner_scheme \<Rightarrow> bool" where
  "feeds xs rest s \<longleftrightarrow> xs \<noteq> [] \<and> scanned (hd xs) s \<and> reading (blank # program_text (tl xs) @ rest) s"

lemma feeds_scan:
  assumes "feeds (x # y # ys) rest s" "lexeme_ok y"
  shows "\<exists>s'. scan_tok s = Inr (True, s') \<and> feeds (y # ys) rest s' \<and> lexed s s'"
proof -
  have "reading (replicate 1 blank @ lexeme_text y @ blank # program_text ys @ rest) s"
    using assms(1) by (simp add: feeds_def program_text_def)
  from scan_lexeme [OF assms(2) this] show ?thesis
    by (auto simp: feeds_def scan_tok_def)
qed

lemma feeds_token: "feeds (Punct t # xs) rest s \<Longrightarrow> cur s = t"
  by (simp add: feeds_def scanned_def)

lemma prefix_operand:
  assumes "feeds (x # Punct t # xs) rest s" "is_operand s x e" "is_binop t \<or> ends_expr t"
  shows "\<exists>s'. prefix K ptp s = Inr (e, s') \<and> feeds (Punct t # xs) rest s' \<and> lexed s s'"
proof -
  have t: "is_punct t" "t \<notin> {T_LBRACKET, T_DOT, T_ARROW, T_INC, T_DEC}"
    using assms(3) binop_facts(7,10) [of t] by (auto simp: ends_expr_def is_punct_def)
  obtain s' where s': "scan_tok s = Inr (True, s')" "feeds (Punct t # xs) rest s'" "lexed s s'"
    using feeds_scan [OF assms(1)] t(1) by auto
  have sc: "scanned x s" using assms(1) by (simp add: feeds_def)
  have post: "postfix_loop K e s' = Inr (e, s')"
    using t(2) feeds_token [OF s'(2)] by (simp add: postfix_loop_def)
  have "primary K ptp s = Inr (e, s')" "cur s \<in> {T_INTLIT, T_IDENT}"
    using assms(2) sc s'(1)
    by (auto simp: is_operand_def scanned_def primary_def primary_ident_def deref_def)
  then have "prefix K ptp s = Inr (e, s')"
    using post by (auto simp: prefix_def postfix_def)
  then show ?thesis using s'(2,3) by blast
qed


section \<open>Joining two operands\<close>

text \<open>The conversion of an operand to the type of the other: itself, or a wider one.\<close>

definition converted :: "ast \<Rightarrow> ast \<Rightarrow> bool" where
  "converted n n' \<longleftrightarrow> n' = n \<or> (\<exists>t. inttype t \<and> n' = mkastunary A_WIDEN t None n None 0)"

lemma converted_tree:
  assumes "converted n n'" "int_tree n"
  shows "int_tree n'" "inorder n' = inorder n" "top_prec n' = top_prec n"
  using assms by (auto simp: converted_def int_tree_def)

lemma int_size: "inttype t \<Longrightarrow> \<exists>k. typesize t None s = Inr (k, s) \<and> (k = 1 \<and> t = P_CHAR \<or> k = 4 \<and> t = P_INT \<or> k = 8 \<and> t = P_LONG)"
proof -
  assume "inttype t"
  then have "t = P_CHAR \<or> t = P_INT \<or> t = P_LONG" unfolding inttype_def by presburger
  then show ?thesis by (elim disjE) (simp_all add: typesize_def cgprimsize_def ptrtype_def)
qed

lemma modify_int:
  assumes "n \<noteq> Null" "inttype (ntype n)" "inttype t"
  shows "\<exists>n'. modify_type n t ct q s = Inr (n', s) \<and> (n' = Null \<or> converted n n')
     \<and> (n' = Null \<longrightarrow> ntype n \<noteq> t \<and> (\<forall>m ct'. m \<noteq> Null \<longrightarrow> ntype m = t \<longrightarrow>
          (\<exists>m'. modify_type m (ntype n) ct' q s = Inr (m', s) \<and> m' \<noteq> Null)))"
proof -
  have nt: "ntype n \<noteq> P_STRUCT" "ntype n \<noteq> P_UNION" "t \<noteq> P_STRUCT" "t \<noteq> P_UNION"
    using assms(2,3) by (auto simp: inttype_def)
  obtain k where k: "typesize (ntype n) None s = Inr (k, s)"
      "k = 1 \<and> ntype n = P_CHAR \<or> k = 4 \<and> ntype n = P_INT \<or> k = 8 \<and> ntype n = P_LONG"
    using int_size [OF assms(2)] by blast
  obtain j where j: "typesize t None s = Inr (j, s)"
      "j = 1 \<and> t = P_CHAR \<or> j = 4 \<and> t = P_INT \<or> j = 8 \<and> t = P_LONG"
    using int_size [OF assms(3)] by blast
  show ?thesis
  proof (cases "q = Some A_LOGOR \<or> q = Some A_LOGAND \<or> ntype n = t")
    case True
    then show ?thesis using assms nt by (auto simp: modify_type_def converted_def Let_def)
  next
    case False
    then have ne: "k \<noteq> j" using k(2) j(2) by auto
    have m: "modify_type n t ct q s = Inr (if k > j then Null else mkastunary A_WIDEN t None n None 0, s)"
      using False assms nt k(1) j(1) ne by (auto simp: modify_type_def Let_def)
    have "modify_type m (ntype n) ct' q s = Inr (mkastunary A_WIDEN (ntype n) None m None 0, s)"
      if "k > j" "m \<noteq> Null" "ntype m = t" for m ct'
      using False assms nt k(1) j(1) that by (auto simp: modify_type_def Let_def)
    then show ?thesis using m False assms(3) by (auto simp: converted_def)
  qed
qed

lemma join_ints:
  assumes t: "is_binop t" and l: "int_tree l" "tok_prec t \<le> top_prec l" and r: "int_tree r" "tok_prec t < top_prec r"
  shows "\<exists>l' r'. bin_operands (tok_op t) l r s = Inr ((l', r'), s) \<and> int_tree (join_operands (tok_op t) l' r')
     \<and> inorder (join_operands (tok_op t) l' r') = inorder l @ [Inr (tok_op t)] @ inorder r
     \<and> top_prec (join_operands (tok_op t) l' r') = tok_prec t"
proof -
  let ?q = "tok_op t" and ?l = "set_rvalue l" and ?r = "set_rvalue r"
  have ne: "?l \<noteq> Null" "?r \<noteq> Null" "inttype (ntype ?l)" "inttype (ntype ?r)" using l(1) r(1) by (simp_all add: int_tree_def)
  obtain lt where lt: "modify_type ?l (ntype ?r) (nctype ?r) (Some ?q) s = Inr (lt, s)" "lt = Null \<or> converted ?l lt"
      "lt = Null \<longrightarrow> (\<forall>m ct'. m \<noteq> Null \<longrightarrow> ntype m = ntype ?r \<longrightarrow>
          (\<exists>m'. modify_type m (ntype ?l) ct' (Some ?q) s = Inr (m', s) \<and> m' \<noteq> Null))"
    using modify_int [OF ne(1,3,4), of "nctype ?r" "Some ?q" s] by blast
  obtain rt where rt: "modify_type ?r (ntype ?l) (nctype ?l) (Some ?q) s = Inr (rt, s)" "rt = Null \<or> converted ?r rt"
    using modify_int [OF ne(2,4,3), of "nctype ?l" "Some ?q" s] by blast
  have some: "lt \<noteq> Null \<or> rt \<noteq> Null"
    using lt(3) [rule_format, of ?r "nctype ?l"] rt(1) ne(2) by (cases "lt = Null") auto
  define l' r' where "l' = (if lt \<noteq> Null then lt else ?l)" and "r' = (if rt \<noteq> Null then rt else ?r)"
  have res: "bin_operands ?q l r s = Inr ((l', r'), s)"
    using binop_facts(9) [OF t] lt(1) rt(1) some by (auto simp: bin_operands_def Let_def l'_def r'_def)
  have cl: "converted ?l l'" and cr: "converted ?r r'"
    using lt(2) rt(2) by (auto simp: l'_def r'_def converted_def)
  have l': "int_tree l'" "inorder l' = inorder l" "top_prec l' = top_prec l"
    using converted_tree [OF cl] l(1) by simp_all
  have r': "int_tree r'" "inorder r' = inorder r" "top_prec r' = top_prec r"
    using converted_tree [OF cr] r(1) by simp_all
  have q: "?q \<notin> {A_INTLIT, A_IDENT, A_WIDEN}" "prec_of ?q = tok_prec t"
    using binop_facts(4,9) [OF t] by auto
  show ?thesis
    using res l' r' q l(2) r(2) by (auto simp: join_operands_def int_tree_def Let_def inttype_def)
qed


section \<open>The loop\<close>

text \<open>Operators with their right operands, and the leaves of these.\<close>

type_synonym tail = "(toktype \<times> lexeme) list"

definition tail_lexemes :: "tail \<Rightarrow> lexeme list" where
  "tail_lexemes ops = concat (map (\<lambda>(t, x). [Punct t, x]) ops)"

definition tail_items :: "(lexeme \<Rightarrow> ast) \<Rightarrow> tail \<Rightarrow> item list" where
  "tail_items leaf ops = concat (map (\<lambda>(t, x). Inr (tok_op t) # inorder (leaf x)) ops)"

definition good_tail :: "compiler \<Rightarrow> (lexeme \<Rightarrow> ast) \<Rightarrow> tail \<Rightarrow> bool" where
  "good_tail s leaf ops \<longleftrightarrow> (\<forall>(t, x)\<in>set ops. is_binop t \<and> is_operand s x (leaf x))"

lemma tail_simps [simp]:
  "tail_lexemes [] = []" "tail_lexemes ((t, x) # ops) = Punct t # x # tail_lexemes ops"
  "tail_items leaf [] = []" "tail_items leaf ((t, x) # ops) = Inr (tok_op t) # inorder (leaf x) @ tail_items leaf ops"
  "tail_items leaf (ops1 @ ops2) = tail_items leaf ops1 @ tail_items leaf ops2"
  "good_tail s leaf []" "good_tail s leaf ((t, x) # ops) \<longleftrightarrow> is_binop t \<and> is_operand s x (leaf x) \<and> good_tail s leaf ops"
  "good_tail s leaf (ops1 @ ops2) \<longleftrightarrow> good_tail s leaf ops1 \<and> good_tail s leaf ops2"
  by (auto simp: tail_lexemes_def tail_items_def good_tail_def)

lemma good_tail_lexed: "lexed s s' \<Longrightarrow> good_tail s' leaf ops \<longleftrightarrow> good_tail s leaf ops"
  by (simp add: good_tail_def operand_lexed)

definition next_prec :: "tail \<Rightarrow> int" where
  "next_prec ops = (case ops of [] \<Rightarrow> 0 | (t, x) # _ \<Rightarrow> tok_prec t)"

text \<open>
  A call that has parsed the items \<open>is\<close> and the operators \<open>ops1\<close> of \<open>ops\<close>, as far as they bind
  more tightly than \<open>p\<close>.
\<close>

definition parses :: "int \<Rightarrow> (lexeme \<Rightarrow> ast) \<Rightarrow> item list \<Rightarrow> tail \<Rightarrow> toktype \<Rightarrow> string \<Rightarrow> compiler
    \<Rightarrow> cerr + (ast \<times> compiler) \<Rightarrow> bool" where
  "parses p leaf is ops e rest s res \<longleftrightarrow> (\<exists>n s' ops1 ops2. res = Inr (n, s') \<and> ops = ops1 @ ops2
     \<and> int_tree n \<and> inorder n = is @ tail_items leaf ops1 \<and> p < top_prec n \<and> next_prec ops2 \<le> p
     \<and> feeds (tail_lexemes ops2 @ [Punct e]) rest s' \<and> lexed s s')"

lemma parsesE:
  assumes "parses p leaf is ops e rest s res"
  obtains n s' ops1 ops2 where "res = Inr (n, s')" "ops = ops1 @ ops2" "int_tree n"
    "inorder n = is @ tail_items leaf ops1" "p < top_prec n" "next_prec ops2 \<le> p"
    "feeds (tail_lexemes ops2 @ [Punct e]) rest s'" "lexed s s'"
  using assms unfolding parses_def by blast

lemma parses_more:
  assumes "parses p leaf is' ops2 e rest s' res" "is' = is @ tail_items leaf ops1" "lexed s s'"
  shows "parses p leaf is (ops1 @ ops2) e rest s res"
proof -
  from assms(1) obtain n s2 o1 o2 where r: "res = Inr (n, s2)" "ops2 = o1 @ o2" "int_tree n"
    "inorder n = is' @ tail_items leaf o1" "p < top_prec n" "next_prec o2 \<le> p"
    "feeds (tail_lexemes o2 @ [Punct e]) rest s2" "lexed s' s2" by (rule parsesE)
  have "ops1 @ ops2 = (ops1 @ o1) @ o2" "inorder n = is @ tail_items leaf (ops1 @ o1)"
    using r assms(2) by simp_all
  then show ?thesis using r lexed_trans [OF assms(3) r(8)] unfolding parses_def by blast
qed

lemma parses_done:
  assumes "int_tree n" "inorder n = is" "p < top_prec n" "next_prec ops \<le> p"
    "feeds (tail_lexemes ops @ [Punct e]) rest s"
  shows "parses p leaf is ops e rest s (Inr (set_rvalue n, s))"
  unfolding parses_def
  by (intro exI [of _ "set_rvalue n"] exI [of _ s] exI [of _ "[]"] exI [of _ ops]) (use assms in simp)

text \<open>Both parts of the recursion at once: the calls below are the ones of \<open>tie n\<close>.\<close>

definition loop_ok :: "(int \<Rightarrow> ast \<Rightarrow> ast gcomp) \<Rightarrow> nat \<Rightarrow> (lexeme \<Rightarrow> ast) \<Rightarrow> toktype \<Rightarrow> string \<Rightarrow> bool" where
  "loop_ok f k leaf e rest \<longleftrightarrow> (\<forall>p l ops s. length ops \<le> k \<longrightarrow> ops \<noteq> [] \<longrightarrow> 0 \<le> p \<longrightarrow> good_tail s leaf ops
     \<longrightarrow> feeds (tail_lexemes ops @ [Punct e]) rest s \<longrightarrow> int_tree l \<longrightarrow> p < top_prec l
     \<longrightarrow> next_prec ops \<le> top_prec l \<longrightarrow> parses p leaf (inorder l) ops e rest s (f p l s))"

definition expr_ok_at :: "(int \<Rightarrow> ast gcomp) \<Rightarrow> nat \<Rightarrow> (lexeme \<Rightarrow> ast) \<Rightarrow> toktype \<Rightarrow> string \<Rightarrow> bool" where
  "expr_ok_at f k leaf e rest \<longleftrightarrow> (\<forall>p x ops s. length ops \<le> k \<longrightarrow> 0 \<le> p \<longrightarrow> p < 1000 \<longrightarrow> good_tail s leaf ops
     \<longrightarrow> is_operand s x (leaf x) \<longrightarrow> feeds (x # tail_lexemes ops @ [Punct e]) rest s
     \<longrightarrow> parses p leaf (inorder (leaf x)) ops e rest s (f p s))"

lemma loop_okD:
  "loop_ok f k leaf e rest \<Longrightarrow> length ops \<le> k \<Longrightarrow> ops \<noteq> [] \<Longrightarrow> 0 \<le> p \<Longrightarrow> good_tail s leaf ops
     \<Longrightarrow> feeds (tail_lexemes ops @ [Punct e]) rest s \<Longrightarrow> int_tree l \<Longrightarrow> p < top_prec l
     \<Longrightarrow> next_prec ops \<le> top_prec l \<Longrightarrow> parses p leaf (inorder l) ops e rest s (f p l s)"
  unfolding loop_ok_def by blast

lemma binexpr_step:
  assumes "loop_ok (binexpr_loop K) k leaf e rest" "ends_expr e"
  shows "expr_ok_at (binexpr K) k leaf e rest"
  unfolding expr_ok_at_def
proof (intro allI impI)
  fix p :: int and x ops and s :: compiler
  assume a: "length ops \<le> k" "0 \<le> p" "p < 1000" "good_tail s leaf ops" "is_operand s x (leaf x)"
    "feeds (x # tail_lexemes ops @ [Punct e]) rest s"
  define t where "t = (case ops of [] \<Rightarrow> e | (t, _) # _ \<Rightarrow> t)"
  have t: "tail_lexemes ops @ [Punct e] = Punct t # tl (tail_lexemes ops @ [Punct e])"
    by (cases ops) (auto simp: t_def)
  have bt: "if ops = [] then ends_expr t else is_binop t" using a(4) assms(2) by (cases ops) (auto simp: t_def)
  then have "is_binop t \<or> ends_expr t" by (simp split: if_splits)
  with a(5,6) t obtain s1 where 1: "prefix K p s = Inr (leaf x, s1)"
      "feeds (tail_lexemes ops @ [Punct e]) rest s1" "lexed s s1"
    using prefix_operand [of x t "tl (tail_lexemes ops @ [Punct e])" rest s "leaf x" K p] by auto
  have cur: "cur s1 = t" using feeds_token 1(2) t by metis
  have leaf: "int_tree (leaf x)" "top_prec (leaf x) = 1000" using operand_tree [OF a(5)] by simp_all
  show "parses p leaf (inorder (leaf x)) ops e rest s (binexpr K p s)"
  proof (cases "ops = []")
    case True
    then have "binexpr K p s = Inr (set_rvalue (leaf x), s1)" using 1(1) cur bt by (simp add: binexpr_def)
    moreover have "parses p leaf (inorder (leaf x)) ops e rest s1 (Inr (set_rvalue (leaf x), s1))"
      by (rule parses_done) (use leaf a 1(2) True in \<open>simp_all add: next_prec_def\<close>)
    ultimately show ?thesis using parses_more [OF _ _ 1(3), of p leaf _ ops e rest _ _ "[]"] by simp
  next
    case False
    then have bin: "is_binop t" using bt by simp
    then have "binexpr K p s = binexpr_loop K p (leaf x) s1"
      using 1(1) cur binop_facts(8) by (simp add: binexpr_def)
    moreover have "next_prec ops \<le> 1000"
      using a(4) binop_facts(6) by (cases ops) (force simp: next_prec_def)+
    then have "parses p leaf (inorder (leaf x)) ops e rest s1 (binexpr_loop K p (leaf x) s1)"
      using assms(1) a False leaf 1(2) good_tail_lexed [OF 1(3)] unfolding loop_ok_def by simp
    ultimately show ?thesis using parses_more [OF _ _ 1(3), of p leaf _ ops e rest _ _ "[]"] by simp
  qed
qed


lemma tail_binop: "good_tail s leaf ops \<Longrightarrow> ops = (t, x) # ops' \<Longrightarrow> is_binop t"
  by simp

lemma loop_step:
  assumes be: "expr_ok_at (k_binexpr K) k leaf e rest" and lo: "loop_ok (k_binexpr_loop K) k leaf e rest"
    and e: "ends_expr e"
  shows "loop_ok (binexpr_loop K) (Suc k) leaf e rest"
  unfolding loop_ok_def
proof (intro allI impI)
  fix p :: int and l ops and s :: compiler
  assume a: "length ops \<le> Suc k" "ops \<noteq> []" "0 \<le> p" "good_tail s leaf ops"
    "feeds (tail_lexemes ops @ [Punct e]) rest s" "int_tree l" "p < top_prec l" "next_prec ops \<le> top_prec l"
  obtain t x ops' where ops: "ops = (t, x) # ops'" using a(2) by (cases ops) auto
  have bin: "is_binop t" "is_operand s x (leaf x)" "good_tail s leaf ops'" using a(4) ops by simp_all
  note bt = binop_facts [OF bin(1)]
  have cur: "cur s = t" using a(5) ops feeds_token by simp
  have binds: "binds p t s' = Inr (tok_prec t > p, s')" for s'
    using bt(1,3) by (simp add: binds_def)
  show "parses p leaf (inorder l) ops e rest s (binexpr_loop K p l s)"
  proof (cases "tok_prec t > p")
    case False
    then have "binexpr_loop K p l s = Inr (set_rvalue l, s)" using cur binds by (simp add: binexpr_loop_def)
    moreover have "next_prec ops \<le> p" using False ops by (simp add: next_prec_def)
    ultimately show ?thesis using parses_done [OF a(6) refl a(7) _ a(5), of leaf] by simp
  next
    case True
    let ?p = "tok_prec t" and ?q = "tok_op t"
    have x: "lexeme_ok x" using bin(2) by (simp add: is_operand_def)
    obtain s1 where 1: "scan_tok s = Inr (True, s1)" "feeds (x # tail_lexemes ops' @ [Punct e]) rest s1" "lexed s s1"
      using feeds_scan [of "Punct t" x "tail_lexemes ops' @ [Punct e]"] x a(5) ops by auto
    have "parses ?p leaf (inorder (leaf x)) ops' e rest s1 (k_binexpr K ?p s1)"
      using be a(1) ops bt(5,6) bin 1(2) operand_lexed [OF 1(3)] good_tail_lexed [OF 1(3)]
      unfolding expr_ok_at_def by simp
    then obtain r s2 o1 o2 where 2: "k_binexpr K ?p s1 = Inr (r, s2)" "ops' = o1 @ o2" "int_tree r"
      "inorder r = inorder (leaf x) @ tail_items leaf o1" "?p < top_prec r" "next_prec o2 \<le> ?p"
      "feeds (tail_lexemes o2 @ [Punct e]) rest s2" "lexed s1 s2" by (rule parsesE)
    have "?p \<le> top_prec l" using a(8) ops by (simp add: next_prec_def)
    from join_ints [OF bin(1) a(6) this 2(3,5), of s2] obtain l' r' where
      j: "bin_operands ?q l r s2 = Inr ((l', r'), s2)" "int_tree (join_operands ?q l' r')"
        "inorder (join_operands ?q l' r') = inorder l @ [Inr ?q] @ inorder r"
        "top_prec (join_operands ?q l' r') = ?p" by blast
    let ?n = "join_operands ?q l' r'"
    have run: "binexpr_loop K p l s = (if ends_expr (cur s2) then Inr (set_rvalue ?n, s2) else k_binexpr_loop K p ?n s2)"
      using cur binds True 1(1) 2(1) bt(2,9) j(1) by (simp add: binexpr_loop_def Let_def tok_prec_def)
    have "parses p leaf (inorder ?n) o2 e rest s2 (binexpr_loop K p l s)"
    proof (cases "o2 = []")
      case True
      then have "cur s2 = e" using 2(7) feeds_token by simp
      then show ?thesis
        unfolding run using parses_done [OF j(2) refl, of p o2 e rest s2 leaf] e True a(3) j(4) \<open>tok_prec t > p\<close> 2(7)
        by (simp add: next_prec_def)
    next
      case False
      then obtain t' x' o3 where o2: "o2 = (t', x') # o3" by (cases o2) auto
      have g: "good_tail s2 leaf o2" using bin(3) 2(2) good_tail_lexed [OF lexed_trans [OF 1(3) 2(8)]] by simp
      have "cur s2 = t'" using feeds_token [of t' _ rest s2] 2(7) o2 by simp
      then have "\<not> ends_expr (cur s2)" using g o2 binop_facts(8) [of t'] by simp
      moreover have "parses p leaf (inorder ?n) o2 e rest s2 (k_binexpr_loop K p ?n s2)"
        by (rule loop_okD [OF lo _ False a(3) g 2(7) j(2)]) (use a(1) ops 2(2,6) j(4) \<open>tok_prec t > p\<close> in simp_all)
      ultimately show ?thesis unfolding run by simp
    qed
    moreover have "inorder ?n = inorder l @ tail_items leaf ((t, x) # o1)" using j(3) 2(4) by simp
    ultimately have "parses p leaf (inorder l) (((t, x) # o1) @ o2) e rest s (binexpr_loop K p l s)"
      by (rule parses_more) (rule lexed_trans [OF 1(3) 2(8)])
    then show ?thesis using ops 2(2) by simp
  qed
qed

lemma tie_parses:
  assumes e: "ends_expr e"
  shows "k < n \<Longrightarrow> loop_ok (k_binexpr_loop (tie n)) k leaf e rest \<and> expr_ok_at (k_binexpr (tie n)) k leaf e rest"
proof (induction k arbitrary: n)
  case 0
  then obtain m where n: "n = Suc m" by (cases n) auto
  have "loop_ok (binexpr_loop (tie m)) 0 leaf e rest" by (simp add: loop_ok_def)
  then show ?case using binexpr_step [OF _ e] n by (simp add: all_calls_def)
next
  case (Suc k)
  then obtain m where n: "n = Suc m" "k < m" by (cases n) auto
  have "loop_ok (binexpr_loop (tie m)) (Suc k) leaf e rest"
    using loop_step [OF _ _ e] Suc.IH [OF n(2)] by blast
  then show ?case using binexpr_step [OF _ e] n(1) by (simp add: all_calls_def)
qed

section \<open>There is one such tree\<close>

text \<open>A tree without types and conversions.\<close>

primrec shape :: "ast \<Rightarrow> ast" where
  "shape Null = Null"
| "shape (Node q t c rv l m r sy v ln) =
     (if q = A_INTLIT \<or> q = A_IDENT then Node q 0 None False Null Null Null sy v 0
      else if q = A_WIDEN then shape l
      else Node q 0 None False (shape l) Null (shape r) None 0 0)"

lemma inorder_prec: "grouped n \<Longrightarrow> Inr q \<in> set (inorder n) \<Longrightarrow> top_prec n \<le> prec_of q"
  by (induction n) (auto split: if_splits)

lemma grouped_cases:
  assumes "grouped n"
  obtains i where "inorder n = [Inl i]" "shape n = Node (fst i) 0 None False Null Null Null (snd (snd i)) (fst (snd i)) 0"
  | l q r where "grouped l" "grouped r" "inorder n = inorder l @ [Inr q] @ inorder r" "prec_of q \<le> top_prec l"
      "prec_of q < top_prec r" "shape n = Node q 0 None False (shape l) Null (shape r) None 0 0"
  using assms by (induction n) (auto split: if_splits)

lemma split_before:
  assumes "a @ x # b = a' @ x' # b'" "length a < length a'"
  shows "x \<in> set a'" "x' \<in> set b"
proof -
  from assms obtain d where d: "a' = a @ d" "x # b = d @ x' # b'"
    by (auto simp: append_eq_append_conv2)
  then have "d \<noteq> []" using assms(2) by auto
  then obtain d' where "d = x # d'" "b = d' @ x' # b'" using d(2) by (cases d) auto
  then show "x \<in> set a'" "x' \<in> set b" using d(1) by auto
qed

lemma leaf_no_op [simp]: "a @ Inr q # b \<noteq> [Inl i]" "[Inl i] \<noteq> a @ Inr q # b"
  by (cases a; simp)+

lemma grouped_unique:
  "grouped n \<Longrightarrow> grouped n' \<Longrightarrow> inorder n = inorder n' \<Longrightarrow> shape n = shape n'"
proof (induction "length (inorder n)" arbitrary: n n' rule: less_induct)
  case less
  note g = less.prems(1,2) and eq = less.prems(3)
  show ?case
  proof (cases rule: grouped_cases [OF g(1)])
    case (1 i)
    show ?thesis
      using 1 eq by (cases rule: grouped_cases [OF g(2)]) auto
  next
    case n: (2 l q r)
    show ?thesis
    proof (cases rule: grouped_cases [OF g(2)])
      case (1 i)
      then show ?thesis using n(3) eq by auto
    next
      case n': (2 l' q' r')
      have s: "inorder l @ Inr q # inorder r = inorder l' @ Inr q' # inorder r'" using eq n(3) n'(3) by simp
      have lens: "length (inorder l) = length (inorder l')"
      proof (rule ccontr)
        assume "length (inorder l) \<noteq> length (inorder l')"
        then consider "length (inorder l) < length (inorder l')" | "length (inorder l') < length (inorder l)" by linarith
        then show False
        proof cases
          case 1
          from split_before [OF s 1] show False
            using inorder_prec [OF n'(1)] inorder_prec [OF n(2)] n(5) n'(4) by fastforce
        next
          case 2
          from split_before [OF s [symmetric] 2] show False
            using inorder_prec [OF n(1)] inorder_prec [OF n'(2)] n'(5) n(4) by fastforce
        qed
      qed
      then have "inorder l = inorder l'" "q = q'" "inorder r = inorder r'" using s by auto
      moreover have "shape l = shape l'"
        by (rule less.hyps [OF _ n(1) n'(1)]) (use n(3) calculation in simp_all)
      moreover have "shape r = shape r'"
        by (rule less.hyps [OF _ n(2) n'(2)]) (use n(3) calculation in simp_all)
      ultimately show ?thesis using n(6) n'(6) by simp
    qed
  qed
qed


section \<open>The result\<close>

text \<open>
  C5: For the text of an expression of integer operands (literals and variables) with the binary
  operators from \<^verbatim>\<open>||\<close> to \<^verbatim>\<open>%\<close> between them, up to a token that ends an expression, the parser
  gives the one tree that has the operands and operators in their order and in which operators
  are grouped by the precedence table, equal ones to the left. The recursion needs no more
  levels than there are operators.
\<close>

theorem binexpr_groups:
  assumes "Infile s = program_text (x # tail_lexemes ops @ [Punct e]) @ rest" "Putback s = 0"
      "token (Peektoken s) = T_EOF"
    and "is_operand s x (leaf x)" "good_tail s leaf ops" "ends_expr e" "length ops \<le> n"
  shows "\<exists>tree s'. thn scan_tok (binexpr (tie n) 0) s = Inr (tree, s')
     \<and> inorder tree = inorder (leaf x) @ tail_items leaf ops \<and> grouped tree
     \<and> (\<forall>t. grouped t \<longrightarrow> inorder t = inorder tree \<longrightarrow> shape t = shape tree)
     \<and> cur s' = e \<and> lexed s s'"
proof -
  have x: "lexeme_ok x" using assms(4) by (simp add: is_operand_def)
  have "reading (replicate 0 blank @ lexeme_text x @ blank # program_text (tail_lexemes ops @ [Punct e]) @ rest) s"
    using assms(1-3) by (simp add: reading_def program_text_def)
  then obtain s1 where 1: "scan_tok s = Inr (True, s1)" "feeds (x # tail_lexemes ops @ [Punct e]) rest s1" "lexed s s1"
    using scan_lexeme [OF x] unfolding feeds_def scan_tok_def by fastforce
  have "expr_ok_at (k_binexpr (tie (Suc n))) n leaf e rest" using tie_parses [OF assms(6), of n "Suc n"] by blast
  then have "parses 0 leaf (inorder (leaf x)) ops e rest s1 (binexpr (tie n) 0 s1)"
    using 1(2) assms(4,5,7) operand_lexed [OF 1(3)] good_tail_lexed [OF 1(3)]
    unfolding expr_ok_at_def by (simp add: all_calls_def)
  then obtain tree s2 o1 o2 where 2: "binexpr (tie n) 0 s1 = Inr (tree, s2)" "ops = o1 @ o2" "int_tree tree"
      "inorder tree = inorder (leaf x) @ tail_items leaf o1" "next_prec o2 \<le> 0"
      "feeds (tail_lexemes o2 @ [Punct e]) rest s2" "lexed s1 s2" by (rule parsesE)
  have "o2 = []"
    using 2(2,5) assms(5) binop_facts(5) by (cases o2) (force simp: next_prec_def)+
  then have "inorder tree = inorder (leaf x) @ tail_items leaf ops" "cur s2 = e"
    using 2(2,4,6) feeds_token [of e "[]" rest s2] by simp_all
  moreover have "grouped tree" using 2(3) by (simp add: int_tree_def)
  moreover have "shape t = shape tree" if "grouped t" "inorder t = inorder tree" for t
    using grouped_unique that calculation(3) by blast
  moreover have "thn scan_tok (binexpr (tie n) 0) s = Inr (tree, s2)" using 1(1) 2(1) by simp
  ultimately show ?thesis using lexed_trans [OF 1(3) 2(7)] by blast
qed

text \<open>\<^verbatim>\<open>1 + 2 * c - 300 < 4 ;\<close> for the global \<^verbatim>\<open>char c\<close>.\<close>

definition expr_tail :: tail where
  "expr_tail = [(T_PLUS, Number 2), (T_STAR, Word ''c''), (T_MINUS, Number 300), (T_LT, Number 4)]"

definition expr_leaf :: "lexeme \<Rightarrow> ast" where
  "expr_leaf x = (case x of Number v \<Rightarrow> mkastleaf A_INTLIT (if v < 256 then P_CHAR else P_INT) None None v
     | _ \<Rightarrow> mkastleaf A_IDENT P_CHAR None (Some 0) 0)"

definition expr_state :: compiler where
  "expr_state = char_state\<lparr>Infile := ''1 + 2 * c - 300 < 4 ; '', Putback := 0\<rparr>"

lemma binexpr_groups_witness:
  "\<exists>tree s'. thn scan_tok (binexpr (tie 4) 0) expr_state = Inr (tree, s')
     \<and> inorder tree = [Inl (A_INTLIT, 1, None), Inr A_ADD, Inl (A_INTLIT, 2, None), Inr A_MULTIPLY,
         Inl (A_IDENT, 0, Some 0), Inr A_SUBTRACT, Inl (A_INTLIT, 300, None), Inr A_LT, Inl (A_INTLIT, 4, None)]
     \<and> grouped tree \<and> cur s' = T_SEMI"
proof -
  have "Infile expr_state = program_text (Number 1 # tail_lexemes expr_tail @ [Punct T_SEMI]) @ []" by code_simp
  moreover have "Putback expr_state = 0" "token (Peektoken expr_state) = T_EOF" by code_simp+
  moreover have "is_operand expr_state (Number 1) (expr_leaf (Number 1))"
    by (simp add: is_operand_def expr_leaf_def)
  moreover have "findenumval ''c'' expr_state = None" "findsymbol ''c'' expr_state = Some 0"
    "Heap expr_state = [char_var]" "word_token ''c'' = T_IDENT" "lexeme_ok (Word ''c'')" by code_simp+
  then have "is_operand expr_state (Word ''c'') (expr_leaf (Word ''c''))"
    by (simp add: is_operand_def expr_leaf_def char_var_def inttype_def)
  then have "good_tail expr_state expr_leaf expr_tail"
    by (simp add: expr_tail_def is_binop_def is_operand_def expr_leaf_def inttype_def)
  moreover have "ends_expr T_SEMI" by code_simp
  moreover have "inorder (expr_leaf (Number 1)) @ tail_items expr_leaf expr_tail =
      [Inl (A_INTLIT, 1, None), Inr A_ADD, Inl (A_INTLIT, 2, None), Inr A_MULTIPLY,
         Inl (A_IDENT, 0, Some 0), Inr A_SUBTRACT, Inl (A_INTLIT, 300, None), Inr A_LT, Inl (A_INTLIT, 4, None)]"
    by code_simp
  moreover have "length expr_tail \<le> 4" by code_simp
  ultimately show ?thesis
    using binexpr_groups [of expr_state "Number 1" expr_tail T_SEMI "[]" expr_leaf 4] by auto
qed

end
