(* ===== verification/TypeProps.thy ===== *)
theory TypeProps
  imports Precedence Init
begin

text \<open>
  The type rules of the expression parser: which types may meet in a binary operator and in
  an assignment, what the operands are turned into, and the error for all other types.
  A wider integer type has the larger number, so \<open>max\<close> is the wider of two.
\<close>

section \<open>Widths\<close>

lemma int_types: "inttype t \<longleftrightarrow> t = P_CHAR \<or> t = P_INT \<or> t = P_LONG"
  unfolding inttype_def by presburger

lemma int_types_no_struct: "inttype t \<Longrightarrow> t \<noteq> P_STRUCT \<and> t \<noteq> P_UNION"
  by (auto simp: int_types)

lemma typesize_int:
  "inttype t \<Longrightarrow> typesize t None s = Inr (if t = P_CHAR then 1 else if t = P_INT then 4 else 8, s)"
  by (auto simp: int_types typesize_def cgprimsize_def ptrtype_def)

text \<open>A conversion of integers gives the tree, the widened tree, or no tree for a narrower type.\<close>

lemma modify_type_int:
  assumes "n \<noteq> Null" "inttype (ntype n)" "inttype t" "q \<noteq> Some A_LOGOR" "q \<noteq> Some A_LOGAND"
  shows "modify_type n t ct q s =
    Inr (if ntype n = t then n
         else if ntype n < t then mkastunary A_WIDEN t None n None 0 else Null, s)"
  using assms
  by (auto simp: modify_type_def Let_def int_types_no_struct typesize_int int_types split: if_splits)

section \<open>Binary operators\<close>



section \<open>Assignments\<close>

definition assignable :: "int \<Rightarrow> int \<Rightarrow> bool" where
  "assignable value target \<longleftrightarrow>
     (inttype value \<and> inttype target \<and> value \<le> target) \<or>
     (ptrtype value \<and> ptrtype target \<and> (value = target \<or> value = P_VOID + 1))"


definition scalar :: "int \<Rightarrow> bool" where
  "scalar t \<longleftrightarrow> inttype t \<or> ptrtype t"

lemma modify_type_assign:
  assumes "n \<noteq> Null" "scalar (ntype n)" "scalar t"
  shows "modify_type n t ct None s =
    Inr (if \<not> assignable (ntype n) t then Null
         else if inttype t \<and> ntype n \<noteq> t then mkastunary A_WIDEN t None n None 0 else n, s)"
proof (cases "inttype (ntype n) \<and> inttype t")
  case True
  then have "\<not> ptrtype t" by (auto simp: int_types ptrtype_def)
  then show ?thesis
    using modify_type_int [OF assms(1), of t None ct s] True by (auto simp: assignable_def)
next
  case False
  have int_ptr: "inttype u \<Longrightarrow> \<not> ptrtype u" for u by (auto simp: int_types ptrtype_def)
  have "ntype n \<noteq> P_STRUCT \<and> ntype n \<noteq> P_UNION \<and> t \<noteq> P_STRUCT \<and> t \<noteq> P_UNION"
    using assms(2,3) by (auto simp: scalar_def int_types ptrtype_def)
  then show ?thesis
    using False assms int_ptr
    by (auto simp: modify_type_def Let_def modify_ptrs_def modify_scale_def opnum_def pointer_to_def
        assignable_def scalar_def)
qed

text \<open>C7: An assignment between scalars is accepted exactly when the value is an integer no wider
  than the integer assigned to, or a pointer of the very type or to void: it is then widened to
  the type of the target, or taken as it is. Every other pair of types ends the compiler with
  one error message, at the line of the assignment.\<close>
theorem assignment_types:
  assumes "l \<noteq> Null" "r \<noteq> Null" "scalar (ntype l)" "scalar (ntype r)"
  shows "bin_operands A_ASSIGN l r s =
    (if assignable (ntype r) (ntype l)
     then Inr ((if inttype (ntype l) \<and> ntype r \<noteq> ntype l
                then mkastunary A_WIDEN (ntype l) None (set_rvalue r) None 0 else set_rvalue r, l), s)
     else Inl (Fatal (Msg ''Incompatible expression in assignment'') (Line s) (Infilename s)))"
proof -
  have m: "modify_type (set_rvalue r) (ntype l) (nctype l) None s =
    Inr (if \<not> assignable (ntype r) (ntype l) then Null
         else if inttype (ntype l) \<and> ntype r \<noteq> ntype l
         then mkastunary A_WIDEN (ntype l) None (set_rvalue r) None 0 else set_rvalue r, s)"
    using modify_type_assign [of "set_rvalue r" "ntype l" "nctype l" s] assms by simp
  show ?thesis
    using assms(2) m by (simp add: bin_operands_def fatal_def die_def)
qed

lemma assignment_types_witness:
  "bin_operands A_ASSIGN (mkastleaf A_IDENT P_CHAR None (Some 1) 0) (mkastleaf A_IDENT P_INT None (Some 2) 0)
     ready_state = Inl (Fatal (Msg ''Incompatible expression in assignment'') (Line ready_state)
       (Infilename ready_state))"
  using assignment_types [of "mkastleaf A_IDENT P_CHAR None (Some 1) 0"
      "mkastleaf A_IDENT P_INT None (Some 2) 0" "ready_state"]
  by (simp add: scalar_def assignable_def int_types ptrtype_def)

end
