(* ===== verification/Still.thy ===== *)
theory Still
  imports Gen ScanSpec
begin

text \<open>
  The functions of the symbol tables and of the code generator leave the input of the scanner
  and the current token alone, and never run out of fuel: every recursion of \<open>genAST_f\<close> is for
  a smaller tree.
\<close>

definition same_tokens :: "compiler \<Rightarrow> compiler \<Rightarrow> bool" where
  "same_tokens s s' \<longleftrightarrow> Infile s' = Infile s \<and> Putback s' = Putback s \<and> Token s' = Token s
     \<and> Peektoken s' = Peektoken s"

definition still :: "'a gcomp \<Rightarrow> bool" where
  "still m \<longleftrightarrow> (\<forall>s. case m s of Inl e \<Rightarrow> e \<noteq> OutOfFuel | Inr (x, s') \<Rightarrow> same_tokens s s')"

lemma same_tokens_refl [simp]: "same_tokens s s"
  by (simp add: same_tokens_def)

lemma stillD:
  assumes "still m"
  shows "m s = Inl e \<Longrightarrow> e \<noteq> OutOfFuel" "m s = Inr (x, s') \<Longrightarrow> same_tokens s s'"
  using assms unfolding still_def by (auto dest: spec [of _ s])

section \<open>Rules\<close>

lemma still_ret [intro!]: "still (ret x)" "still (\<lambda>s. Inr (x, s))"
  by (simp_all add: still_def)

lemma still_err [intro!]: "e \<noteq> OutOfFuel \<Longrightarrow> still (err e)"
  by (simp add: still_def)

lemma still_die [intro!]: "still (fatal a)" "still (fatald a d)" "still (fatals a b)" "still (die m)"
  by (simp_all add: still_def fatal_defs)

lemma still_bnd [intro!]:
  assumes "still m" "\<And>x. still (f x)"
  shows "still (bnd m f)"
  unfolding still_def
proof
  fix s
  show "case bnd m f s of Inl e \<Rightarrow> e \<noteq> OutOfFuel | Inr (x, s') \<Rightarrow> same_tokens s s'"
  proof (cases "m s")
    case (Inl e)
    then show ?thesis using stillD(1) [OF assms(1)] by simp
  next
    case (Inr a)
    obtain x s1 where a: "a = (x, s1)" by (cases a)
    have s1: "same_tokens s s1" using stillD(2) [OF assms(1)] Inr a by blast
    show ?thesis
    proof (cases "f x s1")
      case (Inl e)
      then show ?thesis using stillD(1) [OF assms(2)] \<open>m s = Inr a\<close> a by simp
    next
      case (Inr b)
      obtain y s2 where b: "b = (y, s2)" by (cases b)
      have "same_tokens s1 s2" using stillD(2) [OF assms(2)] Inr b by blast
      then show ?thesis using s1 Inr b \<open>m s = Inr a\<close> a by (simp add: same_tokens_def)
    qed
  qed
qed

lemma still_thn [intro!]: "still m \<Longrightarrow> still k \<Longrightarrow> still (thn m k)"
  unfolding thn_def by blast

lemma still_rd [intro!]: "(\<And>v. still (k v)) \<Longrightarrow> still (rd f k)"
  by (simp add: still_def)

lemma still_modify [intro!]: "(\<And>s. same_tokens s (f s)) \<Longrightarrow> still (modify f)"
  by (simp add: still_def)

lemma still_wr [intro!]:
  assumes f: "\<And>s. same_tokens s (f s)" and k: "still k"
  shows "still (wr f k)"
  unfolding still_def
proof
  fix s
  show "case wr f k s of Inl e \<Rightarrow> e \<noteq> OutOfFuel | Inr (x, s') \<Rightarrow> same_tokens s s'"
    using f [of s] stillD [OF k, of "f s"]
    by (cases "k (f s)") (auto simp: same_tokens_def)
qed

lemma still_if [intro!]: "(b \<Longrightarrow> still m) \<Longrightarrow> (\<not> b \<Longrightarrow> still k) \<Longrightarrow> still (if b then m else k)"
  by simp

lemma still_option [intro!]:
  "still m \<Longrightarrow> (\<And>x. still (k x)) \<Longrightarrow> still (case v of None \<Rightarrow> m | Some x \<Rightarrow> k x)"
  by (simp split: option.split)

lemma still_deref [intro!]:
  "(\<And>e. still (k e)) \<Longrightarrow> still (deref p k)" "(\<And>e. still (k e)) \<Longrightarrow> still (deref_opt q k)"
  by (auto simp: deref_def deref_opt_def)

lemma same_tokens_simps [simp, intro!]:
  "same_tokens s (s\<lparr>freereg := a\<rparr>)" "same_tokens s (s\<lparr>spillreg := b\<rparr>)" "same_tokens s (s\<lparr>Line := c\<rparr>)"
  "same_tokens s (s\<lparr>Outfile := d\<rparr>)" "same_tokens s (s\<lparr>labelid := c\<rparr>)" "same_tokens s (s\<lparr>currSeg := e\<rparr>)"
  "same_tokens s (s\<lparr>localOffset := c\<rparr>)" "same_tokens s (s\<lparr>stackOffset := c\<rparr>)"
  "same_tokens s (s\<lparr>Heap := h\<rparr>)" "same_tokens s (s\<lparr>Glob := l\<rparr>)" "same_tokens s (s\<lparr>Locl := l\<rparr>)"
  "same_tokens s (s\<lparr>Parm := l\<rparr>)" "same_tokens s (s\<lparr>Memb := l\<rparr>)" "same_tokens s (s\<lparr>Structs := l\<rparr>)"
  "same_tokens s (s\<lparr>Unions := l\<rparr>)" "same_tokens s (s\<lparr>Enums := l\<rparr>)" "same_tokens s (s\<lparr>Typedefs := l\<rparr>)"
  "same_tokens s (upd_sym p f s)" "same_tokens s (set_posn p v s)" "same_tokens s (freeloclsyms s)"
  "same_tokens s (freestaticsyms s)" "same_tokens s (s\<lparr>Looplevel := c\<rparr>)" "same_tokens s (s\<lparr>Switchlevel := c\<rparr>)"
  "same_tokens s (s\<lparr>Functionid := f', Looplevel := c, Switchlevel := c'\<rparr>)"
  by (simp_all add: same_tokens_def upd_sym_def set_posn_def freeloclsyms_def freestaticsyms_def)

section \<open>Types and symbols\<close>

lemma still_types [intro!]:
  "still (pointer_to t)" "still (value_at t)" "still (cgprimsize t)" "still (typesize t c)"
  unfolding pointer_to_def value_at_def cgprimsize_def typesize_def by auto

lemma still_modify_type [intro!]: "still (modify_type tree t c q)"
proof -
  have scale: "still (modify_scale tree t c q)"
    unfolding modify_scale_def by (intro still_if still_bnd still_types still_ret)
  have ptrs: "still (modify_ptrs tree t c q)"
    unfolding modify_ptrs_def Let_def by (intro still_if still_bnd still_types still_ret scale)
  show ?thesis
    unfolding modify_type_def Let_def
    by (intro still_if still_bnd still_types still_ret still_err still_die ptrs) simp
qed

lemma still_optimise [intro!]: "still (optimise n)"
  unfolding optimise_def by auto

lemma still_newsym [intro!]: "still (newsym a b c d e f g)"
  unfolding newsym_def by auto

lemma still_copy_size [intro!]: "still (copy_size t c p)"
  unfolding copy_size_def by auto

lemma still_add [intro!]:
  "still (addglob a b c d e f g)" "still (addlocl a b c d f)" "still (addparm a b c d)"
  "still (addmemb a b c d f)" "still (addstruct a)" "still (addunion a)" "still (addenum a' e g)"
  "still (addtypedef a b c)"
  unfolding addglob_def addlocl_def addparm_def addmemb_def addstruct_def addunion_def addenum_def
    addtypedef_def
  by auto

section \<open>Code generation\<close>

lemma still_emit [intro!]: "still (emit i)"
  unfolding emit_def by auto

lemma still_emits [intro!]: "still (emits is)"
  by (induction "is") auto

lemma still_registers [intro!]:
  "still (cgfreeallregs k)" "still cgallocreg" "still (cgfreereg r)" "still cgspillregs" "still cgunspillregs"
  "still genlabel" "still cgtextseg" "still cgdataseg" "still (newlocaloffset z)"
  unfolding cgfreeallregs_def cgallocreg_def cgfreereg_def pushreg_def popreg_def cgspillregs_def
    cgunspillregs_def genlabel_def cgtextseg_def cgdataseg_def newlocaloffset_def Let_def
  by auto

lemma still_moves [intro!]:
  "still (cglabel l)" "still (cgjump l)" "still (cgmove a b)" "still (cglinenum l)"
  unfolding cglabel_def cgjump_def cgmove_def cglinenum_def by auto

lemma still_stores [intro!]:
  "still (store_size w t)" "still (cgstorglob r e)" "still (cgstorlocal r e)" "still (emit_sized sz f)"
  "still (incr_offset e q)"
  unfolding store_size_def cgstorglob_def cgstorlocal_def emit_sized_def incr_offset_def by auto

lemma still_loads [intro!]:
  "still (cgloadint v t)" "still (cgloadvar e q)" "still (cgloadglobstr l)" "still (cgaddress e)"
  "still (cgderef r t)" "still (cgstorderef a b t)"
  unfolding cgloadint_def cgloadvar_def cgloadglobstr_def cgaddress_def cgderef_def cgstorderef_def
  by auto

lemma still_arith [intro!]:
  "still (cgbin b x y)" "still (cgdivmod x y q)" "still (cgshl x y)" "still (cgshr x y)"
  "still (cgnegate x)" "still (cginvert x)" "still (cglognot x)" "still (cgloadboolean x v)"
  "still (cgshlconst x v)" "still (cgwiden x t t')" "still (cgboolean r p l)"
  "still (cgcompare_and_set q x y t)" "still (cgcompare_and_jump q x y l t)"
  unfolding cgbin_def cgdivmod_def cgshl_def cgshr_def cgnegate_def cginvert_def cglognot_def
    cgloadboolean_def cgshlconst_def cgwiden_def cgboolean_def cgcompare_and_set_def
    cgcompare_and_jump_def
  by auto

lemma still_cgbin_defs [intro!]:
  "still (cgadd x y)" "still (cgsub x y)" "still (cgmul x y)" "still (cgand x y)" "still (cgor x y)"
  "still (cgxor x y)"
  by (auto simp: cgbin_defs)

lemma still_cgfunc [intro!]:
  "still (cgfunc_params ps cnt off r)" "still (cgfunc_locals ps)"
  by (induction ps arbitrary: cnt off r; auto)+

lemma still_functions [intro!]:
  "still (cgpreamble f)" "still cgpostamble" "still (cgfuncpreamble p)" "still (cgfuncpostamble p)"
  "still (cgcall e k)" "still (cgcopyarg r p')" "still (cgreturn r q)"
  unfolding cgpreamble_def cgpostamble_def cgfuncpreamble_def cgfuncpostamble_def cgcall_def
    cgcopyarg_def cgreturn_def
  by auto

lemma still_init_value [intro!]: "still (init_value e i)"
  unfolding init_value_def by auto

lemma still_cgglob_elems [intro!]: "still (cgglob_elems k e sz t i)"
  by (induction k arbitrary: i) auto

lemma still_data [intro!]:
  "still (cgglobsym p)" "still (cgglobstr l w b)" "still cgglobstrend" "still (cgswitch r c l ls vs d)"
  unfolding cgglobsym_def cgglobstr_def cgglobstrend_def cgswitch_def Let_def
  by (auto split: prod.split)

lemma still_gen_small [intro!]:
  "still (update_line n)" "still (genfreeregs k)" "still (genpreamble f)" "still genpostamble"
  "still (genglobsym p)" "still (genglobstr w b)" "still genglobstrend"
  unfolding update_line_def genfreeregs_def genpreamble_def genpostamble_def genglobsym_def
    genglobstr_def genglobstrend_def
  by auto

lemma still_gen_store [intro!]: "still (gen_store q t a b)"
  unfolding gen_store_def by auto

lemma still_gen_assign [intro!]: "still (gen_assign n a b)"
  unfolding gen_assign_def by (cases "op n") auto

lemma still_gen_scale [intro!]: "still (gen_scale n a)"
  unfolding gen_scale_def by auto

lemma still_gen_op: "still (gen_op n x y a b c p)"
  unfolding gen_op_def by (intro still_if) auto

section \<open>\<^verbatim>\<open>genAST\<close> returns\<close>

primrec still_args :: "gen \<Rightarrow> ast \<Rightarrow> bool" where
  "still_args g Null \<longleftrightarrow> True"
| "still_args g (Node q t c rv l m r sy v lno) \<longleftrightarrow> (\<forall>a b c p. still (g r a b c p)) \<and> still_args g l"

primrec still_cases :: "gen \<Rightarrow> ast \<Rightarrow> bool" where
  "still_cases g Null \<longleftrightarrow> True"
| "still_cases g (Node q t c rv l m r sy v lno) \<longleftrightarrow> (\<forall>a b c p. still (g l a b c p)) \<and> still_cases g r"

lemma still_small:
  assumes "\<And>m a b c p. size m \<le> size n \<Longrightarrow> still (g m a b c p)"
  shows "still_args g n" "still_cases g n"
  using assms by (induction n; simp)+

lemma still_gen_args: "still_args g n \<Longrightarrow> still (gen_args g n k)"
  by (induction n arbitrary: k) auto

lemma still_gen_cases: "still_cases g n \<Longrightarrow> still (gen_cases g n e d)"
proof (induction n arbitrary: d)
  case (Node q t c rv l m r sy v lno)
  then show ?case
    unfolding gen_cases.simps
    by (intro still_bnd still_thn still_if still_moves still_registers still_gen_small) (auto split: prod.split)
qed auto

lemma still_body:
  assumes g: "\<And>m a b c p. size m < size n \<Longrightarrow> still (g m a b c p)"
  shows "still (genAST_body g n a b c p)"
proof (cases n)
  case Null
  then show ?thesis by (auto simp: genAST_body_def)
next
  case (Node q t ct rv l m r sy v lno)
  then have sub: "still (g (left n) a b c p)" "still (g (mid n) a b c p)" "still (g (right n) a b c p)"
    for a b c p by (auto intro: g)
  have args: "still (gen_args g (left n) k)" for k
    by (rule still_gen_args, rule still_small) (auto simp: Node intro: g)
  have cases: "still (gen_cases g (right n) e d)" for e d
    by (rule still_gen_cases, rule still_small) (auto simp: Node intro: g)
  have "still (genIF g n b c)"
    unfolding genIF_def by (intro still_bnd still_thn still_if still_ret still_moves still_registers still_gen_small sub)
  moreover have "still (genWHILE g n)"
    unfolding genWHILE_def by (intro still_bnd still_thn still_ret still_moves still_registers still_gen_small sub)
  moreover have "still (genSWITCH g n)"
    unfolding genSWITCH_def
    by (intro still_bnd still_thn still_ret still_moves still_registers still_gen_small sub cases)
       (auto split: prod.split)
  moreover have "still (gen_funccall g n)"
    unfolding gen_funccall_def by (intro still_bnd still_thn still_deref still_functions still_registers args)
  moreover have "still (gen_ternary g n)"
    unfolding gen_ternary_def by (intro still_bnd still_thn still_ret still_moves still_registers sub)
  moreover have "still (gen_logandor g n)"
    unfolding gen_logandor_def
    by (intro still_bnd still_thn still_if still_ret still_moves still_registers still_gen_small still_arith sub)
  moreover have "still (gen_glue g n a b c)"
    unfolding gen_glue_def by (intro still_thn still_if still_ret still_gen_small sub)
  moreover have "still (gen_function g n)"
    unfolding gen_function_def
    by (intro still_option still_thn still_err still_ret still_functions sub) simp
  moreover have "still (bnd (if left n \<noteq> Null then g (left n) NOLABEL NOLABEL NOLABEL (Some (op n)) else ret NOREG) (\<lambda>x.
            bnd (if right n \<noteq> Null then g (right n) NOLABEL NOLABEL NOLABEL (Some (op n)) else ret NOREG) (\<lambda>y.
            gen_op n x y a b c p)))"
    by (intro still_bnd still_if still_ret still_gen_op sub)
  ultimately show ?thesis
    unfolding genAST_body_def by (intro still_if still_thn still_ret still_gen_small) 
qed

lemma still_genAST_f: "size n < k \<Longrightarrow> still (genAST_f k n a b c p)"
proof (induction k arbitrary: n a b c p)
  case (Suc k)
  show ?case unfolding genAST_f.simps by (rule still_body) (use Suc in simp)
qed simp

lemma still_genAST [intro!]: "still (genAST n a b c p)"
  unfolding genAST_def by (rule still_genAST_f) simp

end
