(* ===== verification/Progress.thy ===== *)
theory Progress
  imports Still Compile
begin

text \<open>
  The parser always comes back: \<open>calls_for\<close> is enough for every input. What a function of the
  parser relies on of the functions it calls is the locale \<open>callees\<close>; every \<open>tie n\<close> is an
  interpretation.
\<close>

section \<open>What is left to parse\<close>

definition tokens_left :: "compiler \<Rightarrow> nat" where
  "tokens_left s = wt s + peeked s + at_token s"

lemma same_tokens_left: "same_tokens s s' \<Longrightarrow> tokens_left s' = tokens_left s"
  by (simp add: same_tokens_def tokens_left_def wt_def peeked_def at_token_def)

text \<open>
  \<open>steps P k d Q m\<close>: from a current token in \<open>P\<close> and with at most \<open>k\<close> left, \<open>m\<close> does not run out
  of fuel; if it returns, it has used up at least \<open>d\<close>, and the current token is in \<open>Q\<close>.
\<close>

definition steps :: "(toktype \<Rightarrow> bool) \<Rightarrow> nat \<Rightarrow> nat \<Rightarrow> (toktype \<Rightarrow> bool) \<Rightarrow> 'a gcomp \<Rightarrow> bool" where
  "steps P k d Q m \<longleftrightarrow> (\<forall>s. P (cur s) \<longrightarrow> tokens_left s \<le> k \<longrightarrow>
     (case m s of Inl e \<Rightarrow> e \<noteq> OutOfFuel
      | Inr (x, s') \<Rightarrow> tokens_left s' + d \<le> tokens_left s \<and> Q (cur s')))"

abbreviation (input) any :: "toktype \<Rightarrow> bool" where "any \<equiv> \<lambda>t. True"
abbreviation (input) some_token :: "toktype \<Rightarrow> bool" where "some_token \<equiv> \<lambda>t. t \<noteq> T_EOF"

lemma stepsD:
  assumes "steps P k d Q m" "P (cur s)" "tokens_left s \<le> k"
  shows "m s = Inl e \<Longrightarrow> e \<noteq> OutOfFuel"
    "m s = Inr (x, s') \<Longrightarrow> tokens_left s' + d \<le> tokens_left s \<and> Q (cur s')"
  using assms unfolding steps_def by (auto dest!: spec [of _ s])

lemma stepsI:
  assumes "\<And>s e. P (cur s) \<Longrightarrow> tokens_left s \<le> k \<Longrightarrow> m s = Inl e \<Longrightarrow> e \<noteq> OutOfFuel"
    "\<And>s x s'. P (cur s) \<Longrightarrow> tokens_left s \<le> k \<Longrightarrow> m s = Inr (x, s') \<Longrightarrow>
       tokens_left s' + d \<le> tokens_left s \<and> Q (cur s')"
  shows "steps P k d Q m"
  unfolding steps_def using assms by (auto split: sum.split)

lemma steps_weaken:
  assumes "steps P k d Q m" "\<And>t. P' t \<Longrightarrow> P t" "k' \<le> k" "d' \<le> d" "\<And>t. Q t \<Longrightarrow> Q' t"
  shows "steps P' k' d' Q' m"
proof (rule stepsI)
  fix s e assume "P' (cur s)" "tokens_left s \<le> k'" "m s = Inl e"
  then show "e \<noteq> OutOfFuel" using stepsD(1) [OF assms(1)] assms(2,3) by fastforce
next
  fix s x s' assume a: "P' (cur s)" "tokens_left s \<le> k'" "m s = Inr (x, s')"
  have "tokens_left s' + d \<le> tokens_left s \<and> Q (cur s')"
    by (rule stepsD(2) [OF assms(1)]) (use a assms(2,3) in auto)
  then show "tokens_left s' + d' \<le> tokens_left s \<and> Q' (cur s')" using assms(4,5) by auto
qed

section \<open>Rules\<close>

lemma steps_bnd:
  assumes m: "steps P k d1 R m" and f: "\<And>x. d1 \<le> k \<Longrightarrow> steps R (k - d1) d2 Q (f x)" and d: "d \<le> d1 + d2"
  shows "steps P k d Q (bnd m f)"
proof (rule stepsI)
  fix s e assume a: "P (cur s)" "tokens_left s \<le> k" and r: "bnd m f s = Inl e"
  show "e \<noteq> OutOfFuel"
  proof (cases "m s")
    case (Inl e')
    then show ?thesis using stepsD(1) [OF m a Inl] r by simp
  next
    case (Inr b)
    obtain x s1 where b: "b = (x, s1)" by (cases b)
    have 1: "tokens_left s1 + d1 \<le> tokens_left s \<and> R (cur s1)" using stepsD(2) [OF m a] Inr b by blast
    have "f x s1 = Inl e" using r Inr b by simp
    then show ?thesis by (rule stepsD(1) [OF f, rotated -1]) (use 1 a in auto)
  qed
next
  fix s x s' assume a: "P (cur s)" "tokens_left s \<le> k" and "bnd m f s = Inr (x, s')"
  then obtain y s1 where r: "m s = Inr (y, s1)" "f y s1 = Inr (x, s')" by (auto simp: bnd_eq_Inr)
  have 1: "tokens_left s1 + d1 \<le> tokens_left s \<and> R (cur s1)" using stepsD(2) [OF m a r(1)] .
  have "tokens_left s' + d2 \<le> tokens_left s1 \<and> Q (cur s')"
    by (rule stepsD(2) [OF f _ _ r(2)]) (use 1 a in auto)
  then show "tokens_left s' + d \<le> tokens_left s \<and> Q (cur s')" using 1 d by auto
qed

text \<open>After a token has been used up, nothing more has to be.\<close>

lemma steps_strict:
  assumes "steps P k 1 R m" "\<And>x. 1 \<le> k \<Longrightarrow> steps R (k - 1) 0 Q (f x)" "d \<le> 1"
  shows "steps P k d Q (bnd m f)"
  by (rule steps_bnd [OF assms(1)]) (use assms in auto)

lemma steps_loose:
  assumes "steps P k 0 R m" "\<And>x. steps R k d Q (f x)"
  shows "steps P k d Q (bnd m f)"
  by (rule steps_bnd [OF assms(1)]) (use assms in auto)

lemma steps_same:
  assumes "still m"
  shows "steps P k 0 P m"
proof (rule stepsI)
  fix s e assume "m s = Inl e"
  then show "e \<noteq> OutOfFuel" by (rule stillD(1) [OF assms])
next
  fix s x s' assume "P (cur s)" "m s = Inr (x, s')"
  moreover from this(2) have "same_tokens s s'" by (rule stillD(2) [OF assms])
  ultimately show "tokens_left s' + 0 \<le> tokens_left s \<and> P (cur s')"
    using same_tokens_left [of s s'] by (simp add: same_tokens_def)
qed

lemma steps_still:
  assumes "still m" "\<And>x. steps P k d Q (f x)"
  shows "steps P k d Q (bnd m f)"
  by (rule steps_loose [OF steps_same [OF assms(1)] assms(2)])

lemmas steps_strict_thn = steps_strict [where f = "\<lambda>_. k'" for k', folded thn_def]
lemmas steps_loose_thn = steps_loose [where f = "\<lambda>_. k'" for k', folded thn_def]
lemmas steps_still_thn = steps_still [where f = "\<lambda>_. k'" for k', folded thn_def]

lemma steps_ret: "d = 0 \<Longrightarrow> (\<And>t. P t \<Longrightarrow> Q t) \<Longrightarrow> steps P k d Q (ret x)"
  by (simp add: steps_def)

lemma steps_end: "still m \<Longrightarrow> (\<And>t. P t \<Longrightarrow> Q t) \<Longrightarrow> steps P k 0 Q m"
  by (rule steps_weaken [OF steps_same [of m P k]]) auto

lemma steps_die: "steps P k d Q (fatal a)" "steps P k d Q (fatals a b)" "steps P k d Q (fatald a c)"
  by (simp_all add: steps_def fatal_defs)

lemma steps_err: "e \<noteq> OutOfFuel \<Longrightarrow> steps P k d Q (err e)"
  by (simp add: steps_def)

lemma steps_rd: "(\<And>v. steps P k d Q (g v)) \<Longrightarrow> steps P k d Q (rd f g)"
  by (simp add: steps_def)

lemma steps_cur: "(\<And>t. P t \<Longrightarrow> steps (\<lambda>t'. t' = t) k d Q (g t)) \<Longrightarrow> steps P k d Q (rd cur g)"
  unfolding steps_def by simp

lemma steps_Token:
  "(\<And>tok. P (token tok) \<Longrightarrow> steps (\<lambda>t'. t' = token tok) k d Q (g tok)) \<Longrightarrow> steps P k d Q (rd Token g)"
  unfolding steps_def by simp

lemma steps_wr:
  assumes f: "\<And>s. same_tokens s (f s)" and g: "steps P k d Q g"
  shows "steps P k d Q (wr f g)"
proof -
  have "tokens_left (f s) = tokens_left s" "cur (f s) = cur s" for s
    using same_tokens_left [OF f] f [of s] by (simp_all add: same_tokens_def)
  note f = this
  show ?thesis
  proof (rule stepsI)
    fix s e assume "P (cur s)" "tokens_left s \<le> k" "wr f g s = Inl e"
    then show "e \<noteq> OutOfFuel" using stepsD(1) [OF g, of "f s" e] f by simp
  next
    fix s x s' assume "P (cur s)" "tokens_left s \<le> k" "wr f g s = Inr (x, s')"
    then show "tokens_left s' + d \<le> tokens_left s \<and> Q (cur s')"
      using stepsD(2) [OF g, of "f s" x s'] f by simp
  qed
qed

lemma steps_if: "(b \<Longrightarrow> steps P k d Q m) \<Longrightarrow> (\<not> b \<Longrightarrow> steps P k d Q m') \<Longrightarrow> steps P k d Q (if b then m else m')"
  by simp

lemma steps_option:
  "steps P k d Q m \<Longrightarrow> (\<And>x. steps P k d Q (g x)) \<Longrightarrow> steps P k d Q (case v of None \<Rightarrow> m | Some x \<Rightarrow> g x)"
  by (simp split: option.split)

lemma steps_deref:
  "(\<And>e. steps P k d Q (g e)) \<Longrightarrow> steps P k d Q (deref p g)"
  "(\<And>e. steps P k d Q (g e)) \<Longrightarrow> steps P k d Q (deref_opt q g)"
  by (simp_all add: deref_def deref_opt_def steps_def split: option.split)

section \<open>Scanning\<close>

lemma scan_error_fuel: "scan_error s e \<Longrightarrow> e \<noteq> OutOfFuel"
  by (auto simp: scan_error_def)

lemma steps_scan_tok: "(\<And>t. P t \<Longrightarrow> t \<noteq> T_EOF) \<Longrightarrow> steps P k 1 any scan_tok"
  unfolding scan_tok_def
proof (rule stepsI)
  fix s s' :: compiler and b :: bool
  assume "\<And>t. P t \<Longrightarrow> t \<noteq> T_EOF" "P (cur s)" "scan Ref_Token s = Inr (b, s')"
  then show "tokens_left s' + 1 \<le> tokens_left s \<and> any (cur s')"
    using scan_Token_result(1) [of s b s'] by (auto simp: tokens_left_def at_token_def)
qed (auto dest: scan_error_result scan_error_fuel)

lemma steps_scan_loose: "steps P k 0 any scan_tok"
  unfolding scan_tok_def
proof (rule stepsI)
  fix s s' :: compiler and b :: bool
  assume "scan Ref_Token s = Inr (b, s')"
  then show "tokens_left s' + 0 \<le> tokens_left s \<and> any (cur s')"
    using scan_Token_result(1) [of s b s'] by (auto simp: tokens_left_def)
qed (auto dest: scan_error_result scan_error_fuel)

lemma steps_peek: "(\<And>t. P t \<Longrightarrow> t \<noteq> T_EOF) \<Longrightarrow> steps P k 0 some_token (scan Ref_Peek)"
proof (rule stepsI)
  fix s s' :: compiler and b :: bool
  assume "\<And>t. P t \<Longrightarrow> t \<noteq> T_EOF" "P (cur s)" "scan Ref_Peek s = Inr (b, s')"
  then have 1: "at_token s = 1" "at_token s \<le> at_token s'" "wt s' + peeked s' \<le> wt s + peeked s"
    using scan_Peek_result [of s b s'] by (simp_all add: at_token_def)
  have 2: "at_token s' = (if cur s' = T_EOF then 0 else 1)" by (simp add: at_token_def)
  then have 3: "cur s' \<noteq> T_EOF" using 1(1,2) by (cases "cur s' = T_EOF") simp_all
  then have "at_token s' = 1" using 2 by simp
  then show "tokens_left s' + 0 \<le> tokens_left s \<and> some_token (cur s')"
    using 1 3 by (simp add: tokens_left_def)
qed (auto dest: scan_error_result scan_error_fuel)

lemma steps_match: "t \<noteq> T_EOF \<Longrightarrow> steps P k 1 any (match_tok t w)"
  unfolding match_tok_def
  by (intro steps_cur steps_if steps_die steps_strict_thn [where R = any] steps_scan_tok steps_ret) auto

lemma steps_match_loose: "t \<noteq> T_EOF \<Longrightarrow> steps P k 0 any (match_tok t w)"
  by (rule steps_weaken [OF steps_match]) auto

lemma steps_matches:
  "steps P k 1 any semi" "steps P k 1 any lbrace" "steps P k 1 any rbrace" "steps P k 1 any lparen"
  "steps P k 1 any rparen" "steps P k 1 any ident" "steps P k 1 any comma"
  unfolding match_defs(2-) by (rule steps_match, simp)+

lemmas steps_matches_loose = steps_matches [THEN steps_weaken, OF _ le_refl zero_le]

section \<open>Fed computations\<close>

text \<open>
  Once a token has been used up, a function may call any other one: with four calls for every
  token, and at most three more before the next token is used up, \<open>fed n\<close> is what may follow
  where \<open>n\<close> calls are left.
\<close>

definition fed :: "nat \<Rightarrow> 'a gcomp \<Rightarrow> bool" where
  "fed n m \<longleftrightarrow> (\<forall>k. 4 * k + 3 < n \<longrightarrow> steps any k 0 any m)"

lemma fedD: "fed n m \<Longrightarrow> 4 * k + 3 < n \<Longrightarrow> steps any k 0 any m"
  by (simp add: fed_def)

lemma fedI: "(\<And>k. 4 * k + 3 < n \<Longrightarrow> steps any k 0 any m) \<Longrightarrow> fed n m"
  by (simp add: fed_def)

lemma fedI_strict: "(\<And>k. 4 * k + 3 < n \<Longrightarrow> steps any k 1 any m) \<Longrightarrow> fed n m"
  by (intro fedI) (rule steps_weaken, auto)

lemma steps_feed:
  assumes "steps P k 1 R m" "4 * k \<le> n" "\<And>x. fed n (f x)" "d \<le> 1"
  shows "steps P k d any (bnd m f)"
proof (rule steps_strict [OF assms(1) _ assms(4)])
  fix x assume "1 \<le> k"
  then have "4 * (k - 1) + 3 < n" using assms(2) by simp
  then have "steps any (k - 1) 0 any (f x)" using assms(3) unfolding fed_def by simp
  then show "steps R (k - 1) 0 any (f x)" by (rule steps_weaken) auto
qed

lemma steps_feed_thn:
  "steps P k 1 R m \<Longrightarrow> 4 * k \<le> n \<Longrightarrow> fed n g \<Longrightarrow> d \<le> 1 \<Longrightarrow> steps P k d any (thn m g)"
  unfolding thn_def by (rule steps_feed)

named_theorems fed_intros \<open>what a function may do once a token has been used up\<close>

lemma fed_bnd [fed_intros]:
  assumes "fed n m" "\<And>x. fed n (f x)"
  shows "fed n (bnd m f)"
  unfolding fed_def
proof (intro allI impI)
  fix k assume "4 * k + 3 < n"
  then show "steps any k 0 any (bnd m f)"
    using assms unfolding fed_def by (intro steps_loose [where R = any]) simp_all
qed

lemma fed_thn [fed_intros]: "fed n m \<Longrightarrow> fed n g \<Longrightarrow> fed n (thn m g)"
  unfolding thn_def by (rule fed_bnd)

lemma fed_basic [fed_intros]:
  "fed n (ret x)" "fed n (fatal a)" "fed n (fatals a b)" "fed n (fatald a c)" "fed n scan_tok"
  "fed n (err (Crash a))"
  by (rule fedI, simp add: steps_ret steps_die steps_scan_loose steps_err)+

lemma fed_still: "still m \<Longrightarrow> fed n m"
  by (rule fedI) (rule steps_end, auto)

lemma fed_modify [fed_intros]: "(\<And>s. same_tokens s (f s)) \<Longrightarrow> fed n (modify f)"
  by (intro fed_still still_modify)

lemma fed_rd [fed_intros]: "(\<And>v. fed n (g v)) \<Longrightarrow> fed n (rd f g)"
  by (intro fedI steps_rd) (rule fedD)

lemma fed_wr [fed_intros]: "(\<And>s. same_tokens s (f s)) \<Longrightarrow> fed n g \<Longrightarrow> fed n (wr f g)"
  by (intro fedI steps_wr) (auto intro: fedD)

lemma fed_if [fed_intros]: "(b \<Longrightarrow> fed n m) \<Longrightarrow> (\<not> b \<Longrightarrow> fed n m') \<Longrightarrow> fed n (if b then m else m')"
  by simp

lemma fed_cases [fed_intros]:
  "fed n m \<Longrightarrow> (\<And>x. fed n (g x)) \<Longrightarrow> fed n (case v of None \<Rightarrow> m | Some x \<Rightarrow> g x)"
  "(\<And>x y. fed n (h x y)) \<Longrightarrow> fed n (case p of (x, y) \<Rightarrow> h x y)"
  "fed n m \<Longrightarrow> (\<And>x y. fed n (l x y)) \<Longrightarrow> fed n (case q of [] \<Rightarrow> m | x # y \<Rightarrow> l x y)"
  by (simp_all split: option.split prod.split list.split)

lemma fed_deref [fed_intros]:
  "(\<And>e. fed n (g e)) \<Longrightarrow> fed n (deref p g)" "(\<And>e. fed n (g e)) \<Longrightarrow> fed n (deref_opt q g)"
  by (intro fedI steps_deref; rule fedD; simp)+

lemma fed_match [fed_intros]:
  "fed n semi" "fed n lbrace" "fed n rbrace" "fed n lparen" "fed n rparen" "fed n ident" "fed n comma"
  "t \<noteq> T_EOF \<Longrightarrow> fed n (match_tok t w)"
  by (rule fedI_strict, rule steps_matches steps_match, assumption?)+

section \<open>Functions of the parser that read no token\<close>

lemma still_binastop [intro!]: "still (binastop t)"
  unfolding binastop_def Let_def by auto

lemma still_op_precedence [intro!]: "still (op_precedence t)"
  unfolding op_precedence_def Let_def by auto

lemma still_bin_operands [intro!]: "still (bin_operands aop l r)"
  unfolding bin_operands_def Let_def by auto

lemma still_layout_members [intro!]: "still (layout_members t ms off)"
  by (induction ms arbitrary: off) auto

lemma still_or_no_type [intro!]: "still (or_no_type t)"
  unfolding or_no_type_def by auto

lemma still_symbols [intro!]:
  "still (is_new_symbol p c t q)" "still (scalar_symbol v t q c)" "still (array_symbol v t q c)"
proof -
  show new: "still (is_new_symbol p c t q)" for p c t q
    unfolding is_new_symbol_def by (intro still_option still_deref still_if still_wr still_ret still_die) auto
  show "still (scalar_symbol v t q c)"
    unfolding scalar_symbol_def by (auto intro!: new)
  show "still (array_symbol v t q c)"
    unfolding array_symbol_def by (auto intro!: new)
qed

lemma still_check_return [intro!]: "still (check_return t n)"
  unfolding check_return_def Let_def by auto

lemma still_with_line [intro!]: "still (with_line l n)"
  unfolding with_line_def by auto

lemmas fed_stills [fed_intros] =
  still_types [THEN fed_still] still_modify_type [THEN fed_still] still_optimise [THEN fed_still]
  still_add [THEN fed_still] still_gen_small [THEN fed_still] still_registers [THEN fed_still]
  still_genAST [THEN fed_still] still_binastop [THEN fed_still] still_op_precedence [THEN fed_still]
  still_bin_operands [THEN fed_still] still_layout_members [THEN fed_still]
  still_or_no_type [THEN fed_still] still_symbols [THEN fed_still] still_check_return [THEN fed_still]
  still_with_line [THEN fed_still]

section \<open>The functions of the parser\<close>

lemma steps_any: "steps any k d any m \<Longrightarrow> steps P k d any m"
  by (rule steps_weaken) auto

lemma steps_any0: "steps any k 1 any m \<Longrightarrow> steps P k 0 any m"
  by (rule steps_weaken) auto

lemma steps_stype:
  "steps P k d Q a \<Longrightarrow> steps P k d Q b \<Longrightarrow> steps P k d Q c \<Longrightarrow>
     steps P k d Q (case v of S_VARIABLE \<Rightarrow> a | S_FUNCTION \<Rightarrow> b | S_ARRAY \<Rightarrow> c)"
  by (cases v) simp_all

text \<open>The end of the input is no operator.\<close>

lemma steps_binds:
  assumes "\<And>b. t \<noteq> T_EOF \<Longrightarrow> steps P k d Q (g b)"
  shows "steps P k d Q (bnd (binds p t) g)"
proof (cases "t = T_EOF")
  case True
  then show ?thesis
    by (simp add: binds_def op_precedence_def OpPrec_def steps_def fatal_defs)
next
  case False
  have "still (binds p t)" unfolding binds_def by (intro still_bnd still_op_precedence still_ret)
  then show ?thesis by (rule steps_still) (rule assms [OF False])
qed

text \<open>A string literal that was read ahead becomes the current token.\<close>

lemma string_loop_cases:
  assumes c: "cur s \<noteq> T_EOF"
  obtains (fail) e where "string_loop K s = Inl e" "e \<noteq> OutOfFuel"
  | (stop) s1 where "string_loop K s = Inr ((), s1)" "tokens_left s1 \<le> tokens_left s" "cur s1 \<noteq> T_EOF"
  | (more) s1 where "string_loop K s = k_string_loop K s1" "tokens_left s1 + 1 \<le> tokens_left s"
      "cur s1 \<noteq> T_EOF"
proof (cases "scan Ref_Peek s")
  case (Inl e)
  then show ?thesis
    using stepsD(1) [OF steps_peek [of some_token "tokens_left s"] c le_refl Inl] fail
    by (simp add: string_loop_def)
next
  case (Inr a)
  obtain b s1 where a: "a = (b, s1)" by (cases a)
  have 1: "tokens_left s1 \<le> tokens_left s" "cur s1 \<noteq> T_EOF"
    using stepsD(2) [OF steps_peek [of some_token "tokens_left s"] c le_refl, of b s1] Inr a by simp_all
  show ?thesis
  proof (cases "token (Peektoken s1) = T_STRLIT")
    case False
    then show ?thesis using stop [of s1] 1 Inr a by (simp add: string_loop_def)
  next
    case True
    show ?thesis
    proof (cases "genglobstr (Text s1) True s1")
      case (Inl e)
      then have "e \<noteq> OutOfFuel" by (rule stillD(1) [OF still_gen_small(6)])
      then show ?thesis using fail Inl True Inr a \<open>scan Ref_Peek s = Inr a\<close> by (simp add: string_loop_def)
    next
      case g: (Inr d)
      obtain v s2 where d: "d = (v, s2)" by (cases d)
      have same: "same_tokens s1 s2" using stillD(2) [OF still_gen_small(6)] g d by blast
      then have pk: "token (Peektoken s2) = T_STRLIT" "token (Token s2) \<noteq> T_EOF"
        using True 1 by (simp_all add: same_tokens_def)
      define s3 where "s3 = s2\<lparr>Token := Peektoken s2, Peektoken := (Peektoken s2)\<lparr>token := T_EOF\<rparr>\<rparr>"
      have "scan_tok s2 = Inr (True, s3)"
        using pk by (simp add: scan_tok_def scan_def scan_body_def s3_def)
      then have "string_loop K s = k_string_loop K s3"
        using True Inr a g d by (simp add: string_loop_def)
      moreover have "tokens_left s3 + 1 = tokens_left s2" "cur s3 \<noteq> T_EOF"
        using pk by (simp_all add: s3_def tokens_left_def wt_def peeked_def at_token_def)
      ultimately show ?thesis using more [of s3] 1 same_tokens_left [OF same] by simp
    qed
  qed
qed

text \<open>What a function relies on of those it calls, when calls \<open>n\<close> deep are left.\<close>

locale callees =
  fixes K :: calls and n :: nat
  assumes k_binexpr: "4 * k < n \<Longrightarrow> steps any k 1 any (k_binexpr K ptp)"
    and k_binexpr_loop: "4 * k < n \<Longrightarrow> steps any k 0 any (k_binexpr_loop K ptp l)"
    and k_prefix: "4 * k < n \<Longrightarrow> steps any k 1 any (k_prefix K ptp)"
    and k_postfix_loop: "4 * k < n \<Longrightarrow> steps any k 0 any (k_postfix_loop K l)"
    and k_expression_loop: "4 * k + 1 < n \<Longrightarrow> steps any k 0 any (k_expression_loop K et l c)"
    and k_string_loop: "4 * k < n \<Longrightarrow> steps some_token k 0 some_token (k_string_loop K)"
    and k_exstatic_loop: "4 * k < n \<Longrightarrow> steps any k 0 any (k_exstatic_loop K cl)"
    and k_stars_loop: "4 * k < n \<Longrightarrow> steps any k 0 any (k_stars_loop K type)"
    and k_parse_type: "4 * k < n \<Longrightarrow> steps any k 1 any (k_parse_type K q cl)"
    and k_initlist_loop: "4 * k + 1 < n \<Longrightarrow> steps any k 0 any (k_initlist_loop K type ne me vs)"
    and k_param_loop: "4 * k + 2 < n \<Longrightarrow> steps any k 0 any (k_param_loop K q ps q' c)"
    and k_member_loop: "4 * k + 2 < n \<Longrightarrow> steps any k 0 any (k_member_loop K q)"
    and k_enum_loop: "4 * k < n \<Longrightarrow> steps any k 0 any (k_enum_loop K v)"
    and k_declaration_list: "4 * k + 1 < n \<Longrightarrow> steps any k 1 any (k_declaration_list K q cl et et')"
    and k_symbol_loop: "4 * k < n \<Longrightarrow> steps any k 0 any (k_symbol_loop K type q cl et et' l)"
    and k_single_statement: "4 * k + 2 < n \<Longrightarrow> steps any k 1 any (k_single_statement K)"
    and k_compound_loop: "4 * k + 3 < n \<Longrightarrow> steps any k 0 any (k_compound_loop K b l)"
    and k_switch_loop: "4 * k < n \<Longrightarrow> steps any k 0 any (k_switch_loop K l c b v)"
    and k_global_loop: "4 * k + 2 < n \<Longrightarrow> steps any k 0 any (k_global_loop K q)"
begin

lemma fed_callees [fed_intros]:
  "fed n (k_binexpr K ptp)" "fed n (k_binexpr_loop K ptp l)" "fed n (k_prefix K ptp)"
  "fed n (k_postfix_loop K l)" "fed n (k_expression_loop K et l c)" "fed n (k_exstatic_loop K cl)"
  "fed n (k_stars_loop K type)" "fed n (k_parse_type K q cl)" "fed n (k_initlist_loop K type ne me vs)"
  "fed n (k_param_loop K q ps q' c)" "fed n (k_member_loop K q)" "fed n (k_enum_loop K v)"
  "fed n (k_declaration_list K q cl et et')" "fed n (k_symbol_loop K type q cl et et' l)"
  "fed n (k_single_statement K)" "fed n (k_compound_loop K b l)" "fed n (k_switch_loop K l c b v)"
  "fed n (k_global_loop K q)"
  by (rule fedI_strict, rule k_binexpr k_prefix k_parse_type k_declaration_list k_single_statement, simp |
      rule fedI, rule k_binexpr_loop k_postfix_loop k_expression_loop k_exstatic_loop k_stars_loop
        k_initlist_loop k_param_loop k_member_loop k_enum_loop k_symbol_loop k_compound_loop
        k_switch_loop k_global_loop, simp)+

lemmas feed = steps_feed [where n = n and R = any]
lemmas feed_thn = steps_feed_thn [where n = n and R = any]
lemmas feed_scan = steps_feed_thn [where n = n and R = any, OF steps_scan_tok]
lemmas feed_some = steps_feed_thn [where n = n and R = any and P = some_token, OF steps_scan_tok]

lemmas first_call = k_binexpr [THEN steps_any] k_prefix [THEN steps_any] k_parse_type [THEN steps_any]
  k_declaration_list [THEN steps_any] k_single_statement [THEN steps_any]

subsection \<open>Expressions\<close>

lemma expression_loop: "4 * k + 1 \<le> n \<Longrightarrow> steps any k 0 any (expression_loop K et l c)"
  unfolding expression_loop_def Let_def
  by (intro steps_cur steps_if steps_ret feed first_call fed_intros) auto

lemma fed_expression_loop [fed_intros]: "fed n (expression_loop K et l c)"
  by (rule fedI) (simp add: expression_loop)

lemma fed_expression_list [fed_intros]: "fed n (expression_list K et)"
  unfolding expression_list_def by (rule fed_expression_loop)

lemma fed_funccall [fed_intros]: "fed n (funccall K)"
  unfolding funccall_def by (intro fed_intros)

lemma parse_stars: "4 * k \<le> n \<Longrightarrow> steps any k 0 any (parse_stars K type)"
  unfolding parse_stars_def
  by (intro steps_cur steps_if steps_ret steps_still still_types feed_scan fed_intros) auto

lemma fed_parse_stars [fed_intros]: "fed n (parse_stars K type)"
  by (rule fedI) (simp add: parse_stars)

lemma fed_parse_cast [fed_intros]: "fed n (parse_cast K q)"
  unfolding parse_cast_def by (intro fed_intros)

lemma array_access:
  "4 * k \<le> n \<Longrightarrow> (\<And>t. P t \<Longrightarrow> t \<noteq> T_EOF) \<Longrightarrow> steps P k 1 any (array_access K l)"
  unfolding array_access_def Let_def
  by (intro steps_if steps_die feed_scan fed_intros) auto

lemma member_access:
  "4 * k \<le> n \<Longrightarrow> (\<And>t. P t \<Longrightarrow> t \<noteq> T_EOF) \<Longrightarrow> steps P k 1 any (member_access l w)"
  unfolding member_access_def Let_def
  by (intro steps_still still_types still_if still_ret still_die steps_if steps_die
        feed_scan fed_intros) auto

lemma post_incdec:
  "(\<And>t. P t \<Longrightarrow> t \<noteq> T_EOF) \<Longrightarrow> steps P k 1 any (post_incdec q m l)"
  unfolding post_incdec_def
  by (intro steps_if steps_die steps_strict_thn [OF steps_scan_tok] steps_ret) auto

lemma string_loop: "4 * k \<le> n \<Longrightarrow> steps some_token k 0 some_token (string_loop K)"
proof (rule stepsI)
  fix s e assume k: "4 * k \<le> n" "cur s \<noteq> T_EOF" "tokens_left s \<le> k" and e: "string_loop K s = Inl e"
  from k(2) show "e \<noteq> OutOfFuel"
  proof (cases rule: string_loop_cases [of s K])
    case (more s1)
    then show ?thesis using stepsD(1) [OF k_string_loop [of "k - 1"], of s1 e] k e by simp
  qed (use e in simp_all)
next
  fix s x s' assume k: "4 * k \<le> n" "cur s \<noteq> T_EOF" "tokens_left s \<le> k"
    and r: "string_loop K s = Inr (x, s')"
  from k(2) show "tokens_left s' + 0 \<le> tokens_left s \<and> some_token (cur s')"
  proof (cases rule: string_loop_cases [of s K])
    case (more s1)
    then have k1: "4 * (k - 1) < n" "tokens_left s1 \<le> k - 1" using k by simp_all
    have "k_string_loop K s1 = Inr (x, s')" using more r by simp
    then have "tokens_left s' + 0 \<le> tokens_left s1 \<and> some_token (cur s')"
      by (rule stepsD(2) [OF k_string_loop [OF k1(1)] more(3) k1(2)])
    then show ?thesis using more by simp
  qed (use r in simp_all)
qed

lemma paren_expression:
  "4 * k \<le> n \<Longrightarrow> (\<And>t. P t \<Longrightarrow> t \<noteq> T_EOF) \<Longrightarrow> steps P k 1 any (paren_expression K ptp)"
  unfolding paren_expression_def
  by (intro feed_scan fed_intros) auto

lemma sizeof_expression:
  "4 * k \<le> n \<Longrightarrow> (\<And>t. P t \<Longrightarrow> t \<noteq> T_EOF) \<Longrightarrow> steps P k 1 any (sizeof_expression K)"
  unfolding sizeof_expression_def
  by (intro feed_scan fed_intros) auto

lemma primary_ident:
  "4 * k \<le> n \<Longrightarrow> (\<And>t. P t \<Longrightarrow> t \<noteq> T_EOF) \<Longrightarrow> steps P k 1 any (primary_ident K)"
  unfolding primary_ident_def
  by (intro steps_rd steps_option steps_deref steps_die steps_stype feed_scan fed_intros) auto

lemma primary: "4 * k \<le> n \<Longrightarrow> steps any k 1 any (primary K ptp)"
  unfolding primary_def Let_def
  by (intro steps_cur steps_rd steps_if steps_die sizeof_expression primary_ident paren_expression
      feed_scan fed_intros
      steps_still [OF still_gen_small(6)] steps_still_thn [OF still_gen_small(7)] steps_still [OF still_types(1)]
      steps_loose_thn [OF steps_weaken [OF string_loop]]) auto

lemma postfix_loop: "4 * k \<le> n \<Longrightarrow> steps any k 0 any (postfix_loop K l)"
  unfolding postfix_loop_def
  by (intro steps_cur steps_if steps_ret feed array_access member_access post_incdec fed_intros) auto

lemma fed_postfix_loop [fed_intros]: "fed n (postfix_loop K l)"
  by (rule fedI) (simp add: postfix_loop)

lemma prefix: "4 * k \<le> n \<Longrightarrow> steps any k 1 any (prefix K ptp)"
  unfolding prefix_def postfix_def Let_def
  by (intro steps_cur steps_if feed_scan feed [OF steps_any [OF primary]] fed_intros) auto

lemma binexpr_loop: "4 * k \<le> n \<Longrightarrow> steps any k 0 any (binexpr_loop K ptp l)"
  unfolding binexpr_loop_def Let_def
  by (intro steps_cur steps_binds steps_if steps_ret feed_scan fed_intros) auto

lemma fed_binexpr_loop [fed_intros]: "fed n (binexpr_loop K ptp l)"
  by (rule fedI) (simp add: binexpr_loop)

lemma binexpr: "4 * k \<le> n \<Longrightarrow> steps any k 1 any (binexpr K ptp)"
  unfolding binexpr_def by (intro feed prefix fed_intros) auto

subsection \<open>Declarations\<close>

lemma exstatic_loop: "4 * k \<le> n \<Longrightarrow> steps any k 0 any (exstatic_loop K cl)"
  unfolding exstatic_loop_def
  by (intro steps_cur steps_if steps_ret steps_die feed_scan fed_intros) auto

lemma enum_loop: "4 * k \<le> n \<Longrightarrow> steps any k 1 any (enum_loop K v)"
  unfolding enum_loop_def Let_def
  by (intro feed_thn steps_matches fed_intros) auto

lemma fed_enum_loop [fed_intros]: "fed n (enum_loop K v)"
  by (intro fedI_strict enum_loop) simp

lemma enum_declaration:
  "4 * k \<le> n \<Longrightarrow> (\<And>t. P t \<Longrightarrow> t \<noteq> T_EOF) \<Longrightarrow> steps P k 1 any (enum_declaration K)"
  unfolding enum_declaration_def by (intro feed_scan fed_intros) auto

lemma typedef_declaration:
  "4 * k \<le> n \<Longrightarrow> (\<And>t. P t \<Longrightarrow> t \<noteq> T_EOF) \<Longrightarrow> steps P k 1 any (typedef_declaration K q)"
  unfolding typedef_declaration_def by (intro feed_scan fed_intros) auto

lemma type_of_typedef:
  "4 * k \<le> n \<Longrightarrow> (\<And>t. P t \<Longrightarrow> t \<noteq> T_EOF) \<Longrightarrow> steps P k 1 any (type_of_typedef nm)"
  unfolding type_of_typedef_def
  by (intro steps_rd steps_option steps_deref steps_die feed_scan fed_intros) auto

lemma member_loop: "4 * k + 2 \<le> n \<Longrightarrow> steps any k 1 any (member_loop K q)"
  unfolding member_loop_def by (intro feed first_call fed_intros) auto

lemma fed_member_loop [fed_intros]: "fed n (member_loop K q)"
  by (intro fedI_strict member_loop) simp

lemma composite_declaration:
  "4 * k \<le> n \<Longrightarrow> (\<And>t. P t \<Longrightarrow> t \<noteq> T_EOF) \<Longrightarrow> steps P k 1 any (composite_declaration K type)"
  unfolding composite_declaration_def by (intro feed_scan fed_intros) auto

lemma parse_type: "4 * k \<le> n \<Longrightarrow> steps any k 1 any (parse_type K q cl)"
  unfolding parse_type_def Let_def
  by (intro steps_loose [OF exstatic_loop] steps_Token steps_rd steps_if steps_die feed feed_thn feed_scan
      composite_declaration enum_declaration typedef_declaration type_of_typedef fed_intros) auto

lemma parse_literal: "4 * k + 1 \<le> n \<Longrightarrow> steps any k 1 any (parse_literal K type)"
  unfolding parse_literal_def Let_def by (intro feed first_call fed_intros) auto

lemma fed_parse_literal [fed_intros]: "fed n (parse_literal K type)"
  by (intro fedI_strict parse_literal) simp

lemma fed_scalar_declaration [fed_intros]: "fed n (scalar_declaration K v type q cl)"
  unfolding scalar_declaration_def local_init_def need_sym_def Let_def by (intro fed_intros) auto

lemma initlist_loop: "4 * k + 1 \<le> n \<Longrightarrow> steps any k 1 any (initlist_loop K type ne me vs)"
  unfolding initlist_loop_def Let_def
  by (intro steps_if steps_die feed parse_literal fed_intros) auto

lemma fed_initlist_loop [fed_intros]: "fed n (initlist_loop K type ne me vs)"
  by (intro fedI_strict initlist_loop) simp

lemma fed_array_declaration [fed_intros]: "fed n (array_declaration K v type q cl)"
  unfolding array_declaration_def array_initlist_def need_sym_def Let_def by (intro fed_intros) auto

lemma param_one: "4 * k + 2 \<le> n \<Longrightarrow> steps P k 1 any (param_one K q ps q' c)"
  unfolding param_one_def by (intro feed first_call fed_intros) auto

lemma param_loop: "4 * k + 2 \<le> n \<Longrightarrow> steps any k 0 any (param_loop K q ps q' c)"
  unfolding param_loop_def
  by (intro steps_cur steps_if steps_ret steps_loose_thn [OF steps_peek] steps_rd feed_scan
      steps_any0 [OF param_one] fed_intros) auto

lemma fed_param_loop [fed_intros]: "fed n (param_loop K q ps q' c)"
  by (rule fedI) (simp add: param_loop)

lemma fed_function_declaration [fed_intros]: "fed n (function_declaration K v type q cl)"
  unfolding function_declaration_def function_body_def param_declaration_list_def Let_def
  by (intro fed_intros) auto

lemma symbol_declaration: "4 * k \<le> n \<Longrightarrow> steps any k 1 any (symbol_declaration K type q cl)"
  unfolding symbol_declaration_def by (intro steps_rd feed_thn steps_matches fed_intros) auto

lemma symbol_loop: "4 * k \<le> n \<Longrightarrow> steps any k 1 any (symbol_loop K type q cl et et' l)"
  unfolding symbol_loop_def Let_def
  by (intro steps_loose [OF parse_stars] feed [OF symbol_declaration] fed_intros) auto

lemma fed_symbol_loop [fed_intros]: "fed n (symbol_loop K type q cl et et' l)"
  by (intro fedI_strict symbol_loop) simp

lemma declaration_list: "4 * k + 1 \<le> n \<Longrightarrow> steps any k 1 any (declaration_list K q cl et et')"
  unfolding declaration_list_def by (intro feed first_call fed_intros) auto

lemma global_loop: "4 * k + 2 \<le> n \<Longrightarrow> steps any k 0 any (global_loop K q)"
  unfolding global_loop_def
  by (intro steps_cur steps_if steps_ret feed first_call fed_intros) auto

subsection \<open>Statements\<close>

lemma fed_in_loop [fed_intros]: "fed n m \<Longrightarrow> fed n (in_loop m)"
  unfolding in_loop_def by (intro fed_intros) auto

lemma if_statement: "4 * k \<le> n \<Longrightarrow> steps any k 1 any (if_statement K)"
  unfolding if_statement_def by (intro feed_thn steps_match fed_intros) auto

lemma while_statement: "4 * k \<le> n \<Longrightarrow> steps any k 1 any (while_statement K)"
  unfolding while_statement_def by (intro feed_thn steps_match fed_intros) auto

lemma for_statement: "4 * k \<le> n \<Longrightarrow> steps any k 1 any (for_statement K)"
  unfolding for_statement_def Let_def by (intro feed_thn steps_match fed_intros) auto

lemma return_statement: "4 * k \<le> n \<Longrightarrow> steps any k 1 any (return_statement K)"
  unfolding return_statement_def by (intro feed_thn steps_match fed_intros) auto

lemma break_statement:
  "4 * k \<le> n \<Longrightarrow> (\<And>t. P t \<Longrightarrow> t \<noteq> T_EOF) \<Longrightarrow> steps P k 1 any break_statement"
  unfolding break_statement_def by (intro steps_rd steps_if steps_die feed_scan fed_intros) auto

lemma continue_statement:
  "4 * k \<le> n \<Longrightarrow> (\<And>t. P t \<Longrightarrow> t \<noteq> T_EOF) \<Longrightarrow> steps P k 1 any continue_statement"
  unfolding continue_statement_def by (intro steps_rd steps_if steps_die feed_scan fed_intros) auto

lemma fed_case_label [fed_intros]: "fed n (case_label K l v)"
  unfolding case_label_def by (intro fed_intros)

lemma case_label:
  "4 * k \<le> n \<Longrightarrow> (\<And>t. P t \<Longrightarrow> t \<noteq> T_EOF) \<Longrightarrow> steps P k 1 any (case_label K l v)"
  unfolding case_label_def
  by (intro steps_rd steps_if feed_scan fed_intros)
     (auto intro!: steps_strict_thn [OF steps_scan_tok] steps_ret)

lemma switch_loop: "4 * k \<le> n \<Longrightarrow> steps any k 0 any (switch_loop K l c b v)"
  unfolding switch_loop_def Let_def
  by (intro steps_Token steps_if steps_ret steps_die feed case_label fed_intros) auto

lemma fed_switch_loop [fed_intros]: "fed n (switch_loop K l c b v)"
  by (intro fedI switch_loop) simp

lemma switch_statement:
  "4 * k \<le> n \<Longrightarrow> (\<And>t. P t \<Longrightarrow> t \<noteq> T_EOF) \<Longrightarrow> steps P k 1 any (switch_statement K)"
  unfolding switch_statement_def Let_def by (intro feed_scan fed_intros) auto

lemma expression_statement: "4 * k < n \<Longrightarrow> steps P k 1 any (expression_statement K lno)"
  unfolding expression_statement_def by (intro feed first_call fed_intros) auto

lemma single_statement: "4 * k + 2 \<le> n \<Longrightarrow> steps any k 1 any (single_statement K)"
  unfolding single_statement_def Let_def
  by (intro steps_rd steps_cur steps_if feed_thn steps_matches feed first_call expression_statement
      steps_any [OF if_statement] steps_any [OF while_statement] steps_any [OF for_statement]
      steps_any [OF return_statement] break_statement continue_statement switch_statement fed_intros) auto

lemma compound_loop: "4 * k + 3 \<le> n \<Longrightarrow> steps any k 0 any (compound_loop K b l)"
  unfolding compound_loop_def
  by (intro steps_cur steps_if steps_ret feed first_call fed_intros) auto

text \<open>One level of calls on top.\<close>

lemma callees_all: "callees (all_calls K) (Suc n)"
  by unfold_locales
     (simp_all add: all_calls_def less_Suc_eq_le binexpr binexpr_loop prefix postfix_loop expression_loop
        string_loop exstatic_loop parse_stars parse_type param_loop declaration_list single_statement
        compound_loop switch_loop global_loop steps_any0 [OF enum_loop] steps_any0 [OF initlist_loop]
        steps_any0 [OF symbol_loop] steps_any0 [OF member_loop] del: One_nat_def)

end

section \<open>The parser and the compiler\<close>

lemma callees_none: "callees no_calls 0"
  by unfold_locales simp_all

lemma callees_tie: "callees (tie n) n"
  by (induction n) (simp_all add: callees_none callees.callees_all)

interpretation tied: callees "tie n" n for n
  by (rule callees_tie)

lemma steps_global_declarations: "4 * k + 2 \<le> n \<Longrightarrow> steps any k 0 any (global_declarations n)"
  unfolding global_declarations_def by (rule tied.global_loop)

lemma steps_forget_peek:
  assumes "steps P k d Q g"
  shows "steps P k d Q (wr (\<lambda>s. s\<lparr>Peektoken := (Peektoken s)\<lparr>token := T_EOF\<rparr>\<rparr>) g)"
    (is "steps P k d Q (wr ?f g)")
proof -
  have f: "tokens_left (?f s) \<le> tokens_left s" "cur (?f s) = cur s" for s
    by (simp_all add: tokens_left_def wt_def peeked_def at_token_def)
  show ?thesis
  proof (rule stepsI)
    fix s e assume a: "P (cur s)" "tokens_left s \<le> k" and "wr ?f g s = Inl e"
    then have r: "g (?f s) = Inl e" by simp
    show "e \<noteq> OutOfFuel" by (rule stepsD(1) [OF assms _ _ r]) (use a f [of s] in auto)
  next
    fix s x s' assume a: "P (cur s)" "tokens_left s \<le> k" and "wr ?f g s = Inr (x, s')"
    then have r: "g (?f s) = Inr (x, s')" by simp
    have "tokens_left s' + d \<le> tokens_left (?f s) \<and> Q (cur s')"
      by (rule stepsD(2) [OF assms _ _ r]) (use a f [of s] in auto)
    then show "tokens_left s' + d \<le> tokens_left s \<and> Q (cur s')" using f(1) [of s] by linarith
  qed
qed

lemma compile_text_fuel: "compile_text filename text s \<noteq> Inl OutOfFuel"
proof
  let ?k = "2 * length text + 4"
  let ?s = "reset_state filename text s"
  let ?m = "thn scan_tok (wr (\<lambda>s. s\<lparr>Peektoken := (Peektoken s)\<lparr>token := T_EOF\<rparr>\<rparr>) (
     thn (genpreamble filename) (
     thn (global_declarations (calls_for text)) (
     thn genpostamble (modify freestaticsyms)))))"
  assume "compile_text filename text s = Inl OutOfFuel"
  then have r: "?m ?s = Inl OutOfFuel" by (simp add: compile_text_def compile_with_def)
  have body: "steps any ?k 0 any ?m"
    by (intro steps_loose_thn [OF steps_scan_loose] steps_forget_peek steps_still_thn still_gen_small
          steps_loose_thn [OF steps_global_declarations] steps_end still_modify)
       (simp_all add: calls_for_def)
  have "tokens_left ?s \<le> ?k"
    by (simp add: tokens_left_def wt_def peeked_def at_token_def reset_state_def clear_symtable_def)
  from stepsD(1) [OF body TrueI this r] show False by simp
qed

end
