(* ===== verification/Fuel.thy ===== *)
theory Fuel
  imports Progress
begin

text \<open>
  More calls give the same result: \<open>m \<sqsubseteq> m'\<close> is written \<open>below m m'\<close>.
\<close>

definition below :: "'a gcomp \<Rightarrow> 'a gcomp \<Rightarrow> bool" where
  "below m m' \<longleftrightarrow> (\<forall>s. m s = Inl OutOfFuel \<or> m' s = m s)"

named_theorems below_intros \<open>monotonicity of the constructs of a computation\<close>

lemma below_refl [below_intros]: "below m m"
  by (simp add: below_def)

lemma below_fuel [simp]: "below (err OutOfFuel) m"
  by (simp add: below_def)

lemma belowD: "below m m' \<Longrightarrow> m s \<noteq> Inl OutOfFuel \<Longrightarrow> m' s = m s"
  unfolding below_def by blast

lemma below_bnd [below_intros]:
  assumes m: "below m m'" and f: "\<And>x. below (f x) (f' x)"
  shows "below (bnd m f) (bnd m' f')"
  unfolding below_def
proof
  fix s
  show "bnd m f s = Inl OutOfFuel \<or> bnd m' f' s = bnd m f s"
  proof (cases "m s")
    case (Inl e)
    then show ?thesis using belowD [OF m, of s] by (cases "e = OutOfFuel") (simp_all add: bnd_def)
  next
    case (Inr a)
    obtain x s1 where a: "a = (x, s1)" by (cases a)
    have "m' s = m s" using belowD [OF m, of s] Inr by simp
    then show ?thesis using Inr a f [of x] by (simp add: bnd_def below_def)
  qed
qed

lemma below_thn [below_intros]: "below m m' \<Longrightarrow> below k k' \<Longrightarrow> below (thn m k) (thn m' k')"
  unfolding thn_def by (rule below_bnd)

lemma below_rd [below_intros]: "(\<And>v. below (k v) (k' v)) \<Longrightarrow> below (rd f k) (rd f k')"
  by (simp add: below_def)

lemma below_wr [below_intros]: "below k k' \<Longrightarrow> below (wr f k) (wr f k')"
  by (simp add: below_def)

lemma below_if [below_intros]:
  "(b \<Longrightarrow> below m m') \<Longrightarrow> (\<not> b \<Longrightarrow> below k k') \<Longrightarrow> below (if b then m else k) (if b then m' else k')"
  by simp

lemma below_deref [below_intros]:
  "(\<And>e. below (k e) (k' e)) \<Longrightarrow> below (deref p k) (deref p k')"
  "(\<And>e. below (k e) (k' e)) \<Longrightarrow> below (deref_opt q k) (deref_opt q k')"
  "(\<And>e. below (h e) (h' e)) \<Longrightarrow> below (need_sym q h) (need_sym q h')"
  unfolding deref_def deref_opt_def need_sym_def
  by (intro below_rd below_if below_refl | simp add: below_refl below_rd split: option.split)+

lemma below_cases [below_intros]:
  "below m m' \<Longrightarrow> (\<And>x. below (g x) (g' x)) \<Longrightarrow>
     below (case v of None \<Rightarrow> m | Some x \<Rightarrow> g x) (case v of None \<Rightarrow> m' | Some x \<Rightarrow> g' x)"
  "(\<And>x y. below (h x y) (h' x y)) \<Longrightarrow> below (case p of (x, y) \<Rightarrow> h x y) (case p of (x, y) \<Rightarrow> h' x y)"
  "below m m' \<Longrightarrow> (\<And>x y. below (l x y) (l' x y)) \<Longrightarrow>
     below (case q of [] \<Rightarrow> m | x # y \<Rightarrow> l x y) (case q of [] \<Rightarrow> m' | x # y \<Rightarrow> l' x y)"
  "below a a' \<Longrightarrow> below b b' \<Longrightarrow> below c c' \<Longrightarrow>
     below (case w of S_VARIABLE \<Rightarrow> a | S_FUNCTION \<Rightarrow> b | S_ARRAY \<Rightarrow> c)
       (case w of S_VARIABLE \<Rightarrow> a' | S_FUNCTION \<Rightarrow> b' | S_ARRAY \<Rightarrow> c')"
  by (simp_all split: option.split prod.split list.split stype.split)

section \<open>The parser\<close>

text \<open>Records of calls, compared field by field.\<close>

locale calls_below =
  fixes K K' :: calls
  assumes k_below [below_intros]:
    "below (k_binexpr K ptp) (k_binexpr K' ptp)"
    "below (k_binexpr_loop K ptp l) (k_binexpr_loop K' ptp l)"
    "below (k_prefix K ptp) (k_prefix K' ptp)"
    "below (k_postfix_loop K l) (k_postfix_loop K' l)"
    "below (k_expression_loop K et l c) (k_expression_loop K' et l c)"
    "below (k_string_loop K) (k_string_loop K')"
    "below (k_exstatic_loop K cl) (k_exstatic_loop K' cl)"
    "below (k_stars_loop K t) (k_stars_loop K' t)"
    "below (k_parse_type K q cl) (k_parse_type K' q cl)"
    "below (k_initlist_loop K t ne me vs) (k_initlist_loop K' t ne me vs)"
    "below (k_param_loop K q ps q' c) (k_param_loop K' q ps q' c)"
    "below (k_member_loop K q) (k_member_loop K' q)"
    "below (k_enum_loop K v) (k_enum_loop K' v)"
    "below (k_declaration_list K q cl et et') (k_declaration_list K' q cl et et')"
    "below (k_symbol_loop K t q cl et et' l) (k_symbol_loop K' t q cl et et' l)"
    "below (k_single_statement K) (k_single_statement K')"
    "below (k_compound_loop K b l) (k_compound_loop K' b l)"
    "below (k_switch_loop K l c b v) (k_switch_loop K' l c b v)"
    "below (k_global_loop K q) (k_global_loop K' q)"
begin

lemma below_expressions [below_intros]:
  "below (expression_loop K et l c) (expression_loop K' et l c)"
  "below (expression_list K et) (expression_list K' et)"
  "below (funccall K) (funccall K')"
  "below (parse_stars K t) (parse_stars K' t)"
  "below (parse_cast K q) (parse_cast K' q)"
  "below (array_access K l) (array_access K' l)"
  "below (paren_expression K ptp) (paren_expression K' ptp)"
  "below (sizeof_expression K) (sizeof_expression K')"
  "below (primary_ident K) (primary_ident K')"
  "below (string_loop K) (string_loop K')"
  "below (primary K ptp) (primary K' ptp)"
  unfolding primary_def funccall_def paren_expression_def sizeof_expression_def primary_ident_def
    string_loop_def parse_cast_def parse_stars_def array_access_def expression_list_def
    expression_loop_def Let_def
  by (intro below_intros)+

lemma below_binary [below_intros]:
  "below (postfix_loop K l) (postfix_loop K' l)"
  "below (prefix K ptp) (prefix K' ptp)"
  "below (binexpr_loop K ptp l) (binexpr_loop K' ptp l)"
  "below (binexpr K ptp) (binexpr K' ptp)"
  unfolding postfix_loop_def prefix_def postfix_def binexpr_loop_def binexpr_def Let_def
  by (intro below_intros below_expressions)+

lemma below_declarations [below_intros]:
  "below (exstatic_loop K cl) (exstatic_loop K' cl)"
  "below (enum_loop K v) (enum_loop K' v)"
  "below (enum_declaration K) (enum_declaration K')"
  "below (typedef_declaration K q) (typedef_declaration K' q)"
  "below (member_loop K q) (member_loop K' q)"
  "below (composite_declaration K t) (composite_declaration K' t)"
  "below (parse_type K q cl) (parse_type K' q cl)"
  "below (parse_literal K t) (parse_literal K' t)"
  "below (initlist_loop K t ne me vs) (initlist_loop K' t ne me vs)"
  "below (param_loop K q ps q' c) (param_loop K' q ps q' c)"
  unfolding exstatic_loop_def enum_loop_def enum_declaration_def typedef_declaration_def
    member_loop_def composite_declaration_def parse_type_def parse_literal_def initlist_loop_def
    param_loop_def param_one_def Let_def
  by (intro below_intros)+

lemma below_symbols [below_intros]:
  "below (scalar_declaration K v t q cl) (scalar_declaration K' v t q cl)"
  "below (array_declaration K v t q cl) (array_declaration K' v t q cl)"
  "below (function_declaration K v t q cl) (function_declaration K' v t q cl)"
  "below (symbol_declaration K t q cl) (symbol_declaration K' t q cl)"
  "below (symbol_loop K t q cl et et' l) (symbol_loop K' t q cl et et' l)"
  "below (declaration_list K q cl et et') (declaration_list K' q cl et et')"
  "below (global_loop K q) (global_loop K' q)"
  unfolding scalar_declaration_def local_init_def array_declaration_def array_initlist_def
    function_declaration_def function_body_def param_declaration_list_def symbol_declaration_def
    symbol_loop_def declaration_list_def global_loop_def Let_def
  by (intro below_intros)+

lemma below_statements [below_intros]:
  "below (switch_loop K l c b v) (switch_loop K' l c b v)"
  "below (single_statement K) (single_statement K')"
  "below (compound_loop K b l) (compound_loop K' b l)"
  unfolding single_statement_def compound_loop_def switch_loop_def case_label_def if_statement_def
    while_statement_def for_statement_def in_loop_def return_statement_def switch_statement_def
    expression_statement_def Let_def
  by (intro below_intros)+

lemma calls_below_all: "calls_below (all_calls K) (all_calls K')"
  by unfold_locales (simp_all add: all_calls_def below_intros)

end

lemma calls_below_tie: "n \<le> m \<Longrightarrow> calls_below (tie n) (tie m)"
proof (induction n arbitrary: m)
  case 0
  show ?case by unfold_locales (simp_all add: no_calls_def)
next
  case (Suc n)
  then obtain k where "m = Suc k" "n \<le> k" by (cases m) auto
  then show ?case using calls_below.calls_below_all [OF Suc.IH] by simp
qed

interpretation more_calls: calls_below "tie n" "tie (n + k)" for n k
  by (rule calls_below_tie) simp

lemma below_global_declarations: "below (global_declarations n) (global_declarations (n + k))"
  unfolding global_declarations_def by (rule more_calls.below_symbols)

lemma below_compile_with: "below (compile_with n f t) (compile_with (n + k) f t)"
  unfolding compile_with_def by (intro below_intros below_global_declarations)

section \<open>Everything comes back\<close>


text \<open>
  C28: the code generator returns for every tree. \<^verbatim>\<open>genAST\<close> never runs out of the bound that the
  model takes from the size of the tree, whatever the labels and the parent operation, and it
  leaves the current token and the input of the scanner alone.
\<close>

theorem genAST_returns:
  "case genAST n iflabel looptop loopend parent s of
     Inl e \<Rightarrow> e \<noteq> OutOfFuel
   | Inr (r, s') \<Rightarrow> Token s' = Token s \<and> Peektoken s' = Peektoken s \<and> Infile s' = Infile s
       \<and> Putback s' = Putback s"
  using still_genAST [of n iflabel looptop loopend parent]
  unfolding still_def same_tokens_def by (auto dest!: spec [of _ s] split: sum.splits)


end
