(* ===== verification/LC3.thy ===== *)
theory LC3
  imports Main "HOL-Library.Word"
begin

unbundle bit_operations_syntax

text \<open>
  The LC-3 virtual machine, \<^verbatim>\<open>src/Virtual Machine/vm.c\<close>. The arrays \<^verbatim>\<open>memory\<close> and \<^verbatim>\<open>reg\<close> are
  functions from their 16-bit indices; every \<^verbatim>\<open>uint16_t\<close> is a word of 16 bits, and a C
  \<^verbatim>\<open>int\<close> result that is assigned to one is cut to it. A \<^verbatim>\<open>char\<close> is signed.

  The terminal is part of the state: \<open>polls\<close> are the answers of the coming calls of \<^verbatim>\<open>select\<close>
  (once they are used up the input is at its end, which \<^verbatim>\<open>select\<close> reports as readable), \<open>keys\<close>
  the bytes that \<^verbatim>\<open>getchar\<close> will read, and \<open>screen\<close> the bytes that were written. Setting up the
  terminal and the handler of the interrupt signal are not modelled.
\<close>

type_synonym half = "16 word"
type_synonym byte = "8 word"

section \<open>State\<close>

definition R_R0 :: half where "R_R0 = 0"
definition R_R7 :: half where "R_R7 = 7"
definition R_PC :: half where "R_PC = 8"
definition R_COND :: half where "R_COND = 9"

definition FL_POS :: half where "FL_POS = push_bit 0 1"
definition FL_ZRO :: half where "FL_ZRO = push_bit 1 1"
definition FL_NEG :: half where "FL_NEG = push_bit 2 1"

definition MR_KBSR :: half where "MR_KBSR = 0xFE00"
definition MR_KBDR :: half where "MR_KBDR = 0xFE02"

definition MEMORY_MAX :: nat where "MEMORY_MAX = 2 ^ 16"

definition PC_START :: half where "PC_START = 0x3000"

record vm =
  memory :: "half \<Rightarrow> half"
  reg :: "half \<Rightarrow> half"
  polls :: "bool list"
  keys :: "byte list"
  screen :: "byte list"

text \<open>The globals of a C program start as zero.\<close>

definition vm_init :: "bool list \<Rightarrow> byte list \<Rightarrow> vm" where
  "vm_init ps ks = \<lparr>memory = \<lambda>a. 0, reg = \<lambda>r. 0, polls = ps, keys = ks, screen = []\<rparr>"

definition vm_set :: "half \<Rightarrow> half \<Rightarrow> vm \<Rightarrow> vm" where
  "vm_set r v s = s\<lparr>reg := (reg s)(r := v)\<rparr>"

section \<open>Terminal\<close>

definition eof :: int where "eof = -1"

definition check_key :: "vm \<Rightarrow> bool \<times> vm" where
  "check_key s = (case polls s of [] \<Rightarrow> (True, s) | p # ps \<Rightarrow> (p, s\<lparr>polls := ps\<rparr>))"

definition getchar :: "vm \<Rightarrow> int \<times> vm" where
  "getchar s = (case keys s of [] \<Rightarrow> (eof, s) | k # ks \<Rightarrow> (uint k, s\<lparr>keys := ks\<rparr>))"

definition putc :: "byte \<Rightarrow> vm \<Rightarrow> vm" where
  "putc c s = s\<lparr>screen := screen s @ [c]\<rparr>"

definition bytes_of :: "string \<Rightarrow> byte list" where
  "bytes_of t = map of_char t"

definition printf :: "string \<Rightarrow> vm \<Rightarrow> vm" where
  "printf t s = s\<lparr>screen := screen s @ bytes_of t\<rparr>"

section \<open>Helpers\<close>

definition sign_extend :: "half \<Rightarrow> nat \<Rightarrow> half" where
  "sign_extend x bit_count =
     (if drop_bit (bit_count - 1) x AND 1 \<noteq> 0 then x OR push_bit bit_count 0xFFFF else x)"

definition swap16 :: "half \<Rightarrow> half" where
  "swap16 x = push_bit 8 x OR drop_bit 8 x"

definition update_flags :: "half \<Rightarrow> vm \<Rightarrow> vm" where
  "update_flags r s =
     (if reg s r = 0 then vm_set R_COND FL_ZRO s
      else if drop_bit 15 (reg s r) \<noteq> 0 then vm_set R_COND FL_NEG s
      else vm_set R_COND FL_POS s)"

section \<open>Images\<close>

text \<open>The words that a little-endian machine reads from the bytes of a file; an odd byte is not an item.\<close>

fun words_of :: "byte list \<Rightarrow> half list" where
  "words_of (lo # hi # bs) = (ucast lo OR push_bit 8 (ucast hi)) # words_of bs"
| "words_of bs = []"

text \<open>\<^verbatim>\<open>fread\<close> of at most \<open>n\<close> words: those read, one after the other, from an address on.\<close>

primrec store_words :: "half list \<Rightarrow> half \<Rightarrow> (half \<Rightarrow> half) \<Rightarrow> half \<Rightarrow> half" where
  "store_words [] p m = m"
| "store_words (w # ws) p m = store_words ws (p + 1) (m(p := w))"

primrec swap_loop :: "nat \<Rightarrow> half \<Rightarrow> (half \<Rightarrow> half) \<Rightarrow> half \<Rightarrow> half" where
  "swap_loop 0 p m = m"
| "swap_loop (Suc read) p m = swap_loop read (p + 1) (m(p := swap16 (m p)))"

text \<open>
  A file of fewer than two bytes leaves \<^verbatim>\<open>origin\<close> uninitialised: there is no result then.
\<close>

definition read_image_file :: "byte list \<Rightarrow> (half \<Rightarrow> half) \<Rightarrow> (half \<Rightarrow> half) option" where
  "read_image_file file m =
     (case words_of (take 2 file) of
        [] \<Rightarrow> None
      | origin # _ \<Rightarrow>
          let origin = swap16 origin;
              max_read = word_of_nat (MEMORY_MAX - unat origin) :: half;
              ws = take (unat max_read) (words_of (drop 2 file));
              m = store_words ws origin m
          in Some (swap_loop (length ws) origin m))"

section \<open>Memory\<close>

definition mem_write :: "half \<Rightarrow> half \<Rightarrow> vm \<Rightarrow> vm" where
  "mem_write address val s = s\<lparr>memory := (memory s)(address := val)\<rparr>"

definition mem_read :: "half \<Rightarrow> vm \<Rightarrow> half \<times> vm" where
  "mem_read address s =
     (let s = (if address = MR_KBSR then
                 (case check_key s of
                    (True, s) \<Rightarrow>
                      let s = mem_write MR_KBSR (push_bit 15 1) s;
                          (c, s) = getchar s
                      in mem_write MR_KBDR (word_of_int c) s
                  | (False, s) \<Rightarrow> mem_write MR_KBSR 0 s)
               else s)
      in (memory s address, s))"

section \<open>Instructions\<close>

datatype outcome =
    Running vm
  | Halted vm           \<comment> \<open>\<^verbatim>\<open>TRAP_HALT\<close>\<close>
  | Aborted vm          \<comment> \<open>\<^verbatim>\<open>abort()\<close>\<close>
  | Outside vm          \<comment> \<open>a string that runs over the end of \<^verbatim>\<open>memory\<close>\<close>

text \<open>The fields of an instruction.\<close>

definition dr :: "half \<Rightarrow> half" where "dr instr = drop_bit 9 instr AND 0x7"
definition sr1 :: "half \<Rightarrow> half" where "sr1 instr = drop_bit 6 instr AND 0x7"
definition sr2 :: "half \<Rightarrow> half" where "sr2 instr = instr AND 0x7"
definition imm_flag :: "half \<Rightarrow> half" where "imm_flag instr = drop_bit 5 instr AND 0x1"
definition imm5 :: "half \<Rightarrow> half" where "imm5 instr = sign_extend (instr AND 0x1F) 5"
definition offset6 :: "half \<Rightarrow> half" where "offset6 instr = sign_extend (instr AND 0x3F) 6"
definition pc_offset9 :: "half \<Rightarrow> half" where "pc_offset9 instr = sign_extend (instr AND 0x1FF) 9"
definition pc_offset11 :: "half \<Rightarrow> half" where "pc_offset11 instr = sign_extend (instr AND 0x7FF) 11"

text \<open>The second operand of \<^verbatim>\<open>ADD\<close> and \<^verbatim>\<open>AND\<close>.\<close>

definition operand2 :: "half \<Rightarrow> vm \<Rightarrow> half" where
  "operand2 instr s = (if imm_flag instr \<noteq> 0 then imm5 instr else reg s (sr2 instr))"

definition op_add :: "half \<Rightarrow> vm \<Rightarrow> vm" where
  "op_add instr s =
     update_flags (dr instr) (vm_set (dr instr) (reg s (sr1 instr) + operand2 instr s) s)"

definition op_and :: "half \<Rightarrow> vm \<Rightarrow> vm" where
  "op_and instr s =
     update_flags (dr instr) (vm_set (dr instr) (reg s (sr1 instr) AND operand2 instr s) s)"

definition op_not :: "half \<Rightarrow> vm \<Rightarrow> vm" where
  "op_not instr s =
     update_flags (dr instr) (vm_set (dr instr) (NOT (reg s (sr1 instr))) s)"

definition op_br :: "half \<Rightarrow> vm \<Rightarrow> vm" where
  "op_br instr s =
     (if dr instr AND reg s R_COND \<noteq> 0 then vm_set R_PC (reg s R_PC + pc_offset9 instr) s else s)"

definition op_jmp :: "half \<Rightarrow> vm \<Rightarrow> vm" where
  "op_jmp instr s = vm_set R_PC (reg s (sr1 instr)) s"

definition op_jsr :: "half \<Rightarrow> vm \<Rightarrow> vm" where
  "op_jsr instr s =
     (let s = vm_set R_R7 (reg s R_PC) s in
      if drop_bit 11 instr AND 1 \<noteq> 0 then vm_set R_PC (reg s R_PC + pc_offset11 instr) s
      else vm_set R_PC (reg s (sr1 instr)) s)"

definition op_ld :: "half \<Rightarrow> vm \<Rightarrow> vm" where
  "op_ld instr s =
     (let (v, s) = mem_read (reg s R_PC + pc_offset9 instr) s
      in update_flags (dr instr) (vm_set (dr instr) v s))"

definition op_ldi :: "half \<Rightarrow> vm \<Rightarrow> vm" where
  "op_ldi instr s =
     (let (a, s) = mem_read (reg s R_PC + pc_offset9 instr) s;
          (v, s) = mem_read a s
      in update_flags (dr instr) (vm_set (dr instr) v s))"

definition op_ldr :: "half \<Rightarrow> vm \<Rightarrow> vm" where
  "op_ldr instr s =
     (let (v, s) = mem_read (reg s (sr1 instr) + offset6 instr) s
      in update_flags (dr instr) (vm_set (dr instr) v s))"

definition op_lea :: "half \<Rightarrow> vm \<Rightarrow> vm" where
  "op_lea instr s =
     update_flags (dr instr) (vm_set (dr instr) (reg s R_PC + pc_offset9 instr) s)"

definition op_st :: "half \<Rightarrow> vm \<Rightarrow> vm" where
  "op_st instr s = mem_write (reg s R_PC + pc_offset9 instr) (reg s (dr instr)) s"

definition op_sti :: "half \<Rightarrow> vm \<Rightarrow> vm" where
  "op_sti instr s =
     (let (a, s) = mem_read (reg s R_PC + pc_offset9 instr) s
      in mem_write a (reg s (dr instr)) s)"

definition op_str :: "half \<Rightarrow> vm \<Rightarrow> vm" where
  "op_str instr s = mem_write (reg s (sr1 instr) + offset6 instr) (reg s (dr instr)) s"

section \<open>Traps\<close>

text \<open>
  The loops over a string. The number is that of the words from the address to the end of
  \<^verbatim>\<open>memory\<close>; with none left the loop reads behind it.
\<close>

primrec puts_loop :: "nat \<Rightarrow> half \<Rightarrow> vm \<Rightarrow> outcome" where
  "puts_loop 0 c s = Outside s"
| "puts_loop (Suc n) c s =
     (if memory s c = 0 then Running s
      else puts_loop n (c + 1) (putc (ucast (memory s c)) s))"

primrec putsp_loop :: "nat \<Rightarrow> half \<Rightarrow> vm \<Rightarrow> outcome" where
  "putsp_loop 0 c s = Outside s"
| "putsp_loop (Suc n) c s =
     (if memory s c = 0 then Running s
      else
        let char1 = ucast (memory s c AND 0xFF) :: byte;
            s = putc char1 s;
            char2 = ucast (drop_bit 8 (memory s c)) :: byte;
            s = (if char2 \<noteq> 0 then putc char2 s else s)
        in putsp_loop n (c + 1) s)"

definition op_trap :: "half \<Rightarrow> vm \<Rightarrow> outcome" where
  "op_trap instr s =
     (let s = vm_set R_R7 (reg s R_PC) s;
          vect = instr AND 0xFF
      in
      if vect = 0x20 then
        let (c, s) = getchar s
        in Running (update_flags R_R0 (vm_set R_R0 (word_of_int c) s))
      else if vect = 0x21 then Running (putc (ucast (reg s R_R0)) s)
      else if vect = 0x22 then puts_loop (MEMORY_MAX - unat (reg s R_R0)) (reg s R_R0) s
      else if vect = 0x23 then
        let s = printf ''Enter a character: '' s;
            (i, s) = getchar s;
            c = word_of_int i :: byte;
            s = putc c s
        in Running (update_flags R_R0 (vm_set R_R0 (scast c) s))
      else if vect = 0x24 then putsp_loop (MEMORY_MAX - unat (reg s R_R0)) (reg s R_R0) s
      else if vect = 0x25 then Halted (printf (''HALT'' @ [CHR 0x0A]) s)
      else Running s)"

section \<open>The loop\<close>

definition dispatch :: "half \<Rightarrow> vm \<Rightarrow> outcome" where
  "dispatch instr s =
     (let opc = drop_bit 12 instr in
      if opc = 1 then Running (op_add instr s)
      else if opc = 5 then Running (op_and instr s)
      else if opc = 9 then Running (op_not instr s)
      else if opc = 0 then Running (op_br instr s)
      else if opc = 12 then Running (op_jmp instr s)
      else if opc = 4 then Running (op_jsr instr s)
      else if opc = 2 then Running (op_ld instr s)
      else if opc = 10 then Running (op_ldi instr s)
      else if opc = 6 then Running (op_ldr instr s)
      else if opc = 14 then Running (op_lea instr s)
      else if opc = 3 then Running (op_st instr s)
      else if opc = 11 then Running (op_sti instr s)
      else if opc = 7 then Running (op_str instr s)
      else if opc = 15 then op_trap instr s
      else Aborted s)"

text \<open>One round: fetch, with the program counter moved on before the memory is read, and dispatch.\<close>

definition fetch :: "vm \<Rightarrow> half \<times> vm" where
  "fetch s = mem_read (reg s R_PC) (vm_set R_PC (reg s R_PC + 1) s)"

definition step :: "vm \<Rightarrow> outcome" where
  "step s = (let (instr, s) = fetch s in dispatch instr s)"

text \<open>The loop may run for ever: \<open>run s\<close> is then \<open>None\<close>.\<close>

partial_function (option) run :: "vm \<Rightarrow> outcome option" where
  "run s = (case step s of Running s' \<Rightarrow> run s' | out \<Rightarrow> Some out)"

primrec run_steps :: "nat \<Rightarrow> vm \<Rightarrow> outcome" where
  "run_steps 0 s = Running s"
| "run_steps (Suc n) s = (case step s of Running s' \<Rightarrow> run_steps n s' | out \<Rightarrow> out)"

text \<open>
  \<^verbatim>\<open>main\<close>. The files that can be opened, by name; \<open>Inl\<close> is the status of an \<^verbatim>\<open>exit\<close> before the
  loop is entered, or \<open>None\<close> where an image is too short.
\<close>

primrec read_images ::
  "(string \<Rightarrow> byte list option) \<Rightarrow> string list \<Rightarrow> (half \<Rightarrow> half) \<Rightarrow> int option + (half \<Rightarrow> half)"
where
  "read_images fs [] m = Inr m"
| "read_images fs (f # files) m =
     (case fs f of
        None \<Rightarrow> Inl (Some 1)
      | Some bytes \<Rightarrow>
          (case read_image_file bytes m of
             None \<Rightarrow> Inl None
           | Some m' \<Rightarrow> read_images fs files m'))"

definition vm_start :: "(half \<Rightarrow> half) \<Rightarrow> vm \<Rightarrow> vm" where
  "vm_start m s = vm_set R_PC PC_START (vm_set R_COND FL_ZRO (s\<lparr>memory := m\<rparr>))"

definition vm_main ::
  "(string \<Rightarrow> byte list option) \<Rightarrow> string list \<Rightarrow> vm \<Rightarrow> (int option + vm)"
where
  "vm_main fs args s =
     (if args = [] then Inl (Some 2)
      else case read_images fs args (memory s) of
             Inl e \<Rightarrow> Inl e
           | Inr m \<Rightarrow> Inr (vm_start m s))"

section \<open>The machine as a transition system\<close>

inductive vm_step :: "vm \<Rightarrow> vm \<Rightarrow> bool" where
  running: "step s = Running s' \<Longrightarrow> vm_step s s'"

inductive reachable :: "vm \<Rightarrow> vm \<Rightarrow> bool" for s0 where
  start: "reachable s0 s0"
| round: "reachable s0 s \<Longrightarrow> vm_step s s' \<Longrightarrow> reachable s0 s'"

code_pred vm_step .

inductive_cases vm_stepE: "vm_step s s'"

end
