(* ===== verification/LC3Spec.thy ===== *)
theory LC3Spec
  imports LC3
begin

unbundle bit_operations_syntax

text \<open>
  The LC-3 as its manual has it: instructions as data, with registers of three bits and offsets
  of five, six, nine and eleven bits that are read as signed numbers; their encoding; and what
  each of them does. The machine of \<open>LC3\<close> implements it.
\<close>

section \<open>Instructions\<close>

type_synonym rname = "3 word"

datatype operand = Src rname | Imm "5 word"

datatype insn =
    I_ADD rname rname operand
  | I_AND rname rname operand
  | I_NOT rname rname
  | I_BR "3 word" "9 word"
  | I_JMP rname
  | I_JSR "11 word"
  | I_JSRR rname
  | I_LD rname "9 word"
  | I_LDI rname "9 word"
  | I_LDR rname rname "6 word"
  | I_LEA rname "9 word"
  | I_ST rname "9 word"
  | I_STI rname "9 word"
  | I_STR rname rname "6 word"
  | I_TRAP "8 word"

definition word12 :: "half \<Rightarrow> 12 word \<Rightarrow> half" where
  "word12 opc low = push_bit 12 opc OR ucast low"

definition word9 :: "half \<Rightarrow> rname \<Rightarrow> 9 word \<Rightarrow> half" where
  "word9 opc d low = push_bit 12 opc OR push_bit 9 (ucast d) OR ucast low"

definition word6 :: "half \<Rightarrow> rname \<Rightarrow> rname \<Rightarrow> 6 word \<Rightarrow> half" where
  "word6 opc d a low = push_bit 12 opc OR push_bit 9 (ucast d) OR push_bit 6 (ucast a) OR ucast low"

fun operand_bits :: "operand \<Rightarrow> 6 word" where
  "operand_bits (Src b) = ucast b"
| "operand_bits (Imm i) = push_bit 5 1 OR ucast i"

fun encode :: "insn \<Rightarrow> half" where
  "encode (I_ADD d a q) = word6 1 d a (operand_bits q)"
| "encode (I_AND d a q) = word6 5 d a (operand_bits q)"
| "encode (I_NOT d a) = word6 9 d a (mask 6)"
| "encode (I_BR nzp off) = word9 0 nzp off"
| "encode (I_JMP a) = word6 12 0 a 0"
| "encode (I_JSR off) = word12 4 (push_bit 11 1 OR ucast off)"
| "encode (I_JSRR a) = word6 4 0 a 0"
| "encode (I_LD d off) = word9 2 d off"
| "encode (I_LDI d off) = word9 10 d off"
| "encode (I_LDR d a off) = word6 6 d a off"
| "encode (I_LEA d off) = word9 14 d off"
| "encode (I_ST d off) = word9 3 d off"
| "encode (I_STI d off) = word9 11 d off"
| "encode (I_STR d a off) = word6 7 d a off"
| "encode (I_TRAP v) = word12 15 (ucast v)"

section \<open>Fields\<close>

named_theorems field_simps_lc3 \<open>the fields of an encoded instruction\<close>

lemma mask_numerals: "0x1 = (mask 1 :: half)" "0x7 = (mask 3 :: half)" "0x1F = (mask 5 :: half)"
  "0x3F = (mask 6 :: half)" "0xFF = (mask 8 :: half)" "0x1FF = (mask 9 :: half)"
  "0x7FF = (mask 11 :: half)" "0xFFFF = (mask 16 :: half)"
  by (simp_all add: mask_eq_exp_minus_1)

lemma opcode [field_simps_lc3]:
  "drop_bit 12 (word12 opc l) = take_bit 4 opc" "drop_bit 12 (word9 opc d m) = take_bit 4 opc"
  "drop_bit 12 (word6 opc d a n) = take_bit 4 opc"
  unfolding word12_def word9_def word6_def
  by (rule bit_word_eqI; auto simp: bit_simps dest: bit_imp_le_length)+

lemma dr_fields [field_simps_lc3]: "dr (word9 opc d m) = ucast d" "dr (word6 opc d a n) = ucast d"
  unfolding dr_def word9_def word6_def mask_numerals
  by (rule bit_word_eqI; auto simp: bit_simps dest: bit_imp_le_length)+

lemma sr1_field [field_simps_lc3]: "sr1 (word6 opc d a n) = ucast a"
  unfolding sr1_def word6_def mask_numerals
  by (rule bit_word_eqI; auto simp: bit_simps dest: bit_imp_le_length)+

lemma and_masks:
  "word6 opc d a n AND mask 6 = ucast n" "word9 opc d m AND mask 9 = ucast m"
  "word12 opc l AND mask 11 = ucast l AND mask 11" "word12 opc l AND mask 8 = ucast l AND mask 8"
  "word6 opc d a n AND mask 5 = ucast n AND mask 5" "word6 opc d a n AND mask 3 = ucast n AND mask 3"
  "drop_bit 5 (word6 opc d a n) AND mask 1 = drop_bit 5 (ucast n) AND mask 1"
  "drop_bit 11 (word12 opc l) AND mask 1 = drop_bit 11 (ucast l) AND mask 1"
  unfolding word12_def word9_def word6_def
  by (rule bit_word_eqI; auto simp: bit_simps dest: bit_imp_le_length)+

text \<open>\<^verbatim>\<open>sign_extend\<close> is the signed reading of a shorter word.\<close>

lemma and_one_nonzero: "drop_bit n x AND 1 \<noteq> 0 \<longleftrightarrow> bit x n" for x :: half
  by (simp add: and_one_eq mod_2_eq_odd bit_iff_odd_drop_bit)

lemma sign_extend_scast:
  fixes w :: "'a::len word"
  assumes "LENGTH('a) < 16"
  shows "sign_extend (ucast w) LENGTH('a) = scast w"
proof (rule bit_word_eqI)
  fix n assume n: "n < LENGTH(16)"
  have l: "0 < LENGTH('a)" by simp
  have c: "drop_bit (LENGTH('a) - 1) (ucast w :: half) AND 1 \<noteq> 0 \<longleftrightarrow> bit w (LENGTH('a) - 1)"
    unfolding and_one_nonzero using assms l by (simp add: bit_simps)
  show "bit (sign_extend (ucast w) LENGTH('a)) n = bit (scast w :: half) n"
  proof (cases "n < LENGTH('a)")
    case True
    then have "min (LENGTH('a) - 1) n = n" by simp
    then show ?thesis unfolding sign_extend_def c using True n by (auto simp: bit_simps)
  next
    case False
    then have "\<not> bit w n" "min (LENGTH('a) - 1) n = LENGTH('a) - 1"
      using bit_imp_le_length [of w n] by auto
    then show ?thesis unfolding sign_extend_def c mask_numerals(8) using False n by (auto simp: bit_simps)
  qed
qed

section \<open>Decoding\<close>

text \<open>
  Every word with an opcode other than 8 and 13 is an instruction; bits that an instruction does
  not use are ignored.
\<close>

definition decode :: "half \<Rightarrow> insn option" where
  "decode w =
     (let opc = drop_bit 12 w; d = ucast (drop_bit 9 w); a = ucast (drop_bit 6 w);
          q = (if bit w 5 then Imm (ucast w) else Src (ucast w))
      in
      if opc = 1 then Some (I_ADD d a q)
      else if opc = 5 then Some (I_AND d a q)
      else if opc = 9 then Some (I_NOT d a)
      else if opc = 0 then Some (I_BR d (ucast w))
      else if opc = 12 then Some (I_JMP a)
      else if opc = 4 then Some (if bit w 11 then I_JSR (ucast w) else I_JSRR a)
      else if opc = 2 then Some (I_LD d (ucast w))
      else if opc = 10 then Some (I_LDI d (ucast w))
      else if opc = 6 then Some (I_LDR d a (ucast w))
      else if opc = 14 then Some (I_LEA d (ucast w))
      else if opc = 3 then Some (I_ST d (ucast w))
      else if opc = 11 then Some (I_STI d (ucast w))
      else if opc = 7 then Some (I_STR d a (ucast w))
      else if opc = 15 then Some (I_TRAP (ucast w))
      else None)"

lemma ucast_fields:
  "ucast (drop_bit 9 (word9 opc d m)) = d" "ucast (word9 opc d m) = m"
  "ucast (drop_bit 9 (word6 opc d a n)) = d" "ucast (drop_bit 6 (word6 opc d a n)) = a"
  "ucast (word6 opc d a n) = n" "ucast (word12 opc l) = l"
  unfolding word12_def word9_def word6_def
  by (rule bit_word_eqI; auto simp: bit_simps dest: bit_imp_le_length)+

lemma ucast_low_fields:
  "(ucast (word6 opc d a n) :: 5 word) = ucast n" "(ucast (word6 opc d a n) :: 3 word) = ucast n"
  "(ucast (word12 opc l) :: 11 word) = ucast l" "(ucast (word12 opc l) :: 8 word) = ucast l"
  "bit (word6 opc d a n) 5 \<longleftrightarrow> bit n 5" "bit (word12 opc l) 11 \<longleftrightarrow> bit l 11"
  unfolding word12_def word6_def
  by ((rule bit_word_eqI)?; auto simp: bit_simps dest: bit_imp_le_length)+

lemma low_of_flagged:
  "(ucast (push_bit 5 x OR ucast i :: 6 word) :: 5 word) = i"
  "(ucast (push_bit 11 y OR ucast off :: 12 word) :: 11 word) = off"
  by (rule bit_word_eqI; auto simp: bit_simps dest: bit_imp_le_length)+

lemma operand_fields:
  "bit (operand_bits q) 5 \<longleftrightarrow> (\<exists>i. q = Imm i)"
  "(ucast (operand_bits (Src b)) :: 3 word) = b" "(ucast (operand_bits (Imm i)) :: 5 word) = i"
  subgoal by (cases q) (auto simp: bit_simps dest: bit_imp_le_length)
  subgoal by (simp, rule bit_word_eqI) (auto simp: bit_simps dest: bit_imp_le_length)
  subgoal unfolding operand_bits.simps by (rule low_of_flagged)
  done

lemma jsr_fields:
  "bit (push_bit 11 1 OR ucast (off :: 11 word) :: 12 word) 11" "\<not> bit (word6 4 0 a 0) 11"
  subgoal by (simp add: bit_simps)
  subgoal by (auto simp: word6_def bit_simps dest: bit_imp_le_length)
  done

section \<open>What an instruction does\<close>

text \<open>A result is written together with the flag of its sign.\<close>

definition sign_flag :: "half \<Rightarrow> half" where
  "sign_flag v = (if v = 0 then FL_ZRO else if sint v < 0 then FL_NEG else FL_POS)"

definition write_result :: "rname \<Rightarrow> half \<Rightarrow> vm \<Rightarrow> vm" where
  "write_result d v s = s\<lparr>reg := (reg s)(ucast d := v, R_COND := sign_flag v)\<rparr>"

definition pc_plus :: "'a::len word \<Rightarrow> vm \<Rightarrow> half" where
  "pc_plus off s = reg s R_PC + scast off"

fun operand_value :: "operand \<Rightarrow> vm \<Rightarrow> half" where
  "operand_value (Src b) s = reg s (ucast b)"
| "operand_value (Imm i) s = scast i"

fun isa :: "insn \<Rightarrow> vm \<Rightarrow> outcome" where
  "isa (I_ADD d a q) s = Running (write_result d (reg s (ucast a) + operand_value q s) s)"
| "isa (I_AND d a q) s = Running (write_result d (reg s (ucast a) AND operand_value q s) s)"
| "isa (I_NOT d a) s = Running (write_result d (NOT (reg s (ucast a))) s)"
| "isa (I_BR nzp off) s =
     Running (if ucast nzp AND reg s R_COND \<noteq> 0 then vm_set R_PC (pc_plus off s) s else s)"
| "isa (I_JMP a) s = Running (vm_set R_PC (reg s (ucast a)) s)"
| "isa (I_JSR off) s = Running (vm_set R_PC (pc_plus off s) (vm_set R_R7 (reg s R_PC) s))"
| "isa (I_JSRR a) s =
     Running (let s = vm_set R_R7 (reg s R_PC) s in vm_set R_PC (reg s (ucast a)) s)"
| "isa (I_LD d off) s = (let (v, s) = mem_read (pc_plus off s) s in Running (write_result d v s))"
| "isa (I_LDI d off) s =
     (let (p, s) = mem_read (pc_plus off s) s; (v, s) = mem_read p s in Running (write_result d v s))"
| "isa (I_LDR d a off) s =
     (let (v, s) = mem_read (reg s (ucast a) + scast off) s in Running (write_result d v s))"
| "isa (I_LEA d off) s = Running (write_result d (pc_plus off s) s)"
| "isa (I_ST d off) s = Running (mem_write (pc_plus off s) (reg s (ucast d)) s)"
| "isa (I_STI d off) s =
     (let (p, s) = mem_read (pc_plus off s) s in Running (mem_write p (reg s (ucast d)) s))"
| "isa (I_STR d a off) s =
     Running (mem_write (reg s (ucast a) + scast off) (reg s (ucast d)) s)"
| "isa (I_TRAP v) s = op_trap (ucast v) s"

section \<open>The code implements it\<close>

lemma negative_bit: "drop_bit 15 v \<noteq> 0 \<longleftrightarrow> sint v < 0" for v :: half
proof -
  have "drop_bit 15 v \<noteq> 0 \<longleftrightarrow> bit v 15"
  proof
    assume "drop_bit 15 v \<noteq> 0"
    then obtain n where "bit (drop_bit 15 v) n" by (auto simp: bit_eq_iff)
    then have "bit v (15 + n)" by (simp add: bit_simps)
    moreover from this have "15 + n < 16" using bit_imp_le_length by fastforce
    ultimately show "bit v 15" by simp
  next
    assume "bit v 15"
    then have "bit (drop_bit 15 v) 0" by (simp add: bit_simps)
    then show "drop_bit 15 v \<noteq> 0" by auto
  qed
  then show ?thesis using bit_last_iff [of v] by simp
qed

lemma update_flags_result: "update_flags (ucast d) (vm_set (ucast d) v s) = write_result d v s"
  by (simp add: update_flags_def vm_set_def write_result_def sign_flag_def negative_bit)

lemma field_words:
  "dr w = ucast (ucast (drop_bit 9 w) :: 3 word)" "sr1 w = ucast (ucast (drop_bit 6 w) :: 3 word)"
  "sr2 w = ucast (ucast w :: 3 word)"
  "w AND mask 5 = ucast (ucast w :: 5 word)" "w AND mask 6 = ucast (ucast w :: 6 word)"
  "w AND mask 8 = ucast (ucast w :: 8 word)"
  "w AND mask 9 = ucast (ucast w :: 9 word)" "w AND mask 11 = ucast (ucast w :: 11 word)"
  unfolding dr_def sr1_def sr2_def mask_numerals
  by (rule bit_word_eqI; auto simp: bit_simps dest: bit_imp_le_length)+

lemma offset_words:
  "imm5 w = scast (ucast w :: 5 word)" "offset6 w = scast (ucast w :: 6 word)"
  "pc_offset9 w = scast (ucast w :: 9 word)" "pc_offset11 w = scast (ucast w :: 11 word)"
  unfolding imm5_def offset6_def pc_offset9_def pc_offset11_def mask_numerals field_words
  using sign_extend_scast [of "ucast w :: 5 word"] sign_extend_scast [of "ucast w :: 6 word"]
    sign_extend_scast [of "ucast w :: 9 word"] sign_extend_scast [of "ucast w :: 11 word"]
  by simp_all

lemma operand2_value:
  "operand2 w s = operand_value (if bit w 5 then Imm (ucast w) else Src (ucast w)) s"
proof -
  have "imm_flag w \<noteq> 0 \<longleftrightarrow> bit w 5" unfolding imm_flag_def by (rule and_one_nonzero)
  then show ?thesis by (simp add: operand2_def offset_words field_words)
qed

lemma op_trap_low_byte: "op_trap w s = op_trap (ucast (ucast w :: 8 word)) s"
proof -
  have "(ucast (ucast w :: 8 word) :: half) AND mask 8 = w AND mask 8"
    by (rule bit_word_eqI) (auto simp: bit_simps dest: bit_imp_le_length)
  then show ?thesis unfolding op_trap_def mask_numerals(5) by simp
qed

lemma vm_set_simps [simp]:
  "reg (vm_set r v s) q = (if q = r then v else reg s q)" "memory (vm_set r v s) = memory s"
  "polls (vm_set r v s) = polls s" "keys (vm_set r v s) = keys s" "screen (vm_set r v s) = screen s"
  by (simp_all add: vm_set_def)

lemma reg_names [simp]: "R_PC \<noteq> R_R7" "R_R7 \<noteq> R_PC" "R_R0 \<noteq> R_R7" "R_R0 \<noteq> R_COND" "R_R0 \<noteq> R_PC" "R_COND \<noteq> R_R7" "R_COND \<noteq> R_PC" "R_PC \<noteq> R_COND" "R_R7 \<noteq> R_COND"
  "R_COND \<noteq> ucast (d :: rname)" "R_PC \<noteq> ucast (d :: rname)"
proof -
  have "bit R_COND 3" "bit R_PC 3" "\<not> bit (ucast d :: half) 3"
    by (auto simp: R_COND_def R_PC_def bit_simps dest: bit_imp_le_length)
  then show "R_COND \<noteq> ucast d" "R_PC \<noteq> ucast d" by auto
qed (simp_all add: R_PC_def R_R7_def R_COND_def R_R0_def)

lemma jsr_flag: "drop_bit 11 w AND 1 \<noteq> 0 \<longleftrightarrow> bit w 11" for w :: half
  by (rule and_one_nonzero)

lemmas op_defs = op_add_def op_and_def op_not_def op_br_def op_jmp_def op_jsr_def op_ld_def op_ldi_def
  op_ldr_def op_lea_def op_st_def op_sti_def op_str_def

lemma dispatch_isa: "dispatch w s = (case decode w of None \<Rightarrow> Aborted s | Some i \<Rightarrow> isa i s)"
  unfolding dispatch_def decode_def Let_def
  by (simp add: op_defs jsr_flag offset_words field_words operand2_value update_flags_result pc_plus_def
        op_trap_low_byte [of w] Let_def split: prod.split)

lemma step_isa:
  "step s = (let (w, s') = fetch s in case decode w of None \<Rightarrow> Aborted s' | Some i \<Rightarrow> isa i s')"
  by (simp add: step_def dispatch_isa case_prod_beta)

lemma decode_encode_insn: "decode (encode i) = Some i"
proof (cases i)
  case (I_ADD d a q)
  then show ?thesis
    by (cases q) (simp_all add: decode_def Let_def opcode ucast_fields ucast_low_fields operand_fields
      del: operand_bits.simps)
next
  case (I_AND d a q)
  then show ?thesis
    by (cases q) (simp_all add: decode_def Let_def opcode ucast_fields ucast_low_fields operand_fields
      del: operand_bits.simps)
next
  case (I_JSR off)
  then show ?thesis
    using jsr_fields(1) [of off] low_of_flagged(2) [of 1 off]
    by (simp add: decode_def Let_def opcode ucast_low_fields)
next
  case (I_TRAP v)
  have "(ucast (ucast v :: 12 word) :: 8 word) = v"
    by (rule bit_word_eqI) (auto simp: bit_simps dest: bit_imp_le_length)
  then show ?thesis using I_TRAP by (simp add: decode_def Let_def opcode ucast_low_fields)
qed (simp_all add: decode_def Let_def opcode ucast_fields jsr_fields)

section \<open>What reading memory leaves alone\<close>

lemma mem_read_frame:
  assumes "mem_read a s = (v, s')"
  shows "reg s' = reg s" "screen s' = screen s" "b \<noteq> MR_KBSR \<Longrightarrow> b \<noteq> MR_KBDR \<Longrightarrow> memory s' b = memory s b"
    "v = memory s' a"
  using assms
  by (auto simp: mem_read_def Let_def check_key_def getchar_def mem_write_def
      split: if_splits list.splits bool.splits prod.splits)

lemma mem_read_plain: "a \<noteq> MR_KBSR \<Longrightarrow> mem_read a s = (memory s a, s)"
  by (simp add: mem_read_def)

lemma mem_write_simps [simp]:
  "reg (mem_write a v s) = reg s" "memory (mem_write a v s) = (memory s)(a := v)"
  by (simp_all add: mem_write_def)

text \<open>The state in which a round ends.\<close>

fun outcome_vm :: "outcome \<Rightarrow> vm" where
  "outcome_vm (Running s) = s"
| "outcome_vm (Halted s) = s"
| "outcome_vm (Aborted s) = s"
| "outcome_vm (Outside s) = s"

lemma putc_simps [simp]: "reg (putc c s) = reg s" "memory (putc c s) = memory s"
  "screen (putc c s) = screen s @ [c]"
  by (simp_all add: putc_def)

lemma loops_frame [simp]:
  "reg (outcome_vm (puts_loop n c s)) = reg s" "memory (outcome_vm (puts_loop n c s)) = memory s"
  "reg (outcome_vm (putsp_loop n c s)) = reg s" "memory (outcome_vm (putsp_loop n c s)) = memory s"
  by (induction n arbitrary: c s) (simp_all add: Let_def)

lemma getchar_frame [simp]:
  "reg (snd (getchar s)) = reg s" "memory (snd (getchar s)) = memory s"
  by (simp_all add: getchar_def split: list.split)

lemma printf_simps [simp]: "reg (printf t s) = reg s" "memory (printf t s) = memory s"
  by (simp_all add: printf_def)

lemma update_flags_other [simp]: "q \<noteq> R_COND \<Longrightarrow> reg (update_flags r s) q = reg s q"
  by (simp add: update_flags_def)

lemma update_flags_frame [simp]:
  "memory (update_flags r s) = memory s" "reg (update_flags r s) R_COND \<in> {FL_POS, FL_ZRO, FL_NEG}"
  by (simp_all add: update_flags_def)

lemma op_trap_frame: "memory (outcome_vm (op_trap w s)) = memory s"
  by (simp add: op_trap_def Let_def case_prod_beta)

section \<open>One condition flag\<close>

definition one_flag :: "vm \<Rightarrow> bool" where
  "one_flag s \<longleftrightarrow> reg s R_COND \<in> {FL_POS, FL_ZRO, FL_NEG}"

lemma one_flag_rules [simp]:
  "one_flag (write_result d v s)" "one_flag (update_flags r s)"
  "r \<noteq> R_COND \<Longrightarrow> one_flag (vm_set r v s) = one_flag s" "one_flag (mem_write a w s) = one_flag s"
  using update_flags_frame(2) [of r s]
  by (simp_all add: one_flag_def write_result_def sign_flag_def)

lemma one_flag_mem_read: "mem_read a s = (v, s') \<Longrightarrow> one_flag s' = one_flag s"
  using mem_read_frame(1) by (simp add: one_flag_def)

lemma one_flag_trap: "one_flag s \<Longrightarrow> one_flag (outcome_vm (op_trap w s))"
  using one_flag_rules(2) by (simp add: op_trap_def Let_def case_prod_beta one_flag_def)

lemma one_flag_isa: "one_flag s \<Longrightarrow> one_flag (outcome_vm (isa i s))"
  by (cases i) (auto simp: one_flag_trap Let_def dest: one_flag_mem_read split: prod.split)

section \<open>Strings\<close>

text \<open>The words \<open>ws\<close>, none of them 0, stand at an address and are followed by a 0.\<close>

fun string_at :: "(half \<Rightarrow> half) \<Rightarrow> half \<Rightarrow> half list \<Rightarrow> bool" where
  "string_at m p [] \<longleftrightarrow> m p = 0"
| "string_at m p (w # ws) \<longleftrightarrow> m p = w \<and> w \<noteq> 0 \<and> string_at m (p + 1) ws"

lemma puts_loop_string:
  "string_at (memory s) p ws \<Longrightarrow> length ws < n \<Longrightarrow>
     puts_loop n p s = Running (s\<lparr>screen := screen s @ map ucast ws\<rparr>)"
proof (induction ws arbitrary: n p s)
  case Nil
  then show ?case by (cases n) simp_all
next
  case (Cons w ws)
  then obtain k where "n = Suc k" "length ws < k" by (cases n) auto
  then show ?case using Cons.prems Cons.IH [of "putc (ucast w) s" "p + 1" k] by (simp add: putc_def)
qed

section \<open>Images\<close>

text \<open>An image file: the origin and the words of the program, high byte first.\<close>

definition be_bytes :: "half \<Rightarrow> byte list" where
  "be_bytes w = [ucast (drop_bit 8 w), ucast w]"

definition image_bytes :: "half \<Rightarrow> half list \<Rightarrow> byte list" where
  "image_bytes origin ws = concat (map be_bytes (origin # ws))"

lemma words_of_be_bytes: "words_of (be_bytes w @ bs) = swap16 w # words_of bs"
proof -
  have "ucast (ucast (drop_bit 8 w) :: byte) OR push_bit 8 (ucast (ucast w :: byte)) = swap16 w"
    unfolding swap16_def by (rule bit_word_eqI) (auto simp: bit_simps dest: bit_imp_le_length)
  then show ?thesis by (simp add: be_bytes_def)
qed

lemma words_of_image: "words_of (concat (map be_bytes ws)) = map swap16 ws"
  by (induction ws) (simp_all add: words_of_be_bytes)

lemma swap16_involution: "swap16 (swap16 w) = w"
  unfolding swap16_def by (rule bit_word_eqI) (auto simp: bit_simps dest: bit_imp_le_length)

lemma unat_max: "unat (- 1 :: half) = 65535"
  by (simp add: unsigned_minus_1_eq_mask mask_eq_exp_minus_1)

lemma unat_pred: "x \<noteq> 0 \<Longrightarrow> unat (x - 1) = unat x - 1" for x :: half
  by (simp add: unat_minus_one)

lemma store_words_value:
  "length ws \<le> 65536 \<Longrightarrow>
     store_words ws p m a = (if unat (a - p) < length ws then ws ! unat (a - p) else m a)"
proof (induction ws arbitrary: p m)
  case (Cons w ws)
  show ?case
  proof (cases "a = p")
    case True
    have "unat (a - (p + 1)) = 65535" using True unat_max by simp
    then show ?thesis using True Cons by simp
  next
    case False
    then have "a - p \<noteq> 0" by simp
    then have "unat (a - (p + 1)) = unat (a - p) - 1" "unat (a - p) \<noteq> 0"
      using unat_pred [of "a - p"] by (simp_all add: diff_diff_eq [symmetric] unat_eq_0)
    then show ?thesis using False Cons by (auto simp: nth_Cons split: nat.split)
  qed
qed simp

lemma swap_loop_value:
  "n \<le> 65536 \<Longrightarrow> swap_loop n p m a = (if unat (a - p) < n then swap16 (m a) else m a)"
proof (induction n arbitrary: p m)
  case (Suc n)
  show ?case
  proof (cases "a = p")
    case True
    have "unat (a - (p + 1)) = 65535" using True unat_max by simp
    then show ?thesis using True Suc by simp
  next
    case False
    then have "a - p \<noteq> 0" by simp
    then have "unat (a - (p + 1)) = unat (a - p) - 1" "unat (a - p) \<noteq> 0"
      using unat_pred [of "a - p"] by (simp_all add: diff_diff_eq [symmetric] unat_eq_0)
    then show ?thesis using False Suc by auto
  qed
qed simp

lemma read_image_file_bytes:
  "read_image_file (image_bytes origin ws) m =
     (let ws = take (unat (word_of_nat (65536 - unat origin) :: half)) (map swap16 ws)
      in Some (swap_loop (length ws) origin (store_words ws origin m)))"
proof -
  have "words_of (take 2 (image_bytes origin ws)) = [swap16 origin]"
    using words_of_be_bytes [of origin "[]"] by (simp add: image_bytes_def be_bytes_def)
  moreover have "words_of (drop 2 (image_bytes origin ws)) = map swap16 ws"
    using words_of_image by (simp add: image_bytes_def be_bytes_def [of origin])
  ultimately show ?thesis
    by (simp add: read_image_file_def Let_def swap16_involution MEMORY_MAX_def)
qed

section \<open>Runs\<close>

lemma run_run_steps: "run_steps n s = out \<Longrightarrow> (\<forall>s'. out \<noteq> Running s') \<Longrightarrow> run s = Some out"
proof (induction n arbitrary: s)
  case (Suc n)
  then show ?case by (subst run.simps) (auto split: outcome.splits)
qed auto

lemma run_steps_one: "\<forall>s'. step s \<noteq> Running s' \<Longrightarrow> \<exists>n. run_steps n s = step s"
  by (rule exI [of _ "Suc 0"]) (cases "step s", simp_all)

lemma run_steps_run: "run s = Some out \<Longrightarrow> \<exists>n. run_steps n s = out \<and> (\<forall>s'. out \<noteq> Running s')"
proof (induction rule: run.raw_induct [rotated 1, consumes 1])
  case (1 f s out)
  show ?case
  proof (cases "\<exists>s'. step s = Running s'")
    case True
    then obtain s' where s': "step s = Running s'" by blast
    then obtain n where "run_steps n s' = out" "\<forall>s'. out \<noteq> Running s'"
      using 1(1) [of s' out] 1(2) by auto
    then show ?thesis using s' by (intro exI [of _ "Suc n"]) simp
  next
    case False
    then have "out = step s" using 1(2) by (cases "step s") simp_all
    then show ?thesis using False run_steps_one [of s] by auto
  qed
qed

lemma run_steps_Suc:
  "run_steps (Suc n) s = (case run_steps n s of Running s' \<Rightarrow> step s' | out \<Rightarrow> out)"
proof (induction n arbitrary: s)
  case 0
  show ?case by (cases "step s") simp_all
next
  case (Suc n)
  show ?case
  proof (cases "step s")
    case (Running s')
    then have "run_steps (Suc (Suc n)) s = run_steps (Suc n) s'" "run_steps (Suc n) s = run_steps n s'"
      by simp_all
    then show ?thesis using Suc.IH [of s'] by simp
  qed simp_all
qed

lemma reachable_run_steps: "reachable s0 s \<longleftrightarrow> (\<exists>n. run_steps n s0 = Running s)"
proof
  assume "reachable s0 s"
  then show "\<exists>n. run_steps n s0 = Running s"
  proof induction
    case start
    show ?case by (rule exI [of _ 0]) simp
  next
    case (round s s')
    then obtain n where "run_steps n s0 = Running s" by blast
    then have "run_steps (Suc n) s0 = Running s'"
      using round(2) unfolding run_steps_Suc by (auto elim: vm_stepE)
    then show ?case by blast
  qed
next
  assume "\<exists>n. run_steps n s0 = Running s"
  then obtain n where "run_steps n s0 = Running s" by blast
  then show "reachable s0 s"
  proof (induction n arbitrary: s)
    case 0
    then show ?case by (simp add: reachable.start)
  next
    case (Suc n)
    show ?case
    proof (cases "run_steps n s0")
      case (Running s1)
      have "run_steps (Suc n) s0 = step s1"
        by (simp only: run_steps_Suc Running outcome.case)
      then have "step s1 = Running s" using Suc.prems by (simp only:)
      then show ?thesis by (rule reachable.round [OF Suc.IH [OF Running] vm_step.running])
    qed (use Suc.prems run_steps_Suc [of n s0] in \<open>simp_all only: outcome.case outcome.distinct\<close>)
  qed
qed

end
