(* ===== verification/LC3Props.thy ===== *)
theory LC3Props
  imports LC3Spec
begin

unbundle bit_operations_syntax

text \<open>The properties of the LC-3 virtual machine.\<close>

section \<open>Decoding and execution\<close>

text \<open>
  C27: the loop of the virtual machine implements the instruction set: for every state, whatever
  word is fetched, one round does what the decoded instruction does in the specification, and
  aborts exactly for the two opcodes without an instruction.
\<close>

theorem step_implements_isa:
  "step s = (let (w, s') = fetch s in case decode w of None \<Rightarrow> Aborted s' | Some i \<Rightarrow> isa i s')"
  by (rule step_isa)

lemma fetch_plain:
  "reg s R_PC \<noteq> MR_KBSR \<Longrightarrow> fetch s = (memory s (reg s R_PC), vm_set R_PC (reg s R_PC + 1) s)"
  by (simp add: fetch_def mem_read_plain)

lemma step_encoded:
  assumes "memory s (reg s R_PC) = encode i" "reg s R_PC \<noteq> MR_KBSR"
  shows "step s = isa i (vm_set R_PC (reg s R_PC + 1) s)"
  using assms by (simp add: step_isa fetch_plain decode_encode_insn)

text \<open>
  C38: every instruction survives encoding and the decoding of the machine: where the program
  counter points to its encoding, one round does what the instruction is specified to do, with
  the registers and the signed offset it was written with.
\<close>

theorem encoded_instruction_runs:
  assumes "memory s (reg s R_PC) = encode i" "reg s R_PC \<noteq> MR_KBSR"
  shows "step s = isa i (vm_set R_PC (reg s R_PC + 1) s) \<and> decode (memory s (reg s R_PC)) = Some i"
  using step_encoded [OF assms] decode_encode_insn assms(1) by simp

definition store_example :: vm where
  "store_example = vm_set 0 7 ((vm_init [] [])\<lparr>memory := (\<lambda>a. 0)(0 := encode (I_ST 0 3))\<rparr>)"

lemma store_example_state:
  "reg store_example R_PC = 0" "reg store_example 0 = 7" "memory store_example 0 = encode (I_ST 0 3)"
  "memory store_example 4 = 0" "(0 :: half) \<noteq> MR_KBSR"
  by (simp_all add: store_example_def vm_init_def R_PC_def MR_KBSR_def del: encode.simps)

lemma encoded_instruction_runs_witness:
  "step store_example = isa (I_ST 0 3) (vm_set R_PC 1 store_example)"
proof -
  have "memory store_example (reg store_example R_PC) = encode (I_ST 0 3)"
    "reg store_example R_PC \<noteq> MR_KBSR"
    by (simp_all only: store_example_state not_False_eq_True)
  from encoded_instruction_runs [OF this] show ?thesis by (simp only: store_example_state add_0)
qed

lemma sint_scast: "LENGTH('a) \<le> 16 \<Longrightarrow> sint (scast v :: half) = sint v" for v :: "'a::len word"
  by (simp add: sint_up_scast is_up)

text \<open>The immediate operand and the offsets are the signed values of their five, six, nine and
  eleven bits: \<^verbatim>\<open>sign_extend\<close> keeps the value and so stays in the range of the short field.
\<close>

theorem offsets_are_signed:
  "sint (imm5 w) = sint (ucast w :: 5 word) \<and> sint (imm5 w) \<in> {-16 ..< 16} \<and>
   sint (offset6 w) = sint (ucast w :: 6 word) \<and> sint (offset6 w) \<in> {-32 ..< 32} \<and>
   sint (pc_offset9 w) = sint (ucast w :: 9 word) \<and> sint (pc_offset9 w) \<in> {-256 ..< 256} \<and>
   sint (pc_offset11 w) = sint (ucast w :: 11 word) \<and> sint (pc_offset11 w) \<in> {-1024 ..< 1024}"
  unfolding offset_words
  using sint_ge [of "ucast w :: 5 word"] sint_lt [of "ucast w :: 5 word"]
    sint_ge [of "ucast w :: 6 word"] sint_lt [of "ucast w :: 6 word"]
    sint_ge [of "ucast w :: 9 word"] sint_lt [of "ucast w :: 9 word"]
    sint_ge [of "ucast w :: 11 word"] sint_lt [of "ucast w :: 11 word"]
  by (simp add: sint_scast)

section \<open>Invariants\<close>

lemma one_flag_step: "one_flag s \<Longrightarrow> one_flag (outcome_vm (step s))"
  using one_flag_isa one_flag_mem_read
  by (auto simp: step_isa fetch_def Let_def split: option.split prod.split)

text \<open>
  C37: exactly one condition flag is set whenever the machine fetches an instruction: in every
  state that is reachable from the start, whatever the image and the input are.
\<close>

theorem one_condition_flag:
  assumes "reachable (vm_start m s0) s"
  shows "reg s R_COND \<in> {FL_POS, FL_ZRO, FL_NEG}"
  using assms
proof induction
  case start
  show ?case by (simp add: vm_start_def)
next
  case (round s s')
  then have "one_flag s" "step s = Running s'" by (auto simp: one_flag_def elim: vm_stepE)
  then show ?case using one_flag_step [of s] by (simp add: one_flag_def)
qed

lemma one_condition_flag_witness:
  "reg (vm_start (\<lambda>a. 0) (vm_init [] [])) R_COND \<in> {FL_POS, FL_ZRO, FL_NEG}"
  by (rule one_condition_flag [OF reachable.start])

text \<open>The address that an instruction stores to.\<close>

fun store_address :: "insn \<Rightarrow> vm \<Rightarrow> half option" where
  "store_address (I_ST d off) s = Some (pc_plus off s)"
| "store_address (I_STR d a off) s = Some (reg s (ucast a) + scast off)"
| "store_address (I_STI d off) s = Some (fst (mem_read (pc_plus off s) s))"
| "store_address i s = None"

lemma mem_read_snd [simp]:
  "reg (snd (mem_read p s)) = reg s"
  "b \<noteq> MR_KBSR \<Longrightarrow> b \<noteq> MR_KBDR \<Longrightarrow> memory (snd (mem_read p s)) b = memory s b"
  using mem_read_frame [of p s "fst (mem_read p s)" "snd (mem_read p s)"] by simp_all

lemma write_result_memory [simp]: "memory (write_result d v s) = memory s"
  by (simp add: write_result_def)

lemma isa_memory:
  assumes "memory (outcome_vm (isa i s)) a \<noteq> memory s a" "a \<notin> {MR_KBSR, MR_KBDR}"
  shows "store_address i s = Some a"
  using assms
  by (cases i) (simp_all add: op_trap_frame case_prod_beta Let_def split: if_splits)

text \<open>
  C35: memory is safe from every other instruction: if a round changes a cell that is no keyboard
  register, then the instruction it fetched is one of the three stores, and the cell the one
  that the store addresses.
\<close>

theorem only_stores_write:
  assumes "memory (outcome_vm (step s)) a \<noteq> memory s a" "a \<notin> {MR_KBSR, MR_KBDR}"
  shows "\<exists>i. decode (fst (fetch s)) = Some i \<and> store_address i (snd (fetch s)) = Some a"
proof -
  obtain w s' where f: "fetch s = (w, s')" by fastforce
  have "memory s' a = memory s a"
    using f assms(2) mem_read_frame(3) [of "reg s R_PC" "vm_set R_PC (reg s R_PC + 1) s" w s' a]
    by (simp add: fetch_def)
  then show ?thesis
    using assms f isa_memory [of _ s' a] by (cases "decode w") (auto simp: step_isa)
qed

lemma only_stores_write_witness:
  "\<exists>i. decode (fst (fetch store_example)) = Some i \<and> store_address i (snd (fetch store_example)) = Some 4"
proof -
  let ?s = "vm_set R_PC 1 store_example"
  have "memory store_example (reg store_example R_PC) = encode (I_ST 0 3)"
    "reg store_example R_PC \<noteq> MR_KBSR"
    by (simp_all only: store_example_state not_False_eq_True)
  from step_encoded [OF this] have "step store_example = isa (I_ST 0 3) ?s"
    by (simp only: store_example_state add_0)
  then have "memory (outcome_vm (step store_example)) 4 = 7"
    by (simp add: pc_plus_def store_example_state R_PC_def)
  then have "memory (outcome_vm (step store_example)) 4 \<noteq> memory store_example 4"
    "(4 :: half) \<notin> {MR_KBSR, MR_KBDR}"
    by (simp_all add: store_example_state MR_KBSR_def MR_KBDR_def)
  then show ?thesis by (rule only_stores_write)
qed

section \<open>Subroutines\<close>

text \<open>A subroutine call returns: \<^verbatim>\<open>JSR\<close> to an address where a \<^verbatim>\<open>RET\<close> (\<^verbatim>\<open>JMP R7\<close>) stands comes
  back to the instruction after the call in two rounds, with only the program counter and the
  return address in R7 changed.
\<close>

theorem call_returns:
  assumes "memory s (reg s R_PC) = encode (I_JSR off)" "reg s R_PC \<noteq> MR_KBSR"
    and "target = reg s R_PC + 1 + scast off" "memory s target = encode (I_JMP 7)" "target \<noteq> MR_KBSR"
  shows "run_steps 2 s =
    Running (s\<lparr>reg := (reg s)(R_PC := reg s R_PC + 1, R_R7 := reg s R_PC + 1)\<rparr>)"
proof -
  define s1 where "s1 = vm_set R_PC target (vm_set R_R7 (reg s R_PC + 1) (vm_set R_PC (reg s R_PC + 1) s))"
  have r7: "(ucast (7 :: rname) :: half) = R_R7" by (simp add: R_R7_def)
  have 1: "step s = Running s1"
    using step_encoded [OF assms(1,2)] assms(3) by (simp add: pc_plus_def s1_def)
  have s1: "reg s1 R_PC = target" "memory s1 = memory s" "reg s1 R_R7 = reg s R_PC + 1"
    by (simp_all add: s1_def)
  have 2: "step s1 = Running (vm_set R_PC (reg s R_PC + 1) (vm_set R_PC (target + 1) s1))"
    using step_encoded [of s1 "I_JMP 7"] assms(4,5) s1 r7 by simp
  have "run_steps 2 s = Running (vm_set R_PC (reg s R_PC + 1) (vm_set R_PC (target + 1) s1))"
    using 1 2 by (simp add: numeral_2_eq_2)
  also have "vm_set R_PC (reg s R_PC + 1) (vm_set R_PC (target + 1) s1) =
      s\<lparr>reg := (reg s)(R_PC := reg s R_PC + 1, R_R7 := reg s R_PC + 1)\<rparr>"
    by (simp add: vm_set_def s1_def fun_upd_twist)
  finally show ?thesis .
qed

definition call_example :: vm where
  "call_example =
     (vm_init [] [])\<lparr>memory := (\<lambda>a. 0)(0 := encode (I_JSR 4), 5 := encode (I_JMP 7))\<rparr>"

lemma call_example_state:
  "reg call_example R_PC = 0" "memory call_example 0 = encode (I_JSR 4)"
  "memory call_example 5 = encode (I_JMP 7)"
  by (simp_all add: call_example_def vm_init_def del: encode.simps)

lemma call_returns_witness:
  "run_steps 2 call_example =
     Running (call_example\<lparr>reg := (reg call_example)(R_PC := 1, R_R7 := 1)\<rparr>)"
proof -
  have "memory call_example (reg call_example R_PC) = encode (I_JSR 4)"
    by (simp only: call_example_state)
  moreover have "reg call_example R_PC \<noteq> MR_KBSR" "(5 :: half) \<noteq> MR_KBSR"
    "5 = reg call_example R_PC + 1 + scast (4 :: 11 word)"
    by (simp_all add: call_example_state(1) MR_KBSR_def)
  ultimately show ?thesis
    using call_returns [of call_example 4 5] unfolding call_example_state by (simp only: add_0 simp_thms)
qed

section \<open>Output\<close>

text \<open>
  \<^verbatim>\<open>PUTS\<close> prints the string that R0 points to: if words other than 0 followed by a 0 stand
  there and end inside memory, their low bytes are written in order, and the machine goes on.
\<close>

theorem puts_prints:
  assumes "string_at (memory s) (reg s R_R0) ws" "unat (reg s R_R0) + length ws < 65536"
  shows "op_trap 0x22 s =
    Running (vm_set R_R7 (reg s R_PC) s\<lparr>screen := screen s @ map ucast ws\<rparr>)"
proof -
  let ?s = "vm_set R_R7 (reg s R_PC) s"
  have r0: "reg ?s R_R0 = reg s R_R0" by (simp add: R_R0_def R_R7_def)
  have "puts_loop (MEMORY_MAX - unat (reg s R_R0)) (reg s R_R0) ?s =
      Running (?s\<lparr>screen := screen ?s @ map ucast ws\<rparr>)"
    by (rule puts_loop_string) (use assms in \<open>simp_all add: MEMORY_MAX_def\<close>)
  then show ?thesis using r0 by (simp add: op_trap_def)
qed

lemma puts_prints_witness:
  "op_trap 0x22 ((vm_init [] [])\<lparr>memory := (\<lambda>a. 0)(0 := 72, 1 := 105)\<rparr>) =
     Running (vm_set R_R7 0 ((vm_init [] [])\<lparr>memory := (\<lambda>a. 0)(0 := 72, 1 := 105)\<rparr>)
       \<lparr>screen := [72, 105]\<rparr>)"
  using puts_prints [of "(vm_init [] [])\<lparr>memory := (\<lambda>a. 0)(0 := 72, 1 := 105)\<rparr>" "[72, 105]"]
  by (simp add: vm_init_def)

text \<open>
  a key beyond ASCII is read in two ways: \<^verbatim>\<open>GETC\<close> gives its byte, \<^verbatim>\<open>IN\<close> goes through a signed
  \<^verbatim>\<open>char\<close> and gives a negative number with the same low byte.
\<close>

theorem getc_in_differ:
  assumes "keys s = k # ks" "sint k < 0"
  shows "reg (outcome_vm (op_trap 0x20 s)) R_R0 = ucast k \<and>
    reg (outcome_vm (op_trap 0x23 s)) R_R0 = scast k \<and> (ucast k :: half) \<noteq> scast k"
proof -
  have "bit (scast k :: half) 15" "\<not> bit (ucast k :: half) 15"
    using assms(2) bit_last_iff [of k] by (auto simp: bit_simps dest: bit_imp_le_length)
  then have "(ucast k :: half) \<noteq> scast k" by auto
  moreover have "(word_of_int (uint k) :: half) = ucast k" "word_of_int (uint k) = k"
    by (simp_all add: unsigned_ucast_eq)
  ultimately show ?thesis
    using assms(1) by (simp add: op_trap_def getchar_def printf_def putc_def Let_def)
qed

lemma getc_in_differ_witness:
  "reg (outcome_vm (op_trap 0x20 (vm_init [] [200]))) R_R0 = 0xC8 \<and>
   reg (outcome_vm (op_trap 0x23 (vm_init [] [200]))) R_R0 = 0xFFC8"
  using getc_in_differ [of "vm_init [] [200]" 200 "[]"] by (simp add: vm_init_def)

section \<open>Images\<close>



text \<open>
  with the origin 0 nothing is loaded, however long the file is: the number of words that
  fit, 65536, is kept in 16 bits.
\<close>

theorem origin_zero_loads_nothing: "read_image_file (image_bytes 0 ws) m = Some m"
  by (simp add: read_image_file_bytes)

section \<open>Runs\<close>

text \<open>
  The loop ends with an outcome exactly if some number of rounds leads to one: the unbounded
  loop and its bounded iterates agree, and the states in between are the reachable ones.
\<close>

theorem run_iff_rounds:
  "(run s = Some out \<longleftrightarrow> (\<exists>n. run_steps n s = out) \<and> (\<nexists>s'. out = Running s')) \<and>
   (reachable s s' \<longleftrightarrow> (\<exists>n. run_steps n s = Running s'))"
  using run_run_steps run_steps_run reachable_run_steps by blast

end
