(* ===== verification/Ylib.thy ===== *)
theory Ylib
  imports Main "HOL-Library.Word"
begin

text \<open>
  Shared ground of the theories about the distributed file system, \<^verbatim>\<open>src/sdfs\<close>: the error
  codes its functions return (\<open>None\<close> where the C code returns 0), bytes, and facts on words of a
  few bits. A \<^verbatim>\<open>char\<close> is signed.
\<close>

unbundle bit_operations_syntax

datatype errno = EAGAIN | EBUSY | EDQUOT | EEXIST | EINVAL | ENODATA | ENOENT | ENOKEY | ENOMEM | EOVERFLOW

type_synonym octet = "8 word"

lemma octet_eqI: "(\<And>n. n < 8 \<Longrightarrow> bit x n \<longleftrightarrow> bit y n) \<Longrightarrow> x = (y :: octet)"
  by (rule bit_word_eqI) simp

lemma octet_positions: "n < 8 \<Longrightarrow> n \<in> {0, 1, 2, 3, 4, 5, 6, 7 :: nat}"
  by auto

text \<open>\<^verbatim>\<open>memcmp\<close>: the difference of the first two bytes that differ, as unsigned numbers.\<close>

fun memcmp :: "octet list \<Rightarrow> octet list \<Rightarrow> int" where
  "memcmp (x # xs) (y # ys) = (if x = y then memcmp xs ys else uint x - uint y)"
| "memcmp _ _ = 0"

end
