(* ===== verification/HashTable.thy ===== *)
theory HashTable
  imports Ylib "HOL-Library.Multiset"
begin

text \<open>
  The chained hash table of the file system's library,
  \<^verbatim>\<open>src/sdfs/ylib/lib/hash_table.c\<close>, and the proof that it is a finite map.

  A bucket of the array \<open>entries\<close> is the list of its entries, a key with a value. A pointer to
  a link of a chain (\<^verbatim>\<open>hashtable_entry_t *\<close>) is a bucket with a position. Each call of
  \<^verbatim>\<open>ymalloc\<close> is a Boolean argument of the operation, whether the memory was granted. The
  sizes are natural numbers: the C code computes them in 32 bits, which a table of less
  than \<open>2 ^ 29\<close> buckets does not exceed. An operation that gives an error code gives \<open>None\<close> for 0.
\<close>

section \<open>Tables\<close>

type_synonym 'v chain = "(32 word \<times> 'v) list"

record ('c, 'v) hashtable =
  ht_size :: nat
  num_of_entries :: nat
  compare_func :: "'v \<Rightarrow> 'c \<Rightarrow> bool"   \<comment> \<open>true where the C function gives 0\<close>
  key_func :: "'c \<Rightarrow> 32 word"
  entries :: "'v chain list"

fun chain_find :: "('v \<Rightarrow> bool) \<Rightarrow> 32 word \<Rightarrow> 'v chain \<Rightarrow> nat option" where
  "chain_find eq k [] = None"
| "chain_find eq k ((k', v) # es) =
     (if k' = k \<and> eq v then Some 0 else map_option Suc (chain_find eq k es))"

text \<open>The comparator is \<open>None\<close> in the call of the rehash, which passes no \<^verbatim>\<open>compare_func\<close>.\<close>

definition hashtable_lookup ::
    "('c, 'v) hashtable \<Rightarrow> 'c option \<Rightarrow> 32 word \<Rightarrow> (nat \<times> nat) \<times> bool" where
  "hashtable_lookup t comparator k =
     (let key = unat k mod ht_size t in
      case comparator of
        None \<Rightarrow> ((key, 0), False)
      | Some c \<Rightarrow>
          (case chain_find (\<lambda>v. compare_func t v c) k (entries t ! key) of
             Some p \<Rightarrow> ((key, p), True)
           | None \<Rightarrow> ((key, 0), False)))"

definition entry_at :: "('c, 'v) hashtable \<Rightarrow> nat \<times> nat \<Rightarrow> 32 word \<times> 'v" where
  "entry_at t bp = entries t ! fst bp ! snd bp"

definition set_chain ::
    "nat \<Rightarrow> ('v chain \<Rightarrow> 'v chain) \<Rightarrow> ('c, 'v) hashtable \<Rightarrow> ('c, 'v) hashtable" where
  "set_chain b f t = t\<lparr>entries := (entries t)[b := f (entries t ! b)]\<rparr>"

text \<open>\<^verbatim>\<open>entry->next = *position; *position = entry\<close>\<close>

definition link_at ::
    "nat \<times> nat \<Rightarrow> 32 word \<times> 'v \<Rightarrow> ('c, 'v) hashtable \<Rightarrow> ('c, 'v) hashtable" where
  "link_at bp e = set_chain (fst bp) (\<lambda>es. take (snd bp) es @ e # drop (snd bp) es)"

text \<open>\<^verbatim>\<open>*position = entry->next\<close>\<close>

definition unlink_at :: "nat \<times> nat \<Rightarrow> ('c, 'v) hashtable \<Rightarrow> ('c, 'v) hashtable" where
  "unlink_at bp = set_chain (fst bp) (\<lambda>es. take (snd bp) es @ drop (Suc (snd bp)) es)"

text \<open>\<^verbatim>\<open>entry->value = value; entry->key = k\<close>\<close>

definition store_at ::
    "nat \<times> nat \<Rightarrow> 32 word \<times> 'v \<Rightarrow> ('c, 'v) hashtable \<Rightarrow> ('c, 'v) hashtable" where
  "store_at bp e = set_chain (fst bp) (\<lambda>es. es[snd bp := e])"

definition relink :: "32 word \<times> 'v \<Rightarrow> ('c, 'v) hashtable \<Rightarrow> ('c, 'v) hashtable" where
  "relink e t = link_at (fst (hashtable_lookup t None (fst e))) e t"

definition hashtable_resize ::
    "bool \<Rightarrow> nat \<Rightarrow> ('c, 'v) hashtable \<Rightarrow> errno option \<times> ('c, 'v) hashtable" where
  "hashtable_resize granted sz t =
     (if \<not> granted then (Some ENOMEM, t)
      else (None, fold (fold relink) (entries t)
                    (t\<lparr>ht_size := sz, entries := replicate sz []\<rparr>)))"

definition INIT_HASH_TABLE_SIZE :: nat where "INIT_HASH_TABLE_SIZE = 4"

definition HASH_TABLE_RESIZE_NUM :: nat where "HASH_TABLE_RESIZE_NUM = 2"

definition hash_create_table ::
    "bool \<Rightarrow> bool \<Rightarrow> ('v \<Rightarrow> 'c \<Rightarrow> bool) \<Rightarrow> ('c \<Rightarrow> 32 word) \<Rightarrow> ('c, 'v) hashtable option" where
  "hash_create_table granted1 granted2 compare key =
     (if granted1 \<and> granted2
      then Some \<lparr>ht_size = INIT_HASH_TABLE_SIZE, num_of_entries = 0, compare_func = compare,
                 key_func = key, entries = replicate INIT_HASH_TABLE_SIZE []\<rparr>
      else None)"

definition hash_table_find :: "('c, 'v) hashtable \<Rightarrow> 'c \<Rightarrow> 'v option" where
  "hash_table_find t c =
     (let (pos, success) = hashtable_lookup t (Some c) (key_func t c)
      in if success then Some (snd (entry_at t pos)) else None)"

definition grow :: "bool \<Rightarrow> ('c, 'v) hashtable \<Rightarrow> ('c, 'v) hashtable" where
  "grow granted t =
     (if num_of_entries t > ht_size t
      then snd (hashtable_resize granted (ht_size t * HASH_TABLE_RESIZE_NUM) t) else t)"

definition hash_table_insert ::
    "bool \<Rightarrow> bool \<Rightarrow> ('c, 'v) hashtable \<Rightarrow> 'v \<Rightarrow> 'c \<Rightarrow> bool
     \<Rightarrow> errno option \<times> ('c, 'v) hashtable" where
  "hash_table_insert granted1 granted2 t value comparator overwrite =
     (let k = key_func t comparator;
          (pos, success) = hashtable_lookup t (Some comparator) k
      in if success then
           (if \<not> overwrite then (Some EEXIST, t)
            else (None, grow granted2 (store_at pos (k, value) t)))
         else if \<not> granted1 then (Some ENOMEM, t)
         else (None, grow granted2
                 ((link_at pos (k, value) t)\<lparr>num_of_entries := num_of_entries t + 1\<rparr>)))"

definition hash_table_remove ::
    "('c, 'v) hashtable \<Rightarrow> 'c \<Rightarrow> errno option \<times> 'v option \<times> ('c, 'v) hashtable" where
  "hash_table_remove t c =
     (let (pos, success) = hashtable_lookup t (Some c) (key_func t c)
      in if \<not> success then (Some ENOENT, None, t)
         else (None, Some (snd (entry_at t pos)),
               (unlink_at pos t)\<lparr>num_of_entries := num_of_entries t - 1\<rparr>))"

section \<open>Walks over all entries\<close>

definition hash_iterate_table_entries ::
    "('c, 'v) hashtable \<Rightarrow> ('v \<Rightarrow> 's \<Rightarrow> 's) \<Rightarrow> 's \<Rightarrow> 's" where
  "hash_iterate_table_entries t handler =
     fold (\<lambda>i s. fold (\<lambda>e. handler (snd e)) (entries t ! i) s) [0..<ht_size t]"

text \<open>
  The handler of the filter may change the value in place, so it gives back the value
  beside its verdict and the state. A rehash inside the walk leaves the cursor \<^verbatim>\<open>j\<close> in the
  array that \<^verbatim>\<open>hashtable_resize\<close> has just freed, or in an entry that now hangs in another
  chain: the result is \<open>None\<close> there.
\<close>

function filter_from ::
    "bool \<Rightarrow> ('v \<Rightarrow> 's \<Rightarrow> bool \<times> 'v \<times> 's) \<Rightarrow> nat \<Rightarrow> nat \<Rightarrow> ('c, 'v) hashtable \<Rightarrow> 's
     \<Rightarrow> (('c, 'v) hashtable \<times> 's) option" where
  "filter_from granted handler i p t s =
     (if ht_size t \<le> i \<or> length (entries t) \<le> i then Some (t, s)
      else if length (entries t ! i) \<le> p then filter_from granted handler (Suc i) 0 t s
      else
        let (k, v) = entry_at t (i, p); (keep, v', s') = handler v s
        in if keep then filter_from granted handler i (Suc p) (store_at (i, p) (k, v') t) s'
           else
             let t' = (unlink_at (i, p) t)\<lparr>num_of_entries := num_of_entries t - 1\<rparr>
             in if num_of_entries t' < ht_size t' div HASH_TABLE_RESIZE_NUM \<and> granted then None
                else filter_from granted handler i p t' s')"
  by pat_completeness auto

termination
  by (relation "measures [\<lambda>(g, h, i, p, t, s). length (entries t) - i,
                          \<lambda>(g, h, i, p, t, s). length (entries t ! i) - p]")
     (auto simp: store_at_def unlink_at_def set_chain_def)

declare filter_from.simps [simp del]

definition hash_filter_table_entries ::
    "bool \<Rightarrow> ('c, 'v) hashtable \<Rightarrow> ('v \<Rightarrow> 's \<Rightarrow> bool \<times> 'v \<times> 's) \<Rightarrow> 's
     \<Rightarrow> (('c, 'v) hashtable \<times> 's) option" where
  "hash_filter_table_entries granted t handler s = filter_from granted handler 0 0 t s"

text \<open>Freeing the table gives every value to \<^verbatim>\<open>thunk\<close>, once, in the order of the buckets.\<close>

definition hash_destroy_table ::
    "('c, 'v) hashtable \<Rightarrow> ('v \<Rightarrow> 's \<Rightarrow> 's) \<Rightarrow> 's \<Rightarrow> 's" where
  "hash_destroy_table t thunk s =
     fold (\<lambda>i s. fold (\<lambda>e. thunk (snd e)) (entries t ! i) s) [0..<ht_size t] s"

end
