(* ===== verification/Flock.thy ===== *)
theory Flock
  imports HashTable
begin

text \<open>
  Byte-range locks of the distributed file system, \<^verbatim>\<open>src/sdfs/yfs/libyfs/flock.c\<close> with the
  types of \<^verbatim>\<open>flock.h\<close> and \<^verbatim>\<open>sdfs_id.h\<close>.

  The service keeps the locks of a file in a table of the hash table \<open>fhashtable\<close> and writes
  each table through to a key-value store. The store is reached through functions that are not
  part of the sources (\<^verbatim>\<open>uss_infodb_put\<close> and others), so they are an argument \<open>ops\<close> of the
  operations. The C code changes a lock table through the pointer the hash table holds: here
  \<open>set_value\<close> puts the changed table at its place. The mutex is a counter, one more when taken
  and one less when given back. Memory is granted: the C code stops at an assertion
  otherwise, and \<open>None\<close> is the result of an operation that stops at an assertion.
\<close>

section \<open>Locks\<close>

record fileid =
  fid :: "64 word"
  volid :: "64 word"
  idx :: "32 word"
  sharding :: "8 word"
  ftype :: "8 word"

record uss_flock =
  ltype :: "8 word"
  sid :: "64 word"
  owner :: "64 word"
  start :: "64 word"
  len :: "64 word"

definition USS_RDLOCK :: "8 word" where "USS_RDLOCK = 0"
definition USS_WRLOCK :: "8 word" where "USS_WRLOCK = 1"
definition USS_UNLOCK :: "8 word" where "USS_UNLOCK = 2"

definition USS_SETFLOCK :: nat where "USS_SETFLOCK = 0"
definition USS_GETFLOCK :: nat where "USS_GETFLOCK = 1"

definition UINT64_MAX :: "64 word" where "UINT64_MAX = - 1"

record uss_flock_table =
  fileid_of :: fileid
  locks :: "uss_flock list"

definition flock_hashkey :: "fileid \<Rightarrow> 32 word" where
  "flock_hashkey f = ucast (fid f + volid f)"

definition flock_hashcmp :: "uss_flock_table \<Rightarrow> fileid \<Rightarrow> bool" where
  "flock_hashcmp t f \<longleftrightarrow> fid (fileid_of t) = fid f \<and> volid (fileid_of t) = volid f"

definition flock_get_end :: "64 word \<Rightarrow> 64 word \<Rightarrow> 64 word" where
  "flock_get_end s n = (if n = 0 then UINT64_MAX else s + n)"

definition flock_overlap :: "uss_flock \<Rightarrow> uss_flock \<Rightarrow> bool" where
  "flock_overlap l m =
     (let end1 = flock_get_end (start l) (len l); end2 = flock_get_end (start m) (len m)
      in \<not> (end2 \<le> start l \<or> end1 \<le> start m))"

definition flock_same_user :: "uss_flock \<Rightarrow> uss_flock \<Rightarrow> bool" where
  "flock_same_user l m \<longleftrightarrow> sid l = sid m \<and> owner l = owner m"

definition flock_conflict :: "uss_flock \<Rightarrow> uss_flock \<Rightarrow> bool" where
  "flock_conflict l m =
     (if ltype l = USS_RDLOCK \<and> ltype m = USS_RDLOCK then False
      else if flock_same_user l m then False
      else flock_overlap l m)"

text \<open>The result is what is written to \<^verbatim>\<open>lck_arr\<close>, and the proposed lock as it was left.\<close>

definition flock_split_merge :: "uss_flock \<Rightarrow> uss_flock \<Rightarrow> uss_flock list \<times> uss_flock" where
  "flock_split_merge elock plock =
     (let e_start = start elock; p_start = start plock;
          lock_types_differ = (ltype elock \<noteq> ltype plock);
          e_end = flock_get_end e_start (len elock);
          p_end = flock_get_end p_start (len plock)
      in
      if \<not> flock_same_user elock plock then ([elock], plock)
      else if start elock > p_end \<or> start plock > e_end then ([elock], plock)
      else if e_start \<ge> p_start \<and> e_end \<le> p_end then ([], plock)
      else if p_end = e_start then
        (if lock_types_differ then ([elock], plock)
         else ([], plock\<lparr>len := len plock + len elock\<rparr>))
      else if e_end = p_start then
        (if lock_types_differ then ([elock], plock)
         else ([], plock\<lparr>start := e_start, len := len plock + len elock\<rparr>))
      else if e_start \<ge> p_start \<and> e_start \<le> p_end \<and> e_end > p_end then
        (if lock_types_differ then ([elock\<lparr>start := p_end, len := e_end - p_end\<rparr>], plock)
         else ([], plock\<lparr>len := len plock + (e_end - p_end)\<rparr>))
      else if e_start < p_start \<and> e_end \<ge> p_start \<and> e_end \<le> p_end then
        (if lock_types_differ then ([elock\<lparr>len := p_start - e_start\<rparr>], plock)
         else ([], plock\<lparr>len := len plock + (p_start - e_start)\<rparr>))
      else if e_start < p_start \<and> e_end > p_end then
        (if lock_types_differ then
           ([elock\<lparr>len := p_start - e_start\<rparr>,
             elock\<lparr>start := p_end, len := e_end - p_end\<rparr>], plock)
         else ([], plock\<lparr>start := e_start, len := len elock\<rparr>))
      else ([], plock))"

section \<open>Lock tables\<close>

text \<open>The loop of \<^verbatim>\<open>__flock_lock\<close>: the code, the proposed lock, and the array \<^verbatim>\<open>locks_arr\<close>.\<close>

fun lock_loop :: "uss_flock list \<Rightarrow> uss_flock \<Rightarrow> errno option \<times> uss_flock \<times> uss_flock list" where
  "lock_loop [] plock = (None, plock, [])"
| "lock_loop (elock # rest) plock =
     (if flock_conflict elock plock then (Some EAGAIN, plock, [])
      else
        let (out, plock1) = flock_split_merge elock plock;
            (code, plock2, outs) = lock_loop rest plock1
        in (code, plock2, out @ outs))"

definition insert_by_start :: "uss_flock \<Rightarrow> uss_flock list \<Rightarrow> uss_flock list" where
  "insert_by_start plock arr =
     takeWhile (\<lambda>l. \<not> start l > start plock) arr @
     plock # dropWhile (\<lambda>l. \<not> start l > start plock) arr"

definition flock_lock ::
    "uss_flock \<Rightarrow> uss_flock_table \<Rightarrow> errno option \<times> uss_flock \<times> uss_flock_table" where
  "flock_lock plock ftable =
     (let (code, plock', arr) = lock_loop (locks ftable) plock
      in case code of
           Some e \<Rightarrow> (Some e, plock', ftable)
         | None \<Rightarrow> (None, plock', ftable\<lparr>locks := insert_by_start plock' arr\<rparr>))"

text \<open>The loop of \<^verbatim>\<open>__flock_unlock\<close>: the array, \<^verbatim>\<open>overlap_found\<close> and the proposed lock.\<close>

fun unlock_loop :: "uss_flock list \<Rightarrow> uss_flock \<Rightarrow> uss_flock list \<times> bool \<times> uss_flock" where
  "unlock_loop [] plock = ([], False, plock)"
| "unlock_loop (elock # rest) plock =
     (let (out, plock1) = flock_split_merge elock plock
      in case out of
           [] \<Rightarrow> (let (arr, found, plock2) = unlock_loop rest plock1 in (arr, True, plock2))
         | [l] \<Rightarrow> (let (arr, found, plock2) = unlock_loop rest plock1
                  in (l # arr, len l \<noteq> len elock \<or> found, plock2))
         | _ \<Rightarrow> (out @ rest, True, plock1))"

definition flock_unlock :: "uss_flock \<Rightarrow> uss_flock_table \<Rightarrow> uss_flock \<times> uss_flock_table" where
  "flock_unlock plock ftable =
     (let (arr, overlap_found, plock') = unlock_loop (locks ftable) plock
      in (plock', if overlap_found then ftable\<lparr>locks := arr\<rparr> else ftable))"

section \<open>The service\<close>

record 'd infodb =
  db_put :: "fileid \<Rightarrow> uss_flock list \<Rightarrow> 'd \<Rightarrow> 'd"
  db_get :: "fileid \<Rightarrow> 'd \<Rightarrow> uss_flock list option"
  db_remove :: "fileid \<Rightarrow> 'd \<Rightarrow> 'd"
  db_all :: "'d \<Rightarrow> (fileid \<times> uss_flock list) list"   \<comment> \<open>what the iterator gives\<close>

record 'd flocks =
  fhashtable :: "(fileid, uss_flock_table) hashtable"
  mutex :: int
  flockdb :: 'd

definition set_value :: "('c, 'v) hashtable \<Rightarrow> 'c \<Rightarrow> 'v \<Rightarrow> ('c, 'v) hashtable" where
  "set_value t c v =
     (let (pos, success) = hashtable_lookup t (Some c) (key_func t c)
      in if success then store_at pos (fst (entry_at t pos), v) t else t)"

definition flock_insert ::
    "fileid \<Rightarrow> uss_flock list \<Rightarrow> 'd flocks \<Rightarrow> (uss_flock_table \<times> 'd flocks) option" where
  "flock_insert f ls st =
     (let t = \<lparr>fileid_of = f, locks = ls\<rparr>;
          (code, h) = hash_table_insert True True (fhashtable st) t f False
      in case code of
           Some e \<Rightarrow> None
         | None \<Rightarrow> Some (t, st\<lparr>fhashtable := h\<rparr>))"

definition flock_get_ftable ::
    "'d infodb \<Rightarrow> fileid \<Rightarrow> 'd flocks \<Rightarrow> (uss_flock_table option \<times> 'd flocks) option" where
  "flock_get_ftable ops f st =
     (case hash_table_find (fhashtable st) f of
        Some t \<Rightarrow> Some (Some t, st)
      | None \<Rightarrow>
          (case db_get ops f (flockdb st) of
             None \<Rightarrow> Some (None, st)
           | Some ls \<Rightarrow>
               (case flock_insert f ls st of
                  None \<Rightarrow> None
                | Some (t, st') \<Rightarrow> Some (Some t, st'))))"

definition flock_mutex :: "int \<Rightarrow> 'd flocks \<Rightarrow> 'd flocks" where
  "flock_mutex d st = st\<lparr>mutex := mutex st + d\<rparr>"

definition flock_store :: "'d infodb \<Rightarrow> fileid \<Rightarrow> uss_flock_table \<Rightarrow> 'd flocks \<Rightarrow> 'd flocks" where
  "flock_store ops f t st =
     (if locks t = [] then
        st\<lparr>fhashtable := snd (snd (hash_table_remove (fhashtable st) f)),
           flockdb := db_remove ops f (flockdb st)\<rparr>
      else st\<lparr>flockdb := db_put ops (fileid_of t) (locks t) (flockdb st)\<rparr>)"

definition flock_setlock ::
    "'d infodb \<Rightarrow> fileid \<Rightarrow> uss_flock \<Rightarrow> 'd flocks \<Rightarrow> (errno option \<times> uss_flock \<times> 'd flocks) option"
  where
  "flock_setlock ops f plock st =
     (if UINT64_MAX - start plock < len plock then Some (Some EINVAL, plock, flock_mutex (- 1) st)
      else
        case flock_get_ftable ops f (flock_mutex 1 st) of
          None \<Rightarrow> None
        | Some (None, st1) \<Rightarrow>
            (if ltype plock = USS_UNLOCK then Some (None, plock, flock_mutex (- 1) st1)
             else case flock_insert f [plock] st1 of
                    None \<Rightarrow> None
                  | Some (t, st2) \<Rightarrow> Some (None, plock, flock_mutex (- 1) (flock_store ops f t st2)))
        | Some (Some t, st1) \<Rightarrow>
            (let (code, plock', t') =
                   (if ltype plock \<noteq> USS_UNLOCK then flock_lock plock t
                    else (None, flock_unlock plock t));
                 st2 = st1\<lparr>fhashtable := set_value (fhashtable st1) f t'\<rparr>
             in case code of
                  Some e \<Rightarrow> Some (Some e, plock', flock_mutex (- 1) st2)
                | None \<Rightarrow> Some (None, plock', flock_mutex (- 1) (flock_store ops f t' st2))))"

definition flock_getlock ::
    "'d infodb \<Rightarrow> fileid \<Rightarrow> uss_flock \<Rightarrow> 'd flocks \<Rightarrow> (errno option \<times> uss_flock \<times> 'd flocks) option"
  where
  "flock_getlock ops f plock st =
     (if UINT64_MAX - start plock < len plock then Some (Some EINVAL, plock, st)
      else
        case flock_get_ftable ops f (flock_mutex 1 st) of
          None \<Rightarrow> None
        | Some (None, st1) \<Rightarrow> Some (None, plock\<lparr>ltype := USS_UNLOCK\<rparr>, flock_mutex (- 1) st1)
        | Some (Some t, st1) \<Rightarrow>
            Some (None,
                  case List.find (\<lambda>l. flock_conflict l plock) (locks t) of
                    None \<Rightarrow> plock\<lparr>ltype := USS_UNLOCK\<rparr>
                  | Some l \<Rightarrow> l,
                  flock_mutex (- 1) st1))"

definition flock_remove_ftable_sid_locks ::
    "'d infodb \<Rightarrow> 64 word \<Rightarrow> uss_flock_table \<Rightarrow> 'd \<Rightarrow> bool \<times> uss_flock_table \<times> 'd" where
  "flock_remove_ftable_sid_locks ops s t d =
     (let ls = filter (\<lambda>l. s = sid l) (locks t); t' = t\<lparr>locks := ls\<rparr>
      in if ls \<noteq> [] then (True, t', db_put ops (fileid_of t') ls d)
         else (False, t', db_remove ops (fileid_of t') d))"

definition flock_remove_sid_locks ::
    "'d infodb \<Rightarrow> bool \<Rightarrow> 64 word \<Rightarrow> 'd flocks \<Rightarrow> 'd flocks option" where
  "flock_remove_sid_locks ops granted s st =
     (let st1 = flock_mutex 1 st
      in map_option (\<lambda>(h, d). flock_mutex (- 1) (st1\<lparr>fhashtable := h, flockdb := d\<rparr>))
           (hash_filter_table_entries granted (fhashtable st1)
              (flock_remove_ftable_sid_locks ops s) (flockdb st1)))"

text \<open>The iteration at the start gives every stored table to the hash table.\<close>

fun flock_load :: "(fileid \<times> uss_flock list) list \<Rightarrow> 'd flocks \<Rightarrow> 'd flocks option" where
  "flock_load [] st = Some st"
| "flock_load ((f, ls) # rest) st =
     (case flock_insert f ls st of
        None \<Rightarrow> None
      | Some (t, st') \<Rightarrow> flock_load rest st')"

definition flock_mds_init :: "'d infodb \<Rightarrow> 'd \<Rightarrow> 'd flocks option" where
  "flock_mds_init ops d =
     (case hash_create_table True True flock_hashcmp flock_hashkey of
        None \<Rightarrow> None
      | Some h \<Rightarrow> flock_load (db_all ops d) \<lparr>fhashtable = h, mutex = 0, flockdb = d\<rparr>)"

definition flock_mds_op ::
    "'d infodb \<Rightarrow> fileid \<Rightarrow> nat \<Rightarrow> uss_flock \<Rightarrow> 'd flocks
     \<Rightarrow> (errno option \<times> uss_flock \<times> 'd flocks) option" where
  "flock_mds_op ops f op plock st =
     (if op = USS_SETFLOCK then flock_setlock ops f plock st
      else if op = USS_GETFLOCK then flock_getlock ops f plock st
      else Some (Some EINVAL, plock, st))"

section \<open>Conversion to the locks of POSIX\<close>

record posix_flock =
  l_type :: "16 word"
  l_whence :: "16 word"
  l_start :: "64 word"
  l_len :: "64 word"

definition SEEK_SET :: "16 word" where "SEEK_SET = 0"

definition ussflock_to_flock :: "uss_flock \<Rightarrow> posix_flock \<Rightarrow> posix_flock" where
  "ussflock_to_flock u f =
     f\<lparr>l_type := ucast (ltype u), l_whence := SEEK_SET, l_start := start u, l_len := len u\<rparr>"

definition flock_to_ussflock :: "posix_flock \<Rightarrow> uss_flock \<Rightarrow> uss_flock" where
  "flock_to_ussflock f u = u\<lparr>ltype := ucast (l_type f), start := l_start f, len := l_len f\<rparr>"

end
