(* ===== verification/TableProps.thy ===== *)
theory TableProps
  imports HashTable
begin

text \<open>
  The hash table is a finite map. \<open>table_ok\<close> is the invariant of a table whose values carry
  a name (\<open>vn\<close>), by which the comparators (\<open>cn\<close>) address them: every entry hangs in the bucket of
  its key, no two values have one name, and the count of entries is right. The interface that
  a client relies on is the locale \<open>named_store\<close>; the last section runs sequences of operations on
  the table and on a map.
\<close>

section \<open>Contents and invariant\<close>

definition flat :: "('c, 'v) hashtable \<Rightarrow> 'v chain" where
  "flat t = concat (entries t)"

definition shape_ok :: "('c, 'v) hashtable \<Rightarrow> bool" where
  "shape_ok t \<longleftrightarrow> 0 < ht_size t \<and> length (entries t) = ht_size t \<and>
     (\<forall>b < ht_size t. \<forall>e \<in> set (entries t ! b). unat (fst e) mod ht_size t = b)"

definition names_agree ::
    "('v \<Rightarrow> 'n) \<Rightarrow> ('c \<Rightarrow> 'n) \<Rightarrow> ('v \<Rightarrow> 'c \<Rightarrow> bool) \<Rightarrow> ('c \<Rightarrow> 32 word) \<Rightarrow> bool" where
  "names_agree vn cn compare key \<longleftrightarrow>
     (\<forall>v c. compare v c \<longleftrightarrow> vn v = cn c) \<and> (\<forall>c c'. cn c = cn c' \<longrightarrow> key c = key c')"

definition flat_ok ::
    "('v \<Rightarrow> 'n) \<Rightarrow> ('c \<Rightarrow> 'n) \<Rightarrow> ('c \<Rightarrow> 32 word) \<Rightarrow> 'v chain \<Rightarrow> bool" where
  "flat_ok vn cn key es \<longleftrightarrow> distinct (map (\<lambda>e. vn (snd e)) es) \<and>
     (\<forall>e \<in> set es. \<forall>c. cn c = vn (snd e) \<longrightarrow> fst e = key c)"

definition table_ok ::
    "('v \<Rightarrow> 'n) \<Rightarrow> ('c \<Rightarrow> 'n) \<Rightarrow> ('c, 'v) hashtable \<Rightarrow> bool" where
  "table_ok vn cn t \<longleftrightarrow> shape_ok t \<and> names_agree vn cn (compare_func t) (key_func t) \<and>
     flat_ok vn cn (key_func t) (flat t) \<and> num_of_entries t = length (flat t)"

lemma mset_concat_update:
  "b < length xs \<Longrightarrow> mset (concat (xs[b := ys])) + mset (xs ! b) = mset (concat xs) + mset ys"
proof (induction xs arbitrary: b)
  case (Cons x xs)
  then show ?case
  proof (cases b)
    case (Suc n)
    with Cons.IH [of n] Cons.prems show ?thesis
      by (simp add: add.assoc)
  qed simp
qed simp

lemma mset_set_chain:
  "b < length (entries t) \<Longrightarrow>
     mset (flat (set_chain b f t)) + mset (entries t ! b) = mset (flat t) + mset (f (entries t ! b))"
  by (simp add: flat_def set_chain_def mset_concat_update)

lemma mset_take_drop: "mset (take p es) + mset (drop p es) = mset es"
  by (metis append_take_drop_id mset_append)

lemma mset_link:
  assumes "b < length (entries t)"
  shows "mset (flat (link_at (b, p) e t)) = add_mset e (mset (flat t))"
  using mset_set_chain [OF assms, of "\<lambda>es. take p es @ e # drop p es"]
    mset_take_drop [of p "entries t ! b"]
  by (simp add: link_at_def)

lemma mset_split_nth:
  assumes "p < length es"
  shows "mset es = add_mset (es ! p) (mset (take p es) + mset (drop (Suc p) es))"
  by (subst id_take_nth_drop [OF assms]) simp

lemma mset_unlink:
  assumes "b < length (entries t)" "p < length (entries t ! b)"
  shows "mset (flat t) = add_mset (entry_at t (b, p)) (mset (flat (unlink_at (b, p) t)))"
  using mset_set_chain [OF assms(1), of "\<lambda>es. take p es @ drop (Suc p) es"]
    mset_split_nth [OF assms(2)]
  by (simp add: unlink_at_def entry_at_def)

lemma mset_store:
  assumes "b < length (entries t)" "p < length (entries t ! b)"
  shows "mset (flat (store_at (b, p) e t)) =
    add_mset e (mset (flat (unlink_at (b, p) t)))"
  using mset_set_chain [OF assms(1), of "\<lambda>es. es[p := e]"]
    mset_unlink [OF assms] mset_split_nth [OF assms(2)]
  by (simp add: store_at_def entry_at_def upd_conv_take_nth_drop [OF assms(2)])

lemma names_agreeD:
  assumes "names_agree vn cn compare key"
  shows "compare v c \<longleftrightarrow> vn v = cn c" "cn c = cn c' \<Longrightarrow> key c = key c'"
  using assms unfolding names_agree_def by blast+

lemma flat_bucket:
  "\<lbrakk>shape_ok t; e \<in> set (flat t)\<rbrakk> \<Longrightarrow> e \<in> set (entries t ! (unat (fst e) mod ht_size t))"
  by (auto simp: shape_ok_def flat_def in_set_conv_nth [of _ "entries t"])

lemma bucket_flat: "\<lbrakk>e \<in> set (entries t ! b); b < length (entries t)\<rbrakk> \<Longrightarrow> e \<in> set (flat t)"
  by (auto simp: flat_def)

lemma flat_ok_mset:
  assumes "mset es = mset es'"
  shows "flat_ok vn cn key es \<longleftrightarrow> flat_ok vn cn key es'"
proof -
  have "mset (map (\<lambda>e. vn (snd e)) es) = mset (map (\<lambda>e. vn (snd e)) es')"
    using assms by (simp only: mset_map)
  then show ?thesis
    using mset_eq_imp_distinct_iff mset_eq_setD [OF assms] unfolding flat_ok_def by blast
qed

lemma flat_ok_same_name:
  "\<lbrakk>flat_ok vn cn key es; e \<in> set es; e' \<in> set es; vn (snd e) = vn (snd e')\<rbrakk> \<Longrightarrow> e = e'"
  unfolding flat_ok_def by (auto simp: distinct_map dest: inj_onD)

section \<open>Lookup\<close>

lemma chain_find_Some:
  "chain_find eq k es = Some p \<Longrightarrow> p < length es \<and> fst (es ! p) = k \<and> eq (snd (es ! p))"
  by (induction eq k es arbitrary: p rule: chain_find.induct) (auto split: if_splits)

lemma chain_find_None: "chain_find eq k es = None \<Longrightarrow> (k, v) \<in> set es \<Longrightarrow> \<not> eq v"
  by (induction eq k es rule: chain_find.induct) (auto split: if_splits)

lemma lookup_bucket:
  "hashtable_lookup t c k = ((b, p), success) \<Longrightarrow> b = unat k mod ht_size t"
  by (auto simp: hashtable_lookup_def Let_def split: option.splits)

lemma lookup_missing_position:
  "hashtable_lookup t c k = ((b, p), False) \<Longrightarrow> p = 0"
  by (auto simp: hashtable_lookup_def Let_def split: option.splits)

lemma lookup_found:
  assumes "hashtable_lookup t (Some c) k = ((b, p), True)"
  shows "p < length (entries t ! b) \<and> fst (entry_at t (b, p)) = k
    \<and> compare_func t (snd (entry_at t (b, p))) c"
  using assms chain_find_Some [of "\<lambda>v. compare_func t v c" k "entries t ! b" p]
  by (auto simp: hashtable_lookup_def Let_def entry_at_def split: option.splits)

lemma lookup_missing:
  assumes "hashtable_lookup t (Some c) k = ((b, p), False)"
    and "e \<in> set (entries t ! b)" "fst e = k"
  shows "\<not> compare_func t (snd e) c"
  using assms chain_find_None [of "\<lambda>v. compare_func t v c" k "entries t ! b" "snd e"]
  by (cases e) (auto simp: hashtable_lookup_def Let_def split: option.splits)

lemma find_Some:
  assumes "table_ok vn cn t"
  shows "hash_table_find t c = Some v \<longleftrightarrow> v \<in> snd ` set (flat t) \<and> vn v = cn c"
proof -
  let ?k = "key_func t c"
  obtain b p success where look: "hashtable_lookup t (Some c) ?k = ((b, p), success)"
    by (metis prod.exhaust_sel)
  have shape: "shape_ok t" and agree: "names_agree vn cn (compare_func t) (key_func t)"
    and fl: "flat_ok vn cn (key_func t) (flat t)"
    using assms by (auto simp: table_ok_def)
  have b: "b < length (entries t)"
    using shape lookup_bucket [OF look] by (simp add: shape_ok_def)
  show ?thesis
  proof (cases success)
    case True
    with look have "hashtable_lookup t (Some c) ?k = ((b, p), True)" by simp
    from lookup_found [OF this]
    have p: "p < length (entries t ! b)" and vn: "vn (snd (entry_at t (b, p))) = cn c"
      unfolding names_agreeD(1) [OF agree] by blast+
    then have e: "entry_at t (b, p) \<in> set (flat t)"
      using bucket_flat [OF _ b] by (simp add: entry_at_def)
    have found: "hash_table_find t c = Some (snd (entry_at t (b, p)))"
      using look True by (simp add: hash_table_find_def)
    have "v = snd (entry_at t (b, p))" if "v \<in> snd ` set (flat t)" "vn v = cn c"
      using that flat_ok_same_name [OF fl _ e] vn by (metis imageE)
    moreover have "snd (entry_at t (b, p)) \<in> snd ` set (flat t)"
      using e by (rule imageI)
    ultimately show ?thesis
      unfolding found option.inject using vn by metis
  next
    case False
    have "\<not> (v \<in> snd ` set (flat t) \<and> vn v = cn c)"
    proof
      assume "v \<in> snd ` set (flat t) \<and> vn v = cn c"
      then obtain e where e: "e \<in> set (flat t)" "vn (snd e) = cn c" by auto
      then have k: "fst e = ?k" using fl by (simp add: flat_ok_def)
      then have "e \<in> set (entries t ! b)"
        using flat_bucket [OF shape e(1)] lookup_bucket [OF look] by simp
      moreover have "hashtable_lookup t (Some c) ?k = ((b, p), False)"
        using look False by simp
      ultimately have "\<not> compare_func t (snd e) c"
        using lookup_missing k by metis
      then show False
        using names_agreeD(1) [OF agree] e(2) by simp
    qed
    then show ?thesis
      using look False by (simp add: hash_table_find_def)
  qed
qed

lemma find_None:
  "table_ok vn cn t \<Longrightarrow> hash_table_find t c = None \<longleftrightarrow> (\<forall>v \<in> snd ` set (flat t). vn v \<noteq> cn c)"
  using find_Some [of vn cn t c] by (cases "hash_table_find t c") (simp_all, blast+)

lemma lookup_result:
  assumes "table_ok vn cn t" and look: "hashtable_lookup t (Some c) (key_func t c) = ((b, p), success)"
  shows "b < length (entries t)" "b = unat (key_func t c) mod ht_size t"
    and "success \<Longrightarrow> p < length (entries t ! b)"
    and "success \<Longrightarrow> hash_table_find t c = Some (snd (entry_at t (b, p)))"
    and "success \<Longrightarrow> fst (entry_at t (b, p)) = key_func t c"
    and "\<not> success \<Longrightarrow> hash_table_find t c = None"
proof -
  show b: "b = unat (key_func t c) mod ht_size t"
    by (rule lookup_bucket [OF look])
  show "b < length (entries t)"
    using assms(1) by (simp add: b table_ok_def shape_ok_def)
  show "success \<Longrightarrow> hash_table_find t c = Some (snd (entry_at t (b, p)))"
    "\<not> success \<Longrightarrow> hash_table_find t c = None"
    by (simp_all add: hash_table_find_def look)
  have "success \<Longrightarrow> hashtable_lookup t (Some c) (key_func t c) = ((b, p), True)"
    using look by simp
  from lookup_found [OF this]
  show "success \<Longrightarrow> p < length (entries t ! b)"
    "success \<Longrightarrow> fst (entry_at t (b, p)) = key_func t c"
    by blast+
qed

section \<open>Every operation keeps the invariant\<close>

lemma fields_set_chain [simp]:
  "ht_size (set_chain b f t) = ht_size t" "num_of_entries (set_chain b f t) = num_of_entries t"
  "compare_func (set_chain b f t) = compare_func t" "key_func (set_chain b f t) = key_func t"
  by (simp_all add: set_chain_def)

lemma fields_links [simp]:
  "ht_size (link_at bp e t) = ht_size t" "num_of_entries (link_at bp e t) = num_of_entries t"
  "compare_func (link_at bp e t) = compare_func t" "key_func (link_at bp e t) = key_func t"
  "ht_size (unlink_at bp t) = ht_size t" "num_of_entries (unlink_at bp t) = num_of_entries t"
  "compare_func (unlink_at bp t) = compare_func t" "key_func (unlink_at bp t) = key_func t"
  "ht_size (store_at bp e t) = ht_size t" "num_of_entries (store_at bp e t) = num_of_entries t"
  "compare_func (store_at bp e t) = compare_func t" "key_func (store_at bp e t) = key_func t"
  by (simp_all add: link_at_def unlink_at_def store_at_def)

lemma count_updates [simp]:
  "flat (t\<lparr>num_of_entries := n\<rparr>) = flat t" "shape_ok (t\<lparr>num_of_entries := n\<rparr>) = shape_ok t"
  by (simp_all add: flat_def shape_ok_def)

lemma shape_set_chain:
  assumes "shape_ok t"
    and "\<And>e. \<lbrakk>e \<in> set (f (entries t ! b)); b < ht_size t\<rbrakk>
               \<Longrightarrow> e \<in> set (entries t ! b) \<or> unat (fst e) mod ht_size t = b"
  shows "shape_ok (set_chain b f t)"
  unfolding shape_ok_def
proof (intro conjI allI impI ballI)
  fix b' e
  assume b': "b' < ht_size (set_chain b f t)" and e: "e \<in> set (entries (set_chain b f t) ! b')"
  show "unat (fst e) mod ht_size (set_chain b f t) = b'"
  proof (cases "b' = b")
    case True
    then have "e \<in> set (f (entries t ! b))" "b < ht_size t"
      using e b' assms(1) by (auto simp: set_chain_def shape_ok_def)
    with assms(1) assms(2) [of e] True show ?thesis by (simp add: shape_ok_def) blast
  next
    case False
    with e b' assms(1) show ?thesis by (simp add: set_chain_def shape_ok_def)
  qed
qed (use assms(1) in \<open>simp_all add: shape_ok_def set_chain_def\<close>)

lemma shape_link:
  "\<lbrakk>shape_ok t; unat (fst e) mod ht_size t = b\<rbrakk> \<Longrightarrow> shape_ok (link_at (b, p) e t)"
  unfolding link_at_def
  by (rule shape_set_chain) (auto dest: in_set_takeD in_set_dropD)

lemma shape_unlink: "shape_ok t \<Longrightarrow> shape_ok (unlink_at (b, p) t)"
  unfolding unlink_at_def
  by (rule shape_set_chain) (auto dest: in_set_takeD in_set_dropD)

lemma shape_store:
  "\<lbrakk>shape_ok t; unat (fst e) mod ht_size t = b\<rbrakk> \<Longrightarrow> shape_ok (store_at (b, p) e t)"
  unfolding store_at_def
  by (rule shape_set_chain) (auto dest: set_update_subset_insert [THEN subsetD])

lemma relink_ok:
  assumes "shape_ok t"
  shows "shape_ok (relink e t)" "mset (flat (relink e t)) = add_mset e (mset (flat t))"
    "ht_size (relink e t) = ht_size t" "num_of_entries (relink e t) = num_of_entries t"
    "compare_func (relink e t) = compare_func t" "key_func (relink e t) = key_func t"
proof -
  have eq: "relink e t = link_at (unat (fst e) mod ht_size t, 0) e t"
    by (simp add: relink_def hashtable_lookup_def Let_def)
  show "shape_ok (relink e t)"
    unfolding eq by (rule shape_link [OF assms refl])
  show "mset (flat (relink e t)) = add_mset e (mset (flat t))"
    unfolding eq by (rule mset_link) (use assms in \<open>simp add: shape_ok_def\<close>)
qed (simp_all add: relink_def)

lemma fold_relink_ok:
  assumes "shape_ok t"
  shows "shape_ok (fold relink es t) \<and> mset (flat (fold relink es t)) = mset es + mset (flat t) \<and>
    num_of_entries (fold relink es t) = num_of_entries t \<and>
    compare_func (fold relink es t) = compare_func t \<and> key_func (fold relink es t) = key_func t"
  using assms by (induction es arbitrary: t) (simp_all add: relink_ok)

lemma fold_fold: "fold (fold f) xss s = fold f (concat xss) s"
  by (induction xss arbitrary: s) simp_all

lemma resize_ok:
  assumes "0 < sz" "hashtable_resize granted sz t = (code, t')" "shape_ok t"
  shows "shape_ok t' \<and> mset (flat t') = mset (flat t) \<and> num_of_entries t' = num_of_entries t \<and>
    compare_func t' = compare_func t \<and> key_func t' = key_func t"
proof (cases granted)
  case True
  let ?t0 = "t\<lparr>ht_size := sz, entries := replicate sz []\<rparr>"
  have "shape_ok ?t0" "flat ?t0 = []"
    using assms(1) by (simp_all add: shape_ok_def flat_def)
  with fold_relink_ok [of ?t0 "flat t"] show ?thesis
    using assms(2) True by (auto simp: hashtable_resize_def fold_fold flat_def)
qed (use assms in \<open>auto simp: hashtable_resize_def\<close>)

lemma table_ok_same_entries:
  assumes "table_ok vn cn t" "shape_ok t'" "mset (flat t') = mset (flat t)"
    and "num_of_entries t' = num_of_entries t" "compare_func t' = compare_func t"
    and "key_func t' = key_func t"
  shows "table_ok vn cn t'"
  using assms by (simp add: table_ok_def flat_ok_mset [OF assms(3)] mset_eq_length [OF assms(3)])

lemma find_same_entries:
  assumes "table_ok vn cn t" "table_ok vn cn t'" "mset (flat t') = mset (flat t)"
  shows "hash_table_find t' = hash_table_find t"
proof
  fix c
  have "hash_table_find t' c = Some v \<longleftrightarrow> hash_table_find t c = Some v" for v
    using find_Some [OF assms(1)] find_Some [OF assms(2)] mset_eq_setD [OF assms(3)] by simp
  then show "hash_table_find t' c = hash_table_find t c"
    by (metis option.exhaust)
qed

lemma grow_ok:
  assumes "table_ok vn cn t"
  shows "table_ok vn cn (grow granted t)" "hash_table_find (grow granted t) = hash_table_find t"
    and "mset (flat (grow granted t)) = mset (flat t)"
proof -
  obtain code t' where r: "hashtable_resize granted (ht_size t * HASH_TABLE_RESIZE_NUM) t = (code, t')"
    by (metis prod.exhaust_sel)
  have pos: "0 < ht_size t * HASH_TABLE_RESIZE_NUM" and shape: "shape_ok t"
    using assms by (simp_all add: table_ok_def shape_ok_def HASH_TABLE_RESIZE_NUM_def)
  note same = resize_ok [OF pos r shape]
  then have ok: "table_ok vn cn t'"
    by (intro table_ok_same_entries [OF assms]) simp_all
  then have "hash_table_find t' = hash_table_find t"
    using same by (intro find_same_entries [OF assms ok]) simp
  with ok show "table_ok vn cn (grow granted t)" "hash_table_find (grow granted t) = hash_table_find t"
    "mset (flat (grow granted t)) = mset (flat t)"
    using assms same by (simp_all add: grow_def r)
qed

section \<open>Insertion and removal as map updates\<close>

lemma flat_ok_add:
  assumes "flat_ok vn cn key es" "mset es' = add_mset (k, v) (mset es)"
    and "\<forall>e \<in> set es. vn (snd e) \<noteq> vn v" "\<forall>c. cn c = vn v \<longrightarrow> k = key c"
  shows "flat_ok vn cn key es'"
proof -
  have "flat_ok vn cn key ((k, v) # es)"
    using assms(1,3,4) by (auto simp: flat_ok_def)
  then show ?thesis
    using flat_ok_mset [of es' "(k, v) # es" vn cn key] assms(2) by simp
qed

lemma flat_ok_del:
  assumes "flat_ok vn cn key es" "mset es = add_mset (k, v) (mset es')"
  shows "flat_ok vn cn key es'" "\<forall>e \<in> set es'. vn (snd e) \<noteq> vn v"
proof -
  have "flat_ok vn cn key ((k, v) # es')"
    using flat_ok_mset [of es "(k, v) # es'" vn cn key] assms by simp
  then show "flat_ok vn cn key es'" "\<forall>e \<in> set es'. vn (snd e) \<noteq> vn v"
    by (simp add: flat_ok_def, force simp: flat_ok_def)
qed

lemma find_other:
  assumes "table_ok vn cn t" "table_ok vn cn t'" "cn c' \<noteq> n"
    and "\<And>v. vn v \<noteq> n \<Longrightarrow> v \<in> snd ` set (flat t') \<longleftrightarrow> v \<in> snd ` set (flat t)"
  shows "hash_table_find t' c' = hash_table_find t c'"
proof -
  have "hash_table_find t' c' = Some v \<longleftrightarrow> hash_table_find t c' = Some v" for v
    using find_Some [OF assms(1)] find_Some [OF assms(2)] assms(3,4) by metis
  then show ?thesis
    by (metis option.exhaust)
qed

lemma added_entry:
  assumes ok: "table_ok vn cn t" and none: "hash_table_find t c = None" and v: "vn v = cn c"
    and shape: "shape_ok t'" and new: "mset (flat t') = add_mset (key_func t c, v) (mset (flat t))"
    and num: "num_of_entries t' = Suc (num_of_entries t)"
    and funcs: "compare_func t' = compare_func t" "key_func t' = key_func t"
  shows "table_ok vn cn t'"
    and "hash_table_find t' c' = (if cn c' = cn c then Some v else hash_table_find t c')"
proof -
  have key: "\<forall>c'. cn c' = vn v \<longrightarrow> key_func t c = key_func t c'"
    using ok v names_agreeD(2) unfolding table_ok_def by metis
  have absent: "\<forall>e \<in> set (flat t). vn (snd e) \<noteq> vn v"
    using find_None [OF ok] none v by simp
  have "flat_ok vn cn (key_func t) (flat t')"
    using flat_ok_add [OF _ new absent key] ok by (simp add: table_ok_def)
  moreover have "num_of_entries t' = length (flat t')"
    using mset_eq_length [of "flat t'" "(key_func t c, v) # flat t"] new num ok
    by (simp add: table_ok_def)
  ultimately show ok': "table_ok vn cn t'"
    using ok funcs shape by (simp add: table_ok_def)
  have holds: "set (flat t') = insert (key_func t c, v) (set (flat t))"
    using mset_eq_setD [of "flat t'" "(key_func t c, v) # flat t"] new by simp
  show "hash_table_find t' c' = (if cn c' = cn c then Some v else hash_table_find t c')"
  proof (cases "cn c' = cn c")
    case True
    then show ?thesis
      using find_Some [OF ok', of c' v] holds v by simp
  next
    case False
    then show ?thesis
      using find_other [OF ok ok' False] holds v by auto
  qed
qed

lemma unlink_found:
  assumes ok: "table_ok vn cn t"
    and look: "hashtable_lookup t (Some c) (key_func t c) = ((b, p), True)"
  defines "t' \<equiv> (unlink_at (b, p) t)\<lparr>num_of_entries := num_of_entries t - 1\<rparr>"
  shows "table_ok vn cn t'"
    and "hash_table_find t' c' = (if cn c' = cn c then None else hash_table_find t c')"
proof -
  note found = lookup_result [OF ok look, simplified]
  obtain k v where e: "entry_at t (b, p) = (k, v)" by fastforce
  have old: "mset (flat t) = add_mset (k, v) (mset (flat t'))"
    using mset_unlink [OF found(1,3)] e by (simp add: t'_def)
  have v: "vn v = cn c"
    using found(4) find_Some [OF ok] e by simp
  have fl: "flat_ok vn cn (key_func t) (flat t)"
    using ok by (simp add: table_ok_def)
  have "shape_ok t'"
    using ok by (simp add: t'_def shape_unlink table_ok_def)
  moreover have "num_of_entries t' = length (flat t')"
    using mset_eq_length [of "flat t" "(k, v) # flat t'"] old ok
    by (simp add: t'_def table_ok_def)
  moreover have "compare_func t' = compare_func t" "key_func t' = key_func t"
    by (simp_all add: t'_def)
  ultimately show ok': "table_ok vn cn t'"
    using ok flat_ok_del(1) [OF fl old] by (simp add: table_ok_def)
  have gone: "\<forall>w \<in> snd ` set (flat t'). vn w \<noteq> cn c"
    using flat_ok_del(2) [OF fl old] v by simp
  have holds: "set (flat t) = insert (k, v) (set (flat t'))"
    using mset_eq_setD [of "flat t" "(k, v) # flat t'"] old by simp
  show "hash_table_find t' c' = (if cn c' = cn c then None else hash_table_find t c')"
  proof (cases "cn c' = cn c")
    case True
    then show ?thesis
      using find_None [OF ok', of c'] gone by simp
  next
    case False
    then show ?thesis
      using find_other [OF ok ok' False] holds v by auto
  qed
qed

lemma store_found:
  assumes ok: "table_ok vn cn t"
    and look: "hashtable_lookup t (Some c) (key_func t c) = ((b, p), True)" and v: "vn v = cn c"
  shows "table_ok vn cn (store_at (b, p) (key_func t c, v) t)"
    and "hash_table_find (store_at (b, p) (key_func t c, v) t) c' =
           (if cn c' = cn c then Some v else hash_table_find t c')"
proof -
  let ?u = "(unlink_at (b, p) t)\<lparr>num_of_entries := num_of_entries t - 1\<rparr>"
  let ?t = "store_at (b, p) (key_func t c, v) t"
  note found = lookup_result [OF ok look, simplified]
  have u: "table_ok vn cn ?u"
    "\<And>c'. hash_table_find ?u c' = (if cn c' = cn c then None else hash_table_find t c')"
    using unlink_found [OF ok look] by simp_all
  have new: "mset (flat ?t) = add_mset (key_func t c, v) (mset (flat ?u))"
    using mset_store [OF found(1,3)] by simp
  have "length (flat t) = Suc (length (flat ?u))"
    using arg_cong [OF mset_unlink [OF found(1,3)], of size] by simp
  then have pos: "num_of_entries t = Suc (num_of_entries ?u)"
    using ok by (simp add: table_ok_def)
  have shape: "shape_ok ?t"
    by (rule shape_store) (use ok found(2) in \<open>simp_all add: table_ok_def\<close>)
  show "table_ok vn cn ?t"
    "hash_table_find ?t c' = (if cn c' = cn c then Some v else hash_table_find t c')"
    using added_entry [OF u(1) _ v shape] new pos u(2) by simp_all
qed

lemma insert_ok:
  assumes ok: "table_ok vn cn t" and v: "vn v = cn c"
    and ins: "hash_table_insert g1 g2 t v c overwrite = (code, t')"
  shows "table_ok vn cn t'"
    and "code = (case hash_table_find t c of
                   Some w \<Rightarrow> if overwrite then None else Some EEXIST
                 | None \<Rightarrow> if g1 then None else Some ENOMEM)"
    and "hash_table_find t' c' =
           (if code = None \<and> cn c' = cn c then Some v else hash_table_find t c')"
proof -
  obtain b p success where look: "hashtable_lookup t (Some c) (key_func t c) = ((b, p), success)"
    by (metis prod.exhaust_sel)
  note found = lookup_result [OF ok look]
  have "table_ok vn cn t' \<and>
    code = (case hash_table_find t c of
              Some w \<Rightarrow> if overwrite then None else Some EEXIST
            | None \<Rightarrow> if g1 then None else Some ENOMEM) \<and>
    (hash_table_find t' c' =
       (if code = None \<and> cn c' = cn c then Some v else hash_table_find t c'))"
  proof (cases success)
    case True
    show ?thesis
    proof (cases overwrite)
      case True
      have look': "hashtable_lookup t (Some c) (key_func t c) = ((b, p), True)"
        using look \<open>success\<close> by simp
      note t = store_found [OF ok look' v]
      show ?thesis
        using ins look True \<open>success\<close> grow_ok [OF t(1)] t(2) found(4)
        by (auto simp: hash_table_insert_def)
    next
      case False
      then show ?thesis
        using ins look ok \<open>success\<close> found(4) by (auto simp: hash_table_insert_def)
    qed
  next
    case False
    show ?thesis
    proof (cases g1)
      case True
      let ?t = "(link_at (b, p) (key_func t c, v) t)\<lparr>num_of_entries := num_of_entries t + 1\<rparr>"
      have shape: "shape_ok ?t"
        unfolding count_updates
        by (rule shape_link) (use ok found(2) in \<open>simp_all add: table_ok_def\<close>)
      have t: "table_ok vn cn ?t"
        "hash_table_find ?t c' = (if cn c' = cn c then Some v else hash_table_find t c')" for c'
        using added_entry [OF ok found(6) v shape] False mset_link [OF found(1)] by simp_all
      show ?thesis
        using ins look True False grow_ok [OF t(1)] t(2) found(6)
        by (auto simp: hash_table_insert_def)
    next
      case g1: False
      then show ?thesis
        using ins look ok False found(6) by (auto simp: hash_table_insert_def)
    qed
  qed
  then show "table_ok vn cn t'"
    "code = (case hash_table_find t c of
               Some w \<Rightarrow> if overwrite then None else Some EEXIST
             | None \<Rightarrow> if g1 then None else Some ENOMEM)"
    "hash_table_find t' c' =
       (if code = None \<and> cn c' = cn c then Some v else hash_table_find t c')"
    by blast+
qed

lemma remove_ok:
  assumes ok: "table_ok vn cn t" and rem: "hash_table_remove t c = (code, v, t')"
  shows "table_ok vn cn t'" and "v = hash_table_find t c"
    and "code = (if hash_table_find t c = None then Some ENOENT else None)"
    and "hash_table_find t' c' = (if cn c' = cn c then None else hash_table_find t c')"
proof -
  obtain b p success where look: "hashtable_lookup t (Some c) (key_func t c) = ((b, p), success)"
    by (metis prod.exhaust_sel)
  note found = lookup_result [OF ok look]
  have same: "cn c' = cn c \<Longrightarrow> hash_table_find t c' = hash_table_find t c"
    using find_Some [OF ok] by (metis option.exhaust)
  have "table_ok vn cn t' \<and> v = hash_table_find t c \<and>
    code = (if hash_table_find t c = None then Some ENOENT else None) \<and>
    hash_table_find t' c' = (if cn c' = cn c then None else hash_table_find t c')"
  proof (cases success)
    case True
    with look unlink_found [OF ok, of c b p] rem show ?thesis
      by (auto simp: hash_table_remove_def found(4) [OF True])
  next
    case False
    with look found(6) rem ok same show ?thesis
      by (auto simp: hash_table_remove_def)
  qed
  then show "table_ok vn cn t'" "v = hash_table_find t c"
    "code = (if hash_table_find t c = None then Some ENOENT else None)"
    "hash_table_find t' c' = (if cn c' = cn c then None else hash_table_find t c')"
    by blast+
qed

section \<open>The interface of a store of named values\<close>

text \<open>
  A client calls the store with every answer the allocator may give; the operations and
  their answers, as data, make the histories of a store.
\<close>

datatype ('c, 'v) store_op =
    Find 'c
  | Insert bool bool 'v 'c bool   \<comment> \<open>the answers of the two allocations, value, name, overwrite\<close>
  | Remove 'c

datatype 'v answer =
    Found "'v option"
  | Code "errno option"
  | Removed "errno option" "'v option"

fun answers :: "('o \<Rightarrow> 's \<Rightarrow> 'v answer \<times> 's) \<Rightarrow> 's \<Rightarrow> 'o list \<Rightarrow> 'v answer list" where
  "answers step s [] = []"
| "answers step s (x # xs) = (let (a, s') = step x s in a # answers step s' xs)"

text \<open>A map of the same operations.\<close>

definition map_put :: "('c \<Rightarrow> 'n) \<Rightarrow> 'c \<Rightarrow> 'v option \<Rightarrow> ('c \<Rightarrow> 'v option) \<Rightarrow> 'c \<Rightarrow> 'v option" where
  "map_put cn c v m = (\<lambda>c'. if cn c' = cn c then v else m c')"

fun map_step ::
    "('c \<Rightarrow> 'n) \<Rightarrow> ('c, 'v) store_op \<Rightarrow> ('c \<Rightarrow> 'v option) \<Rightarrow> 'v answer \<times> ('c \<Rightarrow> 'v option)" where
  "map_step cn (Find c) m = (Found (m c), m)"
| "map_step cn (Insert g1 g2 v c overwrite) m =
     (case m c of
        None \<Rightarrow> if g1 then (Code None, map_put cn c (Some v) m) else (Code (Some ENOMEM), m)
      | Some w \<Rightarrow> if overwrite then (Code None, map_put cn c (Some v) m)
                  else (Code (Some EEXIST), m))"
| "map_step cn (Remove c) m =
     (case m c of
        None \<Rightarrow> (Removed (Some ENOENT) None, m)
      | Some w \<Rightarrow> (Removed None (Some w), map_put cn c None m))"

fun table_step ::
    "('c, 'v) store_op \<Rightarrow> ('c, 'v) hashtable \<Rightarrow> 'v answer \<times> ('c, 'v) hashtable" where
  "table_step (Find c) t = (Found (hash_table_find t c), t)"
| "table_step (Insert g1 g2 v c overwrite) t =
     (let (code, t') = hash_table_insert g1 g2 t v c overwrite in (Code code, t'))"
| "table_step (Remove c) t =
     (let (code, v, t') = hash_table_remove t c in (Removed code v, t'))"

fun op_named :: "('v \<Rightarrow> 'n) \<Rightarrow> ('c \<Rightarrow> 'n) \<Rightarrow> ('c, 'v) store_op \<Rightarrow> bool" where
  "op_named vn cn (Insert g1 g2 v c overwrite) \<longleftrightarrow> vn v = cn c"
| "op_named vn cn (Find c) \<longleftrightarrow> True"
| "op_named vn cn (Remove c) \<longleftrightarrow> True"

locale named_store =
  fixes ok :: "'t \<Rightarrow> bool" and vn :: "'v \<Rightarrow> 'n" and cn :: "'c \<Rightarrow> 'n"
    and find :: "'t \<Rightarrow> 'c \<Rightarrow> 'v option"
    and put :: "bool \<Rightarrow> bool \<Rightarrow> 't \<Rightarrow> 'v \<Rightarrow> 'c \<Rightarrow> bool \<Rightarrow> errno option \<times> 't"
    and del :: "'t \<Rightarrow> 'c \<Rightarrow> errno option \<times> 'v option \<times> 't"
  assumes find_name: "\<lbrakk>ok t; find t c = Some v\<rbrakk> \<Longrightarrow> vn v = cn c"
    and find_cong: "\<lbrakk>ok t; cn c = cn c'\<rbrakk> \<Longrightarrow> find t c = find t c'"
    and put_ok: "\<lbrakk>ok t; vn v = cn c; put g1 g2 t v c overwrite = (code, t')\<rbrakk> \<Longrightarrow> ok t'"
    and put_code: "\<lbrakk>ok t; vn v = cn c; put g1 g2 t v c overwrite = (code, t')\<rbrakk> \<Longrightarrow>
          code = (case find t c of
                    Some w \<Rightarrow> if overwrite then None else Some EEXIST
                  | None \<Rightarrow> if g1 then None else Some ENOMEM)"
    and put_find: "\<lbrakk>ok t; vn v = cn c; put g1 g2 t v c overwrite = (code, t')\<rbrakk> \<Longrightarrow>
          find t' c' = (if code = None \<and> cn c' = cn c then Some v else find t c')"
    and del_ok: "\<lbrakk>ok t; del t c = (code, w, t')\<rbrakk> \<Longrightarrow> ok t'"
    and del_result: "\<lbrakk>ok t; del t c = (code, w, t')\<rbrakk> \<Longrightarrow> w = find t c"
    and del_code: "\<lbrakk>ok t; del t c = (code, w, t')\<rbrakk> \<Longrightarrow>
          code = (if find t c = None then Some ENOENT else None)"
    and del_find: "\<lbrakk>ok t; del t c = (code, w, t')\<rbrakk> \<Longrightarrow>
          find t' c' = (if cn c' = cn c then None else find t c')"
begin

lemma put_back:
  assumes "ok t" "find t c = Some w" "vn v = cn c" "put g1 g2 t v c True = (code, t')"
  shows "code = None" "ok t'" "find t' c' = (if cn c' = cn c then Some v else find t c')"
  using put_code [OF assms(1,3,4)] put_ok [OF assms(1,3,4)] put_find [OF assms(1,3,4)] assms(2)
  by simp_all

lemma put_new:
  assumes "ok t" "find t c = None" "vn v = cn c" "put True g2 t v c overwrite = (code, t')"
  shows "code = None" "ok t'" "find t' c' = (if cn c' = cn c then Some v else find t c')"
  using put_code [OF assms(1,3,4)] put_ok [OF assms(1,3,4)] put_find [OF assms(1,3,4)] assms(2)
  by simp_all

lemma simulates:
  assumes "\<And>c t. step (Find c) t = (Found (find t c), t)"
    and "\<And>g1 g2 v c ow t. step (Insert g1 g2 v c ow) t =
           (let (code, t') = put g1 g2 t v c ow in (Code code, t'))"
    and "\<And>c t. step (Remove c) t = (let (code, v, t') = del t c in (Removed code v, t'))"
    and "ok t" "find t = m" "list_all (op_named vn cn) xs"
  shows "answers step t xs = answers (map_step cn) m xs"
  using assms(4-6)
proof (induction xs arbitrary: t m)
  case (Cons x xs)
  have named: "op_named vn cn x" using Cons.prems(3) by simp
  obtain a t' where s: "step x t = (a, t')" by fastforce
  obtain b m' where r: "map_step cn x m = (b, m')" by fastforce
  have "a = b \<and> ok t' \<and> find t' = m'"
  proof (cases x)
    case (Find c)
    then show ?thesis using s r Cons.prems assms(1) by auto
  next
    case (Insert g1 g2 v c ow)
    obtain code u where p: "put g1 g2 t v c ow = (code, u)" by fastforce
    have "a = Code code" "t' = u" using s p Insert assms(2) by auto
    moreover have "find u = (if code = None then map_put cn c (Some v) m else m)"
      using put_find [OF Cons.prems(1) _ p] named Cons.prems(2) Insert
      by (auto simp: map_put_def fun_eq_iff)
    ultimately show ?thesis
      using put_ok [OF Cons.prems(1) _ p] put_code [OF Cons.prems(1) _ p] named Cons.prems(2) r Insert
      by (auto split: option.splits if_splits)
  next
    case (Remove c)
    obtain code w u where p: "del t c = (code, w, u)" by (metis prod.exhaust_sel)
    have "a = Removed code w" "t' = u" using s p Remove assms(3) by auto
    moreover have "find u = map_put cn c None m"
      using del_find [OF Cons.prems(1) p] Cons.prems(2) by (auto simp: map_put_def fun_eq_iff)
    moreover have "find t c = None \<Longrightarrow> map_put cn c None m = m"
      using find_cong [OF Cons.prems(1), of _ c] Cons.prems(2) by (auto simp: map_put_def fun_eq_iff)
    ultimately show ?thesis
      using del_ok [OF Cons.prems(1) p] del_code [OF Cons.prems(1) p] del_result [OF Cons.prems(1) p]
        Cons.prems(2) r Remove by (auto split: option.splits)
  qed
  with s r Cons.IH [of t' m'] Cons.prems(3) show ?case by simp
qed simp

end

interpretation table: named_store "table_ok vn cn" vn cn hash_table_find hash_table_insert
    hash_table_remove for vn :: "'v \<Rightarrow> 'n" and cn :: "'c \<Rightarrow> 'n"
proof unfold_locales
  show "vn v = cn c" if "table_ok vn cn t" "hash_table_find t c = Some v" for t v c
    using find_Some [OF that(1)] that(2) by simp
  show "hash_table_find t c = hash_table_find t c'" if "table_ok vn cn t" "cn c = cn c'" for t c c'
    using find_Some [OF that(1)] that(2) by (metis option.exhaust)
qed (erule (2) insert_ok | erule (1) remove_ok)+

section \<open>The table as a map\<close>

lemma create_ok:
  assumes "hash_create_table g1 g2 compare key = Some t" "names_agree vn cn compare key"
  shows "table_ok vn cn t" "hash_table_find t = Map.empty"
proof -
  have t: "flat t = []" "shape_ok t" "num_of_entries t = 0" "compare_func t = compare"
    "key_func t = key"
    using assms(1) by (auto simp: hash_create_table_def flat_def shape_ok_def
        INIT_HASH_TABLE_SIZE_def split: if_splits)
  then show ok: "table_ok vn cn t"
    using assms(2) by (simp add: table_ok_def flat_ok_def)
  show "hash_table_find t = Map.empty"
    using find_None [OF ok] t(1) by (simp add: fun_eq_iff)
qed


definition pair_history :: "(nat, nat \<times> string) store_op list" where
  "pair_history =
     [Insert True True (1, ''one'') 1 False, Insert True True (5, ''five'') 5 False,
      Insert True True (9, ''nine'') 9 False, Insert True False (2, ''two'') 2 False,
      Insert True True (13, ''more'') 13 False, Insert False True (4, ''four'') 4 False,
      Insert True True (5, ''again'') 5 False, Insert True True (5, ''new'') 5 True,
      Remove 9, Remove 9, Find 5, Find 13, Find 9]"


text \<open>
  A table of four entries in four buckets, all of one chain: a filter that drops three of
  them makes the table shrink in the middle of the walk, and the cursor is stale.
\<close>

definition four_entries :: "(nat, nat) hashtable" where
  "four_entries =
     \<lparr>ht_size = 4, num_of_entries = 4, compare_func = (=), key_func = of_nat,
      entries = [[(4, 4)], [(1, 1)], [(2, 2)], [(3, 3)]]\<rparr>"

lemma filter_loses_cursor:
  "table_ok id id four_entries \<and>
   Option.is_none (hash_filter_table_entries True four_entries (\<lambda>v s. (v = 3, v, s)) ()) \<and>
   \<not> Option.is_none (hash_filter_table_entries True four_entries (\<lambda>v s. (v \<noteq> 3, v, s)) ())"
proof (intro conjI)
  show "table_ok id id four_entries"
  proof -
    have four: "(\<forall>b < 4. P b) \<longleftrightarrow> P 0 \<and> P 1 \<and> P 2 \<and> P (3 :: nat)" for P
      by (auto simp: less_Suc_eq eval_nat_numeral)
    show ?thesis
      unfolding table_ok_def shape_ok_def four_entries_def
      by (simp add: four names_agree_def flat_ok_def flat_def)
  qed
qed code_simp+

end
