(* ===== verification/FlockSpec.thy ===== *)
theory FlockSpec
  imports Flock TableProps
begin

text \<open>
  What a list of locks promises: which user holds which byte of the file, with which type.
  \<open>covers\<close> gives the bytes of a lock as the code counts them (a lock of length 0 reaches to
  \<open>UINT64_MAX\<close>), \<open>holds\<close> the bytes of a user; the lemmas say what one call of
  \<^verbatim>\<open>__flock_split_merge\<close> and the loops over a table do to them.
\<close>

section \<open>Bytes of a lock\<close>

definition lock_end :: "uss_flock \<Rightarrow> 64 word" where
  "lock_end l = flock_get_end (start l) (len l)"

definition covers :: "uss_flock \<Rightarrow> 64 word \<Rightarrow> bool" where
  "covers l b \<longleftrightarrow> start l \<le> b \<and> b < lock_end l"

definition wf_lock :: "uss_flock \<Rightarrow> bool" where
  "wf_lock l \<longleftrightarrow> start l \<le> lock_end l"

definition holds :: "uss_flock list \<Rightarrow> 64 word \<times> 64 word \<Rightarrow> 64 word \<Rightarrow> 8 word \<Rightarrow> bool" where
  "holds ls u b ty \<longleftrightarrow> (\<exists>l \<in> set ls. (sid l, owner l) = u \<and> ltype l = ty \<and> covers l b)"

definition same_kind :: "uss_flock \<Rightarrow> uss_flock \<Rightarrow> bool" where
  "same_kind l m \<longleftrightarrow> flock_same_user l m \<and> ltype l = ltype m"

lemma range_wf: "\<not> UINT64_MAX - start l < len l \<Longrightarrow> wf_lock l"
proof -
  assume "\<not> UINT64_MAX - start l < len l"
  then have "unat (len l) \<le> unat (- 1 - start l)"
    by (simp add: UINT64_MAX_def word_le_nat_alt not_less)
  moreover have "unat (- 1 - start l) = unat (- 1 :: 64 word) - unat (start l)"
    by (rule unat_sub) simp
  moreover have "unat (- 1 :: 64 word) = 18446744073709551615" "unat (start l) < 18446744073709551616"
    using unsigned_less [of "start l"] by (simp_all add: unsigned_minus_1_eq_mask mask_eq_exp_minus_1)
  ultimately have "unat (start l) + unat (len l) < 2 ^ LENGTH(64)"
    by simp
  then have "start l \<le> start l + len l"
    by (simp add: word_le_nat_alt unat_add_lem [THEN iffD1])
  then show ?thesis
    by (simp add: wf_lock_def lock_end_def flock_get_end_def UINT64_MAX_def)
qed

lemma get_end_diff: "s < e \<Longrightarrow> flock_get_end s (e - s) = e"
  by (auto simp: flock_get_end_def)

lemma split_apart:
  assumes "flock_split_merge e p = (out, p')" "wf_lock e" "wf_lock p" "\<not> same_kind e p"
  shows "p' = p"
    and "l \<in> set out \<Longrightarrow> same_kind l e \<and> wf_lock l"
    and "(\<exists>l \<in> set out. covers l b) \<longleftrightarrow> covers e b \<and> \<not> (flock_same_user e p \<and> covers p b)"
    and "sorted_wrt (\<lambda>l m. \<not> (covers l b \<and> covers m b)) out"
  using assms
  by (auto simp: flock_split_merge_def Let_def same_kind_def flock_same_user_def covers_def wf_lock_def
      lock_end_def get_end_diff split: if_splits)

text \<open>
  A merge of two locks of one kind is right unless the existing lock begins before the
  proposed one and ends inside it (\<^verbatim>\<open>start\<close> is not moved), or the two are adjacent and one of
  them has length 0, to the end of the file (the sum of the lengths is the other length).
\<close>

definition merges_badly :: "uss_flock \<Rightarrow> uss_flock \<Rightarrow> bool" where
  "merges_badly e p \<longleftrightarrow> same_kind e p \<and>
     ((start e < start p \<and> start p < lock_end e \<and> lock_end e \<le> lock_end p) \<or>
      ((lock_end p = start e \<or> lock_end e = start p) \<and> (len e = 0 \<or> len p = 0)))"

lemma get_end_sum: "\<lbrakk>s + n = x; x \<noteq> s\<rbrakk> \<Longrightarrow> flock_get_end s n = x"
  by (auto simp: flock_get_end_def)

lemma lock_end_sum: "len l \<noteq> 0 \<Longrightarrow> lock_end l = start l + len l"
  by (simp add: lock_end_def flock_get_end_def)

lemma join_after:
  "\<lbrakk>lock_end p = start e; len p \<noteq> 0; len e \<noteq> 0; lock_end e \<noteq> start p\<rbrakk>
     \<Longrightarrow> flock_get_end (start p) (len p + len e) = lock_end e"
  by (rule get_end_sum) (simp_all add: lock_end_sum add.assoc [symmetric])

lemma join_before:
  assumes "lock_end e = start p" "len p \<noteq> 0" "len e \<noteq> 0" "lock_end p \<noteq> start e"
  shows "flock_get_end (start e) (len p + len e) = lock_end p"
proof (rule get_end_sum)
  have "start e + len e = start p" "lock_end p = start p + len p"
    using assms by (simp_all add: lock_end_sum)
  then show "start e + (len p + len e) = lock_end p"
    by (metis add.assoc add.commute)
qed (rule assms(4))

lemma join_overlap:
  assumes "lock_end p < x" "wf_lock p"
  shows "flock_get_end (start p) (len p + (x - lock_end p)) = x"
proof -
  have "len p \<noteq> 0"
  proof
    assume "len p = 0"
    then have "lock_end p = - 1"
      by (simp add: lock_end_def flock_get_end_def UINT64_MAX_def)
    with assms(1) have "- 1 < x" by (simp only:)
    then show False
      by (rule leD [OF word_n1_ge, THEN notE])
  qed
  then have "start p + len p = lock_end p" by (simp add: lock_end_sum)
  then have "start p + (len p + (x - lock_end p)) = x"
    by (simp add: add.assoc [symmetric])
  moreover have "x \<noteq> start p"
    using assms leD unfolding wf_lock_def by metis
  ultimately show ?thesis
    by (rule get_end_sum)
qed

lemma split_join:
  assumes "flock_split_merge e p = (out, p')" "wf_lock e" "wf_lock p" "same_kind e p"
    and "\<not> merges_badly e p"
  shows "same_kind p' p \<and> wf_lock p' \<and>
    ((out = [e] \<and> p' = p \<and> (\<forall>b. \<not> (covers e b \<and> covers p b))) \<or>
     (out = [] \<and> (\<forall>b. covers p' b \<longleftrightarrow> covers e b \<or> covers p b)))"
proof -
  have kind: "flock_same_user e p" "ltype e = ltype p"
    using assms(4) by (simp_all add: same_kind_def)
  have bad: "start e < start p \<Longrightarrow> start p < lock_end e \<Longrightarrow> lock_end p < lock_end e"
    "lock_end p = start e \<or> lock_end e = start p \<Longrightarrow> len e \<noteq> 0 \<and> len p \<noteq> 0"
    using assms(4,5) by (auto simp: merges_badly_def)
  have e: "start e \<le> lock_end e" and p: "start p \<le> lock_end p"
    using assms(2,3) by (simp_all add: wf_lock_def)
  note sm = assms(1) [unfolded flock_split_merge_def Let_def, folded lock_end_def]
  note sm' = sm [simplified kind, simplified]
  consider (apart) "start e > lock_end p \<or> start p > lock_end e"
    | (inside) "start p \<le> start e" "lock_end e \<le> lock_end p"
    | (after) "lock_end p = start e" "lock_end p < lock_end e"
    | (before) "lock_end e = start p" "start e < start p"
    | (overlap) "start p \<le> start e" "start e < lock_end p" "lock_end p < lock_end e"
    | (around) "start e < start p" "start p < lock_end e" "lock_end p < lock_end e"
    using bad(1) e p by (metis antisym_conv3 leD leI nless_le order_less_imp_le)
  then show ?thesis
  proof cases
    case apart
    then show ?thesis
      using sm' assms(3) by (auto simp: covers_def same_kind_def flock_same_user_def)
  next
    case inside
    then show ?thesis
      using sm' assms(3) by (auto simp: covers_def same_kind_def flock_same_user_def split: if_splits)
  next
    case after
    have p': "out = []" "p' = p\<lparr>len := len p + len e\<rparr>"
      using after sm' p e by (auto split: if_splits)
    have "lock_end p' = lock_end e"
      using join_after [of p e] after bad(2) p by (auto simp: p' lock_end_def)
    with after e p show ?thesis
      by (auto simp: covers_def same_kind_def flock_same_user_def p' wf_lock_def)
  next
    case before
    have p': "out = []" "p' = p\<lparr>start := start e, len := len p + len e\<rparr>"
      using before sm' p e by (auto split: if_splits)
    have "lock_end p' = lock_end p"
      using join_before [of e p] before bad(2) p by (auto simp: p' lock_end_def)
    with before e p show ?thesis
      by (auto simp: covers_def same_kind_def flock_same_user_def p' wf_lock_def)
  next
    case overlap
    have p': "out = []" "p' = p\<lparr>len := len p + (lock_end e - lock_end p)\<rparr>"
      using overlap sm' p e by (auto split: if_splits)
    have "lock_end p' = lock_end e"
      using join_overlap [OF overlap(3) assms(3)] by (simp add: p' lock_end_def)
    with overlap e p show ?thesis
      by (auto simp: covers_def same_kind_def flock_same_user_def p' wf_lock_def)
  next
    case around
    have p': "out = []" "p' = p\<lparr>start := start e, len := len e\<rparr>"
      using around sm' p e by (auto split: if_splits)
    have "lock_end p' = lock_end e"
      by (simp add: p' lock_end_def)
    with around e p show ?thesis
      by (auto simp: covers_def same_kind_def flock_same_user_def p' wf_lock_def)
  qed
qed

section \<open>One step\<close>

abbreviation user :: "uss_flock \<Rightarrow> 64 word \<times> 64 word" where
  "user l \<equiv> (sid l, owner l)"

definition bytes_apart :: "uss_flock \<Rightarrow> uss_flock \<Rightarrow> bool" where
  "bytes_apart l m \<longleftrightarrow> (flock_same_user l m \<longrightarrow> (\<forall>b. \<not> (covers l b \<and> covers m b)))"

text \<open>The locks of one user share no byte.\<close>

definition disjoint_locks :: "uss_flock list \<Rightarrow> bool" where
  "disjoint_locks ls \<longleftrightarrow> sorted_wrt bytes_apart ls"

definition step_ok ::
    "uss_flock \<Rightarrow> uss_flock \<Rightarrow> uss_flock list \<Rightarrow> uss_flock \<Rightarrow> bool" where
  "step_ok e p out p1 \<longleftrightarrow> same_kind p1 p \<and> wf_lock p1 \<and>
     (\<forall>b. covers p b \<longrightarrow> covers p1 b) \<and>
     (\<forall>b. covers p1 b \<longrightarrow> covers p b \<or> (same_kind e p \<and> covers e b)) \<and>
     (\<forall>l \<in> set out. same_kind l e \<and> wf_lock l) \<and>
     (\<forall>b. (\<exists>l \<in> set out. covers l b) \<longleftrightarrow> covers e b \<and> \<not> (flock_same_user e p \<and> covers p1 b)) \<and>
     disjoint_locks out"

lemma same_kind_simps [simp]:
  "same_kind l l" "flock_same_user l l"
  by (simp_all add: same_kind_def flock_same_user_def)

lemma same_user_eq: "flock_same_user l m \<longleftrightarrow> user l = user m"
  by (simp add: flock_same_user_def)

lemma step_okD:
  assumes "step_ok e p out p1"
  shows "same_kind p1 p" "wf_lock p1" "covers p b \<Longrightarrow> covers p1 b"
    and "covers p1 b \<Longrightarrow> covers p b \<or> (same_kind e p \<and> covers e b)"
    and "l \<in> set out \<Longrightarrow> same_kind l e \<and> wf_lock l"
    and "(\<exists>l \<in> set out. covers l b) \<longleftrightarrow> covers e b \<and> \<not> (flock_same_user e p \<and> covers p1 b)"
    and "disjoint_locks out"
  using assms unfolding step_ok_def by simp_all

lemma split_step:
  assumes "flock_split_merge e p = (out, p1)" "wf_lock e" "wf_lock p" "\<not> merges_badly e p"
  shows "step_ok e p out p1"
proof (cases "same_kind e p")
  case True
  from split_join [OF assms(1-3) True assms(4)] show ?thesis
    unfolding step_ok_def
    using True assms(2) by (auto simp: disjoint_locks_def same_kind_def)
next
  case False
  note s = split_apart [OF assms(1-3) False]
  have "disjoint_locks out"
    using s(4) sorted_wrt_mono_rel [of out "\<lambda>l m. True" bytes_apart]
    unfolding disjoint_locks_def sorted_wrt_iff_nth_less bytes_apart_def by blast
  then show ?thesis
    unfolding step_ok_def s(1) using s(2,3) assms(3) by (auto simp: same_kind_def)
qed

lemma overlap_byte: "\<lbrakk>covers l b; covers m b\<rbrakk> \<Longrightarrow> flock_overlap l m"
  unfolding covers_def flock_overlap_def lock_end_def Let_def by auto

lemma holds_simps [simp]:
  "holds [] u b ty \<longleftrightarrow> False"
  "holds (l # ls) u b ty \<longleftrightarrow> (user l = u \<and> ltype l = ty \<and> covers l b) \<or> holds ls u b ty"
  "holds (ls @ ms) u b ty \<longleftrightarrow> holds ls u b ty \<or> holds ms u b ty"
  by (auto simp: holds_def)

lemma step_holds:
  assumes "step_ok e p out p1"
  shows "holds out u b ty \<longleftrightarrow> holds [e] u b ty \<and> \<not> (u = user p \<and> covers p1 b)"
proof -
  have "holds out u b ty \<longleftrightarrow> user e = u \<and> ltype e = ty \<and> (\<exists>l \<in> set out. covers l b)"
    using assms unfolding step_ok_def holds_def same_kind_def same_user_eq by metis
  then show ?thesis
    using assms unfolding step_ok_def same_user_eq by auto
qed

section \<open>Locking\<close>

fun merges_well :: "uss_flock list \<Rightarrow> uss_flock \<Rightarrow> bool" where
  "merges_well [] p \<longleftrightarrow> True"
| "merges_well (e # es) p \<longleftrightarrow> \<not> merges_badly e p \<and> merges_well es (snd (flock_split_merge e p))"

definition piece_of :: "uss_flock \<Rightarrow> uss_flock list \<Rightarrow> bool" where
  "piece_of l es \<longleftrightarrow> wf_lock l \<and> (\<exists>e \<in> set es. same_kind l e \<and> (\<forall>b. covers l b \<longrightarrow> covers e b))"

definition lock_effect ::
    "uss_flock list \<Rightarrow> uss_flock \<Rightarrow> uss_flock list \<Rightarrow> uss_flock \<Rightarrow> bool" where
  "lock_effect es p outs p2 \<longleftrightarrow> same_kind p2 p \<and> wf_lock p2 \<and>
     (\<forall>b. covers p b \<longrightarrow> covers p2 b) \<and>
     (\<forall>b. covers p2 b \<longrightarrow> covers p b \<or> holds es (user p) b (ltype p)) \<and>
     (\<forall>l \<in> set outs. piece_of l es) \<and>
     (\<forall>u b ty. holds outs u b ty \<longleftrightarrow> holds es u b ty \<and> \<not> (u = user p \<and> covers p2 b)) \<and>
     disjoint_locks outs"

lemma lock_effectD:
  assumes "lock_effect es p outs p2"
  shows "same_kind p2 p" "wf_lock p2" "covers p b \<Longrightarrow> covers p2 b"
    and "covers p2 b \<Longrightarrow> covers p b \<or> holds es (user p) b (ltype p)"
    and "l \<in> set outs \<Longrightarrow> piece_of l es"
    and "holds outs u b ty \<longleftrightarrow> holds es u b ty \<and> \<not> (u = user p \<and> covers p2 b)"
    and "disjoint_locks outs"
  using assms unfolding lock_effect_def by (simp_all del: split_paired_All)

lemma same_kind_trans: "\<lbrakk>same_kind l m; same_kind m n\<rbrakk> \<Longrightarrow> same_kind l n"
  by (simp add: same_kind_def flock_same_user_def)

lemma lock_effect_nil: "wf_lock p \<Longrightarrow> lock_effect [] p [] p"
  by (simp add: lock_effect_def disjoint_locks_def)

lemma step_piece:
  assumes "step_ok e p out p1" "l \<in> set out"
  shows "piece_of l (e # es)"
  using assms unfolding step_ok_def piece_of_def by (metis list.set_intros(1))

lemma piece_mono: "piece_of l es \<Longrightarrow> piece_of l (e # es)"
  by (auto simp: piece_of_def)

lemma apart_pieces:
  assumes "piece_of l [e]" "piece_of m es" "disjoint_locks (e # es)"
  shows "bytes_apart l m"
  using assms unfolding piece_of_def disjoint_locks_def bytes_apart_def same_kind_def flock_same_user_def
  by (simp, metis)

lemma lock_effect_step:
  assumes st: "step_ok e p out p1" and lp: "lock_effect es p1 outs p2" and dis: "disjoint_locks (e # es)"
  shows "lock_effect (e # es) p (out @ outs) p2"
proof -
  note s = step_okD [OF st] and r = lock_effectD [OF lp]
  have u: "user p1 = user p" "ltype p1 = ltype p"
    using s(1) by (simp_all add: same_kind_def same_user_eq)
  have kept: "\<not> covers p2 b" if "covers e b" "user e = user p" "\<not> covers p1 b" for b
  proof
    assume "covers p2 b"
    with r(4) that(3) u have "holds es (user p) b (ltype p)" by auto
    then obtain e' where "e' \<in> set es" "user e' = user p" "covers e' b"
      unfolding holds_def by auto
    then show False
      using dis that(1,2) unfolding disjoint_locks_def bytes_apart_def same_user_eq by auto
  qed
  have hold: "holds (out @ outs) v b ty \<longleftrightarrow> holds (e # es) v b ty \<and> \<not> (v = user p \<and> covers p2 b)"
    for v b ty
    using step_holds [OF st, of v b ty] r(6) [of v b ty] kept [of b] r(3) [of b] u by auto
  have bytes: "covers p b \<or> holds (e # es) (user p) b (ltype p)" if "covers p2 b" for b
    using r(4) [OF that] s(4) [of b] u by (auto simp: same_kind_def same_user_eq)
  have "disjoint_locks (out @ outs)"
    using s(7) r(7) apart_pieces [OF step_piece [OF st] r(5) dis]
    unfolding disjoint_locks_def sorted_wrt_append by blast
  moreover have "\<forall>l \<in> set (out @ outs). piece_of l (e # es)"
    using r(5) step_piece [OF st] piece_mono by auto
  moreover have "same_kind p2 p"
    by (rule same_kind_trans [OF r(1) s(1)])
  ultimately show ?thesis
    unfolding lock_effect_def using hold bytes s(3) r(2,3) by blast
qed

text \<open>Two users whose locks exclude each other: not all read locks.\<close>

definition rivals :: "uss_flock \<Rightarrow> uss_flock \<Rightarrow> bool" where
  "rivals l m \<longleftrightarrow> user l \<noteq> user m \<and> \<not> (ltype l = USS_RDLOCK \<and> ltype m = USS_RDLOCK)"

definition exclusive :: "uss_flock list \<Rightarrow> bool" where
  "exclusive ls \<longleftrightarrow>
     (\<forall>l \<in> set ls. \<forall>m \<in> set ls. rivals l m \<longrightarrow> (\<forall>b. \<not> (covers l b \<and> covers m b)))"

lemma nonempty_lock:
  assumes "wf_lock l" "start l < x"
  shows "start l < lock_end l"
proof (cases "len l = 0")
  case True
  then have "lock_end l = - 1"
    by (simp add: lock_end_def flock_get_end_def UINT64_MAX_def)
  moreover have "start l \<noteq> - 1"
    using assms(2) word_n1_ge [of x] by (metis leD)
  ultimately show ?thesis
    using word_n1_ge [of "start l"] by (metis le_neq_trans)
next
  case False
  then show ?thesis
    using assms(1) by (auto simp: wf_lock_def lock_end_sum order.order_iff_strict)
qed

lemma overlap_iff:
  assumes "wf_lock l" "wf_lock m"
  shows "flock_overlap l m \<longleftrightarrow> (\<exists>b. covers l b \<and> covers m b)"
proof
  assume "flock_overlap l m"
  then have o: "start l < lock_end m" "start m < lock_end l"
    by (auto simp: flock_overlap_def lock_end_def Let_def)
  with nonempty_lock assms have n: "start l < lock_end l" "start m < lock_end m"
    by blast+
  show "\<exists>b. covers l b \<and> covers m b"
  proof (cases "start l \<le> start m")
    case True
    then show ?thesis using o n by (auto simp: covers_def intro!: exI [of _ "start m"])
  next
    case False
    then show ?thesis using o n by (auto simp: covers_def intro!: exI [of _ "start l"])
  qed
qed (auto intro: overlap_byte)

lemma conflict_iff:
  assumes "wf_lock l" "wf_lock m"
  shows "flock_conflict l m \<longleftrightarrow> rivals l m \<and> (\<exists>b. covers l b \<and> covers m b)"
  by (auto simp: flock_conflict_def rivals_def same_user_eq overlap_iff [OF assms])

lemma lock_loop_ok:
  assumes "lock_loop es p = (None, p2, outs)" "\<forall>e \<in> set es. wf_lock e" "wf_lock p"
    and "disjoint_locks es" "merges_well es p"
  shows "lock_effect es p outs p2"
  using assms
proof (induction es arbitrary: p outs)
  case Nil
  then show ?case by (simp add: lock_effect_nil)
next
  case (Cons e es)
  obtain out p1 where sm: "flock_split_merge e p = (out, p1)" by fastforce
  obtain code p3 outs' where lp: "lock_loop es p1 = (code, p3, outs')" by (metis prod.exhaust_sel)
  have eq: "code = None" "p3 = p2" "outs = out @ outs'"
    using Cons.prems(1) sm lp by (auto split: if_splits)
  have st: "step_ok e p out p1"
    using split_step [OF sm] Cons.prems by simp
  have "lock_effect es p1 outs' p2"
    using Cons.IH [of p1 outs'] lp eq Cons.prems sm step_okD(2) [OF st]
    by (simp add: disjoint_locks_def)
  then show ?case
    unfolding eq by (rule lock_effect_step [OF st _ Cons.prems(4)])
qed

lemma exclusive_Cons:
  "exclusive (e # es) \<Longrightarrow> exclusive es"
  "\<lbrakk>exclusive (e # es); f \<in> set es; rivals f e\<rbrakk> \<Longrightarrow> \<not> (covers f b \<and> covers e b)"
  by (auto simp: exclusive_def)

text \<open>The lock is refused exactly when a rival holds one of its bytes.\<close>

lemma lock_loop_code:
  assumes "\<forall>e \<in> set es. wf_lock e" "wf_lock p" "exclusive es" "merges_well es p"
  shows "fst (lock_loop es p) =
    (if \<exists>e \<in> set es. flock_conflict e p then Some EAGAIN else None)"
  using assms
proof (induction es arbitrary: p)
  case (Cons e es)
  obtain out p1 where sm: "flock_split_merge e p = (out, p1)" by fastforce
  have st: "step_ok e p out p1"
    using split_step [OF sm] Cons.prems by simp
  note s = step_okD [OF st]
  have rival: "rivals f p1 \<longleftrightarrow> rivals f p" for f
    using s(1) by (simp add: rivals_def same_kind_def same_user_eq)
  have "flock_conflict f p1 \<longleftrightarrow> flock_conflict f p" if f: "f \<in> set es" for f
  proof -
    have wf: "wf_lock f" using f Cons.prems(1) by simp
    have "covers p b" if "rivals f p" "covers f b" "covers p1 b" for b
    proof (rule ccontr)
      assume "\<not> covers p b"
      then have "same_kind e p" "covers e b" using s(4) that(3) by blast+
      moreover from this have "rivals f e"
        using that(1) by (simp add: rivals_def same_kind_def same_user_eq)
      ultimately show False
        using exclusive_Cons(2) [OF Cons.prems(3) f] that(2) by blast
    qed
    then show ?thesis
      unfolding conflict_iff [OF wf s(2)] conflict_iff [OF wf Cons.prems(2)] rival
      using s(3) by blast
  qed
  moreover have "fst (lock_loop es p1) =
      (if \<exists>e \<in> set es. flock_conflict e p1 then Some EAGAIN else None)"
    using Cons.IH [of p1] Cons.prems s(2) exclusive_Cons(1) sm by simp
  ultimately show ?case
    using sm by (auto simp: split_def Let_def)
qed simp

section \<open>Tables\<close>

definition locks_ok :: "uss_flock list \<Rightarrow> bool" where
  "locks_ok ls \<longleftrightarrow> (\<forall>l \<in> set ls. wf_lock l \<and> ltype l \<noteq> USS_UNLOCK) \<and> disjoint_locks ls \<and> exclusive ls"

lemma locks_okD:
  assumes "locks_ok ls"
  shows "\<forall>l \<in> set ls. wf_lock l" "\<forall>l \<in> set ls. ltype l \<noteq> USS_UNLOCK" "disjoint_locks ls" "exclusive ls"
  using assms unfolding locks_ok_def by blast+

lemma one_type:
  assumes "disjoint_locks ls" "holds ls u b ty" "holds ls u b ty'"
  shows "ty = ty'"
  using assms
proof (induction ls)
  case (Cons l ls)
  then show ?case
    unfolding disjoint_locks_def bytes_apart_def same_user_eq holds_def
    by (auto simp: disjoint_locks_def holds_def)
qed simp

lemma apart_commute: "bytes_apart l m \<longleftrightarrow> bytes_apart m l"
  by (auto simp: bytes_apart_def same_user_eq)

lemma disjoint_insert:
  assumes "disjoint_locks ls" "\<forall>l \<in> set ls. bytes_apart p l"
  shows "disjoint_locks (insert_by_start p ls)"
proof -
  let ?P = "\<lambda>l. \<not> start l > start p"
  have "disjoint_locks (takeWhile ?P ls @ dropWhile ?P ls)"
    using assms(1) by simp
  then show ?thesis
    using assms(2) apart_commute set_takeWhileD [of _ ?P ls] set_dropWhileD [of _ ?P ls]
    unfolding disjoint_locks_def insert_by_start_def sorted_wrt_append by simp
qed

lemma set_insert_by_start: "set (insert_by_start p ls) = insert p (set ls)"
proof -
  have "set ls = set (takeWhile Q ls) \<union> set (dropWhile Q ls)" for Q
    by (metis set_append takeWhile_dropWhile_id)
  then show ?thesis
    by (simp add: insert_by_start_def)
qed

lemma pieces_type:
  "\<lbrakk>piece_of l es; \<forall>e \<in> set es. ltype e \<noteq> ty\<rbrakk> \<Longrightarrow> ltype l \<noteq> ty"
  by (auto simp: piece_of_def same_kind_def)

lemma pieces_exclusive:
  assumes "piece_of l es" "piece_of m es" "exclusive es" "rivals l m"
  shows "\<not> (covers l b \<and> covers m b)"
proof
  assume c: "covers l b \<and> covers m b"
  obtain e f where "e \<in> set es" "f \<in> set es" "same_kind l e" "same_kind m f" "covers e b" "covers f b"
    using assms(1,2) c unfolding piece_of_def by blast
  then show False
    using assms(3,4) unfolding exclusive_def rivals_def same_kind_def same_user_eq by force
qed

lemma holds_insert:
  "holds (insert_by_start p ls) u b ty \<longleftrightarrow> (u = user p \<and> ty = ltype p \<and> covers p b) \<or> holds ls u b ty"
  unfolding holds_def set_insert_by_start by auto

text \<open>What a granted lock does to the bytes of the file.\<close>

lemma lock_holds:
  assumes "lock_effect ls p outs p2" "disjoint_locks ls"
  shows "holds (insert_by_start p2 outs) u b ty \<longleftrightarrow>
    (if u = user p \<and> covers p b then ty = ltype p else holds ls u b ty)"
proof -
  note r = lock_effectD [OF assms(1)]
  have p2: "user p2 = user p" "ltype p2 = ltype p"
    using r(1) by (simp_all add: same_kind_def same_user_eq)
  have "ty' = ltype p" if "holds ls (user p) b ty'" "covers p2 b" "\<not> covers p b" for ty'
    using r(4) [of b] that one_type [OF assms(2)] by metis
  then show ?thesis
    unfolding holds_insert p2 r(6) [of u b ty]
    using r(3,4) [of b] by (cases "u = user p") auto
qed

lemma lock_locks_ok:
  assumes ok: "locks_ok ls" and p: "wf_lock p" "ltype p \<noteq> USS_UNLOCK" "merges_well ls p"
    and lp: "lock_loop ls p = (None, p2, outs)"
  shows "locks_ok (insert_by_start p2 outs)" "lock_effect ls p outs p2"
proof -
  note ls = locks_okD [OF ok]
  show l: "lock_effect ls p outs p2"
    by (rule lock_loop_ok [OF lp ls(1) p(1) ls(3) p(3)])
  note r = lock_effectD [OF l]
  have p2: "user p2 = user p" "ltype p2 = ltype p"
    using r(1) by (simp_all add: same_kind_def same_user_eq)
  have free: "\<not> flock_conflict e p" if "e \<in> set ls" for e
    using lock_loop_code [OF ls(1) p(1) ls(4) p(3)] lp that by (auto split: if_splits)
  have no_rival: "\<not> (covers p2 b \<and> covers m b)" if m: "m \<in> set outs" "rivals p2 m" for m b
  proof
    assume c: "covers p2 b \<and> covers m b"
    obtain f where f: "f \<in> set ls" "same_kind m f" "covers f b"
      using r(5) [OF m(1)] c unfolding piece_of_def by blast
    have riv: "rivals f p"
      using m(2) f(2) p2 by (auto simp: rivals_def same_kind_def same_user_eq)
    have "covers p b \<or> holds ls (user p) b (ltype p)"
      using r(4) c by blast
    then show False
    proof
      assume "covers p b"
      then show False
        using free [OF f(1)] riv f(3) conflict_iff [of f p] ls(1) f(1) p(1) by blast
    next
      assume "holds ls (user p) b (ltype p)"
      then obtain e where "e \<in> set ls" "user e = user p" "ltype e = ltype p" "covers e b"
        unfolding holds_def by auto
      then show False
        using ls(4) f(1,3) riv unfolding exclusive_def rivals_def by force
    qed
  qed
  have "bytes_apart p2 m" if "m \<in> set outs" for m
  proof -
    have "holds outs (user m) b (ltype m)" if "covers m b" for b
      using that \<open>m \<in> set outs\<close> by (auto simp: holds_def)
    then show ?thesis
      using r(6) p2 unfolding bytes_apart_def same_user_eq by metis
  qed
  then have "disjoint_locks (insert_by_start p2 outs)"
    by (simp add: disjoint_insert [OF r(7)])
  moreover have "exclusive (insert_by_start p2 outs)"
  proof -
    have "rivals l m \<Longrightarrow> rivals m l" for l m by (auto simp: rivals_def)
    moreover have "\<not> rivals l l" for l by (simp add: rivals_def)
    ultimately show ?thesis
      unfolding exclusive_def set_insert_by_start
      using no_rival pieces_exclusive [OF r(5) r(5) ls(4)] by blast
  qed
  moreover have "\<forall>l \<in> set (insert_by_start p2 outs). wf_lock l \<and> ltype l \<noteq> USS_UNLOCK"
    unfolding set_insert_by_start
    using r(2,5) p2 p(2) pieces_type [OF r(5) ls(2)] by (auto simp: piece_of_def)
  ultimately show "locks_ok (insert_by_start p2 outs)"
    by (simp add: locks_ok_def)
qed

section \<open>Unlocking\<close>

lemma split_two:
  assumes "flock_split_merge e p = (l # m # out, p1)"
  shows "flock_same_user e p" "covers p b \<Longrightarrow> covers e b"
  using assms
  by (auto simp: flock_split_merge_def Let_def covers_def lock_end_def split: if_splits)

lemma split_same_length:
  assumes "flock_split_merge e p = ([l], p1)" "len l = len e" "wf_lock e"
  shows "l = e"
proof -
  have "lock_end e - x \<noteq> len e" if "x \<noteq> start e" "x < lock_end e" for x
  proof
    assume eq: "lock_end e - x = len e"
    then have "len e \<noteq> 0" using that(2) by auto
    then show False using eq that(1) by (simp add: lock_end_sum)
  qed
  moreover have "x - start e \<noteq> len e" if "x \<noteq> lock_end e" "start e < x" for x
  proof
    assume eq: "x - start e = len e"
    then have "len e \<noteq> 0" using that(2) by auto
    then show False using eq that(1) by (auto simp: lock_end_sum diff_eq_eq add.commute)
  qed
  ultimately show ?thesis
    using assms by (auto simp: flock_split_merge_def Let_def lock_end_def [symmetric] split: if_splits)
qed

lemma unlock_loop_ok:
  assumes "unlock_loop es p = (arr, found, p')" "\<forall>e \<in> set es. wf_lock e" "wf_lock p"
    and "disjoint_locks es" "\<forall>e \<in> set es. ltype e \<noteq> ltype p"
  shows "p' = p \<and> lock_effect es p arr p \<and> (\<not> found \<longrightarrow> arr = es)"
  using assms
proof (induction es arbitrary: arr found p')
  case Nil
  then show ?case by (simp add: lock_effect_nil)
next
  case (Cons e es)
  obtain out p1 where sm: "flock_split_merge e p = (out, p1)" by fastforce
  obtain arr' found' p2 where rest: "unlock_loop es p = (arr', found', p2)"
    by (metis prod.exhaust_sel)
  have kind: "\<not> same_kind e p" using Cons.prems(5) by (simp add: same_kind_def)
  then have st: "step_ok e p out p1" and p1: "p1 = p"
    using split_step [OF sm] split_apart(1) [OF sm] Cons.prems by (auto simp: merges_badly_def)
  have ih: "p2 = p" "lock_effect es p arr' p" "\<not> found' \<Longrightarrow> arr' = es"
    using Cons.IH [OF rest] Cons.prems by (auto simp: disjoint_locks_def)
  note go = lock_effect_step [OF st [unfolded p1] ih(2) Cons.prems(4)]
  consider (none) "out = []" | (one) l where "out = [l]" | (two) l m out' where "out = l # m # out'"
    by (metis neq_Nil_conv)
  then show ?case
  proof cases
    case none
    then show ?thesis using Cons.prems(1) sm rest p1 ih(1) go by auto
  next
    case one
    then show ?thesis
      using Cons.prems(1,2) sm rest p1 ih go split_same_length [of e p l p1]
      by (auto simp: one)
  next
    case two
    have "lock_effect es p es p"
    proof -
      have "holds es u b ty \<longleftrightarrow> holds es u b ty \<and> \<not> (u = user p \<and> covers p b)" for u b ty
      proof -
        have "\<not> covers p b" if "holds es (user p) b ty"
          using that split_two [OF sm [unfolded two]] Cons.prems(4)
          unfolding holds_def disjoint_locks_def bytes_apart_def same_user_eq by auto
        then show ?thesis by auto
      qed
      moreover have "disjoint_locks es" "\<forall>l \<in> set es. piece_of l es"
        using Cons.prems(2,4) by (auto simp: disjoint_locks_def piece_of_def intro: same_kind_simps)
      ultimately show ?thesis
        unfolding lock_effect_def using Cons.prems(3) by simp
    qed
    from lock_effect_step [OF st [unfolded p1] this Cons.prems(4)] show ?thesis
      using Cons.prems(1) sm two p1 by auto
  qed
qed

end
