(* ===== verification/FlockProps.thy ===== *)
theory FlockProps
  imports FlockSpec
begin

text \<open>
  The lock service as a whole: what \<^verbatim>\<open>flock_mds_op\<close> does to the bytes of every file, over the
  hash table (through the interface \<open>named_store\<close>) and the key-value store. The store is
  assumed to be one (\<open>infodb_ok\<close>): a get gives what the last put of that file wrote, and
  nothing after a remove.
\<close>

section \<open>The locks of a file\<close>

type_synonym fname = "64 word \<times> 64 word"

definition name :: "fileid \<Rightarrow> fname" where
  "name f = (fid f, volid f)"

definition tname :: "uss_flock_table \<Rightarrow> fname" where
  "tname t = name (fileid_of t)"

definition infodb_ok :: "'d infodb \<Rightarrow> bool" where
  "infodb_ok ops \<longleftrightarrow>
     (\<forall>f f' ls d. db_get ops f (db_put ops f' ls d) = (if name f = name f' then Some ls else db_get ops f d)) \<and>
     (\<forall>f f' d. db_get ops f (db_remove ops f' d) = (if name f = name f' then None else db_get ops f d)) \<and>
     (\<forall>f f' d. name f = name f' \<longrightarrow> db_get ops f d = db_get ops f' d)"

definition locks_at :: "'d infodb \<Rightarrow> 'd flocks \<Rightarrow> fileid \<Rightarrow> uss_flock list" where
  "locks_at ops st f =
     (case hash_table_find (fhashtable st) f of
        Some t \<Rightarrow> locks t
      | None \<Rightarrow> (case db_get ops f (flockdb st) of None \<Rightarrow> [] | Some ls \<Rightarrow> ls))"

abbreviation cache_ok :: "(fileid, uss_flock_table) hashtable \<Rightarrow> bool" where
  "cache_ok h \<equiv> table_ok tname name h"

definition flocks_ok :: "'d infodb \<Rightarrow> 'd flocks \<Rightarrow> bool" where
  "flocks_ok ops st \<longleftrightarrow> cache_ok (fhashtable st) \<and> (\<forall>f. locks_ok (locks_at ops st f))"

lemma infodb_okD:
  assumes "infodb_ok ops"
  shows "db_get ops f (db_put ops f' ls d) = (if name f = name f' then Some ls else db_get ops f d)"
    and "db_get ops f (db_remove ops f' d) = (if name f = name f' then None else db_get ops f d)"
    and "name f = name f' \<Longrightarrow> db_get ops f d = db_get ops f' d"
  using assms unfolding infodb_ok_def by blast+

lemma locks_at_cong:
  "\<lbrakk>infodb_ok ops; cache_ok (fhashtable st); name f = name f'\<rbrakk>
     \<Longrightarrow> locks_at ops st f = locks_at ops st f'"
  unfolding locks_at_def using infodb_okD(3) table.find_cong by metis

lemma set_value_ok:
  assumes ok: "table_ok vn cn t" and found: "hash_table_find t c = Some w" and v: "vn v = cn c"
  shows "table_ok vn cn (set_value t c v)"
    and "hash_table_find (set_value t c v) c' = (if cn c' = cn c then Some v else hash_table_find t c')"
proof -
  obtain b p success where look: "hashtable_lookup t (Some c) (key_func t c) = ((b, p), success)"
    by (metis prod.exhaust_sel)
  note r = lookup_result [OF ok look]
  have success using found r(6) by fastforce
  with look r(5) have "set_value t c v = store_at (b, p) (key_func t c, v) t"
    by (simp add: set_value_def)
  then show "table_ok vn cn (set_value t c v)"
    "hash_table_find (set_value t c v) c' = (if cn c' = cn c then Some v else hash_table_find t c')"
    using store_found [OF ok _ v] look \<open>success\<close> by simp_all
qed

lemma flock_insert_ok:
  assumes "cache_ok (fhashtable st)" "hash_table_find (fhashtable st) f = None"
  shows "\<exists>h. flock_insert f ls st = Some (\<lparr>fileid_of = f, locks = ls\<rparr>, st\<lparr>fhashtable := h\<rparr>) \<and>
    cache_ok h \<and> (\<forall>f'. hash_table_find h f' =
      (if name f' = name f then Some \<lparr>fileid_of = f, locks = ls\<rparr>
       else hash_table_find (fhashtable st) f'))"
proof -
  let ?t = "\<lparr>fileid_of = f, locks = ls\<rparr>"
  obtain code h where i: "hash_table_insert True True (fhashtable st) ?t f False = (code, h)"
    by fastforce
  have t: "tname ?t = name f" by (simp add: tname_def)
  note new = table.put_new [OF assms t i]
  have "flock_insert f ls st = Some (?t, st\<lparr>fhashtable := h\<rparr>)"
    using new(1) by (simp add: flock_insert_def i)
  with new(2,3) show ?thesis by blast
qed

text \<open>Looking a table up may load it from the store; no lock of any file changes.\<close>

lemma get_ftable_ok:
  assumes db: "infodb_ok ops" and ok: "flocks_ok ops st"
  obtains ot h where "flock_get_ftable ops f st = Some (ot, st\<lparr>fhashtable := h\<rparr>)"
    and "cache_ok h" "locks_at ops (st\<lparr>fhashtable := h\<rparr>) = locks_at ops st"
    and "hash_table_find h f = ot"
    and "\<And>t. ot = Some t \<Longrightarrow> locks t = locks_at ops st f \<and> tname t = name f"
    and "ot = None \<Longrightarrow> locks_at ops st f = []"
proof (cases "hash_table_find (fhashtable st) f")
  case (Some t)
  have "flock_get_ftable ops f st = Some (Some t, st\<lparr>fhashtable := fhashtable st\<rparr>)"
    by (simp add: flock_get_ftable_def Some)
  moreover have "tname t = name f"
    using table.find_name [where vn = tname and cn = name, OF _ Some] ok by (simp add: flocks_ok_def)
  ultimately show ?thesis
    using ok Some by (intro that [of "Some t" "fhashtable st"]) (simp_all add: flocks_ok_def locks_at_def)
next
  case none: None
  show ?thesis
  proof (cases "db_get ops f (flockdb st)")
    case None
    have "flock_get_ftable ops f st = Some (None, st\<lparr>fhashtable := fhashtable st\<rparr>)"
      by (simp add: flock_get_ftable_def none None)
    then show ?thesis
      using ok none None by (intro that [of None "fhashtable st"]) (simp_all add: flocks_ok_def locks_at_def)
  next
    case (Some ls)
    have cache: "cache_ok (fhashtable st)" using ok by (simp add: flocks_ok_def)
    obtain h where h: "flock_insert f ls st = Some (\<lparr>fileid_of = f, locks = ls\<rparr>, st\<lparr>fhashtable := h\<rparr>)"
      "cache_ok h" "\<And>f'. hash_table_find h f' =
        (if name f' = name f then Some \<lparr>fileid_of = f, locks = ls\<rparr>
         else hash_table_find (fhashtable st) f')"
      using flock_insert_ok [OF cache none, of ls] by blast
    have same: "hash_table_find (fhashtable st) f' = None \<and> db_get ops f' (flockdb st) = Some ls"
      if "name f' = name f" for f'
      using that none Some table.find_cong [OF cache that] infodb_okD(3) [OF db that] by simp
    have "locks_at ops (st\<lparr>fhashtable := h\<rparr>) f' = locks_at ops st f'" for f'
      using h(3) same [of f'] by (cases "name f' = name f") (simp_all add: locks_at_def cong: option.case_cong)
    moreover have "flock_get_ftable ops f st =
        Some (Some \<lparr>fileid_of = f, locks = ls\<rparr>, st\<lparr>fhashtable := h\<rparr>)"
      by (simp add: flock_get_ftable_def none Some h(1))
    ultimately show ?thesis
      using h(2,3) none Some
      by (intro that [of "Some \<lparr>fileid_of = f, locks = ls\<rparr>" h])
        (auto simp: locks_at_def tname_def fun_eq_iff)
  qed
qed

text \<open>Writing a table through to the store.\<close>

lemma flock_store_ok:
  assumes db: "infodb_ok ops" and cache: "cache_ok (fhashtable st)"
    and t: "hash_table_find (fhashtable st) f = Some t" "tname t = name f"
  shows "cache_ok (fhashtable (flock_store ops f t st))"
    and "locks_at ops (flock_store ops f t st) f' = (if name f' = name f then locks t else locks_at ops st f')"
    and "mutex (flock_store ops f t st) = mutex st"
proof -
  obtain code w h where r: "hash_table_remove (fhashtable st) f = (code, w, h)"
    by (metis prod.exhaust_sel)
  have cong: "hash_table_find (fhashtable st) f' = Some t" if "name f' = name f"
    using table.find_cong [OF cache that] t(1) by simp
  have tn: "name (fileid_of t) = name f" using t(2) by (simp add: tname_def)
  show "cache_ok (fhashtable (flock_store ops f t st))"
    using cache table.del_ok [OF cache r] by (simp add: flock_store_def r)
  show "locks_at ops (flock_store ops f t st) f' = (if name f' = name f then locks t else locks_at ops st f')"
  proof (cases "name f' = name f")
    case True
    then show ?thesis
      using infodb_okD(2) [OF db, of f' f "flockdb st"] table.del_find [OF cache r, of f'] cong
      by (cases "locks t = []") (simp_all add: flock_store_def r locks_at_def)
  next
    case False
    then show ?thesis
      using infodb_okD(2) [OF db, of f' f "flockdb st"] table.del_find [OF cache r, of f'] tn
        infodb_okD(1) [OF db, of f' "fileid_of t" "locks t" "flockdb st"]
      by (cases "locks t = []") (simp_all add: flock_store_def r locks_at_def split: option.split)
  qed
  show "mutex (flock_store ops f t st) = mutex st"
    by (simp add: flock_store_def)
qed

section \<open>Setting and releasing locks\<close>

text \<open>A user's bytes over the locks of every file.\<close>

definition holds_at ::
    "'d infodb \<Rightarrow> 'd flocks \<Rightarrow> fileid \<Rightarrow> 64 word \<times> 64 word \<Rightarrow> 64 word \<Rightarrow> 8 word \<Rightarrow> bool" where
  "holds_at ops st f = holds (locks_at ops st f)"

lemma flock_mutex_simps [simp]:
  "fhashtable (flock_mutex d st) = fhashtable st" "flockdb (flock_mutex d st) = flockdb st"
  "mutex (flock_mutex d st) = mutex st + d" "locks_at ops (flock_mutex d st) = locks_at ops st"
  "flocks_ok ops (flock_mutex d st) = flocks_ok ops st"
  by (simp_all add: flock_mutex_def locks_at_def flocks_ok_def fun_eq_iff cong: option.case_cong)

lemma unlock_table:
  assumes "locks_ok (locks t)" "wf_lock p" "ltype p = USS_UNLOCK" "flock_unlock p t = (p', t')"
  shows "p' = p" "locks_ok (locks t')" "fileid_of t' = fileid_of t"
    and "holds (locks t') u b ty \<longleftrightarrow> holds (locks t) u b ty \<and> \<not> (u = user p \<and> covers p b)"
proof -
  note ls = locks_okD [OF assms(1)]
  obtain arr found p2 where ul: "unlock_loop (locks t) p = (arr, found, p2)"
    by (metis prod.exhaust_sel)
  have r: "p2 = p" "lock_effect (locks t) p arr p" "\<not> found \<Longrightarrow> arr = locks t"
    using unlock_loop_ok [OF ul ls(1) assms(2) ls(3)] ls(2) assms(3) by auto
  have t': "locks t' = arr" "fileid_of t' = fileid_of t" and p': "p' = p"
    using assms(4) r by (auto simp: flock_unlock_def ul)
  note l = lock_effectD [OF r(2)]
  have "exclusive arr"
    using pieces_exclusive [OF l(5) l(5) ls(4)] unfolding exclusive_def by blast
  moreover have "\<forall>l \<in> set arr. wf_lock l \<and> ltype l \<noteq> USS_UNLOCK"
    using l(5) pieces_type [OF l(5) ls(2)] by (auto simp: piece_of_def)
  ultimately show "locks_ok (locks t')"
    using l(7) by (simp add: locks_ok_def t')
  show "p' = p" "fileid_of t' = fileid_of t"
    by (fact p' t')+
  show "holds (locks t') u b ty \<longleftrightarrow> holds (locks t) u b ty \<and> \<not> (u = user p \<and> covers p b)"
    unfolding t' by (rule l(6))
qed

lemma lock_table:
  assumes ok: "locks_ok (locks t)" and p: "wf_lock p" "ltype p \<noteq> USS_UNLOCK" "merges_well (locks t) p"
    and fl: "flock_lock p t = (code, p', t')"
  shows "locks_ok (locks t')" "fileid_of t' = fileid_of t"
    and "code = (if \<exists>e \<in> set (locks t). flock_conflict e p then Some EAGAIN else None)"
    and "holds (locks t') u b ty \<longleftrightarrow>
           (if code = None \<and> u = user p \<and> covers p b then ty = ltype p else holds (locks t) u b ty)"
proof -
  note ls = locks_okD [OF ok]
  obtain c p2 outs where lp: "lock_loop (locks t) p = (c, p2, outs)"
    by (metis prod.exhaust_sel)
  have c: "code = c" using fl lp by (auto simp: flock_lock_def split: option.splits)
  show "code = (if \<exists>e \<in> set (locks t). flock_conflict e p then Some EAGAIN else None)"
    using lock_loop_code [OF ls(1) p(1) ls(4) p(3)] lp c by simp
  have "locks_ok (locks t') \<and> fileid_of t' = fileid_of t \<and>
    (holds (locks t') u b ty \<longleftrightarrow>
       (if code = None \<and> u = user p \<and> covers p b then ty = ltype p else holds (locks t) u b ty))"
  proof (cases c)
    case None
    have "locks t' = insert_by_start p2 outs" "fileid_of t' = fileid_of t"
      using fl lp None by (auto simp: flock_lock_def)
    then show ?thesis
      using lock_locks_ok [OF ok p lp [unfolded None]] lock_holds [OF _ ls(3)] c None by simp
  next
    case (Some e)
    then have "t' = t" using fl lp by (auto simp: flock_lock_def)
    then show ?thesis using ok c Some by simp
  qed
  then show "locks_ok (locks t')" "fileid_of t' = fileid_of t"
    "holds (locks t') u b ty \<longleftrightarrow>
       (if code = None \<and> u = user p \<and> covers p b then ty = ltype p else holds (locks t) u b ty)"
    by blast+
qed

text \<open>Replacing the locks of one file.\<close>

lemma flocks_ok_update:
  assumes "flocks_ok ops st" "cache_ok (fhashtable st')" "locks_ok ls"
    and "\<And>f'. locks_at ops st' f' = (if name f' = name f then ls else locks_at ops st f')"
  shows "flocks_ok ops st'"
  using assms by (simp add: flocks_ok_def)

lemma update_table:
  assumes db: "infodb_ok ops" and cache: "cache_ok h"
    and t: "hash_table_find h f = Some t" "tname t = name f"
    and t': "fileid_of t' = fileid_of t"
    and st2: "st2 = st\<lparr>fhashtable := set_value h f t'\<rparr>"
  shows "cache_ok (fhashtable st2)" "hash_table_find (fhashtable st2) f = Some t'" "tname t' = name f"
    and "locks_at ops st2 f' =
           (if name f' = name f then locks t' else locks_at ops (st\<lparr>fhashtable := h\<rparr>) f')"
proof -
  show tn: "tname t' = name f" using t(2) t' by (simp add: tname_def)
  note v = set_value_ok [OF cache t(1) tn]
  show "cache_ok (fhashtable st2)" "hash_table_find (fhashtable st2) f = Some t'"
    using v by (simp_all add: st2)
  show "locks_at ops st2 f' =
      (if name f' = name f then locks t' else locks_at ops (st\<lparr>fhashtable := h\<rparr>) f')"
    using v(2) by (simp add: st2 locks_at_def cong: option.case_cong)
qed

lemma setlock_existing:
  assumes db: "infodb_ok ops" and ok: "flocks_ok ops st" and range: "\<not> UINT64_MAX - start p < len p"
    and get: "flock_get_ftable ops f (flock_mutex 1 st) = Some (Some t, (flock_mutex 1 st)\<lparr>fhashtable := h\<rparr>)"
    and h: "cache_ok h" "locks_at ops ((flock_mutex 1 st)\<lparr>fhashtable := h\<rparr>) = locks_at ops (flock_mutex 1 st)"
    and t: "hash_table_find h f = Some t" "tname t = name f"
    and op: "(if ltype p \<noteq> USS_UNLOCK then flock_lock p t else (None, flock_unlock p t)) = (code, p', t')"
    and t': "fileid_of t' = fileid_of t" "locks_ok (locks t')" "code \<noteq> None \<Longrightarrow> t' = t"
  obtains st' where "flock_setlock ops f p st = Some (code, p', st')" "flocks_ok ops st'"
    and "mutex st' = mutex st"
    and "\<And>f'. locks_at ops st' f' = (if name f' = name f then locks t' else locks_at ops st f')"
proof -
  let ?st1 = "(flock_mutex 1 st)\<lparr>fhashtable := h\<rparr>"
  let ?st2 = "?st1\<lparr>fhashtable := set_value h f t'\<rparr>"
  note u = update_table [OF db h(1) t t'(1), of ?st2 "flock_mutex 1 st"]
  define st' where "st' = flock_mutex (- 1) (if code = None then flock_store ops f t' ?st2 else ?st2)"
  have at: "locks_at ops ?st2 f' = (if name f' = name f then locks t' else locks_at ops st f')" for f'
    using u(4) h(2) by simp
  note s = flock_store_ok [OF db u(1,2,3)]
  have at': "locks_at ops st' f' = (if name f' = name f then locks t' else locks_at ops st f')" for f'
    using s(2) at by (simp add: st'_def)
  have cache': "cache_ok (fhashtable st')"
    using s(1) u(1) by (simp add: st'_def)
  have "flocks_ok ops st'"
    by (rule flocks_ok_update [OF ok cache' t'(2) at'])
  moreover have "mutex st' = mutex st"
    using s(3) by (simp add: st'_def)
  moreover have "flock_setlock ops f p st = Some (code, p', st')"
    unfolding flock_setlock_def using range get op
    by (cases code) (simp_all add: st'_def Let_def)
  ultimately show ?thesis
    using that at' by blast
qed

text \<open>C9: Releasing a range of a file (USS_UNLOCK through \<^verbatim>\<open>flock_mds_op\<close>) succeeds and takes exactly
  the bytes of the range from exactly that user: every other byte of the user, every other
  user and every other file keep what they hold. This holds wherever the locks of the file
  were kept, in the hash table or in the store, and the service stays consistent.\<close>
theorem unlock_releases:
  assumes db: "infodb_ok ops" and ok: "flocks_ok ops st"
    and p: "\<not> UINT64_MAX - start p < len p" "ltype p = USS_UNLOCK"
  shows "\<exists>st'. flock_mds_op ops f USS_SETFLOCK p st = Some (None, p, st') \<and> flocks_ok ops st' \<and>
    mutex st' = mutex st \<and>
    (\<forall>f' u b ty. holds_at ops st' f' u b ty \<longleftrightarrow>
       holds_at ops st f' u b ty \<and> \<not> (name f' = name f \<and> u = user p \<and> covers p b))"
proof -
  have ok1: "flocks_ok ops (flock_mutex 1 st)" using ok by simp
  have cache: "cache_ok (fhashtable st)" using ok by (simp add: flocks_ok_def)
  obtain ot h where get: "flock_get_ftable ops f (flock_mutex 1 st) =
      Some (ot, (flock_mutex 1 st)\<lparr>fhashtable := h\<rparr>)" "cache_ok h"
      "locks_at ops ((flock_mutex 1 st)\<lparr>fhashtable := h\<rparr>) = locks_at ops (flock_mutex 1 st)"
      "hash_table_find h f = ot"
    and found: "\<And>t. ot = Some t \<Longrightarrow> locks t = locks_at ops (flock_mutex 1 st) f \<and> tname t = name f"
    and none: "ot = None \<Longrightarrow> locks_at ops (flock_mutex 1 st) f = []"
    using get_ftable_ok [OF db ok1] by blast
  show ?thesis
  proof (cases ot)
    case None
    let ?st' = "flock_mutex (- 1) ((flock_mutex 1 st)\<lparr>fhashtable := h\<rparr>)"
    have "flock_mds_op ops f USS_SETFLOCK p st = Some (None, p, ?st')"
      using get(1) None p by (simp add: flock_mds_op_def flock_setlock_def)
    moreover have "flocks_ok ops ?st'" "mutex ?st' = mutex st"
      using ok get(2,3) by (simp_all add: flocks_ok_def)
    moreover have "holds_at ops ?st' f' u b ty \<longleftrightarrow>
       holds_at ops st f' u b ty \<and> \<not> (name f' = name f \<and> u = user p \<and> covers p b)" for f' u b ty
      using get(3) none None locks_at_cong [OF db cache, of f' f] by (auto simp: holds_at_def)
    ultimately show ?thesis by blast
  next
    case (Some t)
    have t: "locks t = locks_at ops st f" "tname t = name f" using found [OF Some] by simp_all
    obtain p' t' where ul: "flock_unlock p t = (p', t')" by fastforce
    have "locks_ok (locks t)" using ok t by (simp add: flocks_ok_def)
    note r = unlock_table [OF this range_wf [OF p(1)] p(2) ul]
    have op: "(if ltype p \<noteq> USS_UNLOCK then flock_lock p t else (None, flock_unlock p t)) = (None, p, t')"
      using ul r(1) p(2) by simp
    obtain st' where st': "flock_setlock ops f p st = Some (None, p, st')" "flocks_ok ops st'"
      "mutex st' = mutex st"
      "\<And>f'. locks_at ops st' f' = (if name f' = name f then locks t' else locks_at ops st f')"
      using setlock_existing [OF db ok p(1) get(1) [unfolded Some] get(2,3) get(4) [unfolded Some] t(2) op
          r(3,2)] by blast
    have "holds_at ops st' f' u b ty \<longleftrightarrow>
       holds_at ops st f' u b ty \<and> \<not> (name f' = name f \<and> u = user p \<and> covers p b)" for f' u b ty
      using st'(4) r(4) t(1) locks_at_cong [OF db cache, of f' f] by (simp add: holds_at_def)
    with st' show ?thesis
      by (auto simp: flock_mds_op_def)
  qed
qed

lemma conflict_holds:
  assumes "locks_ok ls" "wf_lock p"
  shows "(\<exists>e \<in> set ls. flock_conflict e p) \<longleftrightarrow>
    (\<exists>u b ty. holds ls u b ty \<and> covers p b \<and> u \<noteq> user p \<and> \<not> (ty = USS_RDLOCK \<and> ltype p = USS_RDLOCK))"
  (is "?L \<longleftrightarrow> ?R")
proof
  assume ?L
  then obtain e b where "e \<in> set ls" "rivals e p" "covers e b" "covers p b"
    using conflict_iff locks_okD(1) [OF assms(1)] assms(2) by blast
  moreover from this have "holds ls (user e) b (ltype e)"
    unfolding holds_def by blast
  ultimately show ?R
    unfolding rivals_def by blast
next
  assume ?R
  then obtain e b where "e \<in> set ls" "covers e b" "covers p b" "rivals e p"
    unfolding holds_def rivals_def by blast
  then show ?L
    using conflict_iff locks_okD(1) [OF assms(1)] assms(2) by blast
qed

lemma single_lock_ok: "\<lbrakk>wf_lock p; ltype p \<noteq> USS_UNLOCK\<rbrakk> \<Longrightarrow> locks_ok [p]"
  by (simp add: locks_ok_def disjoint_locks_def exclusive_def rivals_def)

lemma setlock_first:
  assumes db: "infodb_ok ops" and ok: "flocks_ok ops st" and range: "\<not> UINT64_MAX - start p < len p"
    and p: "ltype p \<noteq> USS_UNLOCK"
    and get: "flock_get_ftable ops f (flock_mutex 1 st) = Some (None, (flock_mutex 1 st)\<lparr>fhashtable := h\<rparr>)"
    and h: "cache_ok h" "locks_at ops ((flock_mutex 1 st)\<lparr>fhashtable := h\<rparr>) = locks_at ops (flock_mutex 1 st)"
    and none: "hash_table_find h f = None"
  obtains st' where "flock_setlock ops f p st = Some (None, p, st')" "flocks_ok ops st'"
    and "mutex st' = mutex st"
    and "\<And>f'. locks_at ops st' f' = (if name f' = name f then [p] else locks_at ops st f')"
proof -
  let ?st1 = "(flock_mutex 1 st)\<lparr>fhashtable := h\<rparr>" and ?t = "\<lparr>fileid_of = f, locks = [p]\<rparr>"
  have c1: "cache_ok (fhashtable ?st1)" "hash_table_find (fhashtable ?st1) f = None"
    using h none by simp_all
  obtain h' where h': "flock_insert f [p] ?st1 = Some (?t, ?st1\<lparr>fhashtable := h'\<rparr>)" "cache_ok h'"
      "\<And>f'. hash_table_find h' f' = (if name f' = name f then Some ?t else hash_table_find h f')"
    using flock_insert_ok [OF c1, of "[p]"] by auto
  let ?st2 = "?st1\<lparr>fhashtable := h'\<rparr>"
  have c2: "cache_ok (fhashtable ?st2)" "hash_table_find (fhashtable ?st2) f = Some ?t" "tname ?t = name f"
    using h'(2,3) by (simp_all add: tname_def)
  note s = flock_store_ok [OF db c2]
  have other: "locks_at ops ?st2 f' = locks_at ops st f'" if "name f' \<noteq> name f" for f'
  proof -
    have "locks_at ops ?st2 f' = locks_at ops ?st1 f'"
      using that h'(3) by (simp add: locks_at_def cong: option.case_cong)
    then show ?thesis using h(2) by simp
  qed
  let ?st' = "flock_mutex (- 1) (flock_store ops f ?t ?st2)"
  have at: "locks_at ops ?st' f' = (if name f' = name f then [p] else locks_at ops st f')" for f'
    using s(2) other [of f'] by simp
  have "flocks_ok ops ?st'"
    by (rule flocks_ok_update [OF ok _ single_lock_ok [OF range_wf [OF range] p] at])
      (use s(1) in simp)
  moreover have "flock_setlock ops f p st = Some (None, p, ?st')"
    unfolding flock_setlock_def using range get p h'(1) by simp
  moreover have "mutex ?st' = mutex st" using s(3) by simp
  ultimately show ?thesis using that at by blast
qed


section \<open>Asking for locks\<close>

text \<open>C26: A query (USS_GETFLOCK) answers USS_UNLOCK and leaves the rest of the request as it was
  exactly when the lock could be set, that is when no other user holds a byte of the range in
  a way that excludes it; else it gives one of the locks in the way. No lock changes.\<close>
theorem getlock_reports:
  assumes db: "infodb_ok ops" and ok: "flocks_ok ops st"
    and range: "\<not> UINT64_MAX - start p < len p"
  shows "\<exists>p' st'. flock_mds_op ops f USS_GETFLOCK p st = Some (None, p', st') \<and>
    locks_at ops st' = locks_at ops st \<and> flocks_ok ops st' \<and> mutex st' = mutex st \<and>
    (if \<exists>u b ty. holds_at ops st f u b ty \<and> covers p b \<and> u \<noteq> user p \<and>
               \<not> (ty = USS_RDLOCK \<and> ltype p = USS_RDLOCK)
     then p' \<in> set (locks_at ops st f) \<and> flock_conflict p' p
     else p' = p\<lparr>ltype := USS_UNLOCK\<rparr>)"
proof -
  have ok1: "flocks_ok ops (flock_mutex 1 st)" using ok by simp
  have "locks_ok (locks_at ops st f)" using ok by (simp add: flocks_ok_def)
  note code_iff = conflict_holds [OF this range_wf [OF range], folded holds_at_def]
  obtain ot h where get: "flock_get_ftable ops f (flock_mutex 1 st) =
      Some (ot, (flock_mutex 1 st)\<lparr>fhashtable := h\<rparr>)" "cache_ok h"
      "locks_at ops ((flock_mutex 1 st)\<lparr>fhashtable := h\<rparr>) = locks_at ops (flock_mutex 1 st)"
    and found: "\<And>t. ot = Some t \<Longrightarrow> locks t = locks_at ops (flock_mutex 1 st) f \<and> tname t = name f"
    and none: "ot = None \<Longrightarrow> locks_at ops (flock_mutex 1 st) f = []"
    using get_ftable_ok [OF db ok1] by blast
  define ls where "ls = locks_at ops st f"
  define p' where "p' = (case List.find (\<lambda>l. flock_conflict l p) ls of
                           None \<Rightarrow> p\<lparr>ltype := USS_UNLOCK\<rparr> | Some l \<Rightarrow> l)"
  let ?st' = "flock_mutex (- 1) ((flock_mutex 1 st)\<lparr>fhashtable := h\<rparr>)"
  have op: "flock_mds_op ops f USS_GETFLOCK p st = Some (None, p', ?st')"
  proof (cases ot)
    case None
    then show ?thesis
      using get(1) range none by (simp add: flock_mds_op_def flock_getlock_def USS_GETFLOCK_def
          USS_SETFLOCK_def p'_def ls_def)
  next
    case (Some t)
    then show ?thesis
      using get(1) range found [OF Some] by (simp add: flock_mds_op_def flock_getlock_def
          USS_GETFLOCK_def USS_SETFLOCK_def p'_def ls_def)
  qed
  have at: "locks_at ops ?st' = locks_at ops st" using get(3) by simp
  have "flocks_ok ops ?st'" "mutex ?st' = mutex st"
    using ok get(2) at by (simp_all add: flocks_ok_def)
  moreover have "if \<exists>e \<in> set ls. flock_conflict e p then p' \<in> set ls \<and> flock_conflict p' p
      else p' = p\<lparr>ltype := USS_UNLOCK\<rparr>"
    unfolding p'_def by (auto simp: find_None_iff find_Some_iff split: option.split)
  ultimately show ?thesis
    using op at code_iff unfolding ls_def by auto
qed

section \<open>A service in use\<close>

text \<open>A key-value store, and a service that finds two locks of a file in it: client 1 writes to
  the bytes from 0 to 9, client 2 reads the bytes from 20 to 29.\<close>

definition map_db :: "(fname \<Rightarrow> uss_flock list option) infodb" where
  "map_db = \<lparr>db_put = \<lambda>f ls d. d(name f \<mapsto> ls), db_get = \<lambda>f d. d (name f),
             db_remove = \<lambda>f d. d(name f := None), db_all = \<lambda>d. []\<rparr>"

definition file1 :: fileid where
  "file1 = \<lparr>fid = 7, volid = 1, idx = 0, sharding = 0, ftype = 0\<rparr>"

definition range_lock :: "8 word \<Rightarrow> 64 word \<Rightarrow> 64 word \<Rightarrow> 64 word \<Rightarrow> uss_flock" where
  "range_lock ty client from n = \<lparr>ltype = ty, sid = client, owner = 1, start = from, len = n\<rparr>"

definition two_clients :: "uss_flock list" where
  "two_clients = [range_lock USS_WRLOCK 1 0 10, range_lock USS_RDLOCK 2 20 10]"

definition service :: "(fname \<Rightarrow> uss_flock list option) flocks" where
  "service = \<lparr>fhashtable = the (hash_create_table True True flock_hashcmp flock_hashkey),
              mutex = 0, flockdb = [name file1 \<mapsto> two_clients]\<rparr>"

lemmas lock_values = range_lock_def USS_RDLOCK_def USS_WRLOCK_def USS_UNLOCK_def UINT64_MAX_def
  covers_def lock_end_def flock_get_end_def

lemma map_db_ok: "infodb_ok map_db"
  by (simp add: infodb_ok_def map_db_def)

lemma flock_names: "names_agree tname name flock_hashcmp flock_hashkey"
  by (auto simp: names_agree_def tname_def name_def flock_hashcmp_def flock_hashkey_def)

lemma two_clients_ok: "locks_ok two_clients"
proof -
  have "\<not> (20 \<le> b \<and> b < 10)" for b :: "64 word"
    using le_less_trans [of 20 b 10] by auto
  then show ?thesis
    unfolding locks_ok_def two_clients_def disjoint_locks_def exclusive_def
    by (auto simp: lock_values wf_lock_def bytes_apart_def same_user_eq rivals_def)
qed

lemma service_locks:
  "locks_at map_db service f = (if name f = name file1 then two_clients else [])"
  using create_ok(2) [OF _ flock_names, of True True]
  by (simp add: locks_at_def service_def map_db_def hash_create_table_def)

lemma service_ok: "flocks_ok map_db service"
  using create_ok(1) [OF _ flock_names, of True True] two_clients_ok
  by (simp add: flocks_ok_def service_locks, simp add: service_def hash_create_table_def
      locks_ok_def disjoint_locks_def exclusive_def)

lemma unlock_releases_witness:
  "\<exists>st'. flock_mds_op map_db file1 USS_SETFLOCK (range_lock USS_UNLOCK 1 5 3) service =
       Some (None, range_lock USS_UNLOCK 1 5 3, st') \<and>
     holds_at map_db st' file1 (1, 1) 4 USS_WRLOCK \<and>
     \<not> holds_at map_db st' file1 (1, 1) 5 USS_WRLOCK \<and>
     holds_at map_db st' file1 (1, 1) 8 USS_WRLOCK \<and>
     holds_at map_db st' file1 (2, 1) 20 USS_RDLOCK"
proof -
  have old: "holds_at map_db service file1 (1, 1) 4 USS_WRLOCK"
    "holds_at map_db service file1 (1, 1) 8 USS_WRLOCK"
    "holds_at map_db service file1 (2, 1) 20 USS_RDLOCK"
    by (simp_all add: holds_at_def service_locks two_clients_def lock_values)
  show ?thesis
    using unlock_releases [OF map_db_ok service_ok, of "range_lock USS_UNLOCK 1 5 3" file1] old
    by (auto simp: lock_values)
qed


lemma getlock_reports_witness:
  "\<exists>st'. flock_mds_op map_db file1 USS_GETFLOCK (range_lock USS_WRLOCK 1 10 20) service =
       Some (None, range_lock USS_RDLOCK 2 20 10, st')"
proof -
  let ?p = "range_lock USS_WRLOCK 1 10 20"
  have "holds_at map_db service file1 (2, 1) 20 USS_RDLOCK \<and> covers ?p 20 \<and> (2, 1) \<noteq> user ?p \<and>
      \<not> (USS_RDLOCK = USS_RDLOCK \<and> ltype ?p = USS_RDLOCK)"
    by (simp add: holds_at_def service_locks two_clients_def lock_values)
  then have held: "\<exists>u b ty. holds_at map_db service file1 u b ty \<and> covers ?p b \<and> u \<noteq> user ?p \<and>
      \<not> (ty = USS_RDLOCK \<and> ltype ?p = USS_RDLOCK)"
    by blast
  have other: "\<not> flock_conflict (range_lock USS_WRLOCK 1 0 10) ?p"
    by (simp add: flock_conflict_def flock_same_user_def lock_values)
  have range: "\<not> UINT64_MAX - start ?p < len ?p" by (simp add: lock_values)
  obtain p' st' where r: "flock_mds_op map_db file1 USS_GETFLOCK ?p service = Some (None, p', st')"
    "p' \<in> set (locks_at map_db service file1)" "flock_conflict p' ?p"
    using getlock_reports [OF map_db_ok service_ok range, of file1] unfolding if_P [OF held] by blast
  then show ?thesis
    using other by (auto simp: service_locks two_clients_def)
qed

section \<open>Where the code goes wrong\<close>

text \<open>A client that holds the bytes 0 to 9 and asks for 5 to 14 is left with 5 to 19: it loses
  five bytes it was granted and gets five it did not ask for. A client that holds 5 to 9 and asks
  for everything from 10 on is left with 5 to 9.\<close>

lemma merge_loses_bytes:
  "flock_lock (range_lock USS_WRLOCK 1 5 10) \<lparr>fileid_of = file1, locks = [range_lock USS_WRLOCK 1 0 10]\<rparr> =
     (None, range_lock USS_WRLOCK 1 5 15,
      \<lparr>fileid_of = file1, locks = [range_lock USS_WRLOCK 1 5 15]\<rparr>) \<and>
   flock_lock (range_lock USS_WRLOCK 1 10 0) \<lparr>fileid_of = file1, locks = [range_lock USS_WRLOCK 1 5 5]\<rparr> =
     (None, range_lock USS_WRLOCK 1 5 5,
      \<lparr>fileid_of = file1, locks = [range_lock USS_WRLOCK 1 5 5]\<rparr>)"
  by (simp add: flock_lock_def flock_conflict_def flock_same_user_def flock_split_merge_def
      insert_by_start_def lock_values)

text \<open>Removing the locks of a client that is gone keeps exactly the locks of that client.\<close>

lemma remove_sid_keeps_the_client:
  "flock_remove_ftable_sid_locks ops s t d = (keep, t', d')
     \<Longrightarrow> locks t' = filter (\<lambda>l. sid l = s) (locks t)"
  by (auto simp: flock_remove_ftable_sid_locks_def Let_def eq_commute split: if_splits)

text \<open>A request whose range leaves the 64 bits gives back a mutex it has not taken.\<close>

lemma bad_range_unlocks:
  "UINT64_MAX - start p < len p
     \<Longrightarrow> flock_setlock ops f p st = Some (Some EINVAL, p, flock_mutex (- 1) st)"
  by (simp add: flock_setlock_def)

end
