(* ===== verification/Heap.thy ===== *)
theory Heap
  imports Ylib "HOL-Library.Multiset"
begin

text \<open>
  The binary heap of the file system's library, \<^verbatim>\<open>src/sdfs/ylib/lib/heap.c\<close>.

  The array starts at 1; element 0 is a sentinel below every key, on which the loop of the
  insertion relies to stop. That loop is \<open>partial_function\<close>: it does not return (\<open>None\<close>) for an
  element below the sentinel. The array is a function from indices, and the order the heap is
  given is a predicate that is true where the C function returns 1.
\<close>

definition HEAP_MAX_SIZE :: nat where "HEAP_MAX_SIZE = 4096"

record 'a heap =
  gt :: "'a \<Rightarrow> 'a \<Rightarrow> bool"
  capacity :: nat
  hsize :: nat
  element :: "nat \<Rightarrow> 'a"

definition is_full :: "'a heap \<Rightarrow> bool" where
  "is_full h \<longleftrightarrow> capacity h = hsize h"

definition is_empty_heap :: "'a heap \<Rightarrow> bool" where
  "is_empty_heap h \<longleftrightarrow> hsize h = 0"

text \<open>What the elements behind the sentinel are at first does not matter: \<open>junk\<close>. The sum in the
  test of the size is one of 32 bits.\<close>

definition heap_init ::
    "bool \<Rightarrow> ('a \<Rightarrow> 'a \<Rightarrow> bool) \<Rightarrow> 32 word \<Rightarrow> 'a \<Rightarrow> (nat \<Rightarrow> 'a) \<Rightarrow> errno + 'a heap" where
  "heap_init granted order max_element minimum junk =
     (if \<not> granted then Inl ENOMEM
      else Inr \<lparr>gt = order,
                capacity = (if max_element + 1 > of_nat HEAP_MAX_SIZE then HEAP_MAX_SIZE - 1
                            else unat max_element),
                hsize = 0, element = junk(0 := minimum)\<rparr>)"

partial_function (option) sift_up ::
    "('a \<Rightarrow> 'a \<Rightarrow> bool) \<Rightarrow> 'a \<Rightarrow> nat \<Rightarrow> (nat \<Rightarrow> 'a) \<Rightarrow> (nat \<Rightarrow> 'a) option" where
  "sift_up order x i el =
     (if order (el (i div 2)) x then sift_up order x (i div 2) (el(i := el (i div 2)))
      else Some (el(i := x)))"

text \<open>\<open>None\<close> when the call does not return.\<close>

definition heap_insert :: "'a heap \<Rightarrow> 'a \<Rightarrow> (errno option \<times> 'a heap) option" where
  "heap_insert h x =
     (if is_full h then Some (Some ENODATA, h)
      else map_option (\<lambda>el. (None, h\<lparr>hsize := hsize h + 1, element := el\<rparr>))
             (sift_up (gt h) x (hsize h + 1) (element h)))"

definition smaller_child :: "('a \<Rightarrow> 'a \<Rightarrow> bool) \<Rightarrow> nat \<Rightarrow> (nat \<Rightarrow> 'a) \<Rightarrow> nat \<Rightarrow> nat" where
  "smaller_child order n el i =
     (let child = i * 2
      in if child \<noteq> n \<and> order (el child) (el (child + 1)) then child + 1 else child)"

lemma smaller_child_cases:
  "smaller_child order n el i = 2 * i \<or> smaller_child order n el i = Suc (2 * i)"
  by (simp add: smaller_child_def Let_def)

text \<open>The loop starts at 1, and \<open>i\<close> grows.\<close>

function sift_down ::
    "('a \<Rightarrow> 'a \<Rightarrow> bool) \<Rightarrow> 'a \<Rightarrow> nat \<Rightarrow> nat \<Rightarrow> (nat \<Rightarrow> 'a) \<Rightarrow> nat \<Rightarrow> 'a" where
  "sift_down order final n i el =
     (if 0 < i \<and> i * 2 \<le> n then
        let child = smaller_child order n el i
        in if order final (el child) then sift_down order final n child (el(i := el child))
           else el(i := final)
      else el(i := final))"
  by pat_completeness auto

termination
proof (relation "measure (\<lambda>(ord, l, n, i, el). Suc n - i)", goal_cases)
  case (2 ord l n i el child)
  then show ?case
    using smaller_child_cases [of ord n el i] by auto
qed simp

declare sift_down.simps [simp del]

definition heap_pop :: "'a heap \<Rightarrow> errno option \<times> 'a option \<times> 'a heap" where
  "heap_pop h =
     (if is_empty_heap h then (Some ENOKEY, None, h)
      else
        let least = element h 1; final = element h (hsize h); n = hsize h - 1
        in (None, Some least,
            h\<lparr>hsize := n, element := sift_down (gt h) final n 1 (element h)\<rparr>))"

text \<open>The elements \<^verbatim>\<open>heap_print\<close> gives to the printer, in order, and the length.\<close>

definition heap_print :: "'a heap \<Rightarrow> 'a list" where
  "heap_print h = map (element h) [1..<Suc (hsize h)]"

definition heap_len :: "'a heap \<Rightarrow> nat" where
  "heap_len h = hsize h"

end
