(* ===== verification/HeapProps.thy ===== *)
theory HeapProps
  imports Heap
begin

text \<open>
  The heap is a priority queue. \<open>heap_ok\<close> is the invariant for an order that compares keys:
  every element is at least its parent, and the sentinel is below all. The contract of a
  queue is the locale \<open>priority_queue\<close>, and what follows from it is proved there once.
\<close>

section \<open>Invariant\<close>

definition contents :: "'a heap \<Rightarrow> 'a multiset" where
  "contents h = mset (heap_print h)"

definition ordered_from :: "('a \<Rightarrow> 'k::linorder) \<Rightarrow> (nat \<Rightarrow> 'a) \<Rightarrow> nat \<Rightarrow> (nat \<Rightarrow> bool) \<Rightarrow> bool" where
  "ordered_from key el n P \<longleftrightarrow> (\<forall>j. 2 \<le> j \<and> j \<le> n \<and> P j \<longrightarrow> key (el (j div 2)) \<le> key (el j))"

definition heap_ok :: "('a \<Rightarrow> 'k::linorder) \<Rightarrow> 'a heap \<Rightarrow> bool" where
  "heap_ok key h \<longleftrightarrow> gt h = (\<lambda>x y. key x > key y) \<and> hsize h \<le> capacity h \<and>
     ordered_from key (element h) (hsize h) (\<lambda>j. True) \<and>
     (\<forall>x \<in># contents h. key (element h 0) \<le> key x)"

text \<open>A change of the array as a change of the elements from 1 to \<open>n\<close>.\<close>

definition upto :: "(nat \<Rightarrow> 'a) \<Rightarrow> nat \<Rightarrow> 'a multiset" where
  "upto el n = image_mset el (mset_set {1..n})"

lemma contents_upto: "contents h = upto (element h) (hsize h)"
  unfolding contents_def heap_print_def upto_def mset_map mset_upt
  by (simp only: atLeastLessThanSuc_atLeastAtMost)

lemma size_contents: "size (contents h) = hsize h"
  by (simp add: contents_def heap_print_def del: upt_Suc)

lemma upto_Suc: "upto el (Suc n) = add_mset (el (Suc n)) (upto el n)"
  by (simp add: upto_def atLeastAtMostSuc_conv)

lemma upto_remove:
  assumes "1 \<le> i" "i \<le> n"
  shows "upto el n = add_mset (el i) (image_mset el (mset_set ({1..n} - {i})))"
proof -
  have "{1..n} = insert i ({1..n} - {i})" using assms by auto
  then show ?thesis
    unfolding upto_def by (metis Diff_iff finite_Diff finite_atLeastAtMost image_mset_add_mset insertI1
        mset_set.insert)
qed

lemma upto_put:
  assumes "1 \<le> i" "i \<le> n"
  shows "upto (el(i := x)) n = add_mset x (image_mset el (mset_set ({1..n} - {i})))"
proof -
  have "image_mset (el(i := x)) (mset_set ({1..n} - {i})) = image_mset el (mset_set ({1..n} - {i}))"
    by (rule image_mset_cong) simp
  then show ?thesis
    using upto_remove [OF assms, of "el(i := x)"] by simp
qed

lemma upto_update:
  assumes "1 \<le> i" "i \<le> n"
  shows "add_mset (el i) (upto (el(i := x)) n) = add_mset x (upto el n)"
  using upto_put [OF assms, of el x] upto_remove [OF assms, of el] by simp

text \<open>Moving the hole with its element to another place.\<close>

lemma upto_swap:
  assumes "1 \<le> i" "i \<le> n" "1 \<le> j" "j \<le> n" "i \<noteq> j"
  shows "upto (el(i := el j, j := x)) n = upto (el(i := x)) n"
proof -
  have "add_mset (el j) (upto (el(i := el j, j := x)) n) = add_mset x (upto (el(i := el j)) n)"
    using upto_update [OF assms(3,4), of "el(i := el j)" x] assms(5) by simp
  also have "add_mset (el i) \<dots> = add_mset x (add_mset (el j) (upto el n))"
    using upto_update [OF assms(1,2), of el "el j"] by (simp add: add_mset_commute)
  also have "\<dots> = add_mset (el i) (add_mset (el j) (upto (el(i := x)) n))"
    using upto_update [OF assms(1,2), of el x] by (simp add: add_mset_commute)
  finally show ?thesis by simp
qed

lemma upto_member: "\<lbrakk>1 \<le> i; i \<le> n\<rbrakk> \<Longrightarrow> el i \<in># upto el n"
  by (simp add: upto_def)

lemma in_upto: "x \<in># upto el n \<Longrightarrow> \<exists>i. 1 \<le> i \<and> i \<le> n \<and> x = el i"
  by (auto simp: upto_def)

section \<open>Insertion\<close>

lemma sift_up_ok:
  fixes key :: "'a \<Rightarrow> 'k::linorder"
  assumes "1 \<le> i" "i \<le> n" "key (el 0) \<le> key x"
    and "ordered_from key (el(i := x)) n (\<lambda>j. j \<noteq> i)"
    and "\<forall>j. 2 \<le> i \<and> j div 2 = i \<and> j \<le> n \<longrightarrow> key (el (i div 2)) \<le> key (el j)"
  shows "\<exists>el'. sift_up (\<lambda>x y. key x > key y) x i el = Some el' \<and> el' 0 = el 0 \<and>
    ordered_from key el' n (\<lambda>j. True) \<and> upto el' n = upto (el(i := x)) n"
  using assms
proof (induction i arbitrary: el rule: less_induct)
  case (less i)
  show ?case
  proof (cases "key (el (i div 2)) > key x")
    case False
    have "ordered_from key (el(i := x)) n (\<lambda>j. True)"
      using less.prems(4) False unfolding ordered_from_def by auto
    then show ?thesis
      using less.prems(1) False by (subst sift_up.simps) auto
  next
    case True
    let ?p = "i div 2" and ?el = "el(i := el (i div 2))"
    have "?p \<noteq> 0" using True less.prems(3) by (metis leD)
    then have i: "2 \<le> i" and p: "1 \<le> ?p" "?p < i" "?p \<le> n" "?p \<noteq> i"
      using less.prems(1,2) by auto
    have up: "key (el (j div 2)) \<le> key (el j)" if "2 \<le> j" "j \<le> n" "j \<noteq> i" "j div 2 \<noteq> i" for j
      using less.prems(4) that unfolding ordered_from_def by (metis fun_upd_other)
    have down: "key (el ?p) \<le> key (el j)" if "j div 2 = i" "j \<le> n" for j
      using less.prems(5) i that by blast
    have "ordered_from key (?el(?p := x)) n (\<lambda>j. j \<noteq> ?p)"
      unfolding ordered_from_def
    proof (intro allI impI)
      fix j assume j: "2 \<le> j \<and> j \<le> n \<and> j \<noteq> ?p"
      consider "j = i" | "j \<noteq> i" "j div 2 = i" | "j \<noteq> i" "j div 2 = ?p"
        | "j \<noteq> i" "j div 2 \<noteq> i" "j div 2 \<noteq> ?p" by blast
      then show "key ((?el(?p := x)) (j div 2)) \<le> key ((?el(?p := x)) j)"
      proof cases
        case 1
        then show ?thesis using True p by simp
      next
        case 2
        then show ?thesis using down [of j] j p by auto
      next
        case 3
        then show ?thesis using up [of j] j True p by auto
      next
        case 4
        then show ?thesis using up [of j] j by auto
      qed
    qed
    moreover have "\<forall>j. 2 \<le> ?p \<and> j div 2 = ?p \<and> j \<le> n \<longrightarrow> key (?el (?p div 2)) \<le> key (?el j)"
    proof (intro allI impI)
      fix j assume j: "2 \<le> ?p \<and> j div 2 = ?p \<and> j \<le> n"
      have pp: "?p div 2 \<noteq> i" using i by linarith
      have "key (el (?p div 2)) \<le> key (el ?p)"
        using up [of ?p] j p(3,4) i by linarith
      moreover have "j \<noteq> i \<Longrightarrow> key (el ?p) \<le> key (el j)"
        using up [of j] j p by auto
      ultimately show "key (?el (?p div 2)) \<le> key (?el j)"
        using pp by (cases "j = i") auto
    qed
    moreover have "key (?el 0) \<le> key x"
      using less.prems(1,3) by simp
    ultimately obtain el' where el': "sift_up (\<lambda>x y. key x > key y) x ?p ?el = Some el'" "el' 0 = ?el 0"
      "ordered_from key el' n (\<lambda>j. True)" "upto el' n = upto (?el(?p := x)) n"
      using less.IH [OF p(2,1,3)] by blast
    have "upto (?el(?p := x)) n = upto (el(i := x)) n"
      by (rule upto_swap) (use less.prems(1,2) p in auto)
    then show ?thesis
      using el' True less.prems(1) by (subst sift_up.simps) auto
  qed
qed

text \<open>An element below the sentinel: the loop goes on at index 0 for ever.\<close>

lemma sift_up_below:
  assumes "sift_up ord x i el = Some r"
  shows "\<not> (i = 0 \<and> ord (el 0) x)"
  by (rule sift_up.raw_induct [of "\<lambda>ord x i el r. \<not> (i = 0 \<and> ord (el 0) x)" "(((ord, x), i), el)" r,
        unfolded prod.case, OF _ assms]) (fastforce split: if_splits)

lemma sift_up_stuck:
  assumes "ord (el 0) x"
  shows "sift_up ord x 0 el = None"
  using sift_up_below [of ord x 0 el] assms by (cases "sift_up ord x 0 el") auto

section \<open>Removal\<close>

lemma smaller_child_ok:
  fixes key :: "'a \<Rightarrow> 'k::linorder" and el :: "nat \<Rightarrow> 'a"
  assumes "0 < i" "i * 2 \<le> n"
  defines "c \<equiv> smaller_child (\<lambda>x y. key x > key y) n el i"
  shows "c div 2 = i" "i < c" "c \<le> n" "2 \<le> c"
    and "\<lbrakk>j div 2 = i; 2 \<le> j; j \<le> n\<rbrakk> \<Longrightarrow> key (el c) \<le> key (el j)"
proof -
  show "c div 2 = i" "i < c" "c \<le> n" "2 \<le> c"
    using assms(1,2) by (auto simp: c_def smaller_child_def Let_def)
  assume j: "j div 2 = i" "2 \<le> j" "j \<le> n"
  then have "j = 2 * i \<or> j = Suc (2 * i)" by linarith
  then show "key (el c) \<le> key (el j)"
    using j(3) by (auto simp: c_def smaller_child_def Let_def mult.commute not_less)
qed

lemma sift_down_ok:
  fixes key :: "'a \<Rightarrow> 'k::linorder"
  assumes "1 \<le> i" "i \<le> n"
    and "ordered_from key (el(i := x)) n (\<lambda>j. j div 2 \<noteq> i)"
    and "\<forall>j. 2 \<le> i \<and> j div 2 = i \<and> j \<le> n \<longrightarrow> key (el (i div 2)) \<le> key (el j)"
  defines "el' \<equiv> sift_down (\<lambda>x y. key x > key y) x n i el"
  shows "el' 0 = el 0 \<and> ordered_from key el' n (\<lambda>j. True) \<and> upto el' n = upto (el(i := x)) n"
  using assms(1-4) unfolding el'_def
proof (induction "n - i" arbitrary: i el rule: less_induct)
  case less
  let ?ord = "\<lambda>x y. key x > key y"
  let ?c = "smaller_child ?ord n el i"
  have up: "key (el (j div 2)) \<le> key ((el(i := x)) j)" if "2 \<le> j" "j \<le> n" "j div 2 \<noteq> i" for j
    using less.prems(3) that unfolding ordered_from_def by (metis fun_upd_other)
  show ?case
  proof (cases "i * 2 \<le> n \<and> key x > key (el ?c)")
    case False
    have eq: "sift_down ?ord x n i el = el(i := x)"
      using False less.prems(1) by (subst sift_down.simps) (auto simp: Let_def)
    have "ordered_from key (el(i := x)) n (\<lambda>j. True)"
      unfolding ordered_from_def
    proof (intro allI impI)
      fix j assume j: "2 \<le> j \<and> j \<le> n \<and> True"
      show "key ((el(i := x)) (j div 2)) \<le> key ((el(i := x)) j)"
      proof (cases "j div 2 = i")
        case True
        then have "i * 2 \<le> n" "j \<noteq> i" using j by auto
        moreover from this False have "key x \<le> key (el ?c)" by auto
        ultimately show ?thesis
          using smaller_child_ok(5) [where i = i and n = n and j = j and key = key and el = el] True j less.prems(1) by auto
      next
        case False
        then show ?thesis using up [of j] j by auto
      qed
    qed
    then show ?thesis using less.prems(1) by (simp add: eq)
  next
    case True
    let ?el = "el(i := el ?c)"
    have c: "?c div 2 = i" "i < ?c" "?c \<le> n" "2 \<le> ?c"
      and least: "\<And>j. \<lbrakk>j div 2 = i; 2 \<le> j; j \<le> n\<rbrakk> \<Longrightarrow> key (el ?c) \<le> key (el j)"
      using smaller_child_ok [where i = i and n = n and key = key and el = el] True less.prems(1) by auto
    have eq: "sift_down ?ord x n i el = sift_down ?ord x n ?c ?el"
      using True less.prems(1) by (subst sift_down.simps) (auto simp: Let_def)
    have "ordered_from key (?el(?c := x)) n (\<lambda>j. j div 2 \<noteq> ?c)"
      unfolding ordered_from_def
    proof (intro allI impI)
      fix j assume j: "2 \<le> j \<and> j \<le> n \<and> j div 2 \<noteq> ?c"
      consider "j = ?c" | "j = i" | "j \<noteq> ?c" "j \<noteq> i" "j div 2 = i"
        | "j \<noteq> ?c" "j \<noteq> i" "j div 2 \<noteq> i" by blast
      then show "key ((?el(?c := x)) (j div 2)) \<le> key ((?el(?c := x)) j)"
      proof cases
        case 1
        then show ?thesis using True c by auto
      next
        case 2
        then show ?thesis
          using less.prems(4) c j by auto
      next
        case 3
        then show ?thesis using least [of j] j c by auto
      next
        case 4
        then show ?thesis using up [of j] j by auto
      qed
    qed
    moreover have "\<forall>j. 2 \<le> ?c \<and> j div 2 = ?c \<and> j \<le> n \<longrightarrow> key (?el (?c div 2)) \<le> key (?el j)"
    proof (intro allI impI)
      fix j assume j: "2 \<le> ?c \<and> j div 2 = ?c \<and> j \<le> n"
      then have "j \<noteq> i" "2 \<le> j" "j div 2 \<noteq> i" using c by auto
      then show "key (?el (?c div 2)) \<le> key (?el j)"
        using up [of j] j c(1) by auto
    qed
    moreover have "n - ?c < n - i" using c(2,3) by linarith
    ultimately have "sift_down ?ord x n ?c ?el 0 = ?el 0 \<and>
        ordered_from key (sift_down ?ord x n ?c ?el) n (\<lambda>j. True) \<and>
        upto (sift_down ?ord x n ?c ?el) n = upto (?el(?c := x)) n"
      using less.hyps [of ?c ?el] c(2,3) by auto
    moreover have "upto (?el(?c := x)) n = upto (el(i := x)) n"
      by (rule upto_swap) (use less.prems(1,2) c in auto)
    ultimately show ?thesis
      using less.prems(1) by (simp add: eq)
  qed
qed

lemma root_least:
  fixes key :: "'a \<Rightarrow> 'k::linorder"
  assumes "ordered_from key el n (\<lambda>j. True)" "1 \<le> i" "i \<le> n"
  shows "key (el 1) \<le> key (el i)"
  using assms(2,3)
proof (induction i rule: less_induct)
  case (less i)
  show ?case
  proof (cases "i = 1")
    case False
    then have "1 \<le> i div 2" "i div 2 < i" "i div 2 \<le> n" "2 \<le> i" using less.prems by auto
    then show ?thesis
      using less.IH [of "i div 2"] assms(1) less.prems unfolding ordered_from_def by (metis order.trans)
  qed simp
qed

section \<open>Operations\<close>

lemma init_ok:
  assumes "heap_init granted (\<lambda>x y. key x > key y) m minimum junk = Inr h"
  shows "heap_ok key h" "contents h = {#}" "element h 0 = minimum"
  using assms by (auto simp: heap_init_def heap_ok_def ordered_from_def contents_upto upto_def
      split: if_splits)

lemma insert_heap_ok:
  assumes ok: "heap_ok key h" and x: "key (element h 0) \<le> key x" and room: "hsize h < capacity h"
  shows "\<exists>h'. heap_insert h x = Some (None, h') \<and> heap_ok key h' \<and>
    contents h' = add_mset x (contents h) \<and> element h' 0 = element h 0 \<and> capacity h' = capacity h"
proof -
  let ?n = "hsize h + 1"
  have g: "gt h = (\<lambda>x y. key x > key y)" and o: "ordered_from key (element h) (hsize h) (\<lambda>j. True)"
    and low: "\<forall>y \<in># contents h. key (element h 0) \<le> key y"
    using ok by (simp_all add: heap_ok_def)
  have "ordered_from key ((element h)(?n := x)) ?n (\<lambda>j. j \<noteq> ?n)"
    using o unfolding ordered_from_def by auto
  then obtain el' where el': "sift_up (gt h) x ?n (element h) = Some el'" "el' 0 = element h 0"
    "ordered_from key el' ?n (\<lambda>j. True)" "upto el' ?n = upto ((element h)(?n := x)) ?n"
    using sift_up_ok [of ?n ?n key "element h" x] x unfolding g by fastforce
  let ?h = "h\<lparr>hsize := ?n, element := el'\<rparr>"
  have "upto ((element h)(?n := x)) (hsize h) = upto (element h) (hsize h)"
    unfolding upto_def by (rule image_mset_cong) auto
  then have c: "contents ?h = add_mset x (contents h)"
    using el'(4) by (simp add: contents_upto upto_Suc)
  have "heap_ok key ?h"
    unfolding heap_ok_def c using g el'(2,3) low x room by simp
  then show ?thesis
    using el' c room by (intro exI [of _ ?h]) (simp add: heap_insert_def is_full_def)
qed

lemma pop_heap_ok:
  assumes ok: "heap_ok key h" and pop: "heap_pop h = (code, d, h')" and ne: "contents h \<noteq> {#}"
  shows "\<exists>x. code = None \<and> d = Some x \<and> x \<in># contents h \<and> (\<forall>y \<in># contents h. key x \<le> key y) \<and>
    heap_ok key h' \<and> contents h' = contents h - {#x#} \<and> element h' 0 = element h 0 \<and>
    capacity h' = capacity h"
proof -
  obtain n where n: "hsize h = Suc n"
    using ne by (cases "hsize h") (simp_all add: contents_upto upto_def)
  let ?el = "element h" and ?x = "element h (Suc n)"
  have g: "gt h = (\<lambda>x y. key x > key y)" and o: "ordered_from key ?el (Suc n) (\<lambda>j. True)"
    and low: "\<forall>y \<in># contents h. key (?el 0) \<le> key y" and cap: "hsize h \<le> capacity h"
    using ok n by (simp_all add: heap_ok_def)
  define el' where "el' = sift_down (gt h) ?x n 1 ?el"
  have r: "code = None" "d = Some (?el 1)" "h' = h\<lparr>hsize := n, element := el'\<rparr>"
    using pop n by (simp_all add: heap_pop_def is_empty_heap_def Let_def el'_def)
  have el': "el' 0 = ?el 0 \<and> ordered_from key el' n (\<lambda>j. True) \<and> add_mset (?el 1) (upto el' n) = upto ?el (Suc n)"
  proof (cases "n = 0")
    case True
    then have "el' = ?el(1 := ?x)" unfolding el'_def by (subst sift_down.simps) simp
    then show ?thesis using True by (simp add: ordered_from_def upto_def)
  next
    case False
    have "ordered_from key (?el(1 := ?x)) n (\<lambda>j. j div 2 \<noteq> 1)"
      using o unfolding ordered_from_def by auto
    then have "el' 0 = ?el 0 \<and> ordered_from key el' n (\<lambda>j. True) \<and> upto el' n = upto (?el(1 := ?x)) n"
      using sift_down_ok [of 1 n key ?el ?x] False unfolding el'_def g by simp
    then show ?thesis
      using upto_update [of 1 n ?el ?x] False by (simp add: upto_Suc)
  qed
  have "?el 1 \<in># contents h" unfolding contents_upto n by (rule upto_member) simp_all
  moreover have "\<forall>y \<in># contents h. key (?el 1) \<le> key y"
    using in_upto root_least [OF o] unfolding contents_upto n by metis
  moreover have c: "contents h' = contents h - {#?el 1#}"
    using el' by (simp add: contents_upto r(3) n) (metis add_mset_remove_trivial)
  moreover have "heap_ok key h'"
    unfolding heap_ok_def c using g el' low cap n by (auto simp: r(3) dest: in_diffD)
  ultimately show ?thesis
    using r el' by auto
qed

section \<open>The contract of a priority queue\<close>

fun put_all :: "('h \<Rightarrow> 'a \<Rightarrow> (errno option \<times> 'h) option) \<Rightarrow> 'a list \<Rightarrow> 'h \<Rightarrow> 'h option" where
  "put_all put [] h = Some h"
| "put_all put (x # xs) h =
     (case put h x of Some (None, h') \<Rightarrow> put_all put xs h' | _ \<Rightarrow> None)"

fun get_all :: "('h \<Rightarrow> errno option \<times> 'a option \<times> 'h) \<Rightarrow> nat \<Rightarrow> 'h \<Rightarrow> 'a list \<times> 'h" where
  "get_all get 0 h = ([], h)"
| "get_all get (Suc n) h =
     (case get h of
        (None, Some x, h') \<Rightarrow> (let (xs, h'') = get_all get n h' in (x # xs, h''))
      | _ \<Rightarrow> ([], h))"

locale priority_queue =
  fixes ok :: "'h \<Rightarrow> bool" and elems :: "'h \<Rightarrow> 'a multiset" and key :: "'a \<Rightarrow> 'k::linorder"
    and takes :: "'h \<Rightarrow> 'a \<Rightarrow> bool" and room :: "'h \<Rightarrow> nat"
    and put :: "'h \<Rightarrow> 'a \<Rightarrow> (errno option \<times> 'h) option"
    and get :: "'h \<Rightarrow> errno option \<times> 'a option \<times> 'h"
  assumes put_ok: "\<lbrakk>ok h; takes h x; 0 < room h\<rbrakk> \<Longrightarrow>
        \<exists>h'. put h x = Some (None, h') \<and> ok h' \<and> elems h' = add_mset x (elems h) \<and>
          takes h' = takes h \<and> Suc (room h') = room h"
    and put_full: "\<lbrakk>ok h; room h = 0\<rbrakk> \<Longrightarrow> put h x = Some (Some ENODATA, h)"
    and get_ok: "\<lbrakk>ok h; elems h \<noteq> {#}\<rbrakk> \<Longrightarrow>
        \<exists>x h'. get h = (None, Some x, h') \<and> x \<in># elems h \<and> (\<forall>y \<in># elems h. key x \<le> key y) \<and>
          ok h' \<and> elems h' = elems h - {#x#}"
    and get_none: "\<lbrakk>ok h; elems h = {#}\<rbrakk> \<Longrightarrow> get h = (Some ENOKEY, None, h)"
begin

lemma put_all_ok:
  "\<lbrakk>ok h; \<forall>x \<in> set xs. takes h x; length xs \<le> room h\<rbrakk> \<Longrightarrow>
     \<exists>h'. put_all put xs h = Some h' \<and> ok h' \<and> elems h' = mset xs + elems h"
proof (induction xs arbitrary: h)
  case (Cons x xs)
  then obtain h1 where "put h x = Some (None, h1)" "ok h1" "elems h1 = add_mset x (elems h)"
      "takes h1 = takes h" "Suc (room h1) = room h"
    using put_ok [of h x] by auto
  with Cons.IH [of h1] Cons.prems show ?case by auto
qed simp

lemma get_all_sorted:
  "ok h \<Longrightarrow> get_all get (size (elems h)) h = (xs, h') \<Longrightarrow>
     sorted (map key xs) \<and> mset xs = elems h \<and> get h' = (Some ENOKEY, None, h')"
proof (induction "size (elems h)" arbitrary: h xs)
  case 0
  then show ?case using get_none by simp
next
  case (Suc n)
  then have "elems h \<noteq> {#}" by auto
  with get_ok [OF Suc.prems(1)] obtain x h1 where g: "get h = (None, Some x, h1)" "x \<in># elems h"
      "\<forall>y \<in># elems h. key x \<le> key y" "ok h1" "elems h1 = elems h - {#x#}"
    by blast
  have n: "size (elems h1) = n"
    using g(2,5) Suc.hyps(2) by (simp add: size_Diff_singleton)
  obtain ys h2 where ys: "get_all get n h1 = (ys, h2)" by fastforce
  have xs: "xs = x # ys" "h' = h2"
    using Suc.prems(2) g(1) ys by (simp_all add: Suc.hyps(2) [symmetric])
  have ih: "sorted (map key ys)" "mset ys = elems h1" "get h2 = (Some ENOKEY, None, h2)"
    using Suc.hyps(1) [of h1 ys] n g(4) ys xs(2) by auto
  have "\<forall>y \<in> set ys. key x \<le> key y"
    using g(3,5) ih(2) by (metis in_diffD set_mset_mset)
  then show ?case
    using ih g(2,5) by (simp add: xs)
qed

end

interpretation heap: priority_queue "heap_ok key" contents key
    "\<lambda>h x. key (element h 0) \<le> key x" "\<lambda>h. capacity h - hsize h" heap_insert heap_pop
  for key :: "'a \<Rightarrow> 'k::linorder"
proof unfold_locales
  fix h :: "'a heap" and x :: 'a
  assume "heap_ok key h" "key (element h 0) \<le> key x" "0 < capacity h - hsize h"
  then show "\<exists>h'. heap_insert h x = Some (None, h') \<and> heap_ok key h' \<and>
      contents h' = add_mset x (contents h) \<and>
      (\<lambda>x. key (element h' 0) \<le> key x) = (\<lambda>x. key (element h 0) \<le> key x) \<and>
      Suc (capacity h' - hsize h') = capacity h - hsize h"
    using insert_heap_ok [of key h x] by (auto simp: heap_insert_def is_full_def split: if_splits)
next
  fix h :: "'a heap" and x :: 'a
  assume "heap_ok key h" "capacity h - hsize h = 0"
  then show "heap_insert h x = Some (Some ENODATA, h)"
    by (simp add: heap_insert_def is_full_def heap_ok_def)
next
  fix h :: "'a heap"
  assume ok: "heap_ok key h" and ne: "contents h \<noteq> {#}"
  obtain code d h' where "heap_pop h = (code, d, h')" by (metis prod.exhaust_sel)
  then show "\<exists>x h'. heap_pop h = (None, Some x, h') \<and> x \<in># contents h \<and>
      (\<forall>y \<in># contents h. key x \<le> key y) \<and> heap_ok key h' \<and> contents h' = contents h - {#x#}"
    using pop_heap_ok [OF ok _ ne] by blast
next
  fix h :: "'a heap"
  assume "heap_ok key h" "contents h = {#}"
  then show "heap_pop h = (Some ENOKEY, None, h)"
    using size_contents [of h] by (simp add: heap_pop_def is_empty_heap_def)
qed



section \<open>Limits\<close>

text \<open>An element below the sentinel makes the insertion run for ever; and the test of the size
  wraps around, so that a heap for \<open>2 ^ 32 - 1\<close> elements is made, with an array of 4096.\<close>

lemma insert_below_sentinel:
  assumes "heap_init True (\<lambda>x y. x > (y :: int)) m minimum junk = Inr h" "0 < capacity h" "x < minimum"
  shows "heap_insert h x = None"
proof -
  have h: "hsize h = 0" "element h 0 = minimum" "gt h = (\<lambda>x y. x > y)" using assms(1) by (auto simp: heap_init_def)
  have "sift_up (gt h) x 1 (element h) = None"
    using h assms(3) sift_up_stuck [of "gt h" "(element h)(1 := element h 0)" x]
    by (subst sift_up.simps) simp
  then show ?thesis
    using h assms(2) by (simp add: heap_insert_def is_full_def)
qed

lemma huge_heap:
  "map_sum id capacity (heap_init True order (- 1) minimum junk) = Inr 4294967295"
  by (simp add: heap_init_def HEAP_MAX_SIZE_def unsigned_minus_1_eq_mask mask_eq_exp_minus_1)

end
