(* ===== verification/Bmap.thy ===== *)
theory Bmap
  imports Ylib
begin

text \<open>
  The bitmap of the file system, \<^verbatim>\<open>src/sdfs/ylib/lib/bmap.c\<close>, as a set of numbers that counts its
  members. The array \<open>bits\<close> is a function from indices; \<open>nr_one\<close> is a number of 32 bits. An
  operation on a map of size 0 divides by zero: the proofs ask for a positive size.
\<close>

section \<open>The code\<close>

record bmap =
  nr_one :: "32 word"
  bsize :: nat
  blen :: nat
  bits :: "nat \<Rightarrow> octet"

definition CHAR_BIT :: nat where "CHAR_BIT = 8"

definition setbit :: "(nat \<Rightarrow> octet) \<Rightarrow> nat \<Rightarrow> nat \<Rightarrow> octet" where
  "setbit a n = a(n div CHAR_BIT := a (n div CHAR_BIT) OR push_bit (n mod CHAR_BIT) 1)"

definition delbit :: "(nat \<Rightarrow> octet) \<Rightarrow> nat \<Rightarrow> nat \<Rightarrow> octet" where
  "delbit a n = a(n div CHAR_BIT := a (n div CHAR_BIT) AND NOT (push_bit (n mod CHAR_BIT) 1))"

text \<open>The value of \<^verbatim>\<open>GETBIT\<close> is the masked byte as an \<^verbatim>\<open>int\<close>, whose sign is extended.\<close>

definition getbit :: "(nat \<Rightarrow> octet) \<Rightarrow> nat \<Rightarrow> 32 word" where
  "getbit a n = scast (a (n div CHAR_BIT)) AND push_bit (n mod CHAR_BIT) 1"

definition bmap_create :: "bool \<Rightarrow> nat \<Rightarrow> bmap \<Rightarrow> errno option \<times> bmap" where
  "bmap_create granted sz b =
     (let l = sz div CHAR_BIT + (if sz mod CHAR_BIT \<noteq> 0 then CHAR_BIT else 0)
      in if \<not> granted then (Some ENOMEM, b)
         else (None, b\<lparr>bits := (\<lambda>i. if i < l then 0 else bits b i), nr_one := 0, blen := l, bsize := sz\<rparr>))"

definition bmap_get :: "bmap \<Rightarrow> nat \<Rightarrow> 32 word" where
  "bmap_get b off = getbit (bits b) (off mod bsize b)"

definition bmap_set :: "bmap \<Rightarrow> nat \<Rightarrow> errno option \<times> bmap" where
  "bmap_set b off =
     (if bmap_get b off \<noteq> 0 then (Some EEXIST, b)
      else (None, b\<lparr>bits := setbit (bits b) (off mod bsize b), nr_one := nr_one b + 1\<rparr>))"

definition bmap_del :: "bmap \<Rightarrow> nat \<Rightarrow> errno option \<times> bmap" where
  "bmap_del b off =
     (if bmap_get b off \<noteq> 0
      then (None, b\<lparr>bits := delbit (bits b) (off mod bsize b), nr_one := nr_one b - 1\<rparr>)
      else (Some ENOENT, b))"

definition bmap_full :: "bmap \<Rightarrow> bool" where
  "bmap_full b \<longleftrightarrow> of_nat (bsize b) = nr_one b"

definition bmap_load :: "bmap \<Rightarrow> (nat \<Rightarrow> octet) \<Rightarrow> nat \<Rightarrow> bmap" where
  "bmap_load b opaque l =
     (let b' = b\<lparr>bits := opaque, bsize := l * CHAR_BIT\<rparr>
      in b'\<lparr>nr_one := fold (\<lambda>i n. if bmap_get b' i \<noteq> 0 then n + 1 else n) [0..<bsize b'] (nr_one b')\<rparr>)"

text \<open>The test of a bit compares (\<open>1 < j\<close>) where a shift is meant.\<close>

definition free_in_byte :: "octet \<Rightarrow> nat option" where
  "free_in_byte c = List.find (\<lambda>j. (if 1 < j then 1 else 0) AND c = 0) [0..<CHAR_BIT]"

fun empty_from :: "bmap \<Rightarrow> nat list \<Rightarrow> int" where
  "empty_from b [] = - 1"
| "empty_from b (i # is) =
     (let c = bits b (i mod bsize b)
      in if c \<noteq> 0xFF then
           (case free_in_byte c of
              Some j \<Rightarrow> int (j + (i mod bsize b) * CHAR_BIT)
            | None \<Rightarrow> empty_from b is)
         else empty_from b is)"

definition bmap_get_empty :: "bmap \<Rightarrow> int" where
  "bmap_get_empty b = (if bmap_full b then - 1 else empty_from b [0..<bsize b div CHAR_BIT])"

definition bmap_clean :: "bmap \<Rightarrow> bmap" where
  "bmap_clean b = b\<lparr>bits := (\<lambda>i. if i < blen b then 0 else bits b i), nr_one := 0\<rparr>"

section \<open>A set that counts\<close>

definition members :: "bmap \<Rightarrow> nat set" where
  "members b = {i. i < bsize b \<and> bit (bits b (i div 8)) (i mod 8)}"

definition bmap_ok :: "bmap \<Rightarrow> bool" where
  "bmap_ok b \<longleftrightarrow> 0 < bsize b \<and> bsize b < 2 ^ 32 \<and> nr_one b = of_nat (card (members b)) \<and>
     bsize b \<le> 8 * blen b"

lemma finite_members: "finite (members b)" "card (members b) \<le> bsize b"
proof -
  have "members b \<subseteq> {..<bsize b}" by (auto simp: members_def)
  then show "finite (members b)" "card (members b) \<le> bsize b"
    using card_mono [of "{..<bsize b}" "members b"] by (auto intro: finite_subset)
qed

lemma bit_setbit: "bit (setbit a n (i div 8)) (i mod 8) \<longleftrightarrow> i = n \<or> bit (a (i div 8)) (i mod 8)"
proof -
  have "i div 8 = n div 8 \<and> i mod 8 = n mod 8 \<longleftrightarrow> i = n" by (metis div_mult_mod_eq)
  then show ?thesis
    by (auto simp: setbit_def CHAR_BIT_def bit_simps)
qed

lemma bit_delbit: "bit (delbit a n (i div 8)) (i mod 8) \<longleftrightarrow> i \<noteq> n \<and> bit (a (i div 8)) (i mod 8)"
proof -
  have "i div 8 = n div 8 \<and> i mod 8 = n mod 8 \<longleftrightarrow> i = n" by (metis div_mult_mod_eq)
  then show ?thesis
    by (auto simp: delbit_def CHAR_BIT_def bit_simps)
qed

lemma getbit_nonzero: "getbit a n \<noteq> 0 \<longleftrightarrow> bit (a (n div 8)) (n mod 8)"
proof -
  let ?k = "n mod 8"
  have k: "?k < 8" by simp
  have "getbit a n = (if bit (a (n div 8)) ?k then push_bit ?k 1 else 0)"
    unfolding getbit_def CHAR_BIT_def by (rule bit_word_eqI) (use k in \<open>auto simp: bit_simps\<close>)
  moreover have "push_bit ?k 1 \<noteq> (0 :: 32 word)"
  proof
    assume "push_bit ?k 1 = (0 :: 32 word)"
    then have "bit (push_bit ?k 1 :: 32 word) ?k = bit (0 :: 32 word) ?k" by simp
    then show False using k by (simp add: bit_simps)
  qed
  ultimately show ?thesis by simp
qed

lemma get_member: "0 < bsize b \<Longrightarrow> bmap_get b off \<noteq> 0 \<longleftrightarrow> off mod bsize b \<in> members b"
  by (simp add: bmap_get_def getbit_nonzero members_def)

lemma members_update:
  "members (b\<lparr>bits := a, nr_one := n\<rparr>) = {i. i < bsize b \<and> bit (a (i div 8)) (i mod 8)}"
  by (simp add: members_def)

lemma set_ok:
  assumes ok: "bmap_ok b" and n: "n = off mod bsize b"
  shows "bmap_ok (snd (bmap_set b off)) \<and> members (snd (bmap_set b off)) = insert n (members b) \<and>
    fst (bmap_set b off) = (if n \<in> members b then Some EEXIST else None)"
proof -
  have pos: "0 < bsize b" "n < bsize b" using ok n by (simp_all add: bmap_ok_def)
  show ?thesis
  proof (cases "n \<in> members b")
    case True
    then show ?thesis using ok get_member [OF pos(1), of off] n by (auto simp: bmap_set_def)
  next
    case False
    then have r: "bmap_set b off = (None, b\<lparr>bits := setbit (bits b) n, nr_one := nr_one b + 1\<rparr>)"
      using get_member [OF pos(1), of off] n by (auto simp: bmap_set_def)
    have m: "members (snd (bmap_set b off)) = insert n (members b)"
      unfolding r snd_conv members_update bit_setbit using pos(2) by (auto simp: members_def)
    then have "bmap_ok (snd (bmap_set b off))"
      using ok False finite_members unfolding bmap_ok_def m by (simp add: r)
    then show ?thesis using m False by (simp add: r)
  qed
qed

lemma del_ok:
  assumes ok: "bmap_ok b" and n: "n = off mod bsize b"
  shows "bmap_ok (snd (bmap_del b off)) \<and> members (snd (bmap_del b off)) = members b - {n} \<and>
    fst (bmap_del b off) = (if n \<in> members b then None else Some ENOENT)"
proof -
  have pos: "0 < bsize b" using ok by (simp add: bmap_ok_def)
  show ?thesis
  proof (cases "n \<in> members b")
    case False
    then show ?thesis using ok get_member [OF pos, of off] n by (auto simp: bmap_del_def)
  next
    case True
    then have r: "bmap_del b off = (None, b\<lparr>bits := delbit (bits b) n, nr_one := nr_one b - 1\<rparr>)"
      using get_member [OF pos, of off] n by (auto simp: bmap_del_def)
    have m: "members (snd (bmap_del b off)) = members b - {n}"
      unfolding r snd_conv members_update bit_delbit by (auto simp: members_def)
    have "card (members b) = Suc (card (members b - {n}))"
      using True finite_members(1) by (metis card.remove)
    then have "bmap_ok (snd (bmap_del b off))"
      using ok unfolding bmap_ok_def m by (simp add: r)
    then show ?thesis using m True by (simp add: r)
  qed
qed

lemma full_iff:
  assumes "bmap_ok b"
  shows "bmap_full b \<longleftrightarrow> members b = {..<bsize b}"
proof -
  have sub: "members b \<subseteq> {..<bsize b}" by (auto simp: members_def)
  have "bmap_full b \<longleftrightarrow> bsize b = card (members b)"
  proof
    assume "bmap_full b"
    then have "unat (of_nat (bsize b) :: 32 word) = unat (of_nat (card (members b)) :: 32 word)"
      using assms by (simp add: bmap_full_def bmap_ok_def)
    then have "take_bit 32 (bsize b) = take_bit 32 (card (members b))"
      by (simp add: unsigned_of_nat)
    then show "bsize b = card (members b)"
      using assms finite_members(2) [of b] by (simp add: bmap_ok_def take_bit_nat_eq_self)
  qed (use assms in \<open>simp add: bmap_full_def bmap_ok_def\<close>)
  also have "\<dots> \<longleftrightarrow> members b = {..<bsize b}"
    by (metis card_lessThan card_subset_eq finite_lessThan sub)
  finally show ?thesis .
qed

lemma clean_ok:
  assumes "bmap_ok b"
  shows "bmap_ok (bmap_clean b) \<and> members (bmap_clean b) = {}"
proof -
  have "i div 8 < blen b" if "i < bsize b" for i
    using that assms by (intro less_mult_imp_div_less) (simp add: bmap_ok_def)
  then have "members (bmap_clean b) = {}"
    by (auto simp: members_def bmap_clean_def)
  then show ?thesis
    using assms by (simp add: bmap_ok_def) (simp add: bmap_clean_def)
qed

lemma create_bmap_ok:
  assumes "bmap_create True n b0 = (code, b)" "0 < n" "n < 2 ^ 32"
  shows "code = None" "bmap_ok b" "members b = {}" "bsize b = n"
proof -
  have b: "bsize b = n" "nr_one b = 0" "blen b = n div 8 + (if n mod 8 \<noteq> 0 then 8 else 0)"
      "\<And>i. i < blen b \<Longrightarrow> bits b i = 0" and c: "code = None"
    using assms(1) by (auto simp: bmap_create_def Let_def CHAR_BIT_def)
  have len: "n \<le> 8 * blen b" using b(3) by (simp add: mod_eq_0_iff_dvd) presburger
  have "i div 8 < blen b" if "i < n" for i using that len by (intro less_mult_imp_div_less) simp
  then show m: "members b = {}"
    using b(1,4) by (auto simp: members_def)
  show "bmap_ok b" using assms(2,3) b(1,2) len unfolding bmap_ok_def m by simp
  show "code = None" "bsize b = n" by (fact c b(1))+
qed

text \<open>C30: A bitmap is a set of the numbers below its size (larger ones are taken modulo the size)
  with a count that is always the number of its members: setting and deleting change exactly
  one member or report that nothing is to be done, it is full exactly when every number is in
  it, and cleaning gives the empty set.\<close>
theorem bmap_is_a_set:
  assumes "bmap_ok b" "n = off mod bsize b"
  shows "bmap_ok (snd (bmap_set b off)) \<and> members (snd (bmap_set b off)) = insert n (members b) \<and>
    fst (bmap_set b off) = (if n \<in> members b then Some EEXIST else None) \<and>
    bmap_ok (snd (bmap_del b off)) \<and> members (snd (bmap_del b off)) = members b - {n} \<and>
    fst (bmap_del b off) = (if n \<in> members b then None else Some ENOENT) \<and>
    (bmap_get b off \<noteq> 0 \<longleftrightarrow> n \<in> members b) \<and>
    (bmap_full b \<longleftrightarrow> members b = {..<bsize b}) \<and>
    bmap_ok (bmap_clean b) \<and> members (bmap_clean b) = {}"
proof -
  have "0 < bsize b" using assms(1) by (simp add: bmap_ok_def)
  then show ?thesis
    using set_ok [OF assms] del_ok [OF assms] full_iff [OF assms(1)] clean_ok [OF assms(1)]
      get_member [of b off] assms(2) by blast
qed

definition small_map :: bmap where
  "small_map = snd (bmap_create True 12 \<lparr>nr_one = 0, bsize = 0, blen = 0, bits = (\<lambda>_. 9)\<rparr>)"

lemma small_map_ok: "bmap_ok small_map" "members small_map = {}" "bsize small_map = 12"
proof -
  let ?b0 = "\<lparr>nr_one = 0, bsize = 0, blen = 0, bits = (\<lambda>_. 9)\<rparr>"
  have c: "bmap_create True 12 ?b0 = (fst (bmap_create True 12 ?b0), small_map)"
    by (simp add: small_map_def)
  show "bmap_ok small_map" "members small_map = {}" "bsize small_map = 12"
    using create_bmap_ok [OF c] by simp_all
qed

lemma bmap_is_a_set_witness:
  "members (snd (bmap_set small_map 15)) = {3} \<and> fst (bmap_del small_map 15) = Some ENOENT \<and>
   bmap_get small_map 15 = 0"
  using bmap_is_a_set [OF small_map_ok(1), of 3 15] by (simp add: small_map_ok)

section \<open>Where the code goes wrong\<close>

text \<open>\<^verbatim>\<open>bmap_get_empty\<close> gives out a number that is taken, and \<^verbatim>\<open>bmap_get\<close> gives the mask and not 1.\<close>

lemma get_empty_gives_used:
  "bmap_get_empty (snd (bmap_set small_map 0)) = 0 \<and> 0 \<in> members (snd (bmap_set small_map 0))"
  using set_ok [OF small_map_ok(1), of 0 0]
  by (simp add: small_map_ok) (simp add: small_map_def bmap_create_def bmap_set_def bmap_get_def
      getbit_def setbit_def bmap_get_empty_def bmap_full_def CHAR_BIT_def upt_conv_Cons free_in_byte_def)

lemma get_gives_mask: "bmap_get (snd (bmap_set small_map 3)) 3 = 8"
  by (simp add: small_map_def bmap_create_def bmap_set_def bmap_get_def getbit_def setbit_def CHAR_BIT_def)

text \<open>Loading a map over one that is in use adds to the old count.\<close>

lemma load_keeps_count:
  "nr_one (bmap_load (snd (bmap_set small_map 3)) (\<lambda>_. 1) 1) = 2 \<and>
   members (bmap_load (snd (bmap_set small_map 3)) (\<lambda>_. 1) 1) = {0}"
  by (auto simp: small_map_def bmap_create_def bmap_set_def bmap_get_def getbit_def setbit_def
      CHAR_BIT_def bmap_load_def upt_conv_Cons members_def bit_1_iff)

end
