(* ===== verification/Base64.thy ===== *)
theory Base64
  imports Ylib
begin

text \<open>
  The base 64 codecs of the file system: \<^verbatim>\<open>src/sdfs/ylib/lib/base64.c\<close> (two state machines that
  can be fed in parts) and \<^verbatim>\<open>src/sdfs/ylib/lib/base64_urlsafe.c\<close>.

  The C functions of the first file jump with a \<^verbatim>\<open>switch\<close> into an endless loop: here a step of
  the machine reads one character. What is written to an output pointer is a list where it is
  only written, and a buffer (a function from indices) where it is read back, as by the decoder.
\<close>

section \<open>The encoder\<close>

datatype encodestep = step_A | step_B | step_C

record encodestate =
  estep :: encodestep
  result :: octet
  stepcount :: nat

definition CHARS_PER_LINE :: nat where "CHARS_PER_LINE = 72"

definition base64_init_encodestate :: encodestate where
  "base64_init_encodestate = \<lparr>estep = step_A, result = 0, stepcount = 0\<rparr>"

definition ascii :: "string \<Rightarrow> octet list" where
  "ascii s = map of_char s"

definition encoding :: "octet list" where
  "encoding = ascii ''ABCDEFGHIJKLMNOPQRSTUVWXYZabcdefghijklmnopqrstuvwxyz0123456789+/''"

definition base64_encode_value :: "octet \<Rightarrow> octet" where
  "base64_encode_value v = (if sint v > 63 then 61 else encoding ! unat v)"

text \<open>The characters one character of input makes, and the state after it.\<close>

definition encode_step :: "octet \<Rightarrow> encodestate \<Rightarrow> octet list \<times> encodestate" where
  "encode_step fragment s =
     (case estep s of
        step_A \<Rightarrow>
          ([base64_encode_value (drop_bit 2 (fragment AND 0xFC))],
           s\<lparr>estep := step_B, result := push_bit 4 (fragment AND 0x03)\<rparr>)
      | step_B \<Rightarrow>
          ([base64_encode_value (result s OR drop_bit 4 (fragment AND 0xF0))],
           s\<lparr>estep := step_C, result := push_bit 2 (fragment AND 0x0F)\<rparr>)
      | step_C \<Rightarrow>
          (let full = (Suc (stepcount s) = CHARS_PER_LINE div 4)
           in ([base64_encode_value (result s OR drop_bit 6 (fragment AND 0xC0)),
                base64_encode_value (drop_bit 0 (fragment AND 0x3F))] @ (if full then [10] else []),
               s\<lparr>estep := step_A, result := drop_bit 0 (fragment AND 0x3F),
                 stepcount := (if full then 0 else Suc (stepcount s))\<rparr>)))"

fun base64_encode_block :: "octet list \<Rightarrow> encodestate \<Rightarrow> octet list \<times> encodestate" where
  "base64_encode_block [] s = ([], s)"
| "base64_encode_block (fragment # rest) s =
     (let (out, s') = encode_step fragment s; (outs, s'') = base64_encode_block rest s'
      in (out @ outs, s''))"

definition base64_encode_blockend :: "encodestate \<Rightarrow> octet list" where
  "base64_encode_blockend s =
     (case estep s of
        step_B \<Rightarrow> [base64_encode_value (result s), 61, 61]
      | step_C \<Rightarrow> [base64_encode_value (result s), 61]
      | step_A \<Rightarrow> [])"

text \<open>The output with its terminating zero.\<close>

definition base64_encode :: "octet list \<Rightarrow> octet list" where
  "base64_encode input =
     (let (out, s) = base64_encode_block input base64_init_encodestate
      in out @ base64_encode_blockend s @ [0])"

section \<open>The decoder\<close>

datatype decodestep = step_a | step_b | step_c | step_d

record decodestate =
  dstep :: decodestep
  plainchar :: octet

definition base64_init_decodestate :: decodestate where
  "base64_init_decodestate = \<lparr>dstep = step_a, plainchar = 0\<rparr>"

definition decoding :: "octet list" where
  "decoding = [62,-1,-1,-1,63,52,53,54,55,56,57,58,59,60,61,-1,-1,-1,-2,-1,-1,-1,0,1,2,3,4,5,6,
     7,8,9,10,11,12,13,14,15,16,17,18,19,20,21,22,23,24,25,-1,-1,-1,-1,-1,-1,26,27,28,29,30,
     31,32,33,34,35,36,37,38,39,40,41,42,43,44,45,46,47,48,49,50,51]"

definition base64_decode_value :: "octet \<Rightarrow> octet" where
  "base64_decode_value c =
     (let v = c - 43
      in if sint v < 0 \<or> sint v \<ge> int (length decoding) then - 1 else decoding ! unat v)"

type_synonym byte_array = "nat \<Rightarrow> octet"

text \<open>What a step does with a fragment: the buffer and the output position after it.\<close>

definition decode_step ::
    "decodestep \<Rightarrow> octet \<Rightarrow> byte_array \<Rightarrow> nat \<Rightarrow> decodestep \<times> byte_array \<times> nat" where
  "decode_step st fragment buf p =
     (case st of
        step_a \<Rightarrow> (step_b, buf(p := push_bit 2 (fragment AND 0x3F)), p)
      | step_b \<Rightarrow> (step_c, buf(p := buf p OR drop_bit 4 (fragment AND 0x30),
                               Suc p := push_bit 4 (fragment AND 0x0F)), Suc p)
      | step_c \<Rightarrow> (step_d, buf(p := buf p OR drop_bit 2 (fragment AND 0x3C),
                               Suc p := push_bit 6 (fragment AND 0x03)), Suc p)
      | step_d \<Rightarrow> (step_a, buf(p := buf p OR (fragment AND 0x3F)), Suc p))"

text \<open>The characters that are no code (a negative fragment) are skipped.\<close>

fun decode_loop :: "octet list \<Rightarrow> decodestep \<Rightarrow> byte_array \<Rightarrow> nat \<Rightarrow> decodestep \<times> byte_array \<times> nat" where
  "decode_loop [] st buf p = (st, buf, p)"
| "decode_loop (c # cs) st buf p =
     (let fragment = base64_decode_value c
      in if sint fragment < 0 then decode_loop cs st buf p
         else let (st', buf', p') = decode_step st fragment buf p in decode_loop cs st' buf' p')"

definition base64_decode_block ::
    "octet list \<Rightarrow> byte_array \<Rightarrow> decodestate \<Rightarrow> nat \<times> byte_array \<times> decodestate" where
  "base64_decode_block code_in buf s =
     (let (st, buf', p) = decode_loop code_in (dstep s) (buf(0 := plainchar s)) 0
      in (p, buf', \<lparr>dstep = st, plainchar = buf' p\<rparr>))"

text \<open>The input ends at its first zero; the result is the length and the buffer.\<close>

definition base64_decode :: "octet list \<Rightarrow> byte_array \<Rightarrow> nat \<times> byte_array" where
  "base64_decode input output =
     (let (cnt, buf, s) =
        base64_decode_block (takeWhile (\<lambda>c. c \<noteq> 0) input) output base64_init_decodestate
      in (cnt, buf))"

section \<open>The codec for addresses\<close>

definition b64_table :: "octet list" where
  "b64_table = ascii
     ''ABCDEFGHIJKLMNOPQRSTUVWXYZabcdefghijklmnopqrstuvwxyz0123456789+/''"

definition sextet :: "nat \<Rightarrow> 32 word \<Rightarrow> octet" where
  "sextet n v = b64_table ! unat (drop_bit n v AND 0x3F)"

definition group_chars :: "32 word \<Rightarrow> nat \<Rightarrow> octet list" where
  "group_chars v pad =
     [sextet 18 v, sextet 12 v, if pad \<ge> 2 then 61 else sextet 6 v, if pad \<ge> 1 then 61 else sextet 0 v]"

fun b64_groups :: "octet list \<Rightarrow> octet list" where
  "b64_groups [] = []"
| "b64_groups [a] = group_chars (push_bit 16 (ucast a)) 2"
| "b64_groups [a, b] = group_chars (push_bit 16 (ucast a) OR push_bit 8 (ucast b)) 1"
| "b64_groups (a # b # c # rest) =
     group_chars (push_bit 16 (ucast a) OR push_bit 8 (ucast b) OR push_bit 0 (ucast c)) 0
     @ b64_groups rest"

text \<open>
  The pointers are not null (\<open>valid\<close>), and \<open>olen\<close> is the room of the output, in the C code
  through a pointer that afterwards gives the length that was written.
\<close>

definition b64_encode :: "bool \<Rightarrow> octet list \<Rightarrow> nat \<Rightarrow> errno + octet list" where
  "b64_encode valid input olen =
     (if \<not> valid then Inl EINVAL
      else if olen < 4 * ((length input + 2) div 3) then Inl EOVERFLOW
      else Inr (b64_groups input))"

definition b64val :: "octet \<Rightarrow> 32 word" where
  "b64val c =
     (if 65 \<le> sint c \<and> sint c \<le> 90 then word_of_int (sint c - 65 + 0)
      else if 97 \<le> sint c \<and> sint c \<le> 122 then word_of_int (sint c - 97 + 26)
      else if 48 \<le> sint c \<and> sint c \<le> 57 then word_of_int (sint c - 48 + 52)
      else if sint c = 43 then 62
      else if sint c = 47 then 63
      else if sint c = 61 then push_bit 24 1
      else 0)"

fun b64_ungroup :: "octet list \<Rightarrow> octet list" where
  "b64_ungroup (a # b # c # d # rest) =
     (let v = push_bit 18 (b64val a) OR push_bit 12 (b64val b) OR push_bit 6 (b64val c)
              OR push_bit 0 (b64val d)
      in [ucast (drop_bit 16 v)] @
         (if v AND push_bit 30 1 = 0 then [ucast (drop_bit 8 v AND 0xFF)] else []) @
         (if v AND push_bit 24 1 = 0 then [ucast (drop_bit 0 v AND 0xFF)] else []) @
         b64_ungroup rest)"
| "b64_ungroup _ = []"

definition b64_decode :: "bool \<Rightarrow> octet list \<Rightarrow> nat \<Rightarrow> errno + octet list" where
  "b64_decode valid input olen =
     (if \<not> valid then Inl EINVAL
      else if olen < 3 * (length input div 4) then Inl EOVERFLOW
      else Inr (b64_ungroup input))"

definition b64_to_safe :: "octet \<Rightarrow> octet" where
  "b64_to_safe c = (if c = 43 then 45 else if c = 47 then 95 else c)"

definition safe_to_b64 :: "octet \<Rightarrow> octet" where
  "safe_to_b64 c = (if c = 45 then 43 else if c = 95 then 47 else c)"

text \<open>The list is what is written, the terminating zero included; the length the caller is
  told is one less.\<close>

definition urlsafe_b64_encode :: "bool \<Rightarrow> octet list \<Rightarrow> nat \<Rightarrow> errno + octet list" where
  "urlsafe_b64_encode valid input olen =
     (case b64_encode valid input olen of
        Inl e \<Rightarrow> Inl e
      | Inr out \<Rightarrow> Inr (map b64_to_safe out @ [0]))"

definition urlsafe_b64_decode :: "bool \<Rightarrow> octet list \<Rightarrow> nat \<Rightarrow> errno + octet list" where
  "urlsafe_b64_decode valid input olen = b64_decode valid (map safe_to_b64 input) olen"

end
