(* ===== verification/Base64Props.thy ===== *)
theory Base64Props
  imports Base64
begin

text \<open>
  Both codecs read back what they write. The values of the codes are checked one by one; the
  rest is bit arithmetic on octets and an induction over the input that carries the state of
  both machines.
\<close>

section \<open>Codes and values\<close>

lemma encoding_codes:
  "encoding = [65,66,67,68,69,70,71,72,73,74,75,76,77,78,79,80,81,82,83,84,85,86,87,88,89,90,
     97,98,99,100,101,102,103,104,105,106,107,108,109,110,111,112,113,114,115,116,117,118,119,
     120,121,122,48,49,50,51,52,53,54,55,56,57,43,47]"
  by (simp add: encoding_def ascii_def)

lemma small_octet:
  assumes "v < (64 :: octet)"
  obtains n where "n < 64" "v = of_nat n"
proof
  show "unat v < 64" using unat_mono [OF assms] by simp
  show "v = of_nat (unat v)" by simp
qed

lemma all_codes:
  "list_all (\<lambda>n. base64_decode_value (base64_encode_value (of_nat n)) = of_nat n \<and>
     base64_encode_value (of_nat n) \<noteq> 0 \<and> \<not> sint (of_nat n :: octet) < 0) [0..<64]"
  by (simp add: upt_conv_Cons base64_encode_value_def encoding_codes base64_decode_value_def decoding_def)

lemma code_value:
  assumes "v < 64"
  shows "base64_decode_value (base64_encode_value v) = v" "base64_encode_value v \<noteq> 0" "\<not> sint v < 0"
proof -
  obtain n where n: "n < 64" "v = of_nat n" using small_octet [OF assms] .
  then have "n \<in> set [0..<64]" by simp
  with all_codes n(2) show "base64_decode_value (base64_encode_value v) = v"
    "base64_encode_value v \<noteq> 0" "\<not> sint v < 0"
    unfolding list_all_iff by blast+
qed

lemma skipped_values:
  "sint (base64_decode_value 10) < 0" "sint (base64_decode_value 61) < 0"
  by (simp_all add: base64_decode_value_def decoding_def)

lemma sextet_less: "take_bit 6 v = (v :: octet) \<Longrightarrow> v < 64"
proof -
  assume "take_bit 6 v = v"
  then have "unat v = take_bit 6 (unat v)"
    by (metis unsigned_take_bit_eq)
  then have "unat v < 64"
    using take_bit_nat_less_exp [of 6 "unat v"] by simp
  then show ?thesis by (simp add: word_less_nat_alt)
qed

lemma decode_code:
  assumes "v < 64"
  shows "decode_loop (base64_encode_value v # cs) st buf p =
    (let (st', buf', p') = decode_step st v buf p in decode_loop cs st' buf' p')"
  using code_value [OF assms] by simp

section \<open>Cutting octets into sextets and joining them\<close>

lemma sextets:
  "drop_bit 2 (g AND 0xFC) < (64 :: octet)"
  "push_bit 4 (f AND 3) OR drop_bit 4 (g AND 0xF0) < (64 :: octet)"
  "push_bit 2 (f AND 15) OR drop_bit 6 (g AND 0xC0) < (64 :: octet)"
  "g AND 63 < (64 :: octet)" "push_bit 4 (f AND 3) < (64 :: octet)" "push_bit 2 (f AND 15) < (64 :: octet)"
  by (rule sextet_less, rule octet_eqI, drule octet_positions, elim insertE emptyE; simp add: bit_simps)+

lemma joins:
  fixes f g :: octet
  shows "push_bit 2 (drop_bit 2 (g AND 0xFC) AND 63) = g AND 0xFC"
    and "(f AND 0xFC) OR drop_bit 4 ((push_bit 4 (f AND 3) OR drop_bit 4 (g AND 0xF0)) AND 0x30) = f"
    and "push_bit 4 ((push_bit 4 (f AND 3) OR drop_bit 4 (g AND 0xF0)) AND 15) = g AND 0xF0"
    and "(f AND 0xF0) OR drop_bit 2 ((push_bit 2 (f AND 15) OR drop_bit 6 (g AND 0xC0)) AND 0x3C) = f"
    and "push_bit 6 ((push_bit 2 (f AND 15) OR drop_bit 6 (g AND 0xC0)) AND 3) = g AND 0xC0"
    and "(g AND 0xC0) OR ((g AND 63) AND 63) = g"
    and "(f AND 0xFC) OR drop_bit 4 (push_bit 4 (f AND 3) AND 0x30) = f"
    and "(f AND 0xF0) OR drop_bit 2 (push_bit 2 (f AND 15) AND 0x3C) = f"
  by (rule octet_eqI, drule octet_positions, elim insertE emptyE; simp add: bit_simps)+

text \<open>What the steps of the decoder make of the sextets the encoder writes.\<close>

lemma decode_first:
  "decode_loop (base64_encode_value (drop_bit 2 (g AND 0xFC)) # cs) step_a buf p =
     decode_loop cs step_b (buf(p := g AND 0xFC)) p"
  by (simp only: decode_code [OF sextets(1)] decode_step_def decodestep.case joins Let_def prod.case)

lemma decode_second:
  "buf p = f AND 0xFC \<Longrightarrow>
     decode_loop (base64_encode_value (push_bit 4 (f AND 3) OR drop_bit 4 (g AND 0xF0)) # cs) step_b buf p =
     decode_loop cs step_c (buf(p := f, Suc p := g AND 0xF0)) (Suc p)"
  by (simp only: decode_code [OF sextets(2)] decode_step_def decodestep.case joins Let_def prod.case)

lemma decode_third:
  "buf p = f AND 0xF0 \<Longrightarrow>
     decode_loop (base64_encode_value (push_bit 2 (f AND 15) OR drop_bit 6 (g AND 0xC0)) # cs) step_c buf p =
     decode_loop cs step_d (buf(p := f, Suc p := g AND 0xC0)) (Suc p)"
  by (simp only: decode_code [OF sextets(3)] decode_step_def decodestep.case joins Let_def prod.case)

lemma decode_fourth:
  "buf p = g AND 0xC0 \<Longrightarrow>
     decode_loop (base64_encode_value (g AND 63) # cs) step_d buf p =
     decode_loop cs step_a (buf(p := g)) (Suc p)"
  by (simp only: decode_code [OF sextets(4)] decode_step_def decodestep.case joins Let_def prod.case)

lemma decode_last:
  "buf p = f AND 0xFC \<Longrightarrow>
     decode_loop (base64_encode_value (push_bit 4 (f AND 3)) # cs) step_b buf p =
     decode_loop cs step_c (buf(p := f, Suc p := push_bit 4 (push_bit 4 (f AND 3) AND 15))) (Suc p)"
  "buf p = f AND 0xF0 \<Longrightarrow>
     decode_loop (base64_encode_value (push_bit 2 (f AND 15)) # cs) step_c buf p =
     decode_loop cs step_d (buf(p := f, Suc p := push_bit 6 (push_bit 2 (f AND 15) AND 3))) (Suc p)"
  by (simp_all only: decode_code [OF sextets(5)] decode_code [OF sextets(6)] decode_step_def
      decodestep.case joins Let_def prod.case)

lemma decode_skip:
  "decode_loop (10 # cs) st buf p = decode_loop cs st buf p"
  "decode_loop (61 # cs) st buf p = decode_loop cs st buf p"
  using skipped_values by simp_all

section \<open>Both machines at work\<close>

text \<open>What the encoder still holds of the input is what the decoder has not completed.\<close>

definition carries :: "encodestate \<Rightarrow> decodestep \<Rightarrow> byte_array \<Rightarrow> nat \<Rightarrow> octet list \<Rightarrow> bool" where
  "carries es st buf p pend \<longleftrightarrow>
     (case estep es of
        step_A \<Rightarrow> st = step_a \<and> pend = []
      | step_B \<Rightarrow> st = step_b \<and>
          (\<exists>f. pend = [f] \<and> result es = push_bit 4 (f AND 3) \<and> buf p = f AND 0xFC)
      | step_C \<Rightarrow> st = step_c \<and>
          (\<exists>f. pend = [f] \<and> result es = push_bit 2 (f AND 15) \<and> buf p = f AND 0xF0))"

lemma step_carries:
  assumes c: "carries es st buf p pend" and e: "encode_step g es = (out, es')"
  shows "\<exists>st' buf' p' pend'. decode_loop (out @ cs) st buf p = decode_loop cs st' buf' p' \<and>
    carries es' st' buf' p' pend' \<and>
    map buf' [0..<p'] @ pend' = map buf [0..<p] @ pend @ [g]"
proof (cases "estep es")
  case step_A
  then have out: "out = [base64_encode_value (drop_bit 2 (g AND 0xFC))]"
    "es' = es\<lparr>estep := step_B, result := push_bit 4 (g AND 3)\<rparr>"
    using e by (auto simp: encode_step_def)
  have "st = step_a" "pend = []" using c step_A by (simp_all add: carries_def)
  moreover have "decode_loop (out @ cs) step_a buf p = decode_loop cs step_b (buf(p := g AND 0xFC)) p"
    by (simp only: out append_Cons append_Nil decode_first)
  moreover have "carries es' step_b (buf(p := g AND 0xFC)) p [g]"
    by (simp add: carries_def out)
  ultimately show ?thesis
    by (intro exI [of _ step_b] exI [of _ "buf(p := g AND 0xFC)"] exI [of _ p] exI [of _ "[g]"]) simp
next
  case step_B
  then obtain f where f: "st = step_b" "pend = [f]" "result es = push_bit 4 (f AND 3)" "buf p = f AND 0xFC"
    using c by (auto simp: carries_def)
  let ?v = "push_bit 4 (f AND 3) OR drop_bit 4 (g AND 0xF0)"
  let ?buf = "buf(p := f, Suc p := g AND 0xF0)"
  have out: "out = [base64_encode_value ?v]" "es' = es\<lparr>estep := step_C, result := push_bit 2 (g AND 15)\<rparr>"
    using e step_B f(3) by (auto simp: encode_step_def)
  have "decode_loop (out @ cs) st buf p = decode_loop cs step_c ?buf (Suc p)"
    by (simp only: out append_Cons append_Nil f(1) decode_second [of buf p f, OF f(4)])
  moreover have "carries es' step_c ?buf (Suc p) [g]"
    by (simp add: carries_def out)
  moreover have "map ?buf [0..<Suc p] @ [g] = map buf [0..<p] @ pend @ [g]"
    by (simp add: f(2))
  ultimately show ?thesis by blast
next
  case step_C
  then obtain f where f: "st = step_c" "pend = [f]" "result es = push_bit 2 (f AND 15)" "buf p = f AND 0xF0"
    using c by (auto simp: carries_def)
  let ?v = "push_bit 2 (f AND 15) OR drop_bit 6 (g AND 0xC0)"
  let ?buf = "buf(p := f, Suc p := g)"
  obtain nl where out: "out = base64_encode_value ?v # base64_encode_value (g AND 63) # nl"
    and nl: "nl = [] \<or> nl = [10]" and es': "estep es' = step_A"
    using e step_C f(3) by (auto simp: encode_step_def Let_def)
  have "decode_loop (out @ cs) st buf p = decode_loop (nl @ cs) step_a ?buf (Suc (Suc p))"
    by (simp only: out append_Cons f(1) decode_third [of buf p f, OF f(4)]
        decode_fourth [of "buf(p := f, Suc p := g AND 0xC0)", OF fun_upd_same] fun_upd_upd)
  also have "\<dots> = decode_loop cs step_a ?buf (Suc (Suc p))"
    using nl by (auto simp: decode_skip simp del: decode_loop.simps)
  finally have "decode_loop (out @ cs) st buf p = decode_loop cs step_a ?buf (Suc (Suc p))" .
  moreover have "carries es' step_a ?buf (Suc (Suc p)) []"
    by (simp add: carries_def es')
  moreover have "map ?buf [0..<Suc (Suc p)] @ [] = map buf [0..<p] @ pend @ [g]"
    by (simp add: f(2))
  ultimately show ?thesis by blast
qed

lemma end_carries:
  assumes "carries es st buf p pend"
  shows "\<exists>st' buf' p'. decode_loop (base64_encode_blockend es) st buf p = (st', buf', p') \<and>
    map buf' [0..<p'] = map buf [0..<p] @ pend"
proof (cases "estep es")
  case step_A
  then show ?thesis
    using assms by (simp add: carries_def base64_encode_blockend_def)
next
  case step_B
  then obtain f where f: "st = step_b" "pend = [f]" "result es = push_bit 4 (f AND 3)" "buf p = f AND 0xFC"
    using assms by (auto simp: carries_def)
  have "decode_loop (base64_encode_blockend es) st buf p =
      (step_c, buf(p := f, Suc p := push_bit 4 (push_bit 4 (f AND 3) AND 15)), Suc p)"
    by (simp only: base64_encode_blockend_def step_B encodestep.case f(1,3)
        decode_last(1) [of buf p f, OF f(4)] decode_skip decode_loop.simps(1))
  then show ?thesis by (simp add: f(2))
next
  case step_C
  then obtain f where f: "st = step_c" "pend = [f]" "result es = push_bit 2 (f AND 15)" "buf p = f AND 0xF0"
    using assms by (auto simp: carries_def)
  have "decode_loop (base64_encode_blockend es) st buf p =
      (step_d, buf(p := f, Suc p := push_bit 6 (push_bit 2 (f AND 15) AND 3)), Suc p)"
    by (simp only: base64_encode_blockend_def step_C encodestep.case f(1,3)
        decode_last(2) [of buf p f, OF f(4)] decode_skip decode_loop.simps(1))
  then show ?thesis by (simp add: f(2))
qed

lemma block_carries:
  assumes "carries es st buf p pend" "base64_encode_block bs es = (out, es')"
  shows "\<exists>st' buf' p'. decode_loop (out @ base64_encode_blockend es') st buf p = (st', buf', p') \<and>
    map buf' [0..<p'] = map buf [0..<p] @ pend @ bs"
  using assms
proof (induction bs arbitrary: es st buf p pend out)
  case Nil
  then show ?case using end_carries by simp
next
  case (Cons g bs)
  obtain o1 es1 where e: "encode_step g es = (o1, es1)" by fastforce
  obtain o2 where b: "base64_encode_block bs es1 = (o2, es')" and out: "out = o1 @ o2"
    using Cons.prems(2) e by (auto split: prod.splits)
  obtain st1 buf1 p1 pend1 where s: "decode_loop (o1 @ o2 @ base64_encode_blockend es') st buf p =
      decode_loop (o2 @ base64_encode_blockend es') st1 buf1 p1"
    "carries es1 st1 buf1 p1 pend1" "map buf1 [0..<p1] @ pend1 = map buf [0..<p] @ pend @ [g]"
    using step_carries [OF Cons.prems(1) e] by blast
  obtain st' buf' p' where r: "decode_loop (o2 @ base64_encode_blockend es') st1 buf1 p1 = (st', buf', p')"
    "map buf' [0..<p'] = (map buf1 [0..<p1] @ pend1) @ bs"
    using Cons.IH [OF s(2) b] by auto
  show ?case
    using r s(1) unfolding s(3) out by auto
qed

text \<open>No character of the output is a zero, at which the decoder would stop.\<close>

lemma encode_nonzero:
  assumes "carries es st buf p pend" "base64_encode_block bs es = (out, es')"
  shows "0 \<notin> set (out @ base64_encode_blockend es')"
  using assms
proof (induction bs arbitrary: es st buf p pend out)
  case Nil
  have "base64_encode_value (push_bit 4 (f AND 3)) \<noteq> 0" "base64_encode_value (push_bit 2 (f AND 15)) \<noteq> 0" for f
    using code_value(2) [OF sextets(5)] code_value(2) [OF sextets(6)] .
  then show ?case
    using Nil by (cases "estep es") (auto simp: carries_def base64_encode_blockend_def eq_commute [of 0])
next
  case (Cons g bs)
  obtain o1 es1 where e: "encode_step g es = (o1, es1)" by fastforce
  obtain o2 where b: "base64_encode_block bs es1 = (o2, es')" and out: "out = o1 @ o2"
    using Cons.prems(2) e by (auto split: prod.splits)
  obtain st1 buf1 p1 pend1 where s: "carries es1 st1 buf1 p1 pend1"
    using step_carries [OF Cons.prems(1) e] by blast
  have "0 \<notin> set o1"
  proof -
    have "base64_encode_value (drop_bit 2 (g AND 0xFC)) \<noteq> 0" "base64_encode_value (g AND 63) \<noteq> 0"
      "base64_encode_value (push_bit 4 (f AND 3) OR drop_bit 4 (g AND 0xF0)) \<noteq> 0"
      "base64_encode_value (push_bit 2 (f AND 15) OR drop_bit 6 (g AND 0xC0)) \<noteq> 0" for f
      using code_value(2) sextets by blast+
    then show ?thesis
      using Cons.prems(1) e
      by (cases "estep es") (auto simp: carries_def encode_step_def Let_def eq_commute [of 0] simp del: push_bit_and)
  qed
  then show ?case
    using Cons.IH [OF s b] by (simp add: out)
qed


section \<open>The codec for addresses\<close>

lemma all_sextets:
  "list_all (\<lambda>n. b64val (b64_table ! n) = of_nat n \<and>
     safe_to_b64 (b64_to_safe (b64_table ! n)) = b64_table ! n \<and> b64_table ! n \<noteq> 61) [0..<64]"
  by (simp add: upt_conv_Cons b64_table_def encoding_def [symmetric] encoding_codes b64val_def
      b64_to_safe_def safe_to_b64_def)

lemma sextet_values:
  "b64val (sextet n v) = drop_bit n v AND 0x3F"
  "safe_to_b64 (b64_to_safe (sextet n v)) = sextet n v"
proof -
  let ?m = "unat (drop_bit n v AND 0x3F)"
  have "?m \<le> unat (0x3F :: 32 word)"
    by (metis word_and_le1 word_le_nat_alt)
  then have "?m \<in> set [0..<64]" by simp
  then have "b64val (b64_table ! ?m) = of_nat ?m"
    "safe_to_b64 (b64_to_safe (b64_table ! ?m)) = b64_table ! ?m"
    using all_sextets unfolding list_all_iff by blast+
  then show "b64val (sextet n v) = drop_bit n v AND 0x3F"
    "safe_to_b64 (b64_to_safe (sextet n v)) = sextet n v"
    by (simp_all add: sextet_def)
qed

lemma word32_positions: "n < 32 \<Longrightarrow> n \<in> {0, 1, 2, 3, 4, 5, 6, 7, 8, 9, 10, 11, 12, 13, 14, 15, 16,
  17, 18, 19, 20, 21, 22, 23, 24, 25, 26, 27, 28, 29, 30, 31 :: nat}"
  unfolding insert_iff empty_iff by presburger

lemma octet_high: "8 \<le> n \<Longrightarrow> \<not> bit (a :: octet) n"
  by (auto dest: bit_imp_le_length)

text \<open>Bits of a group of three octets.\<close>

lemma group_bits:
  fixes a b c :: octet
  defines "v \<equiv> push_bit 16 (ucast a) OR push_bit 8 (ucast b) OR push_bit 0 (ucast c) :: 32 word"
  shows "push_bit 18 (drop_bit 18 v AND 0x3F) OR push_bit 12 (drop_bit 12 v AND 0x3F)
      OR push_bit 6 (drop_bit 6 v AND 0x3F) OR push_bit 0 (drop_bit 0 v AND 0x3F) = v"
    and "v AND push_bit 30 1 = 0" "v AND push_bit 24 1 = 0"
    and "ucast (drop_bit 16 v) = a" "ucast (drop_bit 8 v AND 0xFF) = b" "ucast (drop_bit 0 v AND 0xFF) = c"
proof -
  show "push_bit 18 (drop_bit 18 v AND 0x3F) OR push_bit 12 (drop_bit 12 v AND 0x3F)
      OR push_bit 6 (drop_bit 6 v AND 0x3F) OR push_bit 0 (drop_bit 0 v AND 0x3F) = v"
    unfolding v_def
    by (rule bit_word_eqI, simp, drule word32_positions, elim insertE emptyE; simp add: bit_simps octet_high)
  show "v AND push_bit 30 1 = 0" "v AND push_bit 24 1 = 0"
    unfolding v_def
    by (rule bit_word_eqI, simp, drule word32_positions, elim insertE emptyE; simp add: bit_simps octet_high)+
  show "ucast (drop_bit 16 v) = a" "ucast (drop_bit 8 v AND 0xFF) = b" "ucast (drop_bit 0 v AND 0xFF) = c"
    unfolding v_def
    by (rule octet_eqI, drule octet_positions, elim insertE emptyE; simp add: bit_simps octet_high)+
qed

lemma pad_bits:
  fixes a b :: octet
  defines "v \<equiv> push_bit 16 (ucast a) OR push_bit 8 (ucast b) :: 32 word"
    and "w \<equiv> push_bit 16 (ucast a) :: 32 word"
  shows "push_bit 18 (drop_bit 18 v AND 0x3F) OR push_bit 12 (drop_bit 12 v AND 0x3F)
      OR push_bit 6 (drop_bit 6 v AND 0x3F) OR push_bit 0 (push_bit 24 1) = v OR push_bit 24 1"
    and "push_bit 18 (drop_bit 18 w AND 0x3F) OR push_bit 12 (drop_bit 12 w AND 0x3F)
      OR push_bit 6 (push_bit 24 1) OR push_bit 0 (push_bit 24 1) = w OR push_bit 30 1 OR push_bit 24 1"
    and "(v OR push_bit 24 1) AND push_bit 30 1 = 0"
    and "ucast (drop_bit 16 (v OR push_bit 24 1)) = a"
    and "ucast (drop_bit 8 (v OR push_bit 24 1) AND 0xFF) = b"
    and "ucast (drop_bit 16 (w OR push_bit 30 1 OR push_bit 24 1)) = a"
  unfolding v_def w_def
  by ((rule bit_word_eqI, simp, drule word32_positions, elim insertE emptyE; simp add: bit_simps octet_high)+)[3]
    ((rule octet_eqI, drule octet_positions, elim insertE emptyE; simp add: bit_simps octet_high)+)

lemma pad_flags:
  "(v OR push_bit 24 1) AND push_bit 24 1 \<noteq> (0 :: 32 word)"
  "(w OR push_bit 30 1 OR push_bit 24 1) AND push_bit 30 1 \<noteq> (0 :: 32 word)"
  "(w OR push_bit 30 1 OR push_bit 24 1) AND push_bit 24 1 \<noteq> (0 :: 32 word)"
proof -
  have "bit ((v OR push_bit 24 1) AND push_bit 24 1) 24"
    "bit ((w OR push_bit 30 1 OR push_bit 24 1) AND push_bit 30 1) 30"
    "bit ((w OR push_bit 30 1 OR push_bit 24 1) AND push_bit 24 1) 24"
    by (simp_all add: bit_simps)
  then show "(v OR push_bit 24 1) AND push_bit 24 1 \<noteq> (0 :: 32 word)"
    "(w OR push_bit 30 1 OR push_bit 24 1) AND push_bit 30 1 \<noteq> (0 :: 32 word)"
    "(w OR push_bit 30 1 OR push_bit 24 1) AND push_bit 24 1 \<noteq> (0 :: 32 word)"
    by (metis bit_0_eq bot_apply bot_bool_def)+
qed

lemma b64val_pad: "b64val 61 = push_bit 24 1"
  by (simp add: b64val_def)

lemma group_chars_pads:
  "group_chars v 0 = [sextet 18 v, sextet 12 v, sextet 6 v, sextet 0 v]"
  "group_chars v 1 = [sextet 18 v, sextet 12 v, sextet 6 v, 61]"
  "group_chars v 2 = [sextet 18 v, sextet 12 v, 61, 61]"
  by (simp_all add: group_chars_def)

lemma ungroup_chars:
  "b64_ungroup (group_chars (push_bit 16 (ucast a) OR push_bit 8 (ucast b) OR push_bit 0 (ucast c)) 0 @ rest)
     = a # b # c # b64_ungroup rest"
  "b64_ungroup (group_chars (push_bit 16 (ucast a) OR push_bit 8 (ucast b)) 1) = [a, b]"
  "b64_ungroup (group_chars (push_bit 16 (ucast a)) 2) = [a]"
  by (simp_all only: group_chars_pads append_Cons append_Nil b64_ungroup.simps Let_def sextet_values(1)
      b64val_pad group_bits pad_bits pad_flags if_True if_False simp_thms)

lemma b64_round_trip: "b64_ungroup (b64_groups bs) = bs"
  by (induction bs rule: b64_groups.induct)
    (simp_all only: b64_groups.simps b64_ungroup.simps ungroup_chars)

lemma length_b64_groups: "length (b64_groups bs) = 4 * ((length bs + 2) div 3)"
  by (induction bs rule: b64_groups.induct) (simp_all add: group_chars_def, presburger)

lemma safe_groups: "map safe_to_b64 (map b64_to_safe (b64_groups bs)) = b64_groups bs"
proof (induction bs rule: b64_groups.induct)
  case 1
  show ?case by simp
next
  case (4 a b c rest)
  then show ?case
    by (simp only: b64_groups.simps group_chars_pads map_append list.map sextet_values(2))
qed (simp_all only: b64_groups.simps group_chars_pads list.map sextet_values(2),
     simp_all add: b64_to_safe_def safe_to_b64_def)

text \<open>C34: With room for the text, the encoder for addresses succeeds, decoding its text with room for
  the bytes gives back the input, and the text has no character that an address reserves. The
  terminating zero is written behind the room the encoder was promised when the room is the
  length of the text.\<close>
theorem urlsafe_round_trip:
  assumes "4 * ((length bs + 2) div 3) \<le> room" "3 * ((length bs + 2) div 3) \<le> room'"
  shows "\<exists>t. urlsafe_b64_encode True bs room = Inr (t @ [0]) \<and> urlsafe_b64_decode True t room' = Inr bs \<and>
    43 \<notin> set t \<and> 47 \<notin> set t \<and>
    (room = 4 * ((length bs + 2) div 3) \<longrightarrow> room < length (t @ [0]))"
proof (intro exI conjI)
  let ?t = "map b64_to_safe (b64_groups bs)"
  show "urlsafe_b64_encode True bs room = Inr (?t @ [0])"
    using assms(1) by (simp add: urlsafe_b64_encode_def b64_encode_def)
  show "urlsafe_b64_decode True ?t room' = Inr bs"
    using assms(2)
    by (simp only: urlsafe_b64_decode_def safe_groups b64_decode_def b64_round_trip length_b64_groups) simp
  show "43 \<notin> set ?t" "47 \<notin> set ?t"
    by (auto simp: b64_to_safe_def)
  show "room = 4 * ((length bs + 2) div 3) \<longrightarrow> room < length (?t @ [0])"
    by (simp add: length_b64_groups)
qed

lemma urlsafe_round_trip_witness:
  "\<exists>t. urlsafe_b64_encode True [255, 239, 1, 7] 8 = Inr (t @ [0]) \<and>
     urlsafe_b64_decode True t 6 = Inr [255, 239, 1, 7] \<and> 8 < length (t @ [0])"
  using urlsafe_round_trip [of "[255, 239, 1, 7]" 8 6] by auto

end
