(* ===== verification/Crc32Props.thy ===== *)
theory Crc32Props
  imports Crc32
begin

text \<open>
  The checksum by table is the division by the polynomial, and it finds every change of one
  byte. Both rest on two facts about the step of one bit: it is linear, and it can be undone.
\<close>

section \<open>One bit is linear and injective\<close>

lemma word32_high: "32 \<le> n \<Longrightarrow> \<not> bit (x :: 32 word) n"
  by (auto dest: bit_imp_le_length)

lemma xor_cancel:
  "x XOR a = y XOR a \<Longrightarrow> x = (y :: 32 word)" "a XOR x = a XOR y \<Longrightarrow> x = (y :: 32 word)"
  by (metis xor.assoc xor_self_eq xor.right_neutral) (metis xor.assoc xor_self_eq xor.left_neutral)

lemma crc_bit_xor: "crc_bit (x XOR y) = crc_bit x XOR crc_bit y"
  by (rule bit_word_eqI) (auto simp: crc_bit_def bit_simps)

lemma crc_funpow_xor: "(crc_bit ^^ n) (x XOR y) = (crc_bit ^^ n) x XOR (crc_bit ^^ n) y"
  by (induction n) (simp_all add: crc_bit_xor)

lemma crc_funpow_shift:
  "(\<And>i. i < n \<Longrightarrow> \<not> bit x i) \<Longrightarrow> (crc_bit ^^ n) x = drop_bit n x"
proof (induction n)
  case (Suc n)
  then have "(crc_bit ^^ Suc n) x = crc_bit (drop_bit n x)" by simp
  also have "\<dots> = drop_bit 1 (drop_bit n x)"
    using Suc.prems [of n] by (simp add: crc_bit_def bit_drop_bit_eq)
  finally show ?case by simp
qed simp

lemma crc_bits_split: "crc_bits x = crc_bits (take_bit 8 x) XOR drop_bit 8 x"
proof -
  let ?high = "push_bit 8 (drop_bit 8 x)"
  have "x = take_bit 8 x XOR ?high"
    by (rule bit_word_eqI) (auto simp: bit_simps)
  then have "crc_bits x = crc_bits (take_bit 8 x) XOR crc_bits ?high"
    unfolding crc_bits_def by (metis crc_funpow_xor)
  moreover have "crc_bits ?high = drop_bit 8 ?high"
    unfolding crc_bits_def by (rule crc_funpow_shift) (simp add: bit_simps)
  moreover have "drop_bit 8 ?high = drop_bit 8 x"
    by (rule bit_word_eqI) (auto simp: bit_simps dest: bit_imp_le_length)
  ultimately show ?thesis by simp
qed

lemma crc_bit_inj: "crc_bit x = crc_bit y \<Longrightarrow> x = y"
proof -
  assume eq: "crc_bit x = crc_bit y"
  have top: "bit (crc_bit z) 31 \<longleftrightarrow> bit z 0" for z
    by (simp add: crc_bit_def bit_simps crc_poly_def word32_high)
  then have low: "bit x 0 \<longleftrightarrow> bit y 0" using eq by metis
  then have "drop_bit 1 x = drop_bit 1 y"
    using eq by (auto simp: crc_bit_def dest: xor_cancel split: if_splits)
  then have high: "bit x (Suc n) \<longleftrightarrow> bit y (Suc n)" for n
    by (metis bit_drop_bit_eq comp_apply plus_1_eq_Suc)
  show "x = y"
  proof (rule bit_word_eqI)
    show "bit x n \<longleftrightarrow> bit y n" if "n < LENGTH(32)" for n
      using low high by (cases n) simp_all
  qed
qed

lemma crc_bits_inj: "crc_bits x = crc_bits y \<Longrightarrow> x = y"
proof -
  have "(crc_bit ^^ n) x = (crc_bit ^^ n) y \<Longrightarrow> x = y" for n
    by (induction n) (auto dest: crc_bit_inj)
  then show "crc_bits x = crc_bits y \<Longrightarrow> x = y" by (simp add: crc_bits_def)
qed

section \<open>The table\<close>

lemma crc32_step_bits: "crc32_step p x = crc_bits (x XOR ucast p)"
proof -
  let ?y = "x XOR ucast p"
  have low: "(x XOR scast p) AND 0xFF = take_bit 8 ?y"
  proof -
    have "(0xFF :: 32 word) = mask 8" by (simp add: mask_eq_exp_minus_1)
    then have "(x XOR scast p) AND 0xFF = take_bit 8 (x XOR scast p)"
      by (simp only: take_bit_eq_mask)
    also have "\<dots> = take_bit 8 ?y"
      by (rule bit_word_eqI) (auto simp: bit_simps)
    finally show ?thesis .
  qed
  have "unat (take_bit 8 ?y) = take_bit 8 (unat ?y)"
    by (rule unsigned_take_bit_eq)
  then have "unat (take_bit 8 ?y) < 256"
    using take_bit_nat_less_exp [of 8 "unat ?y"] by simp
  then have "crc32_tab ! unat (take_bit 8 ?y) = crc_bits (take_bit 8 ?y)"
    by (simp add: table_eq)
  moreover have "drop_bit 8 ?y = drop_bit 8 x"
    by (rule bit_word_eqI) (auto simp: bit_simps dest: bit_imp_le_length)
  ultimately show ?thesis
    using crc_bits_split [of ?y] by (simp add: crc32_step_def low)
qed

text \<open>C21: The checksum computed with the table of 256 words is, for every input, the one of the
  polynomial \<open>0xEDB88320\<close> computed bit by bit.\<close>
theorem crc32_sum_reference: "crc32_sum bs = crc_reference bs"
proof -
  have "crc32_step = (\<lambda>b x. crc_bits (x XOR ucast b))"
    by (simp add: fun_eq_iff crc32_step_bits)
  then show ?thesis
    by (simp add: crc32_sum_def crc32_stream_def crc32_init_def crc32_stream_finish_def crc_reference_def)
qed

section \<open>Checked blocks\<close>

lemma step_inj: "crc32_step p x = crc32_step p y \<Longrightarrow> x = y"
proof -
  assume "crc32_step p x = crc32_step p y"
  then have "x XOR ucast p = y XOR ucast p"
    unfolding crc32_step_bits by (rule crc_bits_inj)
  then show "x = y" by (rule xor_cancel)
qed

lemma step_byte_inj: "crc32_step p x = crc32_step q x \<Longrightarrow> p = q"
proof -
  assume "crc32_step p x = crc32_step q x"
  then have "x XOR ucast p = x XOR ucast q"
    unfolding crc32_step_bits by (rule crc_bits_inj)
  then have eq: "(ucast p :: 32 word) = ucast q" by (rule xor_cancel)
  show "p = q"
  proof (rule octet_eqI)
    fix n :: nat assume n: "n < 8"
    have "bit (ucast p :: 32 word) n \<longleftrightarrow> bit (ucast q :: 32 word) n" by (simp only: eq)
    then show "bit p n \<longleftrightarrow> bit q n" using n by (simp add: bit_simps)
  qed
qed

lemma stream_inj: "crc32_stream x bs = crc32_stream y bs \<Longrightarrow> x = y"
  by (induction bs arbitrary: x y) (auto simp: crc32_stream_def dest: step_inj)

text \<open>C33: A block that \<^verbatim>\<open>crc32_md\<close> has signed is accepted, and the block with any one byte changed is
  rejected, unless its checksum happens to be 0, with which every block is accepted.\<close>
theorem crc32_finds_changed_byte:
  assumes "buf b = xs @ p # ys" "p \<noteq> q"
  shows "crc32_md_verify (crc32_md b) = 0 \<and>
    crc32_md_verify ((crc32_md b)\<lparr>buf := xs @ q # ys\<rparr>) = (if crc (crc32_md b) = 0 then 0 else - 1)"
proof -
  let ?sum = "\<lambda>r. crc32_stream crc32_init (xs @ r # ys)"
  have "?sum p \<noteq> ?sum q"
  proof
    assume "?sum p = ?sum q"
    then have "crc32_stream (crc32_step p (crc32_stream crc32_init xs)) ys =
        crc32_stream (crc32_step q (crc32_stream crc32_init xs)) ys"
      by (simp add: crc32_stream_def)
    then have "p = q" using stream_inj step_byte_inj by blast
    then show False using assms(2) by simp
  qed
  then show ?thesis
    using assms(1) by (simp_all add: crc32_md_verify_def crc32_md_def)
qed

lemma crc32_finds_changed_byte_witness:
  "crc32_md_verify ((crc32_md \<lparr>crc = 0, version = 1, buf = [1, 2, 3]\<rparr>)\<lparr>buf := [1, 7, 3]\<rparr>) = - 1"
proof -
  let ?b = "\<lparr>crc = 0, version = 1, buf = [1, 2, 3]\<rparr>"
  have "crc (crc32_md ?b) \<noteq> 0"
    by (simp add: crc32_md_def crc32_stream_def crc32_step_bits crc32_init_def crc_bits_unfold)
      (simp add: crc_bit_def crc_poly_def)
  then show ?thesis
    using crc32_finds_changed_byte [of ?b "[1]" 2 "[3]" 7] by simp
qed

text \<open>The final complement is lost: a signed block does not carry the checksum of its bytes.\<close>

lemma md_is_not_the_sum: "crc (crc32_md b) = NOT (crc32_sum (buf b))"
  by (simp add: crc32_md_def crc32_sum_def crc32_stream_finish_def)

end
