(* ===== verification/Hugepage.thy ===== *)
theory Hugepage
  imports Ylib "HOL-Library.Monad_Syntax"
begin

text \<open>
  The memory the buffers of the file system live in: blocks of bytes from the system, and the pool
  of large pages of \<^verbatim>\<open>src/sdfs/ylib/lib/mem_hugepage.c\<close>, which hands out parts of its blocks and
  counts the references to each.

  A block is named by the number of the request that made it, and a pointer is a block with an
  offset. The system's answers are part of the state: \<open>grants k\<close> says whether request \<open>k\<close> for a
  block is granted, \<open>small_grants k\<close> whether a request for a structure is, and \<open>garbage\<close> is what a
  new block holds. A failed assertion, an access outside a block and the use of a null pointer
  give \<open>None\<close>.
  There is one pool, and one thread uses it: the spin lock is left out, and so are the pools that
  a thread may have of its own, which have the same operations. Sizes are below \<open>2 ^ 31\<close>.
\<close>

section \<open>Memory\<close>

type_synonym block = nat

type_synonym pointer = "block \<times> nat"

text \<open>The index of an entry (\<^verbatim>\<open>idx\<close>) is its position in the array.\<close>

record entry =
  ref :: int
  addr :: "block option"
  esize :: nat
  eoffset :: nat

record mem_hugepage =
  cur_entry :: nat
  array :: "entry list"

record mem =
  blocks :: "block \<rightharpoonup> octet list"
  asked :: nat
  grants :: "nat \<Rightarrow> bool"
  small_grants :: "nat \<Rightarrow> bool"
  garbage :: "block \<Rightarrow> nat \<Rightarrow> octet"
  use_memcache :: bool
  memcache_count :: nat
  memcache_seg :: nat
  pool :: "mem_hugepage option"

text \<open>\<^verbatim>\<open>posix_memalign\<close>\<close>

definition memalign :: "nat \<Rightarrow> mem \<Rightarrow> block option \<times> mem" where
  "memalign sz m =
     (if grants m (asked m) then
        (Some (asked m),
         m\<lparr>blocks := (blocks m)(asked m \<mapsto> List.map (garbage m (asked m)) [0..<sz]),
           asked := Suc (asked m)\<rparr>)
      else (None, m\<lparr>asked := Suc (asked m)\<rparr>))"

text \<open>A request for a structure, whose memory is not one of the blocks.\<close>

definition small_alloc :: "mem \<Rightarrow> bool \<times> mem" where
  "small_alloc m = (small_grants m (asked m), m\<lparr>asked := Suc (asked m)\<rparr>)"

text \<open>\<^verbatim>\<open>yfree\<close>: the pointer must be one that was given out.\<close>

definition yfree :: "pointer option \<Rightarrow> mem \<Rightarrow> mem option" where
  "yfree p m =
     (case p of
        Some (b, 0) \<Rightarrow> (if b \<in> dom (blocks m) then Some (m\<lparr>blocks := (blocks m)(b := None)\<rparr>) else None)
      | _ \<Rightarrow> None)"

text \<open>What \<^verbatim>\<open>memcpy\<close> reads and writes.\<close>

definition peek :: "pointer option \<Rightarrow> nat \<Rightarrow> mem \<Rightarrow> octet list option" where
  "peek p n m =
     (if n = 0 then Some []
      else case p of
             None \<Rightarrow> None
           | Some (b, off) \<Rightarrow>
               (case blocks m b of
                  None \<Rightarrow> None
                | Some bs \<Rightarrow> if off + n \<le> length bs then Some (take n (drop off bs)) else None))"

definition overwrite :: "nat \<Rightarrow> octet list \<Rightarrow> octet list \<Rightarrow> octet list" where
  "overwrite off ds bs = take off bs @ ds @ drop (off + length ds) bs"

definition poke :: "pointer option \<Rightarrow> octet list \<Rightarrow> mem \<Rightarrow> mem option" where
  "poke p ds m =
     (if ds = [] then Some m
      else case p of
             None \<Rightarrow> None
           | Some (b, off) \<Rightarrow>
               (case blocks m b of
                  None \<Rightarrow> None
                | Some bs \<Rightarrow>
                    if off + length ds \<le> length bs
                    then Some (m\<lparr>blocks := (blocks m)(b \<mapsto> overwrite off ds bs)\<rparr>) else None))"

section \<open>The pool of large pages\<close>

definition PAGE_SIZE :: nat where "PAGE_SIZE = 4096"

text \<open>
  The entries made by \<^verbatim>\<open>__mem_hugepage_init\<close>. Its variable \<^verbatim>\<open>ptr\<close> outlives the round of the loop, and
  \<^verbatim>\<open>posix_memalign\<close> leaves it as it is when it fails, with a positive error number.
\<close>

fun init_entries :: "nat \<Rightarrow> block option \<Rightarrow> mem \<Rightarrow> entry list \<times> mem" where
  "init_entries 0 ptr m = ([], m)"
| "init_entries (Suc n) ptr m =
     (let (answer, m) = memalign (memcache_seg m) m;
          ptr = (case answer of None \<Rightarrow> ptr | Some b \<Rightarrow> Some b);
          (es, m') = init_entries n ptr m
      in (\<lparr>ref = 0, addr = ptr, esize = memcache_seg m, eoffset = 0\<rparr> # es, m'))"

definition mem_hugepage_init :: "mem \<Rightarrow> (errno option \<times> mem) option" where
  "mem_hugepage_init m =
     (if \<not> use_memcache m then Some (None, m)
      else if pool m \<noteq> None \<or> \<not> memcache_count m < 2 ^ 15 - 1 then None
      else
        let (granted, m) = small_alloc m in
        if \<not> granted then Some (Some ENOMEM, m)
        else
          let (es, m) = init_entries (memcache_count m) None m
          in Some (None, m\<lparr>pool := Some \<lparr>cur_entry = 0, array = es\<rparr>\<rparr>))"

definition with_entry :: "nat \<Rightarrow> (entry \<Rightarrow> entry) \<Rightarrow> mem_hugepage \<Rightarrow> mem_hugepage" where
  "with_entry i f p = p\<lparr>array := (array p)[i := f (array p ! i)]\<rparr>"

text \<open>\<^verbatim>\<open>__mem_hugepage_ref\<close> and \<^verbatim>\<open>__mem_hugepage_deref\<close> of the index \<open>idx\<close>\<close>

definition mem_hugepage_ref :: "int \<Rightarrow> mem \<Rightarrow> mem option" where
  "mem_hugepage_ref idx m =
     (case pool m of
        None \<Rightarrow> None
      | Some p \<Rightarrow>
          if 0 \<le> idx \<and> nat idx < length (array p) \<and> ref (array p ! nat idx) > 0
          then Some (m\<lparr>pool := Some (with_entry (nat idx) (\<lambda>e. e\<lparr>ref := ref e + 1\<rparr>) p)\<rparr>)
          else None)"

definition drop_ref :: "entry \<Rightarrow> entry" where
  "drop_ref e =
     (let e = e\<lparr>ref := ref e - 1\<rparr> in if ref e = 0 then e\<lparr>eoffset := 0\<rparr> else e)"

definition mem_hugepage_deref :: "int \<Rightarrow> mem \<Rightarrow> mem option" where
  "mem_hugepage_deref idx m =
     (case pool m of
        None \<Rightarrow> None
      | Some p \<Rightarrow>
          if 0 \<le> idx \<and> nat idx < length (array p) \<and> ref (array p ! nat idx) > 0
          then Some (m\<lparr>pool := Some (with_entry (nat idx) drop_ref p)\<rparr>)
          else None)"

definition page_round :: "nat \<Rightarrow> nat" where
  "page_round sz =
     (if sz mod PAGE_SIZE \<noteq> 0 then (sz div PAGE_SIZE + 1) * PAGE_SIZE else sz)"

text \<open>\<^verbatim>\<open>__mem_hugepage_new__\<close>: the offset of the new part, when there is room for it.\<close>

definition take_part :: "nat \<Rightarrow> entry \<Rightarrow> nat option \<times> entry" where
  "take_part sz ent =
     (let sz = page_round sz in
      if esize ent = eoffset ent then (None, ent)
      else if eoffset ent + sz > esize ent then (None, ent\<lparr>eoffset := esize ent\<rparr>)
      else (Some (eoffset ent), ent\<lparr>eoffset := eoffset ent + sz, ref := ref ent + 1\<rparr>))"

definition mem_hugepage_next :: "mem_hugepage \<Rightarrow> mem_hugepage option" where
  "mem_hugepage_next p =
     (let count = length (array p) in
      case List.find (\<lambda>i. ref (array p ! ((cur_entry p + i) mod count)) = 0) [0..<count] of
        Some i \<Rightarrow> Some (p\<lparr>cur_entry := (cur_entry p + i) mod count\<rparr>)
      | None \<Rightarrow> None)"

text \<open>
  The loop of \<^verbatim>\<open>__mem_hugepage_new\<close>, \<open>None\<close> where it does not end. The result is the index and the
  pointer of the handler, or the error \<^verbatim>\<open>EBUSY\<close>.
\<close>

partial_function (option) new_part ::
    "mem_hugepage \<Rightarrow> nat \<Rightarrow> ((errno + int \<times> pointer option) \<times> mem_hugepage) option" where
  "new_part p sz =
     (let (part, ent) = take_part sz (array p ! cur_entry p);
          p = with_entry (cur_entry p) (\<lambda>e. ent) p
      in case part of
           Some off \<Rightarrow> Some (Inr (int (cur_entry p), map_option (\<lambda>b. (b, off)) (addr ent)), p)
         | None \<Rightarrow>
             (case mem_hugepage_next p of
                None \<Rightarrow> Some (Inl EBUSY, p)
              | Some p \<Rightarrow> new_part p sz))"

definition mem_hugepage_new ::
    "nat \<Rightarrow> mem \<Rightarrow> ((errno + int \<times> pointer option) \<times> mem) option" where
  "mem_hugepage_new sz m =
     (case pool m of
        None \<Rightarrow> None
      | Some p \<Rightarrow>
          do {
            (answer, p) \<leftarrow> new_part p sz;
            case answer of
              Inr (idx, None) \<Rightarrow> None
            | _ \<Rightarrow> Some (answer, m\<lparr>pool := Some p\<rparr>)
          })"

text \<open>\<^verbatim>\<open>__mem_hugepage_destroy\<close>: a block in use ends the program.\<close>

fun destroy_entries :: "entry list \<Rightarrow> mem \<Rightarrow> mem option" where
  "destroy_entries [] m = Some m"
| "destroy_entries (e # es) m =
     (if ref e = 0 then yfree (map_option (\<lambda>b. (b, 0)) (addr e)) m \<bind> destroy_entries es
      else None)"

definition mem_hugepage_destroy :: "mem \<Rightarrow> mem option" where
  "mem_hugepage_destroy m =
     (if \<not> use_memcache m then Some m
      else case pool m of
             None \<Rightarrow> None
           | Some p \<Rightarrow> map_option (\<lambda>m. m\<lparr>pool := None\<rparr>) (destroy_entries (array p) m))"

end
