(* ===== verification/Buffer.thy ===== *)
theory Buffer
  imports Hugepage Crc32
begin

text \<open>
  The buffers of the file system, \<^verbatim>\<open>src/sdfs/ylib/lib/buffer.c\<close>: a buffer is a list of segments, and
  a segment points at a part of a block of memory, of a page of the pool, or at memory that the
  caller attached.

  The memory a caller passes is given by its bytes: what a function copies out is part of its
  result. A failed assertion and an access outside the memory give \<open>None\<close>. The
  lengths are natural numbers; the C code adds them in 32 bits, which \<open>sum32\<close> writes
  out where the sum of an offset and a length is asserted to be in the buffer.
\<close>

section \<open>Segments\<close>

datatype buffer_type = BUFFER_NONE | BUFFER_RW

record seg =
  seg_type :: buffer_type
  seg_len :: nat
  seg_idx :: int               \<comment> \<open>\<^verbatim>\<open>handler.idx\<close>\<close>
  seg_ptr :: "pointer option"  \<comment> \<open>\<^verbatim>\<open>handler.ptr\<close>\<close>
  is_attach :: bool
  seg_memcache :: bool
  base_ptr :: "pointer option"

record buffer =
  blen :: nat
  segs :: "seg list"

definition BUFFER_SEG_SIZE :: nat where "BUFFER_SEG_SIZE = 1024 * 1024"

definition buffer_check :: "buffer \<Rightarrow> unit option" where
  "buffer_check buff =
     (if (\<forall>s \<in> set (segs buff). seg_type s = BUFFER_RW) \<and>
         (\<Sum>s\<leftarrow>segs buff. seg_len s) mod 2 ^ 32 = blen buff
      then Some () else None)"

definition asserts :: "bool \<Rightarrow> unit option" where
  "asserts b = (if b then Some () else None)"

definition seg_free :: "seg \<Rightarrow> mem \<Rightarrow> mem option" where
  "seg_free seg m =
     (if is_attach seg then (if base_ptr seg \<noteq> None then yfree (base_ptr seg) m else Some m)
      else if seg_memcache seg then mem_hugepage_deref (seg_idx seg) m
      else if seg_idx seg = - 1 then yfree (base_ptr seg) m
      else None)"

text \<open>\<^verbatim>\<open>__seg_alloc__\<close>\<close>

definition seg_alloc0 :: "nat \<Rightarrow> bool \<Rightarrow> mem \<Rightarrow> (seg option \<times> mem) option" where
  "seg_alloc0 sz attach m =
     (if \<not> attach \<and> \<not> sz \<le> BUFFER_SEG_SIZE then None
      else
        let (granted, m) = small_alloc m in
        Some (if granted
              then Some \<lparr>seg_type = BUFFER_RW, seg_len = sz, seg_idx = - 1, seg_ptr = None,
                         is_attach = attach, seg_memcache = False, base_ptr = None\<rparr>
              else None, m))"

definition seg_add_tail :: "buffer \<Rightarrow> seg \<Rightarrow> buffer option" where
  "seg_add_tail buff seg =
     (if seg_len seg \<noteq> 0 then Some \<lparr>blen = blen buff + seg_len seg, segs = segs buff @ [seg]\<rparr> else None)"

definition seg_add :: "buffer \<Rightarrow> seg \<Rightarrow> buffer option" where
  "seg_add buff seg =
     (if seg_len seg \<noteq> 0 then Some \<lparr>blen = blen buff + seg_len seg, segs = seg # segs buff\<rparr> else None)"

text \<open>\<^verbatim>\<open>posix_memalign\<close> gives a positive error number, so the test of the result is never true: the
  segment is left with a null pointer, and there is no error.\<close>

definition seg_alloc_normal :: "seg \<Rightarrow> nat \<Rightarrow> mem \<Rightarrow> seg \<times> mem" where
  "seg_alloc_normal seg sz m =
     (let (b, m) = memalign sz m;
          p = map_option (\<lambda>b. (b, 0)) b
      in (seg\<lparr>base_ptr := p, seg_memcache := False, seg_idx := - 1, seg_ptr := p\<rparr>, m))"

definition seg_alloc1 :: "seg \<Rightarrow> nat \<Rightarrow> mem \<Rightarrow> ((errno + seg) \<times> mem) option" where
  "seg_alloc1 seg sz m =
     do {
       (answer, m) \<leftarrow> mem_hugepage_new sz m;
       case answer of
         Inl e \<Rightarrow> Some (Inl e, m)
       | Inr (idx, p) \<Rightarrow>
           if p \<noteq> None \<and> idx \<noteq> - 1 \<and> seg_len seg = sz
           then Some (Inr (seg\<lparr>seg_idx := idx, seg_ptr := p, seg_memcache := True\<rparr>), m)
           else None
     }"

definition seg_alloc :: "nat \<Rightarrow> mem \<Rightarrow> (seg option \<times> mem) option" where
  "seg_alloc sz m =
     do {
       (answer, m) \<leftarrow> seg_alloc0 sz False m;
       case answer of
         None \<Rightarrow> Some (None, m)
       | Some seg \<Rightarrow>
           if use_memcache m then
             do {
               (answer, m) \<leftarrow> seg_alloc1 seg sz m;
               case answer of
                 Inr seg \<Rightarrow> Some (Some seg, m)
               | Inl e \<Rightarrow> (let (seg, m) = seg_alloc_normal seg sz m in Some (Some seg, m))
             }
           else (let (seg, m) = seg_alloc_normal seg sz m in Some (Some seg, m))
     }"

definition seg_share :: "seg \<Rightarrow> mem \<Rightarrow> (seg option \<times> mem) option" where
  "seg_share src m =
     (if \<not> use_memcache m then None
      else do {
        (answer, m) \<leftarrow> seg_alloc0 (seg_len src) (is_attach src) m;
        case answer of
          None \<Rightarrow> Some (None, m)
        | Some seg \<Rightarrow>
            (let seg = seg\<lparr>seg_memcache := True, seg_idx := seg_idx src, seg_ptr := seg_ptr src\<rparr> in
             if \<not> is_attach src then
               map_option (\<lambda>m. (Some seg, m)) (mem_hugepage_ref (seg_idx seg) m)
             else Some (Some seg, m))
      })"

section \<open>Copying out and in\<close>

text \<open>The loops give what was copied, and \<^verbatim>\<open>left\<close>.\<close>

fun get_loop :: "seg list \<Rightarrow> nat \<Rightarrow> mem \<Rightarrow> (octet list \<times> nat) option" where
  "get_loop [] left m = Some ([], left)"
| "get_loop (seg # ss) left m =
     (let cp = (if left < seg_len seg then left else seg_len seg) in
      do {
        d \<leftarrow> peek (seg_ptr seg) cp m;
        if left - cp = 0 then Some (d, 0)
        else do {
          (ds, left) \<leftarrow> get_loop ss (left - cp) m;
          Some (d @ ds, left)
        }
      })"

definition mbuffer_get :: "buffer \<Rightarrow> nat \<Rightarrow> mem \<Rightarrow> octet list option" where
  "mbuffer_get buff len m =
     do {
       asserts (blen buff \<ge> len);
       buffer_check buff;
       (d, left) \<leftarrow> get_loop (segs buff) len m;
       buffer_check buff;
       asserts (left = 0);
       Some d
     }"

text \<open>
  The part of a segment of length \<open>l\<close> at \<^verbatim>\<open>buf_off\<close> that the request asks for, as its offset and its
  length: the chain of conditions that two functions share. \<open>fin\<close> is \<^verbatim>\<open>offset + len\<close>.
\<close>

definition sum32 :: "nat \<Rightarrow> nat \<Rightarrow> nat" where
  "sum32 a b = (a + b) mod 2 ^ 32"

definition seg_span :: "nat \<Rightarrow> nat \<Rightarrow> nat \<Rightarrow> nat \<Rightarrow> nat \<Rightarrow> (nat \<times> nat) option" where
  "seg_span l buf_off offset fin len =
     (if buf_off + l \<le> offset then Some (0, 0)
      else if buf_off < offset \<and> buf_off + l \<le> fin then Some (offset - buf_off, l - (offset - buf_off))
      else if buf_off < offset \<and> buf_off + l > fin then Some (offset - buf_off, len)
      else if buf_off \<ge> offset \<and> buf_off + l \<le> fin then Some (0, l)
      else if buf_off \<ge> offset \<and> buf_off + l > fin then
        (if buf_off \<le> fin then Some (0, fin - buf_off) else None)
      else None)"

text \<open>\<^verbatim>\<open>left -= cp\<close> is done in 32 bits; \<open>None\<close> where it wraps around.\<close>

fun get1_loop :: "seg list \<Rightarrow> nat \<Rightarrow> nat \<Rightarrow> nat \<Rightarrow> nat \<Rightarrow> nat \<Rightarrow> mem \<Rightarrow> (octet list \<times> nat) option" where
  "get1_loop [] buf_off offset fin len left m = Some ([], left)"
| "get1_loop (seg # ss) buf_off offset fin len left m =
     do {
       (seg_off, cp) \<leftarrow> seg_span (seg_len seg) buf_off offset fin len;
       d \<leftarrow> peek (map_option (\<lambda>(b, off). (b, off + seg_off)) (seg_ptr seg)) cp m;
       asserts (cp \<le> left);
       if left - cp = 0 then Some (d, 0)
       else do {
         (ds, left) \<leftarrow> get1_loop ss (buf_off + seg_len seg) offset fin len (left - cp) m;
         Some (d @ ds, left)
       }
     }"

definition mbuffer_get1 :: "buffer \<Rightarrow> nat \<Rightarrow> nat \<Rightarrow> mem \<Rightarrow> octet list option" where
  "mbuffer_get1 buff offset len m =
     do {
       asserts (blen buff \<ge> sum32 offset len);
       buffer_check buff;
       (d, left) \<leftarrow> get1_loop (segs buff) 0 offset (sum32 offset len) len len m;
       buffer_check buff;
       asserts (left = 0);
       Some d
     }"

fun copy1_loop ::
    "seg list \<Rightarrow> octet list \<Rightarrow> nat \<Rightarrow> nat \<Rightarrow> nat \<Rightarrow> nat \<Rightarrow> nat \<Rightarrow> mem \<Rightarrow> (mem \<times> nat) option" where
  "copy1_loop [] src buf_off offset fin len left m = Some (m, left)"
| "copy1_loop (seg # ss) src buf_off offset fin len left m =
     do {
       (seg_off, cp) \<leftarrow> seg_span (seg_len seg) buf_off offset fin len;
       asserts (cp \<le> left);
       m \<leftarrow> poke (map_option (\<lambda>(b, off). (b, off + seg_off)) (seg_ptr seg)) (take cp src) m;
       if left - cp = 0 then Some (m, 0)
       else copy1_loop ss (drop cp src) (buf_off + seg_len seg) offset fin len (left - cp) m
     }"

text \<open>The bytes written are \<open>src\<close>, and \<^verbatim>\<open>len\<close> is their number.\<close>

definition mbuffer_copy1 :: "buffer \<Rightarrow> octet list \<Rightarrow> nat \<Rightarrow> mem \<Rightarrow> mem option" where
  "mbuffer_copy1 buff src offset m =
     (let len = length src in
      do {
        asserts (blen buff \<ge> sum32 offset len);
        buffer_check buff;
        (m, left) \<leftarrow> copy1_loop (segs buff) src 0 offset (sum32 offset len) len len m;
        buffer_check buff;
        asserts (left = 0);
        Some m
      })"

section \<open>Putting bytes in and taking them out\<close>

text \<open>One round of the loop of \<^verbatim>\<open>mbuffer_popmsg\<close>: what is left of the segment.\<close>

definition advance :: "nat \<Rightarrow> seg \<Rightarrow> seg" where
  "advance cp seg =
     seg\<lparr>seg_ptr := map_option (\<lambda>(b, off). (b, off + cp)) (seg_ptr seg), seg_len := seg_len seg - cp\<rparr>"

fun popmsg_loop ::
    "seg list \<Rightarrow> nat \<Rightarrow> mem \<Rightarrow> (octet list \<times> seg list \<times> nat \<times> mem) option" where
  "popmsg_loop [] left m = Some ([], [], left, m)"
| "popmsg_loop (seg # ss) left m =
     (let cp = (if left < seg_len seg then left else seg_len seg) in
      do {
        d \<leftarrow> peek (seg_ptr seg) cp m;
        asserts (seg_type seg = BUFFER_RW);
        (kept, m) \<leftarrow> (if cp < seg_len seg then Some ([advance cp seg], m)
                      else map_option (\<lambda>m. ([], m)) (seg_free seg m));
        if left - cp = 0 then Some (d, kept @ ss, 0, m)
        else do {
          (ds, rest, left, m) \<leftarrow> popmsg_loop ss (left - cp) m;
          Some (d @ ds, kept @ rest, left, m)
        }
      })"

definition mbuffer_popmsg :: "buffer \<Rightarrow> nat \<Rightarrow> mem \<Rightarrow> (octet list \<times> buffer \<times> mem) option" where
  "mbuffer_popmsg buff len m =
     do {
       buffer_check buff;
       asserts (blen buff \<ge> len);
       (d, ss, left, m) \<leftarrow> popmsg_loop (segs buff) len m;
       asserts (left = 0);
       let buff = \<lparr>blen = blen buff - len, segs = ss\<rparr>;
       buffer_check buff;
       Some (d, buff, m)
     }"

definition mbuffer_attach ::
    "buffer \<Rightarrow> pointer option \<Rightarrow> nat \<Rightarrow> pointer option \<Rightarrow> mem \<Rightarrow> (errno option \<times> buffer \<times> mem) option" where
  "mbuffer_attach buff src len base m =
     do {
       (answer, m) \<leftarrow> seg_alloc0 len True m;
       case answer of
         None \<Rightarrow> Some (Some ENOMEM, buff, m)
       | Some seg \<Rightarrow>
           do {
             buff \<leftarrow> seg_add_tail buff (seg\<lparr>seg_memcache := False, seg_ptr := src, base_ptr := base\<rparr>);
             buffer_check buff;
             Some (None, buff, m)
           }
     }"

definition appendmem ::
    "buffer \<Rightarrow> octet list \<Rightarrow> bool \<Rightarrow> mem \<Rightarrow> (errno option \<times> buffer \<times> mem) option" where
  "appendmem buff src tail m =
     do {
       asserts (length src \<le> BUFFER_SEG_SIZE);
       buffer_check buff;
       (answer, m) \<leftarrow> seg_alloc (length src) m;
       case answer of
         None \<Rightarrow> Some (Some ENOMEM, buff, m)
       | Some seg \<Rightarrow>
           do {
             m \<leftarrow> poke (seg_ptr seg) src m;
             buff \<leftarrow> (if tail then seg_add_tail buff seg else seg_add buff seg);
             buffer_check buff;
             Some (None, buff, m)
           }
     }"

definition mbuffer_appendmem ::
    "buffer \<Rightarrow> octet list \<Rightarrow> mem \<Rightarrow> (errno option \<times> buffer \<times> mem) option" where
  "mbuffer_appendmem buff src m = appendmem buff src True m"

definition mbuffer_appendmem_head ::
    "buffer \<Rightarrow> octet list \<Rightarrow> mem \<Rightarrow> (errno option \<times> buffer \<times> mem) option" where
  "mbuffer_appendmem_head buff src m = appendmem buff src False m"

fun free_segs :: "seg list \<Rightarrow> mem \<Rightarrow> mem option" where
  "free_segs [] m = Some m"
| "free_segs (seg # ss) m =
     do {
       asserts (seg_type seg = BUFFER_RW);
       m \<leftarrow> seg_free seg m;
       free_segs ss m
     }"

definition empty_buffer :: buffer where "empty_buffer = \<lparr>blen = 0, segs = []\<rparr>"

definition mbuffer_free :: "buffer \<Rightarrow> mem \<Rightarrow> (buffer \<times> mem) option" where
  "mbuffer_free buff m =
     do {
       buffer_check buff;
       if blen buff = 0 then Some (buff, m)
       else map_option (\<lambda>m. (empty_buffer, m)) (free_segs (segs buff) m)
     }"

text \<open>The result is both buffers, \<^verbatim>\<open>dist\<close> first.\<close>

definition mbuffer_merge :: "buffer \<Rightarrow> buffer \<Rightarrow> (buffer \<times> buffer) option" where
  "mbuffer_merge dist src =
     do {
       buffer_check src;
       buffer_check dist;
       let dist = \<lparr>blen = blen dist + blen src, segs = segs dist @ segs src\<rparr>;
       buffer_check dist;
       Some (dist, empty_buffer)
     }"

text \<open>The loop \<^verbatim>\<open>while (left > 0)\<close> of two functions: empty segments for \<open>left\<close> bytes, filled by \<open>fill\<close>.\<close>

function alloc_loop :: "(nat \<Rightarrow> octet list) option \<Rightarrow> nat \<Rightarrow> buffer \<Rightarrow> mem \<Rightarrow> (buffer \<times> mem) option" where
  "alloc_loop fill left buff m =
     (if left = 0 then Some (buff, m)
      else
        let cp = (if left < BUFFER_SEG_SIZE then left else BUFFER_SEG_SIZE) in
        do {
          (answer, m) \<leftarrow> seg_alloc cp m;
          case answer of
            None \<Rightarrow> None
          | Some seg \<Rightarrow>
              do {
                m \<leftarrow> (case fill of None \<Rightarrow> Some m | Some f \<Rightarrow> poke (seg_ptr seg) (f cp) m);
                buff \<leftarrow> seg_add_tail buff seg;
                alloc_loop fill (left - cp) buff m
              }
        })"
  by pat_completeness auto

termination
  by (relation "measure (\<lambda>(fill, left, buff, m). left)") (auto simp: BUFFER_SEG_SIZE_def)

declare alloc_loop.simps [simp del]

definition mbuffer_init :: "nat \<Rightarrow> mem \<Rightarrow> (buffer \<times> mem) option" where
  "mbuffer_init sz m =
     do {
       (buff, m) \<leftarrow> alloc_loop None sz empty_buffer m;
       buffer_check buff;
       Some (buff, m)
     }"

definition mbuffer_appendzero :: "buffer \<Rightarrow> nat \<Rightarrow> mem \<Rightarrow> (buffer \<times> mem) option" where
  "mbuffer_appendzero buff sz m =
     do {
       buffer_check buff;
       (buff, m) \<leftarrow> alloc_loop (Some (\<lambda>cp. replicate cp 0)) sz buff m;
       buffer_check buff;
       Some (buff, m)
     }"

text \<open>The loop of \<^verbatim>\<open>mbuffer_pop\<close> with \<open>newbuf\<close> when there is one: the error, what is left of the
  segments, the new buffer and \<^verbatim>\<open>left\<close>. On an error the buffer keeps its length.\<close>

fun pop_loop ::
    "seg list \<Rightarrow> buffer option \<Rightarrow> nat \<Rightarrow> mem
     \<Rightarrow> (errno option \<times> seg list \<times> buffer option \<times> nat \<times> mem) option" where
  "pop_loop [] nb left m = Some (None, [], nb, left, m)"
| "pop_loop (seg # ss) nb left m =
     (let cp = (if left < seg_len seg then left else seg_len seg) in
      do {
        asserts (seg_type seg = BUFFER_RW);
        (code, kept, nb, m) \<leftarrow>
          (if cp < seg_len seg then
             (case nb of
                None \<Rightarrow> Some (None, [advance cp seg], None, m)
              | Some new \<Rightarrow>
                  do {
                    d \<leftarrow> peek (seg_ptr seg) cp m;
                    (code, new, m) \<leftarrow> mbuffer_appendmem new d m;
                    Some (code, [if code = None then advance cp seg else seg], Some new, m)
                  })
           else
             (case nb of
                None \<Rightarrow> map_option (\<lambda>m. (None, [], None, m)) (seg_free seg m)
              | Some new \<Rightarrow> map_option (\<lambda>new. (None, [], Some new, m)) (seg_add_tail new seg)));
        if code \<noteq> None \<or> left - cp = 0 then Some (code, kept @ ss, nb, left - cp, m)
        else do {
          (code, rest, nb, left, m) \<leftarrow> pop_loop ss nb (left - cp) m;
          Some (code, kept @ rest, nb, left, m)
        }
      })"

definition mbuffer_pop ::
    "buffer \<Rightarrow> buffer option \<Rightarrow> nat \<Rightarrow> mem
     \<Rightarrow> (errno option \<times> buffer \<times> buffer option \<times> mem) option" where
  "mbuffer_pop buff nb len m =
     do {
       buffer_check buff;
       asserts (len \<le> blen buff);
       (code, ss, nb, left, m) \<leftarrow> pop_loop (segs buff) nb len m;
       if code \<noteq> None then Some (code, buff\<lparr>segs := ss\<rparr>, nb, m)
       else do {
         asserts (left = 0);
         let buff = \<lparr>blen = blen buff - len, segs = ss\<rparr>;
         buffer_check buff;
         (case nb of None \<Rightarrow> Some () | Some new \<Rightarrow> buffer_check new);
         Some (None, buff, nb, m)
       }
     }"

text \<open>The loop of \<^verbatim>\<open>mbuffer_copy\<close> over what is left of the memory.\<close>

function copy_loop :: "buffer \<Rightarrow> octet list \<Rightarrow> mem \<Rightarrow> (errno option \<times> buffer \<times> mem) option" where
  "copy_loop buff src m =
     (if src = [] then Some (None, buff, m)
      else
        let cp = (if length src < BUFFER_SEG_SIZE then length src else BUFFER_SEG_SIZE) in
        do {
          (code, buff, m) \<leftarrow> mbuffer_appendmem buff (take cp src) m;
          if code \<noteq> None then Some (code, buff, m) else copy_loop buff (drop cp src) m
        })"
  by pat_completeness auto

termination
  by (relation "measure (\<lambda>(buff, src, m). length src)") (auto simp: BUFFER_SEG_SIZE_def)

declare copy_loop.simps [simp del]

definition mbuffer_copy :: "buffer \<Rightarrow> octet list \<Rightarrow> mem \<Rightarrow> (errno option \<times> buffer \<times> mem) option" where
  "mbuffer_copy buff src m =
     do {
       buffer_check buff;
       (code, buff, m) \<leftarrow> copy_loop buff src m;
       if code \<noteq> None then Some (code, buff, m) else do { buffer_check buff; Some (None, buff, m) }
     }"

text \<open>\<^verbatim>\<open>mbuffer_droptail\<close>: the segments are given from the last to the first.\<close>

fun droptail_loop :: "seg list \<Rightarrow> nat \<Rightarrow> mem \<Rightarrow> (seg list \<times> mem) option" where
  "droptail_loop [] left m = None"
| "droptail_loop (seg # ss) left m =
     (if seg_len seg > left then Some (seg\<lparr>seg_len := seg_len seg - left\<rparr> # ss, m)
      else do {
        asserts (seg_type seg = BUFFER_RW);
        m \<leftarrow> seg_free seg m;
        if seg_len seg < left then droptail_loop ss (left - seg_len seg) m else Some (ss, m)
      })"

definition mbuffer_droptail :: "buffer \<Rightarrow> nat \<Rightarrow> mem \<Rightarrow> (buffer \<times> mem) option" where
  "mbuffer_droptail buff len m =
     do {
       asserts (blen buff \<ge> len);
       if len = 0 then Some (buff, m)
       else do {
         (ss, m) \<leftarrow> droptail_loop (rev (segs buff)) len m;
         Some (\<lparr>blen = blen buff - len, segs = rev ss\<rparr>, m)
       }
     }"

end
