(* ===== verification/BufferOps.thy ===== *)
theory BufferOps
  imports Buffer
begin

text \<open>
  The operations of \<^verbatim>\<open>src/sdfs/ylib/lib/buffer.c\<close> that work on whole buffers: copies and
  references, vectors for the system's input and output, checksums, comparison and search.
  A vector is a list of pointers with lengths.
\<close>

section \<open>Copies and references\<close>

text \<open>An error of \<^verbatim>\<open>mbuffer_appendmem\<close> ends in a failed assertion.\<close>

fun clone_loop :: "seg list \<Rightarrow> buffer \<Rightarrow> mem \<Rightarrow> (buffer \<times> mem) option" where
  "clone_loop [] dist m = Some (dist, m)"
| "clone_loop (seg # ss) dist m =
     do {
       asserts (seg_type seg = BUFFER_RW);
       d \<leftarrow> peek (seg_ptr seg) (seg_len seg) m;
       (code, dist, m) \<leftarrow> mbuffer_appendmem dist d m;
       asserts (code = None);
       clone_loop ss dist m
     }"

fun share_loop :: "seg list \<Rightarrow> buffer \<Rightarrow> mem \<Rightarrow> (buffer \<times> mem) option" where
  "share_loop [] dist m = Some (dist, m)"
| "share_loop (seg # ss) dist m =
     do {
       (answer, m) \<leftarrow> seg_share seg m;
       case answer of
         None \<Rightarrow> None
       | Some new \<Rightarrow> do { dist \<leftarrow> seg_add_tail dist new; share_loop ss dist m }
     }"

definition mbuffer_reference :: "buffer \<Rightarrow> buffer \<Rightarrow> mem \<Rightarrow> (buffer \<times> mem) option" where
  "mbuffer_reference dist src m =
     (if \<not> use_memcache m then clone_loop (segs src) dist m
      else if \<exists>s \<in> set (segs src). \<not> seg_memcache s then clone_loop (segs src) dist m
      else do {
        buffer_check src;
        buffer_check dist;
        (dist, m) \<leftarrow> share_loop (segs src) dist m;
        buffer_check dist;
        Some (dist, m)
      })"

definition mbuffer_clone :: "buffer \<Rightarrow> mem \<Rightarrow> (buffer \<times> mem) option" where
  "mbuffer_clone buff m =
     do {
       buffer_check buff;
       (new, m) \<leftarrow> mbuffer_init 0 m;
       (new, m) \<leftarrow> clone_loop (segs buff) new m;
       buffer_check new;
       buffer_check buff;
       Some (new, m)
     }"

text \<open>The size copied, a copy of at most \<open>left\<close> bytes from \<open>offset\<close> on. The code of
  \<^verbatim>\<open>mbuffer_appendmem\<close> is not looked at.\<close>

fun part_clone_loop ::
    "seg list \<Rightarrow> nat \<Rightarrow> nat \<Rightarrow> buffer \<Rightarrow> mem \<Rightarrow> (nat \<times> buffer \<times> mem) option" where
  "part_clone_loop [] offset left dist m = Some (0, dist, m)"
| "part_clone_loop (seg # ss) offset left dist m =
     (if seg_ptr seg = None then None
      else if offset \<ge> seg_len seg then part_clone_loop ss (offset - seg_len seg) left dist m
      else
        let w = (if left < seg_len seg - offset then left else seg_len seg - offset) in
        do {
          d \<leftarrow> peek (map_option (\<lambda>(b, off). (b, off + offset)) (seg_ptr seg)) w m;
          (code, dist, m) \<leftarrow> mbuffer_appendmem dist d m;
          if left - w = 0 then Some (w, dist, m)
          else do {
            (n, dist, m) \<leftarrow> part_clone_loop ss 0 (left - w) dist m;
            Some (w + n, dist, m)
          }
        })"

definition mbuffer_part_clone ::
    "buffer \<Rightarrow> nat \<Rightarrow> nat \<Rightarrow> buffer \<Rightarrow> mem \<Rightarrow> (nat \<times> buffer \<times> mem) option" where
  "mbuffer_part_clone buff offset sz dist m = part_clone_loop (segs buff) offset sz dist m"

text \<open>The loop of \<^verbatim>\<open>mbuffer_append\<close>, through a block of \<^verbatim>\<open>BUFFER_SEG_SIZE\<close> bytes.\<close>

function append_loop ::
    "buffer \<Rightarrow> nat \<Rightarrow> nat \<Rightarrow> buffer \<Rightarrow> mem \<Rightarrow> (errno option \<times> buffer \<times> mem) option" where
  "append_loop buff offset left new m =
     (if left = 0 then Some (None, new, m)
      else
        let cp = (if left < BUFFER_SEG_SIZE then left else BUFFER_SEG_SIZE) in
        do {
          d \<leftarrow> mbuffer_get1 buff offset cp m;
          (code, new, m) \<leftarrow> mbuffer_appendmem new d m;
          if code \<noteq> None then Some (code, new, m)
          else append_loop buff (offset + cp) (left - cp) new m
        })"
  by pat_completeness auto

termination
  by (relation "measure (\<lambda>(buff, offset, left, new, m). left)") (auto simp: BUFFER_SEG_SIZE_def)

declare append_loop.simps [simp del]

definition mbuffer_append ::
    "buffer \<Rightarrow> buffer \<Rightarrow> mem \<Rightarrow> (errno option \<times> buffer \<times> mem) option" where
  "mbuffer_append new buff m =
     do {
       buffer_check new;
       buffer_check buff;
       let (granted, m) = small_alloc m;
       if \<not> granted then Some (Some ENOMEM, new, m)
       else do {
         (code, new, m) \<leftarrow> append_loop buff 0 (blen buff) new m;
         if code \<noteq> None then Some (code, new, m)
         else do { buffer_check new; buffer_check buff; Some (None, new, m) }
       }
     }"

section \<open>Vectors\<close>

type_synonym iovec = "pointer option \<times> nat"

fun trans_loop :: "seg list \<Rightarrow> nat \<Rightarrow> iovec list option" where
  "trans_loop [] count = Some []"
| "trans_loop (seg # ss) count =
     (if count = 0 then Some []
      else if seg_ptr seg = None then None
      else map_option (\<lambda>v. (seg_ptr seg, seg_len seg) # v) (trans_loop ss (count - 1)))"

definition iov_size :: "iovec list \<Rightarrow> nat" where
  "iov_size v = (\<Sum>p\<leftarrow>v. snd p)"

text \<open>The vector, whose length is the new \<^verbatim>\<open>*iov_count\<close>, and the size it covers.\<close>

definition mbuffer_trans :: "nat \<Rightarrow> buffer \<Rightarrow> (iovec list \<times> nat) option" where
  "mbuffer_trans count buff = map_option (\<lambda>v. (v, iov_size v)) (trans_loop (segs buff) count)"

fun trans1_loop :: "seg list \<Rightarrow> nat \<Rightarrow> nat \<Rightarrow> iovec list option" where
  "trans1_loop [] count offset = Some []"
| "trans1_loop (seg # ss) count offset =
     (if count = 0 then Some []
      else if seg_ptr seg = None then None
      else if offset \<ge> seg_len seg then trans1_loop ss count (offset - seg_len seg)
      else map_option
             (\<lambda>v. (map_option (\<lambda>(b, off). (b, off + offset)) (seg_ptr seg), seg_len seg - offset) # v)
             (trans1_loop ss (count - 1) 0))"

definition mbuffer_trans1 :: "nat \<Rightarrow> nat \<Rightarrow> buffer \<Rightarrow> (iovec list \<times> nat) option" where
  "mbuffer_trans1 count offset buff =
     map_option (\<lambda>v. (v, iov_size v)) (trans1_loop (segs buff) count offset)"

text \<open>\<^verbatim>\<open>mbuffer_trans2\<close> has no bound on the vector, and asserts that \<open>sz\<close> bytes are there.\<close>

fun trans2_loop :: "seg list \<Rightarrow> nat \<Rightarrow> nat \<Rightarrow> (iovec list \<times> nat) option" where
  "trans2_loop [] offset sz = Some ([], sz)"
| "trans2_loop (seg # ss) offset sz =
     (if seg_ptr seg = None then None
      else if offset \<ge> seg_len seg then trans2_loop ss (offset - seg_len seg) sz
      else
        let rest = seg_len seg - offset; n = (if rest < sz then rest else sz);
            p = (map_option (\<lambda>(b, off). (b, off + offset)) (seg_ptr seg), n)
        in if sz - n = 0 then Some ([p], 0)
           else map_option (\<lambda>(v, left). (p # v, left)) (trans2_loop ss 0 (sz - n)))"

definition mbuffer_trans2 :: "nat \<Rightarrow> nat \<Rightarrow> buffer \<Rightarrow> iovec list option" where
  "mbuffer_trans2 offset sz buff =
     do {
       (v, left) \<leftarrow> trans2_loop (segs buff) offset sz;
       asserts (left = 0);
       Some v
     }"

text \<open>\<^verbatim>\<open>__mbuffer_iov_copy\<close>: fills the memory at \<open>p\<close> from the vector, and gives what is left of it.\<close>

fun iov_copy :: "pointer option \<Rightarrow> nat \<Rightarrow> iovec list \<Rightarrow> mem \<Rightarrow> (iovec list \<times> mem) option" where
  "iov_copy p left [] m = (if left = 0 then Some ([], m) else None)"
| "iov_copy p left ((q, n) # v) m =
     (if left = 0 then Some ((q, n) # v, m)
      else if left < n then
        do {
          d \<leftarrow> peek q left m;
          m \<leftarrow> poke p d m;
          Some ((map_option (\<lambda>(b, off). (b, off + left)) q, n - left) # v, m)
        }
      else
        do {
          d \<leftarrow> peek q n m;
          m \<leftarrow> poke p d m;
          iov_copy (map_option (\<lambda>(b, off). (b, off + n)) p) (left - n) v m
        })"

fun fill_loop :: "seg list \<Rightarrow> iovec list \<Rightarrow> mem \<Rightarrow> mem option" where
  "fill_loop [] v m = Some m"
| "fill_loop (seg # ss) v m =
     do {
       asserts (v \<noteq> []);
       (v, m) \<leftarrow> iov_copy (seg_ptr seg) (seg_len seg) v m;
       fill_loop ss v m
     }"

definition SDFS_IOV_MAX :: nat where "SDFS_IOV_MAX = 524288 * 2 div BUFFER_SEG_SIZE + 1"

definition mbuffer_clone1 :: "buffer \<Rightarrow> mem \<Rightarrow> (buffer \<times> mem) option" where
  "mbuffer_clone1 buff m =
     do {
       buffer_check buff;
       (v, n) \<leftarrow> mbuffer_trans (SDFS_IOV_MAX * 2) buff;
       (v, m) \<leftarrow>
         (if n \<noteq> blen buff then
            (let (granted, m) = small_alloc m in
             do {
               asserts granted;
               (v, n) \<leftarrow> mbuffer_trans (1024 * 16 div 16) buff;
               asserts (n = blen buff);
               Some (v, m)
             })
          else Some (v, m));
       (new, m) \<leftarrow> mbuffer_init (blen buff) m;
       m \<leftarrow> fill_loop (segs new) v m;
       buffer_check new;
       buffer_check buff;
       asserts ((\<Sum>s\<leftarrow>segs new. seg_len s) = blen new);
       Some (new, m)
     }"

section \<open>Checksums\<close>

fun crc_loop :: "seg list \<Rightarrow> nat \<Rightarrow> nat \<Rightarrow> nat \<Rightarrow> 32 word \<Rightarrow> mem \<Rightarrow> 32 word option" where
  "crc_loop [] count offset left crcode m = Some crcode"
| "crc_loop (seg # ss) count offset left crcode m =
     (if seg_len seg + count < offset then crc_loop ss (count + seg_len seg) offset left crcode m
      else
        let (soff, count) = (if count < offset then (offset - count, count + seg_len seg) else (0, count));
            step = (if seg_len seg - soff < left then seg_len seg - soff else left)
        in do {
          d \<leftarrow> peek (map_option (\<lambda>(b, off). (b, off + soff)) (seg_ptr seg)) step m;
          let crcode = crc32_stream crcode d;
          if left - step = 0 then Some crcode else crc_loop ss count offset (left - step) crcode m
        })"

definition mbuffer_crc :: "buffer \<Rightarrow> nat \<Rightarrow> nat \<Rightarrow> mem \<Rightarrow> 32 word option" where
  "mbuffer_crc buff offset sz m =
     do {
       asserts (sz \<le> blen buff);
       buffer_check buff;
       crcode \<leftarrow> crc_loop (segs buff) 0 offset sz crc32_init m;
       buffer_check buff;
       Some (crc32_stream_finish crcode)
     }"

definition mbuffer_head :: "buffer \<Rightarrow> pointer option option" where
  "mbuffer_head buff =
     do {
       buffer_check buff;
       asserts (blen buff \<noteq> 0);
       Some (case segs buff of [] \<Rightarrow> None | seg # ss \<Rightarrow> seg_ptr seg)
     }"

definition mbuffer_segcount :: "buffer \<Rightarrow> nat" where
  "mbuffer_segcount buff = length (segs buff)"

fun iszero_loop :: "seg list \<Rightarrow> mem \<Rightarrow> bool option" where
  "iszero_loop [] m = Some True"
| "iszero_loop (seg # ss) m =
     do {
       d \<leftarrow> peek (seg_ptr seg) (seg_len seg) m;
       if \<exists>x \<in> set d. x \<noteq> 0 then Some False else iszero_loop ss m
     }"

definition mbuffer_iszero :: "buffer \<Rightarrow> mem \<Rightarrow> bool option" where
  "mbuffer_iszero buff m = iszero_loop (segs buff) m"

section \<open>Comparison and search\<close>

lemma ncompare_shrinks:
  assumes "asserts (i1 \<le> l1 \<and> i2 \<le> l2) = Some u" and n: "n = min (min (l1 - i1) (l2 - i2)) left"
    and "left \<noteq> 0"
    and e: "e1 = (if i1 + n = l1 then (0, r1) else (i1 + n, ss1))"
      "e2 = (if i2 + n = l2 then (0, r2) else (i2 + n, ss2))" "(a1, t1) = e1" "(a2, t2) = e2"
    and ss: "ss1 = s1 # r1" "ss2 = s2 # r2"
  shows "left - n + length t1 + length t2 < left + length ss1 + length ss2"
proof -
  have "n \<noteq> 0 \<or> i1 + n = l1 \<or> i2 + n = l2" "n \<le> left"
    using assms(1-3) by (auto simp: asserts_def min_def split: if_splits)
  moreover have "length t1 = (if i1 + n = l1 then length r1 else Suc (length r1))"
    "length t2 = (if i2 + n = l2 then length r2 else Suc (length r2))"
    using e ss by (auto split: if_splits)
  ultimately show ?thesis
    using ss \<open>left \<noteq> 0\<close> by (auto split: if_splits)
qed

text \<open>
  The loop of \<^verbatim>\<open>mbuffer_ncompare\<close>. The lists are the segments from \<^verbatim>\<open>pos1\<close> and \<^verbatim>\<open>pos2\<close> on; at the end
  of a list the code would take the head of the buffer for a segment, and an index behind its segment
  would give a length that wraps around, which both give \<open>None\<close>.
\<close>

function ncompare_loop ::
    "seg list \<Rightarrow> seg list \<Rightarrow> nat \<Rightarrow> nat \<Rightarrow> nat \<Rightarrow> nat \<Rightarrow> nat \<Rightarrow> int \<Rightarrow> mem \<Rightarrow> int option" where
  "ncompare_loop ss1 ss2 count offset idx1 idx2 left res m =
     (if left = 0 then Some res
      else
        case (ss1, ss2) of
          (s1 # r1, s2 # r2) \<Rightarrow>
            if seg_len s1 + count < offset then
              ncompare_loop r1 ss2 (count + seg_len s1) offset idx1 idx2 left res m
            else
              let (idx1, count) = (if count < offset then (offset - count, offset) else (idx1, count));
                  len = min (min (seg_len s1 - idx1) (seg_len s2 - idx2)) left
              in do {
                asserts (idx1 \<le> seg_len s1 \<and> idx2 \<le> seg_len s2);
                d1 \<leftarrow> peek (map_option (\<lambda>(b, off). (b, off + idx1)) (seg_ptr s1)) len m;
                d2 \<leftarrow> peek (map_option (\<lambda>(b, off). (b, off + idx2)) (seg_ptr s2)) len m;
                let res = memcmp d1 d2;
                if res \<noteq> 0 then Some res
                else
                  let (n1, t1) = (if idx1 + len = seg_len s1 then (0, r1) else (idx1 + len, ss1));
                      (n2, t2) = (if idx2 + len = seg_len s2 then (0, r2) else (idx2 + len, ss2));
                      left = left - len
                  in if t1 = [] \<or> t2 = [] then Some (if left = 0 then 0 else 1)
                     else ncompare_loop t1 t2 count offset n1 n2 left res m
              }
        | _ \<Rightarrow> None)"
  by pat_completeness auto

termination
proof (relation "measure (\<lambda>(ss1, ss2, c, f, i1, i2, left, r, m). left + length ss1 + length ss2)", goal_cases)
  case (3 ss1 ss2 count offset idx1 idx2 left res m p q s1 r1 s2 r2)
  show ?case
    using ncompare_shrinks [OF 3(9,8,1,14,16,15,17)] 3(2-4,18) by (auto simp del: length_Cons)
qed auto

declare ncompare_loop.simps [simp del]

definition mbuffer_ncompare :: "buffer \<Rightarrow> nat \<Rightarrow> buffer \<Rightarrow> nat \<Rightarrow> mem \<Rightarrow> int option" where
  "mbuffer_ncompare buff offset cmp sz m = ncompare_loop (segs buff) (segs cmp) 0 offset 0 0 sz 0 m"

definition mbuffer_compare :: "buffer \<Rightarrow> buffer \<Rightarrow> mem \<Rightarrow> int option" where
  "mbuffer_compare buff cmp m =
     (if blen buff \<noteq> blen cmp then Some 1 else mbuffer_ncompare buff 0 cmp (blen buff) m)"

lemma ncmp_shrinks:
  assumes "asserts (i \<le> l) = Some u" "n = min (l - i) (length cmp)" "cmp \<noteq> []"
    and e: "e = (if i + n = l then (0, r) else (i + n, ss))" "(a, t) = e"
    and ss: "ss = s # r"
  shows "length (drop n cmp) + length t < length cmp + length ss"
proof -
  have "n \<noteq> 0 \<or> i + n = l" "n \<le> length cmp"
    using assms(1-3) by (auto simp: asserts_def min_def split: if_splits)
  moreover have "length t = (if i + n = l then length r else Suc (length r))"
    using e ss by (auto split: if_splits)
  ultimately show ?thesis
    using ss \<open>cmp \<noteq> []\<close> by (auto split: if_splits)
qed

text \<open>The loop of \<^verbatim>\<open>mbuffer_ncmp\<close>: \<open>cmp\<close> is what is left of the text from \<^verbatim>\<open>idx2\<close> on, and \<^verbatim>\<open>left\<close> is its
  length.\<close>

function ncmp_loop :: "seg list \<Rightarrow> octet list \<Rightarrow> nat \<Rightarrow> nat \<Rightarrow> nat \<Rightarrow> int \<Rightarrow> mem \<Rightarrow> int option" where
  "ncmp_loop ss cmp count offset idx res m =
     (if cmp = [] then Some res
      else
        case ss of
          s1 # r1 \<Rightarrow>
            if seg_len s1 + count < offset then ncmp_loop r1 cmp (count + seg_len s1) offset idx res m
            else
              let (idx, count) = (if count < offset then (offset - count, offset) else (idx, count));
                  len = min (seg_len s1 - idx) (length cmp)
              in do {
                asserts (idx \<le> seg_len s1);
                d \<leftarrow> peek (map_option (\<lambda>(b, off). (b, off + idx)) (seg_ptr s1)) len m;
                let res = memcmp d (take len cmp);
                if res \<noteq> 0 then Some res
                else
                  let (n1, t1) = (if idx + len = seg_len s1 then (0, r1) else (idx + len, ss));
                      cmp = drop len cmp
                  in if t1 = [] \<or> cmp = [] then Some (if cmp = [] then 0 else 1)
                     else ncmp_loop t1 cmp count offset n1 res m
              }
        | _ \<Rightarrow> None)"
  by pat_completeness auto

termination
proof (relation "measure (\<lambda>(ss, cmp, c, f, i, r, m). length cmp + length ss)", goal_cases)
  case (3 ss cmp count offset idx res m s1 r1)
  show ?case
    using ncmp_shrinks [OF 3(7,6,1,11,12,2)] 3(13) by simp
qed auto

declare ncmp_loop.simps [simp del]

definition mbuffer_ncmp :: "buffer \<Rightarrow> nat \<Rightarrow> octet list \<Rightarrow> mem \<Rightarrow> int option" where
  "mbuffer_ncmp buff offset cmp m = ncmp_loop (segs buff) cmp 0 offset 0 0 m"

text \<open>The loops of the two searches: the first \<open>i\<close> up to the last place where the text fits.\<close>

fun find_loop :: "(nat \<Rightarrow> int option) \<Rightarrow> nat list \<Rightarrow> int option" where
  "find_loop cmp [] = Some (- 1)"
| "find_loop cmp (i # is) = do { r \<leftarrow> cmp i; if r = 0 then Some (int i) else find_loop cmp is }"

definition mbuffer_find :: "buffer \<Rightarrow> octet list \<Rightarrow> mem \<Rightarrow> int option" where
  "mbuffer_find buff text m =
     (if blen buff < length text then Some (- 1)
      else find_loop (\<lambda>i. mbuffer_ncmp buff i text m) [0..<Suc (blen buff - length text)])"

definition mbuffer_rfind :: "buffer \<Rightarrow> octet list \<Rightarrow> mem \<Rightarrow> int option" where
  "mbuffer_rfind buff text m =
     (if blen buff < length text then Some (- 1)
      else find_loop (\<lambda>i. mbuffer_ncmp buff (blen buff - length text - i) text m)
             [0..<Suc (blen buff - length text)])"

end
