(* ===== verification/BufferRead.thy ===== *)
theory BufferRead
  imports BufferOps "HOL-Library.Multiset"
begin

text \<open>
  The functions that read a buffer give what the same function gives on its bytes, \<open>bytes\<close>, when
  every segment points at memory that is there, \<open>readable\<close>.
\<close>

section \<open>Bytes of segments\<close>

definition seg_bytes :: "mem \<Rightarrow> seg \<Rightarrow> octet list" where
  "seg_bytes m s = (case peek (seg_ptr s) (seg_len s) m of Some d \<Rightarrow> d | None \<Rightarrow> [])"

definition bytes :: "mem \<Rightarrow> seg list \<Rightarrow> octet list" where
  "bytes m ss = concat (map (seg_bytes m) ss)"

definition readable :: "mem \<Rightarrow> seg \<Rightarrow> bool" where
  "readable m s \<longleftrightarrow> seg_type s = BUFFER_RW \<and> 0 < seg_len s \<and> peek (seg_ptr s) (seg_len s) m \<noteq> None"

definition seg_sum :: "seg list \<Rightarrow> nat" where
  "seg_sum ss = (\<Sum>s\<leftarrow>ss. seg_len s)"

definition sized_right :: "buffer \<Rightarrow> bool" where
  "sized_right b \<longleftrightarrow> blen b = seg_sum (segs b) \<and> blen b < 2 ^ 32"

lemma seg_sum_simps [simp]:
  "seg_sum [] = 0" "seg_sum (s # ss) = seg_len s + seg_sum ss" "seg_sum (ss @ ts) = seg_sum ss + seg_sum ts"
  by (simp_all add: seg_sum_def)

lemma bytes_simps [simp]:
  "bytes m [] = []" "bytes m (s # ss) = seg_bytes m s @ bytes m ss"
  "bytes m (ss @ ts) = bytes m ss @ bytes m ts"
  by (simp_all add: bytes_def)

lemma asserts_simps [simp]: "asserts True = Some ()" "asserts False = None"
  by (simp_all add: asserts_def)

lemma peek_length: "peek p n m = Some d \<Longrightarrow> length d = n"
  by (auto simp: peek_def split: if_splits option.splits prod.splits)

lemma peek_part:
  assumes "peek p n m = Some d" "k + l \<le> n"
  shows "peek (map_option (\<lambda>(b, off). (b, off + k)) p) l m = Some (take l (drop k d))"
proof (cases "l = 0")
  case False
  then show ?thesis
    using assms by (auto simp: peek_def drop_take add.commute min_def split: option.splits if_splits)
qed (simp add: peek_def)

lemma peek_prefix: "peek p n m = Some d \<Longrightarrow> l \<le> n \<Longrightarrow> peek p l m = Some (take l d)"
  using peek_part [of p n m d 0 l] by (cases p) auto

lemma readable_peek: "readable m s \<Longrightarrow> peek (seg_ptr s) (seg_len s) m = Some (seg_bytes m s)"
  by (auto simp: readable_def seg_bytes_def)

lemma seg_part:
  assumes "readable m s" "k + l \<le> seg_len s"
  shows "peek (map_option (\<lambda>(b, off). (b, off + k)) (seg_ptr s)) l m = Some (take l (drop k (seg_bytes m s)))"
  by (rule peek_part [OF readable_peek]) (use assms in auto)

lemma seg_prefix:
  "readable m s \<Longrightarrow> l \<le> seg_len s \<Longrightarrow> peek (seg_ptr s) l m = Some (take l (seg_bytes m s))"
  by (rule peek_prefix [OF readable_peek])

lemma length_seg_bytes [simp]: "readable m s \<Longrightarrow> length (seg_bytes m s) = seg_len s"
  using readable_peek peek_length by blast

lemma length_bytes: "\<forall>s \<in> set ss. readable m s \<Longrightarrow> length (bytes m ss) = seg_sum ss"
  by (induction ss) auto

lemma readable_facts:
  "readable m s \<Longrightarrow> seg_type s = BUFFER_RW" "readable m s \<Longrightarrow> 0 < seg_len s" "readable m s \<Longrightarrow> seg_ptr s \<noteq> None"
  by (auto simp: readable_def peek_def split: if_splits option.splits)

lemma buffer_check_ok: "sized_right b \<Longrightarrow> \<forall>s \<in> set (segs b). readable m s \<Longrightarrow> buffer_check b = Some ()"
  by (auto simp: buffer_check_def sized_right_def seg_sum_def readable_def)

section \<open>Copying out\<close>

lemma get_loop_bytes:
  "\<forall>s \<in> set ss. readable m s \<Longrightarrow> left \<le> seg_sum ss \<Longrightarrow>
     get_loop ss left m = Some (take left (bytes m ss), 0)"
proof (induction ss arbitrary: left)
  case (Cons s ss)
  then show ?case
    using Cons.IH [of "left - seg_len s"] by (auto simp: Let_def seg_prefix)
qed simp

lemma mbuffer_get_bytes:
  assumes "sized_right b" "\<forall>s \<in> set (segs b). readable m s" "n \<le> blen b"
  shows "mbuffer_get b n m = Some (take n (bytes m (segs b)))"
  using assms get_loop_bytes [of "segs b" m n]
  by (simp add: mbuffer_get_def buffer_check_ok sized_right_def)

lemma seg_span_part:
  assumes "offset + len = fin" "buf_off \<le> fin" "left = (if buf_off \<le> offset then len else fin - buf_off)" "0 < l"
  shows "seg_span l buf_off offset fin len = Some (if buf_off + l \<le> offset then (0, 0)
     else (offset - buf_off, min left (l - (offset - buf_off))))"
  using assms by (auto simp: seg_span_def)

lemma get1_loop_bytes:
  "\<forall>s \<in> set ss. readable m s \<Longrightarrow> offset + len = fin \<Longrightarrow> buf_off \<le> fin \<Longrightarrow> fin \<le> buf_off + seg_sum ss \<Longrightarrow>
     left = (if buf_off \<le> offset then len else fin - buf_off) \<Longrightarrow>
     get1_loop ss buf_off offset fin len left m = Some (take left (drop (offset - buf_off) (bytes m ss)), 0)"
proof (induction ss arbitrary: buf_off left)
  case (Cons s ss)
  have s: "readable m s" "0 < seg_len s" using Cons.prems(1) readable_facts(2) by auto
  note span = seg_span_part [OF Cons.prems(2,3,5) s(2)]
  show ?case
  proof (cases "buf_off + seg_len s \<le> offset")
    case True
    then have "left = 0 \<Longrightarrow> fin \<le> offset" using Cons.prems by auto
    with True show ?thesis
      using span s Cons.IH [of "buf_off + seg_len s" left] Cons.prems by (auto simp: peek_def)
  next
    case False
    let ?k = "offset - buf_off" and ?n = "min left (seg_len s - (offset - buf_off))"
    have p: "peek (map_option (\<lambda>(b, off). (b, off + ?k)) (seg_ptr s)) ?n m
        = Some (take ?n (drop ?k (seg_bytes m s)))"
      by (rule seg_part) (use False s in auto)
    show ?thesis
    proof (cases "left \<le> seg_len s - ?k")
      case True
      then show ?thesis
        using span s p False by (simp add: min_def)
    next
      case inner: False
      have "get1_loop ss (buf_off + seg_len s) offset fin len (left - ?n) m
          = Some (take (left - ?n) (drop (offset - (buf_off + seg_len s)) (bytes m ss)), 0)"
        by (rule Cons.IH) (use Cons.prems False inner in \<open>auto split: if_splits\<close>)
      then show ?thesis
        using span s p False inner by (auto simp: min_def)
    qed
  qed
qed simp

lemma mbuffer_get1_bytes:
  assumes "sized_right b" "\<forall>s \<in> set (segs b). readable m s" "offset + n \<le> blen b"
  shows "mbuffer_get1 b offset n m = Some (take n (drop offset (bytes m (segs b))))"
proof -
  have "sum32 offset n = offset + n"
    using assms by (simp add: sum32_def sized_right_def)
  then show ?thesis
    using assms get1_loop_bytes [of "segs b" m offset n "offset + n" 0 n]
    by (simp add: mbuffer_get1_def buffer_check_ok sized_right_def)
qed

section \<open>Checksums\<close>

lemma crc32_stream_append: "crc32_stream c (xs @ ys) = crc32_stream (crc32_stream c xs) ys"
  by (simp add: crc32_stream_def)

lemma crc32_stream_nil: "crc32_stream c [] = c"
  by (simp add: crc32_stream_def)

lemma crc_loop_bytes:
  "\<forall>s \<in> set ss. readable m s \<Longrightarrow>
     crc_loop ss pos offset left c m = Some (crc32_stream c (take left (drop (offset - pos) (bytes m ss))))"
proof (induction ss arbitrary: pos left c)
  case (Cons s ss)
  have s: "readable m s" "0 < seg_len s" using Cons.prems readable_facts(2) by auto
  show ?case
  proof (cases "seg_len s + pos < offset")
    case True
    then show ?thesis
      using Cons s by (auto simp: add.commute)
  next
    case False
    let ?k = "offset - pos"
    let ?n = "if seg_len s - ?k < left then seg_len s - ?k else left"
    have "peek (map_option (\<lambda>(b, off). (b, off + ?k)) (seg_ptr s)) ?n m
        = Some (take ?n (drop ?k (seg_bytes m s)))"
      by (rule seg_part) (use False s in auto)
    then show ?thesis
      using False Cons s
      by (auto simp: Let_def crc32_stream_append crc32_stream_nil not_less add.commute)
  qed
qed (simp add: crc32_stream_def)

lemma mbuffer_crc_bytes:
  assumes "sized_right b" "\<forall>s \<in> set (segs b). readable m s" "n \<le> blen b"
  shows "mbuffer_crc b offset n m = Some (crc32_sum (take n (drop offset (bytes m (segs b)))))"
  using assms by (simp add: mbuffer_crc_def buffer_check_ok crc_loop_bytes crc32_sum_def)

lemma mbuffer_iszero_bytes:
  assumes "\<forall>s \<in> set (segs b). readable m s"
  shows "mbuffer_iszero b m = Some (\<forall>x \<in> set (bytes m (segs b)). x = 0)"
proof -
  have "iszero_loop ss m = Some (\<forall>x \<in> set (bytes m ss). x = 0)" if "\<forall>s \<in> set ss. readable m s" for ss
    using that by (induction ss) (auto simp: readable_peek)
  then show ?thesis using assms by (simp add: mbuffer_iszero_def)
qed

section \<open>Comparison\<close>

lemma memcmp_append:
  "length xs = length ys \<Longrightarrow>
     memcmp (xs @ us) (ys @ vs) = (if memcmp xs ys \<noteq> 0 then memcmp xs ys else memcmp us vs)"
  by (induction xs ys rule: list_induct2) (auto dest: unsigned_word_eqI)

lemma memcmp_equal: "length xs = length ys \<Longrightarrow> memcmp xs ys = 0 \<longleftrightarrow> xs = ys"
  by (induction xs ys rule: list_induct2) (auto dest: unsigned_word_eqI)

text \<open>One round: the rest of the first segment from \<open>i\<close> on gives \<open>n\<close> bytes.\<close>

lemma cut_segment:
  assumes s: "readable m s" "i + n \<le> seg_len s"
    and t: "(n1, t1) = (if i + n = seg_len s then (0, r) else (i + n, s # r))"
  shows "drop i (bytes m (s # r)) = take n (drop i (seg_bytes m s)) @ drop n1 (bytes m t1)"
    and "\<forall>x \<in> set r. readable m x \<Longrightarrow> \<forall>x \<in> set t1. readable m x"
    and "t1 \<noteq> [] \<Longrightarrow> \<forall>x \<in> set r. readable m x \<Longrightarrow> n1 < seg_len (hd t1)"
proof -
  have "drop i (seg_bytes m s) = take n (drop i (seg_bytes m s)) @ drop (i + n) (seg_bytes m s)"
    by (metis append_take_drop_id drop_drop add.commute)
  then show "drop i (bytes m (s # r)) = take n (drop i (seg_bytes m s)) @ drop n1 (bytes m t1)"
    using s t by (auto split: if_splits)
  show "\<forall>x \<in> set r. readable m x \<Longrightarrow> \<forall>x \<in> set t1. readable m x"
    using s t by (auto split: if_splits)
  show "t1 \<noteq> [] \<Longrightarrow> \<forall>x \<in> set r. readable m x \<Longrightarrow> n1 < seg_len (hd t1)"
    using s t readable_facts(2) by (cases r) (auto split: if_splits)
qed

lemma ncompare_loop_bytes:
  assumes "\<forall>s \<in> set ss1. readable m s" "\<forall>s \<in> set ss2. readable m s"
    and "i1 \<le> seg_len (hd ss1) \<or> ss1 = []" "i2 \<le> seg_len (hd ss2) \<or> ss2 = []"
    and "pos < offset \<longrightarrow> i1 = 0"
    and "left + (i1 + (offset - pos)) \<le> seg_sum ss1" "left + i2 \<le> seg_sum ss2"
  shows "ncompare_loop ss1 ss2 pos offset i1 i2 left 0 m =
    Some (memcmp (take left (drop (i1 + (offset - pos)) (bytes m ss1))) (take left (drop i2 (bytes m ss2))))"
  using assms
proof (induction "left + length ss1 + length ss2" arbitrary: left ss1 ss2 pos i1 i2 rule: less_induct)
  case less
  show ?case
  proof (cases "left = 0")
    case True
    then show ?thesis by (simp add: ncompare_loop.simps)
  next
    case left: False
    then obtain s1 r1 s2 r2 where ss: "ss1 = s1 # r1" "ss2 = s2 # r2"
      using less.prems by (cases ss1; cases ss2) auto
    have r: "readable m s1" "readable m s2" "\<forall>x \<in> set r1. readable m x" "\<forall>x \<in> set r2. readable m x"
      using less.prems ss by auto
    show ?thesis
    proof (cases "seg_len s1 + pos < offset")
      case True
      have "ncompare_loop r1 ss2 (pos + seg_len s1) offset i1 i2 left 0 m =
        Some (memcmp (take left (drop (i1 + (offset - (pos + seg_len s1))) (bytes m r1))) (take left (drop i2 (bytes m ss2))))"
        by (rule less.hyps) (use less.prems ss True in auto)
      then show ?thesis
        using True left ss r less.prems(5) by (subst ncompare_loop.simps) (simp add: add.commute)
    next
      case False
      define j where "j = i1 + (offset - pos)"
      define n where "n = min (min (seg_len s1 - j) (seg_len s2 - i2)) left"
      have j: "(if pos < offset then (offset - pos, offset) else (i1, pos)) = (j, max pos offset)"
        using less.prems(5) by (auto simp: j_def)
      have le: "j \<le> seg_len s1" "i2 \<le> seg_len s2" "n \<le> left" "j + n \<le> seg_len s1" "i2 + n \<le> seg_len s2"
        using False less.prems ss by (auto simp: j_def n_def)
      obtain n1 t1 where t1: "(n1, t1) = (if j + n = seg_len s1 then (0, r1) else (j + n, ss1))"
        by (metis surj_pair)
      obtain n2 t2 where t2: "(n2, t2) = (if i2 + n = seg_len s2 then (0, r2) else (i2 + n, ss2))"
        by (metis surj_pair)
      let ?d1 = "take n (drop j (seg_bytes m s1))" and ?d2 = "take n (drop i2 (seg_bytes m s2))"
      note c1 = cut_segment [OF r(1) le(4) t1 [unfolded ss]]
      note c2 = cut_segment [OF r(2) le(5) t2 [unfolded ss]]
      have shrink: "left - n + length t1 + length t2 < left + length ss1 + length ss2"
        by (rule ncompare_shrinks [OF _ n_def left refl refl t1 t2 ss]) (simp add: le)
      have len: "length ?d1 = n" "length ?d2 = n"
        using r le by simp_all
      have peeks:
        "peek (map_option (\<lambda>(b, off). (b, off + j)) (seg_ptr s1)) n m = Some ?d1"
        "peek (map_option (\<lambda>(b, off). (b, off + i2)) (seg_ptr s2)) n m = Some ?d2"
        by (rule seg_part; use r le in simp)+
      have step: "ncompare_loop ss1 ss2 pos offset i1 i2 left 0 m =
        (if memcmp ?d1 ?d2 \<noteq> 0 then Some (memcmp ?d1 ?d2)
         else if t1 = [] \<or> t2 = [] then Some (if left - n = 0 then 0 else 1)
         else ncompare_loop t1 t2 (max pos offset) offset n1 n2 (left - n) 0 m)"
        using left False peeks
        by (subst ncompare_loop.simps, cases "memcmp ?d1 ?d2 = 0")
          (simp_all add: ss j n_def [symmetric] le t1 [unfolded ss, symmetric] t2 [unfolded ss, symmetric] Let_def
            del: diff_is_0_eq diff_is_0_eq' split del: if_split cong del: if_weak_cong cong: if_cong)
      have sums: "left - n + n1 \<le> seg_sum t1" "left - n + n2 \<le> seg_sum t2"
        using t1 t2 less.prems(6,7) ss le by (auto simp: j_def split: if_splits)
      have rest: "ncompare_loop t1 t2 (max pos offset) offset n1 n2 (left - n) 0 m =
        Some (memcmp (take (left - n) (drop n1 (bytes m t1))) (take (left - n) (drop n2 (bytes m t2))))"
        if "t1 \<noteq> []" "t2 \<noteq> []"
      proof -
        have "\<forall>s \<in> set t1. readable m s" "\<forall>s \<in> set t2. readable m s"
          "n1 \<le> seg_len (hd t1) \<or> t1 = []" "n2 \<le> seg_len (hd t2) \<or> t2 = []"
          using c1(2,3) c2(2,3) r that by (simp_all add: less_imp_le)
        from less.hyps [OF shrink this, of "max pos offset"] sums show ?thesis by simp
      qed
      have nil: "left - n = 0" if "t1 = [] \<or> t2 = []"
        using that sums by auto
      have "take left (drop (i1 + (offset - pos)) (bytes m ss1)) = ?d1 @ take (left - n) (drop n1 (bytes m t1))"
        "take left (drop i2 (bytes m ss2)) = ?d2 @ take (left - n) (drop n2 (bytes m t2))"
        unfolding j_def [symmetric] ss c1(1) c2(1) using len le by simp_all
      then have "memcmp (take left (drop (i1 + (offset - pos)) (bytes m ss1))) (take left (drop i2 (bytes m ss2))) =
        (if memcmp ?d1 ?d2 \<noteq> 0 then memcmp ?d1 ?d2
         else memcmp (take (left - n) (drop n1 (bytes m t1))) (take (left - n) (drop n2 (bytes m t2))))"
        using memcmp_append [of ?d1 ?d2] len by simp
      then show ?thesis
        unfolding step using nil rest by auto
    qed
  qed
qed

lemma mbuffer_ncompare_bytes:
  assumes "\<forall>s \<in> set (segs b). readable m s" "\<forall>s \<in> set (segs c). readable m s"
    and "n + offset \<le> seg_sum (segs b)" "n \<le> seg_sum (segs c)"
  shows "mbuffer_ncompare b offset c n m =
    Some (memcmp (take n (drop offset (bytes m (segs b)))) (take n (bytes m (segs c))))"
  using assms ncompare_loop_bytes [of "segs b" m "segs c" 0 0 0 offset n] by (simp add: mbuffer_ncompare_def)

lemma mbuffer_compare_bytes:
  assumes "sized_right b" "sized_right c"
    and r: "\<forall>s \<in> set (segs b). readable m s" "\<forall>s \<in> set (segs c). readable m s"
  shows "\<exists>x. mbuffer_compare b c m = Some x \<and> (x = 0 \<longleftrightarrow> bytes m (segs b) = bytes m (segs c))"
proof (cases "blen b = blen c")
  case True
  then show ?thesis
    using assms mbuffer_ncompare_bytes [OF r, of "blen b" 0]
      memcmp_equal [of "bytes m (segs b)" "bytes m (segs c)"]
    by (simp add: mbuffer_compare_def sized_right_def length_bytes)
next
  case False
  then have "bytes m (segs b) \<noteq> bytes m (segs c)"
    using assms length_bytes [OF r(1)] length_bytes [OF r(2)] by (auto simp: sized_right_def)
  then show ?thesis
    using False by (simp add: mbuffer_compare_def)
qed

section \<open>Search\<close>

lemma ncmp_loop_bytes:
  assumes "\<forall>s \<in> set ss. readable m s" "i \<le> seg_len (hd ss) \<or> ss = []" "pos < offset \<longrightarrow> i = 0"
    and "length cmp + (i + (offset - pos)) \<le> seg_sum ss"
  shows "ncmp_loop ss cmp pos offset i 0 m =
    Some (memcmp (take (length cmp) (drop (i + (offset - pos)) (bytes m ss))) cmp)"
  using assms
proof (induction "length cmp + length ss" arbitrary: cmp ss pos i rule: less_induct)
  case less
  show ?case
  proof (cases "cmp = []")
    case True
    then show ?thesis by (simp add: ncmp_loop.simps)
  next
    case cmp: False
    then obtain s1 r1 where ss: "ss = s1 # r1"
      using less.prems by (cases ss) auto
    have r: "readable m s1" "\<forall>x \<in> set r1. readable m x"
      using less.prems ss by auto
    show ?thesis
    proof (cases "seg_len s1 + pos < offset")
      case True
      have "ncmp_loop r1 cmp (pos + seg_len s1) offset i 0 m =
        Some (memcmp (take (length cmp) (drop (i + (offset - (pos + seg_len s1))) (bytes m r1))) cmp)"
        by (rule less.hyps) (use less.prems ss True in auto)
      then show ?thesis
        using True cmp ss r less.prems(3) by (subst ncmp_loop.simps) (simp add: add.commute)
    next
      case False
      define j where "j = i + (offset - pos)"
      define n where "n = min (seg_len s1 - j) (length cmp)"
      have j: "(if pos < offset then (offset - pos, offset) else (i, pos)) = (j, max pos offset)"
        using less.prems(3) by (auto simp: j_def)
      have le: "j \<le> seg_len s1" "n \<le> length cmp" "j + n \<le> seg_len s1"
        using False less.prems ss by (auto simp: j_def n_def)
      obtain n1 t1 where t1: "(n1, t1) = (if j + n = seg_len s1 then (0, r1) else (j + n, ss))"
        by (metis surj_pair)
      let ?d = "take n (drop j (seg_bytes m s1))"
      note c1 = cut_segment [OF r(1) le(3) t1 [unfolded ss]]
      have shrink: "length (drop n cmp) + length t1 < length cmp + length ss"
        by (rule ncmp_shrinks [OF _ n_def cmp refl t1 ss]) (simp add: le)
      have len: "length ?d = n" "length (take n cmp) = n"
        using r le by simp_all
      have "peek (map_option (\<lambda>(b, off). (b, off + j)) (seg_ptr s1)) n m = Some ?d"
        by (rule seg_part; use r le in simp)
      then have step: "ncmp_loop ss cmp pos offset i 0 m =
        (if memcmp ?d (take n cmp) \<noteq> 0 then Some (memcmp ?d (take n cmp))
         else if t1 = [] \<or> drop n cmp = [] then Some (if drop n cmp = [] then 0 else 1)
         else ncmp_loop t1 (drop n cmp) (max pos offset) offset n1 0 m)"
        using cmp False
        by (subst ncmp_loop.simps, cases "memcmp ?d (take n cmp) = 0")
          (simp_all add: ss j n_def [symmetric] le t1 [unfolded ss, symmetric] Let_def
            del: drop_eq_Nil drop_eq_Nil2 split del: if_split cong del: if_weak_cong cong: if_cong)
      have sums: "length (drop n cmp) + n1 \<le> seg_sum t1"
        using t1 less.prems(4) ss le by (auto simp: j_def split: if_splits)
      have rest: "ncmp_loop t1 (drop n cmp) (max pos offset) offset n1 0 m =
        Some (memcmp (take (length (drop n cmp)) (drop n1 (bytes m t1))) (drop n cmp))" if "t1 \<noteq> []"
        using less.hyps [OF shrink, of n1 "max pos offset"] c1(2,3) r sums that by auto
      have nil: "drop n cmp = []" if "t1 = []"
        using that sums by auto
      have "take (length cmp) (drop (i + (offset - pos)) (bytes m ss)) =
        ?d @ take (length cmp - n) (drop n1 (bytes m t1))"
        unfolding j_def [symmetric] ss c1(1) using len le by simp
      then have "memcmp (take (length cmp) (drop (i + (offset - pos)) (bytes m ss))) cmp =
        (if memcmp ?d (take n cmp) \<noteq> 0 then memcmp ?d (take n cmp)
         else memcmp (take (length cmp - n) (drop n1 (bytes m t1))) (drop n cmp))"
        using len memcmp_append [of ?d "take n cmp" _ "drop n cmp"] by simp
      then show ?thesis
        unfolding step using nil rest by auto
    qed
  qed
qed

text \<open>The text is at \<open>i\<close>.\<close>

definition occurs_at :: "octet list \<Rightarrow> octet list \<Rightarrow> nat \<Rightarrow> bool" where
  "occurs_at pat bs i \<longleftrightarrow> take (length pat) (drop i bs) = pat"

lemma mbuffer_ncmp_bytes:
  assumes "\<forall>s \<in> set (segs b). readable m s" "length pat + i \<le> seg_sum (segs b)"
  shows "\<exists>x. mbuffer_ncmp b i pat m = Some x \<and> (x = 0 \<longleftrightarrow> occurs_at pat (bytes m (segs b)) i)"
  using assms ncmp_loop_bytes [of "segs b" m 0 0 i pat] length_bytes [OF assms(1)]
  by (simp add: mbuffer_ncmp_def memcmp_equal occurs_at_def)

lemma find_loop_first:
  assumes "\<And>i. i \<in> set ps \<Longrightarrow> \<exists>x. cmp i = Some x \<and> (x = 0 \<longleftrightarrow> P i)"
  shows "find_loop cmp ps = Some (case List.find P ps of None \<Rightarrow> - 1 | Some i \<Rightarrow> int i)"
  using assms by (induction ps) fastforce+

end
