(* ===== verification/BufferSpec.thy ===== *)
theory BufferSpec
  imports BufferRead
begin

text \<open>
  The invariant of the memory under a multiset of live segments, \<open>world_ok\<close>: the blocks that
  segments own belong to one segment only, and every page of the pool counts its segments
  and has them all below its offset. The lemmas show what the operations on one
  segment do to it, and that the bytes of all others stay.
  Here the system grants every request.
\<close>

section \<open>The invariant\<close>

definition owned :: "seg \<Rightarrow> block set" where
  "owned s = fst ` set_option (base_ptr s)"

definition uses :: "seg \<Rightarrow> block set" where
  "uses s = fst ` set_option (seg_ptr s)"

definition pool_blocks :: "mem \<Rightarrow> block set" where
  "pool_blocks m = {b. \<exists>p e. pool m = Some p \<and> e \<in> set (array p) \<and> addr e = Some b}"

definition in_pool :: "mem \<Rightarrow> seg \<Rightarrow> bool" where
  "in_pool m s \<longleftrightarrow> (\<exists>p i b off. pool m = Some p \<and> seg_idx s = int i \<and> i < length (array p) \<and>
     addr (array p ! i) = Some b \<and> seg_ptr s = Some (b, off) \<and> off + seg_len s \<le> eoffset (array p ! i))"

definition outside_pool :: "mem \<Rightarrow> seg \<Rightarrow> bool" where
  "outside_pool m s \<longleftrightarrow> (owned s \<union> uses s) \<inter> pool_blocks m = {} \<and>
     (\<forall>b off. base_ptr s = Some (b, off) \<longrightarrow> off = 0 \<and> b \<in> dom (blocks m))"

definition seg_ok :: "mem \<Rightarrow> seg \<Rightarrow> bool" where
  "seg_ok m s \<longleftrightarrow> readable m s \<and>
     (if seg_memcache s then \<not> is_attach s \<and> base_ptr s = None \<and> in_pool m s
      else outside_pool m s \<and>
        (\<not> is_attach s \<longrightarrow> seg_idx s = - 1 \<and> base_ptr s \<noteq> None \<and> owned s = uses s))"

definition apart :: "seg \<Rightarrow> seg \<Rightarrow> bool" where
  "apart s t \<longleftrightarrow> owned s \<inter> (owned t \<union> uses t) = {} \<and> owned t \<inter> uses s = {}"

definition all_apart :: "seg multiset \<Rightarrow> bool" where
  "all_apart W \<longleftrightarrow> (\<forall>s \<in># W. \<forall>t \<in># W - {#s#}. apart s t)"

definition entry_ok :: "mem \<Rightarrow> entry \<Rightarrow> bool" where
  "entry_ok m e \<longleftrightarrow> (\<exists>b bs. addr e = Some b \<and> blocks m b = Some bs \<and> length bs = esize e) \<and>
     eoffset e \<le> esize e \<and> BUFFER_SEG_SIZE \<le> esize e \<and> 0 \<le> ref e \<and> (ref e = 0 \<longrightarrow> eoffset e = 0)"

definition users :: "seg multiset \<Rightarrow> nat \<Rightarrow> nat" where
  "users W i = size {#s \<in># W. seg_memcache s \<and> seg_idx s = int i#}"

definition pool_ok :: "mem \<Rightarrow> seg multiset \<Rightarrow> bool" where
  "pool_ok m W \<longleftrightarrow> (\<forall>p. pool m = Some p \<longrightarrow>
     cur_entry p < length (array p) \<and> (\<forall>e \<in> set (array p). entry_ok m e) \<and> distinct (map addr (array p)) \<and>
     (\<forall>i < length (array p). ref (array p ! i) = int (users W i)))"

definition world_ok :: "mem \<Rightarrow> seg multiset \<Rightarrow> bool" where
  "world_ok m W \<longleftrightarrow> (\<forall>k. grants m k \<and> small_grants m k) \<and> dom (blocks m) \<subseteq> {..<asked m} \<and>
     (use_memcache m \<longrightarrow> pool m \<noteq> None) \<and> pool_ok m W \<and> (\<forall>s \<in># W. seg_ok m s) \<and> all_apart W"

lemma world_okD:
  assumes "world_ok m W"
  shows "grants m k" "small_grants m k" "dom (blocks m) \<subseteq> {..<asked m}" "use_memcache m \<Longrightarrow> pool m \<noteq> None"
    "pool_ok m W" "s \<in># W \<Longrightarrow> seg_ok m s" "s \<in># W \<Longrightarrow> readable m s" "all_apart W"
  using assms by (auto simp: world_ok_def seg_ok_def)

lemma apart_sym: "apart s t \<Longrightarrow> apart t s"
  by (auto simp: apart_def)

lemma all_apart_add [simp]: "all_apart (add_mset s W) \<longleftrightarrow> all_apart W \<and> (\<forall>t \<in># W. apart s t)"
proof (intro iffI conjI ballI)
  assume *: "all_apart (add_mset s W)"
  show "all_apart W"
    unfolding all_apart_def
  proof (intro ballI)
    fix x t assume "x \<in># W" "t \<in># W - {#x#}"
    then obtain V where "W = add_mset x V" "t \<in># V"
      by (auto dest: multi_member_split)
    then show "apart x t"
      using * by (simp add: all_apart_def add_mset_commute)
  qed
  show "apart s t" if "t \<in># W" for t
    using * that by (auto simp: all_apart_def)
next
  assume *: "all_apart W \<and> (\<forall>t \<in># W. apart s t)"
  show "all_apart (add_mset s W)"
    unfolding all_apart_def
  proof (intro ballI)
    fix x t assume x: "x \<in># add_mset s W" and t: "t \<in># add_mset s W - {#x#}"
    show "apart x t"
    proof (cases "x = s")
      case True
      then show ?thesis using * t by simp
    next
      case False
      then obtain V where V: "W = add_mset x V"
        using x by (auto dest: multi_member_split)
      then have "t = s \<or> t \<in># V"
        using t by (simp add: add_mset_commute)
      then show ?thesis
        using * V apart_sym by (auto simp: all_apart_def)
    qed
  qed
qed

lemma users_add [simp]:
  "users (add_mset s W) i = (if seg_memcache s \<and> seg_idx s = int i then Suc (users W i) else users W i)"
  by (simp add: users_def)

lemma world_mono: "world_ok m (add_mset s W) \<Longrightarrow> \<not> seg_memcache s \<Longrightarrow> world_ok m W"
  by (auto simp: world_ok_def pool_ok_def)

text \<open>What the invariant says of a block is whether it is there, and its length.\<close>

definition same_shape :: "mem \<Rightarrow> mem \<Rightarrow> bool" where
  "same_shape m m' \<longleftrightarrow> (\<exists>B. m' = m\<lparr>blocks := B\<rparr> \<and> (\<forall>b. map_option length (B b) = map_option length (blocks m b)))"

lemma same_shape_blocks:
  assumes "same_shape m m'"
  shows "dom (blocks m') = dom (blocks m)"
    "(\<exists>bs. blocks m' b = Some bs \<and> n \<le> length bs) \<longleftrightarrow> (\<exists>bs. blocks m b = Some bs \<and> n \<le> length bs)"
    "(\<exists>bs. blocks m' b = Some bs \<and> length bs = n) \<longleftrightarrow> (\<exists>bs. blocks m b = Some bs \<and> length bs = n)"
proof -
  obtain B where B: "m' = m\<lparr>blocks := B\<rparr>" "\<And>b. map_option length (B b) = map_option length (blocks m b)"
    using assms by (auto simp: same_shape_def)
  have *: "blocks m' b = None \<longleftrightarrow> blocks m b = None" for b
    using B(2) [of b] B(1) by (cases "blocks m b"; cases "B b") auto
  then show "dom (blocks m') = dom (blocks m)"
    unfolding dom_def by simp
  show "(\<exists>bs. blocks m' b = Some bs \<and> n \<le> length bs) \<longleftrightarrow> (\<exists>bs. blocks m b = Some bs \<and> n \<le> length bs)"
    "(\<exists>bs. blocks m' b = Some bs \<and> length bs = n) \<longleftrightarrow> (\<exists>bs. blocks m b = Some bs \<and> length bs = n)"
    using B(2) [of b] B(1) by (cases "blocks m b"; cases "B b"; auto)+
qed

lemma readable_iff:
  "readable m s \<longleftrightarrow> seg_type s = BUFFER_RW \<and> 0 < seg_len s \<and>
     (\<exists>b off bs. seg_ptr s = Some (b, off) \<and> blocks m b = Some bs \<and> off + seg_len s \<le> length bs)"
  by (auto simp: readable_def peek_def split: option.splits)

lemma world_same_shape:
  assumes "same_shape m m'" "world_ok m W"
  shows "world_ok m' W"
proof -
  have r: "readable m' s \<longleftrightarrow> readable m s" for s
    using same_shape_blocks(2) [OF assms(1)] by (auto simp: readable_iff)
  have f: "pool m' = pool m" "asked m' = asked m" "grants m' = grants m" "small_grants m' = small_grants m"
    "use_memcache m' = use_memcache m"
    using assms(1) by (auto simp: same_shape_def)
  have e: "entry_ok m' e \<longleftrightarrow> entry_ok m e" for e
    using same_shape_blocks(3) [OF assms(1)] by (auto simp: entry_ok_def)
  have s: "seg_ok m' s \<longleftrightarrow> seg_ok m s" for s
    by (simp add: seg_ok_def r f in_pool_def outside_pool_def pool_blocks_def same_shape_blocks(1) [OF assms(1)])
  show ?thesis
    using assms(2) by (simp add: world_ok_def pool_ok_def f e s same_shape_blocks(1) [OF assms(1)])
qed

section \<open>Writing\<close>

lemma length_overwrite [simp]:
  "off + length ds \<le> length bs \<Longrightarrow> length (overwrite off ds bs) = length bs"
  by (simp add: overwrite_def)

lemma nth_overwrite:
  "off + length ds \<le> length bs \<Longrightarrow> i < length bs \<Longrightarrow>
     overwrite off ds bs ! i = (if off \<le> i \<and> i < off + length ds then ds ! (i - off) else bs ! i)"
  by (auto simp: overwrite_def nth_append min_def)

lemma overwrite_inside:
  "k + length ds \<le> n \<Longrightarrow> off + n \<le> length bs \<Longrightarrow>
     take n (drop off (overwrite (off + k) ds bs)) = overwrite k ds (take n (drop off bs))"
  by (rule nth_equalityI) (auto simp: nth_overwrite)

lemma overwrite_outside:
  "p + length ds \<le> length bs \<Longrightarrow> off + n \<le> length bs \<Longrightarrow> off + n \<le> p \<or> p + length ds \<le> off \<Longrightarrow>
     take n (drop off (overwrite p ds bs)) = take n (drop off bs)"
  by (rule nth_equalityI) (auto simp: nth_overwrite)

lemma overwrite_all [simp]: "length ds = length bs \<Longrightarrow> overwrite 0 ds bs = ds"
  by (simp add: overwrite_def)

text \<open>The parts of memory of two segments do not overlap.\<close>

definition clear_of :: "seg \<Rightarrow> seg \<Rightarrow> bool" where
  "clear_of s t \<longleftrightarrow> (\<forall>b off b' off'. seg_ptr s = Some (b, off) \<longrightarrow> seg_ptr t = Some (b', off') \<longrightarrow>
     b \<noteq> b' \<or> off + seg_len s \<le> off' \<or> off' + seg_len t \<le> off)"

lemma seg_bytes_iff:
  "seg_ptr s = Some (b, off) \<Longrightarrow> blocks m b = Some bs \<Longrightarrow> off + seg_len s \<le> length bs \<Longrightarrow>
     seg_bytes m s = take (seg_len s) (drop off bs)"
  by (simp add: seg_bytes_def peek_def)

lemma poke_ok:
  assumes "readable m s" "k + length d \<le> seg_len s"
  shows "\<exists>m'. poke (map_option (\<lambda>(b, off). (b, off + k)) (seg_ptr s)) d m = Some m' \<and> same_shape m m' \<and>
    seg_bytes m' s = overwrite k d (seg_bytes m s) \<and>
    (\<forall>t. readable m t \<and> clear_of s t \<longrightarrow> seg_bytes m' t = seg_bytes m t)"
proof -
  obtain b off bs where p: "seg_ptr s = Some (b, off)" "blocks m b = Some bs" "off + seg_len s \<le> length bs"
    using assms(1) by (auto simp: readable_iff)
  show ?thesis
  proof (cases "d = []")
    case True
    then show ?thesis
      by (simp add: poke_def same_shape_def overwrite_def exI [of _ "blocks m"])
  next
    case False
    define m' where "m' = m\<lparr>blocks := (blocks m)(b \<mapsto> overwrite (off + k) d bs)\<rparr>"
    have "poke (map_option (\<lambda>(b, off). (b, off + k)) (seg_ptr s)) d m = Some m'"
      using False p assms(2) by (simp add: poke_def m'_def)
    moreover have "same_shape m m'"
      using p assms(2) by (auto simp: same_shape_def m'_def intro!: exI [of _ "(blocks m)(b \<mapsto> overwrite (off + k) d bs)"])
    moreover have "seg_bytes m' s = overwrite k d (seg_bytes m s)"
      using p assms(2) seg_bytes_iff [of s b off m' "overwrite (off + k) d bs"]
      by (simp add: m'_def seg_bytes_iff [of s b off m bs] overwrite_inside)
    moreover have "seg_bytes m' t = seg_bytes m t" if t: "readable m t" "clear_of s t" for t
    proof -
      obtain b' off' bs' where q: "seg_ptr t = Some (b', off')" "blocks m b' = Some bs'" "off' + seg_len t \<le> length bs'"
        using t(1) by (auto simp: readable_iff)
      show ?thesis
      proof (cases "b' = b")
        case True
        then have "seg_bytes m' t = take (seg_len t) (drop off' (overwrite (off + k) d bs))"
          using q p assms(2) by (intro seg_bytes_iff) (auto simp: m'_def)
        then show ?thesis
          using True q p assms(2) t(2) seg_bytes_iff [OF q(1,2,3)]
          by (auto simp: clear_of_def overwrite_outside)
      next
        case False
        then show ?thesis
          using q seg_bytes_iff [OF q(1,2,3)] seg_bytes_iff [of t b' off' m' bs'] by (simp add: m'_def)
      qed
    qed
    ultimately show ?thesis by blast
  qed
qed

lemma poke_whole:
  assumes "readable m s" "length d = seg_len s"
  shows "\<exists>m'. poke (seg_ptr s) d m = Some m' \<and> same_shape m m' \<and> seg_bytes m' s = d \<and>
    (\<forall>t. readable m t \<and> clear_of s t \<longrightarrow> seg_bytes m' t = seg_bytes m t)"
proof -
  have "map_option (\<lambda>(b, off). (b, off + 0)) (seg_ptr s) = seg_ptr s"
    by (cases "seg_ptr s") auto
  then show ?thesis
    using poke_ok [of m s 0 d] assms by simp
qed

section \<open>A part of a segment\<close>

lemma world_part:
  assumes "world_ok m (add_mset s W)" "k + l \<le> seg_len s" "0 < l"
  shows "world_ok m (add_mset (s\<lparr>seg_ptr := map_option (\<lambda>(b, off). (b, off + k)) (seg_ptr s), seg_len := l\<rparr>) W)"
    and "seg_bytes m (s\<lparr>seg_ptr := map_option (\<lambda>(b, off). (b, off + k)) (seg_ptr s), seg_len := l\<rparr>) =
      take l (drop k (seg_bytes m s))"
proof -
  let ?s = "s\<lparr>seg_ptr := map_option (\<lambda>(b, off). (b, off + k)) (seg_ptr s), seg_len := l\<rparr>"
  have r: "readable m s" using world_okD(7) [OF assms(1)] by simp
  show "seg_bytes m ?s = take l (drop k (seg_bytes m s))"
    using seg_part [OF r assms(2)] by (simp add: seg_bytes_def)
  obtain b off where p: "seg_ptr s = Some (b, off)"
    using readable_facts(3) [OF r] by auto
  have same: "owned ?s = owned s" "uses ?s = uses s"
    by (auto simp: owned_def uses_def p)
  have "readable m ?s"
    using r assms(2,3) by (auto simp: readable_iff)
  moreover have "in_pool m s \<Longrightarrow> in_pool m ?s"
    using assms(2) by (auto simp: in_pool_def p)
  moreover have "outside_pool m s \<Longrightarrow> outside_pool m ?s"
    by (simp add: outside_pool_def same)
  ultimately have "seg_ok m s \<Longrightarrow> seg_ok m ?s"
    by (auto simp: seg_ok_def same)
  moreover have "apart s t \<Longrightarrow> apart ?s t" for t
    by (simp add: apart_def same)
  ultimately show "world_ok m (add_mset ?s W)"
    using assms(1) by (simp add: world_ok_def pool_ok_def)
qed

lemma world_advance:
  assumes "world_ok m (add_mset s W)" "k < seg_len s"
  shows "world_ok m (add_mset (advance k s) W)" "seg_bytes m (advance k s) = drop k (seg_bytes m s)"
    "seg_len (advance k s) = seg_len s - k"
proof -
  have r: "readable m s" using world_okD(7) [OF assms(1)] by simp
  show "world_ok m (add_mset (advance k s) W)" "seg_bytes m (advance k s) = drop k (seg_bytes m s)"
    using world_part [OF assms(1), of k "seg_len s - k"] assms(2) r by (simp_all add: advance_def)
  show "seg_len (advance k s) = seg_len s - k" by (simp add: advance_def)
qed

lemma world_truncate:
  assumes "world_ok m (add_mset s W)" "0 < l" "l \<le> seg_len s"
  shows "world_ok m (add_mset (s\<lparr>seg_len := l\<rparr>) W)" "seg_bytes m (s\<lparr>seg_len := l\<rparr>) = take l (seg_bytes m s)"
proof -
  have "map_option (\<lambda>(b, off). (b, off + 0)) (seg_ptr s) = seg_ptr s"
    by (cases "seg_ptr s") auto
  then show "world_ok m (add_mset (s\<lparr>seg_len := l\<rparr>) W)" "seg_bytes m (s\<lparr>seg_len := l\<rparr>) = take l (seg_bytes m s)"
    using world_part [OF assms(1), of 0 l] assms(2,3) by simp_all
qed

section \<open>Freeing\<close>

lemma blocks_free:
  assumes w: "world_ok m (add_mset s W)" and s: "\<not> seg_memcache s" "base_ptr s = Some (b, off)"
  shows "\<exists>m'. yfree (base_ptr s) m = Some m' \<and> world_ok m' W \<and> (\<forall>t \<in># W. seg_bytes m' t = seg_bytes m t) \<and>
    use_memcache m' = use_memcache m"
proof -
  have ok: "outside_pool m s"
    using world_okD(6) [OF w, of s] s by (simp add: seg_ok_def split: if_splits)
  then have b: "off = 0" "b \<in> dom (blocks m)" "b \<notin> pool_blocks m"
    using s(2) by (auto simp: outside_pool_def owned_def)
  define m' where "m' = m\<lparr>blocks := (blocks m)(b := None)\<rparr>"
  have free: "yfree (base_ptr s) m = Some m'"
    using s b by (auto simp: yfree_def m'_def)
  have t: "b \<notin> uses t" "b \<notin> owned t" if "t \<in># W" for t
    using world_okD(8) [OF w] that s by (auto simp: apart_def owned_def)
  have same: "peek (seg_ptr t) (seg_len t) m' = peek (seg_ptr t) (seg_len t) m" if "b \<notin> uses t" for t
    using that by (auto simp: peek_def m'_def uses_def split: option.splits)
  have r: "readable m' t \<longleftrightarrow> readable m t" if "t \<in># W" for t
    using same [OF t(1) [OF that]] by (simp add: readable_def)
  have ip: "in_pool m' t \<longleftrightarrow> in_pool m t" "pool_blocks m' = pool_blocks m" for t
    by (simp_all add: in_pool_def pool_blocks_def m'_def)
  have op: "outside_pool m t \<Longrightarrow> t \<in># W \<Longrightarrow> outside_pool m' t" for t
    using t(2) [of t] unfolding outside_pool_def ip by (auto simp: owned_def m'_def)
  have "entry_ok m e \<Longrightarrow> e \<in> set (array p) \<Longrightarrow> pool m = Some p \<Longrightarrow> entry_ok m' e" for e p
    using b(3) by (auto simp: entry_ok_def m'_def pool_blocks_def)
  then have "pool_ok m' W"
    using world_okD(5) [OF w] s(1) by (auto simp: pool_ok_def m'_def)
  moreover have "seg_ok m' t" if "t \<in># W" for t
    using world_okD(6) [OF w, of t] that op ip r unfolding seg_ok_def by auto
  ultimately have "world_ok m' W"
    using w by (auto simp: world_ok_def m'_def)
  moreover have "seg_bytes m' t = seg_bytes m t" if "t \<in># W" for t
    using same [OF t(1) [OF that]] by (simp add: seg_bytes_def)
  ultimately show ?thesis
    using free by (auto simp: m'_def)
qed

text \<open>An entry of the pool changes, but not its block.\<close>

lemma pool_blocks_eq: "pool m = Some p \<Longrightarrow> pool_blocks m = {b. Some b \<in> set (map addr (array p))}"
  by (auto simp: pool_blocks_def image_iff) (metis)+

lemma world_repool:
  assumes w: "world_ok m W" and p: "pool m = Some p" and m': "m' = m\<lparr>pool := Some p'\<rparr>"
    and a: "map addr (array p') = map addr (array p)" "cur_entry p' < length (array p')"
    and e: "\<forall>e \<in> set (array p'). entry_ok m e" "\<forall>i < length (array p'). ref (array p' ! i) = int (users W' i)"
    and s: "\<forall>s \<in># W'. seg_ok m s \<or> (seg_memcache s \<and> readable m s \<and> \<not> is_attach s \<and> base_ptr s = None)"
      "\<forall>s \<in># W'. seg_memcache s \<longrightarrow> in_pool m' s" "all_apart W'"
  shows "world_ok m' W'"
proof -
  have b: "pool_blocks m' = pool_blocks m"
    using pool_blocks_eq [OF p] pool_blocks_eq [of m' p'] a(1) by (simp add: m')
  have "entry_ok m' e \<longleftrightarrow> entry_ok m e" "readable m' t \<longleftrightarrow> readable m t" for e t
    by (simp_all add: entry_ok_def readable_iff m')
  moreover have "outside_pool m' t \<longleftrightarrow> outside_pool m t" for t
    unfolding outside_pool_def b by (simp add: m')
  ultimately have "seg_ok m' t" if "t \<in># W'" for t
    using s that unfolding seg_ok_def by auto
  moreover have "distinct (map addr (array p'))"
    using world_okD(5) [OF w] p unfolding a(1) pool_ok_def by simp
  ultimately show ?thesis
    using w a(2) e s(3) \<open>\<And>t e. entry_ok m' e \<longleftrightarrow> entry_ok m e\<close> by (auto simp: world_ok_def pool_ok_def m')
qed

lemma with_entry_simps [simp]:
  "cur_entry (with_entry i f p) = cur_entry p" "length (array (with_entry i f p)) = length (array p)"
  "i < length (array p) \<Longrightarrow> array (with_entry i f p) ! j = (if j = i then f (array p ! i) else array p ! j)"
  by (simp_all add: with_entry_def)

lemma map_addr_with_entry: "addr (f (array p ! i)) = addr (array p ! i) \<Longrightarrow>
    map addr (array (with_entry i f p)) = map addr (array p)"
  by (simp add: with_entry_def map_update list_update_same_conv) (metis list_update_id map_update)

lemma set_with_entry: "i < length (array p) \<Longrightarrow> e \<in> set (array (with_entry i f p)) \<Longrightarrow>
    e = f (array p ! i) \<or> e \<in> set (array p)"
  by (auto simp: with_entry_def dest!: set_update_subset_insert [THEN subsetD])

lemma users_pos: "s \<in># W \<Longrightarrow> seg_memcache s \<Longrightarrow> seg_idx s = int i \<Longrightarrow> 0 < users W i"
  by (auto simp: users_def size_eq_0_iff_empty [symmetric] filter_mset_eq_conv dest!: multi_member_split)

lemma peek_other_fields [simp]:
  "peek p n (m\<lparr>pool := x\<rparr>) = peek p n m" "peek p n (m\<lparr>asked := k\<rparr>) = peek p n m"
  by (auto simp: peek_def split: option.splits)

lemma seg_bytes_other_fields [simp]:
  "seg_bytes (m\<lparr>pool := x\<rparr>) s = seg_bytes m s" "seg_bytes (m\<lparr>asked := k\<rparr>) s = seg_bytes m s"
  by (simp_all add: seg_bytes_def)

lemma drop_ref_simps [simp]:
  "addr (drop_ref e) = addr e" "esize (drop_ref e) = esize e" "ref (drop_ref e) = ref e - 1"
  "eoffset (drop_ref e) = (if ref e = 1 then 0 else eoffset e)"
  by (simp_all add: drop_ref_def Let_def)

lemma pool_deref:
  assumes w: "world_ok m (add_mset s W)" and s: "seg_memcache s"
  shows "\<exists>m'. mem_hugepage_deref (seg_idx s) m = Some m' \<and> world_ok m' W \<and>
    (\<forall>t. seg_bytes m' t = seg_bytes m t) \<and> use_memcache m' = use_memcache m"
proof -
  obtain p i b off where p: "pool m = Some p" "seg_idx s = int i" "i < length (array p)"
      "addr (array p ! i) = Some b"
    using world_okD(6) [OF w, of s] s by (auto simp: seg_ok_def in_pool_def)
  let ?e = "array p ! i" and ?p = "with_entry i drop_ref p"
  have pw: "cur_entry p < length (array p)" "\<forall>e \<in> set (array p). entry_ok m e"
      "\<forall>j < length (array p). ref (array p ! j) = int (users (add_mset s W) j)"
    using world_okD(5) [OF w] p(1) by (simp_all add: pool_ok_def)
  then have e: "entry_ok m ?e" "ref ?e = int (users W i) + 1"
    using p s by auto
  define m' where "m' = m\<lparr>pool := Some ?p\<rparr>"
  have "mem_hugepage_deref (seg_idx s) m = Some m'"
    using p e by (simp add: mem_hugepage_deref_def m'_def)
  moreover have "world_ok m' W"
  proof (rule world_repool [OF w p(1) m'_def])
    show "map addr (array ?p) = map addr (array p)"
      by (rule map_addr_with_entry) simp
    show "cur_entry ?p < length (array ?p)" using pw by simp
    show "\<forall>e \<in> set (array ?p). entry_ok m e"
      using e pw(2) by (auto dest!: set_with_entry [OF p(3)] simp: entry_ok_def)
    show "\<forall>j < length (array ?p). ref (array ?p ! j) = int (users W j)"
      using pw(3) p s e by auto
    show "\<forall>t \<in># W. seg_ok m t \<or> (seg_memcache t \<and> readable m t \<and> \<not> is_attach t \<and> base_ptr t = None)"
      using world_okD(6) [OF w] by simp
    show "all_apart W" using world_okD(8) [OF w] by simp
    show "\<forall>t \<in># W. seg_memcache t \<longrightarrow> in_pool m' t"
    proof (intro ballI impI)
      fix t assume t: "t \<in># W" "seg_memcache t"
      then have "in_pool m t"
        using world_okD(6) [OF w, of t] by (simp add: seg_ok_def)
      moreover have "seg_idx t = int i \<Longrightarrow> ref ?e \<noteq> 1"
        using users_pos [OF t] e(2) by simp
      ultimately show "in_pool m' t"
        using p(1,3) by (auto simp: in_pool_def m'_def)
    qed
  qed
  ultimately show ?thesis
    by (auto simp: m'_def)
qed

lemma world_free:
  assumes w: "world_ok m (add_mset s W)"
  shows "\<exists>m'. seg_free s m = Some m' \<and> world_ok m' W \<and> (\<forall>t \<in># W. seg_bytes m' t = seg_bytes m t) \<and>
    use_memcache m' = use_memcache m"
proof -
  have ok: "seg_ok m s" using world_okD(6) [OF w] by simp
  consider "seg_memcache s" | b off where "\<not> seg_memcache s" "base_ptr s = Some (b, off)"
    | "\<not> seg_memcache s" "base_ptr s = None" "is_attach s"
    using ok by (cases "base_ptr s") (auto simp: seg_ok_def split: if_splits)
  then show ?thesis
  proof cases
    case 1
    then show ?thesis
      using pool_deref [OF w] ok by (auto simp: seg_free_def seg_ok_def)
  next
    case 2
    then show ?thesis
      using blocks_free [OF w 2] ok by (auto simp: seg_free_def seg_ok_def)
  next
    case 3
    then show ?thesis
      using world_mono [OF w] by (simp add: seg_free_def)
  qed
qed

section \<open>Allocating\<close>

lemma world_asked: "world_ok m W \<Longrightarrow> world_ok (m\<lparr>asked := Suc (asked m)\<rparr>) W"
proof -
  have "seg_ok (m\<lparr>asked := k\<rparr>) s \<longleftrightarrow> seg_ok m s" "entry_ok (m\<lparr>asked := k\<rparr>) e \<longleftrightarrow> entry_ok m e" for k s e
    by (simp_all add: seg_ok_def readable_def in_pool_def outside_pool_def pool_blocks_def entry_ok_def)
  then show "world_ok m W \<Longrightarrow> world_ok (m\<lparr>asked := Suc (asked m)\<rparr>) W"
    by (auto simp: world_ok_def pool_ok_def)
qed

lemma small_alloc_ok:
  assumes "world_ok m W"
  shows "small_alloc m = (True, m\<lparr>asked := Suc (asked m)\<rparr>)"
  using world_okD(2) [OF assms] by (simp add: small_alloc_def)

text \<open>The header of a new segment of \<open>n\<close> bytes.\<close>

definition fresh_seg :: "nat \<Rightarrow> bool \<Rightarrow> seg" where
  "fresh_seg n attach = \<lparr>seg_type = BUFFER_RW, seg_len = n, seg_idx = - 1, seg_ptr = None,
     is_attach = attach, seg_memcache = False, base_ptr = None\<rparr>"

text \<open>A new segment, and all others as before.\<close>

definition adds :: "mem \<Rightarrow> seg multiset \<Rightarrow> seg \<Rightarrow> mem \<Rightarrow> bool" where
  "adds m W s m' \<longleftrightarrow> world_ok m' (add_mset s W) \<and> use_memcache m' = use_memcache m \<and>
     (\<forall>t \<in># W. clear_of s t \<and> seg_bytes m' t = seg_bytes m t)"

lemma alloc_normal_ok:
  assumes w: "world_ok m W" and n: "0 < n"
  shows "\<exists>s m'. seg_alloc_normal (fresh_seg n False) n m = (s, m') \<and> seg_len s = n \<and> adds m W s m'"
proof -
  let ?b = "asked m"
  define g where "g = map (garbage m ?b) [0..<n]"
  define m' where "m' = m\<lparr>blocks := (blocks m)(?b \<mapsto> g), asked := Suc ?b\<rparr>"
  define s where "s = (fresh_seg n False)\<lparr>base_ptr := Some (?b, 0), seg_ptr := Some (?b, 0)\<rparr>"
  have eq: "seg_alloc_normal (fresh_seg n False) n m = (s, m')"
    using world_okD(1) [OF w]
    by (simp add: seg_alloc_normal_def memalign_def s_def m'_def g_def fresh_seg_def Let_def)
  have fresh: "?b \<notin> dom (blocks m)" using world_okD(3) [OF w] by auto
  have old: "blocks m' b = blocks m b" if "b \<in> dom (blocks m)" for b
    using that fresh by (auto simp: m'_def)
  have e: "entry_ok m e \<Longrightarrow> entry_ok m' e" for e
    using fresh by (auto simp: entry_ok_def m'_def)
  have pb: "pool_blocks m' = pool_blocks m" by (simp add: pool_blocks_def m'_def)
  have "pool_blocks m \<subseteq> dom (blocks m)"
    using world_okD(5) [OF w] by (fastforce simp: pool_blocks_def pool_ok_def entry_ok_def)
  then have out: "?b \<notin> pool_blocks m" using fresh by blast
  have r: "readable m t \<Longrightarrow> readable m' t" for t
    using old unfolding readable_iff by (metis domI)
  have ok: "seg_ok m t \<Longrightarrow> seg_ok m' t" for t
  proof -
    have "dom (blocks m') = insert ?b (dom (blocks m))" by (simp add: m'_def)
    then have "outside_pool m t \<Longrightarrow> outside_pool m' t"
      unfolding outside_pool_def pb by auto
    moreover have "in_pool m' t \<longleftrightarrow> in_pool m t"
      by (simp add: in_pool_def m'_def)
    ultimately show "seg_ok m t \<Longrightarrow> seg_ok m' t"
      using r by (simp add: seg_ok_def split: if_splits)
  qed
  have dis: "?b \<notin> uses t" "?b \<notin> owned t" if "t \<in># W" for t
  proof -
    show "?b \<notin> uses t"
      using world_okD(7) [OF w that] fresh by (auto simp: readable_iff uses_def)
    show "?b \<notin> owned t"
      using world_okD(6) [OF w that] fresh by (auto simp: seg_ok_def owned_def outside_pool_def split: if_splits)
  qed
  have "seg_ok m' s"
    using n out by (auto simp: seg_ok_def readable_iff s_def m'_def g_def outside_pool_def owned_def uses_def
        fresh_seg_def pool_blocks_def)
  moreover have "apart s t" if "t \<in># W" for t
    using dis [OF that] by (auto simp: apart_def s_def owned_def uses_def fresh_seg_def)
  moreover have "pool_ok m' (add_mset s W)"
    using world_okD(5) [OF w] e by (auto simp: pool_ok_def m'_def s_def fresh_seg_def)
  ultimately have "world_ok m' (add_mset s W)"
    using w ok by (auto simp: world_ok_def m'_def)
  moreover have "clear_of s t" "seg_bytes m' t = seg_bytes m t" if "t \<in># W" for t
  proof -
    show "clear_of s t"
      using dis(1) [OF that] by (auto simp: clear_of_def s_def fresh_seg_def uses_def)
    show "seg_bytes m' t = seg_bytes m t"
      using dis(1) [OF that] world_okD(7) [OF w that]
      by (auto simp: readable_iff uses_def m'_def seg_bytes_def peek_def)
  qed
  ultimately show ?thesis
    using eq by (auto simp: adds_def s_def fresh_seg_def m'_def)
qed

lemma page_round_bounds: "n \<le> page_round n" "n \<le> BUFFER_SEG_SIZE \<Longrightarrow> page_round n \<le> BUFFER_SEG_SIZE"
proof -
  have d: "n = 4096 * (n div 4096) + n mod 4096" "n mod 4096 < 4096" by simp_all
  then show "n \<le> page_round n"
    unfolding page_round_def PAGE_SIZE_def by auto
  show "page_round n \<le> BUFFER_SEG_SIZE" if "n \<le> BUFFER_SEG_SIZE"
  proof (cases "n mod 4096 = 0")
    case False
    then have "n div 4096 < 256"
      using that d unfolding BUFFER_SEG_SIZE_def by linarith
    then show ?thesis
      using that by (simp add: page_round_def PAGE_SIZE_def BUFFER_SEG_SIZE_def)
  qed (use that in \<open>simp add: page_round_def PAGE_SIZE_def\<close>)
qed

lemma world_fill:
  assumes w: "world_ok m W" and p: "pool m = Some p" "i < length (array p)" "ref (array p ! i) > 0"
  shows "world_ok (m\<lparr>pool := Some (with_entry i (\<lambda>e. e\<lparr>eoffset := esize e\<rparr>) p)\<rparr>) W"
proof (rule world_repool [OF w p(1) refl])
  let ?p = "with_entry i (\<lambda>e. e\<lparr>eoffset := esize e\<rparr>) p"
  have pw: "cur_entry p < length (array p)" "\<forall>e \<in> set (array p). entry_ok m e"
      "\<forall>j < length (array p). ref (array p ! j) = int (users W j)"
    using world_okD(5) [OF w] p(1) by (simp_all add: pool_ok_def)
  show "map addr (array ?p) = map addr (array p)"
    by (rule map_addr_with_entry) simp
  show "cur_entry ?p < length (array ?p)" using pw by simp
  show "\<forall>e \<in> set (array ?p). entry_ok m e"
    using pw(2) p by (auto dest!: set_with_entry [OF p(2)] simp: entry_ok_def)
  show "\<forall>j < length (array ?p). ref (array ?p ! j) = int (users W j)"
    using pw(3) p(2) by auto
  show "\<forall>t \<in># W. seg_ok m t \<or> (seg_memcache t \<and> readable m t \<and> \<not> is_attach t \<and> base_ptr t = None)"
    using world_okD(6) [OF w] by simp
  show "all_apart W" using world_okD(8) [OF w] .
  have "entry_ok m (array p ! i)" using pw(2) p(2) by simp
  then have "eoffset (array p ! i) \<le> esize (array p ! i)" by (simp add: entry_ok_def)
  then show "\<forall>t \<in># W. seg_memcache t \<longrightarrow> in_pool (m\<lparr>pool := Some ?p\<rparr>) t"
    using world_okD(6) [OF w] p(1,2) by (fastforce simp: seg_ok_def in_pool_def)
qed

lemma world_cur:
  assumes w: "world_ok m W" and p: "pool m = Some p" "i < length (array p)"
  shows "world_ok (m\<lparr>pool := Some (p\<lparr>cur_entry := i\<rparr>)\<rparr>) W"
proof -
  have "in_pool (m\<lparr>pool := Some (p\<lparr>cur_entry := i\<rparr>)\<rparr>) t \<longleftrightarrow> in_pool m t" for t
    using p by (simp add: in_pool_def)
  then show ?thesis
    by (intro world_repool [OF w p(1) refl])
      (use world_okD(5,6,8) [OF w] p in \<open>auto simp: pool_ok_def seg_ok_def\<close>)
qed

text \<open>Taking a part of the current page.\<close>

definition taken :: "nat \<Rightarrow> entry \<Rightarrow> entry" where
  "taken n e = e\<lparr>eoffset := eoffset e + page_round n, ref := ref e + 1\<rparr>"

lemma world_take:
  assumes w: "world_ok m W" and p: "pool m = Some p" and i: "i = cur_entry p"
    and room: "eoffset (array p ! i) + page_round n \<le> esize (array p ! i)" and n: "0 < n"
    and b: "addr (array p ! i) = Some b"
    and s: "s = (fresh_seg n False)\<lparr>seg_idx := int i, seg_ptr := Some (b, eoffset (array p ! i)), seg_memcache := True\<rparr>"
  shows "adds m W s (m\<lparr>pool := Some (with_entry i (taken n) p)\<rparr>)"
proof -
  let ?p = "with_entry i (taken n) p" and ?e = "array p ! i"
  define m' where "m' = m\<lparr>pool := Some ?p\<rparr>"
  have pw: "cur_entry p < length (array p)" "\<forall>e \<in> set (array p). entry_ok m e" "distinct (map addr (array p))"
      "\<forall>j < length (array p). ref (array p ! j) = int (users W j)"
    using world_okD(5) [OF w] p(1) by (simp_all add: pool_ok_def)
  have i': "i < length (array p)" using pw i by simp
  have e: "entry_ok m ?e" using pw(2) i' by simp
  have bp: "b \<in> pool_blocks m"
    using p b i' by (auto simp: pool_blocks_def intro: nth_mem)
  have same_page: "seg_idx t = int i \<and> off + seg_len t \<le> eoffset ?e"
    if t: "t \<in># W" "seg_ptr t = Some (b, off)" for t off
  proof -
    have "in_pool m t"
      using bp world_okD(6) [OF w t(1)] t(2) by (auto simp: seg_ok_def outside_pool_def uses_def split: if_splits)
    then obtain j where j: "seg_idx t = int j" "j < length (array p)" "addr (array p ! j) = Some b"
        "off + seg_len t \<le> eoffset (array p ! j)"
      using p t(2) by (auto simp: in_pool_def)
    then have "j = i"
      using nth_eq_iff_index_eq [OF pw(3), of j i] i' b by simp
    then show ?thesis using j by simp
  qed
  have ap: "apart s t" if "t \<in># W" for t
  proof -
    have "b \<notin> owned t"
      using world_okD(6) [OF w that] bp by (auto simp: owned_def seg_ok_def outside_pool_def split: if_splits)
    then show ?thesis
      by (auto simp: apart_def s owned_def uses_def fresh_seg_def)
  qed
  have "world_ok m' (add_mset s W)"
  proof (rule world_repool [OF w p(1) m'_def])
    show "map addr (array ?p) = map addr (array p)"
      by (rule map_addr_with_entry) (simp add: taken_def)
    show "cur_entry ?p < length (array ?p)" using pw by simp
    show "\<forall>e \<in> set (array ?p). entry_ok m e"
      using e pw(2) room by (auto dest!: set_with_entry [OF i'] simp: entry_ok_def taken_def)
    show "\<forall>j < length (array ?p). ref (array ?p ! j) = int (users (add_mset s W) j)"
      using pw(4) i' s by (auto simp: taken_def fresh_seg_def)
    have "readable m s"
      using e room b n s page_round_bounds(1) [of n]
      by (auto simp: readable_iff fresh_seg_def entry_ok_def)
    then show "\<forall>t \<in># add_mset s W. seg_ok m t \<or> (seg_memcache t \<and> readable m t \<and> \<not> is_attach t \<and> base_ptr t = None)"
      using world_okD(6) [OF w] s by (simp add: fresh_seg_def)
    show "all_apart (add_mset s W)" using world_okD(8) [OF w] ap by simp
    have "in_pool m' s"
      using i' s b page_round_bounds(1) [of n] by (simp add: in_pool_def m'_def fresh_seg_def taken_def)
    moreover have "in_pool m' t" if "t \<in># W" "seg_memcache t" for t
    proof -
      have "in_pool m t" using world_okD(6) [OF w that(1)] that(2) by (simp add: seg_ok_def)
      then show ?thesis using p i' by (fastforce simp: in_pool_def m'_def taken_def)
    qed
    ultimately show "\<forall>t \<in># add_mset s W. seg_memcache t \<longrightarrow> in_pool m' t"
      by auto
  qed
  moreover have "clear_of s t" if "t \<in># W" for t
    using same_page [OF that] s by (auto simp: clear_of_def fresh_seg_def)
  ultimately show ?thesis
    by (simp add: adds_def m'_def)
qed

lemma take_part_eq:
  assumes "0 < n"
  shows "take_part n e = (if eoffset e + page_round n \<le> esize e then (Some (eoffset e), taken n e)
    else (None, e\<lparr>eoffset := esize e\<rparr>))"
  using assms page_round_bounds(1) [of n] by (auto simp: take_part_def taken_def Let_def)

lemma new_part_room:
  assumes "0 < n" "eoffset (array p ! cur_entry p) + page_round n \<le> esize (array p ! cur_entry p)"
  shows "new_part p n = Some (Inr (int (cur_entry p), map_option (\<lambda>b. (b, eoffset (array p ! cur_entry p)))
    (addr (array p ! cur_entry p))), with_entry (cur_entry p) (taken n) p)"
  using assms
  by (subst new_part.simps) (simp add: take_part_eq with_entry_def taken_def)

lemma new_part_full:
  assumes "0 < n" "\<not> eoffset (array p ! cur_entry p) + page_round n \<le> esize (array p ! cur_entry p)"
  shows "new_part p n = (let p = with_entry (cur_entry p) (\<lambda>e. e\<lparr>eoffset := esize e\<rparr>) p in
    case mem_hugepage_next p of None \<Rightarrow> Some (Inl EBUSY, p) | Some p \<Rightarrow> new_part p n)"
  using assms
  by (subst new_part.simps)
    (simp add: take_part_eq with_entry_def Let_def)

lemma next_Some:
  "mem_hugepage_next p = Some p' \<Longrightarrow>
     \<exists>j < length (array p). p' = p\<lparr>cur_entry := j\<rparr> \<and> ref (array p ! j) = 0"
  by (auto simp: mem_hugepage_next_def Let_def find_Some_iff split: option.splits)
    (metis length_pos_if_in_set less_nat_zero_code mod_less_divisor gr_zeroI)

lemma entry_room:
  assumes "world_ok m W" "pool m = Some p" "i < length (array p)"
  shows "entry_ok m (array p ! i)" "ref (array p ! i) = 0 \<Longrightarrow> n \<le> BUFFER_SEG_SIZE \<Longrightarrow>
    eoffset (array p ! i) + page_round n \<le> esize (array p ! i)"
proof -
  show e: "entry_ok m (array p ! i)"
    using world_okD(5) [OF assms(1)] assms(2,3) by (simp add: pool_ok_def)
  show "ref (array p ! i) = 0 \<Longrightarrow> n \<le> BUFFER_SEG_SIZE \<Longrightarrow>
    eoffset (array p ! i) + page_round n \<le> esize (array p ! i)"
    using e page_round_bounds(2) [of n] by (simp add: entry_ok_def)
qed

definition page_seg :: "nat \<Rightarrow> int \<Rightarrow> pointer option \<Rightarrow> seg" where
  "page_seg n idx p = (fresh_seg n False)\<lparr>seg_idx := idx, seg_ptr := p, seg_memcache := True\<rparr>"

lemma page_taken:
  assumes w: "world_ok m W" and p: "pool m = Some p" and n: "0 < n"
    and room: "eoffset (array p ! cur_entry p) + page_round n \<le> esize (array p ! cur_entry p)"
  shows "\<exists>idx b off p'. new_part p n = Some (Inr (idx, Some (b, off)), p') \<and> 0 \<le> idx \<and>
    adds m W (page_seg n idx (Some (b, off))) (m\<lparr>pool := Some p'\<rparr>)"
proof -
  have "cur_entry p < length (array p)"
    using world_okD(5) [OF w] p by (simp add: pool_ok_def)
  then obtain b where b: "addr (array p ! cur_entry p) = Some b"
    using entry_room(1) [OF w p] by (auto simp: entry_ok_def)
  show ?thesis
    using new_part_room [OF n room] world_take [OF w p refl room n b refl] b by (simp add: page_seg_def)
qed

lemma hugepage_new_ok:
  assumes w: "world_ok m W" and p: "pool m = Some p" and n: "0 < n" "n \<le> BUFFER_SEG_SIZE"
  shows "(\<exists>p'. mem_hugepage_new n m = Some (Inl EBUSY, m\<lparr>pool := Some p'\<rparr>) \<and> world_ok (m\<lparr>pool := Some p'\<rparr>) W) \<or>
    (\<exists>idx q m'. mem_hugepage_new n m = Some (Inr (idx, Some q), m') \<and> 0 \<le> idx \<and>
      adds m W (page_seg n idx (Some q)) m')"
proof (cases "eoffset (array p ! cur_entry p) + page_round n \<le> esize (array p ! cur_entry p)")
  case True
  then show ?thesis
    using page_taken [OF w p n(1)] p by (auto simp: mem_hugepage_new_def)
next
  case False
  let ?c = "cur_entry p" and ?p = "with_entry (cur_entry p) (\<lambda>e. e\<lparr>eoffset := esize e\<rparr>) p"
  have c: "?c < length (array p)"
    using world_okD(5) [OF w] p by (simp add: pool_ok_def)
  have "ref (array p ! ?c) > 0"
    using entry_room(1) [OF w p c] entry_room(2) [OF w p c _ n(2)] False by (auto simp: entry_ok_def less_le)
  then have w1: "world_ok (m\<lparr>pool := Some ?p\<rparr>) W"
    by (rule world_fill [OF w p c])
  show ?thesis
  proof (cases "mem_hugepage_next ?p")
    case None
    then have "new_part p n = Some (Inl EBUSY, ?p)"
      using new_part_full [OF n(1) False] by (simp add: Let_def)
    then show ?thesis
      using w1 p by (intro disjI1 exI [of _ ?p]) (simp add: mem_hugepage_new_def)
  next
    case (Some p2)
    then have eq: "new_part p n = new_part p2 n"
      using new_part_full [OF n(1) False] by (simp add: Let_def)
    obtain j where j: "j < length (array ?p)" "p2 = ?p\<lparr>cur_entry := j\<rparr>" "ref (array ?p ! j) = 0"
      using next_Some [OF Some] by auto
    have w2: "world_ok (m\<lparr>pool := Some p2\<rparr>) W"
      using world_cur [OF w1, of ?p j] j by simp
    have "eoffset (array p2 ! cur_entry p2) + page_round n \<le> esize (array p2 ! cur_entry p2)"
      by (rule entry_room(2) [OF w2]) (use j n in simp_all)
    from page_taken [OF w2 _ n(1) this] obtain idx b off p' where
      r: "new_part p2 n = Some (Inr (idx, Some (b, off)), p')" "0 \<le> idx"
        "adds m W (page_seg n idx (Some (b, off))) (m\<lparr>pool := Some p'\<rparr>)"
      by (auto simp: adds_def)
    then show ?thesis
      using eq p by (auto simp: mem_hugepage_new_def)
  qed
qed

lemma seg_alloc_ok:
  assumes w: "world_ok m W" and n: "0 < n" "n \<le> BUFFER_SEG_SIZE"
  shows "\<exists>s m'. seg_alloc n m = Some (Some s, m') \<and> seg_len s = n \<and> adds m W s m'"
proof -
  let ?m = "m\<lparr>asked := Suc (asked m)\<rparr>"
  have w1: "world_ok ?m W" by (rule world_asked [OF w])
  have h: "seg_alloc0 n False m = Some (Some (fresh_seg n False), ?m)"
    using n by (simp add: seg_alloc0_def small_alloc_ok [OF w] fresh_seg_def)
  have asked: "adds ?m W s m' \<Longrightarrow> adds m W s m'" for s m'
    by (simp add: adds_def)
  obtain s m' where normal: "seg_alloc_normal (fresh_seg n False) n ?m = (s, m')" "seg_len s = n" "adds ?m W s m'"
    using alloc_normal_ok [OF w1 n(1)] by blast
  show ?thesis
  proof (cases "use_memcache m")
    case False
    then show ?thesis
      using h normal asked by (simp add: seg_alloc_def)
  next
    case True
    then obtain p where p: "pool ?m = Some p"
      using world_okD(4) [OF w] by auto
    from hugepage_new_ok [OF w1 p n] show ?thesis
    proof (elim disjE exE conjE)
      fix p' assume a: "mem_hugepage_new n ?m = Some (Inl EBUSY, ?m\<lparr>pool := Some p'\<rparr>)" "world_ok (?m\<lparr>pool := Some p'\<rparr>) W"
      obtain s m' where "seg_alloc_normal (fresh_seg n False) n (?m\<lparr>pool := Some p'\<rparr>) = (s, m')" "seg_len s = n"
          "adds (?m\<lparr>pool := Some p'\<rparr>) W s m'"
        using alloc_normal_ok [OF a(2) n(1)] by blast
      then show ?thesis
        using h a True by (simp add: seg_alloc_def seg_alloc1_def adds_def)
    next
      fix idx q m' assume "mem_hugepage_new n ?m = Some (Inr (idx, Some q), m')" "0 \<le> idx"
        "adds ?m W (page_seg n idx (Some q)) m'"
      then show ?thesis
        using h True asked by (auto simp: seg_alloc_def seg_alloc1_def fresh_seg_def page_seg_def)
    qed
  qed
qed

text \<open>A new segment, filled.\<close>

lemma seg_new_ok:
  assumes w: "world_ok m W" and n: "0 < length d" "length d \<le> BUFFER_SEG_SIZE"
  shows "\<exists>s m1 m'. seg_alloc (length d) m = Some (Some s, m1) \<and> poke (seg_ptr s) d m1 = Some m' \<and>
    seg_len s = length d \<and> seg_bytes m' s = d \<and> adds m W s m'"
proof -
  obtain s m1 where s: "seg_alloc (length d) m = Some (Some s, m1)" "seg_len s = length d" "adds m W s m1"
    using seg_alloc_ok [OF w n] by blast
  then have w1: "world_ok m1 (add_mset s W)" by (simp add: adds_def)
  have "readable m1 s" by (rule world_okD(7) [OF w1]) simp
  from poke_whole [OF this s(2) [symmetric]] obtain m' where
    m': "poke (seg_ptr s) d m1 = Some m'" "same_shape m1 m'" "seg_bytes m' s = d"
      "\<And>t. readable m1 t \<Longrightarrow> clear_of s t \<Longrightarrow> seg_bytes m' t = seg_bytes m1 t"
    by blast
  have "adds m W s m'"
    using s(3) m'(2,4) world_same_shape [OF m'(2) w1] world_okD(7) [OF w1]
    by (auto simp: adds_def same_shape_def)
  then show ?thesis using s m' by blast
qed

section \<open>Sharing\<close>

lemma pool_ref:
  assumes w: "world_ok m W" and s: "s \<in># W" "seg_memcache s"
    and c: "c = (fresh_seg (seg_len s) False)\<lparr>seg_memcache := True, seg_idx := seg_idx s, seg_ptr := seg_ptr s\<rparr>"
  shows "\<exists>m'. mem_hugepage_ref (seg_idx s) m = Some m' \<and> world_ok m' (add_mset c W) \<and>
    (\<forall>t. seg_bytes m' t = seg_bytes m t) \<and> use_memcache m' = use_memcache m"
proof -
  obtain p i b off where p: "pool m = Some p" "seg_idx s = int i" "i < length (array p)"
      "addr (array p ! i) = Some b" "seg_ptr s = Some (b, off)" "off + seg_len s \<le> eoffset (array p ! i)"
    using world_okD(6) [OF w s(1)] s(2) by (auto simp: seg_ok_def in_pool_def)
  let ?f = "\<lambda>e. e\<lparr>ref := ref e + 1\<rparr>"
  let ?p = "with_entry i ?f p"
  have pw: "cur_entry p < length (array p)" "\<forall>e \<in> set (array p). entry_ok m e"
      "\<forall>j < length (array p). ref (array p ! j) = int (users W j)"
    using world_okD(5) [OF w] p(1) by (simp_all add: pool_ok_def)
  then have e: "entry_ok m (array p ! i)" "ref (array p ! i) = int (users W i)"
    using p by auto
  have pos: "0 < users W i" by (rule users_pos [OF s p(2)])
  define m' where "m' = m\<lparr>pool := Some ?p\<rparr>"
  have "mem_hugepage_ref (seg_idx s) m = Some m'"
    using p e pos by (simp add: mem_hugepage_ref_def m'_def)
  moreover have "world_ok m' (add_mset c W)"
  proof (rule world_repool [OF w p(1) m'_def])
    show "map addr (array ?p) = map addr (array p)"
      by (rule map_addr_with_entry) simp
    show "cur_entry ?p < length (array ?p)" using pw by simp
    show "\<forall>e \<in> set (array ?p). entry_ok m e"
      using e pos pw(2) by (auto dest!: set_with_entry [OF p(3)] simp: entry_ok_def)
    show "\<forall>j < length (array ?p). ref (array ?p ! j) = int (users (add_mset c W) j)"
      using pw(3) p c e by auto
    have "readable m c"
      using world_okD(7) [OF w s(1)] by (auto simp: readable_iff c fresh_seg_def)
    then show "\<forall>t \<in># add_mset c W. seg_ok m t \<or> (seg_memcache t \<and> readable m t \<and> \<not> is_attach t \<and> base_ptr t = None)"
      using world_okD(6) [OF w] c by (simp add: fresh_seg_def)
    have "b \<in> pool_blocks m"
      using p by (auto simp: pool_blocks_def intro: nth_mem)
    then have "b \<notin> owned t" if "t \<in># W" for t
      using world_okD(6) [OF w that] by (auto simp: owned_def seg_ok_def outside_pool_def split: if_splits)
    then have "apart c t" if "t \<in># W" for t
      using that p by (auto simp: apart_def c owned_def uses_def fresh_seg_def)
    then show "all_apart (add_mset c W)" using world_okD(8) [OF w] by simp
    have "in_pool m' c"
      using p by (simp add: in_pool_def m'_def c fresh_seg_def)
    moreover have "in_pool m' t" if "t \<in># W" "seg_memcache t" for t
    proof -
      have "in_pool m t" using world_okD(6) [OF w that(1)] that(2) by (simp add: seg_ok_def)
      then show ?thesis using p by (fastforce simp: in_pool_def m'_def)
    qed
    ultimately show "\<forall>t \<in># add_mset c W. seg_memcache t \<longrightarrow> in_pool m' t" by auto
  qed
  ultimately show ?thesis by (auto simp: m'_def)
qed

lemma seg_share_ok:
  assumes w: "world_ok m W" and s: "s \<in># W" "seg_memcache s" and u: "use_memcache m" "seg_len s \<le> BUFFER_SEG_SIZE"
  shows "\<exists>c m'. seg_share s m = Some (Some c, m') \<and> world_ok m' (add_mset c W) \<and> seg_len c = seg_len s \<and>
    seg_memcache c \<and> seg_ptr c = seg_ptr s \<and> (\<forall>t. seg_bytes m' t = seg_bytes m t) \<and> use_memcache m'"
proof -
  let ?m = "m\<lparr>asked := Suc (asked m)\<rparr>"
  have "\<not> is_attach s" using world_okD(6) [OF w s(1)] s(2) by (simp add: seg_ok_def)
  then show ?thesis
    using pool_ref [OF world_asked [OF w] s refl] u
    by (auto simp: seg_share_def seg_alloc0_def small_alloc_ok [OF w] fresh_seg_def)
qed

end
