(* ===== verification/BufferMoves.thy ===== *)
theory BufferMoves
  imports BufferSpec
begin

text \<open>
  What each operation that changes a buffer does to its bytes: appending, taking out, sharing and
  freeing. \<open>R\<close> is the multiset of the segments of all other buffers, whose bytes stay.
\<close>

section \<open>A buffer among others\<close>

definition buffer_ok :: "buffer \<Rightarrow> bool" where
  "buffer_ok b \<longleftrightarrow> sized_right b \<and> (\<forall>s \<in> set (segs b). seg_len s \<le> BUFFER_SEG_SIZE)"

definition holds :: "mem \<Rightarrow> buffer \<Rightarrow> seg multiset \<Rightarrow> bool" where
  "holds m b R \<longleftrightarrow> world_ok m (mset (segs b) + R) \<and> buffer_ok b"

definition others_same :: "mem \<Rightarrow> seg multiset \<Rightarrow> mem \<Rightarrow> bool" where
  "others_same m R m' \<longleftrightarrow> use_memcache m' = use_memcache m \<and> (\<forall>t \<in># R. seg_bytes m' t = seg_bytes m t)"

definition text_of :: "mem \<Rightarrow> buffer \<Rightarrow> octet list" where
  "text_of m b = bytes m (segs b)"

lemma others_same_refl [simp]: "others_same m R m"
  by (simp add: others_same_def)

lemma others_same_trans: "others_same m R m1 \<Longrightarrow> others_same m1 R m2 \<Longrightarrow> others_same m R m2"
  by (simp add: others_same_def)

lemma others_same_mono: "others_same m (R + S) m' \<Longrightarrow> others_same m R m'"
  by (simp add: others_same_def)

lemma bytes_same: "\<forall>s \<in> set ss. seg_bytes m' s = seg_bytes m s \<Longrightarrow> bytes m' ss = bytes m ss"
  by (induction ss) auto

lemma bytes_others: "others_same m R m' \<Longrightarrow> mset ss \<subseteq># R \<Longrightarrow> bytes m' ss = bytes m ss"
  by (rule bytes_same) (auto simp: others_same_def dest!: mset_subset_eqD)

lemma holds_readable: "holds m b R \<Longrightarrow> s \<in> set (segs b) \<Longrightarrow> readable m s"
  using world_okD(7) by (auto simp: holds_def)

lemma holds_length: "holds m b R \<Longrightarrow> length (text_of m b) = blen b"
  using length_bytes [of "segs b" m] holds_readable by (simp add: text_of_def holds_def buffer_ok_def sized_right_def)

lemma holds_check: "holds m b R \<Longrightarrow> buffer_check b = Some ()"
  using buffer_check_ok [of b m] holds_readable by (auto simp: holds_def buffer_ok_def)

lemma holds_sized: "holds m b R \<Longrightarrow> sized_right b" "holds m b R \<Longrightarrow> blen b = seg_sum (segs b)"
  by (auto simp: holds_def buffer_ok_def sized_right_def)

lemma world_readable: "world_ok m (mset ss + R) \<Longrightarrow> \<forall>s \<in> set ss. readable m s"
  by (auto dest: world_okD(7))

section \<open>Appending\<close>

lemma appendmem_clear:
  assumes h: "holds m b R" and d: "0 < length d" "length d \<le> BUFFER_SEG_SIZE" "blen b + length d < 2 ^ 32"
  shows "\<exists>b' m'. appendmem b d tail m = Some (None, b', m') \<and> holds m' b' R \<and> others_same m R m' \<and>
    text_of m' b' = (if tail then text_of m b @ d else d @ text_of m b) \<and> blen b' = blen b + length d \<and>
    (\<exists>s. segs b' = (if tail then segs b @ [s] else s # segs b) \<and> (\<forall>t \<in># mset (segs b) + R. clear_of s t))"
proof -
  have w: "world_ok m (mset (segs b) + R)" using h by (simp add: holds_def)
  obtain s m1 m' where s: "seg_alloc (length d) m = Some (Some s, m1)" "poke (seg_ptr s) d m1 = Some m'"
      "seg_len s = length d" "seg_bytes m' s = d" "adds m (mset (segs b) + R) s m'"
    using seg_new_ok [OF w d(1,2)] by blast
  define b' where "b' = \<lparr>blen = blen b + length d, segs = (if tail then segs b @ [s] else s # segs b)\<rparr>"
  have "world_ok m' (mset (segs b') + R)"
    using s(5) by (simp add: adds_def b'_def)
  then have h': "holds m' b' R"
    using h d s(3) by (auto simp: holds_def buffer_ok_def sized_right_def b'_def)
  have o: "others_same m (mset (segs b) + R) m'"
    using s(5) by (simp add: adds_def others_same_def)
  have "bytes m' (segs b) = bytes m (segs b)"
    by (rule bytes_others [OF o]) simp
  then have "text_of m' b' = (if tail then text_of m b @ d else d @ text_of m b)"
    using s(4) by (simp add: text_of_def b'_def)
  moreover have "others_same m R m'"
    using o by (simp add: others_same_def)
  moreover have "(if tail then seg_add_tail b s else seg_add b s) = Some b'"
    using s(3) d(1) by (simp add: seg_add_tail_def seg_add_def b'_def)
  then have "appendmem b d tail m = Some (None, b', m')"
    using s(1,2) d holds_check [OF h] holds_check [OF h'] by (simp add: appendmem_def)
  moreover have "\<forall>t \<in># mset (segs b) + R. clear_of s t"
    using s(5) by (simp add: adds_def)
  ultimately show ?thesis
    using h' by (intro exI [of _ b'] exI [of _ m']) (auto simp: b'_def)
qed

lemma appendmem_ok:
  assumes h: "holds m b R" and d: "0 < length d" "length d \<le> BUFFER_SEG_SIZE" "blen b + length d < 2 ^ 32"
  shows "\<exists>b' m'. appendmem b d tail m = Some (None, b', m') \<and> holds m' b' R \<and> others_same m R m' \<and>
    text_of m' b' = (if tail then text_of m b @ d else d @ text_of m b) \<and> blen b' = blen b + length d"
  using appendmem_clear [OF assms, of tail] by blast

lemma copy_loop_ok:
  assumes "holds m b R" "blen b + length d < 2 ^ 32"
  shows "\<exists>b' m'. copy_loop b d m = Some (None, b', m') \<and> holds m' b' R \<and> others_same m R m' \<and>
    text_of m' b' = text_of m b @ d \<and> blen b' = blen b + length d"
  using assms
proof (induction "length d" arbitrary: m b d rule: less_induct)
  case less
  show ?case
  proof (cases "d = []")
    case True
    then show ?thesis using less.prems by (simp add: copy_loop.simps)
  next
    case False
    let ?n = "if length d < BUFFER_SEG_SIZE then length d else BUFFER_SEG_SIZE"
    have n: "0 < length (take ?n d)" "length (take ?n d) \<le> BUFFER_SEG_SIZE" "?n \<le> length d"
      using False by (auto simp: BUFFER_SEG_SIZE_def)
    have "blen b + length (take ?n d) < 2 ^ 32" using less.prems(2) n(3) by simp
    from appendmem_ok [OF less.prems(1) n(1,2) this, of True] obtain b1 m1 where
      a: "mbuffer_appendmem b (take ?n d) m = Some (None, b1, m1)" "holds m1 b1 R" "others_same m R m1"
        "text_of m1 b1 = text_of m b @ take ?n d" "blen b1 = blen b + length (take ?n d)"
      by (auto simp: mbuffer_appendmem_def)
    have "length (drop ?n d) < length d" "blen b1 + length (drop ?n d) < 2 ^ 32"
      using n a(5) less.prems(2) by auto
    from less.hyps [OF this(1) a(2) this(2)] obtain b2 m2 where
      c: "copy_loop b1 (drop ?n d) m1 = Some (None, b2, m2)" "holds m2 b2 R" "others_same m1 R m2"
        "text_of m2 b2 = text_of m1 b1 @ drop ?n d" "blen b2 = blen b1 + length (drop ?n d)"
      by blast
    have "copy_loop b d m = Some (None, b2, m2)"
      using False a(1) c(1) by (subst copy_loop.simps) (simp add: Let_def)
    moreover have "text_of m2 b2 = text_of m b @ d"
      unfolding c(4) a(4) by simp
    ultimately show ?thesis
      using c a n others_same_trans [OF a(3) c(3)] by auto
  qed
qed

lemma mbuffer_copy_ok:
  assumes "holds m b R" "blen b + length d < 2 ^ 32"
  shows "\<exists>b' m'. mbuffer_copy b d m = Some (None, b', m') \<and> holds m' b' R \<and> others_same m R m' \<and>
    text_of m' b' = text_of m b @ d \<and> blen b' = blen b + length d"
proof -
  obtain b' m' where r: "copy_loop b d m = Some (None, b', m')" "holds m' b' R" "others_same m R m'"
    "text_of m' b' = text_of m b @ d" "blen b' = blen b + length d"
    using copy_loop_ok [OF assms] by blast
  then show ?thesis
    using holds_check [OF assms(1)] holds_check [OF r(2)] by (simp add: mbuffer_copy_def)
qed

lemma appendzero_loop_ok:
  assumes "holds m b R" "blen b + n < 2 ^ 32"
  shows "\<exists>b' m'. alloc_loop (Some (\<lambda>cp. replicate cp 0)) n b m = Some (b', m') \<and> holds m' b' R \<and>
    others_same m R m' \<and> text_of m' b' = text_of m b @ replicate n 0"
  using assms
proof (induction n arbitrary: m b rule: less_induct)
  case (less n)
  show ?case
  proof (cases "n = 0")
    case True
    then show ?thesis using less.prems by (simp add: alloc_loop.simps)
  next
    case False
    define k where "k = (if n < BUFFER_SEG_SIZE then n else BUFFER_SEG_SIZE)"
    let ?d = "replicate k (0 :: octet)"
    have k: "0 < k" "k \<le> BUFFER_SEG_SIZE" "k \<le> n"
      using False by (auto simp: k_def BUFFER_SEG_SIZE_def)
    have w: "world_ok m (mset (segs b) + R)" using less.prems(1) by (simp add: holds_def)
    obtain s m0 m1 where s: "seg_alloc k m = Some (Some s, m0)" "poke (seg_ptr s) ?d m0 = Some m1"
        "seg_len s = k" "seg_bytes m1 s = ?d" "adds m (mset (segs b) + R) s m1"
      using seg_new_ok [OF w, of ?d] k by auto
    define b1 where "b1 = \<lparr>blen = blen b + k, segs = segs b @ [s]\<rparr>"
    have h1: "holds m1 b1 R"
      using less.prems k s(3,5) by (auto simp: holds_def buffer_ok_def sized_right_def b1_def adds_def)
    have o: "others_same m (mset (segs b) + R) m1"
      using s(5) by (simp add: adds_def others_same_def)
    have "bytes m1 (segs b) = bytes m (segs b)"
      by (rule bytes_others [OF o]) simp
    then have t1: "text_of m1 b1 = text_of m b @ ?d"
      using s(4) by (simp add: text_of_def b1_def)
    have o1: "others_same m R m1" using o by (simp add: others_same_def)
    have "n - k < n" "blen b1 + (n - k) < 2 ^ 32" using k less.prems by (auto simp: b1_def)
    from less.IH [OF this(1) h1 this(2)] obtain b2 m2 where
      r: "alloc_loop (Some (\<lambda>cp. replicate cp 0)) (n - k) b1 m1 = Some (b2, m2)" "holds m2 b2 R"
        "others_same m1 R m2" "text_of m2 b2 = text_of m1 b1 @ replicate (n - k) 0"
      by blast
    have "seg_add_tail b s = Some b1"
      using s(3) k by (simp add: seg_add_tail_def b1_def)
    then have "alloc_loop (Some (\<lambda>cp. replicate cp 0)) n b m = Some (b2, m2)"
      using False s(1,2) r(1) by (subst alloc_loop.simps) (simp add: k_def [symmetric])
    moreover have "text_of m2 b2 = text_of m b @ replicate n 0"
      using r(4) t1 k by (simp add: replicate_add [symmetric])
    ultimately show ?thesis
      using r others_same_trans [OF o1 r(3)] by blast
  qed
qed

lemma mbuffer_appendzero_ok:
  assumes "holds m b R" "blen b + n < 2 ^ 32"
  shows "\<exists>b' m'. mbuffer_appendzero b n m = Some (b', m') \<and> holds m' b' R \<and>
    others_same m R m' \<and> text_of m' b' = text_of m b @ replicate n 0"
proof -
  obtain b' m' where r: "alloc_loop (Some (\<lambda>cp. replicate cp 0)) n b m = Some (b', m')" "holds m' b' R"
    "others_same m R m'" "text_of m' b' = text_of m b @ replicate n 0"
    using appendzero_loop_ok [OF assms] by blast
  then show ?thesis
    using holds_check [OF assms(1)] holds_check [OF r(2)] by (simp add: mbuffer_appendzero_def)
qed

section \<open>Taking out\<close>

text \<open>What the loops leave of the segments.\<close>

definition leaves :: "mem \<Rightarrow> seg list \<Rightarrow> seg multiset \<Rightarrow> nat \<Rightarrow> seg list \<Rightarrow> mem \<Rightarrow> bool" where
  "leaves m ss R n ss' m' \<longleftrightarrow> world_ok m' (mset ss' + R) \<and> others_same m R m' \<and>
     bytes m' ss' = drop n (bytes m ss) \<and> seg_sum ss' = seg_sum ss - n \<and>
     (\<forall>s' \<in> set ss'. \<exists>s \<in> set ss. seg_len s' \<le> seg_len s)"

lemma leaves_advance:
  assumes w: "world_ok m (mset (s # ss) + R)" and "n < seg_len s"
  shows "leaves m (s # ss) R n (advance n s # ss) m"
  using world_advance [of m s "mset ss + R" n] assms world_readable [OF w]
  by (auto simp: leaves_def)

lemma leaves_free:
  assumes w: "world_ok m (mset (s # ss) + R)" and f: "world_ok m1 (mset ss + R)"
    "\<forall>t \<in># mset ss + R. seg_bytes m1 t = seg_bytes m t" "use_memcache m1 = use_memcache m"
    and l: "leaves m1 ss R (n - seg_len s) ss' m'" and n: "seg_len s \<le> n"
  shows "leaves m (s # ss) R n ss' m'"
proof -
  have "bytes m1 ss = bytes m ss"
    by (rule bytes_same) (use f(2) in auto)
  moreover have "others_same m R m1" using f(2,3) by (auto simp: others_same_def)
  moreover have "length (seg_bytes m s) = seg_len s" using world_readable [OF w] by simp
  ultimately show ?thesis
    using l n by (auto simp: leaves_def intro: others_same_trans)
qed

lemma popmsg_loop_ok:
  assumes "world_ok m (mset ss + R)" "n \<le> seg_sum ss"
  shows "\<exists>ss' m'. popmsg_loop ss n m = Some (take n (bytes m ss), ss', 0, m') \<and> leaves m ss R n ss' m'"
  using assms
proof (induction ss arbitrary: n m)
  case Nil
  then show ?case by (auto simp: leaves_def)
next
  case (Cons s ss)
  have r: "readable m s" "seg_type s = BUFFER_RW"
    using world_readable [OF Cons.prems(1)] readable_facts by auto
  show ?case
  proof (cases "n < seg_len s")
    case True
    then show ?thesis
      using leaves_advance [OF Cons.prems(1)] r seg_prefix [OF r(1), of n] by (auto simp: Let_def)
  next
    case False
    obtain m1 where f: "seg_free s m = Some m1" "world_ok m1 (mset ss + R)"
      "\<forall>t \<in># mset ss + R. seg_bytes m1 t = seg_bytes m t" "use_memcache m1 = use_memcache m"
      using world_free [of m s "mset ss + R"] Cons.prems(1) by auto
    have same: "bytes m1 ss = bytes m ss"
      by (rule bytes_same) (use f(3) in auto)
    have "n - seg_len s \<le> seg_sum ss" using Cons.prems(2) by simp
    from Cons.IH [OF f(2) this] obtain ss' m' where l: "popmsg_loop ss (n - seg_len s) m1 = Some (take (n - seg_len s) (bytes m1 ss), ss', 0, m')"
        "leaves m1 ss R (n - seg_len s) ss' m'"
      by blast
    show ?thesis
    proof (cases "n = seg_len s")
      case True
      have "leaves m1 ss R (n - seg_len s) ss m1"
        using f(2) True by (auto simp: leaves_def)
      then have "leaves m (s # ss) R n ss m1"
        by (rule leaves_free [OF Cons.prems(1) f(2-4)]) (simp add: True)
      then show ?thesis
        using True r f(1) readable_peek [OF r(1)] by (auto simp: Let_def)
    next
      case less: False
      have "leaves m (s # ss) R n ss' m'"
        by (rule leaves_free [OF Cons.prems(1) f(2-4) l(2)]) (use False in simp)
      then show ?thesis
        using False less r f(1) l(1) same readable_peek [OF r(1)] by (auto simp: Let_def)
    qed
  qed
qed

lemma holds_leaves:
  assumes "holds m b R" "leaves m (segs b) R n ss' m'" "n \<le> blen b" "b' = \<lparr>blen = blen b - n, segs = ss'\<rparr>"
  shows "holds m' b' R" "others_same m R m'" "text_of m' b' = drop n (text_of m b)"
  using assms by (force simp: leaves_def holds_def buffer_ok_def sized_right_def text_of_def)+

lemma mbuffer_popmsg_ok:
  assumes h: "holds m b R" and n: "n \<le> blen b"
  shows "\<exists>b' m'. mbuffer_popmsg b n m = Some (take n (text_of m b), b', m') \<and> holds m' b' R \<and>
    others_same m R m' \<and> text_of m' b' = drop n (text_of m b)"
proof -
  obtain ss' m' where r: "popmsg_loop (segs b) n m = Some (take n (bytes m (segs b)), ss', 0, m')"
      "leaves m (segs b) R n ss' m'"
    using popmsg_loop_ok [of m "segs b" R n] h n holds_sized(2) [OF h] by (auto simp: holds_def)
  note l = holds_leaves [OF h r(2) n refl]
  show ?thesis
    using r(1) l holds_check [OF h] holds_check [OF l(1)] n
    by (auto simp: mbuffer_popmsg_def text_of_def Let_def)
qed

text \<open>Discarding the front, and moving it into another buffer.\<close>

lemma discard_loop_ok:
  assumes "world_ok m (mset ss + R)" "n \<le> seg_sum ss"
  shows "\<exists>ss' m'. pop_loop ss None n m = Some (None, ss', None, 0, m') \<and> leaves m ss R n ss' m'"
  using assms
proof (induction ss arbitrary: n m)
  case Nil
  then show ?case by (auto simp: leaves_def)
next
  case (Cons s ss)
  have r: "readable m s" "seg_type s = BUFFER_RW"
    using world_readable [OF Cons.prems(1)] readable_facts by auto
  show ?case
  proof (cases "n < seg_len s")
    case True
    then show ?thesis
      using leaves_advance [OF Cons.prems(1)] r by (auto simp: Let_def)
  next
    case False
    obtain m1 where f: "seg_free s m = Some m1" "world_ok m1 (mset ss + R)"
      "\<forall>t \<in># mset ss + R. seg_bytes m1 t = seg_bytes m t" "use_memcache m1 = use_memcache m"
      using world_free [of m s "mset ss + R"] Cons.prems(1) by auto
    have "n - seg_len s \<le> seg_sum ss" using Cons.prems(2) by simp
    from Cons.IH [OF f(2) this] obtain ss' m' where
      l: "pop_loop ss None (n - seg_len s) m1 = Some (None, ss', None, 0, m')"
        "leaves m1 ss R (n - seg_len s) ss' m'"
      by blast
    show ?thesis
    proof (cases "n = seg_len s")
      case True
      have "leaves m1 ss R (n - seg_len s) ss m1"
        using f(2) True by (auto simp: leaves_def)
      then have "leaves m (s # ss) R n ss m1"
        by (rule leaves_free [OF Cons.prems(1) f(2-4)]) (simp add: True)
      then show ?thesis
        using True r f(1) by (auto simp: Let_def)
    next
      case less: False
      have "leaves m (s # ss) R n ss' m'"
        by (rule leaves_free [OF Cons.prems(1) f(2-4) l(2)]) (use False in simp)
      then show ?thesis
        using False less r f(1) l(1) by (auto simp: Let_def)
    qed
  qed
qed

lemma holds_append_seg:
  assumes "holds m new (add_mset s R)" "seg_len s \<le> BUFFER_SEG_SIZE" "blen new + seg_len s < 2 ^ 32" "0 < seg_len s"
  shows "\<exists>new'. seg_add_tail new s = Some new' \<and> holds m new' R \<and> blen new' = blen new + seg_len s \<and>
    text_of m new' = text_of m new @ seg_bytes m s"
  using assms
  by (auto simp: seg_add_tail_def holds_def buffer_ok_def sized_right_def text_of_def)

lemma pop_loop_ok:
  assumes "holds m new (mset ss + R)" "n \<le> seg_sum ss" "blen new + n < 2 ^ 32"
    "\<forall>s \<in> set ss. seg_len s \<le> BUFFER_SEG_SIZE" "0 < n"
  shows "\<exists>ss' new' m'. pop_loop ss (Some new) n m = Some (None, ss', Some new', 0, m') \<and>
    holds m' new' (mset ss' + R) \<and> others_same m R m' \<and>
    text_of m' new' = text_of m new @ take n (bytes m ss) \<and> blen new' = blen new + n \<and>
    bytes m' ss' = drop n (bytes m ss) \<and> seg_sum ss' = seg_sum ss - n \<and>
    (\<forall>s' \<in> set ss'. \<exists>s \<in> set ss. seg_len s' \<le> seg_len s)"
  using assms
proof (induction ss arbitrary: n m new)
  case Nil
  then show ?case by simp
next
  case (Cons s ss)
  have w: "world_ok m (mset (s # ss) + (mset (segs new) + R))"
    using Cons.prems(1) by (simp add: holds_def ac_simps)
  have r: "readable m s" "seg_type s = BUFFER_RW" "0 < seg_len s"
    using world_readable [OF w] readable_facts by auto
  show ?case
  proof (cases "n < seg_len s")
    case True
    let ?d = "take n (seg_bytes m s)"
    have d: "0 < length ?d" "length ?d \<le> BUFFER_SEG_SIZE" "blen new + length ?d < 2 ^ 32" "length ?d = n"
      using Cons.prems(5) True r Cons.prems(3,4) by auto
    obtain new' m' where a: "mbuffer_appendmem new ?d m = Some (None, new', m')"
        "holds m' new' (mset (s # ss) + R)" "others_same m (mset (s # ss) + R) m'"
        "text_of m' new' = text_of m new @ ?d" "blen new' = blen new + length ?d"
      using appendmem_ok [OF Cons.prems(1) d(1-3), of True] by (auto simp: mbuffer_appendmem_def)
    have w': "world_ok m' (add_mset s (mset ss + (mset (segs new') + R)))"
      using a(2) by (simp add: holds_def ac_simps)
    note adv = world_advance [OF w' True]
    have "bytes m' (s # ss) = bytes m (s # ss)"
      by (rule bytes_others [OF a(3)]) simp
    then have "seg_bytes m' s = seg_bytes m s" "bytes m' ss = bytes m ss"
      using a(3) by (auto simp: others_same_def)
    then have "bytes m' (advance n s # ss) = drop n (bytes m (s # ss))"
      using adv(2) True r by simp
    moreover have "holds m' new' (mset (advance n s # ss) + R)"
      using adv(1) a(2) by (simp add: holds_def ac_simps)
    moreover have "others_same m R m'"
      using a(3) by (simp add: others_same_def)
    ultimately show ?thesis
      using True r a(1,4,5) d(4) seg_prefix [OF r(1), of n] adv(3)
      by (auto simp: Let_def)
  next
    case False
    have "holds m new (add_mset s (mset ss + R))" using Cons.prems(1) by simp
    from holds_append_seg [OF this] obtain new1 where
      a: "seg_add_tail new s = Some new1" "holds m new1 (mset ss + R)" "blen new1 = blen new + seg_len s"
        "text_of m new1 = text_of m new @ seg_bytes m s"
      using Cons.prems(3,4) False r(3) by auto
    have le: "n - seg_len s \<le> seg_sum ss" "blen new1 + (n - seg_len s) < 2 ^ 32"
      "\<forall>s \<in> set ss. seg_len s \<le> BUFFER_SEG_SIZE"
      using Cons.prems False a(3) by auto
    show ?thesis
    proof (cases "n = seg_len s")
      case True
      then show ?thesis
        using a r by (auto simp: Let_def)
    next
      case less: False
      have "0 < n - seg_len s" using False less by simp
      from Cons.IH [OF a(2) le this] obtain ss' new' m' where
        l: "pop_loop ss (Some new1) (n - seg_len s) m = Some (None, ss', Some new', 0, m')"
          "holds m' new' (mset ss' + R)" "others_same m R m'"
          "text_of m' new' = text_of m new1 @ take (n - seg_len s) (bytes m ss)"
          "blen new' = blen new1 + (n - seg_len s)" "bytes m' ss' = drop (n - seg_len s) (bytes m ss)"
          "seg_sum ss' = seg_sum ss - (n - seg_len s)" "\<forall>s' \<in> set ss'. \<exists>s \<in> set ss. seg_len s' \<le> seg_len s"
        by blast
      show ?thesis
        using l a False less r by (auto simp: Let_def)
    qed
  qed
qed

lemma mbuffer_discard_ok:
  assumes h: "holds m b R" and n: "n \<le> blen b"
  shows "\<exists>b' m'. mbuffer_pop b None n m = Some (None, b', None, m') \<and> holds m' b' R \<and>
    others_same m R m' \<and> text_of m' b' = drop n (text_of m b)"
proof -
  obtain ss' m' where r: "pop_loop (segs b) None n m = Some (None, ss', None, 0, m')"
      "leaves m (segs b) R n ss' m'"
    using discard_loop_ok [of m "segs b" R n] h n holds_sized(2) [OF h] by (auto simp: holds_def)
  note l = holds_leaves [OF h r(2) n refl]
  show ?thesis
    using r(1) l holds_check [OF h] holds_check [OF l(1)] n by (auto simp: mbuffer_pop_def Let_def)
qed

text \<open>Two buffers, \<open>b\<close> and \<open>c\<close>.\<close>

definition both :: "mem \<Rightarrow> buffer \<Rightarrow> buffer \<Rightarrow> seg multiset \<Rightarrow> bool" where
  "both m b c R \<longleftrightarrow> holds m b (mset (segs c) + R) \<and> holds m c (mset (segs b) + R)"

lemma bothI: "world_ok m (mset (segs b) + (mset (segs c) + R)) \<Longrightarrow> buffer_ok b \<Longrightarrow> buffer_ok c \<Longrightarrow> both m b c R"
  by (simp add: both_def holds_def ac_simps)

lemma mbuffer_pop_ok:
  assumes h: "both m b c R" and n: "0 < n" "n \<le> blen b" "blen c + n < 2 ^ 32"
  shows "\<exists>b' c' m'. mbuffer_pop b (Some c) n m = Some (None, b', Some c', m') \<and> both m' b' c' R \<and>
    others_same m R m' \<and> text_of m' b' = drop n (text_of m b) \<and>
    text_of m' c' = text_of m c @ take n (text_of m b)"
proof -
  have hb: "holds m b (mset (segs c) + R)" and hc: "holds m c (mset (segs b) + R)"
    using h by (auto simp: both_def)
  have "n \<le> seg_sum (segs b)" "\<forall>s \<in> set (segs b). seg_len s \<le> BUFFER_SEG_SIZE"
    using n holds_sized(2) [OF hb] hb by (auto simp: holds_def buffer_ok_def)
  from pop_loop_ok [OF hc this(1) n(3) this(2) n(1)] obtain ss' c' m' where
    r: "pop_loop (segs b) (Some c) n m = Some (None, ss', Some c', 0, m')"
      "holds m' c' (mset ss' + R)" "others_same m R m'" "text_of m' c' = text_of m c @ take n (bytes m (segs b))"
      "bytes m' ss' = drop n (bytes m (segs b))" "seg_sum ss' = seg_sum (segs b) - n"
      "\<forall>s' \<in> set ss'. \<exists>s \<in> set (segs b). seg_len s' \<le> seg_len s"
    by blast
  define b' where "b' = \<lparr>blen = blen b - n, segs = ss'\<rparr>"
  have "buffer_ok b'"
    using hb r(6,7) n by (force simp: holds_def buffer_ok_def sized_right_def b'_def)
  then have hb': "holds m' b' (mset (segs c') + R)"
    using r(2) by (simp add: holds_def b'_def ac_simps)
  then have "mbuffer_pop b (Some c) n m = Some (None, b', Some c', m')"
    using r(1) n holds_check [OF hb] holds_check [OF hb'] holds_check [OF r(2)]
    by (simp add: mbuffer_pop_def Let_def b'_def)
  then show ?thesis
    using hb' r by (auto simp: both_def b'_def text_of_def)
qed

lemma mbuffer_merge_ok:
  assumes h: "both m d s R" and n: "blen d + blen s < 2 ^ 32"
  shows "\<exists>d'. mbuffer_merge d s = Some (d', empty_buffer) \<and> both m d' empty_buffer R \<and>
    text_of m d' = text_of m d @ text_of m s"
proof -
  have hd: "holds m d (mset (segs s) + R)" and hs: "holds m s (mset (segs d) + R)"
    using h by (auto simp: both_def)
  define d' where "d' = \<lparr>blen = blen d + blen s, segs = segs d @ segs s\<rparr>"
  have b: "both m d' empty_buffer R"
    using hd hs n
    by (intro bothI) (auto simp: d'_def holds_def buffer_ok_def sized_right_def empty_buffer_def ac_simps)
  then have "holds m d' (mset (segs empty_buffer) + R)" by (simp add: both_def)
  then have "mbuffer_merge d s = Some (d', empty_buffer)"
    using holds_check [OF hd] holds_check [OF hs] holds_check [of m d']
    by (simp add: mbuffer_merge_def d'_def Let_def)
  then show ?thesis using b by (auto simp: d'_def text_of_def)
qed

lemma empty_holds: "world_ok m R \<Longrightarrow> holds m empty_buffer R"
  by (simp add: holds_def empty_buffer_def buffer_ok_def sized_right_def)

lemma mbuffer_free_ok:
  assumes h: "holds m b R"
  shows "\<exists>m'. mbuffer_free b m = Some (empty_buffer, m') \<and> world_ok m' R \<and> others_same m R m'"
proof -
  have "\<exists>m'. free_segs ss m = Some m' \<and> world_ok m' R \<and> others_same m R m'"
    if "world_ok m (mset ss + R)" for ss m
    using that
  proof (induction ss arbitrary: m)
    case (Cons s ss)
    obtain m1 where f: "seg_free s m = Some m1" "world_ok m1 (mset ss + R)"
      "\<forall>t \<in># mset ss + R. seg_bytes m1 t = seg_bytes m t" "use_memcache m1 = use_memcache m"
      using world_free [of m s "mset ss + R"] Cons.prems by auto
    have "seg_type s = BUFFER_RW"
      using world_readable [OF Cons.prems] readable_facts by auto
    then show ?case
      using f Cons.IH [OF f(2)] by (auto simp: others_same_def)
  qed simp
  then obtain m' where m': "free_segs (segs b) m = Some m'" "world_ok m' R" "others_same m R m'"
    using h unfolding holds_def by blast
  show ?thesis
  proof (cases "blen b = 0")
    case True
    then have "segs b = []"
      using holds_sized(2) [OF h] holds_readable [OF h] readable_facts(2) by (cases "segs b") fastforce+
    then have "b = empty_buffer" using True by (simp add: empty_buffer_def)
    then show ?thesis
      using h holds_check [OF h] by (simp add: mbuffer_free_def holds_def empty_buffer_def)
  next
    case False
    then show ?thesis
      using m' holds_check [OF h] by (simp add: mbuffer_free_def)
  qed
qed

lemma droptail_loop_ok:
  assumes "world_ok m (mset ss + R)" "0 < n" "n \<le> seg_sum ss"
  shows "\<exists>ss' m'. droptail_loop ss n m = Some (ss', m') \<and> world_ok m' (mset ss' + R) \<and> others_same m R m' \<and>
    bytes m' (rev ss') = take (seg_sum ss - n) (bytes m (rev ss)) \<and> seg_sum ss' = seg_sum ss - n \<and>
    (\<forall>s' \<in> set ss'. \<exists>s \<in> set ss. seg_len s' \<le> seg_len s)"
  using assms
proof (induction ss arbitrary: n m)
  case Nil
  then show ?case by simp
next
  case (Cons s ss)
  have r: "readable m s" "seg_type s = BUFFER_RW" "\<forall>t \<in> set ss. readable m t"
    using world_readable [OF Cons.prems(1)] readable_facts by auto
  have len: "length (bytes m (rev ss)) = seg_sum ss"
    using length_bytes [of "rev ss" m] r(3) by (simp add: seg_sum_def rev_map [symmetric] sum_list_rev)
  show ?case
  proof (cases "n < seg_len s")
    case True
    then show ?thesis
      using world_truncate [of m s "mset ss + R" "seg_len s - n"] Cons.prems len r(1) by auto
  next
    case False
    obtain m1 where f: "seg_free s m = Some m1" "world_ok m1 (mset ss + R)"
      "\<forall>t \<in># mset ss + R. seg_bytes m1 t = seg_bytes m t" "use_memcache m1 = use_memcache m"
      using world_free [of m s "mset ss + R"] Cons.prems(1) by auto
    have same: "bytes m1 (rev ss) = bytes m (rev ss)"
      by (rule bytes_same) (use f(3) in auto)
    have o: "others_same m R m1" using f by (auto simp: others_same_def)
    show ?thesis
    proof (cases "n = seg_len s")
      case True
      then show ?thesis using f(1,2) o same len r by auto
    next
      case less: False
      then have "0 < n - seg_len s" "n - seg_len s \<le> seg_sum ss"
        using False Cons.prems by auto
      from Cons.IH [OF f(2) this] obtain ss' m' where
        "droptail_loop ss (n - seg_len s) m1 = Some (ss', m')" "world_ok m' (mset ss' + R)" "others_same m1 R m'"
        "bytes m' (rev ss') = take (seg_sum ss - (n - seg_len s)) (bytes m1 (rev ss))"
        "seg_sum ss' = seg_sum ss - (n - seg_len s)" "\<forall>s' \<in> set ss'. \<exists>s \<in> set ss. seg_len s' \<le> seg_len s"
        by blast
      then show ?thesis
        using False less f(1) r(2) same len others_same_trans [OF o] by (auto simp: add.commute)
    qed
  qed
qed

lemma mbuffer_droptail_ok:
  assumes h: "holds m b R" and n: "n \<le> blen b"
  shows "\<exists>b' m'. mbuffer_droptail b n m = Some (b', m') \<and> holds m' b' R \<and> others_same m R m' \<and>
    text_of m' b' = take (blen b - n) (text_of m b)"
proof (cases "n = 0")
  case True
  then show ?thesis using h holds_length [OF h] by (simp add: mbuffer_droptail_def)
next
  case False
  have s: "seg_sum (rev (segs b)) = blen b"
    using holds_sized(2) [OF h] by (simp add: seg_sum_def rev_map [symmetric] sum_list_rev)
  have "world_ok m (mset (rev (segs b)) + R)" using h by (simp add: holds_def)
  from droptail_loop_ok [OF this, of n] obtain ss' m' where
    r: "droptail_loop (rev (segs b)) n m = Some (ss', m')" "world_ok m' (mset ss' + R)" "others_same m R m'"
      "bytes m' (rev ss') = take (blen b - n) (bytes m (segs b))" "seg_sum ss' = blen b - n"
      "\<forall>s' \<in> set ss'. \<exists>s \<in> set (segs b). seg_len s' \<le> seg_len s"
    using False n s by auto
  have "seg_sum (rev ss') = blen b - n"
    using r(5) by (simp add: seg_sum_def rev_map [symmetric] sum_list_rev)
  then have "holds m' \<lparr>blen = blen b - n, segs = rev ss'\<rparr> R"
    using r(2,6) h by (force simp: holds_def buffer_ok_def sized_right_def)
  then show ?thesis
    using r False n by (auto simp: mbuffer_droptail_def text_of_def)
qed

section \<open>Copies and references\<close>

lemma clone_loop_ok:
  assumes "holds m d R" "\<forall>s \<in> set ss. s \<in># R \<and> seg_len s \<le> BUFFER_SEG_SIZE" "blen d + seg_sum ss < 2 ^ 32"
  shows "\<exists>d' m'. clone_loop ss d m = Some (d', m') \<and> holds m' d' R \<and> others_same m R m' \<and>
    text_of m' d' = text_of m d @ bytes m ss"
  using assms
proof (induction ss arbitrary: d m)
  case (Cons s ss)
  have "s \<in># mset (segs d) + R" "world_ok m (mset (segs d) + R)"
    using Cons.prems(1,2) by (auto simp: holds_def)
  then have "readable m s" using world_okD(7) by blast
  note r = this readable_facts(1,2) [OF this]
  let ?x = "seg_bytes m s"
  have x: "0 < length ?x" "length ?x \<le> BUFFER_SEG_SIZE" "blen d + length ?x < 2 ^ 32"
    using r Cons.prems(2,3) by auto
  obtain d1 m1 where a: "mbuffer_appendmem d ?x m = Some (None, d1, m1)" "holds m1 d1 R" "others_same m R m1"
    "text_of m1 d1 = text_of m d @ ?x" "blen d1 = blen d + length ?x"
    using appendmem_ok [OF Cons.prems(1) x, of True] by (auto simp: mbuffer_appendmem_def)
  have same: "bytes m1 ss = bytes m ss"
    by (rule bytes_same) (use a(3) Cons.prems(2) in \<open>auto simp: others_same_def\<close>)
  have "\<forall>s \<in> set ss. s \<in># R \<and> seg_len s \<le> BUFFER_SEG_SIZE" "blen d1 + seg_sum ss < 2 ^ 32"
    using Cons.prems(2,3) a(5) r by auto
  from Cons.IH [OF a(2) this] obtain d2 m2 where "clone_loop ss d1 m1 = Some (d2, m2)" "holds m2 d2 R"
    "others_same m1 R m2" "text_of m2 d2 = text_of m1 d1 @ bytes m1 ss"
    by blast
  then show ?case
    using a r same readable_peek [OF r(1)] others_same_trans [OF a(3)] by auto
qed simp

lemma share_loop_ok:
  assumes "holds m d R" "\<forall>s \<in> set ss. s \<in># R \<and> seg_len s \<le> BUFFER_SEG_SIZE \<and> seg_memcache s"
    "blen d + seg_sum ss < 2 ^ 32" "use_memcache m"
  shows "\<exists>d' m' ts. share_loop ss d m = Some (d', m') \<and> holds m' d' R \<and> others_same m R m' \<and>
    segs d' = segs d @ ts \<and> map seg_ptr ts = map seg_ptr ss \<and> map seg_len ts = map seg_len ss \<and>
    (\<forall>t. seg_bytes m' t = seg_bytes m t)"
  using assms
proof (induction ss arbitrary: d m)
  case (Cons s ss)
  have w: "world_ok m (mset (segs d) + R)" "s \<in># mset (segs d) + R"
    using Cons.prems by (auto simp: holds_def)
  have r: "0 < seg_len s" "seg_memcache s" "seg_len s \<le> BUFFER_SEG_SIZE"
    using readable_facts(2) [OF world_okD(7) [OF w]] Cons.prems(2) by auto
  obtain c m1 where c: "seg_share s m = Some (Some c, m1)" "world_ok m1 (add_mset c (mset (segs d) + R))"
    "seg_len c = seg_len s" "seg_ptr c = seg_ptr s" "\<forall>t. seg_bytes m1 t = seg_bytes m t" "use_memcache m1"
    using seg_share_ok [OF w r(2) Cons.prems(4) r(3)] by blast
  define d1 where "d1 = \<lparr>blen = blen d + seg_len c, segs = segs d @ [c]\<rparr>"
  have add: "seg_add_tail d c = Some d1"
    using r c(3) by (simp add: seg_add_tail_def d1_def)
  have h1: "holds m1 d1 R"
    using Cons.prems(1,3) r c(2,3) by (auto simp: holds_def buffer_ok_def sized_right_def d1_def)
  have "\<forall>s \<in> set ss. s \<in># R \<and> seg_len s \<le> BUFFER_SEG_SIZE \<and> seg_memcache s" "blen d1 + seg_sum ss < 2 ^ 32"
    using Cons.prems(2,3) c(3) by (auto simp: d1_def)
  from Cons.IH [OF h1 this c(6)] obtain d2 m2 ts where
    "share_loop ss d1 m1 = Some (d2, m2)" "holds m2 d2 R" "others_same m1 R m2" "segs d2 = segs d1 @ ts"
    "map seg_ptr ts = map seg_ptr ss" "map seg_len ts = map seg_len ss" "\<forall>t. seg_bytes m2 t = seg_bytes m1 t"
    by blast
  then show ?case
    using c add Cons.prems(4) by (intro exI [of _ d2] exI [of _ m2] exI [of _ "c # ts"])
      (auto simp: d1_def others_same_def)
qed simp

lemma bytes_places: "map seg_ptr ts = map seg_ptr ss \<Longrightarrow> map seg_len ts = map seg_len ss \<Longrightarrow>
    bytes m ts = bytes m ss"
  by (induction ts ss rule: list_induct2') (auto simp: seg_bytes_def)

lemma mbuffer_reference_ok:
  assumes h: "both m d s R" and n: "blen d + blen s < 2 ^ 32"
  shows "\<exists>d' m'. mbuffer_reference d s m = Some (d', m') \<and> both m' d' s R \<and>
    others_same m (mset (segs s) + R) m' \<and> text_of m' d' = text_of m d @ text_of m s"
proof -
  have hd: "holds m d (mset (segs s) + R)" and hs: "holds m s (mset (segs d) + R)"
    using h by (auto simp: both_def)
  have ss: "\<forall>x \<in> set (segs s). x \<in># mset (segs s) + R \<and> seg_len x \<le> BUFFER_SEG_SIZE"
    using hs by (simp add: holds_def buffer_ok_def)
  have n': "blen d + seg_sum (segs s) < 2 ^ 32" using n holds_sized(2) [OF hs] by simp
  have *: "both m' d' s R" if "holds m' d' (mset (segs s) + R)" for m' d'
    using that hs by (simp add: both_def holds_def ac_simps)
  consider "\<not> use_memcache m \<or> (\<exists>x \<in> set (segs s). \<not> seg_memcache x)"
    | "use_memcache m" "\<forall>x \<in> set (segs s). seg_memcache x" by blast
  then show ?thesis
  proof cases
    case 1
    then have "mbuffer_reference d s m = clone_loop (segs s) d m"
      by (auto simp: mbuffer_reference_def)
    then show ?thesis
      using clone_loop_ok [OF hd ss n'] * by (auto simp: text_of_def)
  next
    case 2
    obtain d' m' ts where r: "share_loop (segs s) d m = Some (d', m')" "holds m' d' (mset (segs s) + R)"
      "others_same m (mset (segs s) + R) m'" "segs d' = segs d @ ts" "map seg_ptr ts = map seg_ptr (segs s)"
      "map seg_len ts = map seg_len (segs s)" "\<forall>t. seg_bytes m' t = seg_bytes m t"
      using share_loop_ok [OF hd _ n' 2(1)] ss 2(2) by blast
    have "text_of m' d' = text_of m d @ text_of m s"
      using r(4,7) bytes_places [OF r(5,6), of m'] bytes_same [of "segs d" m' m] bytes_same [of "segs s" m' m]
      by (simp add: text_of_def)
    then show ?thesis
      using r(1-3) 2 * holds_check [OF hd] holds_check [OF hs] holds_check [OF r(2)]
      by (auto simp: mbuffer_reference_def)
  qed
qed

lemma mbuffer_clone_ok:
  assumes h: "holds m b R"
  shows "\<exists>c m'. mbuffer_clone b m = Some (c, m') \<and> both m' c b R \<and> others_same m (mset (segs b) + R) m' \<and>
    text_of m' c = text_of m b"
proof -
  have w: "world_ok m (mset (segs b) + R)" using h by (simp add: holds_def)
  have ss: "\<forall>x \<in> set (segs b). x \<in># mset (segs b) + R \<and> seg_len x \<le> BUFFER_SEG_SIZE"
    "blen empty_buffer + seg_sum (segs b) < 2 ^ 32"
    using h by (auto simp: holds_def buffer_ok_def sized_right_def empty_buffer_def)
  obtain c m' where r: "clone_loop (segs b) empty_buffer m = Some (c, m')" "holds m' c (mset (segs b) + R)"
    "others_same m (mset (segs b) + R) m'" "text_of m' c = text_of m empty_buffer @ bytes m (segs b)"
    using clone_loop_ok [OF empty_holds [OF w] ss] by blast
  have "mbuffer_init 0 m = Some (empty_buffer, m)"
    using holds_check [OF empty_holds [OF w]] by (simp add: mbuffer_init_def alloc_loop.simps)
  then have "mbuffer_clone b m = Some (c, m')"
    using r(1) holds_check [OF h] holds_check [OF r(2)] by (simp add: mbuffer_clone_def)
  moreover have "both m' c b R"
    using r(2) h by (simp add: both_def holds_def ac_simps)
  ultimately show ?thesis
    using r(3,4) by (auto simp: text_of_def empty_buffer_def)
qed

lemma append_loop_ok:
  assumes "both m c b R" "off + n = blen b" "blen c + n < 2 ^ 32"
  shows "\<exists>c' m'. append_loop b off n c m = Some (None, c', m') \<and> both m' c' b R \<and>
    others_same m (mset (segs b) + R) m' \<and> text_of m' c' = text_of m c @ drop off (text_of m b)"
  using assms
proof (induction n arbitrary: off c m rule: less_induct)
  case (less n)
  have hc: "holds m c (mset (segs b) + R)" and hb: "holds m b (mset (segs c) + R)"
    using less.prems(1) by (auto simp: both_def)
  show ?case
  proof (cases "n = 0")
    case True
    then show ?thesis
      using less.prems holds_length [OF hb] by (simp add: append_loop.simps)
  next
    case False
    define k where "k = (if n < BUFFER_SEG_SIZE then n else BUFFER_SEG_SIZE)"
    have k: "0 < k" "k \<le> BUFFER_SEG_SIZE" "k \<le> n"
      using False by (auto simp: k_def BUFFER_SEG_SIZE_def)
    let ?x = "take k (drop off (text_of m b))"
    have g: "mbuffer_get1 b off k m = Some ?x"
      using mbuffer_get1_bytes [of b m off k] holds_sized(1) [OF hb] holds_readable [OF hb] k less.prems(2)
      by (simp add: text_of_def)
    have lx: "length ?x = k"
      using holds_length [OF hb] less.prems(2) k by simp
    then have x: "0 < length ?x" "length ?x \<le> BUFFER_SEG_SIZE" "blen c + length ?x < 2 ^ 32"
      using k less.prems(3) by auto
    obtain c1 m1 where a: "mbuffer_appendmem c ?x m = Some (None, c1, m1)" "holds m1 c1 (mset (segs b) + R)"
      "others_same m (mset (segs b) + R) m1" "text_of m1 c1 = text_of m c @ ?x" "blen c1 = blen c + length ?x"
      using appendmem_ok [OF hc x, of True] by (auto simp: mbuffer_appendmem_def)
    have b1: "both m1 c1 b R"
      using a(2) hb by (simp add: both_def holds_def ac_simps)
    have same: "text_of m1 b = text_of m b"
      unfolding text_of_def by (rule bytes_others [OF a(3)]) simp
    have "n - k < n" "off + k + (n - k) = blen b" "blen c1 + (n - k) < 2 ^ 32"
      using k less.prems a(5) lx by auto
    from less.IH [OF this(1) b1 this(2,3)] obtain c2 m2 where
      r: "append_loop b (off + k) (n - k) c1 m1 = Some (None, c2, m2)" "both m2 c2 b R"
        "others_same m1 (mset (segs b) + R) m2" "text_of m2 c2 = text_of m1 c1 @ drop (off + k) (text_of m1 b)"
      by blast
    have "append_loop b off n c m = Some (None, c2, m2)"
      using False g a(1) r(1) by (subst append_loop.simps) (simp add: k_def [symmetric])
    moreover have "?x @ drop (off + k) (text_of m b) = drop off (text_of m b)"
      by (metis append_take_drop_id drop_drop add.commute)
    ultimately show ?thesis
      using r(2,4) a(4) same others_same_trans [OF a(3) r(3)] by auto
  qed
qed

lemma mbuffer_append_ok:
  assumes h: "both m c b R" and n: "blen c + blen b < 2 ^ 32"
  shows "\<exists>c' m'. mbuffer_append c b m = Some (None, c', m') \<and> both m' c' b R \<and>
    others_same m (mset (segs b) + R) m' \<and> text_of m' c' = text_of m c @ text_of m b"
proof -
  let ?m = "m\<lparr>asked := Suc (asked m)\<rparr>"
  have hc: "holds m c (mset (segs b) + R)" and hb: "holds m b (mset (segs c) + R)"
    using h by (auto simp: both_def)
  have w: "world_ok m (mset (segs c) + (mset (segs b) + R))" using hc by (simp add: holds_def)
  have b: "both ?m c b R"
    using h world_asked by (auto simp: both_def holds_def)
  have t: "text_of ?m x = text_of m x" for x
    unfolding text_of_def by (rule bytes_same) simp
  obtain c' m' where r: "append_loop b 0 (blen b) c ?m = Some (None, c', m')" "both m' c' b R"
    "others_same ?m (mset (segs b) + R) m'" "text_of m' c' = text_of ?m c @ drop 0 (text_of ?m b)"
    using append_loop_ok [OF b, of 0 "blen b"] n by auto
  have "others_same m (mset (segs b) + R) m'"
    using r(3) by (simp add: others_same_def)
  moreover have "mbuffer_append c b m = Some (None, c', m')"
    using r(1,2) small_alloc_ok [OF w] holds_check [OF hc] holds_check [OF hb] holds_check [of m' c']
    by (auto simp: mbuffer_append_def both_def)
  ultimately show ?thesis
    using r(2,4) t by auto
qed

end
