(* ===== verification/BufferProps.thy ===== *)
theory BufferProps
  imports BufferMoves
begin

text \<open>
  The buffers refine byte strings: every history of operations on any number of buffers, over the
  page pool or the system's memory, gives the answers it gives on lists of bytes.
\<close>

section \<open>Histories\<close>

text \<open>The calls; a number names a buffer, the first one being the one that changes.\<close>

datatype buf_call =
    Append nat "octet list"
  | Prepend nat "octet list"
  | Copy nat "octet list"
  | Zeros nat nat
  | Read nat nat nat
  | Pop_msg nat nat
  | Discard nat nat
  | Pop nat nat nat
  | Merge nat nat
  | Reference nat nat
  | Append_all nat nat
  | Drop_tail nat nat
  | Free nat
  | Crc nat nat nat
  | Find nat "octet list"
  | Compare nat nat

datatype buf_answer = Done | Bytes "octet list" | Sum "32 word" | Place int | Truth bool

definition only_buffer :: "nat \<Rightarrow> buffer list \<Rightarrow> errno option \<times> buffer \<times> mem \<Rightarrow> (buf_answer \<times> mem \<times> buffer list) option" where
  "only_buffer i bs = (\<lambda>(code, b, m). if code = None then Some (Done, m, bs[i := b]) else None)"

fun buf_run :: "buf_call \<Rightarrow> mem \<Rightarrow> buffer list \<Rightarrow> (buf_answer \<times> mem \<times> buffer list) option" where
  "buf_run (Append i d) m bs = mbuffer_appendmem (bs ! i) d m \<bind> only_buffer i bs"
| "buf_run (Prepend i d) m bs = mbuffer_appendmem_head (bs ! i) d m \<bind> only_buffer i bs"
| "buf_run (Copy i d) m bs = mbuffer_copy (bs ! i) d m \<bind> only_buffer i bs"
| "buf_run (Zeros i n) m bs = do { (b, m) \<leftarrow> mbuffer_appendzero (bs ! i) n m; Some (Done, m, bs[i := b]) }"
| "buf_run (Read i off n) m bs = do { d \<leftarrow> mbuffer_get1 (bs ! i) off n m; Some (Bytes d, m, bs) }"
| "buf_run (Pop_msg i n) m bs = do { (d, b, m) \<leftarrow> mbuffer_popmsg (bs ! i) n m; Some (Bytes d, m, bs[i := b]) }"
| "buf_run (Discard i n) m bs =
     do { (code, b, nb, m) \<leftarrow> mbuffer_pop (bs ! i) None n m; only_buffer i bs (code, b, m) }"
| "buf_run (Pop i j n) m bs =
     do {
       (code, b, nb, m) \<leftarrow> mbuffer_pop (bs ! i) (Some (bs ! j)) n m;
       case nb of None \<Rightarrow> None | Some c \<Rightarrow> only_buffer i (bs[j := c]) (code, b, m)
     }"
| "buf_run (Merge i j) m bs =
     do { (d, s) \<leftarrow> mbuffer_merge (bs ! i) (bs ! j); Some (Done, m, bs[j := s, i := d]) }"
| "buf_run (Reference i j) m bs =
     do { (d, m) \<leftarrow> mbuffer_reference (bs ! i) (bs ! j) m; Some (Done, m, bs[i := d]) }"
| "buf_run (Append_all i j) m bs = mbuffer_append (bs ! i) (bs ! j) m \<bind> only_buffer i bs"
| "buf_run (Drop_tail i n) m bs = do { (b, m) \<leftarrow> mbuffer_droptail (bs ! i) n m; Some (Done, m, bs[i := b]) }"
| "buf_run (Free i) m bs = do { (b, m) \<leftarrow> mbuffer_free (bs ! i) m; Some (Done, m, bs[i := b]) }"
| "buf_run (Crc i off n) m bs = do { c \<leftarrow> mbuffer_crc (bs ! i) off n m; Some (Sum c, m, bs) }"
| "buf_run (Find i d) m bs = do { k \<leftarrow> mbuffer_find (bs ! i) d m; Some (Place k, m, bs) }"
| "buf_run (Compare i j) m bs = do { x \<leftarrow> mbuffer_compare (bs ! i) (bs ! j) m; Some (Truth (x = 0), m, bs) }"

fun buf_runs :: "buf_call list \<Rightarrow> mem \<Rightarrow> buffer list \<Rightarrow> (buf_answer list \<times> mem \<times> buffer list) option" where
  "buf_runs [] m bs = Some ([], m, bs)"
| "buf_runs (c # cs) m bs =
     do {
       (a, m, bs) \<leftarrow> buf_run c m bs;
       (as, m, bs) \<leftarrow> buf_runs cs m bs;
       Some (a # as, m, bs)
     }"

text \<open>The same calls on byte strings.\<close>

definition first_place :: "octet list \<Rightarrow> octet list \<Rightarrow> int" where
  "first_place d t =
     (if length t < length d then - 1
      else case List.find (occurs_at d t) [0..<Suc (length t - length d)] of None \<Rightarrow> - 1 | Some k \<Rightarrow> int k)"

fun text_run :: "buf_call \<Rightarrow> octet list list \<Rightarrow> buf_answer \<times> octet list list" where
  "text_run (Append i d) ts = (Done, ts[i := ts ! i @ d])"
| "text_run (Prepend i d) ts = (Done, ts[i := d @ ts ! i])"
| "text_run (Copy i d) ts = (Done, ts[i := ts ! i @ d])"
| "text_run (Zeros i n) ts = (Done, ts[i := ts ! i @ replicate n 0])"
| "text_run (Read i off n) ts = (Bytes (take n (drop off (ts ! i))), ts)"
| "text_run (Pop_msg i n) ts = (Bytes (take n (ts ! i)), ts[i := drop n (ts ! i)])"
| "text_run (Discard i n) ts = (Done, ts[i := drop n (ts ! i)])"
| "text_run (Pop i j n) ts = (Done, ts[j := ts ! j @ take n (ts ! i), i := drop n (ts ! i)])"
| "text_run (Merge i j) ts = (Done, ts[j := [], i := ts ! i @ ts ! j])"
| "text_run (Reference i j) ts = (Done, ts[i := ts ! i @ ts ! j])"
| "text_run (Append_all i j) ts = (Done, ts[i := ts ! i @ ts ! j])"
| "text_run (Drop_tail i n) ts = (Done, ts[i := take (length (ts ! i) - n) (ts ! i)])"
| "text_run (Free i) ts = (Done, ts[i := []])"
| "text_run (Crc i off n) ts = (Sum (crc32_sum (take n (drop off (ts ! i)))), ts)"
| "text_run (Find i d) ts = (Place (first_place d (ts ! i)), ts)"
| "text_run (Compare i j) ts = (Truth (ts ! i = ts ! j), ts)"

text \<open>What the caller has to see to: the places are in the buffer, no buffer reaches 4 GB, and two
  buffers of one call differ.\<close>

fun fits :: "buf_call \<Rightarrow> octet list list \<Rightarrow> bool" where
  "fits (Append i d) ts \<longleftrightarrow> i < length ts \<and> d \<noteq> [] \<and> length d \<le> BUFFER_SEG_SIZE \<and> length (ts ! i) + length d < 2 ^ 32"
| "fits (Prepend i d) ts \<longleftrightarrow> i < length ts \<and> d \<noteq> [] \<and> length d \<le> BUFFER_SEG_SIZE \<and> length (ts ! i) + length d < 2 ^ 32"
| "fits (Copy i d) ts \<longleftrightarrow> i < length ts \<and> length (ts ! i) + length d < 2 ^ 32"
| "fits (Zeros i n) ts \<longleftrightarrow> i < length ts \<and> length (ts ! i) + n < 2 ^ 32"
| "fits (Read i off n) ts \<longleftrightarrow> i < length ts \<and> off + n \<le> length (ts ! i)"
| "fits (Pop_msg i n) ts \<longleftrightarrow> i < length ts \<and> n \<le> length (ts ! i)"
| "fits (Discard i n) ts \<longleftrightarrow> i < length ts \<and> n \<le> length (ts ! i)"
| "fits (Pop i j n) ts \<longleftrightarrow> i < length ts \<and> j < length ts \<and> i \<noteq> j \<and> 0 < n \<and> n \<le> length (ts ! i) \<and>
     length (ts ! j) + n < 2 ^ 32"
| "fits (Merge i j) ts \<longleftrightarrow> i < length ts \<and> j < length ts \<and> i \<noteq> j \<and> length (ts ! i) + length (ts ! j) < 2 ^ 32"
| "fits (Reference i j) ts \<longleftrightarrow> i < length ts \<and> j < length ts \<and> i \<noteq> j \<and> length (ts ! i) + length (ts ! j) < 2 ^ 32"
| "fits (Append_all i j) ts \<longleftrightarrow> i < length ts \<and> j < length ts \<and> i \<noteq> j \<and> length (ts ! i) + length (ts ! j) < 2 ^ 32"
| "fits (Drop_tail i n) ts \<longleftrightarrow> i < length ts \<and> n \<le> length (ts ! i)"
| "fits (Free i) ts \<longleftrightarrow> i < length ts"
| "fits (Crc i off n) ts \<longleftrightarrow> i < length ts \<and> n \<le> length (ts ! i)"
| "fits (Find i d) ts \<longleftrightarrow> i < length ts"
| "fits (Compare i j) ts \<longleftrightarrow> i < length ts \<and> j < length ts"

fun all_fit :: "buf_call list \<Rightarrow> octet list list \<Rightarrow> bool" where
  "all_fit [] ts \<longleftrightarrow> True"
| "all_fit (c # cs) ts \<longleftrightarrow> fits c ts \<and> all_fit cs (snd (text_run c ts))"

fun text_runs :: "buf_call list \<Rightarrow> octet list list \<Rightarrow> buf_answer list \<times> octet list list" where
  "text_runs [] ts = ([], ts)"
| "text_runs (c # cs) ts =
     (let (a, ts) = text_run c ts; (as, ts) = text_runs cs ts in (a # as, ts))"

section \<open>All buffers together\<close>

definition others :: "nat set \<Rightarrow> buffer list \<Rightarrow> seg multiset" where
  "others I bs = (\<Sum>k \<in> {..<length bs} - I. mset (segs (bs ! k)))"

definition buffers_ok :: "mem \<Rightarrow> buffer list \<Rightarrow> bool" where
  "buffers_ok m bs \<longleftrightarrow> world_ok m (others {} bs) \<and> (\<forall>b \<in> set bs. buffer_ok b)"

lemma others_split: "i < length bs \<Longrightarrow> i \<notin> I \<Longrightarrow> others I bs = mset (segs (bs ! i)) + others (insert i I) bs"
  unfolding others_def by (subst sum.remove [of _ i]) (auto intro: arg_cong2 [of _ _ _ _ "sum"])

lemma others_update [simp]: "i \<in> I \<Longrightarrow> others I (bs[i := b]) = others I bs"
  unfolding others_def by (rule sum.cong) (simp, metis DiffD2 nth_list_update_neq)

lemma buffers_one:
  assumes "buffers_ok m bs" "i < length bs"
  shows "holds m (bs ! i) (others {i} bs)"
  using assms others_split [of i bs "{}"] by (simp add: buffers_ok_def holds_def)

lemma texts_same:
  assumes "others_same m (others I bs) m'" "k < length bs" "k \<notin> I"
  shows "text_of m' (bs ! k) = text_of m (bs ! k)"
  unfolding text_of_def by (rule bytes_others [OF assms(1)]) (simp add: others_split [OF assms(2,3)])

lemma buffers_put:
  assumes "buffers_ok m bs" "i < length bs" "holds m' b (others {i} bs)" "others_same m (others {i} bs) m'"
  shows "buffers_ok m' (bs[i := b])"
    and "map (text_of m') (bs[i := b]) = (map (text_of m) bs)[i := text_of m' b]"
proof -
  have "others {} (bs[i := b]) = mset (segs b) + others {i} bs"
    using assms(2) others_split [of i "bs[i := b]" "{}"] by simp
  then show "buffers_ok m' (bs[i := b])"
    using assms(1,3) set_update_subset_insert [of bs i b] by (auto simp: buffers_ok_def holds_def)
  show "map (text_of m') (bs[i := b]) = (map (text_of m) bs)[i := text_of m' b]"
    by (rule nth_equalityI) (use texts_same [OF assms(4)] assms(2) in \<open>auto simp: nth_list_update\<close>)
qed

lemma buffers_two:
  assumes "buffers_ok m bs" "i < length bs" "j < length bs" "i \<noteq> j"
  shows "both m (bs ! i) (bs ! j) (others {i, j} bs)"
  using buffers_one [OF assms(1,2)] buffers_one [OF assms(1,3)] assms(2-4)
    others_split [of j bs "{i}"] others_split [of i bs "{j}"]
  by (simp add: both_def insert_commute)

lemma buffers_put2:
  assumes "buffers_ok m bs" "i < length bs" "j < length bs" "i \<noteq> j"
    and b: "both m' b c (others {i, j} bs)" and o: "others_same m (others {i, j} bs) m'"
  shows "buffers_ok m' (bs[j := c, i := b])"
    and "map (text_of m') (bs[j := c, i := b]) = (map (text_of m) bs)[j := text_of m' c, i := text_of m' b]"
proof -
  let ?bs = "bs[j := c, i := b]"
  have "others {} ?bs = mset (segs b) + (mset (segs c) + others {i, j} ?bs)"
    using assms(2-4) others_split [of i ?bs "{}"] others_split [of j ?bs "{i}"] by (simp add: insert_commute)
  moreover have "others {i, j} ?bs = others {i, j} bs" by simp
  ultimately have "others {} ?bs = mset (segs b) + (mset (segs c) + others {i, j} bs)" by simp
  moreover have "set ?bs \<subseteq> insert b (insert c (set bs))"
    by (meson insert_mono order_trans set_update_subset_insert)
  ultimately show "buffers_ok m' ?bs"
    using assms(1) b unfolding buffers_ok_def both_def holds_def by auto
  show "map (text_of m') ?bs = (map (text_of m) bs)[j := text_of m' c, i := text_of m' b]"
    by (rule nth_equalityI) (use texts_same [OF o] assms(2-4) in \<open>auto simp: nth_list_update\<close>)
qed

section \<open>One call\<close>

lemma mbuffer_find_ok:
  assumes "holds m b R"
  shows "mbuffer_find b d m = Some (first_place d (text_of m b))"
proof (cases "blen b < length d")
  case True
  then show ?thesis
    using holds_length [OF assms] by (simp add: mbuffer_find_def first_place_def)
next
  case False
  have "\<exists>x. mbuffer_ncmp b k d m = Some x \<and> (x = 0 \<longleftrightarrow> occurs_at d (text_of m b) k)"
    if "k \<in> set [0..<Suc (blen b - length d)]" for k
    unfolding text_of_def
    by (rule mbuffer_ncmp_bytes) (use that False holds_sized(2) [OF assms] holds_readable [OF assms] in auto)
  then have "find_loop (\<lambda>k. mbuffer_ncmp b k d m) [0..<Suc (blen b - length d)] =
    Some (case List.find (occurs_at d (text_of m b)) [0..<Suc (blen b - length d)] of None \<Rightarrow> - 1 | Some k \<Rightarrow> int k)"
    by (rule find_loop_first)
  then show ?thesis
    using False holds_length [OF assms] by (simp add: mbuffer_find_def first_place_def del: upt_Suc)
qed

lemma buf_run_ok:
  assumes ok: "buffers_ok m bs" and f: "fits c (map (text_of m) bs)"
  shows "\<exists>a m' bs'. buf_run c m bs = Some (a, m', bs') \<and> buffers_ok m' bs' \<and>
    (a, map (text_of m') bs') = text_run c (map (text_of m) bs)"
proof -
  note one = buffers_one [OF ok] and two = buffers_two [OF ok]
  note put = buffers_put [OF ok] and put2 = buffers_put2 [OF ok]
  note len = holds_length [OF one]
  show ?thesis
  proof (cases c)
    case (Append i d)
    then show ?thesis
      using f appendmem_ok [OF one, of i d True] put [of i] len
      by (fastforce simp: mbuffer_appendmem_def only_buffer_def)
  next
    case (Prepend i d)
    then show ?thesis
      using f appendmem_ok [OF one, of i d False] put [of i] len
      by (fastforce simp: mbuffer_appendmem_head_def only_buffer_def)
  next
    case (Copy i d)
    then show ?thesis
      using f mbuffer_copy_ok [OF one, of i d] put [of i] len by (fastforce simp: only_buffer_def)
  next
    case (Zeros i n)
    then show ?thesis
      using f mbuffer_appendzero_ok [OF one, of i n] put [of i] len by fastforce
  next
    case (Read i off n)
    then show ?thesis
      using f ok mbuffer_get1_bytes [of "bs ! i" m off n] one [of i] holds_sized(1) holds_readable len
      by (fastforce simp: text_of_def)
  next
    case (Pop_msg i n)
    then show ?thesis
      using f mbuffer_popmsg_ok [OF one, of i n] put [of i] len by fastforce
  next
    case (Discard i n)
    then show ?thesis
      using f mbuffer_discard_ok [OF one, of i n] put [of i] len by (fastforce simp: only_buffer_def)
  next
    case (Drop_tail i n)
    then show ?thesis
      using f mbuffer_droptail_ok [OF one, of i n] put [of i] len by fastforce
  next
    case (Free i)
    then show ?thesis
      using f mbuffer_free_ok [OF one, of i] put [of i] empty_holds
      by (fastforce simp: text_of_def empty_buffer_def)
  next
    case (Crc i off n)
    then show ?thesis
      using f ok mbuffer_crc_bytes [of "bs ! i" m n off] one [of i] holds_sized(1) holds_readable len
      by (fastforce simp: text_of_def)
  next
    case (Find i d)
    then show ?thesis
      using f ok mbuffer_find_ok [OF one] by simp
  next
    case (Compare i j)
    then have ij: "i < length bs" "j < length bs" using f by auto
    have "\<forall>s \<in> set (segs (bs ! i)). readable m s" "\<forall>s \<in> set (segs (bs ! j)). readable m s"
      using holds_readable [OF one [OF ij(1)]] holds_readable [OF one [OF ij(2)]] by auto
    from mbuffer_compare_bytes [OF holds_sized(1) [OF one [OF ij(1)]] holds_sized(1) [OF one [OF ij(2)]] this]
    obtain x where "mbuffer_compare (bs ! i) (bs ! j) m = Some x"
      "x = 0 \<longleftrightarrow> text_of m (bs ! i) = text_of m (bs ! j)"
      by (auto simp: text_of_def)
    then show ?thesis
      using Compare ok ij by simp
  next
    case (Pop i j n)
    then show ?thesis
      using f mbuffer_pop_ok [OF two, of i j n] put2 [of i j] len by (fastforce simp: only_buffer_def)
  next
    case (Merge i j)
    then have ij: "i < length bs" "j < length bs" "i \<noteq> j" using f by auto
    have "blen (bs ! i) + blen (bs ! j) < 2 ^ 32" using f Merge len ij by simp
    then show ?thesis
      using Merge mbuffer_merge_ok [OF two [OF ij]] put2 [OF ij, of m _ empty_buffer] ij
      by (fastforce simp: text_of_def empty_buffer_def)
  next
    case (Reference i j)
    then have ij: "i < length bs" "j < length bs" "i \<noteq> j" using f by auto
    have e: "mset (segs (bs ! j)) + others {i, j} bs = others {i} bs"
      using ij others_split [of j bs "{i}"] by (simp add: insert_commute)
    have "blen (bs ! i) + blen (bs ! j) < 2 ^ 32" using f Reference len ij by simp
    then show ?thesis
      using Reference mbuffer_reference_ok [OF two [OF ij]] put [OF ij(1)] ij e
      by (fastforce simp: both_def)
  next
    case (Append_all i j)
    then have ij: "i < length bs" "j < length bs" "i \<noteq> j" using f by auto
    have e: "mset (segs (bs ! j)) + others {i, j} bs = others {i} bs"
      using ij others_split [of j bs "{i}"] by (simp add: insert_commute)
    have "blen (bs ! i) + blen (bs ! j) < 2 ^ 32" using f Append_all len ij by simp
    then show ?thesis
      using Append_all mbuffer_append_ok [OF two [OF ij]] put [OF ij(1)] ij e
      by (fastforce simp: both_def only_buffer_def)
  qed
qed

lemma buf_runs_ok:
  assumes "buffers_ok m bs" "all_fit cs (map (text_of m) bs)"
  shows "\<exists>as m' bs'. buf_runs cs m bs = Some (as, m', bs') \<and> buffers_ok m' bs' \<and>
    (as, map (text_of m') bs') = text_runs cs (map (text_of m) bs)"
  using assms
proof (induction cs arbitrary: m bs)
  case (Cons c cs)
  have "fits c (map (text_of m) bs)" using Cons.prems(2) by simp
  from buf_run_ok [OF Cons.prems(1) this] obtain a m1 bs1 where
    r: "buf_run c m bs = Some (a, m1, bs1)" "buffers_ok m1 bs1"
      "(a, map (text_of m1) bs1) = text_run c (map (text_of m) bs)"
    by blast
  then have t: "text_run c (map (text_of m) bs) = (a, map (text_of m1) bs1)" by simp
  then have "all_fit cs (map (text_of m1) bs1)" using Cons.prems(2) by simp
  from Cons.IH [OF r(2) this] obtain as m2 bs2 where
    "buf_runs cs m1 bs1 = Some (as, m2, bs2)" "buffers_ok m2 bs2"
    "text_runs cs (map (text_of m1) bs1) = (as, map (text_of m2) bs2)"
    by (metis)
  then show ?case using r(1) t by simp
qed simp

section \<open>The start\<close>

text \<open>The memory when the program starts: no page pool yet, and every request will be granted.\<close>

definition fresh_mem :: "mem \<Rightarrow> bool" where
  "fresh_mem m \<longleftrightarrow> pool m = None \<and> (\<forall>k. grants m k \<and> small_grants m k) \<and> dom (blocks m) \<subseteq> {..<asked m} \<and>
     0 < memcache_count m \<and> memcache_count m < 2 ^ 15 - 1 \<and> BUFFER_SEG_SIZE \<le> memcache_seg m"

lemma init_entries_ok:
  assumes "\<forall>k. grants m k" "dom (blocks m) \<subseteq> {..<asked m}" "init_entries n q m = (es, m')"
  shows "length es = n \<and> asked m \<le> asked m' \<and> dom (blocks m') \<subseteq> {..<asked m'} \<and>
    (\<forall>b bs. blocks m b = Some bs \<longrightarrow> blocks m' b = Some bs) \<and>
    (\<forall>e \<in> set es. ref e = 0 \<and> eoffset e = 0 \<and> esize e = memcache_seg m \<and>
      (\<exists>b bs. addr e = Some b \<and> asked m \<le> b \<and> blocks m' b = Some bs \<and> length bs = memcache_seg m)) \<and>
    distinct (map addr es) \<and> grants m' = grants m \<and> small_grants m' = small_grants m \<and>
    use_memcache m' = use_memcache m \<and> pool m' = pool m"
  using assms
proof (induction n arbitrary: m q es m')
  case (Suc n)
  let ?b = "asked m"
  define m1 where "m1 = m\<lparr>blocks := (blocks m)(?b \<mapsto> map (garbage m ?b) [0..<memcache_seg m]), asked := Suc ?b\<rparr>"
  obtain es1 where e: "init_entries n (Some ?b) m1 = (es1, m')"
    "es = \<lparr>ref = 0, addr = Some ?b, esize = memcache_seg m, eoffset = 0\<rparr> # es1"
    using Suc.prems(1,3) by (auto simp: memalign_def m1_def Let_def split: prod.splits)
  have "?b \<notin> dom (blocks m)" using Suc.prems(2) by auto
  then have old: "blocks m b = Some bs \<Longrightarrow> blocks m1 b = Some bs" for b bs
    by (auto simp: m1_def)
  have b: "blocks m1 ?b = Some (map (garbage m ?b) [0..<memcache_seg m])" by (simp add: m1_def)
  have "\<forall>k. grants m1 k" "dom (blocks m1) \<subseteq> {..<asked m1}"
    using Suc.prems(1,2) by (auto simp: m1_def)
  note ih = Suc.IH [OF this e(1)]
  have f: "asked m1 = Suc ?b" "memcache_seg m1 = memcache_seg m" "grants m1 = grants m"
    "small_grants m1 = small_grants m" "use_memcache m1 = use_memcache m" "pool m1 = pool m"
    by (simp_all add: m1_def)
  have "Some ?b \<notin> set (map addr es1)"
    using ih f(1) by fastforce
  then show ?case
    using ih e(2) f old b by fastforce
qed auto

lemma pool_init_ok:
  assumes "fresh_mem m"
  shows "\<exists>m'. mem_hugepage_init m = Some (None, m') \<and> world_ok m' {#}"
proof (cases "use_memcache m")
  case False
  then show ?thesis
    using assms by (simp add: mem_hugepage_init_def fresh_mem_def world_ok_def pool_ok_def all_apart_def)
next
  case True
  let ?m = "m\<lparr>asked := Suc (asked m)\<rparr>"
  obtain es m' where i: "init_entries (memcache_count m) None ?m = (es, m')"
    by (metis surj_pair)
  have "\<forall>k. grants ?m k" "dom (blocks ?m) \<subseteq> {..<asked ?m}"
    using assms by (auto simp: fresh_mem_def lessThan_Suc)
  note e = init_entries_ok [OF this i]
  define m2 where "m2 = m'\<lparr>pool := Some \<lparr>cur_entry = 0, array = es\<rparr>\<rparr>"
  have "mem_hugepage_init m = Some (None, m2)"
    using True assms i by (simp add: mem_hugepage_init_def fresh_mem_def small_alloc_def m2_def Let_def)
  moreover have "entry_ok m2 x" if "x \<in> set es" for x
    using e that assms by (fastforce simp: entry_ok_def m2_def fresh_mem_def)
  then have "world_ok m2 {#}"
    using e assms by (simp add: world_ok_def pool_ok_def m2_def fresh_mem_def all_apart_def users_def)
  ultimately show ?thesis by blast
qed


definition start_mem :: mem where
  "start_mem = \<lparr>blocks = \<lambda>b. None, asked = 0, grants = \<lambda>k. True, small_grants = \<lambda>k. True,
     garbage = \<lambda>b i. 7, use_memcache = True, memcache_count = 2, memcache_seg = BUFFER_SEG_SIZE, pool = None\<rparr>"

lemma start_mem_fresh: "fresh_mem start_mem"
  by (simp add: start_mem_def fresh_mem_def)

definition some_calls :: "buf_call list" where
  "some_calls = [Copy 0 [1, 2, 3], Append 1 [4], Reference 1 0, Zeros 0 2, Pop 1 2 2, Merge 0 2, Find 0 [0, 4],
     Drop_tail 0 1, Read 0 1 3, Compare 0 1, Crc 0 2 3, Pop_msg 0 2, Free 1]"



end
