(* ===== verification/BufferQueue.thy ===== *)
theory BufferQueue
  imports BufferProps
begin

text \<open>
  What the message code relies on: a buffer is a queue of bytes, into which messages are copied at
  the end and from which they are taken at the front. The locale states this contract, its lemma says that
  messages come back one by one, and the interpretation discharges it for the functions of
  \<^verbatim>\<open>src/sdfs/ylib/lib/buffer.c\<close>.
\<close>

fun put_all :: "(octet list \<Rightarrow> 'q \<Rightarrow> 'q option) \<Rightarrow> octet list list \<Rightarrow> 'q \<Rightarrow> 'q option" where
  "put_all put [] q = Some q"
| "put_all put (d # ds) q = put d q \<bind> put_all put ds"

fun get_all :: "(nat \<Rightarrow> 'q \<Rightarrow> (octet list \<times> 'q) option) \<Rightarrow> nat list \<Rightarrow> 'q \<Rightarrow> (octet list list \<times> 'q) option" where
  "get_all get [] q = Some ([], q)"
| "get_all get (n # ns) q =
     do { (d, q) \<leftarrow> get n q; (ds, q) \<leftarrow> get_all get ns q; Some (d # ds, q) }"

locale byte_queue =
  fixes put :: "octet list \<Rightarrow> 'q \<Rightarrow> 'q option"
    and get :: "nat \<Rightarrow> 'q \<Rightarrow> (octet list \<times> 'q) option"
    and ok :: "'q \<Rightarrow> bool"
    and contents :: "'q \<Rightarrow> octet list"
    and room :: nat
  assumes put_contents: "ok q \<Longrightarrow> length (contents q) + length d < room \<Longrightarrow>
      \<exists>q'. put d q = Some q' \<and> ok q' \<and> contents q' = contents q @ d"
    and get_text: "ok q \<Longrightarrow> n \<le> length (contents q) \<Longrightarrow>
      \<exists>q'. get n q = Some (take n (contents q), q') \<and> ok q' \<and> contents q' = drop n (contents q)"
begin

lemma put_all_text:
  "ok q \<Longrightarrow> length (contents q) + length (concat ds) < room \<Longrightarrow>
     \<exists>q'. put_all put ds q = Some q' \<and> ok q' \<and> contents q' = contents q @ concat ds"
proof (induction ds arbitrary: q)
  case (Cons d ds)
  then obtain q1 where "put d q = Some q1" "ok q1" "contents q1 = contents q @ d"
    using put_contents [of q d] by auto
  then show ?case
    using Cons.IH [of q1] Cons.prems(2) by auto
qed simp

lemma get_all_text:
  "ok q \<Longrightarrow> contents q = concat ds @ rest \<Longrightarrow>
     \<exists>q'. get_all get (map length ds) q = Some (ds, q') \<and> ok q' \<and> contents q' = rest"
proof (induction ds arbitrary: q)
  case (Cons d ds)
  then obtain q1 where "get (length d) q = Some (d, q1)" "ok q1" "contents q1 = concat ds @ rest"
    using get_text [of q "length d"] by auto
  then show ?case
    using Cons.IH [of q1] by auto
qed simp

lemma come_back:
  assumes "ok q" "length (contents q) + length (concat ds) < room"
  shows "\<exists>q1 q2. put_all put ds q = Some q1 \<and>
    get_all get (length (contents q) # map length ds) q1 = Some (contents q # ds, q2) \<and> contents q2 = []"
proof -
  obtain q1 where q1: "put_all put ds q = Some q1" "ok q1" "contents q1 = contents q @ concat ds"
    using put_all_text [OF assms] by blast
  then have "contents q1 = concat (contents q # ds) @ []" by simp
  from get_all_text [OF q1(2) this] q1(1) show ?thesis by auto
qed

end

definition buffer_put :: "octet list \<Rightarrow> mem \<times> buffer \<Rightarrow> (mem \<times> buffer) option" where
  "buffer_put d = (\<lambda>(m, b). do { (code, b, m) \<leftarrow> mbuffer_copy b d m; if code = None then Some (m, b) else None })"

definition buffer_get :: "nat \<Rightarrow> mem \<times> buffer \<Rightarrow> (octet list \<times> mem \<times> buffer) option" where
  "buffer_get n = (\<lambda>(m, b). do { (d, b, m) \<leftarrow> mbuffer_popmsg b n m; Some (d, m, b) })"

interpretation message_buffer: byte_queue buffer_put buffer_get "\<lambda>(m, b). holds m b {#}" "\<lambda>(m, b). text_of m b" "2 ^ 32"
proof (unfold_locales, goal_cases)
  case (1 q d)
  obtain m b where q: "q = (m, b)" by (cases q)
  then have h: "holds m b {#}" using 1 by simp
  from mbuffer_copy_ok [OF h, of d] 1 q holds_length [OF h] show ?case
    by (auto simp: buffer_put_def)
next
  case (2 q n)
  obtain m b where q: "q = (m, b)" by (cases q)
  then have h: "holds m b {#}" using 2 by simp
  from mbuffer_popmsg_ok [OF h, of n] 2 q holds_length [OF h] show ?case
    by (auto simp: buffer_get_def)
qed

text \<open>C13: Messages copied into a buffer one after the other come back one by one, with the lengths
  they had, after what the buffer held before, and the buffer is empty then, whatever blocks and pages the bytes went
  through.\<close>
theorem messages_come_back:
  assumes "holds m b {#}" "length (text_of m b) + length (concat ds) < 2 ^ 32"
  shows "\<exists>q m' b'. put_all buffer_put ds (m, b) = Some q \<and>
    get_all buffer_get (length (text_of m b) # map length ds) q = Some (text_of m b # ds, (m', b')) \<and>
    text_of m' b' = []"
  using message_buffer.come_back [of "(m, b)" ds] assms by auto

definition plain_mem :: mem where
  "plain_mem = start_mem\<lparr>use_memcache := False\<rparr>"

lemma plain_mem_ok: "world_ok plain_mem {#}"
  by (simp add: plain_mem_def start_mem_def world_ok_def pool_ok_def all_apart_def)

theorem messages_come_back_witness:
  "\<exists>q m' b'. put_all buffer_put [[1, 2], [], [3]] (plain_mem, empty_buffer) = Some q \<and>
    get_all buffer_get (length (text_of plain_mem empty_buffer) # map length [[1, 2], [], [3 :: octet]]) q =
      Some (text_of plain_mem empty_buffer # [[1, 2], [], [3]], (m', b')) \<and> text_of m' b' = []"
  by (rule messages_come_back [OF empty_holds [OF plain_mem_ok]]) (simp add: text_of_def empty_buffer_def)

end
