(* ===== verification/BufferLimits.thy ===== *)
theory BufferLimits
  imports BufferQueue
begin

text \<open>
  Writing into a buffer in place, what that means for a reference, and the limits of the code:
  requests the page pool never answers, and errors that leave a buffer or the pool in a state the
  code does not expect.
\<close>

section \<open>Writing in place\<close>

lemma clear_of_sym: "clear_of s t \<Longrightarrow> clear_of t s"
  by (auto simp: clear_of_def)

lemma overwrite_nil [simp]: "overwrite k [] bs = bs"
  by (simp add: overwrite_def)

lemma overwrite_split:
  assumes "k \<le> length xs" "length ds = (length xs - k) + length es" "length es \<le> length ys"
  shows "overwrite k (take (length xs - k) ds) xs @ overwrite 0 (drop (length xs - k) ds) ys = overwrite k ds (xs @ ys)"
  using assms by (simp add: overwrite_def)

lemma overwrite_left: "k + length ds \<le> length xs \<Longrightarrow> overwrite k ds (xs @ ys) = overwrite k ds xs @ ys"
  by (simp add: overwrite_def)

lemma overwrite_right: "length xs \<le> k \<Longrightarrow> overwrite k ds (xs @ ys) = xs @ overwrite (k - length xs) ds ys"
  by (simp add: overwrite_def)

lemma same_shape_refl [simp]: "same_shape m m"
  by (auto simp: same_shape_def intro!: exI [of _ "blocks m"])

lemma same_shape_trans: "same_shape m m1 \<Longrightarrow> same_shape m1 m2 \<Longrightarrow> same_shape m m2"
  by (auto simp: same_shape_def)

lemma same_shape_readable: "same_shape m m' \<Longrightarrow> readable m' s \<longleftrightarrow> readable m s"
  using same_shape_blocks(2) [of m m'] by (auto simp: readable_iff)

lemma copy1_loop_bytes:
  assumes "\<forall>s \<in> set ss. readable m s" "sorted_wrt clear_of ss" "offset + len = fin" "buf_off \<le> fin"
    "fin \<le> buf_off + seg_sum ss" "length src = (if buf_off \<le> offset then len else fin - buf_off)"
  shows "\<exists>m'. copy1_loop ss src buf_off offset fin len (length src) m = Some (m', 0) \<and> same_shape m m' \<and>
    bytes m' ss = overwrite (offset - buf_off) src (bytes m ss) \<and>
    (\<forall>t. readable m t \<and> (\<forall>s \<in> set ss. clear_of s t) \<longrightarrow> seg_bytes m' t = seg_bytes m t)"
  using assms
proof (induction ss arbitrary: buf_off src m)
  case Nil
  then show ?case by (auto split: if_splits)
next
  case (Cons s ss)
  have s: "readable m s" "0 < seg_len s" "seg_ptr s \<noteq> None" using Cons.prems(1) readable_facts by auto
  note span = seg_span_part [OF Cons.prems(3,4,6) s(2)]
  show ?case
  proof (cases "buf_off + seg_len s \<le> offset")
    case True
    show ?thesis
    proof (cases "src = []")
      case nil: True
      then show ?thesis using span True by (auto simp: poke_def)
    next
      case False
      have "\<exists>m'. copy1_loop ss src (buf_off + seg_len s) offset fin len (length src) m = Some (m', 0) \<and> same_shape m m' \<and>
        bytes m' ss = overwrite (offset - (buf_off + seg_len s)) src (bytes m ss) \<and>
        (\<forall>t. readable m t \<and> (\<forall>s \<in> set ss. clear_of s t) \<longrightarrow> seg_bytes m' t = seg_bytes m t)"
        by (rule Cons.IH) (use Cons.prems True in auto)
      then obtain m' where m': "copy1_loop ss src (buf_off + seg_len s) offset fin len (length src) m = Some (m', 0)"
        "same_shape m m'" "bytes m' ss = overwrite (offset - (buf_off + seg_len s)) src (bytes m ss)"
        "\<forall>t. readable m t \<and> (\<forall>s \<in> set ss. clear_of s t) \<longrightarrow> seg_bytes m' t = seg_bytes m t"
        by blast
      have "seg_bytes m' s = seg_bytes m s"
        using m'(4) s(1) Cons.prems(2) clear_of_sym by auto
      then show ?thesis
        using m' span True False s(1) by (auto simp: poke_def overwrite_right)
    qed
  next
    case False
    let ?k = "offset - buf_off" and ?n = "min (length src) (seg_len s - (offset - buf_off))"
    have "?k + length (take ?n src) \<le> seg_len s" using False by auto
    from poke_ok [OF s(1) this] obtain m1 where
      m1: "poke (map_option (\<lambda>(b, off). (b, off + ?k)) (seg_ptr s)) (take ?n src) m = Some m1" "same_shape m m1"
        "seg_bytes m1 s = overwrite ?k (take ?n src) (seg_bytes m s)"
        "\<And>t. readable m t \<Longrightarrow> clear_of s t \<Longrightarrow> seg_bytes m1 t = seg_bytes m t"
      by blast
    have rest: "bytes m1 ss = bytes m ss"
      by (rule bytes_same) (use m1(4) Cons.prems(1,2) in auto)
    show ?thesis
    proof (cases "length src \<le> seg_len s - ?k")
      case True
      then have "copy1_loop (s # ss) src buf_off offset fin len (length src) m = Some (m1, 0)"
        using span False m1(1) by (simp add: min_def)
      moreover have "bytes m1 (s # ss) = overwrite ?k src (bytes m (s # ss))"
        using m1(3) rest True s(1) False by (simp add: min_def overwrite_left)
      ultimately show ?thesis using m1(2,4) by auto
    next
      case inner: False
      then have n: "?n = seg_len s - ?k" by simp
      have "\<exists>m'. copy1_loop ss (drop ?n src) (buf_off + seg_len s) offset fin len (length (drop ?n src)) m1 = Some (m', 0) \<and>
        same_shape m1 m' \<and> bytes m' ss = overwrite (offset - (buf_off + seg_len s)) (drop ?n src) (bytes m1 ss) \<and>
        (\<forall>t. readable m1 t \<and> (\<forall>s \<in> set ss. clear_of s t) \<longrightarrow> seg_bytes m' t = seg_bytes m1 t)"
        by (rule Cons.IH) (use Cons.prems False inner same_shape_readable [OF m1(2)] in \<open>auto split: if_splits\<close>)
      then obtain m' where m': "copy1_loop ss (drop ?n src) (buf_off + seg_len s) offset fin len (length src - ?n) m1 = Some (m', 0)"
        "same_shape m1 m'" "bytes m' ss = overwrite 0 (drop ?n src) (bytes m ss)"
        "\<And>t. readable m1 t \<Longrightarrow> \<forall>s \<in> set ss. clear_of s t \<Longrightarrow> seg_bytes m' t = seg_bytes m1 t"
        using False rest by auto
      have "copy1_loop (s # ss) src buf_off offset fin len (length src) m = Some (m', 0)"
        using span False inner m1(1) m'(1) n by simp
      moreover have "seg_bytes m' s = seg_bytes m1 s"
        using m'(4) s(1) same_shape_readable [OF m1(2)] Cons.prems(2) clear_of_sym by auto
      moreover have "length (drop ?n src) \<le> length (bytes m ss)"
        using Cons.prems False inner length_bytes [of ss m] n by (auto split: if_splits)
      then have "overwrite ?k (take ?n src) (seg_bytes m s) @ overwrite 0 (drop ?n src) (bytes m ss) =
          overwrite ?k src (bytes m (s # ss))"
        using overwrite_split [of ?k "seg_bytes m s" src "drop ?n src" "bytes m ss"] s(1) False inner n by simp
      ultimately show ?thesis
        using m1(2-4) m'(2-4) same_shape_trans [OF m1(2) m'(2)] same_shape_readable [OF m1(2)]
        by (intro exI [of _ m']) auto
    qed
  qed
qed

text \<open>A memory with a buffer of three bytes in the first of two pages, at which the theorems below are applied.\<close>

definition page_seg3 :: seg where
  "page_seg3 = \<lparr>seg_type = BUFFER_RW, seg_len = 3, seg_idx = 0, seg_ptr = Some (0, 0), is_attach = False,
     seg_memcache = True, base_ptr = None\<rparr>"

definition page_mem :: mem where
  "page_mem = start_mem\<lparr>blocks := [0 \<mapsto> replicate BUFFER_SEG_SIZE 5, 1 \<mapsto> replicate BUFFER_SEG_SIZE 6], asked := 2,
     pool := Some \<lparr>cur_entry = 0, array =
       [\<lparr>ref = 1, addr = Some 0, esize = BUFFER_SEG_SIZE, eoffset = 4096\<rparr>,
        \<lparr>ref = 0, addr = Some 1, esize = BUFFER_SEG_SIZE, eoffset = 0\<rparr>]\<rparr>\<rparr>"

definition page_buffer :: buffer where
  "page_buffer = \<lparr>blen = 3, segs = [page_seg3]\<rparr>"

lemma page_holds: "holds page_mem page_buffer {#}"
proof -
  have "readable page_mem page_seg3"
    by (simp add: readable_def page_seg3_def page_mem_def peek_def BUFFER_SEG_SIZE_def)
  moreover have "in_pool page_mem page_seg3"
    by (simp add: in_pool_def page_seg3_def page_mem_def)
  ultimately have "seg_ok page_mem page_seg3"
    by (simp add: seg_ok_def page_seg3_def)
  moreover have "pool_ok page_mem {#page_seg3#}"
    by (simp add: pool_ok_def page_mem_def entry_ok_def users_def page_seg3_def BUFFER_SEG_SIZE_def less_Suc_eq
        numeral_2_eq_2)
  ultimately have "world_ok page_mem {#page_seg3#}"
    by (simp add: world_ok_def all_apart_def) (simp add: page_mem_def start_mem_def)
  then show ?thesis
    by (simp add: holds_def buffer_ok_def sized_right_def page_buffer_def page_seg3_def BUFFER_SEG_SIZE_def)
qed

text \<open>Writing into a buffer in place succeeds within the buffer, puts the bytes exactly there, and
  leaves every segment of another buffer alone that does not lie in the same memory.\<close>
theorem copy_in_place:
  assumes h: "holds m b R" and s: "sorted_wrt clear_of (segs b)" and n: "offset + length src \<le> blen b"
  shows "\<exists>m'. mbuffer_copy1 b src offset m = Some m' \<and> holds m' b R \<and>
    text_of m' b = overwrite offset src (text_of m b) \<and>
    (\<forall>t \<in># R. (\<forall>s \<in> set (segs b). clear_of s t) \<longrightarrow> seg_bytes m' t = seg_bytes m t)"
proof -
  have r: "\<forall>s \<in> set (segs b). readable m s" using holds_readable [OF h] by blast
  have f: "sum32 offset (length src) = offset + length src" "blen b = seg_sum (segs b)"
    using n holds_sized [OF h] by (simp_all add: sum32_def sized_right_def)
  obtain m' where m': "copy1_loop (segs b) src 0 offset (offset + length src) (length src) (length src) m = Some (m', 0)"
    "same_shape m m'" "bytes m' (segs b) = overwrite offset src (bytes m (segs b))"
    "\<And>t. readable m t \<Longrightarrow> \<forall>s \<in> set (segs b). clear_of s t \<Longrightarrow> seg_bytes m' t = seg_bytes m t"
    using copy1_loop_bytes [OF r s, of offset "length src" "offset + length src" 0 src] n f by auto
  have "holds m' b R"
    using h world_same_shape [OF m'(2)] by (simp add: holds_def)
  moreover have "readable m t" if "t \<in># R" for t
    using h that by (auto simp: holds_def dest: world_okD(7))
  ultimately show ?thesis
    using m' n f(1) holds_check [OF h] by (auto simp: mbuffer_copy1_def text_of_def)
qed

theorem copy_in_place_witness:
  "\<exists>m'. mbuffer_copy1 page_buffer [8, 9] 1 page_mem = Some m' \<and> text_of m' page_buffer = [5, 8, 9]"
proof -
  have t: "text_of page_mem page_buffer = [5, 5, 5]"
    by (simp add: text_of_def bytes_def page_buffer_def page_seg3_def seg_bytes_def peek_def page_mem_def BUFFER_SEG_SIZE_def
        numeral_3_eq_3)
  show ?thesis
    using copy_in_place [OF page_holds, of 1 "[8, 9]"] t by (auto simp: page_buffer_def overwrite_def)
qed

lemma copy1_loop_places:
  "map seg_ptr ts = map seg_ptr ss \<Longrightarrow> map seg_len ts = map seg_len ss \<Longrightarrow>
     copy1_loop ts src bo off fin len left m = copy1_loop ss src bo off fin len left m"
  by (induction ts ss arbitrary: src bo left m rule: list_induct2') (auto cong: if_cong)

text \<open>With the page pool, a reference to a buffer is the same memory. It has the bytes of the
  buffer in every later state of the memory, and a write into one is the same write into the other.\<close>
theorem reference_aliases:
  assumes h: "holds m s R" and u: "use_memcache m" "\<forall>x \<in> set (segs s). seg_memcache x"
  shows "\<exists>d m1. mbuffer_reference empty_buffer s m = Some (d, m1) \<and> text_of m1 d = text_of m s \<and>
    (\<forall>m2. text_of m2 d = text_of m2 s) \<and>
    (\<forall>src offset. mbuffer_copy1 d src offset m1 = mbuffer_copy1 s src offset m1)"
proof -
  have w: "world_ok m (mset (segs s) + R)" using h by (simp add: holds_def)
  have b: "both m empty_buffer s R"
    using h empty_holds [OF w] by (simp add: both_def empty_buffer_def)
  have ss: "\<forall>x \<in> set (segs s). x \<in># mset (segs s) + R \<and> seg_len x \<le> BUFFER_SEG_SIZE \<and> seg_memcache x"
    using h u(2) by (simp add: holds_def buffer_ok_def)
  have e: "holds m empty_buffer (mset (segs s) + R)" by (rule empty_holds [OF w])
  have n: "blen empty_buffer + seg_sum (segs s) < 2 ^ 32"
    using holds_sized [OF h] by (simp add: empty_buffer_def sized_right_def)
  obtain d m1 ts where r: "share_loop (segs s) empty_buffer m = Some (d, m1)" "holds m1 d (mset (segs s) + R)"
    "segs d = segs empty_buffer @ ts" "map seg_ptr ts = map seg_ptr (segs s)" "map seg_len ts = map seg_len (segs s)"
    "\<forall>t. seg_bytes m1 t = seg_bytes m t"
    using share_loop_ok [OF e ss n u(1)] by blast
  have d: "segs d = ts" using r(3) by (simp add: empty_buffer_def)
  have same: "text_of m2 d = text_of m2 s" for m2
    unfolding text_of_def d by (rule bytes_places [OF r(4,5)])
  have "mbuffer_reference empty_buffer s m = Some (d, m1)"
    using u r(1) holds_check [OF h] holds_check [OF e] holds_check [OF r(2)]
    by (simp add: mbuffer_reference_def)
  moreover have "text_of m1 d = text_of m s"
    unfolding same unfolding text_of_def by (rule bytes_same) (simp add: r(6))
  moreover have "copy1_loop ts src bo off fin len left mm = copy1_loop (segs s) src bo off fin len left mm"
    for src bo off fin len left mm
    by (rule copy1_loop_places [OF r(4,5)])
  moreover have "blen d = blen s"
    using holds_length [OF r(2)] holds_length [OF h] \<open>text_of m1 d = text_of m s\<close> by simp
  moreover have "buffer_check d = Some ()" "buffer_check s = Some ()"
    using holds_check [OF r(2)] holds_check [OF h] by simp_all
  ultimately show ?thesis
    using same d by (auto simp: mbuffer_copy1_def)
qed

theorem reference_aliases_witness:
  "\<exists>d m1. mbuffer_reference empty_buffer page_buffer page_mem = Some (d, m1) \<and>
    (\<forall>m2. text_of m2 d = text_of m2 page_buffer)"
  using reference_aliases [OF page_holds] by (auto simp: page_buffer_def page_seg3_def page_mem_def start_mem_def)

lemma clone_loop_clear:
  assumes "holds m d R" "\<forall>s \<in> set ss. s \<in># R \<and> seg_len s \<le> BUFFER_SEG_SIZE" "blen d + seg_sum ss < 2 ^ 32"
  shows "\<exists>d' m' ts. clone_loop ss d m = Some (d', m') \<and> segs d' = segs d @ ts \<and> sorted_wrt clear_of ts \<and>
    (\<forall>t \<in> set ts. \<forall>u \<in># mset (segs d) + R. clear_of t u)"
  using assms
proof (induction ss arbitrary: d m)
  case (Cons s ss)
  have "s \<in># mset (segs d) + R" "world_ok m (mset (segs d) + R)"
    using Cons.prems(1,2) by (auto simp: holds_def)
  then have "readable m s" using world_okD(7) by blast
  note r = this readable_facts(1,2) [OF this]
  let ?x = "seg_bytes m s"
  have x: "0 < length ?x" "length ?x \<le> BUFFER_SEG_SIZE" "blen d + length ?x < 2 ^ 32"
    using r Cons.prems(2,3) by auto
  obtain d1 m1 t where a: "mbuffer_appendmem d ?x m = Some (None, d1, m1)" "holds m1 d1 R"
    "blen d1 = blen d + length ?x" "segs d1 = segs d @ [t]" "\<forall>u \<in># mset (segs d) + R. clear_of t u"
    using appendmem_clear [OF Cons.prems(1) x, of True] by (auto simp: mbuffer_appendmem_def)
  have "\<forall>s \<in> set ss. s \<in># R \<and> seg_len s \<le> BUFFER_SEG_SIZE" "blen d1 + seg_sum ss < 2 ^ 32"
    using Cons.prems(2,3) a(3) r by auto
  from Cons.IH [OF a(2) this] obtain d2 m2 ts where "clone_loop ss d1 m1 = Some (d2, m2)" "segs d2 = segs d1 @ ts"
    "sorted_wrt clear_of ts" "\<forall>t \<in> set ts. \<forall>u \<in># mset (segs d1) + R. clear_of t u"
    by blast
  then show ?case
    using a r readable_peek [OF r(1)] clear_of_sym
    by (intro exI [of _ d2] exI [of _ m2] exI [of _ "t # ts"]) auto
qed simp

text \<open>C31: A clone of a buffer is its own memory: a write into the clone is seen there, and the buffer
  keeps its bytes.\<close>
theorem clone_is_independent:
  assumes h: "holds m b R" and n: "offset + length src \<le> blen b"
  shows "\<exists>c m1 m2. mbuffer_clone b m = Some (c, m1) \<and> mbuffer_copy1 c src offset m1 = Some m2 \<and>
    text_of m2 c = overwrite offset src (text_of m b) \<and> text_of m2 b = text_of m b"
proof -
  obtain c m1 where c: "mbuffer_clone b m = Some (c, m1)" "both m1 c b R" "others_same m (mset (segs b) + R) m1"
    "text_of m1 c = text_of m b"
    using mbuffer_clone_ok [OF h] by blast
  have w: "world_ok m (mset (segs b) + R)" using h by (simp add: holds_def)
  have ss: "\<forall>x \<in> set (segs b). x \<in># mset (segs b) + R \<and> seg_len x \<le> BUFFER_SEG_SIZE"
    "blen empty_buffer + seg_sum (segs b) < 2 ^ 32"
    using h by (auto simp: holds_def buffer_ok_def sized_right_def empty_buffer_def)
  obtain c' m1' ts where cl: "clone_loop (segs b) empty_buffer m = Some (c', m1')" "segs c' = segs empty_buffer @ ts"
    "sorted_wrt clear_of ts" "\<forall>t \<in> set ts. \<forall>u \<in># mset (segs empty_buffer) + (mset (segs b) + R). clear_of t u"
    using clone_loop_clear [OF empty_holds [OF w] ss] by blast
  have "mbuffer_init 0 m = Some (empty_buffer, m)"
    using holds_check [OF empty_holds [OF w]] by (simp add: mbuffer_init_def alloc_loop.simps)
  then have "c' = c" "m1' = m1"
    using c(1) cl(1) holds_check [OF h] by (auto simp: mbuffer_clone_def bind_eq_Some_conv)
  then have ts: "segs c = ts" "\<forall>t \<in> set ts. \<forall>u \<in> set (segs b). clear_of t u"
    using cl by (auto simp: empty_buffer_def)
  have hc: "holds m1 c (mset (segs b) + R)" using c(2) by (simp add: both_def)
  have "blen c = blen b" using holds_length [OF hc] holds_length [OF h] c(4) by simp
  then obtain m2 where m2: "mbuffer_copy1 c src offset m1 = Some m2" "text_of m2 c = overwrite offset src (text_of m1 c)"
    "\<forall>t \<in># mset (segs b) + R. (\<forall>s \<in> set (segs c). clear_of s t) \<longrightarrow> seg_bytes m2 t = seg_bytes m1 t"
    using copy_in_place [OF hc _ , of offset src] ts(1) cl(3) n by auto
  have "text_of m2 b = text_of m1 b"
    unfolding text_of_def by (rule bytes_same) (use m2(3) ts in auto)
  also have "\<dots> = text_of m b"
    unfolding text_of_def by (rule bytes_others [OF c(3)]) simp
  finally show ?thesis using c(1,4) m2(1,2) by auto
qed

theorem clone_is_independent_witness:
  "\<exists>c m1 m2. mbuffer_clone page_buffer page_mem = Some (c, m1) \<and> mbuffer_copy1 c [8, 9] 1 m1 = Some m2 \<and>
    text_of m2 page_buffer = text_of page_mem page_buffer"
  using clone_is_independent [OF page_holds, of 1 "[8, 9]"] by (auto simp: page_buffer_def)

section \<open>Requests to the page pool\<close>

lemma next_None:
  assumes "mem_hugepage_next p = None" "cur_entry p < length (array p)" "e \<in> set (array p)"
  shows "ref e \<noteq> 0"
proof -
  obtain k where k: "k < length (array p)" "array p ! k = e"
    using assms(3) by (auto simp: in_set_conv_nth)
  define i where "i = (k + length (array p) - cur_entry p) mod length (array p)"
  have "(cur_entry p + i) mod length (array p) = (cur_entry p + (k + length (array p) - cur_entry p)) mod length (array p)"
    by (simp add: i_def mod_add_right_eq)
  also have "\<dots> = k" using k assms(2) by simp
  finally have "(cur_entry p + i) mod length (array p) = k" .
  moreover have "i < length (array p)"
    unfolding i_def by (rule mod_less_divisor) (use assms(2) in linarith)
  ultimately show ?thesis
    using assms(1) k by (auto simp: mem_hugepage_next_def Let_def find_None_iff split: option.splits)
qed

definition too_large :: "mem_hugepage \<Rightarrow> nat \<Rightarrow> bool" where
  "too_large p n \<longleftrightarrow> 0 < n \<and> cur_entry p < length (array p) \<and> (\<exists>e \<in> set (array p). ref e = 0) \<and>
     (\<forall>e \<in> set (array p). esize e < page_round n)"

lemma too_large_filled:
  assumes "too_large p n"
  shows "too_large (with_entry (cur_entry p) (\<lambda>e. e\<lparr>eoffset := esize e\<rparr>) p) n"
proof -
  let ?p = "with_entry (cur_entry p) (\<lambda>e. e\<lparr>eoffset := esize e\<rparr>) p"
  have c: "cur_entry p < length (array p)" using assms by (simp add: too_large_def)
  obtain k where k: "k < length (array p)" "ref (array p ! k) = 0"
    using assms by (auto simp: too_large_def in_set_conv_nth)
  then have "ref (array ?p ! k) = 0" using c by (cases "k = cur_entry p") auto
  then have "\<exists>e \<in> set (array ?p). ref e = 0"
    using k(1) by (metis nth_mem with_entry_simps(2))
  moreover have "esize e < page_round n" if "e \<in> set (array ?p)" for e
    using set_with_entry [OF c that] assms c by (auto simp: too_large_def)
  ultimately show ?thesis using assms by (simp add: too_large_def)
qed

lemma too_large_never_returns:
  assumes "new_part p n = Some r"
  shows "\<not> too_large p n"
proof (rule new_part.raw_induct [OF _ assms])
  fix loop p n r
  assume 1: "\<And>p n r. loop p n = Some r \<Longrightarrow> \<not> too_large p n"
    "(let (part, ent) = take_part n (array p ! cur_entry p);
          p = with_entry (cur_entry p) (\<lambda>e. ent) p
      in case part of
           Some off \<Rightarrow> Some (Inr (int (cur_entry p), map_option (\<lambda>b. (b, off)) (addr ent)), p)
         | None \<Rightarrow> (case mem_hugepage_next p of None \<Rightarrow> Some (Inl EBUSY, p) | Some p \<Rightarrow> loop p n)) = Some r"
  show "\<not> too_large p n"
  proof
    assume t: "too_large p n"
    have "esize (array p ! cur_entry p) < page_round n" "0 < n"
      using t by (auto simp: too_large_def)
    then have "\<not> eoffset (array p ! cur_entry p) + page_round n \<le> esize (array p ! cur_entry p)" "0 < n"
      by simp_all
    then have part: "take_part n (array p ! cur_entry p) =
        (None, (array p ! cur_entry p)\<lparr>eoffset := esize (array p ! cur_entry p)\<rparr>)"
      by (simp add: take_part_eq)
    let ?p = "with_entry (cur_entry p) (\<lambda>e. e\<lparr>eoffset := esize e\<rparr>) p"
    have w: "with_entry (cur_entry p) (\<lambda>e. (array p ! cur_entry p)\<lparr>eoffset := esize (array p ! cur_entry p)\<rparr>) p = ?p"
      by (simp add: with_entry_def)
    note f = too_large_filled [OF t]
    have "mem_hugepage_next ?p \<noteq> None"
      using next_None [of ?p] f by (auto simp: too_large_def)
    then obtain q where q: "mem_hugepage_next ?p = Some q" by blast
    then have "loop q n = Some r"
      using 1(2) part w by (simp add: Let_def)
    moreover have "too_large q n"
      using f next_Some [OF q] by (auto simp: too_large_def)
    ultimately show False using 1(1) by blast
  qed
qed



section \<open>Errors\<close>

text \<open>The pool when the second of two blocks is refused: both pages are the same block.\<close>

lemma pool_init_shares_block:
  "\<exists>m'. mem_hugepage_init (start_mem\<lparr>grants := \<lambda>k. k \<noteq> 2\<rparr>) = Some (None, m') \<and>
     map_option (\<lambda>p. map addr (array p)) (pool m') = Some [Some 1, Some 1]"
proof -
  have two: "init_entries 2 = init_entries (Suc (Suc 0))" by (simp add: numeral_2_eq_2)
  show ?thesis
    by (simp add: mem_hugepage_init_def start_mem_def small_alloc_def memalign_def two Let_def)
qed

text \<open>A block that is refused is a null pointer in a segment, through which the bytes are written.\<close>

lemma refused_block_crashes:
  assumes "\<not> use_memcache m" "\<And>k. \<not> grants m k" "d \<noteq> []"
  shows "mbuffer_appendmem b d m = None \<or> (\<exists>m'. mbuffer_appendmem b d m = Some (Some ENOMEM, b, m'))"
  using assms
  by (auto simp: mbuffer_appendmem_def appendmem_def seg_alloc_def seg_alloc0_def seg_alloc_normal_def small_alloc_def
      memalign_def poke_def asserts_def buffer_check_def Let_def bind_eq_Some_conv split: option.splits)

text \<open>Moving no bytes out of a buffer that has some ends in a failed assertion.\<close>

lemma seg_alloc_normal_length: "seg_len (fst (seg_alloc_normal s n m)) = seg_len s"
  by (simp add: seg_alloc_normal_def Let_def split_def)

lemma seg_alloc1_length:
  assumes "seg_alloc1 s n m = Some (Inr t, m')"
  shows "seg_len t = seg_len s"
proof -
  obtain answer m1 where new: "mem_hugepage_new n m = Some (answer, m1)"
    using assms by (cases "mem_hugepage_new n m") (auto simp: seg_alloc1_def)
  show ?thesis
    using assms new by (cases answer) (auto simp: seg_alloc1_def split: if_split_asm)
qed

lemma seg_alloc_answer:
  assumes "world_ok m W" "seg_alloc n m = Some (a, m')"
  obtains s where "a = Some s" "seg_len s = n"
proof -
  obtain m1 where s0: "seg_alloc0 n False m = Some (Some (fresh_seg n False), m1)"
    using assms small_alloc_ok [OF assms(1)]
    by (auto simp: seg_alloc_def seg_alloc0_def fresh_seg_def bind_eq_Some_conv split: if_splits)
  let ?s = "fresh_seg n False"
  have l: "seg_len ?s = n" by (simp add: fresh_seg_def)
  show ?thesis
  proof (cases "use_memcache m1")
    case False
    then have "a = Some (fst (seg_alloc_normal ?s n m1))"
      using assms(2) s0 by (simp add: seg_alloc_def split_def Let_def)
    then show ?thesis using that l by (simp add: seg_alloc_normal_length)
  next
    case True
    then obtain answer m2 where s1: "seg_alloc1 ?s n m1 = Some (answer, m2)"
      using assms(2) s0 by (auto simp: seg_alloc_def bind_eq_Some_conv)
    show ?thesis
    proof (cases answer)
      case (Inl e)
      then have "a = Some (fst (seg_alloc_normal ?s n m2))"
        using assms(2) s0 s1 True by (simp add: seg_alloc_def split_def Let_def)
      then show ?thesis using that l by (simp add: seg_alloc_normal_length)
    next
      case (Inr t)
      then have "a = Some t"
        using assms(2) s0 s1 True by (simp add: seg_alloc_def)
      then show ?thesis using that l seg_alloc1_length s1 Inr by simp
    qed
  qed
qed

lemma pop_nothing_aborts:
  assumes "both m b c R" "segs b \<noteq> []"
  shows "mbuffer_pop b (Some c) 0 m = None"
proof -
  have hb: "holds m b (mset (segs c) + R)" and hc: "holds m c (mset (segs b) + R)"
    using assms(1) by (auto simp: both_def)
  obtain s ss where ss: "segs b = s # ss" using assms(2) by (cases "segs b") auto
  have s: "0 < seg_len s" using holds_readable [OF hb] readable_facts(2) ss by auto
  have w: "world_ok m (mset (segs c) + (mset (segs b) + R))" using hc by (simp add: holds_def)
  have "mbuffer_appendmem c [] m = None"
  proof (cases "seg_alloc 0 m")
    case None
    then show ?thesis by (simp add: mbuffer_appendmem_def appendmem_def)
  next
    case (Some a)
    then obtain t m' where "seg_alloc 0 m = Some (Some t, m')" "seg_len t = 0"
      using seg_alloc_answer [OF w] by (cases a) metis
    then show ?thesis
      using holds_check [OF hc] by (simp add: mbuffer_appendmem_def appendmem_def seg_add_tail_def poke_def)
  qed
  then show ?thesis
    using ss s by (simp add: mbuffer_pop_def peek_def)
qed

text \<open>
  A request that is refused in the middle of a move is reported, and leaves a buffer whose length is
  not that of its segments, which every later operation on it ends on.
\<close>

lemma pop_error_breaks_buffer:
  "\<exists>b' c' m'. mbuffer_pop \<lparr>blen = 6, segs = [page_seg3, page_seg3]\<rparr> (Some empty_buffer) 4
       (page_mem\<lparr>small_grants := \<lambda>k. False\<rparr>) = Some (Some ENOMEM, b', Some c', m') \<and>
     buffer_check b' = None"
  by (simp add: mbuffer_pop_def buffer_check_def asserts_def page_seg3_def empty_buffer_def seg_add_tail_def peek_def
      page_mem_def mbuffer_appendmem_def appendmem_def seg_alloc_def seg_alloc0_def small_alloc_def BUFFER_SEG_SIZE_def)

end
