(* ===== verification/QuotaStore.thy ===== *)
theory QuotaStore
  imports Flock CPrelude
begin

text \<open>
  The stored quotas of the file system, \<^verbatim>\<open>src/sdfs/metadata/md_quota.c\<close> (with \<^verbatim>\<open>QUOTA_NEW\<close> set).

  A quota is stored under a file id. That of a directory is its quota id; those of users and
  groups are found under the name of a volume with a user or a group. The redis server behind
  \<^verbatim>\<open>kget\<close>, \<^verbatim>\<open>kset\<close>, \<^verbatim>\<open>kdel\<close> and \<^verbatim>\<open>kvop\<close>, and the directory tree behind \<^verbatim>\<open>md_attr_getid\<close>, \<^verbatim>\<open>md_set_quotaid\<close>
  and \<^verbatim>\<open>md_getattr\<close>, are an argument: a record \<open>ops\<close> of what they answer in a state of any type. An action
  gives an error or a result with the new state, and \<open>None\<close> where an assertion fails.
\<close>

section \<open>Actions\<close>

type_synonym ('s, 'a) act = "'s \<Rightarrow> ((errno + 'a) \<times> 's) option"

definition give :: "'a \<Rightarrow> ('s, 'a) act" where
  "give x s = Some (Inr x, s)"

definition refuse :: "errno \<Rightarrow> ('s, 'a) act" where
  "refuse e s = Some (Inl e, s)"

definition abort :: "('s, 'a) act" where
  "abort s = None"

definition andthen :: "('s, 'a) act \<Rightarrow> ('a \<Rightarrow> ('s, 'b) act) \<Rightarrow> ('s, 'b) act" where
  "andthen m f s =
     (case m s of
        None \<Rightarrow> None
      | Some (Inl e, s) \<Rightarrow> Some (Inl e, s)
      | Some (Inr x, s) \<Rightarrow> f x s)"

text \<open>An action whose error, or whose error \<^verbatim>\<open>ENOENT\<close>, is ignored.\<close>

definition ignoring :: "('s, 'a) act \<Rightarrow> ('s, unit) act" where
  "ignoring m s = (case m s of None \<Rightarrow> None | Some (_, s) \<Rightarrow> Some (Inr (), s))"

definition or_missing :: "'a \<Rightarrow> ('s, 'a) act \<Rightarrow> ('s, 'a) act" where
  "or_missing x m s =
     (case m s of
        None \<Rightarrow> None
      | Some (Inl e, s) \<Rightarrow> Some (if e = ENOENT then Inr x else Inl e, s)
      | Some (Inr y, s) \<Rightarrow> Some (Inr y, s))"

definition ask :: "('s \<Rightarrow> errno + 'a) \<Rightarrow> ('s, 'a) act" where
  "ask f s = Some (f s, s)"

definition order_do :: "('s \<Rightarrow> errno option \<times> 's) \<Rightarrow> ('s, unit) act" where
  "order_do f s =
     (case f s of (None, s) \<Rightarrow> Some (Inr (), s) | (Some e, s) \<Rightarrow> Some (Inl e, s))"

section \<open>Quotas\<close>

datatype quota_type_t = QUOTA_DIR | QUOTA_USER | QUOTA_GROUP | QUOTA_INVALID_TYPE

record quota =
  space_hard :: "64 word"
  space_soft :: "64 word"
  space_used :: "64 word"
  inode_hard :: "64 word"
  inode_soft :: "64 word"
  inode_used :: "64 word"
  space_grace :: "64 word"
  inode_grace :: "64 word"
  quotaid :: fileid
  pquotaid :: fileid
  quota_type :: quota_type_t
  uid :: "32 word"
  gid :: "32 word"
  dirid :: fileid

text \<open>The attributes of a file that the quotas look at.\<close>

record md_proto =
  md_fileid :: fileid
  md_quotaid :: fileid
  at_mode :: "32 word"
  at_nlink :: "32 word"
  at_uid :: "32 word"
  at_gid :: "32 word"
  at_size :: "64 word"

text \<open>What the server and the directory tree answer; \<open>stack_id\<close> is what an uninitialised file id holds.\<close>

record 's kv_ops =
  kvop_get :: "string \<Rightarrow> 's \<Rightarrow> errno + fileid"
  kvop_create :: "string \<Rightarrow> fileid \<Rightarrow> 's \<Rightarrow> errno option \<times> 's"
  kget :: "fileid \<Rightarrow> 's \<Rightarrow> errno + quota"
  kset :: "fileid \<Rightarrow> quota \<Rightarrow> bool \<Rightarrow> 's \<Rightarrow> errno option \<times> 's"
  kdel :: "fileid \<Rightarrow> 's \<Rightarrow> errno option \<times> 's"
  md_attr_getid :: "'s \<Rightarrow> (errno + fileid) \<times> 's"
  md_set_quotaid :: "fileid \<Rightarrow> fileid \<Rightarrow> 's \<Rightarrow> errno option \<times> 's"
  md_getattr :: "fileid \<Rightarrow> 's \<Rightarrow> errno + md_proto"
  stack_id :: fileid

definition null_id :: fileid where
  "null_id = \<lparr>fid = 0, volid = 0, idx = 0, sharding = 0, ftype = 0\<rparr>"

text \<open>\<^verbatim>\<open>memset\<close> with zeros: the type is that of a directory.\<close>

definition no_quota :: quota where
  "no_quota = \<lparr>space_hard = 0, space_soft = 0, space_used = 0, inode_hard = 0, inode_soft = 0, inode_used = 0,
     space_grace = 0, inode_grace = 0, quotaid = null_id, pquotaid = null_id, quota_type = QUOTA_DIR,
     uid = 0, gid = 0, dirid = null_id\<rparr>"

definition chkid_cmp :: "fileid \<Rightarrow> fileid \<Rightarrow> int" where
  "chkid_cmp k d =
     (if volid k < volid d then -1 else if volid k > volid d then 1
      else if fid k < fid d then -1 else if fid k > fid d then 1
      else if ftype k < ftype d then -1 else if ftype k > ftype d then 1
      else if idx k < idx d then -1 else if idx k > idx d then 1
      else 0)"

section \<open>The operations\<close>

definition quota_name :: "quota \<Rightarrow> string option" where
  "quota_name q =
     (case quota_type q of
        QUOTA_GROUP \<Rightarrow> Some (''group_'' @ dec_nat (unat (volid (dirid q))) @ ''_'' @ dec_nat (unat (gid q)))
      | QUOTA_USER \<Rightarrow> Some (''user_'' @ dec_nat (unat (volid (dirid q))) @ ''_'' @ dec_nat (unat (uid q)))
      | _ \<Rightarrow> None)"

text \<open>
  The file id behind a name. The loop back to \<^verbatim>\<open>retry\<close> need not end when another client creates and
  deletes the name all the time. After the name has been created the code leaves through
  \<^verbatim>\<open>GOTO(err_ret, ret)\<close> with \<^verbatim>\<open>ret\<close> 0, and the key is not set.
\<close>

partial_function (option) named_key ::
    "'s kv_ops \<Rightarrow> string \<Rightarrow> bool \<Rightarrow> 's \<Rightarrow> ((errno + fileid) \<times> 's) option" where
  "named_key ops key creat s =
     (case kvop_get ops key s of
        Inr f \<Rightarrow> if ftype f \<noteq> 0 then Some (Inr f, s) else None
      | Inl e \<Rightarrow>
          if e = ENOENT \<and> creat then
            (case md_attr_getid ops s of
               (Inl e, s) \<Rightarrow> Some (Inl e, s)
             | (Inr f, s) \<Rightarrow>
                 if ftype f = 0 then None
                 else case kvop_create ops key f s of
                        (None, s) \<Rightarrow> Some (Inr (stack_id ops), s)
                      | (Some e, s) \<Rightarrow> if e = EEXIST then named_key ops key creat s else Some (Inl e, s))
          else Some (Inl e, s))"

definition md_quota_key :: "'s kv_ops \<Rightarrow> fileid \<Rightarrow> quota \<Rightarrow> bool \<Rightarrow> ('s, fileid) act" where
  "md_quota_key ops qid q creat =
     (if quota_type q = QUOTA_DIR then give qid
      else case quota_name q of None \<Rightarrow> abort | Some key \<Rightarrow> named_key ops key creat)"

definition create_quota :: "'s kv_ops \<Rightarrow> fileid \<Rightarrow> quota \<Rightarrow> ('s, unit) act" where
  "create_quota ops qid q =
     andthen (md_quota_key ops qid q True) (\<lambda>f. order_do (kset ops f q True))"

text \<open>The result is the quota with its new id.\<close>

definition md_create_quota :: "'s kv_ops \<Rightarrow> quota \<Rightarrow> ('s, quota) act" where
  "md_create_quota ops q =
     andthen (\<lambda>s. Some (md_attr_getid ops s)) (\<lambda>qid.
     let q = q\<lparr>quotaid := qid\<rparr> in
     andthen (create_quota ops qid q) (\<lambda>_.
     andthen (order_do (md_set_quotaid ops (dirid q) qid)) (\<lambda>_. give q)))"

definition get_quota :: "'s kv_ops \<Rightarrow> fileid \<Rightarrow> quota \<Rightarrow> ('s, quota) act" where
  "get_quota ops qid q = andthen (md_quota_key ops qid q False) (\<lambda>f. ask (kget ops f))"

definition md_get_quota :: "'s kv_ops \<Rightarrow> fileid \<Rightarrow> quota \<Rightarrow> quota_type_t \<Rightarrow> ('s, quota) act" where
  "md_get_quota ops qid q t = get_quota ops qid (q\<lparr>quota_type := t\<rparr>)"

definition quota_limit_set :: "quota \<Rightarrow> quota \<Rightarrow> 32 word \<Rightarrow> quota" where
  "quota_limit_set dst src set_mask =
     (let dst = (if set_mask AND 0x01 \<noteq> 0 then dst\<lparr>space_hard := space_hard src\<rparr> else dst);
          dst = (if set_mask AND 0x02 \<noteq> 0 then dst\<lparr>space_soft := space_soft src\<rparr> else dst);
          dst = (if set_mask AND 0x08 \<noteq> 0 then dst\<lparr>inode_hard := inode_hard src\<rparr> else dst)
      in if set_mask AND 0x10 \<noteq> 0 then dst\<lparr>inode_soft := inode_soft src\<rparr> else dst)"

definition md_modify_quota :: "'s kv_ops \<Rightarrow> fileid \<Rightarrow> quota \<Rightarrow> 32 word \<Rightarrow> ('s, quota) act" where
  "md_modify_quota ops qid q modify_mask =
     andthen (md_quota_key ops qid q False) (\<lambda>f.
     andthen (ask (kget ops f)) (\<lambda>tmp.
     let tmp = quota_limit_set tmp q modify_mask in
     andthen (order_do (kset ops f tmp False)) (\<lambda>_. give tmp)))"

definition md_update_quota :: "'s kv_ops \<Rightarrow> quota \<Rightarrow> ('s, unit) act" where
  "md_update_quota ops q =
     andthen (md_quota_key ops (quotaid q) q False) (\<lambda>f. order_do (kset ops f q False))"

definition quota_should_be_remove :: "'s kv_ops \<Rightarrow> fileid \<Rightarrow> fileid \<Rightarrow> ('s, quota) act" where
  "quota_should_be_remove ops qid f =
     andthen (get_quota ops qid no_quota) (\<lambda>q.
     if chkid_cmp (dirid q) f = 0 then give q else refuse ENOKEY)"

definition quota_remove :: "'s kv_ops \<Rightarrow> fileid \<Rightarrow> quota \<Rightarrow> ('s, unit) act" where
  "quota_remove ops qid q =
     andthen (md_quota_key ops qid q False) (\<lambda>f. order_do (kdel ops f))"

definition md_remove_quota :: "'s kv_ops \<Rightarrow> fileid \<Rightarrow> quota \<Rightarrow> ('s, unit) act" where
  "md_remove_quota ops qid q =
     (if quota_type q = QUOTA_DIR then
        andthen (quota_should_be_remove ops qid (dirid q)) (\<lambda>out_quota.
        andthen (quota_remove ops qid q) (\<lambda>_.
        order_do (md_set_quotaid ops (dirid out_quota) (pquotaid out_quota))))
      else quota_remove ops qid q)"

text \<open>\<^verbatim>\<open>quota_remove_lvm\<close> is not implemented and ends the program.\<close>

definition quota_remove_lvm :: "fileid \<Rightarrow> quota_type_t \<Rightarrow> ('s, unit) act" where
  "quota_remove_lvm f t = abort"

end
