(* ===== verification/Quota.thy ===== *)
theory Quota
  imports QuotaStore
begin

text \<open>
  The accounting of quotas, \<^verbatim>\<open>src/sdfs/yfs/libyfs/quota.c\<close>: quotas of nested directories, of a group and
  of a user count the bytes and the files in use, and an allocation that goes over a hard limit is
  refused. A hard limit of 0 is no limit, and a quota with all numbers 0 is not set.
  The counters are words of 64 bits; they stop at their ends where the code makes them.
\<close>

section \<open>The list of owners\<close>

record owner_list =
  owners :: "quota list"
  owner_count :: int

definition find_quota :: "quota \<Rightarrow> quota \<Rightarrow> bool" where
  "find_quota q1 q2 \<longleftrightarrow> chkid_cmp (quotaid q1) (quotaid q2) = 0 \<and> uid q1 = uid q2 \<and> gid q1 = gid q2"

fun add_space :: "quota \<Rightarrow> quota list \<Rightarrow> quota list option" where
  "add_space q [] = None"
| "add_space q (p # ps) =
     (if find_quota p q then Some (p\<lparr>space_used := space_used p + space_used q\<rparr> # ps)
      else map_option ((#) p) (add_space q ps))"

text \<open>\<open>granted\<close> is the answer of the allocation.\<close>

definition quota_mds_add_owner2list :: "bool \<Rightarrow> quota \<Rightarrow> owner_list \<Rightarrow> errno option \<times> owner_list" where
  "quota_mds_add_owner2list granted q l =
     (case add_space q (owners l) of
        Some ps \<Rightarrow> (None, l\<lparr>owners := ps\<rparr>)
      | None \<Rightarrow>
          if granted then (None, l\<lparr>owners := owners l @ [q], owner_count := owner_count l + 1\<rparr>)
          else (Some ENOMEM, l))"

fun update_owners :: "'s kv_ops \<Rightarrow> quota list \<Rightarrow> ('s, unit) act" where
  "update_owners ops [] = give ()"
| "update_owners ops (q # qs) = andthen (ignoring (md_update_quota ops q)) (\<lambda>_. update_owners ops qs)"

text \<open>One round of \<^verbatim>\<open>__quota_mds_worker\<close>.\<close>

definition quota_mds_worker :: "'s kv_ops \<Rightarrow> owner_list \<Rightarrow> ('s, owner_list) act" where
  "quota_mds_worker ops l =
     (if owner_count l > 0 then
        andthen (update_owners ops (owners l)) (\<lambda>_. give \<lparr>owners = [], owner_count = 0\<rparr>)
      else give (l\<lparr>owner_count := 0\<rparr>))"

section \<open>Checks\<close>

definition QUOTA_MAX_LEVEL :: nat where "QUOTA_MAX_LEVEL = 8"

definition quota_set :: "quota \<Rightarrow> bool" where
  "quota_set q \<longleftrightarrow> inode_used q \<noteq> 0 \<or> inode_hard q \<noteq> 0 \<or> space_used q \<noteq> 0 \<or> space_hard q \<noteq> 0"

definition inode_checked :: "quota \<Rightarrow> bool" where
  "inode_checked q \<longleftrightarrow> \<not> (inode_hard q > 0 \<and> inode_used q \<ge> inode_hard q)"

text \<open>The sum that stops at the end.\<close>

definition used_plus :: "64 word \<Rightarrow> 64 word \<Rightarrow> 64 word" where
  "used_plus used space = (if used < UINT64_MAX - space then used + space else UINT64_MAX)"

definition space_checked :: "64 word \<Rightarrow> quota \<Rightarrow> bool" where
  "space_checked space q \<longleftrightarrow> \<not> (space_hard q > 0 \<and> used_plus (space_used q) space \<ge> space_hard q)"

text \<open>Only the ids are set; the other fields are what the stack holds.\<close>

definition volid2lvmid :: "'s kv_ops \<Rightarrow> 64 word \<Rightarrow> fileid" where
  "volid2lvmid ops v = (stack_id ops)\<lparr>fid := v, idx := 0, volid := v\<rparr>"

section \<open>More in use\<close>

text \<open>
  The loops over the directories go up at most \<open>QUOTA_MAX_LEVEL\<close> levels. \<open>prev\<close> is \<^verbatim>\<open>last_quota\<close>, which
  there is when \<^verbatim>\<open>level\<close> is more than 1. A quota that is not set is looked at again on every level that
  is left.
\<close>

fun increase_inode_dir :: "'s kv_ops \<Rightarrow> nat \<Rightarrow> fileid \<Rightarrow> quota option \<Rightarrow> ('s, unit) act" where
  "increase_inode_dir ops 0 f prev = give ()"
| "increase_inode_dir ops (Suc i) f prev =
     (if fid f = 0 then give ()
      else andthen (md_get_quota ops f no_quota QUOTA_DIR) (\<lambda>tmp.
        if \<not> quota_set tmp then increase_inode_dir ops i f prev
        else
          let tmp = (if inode_used tmp < UINT64_MAX then tmp\<lparr>inode_used := inode_used tmp + 1\<rparr> else tmp) in
          if inode_hard tmp > 0 \<and> inode_used tmp > inode_hard tmp then
            andthen
              (case prev of
                 None \<Rightarrow> give ()
               | Some l \<Rightarrow> ignoring (md_update_quota ops (l\<lparr>inode_used := inode_used l - 1\<rparr>)))
              (\<lambda>_. refuse EDQUOT)
          else andthen (md_update_quota ops tmp) (\<lambda>_. increase_inode_dir ops i (pquotaid tmp) (Some tmp))))"

definition increase_inode_for_directory_quota :: "'s kv_ops \<Rightarrow> fileid \<Rightarrow> ('s, unit) act" where
  "increase_inode_for_directory_quota ops qid = increase_inode_dir ops QUOTA_MAX_LEVEL qid None"

definition increase_inode_for_group_or_user_quota ::
    "'s kv_ops \<Rightarrow> 32 word \<Rightarrow> 32 word \<Rightarrow> fileid \<Rightarrow> quota_type_t \<Rightarrow> ('s, unit) act" where
  "increase_inode_for_group_or_user_quota ops u g f t =
     andthen (md_get_quota ops null_id (no_quota\<lparr>uid := u, gid := g, quota_type := t, dirid := f\<rparr>) t) (\<lambda>tmp.
     if \<not> quota_set tmp then give ()
     else
       let tmp = (if inode_used tmp < inode_hard tmp then tmp\<lparr>inode_used := inode_used tmp + 1\<rparr> else tmp) in
       md_update_quota ops tmp)"

definition get_dir_quota :: "'s kv_ops \<Rightarrow> fileid \<Rightarrow> ('s, quota) act" where
  "get_dir_quota ops qid = md_get_quota ops qid no_quota QUOTA_DIR"

definition get_group_quota :: "'s kv_ops \<Rightarrow> 32 word \<Rightarrow> fileid \<Rightarrow> ('s, quota) act" where
  "get_group_quota ops g f =
     md_get_quota ops null_id (no_quota\<lparr>gid := g, dirid := f, quota_type := QUOTA_GROUP\<rparr>) QUOTA_GROUP"

definition get_user_quota :: "'s kv_ops \<Rightarrow> 32 word \<Rightarrow> fileid \<Rightarrow> ('s, quota) act" where
  "get_user_quota ops u f =
     md_get_quota ops null_id (no_quota\<lparr>uid := u, dirid := f, quota_type := QUOTA_USER\<rparr>) QUOTA_USER"

definition quota_inode_check_and_inc ::
    "'s kv_ops \<Rightarrow> fileid \<Rightarrow> 32 word \<Rightarrow> 32 word \<Rightarrow> fileid \<Rightarrow> ('s, unit) act" where
  "quota_inode_check_and_inc ops qid u g f =
     (let lvmid = volid2lvmid ops (volid f);
          inc_dir = increase_inode_for_directory_quota ops qid;
          inc_group = increase_inode_for_group_or_user_quota ops 0 g lvmid QUOTA_GROUP;
          inc_user = increase_inode_for_group_or_user_quota ops u 0 lvmid QUOTA_USER
      in
      andthen (or_missing no_quota (get_dir_quota ops qid)) (\<lambda>dir.
      andthen (or_missing no_quota (get_group_quota ops g lvmid)) (\<lambda>group.
      andthen (or_missing no_quota (get_user_quota ops u lvmid)) (\<lambda>user.
      if quota_set dir then
        if inode_checked dir then
          if quota_set group then
            if inode_checked group then
              if quota_set user then
                if inode_checked user then
                  andthen inc_dir (\<lambda>_. andthen inc_group (\<lambda>_. inc_user))
                else refuse EDQUOT
              else andthen inc_dir (\<lambda>_. inc_group)
            else refuse EDQUOT
          else if quota_set user then
            if inode_checked user then andthen inc_dir (\<lambda>_. inc_user) else refuse EDQUOT
          else inc_dir
        else refuse EDQUOT
      else if quota_set group then
        if inode_checked group then
          if quota_set user then
            if inode_checked user then andthen inc_group (\<lambda>_. inc_user) else refuse EDQUOT
          else inc_group
        else refuse EDQUOT
      else if quota_set user then
        if inode_checked user then inc_user else refuse EDQUOT
      else give ()))))"

fun increase_space_dir :: "'s kv_ops \<Rightarrow> nat \<Rightarrow> fileid \<Rightarrow> 64 word \<Rightarrow> quota option \<Rightarrow> ('s, unit) act" where
  "increase_space_dir ops 0 f space prev = give ()"
| "increase_space_dir ops (Suc i) f space prev =
     (if fid f = 0 then give ()
      else andthen (md_get_quota ops f no_quota QUOTA_DIR) (\<lambda>tmp.
        if \<not> quota_set tmp then give ()
        else
          let used = used_plus (space_used tmp) space in
          if space_hard tmp > 0 \<and> used > space_hard tmp then
            andthen
              (case prev of
                 None \<Rightarrow> give ()
               | Some l \<Rightarrow> md_update_quota ops (l\<lparr>space_used := space_used l - space\<rparr>))
              (\<lambda>_. refuse EDQUOT)
          else
            let tmp = tmp\<lparr>space_used := used\<rparr> in
            andthen (md_update_quota ops tmp)
              (\<lambda>_. increase_space_dir ops i (pquotaid tmp) space (Some tmp))))"

definition increase_space_for_directory_quota :: "'s kv_ops \<Rightarrow> fileid \<Rightarrow> 64 word \<Rightarrow> ('s, unit) act" where
  "increase_space_for_directory_quota ops qid space = increase_space_dir ops QUOTA_MAX_LEVEL qid space None"

definition increase_space_for_group_or_user_quota ::
    "'s kv_ops \<Rightarrow> 32 word \<Rightarrow> 32 word \<Rightarrow> fileid \<Rightarrow> quota_type_t \<Rightarrow> 64 word \<Rightarrow> ('s, unit) act" where
  "increase_space_for_group_or_user_quota ops u g f t space =
     andthen (md_get_quota ops null_id (no_quota\<lparr>uid := u, gid := g, quota_type := t, dirid := f\<rparr>) t) (\<lambda>tmp.
     if \<not> quota_set tmp then give ()
     else md_update_quota ops (tmp\<lparr>space_used := used_plus (space_used tmp) space\<rparr>))"

definition quota_space_check_and_inc ::
    "'s kv_ops \<Rightarrow> fileid \<Rightarrow> 32 word \<Rightarrow> 32 word \<Rightarrow> fileid \<Rightarrow> 64 word \<Rightarrow> ('s, unit) act" where
  "quota_space_check_and_inc ops qid u g f space =
     (let lvmid = volid2lvmid ops (volid f);
          inc_dir = increase_space_for_directory_quota ops qid space;
          inc_group = increase_space_for_group_or_user_quota ops 0 g lvmid QUOTA_GROUP space;
          inc_user = increase_space_for_group_or_user_quota ops u 0 lvmid QUOTA_USER space
      in
      andthen (or_missing no_quota (get_dir_quota ops qid)) (\<lambda>dir.
      andthen (or_missing no_quota (get_group_quota ops g lvmid)) (\<lambda>group.
      andthen (or_missing no_quota (get_user_quota ops u lvmid)) (\<lambda>user.
      if quota_set dir then
        if space_checked space dir then
          if quota_set group then
            if space_checked space group then
              if quota_set user then
                if space_checked space user then
                  andthen inc_dir (\<lambda>_. andthen inc_group (\<lambda>_. inc_user))
                else refuse EDQUOT
              else andthen inc_dir (\<lambda>_. inc_group)
            else refuse EDQUOT
          else if quota_set user then
            if space_checked space user then andthen inc_dir (\<lambda>_. inc_user) else refuse EDQUOT
          else inc_dir
        else refuse EDQUOT
      else if quota_set group then
        if space_checked space group then
          if quota_set user then
            if space_checked space user then andthen inc_group (\<lambda>_. inc_user) else refuse EDQUOT
          else inc_group
        else refuse EDQUOT
      else if quota_set user then
        if space_checked space user then inc_user else refuse EDQUOT
      else give ()))))"

section \<open>Less in use\<close>

fun decrease_inode_dir :: "'s kv_ops \<Rightarrow> nat \<Rightarrow> fileid \<Rightarrow> ('s, unit) act" where
  "decrease_inode_dir ops 0 f = give ()"
| "decrease_inode_dir ops (Suc i) f =
     (if fid f = 0 then give ()
      else andthen (md_get_quota ops f no_quota QUOTA_DIR) (\<lambda>tmp.
        if \<not> quota_set tmp then decrease_inode_dir ops i f
        else
          let tmp = (if inode_used tmp > 0 then tmp\<lparr>inode_used := inode_used tmp - 1\<rparr> else tmp) in
          andthen (md_update_quota ops tmp) (\<lambda>_. decrease_inode_dir ops i (pquotaid tmp))))"

definition decrease_inode_for_directory_quota :: "'s kv_ops \<Rightarrow> fileid \<Rightarrow> ('s, unit) act" where
  "decrease_inode_for_directory_quota ops qid = decrease_inode_dir ops QUOTA_MAX_LEVEL qid"

definition decrease_inode_for_user_or_group_quota ::
    "'s kv_ops \<Rightarrow> 32 word \<Rightarrow> 32 word \<Rightarrow> fileid \<Rightarrow> quota_type_t \<Rightarrow> ('s, unit) act" where
  "decrease_inode_for_user_or_group_quota ops u g f t =
     andthen (md_get_quota ops null_id (no_quota\<lparr>uid := u, gid := g, dirid := f, quota_type := t\<rparr>) t) (\<lambda>tmp.
     if \<not> quota_set tmp then give ()
     else if inode_used tmp > 0 then md_update_quota ops (tmp\<lparr>inode_used := inode_used tmp - 1\<rparr>)
     else give ())"

definition quota_inode_dec :: "'s kv_ops \<Rightarrow> fileid \<Rightarrow> 32 word \<Rightarrow> 32 word \<Rightarrow> fileid \<Rightarrow> ('s, unit) act" where
  "quota_inode_dec ops qid u g f =
     (let lvmid = volid2lvmid ops (volid f) in
      andthen (decrease_inode_for_directory_quota ops qid) (\<lambda>_.
      andthen (decrease_inode_for_user_or_group_quota ops u g lvmid QUOTA_GROUP) (\<lambda>_.
      decrease_inode_for_user_or_group_quota ops u g lvmid QUOTA_USER)))"

definition used_minus :: "64 word \<Rightarrow> 64 word \<Rightarrow> 64 word" where
  "used_minus used space = (if used < space then 0 else used - space)"

fun decrease_space_dir :: "'s kv_ops \<Rightarrow> nat \<Rightarrow> fileid \<Rightarrow> 64 word \<Rightarrow> ('s, unit) act" where
  "decrease_space_dir ops 0 f space = give ()"
| "decrease_space_dir ops (Suc i) f space =
     (if fid f = 0 then give ()
      else andthen (md_get_quota ops f no_quota QUOTA_DIR) (\<lambda>tmp.
        if \<not> quota_set tmp then decrease_space_dir ops i f space
        else
          let tmp = tmp\<lparr>space_used := used_minus (space_used tmp) space\<rparr> in
          andthen (md_update_quota ops tmp) (\<lambda>_. decrease_space_dir ops i (pquotaid tmp) space)))"

definition decrease_space_for_directory_quota :: "'s kv_ops \<Rightarrow> fileid \<Rightarrow> 64 word \<Rightarrow> ('s, unit) act" where
  "decrease_space_for_directory_quota ops qid space = decrease_space_dir ops QUOTA_MAX_LEVEL qid space"

definition decrease_space_for_user_or_group_quota ::
    "'s kv_ops \<Rightarrow> 32 word \<Rightarrow> 32 word \<Rightarrow> fileid \<Rightarrow> quota_type_t \<Rightarrow> 64 word \<Rightarrow> ('s, unit) act" where
  "decrease_space_for_user_or_group_quota ops u g f t space =
     andthen (md_get_quota ops null_id (no_quota\<lparr>uid := u, gid := g, dirid := f, quota_type := t\<rparr>) t) (\<lambda>tmp.
     if \<not> quota_set tmp then give ()
     else md_update_quota ops (tmp\<lparr>space_used := used_minus (space_used tmp) space\<rparr>))"

definition quota_space_dec ::
    "'s kv_ops \<Rightarrow> fileid \<Rightarrow> 32 word \<Rightarrow> 32 word \<Rightarrow> fileid \<Rightarrow> 64 word \<Rightarrow> ('s, unit) act" where
  "quota_space_dec ops qid u g f space =
     (let lvmid = volid2lvmid ops (volid f) in
      andthen (decrease_space_for_directory_quota ops qid space) (\<lambda>_.
      andthen (or_missing () (decrease_space_for_user_or_group_quota ops u g lvmid QUOTA_GROUP space)) (\<lambda>_.
      or_missing () (decrease_space_for_user_or_group_quota ops u g lvmid QUOTA_USER space))))"

section \<open>The entry points\<close>

definition quota_chown :: "'s kv_ops \<Rightarrow> fileid \<Rightarrow> 32 word \<Rightarrow> 32 word \<Rightarrow> ('s, unit) act" where
  "quota_chown ops f new_uid new_gid =
     andthen (ask (md_getattr ops f)) (\<lambda>md.
     let sz = at_size md; old_uid = at_uid md; old_gid = at_gid md; i = md_fileid md in
     andthen
       (if old_uid \<noteq> new_uid then
          andthen
            (if 0 \<noteq> old_uid then
               andthen (decrease_inode_for_user_or_group_quota ops old_uid 0 i QUOTA_USER) (\<lambda>_.
               decrease_space_for_user_or_group_quota ops old_uid 0 i QUOTA_USER sz)
             else give ()) (\<lambda>_.
          if 0 \<noteq> new_uid then
            andthen (increase_inode_for_group_or_user_quota ops new_uid 0 i QUOTA_USER) (\<lambda>_.
            increase_space_for_group_or_user_quota ops new_uid 0 i QUOTA_USER sz)
          else give ())
        else give ()) (\<lambda>_.
     if old_gid \<noteq> new_gid then
       andthen
         (if 0 \<noteq> old_gid then
            andthen (decrease_inode_for_user_or_group_quota ops 0 old_gid i QUOTA_GROUP) (\<lambda>_.
            decrease_space_for_user_or_group_quota ops 0 old_gid i QUOTA_GROUP sz)
          else give ()) (\<lambda>_.
       if 0 \<noteq> new_gid then
         andthen (increase_inode_for_group_or_user_quota ops 0 new_gid i QUOTA_GROUP) (\<lambda>_.
         increase_space_for_group_or_user_quota ops 0 new_gid i QUOTA_GROUP sz)
       else give ())
     else give ()))"

text \<open>The order of the keys: the common part first, then the length.\<close>

definition quota_key_compare :: "octet list \<Rightarrow> octet list \<Rightarrow> int" where
  "quota_key_compare a b =
     (let r = memcmp a b in
      if r = 0 then if length a < length b then -1 else if length a > length b then 1 else 0 else r)"

definition quota_removeall :: "'s kv_ops \<Rightarrow> fileid \<Rightarrow> fileid \<Rightarrow> ('s, unit) act" where
  "quota_removeall ops f qid =
     (if fid f \<noteq> volid f then
        ignoring (andthen (quota_should_be_remove ops qid f) (\<lambda>q. md_remove_quota ops qid q))
      else
        andthen (ignoring (quota_remove_lvm f QUOTA_GROUP)) (\<lambda>_. ignoring (quota_remove_lvm f QUOTA_USER)))"

definition S_ISREG :: "32 word \<Rightarrow> bool" where "S_ISREG mode \<longleftrightarrow> mode AND 0xF000 = 0x8000"
definition S_ISDIR :: "32 word \<Rightarrow> bool" where "S_ISDIR mode \<longleftrightarrow> mode AND 0xF000 = 0x4000"

text \<open>The errors of the two decreases are not looked at.\<close>

definition quota_check_dec :: "'s kv_ops \<Rightarrow> fileid \<Rightarrow> ('s, unit) act" where
  "quota_check_dec ops f =
     andthen (ask (md_getattr ops f)) (\<lambda>md.
     if fid (md_quotaid md) = 0 then give ()
     else if S_ISREG (at_mode md) \<and> at_nlink md = 1 then
       andthen (ignoring (quota_space_dec ops (md_quotaid md) (at_uid md) (at_gid md) (md_fileid md) (at_size md)))
         (\<lambda>_. ignoring (quota_inode_dec ops (md_quotaid md) (at_uid md) (at_gid md) (md_fileid md)))
     else if S_ISDIR (at_mode md) then
       ignoring (quota_inode_dec ops (md_quotaid md) (at_uid md) (at_gid md) (md_fileid md))
     else give ())"

definition quota_inode_increase :: "'s kv_ops \<Rightarrow> fileid \<Rightarrow> 32 word \<Rightarrow> 32 word \<Rightarrow> ('s, unit) act" where
  "quota_inode_increase ops f u g =
     andthen (ask (md_getattr ops f)) (\<lambda>md.
     if fid (md_quotaid md) \<noteq> 0 then quota_inode_check_and_inc ops (md_quotaid md) u g f else give ())"

definition quota_inode_decrease :: "'s kv_ops \<Rightarrow> fileid \<Rightarrow> 32 word \<Rightarrow> 32 word \<Rightarrow> ('s, unit) act" where
  "quota_inode_decrease ops f u g =
     andthen (ask (md_getattr ops f)) (\<lambda>md.
     if fid (md_quotaid md) \<noteq> 0 then quota_inode_dec ops (md_quotaid md) u g f else give ())"

definition quota_space_increase :: "'s kv_ops \<Rightarrow> fileid \<Rightarrow> 32 word \<Rightarrow> 32 word \<Rightarrow> 64 word \<Rightarrow> ('s, unit) act" where
  "quota_space_increase ops f u g space =
     andthen (ask (md_getattr ops f)) (\<lambda>md.
     if fid (md_quotaid md) \<noteq> 0 then quota_space_check_and_inc ops (md_quotaid md) u g f space else give ())"

definition quota_space_decrease :: "'s kv_ops \<Rightarrow> fileid \<Rightarrow> 32 word \<Rightarrow> 32 word \<Rightarrow> 64 word \<Rightarrow> ('s, unit) act" where
  "quota_space_decrease ops f u g space =
     andthen (ask (md_getattr ops f)) (\<lambda>md.
     if fid (md_quotaid md) \<noteq> 0 then quota_space_dec ops (md_quotaid md) u g f space else give ())"

end
