(* ===== verification/QuotaSpec.thy ===== *)
theory QuotaSpec
  imports Quota
begin

text \<open>
  What the accounting of quotas relies on, and what its parts do to the stored quotas. The server is
  assumed to answer (\<open>store_ok\<close>): what was set is what is got, and nothing else changes. A state
  is well formed (\<open>db_ok\<close>) when every quota is stored where its own ids lead, and the quotas of
  directories hang below quotas of directories only.
\<close>

section \<open>The stored quotas\<close>

definition quota_at :: "'s kv_ops \<Rightarrow> 's \<Rightarrow> fileid \<Rightarrow> quota option" where
  "quota_at ops s f = (case kget ops f s of Inr q \<Rightarrow> Some q | Inl e \<Rightarrow> None)"

definition name_at :: "'s kv_ops \<Rightarrow> 's \<Rightarrow> string \<Rightarrow> fileid option" where
  "name_at ops s n = (case kvop_get ops n s of Inr f \<Rightarrow> Some f | Inl e \<Rightarrow> None)"

text \<open>The new state has quota \<open>q\<close> at \<open>f\<close>, and all else is as before.\<close>

definition stored :: "'s kv_ops \<Rightarrow> 's \<Rightarrow> fileid \<Rightarrow> quota \<Rightarrow> 's \<Rightarrow> bool" where
  "stored ops s f q s' \<longleftrightarrow> quota_at ops s' = (quota_at ops s)(f \<mapsto> q) \<and> name_at ops s' = name_at ops s \<and>
     (\<forall>i. md_getattr ops i s' = md_getattr ops i s)"

definition store_ok :: "'s kv_ops \<Rightarrow> bool" where
  "store_ok ops \<longleftrightarrow>
     (\<forall>f s e. kget ops f s = Inl e \<longrightarrow> e = ENOENT) \<and>
     (\<forall>n s e. kvop_get ops n s = Inl e \<longrightarrow> e = ENOENT) \<and>
     (\<forall>f q s. \<exists>s'. kset ops f q False s = (None, s') \<and> stored ops s f q s')"

definition key_of :: "'s kv_ops \<Rightarrow> 's \<Rightarrow> quota \<Rightarrow> fileid option" where
  "key_of ops s q =
     (if quota_type q = QUOTA_DIR then Some (quotaid q)
      else case quota_name q of None \<Rightarrow> None | Some n \<Rightarrow> name_at ops s n)"

definition dir_like :: "'s kv_ops \<Rightarrow> 's \<Rightarrow> fileid \<Rightarrow> bool" where
  "dir_like ops s f \<longleftrightarrow> (\<forall>q. quota_at ops s f = Some q \<longrightarrow> quota_type q = QUOTA_DIR)"

definition db_ok :: "'s kv_ops \<Rightarrow> 's \<Rightarrow> bool" where
  "db_ok ops s \<longleftrightarrow>
     (\<forall>f q. quota_at ops s f = Some q \<longrightarrow> key_of ops s q = Some f) \<and>
     (\<forall>n f. name_at ops s n = Some f \<longrightarrow> ftype f \<noteq> 0) \<and>
     (\<forall>n f q. name_at ops s n = Some f \<longrightarrow> quota_at ops s f = Some q \<longrightarrow> quota_name q = Some n) \<and>
     (\<forall>f q. quota_at ops s f = Some q \<longrightarrow> quota_type q = QUOTA_DIR \<longrightarrow> dir_like ops s (pquotaid q)) \<and>
     (\<forall>i md. md_getattr ops i s = Inr md \<longrightarrow> dir_like ops s (md_quotaid md))"

text \<open>A quota with other counters.\<close>

definition recount :: "quota \<Rightarrow> quota \<Rightarrow> bool" where
  "recount q q' \<longleftrightarrow> (\<exists>sp ino. q' = q\<lparr>space_used := sp, inode_used := ino\<rparr>)"

lemma recount_space [simp]: "recount q (q\<lparr>space_used := x\<rparr>)"
  unfolding recount_def by (intro exI [of _ x] exI [of _ "inode_used q"]) simp

lemma recount_inode [simp]: "recount q (q\<lparr>inode_used := x\<rparr>)"
  unfolding recount_def by (intro exI [of _ "space_used q"] exI [of _ x]) simp

lemma recount_refl [simp]: "recount q q"
  unfolding recount_def by (intro exI [of _ "space_used q"] exI [of _ "inode_used q"]) simp

lemma recount_fields:
  assumes "recount q q'"
  shows "quotaid q' = quotaid q" "pquotaid q' = pquotaid q" "quota_type q' = quota_type q" "quota_name q' = quota_name q"
    "space_hard q' = space_hard q" "inode_hard q' = inode_hard q"
  using assms by (auto simp: recount_def quota_name_def split: quota_type_t.split)

lemma key_of_recount: "recount q q' \<Longrightarrow> key_of ops s q' = key_of ops s q"
  by (simp add: key_of_def recount_fields)

lemma storedD:
  assumes "stored ops s f q s'"
  shows "quota_at ops s' = (quota_at ops s)(f \<mapsto> q)" "name_at ops s' = name_at ops s"
    "md_getattr ops i s' = md_getattr ops i s"
  using assms by (auto simp: stored_def)

lemma key_of_cong: "name_at ops s' = name_at ops s \<Longrightarrow> key_of ops s' = key_of ops s"
  by (simp add: key_of_def fun_eq_iff split: option.split)

lemma db_okD:
  assumes "db_ok ops s"
  shows "quota_at ops s f = Some q \<Longrightarrow> key_of ops s q = Some f"
    "name_at ops s n = Some f \<Longrightarrow> ftype f \<noteq> 0"
    "name_at ops s n = Some f \<Longrightarrow> quota_at ops s f = Some q \<Longrightarrow> quota_name q = Some n"
    "quota_at ops s f = Some q \<Longrightarrow> quota_type q = QUOTA_DIR \<Longrightarrow> dir_like ops s (pquotaid q)"
    "md_getattr ops i s = Inr md \<Longrightarrow> dir_like ops s (md_quotaid md)"
  using assms unfolding db_ok_def by blast+

lemma dir_like_stored:
  assumes "stored ops s f q' s'" "quota_at ops s f = Some q" "recount q q'"
  shows "dir_like ops s' g \<longleftrightarrow> dir_like ops s g"
  using storedD(1) [OF assms(1)] assms(2) recount_fields(3) [OF assms(3)] by (auto simp: dir_like_def)

lemma db_ok_stored:
  assumes db: "db_ok ops s" and st: "stored ops s f q' s'" and q: "quota_at ops s f = Some q" and r: "recount q q'"
  shows "db_ok ops s'"
proof -
  note same = storedD [OF st] key_of_cong [OF storedD(2) [OF st]] dir_like_stored [OF st q r] recount_fields [OF r]
    key_of_recount [OF r, of ops s]
  show ?thesis
    unfolding db_ok_def
  proof (intro conjI allI impI)
    fix g p assume g: "quota_at ops s' g = Some p"
    show "key_of ops s' p = Some g"
      using g db_okD(1) [OF db] q same by (cases "g = f") auto
    show "dir_like ops s' (pquotaid p)" if "quota_type p = QUOTA_DIR"
      using g that db_okD(4) [OF db] q same by (cases "g = f") auto
    show "quota_name p = Some n" if "name_at ops s' n = Some g" for n
      using g that db_okD(3) [OF db] q same by (cases "g = f") auto
  qed (use db same in \<open>auto simp: db_ok_def\<close>)
qed

section \<open>Getting and setting\<close>

lemma andthen_simps [simp]:
  "m s = None \<Longrightarrow> andthen m f s = None"
  "m s = Some (Inl e, s') \<Longrightarrow> andthen m f s = Some (Inl e, s')"
  "m s = Some (Inr x, s') \<Longrightarrow> andthen m f s = f x s'"
  by (simp_all add: andthen_def)

lemma give_simps [simp]: "give x s = Some (Inr x, s)" "refuse e s = Some (Inl e, s)"
  by (simp_all add: give_def refuse_def)

text \<open>What a look at \<open>f\<close> gives.\<close>

definition found :: "quota option \<Rightarrow> errno + quota" where
  "found q = (case q of None \<Rightarrow> Inl ENOENT | Some q \<Rightarrow> Inr q)"

lemma kget_found: "store_ok ops \<Longrightarrow> kget ops f s = found (quota_at ops s f)"
  by (auto simp: store_ok_def found_def quota_at_def split: sum.split)

lemma get_dir [simp]:
  "store_ok ops \<Longrightarrow> md_get_quota ops f q QUOTA_DIR s = Some (found (quota_at ops s f), s)"
  by (simp add: md_get_quota_def get_quota_def md_quota_key_def ask_def kget_found)

definition named_at :: "'s kv_ops \<Rightarrow> 's \<Rightarrow> quota \<Rightarrow> fileid option" where
  "named_at ops s q = Option.bind (quota_name q) (name_at ops s)"

lemma name_missing: "store_ok ops \<Longrightarrow> name_at ops s n = None \<Longrightarrow> kvop_get ops n s = Inl ENOENT"
  by (auto simp: store_ok_def name_at_def split: sum.splits)

lemma name_found: "name_at ops s n = Some f \<Longrightarrow> kvop_get ops n s = Inr f"
  by (auto simp: name_at_def split: sum.splits)

lemma named_key_get:
  assumes "store_ok ops" "db_ok ops s"
  shows "named_key ops n False s = Some (case name_at ops s n of None \<Rightarrow> Inl ENOENT | Some f \<Rightarrow> Inr f, s)"
  by (cases "name_at ops s n")
    (subst named_key.simps, simp add: name_missing [OF assms(1)] name_found db_okD(2) [OF assms(2)])+

lemma get_named:
  assumes "store_ok ops" "db_ok ops s" "t = QUOTA_USER \<or> t = QUOTA_GROUP"
  shows "md_get_quota ops i q t s =
    Some (found (Option.bind (named_at ops s (q\<lparr>quota_type := t\<rparr>)) (quota_at ops s)), s)"
proof -
  obtain n where n: "quota_name (q\<lparr>quota_type := t\<rparr>) = Some n"
    using assms(3) by (auto simp: quota_name_def)
  show ?thesis
    using assms(3) named_key_get [OF assms(1,2), of n] n
    by (cases "name_at ops s n")
      (auto simp: md_get_quota_def get_quota_def md_quota_key_def named_at_def ask_def kget_found [OF assms(1)] found_def)
qed

lemma update_quota:
  assumes st: "store_ok ops" and db: "db_ok ops s" and q: "quota_at ops s f = Some q" and r: "recount q q'"
  obtains s' where "md_update_quota ops q' s = Some (Inr (), s')" "stored ops s f q' s'" "db_ok ops s'"
proof -
  obtain s' where set: "kset ops f q' False s = (None, s')" "stored ops s f q' s'"
    using st unfolding store_ok_def by blast
  have "key_of ops s q' = Some f"
    using db_okD(1) [OF db q] key_of_recount [OF r, of ops s] by simp
  then have "md_quota_key ops (quotaid q') q' False s = Some (Inr f, s)"
    using named_key_get [OF st db] by (auto simp: key_of_def md_quota_key_def split: if_splits option.splits)
  then have "md_update_quota ops q' s = Some (Inr (), s')"
    using set(1) by (simp add: md_update_quota_def order_do_def)
  then show ?thesis
    using that set(2) db_ok_stored [OF db set(2) q r] by blast
qed

end
