(* ===== verification/QuotaCounts.thy ===== *)
theory QuotaCounts
  imports QuotaSpec
begin

text \<open>
  What the loops over the directories and the steps for one group or user do to the stored quotas.
  The four loops of the code are instances of one, \<open>climb\<close>: it counts with \<open>h\<close>, stops where
  the new count is \<open>over\<close> the limit, and takes the count of the level before back with \<open>undo\<close>.
\<close>

section \<open>Changes of the stored quotas\<close>

type_synonym quota_map = "fileid \<rightharpoonup> quota"

text \<open>From \<open>s\<close> to \<open>s'\<close> the stored quotas become \<open>M\<close>, and all else stays.\<close>

definition moves :: "'s kv_ops \<Rightarrow> 's \<Rightarrow> quota_map \<Rightarrow> 's \<Rightarrow> bool" where
  "moves ops s M s' \<longleftrightarrow> quota_at ops s' = M \<and> name_at ops s' = name_at ops s \<and>
     (\<forall>i. md_getattr ops i s' = md_getattr ops i s) \<and> db_ok ops s'"

lemma movesD:
  assumes "moves ops s M s'"
  shows "quota_at ops s' = M" "name_at ops s' = name_at ops s" "md_getattr ops i s' = md_getattr ops i s" "db_ok ops s'"
  using assms by (auto simp: moves_def)

lemma quotas_refl: "db_ok ops s \<Longrightarrow> moves ops s (quota_at ops s) s"
  by (simp add: moves_def)

lemma quotas_trans: "moves ops s M s1 \<Longrightarrow> moves ops s1 M' s2 \<Longrightarrow> moves ops s M' s2"
  by (simp add: moves_def)

definition counted :: "(quota \<Rightarrow> quota) \<Rightarrow> fileid set \<Rightarrow> quota_map \<Rightarrow> quota_map" where
  "counted h K M = (\<lambda>f. if f \<in> K then map_option h (M f) else M f)"

lemma counted_empty [simp]: "counted h {} M = M"
  by (simp add: counted_def)

lemma counted_insert:
  "M f = Some q \<Longrightarrow> f \<notin> K \<Longrightarrow> counted h K (M(f \<mapsto> h q)) = counted h (insert f K) M"
  by (auto simp: counted_def fun_eq_iff)

lemma update_moves:
  assumes "store_ok ops" "db_ok ops s" "quota_at ops s f = Some q" "recount q q'"
  shows "\<exists>s'. md_update_quota ops q' s = Some (Inr (), s') \<and> moves ops s ((quota_at ops s)(f \<mapsto> q')) s'"
proof -
  obtain s' where "md_update_quota ops q' s = Some (Inr (), s')" "stored ops s f q' s'" "db_ok ops s'"
    using update_quota [OF assms] by blast
  then show ?thesis by (auto simp: moves_def stored_def)
qed

section \<open>The directories above one\<close>

fun way_up :: "quota_map \<Rightarrow> nat \<Rightarrow> fileid \<Rightarrow> fileid list" where
  "way_up M 0 f = []"
| "way_up M (Suc i) f =
     (if fid f = 0 then []
      else case M f of
             None \<Rightarrow> []
           | Some q \<Rightarrow> if quota_set q then f # way_up M i (pquotaid q) else [])"

text \<open>All quotas on the way are there.\<close>

fun whole :: "quota_map \<Rightarrow> nat \<Rightarrow> fileid \<Rightarrow> bool" where
  "whole M 0 f = True"
| "whole M (Suc i) f =
     (fid f = 0 \<or> (\<exists>q. M f = Some q \<and> (quota_set q \<longrightarrow> whole M i (pquotaid q))))"

lemma chain_set: "g \<in> set (way_up M i f) \<Longrightarrow> \<exists>q. M g = Some q \<and> quota_set q"
  by (induction i arbitrary: f) (auto split: if_splits option.splits dest: sym)

lemma chain_update:
  assumes "M g = Some q" "quota_set q" "g \<notin> set (way_up M i f)"
  shows "way_up (M(g \<mapsto> q')) i f = way_up M i f" "whole M i f \<Longrightarrow> whole (M(g \<mapsto> q')) i f"
proof -
  show "way_up (M(g \<mapsto> q')) i f = way_up M i f"
    using assms by (induction i arbitrary: f) (auto split: if_splits option.splits)
  show "whole M i f \<Longrightarrow> whole (M(g \<mapsto> q')) i f"
    using assms by (induction i arbitrary: f) (auto split: if_splits option.splits)
qed

section \<open>The loop\<close>

fun climb :: "'s kv_ops \<Rightarrow> (quota \<Rightarrow> quota) \<Rightarrow> (quota \<Rightarrow> bool) \<Rightarrow> (quota \<Rightarrow> quota) \<Rightarrow> nat \<Rightarrow> fileid \<Rightarrow> quota option
    \<Rightarrow> ('s, unit) act" where
  "climb ops h over undo 0 f prev = give ()"
| "climb ops h over undo (Suc i) f prev =
     (if fid f = 0 then give ()
      else andthen (md_get_quota ops f no_quota QUOTA_DIR) (\<lambda>q.
        if \<not> quota_set q then give ()
        else if over (h q) then
          andthen (case prev of None \<Rightarrow> give () | Some l \<Rightarrow> md_update_quota ops (undo l)) (\<lambda>_. refuse EDQUOT)
        else andthen (md_update_quota ops (h q)) (\<lambda>_. climb ops h over undo i (pquotaid q) (Some (h q)))))"

definition one_inode :: "quota \<Rightarrow> quota" where
  "one_inode q = (if inode_used q < UINT64_MAX then q\<lparr>inode_used := inode_used q + 1\<rparr> else q)"

definition over_inodes :: "quota \<Rightarrow> bool" where
  "over_inodes q \<longleftrightarrow> inode_hard q > 0 \<and> inode_used q > inode_hard q"

definition less_inode :: "quota \<Rightarrow> quota" where
  "less_inode q = q\<lparr>inode_used := inode_used q - 1\<rparr>"

definition drop_inode :: "quota \<Rightarrow> quota" where
  "drop_inode q = (if inode_used q > 0 then less_inode q else q)"

definition more_space :: "64 word \<Rightarrow> quota \<Rightarrow> quota" where
  "more_space n q = q\<lparr>space_used := used_plus (space_used q) n\<rparr>"

definition over_space :: "quota \<Rightarrow> bool" where
  "over_space q \<longleftrightarrow> space_hard q > 0 \<and> space_used q > space_hard q"

definition less_space :: "64 word \<Rightarrow> quota \<Rightarrow> quota" where
  "less_space n q = q\<lparr>space_used := space_used q - n\<rparr>"

definition drop_space :: "64 word \<Rightarrow> quota \<Rightarrow> quota" where
  "drop_space n q = q\<lparr>space_used := used_minus (space_used q) n\<rparr>"

lemmas counting_defs = one_inode_def over_inodes_def less_inode_def drop_inode_def more_space_def over_space_def
  less_space_def drop_space_def

lemma recount_counting [simp]:
  "recount q (one_inode q)" "recount q (less_inode q)" "recount q (drop_inode q)"
  "recount q (more_space n q)" "recount q (less_space n q)" "recount q (drop_space n q)"
  by (simp_all add: counting_defs)

lemma same_parent [simp]: "pquotaid (one_inode q) = pquotaid q"
  by (simp add: one_inode_def)

lemma more_space_simps [simp]:
  "space_hard (more_space n q) = space_hard q" "space_used (more_space n q) = used_plus (space_used q) n"
  "pquotaid (more_space n q) = pquotaid q"
  by (simp_all add: more_space_def)

lemma increase_space_climb:
  "increase_space_dir ops i f n prev = climb ops (more_space n) over_space (less_space n) i f prev"
  by (induction i arbitrary: f prev)
    (simp_all add: Let_def over_space_def more_space_def [symmetric] less_space_def [symmetric] cong: if_cong option.case_cong)

lemma decrease_space_climb:
  assumes "store_ok ops" "db_ok ops s"
  shows "decrease_space_dir ops i f n s = climb ops (drop_space n) (\<lambda>q. False) id i f prev s"
  using assms(2)
proof (induction i arbitrary: f prev s)
  case (Suc i)
  show ?case
  proof (cases "quota_at ops s f")
    case (Some q)
    have idle: "decrease_space_dir ops j f n s = Some (Inr (), s)" if "\<not> quota_set q" for j
      using Some that assms(1) by (induction j) (auto simp: found_def)
    obtain s' where "md_update_quota ops (drop_space n q) s = Some (Inr (), s')" "db_ok ops s'"
      using update_moves [OF assms(1) Suc.prems Some, of "drop_space n q"] by (auto intro: movesD(4))
    then show ?thesis
      using Some assms(1) idle Suc.IH [of s'] by (simp add: found_def drop_space_def Let_def)
  qed (use assms in \<open>simp add: found_def\<close>)
qed simp

lemma decrease_inode_climb:
  assumes "store_ok ops" "db_ok ops s"
  shows "decrease_inode_dir ops i f s = climb ops drop_inode (\<lambda>q. False) id i f prev s"
  using assms(2)
proof (induction i arbitrary: f prev s)
  case (Suc i)
  show ?case
  proof (cases "quota_at ops s f")
    case (Some q)
    have idle: "decrease_inode_dir ops j f s = Some (Inr (), s)" if "\<not> quota_set q" for j
      using Some that assms(1) by (induction j) (auto simp: found_def)
    obtain s' where "md_update_quota ops (drop_inode q) s = Some (Inr (), s')" "db_ok ops s'"
      using update_moves [OF assms(1) Suc.prems Some, of "drop_inode q"] by (auto intro: movesD(4))
    then show ?thesis
      using Some assms(1) idle Suc.IH [of s'] by (auto simp: found_def drop_inode_def less_inode_def Let_def)
  qed (use assms in \<open>simp add: found_def\<close>)
qed simp

lemma increase_inode_climb:
  assumes "store_ok ops" "db_ok ops s" "\<And>l. prev = Some l \<Longrightarrow> \<exists>g. quota_at ops s g = Some l"
  shows "increase_inode_dir ops i f prev s = climb ops one_inode over_inodes less_inode i f prev s"
  using assms(2,3)
proof (induction i arbitrary: f prev s)
  case (Suc i)
  show ?case
  proof (cases "quota_at ops s f")
    case (Some q)
    have idle: "increase_inode_dir ops j f prev s = Some (Inr (), s)" if "\<not> quota_set q" for j
      using Some that assms(1) by (induction j) (auto simp: found_def)
    have undo: "\<exists>s'. md_update_quota ops (less_inode l) s = Some (Inr (), s')" if "prev = Some l" for l
      using Suc.prems(2) [OF that] update_moves [OF assms(1) Suc.prems(1), of _ l "less_inode l"] by auto
    obtain s' where s': "md_update_quota ops (one_inode q) s = Some (Inr (), s')"
        "moves ops s ((quota_at ops s)(f \<mapsto> one_inode q)) s'"
      using update_moves [OF assms(1) Suc.prems(1) Some, of "one_inode q"] by auto
    have rest: "increase_inode_dir ops i (pquotaid q) (Some (one_inode q)) s' =
        climb ops one_inode over_inodes less_inode i (pquotaid q) (Some (one_inode q)) s'"
      by (rule Suc.IH) (use movesD [OF s'(2)] in auto)
    have "increase_inode_dir ops (Suc i) f prev s =
       (if fid f = 0 then give () s
        else if \<not> quota_set q then increase_inode_dir ops i f prev s
        else if over_inodes (one_inode q) then
          andthen (case prev of None \<Rightarrow> give () | Some l \<Rightarrow> ignoring (md_update_quota ops (less_inode l)))
            (\<lambda>_. refuse EDQUOT) s
        else andthen (md_update_quota ops (one_inode q))
          (\<lambda>_. increase_inode_dir ops i (pquotaid (one_inode q)) (Some (one_inode q))) s)"
      using Some assms(1) by (simp add: found_def Let_def one_inode_def [symmetric] over_inodes_def [symmetric]
          less_inode_def [symmetric] cong: option.case_cong)
    then show ?thesis
      using Some assms(1) idle undo s'(1) rest
      by (cases prev) (auto simp: found_def ignoring_def andthen_def)
  qed (use assms in \<open>simp add: found_def\<close>)
qed simp


section \<open>What the loop does\<close>

text \<open>The quotas after the loop from \<open>f\<close> up: all on the way up are counted, or those below the level
  before the one that is over its limit.\<close>

definition first_over :: "(quota \<Rightarrow> quota) \<Rightarrow> (quota \<Rightarrow> bool) \<Rightarrow> quota_map \<Rightarrow> fileid list \<Rightarrow> nat" where
  "first_over h over M fs = length (takeWhile (\<lambda>f. \<not> over (h (the (M f)))) fs)"

definition climbed ::
    "(quota \<Rightarrow> quota) \<Rightarrow> (quota \<Rightarrow> bool) \<Rightarrow> quota_map \<Rightarrow> fileid list \<Rightarrow> (errno + unit) \<times> quota_map" where
  "climbed h over M fs =
     (let k = first_over h over M fs in
      if k = length fs then (Inr (), counted h (set fs) M)
      else (Inl EDQUOT, counted h (set (take (k - 1) fs)) M))"

lemma first_over_Cons:
  "first_over h over M (f # fs) = (if over (h (the (M f))) then 0 else Suc (first_over h over M fs))"
  by (simp add: first_over_def)

lemma first_over_cong:
  assumes "\<And>f. f \<in> set fs \<Longrightarrow> M f = M' f"
  shows "first_over h over M fs = first_over h over M' fs"
  unfolding first_over_def using assms by (metis (mono_tags, lifting) takeWhile_cong)

text \<open>The loop in the middle: \<open>pg\<close> is where the quota of the level before is.\<close>

definition climbing ::
    "(quota \<Rightarrow> quota) \<Rightarrow> (quota \<Rightarrow> quota) \<Rightarrow> fileid option \<Rightarrow> nat \<Rightarrow> fileid list \<Rightarrow> quota_map \<Rightarrow> quota_map" where
  "climbing h undo pg k fs M =
     (if k = length fs then counted h (set fs) M
      else if k = 0 then (case pg of None \<Rightarrow> M | Some g \<Rightarrow> counted undo {g} M)
      else counted h (set (take (k - 1) fs)) M)"

lemma climbing_Cons:
  assumes q: "M f = Some q" "k \<noteq> length C \<Longrightarrow> undo (h q) = q" and f: "f \<notin> set C" and k: "k \<le> length C"
  shows "climbing h undo (Some f) k C (M(f \<mapsto> h q)) = climbing h undo pg (Suc k) (f # C) M"
proof -
  have "counted undo {f} (M(f \<mapsto> h q)) = M" if "k \<noteq> length C"
    using q(1) q(2) [OF that] by (auto simp: counted_def fun_eq_iff)
  moreover have "counted h (set C) (M(f \<mapsto> h q)) = counted h (insert f (set C)) M"
    using q(1) f by (rule_tac counted_insert) auto
  moreover have "counted h (set (take (k - 1) C)) (M(f \<mapsto> h q)) = counted h (set (take k (f # C))) M" if "k \<noteq> 0"
    using that counted_insert [of M f q "set (take (k - 1) C)" h] q f in_set_takeD [of f "k - 1" C]
    by (cases k) auto
  ultimately show ?thesis
    by (auto simp: climbing_def)
qed

lemma first_over_neq: "first_over h over M fs \<noteq> length fs \<Longrightarrow> \<exists>p. over p"
  unfolding first_over_def by (metis (mono_tags, lifting) takeWhile_eq_all_conv)

lemma climb_counts:
  assumes st: "store_ok ops" and h: "\<And>q. recount q (h q)" "\<And>q. recount q (undo q)"
    and db: "db_ok ops s" and M: "quota_at ops s = M"
    and w: "whole M i f" and d: "distinct (way_up M i f)"
    and u: "\<And>p g q. over p \<Longrightarrow> g \<in> set (way_up M i f) \<Longrightarrow> M g = Some q \<Longrightarrow> undo (h q) = q"
    and p: "case pg of None \<Rightarrow> prev = None | Some g \<Rightarrow> prev \<noteq> None \<and> prev = M g"
    and k: "k = first_over h over M (way_up M i f)"
  shows "\<exists>s'. climb ops h over undo i f prev s =
      Some (if k = length (way_up M i f) then Inr () else Inl EDQUOT, s') \<and>
    moves ops s (climbing h undo pg k (way_up M i f) M) s'"
  using db M w d u p k
proof (induction i arbitrary: f s M prev pg k)
  case 0
  then show ?case
    using quotas_refl [of ops s] by (simp add: first_over_def climbing_def)
next
  case (Suc i)
  show ?case
  proof (cases "fid f = 0 \<or> (\<forall>q. M f = Some q \<longrightarrow> \<not> quota_set q)")
    case True
    then have "way_up M (Suc i) f = []" by (auto split: option.split)
    moreover have "climb ops h over undo (Suc i) f prev s = Some (Inr (), s)"
      using True Suc.prems(2,3) st by (auto simp: found_def)
    ultimately show ?thesis
      using Suc.prems(1,2,7) quotas_refl [of ops s] by (simp add: first_over_def climbing_def)
  next
    case False
    then obtain q where q: "M f = Some q" "quota_set q" "fid f \<noteq> 0" by auto
    let ?C = "way_up M i (pquotaid q)"
    define M1 where "M1 = M(f \<mapsto> h q)"
    then have M1: "M1 f = Some (h q)" "\<And>g. g \<noteq> f \<Longrightarrow> M1 g = M g" by simp_all
    have C: "way_up M (Suc i) f = f # ?C" using q by simp
    have f: "f \<notin> set ?C" "distinct ?C" using Suc.prems(4) C by simp_all
    have u: "over p \<Longrightarrow> undo (h q) = q" for p using Suc.prems(5) [of p f q] C q(1) by simp
    have get: "md_get_quota ops f no_quota QUOTA_DIR s = Some (Inr q, s)"
      using q(1) Suc.prems(2) st by (simp add: found_def)
    show ?thesis
    proof (cases "over (h q)")
      case True
      then have k: "k = 0" "k \<noteq> length (f # ?C)" using Suc.prems(7) C q(1) by (simp_all add: first_over_Cons)
      show ?thesis
      proof (cases pg)
        case None
        then show ?thesis
          using Suc.prems(1,2,6) k C q True get quotas_refl [of ops s] by (simp add: climbing_def)
      next
        case (Some g)
        then obtain l where l: "prev = Some l" "M g = Some l" using Suc.prems(6) by auto
        obtain s' where "md_update_quota ops (undo l) s = Some (Inr (), s')" "moves ops s (M(g \<mapsto> undo l)) s'"
          using update_moves [OF st Suc.prems(1), of g l "undo l"] l(2) Suc.prems(2) h(2) by auto
        moreover have "M(g \<mapsto> undo l) = counted undo {g} M"
          using l(2) by (auto simp: counted_def fun_eq_iff)
        ultimately show ?thesis
          using k C q True get l(1) Some by (simp add: climbing_def)
      qed
    next
      case False
      obtain s1 where s1: "md_update_quota ops (h q) s = Some (Inr (), s1)" "moves ops s M1 s1"
        using update_moves [OF st Suc.prems(1), of f q "h q"] q(1) Suc.prems(2) h(1) by (auto simp: M1_def)
      note ch = chain_update [OF q(1,2) f(1), of "h q", folded M1_def]
      have "first_over h over M ?C = first_over h over M1 ?C"
        by (rule first_over_cong) (use f(1) M1(2) in metis)
      then have k: "k = Suc (first_over h over M1 ?C)"
        using Suc.prems(7) C q(1) False by (simp add: first_over_Cons)
      have u1: "undo (h p) = p" if "over r" "g \<in> set ?C" "M1 g = Some p" for r g p
        using that Suc.prems(5) [of r g p] C f(1) M1(2) [of g] by (cases "g = f") simp_all
      have w: "whole M1 i (pquotaid q)" using ch(2) Suc.prems(3) q by auto
      have "\<exists>s'. climb ops h over undo i (pquotaid q) (Some (h q)) s1 =
          Some (if first_over h over M1 ?C = length ?C then Inr () else Inl EDQUOT, s') \<and>
        moves ops s1 (climbing h undo (Some f) (first_over h over M1 ?C) ?C M1) s'"
        unfolding ch(1) [symmetric]
        by (rule Suc.IH [OF movesD(4,1) [OF s1(2)] w]) (use f ch(1) u1 M1 in auto)
      moreover have "climbing h undo (Some f) (first_over h over M1 ?C) ?C M1 = climbing h undo pg k (f # ?C) M"
        unfolding k M1_def
      proof (rule climbing_Cons)
        show "undo (h q) = q" if "first_over h over (M(f \<mapsto> h q)) ?C \<noteq> length ?C"
          using first_over_neq [OF that] u by blast
      qed (use q(1) f(1) in \<open>simp_all add: first_over_def length_takeWhile_le\<close>)
      ultimately obtain s' where "climb ops h over undo i (pquotaid q) (Some (h q)) s1 =
          Some (if k = length (f # ?C) then Inr () else Inl EDQUOT, s')" "moves ops s1 (climbing h undo pg k (f # ?C) M) s'"
        using k by auto
      then show ?thesis
        using get s1(1) q(2,3) False C quotas_trans [OF s1(2)] by auto
    qed
  qed
qed

lemma climb_counts_all:
  assumes "store_ok ops" "\<And>q. recount q (h q)" "\<And>q. recount q (undo q)"
    and "db_ok ops s" "whole (quota_at ops s) i f" "distinct (way_up (quota_at ops s) i f)"
    and "\<And>p g q. over p \<Longrightarrow> g \<in> set (way_up (quota_at ops s) i f) \<Longrightarrow> quota_at ops s g = Some q \<Longrightarrow> undo (h q) = q"
  shows "\<exists>s'. climb ops h over undo i f None s =
      Some (fst (climbed h over (quota_at ops s) (way_up (quota_at ops s) i f)), s') \<and>
    moves ops s (snd (climbed h over (quota_at ops s) (way_up (quota_at ops s) i f))) s'"
proof -
  let ?C = "way_up (quota_at ops s) i f"
  have "climbing h undo None (first_over h over (quota_at ops s) ?C) ?C (quota_at ops s) =
      snd (climbed h over (quota_at ops s) ?C)"
    by (simp add: climbing_def climbed_def Let_def)
  moreover have "\<exists>s'. climb ops h over undo i f None s =
      Some (if first_over h over (quota_at ops s) ?C = length ?C then Inr () else Inl EDQUOT, s') \<and>
    moves ops s (climbing h undo None (first_over h over (quota_at ops s) ?C) ?C (quota_at ops s)) s'"
    by (rule climb_counts [OF assms(1-4) refl assms(5,6)]) (use assms(7) in auto)
  ultimately show ?thesis
    by (simp add: climbed_def Let_def split: if_splits)
qed

end
