(* ===== verification/QuotaProps.thy ===== *)
theory QuotaProps
  imports QuotaCounts
begin

text \<open>
  What an increase and a decrease do to the stored quotas, as functions on the map of quotas.
\<close>

section \<open>The quota of a group or a user\<close>

definition group_name :: "64 word \<Rightarrow> 32 word \<Rightarrow> string" where
  "group_name v g = ''group_'' @ dec_nat (unat v) @ ''_'' @ dec_nat (unat g)"

definition user_name :: "64 word \<Rightarrow> 32 word \<Rightarrow> string" where
  "user_name v u = ''user_'' @ dec_nat (unat v) @ ''_'' @ dec_nat (unat u)"

lemma group_not_user: "group_name v g \<noteq> user_name v' u"
  by (simp add: group_name_def user_name_def)

definition named :: "(string \<rightharpoonup> fileid) \<Rightarrow> quota_map \<Rightarrow> string \<rightharpoonup> quota" where
  "named N M n = Option.bind (N n) M"

text \<open>Counting the quota of a name, when it is set.\<close>

definition if_set :: "(quota \<Rightarrow> quota) \<Rightarrow> quota \<Rightarrow> quota" where
  "if_set h q = (if quota_set q then h q else q)"

definition bump :: "(string \<rightharpoonup> fileid) \<Rightarrow> string \<Rightarrow> (quota \<Rightarrow> quota) \<Rightarrow> quota_map \<Rightarrow> quota_map" where
  "bump N n h M = (case N n of None \<Rightarrow> M | Some f \<Rightarrow> counted (if_set h) {f} M)"

lemma adjust_named:
  assumes st: "store_ok ops" and db: "db_ok ops s" and t: "t = QUOTA_USER \<or> t = QUOTA_GROUP"
    and n: "quota_name (q0\<lparr>quota_type := t\<rparr>) = Some n" and h: "\<And>q. recount q (h q)"
    and act: "\<And>q. quota_set q \<Longrightarrow> k q = md_update_quota ops (h q) \<or> k q = give () \<and> h q = q"
  shows "\<exists>s'. andthen (md_get_quota ops null_id q0 t) (\<lambda>q. if \<not> quota_set q then give () else k q) s =
      Some (if named (name_at ops s) (quota_at ops s) n = None then Inl ENOENT else Inr (), s') \<and>
    moves ops s (bump (name_at ops s) n h (quota_at ops s)) s'"
proof -
  note get = get_named [OF st db t, of null_id q0] n
  consider "name_at ops s n = None" | f where "name_at ops s n = Some f" "quota_at ops s f = None"
    | f q where "name_at ops s n = Some f" "quota_at ops s f = Some q"
    by (metis option.exhaust)
  then show ?thesis
  proof cases
    case 1
    then show ?thesis
      using get quotas_refl [OF db] by (simp add: named_def named_at_def found_def bump_def)
  next
    case 2
    then have "bump (name_at ops s) n h (quota_at ops s) = quota_at ops s"
      by (auto simp: bump_def counted_def fun_eq_iff)
    then show ?thesis
      using 2 get quotas_refl [OF db] by (simp add: named_def named_at_def found_def)
  next
    case 3
    have r: "recount q (if_set h q)" using h by (simp add: if_set_def)
    have b: "bump (name_at ops s) n h (quota_at ops s) = (quota_at ops s)(f \<mapsto> if_set h q)"
      using 3 by (auto simp: bump_def counted_def fun_eq_iff)
    have same: "(quota_at ops s)(f \<mapsto> q) = quota_at ops s" using 3(2) by auto
    show ?thesis
    proof (cases "quota_set q \<and> k q = md_update_quota ops (h q)")
      case True
      then show ?thesis
        using 3 get update_moves [OF st db 3(2) r] b by (auto simp: named_def named_at_def found_def if_set_def)
    next
      case False
      then have "if_set h q = q" "quota_set q \<Longrightarrow> k q = give ()" using act [of q] by (auto simp: if_set_def)
      then show ?thesis
        using 3 get quotas_refl [OF db] b same by (auto simp: named_def named_at_def found_def)
    qed
  qed
qed

text \<open>A file is counted in the quota of a group or a user below its limit only.\<close>

definition one_inode_below :: "quota \<Rightarrow> quota" where
  "one_inode_below q = (if inode_used q < inode_hard q then q\<lparr>inode_used := inode_used q + 1\<rparr> else q)"

definition who :: "32 word \<Rightarrow> 32 word \<Rightarrow> 64 word \<Rightarrow> quota_type_t \<Rightarrow> string" where
  "who u g v t = (if t = QUOTA_GROUP then group_name v g else user_name v u)"

lemmas who_defs = quota_name_def who_def group_name_def user_name_def

definition adjusts :: "'s kv_ops \<Rightarrow> 's \<Rightarrow> ('s, unit) act \<Rightarrow> string \<Rightarrow> (quota \<Rightarrow> quota) \<Rightarrow> bool" where
  "adjusts ops s m n h \<longleftrightarrow> (\<exists>s'. m s =
      Some (if named (name_at ops s) (quota_at ops s) n = None then Inl ENOENT else Inr (), s') \<and>
    moves ops s (bump (name_at ops s) n h (quota_at ops s)) s')"

lemma adjusting:
  assumes "store_ok ops" "db_ok ops s" "t = QUOTA_USER \<or> t = QUOTA_GROUP" "volid f = v"
  shows "adjusts ops s (increase_inode_for_group_or_user_quota ops u g f t) (who u g v t) one_inode_below"
    "adjusts ops s (increase_space_for_group_or_user_quota ops u g f t sp) (who u g v t) (more_space sp)"
    "adjusts ops s (decrease_inode_for_user_or_group_quota ops u g f t) (who u g v t) drop_inode"
    "adjusts ops s (decrease_space_for_user_or_group_quota ops u g f t sp) (who u g v t) (drop_space sp)"
proof -
  note a = adjust_named [OF assms(1-3)]
  show "adjusts ops s (increase_inode_for_group_or_user_quota ops u g f t) (who u g v t) one_inode_below"
    unfolding adjusts_def increase_inode_for_group_or_user_quota_def
    by (rule a) (use assms(3,4) in \<open>auto simp: who_defs one_inode_below_def Let_def\<close>)
  show "adjusts ops s (increase_space_for_group_or_user_quota ops u g f t sp) (who u g v t) (more_space sp)"
    unfolding adjusts_def increase_space_for_group_or_user_quota_def
    by (rule a) (use assms(3,4) in \<open>auto simp: who_defs more_space_def\<close>)
  show "adjusts ops s (decrease_inode_for_user_or_group_quota ops u g f t) (who u g v t) drop_inode"
    unfolding adjusts_def decrease_inode_for_user_or_group_quota_def
    by (rule a) (use assms(3,4) in \<open>auto simp: who_defs drop_inode_def less_inode_def\<close>)
  show "adjusts ops s (decrease_space_for_user_or_group_quota ops u g f t sp) (who u g v t) (drop_space sp)"
    unfolding adjusts_def decrease_space_for_user_or_group_quota_def
    by (rule a) (use assms(3,4) in \<open>auto simp: who_defs drop_space_def\<close>)
qed

section \<open>The check\<close>

lemma andthen_give [simp]: "andthen (give x) f = f x"
  by (simp add: andthen_def fun_eq_iff)

lemma andthen_unit [simp]: "andthen m give = m"
  by (auto simp: andthen_def fun_eq_iff split: option.split sum.split prod.split)

definition passes :: "(quota \<Rightarrow> bool) \<Rightarrow> quota \<Rightarrow> bool" where
  "passes chk q \<longleftrightarrow> (quota_set q \<longrightarrow> chk q)"

definition when_set :: "quota \<Rightarrow> ('s, unit) act \<Rightarrow> ('s, unit) act" where
  "when_set q m = (if quota_set q then m else give ())"

text \<open>The nested tests of the code: all quotas that are set are looked at, and then all are counted.\<close>

lemma check_tree:
  "(if quota_set dirq then
      if chk dirq then
        if quota_set grp then
          if chk grp then
            if quota_set usr then
              if chk usr then andthen inc_dir (\<lambda>_. andthen inc_group (\<lambda>_. inc_user)) else refuse EDQUOT
            else andthen inc_dir (\<lambda>_. inc_group)
          else refuse EDQUOT
        else if quota_set usr then
          if chk usr then andthen inc_dir (\<lambda>_. inc_user) else refuse EDQUOT
        else inc_dir
      else refuse EDQUOT
    else if quota_set grp then
      if chk grp then
        if quota_set usr then
          if chk usr then andthen inc_group (\<lambda>_. inc_user) else refuse EDQUOT
        else inc_group
      else refuse EDQUOT
    else if quota_set usr then
      if chk usr then inc_user else refuse EDQUOT
    else give ()) =
   (if passes chk dirq \<and> passes chk grp \<and> passes chk usr then
      andthen (when_set dirq inc_dir) (\<lambda>_. andthen (when_set grp inc_group) (\<lambda>_. when_set usr inc_user))
    else refuse EDQUOT)"
  by (simp add: passes_def when_set_def)

section \<open>More in use\<close>

definition refuses :: "(quota \<Rightarrow> bool) \<Rightarrow> quota option \<Rightarrow> bool" where
  "refuses chk q \<longleftrightarrow> (\<exists>x. q = Some x \<and> \<not> passes chk x)"

text \<open>The answer and the new quotas.\<close>

definition accounted :: "(quota \<Rightarrow> bool) \<Rightarrow> (quota \<Rightarrow> quota) \<Rightarrow> (quota \<Rightarrow> bool) \<Rightarrow> (quota \<Rightarrow> quota) \<Rightarrow>
    (string \<rightharpoonup> fileid) \<Rightarrow> fileid \<Rightarrow> string \<Rightarrow> string \<Rightarrow> quota_map \<Rightarrow> (errno + unit) \<times> quota_map" where
  "accounted chk h over h' N qid gn un M =
     (if refuses chk (M qid) \<or> refuses chk (named N M gn) \<or> refuses chk (named N M un) then (Inl EDQUOT, M)
      else
        let (answer, M') = climbed h over M (way_up M QUOTA_MAX_LEVEL qid)
        in case answer of
             Inl e \<Rightarrow> (Inl e, M')
           | Inr x \<Rightarrow> (Inr (), bump N un h' (bump N gn h' M')))"

lemma chain_dirs:
  assumes "db_ok ops s" "dir_like ops s f"
  shows "g \<in> set (way_up (quota_at ops s) i f) \<Longrightarrow> quota_at ops s g = Some q \<Longrightarrow> quota_type q = QUOTA_DIR"
  using assms(2)
proof (induction i arbitrary: f)
  case (Suc i)
  show ?case
  proof (cases "g = f")
    case True
    then show ?thesis using Suc.prems by (simp add: dir_like_def)
  next
    case False
    then obtain p where p: "quota_at ops s f = Some p" "g \<in> set (way_up (quota_at ops s) i (pquotaid p))"
      using Suc.prems(1) by (cases "quota_at ops s f") (auto split: if_splits)
    then have "dir_like ops s (pquotaid p)"
      using Suc.prems(3) db_okD(4) [OF assms(1)] by (simp add: dir_like_def)
    then show ?thesis using Suc.IH p(2) Suc.prems(2) by blast
  qed
qed simp

lemma named_apart:
  assumes db: "db_ok ops s" and n: "name_at ops s n = Some f" "quota_at ops s f = Some q"
  shows "quota_type q \<noteq> QUOTA_DIR" "name_at ops s n' = Some f \<Longrightarrow> n' = n"
  using db_okD(3) [OF db n] db_okD(3) [OF db _ n(2)] by (auto simp: quota_name_def)

lemma counted_other: "f \<notin> K \<Longrightarrow> counted h K M f = M f"
  by (simp add: counted_def)

lemma counted_None [simp]: "counted h K M f = None \<longleftrightarrow> M f = None"
  by (simp add: counted_def)

lemma bump_None [simp]: "bump N n h M f = None \<longleftrightarrow> M f = None"
  by (simp add: bump_def split: option.split)

lemma named_cong_dom: "(\<And>f. M' f = None \<longleftrightarrow> M f = None) \<Longrightarrow> named N M' n = None \<longleftrightarrow> named N M n = None"
  by (cases "N n") (simp_all add: named_def)

lemma bump_idle:
  assumes "\<And>q. named N M n = Some q \<Longrightarrow> \<not> quota_set q"
  shows "bump N n h M = M"
  using assms by (cases "N n") (auto simp: bump_def counted_def named_def if_set_def fun_eq_iff map_option_case split: option.split)

text \<open>The step for a group or a user, when its quota is as it was looked at.\<close>

lemma when_set_adjusts:
  assumes a: "adjusts ops s m n h" and q: "named (name_at ops s) (quota_at ops s) n = q" and db: "db_ok ops s"
  shows "\<exists>s'. when_set (case q of None \<Rightarrow> no_quota | Some q \<Rightarrow> q) m s = Some (Inr (), s') \<and>
    moves ops s (bump (name_at ops s) n h (quota_at ops s)) s'"
proof (cases "\<exists>x. q = Some x \<and> quota_set x")
  case True
  then show ?thesis
    using a q by (auto simp: adjusts_def when_set_def)
next
  case False
  then have "bump (name_at ops s) n h (quota_at ops s) = quota_at ops s"
    using q by (intro bump_idle) auto
  moreover have "\<not> quota_set (case q of None \<Rightarrow> no_quota | Some q \<Rightarrow> q)"
    using False by (auto simp: quota_set_def no_quota_def split: option.split)
  ultimately show ?thesis
    using quotas_refl [OF db] by (simp add: when_set_def)
qed

lemma or_missing_found [simp]:
  "m s = Some (found q, s) \<Longrightarrow> or_missing no_quota m s = Some (Inr (case q of None \<Rightarrow> no_quota | Some q \<Rightarrow> q), s)"
  by (cases q) (simp_all add: or_missing_def found_def)

lemma passes_found: "passes chk (case q of None \<Rightarrow> no_quota | Some q \<Rightarrow> q) \<longleftrightarrow> \<not> refuses chk q"
  by (cases q) (auto simp: refuses_def passes_def quota_set_def no_quota_def)

lemma named_counted:
  assumes db: "db_ok ops s" and dl: "dir_like ops s qid" and K: "K \<subseteq> set (way_up (quota_at ops s) i qid)"
  shows "named (name_at ops s) (counted h K (quota_at ops s)) n = named (name_at ops s) (quota_at ops s) n"
proof (cases "\<exists>f q. name_at ops s n = Some f \<and> quota_at ops s f = Some q")
  case True
  then obtain f q where f: "name_at ops s n = Some f" "quota_at ops s f = Some q" by blast
  then have "f \<notin> K"
    using named_apart(1) [OF db f] chain_dirs [OF db dl] K by blast
  then show ?thesis using f by (simp add: named_def counted_other)
next
  case False
  then show ?thesis by (cases "name_at ops s n") (auto simp: named_def)
qed

lemma named_bump:
  assumes db: "db_ok ops s" and n: "n' \<noteq> n"
  shows "named (name_at ops s) (bump (name_at ops s) n h (quota_at ops s)) n' = named (name_at ops s) (quota_at ops s) n'"
proof (cases "\<exists>f q. name_at ops s n' = Some f \<and> quota_at ops s f = Some q")
  case True
  then obtain f q where f: "name_at ops s n' = Some f" "quota_at ops s f = Some q" by blast
  then have "name_at ops s n \<noteq> Some f"
    using named_apart(2) [OF db f, of n] n by blast
  then show ?thesis using f by (auto simp: named_def bump_def counted_other split: option.split)
next
  case False
  then show ?thesis by (cases "name_at ops s n'") (auto simp: named_def)
qed

lemma chain_unset: "(\<And>q. M f = Some q \<Longrightarrow> \<not> quota_set q) \<Longrightarrow> way_up M i f = []"
  by (cases i) (auto split: option.split)

lemma check_and_count:
  assumes db: "db_ok ops s" and dl: "dir_like ops s qid" and M: "quota_at ops s = M" "name_at ops s = N"
    and dirs: "\<exists>s'. inc_dir s = Some (fst C, s') \<and> moves ops s (snd C) s'"
    and C: "C = climbed h over M (way_up M QUOTA_MAX_LEVEL qid)"
    and names: "\<And>s. db_ok ops s \<Longrightarrow> adjusts ops s inc_group gn h'" "\<And>s. db_ok ops s \<Longrightarrow> adjusts ops s inc_user un h'"
      "gn \<noteq> un"
    and q: "dirq = (case M qid of None \<Rightarrow> no_quota | Some q \<Rightarrow> q)"
      "grp = (case named N M gn of None \<Rightarrow> no_quota | Some q \<Rightarrow> q)"
      "usr = (case named N M un of None \<Rightarrow> no_quota | Some q \<Rightarrow> q)"
    and A: "A = accounted chk h over h' N qid gn un M"
  shows "\<exists>s'. (if passes chk dirq \<and> passes chk grp \<and> passes chk usr then
      andthen (when_set dirq inc_dir) (\<lambda>_. andthen (when_set grp inc_group) (\<lambda>_. when_set usr inc_user))
    else refuse EDQUOT) s = Some (fst A, s') \<and> moves ops s (snd A) s'"
proof (cases "passes chk dirq \<and> passes chk grp \<and> passes chk usr")
  case False
  then show ?thesis
    using quotas_refl [OF db] M q A by (auto simp: passes_found accounted_def)
next
  case True
  then have A: "A = (case fst C of Inl e \<Rightarrow> (Inl e, snd C)
      | Inr x \<Rightarrow> (Inr (), bump N un h' (bump N gn h' (snd C))))"
    using A C q by (simp add: passes_found accounted_def split_def Let_def cong: sum.case_cong)
  have "C = (Inr (), M)" if "\<not> quota_set dirq"
  proof -
    have "way_up M QUOTA_MAX_LEVEL qid = []"
      by (rule chain_unset) (use that q(1) in auto)
    then show ?thesis using C by (simp add: climbed_def first_over_def Let_def)
  qed
  then obtain s1 where s1: "when_set dirq inc_dir s = Some (fst C, s1)" "moves ops s (snd C) s1"
    using dirs quotas_refl [OF db] M(1) by (cases "quota_set dirq") (auto simp: when_set_def)
  show ?thesis
  proof (cases "fst C")
    case (Inl e)
    then show ?thesis using True A s1 by simp
  next
    case (Inr x)
    then have M1: "snd C = counted h (set (way_up M QUOTA_MAX_LEVEL qid)) M"
      using C by (auto simp: climbed_def Let_def split: if_splits)
    have n1: "named N (snd C) n = named N M n" for n
      using named_counted [OF db dl, of _ QUOTA_MAX_LEVEL h n] M M1 by auto
    note s1' = movesD [OF s1(2)] M
    obtain s2 where s2: "when_set grp inc_group s1 = Some (Inr (), s2)" "moves ops s1 (bump N gn h' (snd C)) s2"
      using when_set_adjusts [OF names(1) refl, of s1] s1' n1 q(2) by auto
    note s2' = movesD [OF s2(2)]
    have "named N (bump N gn h' (snd C)) un = named N M un"
      using named_bump [OF s1'(4) names(3) [symmetric], of h'] s1' n1 by simp
    then obtain s3 where "when_set usr inc_user s2 = Some (Inr (), s3)"
        "moves ops s2 (bump N un h' (bump N gn h' (snd C))) s3"
      using when_set_adjusts [OF names(2) refl, of s2] s1' s2' q(3) by auto
    then show ?thesis
      using True A s1 s2 Inr by (auto intro: quotas_trans)
  qed
qed

text \<open>The same for the requests as the code has them.\<close>

lemma looked_up:
  assumes "look_d s = Some (found d, s)" "look_g s = Some (found g, s)" "look_u s = Some (found u, s)"
  shows "andthen (or_missing no_quota look_d) (\<lambda>dirq. andthen (or_missing no_quota look_g) (\<lambda>grp.
      andthen (or_missing no_quota look_u) (k dirq grp))) s =
    k (case d of None \<Rightarrow> no_quota | Some q \<Rightarrow> q) (case g of None \<Rightarrow> no_quota | Some q \<Rightarrow> q)
      (case u of None \<Rightarrow> no_quota | Some q \<Rightarrow> q) s"
  using assms by simp

end
