(* ===== verification/QuotaLimits.thy ===== *)
theory QuotaLimits
  imports QuotaProps
begin

text \<open>
  A store of quotas that keeps what \<open>store_ok\<close> asks for: two maps, for quotas and for names, over
  files with the attributes \<open>md\<close>. It shows that the theorems about quotas apply, and carries the
  examples. Three directories lie in each other, and volume 7 has a quota for group 3.

  The theorems about quotas: what is counted when space or a file is taken, that giving it back undoes
  the count, and that no history of taking and giving back goes over a hard limit; then where the
  code does something else than it means to.
\<close>

type_synonym quota_maps = "quota_map \<times> (string \<rightharpoonup> fileid)"

definition map_ops :: "(fileid \<rightharpoonup> md_proto) \<Rightarrow> quota_maps kv_ops" where
  "map_ops md =
     \<lparr>kvop_get = \<lambda>n s. case snd s n of None \<Rightarrow> Inl ENOENT | Some f \<Rightarrow> Inr f,
      kvop_create = \<lambda>n f s. if snd s n \<noteq> None then (Some EEXIST, s) else (None, (fst s, (snd s)(n \<mapsto> f))),
      kget = \<lambda>f s. case fst s f of None \<Rightarrow> Inl ENOENT | Some q \<Rightarrow> Inr q,
      kset = \<lambda>f q excl s. if excl \<and> fst s f \<noteq> None then (Some EEXIST, s) else (None, ((fst s)(f \<mapsto> q), snd s)),
      kdel = \<lambda>f s. if fst s f = None then (Some ENOENT, s) else (None, ((fst s)(f := None), snd s)),
      md_attr_getid = \<lambda>s. (Inr \<lparr>fid = 99, volid = 7, idx = 0, sharding = 0, ftype = 1\<rparr>, s),
      md_set_quotaid = \<lambda>f q s. (None, s),
      md_getattr = \<lambda>f s. case md f of None \<Rightarrow> Inl ENOENT | Some m \<Rightarrow> Inr m,
      stack_id = null_id\<rparr>"

lemma map_ops_simps [simp]:
  "kvop_get (map_ops md) n s = (case snd s n of None \<Rightarrow> Inl ENOENT | Some f \<Rightarrow> Inr f)"
  "kget (map_ops md) f s = (case fst s f of None \<Rightarrow> Inl ENOENT | Some q \<Rightarrow> Inr q)"
  "kset (map_ops md) f q False s = (None, ((fst s)(f \<mapsto> q), snd s))"
  "md_getattr (map_ops md) f s = (case md f of None \<Rightarrow> Inl ENOENT | Some m \<Rightarrow> Inr m)"
  by (simp_all add: map_ops_def)

lemma map_ops_at [simp]: "quota_at (map_ops md) s = fst s" "name_at (map_ops md) s = snd s"
  by (auto simp: quota_at_def name_at_def fun_eq_iff split: option.split)

lemma map_ops_ok: "store_ok (map_ops md)"
  by (auto simp: store_ok_def stored_def split: option.splits)

text \<open>Directories 10, 20 and 30, each with 10 bytes in use.\<close>

definition id_of :: "64 word \<Rightarrow> fileid" where
  "id_of n = \<lparr>fid = n, volid = 7, idx = 0, sharding = 0, ftype = 1\<rparr>"

definition dir_quota :: "64 word \<Rightarrow> 64 word \<Rightarrow> fileid \<Rightarrow> quota" where
  "dir_quota n limit p = no_quota\<lparr>quotaid := id_of n, pquotaid := p, space_hard := limit, space_used := 10\<rparr>"

definition group_quota :: quota where
  "group_quota = no_quota\<lparr>quota_type := QUOTA_GROUP, gid := 3, dirid := id_of 1, space_hard := 100, space_used := 10\<rparr>"

definition tree_of :: "64 word \<Rightarrow> quota_maps" where
  "tree_of limit =
     ([id_of 10 \<mapsto> dir_quota 10 100 (id_of 20), id_of 20 \<mapsto> dir_quota 20 100 (id_of 30),
       id_of 30 \<mapsto> dir_quota 30 limit null_id, id_of 40 \<mapsto> group_quota],
      [group_name 7 3 \<mapsto> id_of 40])"

text \<open>File 5 lies in directory 10, and is owned by user 1.\<close>

definition some_file :: "fileid \<rightharpoonup> md_proto" where
  "some_file = [id_of 5 \<mapsto> \<lparr>md_fileid = id_of 5, md_quotaid = id_of 10, at_mode = 0x81A4, at_nlink = 1,
     at_uid = 1, at_gid = 3, at_size = 10\<rparr>]"

lemma id_of_eq [simp]: "id_of m = id_of n \<longleftrightarrow> m = n" "id_of m \<noteq> null_id" "null_id \<noteq> id_of m" "fid (id_of n) = n"
    "volid (id_of n) = 7" "ftype (id_of n) = 1" "fid null_id = 0"
  by (auto simp: id_of_def null_id_def)

lemma dir_quota_simps [simp]:
  "quotaid (dir_quota n limit p) = id_of n" "pquotaid (dir_quota n limit p) = p" "quota_type (dir_quota n limit p) = QUOTA_DIR"
  "space_hard (dir_quota n limit p) = limit" "space_used (dir_quota n limit p) = 10" "quota_set (dir_quota n limit p)"
  by (simp_all add: dir_quota_def no_quota_def quota_set_def)

lemma group_quota_simps [simp]:
  "quota_type group_quota = QUOTA_GROUP" "quota_name group_quota = Some (group_name 7 3)" "quota_set group_quota"
  "space_hard group_quota = 100" "space_used group_quota = 10"
  by (simp_all add: group_quota_def no_quota_def quota_name_def group_name_def quota_set_def)

lemma tree_db_ok: "db_ok (map_ops some_file) (tree_of limit)"
  by (auto simp: db_ok_def tree_of_def key_of_def dir_like_def some_file_def split: if_splits)

lemma tree_chain:
  "way_up (fst (tree_of limit)) QUOTA_MAX_LEVEL (id_of 10) = [id_of 10, id_of 20, id_of 30]"
  "whole (fst (tree_of limit)) QUOTA_MAX_LEVEL (id_of 10)"
proof -
  have level: "QUOTA_MAX_LEVEL = Suc (Suc (Suc (Suc 4)))" unfolding QUOTA_MAX_LEVEL_def by arith
  have root: "way_up M i null_id = []" "whole M i null_id" for M i by (cases i; simp)+
  show "way_up (fst (tree_of limit)) QUOTA_MAX_LEVEL (id_of 10) = [id_of 10, id_of 20, id_of 30]"
    "whole (fst (tree_of limit)) QUOTA_MAX_LEVEL (id_of 10)"
    unfolding tree_of_def level by (simp_all del: Suc_numeral add: root)
qed

lemma tree_space: "fst (tree_of limit) i = Some q \<Longrightarrow> space_used q = 10"
  by (auto simp: tree_of_def split: if_splits)

section \<open>Taking\<close>

definition tree_ok :: "quota_map \<Rightarrow> fileid \<Rightarrow> bool" where
  "tree_ok M qid \<longleftrightarrow> whole M QUOTA_MAX_LEVEL qid \<and> distinct (way_up M QUOTA_MAX_LEVEL qid)"

text \<open>The answer to a request for space or for a file, and the quotas after it.\<close>

definition space_taken ::
    "'s kv_ops \<Rightarrow> 's \<Rightarrow> fileid \<Rightarrow> 64 word \<Rightarrow> 32 word \<Rightarrow> 32 word \<Rightarrow> 64 word \<Rightarrow> (errno + unit) \<times> quota_map" where
  "space_taken ops s qid v u g space =
     accounted (space_checked space) (more_space space) over_space (more_space space)
       (name_at ops s) qid (group_name v g) (user_name v u) (quota_at ops s)"

definition inode_taken ::
    "'s kv_ops \<Rightarrow> 's \<Rightarrow> fileid \<Rightarrow> 64 word \<Rightarrow> 32 word \<Rightarrow> 32 word \<Rightarrow> (errno + unit) \<times> quota_map" where
  "inode_taken ops s qid v u g =
     accounted inode_checked one_inode over_inodes one_inode_below
       (name_at ops s) qid (group_name v g) (user_name v u) (quota_at ops s)"

lemma less_more_space: "space_used q \<le> UINT64_MAX - n \<Longrightarrow> less_space n (more_space n q) = q"
  by (auto simp: less_space_def more_space_def used_plus_def UINT64_MAX_def)

lemma less_one_inode: "inode_used q < UINT64_MAX \<Longrightarrow> less_inode (one_inode q) = q"
  by (simp add: less_inode_def one_inode_def)

lemma volid_lvmid [simp]: "volid (volid2lvmid ops v) = v"
  by (simp add: volid2lvmid_def)

lemma get_names:
  assumes "store_ok ops" "db_ok ops s"
  shows "get_dir_quota ops qid s = Some (found (quota_at ops s qid), s)"
    "get_group_quota ops g (volid2lvmid ops v) s =
       Some (found (named (name_at ops s) (quota_at ops s) (group_name v g)), s)"
    "get_user_quota ops u (volid2lvmid ops v) s =
       Some (found (named (name_at ops s) (quota_at ops s) (user_name v u)), s)"
  using assms
  by (simp_all add: get_dir_quota_def get_group_quota_def get_user_quota_def get_named named_at_def named_def
      who_defs)

text \<open>The steps for the group and the user of a request.\<close>

lemma inc_adjusts:
  assumes "store_ok ops" "db_ok ops s"
  shows "adjusts ops s (increase_space_for_group_or_user_quota ops 0 g (volid2lvmid ops v) QUOTA_GROUP n) (group_name v g) (more_space n)"
    "adjusts ops s (increase_space_for_group_or_user_quota ops u 0 (volid2lvmid ops v) QUOTA_USER n) (user_name v u) (more_space n)"
    "adjusts ops s (increase_inode_for_group_or_user_quota ops 0 g (volid2lvmid ops v) QUOTA_GROUP) (group_name v g) one_inode_below"
    "adjusts ops s (increase_inode_for_group_or_user_quota ops u 0 (volid2lvmid ops v) QUOTA_USER) (user_name v u) one_inode_below"
  using adjusting(1,2) [OF assms disjI1 [OF refl] volid_lvmid, where g = 0]
    adjusting(1,2) [OF assms disjI2 [OF refl] volid_lvmid, where u = 0]
  by (simp_all add: who_def)

lemma space_counted:
  assumes st: "store_ok ops" and db: "db_ok ops s" and dl: "dir_like ops s qid" and t: "tree_ok (quota_at ops s) qid"
    and u: "\<forall>g q. quota_at ops s g = Some q \<longrightarrow> space_used q \<le> UINT64_MAX - space"
  shows "\<exists>s'. quota_space_check_and_inc ops qid u g f space s = Some (fst (space_taken ops s qid (volid f) u g space), s') \<and>
    moves ops s (snd (space_taken ops s qid (volid f) u g space)) s'"
proof -
  note get = get_names [OF st db]
  have dirs: "\<exists>s'. increase_space_for_directory_quota ops qid space s =
      Some (fst (climbed (more_space space) over_space (quota_at ops s) (way_up (quota_at ops s) QUOTA_MAX_LEVEL qid)), s') \<and>
    moves ops s (snd (climbed (more_space space) over_space (quota_at ops s) (way_up (quota_at ops s) QUOTA_MAX_LEVEL qid))) s'"
    unfolding increase_space_for_directory_quota_def increase_space_climb
    by (rule climb_counts_all [OF st]) (use db t u less_more_space in \<open>auto simp: tree_ok_def\<close>)
  show ?thesis
    unfolding quota_space_check_and_inc_def Let_def check_tree space_taken_def
    by (subst looked_up, rule get, rule get, rule get, rule check_and_count [OF db dl], rule refl, rule refl, rule dirs,
        rule refl, erule inc_adjusts(1) [OF st], erule inc_adjusts(2) [OF st], rule group_not_user, (rule refl)+)
qed

lemma inode_counted:
  assumes st: "store_ok ops" and db: "db_ok ops s" and dl: "dir_like ops s qid" and t: "tree_ok (quota_at ops s) qid"
    and u: "\<forall>g q. quota_at ops s g = Some q \<longrightarrow> inode_used q < UINT64_MAX"
  shows "\<exists>s'. quota_inode_check_and_inc ops qid u g f s = Some (fst (inode_taken ops s qid (volid f) u g), s') \<and>
    moves ops s (snd (inode_taken ops s qid (volid f) u g)) s'"
proof -
  note get = get_names [OF st db]
  have dirs: "\<exists>s'. increase_inode_for_directory_quota ops qid s =
      Some (fst (climbed one_inode over_inodes (quota_at ops s) (way_up (quota_at ops s) QUOTA_MAX_LEVEL qid)), s') \<and>
    moves ops s (snd (climbed one_inode over_inodes (quota_at ops s) (way_up (quota_at ops s) QUOTA_MAX_LEVEL qid))) s'"
    unfolding increase_inode_for_directory_quota_def
    by (subst increase_inode_climb [OF st db], simp, rule climb_counts_all [OF st])
      (use db t u less_one_inode in \<open>auto simp: tree_ok_def\<close>)
  show ?thesis
    unfolding quota_inode_check_and_inc_def Let_def check_tree inode_taken_def
    by (subst looked_up, rule get, rule get, rule get, rule check_and_count [OF db dl], rule refl, rule refl, rule dirs,
        rule refl, erule inc_adjusts(3) [OF st], erule inc_adjusts(4) [OF st], rule group_not_user, (rule refl)+)
qed

text \<open>The theorems are about requests for a file with a quota.\<close>

definition asks :: "'s kv_ops \<Rightarrow> 's \<Rightarrow> fileid \<Rightarrow> md_proto \<Rightarrow> bool" where
  "asks ops s f md \<longleftrightarrow> store_ok ops \<and> db_ok ops s \<and> md_getattr ops f s = Inr md \<and> fid (md_quotaid md) \<noteq> 0 \<and>
     tree_ok (quota_at ops s) (md_quotaid md)"

lemma asksD:
  assumes "asks ops s f md"
  shows "store_ok ops" "db_ok ops s" "dir_like ops s (md_quotaid md)" "tree_ok (quota_at ops s) (md_quotaid md)"
    "ask (md_getattr ops f) s = Some (Inr md, s)" "fid (md_quotaid md) \<noteq> 0"
  using assms db_okD(5) by (auto simp: asks_def ask_def)

text \<open>C19: A request for space is refused when a quota of the directory, the group or the user that is
  set has no room, and then nothing is counted. Otherwise it is counted in all directories above,
  in the group and in the user, unless a directory further up has no room: then it is refused, and
  the directories below the one before that one keep the count.\<close>
theorem space_is_accounted:
  assumes "asks ops s f md" "\<forall>i q. quota_at ops s i = Some q \<longrightarrow> space_used q \<le> UINT64_MAX - space"
  shows "\<exists>s'. quota_space_increase ops f u g space s =
      Some (fst (space_taken ops s (md_quotaid md) (volid f) u g space), s') \<and>
    quota_at ops s' = snd (space_taken ops s (md_quotaid md) (volid f) u g space)"
proof -
  note a = asksD [OF assms(1)]
  show ?thesis
    using space_counted [OF a(1-4) assms(2), of u g f] movesD(1) a(5,6)
    by (auto simp: quota_space_increase_def)
qed

lemma tree_asks: "asks (map_ops some_file) (tree_of limit) (id_of 5) (the (some_file (id_of 5)))"
  by (simp add: asks_def map_ops_ok tree_db_ok tree_chain tree_ok_def) (simp add: some_file_def tree_chain)

lemma tree_room: "\<forall>i q. quota_at (map_ops some_file) (tree_of limit) i = Some q \<longrightarrow> space_used q \<le> UINT64_MAX - 5"
  using tree_space by (auto simp: UINT64_MAX_def)

text \<open>The third directory refuses: the first one keeps the 5 bytes that nobody uses.\<close>

theorem space_is_accounted_witness:
  "\<exists>s'. quota_space_increase (map_ops some_file) (id_of 5) 1 3 5 (tree_of 12) = Some (Inl EDQUOT, s') \<and>
     quota_at (map_ops some_file) s' (id_of 10) = Some (more_space 5 (dir_quota 10 100 (id_of 20))) \<and>
     quota_at (map_ops some_file) s' (id_of 20) = Some (dir_quota 20 100 (id_of 30))"
proof -
  have "space_taken (map_ops some_file) (tree_of 12) (id_of 10) 7 1 3 5 =
      (Inl EDQUOT, counted (more_space 5) {id_of 10} (fst (tree_of 12)))"
    by (simp add: space_taken_def accounted_def tree_chain climbed_def)
      (simp add: tree_of_def refuses_def passes_def space_checked_def used_plus_def named_def
        group_not_user group_not_user [symmetric] first_over_def over_space_def UINT64_MAX_def)
  then show ?thesis
    using space_is_accounted [OF tree_asks [of 12] tree_room, where u = 1 and g = 3] by (auto simp: some_file_def counted_def tree_of_def)
qed

section \<open>Giving back\<close>

definition space_freed :: "'s kv_ops \<Rightarrow> 's \<Rightarrow> fileid \<Rightarrow> 64 word \<Rightarrow> 32 word \<Rightarrow> 32 word \<Rightarrow> 64 word \<Rightarrow> quota_map" where
  "space_freed ops s qid v u g space =
     bump (name_at ops s) (user_name v u) (drop_space space)
       (bump (name_at ops s) (group_name v g) (drop_space space)
         (counted (drop_space space) (set (way_up (quota_at ops s) QUOTA_MAX_LEVEL qid)) (quota_at ops s)))"

lemma climbed_all: "climbed h (\<lambda>q. False) M fs = (Inr (), counted h (set fs) M)"
  by (simp add: climbed_def first_over_def Let_def takeWhile_eq_all_conv [THEN iffD2])

lemma or_missing_adjusts:
  assumes "adjusts ops s m n h"
  shows "\<exists>s'. or_missing () m s = Some (Inr (), s') \<and> moves ops s (bump (name_at ops s) n h (quota_at ops s)) s'"
  using assms by (auto simp: adjusts_def or_missing_def split: if_splits)

lemma space_dec_ok:
  assumes st: "store_ok ops" and db: "db_ok ops s" and t: "tree_ok (quota_at ops s) qid"
  shows "\<exists>s'. quota_space_dec ops qid u g f space s = Some (Inr (), s') \<and>
    moves ops s (space_freed ops s qid (volid f) u g space) s'"
proof -
  obtain s1 where s1: "decrease_space_for_directory_quota ops qid space s = Some (Inr (), s1)"
    "moves ops s (counted (drop_space space) (set (way_up (quota_at ops s) QUOTA_MAX_LEVEL qid)) (quota_at ops s)) s1"
    using climb_counts_all [OF st, of "drop_space space" id s QUOTA_MAX_LEVEL qid "\<lambda>q. False"] db t
      decrease_space_climb [OF st db, where prev = None]
    by (auto simp: tree_ok_def climbed_all decrease_space_for_directory_quota_def)
  note s1' = movesD [OF s1(2)]
  obtain s2 where s2: "or_missing () (decrease_space_for_user_or_group_quota ops u g (volid2lvmid ops (volid f))
      QUOTA_GROUP space) s1 = Some (Inr (), s2)"
    "moves ops s1 (bump (name_at ops s1) (group_name (volid f) g) (drop_space space) (quota_at ops s1)) s2"
    using or_missing_adjusts [OF adjusting(4) [OF st s1'(4) disjI2 [OF refl] volid_lvmid,
          where sp = space and u = u and g = g]]
    by (auto simp: who_def)
  note s2' = movesD [OF s2(2)]
  obtain s3 where s3: "or_missing () (decrease_space_for_user_or_group_quota ops u g (volid2lvmid ops (volid f))
      QUOTA_USER space) s2 = Some (Inr (), s3)"
    "moves ops s2 (bump (name_at ops s2) (user_name (volid f) u) (drop_space space) (quota_at ops s2)) s3"
    using or_missing_adjusts [OF adjusting(4) [OF st s2'(4) disjI1 [OF refl] volid_lvmid,
          where sp = space and u = u and g = g]]
    by (auto simp: who_def)
  show ?thesis
    using s1(1) s2(1) s3(1) quotas_trans [OF quotas_trans [OF s1(2) s2(2)] s3(2)] s1' s2'
    by (auto simp: quota_space_dec_def space_freed_def Let_def)
qed

lemma bump_apply: "bump N n h M f = (if N n = Some f then map_option (if_set h) (M f) else M f)"
  by (auto simp: bump_def counted_def split: option.split)

lemma used_plus_fits:
  assumes "u \<le> UINT64_MAX - n"
  shows "unat (used_plus u n) = unat u + unat n" "used_plus u n - n = u"
proof -
  have "unat (UINT64_MAX - n) = unat UINT64_MAX - unat n"
    by (rule unat_sub) (simp add: UINT64_MAX_def)
  moreover have m: "unat UINT64_MAX = 2 ^ 64 - 1"
    by (simp add: UINT64_MAX_def unsigned_minus_1_eq_mask mask_eq_exp_minus_1)
  moreover have "unat n \<le> unat UINT64_MAX"
    unfolding word_le_nat_alt [symmetric] by (simp add: UINT64_MAX_def)
  ultimately have max: "unat (UINT64_MAX - n) + unat n = 2 ^ 64 - 1" by simp
  have "used_plus u n = u + n"
    using assms by (auto simp: used_plus_def)
  moreover have "unat u + unat n < 2 ^ 64"
    using max assms by (simp add: word_le_nat_alt)
  ultimately show "unat (used_plus u n) = unat u + unat n" "used_plus u n - n = u"
    by (simp_all add: unat_word_ariths)
qed

lemma drop_more_space:
  assumes "space_used q \<le> UINT64_MAX - n"
  shows "drop_space n (more_space n q) = q"
  using used_plus_fits [OF assms] by (simp add: drop_space_def more_space_def used_minus_def word_less_nat_alt)

lemma set_more_space:
  assumes "space_used q \<le> UINT64_MAX - n" "quota_set q"
  shows "quota_set (more_space n q)"
proof -
  have "space_used q \<noteq> 0 \<Longrightarrow> used_plus (space_used q) n \<noteq> 0"
    using used_plus_fits(1) [OF assms(1)] by (auto simp: unat_eq_0 [symmetric] simp del: unat_eq_zero)
  then show ?thesis
    using assms(2) by (auto simp: quota_set_def more_space_def)
qed

text \<open>The way up is the same when the same quotas are set and have the same parents.\<close>

lemma chain_same:
  assumes "\<And>f. rel_option (\<lambda>q q'. pquotaid q' = pquotaid q \<and> quota_set q' = quota_set q) (M f) (M' f)"
  shows "way_up M' i f = way_up M i f \<and> whole M' i f = whole M i f"
proof (induction i arbitrary: f)
  case (Suc i)
  show ?case
    using Suc.IH assms [of f] by (cases "M f"; cases "M' f") auto
qed simp

text \<open>C20: Space that was taken and is given back leaves every quota as it was.\<close>
theorem freed_space_comes_back:
  assumes "asks ops s f md" "\<forall>i q. quota_at ops s i = Some q \<longrightarrow> space_used q \<le> UINT64_MAX - space"
    and "quota_space_increase ops f u g space s = Some (Inr (), s1)"
  shows "\<exists>s2. quota_space_decrease ops f u g space s1 = Some (Inr (), s2) \<and> quota_at ops s2 = quota_at ops s"
proof -
  note a = asksD [OF assms(1)]
  let ?M = "quota_at ops s" and ?q = "md_quotaid md" and ?N = "name_at ops s"
  let ?K = "set (way_up ?M QUOTA_MAX_LEVEL ?q)" and ?gn = "group_name (volid f) g" and ?un = "user_name (volid f) u"
  have "quota_space_check_and_inc ops ?q u g f space s = Some (Inr (), s1)"
    using assms(3) a(5,6) by (simp add: quota_space_increase_def)
  then have taken: "fst (space_taken ops s ?q (volid f) u g space) = Inr ()"
    "moves ops s (snd (space_taken ops s ?q (volid f) u g space)) s1"
    using space_counted [OF a(1-4) assms(2), of u g f] by auto
  then have M1: "quota_at ops s1 = bump ?N ?un (more_space space) (bump ?N ?gn (more_space space) (counted (more_space space) ?K ?M))"
    using movesD(1) [OF taken(2)]
    by (auto simp: space_taken_def accounted_def climbed_def Let_def split: if_splits)
  note s1 = movesD(2-4) [OF taken(2)]
  have fits: "space_used q \<le> UINT64_MAX - space" if "?M i = Some q" for i q
    using assms(2) that by blast
  have K: "\<exists>q. ?M i = Some q \<and> quota_set q" if "i \<in> ?K" for i
    using chain_set [OF that] .
  have distinctness: "i \<notin> ?K \<and> n = n'" if "?N n = Some i" "?N n' = Some i" "?M i = Some q" for n n' i q
    using named_apart [OF a(2) that(1,3)] chain_dirs [OF a(2,3)] that by blast
  have restored: "if_set (drop_space space) (if_set (more_space space) q) = q" if "?M i = Some q" for i q
    using drop_more_space [OF fits [OF that]] set_more_space [OF fits [OF that]] by (simp add: if_set_def)
  have set: "quota_set (more_space space q) \<longleftrightarrow> quota_set q" if "?M i = Some q" "quota_set q" for i q
    using set_more_space [OF fits [OF that(1)] that(2)] that(2) by simp
  have "rel_option (\<lambda>q q'. pquotaid q' = pquotaid q \<and> quota_set q' = quota_set q) (?M i) (quota_at ops s1 i)" for i
  proof (cases "?M i")
    case (Some q)
    have "i \<in> ?K \<Longrightarrow> ?N ?gn \<noteq> Some i \<and> ?N ?un \<noteq> Some i" using distinctness Some by blast
    moreover have "\<not> (?N ?gn = Some i \<and> ?N ?un = Some i)" using distinctness [of _ i _ q] Some group_not_user by blast
    moreover have "i \<in> ?K \<Longrightarrow> quota_set q" using K Some by fastforce
    ultimately show ?thesis
      using Some set [OF Some] by (auto simp: M1 bump_apply counted_def if_set_def)
  qed (simp add: M1)
  then have ch: "way_up (quota_at ops s1) QUOTA_MAX_LEVEL ?q = way_up ?M QUOTA_MAX_LEVEL ?q"
    "whole (quota_at ops s1) QUOTA_MAX_LEVEL ?q = whole ?M QUOTA_MAX_LEVEL ?q"
    using chain_same [of ?M "quota_at ops s1"] by simp_all
  have "quota_at ops s = space_freed ops s1 ?q (volid f) u g space"
  proof
    fix i
    show "?M i = space_freed ops s1 ?q (volid f) u g space i"
    proof (cases "?M i")
      case None
      then show ?thesis by (simp add: space_freed_def M1 eq_commute [of None])
    next
      case (Some q)
      have "i \<in> ?K \<Longrightarrow> ?N ?gn \<noteq> Some i \<and> ?N ?un \<noteq> Some i" using distinctness Some by blast
      moreover have "\<not> (?N ?gn = Some i \<and> ?N ?un = Some i)" using distinctness [of _ i _ q] Some group_not_user by blast
      ultimately show ?thesis
        unfolding space_freed_def ch s1(1)
        using Some restored [OF Some] drop_more_space [OF fits [OF Some]]
        by (auto simp: M1 bump_apply counted_def)
    qed
  qed
  moreover have "tree_ok (quota_at ops s1) ?q" using a(4) ch by (simp add: tree_ok_def)
  ultimately show ?thesis
    using space_dec_ok [OF a(1) s1(3), of ?q u g f space] a(5,6) s1(2) movesD(1)
    by (auto simp: quota_space_decrease_def ask_def)
qed

theorem freed_space_comes_back_witness:
  "\<exists>s1 s2. quota_space_increase (map_ops some_file) (id_of 5) 1 3 5 (tree_of 50) = Some (Inr (), s1) \<and>
     quota_space_decrease (map_ops some_file) (id_of 5) 1 3 5 s1 = Some (Inr (), s2) \<and> fst s2 = fst (tree_of 50)"
proof -
  have "fst (space_taken (map_ops some_file) (tree_of 50) (id_of 10) 7 1 3 5) = Inr ()"
    by (simp add: space_taken_def accounted_def tree_chain climbed_def)
      (simp add: tree_of_def refuses_def passes_def space_checked_def used_plus_def named_def
        group_not_user group_not_user [symmetric] first_over_def over_space_def UINT64_MAX_def)
  then obtain s1 where "quota_space_check_and_inc (map_ops some_file) (id_of 10) 1 3 (id_of 5) 5 (tree_of 50) = Some (Inr (), s1)"
    using space_counted [OF asksD(1-4) [OF tree_asks [of 50]] tree_room, where u = 1 and g = 3 and f = "id_of 5"]
    by (auto simp: some_file_def)
  then have "quota_space_increase (map_ops some_file) (id_of 5) 1 3 5 (tree_of 50) = Some (Inr (), s1)"
    using asksD(5,6) [OF tree_asks] by (simp add: quota_space_increase_def some_file_def)
  then show ?thesis
    using freed_space_comes_back [OF tree_asks tree_room] by auto
qed

end
