(* ===== verification/QuotaSafety.thy ===== *)
theory QuotaSafety
  imports QuotaLimits
begin

text \<open>
  No history of requests goes over a hard limit, whatever the answers are and however the quotas of
  the directories hang together; and what the accounting does that it does not mean to.
\<close>

section \<open>The invariant\<close>

definition within :: "quota \<Rightarrow> bool" where
  "within q \<longleftrightarrow> (space_hard q > 0 \<longrightarrow> space_used q \<le> space_hard q) \<and> (inode_hard q > 0 \<longrightarrow> inode_used q \<le> inode_hard q)"

definition limits_ok :: "'s kv_ops \<Rightarrow> 's \<Rightarrow> bool" where
  "limits_ok ops s \<longleftrightarrow> db_ok ops s \<and> (\<forall>f q. quota_at ops s f = Some q \<longrightarrow> within q)"

lemma limits_okD: "limits_ok ops s \<Longrightarrow> db_ok ops s" "limits_ok ops s \<Longrightarrow> quota_at ops s f = Some q \<Longrightarrow> within q"
  by (auto simp: limits_ok_def)

text \<open>The quotas of all names but those of \<open>X\<close> are as before, and the attributes of the files.\<close>

definition names_kept :: "'s kv_ops \<Rightarrow> string set \<Rightarrow> 's \<Rightarrow> 's \<Rightarrow> bool" where
  "names_kept ops X s s' \<longleftrightarrow> (\<forall>i. md_getattr ops i s' = md_getattr ops i s) \<and> (\<forall>n q. n \<notin> X \<longrightarrow> named (name_at ops s) (quota_at ops s) n = Some q \<longrightarrow>
     named (name_at ops s') (quota_at ops s') n = Some q)"

definition keeps :: "'s kv_ops \<Rightarrow> string set \<Rightarrow> ('s, 'a) act \<Rightarrow> 's \<Rightarrow> bool" where
  "keeps ops X m s \<longleftrightarrow> (\<exists>r s'. m s = Some (r, s') \<and> limits_ok ops s' \<and> names_kept ops X s s')"

lemma names_kept_refl [simp]: "names_kept ops X s s"
  by (simp add: names_kept_def)

lemma names_kept_trans: "names_kept ops X s s1 \<Longrightarrow> names_kept ops Y s1 s2 \<Longrightarrow> names_kept ops (X \<union> Y) s s2"
  by (simp add: names_kept_def)

lemma keeps_give [simp]: "limits_ok ops s \<Longrightarrow> keeps ops X (give x) s" "limits_ok ops s \<Longrightarrow> keeps ops X (refuse e) s"
  by (auto simp: keeps_def)

lemma keeps_andthen:
  assumes "keeps ops X m s" "\<And>x s'. limits_ok ops s' \<Longrightarrow> names_kept ops X s s' \<Longrightarrow> keeps ops Y (f x) s'"
  shows "keeps ops (X \<union> Y) (andthen m f) s"
proof -
  obtain r s' where m: "m s = Some (r, s')" "limits_ok ops s'" "names_kept ops X s s'"
    using assms(1) by (auto simp: keeps_def)
  then show ?thesis
  proof (cases r)
    case (Inl e)
    then show ?thesis
      using m by (auto simp: keeps_def names_kept_def intro!: exI [of _ "Inl e"])
  next
    case (Inr x)
    obtain r' s2 where "f x s' = Some (r', s2)" "limits_ok ops s2" "names_kept ops Y s' s2"
      using assms(2) [OF m(2,3), of x] by (auto simp: keeps_def)
    then show ?thesis
      using m Inr by (auto simp: keeps_def intro: names_kept_trans)
  qed
qed

lemma keeps_ignoring: "keeps ops X m s \<Longrightarrow> keeps ops X (ignoring m) s"
  by (auto simp: keeps_def ignoring_def)

lemma keeps_or_missing: "keeps ops X m s \<Longrightarrow> keeps ops X (or_missing x m) s"
  by (auto simp: keeps_def or_missing_def split: sum.splits)

lemma keeps_mono: "keeps ops X m s \<Longrightarrow> X \<subseteq> Y \<Longrightarrow> keeps ops Y m s"
  by (fastforce simp: keeps_def names_kept_def)

section \<open>The steps\<close>

lemma limits_moves:
  assumes "moves ops s M s'" "\<And>f q. M f = Some q \<Longrightarrow> within q"
  shows "limits_ok ops s'"
  using assms(2) movesD [OF assms(1)] by (auto simp: limits_ok_def)

lemma names_update:
  assumes "db_ok ops s" "moves ops s ((quota_at ops s)(f \<mapsto> q')) s'" "quota_at ops s f = Some q" "quota_type q = QUOTA_DIR"
  shows "names_kept ops {} s s'"
proof -
  have "name_at ops s n \<noteq> Some f" for n
    using named_apart(1) [OF assms(1) _ assms(3)] assms(4) by blast
  then have "named (name_at ops s') (quota_at ops s') n = named (name_at ops s) (quota_at ops s) n" for n
    using movesD [OF assms(2)] by (cases "name_at ops s n") (auto simp: named_def)
  then show ?thesis using movesD(3) [OF assms(2)] by (simp add: names_kept_def)
qed

lemma climb_keeps:
  assumes st: "store_ok ops" and h: "\<And>q. recount q (h q)" "\<And>q. recount q (undo q)"
    and w: "\<And>q. within q \<Longrightarrow> \<not> over (h q) \<Longrightarrow> within (h q) \<and> within (undo (h q))"
    and good: "limits_ok ops s" and dl: "dir_like ops s f"
    and p: "\<And>l. prev = Some l \<Longrightarrow> \<exists>g. quota_at ops s g = Some l \<and> within (undo l) \<and> quota_type l = QUOTA_DIR"
  shows "keeps ops {} (climb ops h over undo i f prev) s"
  using good dl p
proof (induction i arbitrary: f s prev)
  case (Suc i)
  note db = limits_okD(1) [OF Suc.prems(1)]
  show ?case
  proof (cases "quota_at ops s f")
    case None
    then show ?thesis
      using Suc.prems(1) st by (auto simp: keeps_def found_def)
  next
    case (Some q)
    have q: "quota_type q = QUOTA_DIR" "within q" "dir_like ops s (pquotaid q)"
      using Suc.prems(1,2) Some db_okD(4) [OF db] by (auto simp: dir_like_def dest: limits_okD)
    have get: "md_get_quota ops f no_quota QUOTA_DIR s = Some (Inr q, s)"
      using Some st by (simp add: found_def)
    consider "fid f = 0 \<or> \<not> quota_set q" | "fid f \<noteq> 0" "quota_set q" "over (h q)"
      | "fid f \<noteq> 0" "quota_set q" "\<not> over (h q)" by blast
    then show ?thesis
    proof cases
      case 1
      then show ?thesis using get Suc.prems(1) by (auto simp: keeps_def)
    next
      case 2
      show ?thesis
      proof (cases prev)
        case None
        then show ?thesis using 2 get Suc.prems(1) by (auto simp: keeps_def)
      next
        case (Some l)
        then obtain g where g: "quota_at ops s g = Some l" "within (undo l)" "quota_type l = QUOTA_DIR"
          using Suc.prems(3) by blast
        obtain s' where s': "md_update_quota ops (undo l) s = Some (Inr (), s')"
            "moves ops s ((quota_at ops s)(g \<mapsto> undo l)) s'"
          using update_moves [OF st db g(1) h(2)] by blast
        moreover have "limits_ok ops s'"
          by (rule limits_moves [OF s'(2)]) (use g(2) limits_okD(2) [OF Suc.prems(1)] in \<open>auto split: if_splits\<close>)
        ultimately show ?thesis
          using 2 get Some names_update [OF db s'(2) g(1,3)] by (auto simp: keeps_def)
      qed
    next
      case 3
      obtain s' where s': "md_update_quota ops (h q) s = Some (Inr (), s')"
          "moves ops s ((quota_at ops s)(f \<mapsto> h q)) s'"
        using update_moves [OF st db Some h(1)] by blast
      have good: "limits_ok ops s'"
        by (rule limits_moves [OF s'(2)])
          (use w [OF q(2) 3(3)] limits_okD(2) [OF Suc.prems(1)] in \<open>auto split: if_splits\<close>)
      have "dir_like ops s' (pquotaid q)"
        using q(1,3) recount_fields(3) [OF h(1)] movesD(1) [OF s'(2)] by (auto simp: dir_like_def)
      then have "keeps ops {} (climb ops h over undo i (pquotaid q) (Some (h q))) s'"
      proof (rule Suc.IH [OF good])
        fix l assume "Some (h q) = Some l"
        then show "\<exists>g. quota_at ops s' g = Some l \<and> within (undo l) \<and> quota_type l = QUOTA_DIR"
          using w [OF q(2) 3(3)] q(1) recount_fields(3) [OF h(1)] movesD(1) [OF s'(2)] by (intro exI [of _ f]) auto
      qed
      then show ?thesis
        using 3 get s'(1) names_update [OF db s'(2) Some q(1)] names_kept_trans [of ops "{}" s s' "{}"]
        by (auto simp: keeps_def)
    qed
  qed
qed simp

lemma adjusts_keeps:
  assumes a: "adjusts ops s m n h" and good: "limits_ok ops s"
    and w: "\<And>q. named (name_at ops s) (quota_at ops s) n = Some q \<Longrightarrow> within (if_set h q)"
  shows "keeps ops {n} m s"
proof -
  obtain r s' where s': "m s = Some (r, s')" "moves ops s (bump (name_at ops s) n h (quota_at ops s)) s'"
    using a by (auto simp: adjusts_def)
  have "limits_ok ops s'"
    by (rule limits_moves [OF s'(2)])
      (use w limits_okD(2) [OF good] in \<open>auto simp: bump_apply named_def split: if_splits\<close>)
  moreover have "names_kept ops {n} s s'"
    using movesD [OF s'(2)] named_bump [OF limits_okD(1) [OF good]] by (auto simp: names_kept_def)
  ultimately show ?thesis
    using s'(1) by (auto simp: keeps_def)
qed

section \<open>The requests\<close>

lemma named_step:
  assumes "adjusts ops s m n h" "limits_ok ops s"
    and "quota_set q \<Longrightarrow> named (name_at ops s) (quota_at ops s) n = Some q \<and> within (h q)"
  shows "keeps ops {n} (when_set q m) s"
proof (cases "quota_set q")
  case True
  then show ?thesis
    using adjusts_keeps [OF assms(1,2)] assms(3) by (simp add: when_set_def if_set_def)
qed (use assms(2) in \<open>simp add: when_set_def\<close>)

lemma looked_up_set:
  "quota_set (case x of None \<Rightarrow> no_quota | Some q \<Rightarrow> q) \<Longrightarrow> \<exists>q. x = Some q"
  by (cases x) (simp_all add: quota_set_def no_quota_def)

lemma check_keeps:
  assumes good: "limits_ok ops s" and dirs: "keeps ops {} inc_dir s"
    and names: "\<And>s. db_ok ops s \<Longrightarrow> adjusts ops s inc_group gn h'" "\<And>s. db_ok ops s \<Longrightarrow> adjusts ops s inc_user un h'" "gn \<noteq> un"
    and w: "\<And>q. within q \<Longrightarrow> chk q \<Longrightarrow> within (h' q)"
    and q: "grp = (case named (name_at ops s) (quota_at ops s) gn of None \<Rightarrow> no_quota | Some q \<Rightarrow> q)"
      "usr = (case named (name_at ops s) (quota_at ops s) un of None \<Rightarrow> no_quota | Some q \<Rightarrow> q)"
  shows "keeps ops {gn, un} (if passes chk dirq \<and> passes chk grp \<and> passes chk usr then
      andthen (when_set dirq inc_dir) (\<lambda>_. andthen (when_set grp inc_group) (\<lambda>_. when_set usr inc_user))
    else refuse EDQUOT) s"
proof (cases "passes chk dirq \<and> passes chk grp \<and> passes chk usr")
  case True
  have named_good: "within p" if "named (name_at ops s) (quota_at ops s) n = Some p" for n p
    using that limits_okD(2) [OF good] by (auto simp: named_def bind_eq_Some_conv)
  have grp: "named (name_at ops s) (quota_at ops s) gn = Some grp \<and> within (h' grp)" if "quota_set grp"
    using that looked_up_set q(1) True named_good [of gn] w by (fastforce simp: passes_def)
  have usr: "named (name_at ops s) (quota_at ops s) un = Some usr \<and> within (h' usr)" if "quota_set usr"
    using that looked_up_set q(2) True named_good [of un] w by (fastforce simp: passes_def)
  have "keeps ops ({} \<union> ({gn} \<union> {un})) (andthen (when_set dirq inc_dir)
      (\<lambda>_. andthen (when_set grp inc_group) (\<lambda>_. when_set usr inc_user))) s"
  proof (intro keeps_andthen)
    show "keeps ops {} (when_set dirq inc_dir) s"
      using dirs good by (simp add: when_set_def)
    fix s1 assume 1: "limits_ok ops s1" "names_kept ops {} s s1"
    show "keeps ops {gn} (when_set grp inc_group) s1"
      by (rule named_step [OF names(1) [OF limits_okD(1) [OF 1(1)]] 1(1)]) (use grp 1(2) in \<open>auto simp: names_kept_def\<close>)
    fix s2 assume 2: "limits_ok ops s2" "names_kept ops {gn} s1 s2"
    show "keeps ops {un} (when_set usr inc_user) s2"
      by (rule named_step [OF names(2) [OF limits_okD(1) [OF 2(1)]] 2(1)])
        (use usr 1(2) 2(2) names(3) in \<open>auto simp: names_kept_def\<close>)
  qed
  then show ?thesis using True by (simp add: insert_commute)
qed (use good in \<open>auto\<close>)

lemma within_steps:
  "within q \<Longrightarrow> \<not> over_space (more_space n q) \<Longrightarrow> within (more_space n q) \<and> within (less_space n (more_space n q))"
  "within q \<Longrightarrow> \<not> over_inodes (one_inode q) \<Longrightarrow> within (one_inode q) \<and> within (less_inode (one_inode q))"
  "within q \<Longrightarrow> space_checked n q \<Longrightarrow> within (more_space n q)"
  "within q \<Longrightarrow> within (one_inode_below q)"
  "within q \<Longrightarrow> within (drop_space n q)" "within q \<Longrightarrow> within (drop_inode q)"
proof -
  show "within (more_space n q)" if "within q" "space_checked n q"
    using that by (auto simp: within_def space_checked_def more_space_def)
  show "within (drop_space n q)" if "within q"
    using that by (auto simp: within_def drop_space_def used_minus_def word_le_nat_alt word_less_nat_alt unat_sub)
  show "within (drop_inode q)" if "within q"
    using that by (auto simp: within_def drop_inode_def less_inode_def word_le_nat_alt word_less_nat_alt unat_sub)
  show "within (one_inode_below q)" if "within q"
    using that inc_le by (auto simp: within_def one_inode_below_def)
  have le: "u - n \<le> h" if "n \<le> u" "u \<le> h" for u n h :: "64 word"
    using that by (simp add: word_le_nat_alt unat_sub)
  have "n \<le> used_plus u n" for u
  proof (cases "u \<le> UINT64_MAX - n")
    case True
    then show ?thesis using used_plus_fits(1) [OF True] by (simp add: word_le_nat_alt)
  next
    case False
    then have "used_plus u n = UINT64_MAX" by (auto simp: used_plus_def)
    then show ?thesis by (simp add: UINT64_MAX_def)
  qed
  then show "within (more_space n q) \<and> within (less_space n (more_space n q))"
    if "within q" "\<not> over_space (more_space n q)"
    using that le by (auto simp: within_def over_space_def less_space_def more_space_def)
  have "inode_used (one_inode q) \<noteq> 0"
    by (auto simp: one_inode_def UINT64_MAX_def eq_neg_iff_add_eq_0 [symmetric] word_gt_0)
  then have "1 \<le> inode_used (one_inode q)"
    by (simp add: word_le_nat_alt Suc_le_eq unat_gt_0)
  moreover have "inode_hard (one_inode q) = inode_hard q" "space_hard (one_inode q) = space_hard q"
    "space_used (one_inode q) = space_used q" by (simp_all add: one_inode_def)
  ultimately show "within (one_inode q) \<and> within (less_inode (one_inode q))"
    if "within q" "\<not> over_inodes (one_inode q)"
    using that le by (auto simp: within_def over_inodes_def less_inode_def)
qed

text \<open>Up the directories, from a quota that only directories have.\<close>

lemma dir_steps:
  assumes st: "store_ok ops" and good: "limits_ok ops s" and dl: "dir_like ops s f"
  shows "keeps ops {} (increase_space_for_directory_quota ops f n) s"
    "keeps ops {} (increase_inode_for_directory_quota ops f) s"
    "keeps ops {} (decrease_space_for_directory_quota ops f n) s"
    "keeps ops {} (decrease_inode_for_directory_quota ops f) s"
proof -
  note db = limits_okD(1) [OF good] and up = climb_keeps [OF st _ _ _ good dl]
  show "keeps ops {} (increase_space_for_directory_quota ops f n) s"
    unfolding increase_space_for_directory_quota_def increase_space_climb
    by (rule up) (use within_steps(1) in auto)
  show "keeps ops {} (increase_inode_for_directory_quota ops f) s"
    unfolding increase_inode_for_directory_quota_def keeps_def
    by (subst increase_inode_climb [OF st db], simp, fold keeps_def, rule up) (use within_steps(2) in auto)
  show "keeps ops {} (decrease_space_for_directory_quota ops f n) s"
    unfolding decrease_space_for_directory_quota_def keeps_def
    by (subst decrease_space_climb [OF st db, where prev = None], fold keeps_def, rule up) (use within_steps(5) in auto)
  show "keeps ops {} (decrease_inode_for_directory_quota ops f) s"
    unfolding decrease_inode_for_directory_quota_def keeps_def
    by (subst decrease_inode_climb [OF st db, where prev = None], fold keeps_def, rule up) (use within_steps(6) in auto)
qed

lemma adjusts_safe:
  assumes "adjusts ops s m n h" "limits_ok ops s" "\<And>q. within q \<Longrightarrow> within (h q)"
  shows "keeps ops UNIV m s"
proof -
  have "within (if_set h q)" if "named (name_at ops s) (quota_at ops s) n = Some q" for q
    using that assms(3) limits_okD(2) [OF assms(2)] by (auto simp: named_def if_set_def bind_eq_Some_conv)
  then show ?thesis
    using keeps_mono [OF adjusts_keeps [OF assms(1,2)]] by blast
qed

lemma keeps_dirs: "limits_ok ops s \<Longrightarrow> names_kept ops X s s' \<Longrightarrow> md_getattr ops i s = Inr md \<Longrightarrow> limits_ok ops s' \<Longrightarrow>
    dir_like ops s' (md_quotaid md)"
  using db_okD(5) limits_okD(1) by (fastforce simp: names_kept_def)

lemma keeps_then:
  assumes "keeps ops X m s" "\<And>x s'. limits_ok ops s' \<Longrightarrow> names_kept ops UNIV s s' \<Longrightarrow> keeps ops UNIV (f x) s'"
  shows "keeps ops UNIV (andthen m f) s"
  using keeps_andthen [OF keeps_mono [OF assms(1) subset_UNIV], of UNIV f] assms(2) by simp

lemma giving_keeps:
  assumes st: "store_ok ops" and good: "limits_ok ops s" and dl: "dir_like ops s qid"
  shows "keeps ops UNIV (quota_space_dec ops qid u g f n) s" "keeps ops UNIV (quota_inode_dec ops qid u g f) s"
proof -
  let ?v = "volid2lvmid ops (volid f)"
  have space: "keeps ops UNIV (decrease_space_for_user_or_group_quota ops u g ?v t n) s'"
    and inode: "keeps ops UNIV (decrease_inode_for_user_or_group_quota ops u g ?v t) s'"
    if "limits_ok ops s'" "t = QUOTA_USER \<or> t = QUOTA_GROUP" for s' t
    using adjusts_safe [OF adjusting(4) [OF st limits_okD(1) [OF that(1)] that(2) volid_lvmid] that(1)]
      adjusts_safe [OF adjusting(3) [OF st limits_okD(1) [OF that(1)] that(2) volid_lvmid] that(1)]
      within_steps(5,6) by blast+
  show "keeps ops UNIV (quota_space_dec ops qid u g f n) s"
    unfolding quota_space_dec_def Let_def
    by (intro keeps_then [OF dir_steps(3) [OF st good dl]] keeps_then [OF keeps_or_missing [OF space]]
        keeps_or_missing [OF space]) auto
  show "keeps ops UNIV (quota_inode_dec ops qid u g f) s"
    unfolding quota_inode_dec_def Let_def
    by (intro keeps_then [OF dir_steps(4) [OF st good dl]] keeps_then [OF inode] inode) auto
qed

lemma taking_keeps:
  assumes st: "store_ok ops" and good: "limits_ok ops s" and dl: "dir_like ops s qid"
  shows "keeps ops UNIV (quota_space_check_and_inc ops qid u g f n) s"
    "keeps ops UNIV (quota_inode_check_and_inc ops qid u g f) s"
proof -
  note get = get_names [OF st limits_okD(1) [OF good]] and steps = dir_steps [OF st good dl]
  have "keeps ops {group_name (volid f) g, user_name (volid f) u} (quota_space_check_and_inc ops qid u g f n) s"
    unfolding quota_space_check_and_inc_def Let_def check_tree keeps_def
    by (subst looked_up, rule get, rule get, rule get, fold keeps_def,
        rule check_keeps [OF good steps(1) inc_adjusts(1,2) [OF st] group_not_user within_steps(3) refl refl]) assumption+
  then show "keeps ops UNIV (quota_space_check_and_inc ops qid u g f n) s"
    by (rule keeps_mono) simp
  have "keeps ops {group_name (volid f) g, user_name (volid f) u} (quota_inode_check_and_inc ops qid u g f) s"
    unfolding quota_inode_check_and_inc_def Let_def check_tree keeps_def
    by (subst looked_up, rule get, rule get, rule get, fold keeps_def,
        rule check_keeps [OF good steps(2) inc_adjusts(3,4) [OF st] group_not_user within_steps(4) refl refl]) assumption+
  then show "keeps ops UNIV (quota_inode_check_and_inc ops qid u g f) s"
    by (rule keeps_mono) simp
qed

section \<open>Histories\<close>

text \<open>The requests that the file system makes of the accounting, in any order; an answer that is an
  error does not end the history.\<close>

datatype quota_call =
    Take_space fileid "32 word" "32 word" "64 word"
  | Give_space fileid "32 word" "32 word" "64 word"
  | Take_inode fileid "32 word" "32 word"
  | Give_inode fileid "32 word" "32 word"
  | Removed fileid

fun quota_answer :: "'s kv_ops \<Rightarrow> quota_call \<Rightarrow> ('s, unit) act" where
  "quota_answer ops (Take_space f u g n) = quota_space_increase ops f u g n"
| "quota_answer ops (Give_space f u g n) = quota_space_decrease ops f u g n"
| "quota_answer ops (Take_inode f u g) = quota_inode_increase ops f u g"
| "quota_answer ops (Give_inode f u g) = quota_inode_decrease ops f u g"
| "quota_answer ops (Removed f) = quota_check_dec ops f"

fun quota_history :: "'s kv_ops \<Rightarrow> quota_call list \<Rightarrow> ('s, unit) act" where
  "quota_history ops [] = give ()"
| "quota_history ops (c # cs) = andthen (ignoring (quota_answer ops c)) (\<lambda>_. quota_history ops cs)"

lemma keeps_ask:
  assumes "limits_ok ops s" "\<And>md. md_getattr ops f s = Inr md \<Longrightarrow> keeps ops UNIV (k md) s"
  shows "keeps ops UNIV (andthen (ask (md_getattr ops f)) k) s"
proof (cases "md_getattr ops f s")
  case (Inl e)
  then show ?thesis using assms(1) by (simp add: keeps_def ask_def)
next
  case (Inr md)
  then show ?thesis using assms(2) [OF Inr] by (simp add: keeps_def ask_def)
qed

lemma answer_keeps:
  assumes st: "store_ok ops" and good: "limits_ok ops s"
  shows "keeps ops UNIV (quota_answer ops c) s"
proof -
  have dl: "dir_like ops s (md_quotaid md)" if "md_getattr ops f s = Inr md" for f md
    using that db_okD(5) [OF limits_okD(1) [OF good]] by blast
  note rules = keeps_ask [OF good] taking_keeps [OF st good] giving_keeps [OF st good] dl
  show ?thesis
  proof (cases c)
    case (Removed f)
    have "keeps ops UNIV (quota_inode_dec ops (md_quotaid md) u g i) s'"
      if "limits_ok ops s'" "names_kept ops UNIV s s'" "md_getattr ops f s = Inr md" for s' md u g i
      using giving_keeps(2) [OF st that(1) keeps_dirs [OF good that(2,3,1)]] .
    then show ?thesis
      unfolding Removed quota_answer.simps quota_check_dec_def
      using good giving_keeps [OF st good dl]
      by (intro keeps_ask [OF good]) (auto intro!: keeps_then [where X = UNIV] keeps_ignoring)
  qed (use good in \<open>auto simp: quota_space_increase_def quota_space_decrease_def quota_inode_increase_def
      quota_inode_decrease_def intro!: rules\<close>)
qed

text \<open>C18: When no quota is over its hard limits, no history of requests for space and files and of
  giving them back takes one over: the requests return, and every quota stays within both limits,
  also where a directory refuses half way up.\<close>
theorem hard_limits_hold:
  assumes "store_ok ops" "limits_ok ops s"
  shows "\<exists>s'. quota_history ops cs s = Some (Inr (), s') \<and>
    (\<forall>f q. quota_at ops s' f = Some q \<longrightarrow>
       (space_hard q > 0 \<longrightarrow> space_used q \<le> space_hard q) \<and> (inode_hard q > 0 \<longrightarrow> inode_used q \<le> inode_hard q))"
proof -
  have "\<exists>s'. quota_history ops cs s = Some (Inr (), s') \<and> limits_ok ops s'"
    using assms(2)
  proof (induction cs arbitrary: s)
    case (Cons c cs)
    obtain r s1 where "quota_answer ops c s = Some (r, s1)" "limits_ok ops s1"
      using answer_keeps [OF assms(1) Cons.prems, of c] by (auto simp: keeps_def)
    then show ?case
      using Cons.IH [of s1] by (simp add: ignoring_def)
  qed simp
  then show ?thesis
    by (auto simp: limits_ok_def within_def)
qed

lemma tree_limits_ok: "limits_ok (map_ops some_file) (tree_of 12)"
  using tree_db_ok by (auto simp: limits_ok_def within_def tree_of_def dir_quota_def group_quota_def no_quota_def split: if_splits)

theorem hard_limits_hold_witness:
  "\<exists>s'. quota_history (map_ops some_file)
      [Take_space (id_of 5) 1 3 2, Take_inode (id_of 5) 1 3, Take_space (id_of 5) 1 3 5, Removed (id_of 5)] (tree_of 12) =
        Some (Inr (), s') \<and>
     (\<forall>f q. quota_at (map_ops some_file) s' f = Some q \<longrightarrow>
        (space_hard q > 0 \<longrightarrow> space_used q \<le> space_hard q) \<and> (inode_hard q > 0 \<longrightarrow> inode_used q \<le> inode_hard q))"
  by (rule hard_limits_hold [OF map_ops_ok tree_limits_ok])

end
