(* ===== verification/QuotaFindings.thy ===== *)
theory QuotaFindings
  imports QuotaSafety
begin

text \<open>
  Where the accounting of quotas does something else than it means to. That a refusal further up
  leaves counts behind is shown by the example of \<open>space_is_accounted\<close>.
\<close>

text \<open>A request that fills a quota exactly is refused by the check of the first directory, of the group
  and of the user, and accepted by the directories above.\<close>

lemma exact_fill_refused:
  assumes "used_plus (space_used q) n = space_hard q" "space_hard q > 0"
  shows "\<not> space_checked n q \<and> \<not> over_space (more_space n q)"
  using assms by (simp add: space_checked_def over_space_def)

text \<open>The files of a group or a user without a limit on files are not counted.\<close>

lemma files_without_limit:
  assumes st: "store_ok ops" and db: "db_ok ops s"
    and q: "name_at ops s (group_name v g) = Some f" "quota_at ops s f = Some q" "inode_hard q = 0"
  shows "\<exists>s'. increase_inode_for_group_or_user_quota ops 0 g (volid2lvmid ops v) QUOTA_GROUP s = Some (Inr (), s') \<and>
    quota_at ops s' = quota_at ops s"
proof -
  have "bump (name_at ops s) (group_name v g) one_inode_below (quota_at ops s) = quota_at ops s"
    using q by (auto simp: bump_apply if_set_def one_inode_below_def fun_eq_iff)
  then show ?thesis
    using inc_adjusts(3) [OF st db, where v = v and g = g] q by (auto simp: adjusts_def named_def dest: movesD(1))
qed

text \<open>A name that is made when a quota is created is not told to the caller: the quota is stored under
  what happens to be on the stack.\<close>

lemma created_name_lost:
  assumes "kvop_get ops n s = Inl ENOENT" "md_attr_getid ops s = (Inr f, s1)" "ftype f \<noteq> 0"
    "kvop_create ops n f s1 = (None, s2)" "quota_type q \<noteq> QUOTA_DIR" "quota_name q = Some n"
  shows "create_quota ops qid q s = order_do (kset ops (stack_id ops) q True) s2"
proof -
  have "named_key ops n True s = Some (Inr (stack_id ops), s2)"
    by (subst named_key.simps) (simp add: assms)
  then show ?thesis using assms(5,6) by (simp add: create_quota_def md_quota_key_def)
qed

text \<open>Removing the quotas of a whole volume ends the program.\<close>

lemma volume_quotas_abort: "fid f = volid f \<Longrightarrow> quota_removeall ops f qid s = None"
  by (simp add: quota_removeall_def ignoring_def quota_remove_lvm_def abort_def andthen_def)

text \<open>A file of a group without a quota is given back with an error, and its user keeps the count; for
  space the missing quota is passed over.\<close>

lemma user_keeps_file:
  assumes st: "store_ok ops" and db: "db_ok ops s" and dl: "dir_like ops s qid" and t: "tree_ok (quota_at ops s) qid"
    and g: "name_at ops s (group_name (volid f) g) = None"
  shows "\<exists>s'. quota_inode_dec ops qid u g f s = Some (Inl ENOENT, s') \<and>
    named (name_at ops s') (quota_at ops s') (user_name (volid f) u) =
      named (name_at ops s) (quota_at ops s) (user_name (volid f) u)"
proof -
  let ?K = "set (way_up (quota_at ops s) QUOTA_MAX_LEVEL qid)"
  obtain s1 where s1: "decrease_inode_for_directory_quota ops qid s = Some (Inr (), s1)"
    "moves ops s (counted drop_inode ?K (quota_at ops s)) s1"
    using climb_counts_all [OF st, of drop_inode id s QUOTA_MAX_LEVEL qid "\<lambda>q. False"] db t
      decrease_inode_climb [OF st db, where prev = None]
    by (auto simp: tree_ok_def climbed_all decrease_inode_for_directory_quota_def)
  note s1' = movesD [OF s1(2)]
  have "named (name_at ops s1) (quota_at ops s1) (group_name (volid f) g) = None"
    using g s1'(2) by (simp add: named_def)
  then obtain s2 where s2: "decrease_inode_for_user_or_group_quota ops u g (volid2lvmid ops (volid f)) QUOTA_GROUP s1 =
      Some (Inl ENOENT, s2)" "moves ops s1 (bump (name_at ops s1) (group_name (volid f) g) drop_inode (quota_at ops s1)) s2"
    using adjusting(3) [OF st s1'(4) disjI2 [OF refl] volid_lvmid [of ops "volid f"], where u = u and g = g]
    by (auto simp: adjusts_def who_def)
  then have "quota_at ops s2 = counted drop_inode ?K (quota_at ops s)" "name_at ops s2 = name_at ops s"
    using movesD(1,2) [OF s2(2)] s1' g by (simp_all add: bump_def)
  then show ?thesis
    using s1(1) s2(1) named_counted [OF db dl order_refl] by (auto simp: quota_inode_dec_def Let_def)
qed

text \<open>A change of the owner counts the bytes of the file without a look at the limit of the new one.\<close>

lemma chown_does_not_check:
  assumes st: "store_ok ops" and db: "db_ok ops s" and u: "u \<noteq> 0" "u \<noteq> at_uid md" "at_uid md = 0" "g = at_gid md"
    and md: "md_getattr ops f s = Inr md" and q: "name_at ops s (user_name (volid (md_fileid md)) u) = Some i"
    "quota_at ops s i = Some q" "quota_set q" "inode_hard q = 0"
  shows "\<exists>s'. quota_chown ops f u g s = Some (Inr (), s') \<and> quota_at ops s' i = Some (more_space (at_size md) q)"
proof -
  let ?n = "user_name (volid (md_fileid md)) u"
  have a: "adjusts ops s' (increase_inode_for_group_or_user_quota ops u 0 (md_fileid md) QUOTA_USER) ?n one_inode_below"
    "adjusts ops s' (increase_space_for_group_or_user_quota ops u 0 (md_fileid md) QUOTA_USER (at_size md)) ?n
      (more_space (at_size md))" if "db_ok ops s'" for s'
    using adjusting(1,2) [OF st that disjI1 [OF refl] refl, where g = 0 and u = u] by (simp_all add: who_def)
  obtain s1 where s1: "increase_inode_for_group_or_user_quota ops u 0 (md_fileid md) QUOTA_USER s = Some (Inr (), s1)"
    "moves ops s (bump (name_at ops s) ?n one_inode_below (quota_at ops s)) s1"
    using a(1) [OF db] q by (auto simp: adjusts_def named_def)
  note s1' = movesD [OF s1(2)]
  have i: "name_at ops s1 ?n = Some i" "quota_at ops s1 i = Some q"
    using s1' q by (auto simp: bump_apply if_set_def one_inode_below_def)
  obtain s2 where s2: "increase_space_for_group_or_user_quota ops u 0 (md_fileid md) QUOTA_USER (at_size md) s1 = Some (Inr (), s2)"
    "moves ops s1 (bump (name_at ops s1) ?n (more_space (at_size md)) (quota_at ops s1)) s2"
    using a(2) [OF s1'(4)] i by (auto simp: adjusts_def named_def)
  have "quota_at ops s2 i = Some (more_space (at_size md) q)"
    using movesD(1) [OF s2(2)] i q(3) by (simp add: bump_apply if_set_def)
  then show ?thesis
    using s1(1) s2(1) md u by (auto simp: quota_chown_def ask_def Let_def)
qed

end
