(* ===== verification/Xdr.thy ===== *)
theory Xdr
  imports BufferOps
begin

text \<open>
  The wire format of the NFS server, \<^verbatim>\<open>src/sdfs/nfs/xdr.c\<close>. One function per type does all of the
  work on its values: it appends the value to a buffer, takes it out of one, or frees it, as \<^verbatim>\<open>xdr->op\<close> says.
  Numbers are sent with the high byte first, and bytes are filled up to a multiple of four.

  A function of the code is a function of the operation, the object and the buffer with the memory;
  it gives the returned value, the object and the buffer. A pointer is an option, and \<open>None\<close> is \<^verbatim>\<open>NULL\<close>; what
  it points at is part of the object. A failed assertion and an access outside an object give \<open>None\<close>.
\<close>

datatype xdr_op = XDR_ENCODE | XDR_DECODE | XDR_FREE

text \<open>The returned values: \<^verbatim>\<open>__TRUE\<close>, which is 0, \<^verbatim>\<open>__FALSE\<close>, which is -1, and an error number.\<close>

datatype xdr_ret = XDR_TRUE | XDR_FALSE | XDR_ERR errno

type_synonym world = "mem \<times> buffer"

type_synonym 'a outcome = "(xdr_ret \<times> 'a \<times> world) option"

type_synonym 'a xdr = "xdr_op \<Rightarrow> 'a \<Rightarrow> world \<Rightarrow> 'a outcome"

section \<open>Putting functions together\<close>

definition on_true :: "'a outcome \<Rightarrow> ('a \<Rightarrow> world \<Rightarrow> 'a outcome) \<Rightarrow> 'a outcome" where
  "on_true r k =
     (case r of None \<Rightarrow> None | Some (r, v, w) \<Rightarrow> if r = XDR_TRUE then k v w else Some (r, v, w))"

definition skip_xdr :: "'a xdr" where
  "skip_xdr op v w = Some (XDR_TRUE, v, w)"

definition fail_xdr :: "xdr_ret \<Rightarrow> 'a xdr" where
  "fail_xdr r op v w = Some (r, v, w)"

text \<open>On a field of a structure.\<close>

definition field :: "('r \<Rightarrow> 'a) \<Rightarrow> (('a \<Rightarrow> 'a) \<Rightarrow> 'r \<Rightarrow> 'r) \<Rightarrow> 'a xdr \<Rightarrow> 'r xdr" where
  "field get upd c op v w =
     (case c op (get v) w of None \<Rightarrow> None | Some (r, x, w) \<Rightarrow> Some (r, upd (\<lambda>_. x) v, w))"

text \<open>On two fields, the memory and its size.\<close>

definition field2 ::
    "('r \<Rightarrow> 'a) \<Rightarrow> (('a \<Rightarrow> 'a) \<Rightarrow> 'r \<Rightarrow> 'r) \<Rightarrow> ('r \<Rightarrow> 'b) \<Rightarrow> (('b \<Rightarrow> 'b) \<Rightarrow> 'r \<Rightarrow> 'r) \<Rightarrow> ('a \<times> 'b) xdr \<Rightarrow> 'r xdr" where
  "field2 get1 upd1 get2 upd2 c op v w =
     (case c op (get1 v, get2 v) w of
        None \<Rightarrow> None
      | Some (r, (x, y), w) \<Rightarrow> Some (r, upd1 (\<lambda>_. x) (upd2 (\<lambda>_. y) v), w))"

text \<open>One after the other, up to the first that fails; the value of that one is returned.\<close>

fun each_of :: "'a xdr list \<Rightarrow> 'a xdr" where
  "each_of [] op v w = Some (XDR_TRUE, v, w)"
| "each_of (c # cs) op v w = on_true (c op v w) (each_of cs op)"

text \<open>The same where a failure returns \<^verbatim>\<open>__FALSE\<close>.\<close>

definition or_false :: "'a xdr \<Rightarrow> 'a xdr" where
  "or_false c op v w =
     (case c op v w of
        None \<Rightarrow> None
      | Some (r, v, w) \<Rightarrow> Some (if r = XDR_TRUE then XDR_TRUE else XDR_FALSE, v, w))"

definition all_of :: "'a xdr list \<Rightarrow> 'a xdr" where
  "all_of cs = or_false (each_of cs)"

text \<open>A field and then a \<^verbatim>\<open>switch\<close> on it.\<close>

definition tagged :: "('r \<Rightarrow> 'a) \<Rightarrow> (('a \<Rightarrow> 'a) \<Rightarrow> 'r \<Rightarrow> 'r) \<Rightarrow> 'a xdr \<Rightarrow> ('a \<Rightarrow> 'r xdr) \<Rightarrow> 'r xdr" where
  "tagged get upd c f op v w = on_true (field get upd c op v w) (\<lambda>v. f (get v) op v)"

section \<open>The buffer\<close>

definition append_mem :: "octet list \<Rightarrow> 'a \<Rightarrow> world \<Rightarrow> 'a outcome" where
  "append_mem d v = (\<lambda>(m, b).
     do {
       (code, b, m) \<leftarrow> mbuffer_appendmem b d m;
       Some (case code of None \<Rightarrow> XDR_TRUE | Some e \<Rightarrow> XDR_ERR e, v, (m, b))
     })"

definition pop_msg :: "nat \<Rightarrow> world \<Rightarrow> (octet list \<times> world) option" where
  "pop_msg n = (\<lambda>(m, b). do { (d, b, m) \<leftarrow> mbuffer_popmsg b n m; Some (d, (m, b)) })"

definition ymalloc :: "world \<Rightarrow> bool \<times> world" where
  "ymalloc = (\<lambda>(m, b). let (granted, m) = small_alloc m in (granted, (m, b)))"

text \<open>\<^verbatim>\<open>htonl\<close> of a value in memory, and \<^verbatim>\<open>ntohl\<close> of it.\<close>

definition be32 :: "32 word \<Rightarrow> octet list" where
  "be32 x = [ucast (drop_bit 24 x), ucast (drop_bit 16 x), ucast (drop_bit 8 x), ucast x]"

definition of_be32 :: "octet list \<Rightarrow> 32 word" where
  "of_be32 d =
     push_bit 24 (ucast (d ! 0)) OR push_bit 16 (ucast (d ! 1)) OR push_bit 8 (ucast (d ! 2)) OR ucast (d ! 3)"

definition tail_of :: "nat \<Rightarrow> nat" where
  "tail_of n = (if n mod 4 \<noteq> 0 then 4 - n mod 4 else 0)"

section \<open>Bytes\<close>

text \<open>\<open>val\<close> is the memory the pointer leads to. All callers that decode pass an array or a block with room
  for \<open>n\<close> bytes. \<^verbatim>\<open>mbuffer_appendmem\<close> does not take 0 bytes.\<close>

definition xdr_opaque :: "nat \<Rightarrow> octet list xdr" where
  "xdr_opaque n op val w =
     (case op of
        XDR_DECODE \<Rightarrow>
          do {
            (d, w) \<leftarrow> pop_msg n w;
            let val = d @ drop n val;
            if tail_of n \<noteq> 0 then do { (blank, w) \<leftarrow> pop_msg (tail_of n) w; Some (XDR_TRUE, val, w) }
            else Some (XDR_TRUE, val, w)
          }
      | XDR_ENCODE \<Rightarrow>
          do {
            asserts (n \<le> length val);
            on_true (append_mem (take n val) val w) (\<lambda>val w.
              if tail_of n \<noteq> 0 then append_mem (replicate (tail_of n) 0) val w
              else Some (XDR_TRUE, val, w))
          }
      | XDR_FREE \<Rightarrow> Some (XDR_TRUE, val, w))"

text \<open>\<^verbatim>\<open>yfree\<close> does not take \<^verbatim>\<open>NULL\<close>. The size of the memory is computed in 32 bits.\<close>

definition xdr_bytes :: "32 word \<Rightarrow> (octet list option \<times> 32 word) xdr" where
  "xdr_bytes limit op v w =
     (case op of
        XDR_DECODE \<Rightarrow>
          do {
            (d, w) \<leftarrow> pop_msg 4 w;
            let len = of_be32 d;
            if len > limit then Some (XDR_ERR EINVAL, v, w)
            else do {
              asserts (len + 1 \<noteq> 0);
              let (granted, w) = ymalloc w;
              if \<not> granted then Some (XDR_ERR ENOMEM, v, w)
              else do {
                (r, ptr, w) \<leftarrow> xdr_opaque (unat len) XDR_DECODE (replicate (unat (len + 1)) 0) w;
                Some (r, if r = XDR_TRUE then (Some ptr, len) else v, w)
              }
            }
          }
      | XDR_ENCODE \<Rightarrow>
          on_true (append_mem (be32 (snd v)) v w) (\<lambda>v w.
            do {
              ptr \<leftarrow> fst v;
              (r, ptr, w) \<leftarrow> xdr_opaque (unat (snd v)) XDR_ENCODE ptr w;
              Some (r, v, w)
            })
      | XDR_FREE \<Rightarrow> do { asserts (fst v \<noteq> None); Some (XDR_TRUE, (None, snd v), w) })"

text \<open>\<^verbatim>\<open>_strlen\<close> of the memory of a string.\<close>

definition c_text :: "octet list \<Rightarrow> octet list" where
  "c_text s = takeWhile (\<lambda>c. c \<noteq> 0) s"

definition c_strlen :: "octet list \<Rightarrow> 32 word option" where
  "c_strlen s = (if 0 \<in> set s then Some (of_nat (length (c_text s))) else None)"

definition xdr_string :: "32 word \<Rightarrow> octet list option xdr" where
  "xdr_string limit op p w =
     do {
       len \<leftarrow> (if op = XDR_ENCODE then p \<bind> c_strlen else Some 0);
       (r, v, w) \<leftarrow> xdr_bytes limit op (p, len) w;
       Some (r, fst v, w)
     }"

section \<open>Numbers\<close>

text \<open>The object is a \<^verbatim>\<open>long\<close>, of which 32 bits are sent.\<close>

definition xdr_long :: "64 word xdr" where
  "xdr_long op val w =
     (case op of
        XDR_DECODE \<Rightarrow> do { (d, w) \<leftarrow> pop_msg 4 w; Some (XDR_TRUE, ucast (of_be32 d), w) }
      | XDR_ENCODE \<Rightarrow> append_mem (be32 (ucast val)) val w
      | XDR_FREE \<Rightarrow> Some (XDR_TRUE, val, w))"

definition through_long :: "(32 word \<Rightarrow> 64 word) \<Rightarrow> 32 word xdr" where
  "through_long to op x w =
     do {
       (r, val, w) \<leftarrow> xdr_long op (to x) w;
       Some (r, if r = XDR_TRUE then ucast val else x, w)
     }"

text \<open>An \<^verbatim>\<open>int\<close> is made longer with its sign.\<close>

definition xdr_enum :: "32 word xdr" where "xdr_enum = through_long scast"
definition xdr_uint32 :: "32 word xdr" where "xdr_uint32 = through_long ucast"
definition xdr_int :: "32 word xdr" where "xdr_int = through_long scast"
definition xdr_bool :: "32 word xdr" where "xdr_bool = through_long scast"

definition xdr_uint64 :: "64 word xdr" where
  "xdr_uint64 op val w =
     (case op of
        XDR_ENCODE \<Rightarrow>
          do {
            let buf = List.map (\<lambda>i. ucast (drop_bit i val AND 0xFF)) [56, 48, 40, 32, 24, 16, 8, 0];
            (r, buf, w) \<leftarrow> xdr_opaque 8 op buf w;
            Some (r, val, w)
          }
      | XDR_DECODE \<Rightarrow>
          do {
            (r, buf, w) \<leftarrow> xdr_opaque 8 op (replicate 8 0) w;
            Some (r, if r = XDR_TRUE
                     then push_bit 32 (ucast (of_be32 (take 4 buf))) OR ucast (of_be32 (drop 4 buf)) else val, w)
          }
      | XDR_FREE \<Rightarrow> Some (XDR_TRUE, val, w))"

section \<open>Pointers\<close>

text \<open>\<open>blank\<close> is the object with all bytes 0, as \<^verbatim>\<open>ymalloc\<close> gives it.\<close>

definition xdr_reference :: "'a \<Rightarrow> 'a xdr \<Rightarrow> 'a option xdr" where
  "xdr_reference blank proc op p w =
     (let run = (\<lambda>loc w.
            do {
              (r, loc, w) \<leftarrow> proc op loc w;
              Some (r, if r = XDR_TRUE \<and> op = XDR_FREE then None else Some loc, w)
            })
      in
      case p of
        Some loc \<Rightarrow> run loc w
      | None \<Rightarrow>
          (case op of
             XDR_FREE \<Rightarrow> Some (XDR_TRUE, None, w)
           | XDR_DECODE \<Rightarrow>
               (let (granted, w) = ymalloc w in
                if \<not> granted then Some (XDR_ERR ENOMEM, None, w) else run blank w)
           | XDR_ENCODE \<Rightarrow> None))"

definition xdr_pointer :: "'a \<Rightarrow> 'a xdr \<Rightarrow> 'a option xdr" where
  "xdr_pointer blank proc op p w =
     do {
       (r, more_data, w) \<leftarrow> xdr_bool op (if p \<noteq> None then 1 else 0) w;
       if r \<noteq> XDR_TRUE then Some (r, p, w)
       else if more_data = 0 then Some (XDR_TRUE, None, w)
       else xdr_reference blank proc op p w
     }"

text \<open>
  The loop steps over pointers and not over elements: the second element is looked for behind the
  structure that holds the pointer, so at most one element is sent.
\<close>

definition xdr_array :: "32 word \<Rightarrow> 32 word \<Rightarrow> 'a xdr \<Rightarrow> ('a list option \<times> 32 word) xdr" where
  "xdr_array maxsize elsize elproc op v w =
     do {
       (r, len, w) \<leftarrow> xdr_uint32 op (snd v) w;
       if r \<noteq> XDR_TRUE then Some (r, v, w)
       else if \<not> (0 < len \<and> elsize < maxsize) then Some (XDR_TRUE, (fst v, len), w)
       else do {
         xs \<leftarrow> fst v;
         asserts (xs \<noteq> []);
         (r, x, w) \<leftarrow> elproc op (hd xs) w;
         let v = (Some (x # tl xs), len);
         if r \<noteq> XDR_TRUE then Some (r, v, w)
         else do {
           asserts (\<not> (1 < len \<and> elsize + elsize < maxsize));
           Some (XDR_TRUE, v, w)
         }
       }
     }"

section \<open>A buffer in a message\<close>

text \<open>The bytes of a buffer are moved and not copied, and the bytes that fill up are not taken out again.\<close>

definition xdr_buffer :: "32 word \<Rightarrow> (buffer option \<times> 32 word) xdr" where
  "xdr_buffer limit op v w =
     (case op of
        XDR_DECODE \<Rightarrow>
          do {
            (d, w) \<leftarrow> pop_msg 4 w;
            let len = of_be32 d;
            if len > limit then Some (XDR_ERR EINVAL, v, w)
            else
              let (granted, m, b) = ymalloc w in
              if \<not> granted then Some (XDR_ERR ENOMEM, v, (m, b))
              else do {
                (code, b, new, m) \<leftarrow> mbuffer_pop b (Some empty_buffer) (unat len) m;
                Some (case code of
                        Some e \<Rightarrow> (XDR_ERR e, v, (m, b))
                      | None \<Rightarrow> (XDR_TRUE, (new, len), (m, b)))
              }
          }
      | XDR_ENCODE \<Rightarrow>
          do {
            buf \<leftarrow> fst v;
            if unat (snd v) \<noteq> blen buf \<or> snd v > limit then Some (XDR_ERR EINVAL, v, w)
            else on_true (append_mem (be32 (snd v)) v w) (\<lambda>v (m, b).
              do {
                (b, buf) \<leftarrow> mbuffer_merge b buf;
                let v = (Some buf, snd v);
                if tail_of (unat (snd v)) \<noteq> 0 then append_mem (replicate (tail_of (unat (snd v))) 0) v (m, b)
                else Some (XDR_TRUE, v, (m, b))
              })
          }
      | XDR_FREE \<Rightarrow>
          do {
            buf \<leftarrow> fst v;
            (buf, m) \<leftarrow> mbuffer_free buf (fst w);
            Some (XDR_TRUE, (None, snd v), (m, snd w))
          })"

end
