(* ===== verification/NfsTypes.thy ===== *)
theory NfsTypes
  imports Xdr
begin

text \<open>
  The structures of \<^verbatim>\<open>src/sdfs/nfs/nfs3.h\<close>. A field \<open>f\<close> of a structure \<open>s\<close> is \<open>s_f\<close>; the members of a union are
  fields of their own, of which only the one that the tag chooses is used. An enumeration and a \<^verbatim>\<open>bool_t\<close>
  have 32 bits, and a pointer to characters is the memory it leads to.
\<close>

type_synonym bool_t = "32 word"
type_synonym nfs3_stat = "32 word"
type_synonym time_how = "32 word"
type_synonym nfs3_ftype = "32 word"
type_synonym stable_how = "32 word"
type_synonym create_mode = "32 word"
type_synonym mount_stat = "32 word"

abbreviation NFS3_OK :: nfs3_stat where "NFS3_OK \<equiv> 0"
abbreviation SET_TO_CLIENT_TIME :: time_how where "SET_TO_CLIENT_TIME \<equiv> 2"
abbreviation NFS3_BLK :: nfs3_ftype where "NFS3_BLK \<equiv> 3"
abbreviation NFS3_CHR :: nfs3_ftype where "NFS3_CHR \<equiv> 4"
abbreviation NFS3_SOCK :: nfs3_ftype where "NFS3_SOCK \<equiv> 6"
abbreviation NFS3_FIFO :: nfs3_ftype where "NFS3_FIFO \<equiv> 7"
abbreviation UNCHECKED :: create_mode where "UNCHECKED \<equiv> 0"
abbreviation GUARDED :: create_mode where "GUARDED \<equiv> 1"
abbreviation EXCLUSIVE :: create_mode where "EXCLUSIVE \<equiv> 2"
abbreviation MNT_OK :: mount_stat where "MNT_OK \<equiv> 0"

abbreviation NFS3_FHSIZE :: "32 word" where "NFS3_FHSIZE \<equiv> 64"
abbreviation NFS3_COOKIEVERFSIZE :: nat where "NFS3_COOKIEVERFSIZE \<equiv> 8"
abbreviation NFS3_CREATEVERFSIZE :: nat where "NFS3_CREATEVERFSIZE \<equiv> 8"
abbreviation NFS3_WRITEVERFSIZE :: nat where "NFS3_WRITEVERFSIZE \<equiv> 8"
abbreviation MNTPATH_LEN :: "32 word" where "MNTPATH_LEN \<equiv> 1024"
abbreviation FH_SIZE :: "32 word" where "FH_SIZE \<equiv> 64"

record set_mode =
  set_mode_set_it :: bool_t
  set_mode_mode :: "32 word"

record set_uid =
  set_uid_set_it :: bool_t
  set_uid_uid :: "32 word"

record set_gid =
  set_gid_set_it :: bool_t
  set_gid_gid :: "32 word"

record set_size =
  set_size_set_it :: bool_t
  set_size_size :: "64 word"

record nfs3_time =
  nfs3_time_seconds :: "32 word"
  nfs3_time_nseconds :: "32 word"

record set_time =
  set_time_set_it :: time_how
  set_time_time :: nfs3_time

record sattr =
  sattr_mode :: set_mode
  sattr_uid :: set_uid
  sattr_gid :: set_gid
  sattr_size :: set_size
  sattr_atime :: set_time
  sattr_mtime :: set_time

record nfs3_specdata =
  nfs3_specdata_data1 :: "32 word"
  nfs3_specdata_data2 :: "32 word"

record nfs_fh3 =
  nfs_fh3_len :: "32 word"
  nfs_fh3_val :: "octet list option"

record nfs3_fattr =
  nfs3_fattr_type :: nfs3_ftype
  nfs3_fattr_mode :: "32 word"
  nfs3_fattr_nlink :: "32 word"
  nfs3_fattr_uid :: "32 word"
  nfs3_fattr_gid :: "32 word"
  nfs3_fattr_size :: "64 word"
  nfs3_fattr_used :: "64 word"
  nfs3_fattr_rdev :: nfs3_specdata
  nfs3_fattr_fsid :: "64 word"
  nfs3_fattr_fileid :: "64 word"
  nfs3_fattr_atime :: nfs3_time
  nfs3_fattr_mtime :: nfs3_time
  nfs3_fattr_ctime :: nfs3_time

record post_op_attr =
  post_op_attr_attr_follow :: bool_t
  post_op_attr_attr :: nfs3_fattr

record wcc_attr =
  wcc_attr_size :: "64 word"
  wcc_attr_mtime :: nfs3_time
  wcc_attr_ctime :: nfs3_time

record preop_attr =
  preop_attr_attr_follow :: bool_t
  preop_attr_attr :: wcc_attr

record wcc_data =
  wcc_data_before :: preop_attr
  wcc_data_after :: post_op_attr

record postop_fh =
  postop_fh_handle_follows :: bool_t
  postop_fh_handle :: nfs_fh3

record getattr_ret =
  getattr_ret_status :: nfs3_stat
  getattr_ret_attr :: nfs3_fattr

record getattr_args =
  getattr_args_obj :: nfs_fh3

record sattrguard3 =
  sattrguard3_check :: bool_t
  sattrguard3_obj_ctime :: nfs3_time

record setattr3_args =
  setattr3_args_obj :: nfs_fh3
  setattr3_args_new_attributes :: sattr
  setattr3_args_guard :: sattrguard3

record setattr3_resok =
  setattr3_resok_obj_wcc :: wcc_data

record setattr3_resfail =
  setattr3_resfail_obj_wcc :: wcc_data

record setattr3_res =
  setattr3_res_status :: nfs3_stat
  setattr3_res_resok :: setattr3_resok
  setattr3_res_resfail :: setattr3_resfail

record lookup_retok =
  lookup_retok_dir_attr :: post_op_attr
  lookup_retok_obj :: nfs_fh3
  lookup_retok_obj_attr :: post_op_attr

record lookup_retfail =
  lookup_retfail_dir_attr :: post_op_attr

record lookup_ret =
  lookup_ret_status :: nfs3_stat
  lookup_ret_ok :: lookup_retok
  lookup_ret_fail :: lookup_retfail

record diropargs3 =
  diropargs3_dir :: nfs_fh3
  diropargs3_name :: "octet list option"

record rename_args =
  rename_args_from :: diropargs3
  rename_args_to :: diropargs3

record rename_retok =
  rename_retok_from :: wcc_data
  rename_retok_to :: wcc_data

record rename_retfail =
  rename_retfail_from :: wcc_data
  rename_retfail_to :: wcc_data

record rename_ret =
  rename_ret_status :: nfs3_stat
  rename_ret_ok :: rename_retok
  rename_ret_fail :: rename_retfail

record LINK3args =
  LINK3args_file :: nfs_fh3
  LINK3args_link :: diropargs3

record LINK3resok =
  LINK3resok_file_attributes :: post_op_attr
  LINK3resok_linkdir_wcc :: wcc_data

record LINK3resfail =
  LINK3resfail_file_attributes :: post_op_attr
  LINK3resfail_linkdir_wcc :: wcc_data

record LINK3res =
  LINK3res_status :: nfs3_stat
  LINK3res_ok :: LINK3resok
  LINK3res_fail :: LINK3resfail

record access_retok =
  access_retok_obj_attr :: post_op_attr
  access_retok_access :: "32 word"

record access_retfail =
  access_retfail_obj_attr :: post_op_attr

record access_ret =
  access_ret_status :: nfs3_stat
  access_ret_ok :: access_retok
  access_ret_fail :: access_retfail

record access_args =
  access_args_obj :: nfs_fh3
  access_args_access :: "32 word"

record read_retok =
  read_retok_attr :: post_op_attr
  read_retok_count :: "32 word"
  read_retok_eof :: bool_t
  read_retok_data_len :: "32 word"
  read_retok_data_val :: "buffer option"

record read_retfail =
  read_retfail_attr :: post_op_attr

record read_ret =
  read_ret_status :: nfs3_stat
  read_ret_ok :: read_retok
  read_ret_fail :: read_retfail

record read_args =
  read_args_file :: nfs_fh3
  read_args_offset :: "64 word"
  read_args_count :: "32 word"

record write_retok =
  write_retok_file_wcc :: wcc_data
  write_retok_count :: "32 word"
  write_retok_committed :: stable_how
  write_retok_verf :: "octet list"

record write_retfail =
  write_retfail_file_wcc :: wcc_data

record write_ret =
  write_ret_status :: nfs3_stat
  write_ret_ok :: write_retok
  write_ret_fail :: write_retfail

record write_args =
  write_args_file :: nfs_fh3
  write_args_offset :: "64 word"
  write_args_count :: "32 word"
  write_args_stable :: stable_how
  write_args_data_len :: "32 word"
  write_args_data_val :: "buffer option"

record create_retok =
  create_retok_dir_wcc :: wcc_data
  create_retok_obj :: postop_fh
  create_retok_obj_attr :: post_op_attr

record create_retfail =
  create_retfail_dir_wcc :: wcc_data

record create_ret =
  create_ret_status :: nfs3_stat
  create_ret_ok :: create_retok
  create_ret_fail :: create_retfail

record create_how =
  create_how_mode :: create_mode
  create_how_attr :: sattr
  create_how_verf :: "octet list"

record create_args =
  create_args_where :: diropargs3
  create_args_how :: create_how

record mkdir_retok =
  mkdir_retok_dir_wcc :: wcc_data
  mkdir_retok_obj :: postop_fh
  mkdir_retok_obj_attr :: post_op_attr

record mkdir_retfail =
  mkdir_retfail_dir_wcc :: wcc_data

record mkdir_ret =
  mkdir_ret_status :: nfs3_stat
  mkdir_ret_ok :: mkdir_retok
  mkdir_ret_fail :: mkdir_retfail

record mkdir_args =
  mkdir_args_where :: diropargs3
  mkdir_args_attr :: sattr

record remove_ret =
  remove_ret_status :: nfs3_stat
  remove_ret_dir_wcc :: wcc_data

record remove_args =
  remove_args_obj :: diropargs3

record readdir_args =
  readdir_args_dir :: nfs_fh3
  readdir_args_cookie :: "64 word"
  readdir_args_cookieverf :: "octet list"
  readdir_args_count :: "32 word"

text \<open>The entries of a directory, a list in which each points to the next.\<close>

datatype dir_entry =
  Entry (entry_fileid: "64 word") (entry_name: "octet list option") (entry_cookie: "64 word")
    (entry_next: "dir_entry option")

primrec entry_fileid_update :: "(64 word \<Rightarrow> 64 word) \<Rightarrow> dir_entry \<Rightarrow> dir_entry" where
  "entry_fileid_update f (Entry a b c d) = Entry (f a) b c d"
primrec entry_name_update :: "(octet list option \<Rightarrow> octet list option) \<Rightarrow> dir_entry \<Rightarrow> dir_entry" where
  "entry_name_update f (Entry a b c d) = Entry a (f b) c d"
primrec entry_cookie_update :: "(64 word \<Rightarrow> 64 word) \<Rightarrow> dir_entry \<Rightarrow> dir_entry" where
  "entry_cookie_update f (Entry a b c d) = Entry a b (f c) d"
primrec entry_next_update :: "(dir_entry option \<Rightarrow> dir_entry option) \<Rightarrow> dir_entry \<Rightarrow> dir_entry" where
  "entry_next_update f (Entry a b c d) = Entry a b c (f d)"

lemma entry_fileid_update [simp]:
  "entry_fileid_update (\<lambda>_. entry_fileid v) v = v"
  "entry_fileid (entry_fileid_update h v) = h (entry_fileid v)"
  "entry_name (entry_fileid_update h v) = entry_name v"
  "entry_cookie (entry_fileid_update h v) = entry_cookie v"
  "entry_next (entry_fileid_update h v) = entry_next v"
  by (cases v, simp)+

lemma entry_name_update [simp]:
  "entry_name_update (\<lambda>_. entry_name v) v = v"
  "entry_fileid (entry_name_update h v) = entry_fileid v"
  "entry_name (entry_name_update h v) = h (entry_name v)"
  "entry_cookie (entry_name_update h v) = entry_cookie v"
  "entry_next (entry_name_update h v) = entry_next v"
  by (cases v, simp)+

lemma entry_cookie_update [simp]:
  "entry_cookie_update (\<lambda>_. entry_cookie v) v = v"
  "entry_fileid (entry_cookie_update h v) = entry_fileid v"
  "entry_name (entry_cookie_update h v) = entry_name v"
  "entry_cookie (entry_cookie_update h v) = h (entry_cookie v)"
  "entry_next (entry_cookie_update h v) = entry_next v"
  by (cases v, simp)+

lemma entry_next_update [simp]:
  "entry_next_update (\<lambda>_. entry_next v) v = v"
  "entry_fileid (entry_next_update h v) = entry_fileid v"
  "entry_name (entry_next_update h v) = entry_name v"
  "entry_cookie (entry_next_update h v) = entry_cookie v"
  "entry_next (entry_next_update h v) = h (entry_next v)"
  by (cases v, simp)+

record dirlist =
  dirlist_entries :: "dir_entry option"
  dirlist_eof :: bool_t

record readdir_retok =
  readdir_retok_dir_attr :: post_op_attr
  readdir_retok_cookieverf :: "octet list"
  readdir_retok_reply :: dirlist

record readdir_retfail =
  readdir_retfail_dir_attr :: post_op_attr

record readdir_ret =
  readdir_ret_status :: nfs3_stat
  readdir_ret_ok :: readdir_retok
  readdir_ret_fail :: readdir_retfail

record readdirplus_args =
  readdirplus_args_dir :: nfs_fh3
  readdirplus_args_cookie :: "64 word"
  readdirplus_args_cookieverf :: "octet list"
  readdirplus_args_dircount :: "32 word"
  readdirplus_args_maxcount :: "32 word"

datatype dir_entryplus =
  EntryPlus (entryplus_fileid: "64 word") (entryplus_name: "octet list option") (entryplus_cookie: "64 word")
    (entryplus_attr: post_op_attr) (entryplus_fh: postop_fh) (entryplus_next: "dir_entryplus option")

primrec entryplus_fileid_update :: "(64 word \<Rightarrow> 64 word) \<Rightarrow> dir_entryplus \<Rightarrow> dir_entryplus" where
  "entryplus_fileid_update f (EntryPlus a b c d e g) = EntryPlus (f a) b c d e g"
primrec entryplus_name_update :: "(octet list option \<Rightarrow> octet list option) \<Rightarrow> dir_entryplus \<Rightarrow> dir_entryplus" where
  "entryplus_name_update f (EntryPlus a b c d e g) = EntryPlus a (f b) c d e g"
primrec entryplus_cookie_update :: "(64 word \<Rightarrow> 64 word) \<Rightarrow> dir_entryplus \<Rightarrow> dir_entryplus" where
  "entryplus_cookie_update f (EntryPlus a b c d e g) = EntryPlus a b (f c) d e g"
primrec entryplus_attr_update :: "(post_op_attr \<Rightarrow> post_op_attr) \<Rightarrow> dir_entryplus \<Rightarrow> dir_entryplus" where
  "entryplus_attr_update f (EntryPlus a b c d e g) = EntryPlus a b c (f d) e g"
primrec entryplus_fh_update :: "(postop_fh \<Rightarrow> postop_fh) \<Rightarrow> dir_entryplus \<Rightarrow> dir_entryplus" where
  "entryplus_fh_update f (EntryPlus a b c d e g) = EntryPlus a b c d (f e) g"
primrec entryplus_next_update :: "(dir_entryplus option \<Rightarrow> dir_entryplus option) \<Rightarrow> dir_entryplus \<Rightarrow> dir_entryplus" where
  "entryplus_next_update f (EntryPlus a b c d e g) = EntryPlus a b c d e (f g)"

lemma entryplus_fileid_update [simp]:
  "entryplus_fileid_update (\<lambda>_. entryplus_fileid v) v = v"
  "entryplus_fileid (entryplus_fileid_update h v) = h (entryplus_fileid v)"
  "entryplus_name (entryplus_fileid_update h v) = entryplus_name v"
  "entryplus_cookie (entryplus_fileid_update h v) = entryplus_cookie v"
  "entryplus_attr (entryplus_fileid_update h v) = entryplus_attr v"
  "entryplus_fh (entryplus_fileid_update h v) = entryplus_fh v"
  "entryplus_next (entryplus_fileid_update h v) = entryplus_next v"
  by (cases v, simp)+

lemma entryplus_name_update [simp]:
  "entryplus_name_update (\<lambda>_. entryplus_name v) v = v"
  "entryplus_fileid (entryplus_name_update h v) = entryplus_fileid v"
  "entryplus_name (entryplus_name_update h v) = h (entryplus_name v)"
  "entryplus_cookie (entryplus_name_update h v) = entryplus_cookie v"
  "entryplus_attr (entryplus_name_update h v) = entryplus_attr v"
  "entryplus_fh (entryplus_name_update h v) = entryplus_fh v"
  "entryplus_next (entryplus_name_update h v) = entryplus_next v"
  by (cases v, simp)+

lemma entryplus_cookie_update [simp]:
  "entryplus_cookie_update (\<lambda>_. entryplus_cookie v) v = v"
  "entryplus_fileid (entryplus_cookie_update h v) = entryplus_fileid v"
  "entryplus_name (entryplus_cookie_update h v) = entryplus_name v"
  "entryplus_cookie (entryplus_cookie_update h v) = h (entryplus_cookie v)"
  "entryplus_attr (entryplus_cookie_update h v) = entryplus_attr v"
  "entryplus_fh (entryplus_cookie_update h v) = entryplus_fh v"
  "entryplus_next (entryplus_cookie_update h v) = entryplus_next v"
  by (cases v, simp)+

lemma entryplus_attr_update [simp]:
  "entryplus_attr_update (\<lambda>_. entryplus_attr v) v = v"
  "entryplus_fileid (entryplus_attr_update h v) = entryplus_fileid v"
  "entryplus_name (entryplus_attr_update h v) = entryplus_name v"
  "entryplus_cookie (entryplus_attr_update h v) = entryplus_cookie v"
  "entryplus_attr (entryplus_attr_update h v) = h (entryplus_attr v)"
  "entryplus_fh (entryplus_attr_update h v) = entryplus_fh v"
  "entryplus_next (entryplus_attr_update h v) = entryplus_next v"
  by (cases v, simp)+

lemma entryplus_fh_update [simp]:
  "entryplus_fh_update (\<lambda>_. entryplus_fh v) v = v"
  "entryplus_fileid (entryplus_fh_update h v) = entryplus_fileid v"
  "entryplus_name (entryplus_fh_update h v) = entryplus_name v"
  "entryplus_cookie (entryplus_fh_update h v) = entryplus_cookie v"
  "entryplus_attr (entryplus_fh_update h v) = entryplus_attr v"
  "entryplus_fh (entryplus_fh_update h v) = h (entryplus_fh v)"
  "entryplus_next (entryplus_fh_update h v) = entryplus_next v"
  by (cases v, simp)+

lemma entryplus_next_update [simp]:
  "entryplus_next_update (\<lambda>_. entryplus_next v) v = v"
  "entryplus_fileid (entryplus_next_update h v) = entryplus_fileid v"
  "entryplus_name (entryplus_next_update h v) = entryplus_name v"
  "entryplus_cookie (entryplus_next_update h v) = entryplus_cookie v"
  "entryplus_attr (entryplus_next_update h v) = entryplus_attr v"
  "entryplus_fh (entryplus_next_update h v) = entryplus_fh v"
  "entryplus_next (entryplus_next_update h v) = h (entryplus_next v)"
  by (cases v, simp)+

record dirlistplus =
  dirlistplus_entries :: "dir_entryplus option"
  dirlistplus_eof :: bool_t

record readdirplus_retok =
  readdirplus_retok_dir_attr :: post_op_attr
  readdirplus_retok_cookieverf :: "octet list"
  readdirplus_retok_reply :: dirlistplus

record readdirplus_retfail =
  readdirplus_retfail_dir_attr :: post_op_attr

record readdirplus_ret =
  readdirplus_ret_status :: nfs3_stat
  readdirplus_ret_ok :: readdirplus_retok
  readdirplus_ret_fail :: readdirplus_retfail

record fsstat_retok =
  fsstat_retok_attr :: post_op_attr
  fsstat_retok_tbytes :: "64 word"
  fsstat_retok_fbytes :: "64 word"
  fsstat_retok_abytes :: "64 word"
  fsstat_retok_tfiles :: "64 word"
  fsstat_retok_ffiles :: "64 word"
  fsstat_retok_afiles :: "64 word"
  fsstat_retok_invarsec :: "32 word"

record fsstat_retfail =
  fsstat_retfail_attr :: post_op_attr

record fsstat_ret =
  fsstat_ret_status :: nfs3_stat
  fsstat_ret_ok :: fsstat_retok
  fsstat_ret_fail :: fsstat_retfail

record fsstat_args =
  fsstat_args_fsroot :: nfs_fh3

record fsinfo_retok =
  fsinfo_retok_obj_attr :: post_op_attr
  fsinfo_retok_rtmax :: "32 word"
  fsinfo_retok_rtpref :: "32 word"
  fsinfo_retok_rtmult :: "32 word"
  fsinfo_retok_wtmax :: "32 word"
  fsinfo_retok_wtpref :: "32 word"
  fsinfo_retok_wtmult :: "32 word"
  fsinfo_retok_dtpref :: "32 word"
  fsinfo_retok_maxfilesize :: "64 word"
  fsinfo_retok_time_delta :: nfs3_time
  fsinfo_retok_properties :: "32 word"

record fsinfo_retfail =
  fsinfo_retfail_obj_attr :: post_op_attr

record fsinfo_ret =
  fsinfo_ret_status :: nfs3_stat
  fsinfo_ret_ok :: fsinfo_retok
  fsinfo_ret_fail :: fsinfo_retfail

record fsinfo_args =
  fsinfo_args_fsroot :: nfs_fh3

record pathconf3_args =
  pathconf3_args_object :: nfs_fh3

record pathconf3_resok =
  pathconf3_resok_obj_attributes :: post_op_attr
  pathconf3_resok_linkmax :: "32 word"
  pathconf3_resok_name_max :: "32 word"
  pathconf3_resok_no_trunc :: bool_t
  pathconf3_resok_chown_restricted :: bool_t
  pathconf3_resok_case_insensitive :: bool_t
  pathconf3_resok_case_preserving :: bool_t

record pathconf3_resfail =
  pathconf3_resfail_obj_attributes :: post_op_attr

record pathconf3_res =
  pathconf3_res_status :: nfs3_stat
  pathconf3_res_resok :: pathconf3_resok
  pathconf3_res_resfail :: pathconf3_resfail

record commit_retok =
  commit_retok_file_wcc :: wcc_data
  commit_retok_verf :: "octet list"

record commit_retfail =
  commit_retfail_file_wcc :: wcc_data

record commit_ret =
  commit_ret_status :: nfs3_stat
  commit_ret_ok :: commit_retok
  commit_ret_fail :: commit_retfail

record commit_args =
  commit_args_file :: nfs_fh3
  commit_args_offset :: "64 word"
  commit_args_count :: "32 word"

record symlinkdata3 =
  symlinkdata3_symlink_attributes :: sattr
  symlinkdata3_symlink_data :: "octet list option"

record symlink_args =
  symlink_args_where :: diropargs3
  symlink_args_symlink :: symlinkdata3

record symlink_retok =
  symlink_retok_obj :: postop_fh
  symlink_retok_obj_attributes :: post_op_attr
  symlink_retok_dir_wcc :: wcc_data

record symlink_retfail =
  symlink_retfail_dir_wcc :: wcc_data

record symlink_res =
  symlink_res_status :: nfs3_stat
  symlink_res_ok :: symlink_retok
  symlink_res_fail :: symlink_retfail

record devicedata3 =
  devicedata3_dev_attributes :: sattr
  devicedata3_spec :: nfs3_specdata

record mknoddata3 =
  mknoddata3_type :: nfs3_ftype
  mknoddata3_device :: devicedata3
  mknoddata3_pipe_attributes :: sattr

record mknod_args =
  mknod_args_where :: diropargs3
  mknod_args_what :: mknoddata3

record mknod_resok =
  mknod_resok_obj :: postop_fh
  mknod_resok_obj_attributes :: post_op_attr
  mknod_resok_dir_wcc :: wcc_data

record mknod_resfail =
  mknod_resfail_dir_wcc :: wcc_data

record mknod_res =
  mknod_res_status :: nfs3_stat
  mknod_res_ok :: mknod_resok
  mknod_res_fail :: mknod_resfail

record readlink_args =
  readlink_args_symlink :: nfs_fh3

record readlink_retok =
  readlink_retok_symlink_attributes :: post_op_attr
  readlink_retok_data :: "octet list option"

record readlink_retfail =
  readlink_retfail_symlink_attributes :: post_op_attr

record readlink_res =
  readlink_res_status :: nfs3_stat
  readlink_res_ok :: readlink_retok
  readlink_res_fail :: readlink_retfail

text \<open>The lists of the mount protocol.\<close>

datatype groupnode =
  GroupNode (groupnode_gr_name: "octet list option") (groupnode_gr_next: "groupnode option")

datatype exportnode =
  ExportNode (exportnode_ex_dir: "octet list option") (exportnode_ex_groups: "groupnode option")
    (exportnode_ex_next: "exportnode option")

datatype mountbody =
  MountBody (mountbody_ml_hostname: "octet list option") (mountbody_ml_directory: "octet list option")
    (mountbody_ml_next: "mountbody option")

primrec groupnode_gr_name_update :: "(octet list option \<Rightarrow> octet list option) \<Rightarrow> groupnode \<Rightarrow> groupnode" where
  "groupnode_gr_name_update f (GroupNode a b) = GroupNode (f a) b"
primrec groupnode_gr_next_update :: "(groupnode option \<Rightarrow> groupnode option) \<Rightarrow> groupnode \<Rightarrow> groupnode" where
  "groupnode_gr_next_update f (GroupNode a b) = GroupNode a (f b)"

lemma groupnode_gr_name_update [simp]:
  "groupnode_gr_name_update (\<lambda>_. groupnode_gr_name v) v = v"
  "groupnode_gr_name (groupnode_gr_name_update h v) = h (groupnode_gr_name v)"
  "groupnode_gr_next (groupnode_gr_name_update h v) = groupnode_gr_next v"
  by (cases v, simp)+

lemma groupnode_gr_next_update [simp]:
  "groupnode_gr_next_update (\<lambda>_. groupnode_gr_next v) v = v"
  "groupnode_gr_name (groupnode_gr_next_update h v) = groupnode_gr_name v"
  "groupnode_gr_next (groupnode_gr_next_update h v) = h (groupnode_gr_next v)"
  by (cases v, simp)+

primrec exportnode_ex_dir_update :: "(octet list option \<Rightarrow> octet list option) \<Rightarrow> exportnode \<Rightarrow> exportnode" where
  "exportnode_ex_dir_update f (ExportNode a b c) = ExportNode (f a) b c"
primrec exportnode_ex_groups_update :: "(groupnode option \<Rightarrow> groupnode option) \<Rightarrow> exportnode \<Rightarrow> exportnode" where
  "exportnode_ex_groups_update f (ExportNode a b c) = ExportNode a (f b) c"
primrec exportnode_ex_next_update :: "(exportnode option \<Rightarrow> exportnode option) \<Rightarrow> exportnode \<Rightarrow> exportnode" where
  "exportnode_ex_next_update f (ExportNode a b c) = ExportNode a b (f c)"

lemma exportnode_ex_dir_update [simp]:
  "exportnode_ex_dir_update (\<lambda>_. exportnode_ex_dir v) v = v"
  "exportnode_ex_dir (exportnode_ex_dir_update h v) = h (exportnode_ex_dir v)"
  "exportnode_ex_groups (exportnode_ex_dir_update h v) = exportnode_ex_groups v"
  "exportnode_ex_next (exportnode_ex_dir_update h v) = exportnode_ex_next v"
  by (cases v, simp)+

lemma exportnode_ex_groups_update [simp]:
  "exportnode_ex_groups_update (\<lambda>_. exportnode_ex_groups v) v = v"
  "exportnode_ex_dir (exportnode_ex_groups_update h v) = exportnode_ex_dir v"
  "exportnode_ex_groups (exportnode_ex_groups_update h v) = h (exportnode_ex_groups v)"
  "exportnode_ex_next (exportnode_ex_groups_update h v) = exportnode_ex_next v"
  by (cases v, simp)+

lemma exportnode_ex_next_update [simp]:
  "exportnode_ex_next_update (\<lambda>_. exportnode_ex_next v) v = v"
  "exportnode_ex_dir (exportnode_ex_next_update h v) = exportnode_ex_dir v"
  "exportnode_ex_groups (exportnode_ex_next_update h v) = exportnode_ex_groups v"
  "exportnode_ex_next (exportnode_ex_next_update h v) = h (exportnode_ex_next v)"
  by (cases v, simp)+

primrec mountbody_ml_hostname_update :: "(octet list option \<Rightarrow> octet list option) \<Rightarrow> mountbody \<Rightarrow> mountbody" where
  "mountbody_ml_hostname_update f (MountBody a b c) = MountBody (f a) b c"
primrec mountbody_ml_directory_update :: "(octet list option \<Rightarrow> octet list option) \<Rightarrow> mountbody \<Rightarrow> mountbody" where
  "mountbody_ml_directory_update f (MountBody a b c) = MountBody a (f b) c"
primrec mountbody_ml_next_update :: "(mountbody option \<Rightarrow> mountbody option) \<Rightarrow> mountbody \<Rightarrow> mountbody" where
  "mountbody_ml_next_update f (MountBody a b c) = MountBody a b (f c)"

lemma mountbody_ml_hostname_update [simp]:
  "mountbody_ml_hostname_update (\<lambda>_. mountbody_ml_hostname v) v = v"
  "mountbody_ml_hostname (mountbody_ml_hostname_update h v) = h (mountbody_ml_hostname v)"
  "mountbody_ml_directory (mountbody_ml_hostname_update h v) = mountbody_ml_directory v"
  "mountbody_ml_next (mountbody_ml_hostname_update h v) = mountbody_ml_next v"
  by (cases v, simp)+

lemma mountbody_ml_directory_update [simp]:
  "mountbody_ml_directory_update (\<lambda>_. mountbody_ml_directory v) v = v"
  "mountbody_ml_hostname (mountbody_ml_directory_update h v) = mountbody_ml_hostname v"
  "mountbody_ml_directory (mountbody_ml_directory_update h v) = h (mountbody_ml_directory v)"
  "mountbody_ml_next (mountbody_ml_directory_update h v) = mountbody_ml_next v"
  by (cases v, simp)+

lemma mountbody_ml_next_update [simp]:
  "mountbody_ml_next_update (\<lambda>_. mountbody_ml_next v) v = v"
  "mountbody_ml_hostname (mountbody_ml_next_update h v) = mountbody_ml_hostname v"
  "mountbody_ml_directory (mountbody_ml_next_update h v) = mountbody_ml_directory v"
  "mountbody_ml_next (mountbody_ml_next_update h v) = h (mountbody_ml_next v)"
  by (cases v, simp)+

record fhandle =
  fhandle_len :: "32 word"
  fhandle_val :: "octet list option"

record mount_retok =
  mount_retok_fhandle :: fhandle
  mount_retok_auth_flavors_len :: "32 word"
  mount_retok_auth_flavors_val :: "32 word list option"

record mount_ret =
  mount_ret_fhs_status :: mount_stat
  mount_ret_mountinfo :: mount_retok

end
