(* ===== verification/NfsXdr.thy ===== *)
theory NfsXdr
  imports NfsTypes
begin

text \<open>
  The functions of \<^verbatim>\<open>src/sdfs/nfs/xdr_nfs.c\<close>, one for every structure of the NFS protocol, in the order of
  the code. The lists of a directory and of the mount protocol are taken apart by functions that call
  themselves; the one that would not return is \<open>None\<close>.
\<close>

unbundle bit_operations_syntax

section \<open>Functions that call themselves\<close>

lemma mono_optionI:
  "(\<And>f g. fun_ord option_ord f g \<Longrightarrow> F f = None \<or> F f = F g) \<Longrightarrow> mono_option F"
  by (simp add: monotone_def flat_ord_def)

lemma mono_optionD:
  "mono_option F \<Longrightarrow> fun_ord option_ord f g \<Longrightarrow> F f = None \<or> F f = F g"
  by (auto simp: monotone_def flat_ord_def)

lemma mono_on_true [partial_function_mono]:
  assumes "mono_option r" "\<And>v w. mono_option (\<lambda>f. k f v w)"
  shows "mono_option (\<lambda>f. on_true (r f) (k f))"
proof (rule mono_optionI, goal_cases)
  case le: (1 f g)
  show ?case
  proof (cases "r f")
    case (Some x)
    then have "r g = Some x" using mono_optionD [OF assms(1) le] by auto
    then show ?thesis
      using Some mono_optionD [OF assms(2) le] by (cases x) (simp add: on_true_def)
  qed (simp add: on_true_def)
qed

lemma mono_field [partial_function_mono]:
  assumes "\<And>op x w. mono_option (\<lambda>f. c f op x w)"
  shows "mono_option (\<lambda>f. field get upd (c f) op v w)"
proof (rule mono_optionI, goal_cases)
  case le: (1 f g)
  show ?case
    using mono_optionD [OF assms le, of op "get v" w] by (auto simp: field_def)
qed

lemma mono_or_false [partial_function_mono]:
  assumes "\<And>op x w. mono_option (\<lambda>f. c f op x w)"
  shows "mono_option (\<lambda>f. or_false (c f) op v w)"
proof (rule mono_optionI, goal_cases)
  case le: (1 f g)
  show ?case
    using mono_optionD [OF assms le, of op v w] by (auto simp: or_false_def)
qed

lemma mono_each_of [partial_function_mono]:
  assumes "\<And>op x w. mono_option (\<lambda>f. c f op x w)" "\<And>op x w. mono_option (\<lambda>f. each_of (cs f) op x w)"
  shows "mono_option (\<lambda>f. each_of (c f # cs f) op v w)"
  by (simp only: each_of.simps) (rule mono_on_true assms)+

lemma mono_all_of [partial_function_mono]:
  assumes "\<And>op x w. mono_option (\<lambda>f. each_of (cs f) op x w)"
  shows "mono_option (\<lambda>f. all_of (cs f) op v w)"
  unfolding all_of_def by (rule mono_or_false) (rule assms)

lemma mono_pointer [partial_function_mono]:
  assumes "\<And>op x w. mono_option (\<lambda>f. c f op x w)"
  shows "mono_option (\<lambda>f. xdr_pointer blank (c f) op p w)"
proof (rule mono_optionI, goal_cases)
  case le: (1 f g)
  have c: "c f op x w = None \<or> c f op x w = c g op x w" for op x w
    by (rule mono_optionD [OF assms le])
  have ref: "xdr_reference blank (c f) op p w = None \<or> xdr_reference blank (c f) op p w = xdr_reference blank (c g) op p w" for op p w
  proof (cases p)
    case (Some x)
    then show ?thesis using c [of op x w] by (auto simp: xdr_reference_def)
  next
    case None
    then show ?thesis
      using c [of op blank "snd (ymalloc w)"] by (cases op) (auto simp: xdr_reference_def split_def Let_def)
  qed
  show ?case
  proof (cases "xdr_bool op (if p \<noteq> None then 1 else 0) w")
    case (Some x)
    then show ?thesis using ref [of op p "snd (snd x)"] by (cases x) (auto simp: xdr_pointer_def)
  qed (simp add: xdr_pointer_def)
qed

section \<open>The identity of a file\<close>

text \<open>A number in memory, the low byte first, and where the fields of \<^verbatim>\<open>chkid_t\<close> are.\<close>

fun of_le :: "octet list \<Rightarrow> 64 word" where
  "of_le [] = 0"
| "of_le (b # bs) = ucast b OR push_bit 8 (of_le bs)"

definition le_at :: "nat \<Rightarrow> nat \<Rightarrow> octet list \<Rightarrow> 64 word option" where
  "le_at k n d = (if k + n \<le> length d then Some (of_le (take n (drop k d))) else None)"

definition chkid_id :: "octet list \<Rightarrow> 64 word option" where "chkid_id = le_at 0 8"
definition chkid_volid :: "octet list \<Rightarrow> 64 word option" where "chkid_volid = le_at 8 8"
definition chkid_idx :: "octet list \<Rightarrow> 64 word option" where "chkid_idx = le_at 16 4"

section \<open>Mounting\<close>

definition xdr_dirpath :: "octet list option xdr" where
  "xdr_dirpath = or_false (xdr_string MNTPATH_LEN)"

definition xdr_mountstat :: "mount_stat xdr" where
  "xdr_mountstat = or_false xdr_enum"

definition xdr_fhandle :: "fhandle xdr" where
  "xdr_fhandle = all_of
       [field2 fhandle_val fhandle_val_update fhandle_len fhandle_len_update (xdr_bytes FH_SIZE)]"

definition xdr_mountretok :: "mount_retok xdr" where
  "xdr_mountretok = all_of
       [field mount_retok_fhandle mount_retok_fhandle_update xdr_fhandle,
        field2 mount_retok_auth_flavors_val mount_retok_auth_flavors_val_update mount_retok_auth_flavors_len mount_retok_auth_flavors_len_update (xdr_array (- 1) 4 xdr_int)]"

definition xdr_mountret :: "mount_ret xdr" where
  "xdr_mountret =
     or_false (tagged mount_ret_fhs_status mount_ret_fhs_status_update xdr_mountstat (\<lambda>t.
       if t = MNT_OK then field mount_ret_mountinfo mount_ret_mountinfo_update xdr_mountretok
       else skip_xdr))"

section \<open>Handles and attributes\<close>

text \<open>The identity is looked at before its length is.\<close>

definition xdr_nfs_fh3 :: "nfs_fh3 xdr" where
  "xdr_nfs_fh3 op fh w =
     on_true (field2 nfs_fh3_val nfs_fh3_val_update nfs_fh3_len nfs_fh3_len_update (xdr_bytes NFS3_FHSIZE) op fh w)
       (\<lambda>fh w.
          if op = XDR_FREE then Some (XDR_TRUE, fh, w)
          else do {
            fileid \<leftarrow> nfs_fh3_val fh;
            idx \<leftarrow> chkid_idx fileid;
            asserts (idx = 0);
            i \<leftarrow> chkid_id fileid;
            volid \<leftarrow> chkid_volid fileid;
            Some (if i = 0 \<or> volid = 0 \<or> nfs_fh3_len fh \<noteq> 24 then XDR_ERR EINVAL else XDR_TRUE, fh, w)
          })"

definition xdr_getattrargs :: "getattr_args xdr" where
  "xdr_getattrargs = all_of
       [field getattr_args_obj getattr_args_obj_update xdr_nfs_fh3]"

definition xdr_nfs3_stat :: "nfs3_stat xdr" where
  "xdr_nfs3_stat = or_false xdr_enum"

definition xdr_ftype :: "nfs3_ftype xdr" where
  "xdr_ftype = or_false xdr_enum"

definition xdr_mode :: "32 word xdr" where
  "xdr_mode = or_false xdr_uint32"

definition xdr_specdata :: "nfs3_specdata xdr" where
  "xdr_specdata = all_of
       [field nfs3_specdata_data1 nfs3_specdata_data1_update xdr_uint32,
        field nfs3_specdata_data2 nfs3_specdata_data2_update xdr_uint32]"

definition xdr_time :: "nfs3_time xdr" where
  "xdr_time = all_of
       [field nfs3_time_seconds nfs3_time_seconds_update xdr_uint32,
        field nfs3_time_nseconds nfs3_time_nseconds_update xdr_uint32]"

definition xdr_fattr :: "nfs3_fattr xdr" where
  "xdr_fattr = all_of
       [field nfs3_fattr_type nfs3_fattr_type_update xdr_ftype,
        field nfs3_fattr_mode nfs3_fattr_mode_update xdr_mode,
        field nfs3_fattr_nlink nfs3_fattr_nlink_update xdr_uint32,
        field nfs3_fattr_uid nfs3_fattr_uid_update xdr_uint32,
        field nfs3_fattr_gid nfs3_fattr_gid_update xdr_uint32,
        field nfs3_fattr_size nfs3_fattr_size_update xdr_uint64,
        field nfs3_fattr_used nfs3_fattr_used_update xdr_uint64,
        field nfs3_fattr_rdev nfs3_fattr_rdev_update xdr_specdata,
        field nfs3_fattr_fsid nfs3_fattr_fsid_update xdr_uint64,
        field nfs3_fattr_fileid nfs3_fattr_fileid_update xdr_uint64,
        field nfs3_fattr_atime nfs3_fattr_atime_update xdr_time,
        field nfs3_fattr_mtime nfs3_fattr_mtime_update xdr_time,
        field nfs3_fattr_ctime nfs3_fattr_ctime_update xdr_time]"

definition xdr_getattrretok :: "nfs3_fattr xdr" where
  "xdr_getattrretok = all_of
       [xdr_fattr]"

definition xdr_getattrret :: "getattr_ret xdr" where
  "xdr_getattrret =
     or_false (tagged getattr_ret_status getattr_ret_status_update xdr_nfs3_stat (\<lambda>t.
       if t = NFS3_OK then field getattr_ret_attr getattr_ret_attr_update xdr_getattrretok
       else skip_xdr))"

section \<open>Looking up, reading and writing\<close>

definition xdr_name :: "octet list option xdr" where
  "xdr_name = or_false (xdr_string (- 1))"

definition xdr_nfspath3 :: "octet list option xdr" where
  "xdr_nfspath3 = or_false (xdr_string (- 1))"

definition xdr_diropargs :: "diropargs3 xdr" where
  "xdr_diropargs = all_of
       [field diropargs3_dir diropargs3_dir_update xdr_nfs_fh3,
        field diropargs3_name diropargs3_name_update xdr_name]"

definition xdr_lookupargs :: "diropargs3 xdr" where
  "xdr_lookupargs = all_of
       [xdr_diropargs]"

definition xdr_post_op_attr :: "post_op_attr xdr" where
  "xdr_post_op_attr =
     tagged post_op_attr_attr_follow post_op_attr_attr_follow_update xdr_bool (\<lambda>t.
       if t = 1 then field post_op_attr_attr post_op_attr_attr_update xdr_fattr
       else if t = 0 then skip_xdr
       else fail_xdr (XDR_ERR EINVAL))"

definition xdr_lookupretfail :: "lookup_retfail xdr" where
  "xdr_lookupretfail = field lookup_retfail_dir_attr lookup_retfail_dir_attr_update xdr_post_op_attr"

definition xdr_lookupretok :: "lookup_retok xdr" where
  "xdr_lookupretok = all_of
       [field lookup_retok_obj lookup_retok_obj_update xdr_nfs_fh3,
        field lookup_retok_obj_attr lookup_retok_obj_attr_update xdr_post_op_attr,
        field lookup_retok_dir_attr lookup_retok_dir_attr_update xdr_post_op_attr]"

definition xdr_lookupret :: "lookup_ret xdr" where
  "xdr_lookupret =
     tagged lookup_ret_status lookup_ret_status_update xdr_nfs3_stat (\<lambda>t.
       if t = NFS3_OK then field lookup_ret_ok lookup_ret_ok_update xdr_lookupretok
       else field lookup_ret_fail lookup_ret_fail_update xdr_lookupretfail)"

definition xdr_accessargs :: "access_args xdr" where
  "xdr_accessargs = all_of
       [field access_args_obj access_args_obj_update xdr_nfs_fh3,
        field access_args_access access_args_access_update xdr_uint32]"

definition xdr_accessretok :: "access_retok xdr" where
  "xdr_accessretok = all_of
       [field access_retok_obj_attr access_retok_obj_attr_update xdr_post_op_attr,
        field access_retok_access access_retok_access_update xdr_uint32]"

definition xdr_accessretfail :: "access_retfail xdr" where
  "xdr_accessretfail = all_of
       [field access_retfail_obj_attr access_retfail_obj_attr_update xdr_post_op_attr]"

definition xdr_accessret :: "access_ret xdr" where
  "xdr_accessret =
     or_false (tagged access_ret_status access_ret_status_update xdr_nfs3_stat (\<lambda>t.
       if t = NFS3_OK then field access_ret_ok access_ret_ok_update xdr_accessretok
       else field access_ret_fail access_ret_fail_update xdr_accessretfail))"

definition xdr_readargs :: "read_args xdr" where
  "xdr_readargs = all_of
       [field read_args_file read_args_file_update xdr_nfs_fh3,
        field read_args_offset read_args_offset_update xdr_uint64,
        field read_args_count read_args_count_update xdr_uint32]"

definition xdr_readretok :: "read_retok xdr" where
  "xdr_readretok = all_of
       [field read_retok_attr read_retok_attr_update xdr_post_op_attr,
        field read_retok_count read_retok_count_update xdr_uint32,
        field read_retok_eof read_retok_eof_update xdr_bool,
        field2 read_retok_data_val read_retok_data_val_update read_retok_data_len read_retok_data_len_update (xdr_buffer (- 1))]"

definition xdr_readretfail :: "read_retfail xdr" where
  "xdr_readretfail = all_of
       [field read_retfail_attr read_retfail_attr_update xdr_post_op_attr]"

definition xdr_readret :: "read_ret xdr" where
  "xdr_readret =
     or_false (tagged read_ret_status read_ret_status_update xdr_nfs3_stat (\<lambda>t.
       if t = NFS3_OK then field read_ret_ok read_ret_ok_update xdr_readretok
       else field read_ret_fail read_ret_fail_update xdr_readretfail))"

definition xdr_stablehow :: "stable_how xdr" where
  "xdr_stablehow = or_false xdr_enum"

definition xdr_writeargs :: "write_args xdr" where
  "xdr_writeargs = all_of
       [field write_args_file write_args_file_update xdr_nfs_fh3,
        field write_args_offset write_args_offset_update xdr_uint64,
        field write_args_count write_args_count_update xdr_uint32,
        field write_args_stable write_args_stable_update xdr_stablehow,
        field2 write_args_data_val write_args_data_val_update write_args_data_len write_args_data_len_update (xdr_buffer (- 1))]"

definition xdr_wcc_attr :: "wcc_attr xdr" where
  "xdr_wcc_attr = all_of
       [field wcc_attr_size wcc_attr_size_update xdr_uint64,
        field wcc_attr_mtime wcc_attr_mtime_update xdr_time,
        field wcc_attr_ctime wcc_attr_ctime_update xdr_time]"

definition xdr_preop_attr :: "preop_attr xdr" where
  "xdr_preop_attr =
     or_false (tagged preop_attr_attr_follow preop_attr_attr_follow_update xdr_bool (\<lambda>t.
       if t = 1 then field preop_attr_attr preop_attr_attr_update xdr_wcc_attr
       else if t = 0 then skip_xdr
       else fail_xdr XDR_FALSE))"

definition xdr_wccdata :: "wcc_data xdr" where
  "xdr_wccdata = all_of
       [field wcc_data_before wcc_data_before_update xdr_preop_attr,
        field wcc_data_after wcc_data_after_update xdr_post_op_attr]"

definition xdr_writeverf :: "octet list xdr" where
  "xdr_writeverf = or_false (xdr_opaque NFS3_WRITEVERFSIZE)"

definition xdr_writeretok :: "write_retok xdr" where
  "xdr_writeretok = all_of
       [field write_retok_file_wcc write_retok_file_wcc_update xdr_wccdata,
        field write_retok_count write_retok_count_update xdr_uint32,
        field write_retok_committed write_retok_committed_update xdr_stablehow,
        field write_retok_verf write_retok_verf_update xdr_writeverf]"

definition xdr_writeretfail :: "write_retfail xdr" where
  "xdr_writeretfail = all_of
       [field write_retfail_file_wcc write_retfail_file_wcc_update xdr_wccdata]"

definition xdr_writeret :: "write_ret xdr" where
  "xdr_writeret =
     or_false (tagged write_ret_status write_ret_status_update xdr_nfs3_stat (\<lambda>t.
       if t = NFS3_OK then field write_ret_ok write_ret_ok_update xdr_writeretok
       else field write_ret_fail write_ret_fail_update xdr_writeretfail))"

section \<open>Creating\<close>

definition xdr_createmode :: "create_mode xdr" where
  "xdr_createmode = or_false xdr_enum"

definition xdr_set_mode :: "set_mode xdr" where
  "xdr_set_mode =
     or_false (tagged set_mode_set_it set_mode_set_it_update xdr_bool (\<lambda>t.
       if t = 1 then field set_mode_mode set_mode_mode_update xdr_uint32
       else skip_xdr))"

definition xdr_set_uid :: "set_uid xdr" where
  "xdr_set_uid =
     or_false (tagged set_uid_set_it set_uid_set_it_update xdr_bool (\<lambda>t.
       if t = 1 then field set_uid_uid set_uid_uid_update xdr_uint32
       else skip_xdr))"

definition xdr_set_gid :: "set_gid xdr" where
  "xdr_set_gid =
     or_false (tagged set_gid_set_it set_gid_set_it_update xdr_bool (\<lambda>t.
       if t = 1 then field set_gid_gid set_gid_gid_update xdr_uint32
       else skip_xdr))"

definition xdr_set_size :: "set_size xdr" where
  "xdr_set_size =
     or_false (tagged set_size_set_it set_size_set_it_update xdr_bool (\<lambda>t.
       if t = 1 then field set_size_size set_size_size_update xdr_uint64
       else skip_xdr))"

definition xdr_time_how :: "time_how xdr" where
  "xdr_time_how = or_false xdr_enum"

definition xdr_set_time :: "set_time xdr" where
  "xdr_set_time =
     or_false (tagged set_time_set_it set_time_set_it_update xdr_time_how (\<lambda>t.
       if t = SET_TO_CLIENT_TIME then field set_time_time set_time_time_update xdr_time
       else skip_xdr))"

definition xdr_sattr :: "sattr xdr" where
  "xdr_sattr = all_of
       [field sattr_mode sattr_mode_update xdr_set_mode,
        field sattr_uid sattr_uid_update xdr_set_uid,
        field sattr_gid sattr_gid_update xdr_set_gid,
        field sattr_size sattr_size_update xdr_set_size,
        field sattr_atime sattr_atime_update xdr_set_time,
        field sattr_mtime sattr_mtime_update xdr_set_time]"

definition xdr_createverf :: "octet list xdr" where
  "xdr_createverf = or_false (xdr_opaque NFS3_CREATEVERFSIZE)"

definition xdr_createhow :: "create_how xdr" where
  "xdr_createhow =
     or_false (tagged create_how_mode create_how_mode_update xdr_createmode (\<lambda>t.
       if t = UNCHECKED \<or> t = GUARDED then field create_how_attr create_how_attr_update xdr_sattr
       else if t = EXCLUSIVE then field create_how_verf create_how_verf_update xdr_createverf
       else fail_xdr XDR_FALSE))"

definition xdr_createargs :: "create_args xdr" where
  "xdr_createargs = all_of
       [field create_args_where create_args_where_update xdr_diropargs,
        field create_args_how create_args_how_update xdr_createhow]"

definition xdr_postop_fh :: "postop_fh xdr" where
  "xdr_postop_fh =
     or_false (tagged postop_fh_handle_follows postop_fh_handle_follows_update xdr_bool (\<lambda>t.
       if t = 1 then field postop_fh_handle postop_fh_handle_update xdr_nfs_fh3
       else if t = 0 then skip_xdr
       else fail_xdr XDR_FALSE))"

definition xdr_createretok :: "create_retok xdr" where
  "xdr_createretok = all_of
       [field create_retok_obj create_retok_obj_update xdr_postop_fh,
        field create_retok_obj_attr create_retok_obj_attr_update xdr_post_op_attr,
        field create_retok_dir_wcc create_retok_dir_wcc_update xdr_wccdata]"

definition xdr_createretfail :: "create_retfail xdr" where
  "xdr_createretfail = all_of
       [field create_retfail_dir_wcc create_retfail_dir_wcc_update xdr_wccdata]"

definition xdr_createret :: "create_ret xdr" where
  "xdr_createret =
     or_false (tagged create_ret_status create_ret_status_update xdr_nfs3_stat (\<lambda>t.
       if t = NFS3_OK then field create_ret_ok create_ret_ok_update xdr_createretok
       else field create_ret_fail create_ret_fail_update xdr_createretfail))"

definition xdr_mkdirargs :: "mkdir_args xdr" where
  "xdr_mkdirargs = all_of
       [field mkdir_args_where mkdir_args_where_update xdr_diropargs,
        field mkdir_args_attr mkdir_args_attr_update xdr_sattr]"

definition xdr_mkdirretok :: "mkdir_retok xdr" where
  "xdr_mkdirretok = all_of
       [field mkdir_retok_obj mkdir_retok_obj_update xdr_postop_fh,
        field mkdir_retok_obj_attr mkdir_retok_obj_attr_update xdr_post_op_attr,
        field mkdir_retok_dir_wcc mkdir_retok_dir_wcc_update xdr_wccdata]"

definition xdr_mkdirretfail :: "mkdir_retfail xdr" where
  "xdr_mkdirretfail = all_of
       [field mkdir_retfail_dir_wcc mkdir_retfail_dir_wcc_update xdr_wccdata]"

definition xdr_mkdirret :: "mkdir_ret xdr" where
  "xdr_mkdirret =
     or_false (tagged mkdir_ret_status mkdir_ret_status_update xdr_nfs3_stat (\<lambda>t.
       if t = NFS3_OK then field mkdir_ret_ok mkdir_ret_ok_update xdr_mkdirretok
       else field mkdir_ret_fail mkdir_ret_fail_update xdr_mkdirretfail))"

section \<open>Removing, linking and renaming\<close>

definition xdr_removeargs :: "remove_args xdr" where
  "xdr_removeargs = all_of
       [field remove_args_obj remove_args_obj_update xdr_diropargs]"

definition xdr_removeret :: "remove_ret xdr" where
  "xdr_removeret = all_of
       [field remove_ret_status remove_ret_status_update xdr_nfs3_stat,
        field remove_ret_dir_wcc remove_ret_dir_wcc_update xdr_wccdata]"

definition xdr_LINK3args :: "LINK3args xdr" where
  "xdr_LINK3args = each_of
       [field LINK3args_file LINK3args_file_update xdr_nfs_fh3,
        field LINK3args_link LINK3args_link_update xdr_diropargs]"

definition xdr_LINK3resok :: "LINK3resok xdr" where
  "xdr_LINK3resok = each_of
       [field LINK3resok_file_attributes LINK3resok_file_attributes_update xdr_post_op_attr,
        field LINK3resok_linkdir_wcc LINK3resok_linkdir_wcc_update xdr_wccdata]"

definition xdr_LINK3resfail :: "LINK3resfail xdr" where
  "xdr_LINK3resfail = each_of
       [field LINK3resfail_file_attributes LINK3resfail_file_attributes_update xdr_post_op_attr,
        field LINK3resfail_linkdir_wcc LINK3resfail_linkdir_wcc_update xdr_wccdata]"

definition xdr_linkret :: "LINK3res xdr" where
  "xdr_linkret =
     or_false (tagged LINK3res_status LINK3res_status_update xdr_nfs3_stat (\<lambda>t.
       if t = NFS3_OK then field LINK3res_ok LINK3res_ok_update xdr_LINK3resok
       else field LINK3res_fail LINK3res_fail_update xdr_LINK3resfail))"

definition xdr_renameargs :: "rename_args xdr" where
  "xdr_renameargs = all_of
       [field rename_args_from rename_args_from_update xdr_diropargs,
        field rename_args_to rename_args_to_update xdr_diropargs]"

definition xdr_renameretok :: "rename_retok xdr" where
  "xdr_renameretok = all_of
       [field rename_retok_from rename_retok_from_update xdr_wccdata,
        field rename_retok_to rename_retok_to_update xdr_wccdata]"

definition xdr_renameretfail :: "rename_retfail xdr" where
  "xdr_renameretfail = all_of
       [field rename_retfail_from rename_retfail_from_update xdr_wccdata,
        field rename_retfail_to rename_retfail_to_update xdr_wccdata]"

definition xdr_renameret :: "rename_ret xdr" where
  "xdr_renameret =
     or_false (tagged rename_ret_status rename_ret_status_update xdr_nfs3_stat (\<lambda>t.
       if t = NFS3_OK then field rename_ret_ok rename_ret_ok_update xdr_renameretok
       else field rename_ret_fail rename_ret_fail_update xdr_renameretfail))"

definition xdr_rmdirargs :: "remove_args xdr" where
  "xdr_rmdirargs = all_of
       [field remove_args_obj remove_args_obj_update xdr_diropargs]"

definition xdr_rmdirret :: "remove_ret xdr" where
  "xdr_rmdirret = all_of
       [field remove_ret_status remove_ret_status_update xdr_nfs3_stat,
        field remove_ret_dir_wcc remove_ret_dir_wcc_update xdr_wccdata]"

section \<open>Directories\<close>

definition xdr_cookieverf :: "octet list xdr" where
  "xdr_cookieverf = or_false (xdr_opaque NFS3_COOKIEVERFSIZE)"

definition xdr_readdirargs :: "readdir_args xdr" where
  "xdr_readdirargs = all_of
       [field readdir_args_dir readdir_args_dir_update xdr_nfs_fh3,
        field readdir_args_cookie readdir_args_cookie_update xdr_uint64,
        field readdir_args_cookieverf readdir_args_cookieverf_update xdr_cookieverf,
        field readdir_args_count readdir_args_count_update xdr_uint32]"

definition blank_entry :: dir_entry where "blank_entry = Entry 0 None 0 None"

partial_function (option) xdr_entry :: "xdr_op \<Rightarrow> dir_entry \<Rightarrow> world \<Rightarrow> (xdr_ret \<times> dir_entry \<times> world) option" where
  "xdr_entry op v w =
     all_of
       [field entry_fileid entry_fileid_update xdr_uint64,
        field entry_name entry_name_update xdr_name,
        field entry_cookie entry_cookie_update xdr_uint64,
        field entry_next entry_next_update (xdr_pointer blank_entry xdr_entry)] op v w"

definition xdr_dirlist :: "dirlist xdr" where
  "xdr_dirlist = all_of
       [field dirlist_entries dirlist_entries_update ((xdr_pointer blank_entry xdr_entry)),
        field dirlist_eof dirlist_eof_update xdr_bool]"

definition xdr_readdirretok :: "readdir_retok xdr" where
  "xdr_readdirretok = all_of
       [field readdir_retok_dir_attr readdir_retok_dir_attr_update xdr_post_op_attr,
        field readdir_retok_cookieverf readdir_retok_cookieverf_update xdr_cookieverf,
        field readdir_retok_reply readdir_retok_reply_update xdr_dirlist]"

definition xdr_readdirretfail :: "readdir_retfail xdr" where
  "xdr_readdirretfail = all_of
       [field readdir_retfail_dir_attr readdir_retfail_dir_attr_update xdr_post_op_attr]"

definition xdr_readdirret :: "readdir_ret xdr" where
  "xdr_readdirret =
     or_false (tagged readdir_ret_status readdir_ret_status_update xdr_nfs3_stat (\<lambda>t.
       if t = NFS3_OK then field readdir_ret_ok readdir_ret_ok_update xdr_readdirretok
       else field readdir_ret_fail readdir_ret_fail_update xdr_readdirretfail))"

definition xdr_readdirplusargs :: "readdirplus_args xdr" where
  "xdr_readdirplusargs = all_of
       [field readdirplus_args_dir readdirplus_args_dir_update xdr_nfs_fh3,
        field readdirplus_args_cookie readdirplus_args_cookie_update xdr_uint64,
        field readdirplus_args_cookieverf readdirplus_args_cookieverf_update xdr_cookieverf,
        field readdirplus_args_dircount readdirplus_args_dircount_update xdr_uint32,
        field readdirplus_args_maxcount readdirplus_args_maxcount_update xdr_uint32]"

definition blank_time :: nfs3_time where
  "blank_time = \<lparr>nfs3_time_seconds = 0, nfs3_time_nseconds = 0\<rparr>"

definition blank_fattr :: nfs3_fattr where
  "blank_fattr =
     \<lparr>nfs3_fattr_type = 0, nfs3_fattr_mode = 0, nfs3_fattr_nlink = 0, nfs3_fattr_uid = 0, nfs3_fattr_gid = 0,
      nfs3_fattr_size = 0, nfs3_fattr_used = 0,
      nfs3_fattr_rdev = \<lparr>nfs3_specdata_data1 = 0, nfs3_specdata_data2 = 0\<rparr>,
      nfs3_fattr_fsid = 0, nfs3_fattr_fileid = 0,
      nfs3_fattr_atime = blank_time, nfs3_fattr_mtime = blank_time, nfs3_fattr_ctime = blank_time\<rparr>"

definition blank_entryplus :: dir_entryplus where
  "blank_entryplus =
     EntryPlus 0 None 0 \<lparr>post_op_attr_attr_follow = 0, post_op_attr_attr = blank_fattr\<rparr>
       \<lparr>postop_fh_handle_follows = 0, postop_fh_handle = \<lparr>nfs_fh3_len = 0, nfs_fh3_val = None\<rparr>\<rparr> None"

partial_function (option) xdr_entryplus ::
    "xdr_op \<Rightarrow> dir_entryplus \<Rightarrow> world \<Rightarrow> (xdr_ret \<times> dir_entryplus \<times> world) option" where
  "xdr_entryplus op v w =
     all_of
       [field entryplus_fileid entryplus_fileid_update xdr_uint64,
        field entryplus_name entryplus_name_update xdr_name,
        field entryplus_cookie entryplus_cookie_update xdr_uint64,
        field entryplus_attr entryplus_attr_update xdr_post_op_attr,
        field entryplus_fh entryplus_fh_update xdr_postop_fh,
        field entryplus_next entryplus_next_update (xdr_pointer blank_entryplus xdr_entryplus)] op v w"

definition xdr_dirlistplus :: "dirlistplus xdr" where
  "xdr_dirlistplus = all_of
       [field dirlistplus_entries dirlistplus_entries_update ((xdr_pointer blank_entryplus xdr_entryplus)),
        field dirlistplus_eof dirlistplus_eof_update xdr_bool]"

definition xdr_readdirplusretok :: "readdirplus_retok xdr" where
  "xdr_readdirplusretok = all_of
       [field readdirplus_retok_dir_attr readdirplus_retok_dir_attr_update xdr_post_op_attr,
        field readdirplus_retok_cookieverf readdirplus_retok_cookieverf_update xdr_cookieverf,
        field readdirplus_retok_reply readdirplus_retok_reply_update xdr_dirlistplus]"

definition xdr_readdirplusretfail :: "readdirplus_retfail xdr" where
  "xdr_readdirplusretfail = all_of
       [field readdirplus_retfail_dir_attr readdirplus_retfail_dir_attr_update xdr_post_op_attr]"

definition xdr_readdirplusret :: "readdirplus_ret xdr" where
  "xdr_readdirplusret =
     or_false (tagged readdirplus_ret_status readdirplus_ret_status_update xdr_nfs3_stat (\<lambda>t.
       if t = NFS3_OK then field readdirplus_ret_ok readdirplus_ret_ok_update xdr_readdirplusretok
       else field readdirplus_ret_fail readdirplus_ret_fail_update xdr_readdirplusretfail))"

section \<open>File systems\<close>

definition xdr_fsstatargs :: "fsstat_args xdr" where
  "xdr_fsstatargs = all_of
       [field fsstat_args_fsroot fsstat_args_fsroot_update xdr_nfs_fh3]"

definition xdr_fsstatretok :: "fsstat_retok xdr" where
  "xdr_fsstatretok = all_of
       [field fsstat_retok_attr fsstat_retok_attr_update xdr_post_op_attr,
        field fsstat_retok_tbytes fsstat_retok_tbytes_update xdr_uint64,
        field fsstat_retok_fbytes fsstat_retok_fbytes_update xdr_uint64,
        field fsstat_retok_abytes fsstat_retok_abytes_update xdr_uint64,
        field fsstat_retok_tfiles fsstat_retok_tfiles_update xdr_uint64,
        field fsstat_retok_ffiles fsstat_retok_ffiles_update xdr_uint64,
        field fsstat_retok_afiles fsstat_retok_afiles_update xdr_uint64,
        field fsstat_retok_invarsec fsstat_retok_invarsec_update xdr_uint32]"

definition xdr_fsstatretfail :: "fsstat_retfail xdr" where
  "xdr_fsstatretfail = all_of
       [field fsstat_retfail_attr fsstat_retfail_attr_update xdr_post_op_attr]"

definition xdr_fsstatret :: "fsstat_ret xdr" where
  "xdr_fsstatret =
     or_false (tagged fsstat_ret_status fsstat_ret_status_update xdr_nfs3_stat (\<lambda>t.
       if t = NFS3_OK then field fsstat_ret_ok fsstat_ret_ok_update xdr_fsstatretok
       else field fsstat_ret_fail fsstat_ret_fail_update xdr_fsstatretfail))"

definition xdr_fsinfoargs :: "fsinfo_args xdr" where
  "xdr_fsinfoargs = all_of
       [field fsinfo_args_fsroot fsinfo_args_fsroot_update xdr_nfs_fh3]"

definition xdr_fsinforetok :: "fsinfo_retok xdr" where
  "xdr_fsinforetok = all_of
       [field fsinfo_retok_obj_attr fsinfo_retok_obj_attr_update xdr_post_op_attr,
        field fsinfo_retok_rtmax fsinfo_retok_rtmax_update xdr_uint32,
        field fsinfo_retok_rtpref fsinfo_retok_rtpref_update xdr_uint32,
        field fsinfo_retok_rtmult fsinfo_retok_rtmult_update xdr_uint32,
        field fsinfo_retok_wtmax fsinfo_retok_wtmax_update xdr_uint32,
        field fsinfo_retok_wtpref fsinfo_retok_wtpref_update xdr_uint32,
        field fsinfo_retok_wtmult fsinfo_retok_wtmult_update xdr_uint32,
        field fsinfo_retok_dtpref fsinfo_retok_dtpref_update xdr_uint32,
        field fsinfo_retok_maxfilesize fsinfo_retok_maxfilesize_update xdr_uint64,
        field fsinfo_retok_time_delta fsinfo_retok_time_delta_update xdr_time,
        field fsinfo_retok_properties fsinfo_retok_properties_update xdr_uint32]"

definition xdr_fsinforetfail :: "fsinfo_retfail xdr" where
  "xdr_fsinforetfail = all_of
       [field fsinfo_retfail_obj_attr fsinfo_retfail_obj_attr_update xdr_post_op_attr]"

definition xdr_fsinforet :: "fsinfo_ret xdr" where
  "xdr_fsinforet =
     or_false (tagged fsinfo_ret_status fsinfo_ret_status_update xdr_nfs3_stat (\<lambda>t.
       if t = NFS3_OK then field fsinfo_ret_ok fsinfo_ret_ok_update xdr_fsinforetok
       else field fsinfo_ret_fail fsinfo_ret_fail_update xdr_fsinforetfail))"

definition xdr_pathconf3_args :: "pathconf3_args xdr" where
  "xdr_pathconf3_args = all_of
       [field pathconf3_args_object pathconf3_args_object_update xdr_nfs_fh3]"

definition xdr_pathconf3_retok :: "pathconf3_resok xdr" where
  "xdr_pathconf3_retok = all_of
       [field pathconf3_resok_obj_attributes pathconf3_resok_obj_attributes_update xdr_post_op_attr,
        field pathconf3_resok_linkmax pathconf3_resok_linkmax_update xdr_uint32,
        field pathconf3_resok_name_max pathconf3_resok_name_max_update xdr_uint32,
        field pathconf3_resok_no_trunc pathconf3_resok_no_trunc_update xdr_bool,
        field pathconf3_resok_chown_restricted pathconf3_resok_chown_restricted_update xdr_bool,
        field pathconf3_resok_case_insensitive pathconf3_resok_case_insensitive_update xdr_bool,
        field pathconf3_resok_case_preserving pathconf3_resok_case_preserving_update xdr_bool]"

definition xdr_pathconf3_retfail :: "pathconf3_resfail xdr" where
  "xdr_pathconf3_retfail = all_of
       [field pathconf3_resfail_obj_attributes pathconf3_resfail_obj_attributes_update xdr_post_op_attr]"

definition xdr_pathconf3_ret :: "pathconf3_res xdr" where
  "xdr_pathconf3_ret =
     or_false (tagged pathconf3_res_status pathconf3_res_status_update xdr_nfs3_stat (\<lambda>t.
       if t = NFS3_OK then field pathconf3_res_resok pathconf3_res_resok_update xdr_pathconf3_retok
       else field pathconf3_res_resfail pathconf3_res_resfail_update xdr_pathconf3_retfail))"

definition xdr_commitargs :: "commit_args xdr" where
  "xdr_commitargs = all_of
       [field commit_args_file commit_args_file_update xdr_nfs_fh3,
        field commit_args_offset commit_args_offset_update xdr_uint64,
        field commit_args_count commit_args_count_update xdr_uint32]"

definition xdr_commitretok :: "commit_retok xdr" where
  "xdr_commitretok = all_of
       [field commit_retok_file_wcc commit_retok_file_wcc_update xdr_wccdata,
        field commit_retok_verf commit_retok_verf_update xdr_writeverf]"

definition xdr_commitretfail :: "commit_retfail xdr" where
  "xdr_commitretfail = all_of
       [field commit_retfail_file_wcc commit_retfail_file_wcc_update xdr_wccdata]"

definition xdr_commitret :: "commit_ret xdr" where
  "xdr_commitret =
     or_false (tagged commit_ret_status commit_ret_status_update xdr_nfs3_stat (\<lambda>t.
       if t = NFS3_OK then field commit_ret_ok commit_ret_ok_update xdr_commitretok
       else field commit_ret_fail commit_ret_fail_update xdr_commitretfail))"

section \<open>Attributes, links and devices\<close>

definition xdr_sattrguard3 :: "sattrguard3 xdr" where
  "xdr_sattrguard3 =
     or_false (tagged sattrguard3_check sattrguard3_check_update xdr_bool (\<lambda>t.
       if t = 1 then field sattrguard3_obj_ctime sattrguard3_obj_ctime_update xdr_time
       else if t = 0 then skip_xdr
       else fail_xdr XDR_FALSE))"

definition xdr_setattrargs :: "setattr3_args xdr" where
  "xdr_setattrargs = all_of
       [field setattr3_args_obj setattr3_args_obj_update xdr_nfs_fh3,
        field setattr3_args_new_attributes setattr3_args_new_attributes_update xdr_sattr,
        field setattr3_args_guard setattr3_args_guard_update xdr_sattrguard3]"

definition xdr_setattr3resok :: "setattr3_resok xdr" where
  "xdr_setattr3resok = all_of
       [field setattr3_resok_obj_wcc setattr3_resok_obj_wcc_update xdr_wccdata]"

definition xdr_setattr3resfail :: "setattr3_resfail xdr" where
  "xdr_setattr3resfail = all_of
       [field setattr3_resfail_obj_wcc setattr3_resfail_obj_wcc_update xdr_wccdata]"

definition xdr_setattrret :: "setattr3_res xdr" where
  "xdr_setattrret =
     or_false (tagged setattr3_res_status setattr3_res_status_update xdr_nfs3_stat (\<lambda>t.
       if t = NFS3_OK then field setattr3_res_resok setattr3_res_resok_update xdr_setattr3resok
       else field setattr3_res_resfail setattr3_res_resfail_update xdr_setattr3resfail))"

definition xdr_symlinkresok :: "symlink_retok xdr" where
  "xdr_symlinkresok = all_of
       [field symlink_retok_obj symlink_retok_obj_update xdr_postop_fh,
        field symlink_retok_obj_attributes symlink_retok_obj_attributes_update xdr_post_op_attr,
        field symlink_retok_dir_wcc symlink_retok_dir_wcc_update xdr_wccdata]"

definition xdr_symlinkresfail :: "symlink_retfail xdr" where
  "xdr_symlinkresfail = all_of
       [field symlink_retfail_dir_wcc symlink_retfail_dir_wcc_update xdr_wccdata]"

definition xdr_symlinkret :: "symlink_res xdr" where
  "xdr_symlinkret =
     or_false (tagged symlink_res_status symlink_res_status_update xdr_nfs3_stat (\<lambda>t.
       if t = NFS3_OK then field symlink_res_ok symlink_res_ok_update xdr_symlinkresok
       else field symlink_res_fail symlink_res_fail_update xdr_symlinkresfail))"

definition xdr_symlinkdata :: "symlinkdata3 xdr" where
  "xdr_symlinkdata = all_of
       [field symlinkdata3_symlink_attributes symlinkdata3_symlink_attributes_update xdr_sattr,
        field symlinkdata3_symlink_data symlinkdata3_symlink_data_update xdr_nfspath3]"

definition xdr_symlinkargs :: "symlink_args xdr" where
  "xdr_symlinkargs = all_of
       [field symlink_args_where symlink_args_where_update xdr_diropargs,
        field symlink_args_symlink symlink_args_symlink_update xdr_symlinkdata]"

definition xdr_mknodresok :: "mknod_resok xdr" where
  "xdr_mknodresok = all_of
       [field mknod_resok_obj mknod_resok_obj_update xdr_postop_fh,
        field mknod_resok_obj_attributes mknod_resok_obj_attributes_update xdr_post_op_attr,
        field mknod_resok_dir_wcc mknod_resok_dir_wcc_update xdr_wccdata]"

definition xdr_mknodresfail :: "mknod_resfail xdr" where
  "xdr_mknodresfail = all_of
       [field mknod_resfail_dir_wcc mknod_resfail_dir_wcc_update xdr_wccdata]"

definition xdr_mknodret :: "mknod_res xdr" where
  "xdr_mknodret =
     or_false (tagged mknod_res_status mknod_res_status_update xdr_nfs3_stat (\<lambda>t.
       if t = NFS3_OK then field mknod_res_ok mknod_res_ok_update xdr_mknodresok
       else field mknod_res_fail mknod_res_fail_update xdr_mknodresfail))"

definition xdr_devicedata :: "devicedata3 xdr" where
  "xdr_devicedata = all_of
       [field devicedata3_dev_attributes devicedata3_dev_attributes_update xdr_sattr,
        field devicedata3_spec devicedata3_spec_update xdr_specdata]"

definition xdr_mknoddata :: "mknoddata3 xdr" where
  "xdr_mknoddata =
     or_false (tagged mknoddata3_type mknoddata3_type_update xdr_enum (\<lambda>t.
       if t = NFS3_CHR \<or> t = NFS3_BLK then field mknoddata3_device mknoddata3_device_update xdr_devicedata
       else if t = NFS3_SOCK \<or> t = NFS3_FIFO then field mknoddata3_pipe_attributes mknoddata3_pipe_attributes_update xdr_sattr
       else fail_xdr XDR_FALSE))"

definition xdr_mknodargs :: "mknod_args xdr" where
  "xdr_mknodargs = all_of
       [field mknod_args_where mknod_args_where_update xdr_diropargs,
        field mknod_args_what mknod_args_what_update xdr_mknoddata]"

definition xdr_readlinkargs :: "readlink_args xdr" where
  "xdr_readlinkargs = all_of
       [field readlink_args_symlink readlink_args_symlink_update xdr_nfs_fh3]"

definition xdr_readlinkresok :: "readlink_retok xdr" where
  "xdr_readlinkresok = all_of
       [field readlink_retok_symlink_attributes readlink_retok_symlink_attributes_update xdr_post_op_attr,
        field readlink_retok_data readlink_retok_data_update xdr_nfspath3]"

definition xdr_readlinkresfail :: "readlink_retfail xdr" where
  "xdr_readlinkresfail = all_of
       [field readlink_retfail_symlink_attributes readlink_retfail_symlink_attributes_update xdr_post_op_attr]"

definition xdr_readlinkret :: "readlink_res xdr" where
  "xdr_readlinkret =
     or_false (tagged readlink_res_status readlink_res_status_update xdr_nfs3_stat (\<lambda>t.
       if t = NFS3_OK then field readlink_res_ok readlink_res_ok_update xdr_readlinkresok
       else field readlink_res_fail readlink_res_fail_update xdr_readlinkresfail))"

section \<open>Lists of mounts\<close>

text \<open>\<^verbatim>\<open>xdr_groups\<close> and \<^verbatim>\<open>xdr_groupnode\<close> call each other, and so do the functions of the other two lists; the
  pointer is written into the node.\<close>

definition blank_groupnode :: groupnode where "blank_groupnode = GroupNode None None"

partial_function (option) xdr_groupnode :: "xdr_op \<Rightarrow> groupnode \<Rightarrow> world \<Rightarrow> (xdr_ret \<times> groupnode \<times> world) option" where
  "xdr_groupnode op v w =
     all_of
       [field groupnode_gr_name groupnode_gr_name_update xdr_name,
        field groupnode_gr_next groupnode_gr_next_update (or_false (xdr_pointer blank_groupnode xdr_groupnode))] op v w"

definition xdr_groups :: "groupnode option xdr" where
  "xdr_groups = or_false (xdr_pointer blank_groupnode xdr_groupnode)"

definition blank_exportnode :: exportnode where "blank_exportnode = ExportNode None None None"

partial_function (option) xdr_exportnode :: "xdr_op \<Rightarrow> exportnode \<Rightarrow> world \<Rightarrow> (xdr_ret \<times> exportnode \<times> world) option" where
  "xdr_exportnode op v w =
     all_of
       [field exportnode_ex_dir exportnode_ex_dir_update xdr_dirpath,
        field exportnode_ex_groups exportnode_ex_groups_update xdr_groups,
        field exportnode_ex_next exportnode_ex_next_update (or_false (xdr_pointer blank_exportnode xdr_exportnode))] op v w"

definition xdr_exports :: "exportnode option xdr" where
  "xdr_exports = or_false (xdr_pointer blank_exportnode xdr_exportnode)"

definition blank_mountbody :: mountbody where "blank_mountbody = MountBody None None None"

partial_function (option) xdr_mountbody :: "xdr_op \<Rightarrow> mountbody \<Rightarrow> world \<Rightarrow> (xdr_ret \<times> mountbody \<times> world) option" where
  "xdr_mountbody op v w =
     all_of
       [field mountbody_ml_hostname mountbody_ml_hostname_update xdr_name,
        field mountbody_ml_directory mountbody_ml_directory_update xdr_dirpath,
        field mountbody_ml_next mountbody_ml_next_update (or_false (xdr_pointer blank_mountbody xdr_mountbody))] op v w"

definition xdr_dump :: "mountbody option xdr" where
  "xdr_dump = or_false (xdr_pointer blank_mountbody xdr_mountbody)"

end
