(* ===== verification/XdrSpec.thy ===== *)
theory XdrSpec
  imports Xdr BufferQueue
begin

text \<open>
  What the functions of the wire format promise: what one of them has sent, it reads back.
  \<open>reads_back c P S\<close> says this of \<open>c\<close> for all buffers and all objects with \<open>P\<close>, and \<open>S\<close> relates the object before, the
  object that was sent and the object that was read. The rules of \<open>back_rules\<close> go with the ways functions are put together.

  The functions of \<^verbatim>\<open>xdr.c\<close> read back what they have sent.
\<close>

unbundle bit_operations_syntax

named_theorems back_rules

section \<open>The contract\<close>

text \<open>The buffer is well formed among the segments \<open>R\<close> of all others, and holds these bytes.\<close>

definition good :: "world \<Rightarrow> seg multiset \<Rightarrow> bool" where
  "good w R \<longleftrightarrow> holds (fst w) (snd w) R"

definition sent :: "world \<Rightarrow> octet list" where
  "sent w = text_of (fst w) (snd w)"

definition kept :: "world \<Rightarrow> seg multiset \<Rightarrow> world \<Rightarrow> bool" where
  "kept w R w' \<longleftrightarrow> good w' R \<and> others_same (fst w) R (fst w')"

lemma kept_trans: "kept w R w1 \<Longrightarrow> kept w1 R w2 \<Longrightarrow> kept w R w2"
  by (auto simp: kept_def intro: others_same_trans)

lemma kept_refl: "good w R \<Longrightarrow> kept w R w"
  by (simp add: kept_def)

lemma kept_good: "kept w R w' \<Longrightarrow> good w' R"
  by (simp add: kept_def)

text \<open>What is sent goes into new segments at the end, which overlap with no other.\<close>

definition grows :: "world \<Rightarrow> seg multiset \<Rightarrow> world \<Rightarrow> bool" where
  "grows w R w' \<longleftrightarrow> kept w R w' \<and>
     (\<exists>ss. segs (snd w') = segs (snd w) @ ss \<and> (\<forall>s \<in> set ss. \<forall>t \<in># mset (segs (snd w)) + R. clear_of s t))"

lemma grows_kept: "grows w R w' \<Longrightarrow> kept w R w'"
  by (simp add: grows_def)

lemma grows_good: "grows w R w' \<Longrightarrow> good w' R"
  by (simp add: grows_def kept_def)

lemma grows_trans: "grows w R w1 \<Longrightarrow> grows w1 R w2 \<Longrightarrow> grows w R w2"
  unfolding grows_def by (elim conjE exE, intro conjI, erule (1) kept_trans, intro exI [of _ "_ @ _"] conjI) auto

lemma grows_refl: "good w R \<Longrightarrow> grows w R w"
  by (simp add: grows_def kept_refl)

text \<open>The bytes \<open>d\<close> are read as an object that is related to \<open>v\<close>.\<close>

definition read_as :: "'a xdr \<Rightarrow> ('a \<Rightarrow> 'a \<Rightarrow> 'a \<Rightarrow> bool) \<Rightarrow> octet list \<Rightarrow> 'a \<Rightarrow> 'a \<Rightarrow> bool" where
  "read_as c S d v v0 \<longleftrightarrow> (\<forall>w R rest. good w R \<longrightarrow> sent w = d @ rest \<longrightarrow>
     (\<exists>v' w'. c XDR_DECODE v0 w = Some (XDR_TRUE, v', w') \<and> kept w R w' \<and> sent w' = rest \<and> S v0 v v'))"

definition reads_back :: "'a xdr \<Rightarrow> ('a \<Rightarrow> bool) \<Rightarrow> ('a \<Rightarrow> 'a \<Rightarrow> 'a \<Rightarrow> bool) \<Rightarrow> bool" where
  "reads_back c P S \<longleftrightarrow> (\<forall>v w R v1 w1. P v \<longrightarrow> good w R \<longrightarrow> c XDR_ENCODE v w = Some (XDR_TRUE, v1, w1) \<longrightarrow>
     v1 = v \<and> grows w R w1 \<and>
     (\<exists>d. sent w1 = sent w @ d \<and> 4 dvd length d \<and> (\<forall>v0. read_as c S d v v0)))"

lemma reads_backI:
  assumes "\<And>v w R v1 w1. P v \<Longrightarrow> good w R \<Longrightarrow> c XDR_ENCODE v w = Some (XDR_TRUE, v1, w1) \<Longrightarrow>
    v1 = v \<and> grows w R w1 \<and> (\<exists>d. sent w1 = sent w @ d \<and> 4 dvd length d \<and> (\<forall>v0. read_as c S d v v0))"
  shows "reads_back c P S"
  using assms by (simp add: reads_back_def)

lemma reads_backE:
  assumes "reads_back c P S" "P v" "good w R" "c XDR_ENCODE v w = Some (XDR_TRUE, v1, w1)"
  obtains d where "v1 = v" "grows w R w1" "sent w1 = sent w @ d" "4 dvd length d" "\<And>v0. read_as c S d v v0"
  using assms unfolding reads_back_def by metis

lemma read_asE:
  assumes "read_as c S d v v0" "good w R" "sent w = d @ rest"
  obtains v' w' where "c XDR_DECODE v0 w = Some (XDR_TRUE, v', w')" "kept w R w'" "sent w' = rest" "S v0 v v'"
  using assms unfolding read_as_def by metis

lemma reads_back_mono:
  "reads_back c P S \<Longrightarrow> (\<And>v. Q v \<Longrightarrow> P v) \<Longrightarrow> (\<And>v0 v v'. Q v \<Longrightarrow> S v0 v v' \<Longrightarrow> T v0 v v') \<Longrightarrow> reads_back c Q T"
  unfolding reads_back_def read_as_def by meson

section \<open>Functions put together\<close>

lemma back_field [back_rules]:
  assumes c: "reads_back c P S" and same: "\<And>v. upd (\<lambda>_. get v) v = v"
  shows "reads_back (field get upd c) (\<lambda>v. P (get v)) (\<lambda>v0 v v'. \<exists>x. v' = upd (\<lambda>_. x) v0 \<and> S (get v0) (get v) x)"
proof (rule reads_backI)
  fix v w R v1 w1 assume p: "P (get v)" and g: "good w R" and e: "field get upd c XDR_ENCODE v w = Some (XDR_TRUE, v1, w1)"
  then obtain x where x: "c XDR_ENCODE (get v) w = Some (XDR_TRUE, x, w1)" "v1 = upd (\<lambda>_. x) v"
    by (auto simp: field_def split: option.splits)
  obtain d where d: "x = get v" "grows w R w1" "sent w1 = sent w @ d" "4 dvd length d" "\<And>v0. read_as c S d (get v) v0"
    using reads_backE [OF c p g x(1)] by blast
  have "read_as (field get upd c) (\<lambda>v0 v v'. \<exists>x. v' = upd (\<lambda>_. x) v0 \<and> S (get v0) (get v) x) d v v0" for v0
    unfolding read_as_def field_def using d(5) [of "get v0", unfolded read_as_def] by fastforce
  then show "v1 = v \<and> grows w R w1 \<and> (\<exists>d. sent w1 = sent w @ d \<and> 4 dvd length d \<and>
      (\<forall>v0. read_as (field get upd c) (\<lambda>v0 v v'. \<exists>x. v' = upd (\<lambda>_. x) v0 \<and> S (get v0) (get v) x) d v v0))"
    using d x(2) same by auto
qed

lemma field2_field:
  "field2 get1 upd1 get2 upd2 c =
     field (\<lambda>v. (get1 v, get2 v)) (\<lambda>f v. upd1 (\<lambda>_. fst (f (get1 v, get2 v))) (upd2 (\<lambda>_. snd (f (get1 v, get2 v))) v)) c"
  by (auto simp: field2_def field_def fun_eq_iff split: option.split)

lemma back_field2 [back_rules]:
  assumes "reads_back c P S" "\<And>v. upd1 (\<lambda>_. get1 v) (upd2 (\<lambda>_. get2 v) v) = v"
  shows "reads_back (field2 get1 upd1 get2 upd2 c) (\<lambda>v. P (get1 v, get2 v))
    (\<lambda>v0 v v'. \<exists>x y. v' = upd1 (\<lambda>_. x) (upd2 (\<lambda>_. y) v0) \<and> S (get1 v0, get2 v0) (get1 v, get2 v) (x, y))"
  unfolding field2_field
  by (rule reads_back_mono, rule back_field [OF assms(1)]) (use assms(2) in auto)

lemma back_skip [back_rules]: "reads_back skip_xdr (\<lambda>v. True) (\<lambda>v0 v v'. v' = v0)"
  by (rule reads_backI) (auto simp: skip_xdr_def read_as_def intro: kept_refl grows_refl)

lemma back_fail [back_rules]: "r \<noteq> XDR_TRUE \<Longrightarrow> reads_back (fail_xdr r) (\<lambda>v. True) (\<lambda>v0 v v'. False)"
  by (rule reads_backI) (simp add: fail_xdr_def)

lemma back_if [back_rules]:
  "reads_back c P S \<Longrightarrow> reads_back d Q T \<Longrightarrow>
    reads_back (if b then c else d) (\<lambda>v. if b then P v else Q v) (\<lambda>v0 v v'. if b then S v0 v v' else T v0 v v')"
  by simp

lemma on_true_True: "on_true r k = Some (XDR_TRUE, v, w) \<longleftrightarrow> (\<exists>v1 w1. r = Some (XDR_TRUE, v1, w1) \<and> k v1 w1 = Some (XDR_TRUE, v, w))"
  by (auto simp: on_true_def split: option.split if_splits)

lemma on_true_simps [simp]: "on_true (Some (XDR_TRUE, v, w)) k = k v w" "on_true None k = None"
  by (simp_all add: on_true_def)

lemma read_then:
  assumes "read_as c S d v v0" "\<And>u. S v0 v u \<Longrightarrow> read_as (\<lambda>op. k op) T e v u"
  shows "read_as (\<lambda>op v w. on_true (c op v w) (k op)) (\<lambda>v0 v v'. \<exists>u. S v0 v u \<and> T u v v') (d @ e) v v0"
  unfolding read_as_def
proof (intro allI impI)
  fix w R rest assume w: "good w R" "sent w = (d @ e) @ rest"
  then have "sent w = d @ e @ rest" by simp
  then obtain u w1 where 1: "c XDR_DECODE v0 w = Some (XDR_TRUE, u, w1)" "kept w R w1" "sent w1 = e @ rest" "S v0 v u"
    using read_asE [OF assms(1) w(1)] by blast
  obtain v' w2 where 2: "k XDR_DECODE u w1 = Some (XDR_TRUE, v', w2)" "kept w1 R w2" "sent w2 = rest" "T u v v'"
    using read_asE [OF assms(2) [OF 1(4)] kept_good [OF 1(2)] 1(3)] by blast
  show "\<exists>v' w'. on_true (c XDR_DECODE v0 w) (k XDR_DECODE) = Some (XDR_TRUE, v', w') \<and> kept w R w' \<and>
      sent w' = rest \<and> (\<exists>u. S v0 v u \<and> T u v v')"
    using 1(1,4) 2 kept_trans [OF 1(2) 2(2)] by auto
qed

text \<open>One after the other, where what comes second depends on what is in the object by then.\<close>

lemma back_then:
  assumes c: "reads_back c P S" and k: "\<And>v. reads_back (k v) (Q v) (T v)" and same: "\<And>v0 v u. S v0 v u \<Longrightarrow> k u = k v"
  shows "reads_back (\<lambda>op v w. on_true (c op v w) (\<lambda>u. k u op u)) (\<lambda>v. P v \<and> Q v v) (\<lambda>v0 v v'. \<exists>u. S v0 v u \<and> T v u v v')"
proof (rule reads_backI)
  fix v w R v2 w2 assume p: "P v \<and> Q v v" and g: "good w R" and "on_true (c XDR_ENCODE v w) (\<lambda>u. k u XDR_ENCODE u) = Some (XDR_TRUE, v2, w2)"
  then obtain v1 w1 where 1: "c XDR_ENCODE v w = Some (XDR_TRUE, v1, w1)" "k v1 XDR_ENCODE v1 w1 = Some (XDR_TRUE, v2, w2)"
    by (auto simp: on_true_True)
  obtain d where d: "v1 = v" "grows w R w1" "sent w1 = sent w @ d" "4 dvd length d" "\<And>v0. read_as c S d v v0"
    using reads_backE [OF c _ g 1(1)] p by blast
  obtain e where e: "v2 = v" "grows w1 R w2" "sent w2 = sent w1 @ e" "4 dvd length e" "\<And>v0. read_as (k v) (T v) e v v0"
    using reads_backE [OF k _ grows_good [OF d(2)] 1(2)] d(1) p by blast
  have "read_as (\<lambda>op v w. on_true (c op v w) (\<lambda>u. k u op u)) (\<lambda>v0 v v'. \<exists>u. S v0 v u \<and> T v u v v') (d @ e) v v0" for v0
  proof (rule read_then [OF d(5)])
    fix u assume "S v0 v u"
    then have "(\<lambda>w. k u XDR_DECODE u w) = k v XDR_DECODE u" using same by auto
    then show "read_as (\<lambda>op u. k u op u) (\<lambda>u v v'. T v u v v') e v u"
      using e(5) [of u] by (simp add: read_as_def)
  qed
  then show "v2 = v \<and> grows w R w2 \<and> (\<exists>d. sent w2 = sent w @ d \<and> 4 dvd length d \<and>
      (\<forall>v0. read_as (\<lambda>op v w. on_true (c op v w) (\<lambda>u. k u op u)) (\<lambda>v0 v v'. \<exists>u. S v0 v u \<and> T v u v v') d v v0))"
    using d e grows_trans [OF d(2) e(2)] by (intro conjI exI [of _ "d @ e"]) auto
qed

lemma back_nil [back_rules]: "reads_back (each_of []) (\<lambda>v. True) (\<lambda>v0 v v'. v' = v0)"
  by (rule reads_backI) (auto simp: read_as_def intro: kept_refl grows_refl)

lemma back_cons [back_rules]:
  assumes "reads_back c P S" "reads_back (each_of cs) Q T"
  shows "reads_back (each_of (c # cs)) (\<lambda>v. P v \<and> Q v) (\<lambda>v0 v v'. \<exists>u. S v0 v u \<and> T u v v')"
proof -
  have "each_of (c # cs) = (\<lambda>op v w. on_true (c op v w) (\<lambda>u. each_of cs op u))" by (simp add: fun_eq_iff)
  then show ?thesis using back_then [OF assms(1), of "\<lambda>_. each_of cs" "\<lambda>_. Q" "\<lambda>_. T"] assms(2) by simp
qed

lemma or_false_True [simp]: "or_false c op v w = Some (XDR_TRUE, v', w') \<longleftrightarrow> c op v w = Some (XDR_TRUE, v', w')"
  by (auto simp: or_false_def split: option.splits if_splits)

lemma back_or_false [back_rules]: "reads_back c P S \<Longrightarrow> reads_back (or_false c) P S"
  by (simp add: reads_back_def read_as_def)

lemma back_all_of [back_rules]: "reads_back (each_of cs) P S \<Longrightarrow> reads_back (all_of cs) P S"
  by (simp add: all_of_def back_or_false)

text \<open>The switch goes the same way when it is read.\<close>

lemma back_tagged [back_rules]:
  assumes c: "reads_back c P S" and S: "\<And>x0 x x'. S x0 x x' \<Longrightarrow> x' = x" and f: "\<And>t. reads_back (f t) (Q t) (T t)"
    and lens: "\<And>v. upd (\<lambda>_. get v) v = v" "\<And>x v. get (upd (\<lambda>_. x) v) = x"
  shows "reads_back (tagged get upd c f) (\<lambda>v. P (get v) \<and> Q (get v) v) (\<lambda>v0 v v'. T (get v) (upd (\<lambda>_. get v) v0) v v')"
proof -
  have "reads_back (field get upd c) (\<lambda>v. P (get v)) (\<lambda>v0 v v'. \<exists>x. v' = upd (\<lambda>_. x) v0 \<and> S (get v0) (get v) x)"
    by (rule back_field [OF c]) (rule lens(1))
  then have fc: "reads_back (field get upd c) (\<lambda>v. P (get v)) (\<lambda>v0 v v'. v' = upd (\<lambda>_. get v) v0)"
    by (rule reads_back_mono) (auto dest: S)
  have "reads_back (\<lambda>op v w. on_true (field get upd c op v w) (\<lambda>u. f (get u) op u)) (\<lambda>v. P (get v) \<and> Q (get v) v)
      (\<lambda>v0 v v'. \<exists>u. u = upd (\<lambda>_. get v) v0 \<and> T (get v) u v v')"
    by (rule back_then [OF fc f]) (simp add: lens(2))
  then show ?thesis
    by (simp add: tagged_def [abs_def])
qed

section \<open>The buffer\<close>

lemma seg_alloc1_len: "seg_alloc1 seg n m = Some (Inr s, m') \<Longrightarrow> seg_len seg = n \<Longrightarrow> seg_len s = n"
proof -
  assume "seg_alloc1 seg n m = Some (Inr s, m')" "seg_len seg = n"
  moreover then obtain a m1 where "mem_hugepage_new n m = Some (a, m1)"
    by (auto simp: seg_alloc1_def bind_eq_Some_conv)
  ultimately show "seg_len s = n"
    by (cases a) (auto simp: seg_alloc1_def split: if_splits)
qed

lemma seg_alloc0_len: "seg_alloc0 n a m = Some (Some s, m') \<Longrightarrow> seg_len s = n"
  by (auto simp: seg_alloc0_def Let_def split: if_splits prod.splits)

lemma seg_alloc_normal_len: "seg_len (fst (seg_alloc_normal s n m)) = seg_len s"
  by (simp add: seg_alloc_normal_def split_def Let_def)

lemma seg_alloc_len:
  assumes "seg_alloc n m = Some (Some s, m')"
  shows "seg_len s = n"
proof -
  obtain seg m1 where 0: "seg_alloc0 n False m = Some (Some seg, m1)"
    using assms by (auto simp: seg_alloc_def bind_eq_Some_conv split: option.splits)
  have n: "seg_len (fst (seg_alloc_normal seg n m1)) = n" for m1
    using seg_alloc_normal_len seg_alloc0_len [OF 0] by simp
  show ?thesis
  proof (cases "use_memcache m1")
    case True
    then obtain a m2 where a: "seg_alloc1 seg n m1 = Some (a, m2)"
        "(case a of Inr t \<Rightarrow> Some (Some t, m2) | Inl e \<Rightarrow>
          (let (t, m) = seg_alloc_normal seg n m2 in Some (Some t, m))) = Some (Some s, m')"
      using assms 0 by (auto simp: seg_alloc_def bind_eq_Some_conv)
    then show ?thesis
      using n [of m2] seg_alloc1_len seg_alloc0_len [OF 0] by (cases a) (auto simp: split_def Let_def)
  qed (use assms 0 n [of m1] in \<open>auto simp: seg_alloc_def split_def Let_def\<close>)
qed

lemma appendmem_fits:
  assumes h: "holds m b R" and a: "mbuffer_appendmem b d m = Some (None, b', m')"
  shows "0 < length d" "length d \<le> BUFFER_SEG_SIZE" "blen b + length d < 2 ^ 32"
proof -
  obtain s m1 m2 where s: "length d \<le> BUFFER_SEG_SIZE" "seg_alloc (length d) m = Some (Some s, m1)"
    "seg_add_tail b s = Some b'" "buffer_check b' = Some ()"
    using a by (auto simp: mbuffer_appendmem_def appendmem_def asserts_def bind_eq_Some_conv split: option.splits if_splits)
  then have "seg_len s = length d" using seg_alloc_len by blast
  then have b': "0 < length d" "b' = \<lparr>blen = blen b + length d, segs = segs b @ [s]\<rparr>"
    using s(3) by (auto simp: seg_add_tail_def split: if_splits)
  have "seg_sum (segs b) = blen b" using holds_sized(2) [OF h] by simp
  then have "(blen b + length d) mod 2 ^ 32 = blen b + length d"
    using s(4) b'(2) \<open>seg_len s = length d\<close> by (auto simp: buffer_check_def split: if_splits)
  then have "blen b + length d < 2 ^ 32"
    by (metis mod_less_divisor zero_less_numeral zero_less_power)
  then show "0 < length d" "length d \<le> BUFFER_SEG_SIZE" "blen b + length d < 2 ^ 32"
    using b'(1) s(1) by simp_all
qed

lemma good_short:
  assumes "good w R"
  shows "length (sent w) < 2 ^ 32"
proof -
  have h: "holds (fst w) (snd w) R" using assms by (simp add: good_def)
  then have "(\<Sum>s\<leftarrow>segs (snd w). seg_len s) mod 2 ^ 32 = blen (snd w)"
    using holds_check [OF h] by (simp add: buffer_check_def split: if_splits)
  then have "blen (snd w) < 2 ^ 32" by (metis mod_less_divisor zero_less_numeral zero_less_power)
  then show ?thesis using holds_length [OF h] by (simp add: sent_def)
qed

lemma append_mem_sends:
  assumes g: "good w R" and a: "append_mem d v w = Some (XDR_TRUE, v1, w1)"
  shows "v1 = v" "grows w R w1" "sent w1 = sent w @ d"
proof -
  obtain m b where w: "w = (m, b)" by (cases w)
  then have h: "holds m b R" using g by (simp add: good_def)
  obtain b1 m1 where 1: "mbuffer_appendmem b d m = Some (None, b1, m1)" "v1 = v" "w1 = (m1, b1)"
    using a w by (auto simp: append_mem_def bind_eq_Some_conv split: option.splits)
  obtain b' m' s where "appendmem b d True m = Some (None, b', m')" "holds m' b' R" "others_same m R m'"
      "text_of m' b' = text_of m b @ d" "segs b' = segs b @ [s]" "\<forall>t \<in># mset (segs b) + R. clear_of s t"
    using appendmem_clear [OF h appendmem_fits [OF h 1(1)], of True] by auto
  then show "v1 = v" "grows w R w1" "sent w1 = sent w @ d"
    using 1 w by (auto simp: mbuffer_appendmem_def grows_def kept_def good_def sent_def)
qed

lemma pop_msg_ok:
  assumes g: "good w R" and s: "sent w = d @ rest" "length d = n"
  obtains w' where "pop_msg n w = Some (d, w')" "kept w R w'" "sent w' = rest"
proof -
  obtain m b where w: "w = (m, b)" by (cases w)
  then have h: "holds m b R" using g by (simp add: good_def)
  have "n \<le> blen b" using holds_length [OF h] s w by (simp add: sent_def)
  from mbuffer_popmsg_ok [OF h this] s w that show ?thesis
    by (force simp: pop_msg_def kept_def good_def sent_def)
qed

lemma ymalloc_ok:
  assumes "good w R"
  obtains w' where "ymalloc w = (True, w')" "kept w R w'" "sent w' = sent w"
proof -
  obtain m b where w: "w = (m, b)" by (cases w)
  then have h: "holds m b R" using assms by (simp add: good_def)
  then have "world_ok m (mset (segs b) + R)" by (simp add: holds_def)
  from small_alloc_ok [OF this] world_asked [OF this] have a: "small_alloc m = (True, m\<lparr>asked := Suc (asked m)\<rparr>)"
      "world_ok (m\<lparr>asked := Suc (asked m)\<rparr>) (mset (segs b) + R)" by auto
  have "bytes (m\<lparr>asked := Suc (asked m)\<rparr>) (segs b) = bytes m (segs b)"
    by (rule bytes_same) simp
  then show ?thesis
    using that [of "(m\<lparr>asked := Suc (asked m)\<rparr>, b)"] w a h
    by (auto simp: ymalloc_def kept_def good_def holds_def others_same_def sent_def text_of_def)
qed

lemma length_be32 [simp]: "length (be32 x) = 4"
  by (simp add: be32_def)

lemma of_be32_be32 [simp]: "of_be32 (be32 x) = x"
proof (rule bit_word_eqI)
  fix n assume "n < LENGTH(32)"
  then consider "n < 8" | "8 \<le> n" "n < 16" | "16 \<le> n" "n < 24" | "24 \<le> n" "n < 32" by fastforce
  then show "bit (of_be32 (be32 x)) n = bit x n"
    by cases (simp_all add: of_be32_def be32_def bit_or_iff bit_push_bit_iff bit_ucast_iff bit_drop_bit_eq, auto)
qed

section \<open>Bytes\<close>

lemma tail_of_fills: "4 dvd n + tail_of n"
  unfolding tail_of_def dvd_eq_mod_eq_0 by presburger

lemma opaque_encodes:
  assumes g: "good w R" and e: "xdr_opaque n XDR_ENCODE val w = Some (XDR_TRUE, v1, w1)"
  shows "v1 = val" "grows w R w1" "n \<le> length val" "sent w1 = sent w @ take n val @ replicate (tail_of n) 0"
proof -
  obtain v2 w2 where 1: "n \<le> length val" "append_mem (take n val) val w = Some (XDR_TRUE, v2, w2)"
      "(if tail_of n \<noteq> 0 then append_mem (replicate (tail_of n) 0) v2 w2 else Some (XDR_TRUE, v2, w2)) =
        Some (XDR_TRUE, v1, w1)"
    using e by (auto simp: xdr_opaque_def asserts_def on_true_True bind_eq_Some_conv split: if_splits)
  note 2 = append_mem_sends [OF g 1(2)] 1
  from this show "v1 = val" "grows w R w1" "n \<le> length val" "sent w1 = sent w @ take n val @ replicate (tail_of n) 0"
    using append_mem_sends [OF grows_good [OF 2(2)], of "replicate (tail_of n) 0" val v1 w1] grows_trans [OF 2(2)]
    by (auto split: if_splits)
qed

lemma opaque_decodes:
  assumes g: "good w R" and s: "sent w = d @ replicate (tail_of n) 0 @ rest" "length d = n"
  obtains w' where "xdr_opaque n XDR_DECODE val w = Some (XDR_TRUE, d @ drop n val, w')" "kept w R w'" "sent w' = rest"
proof -
  obtain w1 where 1: "pop_msg n w = Some (d, w1)" "kept w R w1" "sent w1 = replicate (tail_of n) 0 @ rest"
    using pop_msg_ok [OF g s] by blast
  show ?thesis
  proof (cases "tail_of n = 0")
    case True
    then show ?thesis using 1 that [of w1] by (simp add: xdr_opaque_def)
  next
    case False
    obtain w2 where "pop_msg (tail_of n) w1 = Some (replicate (tail_of n) 0, w2)" "kept w1 R w2" "sent w2 = rest"
      using pop_msg_ok [OF kept_good [OF 1(2)] 1(3)] by auto
    then show ?thesis
      using 1 False that [of w2] kept_trans by (simp add: xdr_opaque_def)
  qed
qed

lemma back_opaque [back_rules]: "reads_back (xdr_opaque n) (\<lambda>v. True) (\<lambda>v0 v v'. take n v' = take n v)"
proof (rule reads_backI)
  fix v w R v1 w1 assume g: "good w R" and e: "xdr_opaque n XDR_ENCODE v w = Some (XDR_TRUE, v1, w1)"
  note enc = opaque_encodes [OF g e]
  have "read_as (xdr_opaque n) (\<lambda>v0 v v'. take n v' = take n v) (take n v @ replicate (tail_of n) 0) v v0" for v0
    unfolding read_as_def
  proof (intro allI impI)
    fix w R rest assume w: "good w R" "sent w = (take n v @ replicate (tail_of n) 0) @ rest"
    then obtain w' where "xdr_opaque n XDR_DECODE v0 w = Some (XDR_TRUE, take n v @ drop n v0, w')" "kept w R w'" "sent w' = rest"
      using opaque_decodes [OF w(1), of "take n v" n rest v0] enc(3) by auto
    then show "\<exists>v' w'. xdr_opaque n XDR_DECODE v0 w = Some (XDR_TRUE, v', w') \<and> kept w R w' \<and> sent w' = rest \<and>
        take n v' = take n v"
      using enc(3) by auto
  qed
  moreover have "4 dvd length (take n v @ replicate (tail_of n) 0)"
    using enc(3) tail_of_fills by simp
  ultimately show "v1 = v \<and> grows w R w1 \<and> (\<exists>d. sent w1 = sent w @ d \<and> 4 dvd length d \<and>
      (\<forall>v0. read_as (xdr_opaque n) (\<lambda>v0 v v'. take n v' = take n v) d v v0))"
    using enc by blast
qed

text \<open>Decoding gives the bytes with a 0 behind them.\<close>

definition bytes_as :: "octet list option \<times> 32 word \<Rightarrow> octet list option \<times> 32 word \<Rightarrow> bool" where
  "bytes_as v v' \<longleftrightarrow> snd v' = snd v \<and> fst v' = map_option (\<lambda>p. take (unat (snd v)) p @ [0]) (fst v)"

text \<open>The length that is sent is not checked, but the one that is read is; and it must not be the largest.\<close>

lemma bytes_encodes:
  assumes g: "good w R" and e: "xdr_bytes limit XDR_ENCODE v w = Some (XDR_TRUE, v1, w1)"
  obtains p where "v1 = v" "grows w R w1" "fst v = Some p" "unat (snd v) \<le> length p"
    "sent w1 = sent w @ be32 (snd v) @ take (unat (snd v)) p @ replicate (tail_of (unat (snd v))) 0"
    "unat (snd v) < 2 ^ 32 - 4"
proof -
  obtain w2 p v2 v3 where 1: "append_mem (be32 (snd v)) v w = Some (XDR_TRUE, v3, w2)" "fst v3 = Some p"
      "xdr_opaque (unat (snd v3)) XDR_ENCODE p w2 = Some (XDR_TRUE, v2, w1)" "v1 = v3"
    using e by (auto simp: xdr_bytes_def on_true_True bind_eq_Some_conv)
  note 2 = append_mem_sends [OF g 1(1)]
  have 3: "fst v = Some p" "xdr_opaque (unat (snd v)) XDR_ENCODE p w2 = Some (XDR_TRUE, v2, w1)" "v1 = v"
    using 1 2(1) by simp_all
  note enc = opaque_encodes [OF grows_good [OF 2(2)] 3(2)]
  have "length (sent w1) < 2 ^ 32"
    using good_short [OF grows_good [OF enc(2)]] .
  then have "unat (snd v) < 2 ^ 32 - 4"
    using enc(3,4) 2(3) by simp
  then show ?thesis
    using that [of p] 2 3 enc grows_trans [OF 2(2) enc(2)] by simp
qed

lemma bytes_decodes:
  assumes g: "good w R" and s: "sent w = be32 len @ d @ replicate (tail_of (unat len)) 0 @ rest" "length d = unat len"
    and l: "len \<le> limit" "len + 1 \<noteq> 0"
  obtains w' where "xdr_bytes limit XDR_DECODE v0 w = Some (XDR_TRUE, (Some (d @ [0]), len), w')" "kept w R w'" "sent w' = rest"
proof -
  obtain w1 where 1: "pop_msg 4 w = Some (be32 len, w1)" "kept w R w1" "sent w1 = d @ replicate (tail_of (unat len)) 0 @ rest"
    using pop_msg_ok [OF g s(1)] by auto
  obtain w2 where 2: "ymalloc w1 = (True, w2)" "kept w1 R w2" "sent w2 = sent w1"
    using ymalloc_ok [OF kept_good [OF 1(2)]] by blast
  have n: "unat (len + 1) = unat len + 1"
    using l(2) unatSuc [of len] by (simp add: add.commute)
  have "drop (unat len) (replicate (unat (len + 1)) 0) = [0 :: octet]"
    unfolding n drop_replicate by simp
  then obtain w3 where "xdr_opaque (unat len) XDR_DECODE (replicate (unat (len + 1)) 0) w2 = Some (XDR_TRUE, d @ [0], w3)"
      "kept w2 R w3" "sent w3 = rest"
    using opaque_decodes [OF kept_good [OF 2(2)] _ s(2), of rest "replicate (unat (len + 1)) 0"] 1 2 by metis
  then show ?thesis
    using that [of w3] 1 2 l kept_trans [OF kept_trans [OF 1(2) 2(2)]]
    by (simp add: xdr_bytes_def asserts_def Let_def not_less)
qed

lemma back_bytes [back_rules]:
  "reads_back (xdr_bytes limit) (\<lambda>v. snd v \<le> limit) (\<lambda>v0 v v'. bytes_as v v')"
proof (rule reads_backI)
  fix v w R v1 w1 assume l: "snd v \<le> limit" and g: "good w R" and e: "xdr_bytes limit XDR_ENCODE v w = Some (XDR_TRUE, v1, w1)"
  obtain p where enc: "v1 = v" "grows w R w1" "fst v = Some p" "unat (snd v) \<le> length p" "unat (snd v) < 2 ^ 32 - 4"
    "sent w1 = sent w @ be32 (snd v) @ take (unat (snd v)) p @ replicate (tail_of (unat (snd v))) 0"
    using bytes_encodes [OF g e] by blast
  let ?d = "be32 (snd v) @ take (unat (snd v)) p @ replicate (tail_of (unat (snd v))) 0"
  have "snd v \<noteq> - 1" using enc(5) by (auto simp: unsigned_minus_1_eq_mask mask_eq_exp_minus_1)
  then have len: "snd v + 1 \<noteq> 0" by (simp add: eq_neg_iff_add_eq_0)
  have "read_as (xdr_bytes limit) (\<lambda>v0 v v'. bytes_as v v') ?d v v0" for v0
    unfolding read_as_def
  proof (intro allI impI)
    fix w R rest assume w: "good w R" "sent w = ?d @ rest"
    obtain w' where "xdr_bytes limit XDR_DECODE v0 w = Some (XDR_TRUE, (Some (take (unat (snd v)) p @ [0]), snd v), w')"
        "kept w R w'" "sent w' = rest"
      using bytes_decodes [OF w(1), of "snd v" "take (unat (snd v)) p" rest limit v0] w(2) enc(4) len l by auto
    then show "\<exists>v' w'. xdr_bytes limit XDR_DECODE v0 w = Some (XDR_TRUE, v', w') \<and> kept w R w' \<and> sent w' = rest \<and> bytes_as v v'"
      using enc(3) by (auto simp: bytes_as_def)
  qed
  moreover have "4 dvd length ?d"
    using enc(4) tail_of_fills [of "unat (snd v)"] by simp
  ultimately show "v1 = v \<and> grows w R w1 \<and> (\<exists>d. sent w1 = sent w @ d \<and> 4 dvd length d \<and>
      (\<forall>v0. read_as (xdr_bytes limit) (\<lambda>v0 v v'. bytes_as v v') d v v0))"
    using enc by blast
qed

text \<open>A string is read as its characters and a 0.\<close>

definition text_as :: "octet list option \<Rightarrow> octet list option \<Rightarrow> bool" where
  "text_as s s' \<longleftrightarrow> s' = map_option (\<lambda>p. c_text p @ [0]) s"

definition c_length :: "octet list option \<Rightarrow> nat" where
  "c_length s = (case s of None \<Rightarrow> 0 | Some p \<Rightarrow> length (c_text p))"

lemma c_text_append [simp]: "0 \<notin> set d \<Longrightarrow> c_text (d @ 0 # r) = d"
  by (induction d) (auto simp: c_text_def)

lemma text_as_text: "text_as s s' \<Longrightarrow> map_option c_text s' = map_option c_text s"
proof -
  have "c_text (c_text p @ [0]) = c_text p" for p
    by (rule c_text_append) (auto simp: c_text_def dest: set_takeWhileD)
  then show "text_as s s' \<Longrightarrow> map_option c_text s' = map_option c_text s"
    by (cases s) (simp_all add: text_as_def)
qed

lemma back_string [back_rules]:
  "reads_back (xdr_string limit) (\<lambda>s. c_length s \<le> unat limit) (\<lambda>v0 v v'. text_as v v')"
proof (rule reads_backI)
  fix v w R v1 w1 assume l: "c_length v \<le> unat limit" and g: "good w R"
    and e: "xdr_string limit XDR_ENCODE v w = Some (XDR_TRUE, v1, w1)"
  obtain p len v2 where 1: "v = Some p" "c_strlen p = Some len" "xdr_bytes limit XDR_ENCODE (v, len) w = Some (XDR_TRUE, v2, w1)"
      "v1 = fst v2"
    using e by (auto simp: xdr_string_def bind_eq_Some_conv)
  have n: "len = of_nat (length (c_text p))" using 1(2) by (auto simp: c_strlen_def split: if_splits)
  have "unat limit < 2 ^ LENGTH(32)" by (rule unsigned_less)
  then have "length (c_text p) < 2 ^ 32"
    using l 1(1) by (simp add: c_length_def)
  then have len: "unat len = length (c_text p)" "len \<le> limit"
    using l 1(1) n by (simp_all add: c_length_def word_le_nat_alt unat_of_nat)
  have chars: "take (length (c_text p)) p = c_text p"
    by (metis c_text_def takeWhile_eq_take)
  obtain d where d: "v2 = (v, len)" "grows w R w1" "sent w1 = sent w @ d" "4 dvd length d"
      "\<And>v0. read_as (xdr_bytes limit) (\<lambda>v0 v v'. bytes_as v v') d (v, len) v0"
    using reads_backE [OF back_bytes _ g 1(3)] len(2) by (metis snd_conv)
  have "read_as (xdr_string limit) (\<lambda>v0 v v'. text_as v v') d v v0" for v0
    unfolding read_as_def
  proof (intro allI impI)
    fix w R rest assume w: "good w R" "sent w = d @ rest"
    obtain v' w' where 2: "xdr_bytes limit XDR_DECODE (v0, 0) w = Some (XDR_TRUE, v', w')" "kept w R w'" "sent w' = rest"
        "bytes_as (v, len) v'"
      using read_asE [OF d(5) w] by blast
    then have "text_as v (fst v')"
      using 1(1) len(1) chars by (simp add: bytes_as_def text_as_def)
    then show "\<exists>v' w'. xdr_string limit XDR_DECODE v0 w = Some (XDR_TRUE, v', w') \<and> kept w R w' \<and> sent w' = rest \<and> text_as v v'"
      using 2 by (auto simp: xdr_string_def)
  qed
  then show "v1 = v \<and> grows w R w1 \<and> (\<exists>d. sent w1 = sent w @ d \<and> 4 dvd length d \<and>
      (\<forall>v0. read_as (xdr_string limit) (\<lambda>v0 v v'. text_as v v') d v v0))"
    using d 1(4) by auto
qed

section \<open>Numbers\<close>

lemma back_long [back_rules]: "reads_back xdr_long (\<lambda>v. True) (\<lambda>v0 v v'. v' = ucast (ucast v :: 32 word))"
proof (rule reads_backI)
  fix v w R v1 w1 assume g: "good w R" and e: "xdr_long XDR_ENCODE v w = Some (XDR_TRUE, v1, w1)"
  have a: "append_mem (be32 (ucast v)) v w = Some (XDR_TRUE, v1, w1)"
    using e by (simp add: xdr_long_def)
  have "read_as xdr_long (\<lambda>v0 v v'. v' = ucast (ucast v :: 32 word)) (be32 (ucast v)) v v0" for v0
    unfolding read_as_def
  proof (intro allI impI)
    fix w R rest assume w: "good w R" "sent w = be32 (ucast v) @ rest"
    obtain w' where "pop_msg 4 w = Some (be32 (ucast v), w')" "kept w R w'" "sent w' = rest"
      using pop_msg_ok [OF w] by auto
    then show "\<exists>v' w'. xdr_long XDR_DECODE v0 w = Some (XDR_TRUE, v', w') \<and> kept w R w' \<and> sent w' = rest \<and>
        v' = ucast (ucast v :: 32 word)"
      by (auto simp: xdr_long_def)
  qed
  then show "v1 = v \<and> grows w R w1 \<and> (\<exists>d. sent w1 = sent w @ d \<and> 4 dvd length d \<and>
      (\<forall>v0. read_as xdr_long (\<lambda>v0 v v'. v' = ucast (ucast v :: 32 word)) d v v0))"
    using append_mem_sends [OF g a] by (intro conjI exI [of _ "be32 (ucast v)"]) auto
qed

lemma ucast_long: "ucast (ucast (x :: 32 word) :: 64 word) = x"
  by (rule bit_word_eqI) (simp add: bit_ucast_iff)

lemma scast_long: "ucast (scast (x :: 32 word) :: 64 word) = x"
proof (rule bit_word_eqI)
  fix n assume "n < LENGTH(32)"
  then have "min (LENGTH(32) - 1) n = n" by simp
  then show "bit (ucast (scast x :: 64 word) :: 32 word) n = bit x n"
    using \<open>n < LENGTH(32)\<close> by (simp add: bit_ucast_iff bit_signed_iff)
qed

lemma back_through:
  assumes "\<And>x. ucast (to x) = x"
  shows "reads_back (through_long to) (\<lambda>v. True) (\<lambda>v0 v v'. v' = v)"
proof (rule reads_backI)
  fix v w R v1 w1 assume g: "good w R" and "through_long to XDR_ENCODE v w = Some (XDR_TRUE, v1, w1)"
  then obtain x where x: "xdr_long XDR_ENCODE (to v) w = Some (XDR_TRUE, x, w1)" "v1 = ucast x"
    by (auto simp: through_long_def bind_eq_Some_conv)
  obtain d where d: "x = to v" "grows w R w1" "sent w1 = sent w @ d" "4 dvd length d"
      "\<And>v0. read_as xdr_long (\<lambda>v0 v v'. v' = ucast (ucast v :: 32 word)) d (to v) v0"
    using reads_backE [OF back_long _ g x(1)] by blast
  have "read_as (through_long to) (\<lambda>v0 v v'. v' = v) d v v0" for v0
    unfolding read_as_def
  proof (intro allI impI)
    fix w R rest assume w: "good w R" "sent w = d @ rest"
    obtain w' where "xdr_long XDR_DECODE (to v0) w = Some (XDR_TRUE, ucast v, w')" "kept w R w'" "sent w' = rest"
      using read_asE [OF d(5) w] assms by metis
    then show "\<exists>v' w'. through_long to XDR_DECODE v0 w = Some (XDR_TRUE, v', w') \<and> kept w R w' \<and> sent w' = rest \<and> v' = v"
      by (auto simp: through_long_def ucast_long)
  qed
  then show "v1 = v \<and> grows w R w1 \<and> (\<exists>d. sent w1 = sent w @ d \<and> 4 dvd length d \<and>
      (\<forall>v0. read_as (through_long to) (\<lambda>v0 v v'. v' = v) d v v0))"
    using d x(2) assms by auto
qed

lemma back_numbers [back_rules]:
  "reads_back xdr_enum (\<lambda>v. True) (\<lambda>v0 v v'. v' = v)"
  "reads_back xdr_uint32 (\<lambda>v. True) (\<lambda>v0 v v'. v' = v)"
  "reads_back xdr_int (\<lambda>v. True) (\<lambda>v0 v v'. v' = v)"
  "reads_back xdr_bool (\<lambda>v. True) (\<lambda>v0 v v'. v' = v)"
  unfolding xdr_enum_def xdr_uint32_def xdr_int_def xdr_bool_def
  by (rule back_through, rule scast_long ucast_long)+

definition be64 :: "64 word \<Rightarrow> octet list" where
  "be64 val = List.map (\<lambda>i. ucast (drop_bit i val AND 0xFF)) [56, 48, 40, 32, 24, 16, 8, 0]"

lemma be64_halves:
  "take 4 (be64 x) = be32 (ucast (drop_bit 32 x))" "drop 4 (be64 x) = be32 (ucast x)" "length (be64 x) = 8"
proof -
  have "(0xFF :: 64 word) = mask 8" by (simp add: mask_eq_exp_minus_1)
  then have b: "(ucast (y AND 0xFF) :: octet) = ucast y" for y :: "64 word"
    unfolding \<open>0xFF = mask 8\<close> by (intro octet_eqI) (simp add: bit_ucast_iff bit_and_iff bit_mask_iff)
  have d: "(ucast (drop_bit n (ucast y :: 32 word)) :: octet) = ucast (drop_bit n y)" if "n \<le> 24" for n and y :: "64 word"
    by (rule octet_eqI) (use that in \<open>auto simp: bit_ucast_iff bit_drop_bit_eq\<close>)
  have u: "(ucast (ucast y :: 32 word) :: octet) = ucast y" for y :: "64 word"
    by (rule octet_eqI) (auto simp: bit_ucast_iff)
  show "take 4 (be64 x) = be32 (ucast (drop_bit 32 x))" "drop 4 (be64 x) = be32 (ucast x)" "length (be64 x) = 8"
    by (simp_all add: be64_def be32_def b d u drop_bit_drop_bit)
qed

lemma of_halves: "push_bit 32 (ucast (ucast (drop_bit 32 x) :: 32 word)) OR ucast (ucast x :: 32 word) = (x :: 64 word)"
  by (rule bit_word_eqI) (auto simp: bit_or_iff bit_push_bit_iff bit_ucast_iff bit_drop_bit_eq)

lemma back_uint64 [back_rules]: "reads_back xdr_uint64 (\<lambda>v. True) (\<lambda>v0 v v'. v' = v)"
proof (rule reads_backI)
  fix v w R v1 w1 assume g: "good w R" and "xdr_uint64 XDR_ENCODE v w = Some (XDR_TRUE, v1, w1)"
  then obtain b where b: "xdr_opaque 8 XDR_ENCODE (be64 v) w = Some (XDR_TRUE, b, w1)" "v1 = v"
    by (auto simp: xdr_uint64_def be64_def bind_eq_Some_conv)
  obtain d where d: "grows w R w1" "sent w1 = sent w @ d" "4 dvd length d"
      "\<And>v0. read_as (xdr_opaque 8) (\<lambda>v0 v v'. take 8 v' = take 8 v) d (be64 v) v0"
    using reads_backE [OF back_opaque _ g b(1)] by metis
  have enc: "sent w1 = sent w @ be64 v"
    using opaque_encodes(4) [OF g b(1)] be64_halves(3) by (simp add: tail_of_def)
  then have d8: "d = be64 v" using d(2) by simp
  have "read_as xdr_uint64 (\<lambda>v0 v v'. v' = v) d v v0" for v0
    unfolding read_as_def
  proof (intro allI impI)
    fix w R rest assume w: "good w R" "sent w = d @ rest"
    then obtain w' where "xdr_opaque 8 XDR_DECODE (replicate 8 0) w = Some (XDR_TRUE, be64 v, w')" "kept w R w'" "sent w' = rest"
      using opaque_decodes [OF w(1), of "be64 v" 8 rest "replicate 8 0"] be64_halves(3) d8 by (auto simp: tail_of_def)
    then show "\<exists>v' w'. xdr_uint64 XDR_DECODE v0 w = Some (XDR_TRUE, v', w') \<and> kept w R w' \<and> sent w' = rest \<and> v' = v"
      by (auto simp: xdr_uint64_def be64_halves of_halves)
  qed
  then show "v1 = v \<and> grows w R w1 \<and> (\<exists>d. sent w1 = sent w @ d \<and> 4 dvd length d \<and>
      (\<forall>v0. read_as xdr_uint64 (\<lambda>v0 v v'. v' = v) d v v0))"
    using d b(2) by auto
qed

section \<open>Pointers\<close>

lemma back_reference:
  assumes c: "reads_back c P S"
  shows "reads_back (xdr_reference blank c) (\<lambda>p. case p of None \<Rightarrow> True | Some x \<Rightarrow> P x)
    (\<lambda>p0 p p'. \<exists>x x'. p = Some x \<and> p' = Some x' \<and> S (case p0 of None \<Rightarrow> blank | Some y \<Rightarrow> y) x x')"
proof (rule reads_backI)
  fix p w R p1 w1 assume P: "case p of None \<Rightarrow> True | Some x \<Rightarrow> P x" and g: "good w R"
    and "xdr_reference blank c XDR_ENCODE p w = Some (XDR_TRUE, p1, w1)"
  then obtain x x1 where x: "p = Some x" "c XDR_ENCODE x w = Some (XDR_TRUE, x1, w1)" "p1 = Some x1" "P x"
    by (auto simp: xdr_reference_def bind_eq_Some_conv split: option.splits)
  obtain d where d: "x1 = x" "grows w R w1" "sent w1 = sent w @ d" "4 dvd length d" "\<And>v0. read_as c S d x v0"
    using reads_backE [OF c x(4) g x(2)] by blast
  let ?S = "\<lambda>p0 p p'. \<exists>x x'. p = Some x \<and> p' = Some x' \<and> S (case p0 of None \<Rightarrow> blank | Some y \<Rightarrow> y) x x'"
  have "read_as (xdr_reference blank c) ?S d p p0" for p0
    unfolding read_as_def
  proof (intro allI impI)
    fix w R rest assume w: "good w R" "sent w = d @ rest"
    obtain w1 where w1: "case p0 of None \<Rightarrow> ymalloc w = (True, w1) | Some y \<Rightarrow> w1 = w" "kept w R w1" "sent w1 = d @ rest"
      by (cases p0) (use ymalloc_ok [OF w(1)] kept_refl [OF w(1)] w(2) in auto)
    obtain x' w' where "c XDR_DECODE (case p0 of None \<Rightarrow> blank | Some y \<Rightarrow> y) w1 = Some (XDR_TRUE, x', w')" "kept w1 R w'"
        "sent w' = rest" "S (case p0 of None \<Rightarrow> blank | Some y \<Rightarrow> y) x x'"
      using read_asE [OF d(5) kept_good [OF w1(2)] w1(3)] by blast
    then show "\<exists>v' w'. xdr_reference blank c XDR_DECODE p0 w = Some (XDR_TRUE, v', w') \<and> kept w R w' \<and> sent w' = rest \<and> ?S p0 p v'"
      using w1 x(1) kept_trans [OF w1(2)] by (cases p0) (auto simp: xdr_reference_def)
  qed
  then show "p1 = p \<and> grows w R w1 \<and> (\<exists>d. sent w1 = sent w @ d \<and> 4 dvd length d \<and>
      (\<forall>p0. read_as (xdr_reference blank c) ?S d p p0))"
    using d x by auto
qed

lemma back_pointer [back_rules]:
  assumes c: "reads_back c P S"
  shows "reads_back (xdr_pointer blank c) (\<lambda>p. case p of None \<Rightarrow> True | Some x \<Rightarrow> P x)
    (\<lambda>p0 p p'. case p of None \<Rightarrow> p' = None
      | Some x \<Rightarrow> \<exists>x'. p' = Some x' \<and> S (case p0 of None \<Rightarrow> blank | Some y \<Rightarrow> y) x x')" (is "reads_back _ ?P ?S")
proof (rule reads_backI)
  fix p w R p1 w1 assume P: "?P p" and g: "good w R" and e: "xdr_pointer blank c XDR_ENCODE p w = Some (XDR_TRUE, p1, w1)"
  let ?more = "\<lambda>p. if p \<noteq> None then 1 else (0 :: 32 word)"
  obtain more w2 where 1: "xdr_bool XDR_ENCODE (?more p) w = Some (XDR_TRUE, more, w2)"
      "(if more = 0 then Some (XDR_TRUE, None, w2) else xdr_reference blank c XDR_ENCODE p w2) = Some (XDR_TRUE, p1, w1)"
    using e by (auto simp: xdr_pointer_def bind_eq_Some_conv split: if_splits)
  obtain d where d: "more = ?more p" "grows w R w2" "sent w2 = sent w @ d" "4 dvd length d"
      "\<And>v0. read_as xdr_bool (\<lambda>v0 v v'. v' = v) d (?more p) v0"
    using reads_backE [OF back_numbers(4) _ g 1(1)] by blast
  have read: "\<exists>w'. xdr_pointer blank c XDR_DECODE p0 w =
      (if p = None then Some (XDR_TRUE, None, w') else xdr_reference blank c XDR_DECODE p0 w') \<and> kept w R w' \<and> sent w' = rest"
    if w: "good w R" "sent w = d @ rest" for p0 w R rest
  proof -
    obtain v' w' where "xdr_bool XDR_DECODE (?more p0) w = Some (XDR_TRUE, v', w')" "kept w R w'" "sent w' = rest" "v' = ?more p"
      by (rule read_asE [OF d(5) [of "?more p0"] w])
    then show ?thesis by (intro exI [of _ w']) (simp add: xdr_pointer_def)
  qed
  show "p1 = p \<and> grows w R w1 \<and> (\<exists>d. sent w1 = sent w @ d \<and> 4 dvd length d \<and>
      (\<forall>p0. read_as (xdr_pointer blank c) ?S d p p0))"
  proof (cases p)
    case None
    have "read_as (xdr_pointer blank c) ?S d p p0" for p0
      unfolding read_as_def
    proof (intro allI impI)
      fix w R rest assume "good w R" "sent w = d @ rest"
      from read [OF this, of p0] None show "\<exists>v' w'. xdr_pointer blank c XDR_DECODE p0 w = Some (XDR_TRUE, v', w') \<and>
          kept w R w' \<and> sent w' = rest \<and> ?S p0 p v'" by auto
    qed
    then show ?thesis using None 1(2) d by auto
  next
    case (Some x)
    then have e2: "xdr_reference blank c XDR_ENCODE p w2 = Some (XDR_TRUE, p1, w1)"
      using 1(2) d(1) by simp
    obtain f where f: "p1 = p" "grows w2 R w1" "sent w1 = sent w2 @ f" "4 dvd length f"
        "\<And>p0. read_as (xdr_reference blank c) (\<lambda>p0 p p'. \<exists>x x'. p = Some x \<and> p' = Some x' \<and>
            S (case p0 of None \<Rightarrow> blank | Some y \<Rightarrow> y) x x') f p p0"
      by (rule reads_backE [OF back_reference [OF c, of blank] P grows_good [OF d(2)] e2]) blast
    have "read_as (xdr_pointer blank c) ?S (d @ f) p p0" for p0
      unfolding read_as_def
    proof (intro allI impI)
      fix w R rest assume w: "good w R" "sent w = (d @ f) @ rest"
      obtain w2 where w2: "xdr_pointer blank c XDR_DECODE p0 w = xdr_reference blank c XDR_DECODE p0 w2" "kept w R w2"
          "sent w2 = f @ rest"
        using read [OF w(1), of "f @ rest" p0] w(2) Some by auto
      obtain v' w3 where "xdr_reference blank c XDR_DECODE p0 w2 = Some (XDR_TRUE, v', w3)" "kept w2 R w3" "sent w3 = rest"
          "\<exists>x x'. p = Some x \<and> v' = Some x' \<and> S (case p0 of None \<Rightarrow> blank | Some y \<Rightarrow> y) x x'"
        by (rule read_asE [OF f(5) [of p0] kept_good [OF w2(2)] w2(3)])
      then show "\<exists>v' w'. xdr_pointer blank c XDR_DECODE p0 w = Some (XDR_TRUE, v', w') \<and> kept w R w' \<and> sent w' = rest \<and> ?S p0 p v'"
        using w2(1) kept_trans [OF w2(2)] by auto
    qed
    then show ?thesis using d f grows_trans [OF d(2) f(2)] by (intro conjI exI [of _ "d @ f"]) auto
  qed
qed

end
