(* ===== verification/NfsBack.thy ===== *)
theory NfsBack
  imports NfsXdr XdrSpec
begin

text \<open>
  Every structure of the NFS protocol reads back as it was sent, apart from those that carry file data, the arguments of a
  write and the result of a read. \<open>same_s\<close> relates the structure \<open>s\<close> that was sent and the one that was read: they are
  equal in what the tags choose, a string has the same characters, and memory the same bytes. \<open>ok_s\<close> asks of the
  strings that their lengths can be counted.
\<close>

section \<open>Lists\<close>

definition same_next :: "('a \<Rightarrow> bool) option \<Rightarrow> 'a option \<Rightarrow> bool" where
  "same_next q p' = (case q of None \<Rightarrow> Option.is_none p' | Some P \<Rightarrow> (case p' of None \<Rightarrow> False | Some x' \<Rightarrow> P x'))"

definition ok_next :: "bool option \<Rightarrow> bool" where
  "ok_next q = (case q of None \<Rightarrow> True | Some b \<Rightarrow> b)"

lemma back_each_object: "(\<And>x. P x \<Longrightarrow> reads_back c (\<lambda>v. v = x) S) \<Longrightarrow> reads_back c P S"
  unfolding reads_back_def by blast

text \<open>The pointer of a node, where what it leads to is known to read back.\<close>

lemma back_next:
  assumes "\<And>y. p = Some y \<Longrightarrow> reads_back c (\<lambda>v. v = y) (\<lambda>_. same)"
  shows "reads_back (xdr_pointer blank c) (\<lambda>q. q = p) (\<lambda>_ q. same_next (map_option same q))"
proof -
  have "reads_back c (\<lambda>y. p = Some y) (\<lambda>_. same)"
    by (rule back_each_object) (use assms in auto)
  then show ?thesis
    by (rule reads_back_mono [OF back_pointer]) (auto simp: same_next_def split: option.splits)
qed

lemma back_list [back_rules]:
  assumes "reads_back c ok (\<lambda>_. same)"
  shows "reads_back (xdr_pointer blank c) (\<lambda>p. ok_next (map_option ok p)) (\<lambda>_ p. same_next (map_option same p))"
  by (rule reads_back_mono [OF back_pointer [OF assms]]) (auto simp: same_next_def ok_next_def split: option.splits)

section \<open>Structures\<close>

lemma unat_all: "unat (- 1 :: 32 word) = 2 ^ 32 - 1"
  by (simp add: unsigned_minus_1_eq_mask mask_eq_exp_minus_1)

lemma back_dirpath [back_rules]: "reads_back xdr_dirpath (\<lambda>v. c_length v \<le> 1024) (\<lambda>v0. text_as)"
  unfolding xdr_dirpath_def by (rule reads_back_mono, (rule back_rules)+) (auto simp: unat_all)

lemma back_mountstat [back_rules]: "reads_back xdr_mountstat (\<lambda>v. True) (\<lambda>v0 v v'. v' = v)"
  unfolding xdr_mountstat_def by (rule back_rules)+

definition same_fhandle :: "fhandle \<Rightarrow> fhandle \<Rightarrow> bool" where
  "same_fhandle v v' \<longleftrightarrow> bytes_as (fhandle_val v, fhandle_len v) (fhandle_val v', fhandle_len v')"

definition ok_fhandle :: "fhandle \<Rightarrow> bool" where
  "ok_fhandle v \<longleftrightarrow> fhandle_len v \<le> 64"

lemma back_fhandle [back_rules]: "reads_back xdr_fhandle ok_fhandle (\<lambda>v0. same_fhandle)"
  unfolding xdr_fhandle_def by (rule reads_back_mono, (rule back_rules | simp; fail)+) (auto simp: same_fhandle_def ok_fhandle_def)

text \<open>A handle that was sent has 24 bytes.\<close>

definition same_nfs_fh3 :: "nfs_fh3 \<Rightarrow> nfs_fh3 \<Rightarrow> bool" where
  "same_nfs_fh3 v v' \<longleftrightarrow> bytes_as (nfs_fh3_val v, nfs_fh3_len v) (nfs_fh3_val v', nfs_fh3_len v')"

definition handle_ok :: "nfs_fh3 \<Rightarrow> bool" where
  "handle_ok fh \<longleftrightarrow>
     (\<exists>d i vol. nfs_fh3_val fh = Some d \<and> chkid_idx d = Some 0 \<and> chkid_id d = Some i \<and> chkid_volid d = Some vol \<and>
        i \<noteq> 0 \<and> vol \<noteq> 0 \<and> nfs_fh3_len fh = 24)"

abbreviation handle_bytes :: "nfs_fh3 xdr" where
  "handle_bytes \<equiv> field2 nfs_fh3_val nfs_fh3_val_update nfs_fh3_len nfs_fh3_len_update (xdr_bytes NFS3_FHSIZE)"

lemma nfs_fh3_True:
  assumes "op \<noteq> XDR_FREE"
  shows "xdr_nfs_fh3 op fh w = Some (XDR_TRUE, fh', w') \<longleftrightarrow> handle_bytes op fh w = Some (XDR_TRUE, fh', w') \<and> handle_ok fh'"
  using assms
  by (cases w') (auto simp: xdr_nfs_fh3_def on_true_True handle_ok_def asserts_def bind_eq_Some_conv split: if_splits)

lemma le_at_take: "k + n \<le> m \<Longrightarrow> m \<le> length d \<Longrightarrow> le_at k n (take m d @ r) = le_at k n d"
  by (simp add: le_at_def take_drop min_def)

lemma handle_ok_same: "same_nfs_fh3 v v' \<Longrightarrow> handle_ok v \<Longrightarrow> unat (nfs_fh3_len v) \<le> length (the (nfs_fh3_val v)) \<Longrightarrow> handle_ok v'"
  by (auto simp: same_nfs_fh3_def bytes_as_def handle_ok_def chkid_id_def chkid_volid_def chkid_idx_def le_at_take)

lemma back_handle_bytes: "reads_back handle_bytes (\<lambda>v. nfs_fh3_len v \<le> 64) (\<lambda>_. same_nfs_fh3)"
  by (rule reads_back_mono, (rule back_rules | simp; fail)+) (auto simp: same_nfs_fh3_def)

lemma handle_bytes_length:
  assumes "good w R" "handle_bytes XDR_ENCODE v w = Some (XDR_TRUE, v1, w1)"
  shows "v1 = v" "unat (nfs_fh3_len v) \<le> length (the (nfs_fh3_val v))"
proof -
  obtain p n where b: "xdr_bytes NFS3_FHSIZE XDR_ENCODE (nfs_fh3_val v, nfs_fh3_len v) w = Some (XDR_TRUE, (p, n), w1)"
      "v1 = nfs_fh3_val_update (\<lambda>_. p) (nfs_fh3_len_update (\<lambda>_. n) v)"
    using assms(2) by (auto simp: field2_def split: option.splits)
  obtain q where "(p, n) = (nfs_fh3_val v, nfs_fh3_len v)" "nfs_fh3_val v = Some q" "unat (nfs_fh3_len v) \<le> length q"
    by (rule bytes_encodes [OF assms(1) b(1)]) simp
  then show "v1 = v" "unat (nfs_fh3_len v) \<le> length (the (nfs_fh3_val v))"
    using b(2) by simp_all
qed

lemma back_nfs_fh3 [back_rules]: "reads_back xdr_nfs_fh3 (\<lambda>v. True) (\<lambda>_. same_nfs_fh3)"
proof (rule reads_backI)
  fix v w R v1 w1 assume g: "good w R" and e: "xdr_nfs_fh3 XDR_ENCODE v w = Some (XDR_TRUE, v1, w1)"
  then have b: "handle_bytes XDR_ENCODE v w = Some (XDR_TRUE, v1, w1)" and ok1: "handle_ok v1"
    by (simp_all add: nfs_fh3_True)
  note len = handle_bytes_length(2) [OF g b]
  have "v1 = v" by (rule handle_bytes_length [OF g b])
  then have ok: "handle_ok v" and "nfs_fh3_len v \<le> 64" using ok1 by (auto simp: handle_ok_def)
  obtain d where d: "v1 = v" "grows w R w1" "sent w1 = sent w @ d" "4 dvd length d"
      "\<And>v0. read_as handle_bytes (\<lambda>_. same_nfs_fh3) d v v0"
    by (rule reads_backE [OF back_handle_bytes \<open>nfs_fh3_len v \<le> 64\<close> g b]) blast
  have "read_as xdr_nfs_fh3 (\<lambda>_. same_nfs_fh3) d v v0" for v0
    unfolding read_as_def
  proof (intro allI impI)
    fix w R rest assume w: "good w R" "sent w = d @ rest"
    obtain v' w' where "handle_bytes XDR_DECODE v0 w = Some (XDR_TRUE, v', w')" "kept w R w'" "sent w' = rest" "same_nfs_fh3 v v'"
      by (rule read_asE [OF d(5) w])
    then show "\<exists>v' w'. xdr_nfs_fh3 XDR_DECODE v0 w = Some (XDR_TRUE, v', w') \<and> kept w R w' \<and> sent w' = rest \<and> same_nfs_fh3 v v'"
      using handle_ok_same [OF _ ok len] by (auto simp: nfs_fh3_True)
  qed
  then show "v1 = v \<and> grows w R w1 \<and> (\<exists>d. sent w1 = sent w @ d \<and> 4 dvd length d \<and>
      (\<forall>v0. read_as xdr_nfs_fh3 (\<lambda>_. same_nfs_fh3) d v v0))"
    using d by auto
qed

definition same_getattr_args :: "getattr_args \<Rightarrow> getattr_args \<Rightarrow> bool" where
  "same_getattr_args v v' \<longleftrightarrow> same_nfs_fh3 (getattr_args_obj v) (getattr_args_obj v')"

lemma back_getattrargs [back_rules]: "reads_back xdr_getattrargs (\<lambda>v. True) (\<lambda>v0. same_getattr_args)"
  unfolding xdr_getattrargs_def by (rule reads_back_mono, (rule back_rules | simp; fail)+) (auto simp: same_getattr_args_def)

lemma back_nfs3_stat [back_rules]: "reads_back xdr_nfs3_stat (\<lambda>v. True) (\<lambda>v0 v v'. v' = v)"
  unfolding xdr_nfs3_stat_def by (rule back_rules)+

lemma back_ftype [back_rules]: "reads_back xdr_ftype (\<lambda>v. True) (\<lambda>v0 v v'. v' = v)"
  unfolding xdr_ftype_def by (rule back_rules)+

lemma back_mode [back_rules]: "reads_back xdr_mode (\<lambda>v. True) (\<lambda>v0 v v'. v' = v)"
  unfolding xdr_mode_def by (rule back_rules)+

lemma back_specdata [back_rules]: "reads_back xdr_specdata (\<lambda>v. True) (\<lambda>v0 v v'. v' = v)"
  unfolding xdr_specdata_def by (rule reads_back_mono, (rule back_rules | simp; fail)+)

lemma back_time [back_rules]: "reads_back xdr_time (\<lambda>v. True) (\<lambda>v0 v v'. v' = v)"
  unfolding xdr_time_def by (rule reads_back_mono, (rule back_rules | simp; fail)+)

lemma back_fattr [back_rules]: "reads_back xdr_fattr (\<lambda>v. True) (\<lambda>v0 v v'. v' = v)"
  unfolding xdr_fattr_def by (rule reads_back_mono, (rule back_rules | simp; fail)+)

lemma back_getattrretok [back_rules]: "reads_back xdr_getattrretok (\<lambda>v. True) (\<lambda>v0 v v'. v' = v)"
  unfolding xdr_getattrretok_def by (rule reads_back_mono, (rule back_rules | simp; fail)+)

definition same_getattr_ret :: "getattr_ret \<Rightarrow> getattr_ret \<Rightarrow> bool" where
  "same_getattr_ret v v' \<longleftrightarrow> getattr_ret_status v' = getattr_ret_status v \<and>
     (getattr_ret_status v = NFS3_OK \<longrightarrow> getattr_ret_attr v' = getattr_ret_attr v)"

lemma back_getattrret [back_rules]: "reads_back xdr_getattrret (\<lambda>v. True) (\<lambda>v0. same_getattr_ret)"
  unfolding xdr_getattrret_def by (rule reads_back_mono, (rule back_rules | simp; fail)+) (auto simp: same_getattr_ret_def split: if_splits)

lemma back_name [back_rules]: "reads_back xdr_name (\<lambda>v. c_length v < 2 ^ 32) (\<lambda>v0. text_as)"
  unfolding xdr_name_def by (rule reads_back_mono, (rule back_rules)+) (auto simp: unat_all)

lemma back_nfspath3 [back_rules]: "reads_back xdr_nfspath3 (\<lambda>v. c_length v < 2 ^ 32) (\<lambda>v0. text_as)"
  unfolding xdr_nfspath3_def by (rule reads_back_mono, (rule back_rules)+) (auto simp: unat_all)

definition same_diropargs3 :: "diropargs3 \<Rightarrow> diropargs3 \<Rightarrow> bool" where
  "same_diropargs3 v v' \<longleftrightarrow> same_nfs_fh3 (diropargs3_dir v) (diropargs3_dir v') \<and>
     text_as (diropargs3_name v) (diropargs3_name v')"

definition ok_diropargs3 :: "diropargs3 \<Rightarrow> bool" where
  "ok_diropargs3 v \<longleftrightarrow> c_length (diropargs3_name v) < 2 ^ 32"

lemma back_diropargs [back_rules]: "reads_back xdr_diropargs ok_diropargs3 (\<lambda>v0. same_diropargs3)"
  unfolding xdr_diropargs_def by (rule reads_back_mono, (rule back_rules | simp; fail)+) (auto simp: same_diropargs3_def ok_diropargs3_def)

lemma back_lookupargs [back_rules]: "reads_back xdr_lookupargs ok_diropargs3 (\<lambda>v0. same_diropargs3)"
  unfolding xdr_lookupargs_def by (rule reads_back_mono, (rule back_rules | simp; fail)+)

definition same_post_op_attr :: "post_op_attr \<Rightarrow> post_op_attr \<Rightarrow> bool" where
  "same_post_op_attr v v' \<longleftrightarrow> post_op_attr_attr_follow v' = post_op_attr_attr_follow v \<and>
     (post_op_attr_attr_follow v = 1 \<longrightarrow> post_op_attr_attr v' = post_op_attr_attr v)"

lemma back_post_op_attr [back_rules]: "reads_back xdr_post_op_attr (\<lambda>v. True) (\<lambda>v0. same_post_op_attr)"
  unfolding xdr_post_op_attr_def by (rule reads_back_mono, (rule back_rules | simp; fail)+) (auto simp: same_post_op_attr_def split: if_splits)

definition same_lookup_retfail :: "lookup_retfail \<Rightarrow> lookup_retfail \<Rightarrow> bool" where
  "same_lookup_retfail v v' \<longleftrightarrow> same_post_op_attr (lookup_retfail_dir_attr v) (lookup_retfail_dir_attr v')"

lemma back_lookupretfail [back_rules]: "reads_back xdr_lookupretfail (\<lambda>v. True) (\<lambda>v0. same_lookup_retfail)"
  unfolding xdr_lookupretfail_def by (rule reads_back_mono, (rule back_rules | simp; fail)+) (auto simp: same_lookup_retfail_def)

definition same_lookup_retok :: "lookup_retok \<Rightarrow> lookup_retok \<Rightarrow> bool" where
  "same_lookup_retok v v' \<longleftrightarrow> same_nfs_fh3 (lookup_retok_obj v) (lookup_retok_obj v') \<and>
     same_post_op_attr (lookup_retok_obj_attr v) (lookup_retok_obj_attr v') \<and>
     same_post_op_attr (lookup_retok_dir_attr v) (lookup_retok_dir_attr v')"

lemma back_lookupretok [back_rules]: "reads_back xdr_lookupretok (\<lambda>v. True) (\<lambda>v0. same_lookup_retok)"
  unfolding xdr_lookupretok_def by (rule reads_back_mono, (rule back_rules | simp; fail)+) (auto simp: same_lookup_retok_def)

definition same_lookup_ret :: "lookup_ret \<Rightarrow> lookup_ret \<Rightarrow> bool" where
  "same_lookup_ret v v' \<longleftrightarrow> lookup_ret_status v' = lookup_ret_status v \<and>
     (lookup_ret_status v = NFS3_OK \<longrightarrow> same_lookup_retok (lookup_ret_ok v) (lookup_ret_ok v')) \<and>
     (lookup_ret_status v \<noteq> NFS3_OK \<longrightarrow> same_lookup_retfail (lookup_ret_fail v) (lookup_ret_fail v'))"

lemma back_lookupret [back_rules]: "reads_back xdr_lookupret (\<lambda>v. True) (\<lambda>v0. same_lookup_ret)"
  unfolding xdr_lookupret_def by (rule reads_back_mono, (rule back_rules | simp; fail)+) (auto simp: same_lookup_ret_def split: if_splits)

definition same_access_args :: "access_args \<Rightarrow> access_args \<Rightarrow> bool" where
  "same_access_args v v' \<longleftrightarrow> same_nfs_fh3 (access_args_obj v) (access_args_obj v') \<and>
     access_args_access v' = access_args_access v"

lemma back_accessargs [back_rules]: "reads_back xdr_accessargs (\<lambda>v. True) (\<lambda>v0. same_access_args)"
  unfolding xdr_accessargs_def by (rule reads_back_mono, (rule back_rules | simp; fail)+) (auto simp: same_access_args_def)

definition same_access_retok :: "access_retok \<Rightarrow> access_retok \<Rightarrow> bool" where
  "same_access_retok v v' \<longleftrightarrow> same_post_op_attr (access_retok_obj_attr v) (access_retok_obj_attr v') \<and>
     access_retok_access v' = access_retok_access v"

lemma back_accessretok [back_rules]: "reads_back xdr_accessretok (\<lambda>v. True) (\<lambda>v0. same_access_retok)"
  unfolding xdr_accessretok_def by (rule reads_back_mono, (rule back_rules | simp; fail)+) (auto simp: same_access_retok_def)

definition same_access_retfail :: "access_retfail \<Rightarrow> access_retfail \<Rightarrow> bool" where
  "same_access_retfail v v' \<longleftrightarrow> same_post_op_attr (access_retfail_obj_attr v) (access_retfail_obj_attr v')"

lemma back_accessretfail [back_rules]: "reads_back xdr_accessretfail (\<lambda>v. True) (\<lambda>v0. same_access_retfail)"
  unfolding xdr_accessretfail_def by (rule reads_back_mono, (rule back_rules | simp; fail)+) (auto simp: same_access_retfail_def)

definition same_access_ret :: "access_ret \<Rightarrow> access_ret \<Rightarrow> bool" where
  "same_access_ret v v' \<longleftrightarrow> access_ret_status v' = access_ret_status v \<and>
     (access_ret_status v = NFS3_OK \<longrightarrow> same_access_retok (access_ret_ok v) (access_ret_ok v')) \<and>
     (access_ret_status v \<noteq> NFS3_OK \<longrightarrow> same_access_retfail (access_ret_fail v) (access_ret_fail v'))"

lemma back_accessret [back_rules]: "reads_back xdr_accessret (\<lambda>v. True) (\<lambda>v0. same_access_ret)"
  unfolding xdr_accessret_def by (rule reads_back_mono, (rule back_rules | simp; fail)+) (auto simp: same_access_ret_def split: if_splits)

definition same_read_args :: "read_args \<Rightarrow> read_args \<Rightarrow> bool" where
  "same_read_args v v' \<longleftrightarrow> same_nfs_fh3 (read_args_file v) (read_args_file v') \<and>
     read_args_offset v' = read_args_offset v \<and>
     read_args_count v' = read_args_count v"

lemma back_readargs [back_rules]: "reads_back xdr_readargs (\<lambda>v. True) (\<lambda>v0. same_read_args)"
  unfolding xdr_readargs_def by (rule reads_back_mono, (rule back_rules | simp; fail)+) (auto simp: same_read_args_def)

definition same_read_retfail :: "read_retfail \<Rightarrow> read_retfail \<Rightarrow> bool" where
  "same_read_retfail v v' \<longleftrightarrow> same_post_op_attr (read_retfail_attr v) (read_retfail_attr v')"

lemma back_readretfail [back_rules]: "reads_back xdr_readretfail (\<lambda>v. True) (\<lambda>v0. same_read_retfail)"
  unfolding xdr_readretfail_def by (rule reads_back_mono, (rule back_rules | simp; fail)+) (auto simp: same_read_retfail_def)

lemma back_stablehow [back_rules]: "reads_back xdr_stablehow (\<lambda>v. True) (\<lambda>v0 v v'. v' = v)"
  unfolding xdr_stablehow_def by (rule back_rules)+

lemma back_wcc_attr [back_rules]: "reads_back xdr_wcc_attr (\<lambda>v. True) (\<lambda>v0 v v'. v' = v)"
  unfolding xdr_wcc_attr_def by (rule reads_back_mono, (rule back_rules | simp; fail)+)

definition same_preop_attr :: "preop_attr \<Rightarrow> preop_attr \<Rightarrow> bool" where
  "same_preop_attr v v' \<longleftrightarrow> preop_attr_attr_follow v' = preop_attr_attr_follow v \<and>
     (preop_attr_attr_follow v = 1 \<longrightarrow> preop_attr_attr v' = preop_attr_attr v)"

lemma back_preop_attr [back_rules]: "reads_back xdr_preop_attr (\<lambda>v. True) (\<lambda>v0. same_preop_attr)"
  unfolding xdr_preop_attr_def by (rule reads_back_mono, (rule back_rules | simp; fail)+) (auto simp: same_preop_attr_def split: if_splits)

definition same_wcc_data :: "wcc_data \<Rightarrow> wcc_data \<Rightarrow> bool" where
  "same_wcc_data v v' \<longleftrightarrow> same_preop_attr (wcc_data_before v) (wcc_data_before v') \<and>
     same_post_op_attr (wcc_data_after v) (wcc_data_after v')"

lemma back_wccdata [back_rules]: "reads_back xdr_wccdata (\<lambda>v. True) (\<lambda>v0. same_wcc_data)"
  unfolding xdr_wccdata_def by (rule reads_back_mono, (rule back_rules | simp; fail)+) (auto simp: same_wcc_data_def)

lemma back_writeverf [back_rules]: "reads_back xdr_writeverf (\<lambda>v. True) (\<lambda>v0 v v'. take 8 v' = take 8 v)"
  unfolding xdr_writeverf_def by (rule back_rules)+

definition same_write_retok :: "write_retok \<Rightarrow> write_retok \<Rightarrow> bool" where
  "same_write_retok v v' \<longleftrightarrow> same_wcc_data (write_retok_file_wcc v) (write_retok_file_wcc v') \<and>
     write_retok_count v' = write_retok_count v \<and>
     write_retok_committed v' = write_retok_committed v \<and>
     take 8 (write_retok_verf v') = take 8 (write_retok_verf v)"

lemma back_writeretok [back_rules]: "reads_back xdr_writeretok (\<lambda>v. True) (\<lambda>v0. same_write_retok)"
  unfolding xdr_writeretok_def by (rule reads_back_mono, (rule back_rules | simp; fail)+) (auto simp: same_write_retok_def)

definition same_write_retfail :: "write_retfail \<Rightarrow> write_retfail \<Rightarrow> bool" where
  "same_write_retfail v v' \<longleftrightarrow> same_wcc_data (write_retfail_file_wcc v) (write_retfail_file_wcc v')"

lemma back_writeretfail [back_rules]: "reads_back xdr_writeretfail (\<lambda>v. True) (\<lambda>v0. same_write_retfail)"
  unfolding xdr_writeretfail_def by (rule reads_back_mono, (rule back_rules | simp; fail)+) (auto simp: same_write_retfail_def)

definition same_write_ret :: "write_ret \<Rightarrow> write_ret \<Rightarrow> bool" where
  "same_write_ret v v' \<longleftrightarrow> write_ret_status v' = write_ret_status v \<and>
     (write_ret_status v = NFS3_OK \<longrightarrow> same_write_retok (write_ret_ok v) (write_ret_ok v')) \<and>
     (write_ret_status v \<noteq> NFS3_OK \<longrightarrow> same_write_retfail (write_ret_fail v) (write_ret_fail v'))"

lemma back_writeret [back_rules]: "reads_back xdr_writeret (\<lambda>v. True) (\<lambda>v0. same_write_ret)"
  unfolding xdr_writeret_def by (rule reads_back_mono, (rule back_rules | simp; fail)+) (auto simp: same_write_ret_def split: if_splits)

lemma back_createmode [back_rules]: "reads_back xdr_createmode (\<lambda>v. True) (\<lambda>v0 v v'. v' = v)"
  unfolding xdr_createmode_def by (rule back_rules)+

definition same_set_mode :: "set_mode \<Rightarrow> set_mode \<Rightarrow> bool" where
  "same_set_mode v v' \<longleftrightarrow> set_mode_set_it v' = set_mode_set_it v \<and>
     (set_mode_set_it v = 1 \<longrightarrow> set_mode_mode v' = set_mode_mode v)"

lemma back_set_mode [back_rules]: "reads_back xdr_set_mode (\<lambda>v. True) (\<lambda>v0. same_set_mode)"
  unfolding xdr_set_mode_def by (rule reads_back_mono, (rule back_rules | simp; fail)+) (auto simp: same_set_mode_def split: if_splits)

definition same_set_uid :: "set_uid \<Rightarrow> set_uid \<Rightarrow> bool" where
  "same_set_uid v v' \<longleftrightarrow> set_uid_set_it v' = set_uid_set_it v \<and>
     (set_uid_set_it v = 1 \<longrightarrow> set_uid_uid v' = set_uid_uid v)"

lemma back_set_uid [back_rules]: "reads_back xdr_set_uid (\<lambda>v. True) (\<lambda>v0. same_set_uid)"
  unfolding xdr_set_uid_def by (rule reads_back_mono, (rule back_rules | simp; fail)+) (auto simp: same_set_uid_def split: if_splits)

definition same_set_gid :: "set_gid \<Rightarrow> set_gid \<Rightarrow> bool" where
  "same_set_gid v v' \<longleftrightarrow> set_gid_set_it v' = set_gid_set_it v \<and>
     (set_gid_set_it v = 1 \<longrightarrow> set_gid_gid v' = set_gid_gid v)"

lemma back_set_gid [back_rules]: "reads_back xdr_set_gid (\<lambda>v. True) (\<lambda>v0. same_set_gid)"
  unfolding xdr_set_gid_def by (rule reads_back_mono, (rule back_rules | simp; fail)+) (auto simp: same_set_gid_def split: if_splits)

definition same_set_size :: "set_size \<Rightarrow> set_size \<Rightarrow> bool" where
  "same_set_size v v' \<longleftrightarrow> set_size_set_it v' = set_size_set_it v \<and>
     (set_size_set_it v = 1 \<longrightarrow> set_size_size v' = set_size_size v)"

lemma back_set_size [back_rules]: "reads_back xdr_set_size (\<lambda>v. True) (\<lambda>v0. same_set_size)"
  unfolding xdr_set_size_def by (rule reads_back_mono, (rule back_rules | simp; fail)+) (auto simp: same_set_size_def split: if_splits)

lemma back_time_how [back_rules]: "reads_back xdr_time_how (\<lambda>v. True) (\<lambda>v0 v v'. v' = v)"
  unfolding xdr_time_how_def by (rule back_rules)+

definition same_set_time :: "set_time \<Rightarrow> set_time \<Rightarrow> bool" where
  "same_set_time v v' \<longleftrightarrow> set_time_set_it v' = set_time_set_it v \<and>
     (set_time_set_it v = SET_TO_CLIENT_TIME \<longrightarrow> set_time_time v' = set_time_time v)"

lemma back_set_time [back_rules]: "reads_back xdr_set_time (\<lambda>v. True) (\<lambda>v0. same_set_time)"
  unfolding xdr_set_time_def by (rule reads_back_mono, (rule back_rules | simp; fail)+) (auto simp: same_set_time_def split: if_splits)

definition same_sattr :: "sattr \<Rightarrow> sattr \<Rightarrow> bool" where
  "same_sattr v v' \<longleftrightarrow> same_set_mode (sattr_mode v) (sattr_mode v') \<and>
     same_set_uid (sattr_uid v) (sattr_uid v') \<and>
     same_set_gid (sattr_gid v) (sattr_gid v') \<and>
     same_set_size (sattr_size v) (sattr_size v') \<and>
     same_set_time (sattr_atime v) (sattr_atime v') \<and>
     same_set_time (sattr_mtime v) (sattr_mtime v')"

lemma back_sattr [back_rules]: "reads_back xdr_sattr (\<lambda>v. True) (\<lambda>v0. same_sattr)"
  unfolding xdr_sattr_def by (rule reads_back_mono, (rule back_rules | simp; fail)+) (auto simp: same_sattr_def)

lemma back_createverf [back_rules]: "reads_back xdr_createverf (\<lambda>v. True) (\<lambda>v0 v v'. take 8 v' = take 8 v)"
  unfolding xdr_createverf_def by (rule back_rules)+

definition same_create_how :: "create_how \<Rightarrow> create_how \<Rightarrow> bool" where
  "same_create_how v v' \<longleftrightarrow> create_how_mode v' = create_how_mode v \<and>
     (create_how_mode v = UNCHECKED \<or> create_how_mode v = GUARDED \<longrightarrow> same_sattr (create_how_attr v) (create_how_attr v')) \<and>
     (create_how_mode v = EXCLUSIVE \<longrightarrow> take 8 (create_how_verf v') = take 8 (create_how_verf v))"

lemma back_createhow [back_rules]: "reads_back xdr_createhow (\<lambda>v. True) (\<lambda>v0. same_create_how)"
  unfolding xdr_createhow_def by (rule reads_back_mono, (rule back_rules | simp; fail)+) (auto simp: same_create_how_def split: if_splits)

definition same_create_args :: "create_args \<Rightarrow> create_args \<Rightarrow> bool" where
  "same_create_args v v' \<longleftrightarrow> same_diropargs3 (create_args_where v) (create_args_where v') \<and>
     same_create_how (create_args_how v) (create_args_how v')"

definition ok_create_args :: "create_args \<Rightarrow> bool" where
  "ok_create_args v \<longleftrightarrow> ok_diropargs3 (create_args_where v)"

lemma back_createargs [back_rules]: "reads_back xdr_createargs ok_create_args (\<lambda>v0. same_create_args)"
  unfolding xdr_createargs_def by (rule reads_back_mono, (rule back_rules | simp; fail)+) (auto simp: same_create_args_def ok_create_args_def)

definition same_postop_fh :: "postop_fh \<Rightarrow> postop_fh \<Rightarrow> bool" where
  "same_postop_fh v v' \<longleftrightarrow> postop_fh_handle_follows v' = postop_fh_handle_follows v \<and>
     (postop_fh_handle_follows v = 1 \<longrightarrow> same_nfs_fh3 (postop_fh_handle v) (postop_fh_handle v'))"

lemma back_postop_fh [back_rules]: "reads_back xdr_postop_fh (\<lambda>v. True) (\<lambda>v0. same_postop_fh)"
  unfolding xdr_postop_fh_def by (rule reads_back_mono, (rule back_rules | simp; fail)+) (auto simp: same_postop_fh_def split: if_splits)

definition same_create_retok :: "create_retok \<Rightarrow> create_retok \<Rightarrow> bool" where
  "same_create_retok v v' \<longleftrightarrow> same_postop_fh (create_retok_obj v) (create_retok_obj v') \<and>
     same_post_op_attr (create_retok_obj_attr v) (create_retok_obj_attr v') \<and>
     same_wcc_data (create_retok_dir_wcc v) (create_retok_dir_wcc v')"

lemma back_createretok [back_rules]: "reads_back xdr_createretok (\<lambda>v. True) (\<lambda>v0. same_create_retok)"
  unfolding xdr_createretok_def by (rule reads_back_mono, (rule back_rules | simp; fail)+) (auto simp: same_create_retok_def)

definition same_create_retfail :: "create_retfail \<Rightarrow> create_retfail \<Rightarrow> bool" where
  "same_create_retfail v v' \<longleftrightarrow> same_wcc_data (create_retfail_dir_wcc v) (create_retfail_dir_wcc v')"

lemma back_createretfail [back_rules]: "reads_back xdr_createretfail (\<lambda>v. True) (\<lambda>v0. same_create_retfail)"
  unfolding xdr_createretfail_def by (rule reads_back_mono, (rule back_rules | simp; fail)+) (auto simp: same_create_retfail_def)

definition same_create_ret :: "create_ret \<Rightarrow> create_ret \<Rightarrow> bool" where
  "same_create_ret v v' \<longleftrightarrow> create_ret_status v' = create_ret_status v \<and>
     (create_ret_status v = NFS3_OK \<longrightarrow> same_create_retok (create_ret_ok v) (create_ret_ok v')) \<and>
     (create_ret_status v \<noteq> NFS3_OK \<longrightarrow> same_create_retfail (create_ret_fail v) (create_ret_fail v'))"

lemma back_createret [back_rules]: "reads_back xdr_createret (\<lambda>v. True) (\<lambda>v0. same_create_ret)"
  unfolding xdr_createret_def by (rule reads_back_mono, (rule back_rules | simp; fail)+) (auto simp: same_create_ret_def split: if_splits)

definition same_mkdir_args :: "mkdir_args \<Rightarrow> mkdir_args \<Rightarrow> bool" where
  "same_mkdir_args v v' \<longleftrightarrow> same_diropargs3 (mkdir_args_where v) (mkdir_args_where v') \<and>
     same_sattr (mkdir_args_attr v) (mkdir_args_attr v')"

definition ok_mkdir_args :: "mkdir_args \<Rightarrow> bool" where
  "ok_mkdir_args v \<longleftrightarrow> ok_diropargs3 (mkdir_args_where v)"

lemma back_mkdirargs [back_rules]: "reads_back xdr_mkdirargs ok_mkdir_args (\<lambda>v0. same_mkdir_args)"
  unfolding xdr_mkdirargs_def by (rule reads_back_mono, (rule back_rules | simp; fail)+) (auto simp: same_mkdir_args_def ok_mkdir_args_def)

definition same_mkdir_retok :: "mkdir_retok \<Rightarrow> mkdir_retok \<Rightarrow> bool" where
  "same_mkdir_retok v v' \<longleftrightarrow> same_postop_fh (mkdir_retok_obj v) (mkdir_retok_obj v') \<and>
     same_post_op_attr (mkdir_retok_obj_attr v) (mkdir_retok_obj_attr v') \<and>
     same_wcc_data (mkdir_retok_dir_wcc v) (mkdir_retok_dir_wcc v')"

lemma back_mkdirretok [back_rules]: "reads_back xdr_mkdirretok (\<lambda>v. True) (\<lambda>v0. same_mkdir_retok)"
  unfolding xdr_mkdirretok_def by (rule reads_back_mono, (rule back_rules | simp; fail)+) (auto simp: same_mkdir_retok_def)

definition same_mkdir_retfail :: "mkdir_retfail \<Rightarrow> mkdir_retfail \<Rightarrow> bool" where
  "same_mkdir_retfail v v' \<longleftrightarrow> same_wcc_data (mkdir_retfail_dir_wcc v) (mkdir_retfail_dir_wcc v')"

lemma back_mkdirretfail [back_rules]: "reads_back xdr_mkdirretfail (\<lambda>v. True) (\<lambda>v0. same_mkdir_retfail)"
  unfolding xdr_mkdirretfail_def by (rule reads_back_mono, (rule back_rules | simp; fail)+) (auto simp: same_mkdir_retfail_def)

definition same_mkdir_ret :: "mkdir_ret \<Rightarrow> mkdir_ret \<Rightarrow> bool" where
  "same_mkdir_ret v v' \<longleftrightarrow> mkdir_ret_status v' = mkdir_ret_status v \<and>
     (mkdir_ret_status v = NFS3_OK \<longrightarrow> same_mkdir_retok (mkdir_ret_ok v) (mkdir_ret_ok v')) \<and>
     (mkdir_ret_status v \<noteq> NFS3_OK \<longrightarrow> same_mkdir_retfail (mkdir_ret_fail v) (mkdir_ret_fail v'))"

lemma back_mkdirret [back_rules]: "reads_back xdr_mkdirret (\<lambda>v. True) (\<lambda>v0. same_mkdir_ret)"
  unfolding xdr_mkdirret_def by (rule reads_back_mono, (rule back_rules | simp; fail)+) (auto simp: same_mkdir_ret_def split: if_splits)

definition same_remove_args :: "remove_args \<Rightarrow> remove_args \<Rightarrow> bool" where
  "same_remove_args v v' \<longleftrightarrow> same_diropargs3 (remove_args_obj v) (remove_args_obj v')"

definition ok_remove_args :: "remove_args \<Rightarrow> bool" where
  "ok_remove_args v \<longleftrightarrow> ok_diropargs3 (remove_args_obj v)"

lemma back_removeargs [back_rules]: "reads_back xdr_removeargs ok_remove_args (\<lambda>v0. same_remove_args)"
  unfolding xdr_removeargs_def by (rule reads_back_mono, (rule back_rules | simp; fail)+) (auto simp: same_remove_args_def ok_remove_args_def)

definition same_remove_ret :: "remove_ret \<Rightarrow> remove_ret \<Rightarrow> bool" where
  "same_remove_ret v v' \<longleftrightarrow> remove_ret_status v' = remove_ret_status v \<and>
     same_wcc_data (remove_ret_dir_wcc v) (remove_ret_dir_wcc v')"

lemma back_removeret [back_rules]: "reads_back xdr_removeret (\<lambda>v. True) (\<lambda>v0. same_remove_ret)"
  unfolding xdr_removeret_def by (rule reads_back_mono, (rule back_rules | simp; fail)+) (auto simp: same_remove_ret_def)

definition same_LINK3args :: "LINK3args \<Rightarrow> LINK3args \<Rightarrow> bool" where
  "same_LINK3args v v' \<longleftrightarrow> same_nfs_fh3 (LINK3args_file v) (LINK3args_file v') \<and>
     same_diropargs3 (LINK3args_link v) (LINK3args_link v')"

definition ok_LINK3args :: "LINK3args \<Rightarrow> bool" where
  "ok_LINK3args v \<longleftrightarrow> ok_diropargs3 (LINK3args_link v)"

lemma back_LINK3args [back_rules]: "reads_back xdr_LINK3args ok_LINK3args (\<lambda>v0. same_LINK3args)"
  unfolding xdr_LINK3args_def by (rule reads_back_mono, (rule back_rules | simp; fail)+) (auto simp: same_LINK3args_def ok_LINK3args_def)

definition same_LINK3resok :: "LINK3resok \<Rightarrow> LINK3resok \<Rightarrow> bool" where
  "same_LINK3resok v v' \<longleftrightarrow> same_post_op_attr (LINK3resok_file_attributes v) (LINK3resok_file_attributes v') \<and>
     same_wcc_data (LINK3resok_linkdir_wcc v) (LINK3resok_linkdir_wcc v')"

lemma back_LINK3resok [back_rules]: "reads_back xdr_LINK3resok (\<lambda>v. True) (\<lambda>v0. same_LINK3resok)"
  unfolding xdr_LINK3resok_def by (rule reads_back_mono, (rule back_rules | simp; fail)+) (auto simp: same_LINK3resok_def)

definition same_LINK3resfail :: "LINK3resfail \<Rightarrow> LINK3resfail \<Rightarrow> bool" where
  "same_LINK3resfail v v' \<longleftrightarrow> same_post_op_attr (LINK3resfail_file_attributes v) (LINK3resfail_file_attributes v') \<and>
     same_wcc_data (LINK3resfail_linkdir_wcc v) (LINK3resfail_linkdir_wcc v')"

lemma back_LINK3resfail [back_rules]: "reads_back xdr_LINK3resfail (\<lambda>v. True) (\<lambda>v0. same_LINK3resfail)"
  unfolding xdr_LINK3resfail_def by (rule reads_back_mono, (rule back_rules | simp; fail)+) (auto simp: same_LINK3resfail_def)

definition same_LINK3res :: "LINK3res \<Rightarrow> LINK3res \<Rightarrow> bool" where
  "same_LINK3res v v' \<longleftrightarrow> LINK3res_status v' = LINK3res_status v \<and>
     (LINK3res_status v = NFS3_OK \<longrightarrow> same_LINK3resok (LINK3res_ok v) (LINK3res_ok v')) \<and>
     (LINK3res_status v \<noteq> NFS3_OK \<longrightarrow> same_LINK3resfail (LINK3res_fail v) (LINK3res_fail v'))"

lemma back_linkret [back_rules]: "reads_back xdr_linkret (\<lambda>v. True) (\<lambda>v0. same_LINK3res)"
  unfolding xdr_linkret_def by (rule reads_back_mono, (rule back_rules | simp; fail)+) (auto simp: same_LINK3res_def split: if_splits)

definition same_rename_args :: "rename_args \<Rightarrow> rename_args \<Rightarrow> bool" where
  "same_rename_args v v' \<longleftrightarrow> same_diropargs3 (rename_args_from v) (rename_args_from v') \<and>
     same_diropargs3 (rename_args_to v) (rename_args_to v')"

definition ok_rename_args :: "rename_args \<Rightarrow> bool" where
  "ok_rename_args v \<longleftrightarrow> ok_diropargs3 (rename_args_from v) \<and> ok_diropargs3 (rename_args_to v)"

lemma back_renameargs [back_rules]: "reads_back xdr_renameargs ok_rename_args (\<lambda>v0. same_rename_args)"
  unfolding xdr_renameargs_def by (rule reads_back_mono, (rule back_rules | simp; fail)+) (auto simp: same_rename_args_def ok_rename_args_def)

definition same_rename_retok :: "rename_retok \<Rightarrow> rename_retok \<Rightarrow> bool" where
  "same_rename_retok v v' \<longleftrightarrow> same_wcc_data (rename_retok_from v) (rename_retok_from v') \<and>
     same_wcc_data (rename_retok_to v) (rename_retok_to v')"

lemma back_renameretok [back_rules]: "reads_back xdr_renameretok (\<lambda>v. True) (\<lambda>v0. same_rename_retok)"
  unfolding xdr_renameretok_def by (rule reads_back_mono, (rule back_rules | simp; fail)+) (auto simp: same_rename_retok_def)

definition same_rename_retfail :: "rename_retfail \<Rightarrow> rename_retfail \<Rightarrow> bool" where
  "same_rename_retfail v v' \<longleftrightarrow> same_wcc_data (rename_retfail_from v) (rename_retfail_from v') \<and>
     same_wcc_data (rename_retfail_to v) (rename_retfail_to v')"

lemma back_renameretfail [back_rules]: "reads_back xdr_renameretfail (\<lambda>v. True) (\<lambda>v0. same_rename_retfail)"
  unfolding xdr_renameretfail_def by (rule reads_back_mono, (rule back_rules | simp; fail)+) (auto simp: same_rename_retfail_def)

definition same_rename_ret :: "rename_ret \<Rightarrow> rename_ret \<Rightarrow> bool" where
  "same_rename_ret v v' \<longleftrightarrow> rename_ret_status v' = rename_ret_status v \<and>
     (rename_ret_status v = NFS3_OK \<longrightarrow> same_rename_retok (rename_ret_ok v) (rename_ret_ok v')) \<and>
     (rename_ret_status v \<noteq> NFS3_OK \<longrightarrow> same_rename_retfail (rename_ret_fail v) (rename_ret_fail v'))"

lemma back_renameret [back_rules]: "reads_back xdr_renameret (\<lambda>v. True) (\<lambda>v0. same_rename_ret)"
  unfolding xdr_renameret_def by (rule reads_back_mono, (rule back_rules | simp; fail)+) (auto simp: same_rename_ret_def split: if_splits)

lemma back_rmdirargs [back_rules]: "reads_back xdr_rmdirargs ok_remove_args (\<lambda>v0. same_remove_args)"
  unfolding xdr_rmdirargs_def by (rule reads_back_mono, (rule back_rules | simp; fail)+) (auto simp: same_remove_args_def ok_remove_args_def)

lemma back_rmdirret [back_rules]: "reads_back xdr_rmdirret (\<lambda>v. True) (\<lambda>v0. same_remove_ret)"
  unfolding xdr_rmdirret_def by (rule reads_back_mono, (rule back_rules | simp; fail)+) (auto simp: same_remove_ret_def)

lemma back_cookieverf [back_rules]: "reads_back xdr_cookieverf (\<lambda>v. True) (\<lambda>v0 v v'. take 8 v' = take 8 v)"
  unfolding xdr_cookieverf_def by (rule back_rules)+

definition same_readdir_args :: "readdir_args \<Rightarrow> readdir_args \<Rightarrow> bool" where
  "same_readdir_args v v' \<longleftrightarrow> same_nfs_fh3 (readdir_args_dir v) (readdir_args_dir v') \<and>
     readdir_args_cookie v' = readdir_args_cookie v \<and>
     take 8 (readdir_args_cookieverf v') = take 8 (readdir_args_cookieverf v) \<and>
     readdir_args_count v' = readdir_args_count v"

lemma back_readdirargs [back_rules]: "reads_back xdr_readdirargs (\<lambda>v. True) (\<lambda>v0. same_readdir_args)"
  unfolding xdr_readdirargs_def by (rule reads_back_mono, (rule back_rules | simp; fail)+) (auto simp: same_readdir_args_def)

lemma xdr_entry_eq:
  "xdr_entry =
     all_of
       [field entry_fileid entry_fileid_update xdr_uint64,
        field entry_name entry_name_update xdr_name,
        field entry_cookie entry_cookie_update xdr_uint64,
        field entry_next entry_next_update (xdr_pointer blank_entry xdr_entry)]"
  by (intro ext) (rule xdr_entry.simps)

primrec same_entry :: "dir_entry \<Rightarrow> dir_entry \<Rightarrow> bool" where
  "same_entry (Entry a n c p) v' \<longleftrightarrow> entry_fileid v' = a \<and>
     text_as n (entry_name v') \<and>
     entry_cookie v' = c \<and>
     same_next (map_option same_entry p) (entry_next v')"

primrec ok_entry :: "dir_entry \<Rightarrow> bool" where
  "ok_entry (Entry a n c p) \<longleftrightarrow> c_length n < 2 ^ 32 \<and> ok_next (map_option ok_entry p)"

lemma back_entry [back_rules]: "reads_back xdr_entry ok_entry (\<lambda>_. same_entry)"
proof (rule back_each_object)
  fix x :: dir_entry assume "ok_entry x" then show "reads_back xdr_entry (\<lambda>v. v = x) (\<lambda>_. same_entry)"
  proof (induction x)
    case (Entry a n c p)
    have p: "reads_back (xdr_pointer blank_entry xdr_entry) (\<lambda>q. q = p) (\<lambda>_ q. same_next (map_option same_entry q))"
      by (rule back_next) (use Entry in \<open>auto simp: ok_next_def\<close>)
    show ?case
      by (subst xdr_entry_eq, rule reads_back_mono, (rule p back_rules | simp; fail)+) (use Entry.prems in auto)
  qed
qed

definition same_dirlist :: "dirlist \<Rightarrow> dirlist \<Rightarrow> bool" where
  "same_dirlist v v' \<longleftrightarrow> same_next (map_option same_entry (dirlist_entries v)) (dirlist_entries v') \<and>
     dirlist_eof v' = dirlist_eof v"

definition ok_dirlist :: "dirlist \<Rightarrow> bool" where
  "ok_dirlist v \<longleftrightarrow> ok_next (map_option ok_entry (dirlist_entries v))"

lemma back_dirlist [back_rules]: "reads_back xdr_dirlist ok_dirlist (\<lambda>v0. same_dirlist)"
  unfolding xdr_dirlist_def by (rule reads_back_mono, (rule back_rules | simp; fail)+) (auto simp: same_dirlist_def ok_dirlist_def)

definition same_readdir_retok :: "readdir_retok \<Rightarrow> readdir_retok \<Rightarrow> bool" where
  "same_readdir_retok v v' \<longleftrightarrow> same_post_op_attr (readdir_retok_dir_attr v) (readdir_retok_dir_attr v') \<and>
     take 8 (readdir_retok_cookieverf v') = take 8 (readdir_retok_cookieverf v) \<and>
     same_dirlist (readdir_retok_reply v) (readdir_retok_reply v')"

definition ok_readdir_retok :: "readdir_retok \<Rightarrow> bool" where
  "ok_readdir_retok v \<longleftrightarrow> ok_dirlist (readdir_retok_reply v)"

lemma back_readdirretok [back_rules]: "reads_back xdr_readdirretok ok_readdir_retok (\<lambda>v0. same_readdir_retok)"
  unfolding xdr_readdirretok_def by (rule reads_back_mono, (rule back_rules | simp; fail)+) (auto simp: same_readdir_retok_def ok_readdir_retok_def)

definition same_readdir_retfail :: "readdir_retfail \<Rightarrow> readdir_retfail \<Rightarrow> bool" where
  "same_readdir_retfail v v' \<longleftrightarrow> same_post_op_attr (readdir_retfail_dir_attr v) (readdir_retfail_dir_attr v')"

lemma back_readdirretfail [back_rules]: "reads_back xdr_readdirretfail (\<lambda>v. True) (\<lambda>v0. same_readdir_retfail)"
  unfolding xdr_readdirretfail_def by (rule reads_back_mono, (rule back_rules | simp; fail)+) (auto simp: same_readdir_retfail_def)

definition same_readdir_ret :: "readdir_ret \<Rightarrow> readdir_ret \<Rightarrow> bool" where
  "same_readdir_ret v v' \<longleftrightarrow> readdir_ret_status v' = readdir_ret_status v \<and>
     (readdir_ret_status v = NFS3_OK \<longrightarrow> same_readdir_retok (readdir_ret_ok v) (readdir_ret_ok v')) \<and>
     (readdir_ret_status v \<noteq> NFS3_OK \<longrightarrow> same_readdir_retfail (readdir_ret_fail v) (readdir_ret_fail v'))"

definition ok_readdir_ret :: "readdir_ret \<Rightarrow> bool" where
  "ok_readdir_ret v \<longleftrightarrow> (readdir_ret_status v = NFS3_OK \<longrightarrow> ok_readdir_retok (readdir_ret_ok v))"

lemma back_readdirret [back_rules]: "reads_back xdr_readdirret ok_readdir_ret (\<lambda>v0. same_readdir_ret)"
  unfolding xdr_readdirret_def by (rule reads_back_mono, (rule back_rules | simp; fail)+) (auto simp: same_readdir_ret_def ok_readdir_ret_def split: if_splits)

definition same_readdirplus_args :: "readdirplus_args \<Rightarrow> readdirplus_args \<Rightarrow> bool" where
  "same_readdirplus_args v v' \<longleftrightarrow> same_nfs_fh3 (readdirplus_args_dir v) (readdirplus_args_dir v') \<and>
     readdirplus_args_cookie v' = readdirplus_args_cookie v \<and>
     take 8 (readdirplus_args_cookieverf v') = take 8 (readdirplus_args_cookieverf v) \<and>
     readdirplus_args_dircount v' = readdirplus_args_dircount v \<and>
     readdirplus_args_maxcount v' = readdirplus_args_maxcount v"

lemma back_readdirplusargs [back_rules]: "reads_back xdr_readdirplusargs (\<lambda>v. True) (\<lambda>v0. same_readdirplus_args)"
  unfolding xdr_readdirplusargs_def by (rule reads_back_mono, (rule back_rules | simp; fail)+) (auto simp: same_readdirplus_args_def)

lemma xdr_entryplus_eq:
  "xdr_entryplus =
     all_of
       [field entryplus_fileid entryplus_fileid_update xdr_uint64,
        field entryplus_name entryplus_name_update xdr_name,
        field entryplus_cookie entryplus_cookie_update xdr_uint64,
        field entryplus_attr entryplus_attr_update xdr_post_op_attr,
        field entryplus_fh entryplus_fh_update xdr_postop_fh,
        field entryplus_next entryplus_next_update (xdr_pointer blank_entryplus xdr_entryplus)]"
  by (intro ext) (rule xdr_entryplus.simps)

primrec same_entryplus :: "dir_entryplus \<Rightarrow> dir_entryplus \<Rightarrow> bool" where
  "same_entryplus (EntryPlus a n c t h p) v' \<longleftrightarrow> entryplus_fileid v' = a \<and>
     text_as n (entryplus_name v') \<and>
     entryplus_cookie v' = c \<and>
     same_post_op_attr t (entryplus_attr v') \<and>
     same_postop_fh h (entryplus_fh v') \<and>
     same_next (map_option same_entryplus p) (entryplus_next v')"

primrec ok_entryplus :: "dir_entryplus \<Rightarrow> bool" where
  "ok_entryplus (EntryPlus a n c t h p) \<longleftrightarrow> c_length n < 2 ^ 32 \<and> ok_next (map_option ok_entryplus p)"

lemma back_entryplus [back_rules]: "reads_back xdr_entryplus ok_entryplus (\<lambda>_. same_entryplus)"
proof (rule back_each_object)
  fix x :: dir_entryplus assume "ok_entryplus x" then show "reads_back xdr_entryplus (\<lambda>v. v = x) (\<lambda>_. same_entryplus)"
  proof (induction x)
    case (EntryPlus a n c t h p)
    have p: "reads_back (xdr_pointer blank_entryplus xdr_entryplus) (\<lambda>q. q = p) (\<lambda>_ q. same_next (map_option same_entryplus q))"
      by (rule back_next) (use EntryPlus in \<open>auto simp: ok_next_def\<close>)
    show ?case
      by (subst xdr_entryplus_eq, rule reads_back_mono, (rule p back_rules | simp; fail)+) (use EntryPlus.prems in auto)
  qed
qed

definition same_dirlistplus :: "dirlistplus \<Rightarrow> dirlistplus \<Rightarrow> bool" where
  "same_dirlistplus v v' \<longleftrightarrow> same_next (map_option same_entryplus (dirlistplus_entries v)) (dirlistplus_entries v') \<and>
     dirlistplus_eof v' = dirlistplus_eof v"

definition ok_dirlistplus :: "dirlistplus \<Rightarrow> bool" where
  "ok_dirlistplus v \<longleftrightarrow> ok_next (map_option ok_entryplus (dirlistplus_entries v))"

lemma back_dirlistplus [back_rules]: "reads_back xdr_dirlistplus ok_dirlistplus (\<lambda>v0. same_dirlistplus)"
  unfolding xdr_dirlistplus_def by (rule reads_back_mono, (rule back_rules | simp; fail)+) (auto simp: same_dirlistplus_def ok_dirlistplus_def)

definition same_readdirplus_retok :: "readdirplus_retok \<Rightarrow> readdirplus_retok \<Rightarrow> bool" where
  "same_readdirplus_retok v v' \<longleftrightarrow> same_post_op_attr (readdirplus_retok_dir_attr v) (readdirplus_retok_dir_attr v') \<and>
     take 8 (readdirplus_retok_cookieverf v') = take 8 (readdirplus_retok_cookieverf v) \<and>
     same_dirlistplus (readdirplus_retok_reply v) (readdirplus_retok_reply v')"

definition ok_readdirplus_retok :: "readdirplus_retok \<Rightarrow> bool" where
  "ok_readdirplus_retok v \<longleftrightarrow> ok_dirlistplus (readdirplus_retok_reply v)"

lemma back_readdirplusretok [back_rules]: "reads_back xdr_readdirplusretok ok_readdirplus_retok (\<lambda>v0. same_readdirplus_retok)"
  unfolding xdr_readdirplusretok_def by (rule reads_back_mono, (rule back_rules | simp; fail)+) (auto simp: same_readdirplus_retok_def ok_readdirplus_retok_def)

definition same_readdirplus_retfail :: "readdirplus_retfail \<Rightarrow> readdirplus_retfail \<Rightarrow> bool" where
  "same_readdirplus_retfail v v' \<longleftrightarrow> same_post_op_attr (readdirplus_retfail_dir_attr v) (readdirplus_retfail_dir_attr v')"

lemma back_readdirplusretfail [back_rules]: "reads_back xdr_readdirplusretfail (\<lambda>v. True) (\<lambda>v0. same_readdirplus_retfail)"
  unfolding xdr_readdirplusretfail_def by (rule reads_back_mono, (rule back_rules | simp; fail)+) (auto simp: same_readdirplus_retfail_def)

definition same_readdirplus_ret :: "readdirplus_ret \<Rightarrow> readdirplus_ret \<Rightarrow> bool" where
  "same_readdirplus_ret v v' \<longleftrightarrow> readdirplus_ret_status v' = readdirplus_ret_status v \<and>
     (readdirplus_ret_status v = NFS3_OK \<longrightarrow> same_readdirplus_retok (readdirplus_ret_ok v) (readdirplus_ret_ok v')) \<and>
     (readdirplus_ret_status v \<noteq> NFS3_OK \<longrightarrow> same_readdirplus_retfail (readdirplus_ret_fail v) (readdirplus_ret_fail v'))"

definition ok_readdirplus_ret :: "readdirplus_ret \<Rightarrow> bool" where
  "ok_readdirplus_ret v \<longleftrightarrow> (readdirplus_ret_status v = NFS3_OK \<longrightarrow> ok_readdirplus_retok (readdirplus_ret_ok v))"

lemma back_readdirplusret [back_rules]: "reads_back xdr_readdirplusret ok_readdirplus_ret (\<lambda>v0. same_readdirplus_ret)"
  unfolding xdr_readdirplusret_def by (rule reads_back_mono, (rule back_rules | simp; fail)+) (auto simp: same_readdirplus_ret_def ok_readdirplus_ret_def split: if_splits)

definition same_fsstat_args :: "fsstat_args \<Rightarrow> fsstat_args \<Rightarrow> bool" where
  "same_fsstat_args v v' \<longleftrightarrow> same_nfs_fh3 (fsstat_args_fsroot v) (fsstat_args_fsroot v')"

lemma back_fsstatargs [back_rules]: "reads_back xdr_fsstatargs (\<lambda>v. True) (\<lambda>v0. same_fsstat_args)"
  unfolding xdr_fsstatargs_def by (rule reads_back_mono, (rule back_rules | simp; fail)+) (auto simp: same_fsstat_args_def)

definition same_fsstat_retok :: "fsstat_retok \<Rightarrow> fsstat_retok \<Rightarrow> bool" where
  "same_fsstat_retok v v' \<longleftrightarrow> same_post_op_attr (fsstat_retok_attr v) (fsstat_retok_attr v') \<and>
     fsstat_retok_tbytes v' = fsstat_retok_tbytes v \<and>
     fsstat_retok_fbytes v' = fsstat_retok_fbytes v \<and>
     fsstat_retok_abytes v' = fsstat_retok_abytes v \<and>
     fsstat_retok_tfiles v' = fsstat_retok_tfiles v \<and>
     fsstat_retok_ffiles v' = fsstat_retok_ffiles v \<and>
     fsstat_retok_afiles v' = fsstat_retok_afiles v \<and>
     fsstat_retok_invarsec v' = fsstat_retok_invarsec v"

lemma back_fsstatretok [back_rules]: "reads_back xdr_fsstatretok (\<lambda>v. True) (\<lambda>v0. same_fsstat_retok)"
  unfolding xdr_fsstatretok_def by (rule reads_back_mono, (rule back_rules | simp; fail)+) (auto simp: same_fsstat_retok_def)

definition same_fsstat_retfail :: "fsstat_retfail \<Rightarrow> fsstat_retfail \<Rightarrow> bool" where
  "same_fsstat_retfail v v' \<longleftrightarrow> same_post_op_attr (fsstat_retfail_attr v) (fsstat_retfail_attr v')"

lemma back_fsstatretfail [back_rules]: "reads_back xdr_fsstatretfail (\<lambda>v. True) (\<lambda>v0. same_fsstat_retfail)"
  unfolding xdr_fsstatretfail_def by (rule reads_back_mono, (rule back_rules | simp; fail)+) (auto simp: same_fsstat_retfail_def)

definition same_fsstat_ret :: "fsstat_ret \<Rightarrow> fsstat_ret \<Rightarrow> bool" where
  "same_fsstat_ret v v' \<longleftrightarrow> fsstat_ret_status v' = fsstat_ret_status v \<and>
     (fsstat_ret_status v = NFS3_OK \<longrightarrow> same_fsstat_retok (fsstat_ret_ok v) (fsstat_ret_ok v')) \<and>
     (fsstat_ret_status v \<noteq> NFS3_OK \<longrightarrow> same_fsstat_retfail (fsstat_ret_fail v) (fsstat_ret_fail v'))"

lemma back_fsstatret [back_rules]: "reads_back xdr_fsstatret (\<lambda>v. True) (\<lambda>v0. same_fsstat_ret)"
  unfolding xdr_fsstatret_def by (rule reads_back_mono, (rule back_rules | simp; fail)+) (auto simp: same_fsstat_ret_def split: if_splits)

definition same_fsinfo_args :: "fsinfo_args \<Rightarrow> fsinfo_args \<Rightarrow> bool" where
  "same_fsinfo_args v v' \<longleftrightarrow> same_nfs_fh3 (fsinfo_args_fsroot v) (fsinfo_args_fsroot v')"

lemma back_fsinfoargs [back_rules]: "reads_back xdr_fsinfoargs (\<lambda>v. True) (\<lambda>v0. same_fsinfo_args)"
  unfolding xdr_fsinfoargs_def by (rule reads_back_mono, (rule back_rules | simp; fail)+) (auto simp: same_fsinfo_args_def)

definition same_fsinfo_retok :: "fsinfo_retok \<Rightarrow> fsinfo_retok \<Rightarrow> bool" where
  "same_fsinfo_retok v v' \<longleftrightarrow> same_post_op_attr (fsinfo_retok_obj_attr v) (fsinfo_retok_obj_attr v') \<and>
     fsinfo_retok_rtmax v' = fsinfo_retok_rtmax v \<and>
     fsinfo_retok_rtpref v' = fsinfo_retok_rtpref v \<and>
     fsinfo_retok_rtmult v' = fsinfo_retok_rtmult v \<and>
     fsinfo_retok_wtmax v' = fsinfo_retok_wtmax v \<and>
     fsinfo_retok_wtpref v' = fsinfo_retok_wtpref v \<and>
     fsinfo_retok_wtmult v' = fsinfo_retok_wtmult v \<and>
     fsinfo_retok_dtpref v' = fsinfo_retok_dtpref v \<and>
     fsinfo_retok_maxfilesize v' = fsinfo_retok_maxfilesize v \<and>
     fsinfo_retok_time_delta v' = fsinfo_retok_time_delta v \<and>
     fsinfo_retok_properties v' = fsinfo_retok_properties v"

lemma back_fsinforetok [back_rules]: "reads_back xdr_fsinforetok (\<lambda>v. True) (\<lambda>v0. same_fsinfo_retok)"
  unfolding xdr_fsinforetok_def by (rule reads_back_mono, (rule back_rules | simp; fail)+) (auto simp: same_fsinfo_retok_def)

definition same_fsinfo_retfail :: "fsinfo_retfail \<Rightarrow> fsinfo_retfail \<Rightarrow> bool" where
  "same_fsinfo_retfail v v' \<longleftrightarrow> same_post_op_attr (fsinfo_retfail_obj_attr v) (fsinfo_retfail_obj_attr v')"

lemma back_fsinforetfail [back_rules]: "reads_back xdr_fsinforetfail (\<lambda>v. True) (\<lambda>v0. same_fsinfo_retfail)"
  unfolding xdr_fsinforetfail_def by (rule reads_back_mono, (rule back_rules | simp; fail)+) (auto simp: same_fsinfo_retfail_def)

definition same_fsinfo_ret :: "fsinfo_ret \<Rightarrow> fsinfo_ret \<Rightarrow> bool" where
  "same_fsinfo_ret v v' \<longleftrightarrow> fsinfo_ret_status v' = fsinfo_ret_status v \<and>
     (fsinfo_ret_status v = NFS3_OK \<longrightarrow> same_fsinfo_retok (fsinfo_ret_ok v) (fsinfo_ret_ok v')) \<and>
     (fsinfo_ret_status v \<noteq> NFS3_OK \<longrightarrow> same_fsinfo_retfail (fsinfo_ret_fail v) (fsinfo_ret_fail v'))"

lemma back_fsinforet [back_rules]: "reads_back xdr_fsinforet (\<lambda>v. True) (\<lambda>v0. same_fsinfo_ret)"
  unfolding xdr_fsinforet_def by (rule reads_back_mono, (rule back_rules | simp; fail)+) (auto simp: same_fsinfo_ret_def split: if_splits)

definition same_pathconf3_args :: "pathconf3_args \<Rightarrow> pathconf3_args \<Rightarrow> bool" where
  "same_pathconf3_args v v' \<longleftrightarrow> same_nfs_fh3 (pathconf3_args_object v) (pathconf3_args_object v')"

lemma back_pathconf3_args [back_rules]: "reads_back xdr_pathconf3_args (\<lambda>v. True) (\<lambda>v0. same_pathconf3_args)"
  unfolding xdr_pathconf3_args_def by (rule reads_back_mono, (rule back_rules | simp; fail)+) (auto simp: same_pathconf3_args_def)

definition same_pathconf3_resok :: "pathconf3_resok \<Rightarrow> pathconf3_resok \<Rightarrow> bool" where
  "same_pathconf3_resok v v' \<longleftrightarrow> same_post_op_attr (pathconf3_resok_obj_attributes v) (pathconf3_resok_obj_attributes v') \<and>
     pathconf3_resok_linkmax v' = pathconf3_resok_linkmax v \<and>
     pathconf3_resok_name_max v' = pathconf3_resok_name_max v \<and>
     pathconf3_resok_no_trunc v' = pathconf3_resok_no_trunc v \<and>
     pathconf3_resok_chown_restricted v' = pathconf3_resok_chown_restricted v \<and>
     pathconf3_resok_case_insensitive v' = pathconf3_resok_case_insensitive v \<and>
     pathconf3_resok_case_preserving v' = pathconf3_resok_case_preserving v"

lemma back_pathconf3_retok [back_rules]: "reads_back xdr_pathconf3_retok (\<lambda>v. True) (\<lambda>v0. same_pathconf3_resok)"
  unfolding xdr_pathconf3_retok_def by (rule reads_back_mono, (rule back_rules | simp; fail)+) (auto simp: same_pathconf3_resok_def)

definition same_pathconf3_resfail :: "pathconf3_resfail \<Rightarrow> pathconf3_resfail \<Rightarrow> bool" where
  "same_pathconf3_resfail v v' \<longleftrightarrow> same_post_op_attr (pathconf3_resfail_obj_attributes v) (pathconf3_resfail_obj_attributes v')"

lemma back_pathconf3_retfail [back_rules]: "reads_back xdr_pathconf3_retfail (\<lambda>v. True) (\<lambda>v0. same_pathconf3_resfail)"
  unfolding xdr_pathconf3_retfail_def by (rule reads_back_mono, (rule back_rules | simp; fail)+) (auto simp: same_pathconf3_resfail_def)

definition same_pathconf3_res :: "pathconf3_res \<Rightarrow> pathconf3_res \<Rightarrow> bool" where
  "same_pathconf3_res v v' \<longleftrightarrow> pathconf3_res_status v' = pathconf3_res_status v \<and>
     (pathconf3_res_status v = NFS3_OK \<longrightarrow> same_pathconf3_resok (pathconf3_res_resok v) (pathconf3_res_resok v')) \<and>
     (pathconf3_res_status v \<noteq> NFS3_OK \<longrightarrow> same_pathconf3_resfail (pathconf3_res_resfail v) (pathconf3_res_resfail v'))"

lemma back_pathconf3_ret [back_rules]: "reads_back xdr_pathconf3_ret (\<lambda>v. True) (\<lambda>v0. same_pathconf3_res)"
  unfolding xdr_pathconf3_ret_def by (rule reads_back_mono, (rule back_rules | simp; fail)+) (auto simp: same_pathconf3_res_def split: if_splits)

definition same_commit_args :: "commit_args \<Rightarrow> commit_args \<Rightarrow> bool" where
  "same_commit_args v v' \<longleftrightarrow> same_nfs_fh3 (commit_args_file v) (commit_args_file v') \<and>
     commit_args_offset v' = commit_args_offset v \<and>
     commit_args_count v' = commit_args_count v"

lemma back_commitargs [back_rules]: "reads_back xdr_commitargs (\<lambda>v. True) (\<lambda>v0. same_commit_args)"
  unfolding xdr_commitargs_def by (rule reads_back_mono, (rule back_rules | simp; fail)+) (auto simp: same_commit_args_def)

definition same_commit_retok :: "commit_retok \<Rightarrow> commit_retok \<Rightarrow> bool" where
  "same_commit_retok v v' \<longleftrightarrow> same_wcc_data (commit_retok_file_wcc v) (commit_retok_file_wcc v') \<and>
     take 8 (commit_retok_verf v') = take 8 (commit_retok_verf v)"

lemma back_commitretok [back_rules]: "reads_back xdr_commitretok (\<lambda>v. True) (\<lambda>v0. same_commit_retok)"
  unfolding xdr_commitretok_def by (rule reads_back_mono, (rule back_rules | simp; fail)+) (auto simp: same_commit_retok_def)

definition same_commit_retfail :: "commit_retfail \<Rightarrow> commit_retfail \<Rightarrow> bool" where
  "same_commit_retfail v v' \<longleftrightarrow> same_wcc_data (commit_retfail_file_wcc v) (commit_retfail_file_wcc v')"

lemma back_commitretfail [back_rules]: "reads_back xdr_commitretfail (\<lambda>v. True) (\<lambda>v0. same_commit_retfail)"
  unfolding xdr_commitretfail_def by (rule reads_back_mono, (rule back_rules | simp; fail)+) (auto simp: same_commit_retfail_def)

definition same_commit_ret :: "commit_ret \<Rightarrow> commit_ret \<Rightarrow> bool" where
  "same_commit_ret v v' \<longleftrightarrow> commit_ret_status v' = commit_ret_status v \<and>
     (commit_ret_status v = NFS3_OK \<longrightarrow> same_commit_retok (commit_ret_ok v) (commit_ret_ok v')) \<and>
     (commit_ret_status v \<noteq> NFS3_OK \<longrightarrow> same_commit_retfail (commit_ret_fail v) (commit_ret_fail v'))"

lemma back_commitret [back_rules]: "reads_back xdr_commitret (\<lambda>v. True) (\<lambda>v0. same_commit_ret)"
  unfolding xdr_commitret_def by (rule reads_back_mono, (rule back_rules | simp; fail)+) (auto simp: same_commit_ret_def split: if_splits)

definition same_sattrguard3 :: "sattrguard3 \<Rightarrow> sattrguard3 \<Rightarrow> bool" where
  "same_sattrguard3 v v' \<longleftrightarrow> sattrguard3_check v' = sattrguard3_check v \<and>
     (sattrguard3_check v = 1 \<longrightarrow> sattrguard3_obj_ctime v' = sattrguard3_obj_ctime v)"

lemma back_sattrguard3 [back_rules]: "reads_back xdr_sattrguard3 (\<lambda>v. True) (\<lambda>v0. same_sattrguard3)"
  unfolding xdr_sattrguard3_def by (rule reads_back_mono, (rule back_rules | simp; fail)+) (auto simp: same_sattrguard3_def split: if_splits)

definition same_setattr3_args :: "setattr3_args \<Rightarrow> setattr3_args \<Rightarrow> bool" where
  "same_setattr3_args v v' \<longleftrightarrow> same_nfs_fh3 (setattr3_args_obj v) (setattr3_args_obj v') \<and>
     same_sattr (setattr3_args_new_attributes v) (setattr3_args_new_attributes v') \<and>
     same_sattrguard3 (setattr3_args_guard v) (setattr3_args_guard v')"

lemma back_setattrargs [back_rules]: "reads_back xdr_setattrargs (\<lambda>v. True) (\<lambda>v0. same_setattr3_args)"
  unfolding xdr_setattrargs_def by (rule reads_back_mono, (rule back_rules | simp; fail)+) (auto simp: same_setattr3_args_def)

definition same_setattr3_resok :: "setattr3_resok \<Rightarrow> setattr3_resok \<Rightarrow> bool" where
  "same_setattr3_resok v v' \<longleftrightarrow> same_wcc_data (setattr3_resok_obj_wcc v) (setattr3_resok_obj_wcc v')"

lemma back_setattr3resok [back_rules]: "reads_back xdr_setattr3resok (\<lambda>v. True) (\<lambda>v0. same_setattr3_resok)"
  unfolding xdr_setattr3resok_def by (rule reads_back_mono, (rule back_rules | simp; fail)+) (auto simp: same_setattr3_resok_def)

definition same_setattr3_resfail :: "setattr3_resfail \<Rightarrow> setattr3_resfail \<Rightarrow> bool" where
  "same_setattr3_resfail v v' \<longleftrightarrow> same_wcc_data (setattr3_resfail_obj_wcc v) (setattr3_resfail_obj_wcc v')"

lemma back_setattr3resfail [back_rules]: "reads_back xdr_setattr3resfail (\<lambda>v. True) (\<lambda>v0. same_setattr3_resfail)"
  unfolding xdr_setattr3resfail_def by (rule reads_back_mono, (rule back_rules | simp; fail)+) (auto simp: same_setattr3_resfail_def)

definition same_setattr3_res :: "setattr3_res \<Rightarrow> setattr3_res \<Rightarrow> bool" where
  "same_setattr3_res v v' \<longleftrightarrow> setattr3_res_status v' = setattr3_res_status v \<and>
     (setattr3_res_status v = NFS3_OK \<longrightarrow> same_setattr3_resok (setattr3_res_resok v) (setattr3_res_resok v')) \<and>
     (setattr3_res_status v \<noteq> NFS3_OK \<longrightarrow> same_setattr3_resfail (setattr3_res_resfail v) (setattr3_res_resfail v'))"

lemma back_setattrret [back_rules]: "reads_back xdr_setattrret (\<lambda>v. True) (\<lambda>v0. same_setattr3_res)"
  unfolding xdr_setattrret_def by (rule reads_back_mono, (rule back_rules | simp; fail)+) (auto simp: same_setattr3_res_def split: if_splits)

definition same_symlink_retok :: "symlink_retok \<Rightarrow> symlink_retok \<Rightarrow> bool" where
  "same_symlink_retok v v' \<longleftrightarrow> same_postop_fh (symlink_retok_obj v) (symlink_retok_obj v') \<and>
     same_post_op_attr (symlink_retok_obj_attributes v) (symlink_retok_obj_attributes v') \<and>
     same_wcc_data (symlink_retok_dir_wcc v) (symlink_retok_dir_wcc v')"

lemma back_symlinkresok [back_rules]: "reads_back xdr_symlinkresok (\<lambda>v. True) (\<lambda>v0. same_symlink_retok)"
  unfolding xdr_symlinkresok_def by (rule reads_back_mono, (rule back_rules | simp; fail)+) (auto simp: same_symlink_retok_def)

definition same_symlink_retfail :: "symlink_retfail \<Rightarrow> symlink_retfail \<Rightarrow> bool" where
  "same_symlink_retfail v v' \<longleftrightarrow> same_wcc_data (symlink_retfail_dir_wcc v) (symlink_retfail_dir_wcc v')"

lemma back_symlinkresfail [back_rules]: "reads_back xdr_symlinkresfail (\<lambda>v. True) (\<lambda>v0. same_symlink_retfail)"
  unfolding xdr_symlinkresfail_def by (rule reads_back_mono, (rule back_rules | simp; fail)+) (auto simp: same_symlink_retfail_def)

definition same_symlink_res :: "symlink_res \<Rightarrow> symlink_res \<Rightarrow> bool" where
  "same_symlink_res v v' \<longleftrightarrow> symlink_res_status v' = symlink_res_status v \<and>
     (symlink_res_status v = NFS3_OK \<longrightarrow> same_symlink_retok (symlink_res_ok v) (symlink_res_ok v')) \<and>
     (symlink_res_status v \<noteq> NFS3_OK \<longrightarrow> same_symlink_retfail (symlink_res_fail v) (symlink_res_fail v'))"

lemma back_symlinkret [back_rules]: "reads_back xdr_symlinkret (\<lambda>v. True) (\<lambda>v0. same_symlink_res)"
  unfolding xdr_symlinkret_def by (rule reads_back_mono, (rule back_rules | simp; fail)+) (auto simp: same_symlink_res_def split: if_splits)

definition same_symlinkdata3 :: "symlinkdata3 \<Rightarrow> symlinkdata3 \<Rightarrow> bool" where
  "same_symlinkdata3 v v' \<longleftrightarrow> same_sattr (symlinkdata3_symlink_attributes v) (symlinkdata3_symlink_attributes v') \<and>
     text_as (symlinkdata3_symlink_data v) (symlinkdata3_symlink_data v')"

definition ok_symlinkdata3 :: "symlinkdata3 \<Rightarrow> bool" where
  "ok_symlinkdata3 v \<longleftrightarrow> c_length (symlinkdata3_symlink_data v) < 2 ^ 32"

lemma back_symlinkdata [back_rules]: "reads_back xdr_symlinkdata ok_symlinkdata3 (\<lambda>v0. same_symlinkdata3)"
  unfolding xdr_symlinkdata_def by (rule reads_back_mono, (rule back_rules | simp; fail)+) (auto simp: same_symlinkdata3_def ok_symlinkdata3_def)

definition same_symlink_args :: "symlink_args \<Rightarrow> symlink_args \<Rightarrow> bool" where
  "same_symlink_args v v' \<longleftrightarrow> same_diropargs3 (symlink_args_where v) (symlink_args_where v') \<and>
     same_symlinkdata3 (symlink_args_symlink v) (symlink_args_symlink v')"

definition ok_symlink_args :: "symlink_args \<Rightarrow> bool" where
  "ok_symlink_args v \<longleftrightarrow> ok_diropargs3 (symlink_args_where v) \<and> ok_symlinkdata3 (symlink_args_symlink v)"

lemma back_symlinkargs [back_rules]: "reads_back xdr_symlinkargs ok_symlink_args (\<lambda>v0. same_symlink_args)"
  unfolding xdr_symlinkargs_def by (rule reads_back_mono, (rule back_rules | simp; fail)+) (auto simp: same_symlink_args_def ok_symlink_args_def)

definition same_mknod_resok :: "mknod_resok \<Rightarrow> mknod_resok \<Rightarrow> bool" where
  "same_mknod_resok v v' \<longleftrightarrow> same_postop_fh (mknod_resok_obj v) (mknod_resok_obj v') \<and>
     same_post_op_attr (mknod_resok_obj_attributes v) (mknod_resok_obj_attributes v') \<and>
     same_wcc_data (mknod_resok_dir_wcc v) (mknod_resok_dir_wcc v')"

lemma back_mknodresok [back_rules]: "reads_back xdr_mknodresok (\<lambda>v. True) (\<lambda>v0. same_mknod_resok)"
  unfolding xdr_mknodresok_def by (rule reads_back_mono, (rule back_rules | simp; fail)+) (auto simp: same_mknod_resok_def)

definition same_mknod_resfail :: "mknod_resfail \<Rightarrow> mknod_resfail \<Rightarrow> bool" where
  "same_mknod_resfail v v' \<longleftrightarrow> same_wcc_data (mknod_resfail_dir_wcc v) (mknod_resfail_dir_wcc v')"

lemma back_mknodresfail [back_rules]: "reads_back xdr_mknodresfail (\<lambda>v. True) (\<lambda>v0. same_mknod_resfail)"
  unfolding xdr_mknodresfail_def by (rule reads_back_mono, (rule back_rules | simp; fail)+) (auto simp: same_mknod_resfail_def)

definition same_mknod_res :: "mknod_res \<Rightarrow> mknod_res \<Rightarrow> bool" where
  "same_mknod_res v v' \<longleftrightarrow> mknod_res_status v' = mknod_res_status v \<and>
     (mknod_res_status v = NFS3_OK \<longrightarrow> same_mknod_resok (mknod_res_ok v) (mknod_res_ok v')) \<and>
     (mknod_res_status v \<noteq> NFS3_OK \<longrightarrow> same_mknod_resfail (mknod_res_fail v) (mknod_res_fail v'))"

lemma back_mknodret [back_rules]: "reads_back xdr_mknodret (\<lambda>v. True) (\<lambda>v0. same_mknod_res)"
  unfolding xdr_mknodret_def by (rule reads_back_mono, (rule back_rules | simp; fail)+) (auto simp: same_mknod_res_def split: if_splits)

definition same_devicedata3 :: "devicedata3 \<Rightarrow> devicedata3 \<Rightarrow> bool" where
  "same_devicedata3 v v' \<longleftrightarrow> same_sattr (devicedata3_dev_attributes v) (devicedata3_dev_attributes v') \<and>
     devicedata3_spec v' = devicedata3_spec v"

lemma back_devicedata [back_rules]: "reads_back xdr_devicedata (\<lambda>v. True) (\<lambda>v0. same_devicedata3)"
  unfolding xdr_devicedata_def by (rule reads_back_mono, (rule back_rules | simp; fail)+) (auto simp: same_devicedata3_def)

definition same_mknoddata3 :: "mknoddata3 \<Rightarrow> mknoddata3 \<Rightarrow> bool" where
  "same_mknoddata3 v v' \<longleftrightarrow> mknoddata3_type v' = mknoddata3_type v \<and>
     (mknoddata3_type v = NFS3_CHR \<or> mknoddata3_type v = NFS3_BLK \<longrightarrow> same_devicedata3 (mknoddata3_device v) (mknoddata3_device v')) \<and>
     (mknoddata3_type v = NFS3_SOCK \<or> mknoddata3_type v = NFS3_FIFO \<longrightarrow> same_sattr (mknoddata3_pipe_attributes v) (mknoddata3_pipe_attributes v'))"

lemma back_mknoddata [back_rules]: "reads_back xdr_mknoddata (\<lambda>v. True) (\<lambda>v0. same_mknoddata3)"
  unfolding xdr_mknoddata_def by (rule reads_back_mono, (rule back_rules | simp; fail)+) (auto simp: same_mknoddata3_def split: if_splits)

definition same_mknod_args :: "mknod_args \<Rightarrow> mknod_args \<Rightarrow> bool" where
  "same_mknod_args v v' \<longleftrightarrow> same_diropargs3 (mknod_args_where v) (mknod_args_where v') \<and>
     same_mknoddata3 (mknod_args_what v) (mknod_args_what v')"

definition ok_mknod_args :: "mknod_args \<Rightarrow> bool" where
  "ok_mknod_args v \<longleftrightarrow> ok_diropargs3 (mknod_args_where v)"

lemma back_mknodargs [back_rules]: "reads_back xdr_mknodargs ok_mknod_args (\<lambda>v0. same_mknod_args)"
  unfolding xdr_mknodargs_def by (rule reads_back_mono, (rule back_rules | simp; fail)+) (auto simp: same_mknod_args_def ok_mknod_args_def)

definition same_readlink_args :: "readlink_args \<Rightarrow> readlink_args \<Rightarrow> bool" where
  "same_readlink_args v v' \<longleftrightarrow> same_nfs_fh3 (readlink_args_symlink v) (readlink_args_symlink v')"

lemma back_readlinkargs [back_rules]: "reads_back xdr_readlinkargs (\<lambda>v. True) (\<lambda>v0. same_readlink_args)"
  unfolding xdr_readlinkargs_def by (rule reads_back_mono, (rule back_rules | simp; fail)+) (auto simp: same_readlink_args_def)

definition same_readlink_retok :: "readlink_retok \<Rightarrow> readlink_retok \<Rightarrow> bool" where
  "same_readlink_retok v v' \<longleftrightarrow> same_post_op_attr (readlink_retok_symlink_attributes v) (readlink_retok_symlink_attributes v') \<and>
     text_as (readlink_retok_data v) (readlink_retok_data v')"

definition ok_readlink_retok :: "readlink_retok \<Rightarrow> bool" where
  "ok_readlink_retok v \<longleftrightarrow> c_length (readlink_retok_data v) < 2 ^ 32"

lemma back_readlinkresok [back_rules]: "reads_back xdr_readlinkresok ok_readlink_retok (\<lambda>v0. same_readlink_retok)"
  unfolding xdr_readlinkresok_def by (rule reads_back_mono, (rule back_rules | simp; fail)+) (auto simp: same_readlink_retok_def ok_readlink_retok_def)

definition same_readlink_retfail :: "readlink_retfail \<Rightarrow> readlink_retfail \<Rightarrow> bool" where
  "same_readlink_retfail v v' \<longleftrightarrow> same_post_op_attr (readlink_retfail_symlink_attributes v) (readlink_retfail_symlink_attributes v')"

lemma back_readlinkresfail [back_rules]: "reads_back xdr_readlinkresfail (\<lambda>v. True) (\<lambda>v0. same_readlink_retfail)"
  unfolding xdr_readlinkresfail_def by (rule reads_back_mono, (rule back_rules | simp; fail)+) (auto simp: same_readlink_retfail_def)

definition same_readlink_res :: "readlink_res \<Rightarrow> readlink_res \<Rightarrow> bool" where
  "same_readlink_res v v' \<longleftrightarrow> readlink_res_status v' = readlink_res_status v \<and>
     (readlink_res_status v = NFS3_OK \<longrightarrow> same_readlink_retok (readlink_res_ok v) (readlink_res_ok v')) \<and>
     (readlink_res_status v \<noteq> NFS3_OK \<longrightarrow> same_readlink_retfail (readlink_res_fail v) (readlink_res_fail v'))"

definition ok_readlink_res :: "readlink_res \<Rightarrow> bool" where
  "ok_readlink_res v \<longleftrightarrow> (readlink_res_status v = NFS3_OK \<longrightarrow> ok_readlink_retok (readlink_res_ok v))"

lemma back_readlinkret [back_rules]: "reads_back xdr_readlinkret ok_readlink_res (\<lambda>v0. same_readlink_res)"
  unfolding xdr_readlinkret_def by (rule reads_back_mono, (rule back_rules | simp; fail)+) (auto simp: same_readlink_res_def ok_readlink_res_def split: if_splits)

lemma xdr_groupnode_eq:
  "xdr_groupnode =
     all_of
       [field groupnode_gr_name groupnode_gr_name_update xdr_name,
        field groupnode_gr_next groupnode_gr_next_update (or_false (xdr_pointer blank_groupnode xdr_groupnode))]"
  by (intro ext) (rule xdr_groupnode.simps)

primrec same_groupnode :: "groupnode \<Rightarrow> groupnode \<Rightarrow> bool" where
  "same_groupnode (GroupNode n p) v' \<longleftrightarrow> text_as n (groupnode_gr_name v') \<and>
     same_next (map_option same_groupnode p) (groupnode_gr_next v')"

primrec ok_groupnode :: "groupnode \<Rightarrow> bool" where
  "ok_groupnode (GroupNode n p) \<longleftrightarrow> c_length n < 2 ^ 32 \<and> ok_next (map_option ok_groupnode p)"

lemma back_groupnode [back_rules]: "reads_back xdr_groupnode ok_groupnode (\<lambda>_. same_groupnode)"
proof (rule back_each_object)
  fix x :: groupnode assume "ok_groupnode x" then show "reads_back xdr_groupnode (\<lambda>v. v = x) (\<lambda>_. same_groupnode)"
  proof (induction x)
    case (GroupNode n p)
    have p: "reads_back (xdr_pointer blank_groupnode xdr_groupnode) (\<lambda>q. q = p) (\<lambda>_ q. same_next (map_option same_groupnode q))"
      by (rule back_next) (use GroupNode in \<open>auto simp: ok_next_def\<close>)
    show ?case
      by (subst xdr_groupnode_eq, rule reads_back_mono, (rule p back_rules | simp; fail)+) (use GroupNode.prems in auto)
  qed
qed

lemma back_groups [back_rules]:
  "reads_back xdr_groups (\<lambda>p. ok_next (map_option ok_groupnode p)) (\<lambda>_ p. same_next (map_option same_groupnode p))"
  unfolding xdr_groups_def by (rule back_rules)+

lemma xdr_exportnode_eq:
  "xdr_exportnode =
     all_of
       [field exportnode_ex_dir exportnode_ex_dir_update xdr_dirpath,
        field exportnode_ex_groups exportnode_ex_groups_update xdr_groups,
        field exportnode_ex_next exportnode_ex_next_update (or_false (xdr_pointer blank_exportnode xdr_exportnode))]"
  by (intro ext) (rule xdr_exportnode.simps)

primrec same_exportnode :: "exportnode \<Rightarrow> exportnode \<Rightarrow> bool" where
  "same_exportnode (ExportNode n gs p) v' \<longleftrightarrow> text_as n (exportnode_ex_dir v') \<and>
     same_next (map_option same_groupnode gs) (exportnode_ex_groups v') \<and>
     same_next (map_option same_exportnode p) (exportnode_ex_next v')"

primrec ok_exportnode :: "exportnode \<Rightarrow> bool" where
  "ok_exportnode (ExportNode n gs p) \<longleftrightarrow> c_length n \<le> 1024 \<and> ok_next (map_option ok_groupnode gs) \<and> ok_next (map_option ok_exportnode p)"

lemma back_exportnode [back_rules]: "reads_back xdr_exportnode ok_exportnode (\<lambda>_. same_exportnode)"
proof (rule back_each_object)
  fix x :: exportnode assume "ok_exportnode x" then show "reads_back xdr_exportnode (\<lambda>v. v = x) (\<lambda>_. same_exportnode)"
  proof (induction x)
    case (ExportNode n gs p)
    have p: "reads_back (xdr_pointer blank_exportnode xdr_exportnode) (\<lambda>q. q = p) (\<lambda>_ q. same_next (map_option same_exportnode q))"
      by (rule back_next) (use ExportNode in \<open>auto simp: ok_next_def\<close>)
    show ?case
      by (subst xdr_exportnode_eq, rule reads_back_mono, (rule p back_rules | simp; fail)+) (use ExportNode.prems in auto)
  qed
qed

lemma back_exports [back_rules]:
  "reads_back xdr_exports (\<lambda>p. ok_next (map_option ok_exportnode p)) (\<lambda>_ p. same_next (map_option same_exportnode p))"
  unfolding xdr_exports_def by (rule back_rules)+

lemma xdr_mountbody_eq:
  "xdr_mountbody =
     all_of
       [field mountbody_ml_hostname mountbody_ml_hostname_update xdr_name,
        field mountbody_ml_directory mountbody_ml_directory_update xdr_dirpath,
        field mountbody_ml_next mountbody_ml_next_update (or_false (xdr_pointer blank_mountbody xdr_mountbody))]"
  by (intro ext) (rule xdr_mountbody.simps)

primrec same_mountbody :: "mountbody \<Rightarrow> mountbody \<Rightarrow> bool" where
  "same_mountbody (MountBody h n p) v' \<longleftrightarrow> text_as h (mountbody_ml_hostname v') \<and>
     text_as n (mountbody_ml_directory v') \<and>
     same_next (map_option same_mountbody p) (mountbody_ml_next v')"

primrec ok_mountbody :: "mountbody \<Rightarrow> bool" where
  "ok_mountbody (MountBody h n p) \<longleftrightarrow> c_length h < 2 ^ 32 \<and> c_length n \<le> 1024 \<and> ok_next (map_option ok_mountbody p)"

lemma back_mountbody [back_rules]: "reads_back xdr_mountbody ok_mountbody (\<lambda>_. same_mountbody)"
proof (rule back_each_object)
  fix x :: mountbody assume "ok_mountbody x" then show "reads_back xdr_mountbody (\<lambda>v. v = x) (\<lambda>_. same_mountbody)"
  proof (induction x)
    case (MountBody h n p)
    have p: "reads_back (xdr_pointer blank_mountbody xdr_mountbody) (\<lambda>q. q = p) (\<lambda>_ q. same_next (map_option same_mountbody q))"
      by (rule back_next) (use MountBody in \<open>auto simp: ok_next_def\<close>)
    show ?case
      by (subst xdr_mountbody_eq, rule reads_back_mono, (rule p back_rules | simp; fail)+) (use MountBody.prems in auto)
  qed
qed

lemma back_dump [back_rules]:
  "reads_back xdr_dump (\<lambda>p. ok_next (map_option ok_mountbody p)) (\<lambda>_ p. same_next (map_option same_mountbody p))"
  unfolding xdr_dump_def by (rule back_rules)+

end
