(* ===== verification/NlmXdr.thy ===== *)
theory NlmXdr
  imports NfsBack
begin

text \<open>
  The structures of the lock protocol, \<^verbatim>\<open>nlm_state_machine.h\<close>, and their functions, \<^verbatim>\<open>xdr_nlm.c\<close>, and that they read back as they
  were sent.
\<close>

type_synonym nlm_stats = "32 word"

abbreviation NLM4_DENIED :: nlm_stats where "NLM4_DENIED \<equiv> 1"

section \<open>Structures\<close>

record ynetobj =
  ynetobj_len :: "32 word"
  ynetobj_data :: "octet list option"

record nlm_lock =
  nlm_lock_caller :: "octet list option"
  nlm_lock_len :: "32 word"
  nlm_lock_fh :: nfs_fh3
  nlm_lock_oh :: ynetobj
  nlm_lock_svid :: "32 word"
  nlm_lock_l_offset :: "64 word"
  nlm_lock_l_len :: "64 word"

record nlm4_holder =
  nlm4_holder_exclusive :: bool_t
  nlm4_holder_svid :: "32 word"
  nlm4_holder_oh :: ynetobj
  nlm4_holder_l_offset :: "64 word"
  nlm4_holder_l_len :: "64 word"

record nlm_res =
  nlm_res_cookies :: ynetobj
  nlm_res_stat :: nlm_stats

record nlm_testrply =
  nlm_testrply_status :: nlm_stats
  nlm_testrply_holder :: nlm4_holder

record nlm_testres =
  nlm_testres_cookies :: ynetobj
  nlm_testres_test_stat :: nlm_testrply

record nlm_lockargs =
  nlm_lockargs_cookies :: ynetobj
  nlm_lockargs_block :: bool_t
  nlm_lockargs_exclusive :: bool_t
  nlm_lockargs_alock :: nlm_lock
  nlm_lockargs_reclaim :: bool_t
  nlm_lockargs_state :: "32 word"

record nlm_cancargs =
  nlm_cancargs_cookies :: ynetobj
  nlm_cancargs_block :: bool_t
  nlm_cancargs_exclusive :: bool_t
  nlm_cancargs_alock :: nlm_lock

record nlm_testargs =
  nlm_testargs_cookies :: ynetobj
  nlm_testargs_exclusive :: bool_t
  nlm_testargs_alock :: nlm_lock

record nlm_unlockargs =
  nlm_unlockargs_cookies :: ynetobj
  nlm_unlockargs_alock :: nlm_lock

record nlm_notifyargs =
  nlm_notifyargs_cookies :: ynetobj
  nlm_notifyargs_state :: "32 word"
  nlm_notifyargs_priv :: "octet list"

definition xdr_nlm_netobj :: "ynetobj xdr" where
  "xdr_nlm_netobj = all_of
       [field2 ynetobj_data ynetobj_data_update ynetobj_len ynetobj_len_update (xdr_bytes 1024)]"

definition xdr_nlm_lock :: "nlm_lock xdr" where
  "xdr_nlm_lock = all_of
       [field2 nlm_lock_caller nlm_lock_caller_update nlm_lock_len nlm_lock_len_update (xdr_bytes 1024),
        field nlm_lock_fh nlm_lock_fh_update (field2 nfs_fh3_val nfs_fh3_val_update nfs_fh3_len nfs_fh3_len_update (xdr_bytes 64)),
        field nlm_lock_oh nlm_lock_oh_update (field2 ynetobj_data ynetobj_data_update ynetobj_len ynetobj_len_update (xdr_bytes 1024)),
        field nlm_lock_svid nlm_lock_svid_update xdr_uint32,
        field nlm_lock_l_offset nlm_lock_l_offset_update xdr_uint64,
        field nlm_lock_l_len nlm_lock_l_len_update xdr_uint64]"

definition xdr_nlm_holder :: "nlm4_holder xdr" where
  "xdr_nlm_holder = all_of
       [field nlm4_holder_exclusive nlm4_holder_exclusive_update xdr_bool,
        field nlm4_holder_svid nlm4_holder_svid_update xdr_uint32,
        field nlm4_holder_oh nlm4_holder_oh_update xdr_nlm_netobj,
        field nlm4_holder_l_offset nlm4_holder_l_offset_update xdr_uint64,
        field nlm4_holder_l_len nlm4_holder_l_len_update xdr_uint64]"

definition xdr_nlm_testrply :: "nlm_testrply xdr" where
  "xdr_nlm_testrply =
     or_false (tagged nlm_testrply_status nlm_testrply_status_update xdr_enum (\<lambda>t.
       if t = NLM4_DENIED then field nlm_testrply_holder nlm_testrply_holder_update xdr_nlm_holder
       else skip_xdr))"

definition xdr_nlm_lockargs :: "nlm_lockargs xdr" where
  "xdr_nlm_lockargs = all_of
       [field nlm_lockargs_cookies nlm_lockargs_cookies_update xdr_nlm_netobj,
        field nlm_lockargs_block nlm_lockargs_block_update xdr_bool,
        field nlm_lockargs_exclusive nlm_lockargs_exclusive_update xdr_bool,
        field nlm_lockargs_alock nlm_lockargs_alock_update xdr_nlm_lock,
        field nlm_lockargs_reclaim nlm_lockargs_reclaim_update xdr_bool,
        field nlm_lockargs_state nlm_lockargs_state_update xdr_uint32]"

definition xdr_nlm_unlockargs :: "nlm_unlockargs xdr" where
  "xdr_nlm_unlockargs = all_of
       [field nlm_unlockargs_cookies nlm_unlockargs_cookies_update xdr_nlm_netobj,
        field nlm_unlockargs_alock nlm_unlockargs_alock_update xdr_nlm_lock]"

definition xdr_nlm_notifyargs :: "nlm_notifyargs xdr" where
  "xdr_nlm_notifyargs = all_of
       [field nlm_notifyargs_cookies nlm_notifyargs_cookies_update xdr_nlm_netobj,
        field nlm_notifyargs_state nlm_notifyargs_state_update xdr_uint32,
        field nlm_notifyargs_priv nlm_notifyargs_priv_update (xdr_opaque 16)]"

definition xdr_nlm_cancargs :: "nlm_cancargs xdr" where
  "xdr_nlm_cancargs = all_of
       [field nlm_cancargs_cookies nlm_cancargs_cookies_update xdr_nlm_netobj,
        field nlm_cancargs_block nlm_cancargs_block_update xdr_bool,
        field nlm_cancargs_exclusive nlm_cancargs_exclusive_update xdr_bool,
        field nlm_cancargs_alock nlm_cancargs_alock_update xdr_nlm_lock]"

definition xdr_nlm_testargs :: "nlm_testargs xdr" where
  "xdr_nlm_testargs = all_of
       [field nlm_testargs_cookies nlm_testargs_cookies_update xdr_nlm_netobj,
        field nlm_testargs_exclusive nlm_testargs_exclusive_update xdr_bool,
        field nlm_testargs_alock nlm_testargs_alock_update xdr_nlm_lock]"

definition xdr_nlm_testres :: "nlm_testres xdr" where
  "xdr_nlm_testres = all_of
       [field nlm_testres_cookies nlm_testres_cookies_update xdr_nlm_netobj,
        field nlm_testres_test_stat nlm_testres_test_stat_update xdr_nlm_testrply]"

definition xdr_nlm_res :: "nlm_res xdr" where
  "xdr_nlm_res = all_of
       [field nlm_res_cookies nlm_res_cookies_update xdr_nlm_netobj,
        field nlm_res_stat nlm_res_stat_update xdr_enum]"

definition same_ynetobj :: "ynetobj \<Rightarrow> ynetobj \<Rightarrow> bool" where
  "same_ynetobj v v' \<longleftrightarrow> bytes_as (ynetobj_data v, ynetobj_len v) (ynetobj_data v', ynetobj_len v')"

definition ok_ynetobj :: "ynetobj \<Rightarrow> bool" where
  "ok_ynetobj v \<longleftrightarrow> ynetobj_len v \<le> 1024"

lemma back_nlm_netobj [back_rules]: "reads_back xdr_nlm_netobj ok_ynetobj (\<lambda>v0. same_ynetobj)"
  unfolding xdr_nlm_netobj_def by (rule reads_back_mono, (rule back_rules | simp; fail)+) (auto simp: same_ynetobj_def ok_ynetobj_def)

definition same_nlm_lock :: "nlm_lock \<Rightarrow> nlm_lock \<Rightarrow> bool" where
  "same_nlm_lock v v' \<longleftrightarrow> bytes_as (nlm_lock_caller v, nlm_lock_len v) (nlm_lock_caller v', nlm_lock_len v') \<and>
     same_nfs_fh3 (nlm_lock_fh v) (nlm_lock_fh v') \<and>
     same_ynetobj (nlm_lock_oh v) (nlm_lock_oh v') \<and>
     nlm_lock_svid v' = nlm_lock_svid v \<and>
     nlm_lock_l_offset v' = nlm_lock_l_offset v \<and>
     nlm_lock_l_len v' = nlm_lock_l_len v"

definition ok_nlm_lock :: "nlm_lock \<Rightarrow> bool" where
  "ok_nlm_lock v \<longleftrightarrow> nlm_lock_len v \<le> 1024 \<and> nfs_fh3_len (nlm_lock_fh v) \<le> 64 \<and> ynetobj_len (nlm_lock_oh v) \<le> 1024"

lemma back_nlm_lock [back_rules]: "reads_back xdr_nlm_lock ok_nlm_lock (\<lambda>v0. same_nlm_lock)"
  unfolding xdr_nlm_lock_def by (rule reads_back_mono, (rule back_rules | simp; fail)+) (auto simp: same_nlm_lock_def ok_nlm_lock_def same_nfs_fh3_def same_ynetobj_def)

definition same_nlm4_holder :: "nlm4_holder \<Rightarrow> nlm4_holder \<Rightarrow> bool" where
  "same_nlm4_holder v v' \<longleftrightarrow> nlm4_holder_exclusive v' = nlm4_holder_exclusive v \<and>
     nlm4_holder_svid v' = nlm4_holder_svid v \<and>
     same_ynetobj (nlm4_holder_oh v) (nlm4_holder_oh v') \<and>
     nlm4_holder_l_offset v' = nlm4_holder_l_offset v \<and>
     nlm4_holder_l_len v' = nlm4_holder_l_len v"

definition ok_nlm4_holder :: "nlm4_holder \<Rightarrow> bool" where
  "ok_nlm4_holder v \<longleftrightarrow> ok_ynetobj (nlm4_holder_oh v)"

lemma back_nlm_holder [back_rules]: "reads_back xdr_nlm_holder ok_nlm4_holder (\<lambda>v0. same_nlm4_holder)"
  unfolding xdr_nlm_holder_def by (rule reads_back_mono, (rule back_rules | simp; fail)+) (auto simp: same_nlm4_holder_def ok_nlm4_holder_def)

definition same_nlm_testrply :: "nlm_testrply \<Rightarrow> nlm_testrply \<Rightarrow> bool" where
  "same_nlm_testrply v v' \<longleftrightarrow> nlm_testrply_status v' = nlm_testrply_status v \<and>
     (nlm_testrply_status v = NLM4_DENIED \<longrightarrow> same_nlm4_holder (nlm_testrply_holder v) (nlm_testrply_holder v'))"

definition ok_nlm_testrply :: "nlm_testrply \<Rightarrow> bool" where
  "ok_nlm_testrply v \<longleftrightarrow> (nlm_testrply_status v = NLM4_DENIED \<longrightarrow> ok_nlm4_holder (nlm_testrply_holder v))"

lemma back_nlm_testrply [back_rules]: "reads_back xdr_nlm_testrply ok_nlm_testrply (\<lambda>v0. same_nlm_testrply)"
  unfolding xdr_nlm_testrply_def by (rule reads_back_mono, (rule back_rules | simp; fail)+) (auto simp: same_nlm_testrply_def ok_nlm_testrply_def split: if_splits)

definition same_nlm_lockargs :: "nlm_lockargs \<Rightarrow> nlm_lockargs \<Rightarrow> bool" where
  "same_nlm_lockargs v v' \<longleftrightarrow> same_ynetobj (nlm_lockargs_cookies v) (nlm_lockargs_cookies v') \<and>
     nlm_lockargs_block v' = nlm_lockargs_block v \<and>
     nlm_lockargs_exclusive v' = nlm_lockargs_exclusive v \<and>
     same_nlm_lock (nlm_lockargs_alock v) (nlm_lockargs_alock v') \<and>
     nlm_lockargs_reclaim v' = nlm_lockargs_reclaim v \<and>
     nlm_lockargs_state v' = nlm_lockargs_state v"

definition ok_nlm_lockargs :: "nlm_lockargs \<Rightarrow> bool" where
  "ok_nlm_lockargs v \<longleftrightarrow> ok_ynetobj (nlm_lockargs_cookies v) \<and> ok_nlm_lock (nlm_lockargs_alock v)"

lemma back_nlm_lockargs [back_rules]: "reads_back xdr_nlm_lockargs ok_nlm_lockargs (\<lambda>v0. same_nlm_lockargs)"
  unfolding xdr_nlm_lockargs_def by (rule reads_back_mono, (rule back_rules | simp; fail)+) (auto simp: same_nlm_lockargs_def ok_nlm_lockargs_def)

definition same_nlm_unlockargs :: "nlm_unlockargs \<Rightarrow> nlm_unlockargs \<Rightarrow> bool" where
  "same_nlm_unlockargs v v' \<longleftrightarrow> same_ynetobj (nlm_unlockargs_cookies v) (nlm_unlockargs_cookies v') \<and>
     same_nlm_lock (nlm_unlockargs_alock v) (nlm_unlockargs_alock v')"

definition ok_nlm_unlockargs :: "nlm_unlockargs \<Rightarrow> bool" where
  "ok_nlm_unlockargs v \<longleftrightarrow> ok_ynetobj (nlm_unlockargs_cookies v) \<and> ok_nlm_lock (nlm_unlockargs_alock v)"

lemma back_nlm_unlockargs [back_rules]: "reads_back xdr_nlm_unlockargs ok_nlm_unlockargs (\<lambda>v0. same_nlm_unlockargs)"
  unfolding xdr_nlm_unlockargs_def by (rule reads_back_mono, (rule back_rules | simp; fail)+) (auto simp: same_nlm_unlockargs_def ok_nlm_unlockargs_def)

definition same_nlm_notifyargs :: "nlm_notifyargs \<Rightarrow> nlm_notifyargs \<Rightarrow> bool" where
  "same_nlm_notifyargs v v' \<longleftrightarrow> same_ynetobj (nlm_notifyargs_cookies v) (nlm_notifyargs_cookies v') \<and>
     nlm_notifyargs_state v' = nlm_notifyargs_state v \<and>
     take 16 (nlm_notifyargs_priv v') = take 16 (nlm_notifyargs_priv v)"

definition ok_nlm_notifyargs :: "nlm_notifyargs \<Rightarrow> bool" where
  "ok_nlm_notifyargs v \<longleftrightarrow> ok_ynetobj (nlm_notifyargs_cookies v)"

lemma back_nlm_notifyargs [back_rules]: "reads_back xdr_nlm_notifyargs ok_nlm_notifyargs (\<lambda>v0. same_nlm_notifyargs)"
  unfolding xdr_nlm_notifyargs_def by (rule reads_back_mono, (rule back_rules | simp; fail)+) (auto simp: same_nlm_notifyargs_def ok_nlm_notifyargs_def)

definition same_nlm_cancargs :: "nlm_cancargs \<Rightarrow> nlm_cancargs \<Rightarrow> bool" where
  "same_nlm_cancargs v v' \<longleftrightarrow> same_ynetobj (nlm_cancargs_cookies v) (nlm_cancargs_cookies v') \<and>
     nlm_cancargs_block v' = nlm_cancargs_block v \<and>
     nlm_cancargs_exclusive v' = nlm_cancargs_exclusive v \<and>
     same_nlm_lock (nlm_cancargs_alock v) (nlm_cancargs_alock v')"

definition ok_nlm_cancargs :: "nlm_cancargs \<Rightarrow> bool" where
  "ok_nlm_cancargs v \<longleftrightarrow> ok_ynetobj (nlm_cancargs_cookies v) \<and> ok_nlm_lock (nlm_cancargs_alock v)"

lemma back_nlm_cancargs [back_rules]: "reads_back xdr_nlm_cancargs ok_nlm_cancargs (\<lambda>v0. same_nlm_cancargs)"
  unfolding xdr_nlm_cancargs_def by (rule reads_back_mono, (rule back_rules | simp; fail)+) (auto simp: same_nlm_cancargs_def ok_nlm_cancargs_def)

definition same_nlm_testargs :: "nlm_testargs \<Rightarrow> nlm_testargs \<Rightarrow> bool" where
  "same_nlm_testargs v v' \<longleftrightarrow> same_ynetobj (nlm_testargs_cookies v) (nlm_testargs_cookies v') \<and>
     nlm_testargs_exclusive v' = nlm_testargs_exclusive v \<and>
     same_nlm_lock (nlm_testargs_alock v) (nlm_testargs_alock v')"

definition ok_nlm_testargs :: "nlm_testargs \<Rightarrow> bool" where
  "ok_nlm_testargs v \<longleftrightarrow> ok_ynetobj (nlm_testargs_cookies v) \<and> ok_nlm_lock (nlm_testargs_alock v)"

lemma back_nlm_testargs [back_rules]: "reads_back xdr_nlm_testargs ok_nlm_testargs (\<lambda>v0. same_nlm_testargs)"
  unfolding xdr_nlm_testargs_def by (rule reads_back_mono, (rule back_rules | simp; fail)+) (auto simp: same_nlm_testargs_def ok_nlm_testargs_def)

definition same_nlm_testres :: "nlm_testres \<Rightarrow> nlm_testres \<Rightarrow> bool" where
  "same_nlm_testres v v' \<longleftrightarrow> same_ynetobj (nlm_testres_cookies v) (nlm_testres_cookies v') \<and>
     same_nlm_testrply (nlm_testres_test_stat v) (nlm_testres_test_stat v')"

definition ok_nlm_testres :: "nlm_testres \<Rightarrow> bool" where
  "ok_nlm_testres v \<longleftrightarrow> ok_ynetobj (nlm_testres_cookies v) \<and> ok_nlm_testrply (nlm_testres_test_stat v)"

lemma back_nlm_testres [back_rules]: "reads_back xdr_nlm_testres ok_nlm_testres (\<lambda>v0. same_nlm_testres)"
  unfolding xdr_nlm_testres_def by (rule reads_back_mono, (rule back_rules | simp; fail)+) (auto simp: same_nlm_testres_def ok_nlm_testres_def)

definition same_nlm_res :: "nlm_res \<Rightarrow> nlm_res \<Rightarrow> bool" where
  "same_nlm_res v v' \<longleftrightarrow> same_ynetobj (nlm_res_cookies v) (nlm_res_cookies v') \<and>
     nlm_res_stat v' = nlm_res_stat v"

definition ok_nlm_res :: "nlm_res \<Rightarrow> bool" where
  "ok_nlm_res v \<longleftrightarrow> ok_ynetobj (nlm_res_cookies v)"

lemma back_nlm_res [back_rules]: "reads_back xdr_nlm_res ok_nlm_res (\<lambda>v0. same_nlm_res)"
  unfolding xdr_nlm_res_def by (rule reads_back_mono, (rule back_rules | simp; fail)+) (auto simp: same_nlm_res_def ok_nlm_res_def)

end
