(* ===== verification/SunRpc.thy ===== *)
theory SunRpc
  imports NlmXdr
begin

text \<open>
  Which function serves a call, and how its arguments are taken from the message: \<^verbatim>\<open>nfs_ver3\<close> of \<^verbatim>\<open>nfs3.c\<close>,
  \<^verbatim>\<open>nfs_nlm4\<close> of \<^verbatim>\<open>nlm4.c\<close>, \<^verbatim>\<open>nfs_mount\<close> of \<^verbatim>\<open>nfs_mount.c\<close>, and \<^verbatim>\<open>nfs_acl\<close> and \<^verbatim>\<open>__nfs_exec\<close> of \<^verbatim>\<open>nfs_events.c\<close>.

  The functions that serve the calls act on the file system, which is not modelled. They are an argument
  \<open>svc\<close>, over their names, and the state \<open>'s\<close> they act on is of any type. \<^verbatim>\<open>nfsarg\<close> is on the stack and
  not initialised: \<open>blank\<close> is what it holds. The number of a core, which \<^verbatim>\<open>core_request\<close> takes to choose where a call
  of the lock protocol is served, has no other effect than that it must be computed.

  The messages of the NFS server: \<^verbatim>\<open>src/sdfs/nfs/sunrpc_proto.c\<close> cuts the bytes of a connection into records,
  takes the head and the credentials off a record and makes a task of it, and \<^verbatim>\<open>src/sdfs/nfs/sunrpc_reply.c\<close> puts the head
  of a reply in front of its result. The \<^verbatim>\<open>ENABLE_CO_WORKER\<close> branches are the ones that are compiled.

  A task is started by \<^verbatim>\<open>schedule_task_new1\<close> and runs \<^verbatim>\<open>__nfs_exec\<close> later; here the tasks are the result. The
  memory that \<^verbatim>\<open>mem_cache_calloc\<close> gives is not modelled, and what a reply is sent with is not either: the message
  is the result.
\<close>

unbundle bit_operations_syntax

section \<open>Requests and arguments\<close>

text \<open>All numbers are in the order of the machine except \<open>xid\<close>, whose bytes are kept as they came.\<close>

record sunrpc_request =
  req_length :: "32 word"
  req_xid :: "octet list"
  req_msgtype :: "32 word"
  req_rpcversion :: "32 word"
  req_program :: "32 word"
  req_progversion :: "32 word"
  req_procedure :: "32 word"

text \<open>The members of the union \<^verbatim>\<open>nfsarg_t\<close>.\<close>

record nfsarg =
  nfsarg_setattr3_arg :: setattr3_args
  nfsarg_rename_arg :: rename_args
  nfsarg_getattr_arg :: getattr_args
  nfsarg_lookup_arg :: diropargs3
  nfsarg_access_arg :: access_args
  nfsarg_read_arg :: read_args
  nfsarg_write_arg :: write_args
  nfsarg_create_arg :: create_args
  nfsarg_mkdir_arg :: mkdir_args
  nfsarg_remove_arg :: remove_args
  nfsarg_rmdir_arg :: remove_args
  nfsarg_readdir_arg :: readdir_args
  nfsarg_readdirplus_arg :: readdirplus_args
  nfsarg_fsstat_arg :: fsstat_args
  nfsarg_fsinfo_arg :: fsinfo_args
  nfsarg_pathconf_arg :: pathconf3_args
  nfsarg_commit_arg :: commit_args
  nfsarg_symlink_arg :: symlink_args
  nfsarg_mknod_arg :: mknod_args
  nfsarg_readlink_arg :: readlink_args
  nfsarg_link3arg :: LINK3args
  nfsarg_mnt_arg :: "octet list option"
  nfsarg_umnt_arg :: "octet list option"
  nfsarg_lockargs :: nlm_lockargs
  nfsarg_cancargs :: nlm_cancargs
  nfsarg_testargs :: nlm_testargs
  nfsarg_unlockargs :: nlm_unlockargs
  nfsarg_notifyargs :: nlm_notifyargs

text \<open>The functions that serve the calls, by name.\<close>

datatype nfs_handler =
    nfs3_null_svc | nfs3_getattr_svc | nfs3_setattr_svc | nfs3_lookup_svc | nfs3_access_svc | nfs3_fsstat_svc
  | nfs3_fsinfo_svc | nfs3_pathconf_svc | nfs3_create_svc | nfs3_mkdir_svc | nfs3_readdir_svc | nfs3_readdirplus_svc
  | nfs3_rmdir_svc | nfs3_readlink_svc | nfs3_symlink_svc | nfs3_mknod_svc | nfs3_remove_svc | nfs3_rename_svc
  | nfs3_link_svc | nfs3_commit_svc | nfs3_read_svc | nfs3_write_svc
  | nlm4_null_svc | nlm4_test_svc | nlm4_lock_svc | nlm4_unlock_svc | nlm4_cancel_svc
  | mount_null_svc | mount_mnt_svc | mount_dump_svc | mount_umnt_svc | mount_export_svc
  | acl_null_svc

section \<open>Procedures\<close>

abbreviation NFS3_NULL :: "32 word" where "NFS3_NULL \<equiv> 0"
abbreviation NFS3_GETATTR :: "32 word" where "NFS3_GETATTR \<equiv> 1"
abbreviation NFS3_SETATTR :: "32 word" where "NFS3_SETATTR \<equiv> 2"
abbreviation NFS3_LOOKUP :: "32 word" where "NFS3_LOOKUP \<equiv> 3"
abbreviation NFS3_ACCESS :: "32 word" where "NFS3_ACCESS \<equiv> 4"
abbreviation NFS3_READLINK :: "32 word" where "NFS3_READLINK \<equiv> 5"
abbreviation NFS3_READ :: "32 word" where "NFS3_READ \<equiv> 6"
abbreviation NFS3_WRITE :: "32 word" where "NFS3_WRITE \<equiv> 7"
abbreviation NFS3_CREATE :: "32 word" where "NFS3_CREATE \<equiv> 8"
abbreviation NFS3_MKDIR :: "32 word" where "NFS3_MKDIR \<equiv> 9"
abbreviation NFS3_SYMLINK :: "32 word" where "NFS3_SYMLINK \<equiv> 10"
abbreviation NFS3_MKNOD :: "32 word" where "NFS3_MKNOD \<equiv> 11"
abbreviation NFS3_REMOVE :: "32 word" where "NFS3_REMOVE \<equiv> 12"
abbreviation NFS3_RMDIR :: "32 word" where "NFS3_RMDIR \<equiv> 13"
abbreviation NFS3_RENAME :: "32 word" where "NFS3_RENAME \<equiv> 14"
abbreviation NFS3_LINK :: "32 word" where "NFS3_LINK \<equiv> 15"
abbreviation NFS3_READDIR :: "32 word" where "NFS3_READDIR \<equiv> 16"
abbreviation NFS3_READDIRPLUS :: "32 word" where "NFS3_READDIRPLUS \<equiv> 17"
abbreviation NFS3_FSSTAT :: "32 word" where "NFS3_FSSTAT \<equiv> 18"
abbreviation NFS3_FSINFO :: "32 word" where "NFS3_FSINFO \<equiv> 19"
abbreviation NFS3_PATHCONF :: "32 word" where "NFS3_PATHCONF \<equiv> 20"
abbreviation NFS3_COMMIT :: "32 word" where "NFS3_COMMIT \<equiv> 21"

abbreviation PNLM4_NULL :: "32 word" where "PNLM4_NULL \<equiv> 0"
abbreviation PNLM4_TEST :: "32 word" where "PNLM4_TEST \<equiv> 1"
abbreviation PNLM4_LOCK :: "32 word" where "PNLM4_LOCK \<equiv> 2"
abbreviation PNLM4_CANCEL :: "32 word" where "PNLM4_CANCEL \<equiv> 3"
abbreviation PNLM4_UNLOCK :: "32 word" where "PNLM4_UNLOCK \<equiv> 4"

abbreviation MNT_NULL :: "32 word" where "MNT_NULL \<equiv> 0"
abbreviation MNT_MNT :: "32 word" where "MNT_MNT \<equiv> 1"
abbreviation MNT_DUMP :: "32 word" where "MNT_DUMP \<equiv> 2"
abbreviation MNT_UMNT :: "32 word" where "MNT_UMNT \<equiv> 3"
abbreviation MNT_EXPORT :: "32 word" where "MNT_EXPORT \<equiv> 5"

abbreviation MOUNTPROG :: "32 word" where "MOUNTPROG \<equiv> 100005"
abbreviation NFS3_PROGRAM :: "32 word" where "NFS3_PROGRAM \<equiv> 100003"
abbreviation ACL_PROGRAM :: "32 word" where "ACL_PROGRAM \<equiv> 100227"
abbreviation NLM_PROGRAM :: "32 word" where "NLM_PROGRAM \<equiv> 100021"
abbreviation MOUNTVERS1 :: "32 word" where "MOUNTVERS1 \<equiv> 1"
abbreviation MOUNTVERS3 :: "32 word" where "MOUNTVERS3 \<equiv> 3"
abbreviation NFS_V3 :: "32 word" where "NFS_V3 \<equiv> 3"

definition nfs_ver3_proc :: "32 word \<Rightarrow> (nfs_handler \<times> nfsarg xdr option) option" where
  "nfs_ver3_proc = map_of
     [(NFS3_NULL, (nfs3_null_svc, None)),
      (NFS3_GETATTR, (nfs3_getattr_svc, Some (field nfsarg_getattr_arg nfsarg_getattr_arg_update xdr_getattrargs))),
      (NFS3_SETATTR, (nfs3_setattr_svc, Some (field nfsarg_setattr3_arg nfsarg_setattr3_arg_update xdr_setattrargs))),
      (NFS3_LOOKUP, (nfs3_lookup_svc, Some (field nfsarg_lookup_arg nfsarg_lookup_arg_update xdr_lookupargs))),
      (NFS3_ACCESS, (nfs3_access_svc, Some (field nfsarg_access_arg nfsarg_access_arg_update xdr_accessargs))),
      (NFS3_FSSTAT, (nfs3_fsstat_svc, Some (field nfsarg_fsstat_arg nfsarg_fsstat_arg_update xdr_fsstatargs))),
      (NFS3_FSINFO, (nfs3_fsinfo_svc, Some (field nfsarg_fsinfo_arg nfsarg_fsinfo_arg_update xdr_fsinfoargs))),
      (NFS3_PATHCONF, (nfs3_pathconf_svc, Some (field nfsarg_pathconf_arg nfsarg_pathconf_arg_update xdr_pathconf3_args))),
      (NFS3_CREATE, (nfs3_create_svc, Some (field nfsarg_create_arg nfsarg_create_arg_update xdr_createargs))),
      (NFS3_MKDIR, (nfs3_mkdir_svc, Some (field nfsarg_mkdir_arg nfsarg_mkdir_arg_update xdr_mkdirargs))),
      (NFS3_READDIR, (nfs3_readdir_svc, Some (field nfsarg_readdir_arg nfsarg_readdir_arg_update xdr_readdirargs))),
      (NFS3_READDIRPLUS, (nfs3_readdirplus_svc, Some (field nfsarg_readdirplus_arg nfsarg_readdirplus_arg_update xdr_readdirplusargs))),
      (NFS3_RMDIR, (nfs3_rmdir_svc, Some (field nfsarg_rmdir_arg nfsarg_rmdir_arg_update xdr_rmdirargs))),
      (NFS3_READLINK, (nfs3_readlink_svc, Some (field nfsarg_readlink_arg nfsarg_readlink_arg_update xdr_readlinkargs))),
      (NFS3_SYMLINK, (nfs3_symlink_svc, Some (field nfsarg_symlink_arg nfsarg_symlink_arg_update xdr_symlinkargs))),
      (NFS3_MKNOD, (nfs3_mknod_svc, Some (field nfsarg_mknod_arg nfsarg_mknod_arg_update xdr_mknodargs))),
      (NFS3_REMOVE, (nfs3_remove_svc, Some (field nfsarg_remove_arg nfsarg_remove_arg_update xdr_removeargs))),
      (NFS3_RENAME, (nfs3_rename_svc, Some (field nfsarg_rename_arg nfsarg_rename_arg_update xdr_renameargs))),
      (NFS3_LINK, (nfs3_link_svc, Some (field nfsarg_link3arg nfsarg_link3arg_update xdr_LINK3args))),
      (NFS3_COMMIT, (nfs3_commit_svc, Some (field nfsarg_commit_arg nfsarg_commit_arg_update xdr_commitargs))),
      (NFS3_READ, (nfs3_read_svc, Some (field nfsarg_read_arg nfsarg_read_arg_update xdr_readargs))),
      (NFS3_WRITE, (nfs3_write_svc, Some (field nfsarg_write_arg nfsarg_write_arg_update xdr_writeargs)))]"

text \<open>The hashes of \<^verbatim>\<open>xdr_nlm.c\<close> read the handle, of which nothing has been checked; a shift by 64 or more has no value.\<close>

definition nlm_hash :: "nlm_lock \<Rightarrow> 64 word option" where
  "nlm_hash alock =
     do {
       fileid \<leftarrow> nfs_fh3_val (nlm_lock_fh alock);
       i \<leftarrow> chkid_id fileid;
       volid \<leftarrow> chkid_volid fileid;
       asserts (i < 64);
       Some (push_bit (unat i) (i * drop_bit 16 volid))
     }"

definition hash_test :: "nlm_testargs \<Rightarrow> 64 word option" where "hash_test args = nlm_hash (nlm_testargs_alock args)"
definition hash_lock :: "nlm_lockargs \<Rightarrow> 64 word option" where "hash_lock args = nlm_hash (nlm_lockargs_alock args)"
definition hash_unlock :: "nlm_unlockargs \<Rightarrow> 64 word option" where "hash_unlock args = nlm_hash (nlm_unlockargs_alock args)"
definition hash_cancel :: "nlm_cancargs \<Rightarrow> 64 word option" where "hash_cancel args = nlm_hash (nlm_cancargs_alock args)"

definition nfs_nlm4_proc ::
    "32 word \<Rightarrow> (nfs_handler \<times> nfsarg xdr option \<times> (nfsarg \<Rightarrow> 64 word option) option) option" where
  "nfs_nlm4_proc = map_of
     [(PNLM4_NULL, (nlm4_null_svc, None, None)),
      (PNLM4_TEST, (nlm4_test_svc, Some (field nfsarg_testargs nfsarg_testargs_update xdr_nlm_testargs), Some (\<lambda>a. hash_test (nfsarg_testargs a)))),
      (PNLM4_LOCK, (nlm4_lock_svc, Some (field nfsarg_lockargs nfsarg_lockargs_update xdr_nlm_lockargs), Some (\<lambda>a. hash_lock (nfsarg_lockargs a)))),
      (PNLM4_UNLOCK, (nlm4_unlock_svc, Some (field nfsarg_unlockargs nfsarg_unlockargs_update xdr_nlm_unlockargs), Some (\<lambda>a. hash_unlock (nfsarg_unlockargs a)))),
      (PNLM4_CANCEL, (nlm4_cancel_svc, Some (field nfsarg_cancargs nfsarg_cancargs_update xdr_nlm_cancargs), Some (\<lambda>a. hash_cancel (nfsarg_cancargs a))))]"

definition xdr_void :: "'a xdr" where "xdr_void = skip_xdr"

definition nfs_mount_proc :: "32 word \<Rightarrow> (nfs_handler \<times> nfsarg xdr) option" where
  "nfs_mount_proc = map_of
     [(MNT_NULL, (mount_null_svc, xdr_void)),
      (MNT_MNT, (mount_mnt_svc, field nfsarg_mnt_arg nfsarg_mnt_arg_update xdr_dirpath)),
      (MNT_DUMP, (mount_dump_svc, xdr_void)),
      (MNT_UMNT, (mount_umnt_svc, field nfsarg_umnt_arg nfsarg_umnt_arg_update xdr_dirpath)),
      (MNT_EXPORT, (mount_export_svc, xdr_void))]"

section \<open>Serving a call\<close>

type_synonym 's served = "(errno option \<times> world \<times> 's) option"

type_synonym 's service =
  "nfs_handler \<Rightarrow> sunrpc_request \<Rightarrow> 32 word \<Rightarrow> 32 word \<Rightarrow> nfsarg \<Rightarrow> world \<Rightarrow> 's \<Rightarrow> 's served"

text \<open>The end of all four functions: the arguments are decoded, if there are any, and the call is served.\<close>

definition take_args :: "nfsarg xdr option \<Rightarrow> nfsarg \<Rightarrow> world \<Rightarrow> 's \<Rightarrow> (nfsarg \<Rightarrow> world \<Rightarrow> 's served) \<Rightarrow> 's served" where
  "take_args xdr_arg blank w s k =
     (case xdr_arg of
        None \<Rightarrow> k blank w
      | Some c \<Rightarrow>
          do {
            (r, arg, w) \<leftarrow> c XDR_DECODE blank w;
            if r = XDR_TRUE then k arg w else Some (Some EINVAL, w, s)
          })"

definition nfs_ver3 ::
    "'s service \<Rightarrow> sunrpc_request \<Rightarrow> 32 word \<Rightarrow> 32 word \<Rightarrow> nfsarg \<Rightarrow> world \<Rightarrow> 's \<Rightarrow> 's served" where
  "nfs_ver3 svc req uid gid blank w s =
     (case nfs_ver3_proc (req_procedure req) of
        None \<Rightarrow> Some (Some EINVAL, w, s)
      | Some (handler, xdr_arg) \<Rightarrow>
          take_args xdr_arg blank w s (\<lambda>arg w. svc handler req uid gid arg w s))"

definition nfs_nlm4 ::
    "'s service \<Rightarrow> sunrpc_request \<Rightarrow> 32 word \<Rightarrow> 32 word \<Rightarrow> nfsarg \<Rightarrow> world \<Rightarrow> 's \<Rightarrow> 's served" where
  "nfs_nlm4 svc req uid gid blank w s =
     (case nfs_nlm4_proc (req_procedure req) of
        None \<Rightarrow> Some (Some EINVAL, w, s)
      | Some (handler, xdr_arg, hash_args) \<Rightarrow>
          take_args xdr_arg blank w s (\<lambda>arg w.
            do {
              hash \<leftarrow> (case hash_args of None \<Rightarrow> Some 0 | Some h \<Rightarrow> h arg);
              svc handler req uid gid arg w s
            }))"

definition nfs_mount ::
    "'s service \<Rightarrow> sunrpc_request \<Rightarrow> 32 word \<Rightarrow> 32 word \<Rightarrow> nfsarg \<Rightarrow> world \<Rightarrow> 's \<Rightarrow> 's served" where
  "nfs_mount svc req uid gid blank w s =
     (case nfs_mount_proc (req_procedure req) of
        None \<Rightarrow> Some (Some EINVAL, w, s)
      | Some (handler, xdr_arg) \<Rightarrow>
          take_args (Some xdr_arg) blank w s (\<lambda>arg w. svc handler req uid gid arg w s))"

definition nfs_acl ::
    "'s service \<Rightarrow> sunrpc_request \<Rightarrow> 32 word \<Rightarrow> 32 word \<Rightarrow> nfsarg \<Rightarrow> world \<Rightarrow> 's \<Rightarrow> 's served" where
  "nfs_acl svc req uid gid blank w s =
     (if req_procedure req = 0
      then take_args (Some xdr_void) blank w s (\<lambda>arg w. svc acl_null_svc req uid gid arg w s)
      else Some (Some EINVAL, w, s))"

text \<open>The value of the call is dropped, and what is left of the message is freed.\<close>

definition nfs_exec :: "'s service \<Rightarrow> sunrpc_request \<Rightarrow> 32 word \<Rightarrow> 32 word \<Rightarrow> nfsarg \<Rightarrow> world \<Rightarrow> 's \<Rightarrow> (mem \<times> 's) option" where
  "nfs_exec svc req uid gid blank w s =
     do {
       (code, (m, buf), s) \<leftarrow>
         (if req_program req = MOUNTPROG \<and> (req_progversion req = MOUNTVERS3 \<or> req_progversion req = MOUNTVERS1)
          then nfs_mount svc req uid gid blank w s
          else if req_program req = NFS3_PROGRAM \<and> req_progversion req = NFS_V3
          then nfs_ver3 svc req uid gid blank w s
          else if req_program req = ACL_PROGRAM then nfs_acl svc req uid gid blank w s
          else if req_program req = NLM_PROGRAM then nfs_nlm4 svc req uid gid blank w s
          else Some (None, w, s));
       (buf, m) \<leftarrow> mbuffer_free buf m;
       Some (m, s)
     }"

section \<open>Heads\<close>

definition MAX_AUTH_BYTES :: nat where "MAX_AUTH_BYTES = 400"

definition sunrpc_request_size :: nat where "sunrpc_request_size = 28"
definition sunrpc_proto_size :: nat where "sunrpc_proto_size = 12"
definition auth_head_size :: nat where "auth_head_size = 8"
definition sunrpc_reply_size :: nat where "sunrpc_reply_size = 28"

text \<open>A number of a head, from where it is.\<close>

definition be_at :: "nat \<Rightarrow> octet list \<Rightarrow> 32 word" where
  "be_at k d = of_be32 (take 4 (drop k d))"

definition last_bit :: "32 word" where "last_bit = push_bit 31 1"

record auth_head =
  auth_flavor :: "32 word"
  auth_length :: "32 word"

definition auth_head_of :: "octet list \<Rightarrow> auth_head" where
  "auth_head_of d = \<lparr>auth_flavor = be_at 0 d, auth_length = be_at 4 d\<rparr>"

record auth_unix =
  auth_stamp :: "32 word"
  auth_machinename :: "octet list option"
  auth_uid :: "32 word"
  auth_gid :: "32 word"

record task =
  task_req :: sunrpc_request
  task_uid :: "32 word"
  task_gid :: "32 word"
  task_buf :: buffer

section \<open>Records\<close>

text \<open>\<^verbatim>\<open>msg_len\<close>; \<^verbatim>\<open>io_len\<close> is 0. With fewer bytes than a head nothing is set.\<close>

definition sunrpc_pack_len :: "octet list \<Rightarrow> 32 word option" where
  "sunrpc_pack_len d =
     (if length d < sunrpc_request_size then None
      else
        let l = be_at 0 d in
        Some ((if l AND last_bit \<noteq> 0 then l XOR last_bit else l) + 4))"

text \<open>The credentials. The returned values of the \<^verbatim>\<open>__xdr\<close> functions are not looked at, and the caller frees the name.\<close>

definition auth_unix_of :: "octet list \<Rightarrow> mem \<Rightarrow> (auth_unix \<times> mem) option" where
  "auth_unix_of d m =
     do {
       (b, m) \<leftarrow> mbuffer_init 0 m;
       (code, b, m) \<leftarrow> mbuffer_copy b d m;
       (r, stamp, w) \<leftarrow> xdr_uint32 XDR_DECODE 0 (m, b);
       (r, name, w) \<leftarrow> xdr_string 255 XDR_DECODE None w;
       (r, uid, w) \<leftarrow> xdr_uint32 XDR_DECODE 0 w;
       (r, gid, (m, b)) \<leftarrow> xdr_uint32 XDR_DECODE 0 w;
       (b, m) \<leftarrow> mbuffer_free b m;
       Some (\<lparr>auth_stamp = stamp, auth_machinename = name, auth_uid = uid, auth_gid = gid\<rparr>, m)
     }"

text \<open>A head with its body, taken into \<^verbatim>\<open>MAX_AUTH_BYTES\<close> bytes on the stack. The length is one of 32 bits, and nothing
  checks it.\<close>

definition take_auth :: "world \<Rightarrow> (auth_head \<times> octet list \<times> world) option" where
  "take_auth = (\<lambda>(m, b).
     do {
       d \<leftarrow> mbuffer_get b auth_head_size m;
       let auth = auth_head_of d;
       let n = unat (auth_length auth + of_nat auth_head_size);
       asserts (n \<le> MAX_AUTH_BYTES);
       (d, w) \<leftarrow> pop_msg n (m, b);
       Some (auth, d, w)
     })"

definition request_head :: "octet list \<Rightarrow> sunrpc_request" where
  "request_head d =
     \<lparr>req_length = be_at 0 d XOR last_bit, req_xid = take 4 (drop 4 d), req_msgtype = be_at 8 d,
      req_rpcversion = be_at 12 d, req_program = be_at 16 d, req_progversion = be_at 20 d, req_procedure = be_at 24 d\<rparr>"

definition nfs_newtask :: "sunrpc_request \<Rightarrow> 32 word \<Rightarrow> 32 word \<Rightarrow> world \<Rightarrow> (task \<times> world) option" where
  "nfs_newtask req uid gid = (\<lambda>(m, b).
     do {
       (buf, m) \<leftarrow> mbuffer_init 0 m;
       (buf, b) \<leftarrow> mbuffer_merge buf b;
       Some (\<lparr>task_req = req, task_uid = uid, task_gid = gid, task_buf = buf\<rparr>, (m, b))
     })"

text \<open>A record that is not the last of its message ends the server.\<close>

definition sunrpc_request_handler :: "world \<Rightarrow> (task \<times> world) option" where
  "sunrpc_request_handler w =
     do {
       (d, w) \<leftarrow> pop_msg sunrpc_request_size w;
       asserts (be_at 0 d AND last_bit = last_bit);
       let req = request_head d;
       (cred, credbuf, w) \<leftarrow> take_auth w;
       (uid, gid, w) \<leftarrow>
         (if auth_length cred \<noteq> 0
          then do {
            asserts (auth_head_size + unat (auth_length cred) \<le> length credbuf);
            (auth, m) \<leftarrow> auth_unix_of (take (unat (auth_length cred)) (drop auth_head_size credbuf)) (fst w);
            asserts (auth_machinename auth \<noteq> None);
            Some (auth_uid auth, auth_gid auth, (m, snd w))
          }
          else Some (0, 0, w));
       (veri, veribuf, w) \<leftarrow> take_auth w;
       nfs_newtask req uid gid w
     }"

definition SUNRPC_REQ_MSG :: "32 word" where "SUNRPC_REQ_MSG = 0"
definition SUNRPC_REP_MSG :: "32 word" where "SUNRPC_REP_MSG = 1"

text \<open>What is not a request ends the server too.\<close>

definition sunrpc_pack_handler :: "world \<Rightarrow> (task \<times> world) option" where
  "sunrpc_pack_handler = (\<lambda>(m, b).
     do {
       d \<leftarrow> mbuffer_get b sunrpc_proto_size m;
       asserts (be_at 8 d = SUNRPC_REQ_MSG);
       sunrpc_request_handler (m, b)
     })"

text \<open>
  The loop of \<^verbatim>\<open>__sunrpc_recv\<close>; its count is the number of tasks. The lengths are compared as \<^verbatim>\<open>int\<close>.
  The buffer of the record is on the stack, and what is left in it is dropped.
\<close>

text \<open>One record, if it has arrived: the task that it makes.\<close>

definition sunrpc_record :: "world \<Rightarrow> (task \<times> world) option option" where
  "sunrpc_record = (\<lambda>(m, buff).
     if sunrpc_request_size \<le> blen buff then
       do {
         d \<leftarrow> mbuffer_get buff sunrpc_request_size m;
         msg_len \<leftarrow> sunrpc_pack_len d;
         if (of_nat (blen buff) :: 32 word) <s msg_len then Some None
         else do {
           (b, m) \<leftarrow> mbuffer_init 0 m;
           (code, buff, b, m) \<leftarrow> mbuffer_pop buff (Some b) (unat msg_len) m;
           b \<leftarrow> b;
           (task, m, b) \<leftarrow> sunrpc_pack_handler (m, b);
           Some (Some (task, (m, buff)))
         }
       }
     else Some None)"

partial_function (option) sunrpc_recv :: "world \<Rightarrow> (task list \<times> world) option" where
  "sunrpc_recv w =
     sunrpc_record w \<bind> (\<lambda>r.
       case r of
         None \<Rightarrow> Some ([], w)
       | Some x \<Rightarrow> sunrpc_recv (snd x) \<bind> (\<lambda>y. Some (fst x # fst y, snd y)))"

section \<open>Replies\<close>

text \<open>The head is written through the pointer \<^verbatim>\<open>rep\<close> to the first segment, the length when the result is there. A result
  that cannot be encoded leaves the buffer as it is.\<close>

definition sunrpc_reply ::
    "sunrpc_request \<Rightarrow> 32 word \<Rightarrow> ('a \<times> 'a xdr) option \<Rightarrow> mem \<Rightarrow> (errno option \<times> buffer \<times> mem) option" where
  "sunrpc_reply req state res m =
     do {
       (buf, m) \<leftarrow> mbuffer_init sunrpc_reply_size m;
       rep \<leftarrow> mbuffer_head buf;
       m \<leftarrow> poke (map_option (\<lambda>(b, off). (b, off + 4)) rep)
              (req_xid req @ be32 SUNRPC_REP_MSG @ be32 0 @ be32 0 @ be32 0 @ be32 state) m;
       (r, m, buf) \<leftarrow>
         (case res of
            None \<Rightarrow> Some (XDR_TRUE, m, buf)
          | Some (v, xdr_ret) \<Rightarrow> do { (r, v, (m, buf)) \<leftarrow> xdr_ret XDR_ENCODE v (m, buf); Some (r, m, buf) });
       if r \<noteq> XDR_TRUE then Some (Some EINVAL, buf, m)
       else do {
         m \<leftarrow> poke rep (be32 (last_bit OR (of_nat (blen buf) - 4))) m;
         Some (None, buf, m)
       }
     }"

end
