(* ===== verification/NfsGoes.thy ===== *)
theory NfsGoes
  imports NfsBack
begin

text \<open>
  Which objects can be sent: \<open>sends_all n P c\<close> says that \<open>c\<close> sends every object with \<open>P\<close>, with at most \<open>n\<close> bytes, as long as the
  message stays below 4 GB. The rules of \<open>go_rules\<close> go with the ways functions are put together, as \<open>back_rules\<close> do.

  The replies of the NFS protocol that hold numbers, attributes and verifiers only are sent whenever their flags are
  flags and their verifiers are there: no assertion fails and no error is returned.
\<close>

unbundle bit_operations_syntax

named_theorems go_rules

section \<open>The promise\<close>

definition sends_all :: "nat \<Rightarrow> ('a \<Rightarrow> bool) \<Rightarrow> 'a xdr \<Rightarrow> bool" where
  "sends_all n P c \<longleftrightarrow> (\<forall>v w R. P v \<longrightarrow> good w R \<longrightarrow> length (sent w) + n < 2 ^ 32 \<longrightarrow>
     (\<exists>w1. c XDR_ENCODE v w = Some (XDR_TRUE, v, w1) \<and> good w1 R \<and> length (sent w1) \<le> length (sent w) + n))"

lemma sendsI:
  assumes "\<And>v w R. P v \<Longrightarrow> good w R \<Longrightarrow> length (sent w) + n < 2 ^ 32 \<Longrightarrow>
    \<exists>w1. c XDR_ENCODE v w = Some (XDR_TRUE, v, w1) \<and> good w1 R \<and> length (sent w1) \<le> length (sent w) + n"
  shows "sends_all n P c"
  using assms by (simp add: sends_all_def)

lemma sendsE:
  assumes "sends_all n P c" "P v" "good w R" "length (sent w) + n < 2 ^ 32"
  obtains w1 where "c XDR_ENCODE v w = Some (XDR_TRUE, v, w1)" "good w1 R" "length (sent w1) \<le> length (sent w) + n"
  using assms unfolding sends_all_def by metis

lemma sends_mono: "sends_all n P c \<Longrightarrow> (\<And>v. Q v \<Longrightarrow> P v) \<Longrightarrow> n \<le> k \<Longrightarrow> sends_all k Q c"
  unfolding sends_all_def by (meson add_left_mono le_less_trans order_trans)

section \<open>Functions put together\<close>

lemma go_field [go_rules]: "sends_all n P c \<Longrightarrow> (\<And>v. upd (\<lambda>_. get v) v = v) \<Longrightarrow> sends_all n (\<lambda>v. P (get v)) (field get upd c)"
  by (rule sendsI, erule sendsE) (auto simp: field_def)

lemma go_skip [go_rules]: "sends_all 0 (\<lambda>v. True) skip_xdr"
  by (rule sendsI) (simp add: skip_xdr_def)

lemma go_fail [go_rules]: "sends_all 0 (\<lambda>v. False) (fail_xdr r)"
  by (rule sendsI) simp

lemma go_if [go_rules]: "sends_all n P c \<Longrightarrow> sends_all k Q d \<Longrightarrow> sends_all (n + k) (\<lambda>v. if b then P v else Q v) (if b then c else d)"
  by (auto intro: sends_mono)

lemma go_or_false [go_rules]: "sends_all n P c \<Longrightarrow> sends_all n P (or_false c)"
  by (simp add: sends_all_def)

lemma go_then:
  assumes c: "sends_all n P c" and k: "sends_all k Q (\<lambda>op v. f op v)" and "P v" "Q v" "good w R" "length (sent w) + (n + k) < 2 ^ 32"
  shows "\<exists>w1. on_true (c XDR_ENCODE v w) (f XDR_ENCODE) = Some (XDR_TRUE, v, w1) \<and> good w1 R \<and>
    length (sent w1) \<le> length (sent w) + (n + k)"
proof -
  obtain w1 where 1: "c XDR_ENCODE v w = Some (XDR_TRUE, v, w1)" "good w1 R" "length (sent w1) \<le> length (sent w) + n"
    using sendsE [OF c assms(3,5)] assms(6) by auto
  obtain w2 where "f XDR_ENCODE v w1 = Some (XDR_TRUE, v, w2)" "good w2 R" "length (sent w2) \<le> length (sent w1) + k"
    using sendsE [OF k assms(4) 1(2)] 1(3) assms(6) by auto
  then show ?thesis using 1 by auto
qed

lemma go_nil [go_rules]: "sends_all 0 (\<lambda>v. True) (each_of [])"
  by (rule sendsI) auto

lemma go_cons [go_rules]: "sends_all n P c \<Longrightarrow> sends_all k Q (each_of cs) \<Longrightarrow> sends_all (n + k) (\<lambda>v. P v \<and> Q v) (each_of (c # cs))"
  unfolding sends_all_def [of "n + k"] each_of.simps by (intro allI impI, elim conjE) (rule go_then)

lemma go_all_of [go_rules]: "sends_all n P (each_of cs) \<Longrightarrow> sends_all n P (all_of cs)"
  by (simp add: all_of_def go_or_false)

lemma go_tagged [go_rules]:
  assumes c: "sends_all n P c" and f: "\<And>t. sends_all k (Q t) (f t)" and lens: "\<And>v. upd (\<lambda>_. get v) v = v"
  shows "sends_all (n + k) (\<lambda>v. P (get v) \<and> Q (get v) v) (tagged get upd c f)"
proof (rule sendsI)
  fix v w R assume v: "P (get v) \<and> Q (get v) v" "good w R" "length (sent w) + (n + k) < 2 ^ 32"
  have g: "sends_all n (\<lambda>v. P (get v)) (field get upd c)" by (rule go_field) (rule c, rule lens)
  have h: "sends_all k (Q (get v)) (\<lambda>op u. f (get v) op u)" using f by simp
  have "P (get v)" "Q (get v) v" using v(1) by simp_all
  from go_then [OF g h this v(2,3)] obtain w1 where 1: "on_true (field get upd c XDR_ENCODE v w) (f (get v) XDR_ENCODE) = Some (XDR_TRUE, v, w1)"
      "good w1 R" "length (sent w1) \<le> length (sent w) + (n + k)" by blast
  have "length (sent w) + n < 2 ^ 32" using v(3) by simp
  from sendsE [OF g \<open>P (get v)\<close> v(2) this]
  obtain w2 where "field get upd c XDR_ENCODE v w = Some (XDR_TRUE, v, w2)" by blast
  then show "\<exists>w1. tagged get upd c f XDR_ENCODE v w = Some (XDR_TRUE, v, w1) \<and> good w1 R \<and>
      length (sent w1) \<le> length (sent w) + (n + k)"
    using 1 by (simp add: tagged_def)
qed

section \<open>Numbers and bytes\<close>

text \<open>While the message is short, something can be appended to it.\<close>

lemma append_mem_goes:
  assumes g: "good w R" and d: "0 < length d" "length d \<le> BUFFER_SEG_SIZE" "length (sent w) + length d < 2 ^ 32"
  shows "\<exists>w1. append_mem d v w = Some (XDR_TRUE, v, w1) \<and> good w1 R \<and> sent w1 = sent w @ d"
proof -
  obtain m b where w: "w = (m, b)" by (cases w)
  then have h: "holds m b R" using g by (simp add: good_def)
  then have "blen b + length d < 2 ^ 32" using d(3) holds_length [OF h] w by (simp add: sent_def)
  from appendmem_ok [OF h d(1,2) this, of True] obtain b' m' where
    "appendmem b d True m = Some (None, b', m')" "holds m' b' R" "text_of m' b' = text_of m b @ d" by auto
  then show ?thesis
    using w by (intro exI [of _ "(m', b')"]) (simp add: append_mem_def mbuffer_appendmem_def good_def sent_def)
qed

lemma go_opaque [go_rules]:
  assumes "0 < n" "n \<le> BUFFER_SEG_SIZE" "n mod 4 = 0"
  shows "sends_all n (\<lambda>v. n \<le> length v) (xdr_opaque n)"
proof (rule sendsI)
  fix v :: "octet list" and w R assume v: "n \<le> length v" "good w R" "length (sent w) + n < 2 ^ 32"
  have "\<exists>w1. append_mem (take n v) v w = Some (XDR_TRUE, v, w1) \<and> good w1 R \<and> sent w1 = sent w @ take n v"
    by (rule append_mem_goes [OF v(2)]) (use v assms in \<open>simp_all add: min_def\<close>)
  then show "\<exists>w1. xdr_opaque n XDR_ENCODE v w = Some (XDR_TRUE, v, w1) \<and> good w1 R \<and> length (sent w1) \<le> length (sent w) + n"
    using v(1) assms(3) by (auto simp: xdr_opaque_def asserts_def tail_of_def)
qed

lemma go_through_long:
  assumes "\<And>x. ucast (to x) = (x :: 32 word)"
  shows "sends_all 4 (\<lambda>v. True) (through_long to)"
proof (rule sendsI)
  fix x w R assume w: "good w R" "length (sent w) + 4 < 2 ^ 32"
  have "\<exists>w1. append_mem (be32 x) (to x) w = Some (XDR_TRUE, to x, w1) \<and> good w1 R \<and> sent w1 = sent w @ be32 x"
    by (rule append_mem_goes [OF w(1)]) (use w(2) in \<open>simp_all add: BUFFER_SEG_SIZE_def\<close>)
  then show "\<exists>w1. through_long to XDR_ENCODE x w = Some (XDR_TRUE, x, w1) \<and> good w1 R \<and> length (sent w1) \<le> length (sent w) + 4"
    using assms by (auto simp: through_long_def xdr_long_def)
qed

lemma go_numbers [go_rules]:
  "sends_all 4 (\<lambda>v. True) xdr_uint32" "sends_all 4 (\<lambda>v. True) xdr_enum" "sends_all 4 (\<lambda>v. True) xdr_int" "sends_all 4 (\<lambda>v. True) xdr_bool"
  unfolding xdr_uint32_def xdr_enum_def xdr_int_def xdr_bool_def
  by (rule go_through_long; simp add: ucast_long scast_long)+

lemma go_uint64 [go_rules]: "sends_all 8 (\<lambda>v. True) xdr_uint64"
proof (rule sendsI)
  fix v :: "64 word" and w R assume w: "good w R" "length (sent w) + 8 < 2 ^ 32"
  let ?d = "List.map (\<lambda>i. ucast (drop_bit i v AND 0xFF)) [56, 48, 40, 32, 24, 16, 8, 0] :: octet list"
  obtain w1 where "xdr_opaque 8 XDR_ENCODE ?d w = Some (XDR_TRUE, ?d, w1)" "good w1 R" "length (sent w1) \<le> length (sent w) + 8"
    using sendsE [OF go_opaque [of 8] _ w, of ?d] by (auto simp: BUFFER_SEG_SIZE_def)
  then show "\<exists>w1. xdr_uint64 XDR_ENCODE v w = Some (XDR_TRUE, v, w1) \<and> good w1 R \<and> length (sent w1) \<le> length (sent w) + 8"
    by (simp add: xdr_uint64_def)
qed

section \<open>Attributes\<close>

definition flag_ok :: "32 word \<Rightarrow> bool" where
  "flag_ok t \<longleftrightarrow> t = 0 \<or> t = 1"

definition wcc_ok :: "wcc_data \<Rightarrow> bool" where
  "wcc_ok v \<longleftrightarrow> flag_ok (preop_attr_attr_follow (wcc_data_before v)) \<and> flag_ok (post_op_attr_attr_follow (wcc_data_after v))"

lemma go_nfs3_stat [go_rules]: "sends_all 4 (\<lambda>v. True) xdr_nfs3_stat"
  unfolding xdr_nfs3_stat_def by (rule sends_mono, (rule go_rules | simp add: BUFFER_SEG_SIZE_def; fail)+)

lemma go_ftype [go_rules]: "sends_all 4 (\<lambda>v. True) xdr_ftype"
  unfolding xdr_ftype_def by (rule sends_mono, (rule go_rules | simp add: BUFFER_SEG_SIZE_def; fail)+)

lemma go_mode [go_rules]: "sends_all 4 (\<lambda>v. True) xdr_mode"
  unfolding xdr_mode_def by (rule sends_mono, (rule go_rules | simp add: BUFFER_SEG_SIZE_def; fail)+)

lemma go_stablehow [go_rules]: "sends_all 4 (\<lambda>v. True) xdr_stablehow"
  unfolding xdr_stablehow_def by (rule sends_mono, (rule go_rules | simp add: BUFFER_SEG_SIZE_def; fail)+)

lemma go_specdata [go_rules]: "sends_all 8 (\<lambda>v. True) xdr_specdata"
  unfolding xdr_specdata_def by (rule sends_mono, (rule go_rules | simp add: BUFFER_SEG_SIZE_def; fail)+)

lemma go_time [go_rules]: "sends_all 8 (\<lambda>v. True) xdr_time"
  unfolding xdr_time_def by (rule sends_mono, (rule go_rules | simp add: BUFFER_SEG_SIZE_def; fail)+)

lemma go_fattr [go_rules]: "sends_all 84 (\<lambda>v. True) xdr_fattr"
  unfolding xdr_fattr_def by (rule sends_mono, (rule go_rules | simp add: BUFFER_SEG_SIZE_def; fail)+)

lemma go_getattrretok [go_rules]: "sends_all 84 (\<lambda>v. True) xdr_getattrretok"
  unfolding xdr_getattrretok_def by (rule sends_mono, (rule go_rules | simp add: BUFFER_SEG_SIZE_def; fail)+)

lemma go_getattrret [go_rules]: "sends_all 88 (\<lambda>v. True) xdr_getattrret"
  unfolding xdr_getattrret_def by (rule sends_mono, (rule go_rules | simp add: BUFFER_SEG_SIZE_def; fail)+)

lemma go_post_op_attr [go_rules]: "sends_all 88 (\<lambda>v. flag_ok (post_op_attr_attr_follow v)) xdr_post_op_attr"
  unfolding xdr_post_op_attr_def by (rule sends_mono, (rule go_rules | simp add: BUFFER_SEG_SIZE_def; fail)+) (auto simp: flag_ok_def wcc_ok_def)

lemma go_wcc_attr [go_rules]: "sends_all 24 (\<lambda>v. True) xdr_wcc_attr"
  unfolding xdr_wcc_attr_def by (rule sends_mono, (rule go_rules | simp add: BUFFER_SEG_SIZE_def; fail)+)

lemma go_preop_attr [go_rules]: "sends_all 28 (\<lambda>v. flag_ok (preop_attr_attr_follow v)) xdr_preop_attr"
  unfolding xdr_preop_attr_def by (rule sends_mono, (rule go_rules | simp add: BUFFER_SEG_SIZE_def; fail)+) (auto simp: flag_ok_def wcc_ok_def)

lemma go_wccdata [go_rules]: "sends_all 116 (\<lambda>v. wcc_ok v) xdr_wccdata"
  unfolding xdr_wccdata_def by (rule sends_mono, (rule go_rules | simp add: BUFFER_SEG_SIZE_def; fail)+) (auto simp: flag_ok_def wcc_ok_def)

lemma go_writeverf [go_rules]: "sends_all 8 (\<lambda>v. 8 \<le> length v) xdr_writeverf"
  unfolding xdr_writeverf_def by (rule sends_mono, (rule go_rules | simp add: BUFFER_SEG_SIZE_def; fail)+)

section \<open>Replies\<close>

lemma go_setattr3resok [go_rules]: "sends_all 116 (\<lambda>v. wcc_ok (setattr3_resok_obj_wcc v)) xdr_setattr3resok"
  unfolding xdr_setattr3resok_def by (rule sends_mono, (rule go_rules | simp add: BUFFER_SEG_SIZE_def; fail)+)

lemma go_setattr3resfail [go_rules]: "sends_all 116 (\<lambda>v. wcc_ok (setattr3_resfail_obj_wcc v)) xdr_setattr3resfail"
  unfolding xdr_setattr3resfail_def by (rule sends_mono, (rule go_rules | simp add: BUFFER_SEG_SIZE_def; fail)+)

definition setattrret_fit :: "setattr3_res \<Rightarrow> bool" where
  "setattrret_fit v \<longleftrightarrow>
     (if setattr3_res_status v = NFS3_OK then wcc_ok (setattr3_resok_obj_wcc (setattr3_res_resok v)) else wcc_ok (setattr3_resfail_obj_wcc (setattr3_res_resfail v)))"

lemma go_setattrret [go_rules]: "sends_all 236 setattrret_fit xdr_setattrret"
  unfolding xdr_setattrret_def by (rule sends_mono, (rule go_rules | simp add: BUFFER_SEG_SIZE_def; fail)+) (auto simp: setattrret_fit_def)

lemma go_accessretok [go_rules]: "sends_all 92 (\<lambda>v. flag_ok (post_op_attr_attr_follow (access_retok_obj_attr v))) xdr_accessretok"
  unfolding xdr_accessretok_def by (rule sends_mono, (rule go_rules | simp add: BUFFER_SEG_SIZE_def; fail)+)

lemma go_accessretfail [go_rules]: "sends_all 88 (\<lambda>v. flag_ok (post_op_attr_attr_follow (access_retfail_obj_attr v))) xdr_accessretfail"
  unfolding xdr_accessretfail_def by (rule sends_mono, (rule go_rules | simp add: BUFFER_SEG_SIZE_def; fail)+)

definition accessret_fit :: "access_ret \<Rightarrow> bool" where
  "accessret_fit v \<longleftrightarrow>
     (if access_ret_status v = NFS3_OK then flag_ok (post_op_attr_attr_follow (access_retok_obj_attr (access_ret_ok v))) else flag_ok (post_op_attr_attr_follow (access_retfail_obj_attr (access_ret_fail v))))"

lemma go_accessret [go_rules]: "sends_all 184 accessret_fit xdr_accessret"
  unfolding xdr_accessret_def by (rule sends_mono, (rule go_rules | simp add: BUFFER_SEG_SIZE_def; fail)+) (auto simp: accessret_fit_def)

lemma go_writeretok [go_rules]: "sends_all 132 (\<lambda>v. wcc_ok (write_retok_file_wcc v) \<and> 8 \<le> length (write_retok_verf v)) xdr_writeretok"
  unfolding xdr_writeretok_def by (rule sends_mono, (rule go_rules | simp add: BUFFER_SEG_SIZE_def; fail)+)

lemma go_writeretfail [go_rules]: "sends_all 116 (\<lambda>v. wcc_ok (write_retfail_file_wcc v)) xdr_writeretfail"
  unfolding xdr_writeretfail_def by (rule sends_mono, (rule go_rules | simp add: BUFFER_SEG_SIZE_def; fail)+)

definition writeret_fit :: "write_ret \<Rightarrow> bool" where
  "writeret_fit v \<longleftrightarrow>
     (if write_ret_status v = NFS3_OK then wcc_ok (write_retok_file_wcc (write_ret_ok v)) \<and> 8 \<le> length (write_retok_verf (write_ret_ok v)) else wcc_ok (write_retfail_file_wcc (write_ret_fail v)))"

lemma go_writeret [go_rules]: "sends_all 252 writeret_fit xdr_writeret"
  unfolding xdr_writeret_def by (rule sends_mono, (rule go_rules | simp add: BUFFER_SEG_SIZE_def; fail)+) (auto simp: writeret_fit_def)

lemma go_renameretok [go_rules]: "sends_all 232 (\<lambda>v. wcc_ok (rename_retok_from v) \<and> wcc_ok (rename_retok_to v)) xdr_renameretok"
  unfolding xdr_renameretok_def by (rule sends_mono, (rule go_rules | simp add: BUFFER_SEG_SIZE_def; fail)+)

lemma go_renameretfail [go_rules]: "sends_all 232 (\<lambda>v. wcc_ok (rename_retfail_from v) \<and> wcc_ok (rename_retfail_to v)) xdr_renameretfail"
  unfolding xdr_renameretfail_def by (rule sends_mono, (rule go_rules | simp add: BUFFER_SEG_SIZE_def; fail)+)

definition renameret_fit :: "rename_ret \<Rightarrow> bool" where
  "renameret_fit v \<longleftrightarrow>
     (if rename_ret_status v = NFS3_OK then wcc_ok (rename_retok_from (rename_ret_ok v)) \<and> wcc_ok (rename_retok_to (rename_ret_ok v)) else wcc_ok (rename_retfail_from (rename_ret_fail v)) \<and> wcc_ok (rename_retfail_to (rename_ret_fail v)))"

lemma go_renameret [go_rules]: "sends_all 468 renameret_fit xdr_renameret"
  unfolding xdr_renameret_def by (rule sends_mono, (rule go_rules | simp add: BUFFER_SEG_SIZE_def; fail)+) (auto simp: renameret_fit_def)

lemma go_LINK3resok [go_rules]: "sends_all 204 (\<lambda>v. flag_ok (post_op_attr_attr_follow (LINK3resok_file_attributes v)) \<and> wcc_ok (LINK3resok_linkdir_wcc v)) xdr_LINK3resok"
  unfolding xdr_LINK3resok_def by (rule sends_mono, (rule go_rules | simp add: BUFFER_SEG_SIZE_def; fail)+)

lemma go_LINK3resfail [go_rules]: "sends_all 204 (\<lambda>v. flag_ok (post_op_attr_attr_follow (LINK3resfail_file_attributes v)) \<and> wcc_ok (LINK3resfail_linkdir_wcc v)) xdr_LINK3resfail"
  unfolding xdr_LINK3resfail_def by (rule sends_mono, (rule go_rules | simp add: BUFFER_SEG_SIZE_def; fail)+)

definition linkret_fit :: "LINK3res \<Rightarrow> bool" where
  "linkret_fit v \<longleftrightarrow>
     (if LINK3res_status v = NFS3_OK then flag_ok (post_op_attr_attr_follow (LINK3resok_file_attributes (LINK3res_ok v))) \<and> wcc_ok (LINK3resok_linkdir_wcc (LINK3res_ok v)) else flag_ok (post_op_attr_attr_follow (LINK3resfail_file_attributes (LINK3res_fail v))) \<and> wcc_ok (LINK3resfail_linkdir_wcc (LINK3res_fail v)))"

lemma go_linkret [go_rules]: "sends_all 412 linkret_fit xdr_linkret"
  unfolding xdr_linkret_def by (rule sends_mono, (rule go_rules | simp add: BUFFER_SEG_SIZE_def; fail)+) (auto simp: linkret_fit_def)

lemma go_fsstatretok [go_rules]: "sends_all 140 (\<lambda>v. flag_ok (post_op_attr_attr_follow (fsstat_retok_attr v))) xdr_fsstatretok"
  unfolding xdr_fsstatretok_def by (rule sends_mono, (rule go_rules | simp add: BUFFER_SEG_SIZE_def; fail)+)

lemma go_fsstatretfail [go_rules]: "sends_all 88 (\<lambda>v. flag_ok (post_op_attr_attr_follow (fsstat_retfail_attr v))) xdr_fsstatretfail"
  unfolding xdr_fsstatretfail_def by (rule sends_mono, (rule go_rules | simp add: BUFFER_SEG_SIZE_def; fail)+)

definition fsstatret_fit :: "fsstat_ret \<Rightarrow> bool" where
  "fsstatret_fit v \<longleftrightarrow>
     (if fsstat_ret_status v = NFS3_OK then flag_ok (post_op_attr_attr_follow (fsstat_retok_attr (fsstat_ret_ok v))) else flag_ok (post_op_attr_attr_follow (fsstat_retfail_attr (fsstat_ret_fail v))))"

lemma go_fsstatret [go_rules]: "sends_all 232 fsstatret_fit xdr_fsstatret"
  unfolding xdr_fsstatret_def by (rule sends_mono, (rule go_rules | simp add: BUFFER_SEG_SIZE_def; fail)+) (auto simp: fsstatret_fit_def)

lemma go_fsinforetok [go_rules]: "sends_all 136 (\<lambda>v. flag_ok (post_op_attr_attr_follow (fsinfo_retok_obj_attr v))) xdr_fsinforetok"
  unfolding xdr_fsinforetok_def by (rule sends_mono, (rule go_rules | simp add: BUFFER_SEG_SIZE_def; fail)+)

lemma go_fsinforetfail [go_rules]: "sends_all 88 (\<lambda>v. flag_ok (post_op_attr_attr_follow (fsinfo_retfail_obj_attr v))) xdr_fsinforetfail"
  unfolding xdr_fsinforetfail_def by (rule sends_mono, (rule go_rules | simp add: BUFFER_SEG_SIZE_def; fail)+)

definition fsinforet_fit :: "fsinfo_ret \<Rightarrow> bool" where
  "fsinforet_fit v \<longleftrightarrow>
     (if fsinfo_ret_status v = NFS3_OK then flag_ok (post_op_attr_attr_follow (fsinfo_retok_obj_attr (fsinfo_ret_ok v))) else flag_ok (post_op_attr_attr_follow (fsinfo_retfail_obj_attr (fsinfo_ret_fail v))))"

lemma go_fsinforet [go_rules]: "sends_all 228 fsinforet_fit xdr_fsinforet"
  unfolding xdr_fsinforet_def by (rule sends_mono, (rule go_rules | simp add: BUFFER_SEG_SIZE_def; fail)+) (auto simp: fsinforet_fit_def)

lemma go_commitretok [go_rules]: "sends_all 124 (\<lambda>v. wcc_ok (commit_retok_file_wcc v) \<and> 8 \<le> length (commit_retok_verf v)) xdr_commitretok"
  unfolding xdr_commitretok_def by (rule sends_mono, (rule go_rules | simp add: BUFFER_SEG_SIZE_def; fail)+)

lemma go_commitretfail [go_rules]: "sends_all 116 (\<lambda>v. wcc_ok (commit_retfail_file_wcc v)) xdr_commitretfail"
  unfolding xdr_commitretfail_def by (rule sends_mono, (rule go_rules | simp add: BUFFER_SEG_SIZE_def; fail)+)

definition commitret_fit :: "commit_ret \<Rightarrow> bool" where
  "commitret_fit v \<longleftrightarrow>
     (if commit_ret_status v = NFS3_OK then wcc_ok (commit_retok_file_wcc (commit_ret_ok v)) \<and> 8 \<le> length (commit_retok_verf (commit_ret_ok v)) else wcc_ok (commit_retfail_file_wcc (commit_ret_fail v)))"

lemma go_commitret [go_rules]: "sends_all 244 commitret_fit xdr_commitret"
  unfolding xdr_commitret_def by (rule sends_mono, (rule go_rules | simp add: BUFFER_SEG_SIZE_def; fail)+) (auto simp: commitret_fit_def)

lemma go_pathconf3_retok [go_rules]: "sends_all 112 (\<lambda>v. flag_ok (post_op_attr_attr_follow (pathconf3_resok_obj_attributes v))) xdr_pathconf3_retok"
  unfolding xdr_pathconf3_retok_def by (rule sends_mono, (rule go_rules | simp add: BUFFER_SEG_SIZE_def; fail)+)

lemma go_pathconf3_retfail [go_rules]: "sends_all 88 (\<lambda>v. flag_ok (post_op_attr_attr_follow (pathconf3_resfail_obj_attributes v))) xdr_pathconf3_retfail"
  unfolding xdr_pathconf3_retfail_def by (rule sends_mono, (rule go_rules | simp add: BUFFER_SEG_SIZE_def; fail)+)

definition pathconf3_ret_fit :: "pathconf3_res \<Rightarrow> bool" where
  "pathconf3_ret_fit v \<longleftrightarrow>
     (if pathconf3_res_status v = NFS3_OK then flag_ok (post_op_attr_attr_follow (pathconf3_resok_obj_attributes (pathconf3_res_resok v)))
      else flag_ok (post_op_attr_attr_follow (pathconf3_resfail_obj_attributes (pathconf3_res_resfail v))))"

lemma go_pathconf3_ret [go_rules]: "sends_all 204 pathconf3_ret_fit xdr_pathconf3_ret"
  unfolding xdr_pathconf3_ret_def by (rule sends_mono, (rule go_rules | simp add: BUFFER_SEG_SIZE_def; fail)+) (auto simp: pathconf3_ret_fit_def)

lemma go_removeret [go_rules]: "sends_all 120 (\<lambda>v. wcc_ok (remove_ret_dir_wcc v)) xdr_removeret"
  unfolding xdr_removeret_def by (rule sends_mono, (rule go_rules | simp add: BUFFER_SEG_SIZE_def; fail)+)

lemma go_rmdirret [go_rules]: "sends_all 120 (\<lambda>v. wcc_ok (remove_ret_dir_wcc v)) xdr_rmdirret"
  unfolding xdr_rmdirret_def by (rule sends_mono, (rule go_rules | simp add: BUFFER_SEG_SIZE_def; fail)+)

end
