(* ===== verification/NfsServer.thy ===== *)
theory NfsServer
  imports SunRpc NfsGoes
begin

text \<open>
  What is shown of the calls and the replies of the NFS server: the arguments of a call arrive at the function that serves it as
  the client sent them, and a reply is one record, the head with the number of the call and the result behind it, which
  the client reads with the same function. \<open>reply_type\<close> states what is asked of a type of results; the replies
  that hold no name, handle, list or data are shown to be such types.
\<close>

unbundle bit_operations_syntax

section \<open>Calls of the NFS protocol\<close>

text \<open>The arguments that the procedure \<open>p\<close> uses; those of a write come with data, and are in a theory of their own.\<close>

definition same_arg :: "32 word \<Rightarrow> nfsarg \<Rightarrow> nfsarg \<Rightarrow> bool" where
  "same_arg p a a' \<longleftrightarrow>
     (p = NFS3_GETATTR \<longrightarrow> same_getattr_args (nfsarg_getattr_arg a) (nfsarg_getattr_arg a')) \<and>
     (p = NFS3_SETATTR \<longrightarrow> same_setattr3_args (nfsarg_setattr3_arg a) (nfsarg_setattr3_arg a')) \<and>
     (p = NFS3_LOOKUP \<longrightarrow> same_diropargs3 (nfsarg_lookup_arg a) (nfsarg_lookup_arg a')) \<and>
     (p = NFS3_ACCESS \<longrightarrow> same_access_args (nfsarg_access_arg a) (nfsarg_access_arg a')) \<and>
     (p = NFS3_FSSTAT \<longrightarrow> same_fsstat_args (nfsarg_fsstat_arg a) (nfsarg_fsstat_arg a')) \<and>
     (p = NFS3_FSINFO \<longrightarrow> same_fsinfo_args (nfsarg_fsinfo_arg a) (nfsarg_fsinfo_arg a')) \<and>
     (p = NFS3_PATHCONF \<longrightarrow> same_pathconf3_args (nfsarg_pathconf_arg a) (nfsarg_pathconf_arg a')) \<and>
     (p = NFS3_CREATE \<longrightarrow> same_create_args (nfsarg_create_arg a) (nfsarg_create_arg a')) \<and>
     (p = NFS3_MKDIR \<longrightarrow> same_mkdir_args (nfsarg_mkdir_arg a) (nfsarg_mkdir_arg a')) \<and>
     (p = NFS3_READDIR \<longrightarrow> same_readdir_args (nfsarg_readdir_arg a) (nfsarg_readdir_arg a')) \<and>
     (p = NFS3_READDIRPLUS \<longrightarrow> same_readdirplus_args (nfsarg_readdirplus_arg a) (nfsarg_readdirplus_arg a')) \<and>
     (p = NFS3_RMDIR \<longrightarrow> same_remove_args (nfsarg_rmdir_arg a) (nfsarg_rmdir_arg a')) \<and>
     (p = NFS3_READLINK \<longrightarrow> same_readlink_args (nfsarg_readlink_arg a) (nfsarg_readlink_arg a')) \<and>
     (p = NFS3_SYMLINK \<longrightarrow> same_symlink_args (nfsarg_symlink_arg a) (nfsarg_symlink_arg a')) \<and>
     (p = NFS3_MKNOD \<longrightarrow> same_mknod_args (nfsarg_mknod_arg a) (nfsarg_mknod_arg a')) \<and>
     (p = NFS3_REMOVE \<longrightarrow> same_remove_args (nfsarg_remove_arg a) (nfsarg_remove_arg a')) \<and>
     (p = NFS3_RENAME \<longrightarrow> same_rename_args (nfsarg_rename_arg a) (nfsarg_rename_arg a')) \<and>
     (p = NFS3_LINK \<longrightarrow> same_LINK3args (nfsarg_link3arg a) (nfsarg_link3arg a')) \<and>
     (p = NFS3_COMMIT \<longrightarrow> same_commit_args (nfsarg_commit_arg a) (nfsarg_commit_arg a')) \<and>
     (p = NFS3_READ \<longrightarrow> same_read_args (nfsarg_read_arg a) (nfsarg_read_arg a'))"

definition ok_arg :: "32 word \<Rightarrow> nfsarg \<Rightarrow> bool" where
  "ok_arg p a \<longleftrightarrow>
     (p = NFS3_LOOKUP \<longrightarrow> ok_diropargs3 (nfsarg_lookup_arg a)) \<and>
     (p = NFS3_CREATE \<longrightarrow> ok_create_args (nfsarg_create_arg a)) \<and>
     (p = NFS3_MKDIR \<longrightarrow> ok_mkdir_args (nfsarg_mkdir_arg a)) \<and>
     (p = NFS3_RMDIR \<longrightarrow> ok_remove_args (nfsarg_rmdir_arg a)) \<and>
     (p = NFS3_SYMLINK \<longrightarrow> ok_symlink_args (nfsarg_symlink_arg a)) \<and>
     (p = NFS3_MKNOD \<longrightarrow> ok_mknod_args (nfsarg_mknod_arg a)) \<and>
     (p = NFS3_REMOVE \<longrightarrow> ok_remove_args (nfsarg_remove_arg a)) \<and>
     (p = NFS3_RENAME \<longrightarrow> ok_rename_args (nfsarg_rename_arg a)) \<and>
     (p = NFS3_LINK \<longrightarrow> ok_LINK3args (nfsarg_link3arg a))"

lemma back_nfs_proc:
  assumes "nfs_ver3_proc p = Some (h, Some c)" "p \<noteq> NFS3_WRITE"
  shows "reads_back c (ok_arg p) (\<lambda>_. same_arg p)"
  using assms unfolding nfs_ver3_proc_def
  by (auto split: if_splits)
    (rule reads_back_mono, rule back_field, rule back_rules, simp, simp add: ok_arg_def, auto simp: same_arg_def)+

section \<open>Calls of the lock protocol\<close>

definition same_nlm_arg :: "32 word \<Rightarrow> nfsarg \<Rightarrow> nfsarg \<Rightarrow> bool" where
  "same_nlm_arg p a a' \<longleftrightarrow>
     (p = PNLM4_TEST \<longrightarrow> same_nlm_testargs (nfsarg_testargs a) (nfsarg_testargs a')) \<and>
     (p = PNLM4_LOCK \<longrightarrow> same_nlm_lockargs (nfsarg_lockargs a) (nfsarg_lockargs a')) \<and>
     (p = PNLM4_UNLOCK \<longrightarrow> same_nlm_unlockargs (nfsarg_unlockargs a) (nfsarg_unlockargs a')) \<and>
     (p = PNLM4_CANCEL \<longrightarrow> same_nlm_cancargs (nfsarg_cancargs a) (nfsarg_cancargs a'))"

definition ok_nlm_arg :: "32 word \<Rightarrow> nfsarg \<Rightarrow> bool" where
  "ok_nlm_arg p a \<longleftrightarrow>
     (p = PNLM4_TEST \<longrightarrow> ok_nlm_testargs (nfsarg_testargs a)) \<and>
     (p = PNLM4_LOCK \<longrightarrow> ok_nlm_lockargs (nfsarg_lockargs a)) \<and>
     (p = PNLM4_UNLOCK \<longrightarrow> ok_nlm_unlockargs (nfsarg_unlockargs a)) \<and>
     (p = PNLM4_CANCEL \<longrightarrow> ok_nlm_cancargs (nfsarg_cancargs a))"

lemma back_nlm_proc:
  assumes "nfs_nlm4_proc p = Some (h, Some c, hash)"
  shows "reads_back c (ok_nlm_arg p) (\<lambda>_. same_nlm_arg p)"
  using assms unfolding nfs_nlm4_proc_def
  by (auto split: if_splits)
    (rule reads_back_mono, rule back_field, rule back_rules, simp, simp add: ok_nlm_arg_def, auto simp: same_nlm_arg_def)+

section \<open>The head\<close>

lemma clear_swap: "clear_of s t \<longleftrightarrow> clear_of t s"
  unfolding clear_of_def by (metis (no_types, lifting))

lemma head_new:
  assumes "world_ok m R"
  obtains s m1 where "mbuffer_init sunrpc_reply_size m = Some (\<lparr>blen = 28, segs = [s]\<rparr>, m1)" "seg_len s = 28" "adds m R s m1"
    "holds m1 \<lparr>blen = 28, segs = [s]\<rparr> R"
proof -
  obtain s m1 where s: "seg_alloc 28 m = Some (Some s, m1)" "seg_len s = 28" "adds m R s m1"
    using seg_alloc_ok [OF assms, of 28] by (auto simp: BUFFER_SEG_SIZE_def)
  then have h: "holds m1 \<lparr>blen = 28, segs = [s]\<rparr> R"
    by (simp add: holds_def adds_def buffer_ok_def sized_right_def BUFFER_SEG_SIZE_def)
  have "alloc_loop None 28 empty_buffer m = Some (\<lparr>blen = 28, segs = [s]\<rparr>, m1)"
    using s by (simp add: alloc_loop.simps BUFFER_SEG_SIZE_def seg_add_tail_def empty_buffer_def)
  then show ?thesis
    using that [of s m1] s h holds_check [OF h] by (simp add: mbuffer_init_def sunrpc_reply_size_def)
qed

lemma poke_head:
  assumes h: "holds m b R" and s: "segs b = s # ss" "k + length d \<le> seg_len s" "\<forall>t \<in># mset ss + R. clear_of s t"
  obtains m' where "poke (map_option (\<lambda>(b, off). (b, off + k)) (seg_ptr s)) d m = Some m'" "holds m' b R" "others_same m R m'"
    "seg_bytes m' s = overwrite k d (seg_bytes m s)" "bytes m' ss = bytes m ss"
proof -
  have w: "world_ok m (mset (segs b) + R)" using h by (simp add: holds_def)
  have r: "readable m t" if "t \<in># mset (segs b) + R" for t by (rule world_okD(7) [OF w that])
  obtain m' where m': "poke (map_option (\<lambda>(b, off). (b, off + k)) (seg_ptr s)) d m = Some m'" "same_shape m m'"
      "seg_bytes m' s = overwrite k d (seg_bytes m s)"
      "\<forall>t. readable m t \<and> clear_of s t \<longrightarrow> seg_bytes m' t = seg_bytes m t"
    using poke_ok [OF r [of s] s(2)] s(1) by auto
  have t: "seg_bytes m' t = seg_bytes m t" if "t \<in># mset ss + R" for t
    using m'(4) r [of t] s(1,3) that by auto
  have "holds m' b R" using h world_same_shape [OF m'(2)] by (simp add: holds_def)
  moreover have "use_memcache m' = use_memcache m" using m'(2) by (auto simp: same_shape_def)
  moreover have "bytes m' ss = bytes m ss" by (rule bytes_same) (use t in simp)
  ultimately show ?thesis using that m'(1,3) t by (simp add: others_same_def)
qed

section \<open>The record\<close>

definition reply_record :: "octet list \<Rightarrow> 32 word \<Rightarrow> octet list \<Rightarrow> octet list" where
  "reply_record xid state d =
     be32 (last_bit OR of_nat (24 + length d)) @ xid @ be32 SUNRPC_REP_MSG @ be32 0 @ be32 0 @ be32 0 @ be32 state @ d"

definition answers :: "'a xdr \<Rightarrow> ('a \<Rightarrow> bool) \<Rightarrow> ('a \<Rightarrow> 'a \<Rightarrow> bool) \<Rightarrow> bool" where
  "answers c P S \<longleftrightarrow> (\<forall>req state v m R. P v \<longrightarrow> world_ok m R \<longrightarrow> length (req_xid req) = 4 \<longrightarrow>
     (\<exists>b m' d. sunrpc_reply req state (Some (v, c)) m = Some (None, b, m') \<and> holds m' b R \<and> others_same m R m' \<and>
        text_of m' b = reply_record (req_xid req) state d \<and> (\<forall>v0. read_as c (\<lambda>_. S) d v v0)))"

locale reply_type =
  fixes c :: "'a xdr" and P :: "'a \<Rightarrow> bool" and S :: "'a \<Rightarrow> 'a \<Rightarrow> bool" and n :: nat
  assumes reads: "reads_back c (\<lambda>v. True) (\<lambda>_. S)" and sends: "sends_all n P c" and short: "n < 2 ^ 16"
begin

lemma record_of:
  assumes v: "P v" and w: "world_ok m R" and x: "length (req_xid req) = 4"
  shows "\<exists>b m' d. sunrpc_reply req state (Some (v, c)) m = Some (None, b, m') \<and> holds m' b R \<and> others_same m R m' \<and>
    text_of m' b = reply_record (req_xid req) state d \<and> (\<forall>v0. read_as c (\<lambda>_. S) d v v0)"
proof -
  let ?h = "req_xid req @ be32 SUNRPC_REP_MSG @ be32 0 @ be32 0 @ be32 0 @ be32 state"
  obtain s m1 where 1: "mbuffer_init sunrpc_reply_size m = Some (\<lparr>blen = 28, segs = [s]\<rparr>, m1)" "seg_len s = 28" "adds m R s m1"
      "holds m1 \<lparr>blen = 28, segs = [s]\<rparr> R" (is "holds m1 ?b R")
    by (rule head_new [OF w])
  have cl: "\<forall>t \<in># R. clear_of s t" and o1: "others_same m R m1" using 1(3) by (simp_all add: adds_def others_same_def)
  have r: "readable m1 s" using holds_readable [OF 1(4)] by simp
  obtain m2 where 2: "poke (map_option (\<lambda>(b, off). (b, off + 4)) (seg_ptr s)) ?h m1 = Some m2" "holds m2 ?b R" "others_same m1 R m2"
      "seg_bytes m2 s = overwrite 4 ?h (seg_bytes m1 s)"
    by (rule poke_head [OF 1(4), of s "[]" 4 ?h]) (use 1(2) cl x in simp_all)
  define X where "X = seg_bytes m1 s"
  have X: "length X = 28" using r 1(2) by (simp add: X_def)
  have t2: "seg_bytes m2 s = take 4 X @ ?h" using 2(4) X x by (simp add: overwrite_def X_def [symmetric])
  have g: "good (m2, ?b) R" "sent (m2, ?b) = take 4 X @ ?h" using 2(2) t2 by (simp_all add: good_def sent_def text_of_def)
  have l: "length (sent (m2, ?b)) + n < 2 ^ 32" using g(2) X x short by simp
  from sendsE [OF sends v g(1) l] obtain m3 b3 where e: "c XDR_ENCODE v (m2, ?b) = Some (XDR_TRUE, v, (m3, b3))"
    by (metis surj_pair)
  from reads_backE [OF reads TrueI g(1) e] obtain d where 3: "grows (m2, ?b) R (m3, b3)" "sent (m3, b3) = sent (m2, ?b) @ d"
      "\<And>v0. read_as c (\<lambda>_. S) d v v0" by metis
  then obtain ss where ss: "segs b3 = s # ss" "\<forall>t \<in> set ss. clear_of s t" and h3: "holds m3 b3 R" and o3: "others_same m2 R m3"
    by (auto simp: grows_def kept_def good_def clear_swap)
  have r3: "length (seg_bytes m3 s) = 28" using holds_readable [OF h3] ss(1) 1(2) by simp
  have t: "seg_bytes m3 s @ bytes m3 ss = (take 4 X @ ?h) @ d" using 3(2) g(2) ss(1) by (simp add: sent_def text_of_def)
  have "length (seg_bytes m3 s) = length (take 4 X @ ?h)" using r3 X x by simp
  from append_eq_append_conv [OF disjI1 [OF this], THEN iffD1, OF t]
  have t3: "seg_bytes m3 s = take 4 X @ ?h" "bytes m3 ss = d" by auto
  have b3: "blen b3 = 28 + length d" using holds_length [OF h3] t3 ss(1) X x by (simp add: text_of_def)
  have "map_option (\<lambda>(b, off). (b, off + 0)) (seg_ptr s) = seg_ptr s" by (cases "seg_ptr s") auto
  then obtain m4 where 4: "poke (seg_ptr s) (be32 (last_bit OR of_nat (24 + length d))) m3 = Some m4" "holds m4 b3 R"
      "others_same m3 R m4" "seg_bytes m4 s = overwrite 0 (be32 (last_bit OR of_nat (24 + length d))) (seg_bytes m3 s)"
      "bytes m4 ss = bytes m3 ss"
    using poke_head [OF h3 ss(1), of 0 "be32 (last_bit OR of_nat (24 + length d))"] 1(2) ss(2) cl by auto
  have "text_of m4 b3 = reply_record (req_xid req) state d"
    using 4(4,5) t3 X x ss(1) by (simp add: text_of_def reply_record_def overwrite_def)
  moreover have "(of_nat (blen b3) - 4 :: 32 word) = of_nat (24 + length d)" by (simp add: b3)
  moreover have "mbuffer_head ?b = Some (seg_ptr s)" using holds_check [OF 1(4)] by (simp add: mbuffer_head_def asserts_def)
  ultimately have "sunrpc_reply req state (Some (v, c)) m = Some (None, b3, m4)"
    using 1(1) 2(1) e 4(1) by (simp add: sunrpc_reply_def)
  moreover have "others_same m R m4" using o1 2(3) o3 4(3) by (blast intro: others_same_trans)
  ultimately show ?thesis using 4(2) 3(3) \<open>text_of m4 b3 = _\<close> by blast
qed

lemma answered: "answers c P S"
  unfolding answers_def using record_of by blast

end

section \<open>Types of replies\<close>

interpretation getattr_reply: reply_type xdr_getattrret "\<lambda>v. True" same_getattr_ret 88
  by unfold_locales (rule back_getattrret go_getattrret, rule go_getattrret, simp)

interpretation setattr_reply: reply_type xdr_setattrret setattrret_fit same_setattr3_res 236
  by unfold_locales (rule back_setattrret go_setattrret, rule go_setattrret, simp)

interpretation access_reply: reply_type xdr_accessret accessret_fit same_access_ret 184
  by unfold_locales (rule back_accessret go_accessret, rule go_accessret, simp)

interpretation write_reply: reply_type xdr_writeret writeret_fit same_write_ret 252
  by unfold_locales (rule back_writeret go_writeret, rule go_writeret, simp)

interpretation remove_reply: reply_type xdr_removeret "\<lambda>v. wcc_ok (remove_ret_dir_wcc v)" same_remove_ret 120
  by unfold_locales (rule back_removeret go_removeret, rule go_removeret, simp)

interpretation rmdir_reply: reply_type xdr_rmdirret "\<lambda>v. wcc_ok (remove_ret_dir_wcc v)" same_remove_ret 120
  by unfold_locales (rule back_rmdirret go_rmdirret, rule go_rmdirret, simp)

interpretation rename_reply: reply_type xdr_renameret renameret_fit same_rename_ret 468
  by unfold_locales (rule back_renameret go_renameret, rule go_renameret, simp)

interpretation link_reply: reply_type xdr_linkret linkret_fit same_LINK3res 412
  by unfold_locales (rule back_linkret go_linkret, rule go_linkret, simp)

interpretation fsstat_reply: reply_type xdr_fsstatret fsstatret_fit same_fsstat_ret 232
  by unfold_locales (rule back_fsstatret go_fsstatret, rule go_fsstatret, simp)

interpretation fsinfo_reply: reply_type xdr_fsinforet fsinforet_fit same_fsinfo_ret 228
  by unfold_locales (rule back_fsinforet go_fsinforet, rule go_fsinforet, simp)

interpretation pathconf_reply: reply_type xdr_pathconf3_ret pathconf3_ret_fit same_pathconf3_res 204
  by unfold_locales (rule back_pathconf3_ret go_pathconf3_ret, rule go_pathconf3_ret, simp)

interpretation commit_reply: reply_type xdr_commitret commitret_fit same_commit_ret 244
  by unfold_locales (rule back_commitret go_commitret, rule go_commitret, simp)

text \<open>C17: A reply is always sent, and it is one record: if the flags of its attributes are flags and a verifier is there, the
  server allocates the head, puts the result behind it without failing and writes the length with the bit of the last fragment,
  the number of the call and the state into the head, whatever was in the memory; the client reads the result with the same
  function, and no other buffer has changed.\<close>
theorem replies_are_answered:
  "answers xdr_getattrret (\<lambda>v. True) same_getattr_ret \<and>
   answers xdr_setattrret setattrret_fit same_setattr3_res \<and>
   answers xdr_accessret accessret_fit same_access_ret \<and>
   answers xdr_writeret writeret_fit same_write_ret \<and>
   answers xdr_removeret (\<lambda>v. wcc_ok (remove_ret_dir_wcc v)) same_remove_ret \<and>
   answers xdr_rmdirret (\<lambda>v. wcc_ok (remove_ret_dir_wcc v)) same_remove_ret \<and>
   answers xdr_renameret renameret_fit same_rename_ret \<and>
   answers xdr_linkret linkret_fit same_LINK3res \<and>
   answers xdr_fsstatret fsstatret_fit same_fsstat_ret \<and>
   answers xdr_fsinforet fsinforet_fit same_fsinfo_ret \<and>
   answers xdr_pathconf3_ret pathconf3_ret_fit same_pathconf3_res \<and>
   answers xdr_commitret commitret_fit same_commit_ret"
  by (intro conjI getattr_reply.answered setattr_reply.answered access_reply.answered write_reply.answered remove_reply.answered rmdir_reply.answered rename_reply.answered link_reply.answered fsstat_reply.answered fsinfo_reply.answered pathconf_reply.answered commit_reply.answered)

section \<open>Sending\<close>

lemma bytes_go:
  assumes g: "good w R" and v: "fst v = Some p" "unat (snd v) = n" "n \<le> length p"
    and n: "0 < n" "n \<le> BUFFER_SEG_SIZE" "n mod 4 = 0" "length (sent w) + 4 + n < 2 ^ 32"
  obtains w1 where "xdr_bytes limit XDR_ENCODE v w = Some (XDR_TRUE, v, w1)" "good w1 R"
proof -
  have "\<exists>w1. append_mem (be32 (snd v)) v w = Some (XDR_TRUE, v, w1) \<and> good w1 R \<and> sent w1 = sent w @ be32 (snd v)"
    by (rule append_mem_goes [OF g]) (use n(4) in \<open>simp_all add: BUFFER_SEG_SIZE_def\<close>)
  then obtain w1 where 1: "append_mem (be32 (snd v)) v w = Some (XDR_TRUE, v, w1)" "good w1 R" "sent w1 = sent w @ be32 (snd v)"
    by blast
  have "\<exists>w2. append_mem (take n p) p w1 = Some (XDR_TRUE, p, w2) \<and> good w2 R \<and> sent w2 = sent w1 @ take n p"
    by (rule append_mem_goes [OF 1(2)]) (use 1(3) v(3) n in simp_all)
  then obtain w2 where 2: "append_mem (take n p) p w1 = Some (XDR_TRUE, p, w2)" "good w2 R"
    by blast
  have "xdr_opaque n XDR_ENCODE p w1 = Some (XDR_TRUE, p, w2)"
    using 2(1) v(3) n(3) by (simp add: xdr_opaque_def asserts_def tail_of_def)
  then show ?thesis
    using that [of w2] 1 2 v by (simp add: xdr_bytes_def)
qed

lemma handle_goes:
  assumes g: "good w R" and v: "handle_ok v" "24 \<le> length (the (nfs_fh3_val v))" and n: "length (sent w) < 2 ^ 31"
  obtains w1 where "xdr_nfs_fh3 XDR_ENCODE v w = Some (XDR_TRUE, v, w1)" "good w1 R"
proof -
  obtain p where p: "nfs_fh3_val v = Some p" "nfs_fh3_len v = 24" "24 \<le> length p"
    using v by (auto simp: handle_ok_def)
  obtain w1 where "xdr_bytes NFS3_FHSIZE XDR_ENCODE (nfs_fh3_val v, nfs_fh3_len v) w = Some (XDR_TRUE, (nfs_fh3_val v, nfs_fh3_len v), w1)"
      "good w1 R"
    using bytes_go [OF g, of "(nfs_fh3_val v, nfs_fh3_len v)" p 24 NFS3_FHSIZE] p n by (auto simp: BUFFER_SEG_SIZE_def)
  then show ?thesis
    using that [of w1] v(1) by (simp add: nfs_fh3_True field2_def)
qed

section \<open>Calls\<close>

lemma take_args_back:
  assumes c: "reads_back c P (\<lambda>_. S)" and p: "P a" and w: "good w R" "sent w = []"
    and e: "c XDR_ENCODE a w = Some (XDR_TRUE, a1, w1)"
  obtains a' w' where "take_args (Some c) blank w1 s k = k a' w'" "S a a'" "kept w1 R w'" "sent w' = []"
proof -
  obtain d where d: "grows w R w1" "sent w1 = sent w @ d" "read_as c (\<lambda>_. S) d a blank"
    by (rule reads_backE [OF c p w(1) e]) blast
  have "sent w1 = d @ []" using d(2) w(2) by simp
  then obtain a' w' where "c XDR_DECODE blank w1 = Some (XDR_TRUE, a', w')" "kept w1 R w'" "sent w' = []" "S a a'"
    by (rule read_asE [OF d(3) grows_good [OF d(1)]])
  then show ?thesis using that by (simp add: take_args_def)
qed


definition some_handle :: nfs_fh3 where
  "some_handle = \<lparr>nfs_fh3_len = 24, nfs_fh3_val = Some [1, 0, 0, 0, 0, 0, 0, 0, 2, 0, 0, 0, 0, 0, 0, 0, 0, 0, 0, 0, 5, 3, 0, 0]\<rparr>"

lemma some_handle_ok: "handle_ok some_handle" "24 \<le> length (the (nfs_fh3_val some_handle))"
  by (simp_all add: handle_ok_def some_handle_def chkid_id_def chkid_volid_def chkid_idx_def le_at_def)

lemma plain_good: "good (plain_mem, empty_buffer) {#}" "sent (plain_mem, empty_buffer) = []"
  using empty_holds [OF plain_mem_ok] by (simp_all add: good_def sent_def text_of_def empty_buffer_def)

lemma getattr_goes:
  assumes "nfsarg_getattr_arg a = \<lparr>getattr_args_obj = some_handle\<rparr>"
  obtains w1 where "field nfsarg_getattr_arg nfsarg_getattr_arg_update xdr_getattrargs XDR_ENCODE a (plain_mem, empty_buffer) =
    Some (XDR_TRUE, a, w1)" "good w1 {#}"
proof -
  obtain w1 where "xdr_nfs_fh3 XDR_ENCODE some_handle (plain_mem, empty_buffer) = Some (XDR_TRUE, some_handle, w1)" "good w1 {#}"
    using handle_goes [OF plain_good(1) some_handle_ok] plain_good(2) by auto
  then show ?thesis
    using that [of w1] assms by (simp add: field_def xdr_getattrargs_def all_of_def or_false_def)
qed

text \<open>A server that keeps a list of the calls it has served.\<close>

definition log_calls :: "(nfs_handler \<times> nfsarg) list service" where
  "log_calls h req uid gid a w s = Some (None, w, (h, a) # s)"

definition getattr_req :: sunrpc_request where
  "getattr_req = \<lparr>req_length = 0, req_xid = [0, 0, 0, 7], req_msgtype = 0, req_rpcversion = 2, req_program = NFS3_PROGRAM,
     req_progversion = NFS_V3, req_procedure = NFS3_GETATTR\<rparr>"

definition getattr_xdr :: "nfsarg xdr" where
  "getattr_xdr = field nfsarg_getattr_arg nfsarg_getattr_arg_update xdr_getattrargs"


section \<open>Replies\<close>

text \<open>C16: Every reply of the NFS protocol but the one of a read is read back by the client as the server has sent it.\<close>
theorem nfs_replies_come_back:
  "reads_back xdr_getattrret (\<lambda>v. True) (\<lambda>_. same_getattr_ret) \<and>
   reads_back xdr_setattrret (\<lambda>v. True) (\<lambda>_. same_setattr3_res) \<and>
   reads_back xdr_lookupret (\<lambda>v. True) (\<lambda>_. same_lookup_ret) \<and>
   reads_back xdr_accessret (\<lambda>v. True) (\<lambda>_. same_access_ret) \<and>
   reads_back xdr_readlinkret ok_readlink_res (\<lambda>_. same_readlink_res) \<and>
   reads_back xdr_writeret (\<lambda>v. True) (\<lambda>_. same_write_ret) \<and>
   reads_back xdr_createret (\<lambda>v. True) (\<lambda>_. same_create_ret) \<and>
   reads_back xdr_mkdirret (\<lambda>v. True) (\<lambda>_. same_mkdir_ret) \<and>
   reads_back xdr_symlinkret (\<lambda>v. True) (\<lambda>_. same_symlink_res) \<and>
   reads_back xdr_mknodret (\<lambda>v. True) (\<lambda>_. same_mknod_res) \<and>
   reads_back xdr_removeret (\<lambda>v. True) (\<lambda>_. same_remove_ret) \<and>
   reads_back xdr_rmdirret (\<lambda>v. True) (\<lambda>_. same_remove_ret) \<and>
   reads_back xdr_renameret (\<lambda>v. True) (\<lambda>_. same_rename_ret) \<and>
   reads_back xdr_linkret (\<lambda>v. True) (\<lambda>_. same_LINK3res) \<and>
   reads_back xdr_readdirret ok_readdir_ret (\<lambda>_. same_readdir_ret) \<and>
   reads_back xdr_readdirplusret ok_readdirplus_ret (\<lambda>_. same_readdirplus_ret) \<and>
   reads_back xdr_fsstatret (\<lambda>v. True) (\<lambda>_. same_fsstat_ret) \<and>
   reads_back xdr_fsinforet (\<lambda>v. True) (\<lambda>_. same_fsinfo_ret) \<and>
   reads_back xdr_pathconf3_ret (\<lambda>v. True) (\<lambda>_. same_pathconf3_res) \<and>
   reads_back xdr_commitret (\<lambda>v. True) (\<lambda>_. same_commit_ret)"
  by (intro conjI back_rules)

end
