(* ===== verification/SunRpcProps.thy ===== *)
theory SunRpcProps
  imports NfsServer
begin

text \<open>
  What the records of a connection are to be: the calls that the client has sent, one after the other. A call is its
  head, the credentials and the verifier of its sender, and the bytes of its arguments.

  Any number of calls that arrive on a connection become tasks, one for each, with the request, the user and
  the arguments of the call, and what has arrived of the next call stays in the buffer.
\<close>

unbundle bit_operations_syntax

section \<open>Calls as bytes\<close>

record unix_user =
  user_stamp :: "32 word"
  user_machine :: "octet list"
  user_uid :: "32 word"
  user_gid :: "32 word"
  user_groups :: "octet list"

record rpc_call =
  call_xid :: "octet list"
  call_rpcversion :: "32 word"
  call_program :: "32 word"
  call_progversion :: "32 word"
  call_procedure :: "32 word"
  call_flavor :: "32 word"
  call_user :: "unix_user option"
  call_verifier :: "32 word \<times> octet list"
  call_args :: "octet list"

definition user_bytes :: "unix_user option \<Rightarrow> octet list" where
  "user_bytes u =
     (case u of
        None \<Rightarrow> []
      | Some u \<Rightarrow>
          be32 (user_stamp u) @ be32 (of_nat (length (user_machine u))) @ user_machine u @
          replicate (tail_of (length (user_machine u))) 0 @ be32 (user_uid u) @ be32 (user_gid u) @ user_groups u)"

definition auth_bytes :: "32 word \<Rightarrow> octet list \<Rightarrow> octet list" where
  "auth_bytes flavor d = be32 flavor @ be32 (of_nat (length d)) @ d"

definition call_bytes :: "rpc_call \<Rightarrow> octet list" where
  "call_bytes c =
     call_xid c @ be32 SUNRPC_REQ_MSG @ be32 (call_rpcversion c) @ be32 (call_program c) @ be32 (call_progversion c) @
     be32 (call_procedure c) @ auth_bytes (call_flavor c) (user_bytes (call_user c)) @
     auth_bytes (fst (call_verifier c)) (snd (call_verifier c)) @ call_args c"

definition record_bytes :: "rpc_call \<Rightarrow> octet list" where
  "record_bytes c = be32 (last_bit OR of_nat (length (call_bytes c))) @ call_bytes c"

definition call_ok :: "rpc_call \<Rightarrow> bool" where
  "call_ok c \<longleftrightarrow> length (call_xid c) = 4 \<and> length (user_bytes (call_user c)) \<le> 392 \<and>
     (case call_user c of None \<Rightarrow> True | Some u \<Rightarrow> length (user_machine u) \<le> 255) \<and>
     length (snd (call_verifier c)) \<le> 392 \<and> length (record_bytes c) < 2 ^ 31"

text \<open>The request that is made of it.\<close>

definition call_request :: "rpc_call \<Rightarrow> sunrpc_request" where
  "call_request c =
     \<lparr>req_length = of_nat (length (call_bytes c)), req_xid = call_xid c, req_msgtype = SUNRPC_REQ_MSG,
      req_rpcversion = call_rpcversion c, req_program = call_program c, req_progversion = call_progversion c,
      req_procedure = call_procedure c\<rparr>"

definition call_uid :: "rpc_call \<Rightarrow> 32 word" where
  "call_uid c = (case call_user c of None \<Rightarrow> 0 | Some u \<Rightarrow> user_uid u)"

definition call_gid :: "rpc_call \<Rightarrow> 32 word" where
  "call_gid c = (case call_user c of None \<Rightarrow> 0 | Some u \<Rightarrow> user_gid u)"

definition task_of :: "mem \<Rightarrow> rpc_call \<Rightarrow> task \<Rightarrow> bool" where
  "task_of m c t \<longleftrightarrow> task_req t = call_request c \<and> task_uid t = call_uid c \<and> task_gid t = call_gid c \<and>
     text_of m (task_buf t) = call_args c"

section \<open>Numbers of a head\<close>

lemma be_at_first [simp]: "be_at 0 (be32 x @ r) = x" "be_at 0 (be32 x) = x"
  by (simp_all add: be_at_def)

lemma be_at_behind: "length d \<le> k \<Longrightarrow> be_at k (d @ r) = be_at (k - length d) r"
  by (simp add: be_at_def)

lemma be_at_take: "k + 4 \<le> n \<Longrightarrow> be_at k (take n d) = be_at k d"
  by (simp add: be_at_def take_drop min_def)

lemma high_bit: "n < 2 ^ 31 \<Longrightarrow> \<not> bit (of_nat n :: 32 word) 31"
  by (simp only: bit_of_nat_iff) (simp add: bit_iff_odd [where 'a = nat])

lemma last_bit_bit: "bit last_bit i \<longleftrightarrow> i = 31"
  unfolding last_bit_def bit_push_bit_iff bit_1_iff by auto

lemma last_of_length:
  assumes "n < 2 ^ 31"
  shows "(last_bit OR of_nat n) AND last_bit = last_bit" "(last_bit OR of_nat n) XOR last_bit = of_nat n"
proof -
  show "(last_bit OR of_nat n) AND last_bit = last_bit"
    by (rule bit_word_eqI) (auto simp: bit_and_iff bit_or_iff last_bit_bit)
  show "(last_bit OR of_nat n) XOR last_bit = of_nat n"
    by (rule bit_word_eqI) (use high_bit [OF assms] in \<open>auto simp: bit_xor_iff bit_or_iff last_bit_bit\<close>)
qed

lemma last_bit_nonzero: "last_bit \<noteq> 0"
  by (simp add: last_bit_def push_bit_eq_mult)

lemma of_nat_sless:
  assumes "a < 2 ^ 31" "b < 2 ^ 31"
  shows "(of_nat a :: 32 word) <s of_nat b \<longleftrightarrow> a < b"
proof -
  have "sint (of_nat k :: 32 word) = int k" if "k < 2 ^ 31" for k
    using that by (simp add: sint_uint unat_of_nat signed_take_bit_eq_if_positive high_bit bit_of_nat_iff_bit bit_iff_odd
        uint_nat take_bit_eq_mod)
  then show ?thesis
    using assms by (simp add: word_sless_alt)
qed

lemma record_length: "length (record_bytes c) = 4 + length (call_bytes c)"
  by (simp add: record_bytes_def)

lemma record_pack_len:
  assumes "call_ok c" "record_bytes c = d @ r" "28 \<le> length d"
  shows "sunrpc_pack_len d = Some (of_nat (length (record_bytes c)))"
proof -
  have "be_at 0 d = be_at 0 (record_bytes c)" using assms(2,3) by (simp add: be_at_def)
  then have l: "be_at 0 d = last_bit OR of_nat (length (call_bytes c))" by (simp add: record_bytes_def)
  have n: "length (call_bytes c) < 2 ^ 31" using assms(1) by (simp add: call_ok_def record_length)
  show ?thesis
    using assms(3) last_of_length [OF n] last_bit_nonzero
    by (simp add: sunrpc_pack_len_def sunrpc_request_size_def l record_length Let_def)
qed

section \<open>Taking a head off\<close>

lemma get_ok:
  assumes "holds m b R" "n \<le> length (text_of m b)"
  shows "mbuffer_get b n m = Some (take n (text_of m b))"
  using assms mbuffer_get_bytes [of b m n] holds_length [OF assms(1)] holds_readable [OF assms(1)] holds_sized(1) [OF assms(1)]
  by (simp add: text_of_def)

lemma uint32_decodes:
  assumes "good w R" "sent w = be32 x @ rest"
  obtains w' where "xdr_uint32 XDR_DECODE v w = Some (XDR_TRUE, x, w')" "kept w R w'" "sent w' = rest"
proof -
  obtain w' where "pop_msg 4 w = Some (be32 x, w')" "kept w R w'" "sent w' = rest"
    using pop_msg_ok [OF assms] by auto
  then show ?thesis
    using that [of w'] by (simp add: xdr_uint32_def through_long_def xdr_long_def ucast_long)
qed

lemma string_decodes:
  assumes g: "good w R" and n: "length d \<le> unat limit" "limit \<noteq> - 1"
    and s: "sent w = be32 (of_nat (length d)) @ d @ replicate (tail_of (length d)) 0 @ rest"
  obtains w' where "xdr_string limit XDR_DECODE p w = Some (XDR_TRUE, Some (d @ [0]), w')" "kept w R w'" "sent w' = rest"
proof -
  have "unat limit < 2 ^ LENGTH(32)" by (rule unsigned_less)
  then have "length d < 2 ^ LENGTH(32)" using n(1) by linarith
  then have l: "unat (of_nat (length d) :: 32 word) = length d" by (simp add: unat_of_nat)
  then have le: "of_nat (length d) \<le> limit" using n(1) by (simp add: word_le_nat_alt)
  have ne: "of_nat (length d) + 1 \<noteq> (0 :: 32 word)"
  proof
    assume "of_nat (length d) + 1 = (0 :: 32 word)"
    then have "of_nat (length d) = (- 1 :: 32 word)" by (simp add: eq_neg_iff_add_eq_0)
    then show False using le n(2) by (simp add: word_order.extremum_unique)
  qed
  have "sent w = be32 (of_nat (length d)) @ d @ replicate (tail_of (unat (of_nat (length d) :: 32 word))) 0 @ rest"
      "length d = unat (of_nat (length d) :: 32 word)"
    using s l by simp_all
  then obtain w' where "xdr_bytes limit XDR_DECODE (p, 0) w = Some (XDR_TRUE, (Some (d @ [0]), of_nat (length d)), w')"
      "kept w R w'" "sent w' = rest"
    by (rule bytes_decodes [OF g _ _ le ne])
  then show ?thesis
    using that [of w'] by (simp add: xdr_string_def)
qed

lemma take_auth_ok:
  assumes g: "good w R" and s: "sent w = auth_bytes f d @ rest" and d: "length d \<le> 392"
  obtains w' where "take_auth w = Some (\<lparr>auth_flavor = f, auth_length = of_nat (length d)\<rparr>, auth_bytes f d, w')"
    "kept w R w'" "sent w' = rest"
proof -
  obtain m b where w: "w = (m, b)" by (cases w)
  then have h: "holds m b R" and t: "text_of m b = auth_bytes f d @ rest" using g s by (simp_all add: good_def sent_def)
  have "mbuffer_get b 8 m = Some (take 8 (text_of m b))"
    by (rule get_ok [OF h]) (simp add: t auth_bytes_def)
  then have get: "mbuffer_get b auth_head_size m = Some (be32 f @ be32 (of_nat (length d)))"
    by (simp add: auth_head_size_def t auth_bytes_def)
  have n: "unat (of_nat (length d) + 8 :: 32 word) = length d + 8"
    using d by (simp add: unat_word_ariths unat_of_nat)
  obtain w' where "pop_msg (length d + 8) w = Some (auth_bytes f d, w')" "kept w R w'" "sent w' = rest"
    by (rule pop_msg_ok [OF g s, of "length d + 8"]) (simp_all add: auth_bytes_def)
  then show ?thesis
    using that [of w'] w get n d
    by (simp add: take_auth_def auth_head_of_def auth_head_size_def be_at_behind asserts_def MAX_AUTH_BYTES_def)
qed

lemma auth_unix_ok:
  assumes w: "world_ok m R" and n: "length (user_machine u) \<le> 255" "length (user_bytes (Some u)) < 2 ^ 32"
  obtains m' where "auth_unix_of (user_bytes (Some u)) m =
      Some (\<lparr>auth_stamp = user_stamp u, auth_machinename = Some (user_machine u @ [0]), auth_uid = user_uid u, auth_gid = user_gid u\<rparr>, m')"
    "world_ok m' R" "others_same m R m'"
proof -
  let ?d = "user_bytes (Some u)" and ?n = "user_machine u"
  have i: "mbuffer_init 0 m = Some (empty_buffer, m)" "holds m empty_buffer R"
    using holds_check [OF empty_holds [OF w]] empty_holds [OF w] by (simp_all add: mbuffer_init_def alloc_loop.simps)
  obtain b m1 where 1: "mbuffer_copy empty_buffer ?d m = Some (None, b, m1)" "holds m1 b R" "others_same m R m1" "text_of m1 b = ?d"
    using mbuffer_copy_ok [OF i(2), of ?d] n(2) by (auto simp: empty_buffer_def text_of_def)
  have g: "good (m1, b) R" "sent (m1, b) = be32 (user_stamp u) @ be32 (of_nat (length ?n)) @ ?n @
      replicate (tail_of (length ?n)) 0 @ be32 (user_uid u) @ be32 (user_gid u) @ user_groups u"
    using 1 by (simp_all add: good_def sent_def user_bytes_def)
  obtain w2 where 2: "xdr_uint32 XDR_DECODE 0 (m1, b) = Some (XDR_TRUE, user_stamp u, w2)" "kept (m1, b) R w2"
      "sent w2 = be32 (of_nat (length ?n)) @ ?n @ replicate (tail_of (length ?n)) 0 @ be32 (user_uid u) @ be32 (user_gid u) @ user_groups u"
    by (rule uint32_decodes [OF g])
  have l: "length ?n \<le> unat (255 :: 32 word)" "(255 :: 32 word) \<noteq> - 1" using n(1) by simp_all
  obtain w3 where 3: "xdr_string 255 XDR_DECODE None w2 = Some (XDR_TRUE, Some (?n @ [0]), w3)" "kept w2 R w3"
      "sent w3 = be32 (user_uid u) @ be32 (user_gid u) @ user_groups u"
    by (rule string_decodes [OF kept_good [OF 2(2)] l 2(3)])
  obtain w4 where 4: "xdr_uint32 XDR_DECODE 0 w3 = Some (XDR_TRUE, user_uid u, w4)" "kept w3 R w4"
      "sent w4 = be32 (user_gid u) @ user_groups u"
    by (rule uint32_decodes [OF kept_good [OF 3(2)] 3(3)])
  obtain w5 where 5: "xdr_uint32 XDR_DECODE 0 w4 = Some (XDR_TRUE, user_gid u, w5)" "kept w4 R w5"
    by (rule uint32_decodes [OF kept_good [OF 4(2)] 4(3)])
  obtain m5 b5 where w5: "w5 = (m5, b5)" by (cases w5)
  then have "holds m5 b5 R" using kept_good [OF 5(2)] by (simp add: good_def)
  from mbuffer_free_ok [OF this] obtain m6 where 6: "mbuffer_free b5 m5 = Some (empty_buffer, m6)" "world_ok m6 R" "others_same m5 R m6"
    by blast
  have "kept (m1, b) R w5" using kept_trans [OF kept_trans [OF kept_trans [OF 2(2) 3(2)] 4(2)] 5(2)] .
  then have "others_same m R m6"
    using 1(3) 6(3) w5 by (auto simp: kept_def intro: others_same_trans)
  then show ?thesis
    using that [of m6] i(1) 1(1) 2(1) 3(1) 4(1) 5(1) 6(1,2) w5 by (simp add: auth_unix_of_def)
qed

section \<open>One call\<close>

lemma newtask_ok:
  assumes "good (m, b) R"
  obtains t where "nfs_newtask req uid gid (m, b) = Some (t, (m, empty_buffer))" "holds m (task_buf t) R"
    "t = \<lparr>task_req = req, task_uid = uid, task_gid = gid, task_buf = task_buf t\<rparr>" "text_of m (task_buf t) = text_of m b"
proof -
  have h: "holds m b R" using assms by (simp add: good_def)
  have i: "mbuffer_init 0 m = Some (empty_buffer, m)"
    using holds_check [OF empty_holds [of m "mset (segs b) + R"]] h
    by (simp add: mbuffer_init_def alloc_loop.simps holds_def)
  have "both m empty_buffer b R"
    by (rule bothI) (use h in \<open>simp_all add: holds_def empty_buffer_def buffer_ok_def sized_right_def\<close>)
  moreover have "blen empty_buffer + blen b < 2 ^ 32"
    using holds_sized(1) [OF h] by (simp add: empty_buffer_def sized_right_def)
  ultimately obtain d where d: "mbuffer_merge empty_buffer b = Some (d, empty_buffer)" "both m d empty_buffer R"
      "text_of m d = text_of m empty_buffer @ text_of m b"
    using mbuffer_merge_ok by blast
  have "holds m d R" using d(2) by (simp add: both_def empty_buffer_def)
  then show ?thesis
    using that [of "\<lparr>task_req = req, task_uid = uid, task_gid = gid, task_buf = d\<rparr>"] i d(1,3)
    by (simp add: nfs_newtask_def text_of_def empty_buffer_def)
qed

lemma request_head_call:
  assumes "call_ok c"
  shows "request_head (take 28 (record_bytes c @ r)) = call_request c"
    "be_at 0 (take 28 (record_bytes c @ r)) AND last_bit = last_bit"
proof -
  have x: "length (call_xid c) = 4" and n: "length (call_bytes c) < 2 ^ 31"
    using assms by (auto simp: call_ok_def record_length)
  note at = be_at_take be_at_behind x last_of_length [OF n]
  show "be_at 0 (take 28 (record_bytes c @ r)) AND last_bit = last_bit"
    using at by (simp add: record_bytes_def)
  show "request_head (take 28 (record_bytes c @ r)) = call_request c"
    using at by (simp add: request_head_def call_request_def record_bytes_def call_bytes_def)
qed

text \<open>The credentials, with the user or without.\<close>

lemma credentials_ok:
  assumes c: "call_ok c" and g: "good w R" and s: "sent w = auth_bytes (call_flavor c) (user_bytes (call_user c)) @ rest"
  obtains cred d w1 w2 where "take_auth w = Some (cred, d, w1)"
    "(if auth_length cred \<noteq> 0
      then do {
        asserts (auth_head_size + unat (auth_length cred) \<le> length d);
        (auth, m) \<leftarrow> auth_unix_of (take (unat (auth_length cred)) (drop auth_head_size d)) (fst w1);
        asserts (auth_machinename auth \<noteq> None);
        Some (auth_uid auth, auth_gid auth, (m, snd w1))
      }
      else Some (0, 0, w1)) = Some (call_uid c, call_gid c, w2)"
    "kept w R w2" "sent w2 = rest"
proof -
  let ?d = "user_bytes (call_user c)"
  have l: "length ?d \<le> 392" using c by (simp add: call_ok_def)
  obtain w1 where 1: "take_auth w = Some (\<lparr>auth_flavor = call_flavor c, auth_length = of_nat (length ?d)\<rparr>,
      auth_bytes (call_flavor c) ?d, w1)" "kept w R w1" "sent w1 = rest"
    by (rule take_auth_ok [OF g s l])
  have n: "unat (of_nat (length ?d) :: 32 word) = length ?d" using l by (simp add: unat_of_nat)
  have body: "take (length ?d) (drop 8 (auth_bytes (call_flavor c) ?d)) = ?d"
    by (simp add: auth_bytes_def)
  show ?thesis
  proof (cases "call_user c")
    case None
    then show ?thesis
      using that [OF 1(1) _ 1(2,3)] by (simp add: user_bytes_def call_uid_def call_gid_def)
  next
    case (Some u)
    obtain m b where w1: "w1 = (m, b)" by (cases w1)
    have h: "holds m b R" using kept_good [OF 1(2)] w1 by (simp add: good_def)
    then have "world_ok m (mset (segs b) + R)" by (simp add: holds_def)
    moreover have "length (user_machine u) \<le> 255" "length (user_bytes (Some u)) < 2 ^ 32"
      using c Some by (simp_all add: call_ok_def)
    ultimately obtain m' where m': "auth_unix_of ?d m = Some (\<lparr>auth_stamp = user_stamp u,
        auth_machinename = Some (user_machine u @ [0]), auth_uid = user_uid u, auth_gid = user_gid u\<rparr>, m')"
        "world_ok m' (mset (segs b) + R)" "others_same m (mset (segs b) + R) m'"
      unfolding Some by (rule auth_unix_ok)
    have t: "text_of m' b = text_of m b"
      unfolding text_of_def by (rule bytes_others [OF m'(3)]) simp
    have k: "kept w1 R (m', b)"
      using m'(2,3) h w1 by (auto simp: kept_def good_def holds_def others_same_def)
    have nz: "of_nat (length ?d) \<noteq> (0 :: 32 word)"
    proof
      assume "of_nat (length ?d) = (0 :: 32 word)"
      then have "length ?d = 0" using n by simp
      then show False by (simp add: Some user_bytes_def be32_def)
    qed
    show ?thesis
      using that [OF 1(1), of "(m', b)"] kept_trans [OF 1(2) k] 1(3) m'(1) w1 t Some nz n body
      by (simp add: auth_head_size_def asserts_def call_uid_def call_gid_def sent_def auth_bytes_def)
  qed
qed

lemma request_handler_ok:
  assumes c: "call_ok c" and g: "good w R" and s: "sent w = record_bytes c"
  obtains t m b where "sunrpc_request_handler w = Some (t, (m, b))" "holds m (task_buf t) R" "task_of m c t"
    "others_same (fst w) R m"
proof -
  let ?r = "auth_bytes (call_flavor c) (user_bytes (call_user c)) @
     auth_bytes (fst (call_verifier c)) (snd (call_verifier c)) @ call_args c"
  have s0: "sent w = take 28 (record_bytes c @ []) @ ?r" and l0: "length (take 28 (record_bytes c @ [])) = sunrpc_request_size"
    using s c by (simp_all add: record_bytes_def call_bytes_def call_ok_def sunrpc_request_size_def)
  obtain w1 where 1: "pop_msg sunrpc_request_size w = Some (take 28 (record_bytes c @ []), w1)" "kept w R w1" "sent w1 = ?r"
    by (rule pop_msg_ok [OF g s0 l0])
  note head = request_head_call [OF c, of "[]"]
  obtain cred d w2 w3 where 2: "take_auth w1 = Some (cred, d, w2)"
    "(if auth_length cred \<noteq> 0
      then do {
        asserts (auth_head_size + unat (auth_length cred) \<le> length d);
        (auth, m) \<leftarrow> auth_unix_of (take (unat (auth_length cred)) (drop auth_head_size d)) (fst w2);
        asserts (auth_machinename auth \<noteq> None);
        Some (auth_uid auth, auth_gid auth, (m, snd w2))
      }
      else Some (0, 0, w2)) = Some (call_uid c, call_gid c, w3)"
    "kept w1 R w3" "sent w3 = auth_bytes (fst (call_verifier c)) (snd (call_verifier c)) @ call_args c"
    by (rule credentials_ok [OF c kept_good [OF 1(2)] 1(3)])
  have v: "length (snd (call_verifier c)) \<le> 392" using c by (simp add: call_ok_def)
  obtain w4 where 3: "take_auth w3 = Some (\<lparr>auth_flavor = fst (call_verifier c), auth_length = of_nat (length (snd (call_verifier c)))\<rparr>,
      auth_bytes (fst (call_verifier c)) (snd (call_verifier c)), w4)" "kept w3 R w4" "sent w4 = call_args c"
    by (rule take_auth_ok [OF kept_good [OF 2(3)] 2(4) v])
  obtain m b where w4: "w4 = (m, b)" by (cases w4)
  then have "good (m, b) R" using kept_good [OF 3(2)] by simp
  then obtain t where t: "nfs_newtask (call_request c) (call_uid c) (call_gid c) (m, b) = Some (t, (m, empty_buffer))" "holds m (task_buf t) R"
    "t = \<lparr>task_req = call_request c, task_uid = call_uid c, task_gid = call_gid c, task_buf = task_buf t\<rparr>"
    "text_of m (task_buf t) = text_of m b"
    by (rule newtask_ok)
  have "kept w R (m, b)" using kept_trans [OF kept_trans [OF 1(2) 2(3)] 3(2)] w4 by simp
  then have o: "others_same (fst w) R m" by (simp add: kept_def)
  have "task_req t = call_request c" "task_uid t = call_uid c" "task_gid t = call_gid c"
    by (subst t(3), simp)+
  then have "task_of m c t" using t(4) 3(3) w4 by (simp add: task_of_def sent_def)
  moreover have "sunrpc_request_handler w = Some (t, (m, empty_buffer))"
    using 1(1) 2(1,2) 3(1) t(1) head w4 by (simp add: sunrpc_request_handler_def asserts_def cong: if_cong)
  ultimately show ?thesis using that t(2) o by blast
qed

lemma pack_handler_ok:
  assumes c: "call_ok c" and g: "good w R" and s: "sent w = record_bytes c"
  obtains t m b where "sunrpc_pack_handler w = Some (t, (m, b))" "holds m (task_buf t) R" "task_of m c t" "others_same (fst w) R m"
proof -
  obtain m b where w: "w = (m, b)" by (cases w)
  then have h: "holds m b R" and t: "text_of m b = record_bytes c" using g s by (simp_all add: good_def sent_def)
  have x: "length (call_xid c) = 4" using c by (simp add: call_ok_def)
  have "mbuffer_get b sunrpc_proto_size m = Some (take 12 (record_bytes c))"
    using get_ok [OF h, of 12] x t by (simp add: sunrpc_proto_size_def record_bytes_def call_bytes_def)
  moreover have "be_at 8 (take 12 (record_bytes c)) = SUNRPC_REQ_MSG"
    using x by (simp add: be_at_take be_at_behind record_bytes_def call_bytes_def)
  ultimately have "sunrpc_pack_handler w = sunrpc_request_handler w"
    using w by (simp add: sunrpc_pack_handler_def asserts_def)
  then show ?thesis
    using request_handler_ok [OF c g s] that by metis
qed

section \<open>Many calls\<close>

text \<open>Buffers that are held together.\<close>

definition all_held :: "mem \<Rightarrow> buffer list \<Rightarrow> seg multiset \<Rightarrow> bool" where
  "all_held m bs R \<longleftrightarrow> world_ok m (mset (concat (List.map segs bs)) + R) \<and> (\<forall>b \<in> set bs. buffer_ok b)"

lemma record_taken:
  assumes c: "call_ok c" and g: "good (m, b) R" and s: "sent (m, b) = record_bytes c @ rest" and n: "length (sent (m, b)) < 2 ^ 31"
  obtains t m' b' where "sunrpc_record (m, b) = Some (Some (t, (m', b')))" "both m' b' (task_buf t) R" "task_of m' c t"
    "text_of m' b' = rest" "others_same m R m'"
proof -
  let ?n = "length (record_bytes c)"
  have h: "holds m b R" and t: "text_of m b = record_bytes c @ rest" using g s by (simp_all add: good_def sent_def)
  have l: "blen b = ?n + length rest" using holds_length [OF h] t by simp
  have x: "28 \<le> ?n" using c by (simp add: record_bytes_def call_bytes_def call_ok_def auth_bytes_def)
  have d: "mbuffer_get b sunrpc_request_size m = Some (take 28 (record_bytes c))"
    using get_ok [OF h, of 28] t x by (simp add: sunrpc_request_size_def)
  have p: "sunrpc_pack_len (take 28 (record_bytes c)) = Some (of_nat ?n)"
    by (rule record_pack_len [OF c, of _ "drop 28 (record_bytes c)"]) (use x in simp_all)
  have lt: "?n < 2 ^ 31" "blen b < 2 ^ 31" using n l t by (simp_all add: sent_def)
  have less: "\<not> (of_nat (blen b) :: 32 word) <s of_nat ?n"
    using of_nat_sless [OF lt(2,1)] l by simp
  have u: "unat (of_nat ?n :: 32 word) = ?n" using lt(1) by (simp add: unat_of_nat)
  have w: "world_ok m (mset (segs b) + R)" using h by (simp add: holds_def)
  have i: "mbuffer_init 0 m = Some (empty_buffer, m)"
    using holds_check [OF empty_holds [OF w]] by (simp add: mbuffer_init_def alloc_loop.simps)
  have "both m b empty_buffer R"
    by (rule bothI) (use h in \<open>simp_all add: holds_def empty_buffer_def buffer_ok_def sized_right_def\<close>)
  moreover have "blen empty_buffer + ?n < 2 ^ 32" using lt(1) by (simp add: empty_buffer_def)
  moreover have "0 < ?n" "?n \<le> blen b" using x l by auto
  ultimately obtain b1 nb m1 where 1: "mbuffer_pop b (Some empty_buffer) ?n m = Some (None, b1, Some nb, m1)" "both m1 b1 nb R"
      "others_same m R m1" "text_of m1 b1 = rest" "text_of m1 nb = record_bytes c"
    using mbuffer_pop_ok [of m b empty_buffer R ?n] t by (auto simp: text_of_def empty_buffer_def)
  have "good (m1, nb) (mset (segs b1) + R)" "sent (m1, nb) = record_bytes c"
    using 1(2,5) by (simp_all add: both_def good_def sent_def)
  from pack_handler_ok [OF c this] obtain t m2 b2 where 2: "sunrpc_pack_handler (m1, nb) = Some (t, (m2, b2))"
      "holds m2 (task_buf t) (mset (segs b1) + R)" "task_of m2 c t" "others_same m1 (mset (segs b1) + R) m2"
    by (metis fst_conv)
  have "text_of m2 b1 = rest"
    using 1(4) bytes_others [OF 2(4), of "segs b1"] by (simp add: text_of_def)
  moreover have "both m2 b1 (task_buf t) R"
    using 2(2) 1(2) by (intro bothI) (auto simp: holds_def both_def ac_simps)
  moreover have "others_same m R m2"
    using 1(3) 2(4) others_same_trans others_same_mono by (metis add.commute)
  moreover have "sunrpc_record (m, b) = Some (Some (t, (m2, b1)))"
    using l x i d p less u 1(1) 2(1) by (simp add: sunrpc_record_def sunrpc_request_size_def)
  ultimately show ?thesis using that 2(3) by blast
qed

text \<open>What has arrived of a call, but not all of it.\<close>

definition incomplete :: "octet list \<Rightarrow> bool" where
  "incomplete d \<longleftrightarrow> (\<exists>c more. call_ok c \<and> more \<noteq> [] \<and> record_bytes c = d @ more)"

lemma record_waits:
  assumes g: "good (m, b) R" and s: "incomplete (sent (m, b))"
  shows "sunrpc_record (m, b) = Some None"
proof (cases "28 \<le> blen b")
  case True
  obtain c more where c: "call_ok c" "more \<noteq> []" "record_bytes c = sent (m, b) @ more"
    using s by (auto simp: incomplete_def)
  have h: "holds m b R" using g by (simp add: good_def)
  have l: "length (sent (m, b)) = blen b" using holds_length [OF h] by (simp add: sent_def)
  have d: "mbuffer_get b sunrpc_request_size m = Some (take 28 (sent (m, b)))"
    using get_ok [OF h, of 28] True l by (simp add: sunrpc_request_size_def sent_def)
  have p: "sunrpc_pack_len (take 28 (sent (m, b))) = Some (of_nat (length (record_bytes c)))"
    by (rule record_pack_len [OF c(1), of _ "drop 28 (sent (m, b)) @ more"])
      (use True l c(3) append_take_drop_id [of 28 "sent (m, b)"] in \<open>simp_all del: append_take_drop_id add: append_assoc [symmetric]\<close>)
  have "length (record_bytes c) < 2 ^ 31" "blen b < length (record_bytes c)"
    using c l by (auto simp: call_ok_def)
  then have "(of_nat (blen b) :: 32 word) <s of_nat (length (record_bytes c))"
    using of_nat_sless by simp
  then show ?thesis
    using True d p by (simp add: sunrpc_record_def sunrpc_request_size_def)
qed (simp add: sunrpc_record_def sunrpc_request_size_def)

lemma recv_tasks:
  assumes "\<forall>c \<in> set cs. call_ok c" "incomplete rest"
    and "good (m, b) R" "sent (m, b) = concat (List.map record_bytes cs) @ rest" "length (sent (m, b)) < 2 ^ 31"
  shows "\<exists>ts m' b'. sunrpc_recv (m, b) = Some (ts, (m', b')) \<and> text_of m' b' = rest \<and> list_all2 (task_of m') cs ts \<and>
    all_held m' (b' # List.map task_buf ts) R \<and> others_same m R m'"
  using assms(1,3-)
proof (induction cs arbitrary: m b R)
  case Nil
  have "sunrpc_record (m, b) = Some None"
    by (rule record_waits [OF Nil(2)]) (use Nil(3) assms(2) in simp)
  then show ?case
    using Nil by (subst sunrpc_recv.simps) (simp add: sent_def good_def all_held_def holds_def)
next
  case (Cons c cs)
  let ?rest = "concat (List.map record_bytes cs) @ rest"
  have "call_ok c" and s: "sent (m, b) = record_bytes c @ ?rest" using Cons.prems by simp_all
  then obtain t m1 b1 where 1: "sunrpc_record (m, b) = Some (Some (t, (m1, b1)))" "both m1 b1 (task_buf t) R" "task_of m1 c t"
      "text_of m1 b1 = ?rest" "others_same m R m1"
    using record_taken [OF _ Cons.prems(2) _ Cons.prems(4)] by blast
  have "good (m1, b1) (mset (segs (task_buf t)) + R)" using 1(2) by (simp add: both_def good_def)
  moreover have "sent (m1, b1) = ?rest" "length (sent (m1, b1)) < 2 ^ 31"
    using 1(4) s Cons.prems(4) by (simp_all add: sent_def)
  ultimately obtain ts m2 b2 where 2: "sunrpc_recv (m1, b1) = Some (ts, (m2, b2))" "text_of m2 b2 = rest"
      "list_all2 (task_of m2) cs ts" "all_held m2 (b2 # List.map task_buf ts) (mset (segs (task_buf t)) + R)"
      "others_same m1 (mset (segs (task_buf t)) + R) m2"
    using Cons.IH [of m1 b1 "mset (segs (task_buf t)) + R"] Cons.prems(1) by auto
  have "text_of m2 (task_buf t) = text_of m1 (task_buf t)"
    unfolding text_of_def by (rule bytes_others [OF 2(5)]) simp
  then have "task_of m2 c t" using 1(3) by (simp add: task_of_def)
  moreover have "all_held m2 (b2 # List.map task_buf (t # ts)) R"
    using 2(4) 1(2) by (simp add: all_held_def both_def holds_def ac_simps)
  moreover have "others_same m R m2"
    using 1(5) 2(5) others_same_trans others_same_mono by (metis add.commute)
  moreover have "sunrpc_recv (m, b) = Some (t # ts, (m2, b2))"
    using 1(1) 2(1) by (subst sunrpc_recv.simps) simp
  ultimately show ?case using 2(2,3) by auto
qed

text \<open>C14: The calls that arrive on a connection are taken apart as they were put together: when the bytes that are there are
  those of any number of calls and the beginning of one more, the server makes one task of each call, in their order, with
  its head, the user and the group of its credentials (those of the system where it has none) and the bytes of its arguments;
  what has arrived of the next call stays for the next time, no two buffers share a segment and nobody else's changes.\<close>
theorem requests_are_taken:
  assumes "\<forall>c \<in> set cs. call_ok c" "incomplete rest"
    and "good w R" "sent w = concat (List.map record_bytes cs) @ rest" "length (sent w) < 2 ^ 31"
  shows "\<exists>ts m b. sunrpc_recv w = Some (ts, (m, b)) \<and> text_of m b = rest \<and> list_all2 (task_of m) cs ts \<and>
    all_held m (b # List.map task_buf ts) R \<and> others_same (fst w) R m"
  using recv_tasks [of cs rest "fst w" "snd w" R] assms by simp

definition some_call :: "octet \<Rightarrow> unix_user option \<Rightarrow> rpc_call" where
  "some_call x u =
     \<lparr>call_xid = [0, 0, 0, x], call_rpcversion = 2, call_program = 100003, call_progversion = 3, call_procedure = 0,
      call_flavor = 1, call_user = u, call_verifier = (0, []), call_args = [0, 0, 0, x]\<rparr>"

definition some_user :: unix_user where
  "some_user = \<lparr>user_stamp = 5, user_machine = [104, 111, 115, 116, 49], user_uid = 1000, user_gid = 100, user_groups = be32 0\<rparr>"

lemma some_call_ok: "call_ok (some_call x (Some some_user))" "call_ok (some_call x None)"
  by (simp_all add: call_ok_def some_call_def some_user_def user_bytes_def record_bytes_def call_bytes_def auth_bytes_def tail_of_def)

text \<open>Two calls, the first of a user, and the first bytes of a third.\<close>

theorem requests_are_taken_witness:
  "\<exists>w ts m b. sent w = concat (List.map record_bytes [some_call 7 (Some some_user), some_call 8 None]) @ take 5 (record_bytes (some_call 9 None)) \<and>
     sunrpc_recv w = Some (ts, (m, b)) \<and> List.map task_uid ts = [1000, 0] \<and>
     List.map (\<lambda>t. text_of m (task_buf t)) ts = [[0, 0, 0, 7], [0, 0, 0, 8]] \<and>
     text_of m b = take 5 (record_bytes (some_call 9 None))"
proof -
  let ?cs = "[some_call 7 (Some some_user), some_call 8 None]" and ?rest = "take 5 (record_bytes (some_call 9 None))"
  let ?d = "concat (List.map record_bytes ?cs) @ ?rest"
  have n: "length ?d < 2 ^ 31" "?d \<noteq> []"
    by (simp_all add: some_call_def some_user_def user_bytes_def record_bytes_def call_bytes_def auth_bytes_def tail_of_def)
  have h: "holds plain_mem empty_buffer {#}" using plain_good(1) by (simp add: good_def)
  obtain b m where b: "holds m b {#}" "text_of m b = ?d"
    using mbuffer_copy_ok [OF h, of ?d] n by (auto simp: empty_buffer_def text_of_def)
  have "drop 5 (record_bytes (some_call 9 None)) \<noteq> []"
    by (simp add: some_call_def user_bytes_def record_bytes_def call_bytes_def auth_bytes_def)
  then have "incomplete ?rest"
    unfolding incomplete_def by (intro exI conjI) (rule some_call_ok(2), assumption, simp)
  then obtain ts m1 b1 where 1: "sunrpc_recv (m, b) = Some (ts, (m1, b1))" "text_of m1 b1 = ?rest" "list_all2 (task_of m1) ?cs ts"
    using requests_are_taken [of ?cs ?rest "(m, b)" "{#}"] b n(1) by (auto simp: some_call_ok good_def sent_def)
  have "List.map task_uid ts = [1000, 0]" "List.map (\<lambda>t. text_of m1 (task_buf t)) ts = [[0, 0, 0, 7], [0, 0, 0, 8]]"
    using 1(3) by (auto simp: list_all2_Cons1 task_of_def call_uid_def some_call_def some_user_def)
  moreover have "sent (m, b) = ?d" using b(2) by (simp add: sent_def)
  ultimately show ?thesis using 1(1,2) by (intro exI conjI)
qed

end
